(* ===== verification/Prelude.thy ===== *)
theory Prelude
  imports Main "HOL-Library.Word"
begin

text \<open>
  Shared vocabulary of the development: the C integer types as words, the result codes of
  the virtual machine, the outcome type of C functions that can fail or run into undefined
  behaviour, little-endian words (\<open>read_u32_le\<close> of \<open>src/cvm.c\<close>), the byte strings of the C
  library, and generic lemmas on lists and words collected in \<open>word_arith\<close> and
  \<open>list_slice\<close>.
\<close>

unbundle bit_operations_syntax

named_theorems word_arith \<open>machine words read as natural numbers\<close>
named_theorems list_slice \<open>take, drop and update on byte lists\<close>

section \<open>C integer types\<close>

type_synonym u8 = "8 word"
type_synonym u16 = "16 word"
type_synonym u32 = "32 word"
type_synonym u64 = "64 word"
type_synonym byte = u8

section \<open>Result codes\<close>

text \<open>The \<open>enum cvm_result\<close> of \<open>include/cvm.h\<close> without \<open>CVM_OK\<close>, which is the success case
  of the outcome types below.\<close>

datatype cvm_result =
    CVM_E_TRUNCATED | CVM_E_BAD_MAGIC | CVM_E_BAD_VERSION | CVM_E_BAD_SECTION
  | CVM_E_DUP_SECTION | CVM_E_NO_CODE | CVM_E_BAD_ENTRY | CVM_E_NOMEM
  | CVM_E_BAD_OPCODE | CVM_E_BAD_PC | CVM_E_BAD_ADDR | CVM_E_BAD_IMPORTS
  | CVM_E_NO_SUCH_IMPORT | CVM_E_BAD_SYSCALL | CVM_E_UNLINKED_SYSCALL
  | CVM_E_SYSCALL_TRAP | CVM_E_DIV_BY_ZERO | CVM_E_BAD_FUNCS | CVM_E_BAD_FUNC_INDEX
  | CVM_E_STACK_OVERFLOW | CVM_E_NULL_FUNC_PTR | CVM_E_BAD_REGION
  | CVM_E_NO_SUCH_REGION | CVM_E_BAD_CORO_STATE

section \<open>Outcomes of C functions\<close>

text \<open>
  \<open>Undef\<close> stands for undefined behaviour of the C program (an access outside an array, a
  signed overflow, an overlapping \<open>memcpy\<close>): it is a value of the model, so that its absence
  is a theorem. \<open>Fail\<close> is a return with an error code.
\<close>

datatype 'a cres = Undef | Fail cvm_result | Ret 'a

fun cbind :: "'a cres \<Rightarrow> ('a \<Rightarrow> 'b cres) \<Rightarrow> 'b cres" where
  "cbind Undef k = Undef"
| "cbind (Fail e) k = Fail e"
| "cbind (Ret x) k = k x"

text \<open>A C-level read that must not leave its array: \<open>None\<close> is undefined behaviour.\<close>

definition ub :: "'a option \<Rightarrow> ('a \<Rightarrow> 'b cres) \<Rightarrow> 'b cres" where
  "ub x k = (case x of None \<Rightarrow> Undef | Some v \<Rightarrow> k v)"

lemma ub_simps [simp]: "ub None k = Undef" "ub (Some v) k = k v"
  by (simp_all add: ub_def)

lemma cbind_eq_Ret [simp]: "cbind m k = Ret y \<longleftrightarrow> (\<exists>x. m = Ret x \<and> k x = Ret y)"
  by (cases m) auto

lemma cbind_eq_Undef:
  "cbind m k = Undef \<longleftrightarrow> m = Undef \<or> (\<exists>x. m = Ret x \<and> k x = Undef)"
  by (cases m) auto

section \<open>Words read as numbers\<close>

lemma unat_less_iff [word_arith]: "(x :: 'a::len word) < y \<longleftrightarrow> unat x < unat y"
  by (simp add: word_less_nat_alt)

lemma unat_le_iff [word_arith]: "(x :: 'a::len word) \<le> y \<longleftrightarrow> unat x \<le> unat y"
  by (simp add: word_le_nat_alt)

lemma unat_sub_le [word_arith]:
  "(y :: 'a::len word) \<le> x \<Longrightarrow> unat (x - y) = unat x - unat y"
  by (simp add: unat_sub word_le_nat_alt)

lemma unat_add_lt [word_arith]:
  "unat (x :: 'a::len word) + unat y < 2 ^ LENGTH('a) \<Longrightarrow> unat (x + y) = unat x + unat y"
  by (simp add: unat_word_ariths)

lemma unat_lt32 [simp]: "unat (x :: u32) < 4294967296"
  using unsigned_less [of x] by simp

lemma unat_lt8 [simp]: "unat (x :: u8) < 256"
  using unsigned_less [of x] by simp

text \<open>The bounds test of the interpreter, \<open>addr > size || size - addr < n\<close>, is exactly
  "the range does not fit": the subtraction cannot wrap.\<close>

lemma bounds_test:
  fixes a sz n :: u32
  shows "(a > sz \<or> sz - a < n) \<longleftrightarrow> \<not> unat a + unat n \<le> unat sz"
proof (cases "a \<le> sz")
  case True
  then have "unat (sz - a) = unat sz - unat a" by (rule unat_sub_le)
  with True show ?thesis by (auto simp: word_arith not_less)
next
  case False
  then show ?thesis by (auto simp: word_arith not_le)
qed

section \<open>Little-endian words\<close>

text \<open>\<open>read_u32_le\<close> of \<open>src/cvm.c\<close> on the four bytes at the pointer; the host layout of a
  32-bit \<open>memcpy\<close> is taken to be little-endian, the execution model of the machine.\<close>

definition le32 :: "byte \<Rightarrow> byte \<Rightarrow> byte \<Rightarrow> byte \<Rightarrow> u32" where
  "le32 b0 b1 b2 b3 =
     ucast b0 OR push_bit 8 (ucast b1) OR push_bit 16 (ucast b2) OR push_bit 24 (ucast b3)"

definition to_le32 :: "u32 \<Rightarrow> byte list" where
  "to_le32 v = [ucast v, ucast (drop_bit 8 v), ucast (drop_bit 16 v), ucast (drop_bit 24 v)]"

definition of_le32 :: "byte list \<Rightarrow> u32" where
  "of_le32 bs = le32 (bs ! 0) (bs ! 1) (bs ! 2) (bs ! 3)"

lemma length_to_le32 [simp]: "length (to_le32 v) = 4"
  by (simp add: to_le32_def)

lemma bit8_lt: "bit (b :: byte) n \<Longrightarrow> n < 8"
  using bit_imp_le_length [of b n] by simp

lemma bit_push_byte:
  "k \<le> 24 \<Longrightarrow> bit (push_bit k (ucast (b :: byte)) :: u32) n \<longleftrightarrow> k \<le> n \<and> bit b (n - k)"
  using bit8_lt [of b "n - k"] by (auto simp: bit_push_bit_iff bit_unsigned_iff)

lemma bit_le32:
  "bit (le32 b0 b1 b2 b3) n \<longleftrightarrow>
     bit b0 n \<or> 8 \<le> n \<and> bit b1 (n - 8)
     \<or> 16 \<le> n \<and> bit b2 (n - 16) \<or> 24 \<le> n \<and> bit b3 (n - 24)"
  using bit_push_byte [of 0 b0 n] by (simp add: le32_def bit_or_iff bit_push_byte)

lemma bit8_ge [simp]: "8 \<le> n \<Longrightarrow> \<not> bit (b :: byte) n"
  using bit8_lt [of b n] by auto

lemma of_to_le32 [simp]: "of_le32 (to_le32 v) = v"
proof (rule bit_word_eqI)
  fix n assume "n < LENGTH(32)"
  then consider "n < 8" | "8 \<le> n" "n < 16" | "16 \<le> n" "n < 24" | "24 \<le> n" "n < 32"
    by fastforce
  then show "bit (of_le32 (to_le32 v)) n = bit v n"
    by cases (auto simp: of_le32_def to_le32_def bit_le32 bit_simps)
qed

lemma le32_bytes:
  "ucast (le32 b0 b1 b2 b3) = b0" "ucast (drop_bit 8 (le32 b0 b1 b2 b3)) = b1"
  "ucast (drop_bit 16 (le32 b0 b1 b2 b3)) = b2" "ucast (drop_bit 24 (le32 b0 b1 b2 b3)) = b3"
  by (rule bit_word_eqI; simp add: bit_le32 bit_simps)+

lemma to_le32_le32 [simp]: "to_le32 (le32 b0 b1 b2 b3) = [b0, b1, b2, b3]"
  by (simp add: to_le32_def le32_bytes)

lemma length4_conv: "length bs = 4 \<Longrightarrow> \<exists>a b c d. bs = [a, b, c, d]"
  by (auto simp: length_Suc_conv numeral_eq_Suc)

lemma to_of_le32 [simp]: "length bs = 4 \<Longrightarrow> to_le32 (of_le32 bs) = bs"
  by (auto simp: of_le32_def dest!: length4_conv)

end
