(* ===== verification/Store.thy ===== *)
theory Store
  imports Prelude
begin

text \<open>
  The memory buffer of the virtual machine (\<open>img->heap\<close>, \<open>mem_size\<close> bytes) and the C accesses
  to it: \<open>memcpy\<close> of 1, 2 or 4 bytes between a register and the buffer, and the block
  operations \<open>memcpy\<close>, \<open>memmove\<close>, \<open>memset\<close>. An access outside the buffer is undefined in C
  and \<open>None\<close> here. The laws of such a store (what a read returns after a write, what a write
  keeps) are the locale \<open>byte_store\<close>; the 32-bit view \<open>word_store\<close>, which the stack, the jump
  buffers and the coroutine records rely on, follows from it.
\<close>

section \<open>The interface of a byte store\<close>

locale byte_store =
  fixes rd :: "'s \<Rightarrow> nat \<Rightarrow> nat \<Rightarrow> byte list option"
    and wr :: "'s \<Rightarrow> nat \<Rightarrow> byte list \<Rightarrow> 's option"
    and cap :: "'s \<Rightarrow> nat"
  assumes rd_defined: "(\<exists>bs. rd s a n = Some bs) \<longleftrightarrow> a + n \<le> cap s"
    and wr_defined: "(\<exists>s'. wr s a bs = Some s') \<longleftrightarrow> a + length bs \<le> cap s"
    and rd_length: "rd s a n = Some bs \<Longrightarrow> length bs = n"
    and wr_cap: "wr s a bs = Some s' \<Longrightarrow> cap s' = cap s"
    and rd_wr_same: "wr s a bs = Some s' \<Longrightarrow> rd s' a (length bs) = Some bs"
    and rd_wr_other:
      "wr s a bs = Some s' \<Longrightarrow> b + n \<le> a \<or> a + length bs \<le> b \<Longrightarrow> rd s' b n = rd s b n"

text \<open>The interface of a store of 32-bit words at byte addresses.\<close>

locale word_store =
  fixes ld :: "'s \<Rightarrow> nat \<Rightarrow> u32 option"
    and st :: "'s \<Rightarrow> nat \<Rightarrow> u32 \<Rightarrow> 's option"
    and cap :: "'s \<Rightarrow> nat"
  assumes ld_defined: "(\<exists>v. ld s a = Some v) \<longleftrightarrow> a + 4 \<le> cap s"
    and st_defined: "(\<exists>s'. st s a v = Some s') \<longleftrightarrow> a + 4 \<le> cap s"
    and st_cap: "st s a v = Some s' \<Longrightarrow> cap s' = cap s"
    and ld_st_same: "st s a v = Some s' \<Longrightarrow> ld s' a = Some v"
    and ld_st_other: "st s a v = Some s' \<Longrightarrow> b + 4 \<le> a \<or> a + 4 \<le> b \<Longrightarrow> ld s' b = ld s b"
begin

lemma st_SomeI: "a + 4 \<le> cap s \<Longrightarrow> \<exists>s'. st s a v = Some s' \<and> cap s' = cap s"
  using st_defined [of s a v] st_cap by blast

lemma st_defined_iff: "st s a v \<noteq> None \<longleftrightarrow> a + 4 \<le> cap s"
  using st_defined [of s a v] by auto

lemma ld_defined_iff: "ld s a \<noteq> None \<longleftrightarrow> a + 4 \<le> cap s"
  using ld_defined [of s a] by auto

text \<open>A record of three words written front to back, as \<open>setjmp\<close> does, reads back.\<close>

lemma st3_ld3:
  assumes "st s a x = Some s1" "st s1 (a + 4) y = Some s2" "st s2 (a + 8) z = Some s3"
  shows "ld s3 a = Some x" "ld s3 (a + 4) = Some y" "ld s3 (a + 8) = Some z"
    and "cap s3 = cap s"
    and "\<And>b. b + 4 \<le> a \<or> a + 12 \<le> b \<Longrightarrow> ld s3 b = ld s b"
proof -
  note same = ld_st_same [OF assms(1)] ld_st_same [OF assms(2)] ld_st_same [OF assms(3)]
  note other = ld_st_other [OF assms(1)] ld_st_other [OF assms(2)] ld_st_other [OF assms(3)]
  show "ld s3 a = Some x" "ld s3 (a + 4) = Some y" "ld s3 (a + 8) = Some z"
    using same by (simp_all add: other)
  show "cap s3 = cap s"
    using assms by (simp add: st_cap [of _ "a + 8"] st_cap [of _ "a + 4"] st_cap [of _ a])
  fix b assume "b + 4 \<le> a \<or> a + 12 \<le> b"
  then have "ld s1 b = ld s b" "ld s2 b = ld s1 b" "ld s3 b = ld s2 b"
    by (intro other; auto)+
  then show "ld s3 b = ld s b" by simp
qed

end

sublocale byte_store \<subseteq> words: word_store
  "\<lambda>s a. map_option of_le32 (rd s a 4)" "\<lambda>s a v. wr s a (to_le32 v)" cap
proof unfold_locales
  fix s a and v :: u32 and s' b
  show "(\<exists>v. map_option of_le32 (rd s a 4) = Some v) = (a + 4 \<le> cap s)"
    using rd_defined [of s a 4] by auto
  show "(\<exists>s'. wr s a (to_le32 v) = Some s') = (a + 4 \<le> cap s)"
    using wr_defined [of s a "to_le32 v"] by simp
  assume w: "wr s a (to_le32 v) = Some s'"
  show "cap s' = cap s" by (rule wr_cap [OF w])
  show "map_option of_le32 (rd s' a 4) = Some v"
    using rd_wr_same [OF w] by simp
  assume "b + 4 \<le> a \<or> a + 4 \<le> b"
  then show "map_option of_le32 (rd s' b 4) = map_option of_le32 (rd s b 4)"
    using rd_wr_other [OF w, of b 4] by simp
qed

section \<open>The heap buffer\<close>

type_synonym mem = "byte list"

definition mem_rd :: "mem \<Rightarrow> nat \<Rightarrow> nat \<Rightarrow> byte list option" where
  "mem_rd m a n = (if a + n \<le> length m then Some (take n (drop a m)) else None)"

definition mem_wr :: "mem \<Rightarrow> nat \<Rightarrow> byte list \<Rightarrow> mem option" where
  "mem_wr m a bs =
     (if a + length bs \<le> length m then Some (take a m @ bs @ drop (a + length bs) m) else None)"

definition rd8 :: "mem \<Rightarrow> nat \<Rightarrow> u8 option" where
  "rd8 m a = map_option (\<lambda>bs. bs ! 0) (mem_rd m a 1)"

definition wr8 :: "mem \<Rightarrow> nat \<Rightarrow> u8 \<Rightarrow> mem option" where
  "wr8 m a v = mem_wr m a [v]"

definition rd16 :: "mem \<Rightarrow> nat \<Rightarrow> u16 option" where
  "rd16 m a = map_option (\<lambda>bs. ucast (bs ! 0) OR push_bit 8 (ucast (bs ! 1))) (mem_rd m a 2)"

definition wr16 :: "mem \<Rightarrow> nat \<Rightarrow> u16 \<Rightarrow> mem option" where
  "wr16 m a v = mem_wr m a [ucast v, ucast (drop_bit 8 v)]"

definition rd32 :: "mem \<Rightarrow> nat \<Rightarrow> u32 option" where
  "rd32 m a = map_option of_le32 (mem_rd m a 4)"

definition wr32 :: "mem \<Rightarrow> nat \<Rightarrow> u32 \<Rightarrow> mem option" where
  "wr32 m a v = mem_wr m a (to_le32 v)"

text \<open>The C library's block operations on one buffer. \<open>memcpy\<close> between overlapping ranges is
  undefined; \<open>memmove\<close> copies as if through a temporary.\<close>

definition ranges_overlap :: "nat \<Rightarrow> nat \<Rightarrow> nat \<Rightarrow> bool" where
  "ranges_overlap d s n \<longleftrightarrow> n \<noteq> 0 \<and> d < s + n \<and> s < d + n"

definition c_memmove :: "mem \<Rightarrow> nat \<Rightarrow> nat \<Rightarrow> nat \<Rightarrow> mem option" where
  "c_memmove m d s n = (case mem_rd m s n of None \<Rightarrow> None | Some bs \<Rightarrow> mem_wr m d bs)"

definition c_memcpy :: "mem \<Rightarrow> nat \<Rightarrow> nat \<Rightarrow> nat \<Rightarrow> mem option" where
  "c_memcpy m d s n = (if ranges_overlap d s n then None else c_memmove m d s n)"

definition c_memset :: "mem \<Rightarrow> nat \<Rightarrow> u8 \<Rightarrow> nat \<Rightarrow> mem option" where
  "c_memset m d v n = mem_wr m d (replicate n v)"

subsection \<open>The buffer satisfies the interface\<close>

lemma mem_rd_nth:
  "mem_rd m a n = Some bs \<longleftrightarrow>
     a + n \<le> length m \<and> length bs = n \<and> (\<forall>i < n. bs ! i = m ! (a + i))"
  by (auto simp: mem_rd_def list_eq_iff_nth_eq)

lemma mem_wr_nth:
  "mem_wr m a bs = Some m' \<longleftrightarrow> a + length bs \<le> length m \<and> length m' = length m \<and>
     (\<forall>i < length m. m' ! i = (if a \<le> i \<and> i < a + length bs then bs ! (i - a) else m ! i))"
proof (cases "a + length bs \<le> length m")
  case True
  have "(take a m @ bs @ drop (a + length bs) m) ! i =
      (if a \<le> i \<and> i < a + length bs then bs ! (i - a) else m ! i)" if "i < length m" for i
    using that True by (auto simp: nth_append)
  with True show ?thesis
    by (auto simp: mem_wr_def list_eq_iff_nth_eq)
qed (simp add: mem_wr_def)

lemma mem_rd_eqI:
  "length m' = length m \<Longrightarrow> (\<And>i. b \<le> i \<Longrightarrow> i < b + n \<Longrightarrow> i < length m \<Longrightarrow> m' ! i = m ! i) \<Longrightarrow>
   mem_rd m' b n = mem_rd m b n"
  by (auto simp: mem_rd_def list_eq_iff_nth_eq)

interpretation heap: byte_store mem_rd mem_wr length
proof unfold_locales
  fix s a n bs s' b
  show "(\<exists>bs. mem_rd s a n = Some bs) = (a + n \<le> length s)"
    by (simp add: mem_rd_def)
  show "(\<exists>s'. mem_wr s a bs = Some s') = (a + length bs \<le> length s)"
    by (simp add: mem_wr_def)
  show "mem_rd s a n = Some bs \<Longrightarrow> length bs = n"
    by (simp add: mem_rd_nth)
  assume w: "mem_wr s a bs = Some s'"
  then show "length s' = length s" by (simp add: mem_wr_nth)
  from w show "mem_rd s' a (length bs) = Some bs" by (auto simp: mem_wr_nth mem_rd_nth)
  assume "b + n \<le> a \<or> a + length bs \<le> b"
  with w show "mem_rd s' b n = mem_rd s b n" by (intro mem_rd_eqI) (auto simp: mem_wr_nth)
qed

interpretation heap32: word_store rd32 wr32 length
  unfolding rd32_def wr32_def by (rule heap.words.word_store_axioms)

lemmas heap_cap = heap.wr_cap heap32.st_cap

lemma wr8_length: "wr8 m a v = Some m' \<Longrightarrow> length m' = length m"
  by (simp add: wr8_def heap.wr_cap)

lemma wr16_length: "wr16 m a v = Some m' \<Longrightarrow> length m' = length m"
  by (simp add: wr16_def heap.wr_cap)

lemma wr32_length: "wr32 m a v = Some m' \<Longrightarrow> length m' = length m"
  by (rule heap32.st_cap)

lemma c_memmove_length: "c_memmove m d s n = Some m' \<Longrightarrow> length m' = length m"
  by (auto simp: c_memmove_def heap.wr_cap split: option.splits)

lemma c_memcpy_length: "c_memcpy m d s n = Some m' \<Longrightarrow> length m' = length m"
  by (auto simp: c_memcpy_def c_memmove_length split: if_splits)

lemma c_memset_length: "c_memset m d v n = Some m' \<Longrightarrow> length m' = length m"
  by (simp add: c_memset_def heap.wr_cap)

lemmas write_length = wr8_length wr16_length wr32_length c_memmove_length c_memcpy_length
  c_memset_length

text \<open>Definedness: exactly the accesses that fit.\<close>

lemma rd8_None: "rd8 m a = None \<longleftrightarrow> length m < a + 1"
  by (auto simp: rd8_def mem_rd_def)

lemma rd16_None: "rd16 m a = None \<longleftrightarrow> length m < a + 2"
  by (auto simp: rd16_def mem_rd_def)

lemma rd32_None: "rd32 m a = None \<longleftrightarrow> length m < a + 4"
  by (auto simp: rd32_def mem_rd_def)

lemma wr8_None: "wr8 m a v = None \<longleftrightarrow> length m < a + 1"
  by (auto simp: wr8_def mem_wr_def)

lemma wr16_None: "wr16 m a v = None \<longleftrightarrow> length m < a + 2"
  by (auto simp: wr16_def mem_wr_def)

lemma wr32_None: "wr32 m a v = None \<longleftrightarrow> length m < a + 4"
  by (auto simp: wr32_def mem_wr_def)

lemma c_memmove_None: "c_memmove m d s n = None \<longleftrightarrow> length m < s + n \<or> length m < d + n"
  by (auto simp: c_memmove_def mem_wr_def mem_rd_def)

lemma c_memcpy_None:
  "c_memcpy m d s n = None \<longleftrightarrow> ranges_overlap d s n \<or> length m < s + n \<or> length m < d + n"
  by (auto simp: c_memcpy_def c_memmove_None)

lemma c_memset_None: "c_memset m d v n = None \<longleftrightarrow> length m < d + n"
  by (auto simp: c_memset_def mem_wr_def)

lemmas access_None = rd8_None rd16_None rd32_None wr8_None wr16_None wr32_None c_memmove_None
  c_memcpy_None c_memset_None

end
