(* ===== verification/Image.thy ===== *)
theory Image
  imports Store
begin

text \<open>
  The data of a loaded program: \<open>struct cvm_image\<close>, \<open>struct cvm_region\<close> and the section and
  region enumerations of \<open>include/cvm.h\<close>; the C string functions the runtime calls; and the
  allocator routing of \<open>src/cvm.c\<close> (\<open>cvm_int_alloc\<close>, \<open>cvm_int_free\<close>, \<open>cvm_int_calloc\<close>) over a
  ledger of live blocks. A pointer to an owned array is \<open>NULL\<close> or a block with its cells.
\<close>

section \<open>Enumerations\<close>

datatype cvm_section_type =
    CVM_SEC_CODE | CVM_SEC_DATA | CVM_SEC_BSS | CVM_SEC_IMPORTS | CVM_SEC_DEBUG
  | CVM_SEC_HEAP_RESERVE | CVM_SEC_STACK_RESERVE | CVM_SEC_FUNCS | CVM_SEC_HOST_REGION
  | CVM_SEC_ROM | CVM_SEC_META | CVM_SEC_SEAL

fun sec_value :: "cvm_section_type \<Rightarrow> u32" where
  "sec_value CVM_SEC_CODE = 1"
| "sec_value CVM_SEC_DATA = 2"
| "sec_value CVM_SEC_BSS = 3"
| "sec_value CVM_SEC_IMPORTS = 4"
| "sec_value CVM_SEC_DEBUG = 5"
| "sec_value CVM_SEC_HEAP_RESERVE = 6"
| "sec_value CVM_SEC_STACK_RESERVE = 7"
| "sec_value CVM_SEC_FUNCS = 8"
| "sec_value CVM_SEC_HOST_REGION = 9"
| "sec_value CVM_SEC_ROM = 10"
| "sec_value CVM_SEC_META = 11"
| "sec_value CVM_SEC_SEAL = 12"

text \<open>\<open>enum cvm_region_dir\<close>\<close>

datatype cvm_region_dir = CVM_REGION_R | CVM_REGION_W | CVM_REGION_RW

fun dir_value :: "cvm_region_dir \<Rightarrow> u32" where
  "dir_value CVM_REGION_R = 1"
| "dir_value CVM_REGION_W = 2"
| "dir_value CVM_REGION_RW = 3"

definition CVM_VERSION_1_0 :: u32 where [simp]: "CVM_VERSION_1_0 = 0x00010000"
definition CVM_SEAL_MAGIC :: u32 where [simp]: "CVM_SEAL_MAGIC = 0x314D5243"

section \<open>C strings\<close>

text \<open>Equality tests of \<open>strcmp\<close>, \<open>strncmp\<close> and the search of \<open>memchr\<close>, on the bytes from the
  pointer to the end of the object it points into; reading past that end is \<open>None\<close>.\<close>

fun strcmp_eq :: "byte list \<Rightarrow> byte list \<Rightarrow> bool option" where
  "strcmp_eq (a # as) (b # bs) =
     (if a \<noteq> b then Some False else if a = 0 then Some True else strcmp_eq as bs)"
| "strcmp_eq _ _ = None"

fun strncmp_eq :: "nat \<Rightarrow> byte list \<Rightarrow> byte list \<Rightarrow> bool option" where
  "strncmp_eq 0 _ _ = Some True"
| "strncmp_eq (Suc n) (a # as) (b # bs) =
     (if a \<noteq> b then Some False else if a = 0 then Some True else strncmp_eq n as bs)"
| "strncmp_eq (Suc n) _ _ = None"

fun memchr_found :: "byte \<Rightarrow> nat \<Rightarrow> byte list \<Rightarrow> bool option" where
  "memchr_found c 0 _ = Some False"
| "memchr_found c (Suc n) (b # bs) = (if b = c then Some True else memchr_found c n bs)"
| "memchr_found c (Suc n) [] = None"

text \<open>The characters before the terminating NUL.\<close>

definition c_str :: "byte list \<Rightarrow> byte list" where
  "c_str bs = takeWhile (\<lambda>b. b \<noteq> 0) bs"

lemma strcmp_eq_terminated:
  "0 \<in> set as \<Longrightarrow> 0 \<in> set bs \<Longrightarrow> strcmp_eq as bs = Some (c_str as = c_str bs)"
  by (induction as bs rule: strcmp_eq.induct) (auto simp: c_str_def)

lemma strncmp_eq_terminated:
  "0 \<in> set as \<Longrightarrow> 0 \<in> set bs \<Longrightarrow>
   strncmp_eq n as bs = Some (take n (c_str as) = take n (c_str bs))"
  by (induction n as bs rule: strncmp_eq.induct) (auto simp: c_str_def)

lemma memchr_found_take:
  "n \<le> length bs \<Longrightarrow> memchr_found c n bs = Some (c \<in> set (take n bs))"
  by (induction c n bs rule: memchr_found.induct) auto

lemma c_str_append_NUL [simp]: "0 \<notin> set s \<Longrightarrow> c_str (s @ 0 # t) = s"
  by (simp add: c_str_def takeWhile_append)

section \<open>Allocation\<close>

datatype 'a buf = NULL | Buf (buf_id: nat) (buf_cells: "'a list")

fun cells :: "'a buf \<Rightarrow> 'a list" where
  "cells NULL = []"
| "cells (Buf p xs) = xs"

definition put_cells :: "'a buf \<Rightarrow> 'a list \<Rightarrow> 'a buf" where
  "put_cells b xs = (case b of NULL \<Rightarrow> NULL | Buf p _ \<Rightarrow> Buf p xs)"

text \<open>\<open>cvm_allocator_t\<close>: two optional hooks and their opaque argument.\<close>

record cvm_allocator =
  alloc_fn :: "nat option"
  free_fn :: "nat option"
  user_data :: nat

text \<open>
  The routine an allocation or release goes through: a host hook with its \<open>user_data\<close>, or
  \<open>malloc\<close>/\<open>free\<close>. Whether the \<open>k\<close>-th request succeeds is up to that routine: it is the
  parameter \<open>grants\<close> of the model. The ledger counts the requests and lists the blocks not yet
  released; releasing any other pointer is undefined.
\<close>

type_synonym routine = "(nat \<times> nat) option"
type_synonym grants = "routine \<Rightarrow> nat \<Rightarrow> nat \<Rightarrow> bool"

record ledger =
  lg_next :: nat
  lg_live :: "nat list"
  lg_calls :: "(routine \<times> nat) list"

definition alloc_routine :: "cvm_allocator option \<Rightarrow> routine" where
  "alloc_routine a = (case a of None \<Rightarrow> None
     | Some h \<Rightarrow> map_option (\<lambda>f. (f, user_data h)) (alloc_fn h))"

definition free_routine :: "cvm_allocator option \<Rightarrow> routine" where
  "free_routine a = (case a of None \<Rightarrow> None
     | Some h \<Rightarrow> map_option (\<lambda>f. (f, user_data h)) (free_fn h))"

definition cvm_int_alloc ::
  "grants \<Rightarrow> cvm_allocator option \<Rightarrow> nat \<Rightarrow> ledger \<Rightarrow> nat option \<times> ledger" where
  "cvm_int_alloc g a n l =
     (if n = 0 then (None, l)
      else let k = lg_next l; r = alloc_routine a in
        if g r n k
        then (Some k, l\<lparr>lg_next := Suc k, lg_live := k # lg_live l\<rparr>)
        else (None, l\<lparr>lg_next := Suc k\<rparr>))"

definition cvm_int_free :: "cvm_allocator option \<Rightarrow> nat option \<Rightarrow> ledger \<Rightarrow> ledger option" where
  "cvm_int_free a p l =
     (case p of None \<Rightarrow> Some l
      | Some k \<Rightarrow> if k \<in> set (lg_live l)
          then Some (l\<lparr>lg_live := remove1 k (lg_live l),
                       lg_calls := (free_routine a, k) # lg_calls l\<rparr>)
          else None)"

definition SIZE_MAX :: nat where "SIZE_MAX = 2 ^ 64 - 1"

definition cvm_int_calloc ::
  "grants \<Rightarrow> cvm_allocator option \<Rightarrow> nat \<Rightarrow> nat \<Rightarrow> ledger \<Rightarrow> nat option \<times> ledger" where
  "cvm_int_calloc g a n_elem elem_size l =
     (if n_elem \<noteq> 0 \<and> elem_size > SIZE_MAX div n_elem then (None, l)
      else cvm_int_alloc g a (n_elem * elem_size) l)"

text \<open>Releasing a sequence of pointers, \<open>NULL\<close> ones included.\<close>

fun free_all :: "cvm_allocator option \<Rightarrow> nat option list \<Rightarrow> ledger \<Rightarrow> ledger option" where
  "free_all a [] l = Some l"
| "free_all a (p # ps) l =
     (case cvm_int_free a p l of None \<Rightarrow> None | Some l' \<Rightarrow> free_all a ps l')"

definition some_ids :: "nat option list \<Rightarrow> nat list" where
  "some_ids ps = map the (filter (\<lambda>p. p \<noteq> None) ps)"

lemma some_ids_simps [simp]:
  "some_ids [] = []" "some_ids (None # ps) = some_ids ps" "some_ids (Some k # ps) = k # some_ids ps"
  by (simp_all add: some_ids_def)

lemma free_all_ok:
  "distinct (some_ids ps) \<Longrightarrow> set (some_ids ps) \<subseteq> set (lg_live l) \<Longrightarrow> distinct (lg_live l) \<Longrightarrow>
   \<exists>l'. free_all a ps l = Some l' \<and> distinct (lg_live l') \<and> lg_next l' = lg_next l \<and>
     set (lg_live l') = set (lg_live l) - set (some_ids ps)"
proof (induction ps arbitrary: l)
  case Nil
  then show ?case by simp
next
  case (Cons p ps)
  show ?case
  proof (cases p)
    case None
    with Cons show ?thesis by (simp add: cvm_int_free_def)
  next
    case (Some k)
    let ?l = "l\<lparr>lg_live := remove1 k (lg_live l), lg_calls := (free_routine a, k) # lg_calls l\<rparr>"
    have "\<exists>l'. free_all a ps ?l = Some l' \<and> distinct (lg_live l') \<and> lg_next l' = lg_next ?l \<and>
        set (lg_live l') = set (lg_live ?l) - set (some_ids ps)"
      using Cons.prems Some by (intro Cons.IH) auto
    with Cons.prems Some show ?thesis by (auto simp: cvm_int_free_def)
  qed
qed

section \<open>The image\<close>

record cvm_region =
  rg_name :: "byte list"
  rg_offset :: u32
  rg_size :: u32
  rg_direction :: u32

text \<open>A \<open>cvm_syscall_fn\<close> pointer: one of the built-in handlers or a host function.\<close>

datatype syscall_fn =
    Builtin_heap_start | Builtin_heap_size | Builtin_get_region | Builtin_rom_base
  | Builtin_rom_size | Host_fn nat

record cvm_image =
  img_code :: "u32 buf"
  img_code_count :: u32
  img_heap :: "byte buf"
  img_heap_size :: u32
  img_data_size :: u32
  img_reserve_size :: u32
  img_stack_size :: u32
  img_mem_size :: u32
  img_regions :: "cvm_region buf"
  img_region_count :: u32
  img_rom_offset :: u32
  img_rom_size :: u32
  img_allocator :: cvm_allocator
  img_entry :: u32
  img_func_offsets :: "u32 buf"
  img_func_count :: u32
  img_import_count :: u32
  img_import_names :: "nat buf"
  img_import_fns :: "syscall_fn option buf"
  img_import_userdata :: "nat buf"
  img_import_blob :: "byte buf"

definition no_hooks :: cvm_allocator where
  "no_hooks = \<lparr>alloc_fn = None, free_fn = None, user_data = 0\<rparr>"

text \<open>\<open>memset(out, 0, sizeof(*out))\<close>\<close>

definition zero_image :: cvm_image where
  "zero_image = \<lparr>img_code = NULL, img_code_count = 0, img_heap = NULL, img_heap_size = 0,
     img_data_size = 0, img_reserve_size = 0, img_stack_size = 0, img_mem_size = 0,
     img_regions = NULL, img_region_count = 0, img_rom_offset = 0, img_rom_size = 0,
     img_allocator = no_hooks, img_entry = 0, img_func_offsets = NULL, img_func_count = 0,
     img_import_count = 0, img_import_names = NULL, img_import_fns = NULL,
     img_import_userdata = NULL, img_import_blob = NULL\<rparr>"

definition buf_ptr :: "'a buf \<Rightarrow> nat option" where
  "buf_ptr b = (case b of NULL \<Rightarrow> None | Buf p _ \<Rightarrow> Some p)"

lemma buf_ptr_simps [simp]: "buf_ptr NULL = None" "buf_ptr (Buf p xs) = Some p"
  by (simp_all add: buf_ptr_def)

text \<open>\<open>cvm_image_free\<close>: release every owned block through the hooks the load path stored.\<close>

definition image_blocks :: "cvm_image \<Rightarrow> nat option list" where
  "image_blocks i = [buf_ptr (img_code i), buf_ptr (img_heap i), buf_ptr (img_import_names i),
     buf_ptr (img_import_fns i), buf_ptr (img_import_userdata i), buf_ptr (img_import_blob i),
     buf_ptr (img_func_offsets i), buf_ptr (img_regions i)]"

definition cvm_image_free :: "cvm_image option \<Rightarrow> ledger \<Rightarrow> (cvm_image option \<times> ledger) cres" where
  "cvm_image_free img l =
     (case img of None \<Rightarrow> Ret (None, l)
      | Some i \<Rightarrow>
          ub (free_all (Some (img_allocator i)) (image_blocks i) l)
             (\<lambda>l'. Ret (Some zero_image, l')))"

end
