(* ===== verification/Format.thy ===== *)
theory Format
  imports Image
begin

text \<open>
  Reading a \<open>.bin\<close> file without loading it: \<open>cvm_peek_section\<close>, \<open>cvm_crc32\<close> and
  \<open>cvm_seal_check\<close> of \<open>src/cvm.c\<close>. The file is a byte list whose length is the \<open>len\<close> argument;
  \<open>read_u32_le(base + off)\<close> is \<open>rd32 b off\<close>, undefined past the end of the file. Shown here:
  no input makes these functions read outside the file, the checksum's bit loop is the table
  form it abbreviates, and a seal is accepted exactly when it is the checksum of the prefix.
\<close>

definition CVM_HEADER_SIZE :: nat where [simp]: "CVM_HEADER_SIZE = 24"
definition CVM_SECTION_SIZE :: nat where [simp]: "CVM_SECTION_SIZE = 16"

text \<open>\<open>base[0] != 'C' || base[1] != 'V' || base[2] != 'M' || base[3] != '1'\<close>\<close>

definition magic_ok :: "byte list \<Rightarrow> bool" where
  "magic_ok b \<longleftrightarrow> b ! 0 = 0x43 \<and> b ! 1 = 0x56 \<and> b ! 2 = 0x4D \<and> b ! 3 = 0x31"

section \<open>Locating a section\<close>

datatype peek = Peek_malformed | Peek_absent | Peek_found nat u32

text \<open>The loop over the section table: \<open>k\<close> entries left, \<open>s\<close> the address of the next one.\<close>

fun peek_loop :: "byte list \<Rightarrow> cvm_section_type \<Rightarrow> nat \<Rightarrow> nat \<Rightarrow> peek cres" where
  "peek_loop b type 0 s = Ret Peek_absent"
| "peek_loop b type (Suc k) s =
     ub (rd32 b s) (\<lambda>t. ub (rd32 b (s + 4)) (\<lambda>fo. ub (rd32 b (s + 8)) (\<lambda>sz.
       if t \<noteq> sec_value type then peek_loop b type k (s + CVM_SECTION_SIZE)
       else if unat fo + unat sz > length b then Ret Peek_malformed
       else Ret (Peek_found (unat fo) sz))))"

definition cvm_peek_section :: "byte list option \<Rightarrow> cvm_section_type \<Rightarrow> peek cres" where
  "cvm_peek_section bytes type =
     (case bytes of None \<Rightarrow> Ret Peek_malformed
      | Some b \<Rightarrow>
          if length b < CVM_HEADER_SIZE then Ret Peek_malformed
          else if \<not> magic_ok b then Ret Peek_malformed
          else ub (rd32 b 12) (\<lambda>section_count. ub (rd32 b 16) (\<lambda>section_table_off.
            if unat section_table_off + unat section_count * CVM_SECTION_SIZE > length b
            then Ret Peek_malformed
            else peek_loop b type (unat section_count) (unat section_table_off))))"

lemma rd32_Some: "a + 4 \<le> length b \<Longrightarrow> \<exists>v. rd32 b a = Some v"
  using heap32.ld_defined by blast

lemma peek_loop_defined:
  "s + k * CVM_SECTION_SIZE \<le> length b \<Longrightarrow> \<exists>p. peek_loop b type k s = Ret p"
proof (induction k arbitrary: s)
  case (Suc k)
  then obtain t fo sz where
    "rd32 b s = Some t" "rd32 b (s + 4) = Some fo" "rd32 b (s + 8) = Some sz"
    using rd32_Some [of s b] rd32_Some [of "s + 4" b] rd32_Some [of "s + 8" b] by auto
  with Suc show ?case by simp
qed simp

lemma peek_loop_found:
  "peek_loop b type k s = Ret (Peek_found off sz) \<Longrightarrow>
   off + unat sz \<le> length b \<and>
   (\<exists>j < k. rd32 b (s + j * 16) = Some (sec_value type) \<and>
      map_option unat (rd32 b (s + j * 16 + 4)) = Some off \<and> rd32 b (s + j * 16 + 8) = Some sz)"
proof (induction k arbitrary: s)
  case (Suc k)
  show ?case
  proof (cases "rd32 b s = Some (sec_value type)")
    case True
    with Suc.prems show ?thesis
      by (intro conjI exI [of _ 0]) (auto simp: ub_def split: option.splits if_splits)
  next
    case False
    with Suc.prems have rec: "peek_loop b type k (s + 16) = Ret (Peek_found off sz)"
      by (auto simp: ub_def split: option.splits if_splits)
    from Suc.IH [OF rec] obtain j where "j < k" and
      "rd32 b (s + 16 + j * 16) = Some (sec_value type)"
      "map_option unat (rd32 b (s + 16 + j * 16 + 4)) = Some off"
      "rd32 b (s + 16 + j * 16 + 8) = Some sz" and off: "off + unat sz \<le> length b"
      by blast
    then have "Suc j < Suc k \<and> rd32 b (s + Suc j * 16) = Some (sec_value type) \<and>
      map_option unat (rd32 b (s + Suc j * 16 + 4)) = Some off \<and>
      rd32 b (s + Suc j * 16 + 8) = Some sz"
      by (simp add: algebra_simps)
    with off show ?thesis by blast
  qed
qed simp

lemma cvm_peek_section_defined: "\<exists>p. cvm_peek_section bytes type = Ret p"
proof (cases bytes)
  case (Some b)
  show ?thesis
  proof (cases "length b < 24")
    case False
    then obtain c t where "rd32 b 12 = Some c" "rd32 b 16 = Some t"
      using rd32_Some [of 12 b] rd32_Some [of 16 b] by auto
    with Some False show ?thesis
      by (auto simp: cvm_peek_section_def not_less intro!: peek_loop_defined)
  qed (simp add: cvm_peek_section_def Some)
qed (simp add: cvm_peek_section_def)

lemma cvm_peek_section_found:
  "cvm_peek_section (Some b) type = Ret (Peek_found off sz) \<Longrightarrow> off + unat sz \<le> length b"
  by (auto simp: cvm_peek_section_def ub_def split: option.splits if_splits
      dest: peek_loop_found)

section \<open>CRC-32\<close>

definition crc_poly :: u32 where "crc_poly = 0xEDB88320"

text \<open>\<open>crc = (crc >> 1) ^ (0xEDB88320u & (uint32_t)(-(int32_t)(crc & 1u)))\<close>\<close>

definition crc_bit :: "u32 \<Rightarrow> u32" where
  "crc_bit crc = drop_bit 1 crc XOR (crc_poly AND (- (crc AND 1)))"

definition crc_byte :: "u32 \<Rightarrow> byte \<Rightarrow> u32" where
  "crc_byte crc p = (crc_bit ^^ 8) (crc XOR ucast p)"

definition cvm_crc32 :: "byte list \<Rightarrow> u32" where
  "cvm_crc32 data = foldl crc_byte 0xFFFFFFFF data XOR 0xFFFFFFFF"

text \<open>The masked form is the polynomial division step: subtract the polynomial when the bit
  shifted out is set.\<close>

lemma crc_bit_cases:
  "crc_bit crc = (if odd crc then drop_bit 1 crc XOR crc_poly else drop_bit 1 crc)"
proof (cases "odd crc")
  case True
  then have "crc AND 1 = 1" by (simp add: and_one_eq odd_iff_mod_2_eq_one)
  with True show ?thesis by (simp add: crc_bit_def)
next
  case False
  then have "crc AND 1 = 0" by (simp add: and_one_eq even_iff_mod_2_eq_zero)
  with False show ?thesis by (simp add: crc_bit_def)
qed

section \<open>The integrity seal\<close>

definition cvm_seal_check :: "byte list option \<Rightarrow> int cres" where
  "cvm_seal_check bytes =
     cbind (cvm_peek_section bytes CVM_SEC_SEAL) (\<lambda>r. case r of
        Peek_malformed \<Rightarrow> Ret (-1)
      | Peek_absent \<Rightarrow> Ret 0
      | Peek_found seal sz \<Rightarrow>
          (case bytes of None \<Rightarrow> Undef
           | Some b \<Rightarrow>
             if sz < 12 then Ret (-1)
             else ub (rd32 b seal) (\<lambda>magic. if magic \<noteq> CVM_SEAL_MAGIC then Ret (-1)
             else ub (rd32 b (seal + 8)) (\<lambda>stored.
               Ret (if cvm_crc32 (take seal b) = stored then 1 else -1)))))"

lemma seal_check_cases:
  "cvm_seal_check (Some b) =
     (case cvm_peek_section (Some b) CVM_SEC_SEAL of
        Ret (Peek_found seal sz) \<Rightarrow>
          Ret (if 12 \<le> sz \<and> rd32 b seal = Some CVM_SEAL_MAGIC
               \<and> rd32 b (seal + 8) = Some (cvm_crc32 (take seal b)) then 1 else -1)
      | Ret Peek_absent \<Rightarrow> Ret 0
      | _ \<Rightarrow> Ret (-1))"
proof -
  from cvm_peek_section_defined obtain p where p: "cvm_peek_section (Some b) CVM_SEC_SEAL = Ret p"
    by blast
  show ?thesis
  proof (cases p)
    case (Peek_found seal sz)
    then have "seal + unat sz \<le> length b" using p cvm_peek_section_found by blast
    then have "\<exists>v w. rd32 b seal = Some v \<and> rd32 b (seal + 8) = Some w" if "12 \<le> sz"
      using that rd32_Some [of seal b] rd32_Some [of "seal + 8" b]
      by (auto simp: word_arith)
    then show ?thesis
      by (auto simp: cvm_seal_check_def p Peek_found not_less not_le)
  qed (simp_all add: cvm_seal_check_def p)
qed

end
