(* ===== verification/Loader.thy ===== *)
theory Loader
  imports Format
begin

text \<open>
  \<open>cvm_load_ex\<close> of \<open>src/cvm.c\<close>: header checks, the section-table scan, validation of the
  HOST_REGION and IMPORTS payloads, the memory layout DATA, BSS, REGIONS, ROM, RESERVE, STACK,
  allocation with its failure path, the copies, and \<open>auto_bind_builtins\<close>. 64-bit sums of 32-bit
  sizes are natural numbers: with at most a few summands below \<open>2 ^ 37\<close> they cannot wrap in C.
  The 32-bit sums (\<open>rom_offset\<close>, the region cursor) are words and may wrap.
\<close>

definition CVM_MAX_SEC_TYPE :: u32 where [simp]: "CVM_MAX_SEC_TYPE = 12"
definition CVM_REGION_ENTRY_SIZE :: nat where [simp]: "CVM_REGION_ENTRY_SIZE = 28"

section \<open>The section table\<close>

text \<open>The local variables the scan fills in.\<close>

record secs =
  seen :: "bool list"
  code_off :: u32
  code_size :: u32
  data_off :: u32
  data_size :: u32
  bss_size :: u32
  reserve_size :: u32
  stack_size :: u32
  imports_off :: u32
  imports_size :: u32
  funcs_off :: u32
  funcs_size :: u32
  regions_off :: u32
  regions_size :: u32
  rom_off :: u32
  rom_size :: u32
  has_code :: bool

definition no_secs :: secs where
  "no_secs = \<lparr>seen = replicate 13 False, code_off = 0, code_size = 0, data_off = 0,
     data_size = 0, bss_size = 0, reserve_size = 0, stack_size = 0, imports_off = 0,
     imports_size = 0, funcs_off = 0, funcs_size = 0, regions_off = 0, regions_size = 0,
     rom_off = 0, rom_size = 0, has_code = False\<rparr>"

text \<open>The \<open>switch (type)\<close> of the scan.\<close>

definition record_section :: "u32 \<Rightarrow> u32 \<Rightarrow> u32 \<Rightarrow> secs \<Rightarrow> secs cres" where
  "record_section type file_off sz s =
     (if type = sec_value CVM_SEC_CODE then
        (if sz = 0 \<or> sz mod 4 \<noteq> 0 then Fail CVM_E_BAD_SECTION
         else Ret (s\<lparr>code_off := file_off, code_size := sz, has_code := True\<rparr>))
      else if type = sec_value CVM_SEC_DATA then
        Ret (s\<lparr>data_off := file_off, data_size := sz\<rparr>)
      else if type = sec_value CVM_SEC_BSS then Ret (s\<lparr>bss_size := sz\<rparr>)
      else if type = sec_value CVM_SEC_IMPORTS then
        Ret (s\<lparr>imports_off := file_off, imports_size := sz\<rparr>)
      else if type = sec_value CVM_SEC_HEAP_RESERVE then Ret (s\<lparr>reserve_size := sz\<rparr>)
      else if type = sec_value CVM_SEC_STACK_RESERVE then Ret (s\<lparr>stack_size := sz\<rparr>)
      else if type = sec_value CVM_SEC_FUNCS then
        (if sz = 0 \<or> sz mod 4 \<noteq> 0 then Fail CVM_E_BAD_FUNCS
         else Ret (s\<lparr>funcs_off := file_off, funcs_size := sz\<rparr>))
      else if type = sec_value CVM_SEC_HOST_REGION then
        Ret (s\<lparr>regions_off := file_off, regions_size := sz\<rparr>)
      else if type = sec_value CVM_SEC_ROM then
        Ret (s\<lparr>rom_off := file_off, rom_size := sz\<rparr>)
      else Ret s)"

definition has_payload :: "u32 \<Rightarrow> bool" where
  "has_payload type \<longleftrightarrow> type \<noteq> sec_value CVM_SEC_BSS
     \<and> type \<noteq> sec_value CVM_SEC_HEAP_RESERVE \<and> type \<noteq> sec_value CVM_SEC_STACK_RESERVE"

text \<open>One iteration of the scan, after the four fields of the entry were read.\<close>

definition scan_section :: "nat \<Rightarrow> u32 \<Rightarrow> u32 \<Rightarrow> u32 \<Rightarrow> u32 \<Rightarrow> secs \<Rightarrow> secs cres" where
  "scan_section len type file_off sz sflags s =
     (if sflags \<noteq> 0 then Fail CVM_E_BAD_SECTION
      else if type = 0 \<or> type > CVM_MAX_SEC_TYPE then Fail CVM_E_BAD_SECTION
      else if type \<noteq> sec_value CVM_SEC_DEBUG \<and> unat type \<ge> length (seen s) then Undef
      else if type \<noteq> sec_value CVM_SEC_DEBUG \<and> seen s ! unat type then Fail CVM_E_DUP_SECTION
      else let s' = (if type \<noteq> sec_value CVM_SEC_DEBUG
                     then s\<lparr>seen := (seen s)[unat type := True]\<rparr> else s) in
        if has_payload type \<and> unat file_off + unat sz > len then Fail CVM_E_TRUNCATED
        else if \<not> has_payload type \<and> file_off \<noteq> 0 then Fail CVM_E_BAD_SECTION
        else record_section type file_off sz s')"

fun scan_loop :: "byte list \<Rightarrow> nat \<Rightarrow> nat \<Rightarrow> secs \<Rightarrow> secs cres" where
  "scan_loop b 0 sec s = Ret s"
| "scan_loop b (Suc k) sec s =
     ub (rd32 b sec) (\<lambda>type. ub (rd32 b (sec + 4)) (\<lambda>file_off.
     ub (rd32 b (sec + 8)) (\<lambda>sz. ub (rd32 b (sec + 12)) (\<lambda>sflags.
       cbind (scan_section (length b) type file_off sz sflags s)
         (scan_loop b k (sec + CVM_SECTION_SIZE))))))"

section \<open>Validation of the payloads\<close>

definition align4 :: "nat \<Rightarrow> nat" where "align4 n = (n + 3) div 4 * 4"

text \<open>The inner loop over earlier entries: is the name at \<open>e\<close> a duplicate?\<close>

fun region_dup :: "byte list \<Rightarrow> nat \<Rightarrow> nat \<Rightarrow> nat \<Rightarrow> bool cres" where
  "region_dup b e 0 oe = Ret False"
| "region_dup b e (Suc j) oe =
     ub (strncmp_eq 16 (drop e b) (drop oe b)) (\<lambda>eq.
       if eq then Ret True else region_dup b e j (oe + CVM_REGION_ENTRY_SIZE))"

text \<open>The loop over region entries: \<open>k\<close> left, entry number \<open>i\<close> at address \<open>rp + 4 + i * 28\<close>,
  running total of the aligned sizes.\<close>

fun check_regions :: "byte list \<Rightarrow> nat \<Rightarrow> nat \<Rightarrow> nat \<Rightarrow> nat \<Rightarrow> nat cres" where
  "check_regions b rp 0 i tot = Ret tot"
| "check_regions b rp (Suc k) i tot =
     (let e = rp + 4 + i * CVM_REGION_ENTRY_SIZE in
      ub (memchr_found 0 16 (drop e b)) (\<lambda>found.
      if \<not> found then Fail CVM_E_BAD_REGION
      else if b ! e = 0 then Fail CVM_E_BAD_REGION
      else ub (rd32 b (e + 16)) (\<lambda>rsize. ub (rd32 b (e + 20)) (\<lambda>rdir.
      ub (rd32 b (e + 24)) (\<lambda>rflag.
      if rflag \<noteq> 0 then Fail CVM_E_BAD_REGION
      else if rdir < dir_value CVM_REGION_R \<or> rdir > dir_value CVM_REGION_RW
      then Fail CVM_E_BAD_REGION
      else cbind (region_dup b e i (rp + 4)) (\<lambda>dup.
      if dup then Fail CVM_E_BAD_REGION
      else let tot' = tot + align4 (unat rsize) in
        if tot' > 0xFFFFFFFF then Fail CVM_E_BAD_REGION
        else check_regions b rp k (Suc i) tot'))))))"

text \<open>Result: number of regions and total size.\<close>

definition validate_regions :: "byte list \<Rightarrow> secs \<Rightarrow> (nat \<times> nat) cres" where
  "validate_regions b s =
     (if regions_size s > 0 then
        if regions_size s < 4 then Fail CVM_E_BAD_REGION
        else let rp = unat (regions_off s) in
          ub (rd32 b rp) (\<lambda>region_count.
          if region_count > 0xFFFF then Fail CVM_E_BAD_REGION
          else if 4 + unat region_count * CVM_REGION_ENTRY_SIZE > unat (regions_size s)
          then Fail CVM_E_BAD_REGION
          else cbind (check_regions b rp (unat region_count) 0 0)
                 (\<lambda>tot. Ret (unat region_count, tot)))
      else Ret (0, 0))"

fun check_imports :: "byte list \<Rightarrow> nat \<Rightarrow> u32 \<Rightarrow> nat \<Rightarrow> nat \<Rightarrow> unit cres" where
  "check_imports b ip isize 0 i = Ret ()"
| "check_imports b ip isize (Suc k) i =
     ub (rd32 b (ip + 4 + i * 4)) (\<lambda>name_off.
       if name_off \<ge> isize then Fail CVM_E_BAD_IMPORTS
       else ub (memchr_found 0 (unat (isize - name_off)) (drop (ip + unat name_off) b)) (\<lambda>found.
         if \<not> found then Fail CVM_E_BAD_IMPORTS else check_imports b ip isize k (Suc i)))"

definition validate_imports :: "byte list \<Rightarrow> secs \<Rightarrow> nat cres" where
  "validate_imports b s =
     (if imports_size s > 0 then
        if imports_size s < 4 then Fail CVM_E_BAD_IMPORTS
        else let ip = unat (imports_off s) in
          ub (rd32 b ip) (\<lambda>import_count.
          if import_count > 0xFFFF then Fail CVM_E_BAD_IMPORTS
          else if 4 + unat import_count * 4 > unat (imports_size s) then Fail CVM_E_BAD_IMPORTS
          else cbind (check_imports b ip (imports_size s) (unat import_count) 0)
                 (\<lambda>_. Ret (unat import_count)))
      else Ret 0)"

section \<open>Allocation\<close>

text \<open>The eight pointers of the load path, in the order the failure path releases them.\<close>

record blocks =
  bk_code :: "nat option"
  bk_heap :: "nat option"
  bk_blob :: "nat option"
  bk_names :: "nat option"
  bk_fns :: "nat option"
  bk_ud :: "nat option"
  bk_funcs :: "nat option"
  bk_regions :: "nat option"

definition no_blocks :: blocks where
  "no_blocks = \<lparr>bk_code = None, bk_heap = None, bk_blob = None, bk_names = None, bk_fns = None,
     bk_ud = None, bk_funcs = None, bk_regions = None\<rparr>"

definition block_list :: "blocks \<Rightarrow> nat option list" where
  "block_list k = [bk_code k, bk_heap k, bk_blob k, bk_names k, bk_fns k, bk_ud k, bk_funcs k,
     bk_regions k]"

text \<open>\<open>True\<close> when every allocation the sizes ask for succeeded, \<open>False\<close> for \<open>goto oom\<close>.\<close>

definition load_alloc ::
  "grants \<Rightarrow> cvm_allocator option \<Rightarrow> secs \<Rightarrow> nat \<Rightarrow> nat \<Rightarrow> nat \<Rightarrow> ledger
    \<Rightarrow> bool \<times> blocks \<times> ledger" where
  "load_alloc g a s mem_total region_count import_count l0 =
     (let (c, l1) = cvm_int_alloc g a (unat (code_size s)) l0;
          k1 = no_blocks\<lparr>bk_code := c\<rparr>
      in if c = None then (False, k1, l1) else
      let (h, l2) = (if mem_total > 0 then cvm_int_alloc g a mem_total l1 else (None, l1));
          k2 = k1\<lparr>bk_heap := h\<rparr>
      in if mem_total > 0 \<and> h = None then (False, k2, l2) else
      let (f, l3) = (if funcs_size s > 0 then cvm_int_alloc g a (unat (funcs_size s)) l2
                     else (None, l2));
          k3 = k2\<lparr>bk_funcs := f\<rparr>
      in if funcs_size s > 0 \<and> f = None then (False, k3, l3) else
      let (r, l4) = (if region_count > 0 then cvm_int_calloc g a region_count 28 l3
                     else (None, l3));
          k4 = k3\<lparr>bk_regions := r\<rparr>
      in if region_count > 0 \<and> r = None then (False, k4, l4) else
      if imports_size s > 0 then
        let (bl, l5) = cvm_int_alloc g a (unat (imports_size s)) l4;
            k5 = k4\<lparr>bk_blob := bl\<rparr>
        in if bl = None then (False, k5, l5) else
        if import_count > 0 then
          let (n, l6) = cvm_int_calloc g a import_count 8 l5;
              (fn, l7) = cvm_int_calloc g a import_count 8 l6;
              (ud, l8) = cvm_int_calloc g a import_count 8 l7;
              k6 = k5\<lparr>bk_names := n, bk_fns := fn, bk_ud := ud\<rparr>
          in (n \<noteq> None \<and> fn \<noteq> None \<and> ud \<noteq> None, k6, l8)
        else (True, k5, l5)
      else (True, k4, l4))"

definition mk_buf :: "nat option \<Rightarrow> 'a list \<Rightarrow> 'a buf" where
  "mk_buf p xs = (case p of None \<Rightarrow> NULL | Some k \<Rightarrow> Buf k xs)"

section \<open>Filling the image\<close>

text \<open>\<open>n\<close> consecutive words of the file.\<close>

fun rd32s :: "byte list \<Rightarrow> nat \<Rightarrow> nat \<Rightarrow> u32 list option" where
  "rd32s b off 0 = Some []"
| "rd32s b off (Suc n) =
     (case rd32 b off of None \<Rightarrow> None | Some v \<Rightarrow> map_option (Cons v) (rd32s b (off + 4) n))"

text \<open>DATA copied to the front, the rest zeroed, ROM copied to its slot; the buffer starts with
  whatever the allocator left in it.\<close>

definition fill_heap :: "byte list \<Rightarrow> secs \<Rightarrow> u32 \<Rightarrow> nat \<Rightarrow> mem \<Rightarrow> mem cres" where
  "fill_heap b s rom_offset mem_total h0 =
     cbind (if data_size s \<noteq> 0
            then ub (mem_rd b (unat (data_off s)) (unat (data_size s))) (\<lambda>d.
                 ub (mem_wr h0 0 d) Ret)
            else Ret h0) (\<lambda>h1.
     cbind (if mem_total > unat (data_size s)
            then ub (c_memset h1 (unat (data_size s)) 0 (mem_total - unat (data_size s))) Ret
            else Ret h1) (\<lambda>h2.
     if rom_size s \<noteq> 0
     then ub (mem_rd b (unat (rom_off s)) (unat (rom_size s))) (\<lambda>d.
          ub (mem_wr h2 (unat rom_offset) d) Ret)
     else Ret h2))"

text \<open>The FUNCS loop: \<open>None\<close> when an entry is not an instruction index.\<close>

fun load_funcs :: "byte list \<Rightarrow> nat \<Rightarrow> nat \<Rightarrow> u32 \<Rightarrow> u32 list option cres" where
  "load_funcs b off 0 code_count = Ret (Some [])"
| "load_funcs b off (Suc n) code_count =
     ub (rd32 b off) (\<lambda>v. if v \<ge> code_count then Ret None
       else cbind (load_funcs b (off + 4) n code_count) (\<lambda>r. Ret (map_option (Cons v) r)))"

fun load_regions :: "byte list \<Rightarrow> nat \<Rightarrow> nat \<Rightarrow> u32 \<Rightarrow> cvm_region list cres" where
  "load_regions b e 0 cursor = Ret []"
| "load_regions b e (Suc k) cursor =
     ub (mem_rd b e 16) (\<lambda>nm. ub (rd32 b (e + 16)) (\<lambda>sz. ub (rd32 b (e + 20)) (\<lambda>dir.
       cbind (load_regions b (e + CVM_REGION_ENTRY_SIZE) k (cursor + ((sz + 3) AND NOT 3)))
         (\<lambda>rs. Ret (\<lparr>rg_name = nm, rg_offset = cursor, rg_size = sz, rg_direction = dir\<rparr> # rs)))))"

section \<open>Built-in bindings\<close>

definition cstring :: "string \<Rightarrow> byte list" where
  "cstring s = map of_char s @ [0]"

definition BUILTIN_SYSCALLS :: "(byte list \<times> syscall_fn) list" where
  "BUILTIN_SYSCALLS =
     [(cstring ''cvm_sys_heap_start'', Builtin_heap_start),
      (cstring ''cvm_sys_heap_size'', Builtin_heap_size),
      (cstring ''cvm_sys_get_region'', Builtin_get_region),
      (cstring ''cvm_sys_rom_base'', Builtin_rom_base),
      (cstring ''cvm_sys_rom_size'', Builtin_rom_size)]"

fun find_builtin :: "byte list \<Rightarrow> (byte list \<times> syscall_fn) list \<Rightarrow> syscall_fn option cres" where
  "find_builtin nm [] = Ret None"
| "find_builtin nm ((bn, fn) # t) =
     ub (strcmp_eq nm bn) (\<lambda>eq. if eq then Ret (Some fn) else find_builtin nm t)"

text \<open>The loop over the imports; names are offsets into the blob.\<close>

fun bind_loop ::
  "byte list \<Rightarrow> nat list \<Rightarrow> syscall_fn option list \<Rightarrow> nat list
    \<Rightarrow> (syscall_fn option list \<times> nat list) cres" where
  "bind_loop blob [] fns ud = Ret ([], [])"
| "bind_loop blob (off # offs) (f # fns) (u # uds) =
     cbind (find_builtin (drop off blob) BUILTIN_SYSCALLS) (\<lambda>r.
     cbind (bind_loop blob offs fns uds) (\<lambda>(fns', uds').
       (case r of None \<Rightarrow> Ret (f # fns', u # uds')
        | Some fn \<Rightarrow> Ret (Some fn # fns', 0 # uds'))))"
| "bind_loop blob (off # offs) _ _ = Undef"

definition auto_bind_builtins :: "cvm_image \<Rightarrow> cvm_image cres" where
  "auto_bind_builtins i =
     cbind (bind_loop (cells (img_import_blob i)) (take (unat (img_import_count i))
              (cells (img_import_names i)))
              (cells (img_import_fns i)) (cells (img_import_userdata i)))
       (\<lambda>(fns, uds). Ret (i\<lparr>img_import_fns := put_cells (img_import_fns i) fns,
                            img_import_userdata := put_cells (img_import_userdata i) uds\<rparr>))"

section \<open>Loading\<close>

text \<open>The part of \<open>cvm_load_ex\<close> after the allocations: either the image, or \<open>None\<close> for the
  early return with \<open>CVM_E_BAD_FUNCS\<close>.\<close>

definition load_fill ::
  "byte list \<Rightarrow> secs \<Rightarrow> u32 \<Rightarrow> nat \<Rightarrow> nat \<Rightarrow> nat \<Rightarrow> nat \<Rightarrow> u32 \<Rightarrow> (nat \<Rightarrow> byte)
    \<Rightarrow> cvm_allocator option \<Rightarrow> blocks \<Rightarrow> cvm_image option cres" where
  "load_fill b s rom_offset heap_total mem_total region_count import_count entry junk a bk =
     (let code_count = code_size s div 4 in
      ub (rd32s b (unat (code_off s)) (unat code_count)) (\<lambda>code.
      cbind (fill_heap b s rom_offset mem_total (map junk [0..<mem_total])) (\<lambda>heap.
      let func_count = funcs_size s div 4 in
      cbind (load_funcs b (unat (funcs_off s)) (unat func_count) code_count) (\<lambda>funcs.
      case funcs of None \<Rightarrow> Ret None
      | Some func_offsets \<Rightarrow>
      cbind (if imports_size s > 0
             then ub (mem_rd b (unat (imports_off s)) (unat (imports_size s))) Ret
             else Ret []) (\<lambda>blob.
      ub (if imports_size s > 0 then rd32s blob 4 import_count else Some []) (\<lambda>name_offs.
      cbind (if region_count > 0
             then load_regions b (unat (regions_off s) + 4) region_count
                    (data_size s + bss_size s)
             else Ret []) (\<lambda>regions.
      cbind (auto_bind_builtins
        \<lparr>img_code = mk_buf (bk_code bk) code, img_code_count = code_count,
         img_heap = mk_buf (bk_heap bk) heap, img_heap_size = of_nat heap_total,
         img_data_size = data_size s, img_reserve_size = reserve_size s,
         img_stack_size = stack_size s, img_mem_size = of_nat mem_total,
         img_regions = mk_buf (bk_regions bk) regions, img_region_count = of_nat region_count,
         img_rom_offset = (if rom_size s \<noteq> 0 then rom_offset else 0),
         img_rom_size = rom_size s,
         img_allocator = (case a of None \<Rightarrow> no_hooks | Some h \<Rightarrow> h),
         img_entry = entry, img_func_offsets = mk_buf (bk_funcs bk) func_offsets,
         img_func_count = func_count, img_import_count = of_nat import_count,
         img_import_names = mk_buf (bk_names bk) (map unat name_offs),
         img_import_fns = mk_buf (bk_fns bk) (replicate import_count None),
         img_import_userdata = mk_buf (bk_ud bk) (replicate import_count 0),
         img_import_blob = mk_buf (bk_blob bk) blob\<rparr>)
      (\<lambda>img. Ret (Some img)))))))))"

text \<open>The header and section table: result is \<open>(secs, entry)\<close>.\<close>

definition load_header :: "byte list \<Rightarrow> (secs \<times> u32) cres" where
  "load_header b =
     (if length b < CVM_HEADER_SIZE then Fail CVM_E_TRUNCATED
      else if \<not> magic_ok b then Fail CVM_E_BAD_MAGIC
      else ub (rd32 b 4) (\<lambda>version. ub (rd32 b 8) (\<lambda>flags. ub (rd32 b 12) (\<lambda>section_count.
      ub (rd32 b 16) (\<lambda>section_table_off. ub (rd32 b 20) (\<lambda>entry.
      if version \<noteq> CVM_VERSION_1_0 then Fail CVM_E_BAD_VERSION
      else if flags \<noteq> 0 then Fail CVM_E_BAD_SECTION
      else if unat section_table_off + unat section_count * CVM_SECTION_SIZE > length b
      then Fail CVM_E_TRUNCATED
      else cbind (scan_loop b (unat section_count) (unat section_table_off) no_secs) (\<lambda>s.
      if \<not> has_code s then Fail CVM_E_NO_CODE
      else if entry \<ge> code_size s div 4 then Fail CVM_E_BAD_ENTRY
      else Ret (s, entry))))))))"

text \<open>The sizes: \<open>heap_total\<close> and \<open>mem_total\<close>, with the checks that they fit.\<close>

definition load_layout :: "secs \<Rightarrow> nat \<Rightarrow> (nat \<times> nat) cres" where
  "load_layout s region_total =
     (let heap_total = unat (data_size s) + unat (bss_size s) + region_total
            + unat (rom_size s) + unat (reserve_size s)
      in if heap_total > 0xFFFFFFFF then Fail CVM_E_BAD_SECTION
      else if stack_size s \<noteq> 0 \<and> stack_size s < 4 then Fail CVM_E_BAD_SECTION
      else let mem_total = heap_total + unat (stack_size s) in
        if mem_total > 0xFFFFFFFF then Fail CVM_E_BAD_SECTION
        else Ret (heap_total, mem_total))"

text \<open>
  \<open>cvm_load_ex\<close>. \<open>out\<close> is \<open>True\<close> for a non-null result pointer; the result is the return code
  (\<open>Inl\<close> an error, \<open>Inr\<close> the image for \<open>CVM_OK\<close>) with the allocator's ledger.
\<close>

definition cvm_load_ex ::
  "grants \<Rightarrow> (nat \<Rightarrow> byte) \<Rightarrow> byte list option \<Rightarrow> bool \<Rightarrow> cvm_allocator option \<Rightarrow> ledger
    \<Rightarrow> ((cvm_result + cvm_image) \<times> ledger) cres" where
  "cvm_load_ex g junk bytes out a l =
     (case bytes of None \<Rightarrow> Ret (Inl CVM_E_TRUNCATED, l)
      | Some b \<Rightarrow>
        if \<not> out then Ret (Inl CVM_E_TRUNCATED, l)
        else case
          (cbind (load_header b) (\<lambda>(s, entry).
           cbind (validate_regions b s) (\<lambda>(region_count, region_total).
           cbind (load_layout s region_total) (\<lambda>(heap_total, mem_total).
           cbind (validate_imports b s) (\<lambda>import_count.
             Ret (s, entry, region_count, region_total, heap_total, mem_total, import_count))))))
        of Undef \<Rightarrow> Undef
         | Fail e \<Rightarrow> Ret (Inl e, l)
         | Ret (s, entry, region_count, region_total, heap_total, mem_total, import_count) \<Rightarrow>
           (case load_alloc g a s mem_total region_count import_count l of (ok, bk, l') \<Rightarrow>
             if \<not> ok then ub (free_all a (block_list bk) l') (\<lambda>l''. Ret (Inl CVM_E_NOMEM, l''))
             else cbind
               (load_fill b s (data_size s + bss_size s + of_nat region_total) heap_total
                  mem_total region_count import_count entry junk a bk) (\<lambda>r.
               case r of
                 None \<Rightarrow> ub (free_all a [bk_code bk, bk_heap bk, bk_funcs bk, bk_regions bk,
                               bk_blob bk, bk_names bk, bk_fns bk, bk_ud bk] l')
                           (\<lambda>l''. Ret (Inl CVM_E_BAD_FUNCS, l''))
               | Some img \<Rightarrow> Ret (Inr img, l'))))"

definition cvm_load ::
  "grants \<Rightarrow> (nat \<Rightarrow> byte) \<Rightarrow> byte list option \<Rightarrow> bool \<Rightarrow> ledger
    \<Rightarrow> ((cvm_result + cvm_image) \<times> ledger) cres" where
  "cvm_load g junk bytes out l = cvm_load_ex g junk bytes out None l"

end
