(* ===== verification/Loader_Check.thy ===== *)
theory Loader_Check
  imports Loader "HOL-Library.Multiset"
begin

text \<open>
  The validation part of \<open>cvm_load_ex\<close>: the scan, the region and import checks never read outside
  the file whatever its bytes are, what a file that passes them satisfies, and the allocation
  ledger: the pointers the load path keeps are exactly the blocks it added.
\<close>

section \<open>The section-table scan\<close>

definition secs_wf :: "nat \<Rightarrow> secs \<Rightarrow> bool" where
  "secs_wf len s \<longleftrightarrow> length (seen s) = 13
     \<and> unat (code_off s) + unat (code_size s) \<le> len
     \<and> unat (data_off s) + unat (data_size s) \<le> len
     \<and> unat (imports_off s) + unat (imports_size s) \<le> len
     \<and> unat (funcs_off s) + unat (funcs_size s) \<le> len
     \<and> unat (regions_off s) + unat (regions_size s) \<le> len
     \<and> unat (rom_off s) + unat (rom_size s) \<le> len
     \<and> unat (code_size s) mod 4 = 0 \<and> unat (funcs_size s) mod 4 = 0"

lemma mod4_unat: "(x :: u32) mod 4 = 0 \<longleftrightarrow> unat x mod 4 = 0"
  by (simp add: unat_eq_0 [symmetric] unat_mod_distrib)

lemma secs_wf_no_secs: "secs_wf len no_secs"
  by (simp add: secs_wf_def no_secs_def)

lemma record_section_wf:
  assumes "record_section t off sz s = Ret s'" "secs_wf len s"
    "has_payload t \<Longrightarrow> unat off + unat sz \<le> len"
  shows "secs_wf len s'"
  using assms by (auto simp: record_section_def secs_wf_def has_payload_def mod4_unat split: if_splits)

lemma scan_section_wf:
  assumes "scan_section len t off sz fl s = Ret s'" "secs_wf len s"
  shows "secs_wf len s'"
proof -
  have "secs_wf len (s\<lparr>seen := (seen s)[unat t := True]\<rparr>)" using assms(2) by (simp add: secs_wf_def)
  with assms show ?thesis
    by (auto simp: scan_section_def Let_def split: if_splits elim!: record_section_wf)
qed

lemma record_section_defined: "record_section t off sz s \<noteq> Undef"
  by (simp add: record_section_def)

lemma scan_section_defined: "secs_wf len s \<Longrightarrow> scan_section len t off sz fl s \<noteq> Undef"
  by (auto simp: scan_section_def Let_def record_section_defined secs_wf_def word_arith not_le)

lemma scan_loop_wf:
  "scan_loop b k sec s = Ret s' \<Longrightarrow> secs_wf (length b) s \<Longrightarrow> secs_wf (length b) s'"
proof (induction k arbitrary: sec s)
  case (Suc k)
  then show ?case by (fastforce simp: ub_def split: option.splits dest: scan_section_wf)
qed simp

lemma scan_loop_defined:
  "sec + k * 16 \<le> length b \<Longrightarrow> secs_wf (length b) s \<Longrightarrow> scan_loop b k sec s \<noteq> Undef"
proof (induction k arbitrary: sec s)
  case (Suc k)
  then obtain t fo sz fl where
    "rd32 b sec = Some t" "rd32 b (sec + 4) = Some fo" "rd32 b (sec + 8) = Some sz"
    "rd32 b (sec + 12) = Some fl"
    using rd32_Some [of sec b] rd32_Some [of "sec + 4" b] rd32_Some [of "sec + 8" b]
      rd32_Some [of "sec + 12" b] by auto
  with Suc show ?case
    by (auto simp: cbind_eq_Undef scan_section_defined dest: scan_section_wf)
qed simp

lemma load_header_defined: "load_header b \<noteq> Undef"
proof (cases "length b < 24")
  case False
  then obtain v f c t e where
    "rd32 b 4 = Some v" "rd32 b 8 = Some f" "rd32 b 12 = Some c" "rd32 b 16 = Some t"
    "rd32 b 20 = Some e"
    using rd32_Some [of 4 b] rd32_Some [of 8 b] rd32_Some [of 12 b] rd32_Some [of 16 b]
      rd32_Some [of 20 b] by auto
  moreover have "scan_loop b (unat c) (unat t) no_secs \<noteq> Undef"
    if "unat t + unat c * 16 \<le> length b"
    using that by (intro scan_loop_defined secs_wf_no_secs)
  ultimately show ?thesis using False
    by (auto simp: load_header_def cbind_eq_Undef not_less)
qed (simp add: load_header_def)

lemma load_header_wf:
  assumes "load_header b = Ret (s, entry)"
  shows "secs_wf (length b) s \<and> has_code s \<and> entry < code_size s div 4"
  using assms scan_loop_wf [OF _ secs_wf_no_secs]
  by (fastforce simp: load_header_def ub_def not_le split: option.splits if_splits)

section \<open>Region and import validation\<close>

lemma strncmp_eq_defined: "n \<le> length as \<Longrightarrow> n \<le> length bs \<Longrightarrow> strncmp_eq n as bs \<noteq> None"
  by (induction n as bs rule: strncmp_eq.induct) auto

lemma region_dup_defined:
  "e + 16 \<le> length b \<Longrightarrow> oe + j * 28 \<le> length b \<Longrightarrow> region_dup b e j oe \<noteq> Undef"
proof (induction j arbitrary: oe)
  case (Suc j)
  then have "strncmp_eq 16 (drop e b) (drop oe b) \<noteq> None"
    by (intro strncmp_eq_defined) auto
  with Suc show ?case by (auto simp: ub_def split: option.splits)
qed simp

lemma check_regions_defined:
  "rp + 4 + (i + k) * 28 \<le> length b \<Longrightarrow> check_regions b rp k i tot \<noteq> Undef"
proof (induction k arbitrary: i tot)
  case (Suc k)
  let ?e = "rp + 4 + i * 28"
  from Suc.prems have e: "?e + 28 \<le> length b" by (simp add: algebra_simps)
  then obtain sz dir fl where
    "rd32 b (?e + 16) = Some sz" "rd32 b (?e + 20) = Some dir" "rd32 b (?e + 24) = Some fl"
    using rd32_Some [of "?e + 16" b] rd32_Some [of "?e + 20" b] rd32_Some [of "?e + 24" b] by auto
  moreover have "memchr_found 0 16 (drop ?e b) \<noteq> None"
    using e memchr_found_take [of 16 "drop ?e b" 0] by simp
  moreover have "region_dup b ?e i (rp + 4) \<noteq> Undef"
    using e by (intro region_dup_defined) auto
  moreover have "check_regions b rp k (Suc i) t \<noteq> Undef" for t
    using Suc.prems by (intro Suc.IH) (simp add: algebra_simps)
  ultimately show ?case
    by (auto simp: Let_def ub_def cbind_eq_Undef split: option.splits)
qed simp

lemma one_le_word: "(1 :: u32) \<le> d \<longleftrightarrow> d \<noteq> 0"
  by (simp add: not_less [symmetric])

text \<open>What a successful check establishes: every entry's fields, and the total.\<close>

definition region_entry_ok :: "byte list \<Rightarrow> nat \<Rightarrow> bool" where
  "region_entry_ok b e \<longleftrightarrow> 0 \<in> set (take 16 (drop e b)) \<and> b ! e \<noteq> 0 \<and>
     (\<exists>d. rd32 b (e + 20) = Some d \<and> dir_value CVM_REGION_R \<le> d \<and> d \<le> dir_value CVM_REGION_RW)
     \<and> rd32 b (e + 24) = Some 0"

definition region_size_at :: "byte list \<Rightarrow> nat \<Rightarrow> nat" where
  "region_size_at b e = (case rd32 b (e + 16) of None \<Rightarrow> 0 | Some v \<Rightarrow> unat v)"

lemma check_regions_Ret:
  assumes "check_regions b rp k i tot = Ret t" "rp + 4 + (i + k) * 28 \<le> length b"
    "tot \<le> 0xFFFFFFFF"
  shows "t = tot + (\<Sum>j = i..<i + k. align4 (region_size_at b (rp + 4 + j * 28)))
    \<and> t \<le> 0xFFFFFFFF \<and> (\<forall>j. i \<le> j \<and> j < i + k \<longrightarrow> region_entry_ok b (rp + 4 + j * 28))"
  using assms
proof (induction k arbitrary: i tot)
  case 0
  then show ?case by auto
next
  case (Suc k)
  let ?e = "rp + 4 + i * 28"
  from Suc.prems have e: "?e + 28 \<le> length b" by (simp add: algebra_simps)
  have m: "memchr_found 0 16 (drop ?e b) = Some (0 \<in> set (take 16 (drop ?e b)))"
    using e by (intro memchr_found_take) simp
  from Suc.prems(1) m obtain sz dir where
    sz: "rd32 b (?e + 16) = Some sz" and dir: "rd32 b (?e + 20) = Some dir"
    and fl: "rd32 b (?e + 24) = Some 0"
    and ok: "0 \<in> set (take 16 (drop ?e b))" "b ! ?e \<noteq> 0"
      "\<not> (dir < dir_value CVM_REGION_R \<or> dir > dir_value CVM_REGION_RW)"
    and rest: "check_regions b rp k (Suc i) (tot + align4 (unat sz)) = Ret t"
    and bnd: "tot + align4 (unat sz) \<le> 0xFFFFFFFF"
    by (auto simp: Let_def ub_def not_less split: option.splits if_splits)
  have IH: "t = tot + align4 (unat sz)
      + (\<Sum>j = Suc i..<Suc i + k. align4 (region_size_at b (rp + 4 + j * 28)))
    \<and> t \<le> 0xFFFFFFFF
    \<and> (\<forall>j. Suc i \<le> j \<and> j < Suc i + k \<longrightarrow> region_entry_ok b (rp + 4 + j * 28))"
    using Suc.prems(2) by (intro Suc.IH [OF rest _ bnd]) (simp add: algebra_simps)
  have first: "region_entry_ok b ?e" "region_size_at b ?e = unat sz"
    using ok dir fl sz by (auto simp: region_entry_ok_def region_size_at_def not_less one_le_word)
  have "(\<Sum>j = i..<i + Suc k. align4 (region_size_at b (rp + 4 + j * 28))) =
      align4 (unat sz) + (\<Sum>j = Suc i..<Suc i + k. align4 (region_size_at b (rp + 4 + j * 28)))"
    by (subst sum.atLeast_Suc_lessThan) (simp_all add: first)
  moreover have "region_entry_ok b (rp + 4 + j * 28)" if "i \<le> j" "j < i + Suc k" for j
    using that first(1) IH by (cases "j = i") auto
  ultimately show ?case using IH by simp
qed

lemma validate_regions_defined:
  assumes "secs_wf (length b) s" shows "validate_regions b s \<noteq> Undef"
proof (cases "regions_size s < 4")
  case False
  with assms obtain c where c: "rd32 b (unat (regions_off s)) = Some c"
    using rd32_Some [of "unat (regions_off s)" b] by (auto simp: secs_wf_def word_arith not_less)
  have "check_regions b (unat (regions_off s)) (unat c) 0 0 \<noteq> Undef"
    if "4 + unat c * 28 \<le> unat (regions_size s)"
    using that assms by (intro check_regions_defined) (auto simp: secs_wf_def)
  with c show ?thesis by (auto simp: validate_regions_def Let_def cbind_eq_Undef not_less)
qed (auto simp: validate_regions_def)

lemma check_imports_defined:
  "ip + unat isize \<le> length b \<Longrightarrow> 4 + (i + k) * 4 \<le> unat isize \<Longrightarrow>
   check_imports b ip isize k i \<noteq> Undef"
proof (induction k arbitrary: i)
  case (Suc k)
  from Suc.prems obtain v where v: "rd32 b (ip + 4 + i * 4) = Some v"
    using rd32_Some [of "ip + 4 + i * 4" b] by (auto simp: algebra_simps)
  have "memchr_found 0 (unat (isize - v)) (drop (ip + unat v) b) \<noteq> None" if "v < isize"
    using that Suc.prems(1)
      memchr_found_take [of "unat (isize - v)" "drop (ip + unat v) b" 0]
    by (simp add: unat_sub_le less_imp_le word_arith)
  moreover have "check_imports b ip isize k (Suc i) \<noteq> Undef"
    using Suc.prems by (intro Suc.IH) (auto simp: algebra_simps)
  ultimately show ?case using v by (auto simp: ub_def not_le split: option.splits)
qed simp

lemma check_imports_Ret:
  assumes "check_imports b ip isize k i = Ret ()" "ip + unat isize \<le> length b"
  shows "\<forall>j. i \<le> j \<and> j < i + k \<longrightarrow> (\<exists>v. rd32 b (ip + 4 + j * 4) = Some v \<and> v < isize \<and>
     0 \<in> set (take (unat isize - unat v) (drop (ip + unat v) b)))"
  using assms
proof (induction k arbitrary: i)
  case (Suc k)
  from Suc.prems(1) obtain v where v: "rd32 b (ip + 4 + i * 4) = Some v" "v < isize"
    and found: "memchr_found 0 (unat (isize - v)) (drop (ip + unat v) b) = Some True"
    and rest: "check_imports b ip isize k (Suc i) = Ret ()"
    by (auto simp: ub_def not_le split: option.splits if_splits)
  have "unat (isize - v) = unat isize - unat v"
    using v(2) by (simp add: unat_sub_le less_imp_le)
  with found Suc.prems(2) v(2)
  have "0 \<in> set (take (unat isize - unat v) (drop (ip + unat v) b))"
    using memchr_found_take [of "unat (isize - v)" "drop (ip + unat v) b" 0]
    by (simp add: word_arith)
  with v Suc.IH [OF rest Suc.prems(2)] show ?case
    by (metis Suc_leI add_Suc_shift le_neq_implies_less)
qed simp

lemma validate_imports_defined:
  assumes "secs_wf (length b) s" shows "validate_imports b s \<noteq> Undef"
proof (cases "imports_size s < 4")
  case False
  with assms obtain c where c: "rd32 b (unat (imports_off s)) = Some c"
    using rd32_Some [of "unat (imports_off s)" b] by (auto simp: secs_wf_def word_arith not_less)
  have "check_imports b (unat (imports_off s)) (imports_size s) (unat c) 0 \<noteq> Undef"
    if "4 + unat c * 4 \<le> unat (imports_size s)"
    using that assms by (intro check_imports_defined) (auto simp: secs_wf_def)
  with c show ?thesis by (auto simp: validate_imports_def Let_def cbind_eq_Undef not_less)
qed (auto simp: validate_imports_def)


section \<open>Allocation\<close>

definition ledger_ok :: "ledger \<Rightarrow> bool" where
  "ledger_ok l \<longleftrightarrow> distinct (lg_live l) \<and> (\<forall>k \<in> set (lg_live l). k < lg_next l)"

text \<open>\<open>l'\<close> is \<open>l\<close> with the blocks \<open>ids\<close> added.\<close>

definition ledger_ext :: "ledger \<Rightarrow> nat list \<Rightarrow> ledger \<Rightarrow> bool" where
  "ledger_ext l ids l' \<longleftrightarrow> ledger_ok l' \<and> lg_next l \<le> lg_next l' \<and> distinct ids
     \<and> set (lg_live l') = set (lg_live l) \<union> set ids \<and> set ids \<inter> set (lg_live l) = {}"

lemma ledger_ext_refl: "ledger_ok l \<Longrightarrow> ledger_ext l [] l"
  by (simp add: ledger_ext_def)

lemma ledger_ext_add:
  "ledger_ext l ids l' \<Longrightarrow>
   ledger_ext l (lg_next l' # ids)
     (l'\<lparr>lg_next := Suc (lg_next l'), lg_live := lg_next l' # lg_live l'\<rparr>)"
  by (auto simp: ledger_ext_def ledger_ok_def less_Suc_eq)

lemma ledger_ext_skip: "ledger_ext l ids l' \<Longrightarrow> ledger_ext l ids (l'\<lparr>lg_next := Suc (lg_next l')\<rparr>)"
  by (auto simp: ledger_ext_def ledger_ok_def less_Suc_eq)

lemma alloc_ext:
  assumes "cvm_int_alloc g a n l' = (p, l'')" "ledger_ext l (some_ids ps) l'"
  shows "ledger_ext l (some_ids (p # ps)) l''"
  using assms ledger_ext_add [OF assms(2)] ledger_ext_skip [OF assms(2)]
  by (auto simp: cvm_int_alloc_def Let_def split: if_splits)

lemma calloc_ext:
  assumes "cvm_int_calloc g a n m l' = (p, l'')" "ledger_ext l (some_ids ps) l'"
  shows "ledger_ext l (some_ids (p # ps)) l''"
  using assms by (auto simp: cvm_int_calloc_def split: if_splits dest: alloc_ext)

lemma some_ids_Cons:
  "some_ids (p # ps) = (case p of None \<Rightarrow> some_ids ps | Some k \<Rightarrow> k # some_ids ps)"
  by (cases p) simp_all

lemma some_ids_perm:
  "mset ps = mset qs \<Longrightarrow> mset (some_ids ps) = mset (some_ids qs)"
  by (simp add: some_ids_def mset_filter)

lemma ledger_ext_perm:
  assumes "ledger_ext l (some_ids ps) l'" "mset ps = mset qs"
  shows "ledger_ext l (some_ids qs) l'"
  using assms some_ids_perm [OF assms(2)] mset_eq_setD [OF some_ids_perm [OF assms(2)]]
    mset_eq_imp_distinct_iff [OF some_ids_perm [OF assms(2)]]
  by (simp add: ledger_ext_def)

text \<open>Whatever the allocator grants, the ledger grows exactly by the pointers kept.\<close>

lemma load_alloc_ext:
  assumes la: "load_alloc g a s mt rc ic l = (ok, bk, l')" and l: "ledger_ok l"
  shows "ledger_ext l (some_ids (block_list bk)) l'"
proof -
  obtain c l1 where e1: "cvm_int_alloc g a (unat (code_size s)) l = (c, l1)" by fastforce
  obtain h l2 where e2: "(if mt > 0 then cvm_int_alloc g a mt l1 else (None, l1)) = (h, l2)"
    by fastforce
  obtain f l3 where e3: "(if funcs_size s > 0 then cvm_int_alloc g a (unat (funcs_size s)) l2
      else (None, l2)) = (f, l3)" by fastforce
  obtain r l4 where e4: "(if rc > 0 then cvm_int_calloc g a rc 28 l3 else (None, l3)) = (r, l4)"
    by fastforce
  obtain bl l5 where e5: "cvm_int_alloc g a (unat (imports_size s)) l4 = (bl, l5)" by fastforce
  obtain n l6 where e6: "cvm_int_calloc g a ic 8 l5 = (n, l6)" by fastforce
  obtain fn l7 where e7: "cvm_int_calloc g a ic 8 l6 = (fn, l7)" by fastforce
  obtain ud l8 where e8: "cvm_int_calloc g a ic 8 l7 = (ud, l8)" by fastforce
  have x1: "ledger_ext l (some_ids [c]) l1"
    using alloc_ext [OF e1, of l "[]"] ledger_ext_refl [OF l] by simp
  have x2: "ledger_ext l (some_ids [h, c]) l2"
    using e2 x1 by (auto split: if_splits dest: alloc_ext)
  have x3: "ledger_ext l (some_ids [f, h, c]) l3"
    using e3 x2 by (auto split: if_splits dest: alloc_ext)
  have x4: "ledger_ext l (some_ids [r, f, h, c]) l4"
    using e4 x3 by (auto split: if_splits dest: calloc_ext)
  note x5 = alloc_ext [OF e5 x4]
  note x8 = calloc_ext [OF e8 calloc_ext [OF e7 calloc_ext [OF e6 x5]]]
  have "ledger_ext l (some_ids [c, h, bl, n, fn, ud, f, r]) l8"
    "ledger_ext l (some_ids [c, h, bl, None, None, None, f, r]) l5"
    by (rule ledger_ext_perm [OF x8], simp)
      (use ledger_ext_perm [OF x5, of "[c, h, bl, f, r]"] in \<open>simp add: some_ids_Cons cong: option.case_cong\<close>)
  moreover have "ledger_ext l (some_ids [c, h, None, None, None, None, f, r]) l4"
    using ledger_ext_perm [OF x4, of "[c, h, f, r]"] by (simp add: some_ids_Cons cong: option.case_cong)
  moreover have "ledger_ext l (some_ids [c, h, None, None, None, None, f, None]) l3"
    using ledger_ext_perm [OF x3, of "[c, h, f]"] by (simp add: some_ids_Cons cong: option.case_cong)
  moreover have "ledger_ext l (some_ids [c, h, None, None, None, None, None, None]) l2"
    using ledger_ext_perm [OF x2, of "[c, h]"] by (simp add: some_ids_Cons cong: option.case_cong)
  ultimately show ?thesis
    using la [unfolded load_alloc_def Let_def e1 prod.case e2 e3 e4 e5 e6 e7 e8] x1
    by (auto simp: no_blocks_def block_list_def some_ids_Cons split: if_splits)
qed

text \<open>Releasing exactly those pointers succeeds and restores the set of live blocks.\<close>

lemma free_ext:
  assumes "ledger_ext l (some_ids ps) l'" "mset ps = mset qs"
  shows "\<exists>l''. free_all a qs l' = Some l'' \<and> ledger_ok l'' \<and> set (lg_live l'') = set (lg_live l)"
proof -
  from ledger_ext_perm [OF assms] have q: "ledger_ext l (some_ids qs) l'" .
  then obtain l'' where "free_all a qs l' = Some l''" "distinct (lg_live l'')"
    "lg_next l'' = lg_next l'" "set (lg_live l'') = set (lg_live l') - set (some_ids qs)"
    using free_all_ok [of qs l' a] by (auto simp: ledger_ext_def ledger_ok_def)
  with q show ?thesis by (auto simp: ledger_ext_def ledger_ok_def)
qed

lemma load_alloc_ptrs:
  assumes "load_alloc g a s mt rc ic l = (True, bk, l')"
  shows "bk_code bk \<noteq> None" "bk_heap bk \<noteq> None \<longleftrightarrow> mt > 0"
    "bk_funcs bk \<noteq> None \<longleftrightarrow> funcs_size s > 0" "bk_regions bk \<noteq> None \<longleftrightarrow> rc > 0"
    "bk_blob bk \<noteq> None \<longleftrightarrow> imports_size s > 0"
    "imports_size s > 0 \<Longrightarrow> ic > 0 \<Longrightarrow> bk_names bk \<noteq> None \<and> bk_fns bk \<noteq> None \<and> bk_ud bk \<noteq> None"
    "\<not> (imports_size s > 0 \<and> ic > 0) \<Longrightarrow> bk_names bk = None \<and> bk_fns bk = None \<and> bk_ud bk = None"
  using assms
  by (auto simp: load_alloc_def Let_def no_blocks_def split: if_splits prod.splits)

end
