(* ===== verification/Loader_Correct.thy ===== *)
theory Loader_Correct
  imports Loader_Check
begin

text \<open>
  The second half of \<open>cvm_load_ex\<close>: the copies, the region table, the import names and the
  built-in bindings, ending in what a loaded image satisfies (\<open>image_wf\<close>), where its contents come
  from (\<open>image_from\<close>), and the theorems on \<open>cvm_load_ex\<close> as a whole.
\<close>

section \<open>The copies\<close>

lemma rd32s_defined:
  "off + 4 * n \<le> length b \<Longrightarrow>
   \<exists>vs. rd32s b off n = Some vs \<and> length vs = n \<and> (\<forall>i < n. rd32 b (off + 4 * i) = Some (vs ! i))"
proof (induction n arbitrary: off)
  case (Suc n)
  then have "off + 4 \<le> length b" "off + 4 + 4 * n \<le> length b" by auto
  from rd32_Some [OF this(1)] Suc.IH [OF this(2)]
  obtain v vs where "rd32 b off = Some v" "rd32s b (off + 4) n = Some vs" "length vs = n"
    "\<forall>i < n. rd32 b (off + 4 + 4 * i) = Some (vs ! i)" by blast
  then show ?case by (auto simp: nth_Cons' algebra_simps less_Suc_eq_0_disj)
qed simp

lemma load_funcs_defined: "off + 4 * n \<le> length b \<Longrightarrow> load_funcs b off n cc \<noteq> Undef"
proof (induction n arbitrary: off)
  case (Suc n)
  then have "off + 4 \<le> length b" "load_funcs b (off + 4) n cc \<noteq> Undef" by auto
  then show ?case using rd32_Some [of off b] by (auto simp: cbind_eq_Undef split: if_splits)
qed simp

lemma load_funcs_not_Fail: "load_funcs b off n cc \<noteq> Fail e"
proof (induction n arbitrary: off)
  case (Suc n)
  show ?case
    by (cases "load_funcs b (off + 4) n cc") (auto simp: ub_def Suc split: option.splits)
qed simp

lemma load_funcs_Some:
  "load_funcs b off n cc = Ret (Some fs) \<Longrightarrow>
   length fs = n \<and> (\<forall>i < n. rd32 b (off + 4 * i) = Some (fs ! i) \<and> fs ! i < cc)"
proof (induction n arbitrary: off fs)
  case (Suc n)
  then obtain v fs' where "rd32 b off = Some v" "v < cc" "fs = v # fs'"
    "load_funcs b (off + 4) n cc = Ret (Some fs')"
    by (auto simp: ub_def split: option.splits if_splits)
  with Suc.IH [of "off + 4" fs'] show ?case
    by (auto simp: nth_Cons' algebra_simps less_Suc_eq_0_disj)
qed simp

lemma mem_rd_Some: "a + n \<le> length b \<Longrightarrow> \<exists>d. mem_rd b a n = Some d"
  by (simp add: mem_rd_def)

definition heap_image :: "byte list \<Rightarrow> secs \<Rightarrow> nat \<Rightarrow> nat \<Rightarrow> byte" where
  "heap_image b s ro i =
     (if ro \<le> i \<and> i < ro + unat (rom_size s) then b ! (unat (rom_off s) + (i - ro))
      else if i < unat (data_size s) then b ! (unat (data_off s) + i) else 0)"

lemma fill_heap_spec:
  assumes "secs_wf (length b) s" "unat (data_size s) \<le> mt" "length h0 = mt"
    "rom_size s \<noteq> 0 \<Longrightarrow> unat ro + unat (rom_size s) \<le> mt \<and> unat (data_size s) \<le> unat ro"
  shows "\<exists>h. fill_heap b s ro mt h0 = Ret h \<and> length h = mt \<and>
    (\<forall>i < mt. h ! i = heap_image b s (unat ro) i)"
proof -
  let ?d = "unat (data_size s)"
  obtain d where d: "mem_rd b (unat (data_off s)) ?d = Some d"
    using assms(1) mem_rd_Some unfolding secs_wf_def by blast
  obtain r where r: "mem_rd b (unat (rom_off s)) (unat (rom_size s)) = Some r"
    using assms(1) mem_rd_Some unfolding secs_wf_def by blast
  have ld: "length d = ?d" "length r = unat (rom_size s)"
    using heap.rd_length d r by auto
  obtain h1 where h1: "mem_wr h0 0 d = Some h1"
    using heap.wr_defined [of h0 0 d] assms(2,3) ld by auto
  then have lh1: "length h1 = mt" using assms(3) heap.wr_cap by auto
  obtain h2 where h2: "c_memset h1 ?d 0 (mt - ?d) = Some h2"
    using c_memset_None [of h1 ?d 0 "mt - ?d"] assms(2) lh1 by (cases "c_memset h1 ?d 0 (mt - ?d)") auto
  then have lh2: "length h2 = mt" using c_memset_length lh1 by auto
  have n2: "h2 ! i = (if i < ?d then b ! (unat (data_off s) + i) else 0)" if "i < mt" for i
    using that h1 h2 d ld lh1 assms(2)
    by (auto simp: c_memset_def mem_wr_nth mem_rd_nth)
  have same: "h0 = h1" if "?d = 0"
    using h1 ld that by (simp add: mem_wr_def)
  have same2: "h1 = h2" if "\<not> ?d < mt"
    using h2 that assms(2) lh1 by (simp add: c_memset_def mem_wr_def)
  have f: "fill_heap b s ro mt h0 =
     (if rom_size s \<noteq> 0 then ub (mem_wr h2 (unat ro) r) Ret else Ret h2)"
    using same same2 h2 by (cases "data_size s = 0") (auto simp: fill_heap_def d r h1 unat_eq_0)
  show ?thesis
  proof (cases "rom_size s = 0")
    case True
    then show ?thesis using f lh2 n2 by (auto simp: heap_image_def)
  next
    case False
    with assms(4) obtain h3 where h3: "mem_wr h2 (unat ro) r = Some h3"
      using heap.wr_defined [of h2 "unat ro" r] ld lh2 by auto
    then have "length h3 = mt" using lh2 heap.wr_cap by auto
    moreover have "h3 ! i = heap_image b s (unat ro) i" if "i < mt" for i
      using that h3 r ld n2 [OF that] lh2 by (auto simp: mem_wr_nth mem_rd_nth heap_image_def)
    ultimately show ?thesis using f h3 False by simp
  qed
qed

text \<open>The region cursor: entry \<open>i\<close> starts after the aligned sizes of the entries before it.\<close>

lemma align4_word:
  assumes "unat (sz :: u32) + 3 < 2 ^ 32"
  shows "unat ((sz + 3) AND NOT 3) = align4 (unat sz)"
proof -
  have m: "(3 :: u32) = mask 2" by (simp add: mask_eq_exp_minus_1)
  have "(sz + 3) AND NOT (mask 2) = push_bit 2 (drop_bit 2 (sz + 3))"
    by (rule bit_word_eqI) (auto simp: bit_simps not_less dest!: le_Suc_ex)
  then have "(sz + 3) AND NOT 3 = push_bit 2 (drop_bit 2 (sz + 3))" by (simp only: m)
  also have "unat \<dots> = unat (sz + 3) div 4 * 4"
    by (simp add: push_bit_eq_mult drop_bit_eq_div unat_word_ariths unat_div_distrib
        less_imp_le div_times_less_eq_dividend)
  finally show ?thesis using assms by (simp add: align4_def unat_word_ariths)
qed

definition region_sum :: "byte list \<Rightarrow> nat \<Rightarrow> nat \<Rightarrow> nat" where
  "region_sum b e i = (\<Sum>j < i. align4 (region_size_at b (e + j * 28)))"

lemma region_sum_0 [simp]: "region_sum b e 0 = 0"
  by (simp add: region_sum_def)

lemma region_sum_Suc: "region_sum b e (Suc i) = region_sum b e i + align4 (region_size_at b (e + i * 28))"
  by (simp add: region_sum_def)

lemma region_sum_shift:
  "region_sum b e (Suc i) = align4 (region_size_at b e) + region_sum b (e + 28) i"
  unfolding region_sum_def by (subst sum.lessThan_Suc_shift) (simp add: algebra_simps)

lemma region_sum_mono: "i \<le> j \<Longrightarrow> region_sum b e i \<le> region_sum b e j"
  unfolding region_sum_def by (intro sum_mono2) auto

lemma le_align4: "n \<le> align4 n"
  by (simp add: align4_def)

lemma load_regions_spec:
  assumes "e + k * 28 \<le> length b" "unat cur + region_sum b e k < 2 ^ 32"
  shows "\<exists>rs. load_regions b e k cur = Ret rs \<and> length rs = k \<and>
    (\<forall>i < k. mem_rd b (e + i * 28) 16 = Some (rg_name (rs ! i)) \<and>
       rd32 b (e + i * 28 + 16) = Some (rg_size (rs ! i)) \<and>
       rd32 b (e + i * 28 + 20) = Some (rg_direction (rs ! i)) \<and>
       unat (rg_offset (rs ! i)) = unat cur + region_sum b e i)"
  using assms
proof (induction k arbitrary: e cur)
  case 0
  then show ?case by simp
next
  case (Suc k)
  obtain nm where nm: "mem_rd b e 16 = Some nm" using Suc.prems(1) mem_rd_Some [of e 16 b] by auto
  obtain sz where sz: "rd32 b (e + 16) = Some sz" using Suc.prems(1) rd32_Some [of "e + 16" b] by auto
  obtain dir where dir: "rd32 b (e + 20) = Some dir" using Suc.prems(1) rd32_Some [of "e + 20" b] by auto
  let ?c = "cur + ((sz + 3) AND NOT 3)"
  have rsz: "region_size_at b e = unat sz" using sz by (simp add: region_size_at_def)
  have lt: "unat cur + (align4 (unat sz) + region_sum b (e + 28) k) < 2 ^ 32"
    using Suc.prems(2) rsz by (simp add: region_sum_shift)
  have "unat sz + 3 < 2 ^ 32"
  proof (rule ccontr)
    assume "\<not> unat sz + 3 < 2 ^ 32"
    then have "2 ^ 32 \<le> align4 (unat sz)" unfolding align4_def by simp
    with lt show False by simp
  qed
  then have a: "unat ((sz + 3) AND NOT 3) = align4 (unat sz)" by (rule align4_word)
  then have c: "unat ?c = unat cur + align4 (unat sz)" using lt by (simp add: unat_add_lt)
  have "e + 28 + k * 28 \<le> length b" "unat ?c + region_sum b (e + 28) k < 2 ^ 32"
    using Suc.prems(1) lt c by simp_all
  from Suc.IH [OF this] obtain rs where rs: "load_regions b (e + 28) k ?c = Ret rs" "length rs = k"
    and nth: "\<forall>i < k. mem_rd b (e + 28 + i * 28) 16 = Some (rg_name (rs ! i)) \<and>
       rd32 b (e + 28 + i * 28 + 16) = Some (rg_size (rs ! i)) \<and>
       rd32 b (e + 28 + i * 28 + 20) = Some (rg_direction (rs ! i)) \<and>
       unat (rg_offset (rs ! i)) = unat ?c + region_sum b (e + 28) i" by blast
  let ?r = "\<lparr>rg_name = nm, rg_offset = cur, rg_size = sz, rg_direction = dir\<rparr>"
  have "mem_rd b (e + i * 28) 16 = Some (rg_name ((?r # rs) ! i)) \<and>
       rd32 b (e + i * 28 + 16) = Some (rg_size ((?r # rs) ! i)) \<and>
       rd32 b (e + i * 28 + 20) = Some (rg_direction ((?r # rs) ! i)) \<and>
       unat (rg_offset ((?r # rs) ! i)) = unat cur + region_sum b e i" if "i < Suc k" for i
  proof (cases i)
    case 0
    then show ?thesis using nm sz dir by simp
  next
    case (Suc j)
    with that nth have "mem_rd b (e + 28 + j * 28) 16 = Some (rg_name (rs ! j)) \<and>
       rd32 b (e + 28 + j * 28 + 16) = Some (rg_size (rs ! j)) \<and>
       rd32 b (e + 28 + j * 28 + 20) = Some (rg_direction (rs ! j)) \<and>
       unat (rg_offset (rs ! j)) = unat ?c + region_sum b (e + 28) j" by simp
    with Suc c rsz show ?thesis by (simp add: region_sum_shift algebra_simps)
  qed
  then show ?case using nm sz dir rs by simp
qed

section \<open>Binding the built-ins\<close>

definition import_names_ok :: "byte list \<Rightarrow> nat list \<Rightarrow> bool" where
  "import_names_ok blob offs \<longleftrightarrow> (\<forall>off \<in> set offs. 0 \<in> set (drop off blob))"

lemma cstring_terminated: "0 \<in> set (cstring s)"
  by (simp add: cstring_def)

lemma find_builtin_defined:
  "0 \<in> set nm \<Longrightarrow> (\<forall>(bn, fn) \<in> set t. 0 \<in> set bn) \<Longrightarrow>
   find_builtin nm t = Ret (map_option snd (find (\<lambda>(bn, fn). c_str nm = c_str bn) t))"
  by (induction nm t rule: find_builtin.induct) (auto simp: strcmp_eq_terminated)

lemma BUILTIN_terminated: "\<forall>(bn, fn) \<in> set BUILTIN_SYSCALLS. 0 \<in> set bn"
  by (simp add: BUILTIN_SYSCALLS_def cstring_terminated)

definition builtin_for :: "byte list \<Rightarrow> syscall_fn option" where
  "builtin_for nm = map_option snd (find (\<lambda>(bn, fn). c_str nm = c_str bn) BUILTIN_SYSCALLS)"

lemma bind_loop_spec:
  "import_names_ok blob offs \<Longrightarrow> length fns = length offs \<Longrightarrow> length ud = length offs \<Longrightarrow>
   bind_loop blob offs fns ud =
     Ret (map2 (\<lambda>off f. case builtin_for (drop off blob) of None \<Rightarrow> f | Some fn \<Rightarrow> Some fn) offs fns,
          map2 (\<lambda>off u. case builtin_for (drop off blob) of None \<Rightarrow> u | Some fn \<Rightarrow> 0) offs ud)"
proof (induction offs arbitrary: fns ud)
  case (Cons off offs)
  then obtain f fs u us where "fns = f # fs" "ud = u # us"
    by (auto simp: length_Suc_conv)
  with Cons show ?case
    by (auto simp: import_names_ok_def find_builtin_defined BUILTIN_terminated builtin_for_def [symmetric]
        split: option.splits)
qed simp


section \<open>Well-formed images\<close>

definition imports_wf :: "cvm_image \<Rightarrow> bool" where
  "imports_wf i \<longleftrightarrow> length (cells (img_import_names i)) = unat (img_import_count i)
     \<and> length (cells (img_import_fns i)) = unat (img_import_count i)
     \<and> length (cells (img_import_userdata i)) = unat (img_import_count i)
     \<and> import_names_ok (cells (img_import_blob i)) (cells (img_import_names i))"

definition region_wf :: "u32 \<Rightarrow> cvm_region \<Rightarrow> bool" where
  "region_wf hs r \<longleftrightarrow> length (rg_name r) = 16 \<and> 0 \<in> set (rg_name r)
     \<and> unat (rg_offset r) + unat (rg_size r) \<le> unat hs"

definition image_wf :: "cvm_image \<Rightarrow> bool" where
  "image_wf i \<longleftrightarrow> img_code i \<noteq> NULL \<and> length (cells (img_code i)) = unat (img_code_count i)
     \<and> 0 < img_code_count i \<and> unat (img_code_count i) < 2 ^ 30
     \<and> img_entry i < img_code_count i
     \<and> length (cells (img_heap i)) = unat (img_mem_size i)
     \<and> unat (img_mem_size i) = unat (img_heap_size i) + unat (img_stack_size i)
     \<and> unat (img_data_size i) + unat (img_reserve_size i) \<le> unat (img_heap_size i)
     \<and> (img_stack_size i = 0 \<or> 4 \<le> img_stack_size i)
     \<and> length (cells (img_func_offsets i)) = unat (img_func_count i)
     \<and> (\<forall>off \<in> set (cells (img_func_offsets i)). off < img_code_count i)
     \<and> imports_wf i
     \<and> length (cells (img_regions i)) = unat (img_region_count i)
     \<and> (\<forall>r \<in> set (cells (img_regions i)). region_wf (img_heap_size i) r)"

lemma cells_mk_buf: "cells (mk_buf p xs) = (if p = None then [] else xs)"
  by (cases p) (simp_all add: mk_buf_def)

lemma mk_buf_NULL [simp]: "mk_buf p xs = NULL \<longleftrightarrow> p = None"
  by (cases p) (simp_all add: mk_buf_def)

lemma buf_ptr_mk_buf [simp]: "buf_ptr (mk_buf p xs) = p"
  by (cases p) (simp_all add: mk_buf_def)

lemma put_cells_mk_buf [simp]: "put_cells (mk_buf p xs) ys = mk_buf p ys"
  by (cases p) (simp_all add: mk_buf_def put_cells_def)

lemma auto_bind_spec:
  assumes "imports_wf i"
  shows "\<exists>fns uds. auto_bind_builtins i =
      Ret (i\<lparr>img_import_fns := put_cells (img_import_fns i) fns,
             img_import_userdata := put_cells (img_import_userdata i) uds\<rparr>)
    \<and> length fns = unat (img_import_count i) \<and> length uds = unat (img_import_count i)
    \<and> (\<forall>k < unat (img_import_count i). fns ! k =
         (case builtin_for (drop (cells (img_import_names i) ! k) (cells (img_import_blob i))) of
            None \<Rightarrow> cells (img_import_fns i) ! k | Some fn \<Rightarrow> Some fn))"
proof -
  let ?nm = "cells (img_import_names i)" and ?blob = "cells (img_import_blob i)"
  let ?fns = "map2 (\<lambda>off f. case builtin_for (drop off ?blob) of None \<Rightarrow> f | Some fn \<Rightarrow> Some fn)
      ?nm (cells (img_import_fns i))"
  let ?uds = "map2 (\<lambda>off u. case builtin_for (drop off ?blob) of None \<Rightarrow> u | Some fn \<Rightarrow> 0)
      ?nm (cells (img_import_userdata i))"
  show ?thesis
    using assms by (intro exI [of _ ?fns] exI [of _ ?uds])
      (simp add: auto_bind_builtins_def imports_wf_def bind_loop_spec)
qed

text \<open>Everything the load path has established when it reaches the allocations.\<close>

definition validated :: "byte list \<Rightarrow> secs \<Rightarrow> u32 \<Rightarrow> nat \<Rightarrow> nat \<Rightarrow> nat \<Rightarrow> nat \<Rightarrow> nat \<Rightarrow> bool" where
  "validated b s entry rc rt ht mt ic \<longleftrightarrow>
     load_header b = Ret (s, entry) \<and> validate_regions b s = Ret (rc, rt)
     \<and> load_layout s rt = Ret (ht, mt) \<and> validate_imports b s = Ret ic"

lemma validated_layout:
  assumes "validated b s entry rc rt ht mt ic"
  shows "ht = unat (data_size s) + unat (bss_size s) + rt + unat (rom_size s) + unat (reserve_size s)"
    "mt = ht + unat (stack_size s)" "mt \<le> 0xFFFFFFFF" "stack_size s = 0 \<or> 4 \<le> stack_size s"
  using assms by (auto simp: validated_def load_layout_def Let_def not_less split: if_splits)

lemma validated_secs:
  assumes "validated b s entry rc rt ht mt ic"
  shows "secs_wf (length b) s" "has_code s" "entry < code_size s div 4"
  using assms load_header_wf by (auto simp: validated_def)

lemma validated_regions:
  assumes "validated b s entry rc rt ht mt ic"
  shows "rt = region_sum b (unat (regions_off s) + 4) rc" "rc \<le> 0xFFFF"
    "unat (regions_off s) + 4 + rc * 28 \<le> length b \<or> rc = 0"
    "\<forall>j < rc. region_entry_ok b (unat (regions_off s) + 4 + j * 28)"
proof -
  let ?rp = "unat (regions_off s)"
  from assms have v: "validate_regions b s = Ret (rc, rt)" by (simp add: validated_def)
  have "rt = region_sum b (?rp + 4) rc \<and> rc \<le> 0xFFFF \<and>
    (?rp + 4 + rc * 28 \<le> length b \<or> rc = 0) \<and>
    (\<forall>j < rc. region_entry_ok b (?rp + 4 + j * 28))"
  proof (cases "regions_size s > 0")
    case True
    with v obtain c :: u32 where c: "unat c = rc" "c \<le> 0xFFFF" "4 + rc * 28 \<le> unat (regions_size s)"
      "check_regions b ?rp rc 0 0 = Ret rt"
      by (auto simp: validate_regions_def Let_def ub_def not_less split: option.splits if_splits)
    have fit: "?rp + 4 + (0 + rc) * 28 \<le> length b"
      using c(3) validated_secs(1) [OF assms] by (simp add: secs_wf_def)
    from check_regions_Ret [OF c(4) fit] c(1,2) fit show ?thesis
      by (auto simp: region_sum_def atLeast0LessThan word_arith)
  qed (use v in \<open>auto simp: validate_regions_def\<close>)
  then show "rt = region_sum b (?rp + 4) rc" "rc \<le> 0xFFFF"
    "?rp + 4 + rc * 28 \<le> length b \<or> rc = 0"
    "\<forall>j < rc. region_entry_ok b (?rp + 4 + j * 28)" by blast+
qed

lemma validated_imports:
  assumes "validated b s entry rc rt ht mt ic"
  shows "ic \<le> 0xFFFF" "imports_size s = 0 \<Longrightarrow> ic = 0"
    "imports_size s \<noteq> 0 \<Longrightarrow> 4 + ic * 4 \<le> unat (imports_size s)"
    "\<forall>j < ic. \<exists>v. rd32 b (unat (imports_off s) + 4 + j * 4) = Some v \<and> v < imports_size s \<and>
       0 \<in> set (take (unat (imports_size s) - unat v) (drop (unat (imports_off s) + unat v) b))"
proof -
  let ?ip = "unat (imports_off s)"
  from assms have v: "validate_imports b s = Ret ic" by (simp add: validated_def)
  have "ic \<le> 0xFFFF \<and> (imports_size s = 0 \<longrightarrow> ic = 0) \<and>
    (imports_size s \<noteq> 0 \<longrightarrow> 4 + ic * 4 \<le> unat (imports_size s)) \<and>
    (\<forall>j < ic. \<exists>v. rd32 b (?ip + 4 + j * 4) = Some v \<and> v < imports_size s \<and>
       0 \<in> set (take (unat (imports_size s) - unat v) (drop (?ip + unat v) b)))"
  proof (cases "imports_size s > 0")
    case True
    with v obtain c :: u32 where c: "unat c = ic" "c \<le> 0xFFFF" "4 + ic * 4 \<le> unat (imports_size s)"
      "check_imports b ?ip (imports_size s) ic 0 = Ret ()"
      by (auto simp: validate_imports_def Let_def ub_def not_less split: option.splits if_splits)
    have fit: "?ip + unat (imports_size s) \<le> length b"
      using validated_secs(1) [OF assms] by (simp add: secs_wf_def)
    from check_imports_Ret [OF c(4) fit] c(1-3) True show ?thesis by (auto simp: word_arith)
  qed (use v in \<open>auto simp: validate_imports_def word_neq_0_conv\<close>)
  then show "ic \<le> 0xFFFF" "imports_size s = 0 \<Longrightarrow> ic = 0"
    "imports_size s \<noteq> 0 \<Longrightarrow> 4 + ic * 4 \<le> unat (imports_size s)"
    "\<forall>j < ic. \<exists>v. rd32 b (?ip + 4 + j * 4) = Some v \<and> v < imports_size s \<and>
       0 \<in> set (take (unat (imports_size s) - unat v) (drop (?ip + unat v) b))" by blast+
qed


section \<open>The loaded image\<close>

lemma rd32_mem_rd: "rd32 b a = map_option of_le32 (mem_rd b a 4)"
  by (simp add: rd32_def)

lemma rd32_in_blob:
  assumes "mem_rd b ip n = Some blob" "off + 4 \<le> n"
  shows "rd32 blob off = rd32 b (ip + off)"
  using assms by (auto simp: rd32_def mem_rd_def ac_simps take_drop min_def split: if_splits)

lemma set_blob:
  assumes "mem_rd b ip n = Some blob" "0 \<in> set (take (n - v) (drop (ip + v) b))"
  shows "0 \<in> set (drop v blob)"
  using assms by (auto simp: mem_rd_def drop_take add.commute split: if_splits)

text \<open>The file contents as they appear in the image; nothing of it depends on what the
  allocator left in the heap buffer.\<close>

definition image_from :: "byte list \<Rightarrow> secs \<Rightarrow> nat \<Rightarrow> nat \<Rightarrow> nat \<Rightarrow> cvm_image \<Rightarrow> bool" where
  "image_from b s rc rt ic i \<longleftrightarrow>
     rd32s b (unat (code_off s)) (unat (code_size s) div 4) = Some (cells (img_code i))
     \<and> cells (img_heap i) = map (heap_image b s (unat (data_size s) + unat (bss_size s) + rt))
         [0..<unat (img_mem_size i)]
     \<and> load_funcs b (unat (funcs_off s)) (unat (funcs_size s) div 4) (code_size s div 4)
         = Ret (Some (cells (img_func_offsets i)))
     \<and> length (cells (img_regions i)) = rc
     \<and> (\<forall>j < rc. let e = unat (regions_off s) + 4 + j * 28; r = cells (img_regions i) ! j in
         mem_rd b e 16 = Some (rg_name r) \<and> rd32 b (e + 16) = Some (rg_size r)
         \<and> rd32 b (e + 20) = Some (rg_direction r)
         \<and> unat (rg_offset r) = unat (data_size s) + unat (bss_size s)
             + region_sum b (unat (regions_off s) + 4) j)
     \<and> (if imports_size s = 0 then cells (img_import_names i) = []
        else mem_rd b (unat (imports_off s)) (unat (imports_size s)) = Some (cells (img_import_blob i))
          \<and> map_option (map unat) (rd32s (cells (img_import_blob i)) 4 ic)
              = Some (cells (img_import_names i)))
     \<and> unat (img_import_count i) = ic \<and> img_data_size i = data_size s
     \<and> img_reserve_size i = reserve_size s \<and> img_stack_size i = stack_size s
     \<and> unat (img_heap_size i) = unat (data_size s) + unat (bss_size s) + rt
         + unat (rom_size s) + unat (reserve_size s)
     \<and> img_rom_size i = rom_size s
     \<and> unat (img_rom_offset i) = (if rom_size s = 0 then 0
         else unat (data_size s) + unat (bss_size s) + rt)"

lemma load_blob:
  assumes v: "validated b s entry rc rt ht mt ic"
  obtains blob offs where
    "(if imports_size s > 0 then ub (mem_rd b (unat (imports_off s)) (unat (imports_size s))) Ret
      else Ret []) = Ret blob"
    "(if imports_size s > 0 then rd32s blob 4 ic else Some []) = Some offs"
    "length offs = ic" "import_names_ok blob (map unat offs)"
proof (cases "imports_size s = 0")
  case True
  then show ?thesis
    using that [of "[]" "[]"] validated_imports(2) [OF v] by (simp add: import_names_ok_def)
next
  case False
  let ?ip = "unat (imports_off s)" and ?n = "unat (imports_size s)"
  obtain blob where blob: "mem_rd b ?ip ?n = Some blob"
    using validated_secs(1) [OF v] mem_rd_Some unfolding secs_wf_def by blast
  then have lb: "length blob = ?n" by (rule heap.rd_length)
  have fit: "4 + 4 * ic \<le> length blob" using validated_imports(3) [OF v False] lb by simp
  obtain offs where offs: "rd32s blob 4 ic = Some offs" "length offs = ic"
    "\<forall>i < ic. rd32 blob (4 + 4 * i) = Some (offs ! i)"
    using rd32s_defined [OF fit] by blast
  have "0 \<in> set (drop (unat (offs ! j)) blob)" if j: "j < ic" for j
  proof -
    obtain w where w: "rd32 b (?ip + 4 + j * 4) = Some w"
      "0 \<in> set (take (?n - unat w) (drop (?ip + unat w) b))"
      using validated_imports(4) [OF v] j by blast
    have "rd32 blob (4 + 4 * j) = rd32 b (?ip + (4 + 4 * j))"
      using fit j lb by (intro rd32_in_blob [OF blob]) simp
    with w offs(3) j have "offs ! j = w" by (simp add: algebra_simps)
    with set_blob [OF blob w(2)] show ?thesis by simp
  qed
  then have "import_names_ok blob (map unat offs)"
    using offs(2) by (auto simp: import_names_ok_def in_set_conv_nth)
  with that [of blob offs] False blob offs show ?thesis by (simp add: word_gt_0)
qed

lemma load_region_table:
  assumes v: "validated b s entry rc rt ht mt ic"
  obtains rs where
    "(if rc > 0 then load_regions b (unat (regions_off s) + 4) rc (data_size s + bss_size s)
      else Ret []) = Ret rs" "length rs = rc"
    "\<forall>j < rc. let e = unat (regions_off s) + 4 + j * 28; r = rs ! j in
       mem_rd b e 16 = Some (rg_name r) \<and> rd32 b (e + 16) = Some (rg_size r)
       \<and> rd32 b (e + 20) = Some (rg_direction r)
       \<and> unat (rg_offset r) = unat (data_size s) + unat (bss_size s)
           + region_sum b (unat (regions_off s) + 4) j"
proof (cases "rc = 0")
  case True
  then show ?thesis using that [of "[]"] by simp
next
  case False
  let ?e = "unat (regions_off s) + 4" and ?c = "data_size s + bss_size s"
  note lay = validated_layout [OF v] and reg = validated_regions [OF v]
  have c: "unat ?c = unat (data_size s) + unat (bss_size s)"
    using lay by (intro unat_add_lt) simp
  have "?e + rc * 28 \<le> length b" "unat ?c + region_sum b ?e rc < 2 ^ 32"
    using reg lay c False by auto
  from load_regions_spec [OF this] obtain rs where "load_regions b ?e rc ?c = Ret rs"
    "length rs = rc" "\<forall>i < rc. mem_rd b (?e + i * 28) 16 = Some (rg_name (rs ! i)) \<and>
       rd32 b (?e + i * 28 + 16) = Some (rg_size (rs ! i)) \<and>
       rd32 b (?e + i * 28 + 20) = Some (rg_direction (rs ! i)) \<and>
       unat (rg_offset (rs ! i)) = unat ?c + region_sum b ?e i" by blast
  with that [of rs] c False show ?thesis by (simp add: Let_def)
qed

lemma unat_div4: "unat ((x :: u32) div 4) = unat x div 4"
  by (simp add: unat_div_distrib)

lemma unat_of_nat32: "n \<le> 0xFFFFFFFF \<Longrightarrow> unat (of_nat n :: u32) = n"
  by (simp add: unat_of_nat)

lemma code_count_bounds:
  assumes "entry < code_size s div 4"
  shows "0 < code_size s div 4" "unat (code_size s div 4) < 2 ^ 30"
proof -
  show "0 < code_size s div 4" using assms by (auto simp: word_arith)
  have "unat (code_size s) < 4 * 2 ^ 30" using unat_lt32 [of "code_size s"] by simp
  then show "unat (code_size s div 4) < 2 ^ 30" by (simp add: unat_div4 del: unat_lt32)
qed

text \<open>The image before the built-ins are bound.\<close>

definition unbound_image ::
  "secs \<Rightarrow> nat \<Rightarrow> nat \<Rightarrow> nat \<Rightarrow> nat \<Rightarrow> nat \<Rightarrow> u32 \<Rightarrow> cvm_allocator option \<Rightarrow> blocks
    \<Rightarrow> u32 list \<Rightarrow> mem \<Rightarrow> u32 list \<Rightarrow> byte list \<Rightarrow> u32 list \<Rightarrow> cvm_region list \<Rightarrow> cvm_image" where
  "unbound_image s rt ht mt rc ic entry a bk code heap fs blob offs rs =
     \<lparr>img_code = mk_buf (bk_code bk) code, img_code_count = code_size s div 4,
      img_heap = mk_buf (bk_heap bk) heap, img_heap_size = of_nat ht,
      img_data_size = data_size s, img_reserve_size = reserve_size s,
      img_stack_size = stack_size s, img_mem_size = of_nat mt,
      img_regions = mk_buf (bk_regions bk) rs, img_region_count = of_nat rc,
      img_rom_offset = (if rom_size s \<noteq> 0 then data_size s + bss_size s + of_nat rt else 0),
      img_rom_size = rom_size s,
      img_allocator = (case a of None \<Rightarrow> no_hooks | Some h \<Rightarrow> h),
      img_entry = entry, img_func_offsets = mk_buf (bk_funcs bk) fs,
      img_func_count = funcs_size s div 4, img_import_count = of_nat ic,
      img_import_names = mk_buf (bk_names bk) (map unat offs),
      img_import_fns = mk_buf (bk_fns bk) (replicate ic None),
      img_import_userdata = mk_buf (bk_ud bk) (replicate ic 0),
      img_import_blob = mk_buf (bk_blob bk) blob\<rparr>"

lemma validated_fits:
  assumes v: "validated b s entry rc rt ht mt ic"
  shows "unat (of_nat mt :: u32) = mt" "unat (of_nat ht :: u32) = ht"
    "unat (of_nat rc :: u32) = rc" "unat (of_nat ic :: u32) = ic"
    "unat (data_size s + bss_size s) = unat (data_size s) + unat (bss_size s)"
    "unat (data_size s + bss_size s + of_nat rt) = unat (data_size s) + unat (bss_size s) + rt"
proof -
  note lay = validated_layout [OF v]
  show "unat (of_nat mt :: u32) = mt" by (rule unat_of_nat32) (rule lay(3))
  show "unat (of_nat ht :: u32) = ht" by (rule unat_of_nat32) (use lay(2,3) in linarith)
  show "unat (of_nat rc :: u32) = rc" "unat (of_nat ic :: u32) = ic"
    using validated_regions(2) [OF v] validated_imports(1) [OF v] by (auto intro!: unat_of_nat32)
  have rt: "unat (of_nat rt :: u32) = rt" by (rule unat_of_nat32) (use lay(1-3) in linarith)
  show c: "unat (data_size s + bss_size s) = unat (data_size s) + unat (bss_size s)"
    by (rule unat_add_lt) (use lay(1-3) in simp)
  show "unat (data_size s + bss_size s + of_nat rt) = unat (data_size s) + unat (bss_size s) + rt"
    by (subst unat_add_lt) (use lay(1-3) c rt in simp_all)
qed

lemma load_fill_unbound:
  assumes "rd32s b (unat (code_off s)) (unat (code_size s div 4)) = Some code"
    "fill_heap b s (data_size s + bss_size s + of_nat rt) mt (map junk [0..<mt]) = Ret heap"
    "load_funcs b (unat (funcs_off s)) (unat (funcs_size s div 4)) (code_size s div 4) = Ret fo"
    "(if imports_size s > 0 then ub (mem_rd b (unat (imports_off s)) (unat (imports_size s))) Ret
      else Ret []) = Ret blob"
    "(if imports_size s > 0 then rd32s blob 4 ic else Some []) = Some offs"
    "(if rc > 0 then load_regions b (unat (regions_off s) + 4) rc (data_size s + bss_size s)
      else Ret []) = Ret rs"
  shows "load_fill b s (data_size s + bss_size s + of_nat rt) ht mt rc ic entry junk a bk =
    (case fo of None \<Rightarrow> Ret None
     | Some fs \<Rightarrow> cbind (auto_bind_builtins
           (unbound_image s rt ht mt rc ic entry a bk code heap fs blob offs rs))
         (\<lambda>img. Ret (Some img)))"
  unfolding load_fill_def Let_def assms(1,2,3) ub_simps cbind.simps
  by (cases fo) (simp_all only: option.case assms(4-6) ub_simps cbind.simps unbound_image_def)


lemma validated_region_wf:
  assumes v: "validated b s entry rc rt ht mt ic" and j: "j < rc"
    and nm: "mem_rd b (unat (regions_off s) + 4 + j * 28) 16 = Some (rg_name r)"
    and sz: "rd32 b (unat (regions_off s) + 4 + j * 28 + 16) = Some (rg_size r)"
    and off: "unat (rg_offset r) = unat (data_size s) + unat (bss_size s)
      + region_sum b (unat (regions_off s) + 4) j"
  shows "region_wf (of_nat ht) r"
proof -
  let ?e = "unat (regions_off s) + 4"
  have ok: "region_entry_ok b (?e + j * 28)" using validated_regions(4) [OF v] j by blast
  have "length (rg_name r) = 16" using nm by (rule heap.rd_length)
  moreover have "0 \<in> set (rg_name r)"
    using ok nm by (auto simp: region_entry_ok_def mem_rd_def split: if_splits)
  moreover have "region_sum b ?e (Suc j) \<le> rt"
    using region_sum_mono [of "Suc j" rc b ?e] j validated_regions(1) [OF v] by simp
  then have "region_sum b ?e j + unat (rg_size r) \<le> rt"
    using sz le_align4 [of "unat (rg_size r)"] by (simp add: region_sum_Suc region_size_at_def)
  then have "unat (rg_offset r) + unat (rg_size r) \<le> ht"
    using off validated_layout(1) [OF v] by simp
  ultimately show ?thesis by (simp add: region_wf_def validated_fits(2) [OF v])
qed

lemma unbound_image_ok:
  assumes v: "validated b s entry rc rt ht mt ic"
    and al: "load_alloc g a s mt rc ic l = (True, bk, l')"
    and code: "length code = unat (code_size s div 4)"
    and heap: "length heap = mt"
    and funcs: "length fs = unat (funcs_size s div 4)" "\<forall>f \<in> set fs. f < code_size s div 4"
    and imp: "length offs = ic" "import_names_ok blob (map unat offs)" "imports_size s = 0 \<Longrightarrow> blob = []"
    and reg: "length rs = rc" "\<forall>r \<in> set rs. region_wf (of_nat ht) r"
    and i: "i = unbound_image s rt ht mt rc ic entry a bk code heap fs blob offs rs"
  shows "image_wf i" and "cells (img_code i) = code" "cells (img_heap i) = heap"
    "cells (img_func_offsets i) = fs" "cells (img_regions i) = rs"
    "cells (img_import_names i) = map unat offs" "cells (img_import_blob i) = blob"
proof -
  note p = load_alloc_ptrs [OF al] and fit = validated_fits [OF v] and lay = validated_layout [OF v]
  show c: "cells (img_code i) = code" using p(1) by (auto simp: i unbound_image_def cells_mk_buf)
  show h: "cells (img_heap i) = heap" using p(2) heap by (auto simp: i unbound_image_def cells_mk_buf)
  have "funcs_size s = 0 \<Longrightarrow> fs = []" using funcs(1) by simp
  then show f: "cells (img_func_offsets i) = fs"
    using p(3) by (auto simp: i unbound_image_def cells_mk_buf word_gt_0)
  show r: "cells (img_regions i) = rs"
    using p(4) reg(1) by (auto simp: i unbound_image_def cells_mk_buf)
  have z: "ic = 0 \<or> imports_size s > 0" using validated_imports(2) [OF v] by (auto simp: word_gt_0)
  then show n: "cells (img_import_names i) = map unat offs"
    using p(6) imp(1) by (cases "offs = []") (auto simp: i unbound_image_def cells_mk_buf)
  show bl: "cells (img_import_blob i) = blob"
    using p(5) imp(3) by (auto simp: i unbound_image_def cells_mk_buf word_gt_0)
  have fn: "length (cells (img_import_fns i)) = ic" "length (cells (img_import_userdata i)) = ic"
    using p(6) z by (cases "ic = 0"; auto simp: i unbound_image_def cells_mk_buf)+
  have "imports_wf i"
    unfolding imports_wf_def n bl using fn imp(1,2) fit(4) by (simp add: i unbound_image_def)
  moreover have "unat (data_size s) + unat (reserve_size s) \<le> ht" "mt = ht + unat (stack_size s)"
    using lay(1,2) by simp_all
  moreover have "img_code i \<noteq> NULL" using p(1) by (simp add: i unbound_image_def)
  moreover note code_count_bounds [OF validated_secs(3) [OF v]] validated_secs(3) [OF v] lay(4)
  ultimately show "image_wf i"
    unfolding image_wf_def c h f r
    using code heap funcs reg fit by (simp add: i unbound_image_def)
qed


lemma image_wf_rebind:
  assumes "image_wf i"
    "length fns = unat (img_import_count i)" "length uds = unat (img_import_count i)"
  shows "image_wf (i\<lparr>img_import_fns := put_cells (img_import_fns i) fns,
    img_import_userdata := put_cells (img_import_userdata i) uds\<rparr>)"
proof -
  have wf: "imports_wf i" using assms(1) by (simp add: image_wf_def)
  then have "length (cells (put_cells (img_import_fns i) fns)) = unat (img_import_count i)"
    "length (cells (put_cells (img_import_userdata i) uds)) = unat (img_import_count i)"
    using assms(2,3) by (cases "img_import_fns i"; cases "img_import_userdata i";
      simp add: imports_wf_def put_cells_def)+
  with wf have "imports_wf (i\<lparr>img_import_fns := put_cells (img_import_fns i) fns,
    img_import_userdata := put_cells (img_import_userdata i) uds\<rparr>)"
    by (simp add: imports_wf_def)
  with assms(1) show ?thesis by (simp add: image_wf_def)
qed

lemma validated_heap:
  assumes v: "validated b s entry rc rt ht mt ic" and h0: "length h0 = mt"
  shows "\<exists>h. fill_heap b s (data_size s + bss_size s + of_nat rt) mt h0 = Ret h \<and> length h = mt \<and>
    h = map (heap_image b s (unat (data_size s) + unat (bss_size s) + rt)) [0..<mt]"
proof -
  note fit = validated_fits [OF v] and lay = validated_layout [OF v]
  have "\<exists>h. fill_heap b s (data_size s + bss_size s + of_nat rt) mt h0 = Ret h \<and> length h = mt \<and>
    (\<forall>i < mt. h ! i = heap_image b s (unat (data_size s + bss_size s + of_nat rt)) i)"
  proof (rule fill_heap_spec [OF validated_secs(1) [OF v] _ h0])
    show "unat (data_size s) \<le> mt" using lay(1,2) by linarith
    show "unat (data_size s + bss_size s + of_nat rt) + unat (rom_size s) \<le> mt \<and>
      unat (data_size s) \<le> unat (data_size s + bss_size s + of_nat rt)"
      unfolding fit(6) using lay(1,2) by linarith
  qed
  then obtain h where h: "fill_heap b s (data_size s + bss_size s + of_nat rt) mt h0 = Ret h"
    "length h = mt"
    "\<forall>i < mt. h ! i = heap_image b s (unat (data_size s) + unat (bss_size s) + rt) i"
    unfolding fit(6) by blast
  then have "h = map (heap_image b s (unat (data_size s) + unat (bss_size s) + rt)) [0..<mt]"
    by (intro nth_equalityI) simp_all
  with h(1,2) show ?thesis by blast
qed

lemma load_fill_spec:
  assumes v: "validated b s entry rc rt ht mt ic"
    and al: "load_alloc g a s mt rc ic l = (True, bk, l')"
  obtains
    (bad) "load_fill b s (data_size s + bss_size s + of_nat rt) ht mt rc ic entry junk a bk = Ret None"
      "load_funcs b (unat (funcs_off s)) (unat (funcs_size s) div 4) (code_size s div 4) = Ret None"
  | (img) img where
      "load_fill b s (data_size s + bss_size s + of_nat rt) ht mt rc ic entry junk a bk = Ret (Some img)"
      "image_wf img" "image_from b s rc rt ic img" "mset (image_blocks img) = mset (block_list bk)"
      "img_allocator img = (case a of None \<Rightarrow> no_hooks | Some h \<Rightarrow> h)" "img_entry img = entry"
proof -
  let ?lf = "load_fill b s (data_size s + bss_size s + of_nat rt) ht mt rc ic entry junk a bk"
  note w = validated_secs(1) [OF v] and fit = validated_fits [OF v] and lay = validated_layout [OF v]
  have m4: "unat (code_size s div 4) * 4 = unat (code_size s)"
    "unat (funcs_size s div 4) * 4 = unat (funcs_size s)"
    using w by (auto simp: secs_wf_def unat_div4)
  obtain code where code: "rd32s b (unat (code_off s)) (unat (code_size s div 4)) = Some code"
    "length code = unat (code_size s div 4)"
    using rd32s_defined [of "unat (code_off s)" "unat (code_size s div 4)" b] w m4
    by (auto simp: secs_wf_def mult.commute)
  obtain heap where heap:
    "fill_heap b s (data_size s + bss_size s + of_nat rt) mt (map junk [0..<mt]) = Ret heap"
    "length heap = mt"
    "heap = map (heap_image b s (unat (data_size s) + unat (bss_size s) + rt)) [0..<mt]"
    using validated_heap [OF v, of "map junk [0..<mt]"] by auto
  have "load_funcs b (unat (funcs_off s)) (unat (funcs_size s div 4)) (code_size s div 4) \<noteq> Undef"
    using w m4 by (intro load_funcs_defined) (simp add: secs_wf_def mult.commute)
  then obtain fo where fo:
    "load_funcs b (unat (funcs_off s)) (unat (funcs_size s div 4)) (code_size s div 4) = Ret fo"
    by (metis cres.exhaust load_funcs_not_Fail)
  obtain blob offs where bl:
    "(if imports_size s > 0 then ub (mem_rd b (unat (imports_off s)) (unat (imports_size s))) Ret
      else Ret []) = Ret blob"
    "(if imports_size s > 0 then rd32s blob 4 ic else Some []) = Some offs"
    "length offs = ic" "import_names_ok blob (map unat offs)"
    using load_blob [OF v] by blast
  have bl0: "imports_size s = 0 \<Longrightarrow> blob = []" using bl(1) by simp
  obtain rs where rs:
    "(if rc > 0 then load_regions b (unat (regions_off s) + 4) rc (data_size s + bss_size s)
      else Ret []) = Ret rs" "length rs = rc" and nth:
    "\<forall>j < rc. let e = unat (regions_off s) + 4 + j * 28; r = rs ! j in
       mem_rd b e 16 = Some (rg_name r) \<and> rd32 b (e + 16) = Some (rg_size r)
       \<and> rd32 b (e + 20) = Some (rg_direction r)
       \<and> unat (rg_offset r) = unat (data_size s) + unat (bss_size s)
           + region_sum b (unat (regions_off s) + 4) j"
    using load_region_table [OF v] by blast
  have "region_wf (of_nat ht) (rs ! j)" if j: "j < rc" for j
    using nth j by (intro validated_region_wf [OF v j]) (simp_all add: Let_def)
  then have rwf: "\<forall>r \<in> set rs. region_wf (of_nat ht) r"
    using rs(2) by (auto simp: in_set_conv_nth)
  note lf = load_fill_unbound [OF code(1) heap(1) fo bl(1,2) rs(1), of ht entry a bk]
  show thesis
  proof (cases fo)
    case None
    with bad lf fo show thesis by (simp add: unat_div4)
  next
    case (Some fs)
    define i where i: "i = unbound_image s rt ht mt rc ic entry a bk code heap fs blob offs rs"
    have fs: "length fs = unat (funcs_size s div 4)" "\<forall>f \<in> set fs. f < code_size s div 4"
      using load_funcs_Some [OF fo [unfolded Some]] by (auto simp: in_set_conv_nth)
    note ok = unbound_image_ok [OF v al code(2) heap(2) fs bl(3,4) bl0 rs(2) rwf i]
    from auto_bind_spec [of i] ok(1) obtain fns uds where
      ab: "auto_bind_builtins i = Ret (i\<lparr>img_import_fns := put_cells (img_import_fns i) fns,
             img_import_userdata := put_cells (img_import_userdata i) uds\<rparr>)"
        (is "_ = Ret ?j")
      and len: "length fns = unat (img_import_count i)" "length uds = unat (img_import_count i)"
      by (auto simp: image_wf_def)
    have "image_wf ?j" by (rule image_wf_rebind [OF ok(1) len])
    moreover have "imports_size s = 0 \<longrightarrow> cells (img_import_names i) = []"
      "imports_size s \<noteq> 0 \<longrightarrow>
        mem_rd b (unat (imports_off s)) (unat (imports_size s)) = Some (cells (img_import_blob i))
        \<and> map_option (map unat) (rd32s (cells (img_import_blob i)) 4 ic) = Some (cells (img_import_names i))"
      using bl(1,2) ok by (auto simp: ub_def word_gt_0 split: option.splits if_splits)
    then have "image_from b s rc rt ic ?j"
      unfolding image_from_def using ok(2-5) code(1) heap(3) fo Some rs(2) nth fit lay
      by (intro conjI) (simp_all add: i unbound_image_def unat_div4 del: map_option_eq_Some)
    moreover have "mset (image_blocks ?j) = mset (block_list bk)"
      by (simp add: image_blocks_def block_list_def i unbound_image_def)
    moreover have "?lf = Ret (Some ?j)" using lf ab Some i by simp
    ultimately show thesis using img [of ?j] by (simp add: i unbound_image_def)
  qed
qed


section \<open>\<open>cvm_load_ex\<close> as a whole\<close>

text \<open>The checks before the allocations never read outside the file.\<close>

lemma validation_cases:
  obtains
    (reject) e where
      "cbind (load_header b) (\<lambda>(s, entry). cbind (validate_regions b s) (\<lambda>(rc, rt).
       cbind (load_layout s rt) (\<lambda>(ht, mt). cbind (validate_imports b s) (\<lambda>ic.
         Ret (s, entry, rc, rt, ht, mt, ic))))) = Fail e"
  | (accept) s entry rc rt ht mt ic where
      "cbind (load_header b) (\<lambda>(s, entry). cbind (validate_regions b s) (\<lambda>(rc, rt).
       cbind (load_layout s rt) (\<lambda>(ht, mt). cbind (validate_imports b s) (\<lambda>ic.
         Ret (s, entry, rc, rt, ht, mt, ic))))) = Ret (s, entry, rc, rt, ht, mt, ic)"
      "validated b s entry rc rt ht mt ic"
proof (cases "load_header b")
  case Undef
  then show thesis using load_header_defined by blast
next
  case (Fail e)
  then show thesis using reject by simp
next
  case (Ret p)
  obtain s entry where p: "p = (s, entry)" by fastforce
  note h = Ret [unfolded p]
  have w: "secs_wf (length b) s" using load_header_wf [OF h] by simp
  show thesis
  proof (cases "validate_regions b s")
    case Undef
    then show thesis using validate_regions_defined [OF w] by blast
  next
    case (Fail e)
    then show thesis using reject h by simp
  next
    case (Ret q)
    obtain rc rt where q: "q = (rc, rt)" by fastforce
    note r = Ret [unfolded q]
    have lay: "load_layout s rt \<noteq> Undef" by (simp add: load_layout_def Let_def)
    show thesis
    proof (cases "load_layout s rt")
      case Undef
      then show thesis using lay by blast
    next
      case (Fail e)
      then show thesis using reject h r by simp
    next
      case (Ret m)
      obtain ht mt where m: "m = (ht, mt)" by fastforce
      note y = Ret [unfolded m]
      show thesis
        using validate_imports_defined [OF w] reject accept h r y
        by (cases "validate_imports b s") (auto simp: validated_def)
    qed
  qed
qed

text \<open>The four ways a load ends.\<close>

lemma load_ex_cases:
  assumes l: "ledger_ok l"
  obtains
    (reject) e where "cvm_load_ex g junk bytes out a l = Ret (Inl e, l)"
  | (release) e l' where "cvm_load_ex g junk bytes out a l = Ret (Inl e, l')"
      "e = CVM_E_NOMEM \<or> e = CVM_E_BAD_FUNCS" "ledger_ok l'" "set (lg_live l') = set (lg_live l)"
  | (loaded) b s entry rc rt ht mt ic img l' where
      "cvm_load_ex g junk bytes out a l = Ret (Inr img, l')" "bytes = Some b"
      "validated b s entry rc rt ht mt ic" "image_wf img" "image_from b s rc rt ic img"
      "img_entry img = entry" "img_allocator img = (case a of None \<Rightarrow> no_hooks | Some h \<Rightarrow> h)"
      "ledger_ext l (some_ids (image_blocks img)) l'"
proof (cases "bytes = None \<or> \<not> out")
  case True
  then have "cvm_load_ex g junk bytes out a l = Ret (Inl CVM_E_TRUNCATED, l)"
    by (auto simp: cvm_load_ex_def split: option.split)
  then show thesis by (rule reject)
next
  case False
  then obtain b where b: "bytes = Some b" and out: out by auto
  show thesis
  proof (rule validation_cases [of b])
    fix e
    assume "cbind (load_header b) (\<lambda>(s, entry). cbind (validate_regions b s) (\<lambda>(rc, rt).
       cbind (load_layout s rt) (\<lambda>(ht, mt). cbind (validate_imports b s) (\<lambda>ic.
         Ret (s, entry, rc, rt, ht, mt, ic))))) = Fail e"
    then show thesis using reject [of e] by (simp add: cvm_load_ex_def b out)
  next
    fix s entry rc rt ht mt ic
    assume stage: "cbind (load_header b) (\<lambda>(s, entry). cbind (validate_regions b s) (\<lambda>(rc, rt).
       cbind (load_layout s rt) (\<lambda>(ht, mt). cbind (validate_imports b s) (\<lambda>ic.
         Ret (s, entry, rc, rt, ht, mt, ic))))) = Ret (s, entry, rc, rt, ht, mt, ic)"
      and v: "validated b s entry rc rt ht mt ic"
    obtain ok bk l' where al: "load_alloc g a s mt rc ic l = (ok, bk, l')" by (metis prod_cases3)
    note ext = load_alloc_ext [OF al l]
    show thesis
    proof (cases ok)
      case False
      obtain l'' where "free_all a (block_list bk) l' = Some l''" "ledger_ok l''"
        "set (lg_live l'') = set (lg_live l)"
        using free_ext [OF ext refl] by blast
      with False release [of CVM_E_NOMEM l''] al stage show thesis
        by (simp add: cvm_load_ex_def b out)
    next
      case True
      have al: "load_alloc g a s mt rc ic l = (True, bk, l')" using al True by simp
      show thesis
      proof (rule load_fill_spec [OF v, of g a l bk l' junk])
        show "load_alloc g a s mt rc ic l = (True, bk, l')" using al by simp
      next
        assume f: "load_fill b s (data_size s + bss_size s + word_of_nat rt) ht mt rc ic entry junk a bk
          = Ret None"
        have "mset (block_list bk) = mset [bk_code bk, bk_heap bk, bk_funcs bk, bk_regions bk,
            bk_blob bk, bk_names bk, bk_fns bk, bk_ud bk]" by (simp add: block_list_def)
        from free_ext [OF ext this] obtain l'' where
          "free_all a [bk_code bk, bk_heap bk, bk_funcs bk, bk_regions bk,
            bk_blob bk, bk_names bk, bk_fns bk, bk_ud bk] l' = Some l''" "ledger_ok l''"
          "set (lg_live l'') = set (lg_live l)" by blast
        with f release [of CVM_E_BAD_FUNCS l''] al stage show thesis
          by (simp add: cvm_load_ex_def b out)
      next
        fix img
        assume f: "load_fill b s (data_size s + bss_size s + word_of_nat rt) ht mt rc ic entry junk a bk
          = Ret (Some img)" and img: "image_wf img" "image_from b s rc rt ic img"
          "mset (image_blocks img) = mset (block_list bk)"
          "img_allocator img = (case a of None \<Rightarrow> no_hooks | Some h \<Rightarrow> h)" "img_entry img = entry"
        have "cvm_load_ex g junk bytes out a l = Ret (Inr img, l')"
          using f al stage by (simp add: cvm_load_ex_def b out)
        from loaded [OF this b v img(1,2,5,4)] ledger_ext_perm [OF ext img(3) [symmetric]]
        show thesis by blast
      qed
    qed
  qed
qed


lemma free_all_calls:
  "free_all a ps l = Some l' \<Longrightarrow>
   lg_calls l' = map (\<lambda>k. (free_routine a, k)) (rev (some_ids ps)) @ lg_calls l"
proof (induction ps arbitrary: l)
  case (Cons p ps)
  then show ?case by (cases p) (auto simp: cvm_int_free_def split: if_splits)
qed simp

lemma free_routine_hooks: "free_routine (Some (case a of None \<Rightarrow> no_hooks | Some h \<Rightarrow> h)) = free_routine a"
  by (simp add: free_routine_def no_hooks_def split: option.split)

text \<open>What an accepted section table looks like.\<close>

definition section_ok :: "byte list \<Rightarrow> nat \<Rightarrow> bool" where
  "section_ok b e \<longleftrightarrow> (\<exists>t off sz. rd32 b e = Some t \<and> rd32 b (e + 4) = Some off
     \<and> rd32 b (e + 8) = Some sz \<and> rd32 b (e + 12) = Some 0 \<and> 1 \<le> t \<and> t \<le> 12
     \<and> (if has_payload t then unat off + unat sz \<le> length b else off = 0)
     \<and> (t = sec_value CVM_SEC_CODE \<or> t = sec_value CVM_SEC_FUNCS
          \<longrightarrow> 0 < sz \<and> unat sz mod 4 = 0))"

lemma record_section_seen: "record_section t off sz s = Ret s' \<Longrightarrow> seen s' = seen s"
  by (auto simp: record_section_def split: if_splits)

lemma record_section_sizes:
  "record_section t off sz s = Ret s' \<Longrightarrow>
   t = sec_value CVM_SEC_CODE \<or> t = sec_value CVM_SEC_FUNCS \<Longrightarrow> 0 < sz \<and> unat sz mod 4 = 0"
  by (auto simp: record_section_def mod4_unat word_gt_0 split: if_splits)

lemma scan_section_Ret:
  assumes "scan_section len t off sz fl s = Ret s'" "length (seen s) = 13"
  shows "fl = 0 \<and> 1 \<le> t \<and> t \<le> 12 \<and> (if has_payload t then unat off + unat sz \<le> len else off = 0)
    \<and> (t = sec_value CVM_SEC_CODE \<or> t = sec_value CVM_SEC_FUNCS \<longrightarrow> 0 < sz \<and> unat sz mod 4 = 0)
    \<and> length (seen s') = 13
    \<and> (if t = sec_value CVM_SEC_DEBUG then seen s' = seen s
        else \<not> seen s ! unat t \<and> seen s' = (seen s)[unat t := True])"
proof -
  define s0 where "s0 = (if t \<noteq> sec_value CVM_SEC_DEBUG
      then s\<lparr>seen := (seen s)[unat t := True]\<rparr> else s)"
  from assms(1) have r: "record_section t off sz s0 = Ret s'"
    by (simp add: scan_section_def s0_def Let_def split: if_splits)
  have "seen s0 = (if t = sec_value CVM_SEC_DEBUG then seen s else (seen s)[unat t := True])"
    by (simp add: s0_def)
  moreover from assms have "fl = 0" "t \<noteq> 0" "t \<le> 12"
    "has_payload t \<Longrightarrow> unat off + unat sz \<le> len" "\<not> has_payload t \<Longrightarrow> off = 0"
    "t \<noteq> sec_value CVM_SEC_DEBUG \<Longrightarrow> \<not> seen s ! unat t"
    by (auto simp: scan_section_def Let_def split: if_splits)
  ultimately show ?thesis
    using record_section_seen [OF r] record_section_sizes [OF r] assms(2) by (simp add: one_le_word)
qed

lemma scan_loop_Ret:
  assumes "scan_loop b k sec s = Ret s'" "length (seen s) = 13"
  shows "(\<forall>j < k. section_ok b (sec + j * 16)
      \<and> (rd32 b (sec + j * 16) \<noteq> Some (sec_value CVM_SEC_DEBUG) \<longrightarrow>
          (\<forall>t. rd32 b (sec + j * 16) = Some t \<longrightarrow> \<not> seen s ! unat t
            \<and> (\<forall>i < j. rd32 b (sec + i * 16) \<noteq> Some t))))"
  using assms
proof (induction k arbitrary: sec s)
  case 0
  then show ?case by simp
next
  case (Suc k)
  from Suc.prems(1) obtain t off sz fl s1 where
    rd: "rd32 b sec = Some t" "rd32 b (sec + 4) = Some off" "rd32 b (sec + 8) = Some sz"
      "rd32 b (sec + 12) = Some fl"
    and one: "scan_section (length b) t off sz fl s = Ret s1"
    and rest: "scan_loop b k (sec + 16) s1 = Ret s'"
    by (auto simp: ub_def split: option.splits)
  note r = scan_section_Ret [OF one Suc.prems(2)]
  note IH = Suc.IH [OF rest] r
  have first: "section_ok b sec" using rd r by (auto simp: section_ok_def)
  have t13: "unat t < 13" using r by (simp add: word_arith)
  have *: "section_ok b (sec + j * 16)
      \<and> (rd32 b (sec + j * 16) \<noteq> Some (sec_value CVM_SEC_DEBUG) \<longrightarrow>
          (\<forall>t. rd32 b (sec + j * 16) = Some t \<longrightarrow> \<not> seen s ! unat t
            \<and> (\<forall>i < j. rd32 b (sec + i * 16) \<noteq> Some t)))" if j: "j < Suc k" for j
  proof (cases j)
    case 0
    then show ?thesis using first rd r by auto
  next
    case (Suc j')
    have e: "sec + j * 16 = sec + 16 + j' * 16" using Suc by simp
    from IH Suc j have ih: "section_ok b (sec + 16 + j' * 16)"
      "rd32 b (sec + 16 + j' * 16) \<noteq> Some (sec_value CVM_SEC_DEBUG) \<Longrightarrow>
        rd32 b (sec + 16 + j' * 16) = Some u \<Longrightarrow> \<not> seen s1 ! unat u
            \<and> (\<forall>i < j'. rd32 b (sec + 16 + i * 16) \<noteq> Some u)" for u
      by auto
    have "\<not> seen s ! unat u \<and> (\<forall>i < j. rd32 b (sec + i * 16) \<noteq> Some u)"
      if u: "rd32 b (sec + 16 + j' * 16) = Some u" "u \<noteq> sec_value CVM_SEC_DEBUG" for u
    proof -
      from ih(2) [of u] u have n: "\<not> seen s1 ! unat u"
        and o: "\<forall>i < j'. rd32 b (sec + 16 + i * 16) \<noteq> Some u" by auto
      have "u \<noteq> t" "\<not> seen s ! unat u"
        using n r t13 Suc.prems(2) u(2) by (auto simp: nth_list_update split: if_splits)
      moreover have "rd32 b (sec + i * 16) \<noteq> Some u" if "i < j" for i
        using that o rd(1) \<open>u \<noteq> t\<close> Suc by (cases i) (auto simp: add.assoc)
      ultimately show ?thesis by blast
    qed
    with ih(1) show ?thesis unfolding e by auto
  qed
  then show ?case by blast
qed


end
