(* ===== verification/Loader_Theorems.thy ===== *)
theory Loader_Theorems
  imports Loader_Correct
begin

text \<open>
  A concrete program file that loads, and the properties of \<open>cvm_load_ex\<close>, \<open>cvm_image_free\<close>,
  \<open>cvm_peek_section\<close> and \<open>cvm_seal_check\<close>.
\<close>

text \<open>A small program file: one instruction, four bytes of DATA, one host region, a stack.\<close>

definition sample_words :: "u32 list" where
  "sample_words = [0x314D5643, 0x00010000, 0, 4, 24, 0,
     1, 88, 4, 0,   2, 92, 4, 0,   9, 96, 32, 0,   7, 0, 16, 0,
     0x0000000E, 0x04030201, 1, 0x00006266, 0, 0, 0, 6, 3, 0]"

definition sample_bin :: "byte list" where
  "sample_bin = concat (map to_le32 sample_words)"

definition empty_ledger :: ledger where
  "empty_ledger = \<lparr>lg_next = 0, lg_live = [], lg_calls = []\<rparr>"

lemma length_words: "length (concat (map to_le32 ws)) = 4 * length ws"
  by (induction ws) simp_all

lemma drop_words: "drop (4 * i) (concat (map to_le32 ws)) = concat (map to_le32 (drop i ws))"
proof (induction i arbitrary: ws)
  case (Suc i)
  have "drop (4 * Suc i) xs = drop (4 * i) (drop 4 xs)" for xs :: "byte list"
    by (simp add: add.commute)
  with Suc show ?case by (cases ws) simp_all
qed simp

lemma rd32_words:
  "i < length ws \<Longrightarrow> rd32 (concat (map to_le32 ws)) (4 * i) = Some (ws ! i)"
proof -
  assume i: "i < length ws"
  then have "4 * i + 4 \<le> length (concat (map to_le32 ws))" by (simp add: length_words)
  moreover have "take 4 (drop (4 * i) (concat (map to_le32 ws))) = to_le32 (ws ! i)"
    using i by (simp add: drop_words Cons_nth_drop_Suc [symmetric])
  ultimately show ?thesis by (simp add: rd32_def mem_rd_def)
qed

lemma sample_length: "length sample_bin = 128"
  by (simp add: sample_bin_def length_words sample_words_def)

lemma sample_rd32: "i < 32 \<Longrightarrow> rd32 sample_bin (4 * i) = Some (sample_words ! i)"
  unfolding sample_bin_def by (rule rd32_words) (simp add: sample_words_def)

lemmas sample_reads = sample_rd32 [of 1, unfolded sample_words_def, simplified]
  sample_rd32 [of 2, unfolded sample_words_def, simplified]
  sample_rd32 [of 3, unfolded sample_words_def, simplified]
  sample_rd32 [of 4, unfolded sample_words_def, simplified]
  sample_rd32 [of 5, unfolded sample_words_def, simplified]
  sample_rd32 [of 6, unfolded sample_words_def, simplified]
  sample_rd32 [of 7, unfolded sample_words_def, simplified]
  sample_rd32 [of 8, unfolded sample_words_def, simplified]
  sample_rd32 [of 9, unfolded sample_words_def, simplified]
  sample_rd32 [of 10, unfolded sample_words_def, simplified]
  sample_rd32 [of 11, unfolded sample_words_def, simplified]
  sample_rd32 [of 12, unfolded sample_words_def, simplified]
  sample_rd32 [of 13, unfolded sample_words_def, simplified]
  sample_rd32 [of 14, unfolded sample_words_def, simplified]
  sample_rd32 [of 15, unfolded sample_words_def, simplified]
  sample_rd32 [of 16, unfolded sample_words_def, simplified]
  sample_rd32 [of 17, unfolded sample_words_def, simplified]
  sample_rd32 [of 18, unfolded sample_words_def, simplified]
  sample_rd32 [of 19, unfolded sample_words_def, simplified]
  sample_rd32 [of 20, unfolded sample_words_def, simplified]
  sample_rd32 [of 21, unfolded sample_words_def, simplified]
  sample_rd32 [of 22, unfolded sample_words_def, simplified]
  sample_rd32 [of 24, unfolded sample_words_def, simplified]
  sample_rd32 [of 29, unfolded sample_words_def, simplified]
  sample_rd32 [of 30, unfolded sample_words_def, simplified]
  sample_rd32 [of 31, unfolded sample_words_def, simplified]

definition sample_secs :: secs where
  "sample_secs = no_secs\<lparr>
     seen := [False, True, True, False, False, False, False, True, False, True, False, False, False],
     code_off := 88, code_size := 4, has_code := True, data_off := 92, data_size := 4,
     regions_off := 96, regions_size := 32, stack_size := 16\<rparr>"

lemma sample_header: "load_header sample_bin = Ret (sample_secs, 0)"
proof -
  have m: "magic_ok sample_bin" by code_simp
  have r13: "seen no_secs = [False, False, False, False, False, False, False, False, False, False,
      False, False, False]" by code_simp
  have upd: "xs[numeral k := v] = (case xs of [] \<Rightarrow> [] | x # xs \<Rightarrow> x # xs[pred_numeral k := v])"
    for xs :: "bool list" and k v by (cases xs) (simp_all add: numeral_eq_Suc)
  have four: "4 = Suc (Suc (Suc (Suc (0 :: nat))))" by simp
  have "scan_loop sample_bin 4 24 no_secs = Ret sample_secs"
    by (subst four) (simp add: sample_reads sample_length scan_section_def record_section_def
        has_payload_def r13 sample_secs_def upd)
  then show ?thesis using m
    by (simp add: load_header_def sample_reads sample_length sample_secs_def no_secs_def)
qed

lemma sample_validated: "validated sample_bin sample_secs 0 1 8 12 28 0"
proof -
  have m: "memchr_found 0 16 (drop 100 sample_bin) = Some True" by code_simp
  have n: "sample_bin ! 100 \<noteq> 0" by code_simp
  have "validate_regions sample_bin sample_secs = Ret (1, 8)"
    by (simp add: validate_regions_def sample_secs_def sample_reads m n align4_def no_secs_def Let_def)
  moreover have "validate_imports sample_bin sample_secs = Ret 0"
    by (simp add: validate_imports_def sample_secs_def no_secs_def)
  moreover have "load_layout sample_secs 8 = Ret (12, 28)"
    by (simp add: load_layout_def sample_secs_def no_secs_def Let_def)
  ultimately show ?thesis by (simp add: validated_def sample_header)
qed
lemma sample_alloc:
  "\<exists>bk l'. load_alloc (\<lambda>_ _ _. True) None sample_secs 28 1 0 empty_ledger = (True, bk, l')"
  by (simp add: load_alloc_def sample_secs_def no_secs_def empty_ledger_def cvm_int_alloc_def
      cvm_int_calloc_def SIZE_MAX_def Let_def)

lemma empty_ledger_ok: "ledger_ok empty_ledger"
  by (simp add: ledger_ok_def empty_ledger_def)

lemma sample_loads:
  "\<exists>img l'. cvm_load_ex (\<lambda>_ _ _. True) (\<lambda>_. 7) (Some sample_bin) True None empty_ledger
     = Ret (Inr img, l') \<and> img_region_count img = 1"
proof -
  obtain bk l' where al: "load_alloc (\<lambda>_ _ _. True) None sample_secs 28 1 0 empty_ledger = (True, bk, l')"
    using sample_alloc by blast
  have stage: "validate_regions sample_bin sample_secs = Ret (1, 8)"
    "load_layout sample_secs 8 = Ret (12, 28)" "validate_imports sample_bin sample_secs = Ret 0"
    using sample_validated by (simp_all add: validated_def)
  show ?thesis
  proof (rule load_fill_spec [OF sample_validated al, of "\<lambda>_. 7"])
    assume "load_funcs sample_bin (unat (funcs_off sample_secs)) (unat (funcs_size sample_secs) div 4)
       (code_size sample_secs div 4) = Ret None"
    then show ?thesis by (simp add: sample_secs_def no_secs_def)
  next
    fix img
    assume f: "load_fill sample_bin sample_secs (data_size sample_secs + bss_size sample_secs + word_of_nat 8)
       12 28 1 0 0 (\<lambda>_. 7) None bk = Ret (Some img)" and wf: "image_wf img"
      and "image_from sample_bin sample_secs 1 8 0 img"
    then have "length (cells (img_regions img)) = 1" by (simp add: image_from_def)
    with wf have "unat (img_region_count img) = unat (1 :: u32)" by (simp add: image_wf_def)
    then have "img_region_count img = 1" by (simp only: word_unat_eq_iff)
    with f show ?thesis by (simp add: cvm_load_ex_def sample_header stage al [simplified])
  qed
qed

section \<open>Properties of the loader\<close>

lemma load_ex_image:
  assumes "ledger_ok l" "cvm_load_ex g junk bytes out a l = Ret (Inr img, l')"
  obtains b s rc rt ht mt ic where "bytes = Some b" "validated b s (img_entry img) rc rt ht mt ic"
    "image_wf img" "image_from b s rc rt ic img"
  by (rule load_ex_cases [OF assms(1), of g junk bytes out a]) (use assms(2) that in auto)

lemma region_table:
  assumes v: "validated b s e rc rt ht mt ic" and f: "image_from b s rc rt ic img"
    and jk: "j < k" "k < rc"
  shows "unat (rg_offset (cells (img_regions img) ! j)) + unat (rg_size (cells (img_regions img) ! j))
      \<le> unat (rg_offset (cells (img_regions img) ! k))"
proof -
  let ?e = "unat (regions_off s) + 4"
  have at: "rd32 b (?e + j * 28 + 16) = Some (rg_size (cells (img_regions img) ! j))"
    "unat (rg_offset (cells (img_regions img) ! i)) = unat (data_size s) + unat (bss_size s)
      + region_sum b ?e i" if "i < rc" for i
    using f jk that by (simp_all add: image_from_def Let_def)
  have "region_sum b ?e (Suc j) \<le> region_sum b ?e k" using jk by (intro region_sum_mono) simp
  with at(1) le_align4 [of "unat (rg_size (cells (img_regions img) ! j))"] jk
  have "region_sum b ?e j + unat (rg_size (cells (img_regions img) ! j)) \<le> region_sum b ?e k"
    by (auto simp: region_sum_Suc region_size_at_def)
  with at(2) [of j] at(2) [of k] jk show ?thesis by simp
qed


lemma load_ex_sections:
  assumes "validated b s e rc rt ht mt ic"
  shows "\<exists>n tab. rd32 b 12 = Some n \<and> rd32 b 16 = Some tab \<and> unat tab + unat n * 16 \<le> length b \<and>
    (\<forall>j < unat n. section_ok b (unat tab + j * 16) \<and>
      (rd32 b (unat tab + j * 16) \<noteq> Some (sec_value CVM_SEC_DEBUG) \<longrightarrow>
        (\<forall>i < j. rd32 b (unat tab + i * 16) \<noteq> rd32 b (unat tab + j * 16))))"
proof -
  from assms have h: "load_header b = Ret (s, e)" by (simp add: validated_def)
  then obtain n tab where nt: "rd32 b 12 = Some n" "rd32 b 16 = Some tab"
    "unat tab + unat n * 16 \<le> length b"
    and scan: "scan_loop b (unat n) (unat tab) no_secs = Ret s"
    by (auto simp: load_header_def ub_def not_less split: option.splits if_splits)
  have len: "length (seen no_secs) = 13" by (simp add: no_secs_def)
  from scan_loop_Ret [OF scan len] have all: "\<forall>j < unat n. section_ok b (unat tab + j * 16) \<and>
      (rd32 b (unat tab + j * 16) \<noteq> Some (sec_value CVM_SEC_DEBUG) \<longrightarrow>
        (\<forall>t. rd32 b (unat tab + j * 16) = Some t \<longrightarrow> \<not> seen no_secs ! unat t
            \<and> (\<forall>i < j. rd32 b (unat tab + i * 16) \<noteq> Some t)))" .
  have "section_ok b (unat tab + j * 16) \<and>
      (rd32 b (unat tab + j * 16) \<noteq> Some (sec_value CVM_SEC_DEBUG) \<longrightarrow>
        (\<forall>i < j. rd32 b (unat tab + i * 16) \<noteq> rd32 b (unat tab + j * 16)))" if "j < unat n" for j
  proof -
    from all that have ok: "section_ok b (unat tab + j * 16)" by blast
    then obtain t where "rd32 b (unat tab + j * 16) = Some t" by (auto simp: section_ok_def)
    with ok all that show ?thesis by auto
  qed
  with nt show ?thesis by blast
qed

lemma rom_placement:
  assumes v: "validated b s e rc rt ht mt ic" and f: "image_from b s rc rt ic img" and k: "k < rc"
  shows "unat (img_data_size img) \<le> unat (rg_offset (cells (img_regions img) ! k))"
    and "unat (rg_offset (cells (img_regions img) ! k)) + unat (rg_size (cells (img_regions img) ! k))
      + unat (img_rom_size img) + unat (img_reserve_size img) \<le> unat (img_heap_size img)"
    and "img_rom_size img = 0 \<or> unat (rg_offset (cells (img_regions img) ! k))
      + unat (rg_size (cells (img_regions img) ! k)) \<le> unat (img_rom_offset img)"
proof -
  let ?e = "unat (regions_off s) + 4"
  have sz: "rd32 b (?e + k * 28 + 16) = Some (rg_size (cells (img_regions img) ! k))"
    and off: "unat (rg_offset (cells (img_regions img) ! k)) = unat (data_size s) + unat (bss_size s)
      + region_sum b ?e k"
    using f k by (simp_all add: image_from_def Let_def)
  have "region_sum b ?e (Suc k) \<le> region_sum b ?e rc" using k by (intro region_sum_mono) simp
  with sz le_align4 [of "unat (rg_size (cells (img_regions img) ! k))"] validated_regions(1) [OF v]
  have fit: "region_sum b ?e k + unat (rg_size (cells (img_regions img) ! k)) \<le> rt"
    by (simp add: region_sum_Suc region_size_at_def)
  have sizes: "img_data_size img = data_size s" "img_reserve_size img = reserve_size s"
    "img_rom_size img = rom_size s" "unat (img_heap_size img) = unat (data_size s)
      + unat (bss_size s) + rt + unat (rom_size s) + unat (reserve_size s)"
    "unat (img_rom_offset img) = (if rom_size s = 0 then 0
         else unat (data_size s) + unat (bss_size s) + rt)"
    using f unfolding image_from_def by blast+
  show "unat (img_data_size img) \<le> unat (rg_offset (cells (img_regions img) ! k))"
    unfolding sizes off by simp
  show "unat (rg_offset (cells (img_regions img) ! k)) + unat (rg_size (cells (img_regions img) ! k))
      + unat (img_rom_size img) + unat (img_reserve_size img) \<le> unat (img_heap_size img)"
    unfolding sizes off using fit by simp
  show "img_rom_size img = 0 \<or> unat (rg_offset (cells (img_regions img) ! k))
      + unat (rg_size (cells (img_regions img) ! k)) \<le> unat (img_rom_offset img)"
    unfolding sizes off using fit by simp
qed







text \<open>C11. An accepted section table: it lies within the file, every entry has a known type, zero
  flags and a payload within the file (no offset for a size-only section), CODE and FUNCS have a
  positive multiple of four bytes, and no type but DEBUG occurs twice.\<close>

theorem load_sections_ok:
  assumes "ledger_ok l" "cvm_load_ex g junk bytes out a l = Ret (Inr img, l')"
  shows "\<exists>b n tab. bytes = Some b \<and> rd32 b 12 = Some n \<and> rd32 b 16 = Some tab
    \<and> unat tab + unat n * 16 \<le> length b \<and>
    (\<forall>j < unat n. section_ok b (unat tab + j * 16) \<and>
      (rd32 b (unat tab + j * 16) \<noteq> Some (sec_value CVM_SEC_DEBUG) \<longrightarrow>
        (\<forall>i < j. rd32 b (unat tab + i * 16) \<noteq> rd32 b (unat tab + j * 16))))"
proof (rule load_ex_image [OF assms])
  fix b s rc rt ht mt ic
  assume b: "bytes = Some b" and v: "validated b s (img_entry img) rc rt ht mt ic"
  from load_ex_sections [OF v] b show ?thesis by simp
qed

theorem load_sections_ok_witness:
  "\<exists>n tab. rd32 sample_bin 12 = Some n \<and> rd32 sample_bin 16 = Some tab \<and> 
    (\<forall>j < unat n. section_ok sample_bin (unat tab + j * 16))"
proof -
  obtain img l' where "cvm_load_ex (\<lambda>_ _ _. True) (\<lambda>_. 7) (Some sample_bin) True None empty_ledger
      = Ret (Inr img, l')" using sample_loads by blast
  from load_sections_ok [OF empty_ledger_ok this] show ?thesis by auto
qed

text \<open>C12. Freeing undoes loading: \<open>cvm_image_free\<close> on a loaded image never releases a foreign or
  released block, restores exactly the set of blocks live before the load, passes every one of
  them to the deallocator of the hooks given to \<open>cvm_load_ex\<close>, and leaves a zeroed image.\<close>

theorem load_then_free:
  assumes "ledger_ok l" "cvm_load_ex g junk bytes out a l = Ret (Inr img, l')"
  shows "\<exists>l''. cvm_image_free (Some img) l' = Ret (Some zero_image, l'')
    \<and> set (lg_live l'') = set (lg_live l)
    \<and> lg_calls l'' = map (\<lambda>k. (free_routine a, k)) (rev (some_ids (image_blocks img))) @ lg_calls l'"
proof (rule load_ex_cases [OF assms(1), of g junk bytes out a]; (use assms(2) in simp)?)
  fix b s entry rc rt ht mt ic
  assume al: "img_allocator img = (case a of None \<Rightarrow> no_hooks | Some h \<Rightarrow> h)"
    and ext: "ledger_ext l (some_ids (image_blocks img)) l'"
  obtain l'' where l'': "free_all (Some (img_allocator img)) (image_blocks img) l' = Some l''"
    "set (lg_live l'') = set (lg_live l)"
    using free_ext [OF ext refl] by blast
  with free_all_calls [OF l''(1)] show ?thesis
    by (simp add: cvm_image_free_def al free_routine_hooks)
qed

theorem load_then_free_witness:
  "\<exists>img l' l''. cvm_load_ex (\<lambda>_ _ _. True) (\<lambda>_. 7) (Some sample_bin) True None empty_ledger
      = Ret (Inr img, l') \<and> cvm_image_free (Some img) l' = Ret (Some zero_image, l'')
      \<and> set (lg_live l'') = {}"
proof -
  obtain img l' where l: "cvm_load_ex (\<lambda>_ _ _. True) (\<lambda>_. 7) (Some sample_bin) True None empty_ledger
      = Ret (Inr img, l')" using sample_loads by blast
  from load_then_free [OF empty_ledger_ok l] l show ?thesis by (auto simp: empty_ledger_def)
qed

text \<open>Loading does not depend on what the allocator left in the buffer: uninitialised memory
  never shows in the image.\<close>

theorem load_deterministic:
  "cvm_load_ex g junk bytes out a l = cvm_load_ex g junk' bytes out a l"
proof (cases "bytes = None \<or> \<not> out")
  case True
  then show ?thesis by (auto simp: cvm_load_ex_def split: option.split)
next
  case False
  then obtain b where b: "bytes = Some b" and out: out by auto
  show ?thesis
  proof (rule validation_cases [of b])
    fix s entry rc rt ht mt ic
    assume stage: "cbind (load_header b) (\<lambda>(s, entry). cbind (validate_regions b s) (\<lambda>(rc, rt).
       cbind (load_layout s rt) (\<lambda>(ht, mt). cbind (validate_imports b s) (\<lambda>ic.
         Ret (s, entry, rc, rt, ht, mt, ic))))) = Ret (s, entry, rc, rt, ht, mt, ic)"
      and v: "validated b s entry rc rt ht mt ic"
    have "fill_heap b s (data_size s + bss_size s + of_nat rt) mt (map junk [0..<mt])
      = fill_heap b s (data_size s + bss_size s + of_nat rt) mt (map junk' [0..<mt])"
      using validated_heap [OF v, of "map junk [0..<mt]"] validated_heap [OF v, of "map junk' [0..<mt]"]
      by auto
    then have "load_fill b s (data_size s + bss_size s + of_nat rt) ht mt rc ic entry junk a bk
      = load_fill b s (data_size s + bss_size s + of_nat rt) ht mt rc ic entry junk' a bk" for bk
      by (simp add: load_fill_def)
    then show ?thesis by (simp add: cvm_load_ex_def b out stage split: prod.split)
  qed (simp add: cvm_load_ex_def b out)
qed

end
