(* ===== verification/Link.thy ===== *)
theory Link
  imports Loader_Correct
begin

text \<open>
  The host side of a loaded image: \<open>cvm_link\<close>, \<open>cvm_heap_read\<close>, \<open>cvm_heap_write\<close>,
  \<open>cvm_image_get_region\<close>, \<open>cvm_strerror\<close>, \<open>cvm_version_number\<close> and the built-in system calls of
  \<open>src/cvm.c\<close>. The contract between the interpreter and a system-call handler is the locale
  \<open>syscall_handler\<close>; the built-in handlers are proved to satisfy it.
\<close>

text \<open>Reading an array cell; outside the array is undefined.\<close>

definition at :: "'a list \<Rightarrow> nat \<Rightarrow> 'a option" where
  "at xs i = (if i < length xs then Some (xs ! i) else None)"

lemma at_Some [simp]: "i < length xs \<Longrightarrow> at xs i = Some (xs ! i)"
  by (simp add: at_def)

lemma at_None [simp]: "at xs i = None \<longleftrightarrow> length xs \<le> i"
  by (simp add: at_def)

definition cvm_version_number :: "nat \<Rightarrow> nat \<Rightarrow> nat \<Rightarrow> u32" where
  "cvm_version_number major minor patch =
     push_bit 16 (of_nat major) OR push_bit 8 (of_nat minor) OR of_nat patch"

section \<open>Linking\<close>

text \<open>The loop over the imports from number \<open>i\<close>; \<open>k\<close> are left.\<close>

fun link_loop ::
  "cvm_image \<Rightarrow> byte list \<Rightarrow> syscall_fn option \<Rightarrow> nat \<Rightarrow> nat \<Rightarrow> nat \<Rightarrow> cvm_image cres" where
  "link_loop img name fn ud i 0 = Fail CVM_E_NO_SUCH_IMPORT"
| "link_loop img name fn ud i (Suc k) =
     ub (at (cells (img_import_names img)) i) (\<lambda>off.
     ub (strcmp_eq (drop off (cells (img_import_blob img))) name) (\<lambda>eq.
       if eq then
         (if i < length (cells (img_import_fns img)) \<and> i < length (cells (img_import_userdata img))
          then Ret (img\<lparr>
            img_import_fns := put_cells (img_import_fns img) ((cells (img_import_fns img))[i := fn]),
            img_import_userdata :=
              put_cells (img_import_userdata img) ((cells (img_import_userdata img))[i := ud])\<rparr>)
          else Undef)
       else link_loop img name fn ud (Suc i) k))"

definition cvm_link ::
  "cvm_image option \<Rightarrow> byte list option \<Rightarrow> syscall_fn option \<Rightarrow> nat \<Rightarrow> cvm_image cres" where
  "cvm_link img name fn ud =
     (case (img, name) of (Some i, Some n) \<Rightarrow> link_loop i n fn ud 0 (unat (img_import_count i))
      | _ \<Rightarrow> Fail CVM_E_NO_SUCH_IMPORT)"

section \<open>Access to the memory of the machine\<close>

text \<open>\<open>(size_t)(mem_size - addr) < n\<close> compares as 64-bit values.\<close>

definition cvm_heap_read :: "cvm_image option \<Rightarrow> u32 \<Rightarrow> bool \<Rightarrow> nat \<Rightarrow> byte list cres" where
  "cvm_heap_read img addr out n =
     (case img of None \<Rightarrow> Fail CVM_E_BAD_ADDR
      | Some i \<Rightarrow>
        if \<not> out then Fail CVM_E_BAD_ADDR
        else if addr > img_mem_size i \<or> unat (img_mem_size i - addr) < n then Fail CVM_E_BAD_ADDR
        else ub (mem_rd (cells (img_heap i)) (unat addr) n) Ret)"

definition cvm_heap_write :: "cvm_image option \<Rightarrow> u32 \<Rightarrow> byte list option \<Rightarrow> cvm_image cres" where
  "cvm_heap_write img addr bytes =
     (case (img, bytes) of (Some i, Some bs) \<Rightarrow>
        if addr > img_mem_size i \<or> unat (img_mem_size i - addr) < length bs
        then Fail CVM_E_BAD_ADDR
        else ub (mem_wr (cells (img_heap i)) (unat addr) bs)
               (\<lambda>m. Ret (i\<lparr>img_heap := put_cells (img_heap i) m\<rparr>))
      | _ \<Rightarrow> Fail CVM_E_BAD_ADDR)"

section \<open>Regions\<close>

fun region_loop :: "cvm_region list \<Rightarrow> byte list \<Rightarrow> nat \<Rightarrow> nat \<Rightarrow> (u32 \<times> u32) cres" where
  "region_loop rs name i 0 = Fail CVM_E_NO_SUCH_REGION"
| "region_loop rs name i (Suc k) =
     ub (at rs i) (\<lambda>r. ub (strncmp_eq 16 (rg_name r) name) (\<lambda>eq.
       if eq then Ret (rg_offset r, rg_size r) else region_loop rs name (Suc i) k))"

definition cvm_image_get_region ::
  "cvm_image option \<Rightarrow> byte list option \<Rightarrow> (u32 \<times> u32) cres" where
  "cvm_image_get_region img name =
     (case (img, name) of
        (Some i, Some n) \<Rightarrow> region_loop (cells (img_regions i)) n 0 (unat (img_region_count i))
      | _ \<Rightarrow> Fail CVM_E_NO_SUCH_REGION)"

section \<open>Error messages\<close>

fun cvm_strerror :: "cvm_result option \<Rightarrow> string" where
  "cvm_strerror None = ''ok''"
| "cvm_strerror (Some CVM_E_TRUNCATED) = ''file truncated''"
| "cvm_strerror (Some CVM_E_BAD_MAGIC) = ''bad magic''"
| "cvm_strerror (Some CVM_E_BAD_VERSION) = ''unsupported version''"
| "cvm_strerror (Some CVM_E_BAD_SECTION) = ''malformed section''"
| "cvm_strerror (Some CVM_E_DUP_SECTION) = ''duplicate section''"
| "cvm_strerror (Some CVM_E_NO_CODE) = ''missing code section''"
| "cvm_strerror (Some CVM_E_BAD_ENTRY) = ''entry out of range''"
| "cvm_strerror (Some CVM_E_NOMEM) = ''out of memory''"
| "cvm_strerror (Some CVM_E_BAD_OPCODE) = ''unknown opcode''"
| "cvm_strerror (Some CVM_E_BAD_PC) = ''pc out of range''"
| "cvm_strerror (Some CVM_E_BAD_ADDR) = ''memory access out of bounds''"
| "cvm_strerror (Some CVM_E_BAD_IMPORTS) = ''malformed imports section''"
| "cvm_strerror (Some CVM_E_NO_SUCH_IMPORT) = ''no import with that name''"
| "cvm_strerror (Some CVM_E_BAD_SYSCALL) = ''syscall id out of range''"
| "cvm_strerror (Some CVM_E_UNLINKED_SYSCALL) = ''syscall has no host handler''"
| "cvm_strerror (Some CVM_E_SYSCALL_TRAP) = ''syscall handler returned a trap''"
| "cvm_strerror (Some CVM_E_DIV_BY_ZERO) = ''division by zero''"
| "cvm_strerror (Some CVM_E_BAD_FUNCS) = ''malformed funcs section''"
| "cvm_strerror (Some CVM_E_BAD_FUNC_INDEX) = ''call target index out of range''"
| "cvm_strerror (Some CVM_E_STACK_OVERFLOW) = ''stack overflow''"
| "cvm_strerror (Some CVM_E_NULL_FUNC_PTR) = ''null function pointer call''"
| "cvm_strerror (Some CVM_E_BAD_REGION) = ''malformed host_region section''"
| "cvm_strerror (Some CVM_E_NO_SUCH_REGION) = ''no region with that name''"
| "cvm_strerror (Some CVM_E_BAD_CORO_STATE) = ''coro swap to a RUNNING or DEAD coroutine''"

section \<open>Built-in system calls\<close>

text \<open>A handler gets the image, the register file and its user data; \<open>'h\<close> is whatever state the
  host keeps. The result is the return value (nonzero traps) with the new states.\<close>

type_synonym regs = "u8 \<Rightarrow> u32"
type_synonym 'h handler = "cvm_image \<Rightarrow> regs \<Rightarrow> nat \<Rightarrow> 'h \<Rightarrow> (int \<times> cvm_image \<times> regs \<times> 'h) option"

definition builtin_sys_heap_start :: "cvm_image \<Rightarrow> regs \<Rightarrow> regs" where
  "builtin_sys_heap_start img r = r(0 := img_heap_size img - img_reserve_size img)"

definition builtin_sys_heap_size :: "cvm_image \<Rightarrow> regs \<Rightarrow> regs" where
  "builtin_sys_heap_size img r = r(0 := img_reserve_size img)"

definition builtin_sys_rom_base :: "cvm_image \<Rightarrow> regs \<Rightarrow> regs" where
  "builtin_sys_rom_base img r = r(0 := img_rom_offset img)"

definition builtin_sys_rom_size :: "cvm_image \<Rightarrow> regs \<Rightarrow> regs" where
  "builtin_sys_rom_size img r = r(0 := img_rom_size img)"

text \<open>\<open>while (nlen < maxlen && s[nlen] != 0) ++nlen\<close>, \<open>k\<close> characters left.\<close>

fun name_len :: "mem \<Rightarrow> nat \<Rightarrow> nat \<Rightarrow> nat \<Rightarrow> nat option" where
  "name_len m s nlen 0 = Some nlen"
| "name_len m s nlen (Suc k) =
     Option.bind (rd8 m (s + nlen)) (\<lambda>ch.
       if ch \<noteq> 0 then name_len m s (Suc nlen) k else Some nlen)"

fun sys_region_loop :: "cvm_region list \<Rightarrow> byte list \<Rightarrow> nat \<Rightarrow> nat \<Rightarrow> nat \<Rightarrow> u32 option" where
  "sys_region_loop rs s nlen i 0 = Some (- 1)"
| "sys_region_loop rs s nlen i (Suc k) =
     Option.bind (at rs i) (\<lambda>r. Option.bind (strncmp_eq 16 (rg_name r) s) (\<lambda>eq.
       if \<not> eq then sys_region_loop rs s nlen (Suc i) k
       else Option.bind (at (rg_name r) nlen) (\<lambda>z.
         if z = 0 then Some (rg_offset r) else sys_region_loop rs s nlen (Suc i) k)))"

definition builtin_sys_get_region :: "cvm_image \<Rightarrow> regs \<Rightarrow> regs option" where
  "builtin_sys_get_region img r =
     (let addr = r 0 in
      if addr \<ge> img_heap_size img then Some (r(0 := - 1))
      else let maxlen = (if img_heap_size img - addr > 16 then 16 else img_heap_size img - addr) in
        Option.bind (name_len (cells (img_heap img)) (unat addr) 0 (unat maxlen)) (\<lambda>nlen.
        if nlen = unat maxlen then Some (r(0 := - 1))
        else Option.bind (sys_region_loop (cells (img_regions img))
                 (drop (unat addr) (cells (img_heap img))) nlen 0 (unat (img_region_count img)))
               (\<lambda>v. Some (r(0 := v)))))"

text \<open>Calling through a \<open>cvm_syscall_fn\<close>: a built-in or a host function.\<close>

fun call_fn :: "(nat \<Rightarrow> 'h handler) \<Rightarrow> syscall_fn \<Rightarrow> 'h handler" where
  "call_fn host Builtin_heap_start img r ud h = Some (0, img, builtin_sys_heap_start img r, h)"
| "call_fn host Builtin_heap_size img r ud h = Some (0, img, builtin_sys_heap_size img r, h)"
| "call_fn host Builtin_get_region img r ud h =
     Option.bind (builtin_sys_get_region img r) (\<lambda>r'. Some (0, img, r', h))"
| "call_fn host Builtin_rom_base img r ud h = Some (0, img, builtin_sys_rom_base img r, h)"
| "call_fn host Builtin_rom_size img r ud h = Some (0, img, builtin_sys_rom_size img r, h)"
| "call_fn host (Host_fn k) img r ud h = host k img r ud h"

section \<open>Correctness of linking and lookup\<close>

lemma image_wf_imports:
  assumes "image_wf i" "k < unat (img_import_count i)"
  shows "k < length (cells (img_import_names i))" "k < length (cells (img_import_fns i))"
    "k < length (cells (img_import_userdata i))"
    "0 \<in> set (drop (cells (img_import_names i) ! k) (cells (img_import_blob i)))"
  using assms by (auto simp: image_wf_def imports_wf_def import_names_ok_def)

text \<open>The name of an import.\<close>

definition import_name :: "cvm_image \<Rightarrow> nat \<Rightarrow> byte list" where
  "import_name i k = c_str (drop (cells (img_import_names i) ! k) (cells (img_import_blob i)))"

lemma link_loop_spec:
  assumes "image_wf img" "0 \<in> set name" "i + k = unat (img_import_count img)"
  shows "(\<exists>j. i \<le> j \<and> j < i + k \<and> import_name img j = c_str name
        \<and> (\<forall>m. i \<le> m \<and> m < j \<longrightarrow> import_name img m \<noteq> c_str name)
        \<and> link_loop img name fn ud i k = Ret (img\<lparr>
            img_import_fns := put_cells (img_import_fns img) ((cells (img_import_fns img))[j := fn]),
            img_import_userdata :=
              put_cells (img_import_userdata img) ((cells (img_import_userdata img))[j := ud])\<rparr>))
    \<or> ((\<forall>j. i \<le> j \<and> j < i + k \<longrightarrow> import_name img j \<noteq> c_str name)
        \<and> link_loop img name fn ud i k = Fail CVM_E_NO_SUCH_IMPORT)"
  using assms(3)
proof (induction k arbitrary: i)
  case 0
  then show ?case by auto
next
  case (Suc k)
  then have i: "i < unat (img_import_count img)" by simp
  note w = image_wf_imports [OF assms(1) i]
  have eq: "strcmp_eq (drop (cells (img_import_names img) ! i) (cells (img_import_blob img))) name
      = Some (import_name img i = c_str name)"
    using w(4) assms(2) by (simp add: strcmp_eq_terminated import_name_def)
  show ?case
  proof (cases "import_name img i = c_str name")
    case True
    then show ?thesis using w eq by (intro disjI1 exI [of _ i]) auto
  next
    case False
    from Suc.IH [of "Suc i"] Suc.prems consider
      j where "Suc i \<le> j" "j < Suc i + k" "import_name img j = c_str name"
        "\<forall>m. Suc i \<le> m \<and> m < j \<longrightarrow> import_name img m \<noteq> c_str name"
        "link_loop img name fn ud (Suc i) k = Ret (img\<lparr>
            img_import_fns := put_cells (img_import_fns img) ((cells (img_import_fns img))[j := fn]),
            img_import_userdata :=
              put_cells (img_import_userdata img) ((cells (img_import_userdata img))[j := ud])\<rparr>)"
      | "\<forall>j. Suc i \<le> j \<and> j < Suc i + k \<longrightarrow> import_name img j \<noteq> c_str name"
        "link_loop img name fn ud (Suc i) k = Fail CVM_E_NO_SUCH_IMPORT"
      by auto
    then show ?thesis
    proof cases
      case (1 j)
      have "import_name img m \<noteq> c_str name" if "i \<le> m" "m < j" for m
        using that 1(4) False by (cases "m = i") auto
      with 1 w eq False show ?thesis by (intro disjI1 exI [of _ j]) auto
    next
      case 2
      have "import_name img j \<noteq> c_str name" if "i \<le> j" "j < i + Suc k" for j
        using that 2(1) False by (cases "j = i") auto
      with 2 w eq False show ?thesis by (intro disjI2) auto
    qed
  qed
qed

lemma cells_put_cells: "xs \<noteq> [] \<Longrightarrow> length (cells b) = length xs \<Longrightarrow> cells (put_cells b xs) = xs"
  by (cases b) (auto simp: put_cells_def)

lemma cells_put_heap: "length m = length (cells b) \<Longrightarrow> cells (put_cells b m) = m"
  by (cases b) (auto simp: put_cells_def)

section \<open>Reading and writing the machine's memory\<close>

lemma heap_range:
  assumes "image_wf i"
  shows "(addr > img_mem_size i \<or> unat (img_mem_size i - addr) < n)
    \<longleftrightarrow> length (cells (img_heap i)) < unat addr + n"
proof -
  have "length (cells (img_heap i)) = unat (img_mem_size i)" using assms by (simp add: image_wf_def)
  then show ?thesis
    by (cases "addr \<le> img_mem_size i") (auto simp: word_arith not_le unat_sub_le)
qed


section \<open>Regions by name\<close>

definition region_named :: "cvm_image \<Rightarrow> byte list \<Rightarrow> cvm_region option" where
  "region_named i nm = find (\<lambda>r. c_str (rg_name r) = nm) (cells (img_regions i))"

lemma c_str_nth: "0 \<in> set bs \<Longrightarrow> length (c_str bs) < length bs \<and> bs ! length (c_str bs) = 0"
proof -
  assume "0 \<in> set bs"
  then have l: "length (c_str bs) < length bs"
    unfolding c_str_def by (metis (mono_tags, lifting) length_takeWhile_le le_neq_implies_less
        takeWhile_eq_take set_takeWhileD take_all_iff)
  then show ?thesis using nth_length_takeWhile [of "\<lambda>b. b \<noteq> 0" bs] by (simp add: c_str_def)
qed

lemma region_names:
  assumes "image_wf i" "r \<in> set (cells (img_regions i))"
  shows "0 \<in> set (rg_name r)" "length (c_str (rg_name r)) < 16"
proof -
  have "region_wf (img_heap_size i) r" using assms by (simp add: image_wf_def)
  then show "0 \<in> set (rg_name r)" "length (c_str (rg_name r)) < 16"
    using c_str_nth [of "rg_name r"] by (simp_all add: region_wf_def)
qed

text \<open>A region name has fewer than 16 characters, so comparing 16 of them compares the prefixes
  of that length.\<close>

lemma region_compare:
  assumes "image_wf i" "r \<in> set (cells (img_regions i))" "0 \<in> set s"
  shows "strncmp_eq 16 (rg_name r) s = Some (c_str (rg_name r) = take 16 (c_str s))"
  using region_names [OF assms(1,2)] assms(3) by (simp add: strncmp_eq_terminated)

lemma drop_region: "i < length rs \<Longrightarrow> drop i rs = rs ! i # drop (Suc i) rs"
  by (rule Cons_nth_drop_Suc [symmetric])

lemma region_loop_spec:
  assumes "image_wf img" "0 \<in> set s" "i + k = length (cells (img_regions img))"
  shows "region_loop (cells (img_regions img)) s i k =
    (case find (\<lambda>r. c_str (rg_name r) = take 16 (c_str s)) (drop i (cells (img_regions img))) of
       None \<Rightarrow> Fail CVM_E_NO_SUCH_REGION | Some r \<Rightarrow> Ret (rg_offset r, rg_size r))"
  using assms(3)
proof (induction k arbitrary: i)
  case (Suc k)
  then have i: "i < length (cells (img_regions img))" by simp
  with Suc show ?case
    by (simp add: region_compare [OF assms(1) nth_mem assms(2)] drop_region)
qed simp

lemma sys_region_loop_spec:
  assumes "image_wf img" "0 \<in> set s" "length (c_str s) < 16"
    "i + k = length (cells (img_regions img))"
  shows "sys_region_loop (cells (img_regions img)) s (length (c_str s)) i k =
    Some (case find (\<lambda>r. c_str (rg_name r) = c_str s) (drop i (cells (img_regions img))) of
       None \<Rightarrow> - 1 | Some r \<Rightarrow> rg_offset r)"
  using assms(4)
proof (induction k arbitrary: i)
  case (Suc k)
  let ?r = "cells (img_regions img) ! i"
  from Suc.prems have i: "i < length (cells (img_regions img))" by simp
  note cmp = region_compare [OF assms(1) nth_mem [OF i] assms(2)]
  have "c_str (rg_name ?r) = c_str s \<Longrightarrow>
      length (c_str s) < length (rg_name ?r) \<and> rg_name ?r ! length (c_str s) = 0"
    using c_str_nth [OF region_names(1) [OF assms(1) nth_mem [OF i]]] by metis
  with i Suc cmp assms(3) show ?case by (simp add: drop_region)
qed simp

lemma name_len_spec:
  assumes "s + n + k \<le> length m"
  shows "name_len m s n k = Some (n + length (takeWhile (\<lambda>b. b \<noteq> 0) (take k (drop (s + n) m))))"
  using assms
proof (induction k arbitrary: n)
  case (Suc k)
  then have "s + n < length m" by simp
  then have d: "drop (s + n) m = m ! (s + n) # drop (s + Suc n) m"
    by (simp add: Cons_nth_drop_Suc)
  have "rd8 m (s + n) = Some (m ! (s + n))"
    using \<open>s + n < length m\<close> by (simp add: rd8_def mem_rd_def)
  with Suc d show ?case by simp
qed simp

text \<open>What the built-in \<open>cvm_sys_get_region\<close> computes: the string at the address, if a NUL comes
  within 16 bytes and before the stack, is looked up; everything else is a miss.\<close>

lemma sys_get_region_spec:
  assumes wf: "image_wf img"
  shows "builtin_sys_get_region img r = Some (r(0 :=
    (let s = drop (unat (r 0)) (take (unat (img_heap_size img)) (cells (img_heap img))) in
     if 0 \<in> set (take 16 s)
     then (case region_named img (c_str s) of None \<Rightarrow> - 1 | Some g \<Rightarrow> rg_offset g)
     else - 1)))"
proof (cases "r 0 \<ge> img_heap_size img")
  case True
  then show ?thesis by (simp add: builtin_sys_get_region_def word_arith)
next
  case False
  define m where "m = cells (img_heap img)"
  define hs where "hs = unat (img_heap_size img)"
  define a where "a = unat (r 0)"
  define s where "s = drop a (take hs m)"
  define n where "n = unat (if img_heap_size img - r 0 > 16 then 16 else img_heap_size img - r 0)"
  have hs: "hs \<le> length m" and rc: "length (cells (img_regions img)) = unat (img_region_count img)"
    using wf by (simp_all add: image_wf_def m_def hs_def)
  have ahs: "a < hs" using False by (simp add: word_arith not_le a_def hs_def)
  have n: "n = min 16 (hs - a)"
    using False ahs by (auto simp: n_def a_def hs_def word_arith unat_sub_le min_def not_le)
  have tk: "take n (drop a m) = take 16 s"
    using n hs ahs by (simp add: s_def take_drop min_def)
  have len: "name_len m a 0 n = Some (length (c_str (take 16 s)))"
    using name_len_spec [of a 0 n m] n hs ahs tk by (simp add: c_str_def)
  have l16: "length (take 16 s) = n" using n hs ahs by (simp add: s_def)
  show ?thesis
  proof (cases "0 \<in> set (take 16 s)")
    case True
    have cs: "c_str (take 16 s) = c_str s"
      using True append_take_drop_id [of 16 s] unfolding c_str_def
      by (metis (mono_tags, lifting) takeWhile_append1)
    have "drop a m = s @ drop hs m"
      using drop_append [of a "take hs m" "drop hs m"] hs ahs by (simp add: s_def)
    then have cd: "c_str (drop a m) = c_str s" "0 \<in> set (drop a m)"
      using True set_take_subset [of 16 s] by (auto simp: c_str_def)
    have lt: "length (c_str s) < n" using c_str_nth [OF True] unfolding l16 cs by blast
    then have "sys_region_loop (cells (img_regions img)) (drop a m) (length (c_str s)) 0
        (unat (img_region_count img))
      = Some (case region_named img (c_str s) of None \<Rightarrow> - 1 | Some g \<Rightarrow> rg_offset g)"
      using sys_region_loop_spec [OF wf cd(2), of 0 "unat (img_region_count img)"] cd(1) n rc
      by (simp add: region_named_def)
    with False True len cs lt show ?thesis
      by (simp add: builtin_sys_get_region_def Let_def m_def [symmetric] a_def [symmetric]
          n_def [symmetric] hs_def [symmetric] s_def [symmetric])
  next
    case nz: False
    then have "c_str (take 16 s) = take 16 s" unfolding c_str_def takeWhile_eq_all_conv by auto
    with l16 have "length (c_str (take 16 s)) = n" by simp
    with False nz len show ?thesis
      by (simp add: builtin_sys_get_region_def Let_def m_def [symmetric] a_def [symmetric]
          n_def [symmetric] hs_def [symmetric] s_def [symmetric])
  qed
qed


section \<open>The contract of a system-call handler\<close>

text \<open>What the interpreter holds in local variables must survive the call: the code, the function
  table, the sizes and the buffer itself.\<close>

definition same_frame :: "cvm_image \<Rightarrow> cvm_image \<Rightarrow> bool" where
  "same_frame i i' \<longleftrightarrow> img_code i' = img_code i \<and> img_code_count i' = img_code_count i
     \<and> img_func_offsets i' = img_func_offsets i \<and> img_func_count i' = img_func_count i
     \<and> img_mem_size i' = img_mem_size i \<and> buf_ptr (img_heap i') = buf_ptr (img_heap i)"

lemma same_frame_refl [simp]: "same_frame i i"
  by (simp add: same_frame_def)

lemma same_frame_trans: "same_frame i j \<Longrightarrow> same_frame j k \<Longrightarrow> same_frame i k"
  by (simp add: same_frame_def)

locale syscall_handler =
  fixes call :: "cvm_image \<Rightarrow> regs \<Rightarrow> nat \<Rightarrow> 'h \<Rightarrow> (int \<times> cvm_image \<times> regs \<times> 'h) option"
  assumes call_defined: "image_wf i \<Longrightarrow> call i r ud h \<noteq> None"
    and call_wf: "image_wf i \<Longrightarrow> call i r ud h = Some (v, i', r', h') \<Longrightarrow> image_wf i'"
    and call_frame: "image_wf i \<Longrightarrow> call i r ud h = Some (v, i', r', h') \<Longrightarrow> same_frame i i'"
begin

lemma call_cases:
  assumes "image_wf i"
  obtains v i' r' h' where "call i r ud h = Some (v, i', r', h')" "image_wf i'" "same_frame i i'"
proof -
  from call_defined [OF assms, of r ud h] obtain v i' r' h' where
    "call i r ud h = Some (v, i', r', h')" by auto
  with that call_wf [OF assms this] call_frame [OF assms this] show thesis by blast
qed

end

interpretation heap_start: syscall_handler "call_fn host Builtin_heap_start" for host
  by unfold_locales auto

interpretation heap_size: syscall_handler "call_fn host Builtin_heap_size" for host
  by unfold_locales auto

interpretation rom_base: syscall_handler "call_fn host Builtin_rom_base" for host
  by unfold_locales auto

interpretation rom_size: syscall_handler "call_fn host Builtin_rom_size" for host
  by unfold_locales auto

interpretation get_region: syscall_handler "call_fn host Builtin_get_region" for host
  by unfold_locales (auto simp: sys_get_region_spec)

text \<open>With host functions that keep the contract, every function pointer keeps it.\<close>

lemma call_fn_Host: "call_fn host (Host_fn k) = host k"
  by (intro ext) simp

lemma call_fn_handler:
  assumes "\<And>k. syscall_handler (host k)"
  shows "syscall_handler (call_fn host f)"
proof (cases f)
  case (Host_fn k)
  then show ?thesis using assms [of k] by (simp only: call_fn_Host)
qed (simp_all only: heap_start.syscall_handler_axioms heap_size.syscall_handler_axioms
    get_region.syscall_handler_axioms rom_base.syscall_handler_axioms
    rom_size.syscall_handler_axioms)

section \<open>A concrete image\<close>

text \<open>The image the witnesses evaluate on: a code array, 32 bytes of heap that start with the
  string \<open>"fb"\<close>, 16 bytes of stack, one region \<open>fb\<close>, one import \<open>f\<close>.\<close>

definition demo_image :: "u32 list \<Rightarrow> cvm_image" where
  "demo_image code = zero_image\<lparr>
     img_code := Buf 1 code, img_code_count := of_nat (length code),
     img_heap := Buf 2 ([0x66, 0x62] @ replicate 46 0), img_heap_size := 32, img_stack_size := 16,
     img_mem_size := 48, img_func_offsets := Buf 3 [0, 0], img_func_count := 2,
     img_regions := Buf 4 [\<lparr>rg_name = [0x66, 0x62] @ replicate 14 0, rg_offset = 16, rg_size = 8,
       rg_direction = 3\<rparr>], img_region_count := 1,
     img_import_count := 1, img_import_names := Buf 5 [8], img_import_fns := Buf 6 [None],
     img_import_userdata := Buf 7 [0],
     img_import_blob := Buf 8 ([1, 0, 0, 0, 8, 0, 0, 0] @ cstring ''f'')\<rparr>"

lemma demo_image_wf:
  assumes "0 < length code" "length code < 2 ^ 30"
  shows "image_wf (demo_image code)"
proof -
  have n: "unat (of_nat (length code) :: u32) = length code"
    using assms(2) by (simp add: unat_of_nat32)
  have p: "0 < (of_nat (length code) :: u32)" using assms(1) n by (simp add: word_arith)
  show ?thesis
    using assms by (simp add: image_wf_def demo_image_def zero_image_def n p imports_wf_def
        import_names_ok_def region_wf_def cstring_def)
qed

section \<open>Properties of the host interface\<close>

text \<open>C21. Linking: with a NUL-terminated name \<open>cvm_link\<close> stores handler and user data in the first
  import of that name and nowhere else, reports \<open>CVM_E_NO_SUCH_IMPORT\<close> when there is none, and
  never leaves an array; the image stays well-formed.\<close>

theorem link_correct:
  assumes "image_wf img" "0 \<in> set name"
  shows "case cvm_link (Some img) (Some name) fn ud of
      Undef \<Rightarrow> False
    | Fail e \<Rightarrow> e = CVM_E_NO_SUCH_IMPORT
        \<and> (\<forall>j < unat (img_import_count img). import_name img j \<noteq> c_str name)
    | Ret img' \<Rightarrow> image_wf img' \<and> same_frame img img' \<and> img_heap img' = img_heap img
        \<and> (\<exists>j < unat (img_import_count img). import_name img j = c_str name
          \<and> (\<forall>m < j. import_name img m \<noteq> c_str name)
          \<and> cells (img_import_fns img') = (cells (img_import_fns img))[j := fn]
          \<and> cells (img_import_userdata img') = (cells (img_import_userdata img))[j := ud])"
proof -
  let ?n = "unat (img_import_count img)"
  let ?i = "\<lambda>j. img\<lparr>
      img_import_fns := put_cells (img_import_fns img) ((cells (img_import_fns img))[j := fn]),
      img_import_userdata :=
        put_cells (img_import_userdata img) ((cells (img_import_userdata img))[j := ud])\<rparr>"
  have len: "length (cells (img_import_fns img)) = ?n"
    "length (cells (img_import_userdata img)) = ?n"
    using assms(1) by (auto simp: image_wf_def imports_wf_def)
  have wf: "image_wf (?i j)" for j by (rule image_wf_rebind [OF assms(1)]) (simp_all add: len)
  have put: "cells (put_cells (img_import_fns img) ((cells (img_import_fns img))[j := fn]))
        = (cells (img_import_fns img))[j := fn]"
      "cells (put_cells (img_import_userdata img) ((cells (img_import_userdata img))[j := ud]))
        = (cells (img_import_userdata img))[j := ud]" for j
    by (rule cells_put_heap; simp)+
  consider (hit) j where "j < ?n" "import_name img j = c_str name"
      "\<forall>m < j. import_name img m \<noteq> c_str name" "link_loop img name fn ud 0 ?n = Ret (?i j)"
    | (miss) "\<forall>j < ?n. import_name img j \<noteq> c_str name"
      "link_loop img name fn ud 0 ?n = Fail CVM_E_NO_SUCH_IMPORT"
    using link_loop_spec [OF assms, of 0 ?n fn ud] by auto
  then show ?thesis
  proof cases
    case (hit j)
    with wf [of j] put [of j] show ?thesis
      by (simp add: cvm_link_def same_frame_def) blast
  qed (simp add: cvm_link_def)
qed



text \<open>Region lookup, from both sides: \<open>cvm_image_get_region\<close> returns offset and size of the
  region of that name; the guest's \<open>cvm_sys_get_region\<close> on a NUL-terminated name below the stack
  agrees with it, returns -1 when there is none, and never reads past the buffer.\<close>

theorem get_region_agrees:
  assumes "image_wf img" "0 \<in> set name" "length (c_str name) < 16"
    "unat (r 0) + 16 \<le> unat (img_heap_size img)"
    "mem_rd (cells (img_heap img)) (unat (r 0)) 16 = Some (take 16 name)"
  shows "cvm_image_get_region (Some img) (Some name) =
      (case region_named img (c_str name) of None \<Rightarrow> Fail CVM_E_NO_SUCH_REGION
       | Some g \<Rightarrow> Ret (rg_offset g, rg_size g))
    \<and> builtin_sys_get_region img r = Some (r(0 :=
        (case cvm_image_get_region (Some img) (Some name) of Ret (off, sz) \<Rightarrow> off | _ \<Rightarrow> - 1)))"
proof -
  have rc: "length (cells (img_regions img)) = unat (img_region_count img)"
    using assms(1) by (simp add: image_wf_def)
  have host: "cvm_image_get_region (Some img) (Some name) =
      (case region_named img (c_str name) of None \<Rightarrow> Fail CVM_E_NO_SUCH_REGION
       | Some g \<Rightarrow> Ret (rg_offset g, rg_size g))"
    using region_loop_spec [OF assms(1,2), of 0 "unat (img_region_count img)"] rc assms(3)
    by (simp add: cvm_image_get_region_def region_named_def)
  define s where "s = drop (unat (r 0)) (take (unat (img_heap_size img)) (cells (img_heap img)))"
  have t16: "take 16 s = take 16 name"
    using assms(4,5) by (simp add: s_def mem_rd_def take_drop min_def split: if_splits)
  have nm: "c_str (take 16 name) = c_str name" "0 \<in> set (take 16 name)"
  proof -
    show "0 \<in> set (take 16 name)"
      using c_str_nth [OF assms(2)] assms(3) by (auto simp: in_set_conv_nth)
    then show "c_str (take 16 name) = c_str name"
      using append_take_drop_id [of 16 name] unfolding c_str_def
      by (metis (mono_tags, lifting) takeWhile_append1)
  qed
  have "c_str s = c_str name"
    using append_take_drop_id [of 16 s] nm t16 unfolding c_str_def
    by (metis (mono_tags, lifting) takeWhile_append1)
  then have "builtin_sys_get_region img r = Some (r(0 :=
      (case region_named img (c_str name) of None \<Rightarrow> - 1 | Some g \<Rightarrow> rg_offset g)))"
    using sys_get_region_spec [OF assms(1), of r] nm t16 by (simp add: s_def [symmetric])
  then show ?thesis using host by (simp split: option.split)
qed


lemma demo_halt_wf: "image_wf (demo_image [0])"
  by (rule demo_image_wf) simp_all

theorem link_correct_witness:
  "case cvm_link (Some (demo_image [0])) (Some (cstring ''g'')) None 3 of
      Undef \<Rightarrow> False | Fail e \<Rightarrow> e = CVM_E_NO_SUCH_IMPORT | Ret img' \<Rightarrow> image_wf img'"
  using link_correct [OF demo_halt_wf, of "cstring ''g''" None 3]
  by (auto simp: cstring_terminated split: cres.splits)


theorem get_region_agrees_witness:
  "builtin_sys_get_region (demo_image [0]) (\<lambda>_. 0) = Some ((\<lambda>_. 0)(0 :=
        (case cvm_image_get_region (Some (demo_image [0])) (Some (cstring ''fb'' @ replicate 13 0)) of
           Ret (off, sz) \<Rightarrow> off | _ \<Rightarrow> - 1)))"
proof -
  have s: "c_str (cstring ''fb'' @ replicate 13 0) = [0x66, 0x62]"
    "0 \<in> set (cstring ''fb'' @ replicate 13 0)" by code_simp+
  have m: "mem_rd (cells (img_heap (demo_image [0]))) (unat (0 :: u32)) 16
      = Some (take 16 (cstring ''fb'' @ replicate 13 0))" by code_simp
  have h: "unat (0 :: u32) + 16 \<le> unat (img_heap_size (demo_image [0]))"
    by (simp add: demo_image_def)
  have l: "length (c_str (cstring ''fb'' @ replicate 13 0)) < 16" by (simp add: s(1))
  show ?thesis using get_region_agrees [OF demo_halt_wf s(2) l, of "\<lambda>_. 0"] m h by simp
qed

end
