(* ===== verification/Float32.thy ===== *)
theory Float32
  imports Link "HOL-Library.Signed_Division"
begin

text \<open>
  The single-precision operations the interpreter borrows from C: IEEE 754 binary32 on bit
  patterns. Every finite value is an integer multiple of \<open>2^-149\<close> (\<open>f_int\<close>), so sums, products,
  quotients and roots are computed exactly and rounded once, to nearest even (\<open>f_round\<close>), the
  rounding mode C starts in. The payload of a NaN result is not fixed by IEEE 754 or C: it is the
  parameter \<open>nan\<close>. \<open>cvm_f32_to_i32_sat\<close> and \<open>cvm_f32_to_u32_sat\<close> of \<open>src/cvm.c\<close> are translated with
  the C conversion they guard, which is undefined out of range.
\<close>

section \<open>Values\<close>

definition f_sign :: "u32 \<Rightarrow> bool" where "f_sign x = bit x 31"
definition f_mag :: "u32 \<Rightarrow> nat" where "f_mag x = unat (x AND 0x7FFFFFFF)"
definition f_exp :: "u32 \<Rightarrow> nat" where "f_exp x = f_mag x div 2 ^ 23"
definition f_frac :: "u32 \<Rightarrow> nat" where "f_frac x = f_mag x mod 2 ^ 23"

definition INF_MAG :: nat where "INF_MAG = 0x7F800000"

definition is_nan :: "u32 \<Rightarrow> bool" where "is_nan x \<longleftrightarrow> f_mag x > INF_MAG"
definition is_inf :: "u32 \<Rightarrow> bool" where "is_inf x \<longleftrightarrow> f_mag x = INF_MAG"

text \<open>The magnitude in units of \<open>2^-149\<close>: exponent fields 0 and 1 have the same unit.\<close>

definition mag_int :: "nat \<Rightarrow> nat" where
  "mag_int m = (let e = m div 2 ^ 23; f = m mod 2 ^ 23 in
     if e = 0 then f else (2 ^ 23 + f) * 2 ^ (e - 1))"

definition f_int :: "u32 \<Rightarrow> int" where
  "f_int x = (if f_sign x then - int (mag_int (f_mag x)) else int (mag_int (f_mag x)))"

definition f_bits :: "bool \<Rightarrow> nat \<Rightarrow> u32" where
  "f_bits s m = (if s then 0x80000000 else 0) OR of_nat m"

section \<open>Rounding\<close>

text \<open>\<open>n/d\<close> to the nearest integer, ties to even.\<close>

definition rne :: "nat \<Rightarrow> nat \<Rightarrow> nat" where
  "rne n d = (let q = n div d; r = n mod d in
     if 2 * r > d \<or> (2 * r = d \<and> odd q) then q + 1 else q)"

fun bit_length :: "nat \<Rightarrow> nat" where
  "bit_length n = (if n = 0 then 0 else Suc (bit_length (n div 2)))"

declare bit_length.simps [simp del]

text \<open>The magnitude bits of \<open>n/d\<close> units rounded to nearest even, overflowing to infinity: the
  significand keeps 24 bits, and \<open>e\<close> units of the exponent are added on top of it, which also
  carries a significand that rounds up to \<open>2^24\<close>.\<close>

definition round_mag :: "nat \<Rightarrow> nat \<Rightarrow> nat" where
  "round_mag n d = (let e = bit_length (n div d) - 24 in
     min (e * 2 ^ 23 + rne n (d * 2 ^ e)) INF_MAG)"

definition f_round :: "bool \<Rightarrow> nat \<Rightarrow> nat \<Rightarrow> u32" where
  "f_round s n d = f_bits s (round_mag n d)"

section \<open>Arithmetic\<close>

type_synonym nan_choice = "nat \<Rightarrow> u32 \<Rightarrow> u32 \<Rightarrow> u32"

definition f_inf :: "bool \<Rightarrow> u32" where "f_inf s = f_bits s INF_MAG"
definition f_zero :: "u32 \<Rightarrow> bool" where "f_zero x \<longleftrightarrow> f_mag x = 0"

definition fadd :: "nan_choice \<Rightarrow> u32 \<Rightarrow> u32 \<Rightarrow> u32" where
  "fadd nan x y =
     (if is_nan x \<or> is_nan y then nan 0 x y
      else if is_inf x then (if is_inf y \<and> f_sign x \<noteq> f_sign y then nan 0 x y else x)
      else if is_inf y then y
      else let v = f_int x + f_int y in
        if v = 0 then f_bits (f_sign x \<and> f_sign y) 0
        else f_round (v < 0) (nat \<bar>v\<bar>) 1)"

definition fneg :: "u32 \<Rightarrow> u32" where "fneg x = x XOR 0x80000000"

definition fsub :: "nan_choice \<Rightarrow> u32 \<Rightarrow> u32 \<Rightarrow> u32" where
  "fsub nan x y = (if is_nan x \<or> is_nan y then nan 1 x y else fadd (\<lambda>_ _ _. nan 1 x y) x (fneg y))"

definition fmul :: "nan_choice \<Rightarrow> u32 \<Rightarrow> u32 \<Rightarrow> u32" where
  "fmul nan x y =
     (let s = (f_sign x \<noteq> f_sign y) in
      if is_nan x \<or> is_nan y then nan 2 x y
      else if is_inf x \<or> is_inf y then
        (if f_zero x \<or> f_zero y then nan 2 x y else f_inf s)
      else f_round s (mag_int (f_mag x) * mag_int (f_mag y)) (2 ^ 149))"

definition fdiv :: "nan_choice \<Rightarrow> u32 \<Rightarrow> u32 \<Rightarrow> u32" where
  "fdiv nan x y =
     (let s = (f_sign x \<noteq> f_sign y) in
      if is_nan x \<or> is_nan y then nan 3 x y
      else if is_inf x then (if is_inf y then nan 3 x y else f_inf s)
      else if is_inf y then f_bits s 0
      else if f_zero y then (if f_zero x then nan 3 x y else f_inf s)
      else f_round s (mag_int (f_mag x) * 2 ^ 149) (mag_int (f_mag y)))"

text \<open>Integer square root by digits; the root of the exact value with one sticky bit.\<close>

fun isqrt :: "nat \<Rightarrow> nat" where
  "isqrt n = (if n = 0 then 0
     else let r = 2 * isqrt (n div 4) in if (r + 1) * (r + 1) \<le> n then r + 1 else r)"

declare isqrt.simps [simp del]

definition fsqrt :: "nan_choice \<Rightarrow> u32 \<Rightarrow> u32" where
  "fsqrt nan x =
     (if is_nan x then nan 4 x x
      else if f_zero x then x
      else if f_sign x then nan 4 x x
      else if is_inf x then x
      else let n = mag_int (f_mag x) * 2 ^ 149; r = isqrt n in
        f_round False (2 * r + (if r * r = n then 0 else 1)) 2)"

text \<open>\<open>floorf\<close>, \<open>ceilf\<close>, \<open>truncf\<close>: a zero result has the sign of the operand.\<close>

definition f_integral :: "bool \<Rightarrow> int \<Rightarrow> u32" where
  "f_integral s q = f_round s (nat \<bar>q\<bar> * 2 ^ 149) 1"

definition ffloor :: "nan_choice \<Rightarrow> u32 \<Rightarrow> u32" where
  "ffloor nan x = (if is_nan x then nan 5 x x else if is_inf x then x
     else f_integral (f_sign x) (f_int x div 2 ^ 149))"

definition fceil :: "nan_choice \<Rightarrow> u32 \<Rightarrow> u32" where
  "fceil nan x = (if is_nan x then nan 6 x x else if is_inf x then x
     else f_integral (f_sign x) (- ((- f_int x) div 2 ^ 149)))"

definition ftrunc :: "nan_choice \<Rightarrow> u32 \<Rightarrow> u32" where
  "ftrunc nan x = (if is_nan x then nan 7 x x else if is_inf x then x
     else f_integral (f_sign x) (f_int x sdiv 2 ^ 149))"

section \<open>Comparison\<close>

text \<open>Infinities compare correctly through \<open>f_int\<close>, whose formula gives them \<open>2^277\<close>.\<close>

definition feq :: "u32 \<Rightarrow> u32 \<Rightarrow> bool" where
  "feq x y \<longleftrightarrow> \<not> is_nan x \<and> \<not> is_nan y \<and> f_int x = f_int y"

definition flt :: "u32 \<Rightarrow> u32 \<Rightarrow> bool" where
  "flt x y \<longleftrightarrow> \<not> is_nan x \<and> \<not> is_nan y \<and> f_int x < f_int y"

definition fle :: "u32 \<Rightarrow> u32 \<Rightarrow> bool" where
  "fle x y \<longleftrightarrow> \<not> is_nan x \<and> \<not> is_nan y \<and> f_int x \<le> f_int y"

section \<open>Conversions\<close>

text \<open>\<open>(float)n\<close>\<close>

definition i32_to_f :: "u32 \<Rightarrow> u32" where
  "i32_to_f n = f_round (sint n < 0) (nat \<bar>sint n\<bar> * 2 ^ 149) 1"

definition u32_to_f :: "u32 \<Rightarrow> u32" where
  "u32_to_f n = f_round False (unat n * 2 ^ 149) 1"

text \<open>The C conversions \<open>(int32_t)f\<close> and \<open>(uint32_t)f\<close>: truncation, undefined when the integer is
  out of the range of the type.\<close>

definition c_f32_to_i32 :: "u32 \<Rightarrow> u32 option" where
  "c_f32_to_i32 f =
     (let v = f_int f sdiv 2 ^ 149 in
      if is_nan f \<or> is_inf f \<or> v < - (2 ^ 31) \<or> v \<ge> 2 ^ 31 then None else Some (word_of_int v))"

definition c_f32_to_u32 :: "u32 \<Rightarrow> u32 option" where
  "c_f32_to_u32 f =
     (let v = f_int f sdiv 2 ^ 149 in
      if is_nan f \<or> is_inf f \<or> v < 0 \<or> v \<ge> 2 ^ 32 then None else Some (word_of_int v))"

definition F_2_31 :: u32 where "F_2_31 = 0x4F000000"
definition F_M2_31 :: u32 where "F_M2_31 = 0xCF000000"
definition F_2_32 :: u32 where "F_2_32 = 0x4F800000"

definition cvm_f32_to_i32_sat :: "u32 \<Rightarrow> u32 option" where
  "cvm_f32_to_i32_sat f =
     (if \<not> feq f f then Some 0
      else if fle F_2_31 f then Some 0x7FFFFFFF
      else if flt f F_M2_31 then Some 0x80000000
      else c_f32_to_i32 f)"

definition cvm_f32_to_u32_sat :: "u32 \<Rightarrow> u32 option" where
  "cvm_f32_to_u32_sat f =
     (if \<not> feq f f then Some 0
      else if fle F_2_32 f then Some 0xFFFFFFFF
      else if flt f 0 then Some 0
      else c_f32_to_u32 f)"

end
