(* ===== verification/Float32_Correct.thy ===== *)
theory Float32_Correct
  imports Float32
begin

text \<open>
  Correctness of the binary32 model: rounding is to a nearest representable value and exact on
  representable ones, bit patterns and (sign, magnitude) pairs correspond, and the theorems on the
  arithmetic, the saturating conversions and the rounding-to-integral operations.
\<close>

section \<open>Rounding\<close>

lemma bit_length_0 [simp]: "bit_length 0 = 0"
  by (simp add: bit_length.simps)

lemma bit_length_bounds: "n > 0 \<Longrightarrow> n < 2 ^ bit_length n \<and> 2 ^ bit_length n \<le> 2 * n"
proof (induction n rule: bit_length.induct)
  case (1 n)
  show ?case
  proof (cases "n = 1")
    case True
    then show ?thesis by (simp add: bit_length.simps [of "Suc 0"])
  next
    case False
    with 1 have IH: "n div 2 < 2 ^ bit_length (n div 2)" "2 ^ bit_length (n div 2) \<le> 2 * (n div 2)"
      by auto
    have "bit_length n = Suc (bit_length (n div 2))" using 1 by (simp add: bit_length.simps [of n])
    with IH show ?thesis by auto
  qed
qed

lemma mag_int_normal:
  assumes "e = 0 \<or> 2 ^ 23 \<le> m" "m \<le> 2 ^ 24"
  shows "mag_int (e * 2 ^ 23 + m) = m * 2 ^ e"
proof -
  consider "m < 2 ^ 23" "e = 0" | "2 ^ 23 \<le> m" "m < 2 ^ 24" | "m = 2 ^ 24"
    using assms by linarith
  then show ?thesis
  proof cases
    case 1
    then show ?thesis by (simp add: mag_int_def)
  next
    case 2
    then obtain f where f: "m = 2 ^ 23 + f" "f < 2 ^ 23" using le_Suc_ex by fastforce
    then have "e * 2 ^ 23 + m = (e + 1) * 2 ^ 23 + f" by simp
    moreover have "((e + 1) * 2 ^ 23 + f) div 2 ^ 23 = e + 1" using f(2) by simp
    moreover have "((e + 1) * 2 ^ 23 + f) mod 2 ^ 23 = f" using f(2) by (subst mod_mult_self3) simp
    ultimately show ?thesis using f(1) by (simp only: mag_int_def Let_def) simp
  next
    case 3
    then have "e * 2 ^ 23 + m = (e + 2) * 2 ^ 23" by simp
    moreover have "((e + 2) * 2 ^ 23) div 2 ^ 23 = e + 2" "((e + 2) * 2 ^ 23) mod 2 ^ 23 = (0 :: nat)"
      by simp_all
    ultimately show ?thesis using 3 by (simp only: mag_int_def Let_def) simp
  qed
qed

text \<open>Every magnitude has that form.\<close>

lemma mag_form: "\<exists>e m. (k :: nat) = e * 2 ^ 23 + m \<and> (e = 0 \<or> 2 ^ 23 \<le> m) \<and> m < 2 ^ 24"
proof (cases "k < 2 ^ 24")
  case True
  then show ?thesis by (intro exI [of _ 0] exI [of _ k]) simp
next
  case False
  define q where "q = k div 2 ^ 23"
  have k: "k = q * 2 ^ 23 + k mod 2 ^ 23" by (simp add: q_def)
  have "q \<ge> 1" using False by (simp add: q_def)
  then have "k = (q - 1) * 2 ^ 23 + (2 ^ 23 + k mod 2 ^ 23)"
    using k by (metis (no_types) add.assoc add.commute le_add_diff_inverse2 mult_Suc plus_1_eq_Suc)
  moreover have "k mod 2 ^ 23 < 2 ^ 23" by simp
  then have "2 ^ 23 + k mod 2 ^ 23 < (2 :: nat) ^ 24" by simp
  ultimately show ?thesis by (intro exI [of _ "q - 1"] exI [of _ "2 ^ 23 + k mod 2 ^ 23"]) simp
qed

lemma rne_exact: "d > 0 \<Longrightarrow> rne (m * d) d = m"
  by (simp add: rne_def)

lemma rne_nearest:
  assumes "d > 0"
  shows "2 * \<bar>int (rne n d * d) - int n\<bar> \<le> int d"
proof -
  have n: "n = n div d * d + n mod d" by simp
  have r: "n mod d < d" using assms by simp
  define q where "q = n div d"
  define r where "r = n mod d"
  have nn: "int n = int (q * d) + int r" using n by (metis of_nat_add q_def r_def)
  show ?thesis
  proof (cases "2 * r > d \<or> (2 * r = d \<and> odd q)")
    case True
    then have "rne n d = q + 1" by (simp add: rne_def q_def r_def Let_def)
    then have "int (rne n d * d) = int (q * d) + int d" by simp
    moreover have "d \<le> 2 * r" "r < d" using True r by (auto simp: r_def)
    ultimately have "int (rne n d * d) - int n = int d - int r" "d \<le> 2 * r" "r < d"
      using nn by simp_all
    then show ?thesis by simp
  next
    case False
    then have "rne n d = q" by (simp add: rne_def q_def r_def Let_def)
    moreover have "2 * r \<le> d" using False by auto
    ultimately show ?thesis using nn by simp
  qed
qed

lemma rne_bounds:
  assumes "d > 0" "a * d \<le> n" "n \<le> b * d"
  shows "a \<le> rne n d" "rne n d \<le> b"
proof -
  have "a \<le> n div d" using assms by (simp add: less_eq_div_iff_mult_less_eq)
  then show "a \<le> rne n d" by (simp add: rne_def Let_def)
  show "rne n d \<le> b"
  proof (cases "n = b * d")
    case True
    then show ?thesis using rne_exact assms(1) by simp
  next
    case False
    then have "n < b * d" using assms(3) by simp
    then have "n div d < b" using assms(1) by (simp add: div_less_iff_less_mult)
    then show ?thesis by (simp add: rne_def Let_def)
  qed
qed

text \<open>The shape of a rounded magnitude.\<close>

lemma round_mag_shape:
  assumes "d > 0"
  obtains e where "round_mag n d = min (e * 2 ^ 23 + rne n (d * 2 ^ e)) INF_MAG"
    "e = 0 \<or> 2 ^ 23 \<le> rne n (d * 2 ^ e)" "rne n (d * 2 ^ e) \<le> 2 ^ 24"
    "e = 0 \<or> 2 ^ (23 + e) * d \<le> n" "n < 2 ^ (24 + e) * d"
proof -
  define q where "q = n div d"
  define e where "e = bit_length q - 24"
  have lo: "e = 0 \<or> 2 ^ (23 + e) \<le> q"
  proof (cases "e = 0")
    case False
    then have "q > 0" unfolding e_def by (metis bit_length_0 diff_is_0_eq' less_eq_nat.simps(1) not_gr0)
    with bit_length_bounds [of q] have "2 ^ bit_length q \<le> 2 * q" by blast
    moreover have "bit_length q = Suc (23 + e)" using False e_def by simp
    ultimately have "2 * 2 ^ (23 + e) \<le> 2 * q" by (simp only: power_Suc)
    then show ?thesis by simp
  qed simp
  have hi: "q < 2 ^ (24 + e)"
  proof (cases "q = 0")
    case False
    then have "q < 2 ^ bit_length q" using bit_length_bounds by simp
    also have "\<dots> \<le> 2 ^ (24 + e)" by (rule power_increasing) (simp_all add: e_def)
    finally show ?thesis .
  qed simp
  have n1: "e = 0 \<or> 2 ^ (23 + e) * d \<le> n"
    using lo assms by (auto simp: q_def less_eq_div_iff_mult_less_eq)
  have n2: "n < 2 ^ (24 + e) * d" using hi assms by (simp add: q_def div_less_iff_less_mult)
  have d: "d * 2 ^ e > 0" using assms by simp
  show thesis
  proof (rule that [OF _ _ _ n1 n2])
    show "round_mag n d = min (e * 2 ^ 23 + rne n (d * 2 ^ e)) INF_MAG"
      by (simp add: round_mag_def e_def q_def Let_def)
    show "rne n (d * 2 ^ e) \<le> 2 ^ 24"
      using n2 by (intro rne_bounds(2) [OF d, of 0]) (simp_all add: power_add mult_ac)
    show "e = 0 \<or> 2 ^ 23 \<le> rne n (d * 2 ^ e)"
      using n1 n2 rne_bounds(1) [OF d, of "2 ^ 23" n "2 ^ 24"] by (auto simp: power_add mult_ac)
  qed
qed


lemma abs_half: "2 * \<bar>a - n\<bar> \<le> D \<Longrightarrow> D \<le> \<bar>c - a\<bar> \<Longrightarrow> \<bar>a - n\<bar> \<le> \<bar>c - n\<bar>"
  for a n c D :: int
  by (cases "c \<le> n"; cases "a \<le> n"; cases "c \<le> a"; simp)

lemma rne_best:
  assumes "D > 0"
  shows "\<bar>int (rne n D * D) - int n\<bar> \<le> \<bar>int (c * D) - int n\<bar>"
proof (cases "c = rne n D")
  case False
  then have "int D \<le> \<bar>int c - int (rne n D)\<bar> * int D"
    using assms by (simp add: mult_le_cancel_right1)
  also have "\<dots> = \<bar>int (c * D) - int (rne n D * D)\<bar>"
    by (simp add: abs_mult left_diff_distrib [symmetric])
  finally show ?thesis by (rule abs_half [OF rne_nearest [OF assms]])
qed simp

lemma bit_length_eq: "2 ^ j \<le> n \<Longrightarrow> n < 2 ^ Suc j \<Longrightarrow> bit_length n = Suc j"
proof -
  assume a: "2 ^ j \<le> n" "n < 2 ^ Suc j"
  then have "n > 0" by (metis gr0I not_le zero_less_numeral zero_less_power)
  note b = bit_length_bounds [OF this]
  have "2 ^ j < (2 :: nat) ^ bit_length n" by (rule le_less_trans [OF a(1)]) (use b in simp)
  moreover have "(2 :: nat) ^ bit_length n < 2 ^ Suc (Suc j)"
    by (rule le_less_trans [OF b [THEN conjunct2]]) (use a(2) in simp)
  ultimately have "j < bit_length n" "bit_length n < Suc (Suc j)"
    by (metis one_less_numeral_iff power_strict_increasing_iff semiring_norm(76))+
  then show ?thesis by simp
qed

lemma bit_length_le: "n < 2 ^ j \<Longrightarrow> bit_length n \<le> j"
proof (cases "n = 0")
  case False
  assume "n < 2 ^ j"
  have "(2 :: nat) ^ bit_length n < 2 ^ Suc j"
    by (rule le_less_trans [OF bit_length_bounds [THEN conjunct2]]) (use False \<open>n < 2 ^ j\<close> in simp_all)
  then have "bit_length n < Suc j"
    by (metis one_less_numeral_iff power_strict_increasing_iff semiring_norm(76))
  then show ?thesis by simp
qed simp

text \<open>A representable value rounds to itself.\<close>

lemma round_mag_exact:
  assumes "d > 0" "k \<le> INF_MAG"
  shows "round_mag (mag_int k * d) d = k"
proof -
  obtain e m where k: "k = e * 2 ^ 23 + m" "e = 0 \<or> 2 ^ 23 \<le> m" "m < 2 ^ 24"
    using mag_form by blast
  have v: "mag_int k = m * 2 ^ e" unfolding k(1) by (rule mag_int_normal) (use k in simp_all)
  have q: "mag_int k * d div d = m * 2 ^ e" using assms v by simp
  have bl: "bit_length (m * 2 ^ e) - 24 = e"
  proof (cases "e = 0")
    case True
    then show ?thesis using bit_length_le [OF k(3)] by simp
  next
    case False
    then have "2 ^ (23 + e) \<le> m * 2 ^ e" "m * 2 ^ e < 2 ^ Suc (23 + e)"
      using k(2,3) by (simp_all add: power_add)
    from bit_length_eq [OF this] show ?thesis by simp
  qed
  have "rne (mag_int k * d) (d * 2 ^ e) = m"
    using rne_exact [of "d * 2 ^ e" m] assms(1) by (simp add: v mult_ac)
  then show ?thesis
    using assms(2) unfolding round_mag_def q Let_def bl k(1) [symmetric] by (simp add: k(1))
qed

text \<open>Rounding is to a nearest representable value.\<close>

lemma round_mag_nearest:
  assumes d: "d > 0" and fin: "round_mag n d < INF_MAG"
  shows "\<bar>int (mag_int (round_mag n d) * d) - int n\<bar> \<le> \<bar>int (mag_int k * d) - int n\<bar>"
proof -
  obtain e where e: "round_mag n d = min (e * 2 ^ 23 + rne n (d * 2 ^ e)) INF_MAG"
    "e = 0 \<or> 2 ^ 23 \<le> rne n (d * 2 ^ e)" "rne n (d * 2 ^ e) \<le> 2 ^ 24"
    "e = 0 \<or> 2 ^ (23 + e) * d \<le> n" "n < 2 ^ (24 + e) * d"
    using round_mag_shape [OF d] by blast
  have "round_mag n d = e * 2 ^ 23 + rne n (d * 2 ^ e)" using e(1) fin by simp
  then have v: "mag_int (round_mag n d) * d = rne n (d * 2 ^ e) * (d * 2 ^ e)"
    using mag_int_normal [OF e(2,3)] by simp
  have D: "d * 2 ^ e > 0" using d by simp
  obtain e' m where k: "k = e' * 2 ^ 23 + m" "e' = 0 \<or> 2 ^ 23 \<le> m" "m < 2 ^ 24"
    using mag_form by blast
  have vk: "mag_int k = m * 2 ^ e'" unfolding k(1) by (rule mag_int_normal) (use k in simp_all)
  show ?thesis
  proof (cases "e \<le> e'")
    case True
    then have "mag_int k * d = (m * 2 ^ (e' - e)) * (d * 2 ^ e)"
      by (simp add: vk power_add [symmetric])
    then show ?thesis unfolding v using rne_best [OF D] by metis
  next
    case False
    then have "m * 2 ^ e' < 2 ^ 24 * 2 ^ e'" using k(3) by simp
    also have "\<dots> \<le> 2 ^ (23 + e)"
      using False by (simp only: power_add [symmetric]) (rule power_increasing; simp)
    finally have "mag_int k * d \<le> 2 ^ (23 + e) * d" using vk by simp
    also have "\<dots> = 2 ^ 23 * (d * 2 ^ e)" by (simp add: power_add)
    finally have "mag_int k * d \<le> 2 ^ 23 * (d * 2 ^ e)" .
    moreover have "2 ^ 23 * (d * 2 ^ e) \<le> n" using e(4) False by (auto simp: power_add mult_ac)
    ultimately have "\<bar>int (2 ^ 23 * (d * 2 ^ e)) - int n\<bar> \<le> \<bar>int (mag_int k * d) - int n\<bar>"
      by linarith
    with rne_best [OF D, of n "2 ^ 23"] show ?thesis unfolding v by linarith
  qed
qed


section \<open>Bit patterns\<close>

lemma f_mag_take_bit: "f_mag x = unat (take_bit 31 x)"
proof -
  have "(0x7FFFFFFF :: u32) = mask 31" by (simp add: mask_eq_exp_minus_1)
  then show ?thesis by (simp only: f_mag_def take_bit_eq_mask)
qed

lemma f_mag_lt: "f_mag x < 2 ^ 31"
  by (simp only: f_mag_take_bit unsigned_take_bit_eq take_bit_nat_less_exp)

lemma of_nat_31: "m < 2 ^ 31 \<Longrightarrow> take_bit 31 (of_nat m :: u32) = of_nat m"
  by (simp only: take_bit_of_nat take_bit_nat_eq_self)

lemma top_bit: "bit (0x80000000 :: u32) n \<longleftrightarrow> n = 31"
proof -
  have "(0x80000000 :: u32) = 2 ^ 31" by simp
  then show ?thesis by (simp only: bit_exp_iff) auto
qed

lemma f_bits_top: "bit (f_bits s m) n \<longleftrightarrow> (n = 31 \<and> s) \<or> bit (of_nat m :: u32) n"
  unfolding f_bits_def bit_or_iff using top_bit [of n] by (cases s) (simp_all del: bit_numeral_rec)

lemma f_bits_word:
  assumes "m < 2 ^ 31"
  shows "f_sign (f_bits s m) = s" "f_mag (f_bits s m) = m"
proof -
  have b: "bit (of_nat m :: u32) n \<Longrightarrow> n < 31" for n
    using of_nat_31 [OF assms] by (metis bit_take_bit_iff)
  then have "\<not> bit (of_nat m :: u32) 31" by blast
  then show "f_sign (f_bits s m) = s" by (simp only: f_sign_def f_bits_top) simp
  have "take_bit 31 (f_bits s m) = of_nat m"
    by (rule bit_word_eqI) (auto simp only: bit_take_bit_iff f_bits_top dest: b)
  then show "f_mag (f_bits s m) = m"
    using assms by (simp add: f_mag_take_bit unat_of_nat)
qed

lemma f_bits_id: "f_bits (f_sign x) (f_mag x) = x"
proof (rule bit_word_eqI)
  fix n assume "n < LENGTH(32)"
  then have "n = 31 \<or> n < 31 \<and> n \<noteq> 31" by auto
  then show "bit (f_bits (f_sign x) (f_mag x)) n = bit x n"
    by (elim disjE conjE) (auto simp only: f_bits_top f_sign_def f_mag_take_bit
        bit_take_bit_iff of_nat_unat ucast_id)
qed

lemma round_mag_le: "round_mag n d \<le> INF_MAG"
  by (simp add: round_mag_def Let_def)

lemma INF_MAG_lt: "INF_MAG < 2 ^ 31"
  by (simp add: INF_MAG_def)

lemma f_round_bits:
  "f_sign (f_round s n d) = s" "f_mag (f_round s n d) = round_mag n d"
  using f_bits_word [OF le_less_trans [OF round_mag_le INF_MAG_lt]] by (simp_all add: f_round_def)

lemma f_round_not_nan [simp]: "\<not> is_nan (f_round s n d)"
  using round_mag_le [of n d] by (simp add: is_nan_def f_round_bits not_less)

definition is_fin :: "u32 \<Rightarrow> bool" where "is_fin x \<longleftrightarrow> \<not> is_nan x \<and> \<not> is_inf x"

lemma is_fin_mag: "is_fin x \<longleftrightarrow> f_mag x < INF_MAG"
  by (auto simp: is_fin_def is_nan_def is_inf_def)

text \<open>Signed nearest rounding.\<close>

lemma f_round_nearest:
  assumes "d > 0" "is_fin (f_round s n d)"
  shows "\<bar>f_int (f_round s n d) * int d - (if s then - int n else int n)\<bar>
    \<le> \<bar>f_int z * int d - (if s then - int n else int n)\<bar>"
proof -
  have fin: "round_mag n d < INF_MAG" using assms(2) by (simp add: is_fin_mag f_round_bits)
  let ?r = "int (mag_int (round_mag n d)) * int d"
  have near: "\<bar>?r - int n\<bar> \<le> \<bar>int (mag_int k) * int d - int n\<bar>" for k
    using round_mag_nearest [OF assms(1) fin, of k] by simp
  have "mag_int 0 = 0" by (simp add: mag_int_def)
  then have zero: "\<bar>?r - int n\<bar> \<le> int n" using near [of 0] by simp
  have nonneg: "0 \<le> int (mag_int (f_mag z)) * int d" by simp
  have v: "f_int (f_round s n d) * int d = (if s then - ?r else ?r)"
    by (simp add: f_int_def f_round_bits)
  have zv: "f_int z * int d = (if f_sign z then - (int (mag_int (f_mag z)) * int d)
      else int (mag_int (f_mag z)) * int d)"
    by (simp add: f_int_def)
  show ?thesis
    unfolding v zv using near [of "f_mag z"] zero nonneg
    by (cases s; cases "f_sign z"; simp only: if_True if_False; linarith)
qed

lemma f_round_exact:
  assumes "d > 0" "\<not> is_nan z" "int n = \<bar>f_int z\<bar> * int d"
  shows "f_round (f_sign z) n d = z"
proof -
  have "n = mag_int (f_mag z) * d"
  proof -
    have "int n = int (mag_int (f_mag z) * d)" using assms(3) by (simp add: f_int_def)
    then show ?thesis by (simp only: of_nat_eq_iff)
  qed
  then have "round_mag n d = f_mag z"
    using round_mag_exact [OF assms(1), of "f_mag z"] assms(2) by (simp add: is_nan_def not_less)
  then show ?thesis by (simp add: f_round_def f_bits_id)
qed

lemma mag_int_Suc: "mag_int k < mag_int (Suc k)"
proof -
  obtain e m where k: "k = e * 2 ^ 23 + m" "e = 0 \<or> 2 ^ 23 \<le> m" "m < 2 ^ 24"
    using mag_form by blast
  have a: "mag_int k = m * 2 ^ e" unfolding k(1) by (rule mag_int_normal) (use k in simp_all)
  have "Suc k = e * 2 ^ 23 + Suc m" using k(1) by simp
  then have "mag_int (Suc k) = Suc m * 2 ^ e"
    by (simp only:) (rule mag_int_normal; use k in auto)
  with a show ?thesis by simp
qed

lemma mag_int_less: "mag_int j < mag_int k \<longleftrightarrow> j < k"
  using lift_Suc_mono_less_iff [of mag_int j k] mag_int_Suc by blast

lemma mag_int_eq: "mag_int j = mag_int k \<longleftrightarrow> j = k"
  using mag_int_less [of j k] mag_int_less [of k j] by (metis less_irrefl nat_neq_iff)


section \<open>Operations\<close>

lemma is_fin_nan: "is_fin x \<Longrightarrow> \<not> is_nan x \<and> \<not> is_inf x"
  by (simp add: is_fin_def)

lemma mag_int_0 [simp]: "mag_int 0 = 0"
  by (simp add: mag_int_def)

lemma f_int_eq_0: "f_int x = 0 \<longleftrightarrow> f_zero x"
proof -
  have "mag_int 0 = 0" by (simp add: mag_int_def)
  then have "mag_int (f_mag x) = 0 \<longleftrightarrow> f_mag x = 0" using mag_int_eq by metis
  then show ?thesis by (simp add: f_int_def f_zero_def)
qed

lemma f_int_neg: "f_int x < 0 \<longleftrightarrow> f_sign x \<and> \<not> f_zero x"
  using f_int_eq_0 [of x] by (auto simp: f_int_def)

lemma f_bits_zero: "f_int (f_bits s 0) = 0" "\<not> is_nan (f_bits s 0)"
  using f_bits_word [of 0 s] by (cases s; simp add: f_int_def is_nan_def)+

lemma fadd_finite:
  assumes "is_fin x" "is_fin y" "f_int x + f_int y \<noteq> 0"
  shows "fadd nan x y = f_round (f_int x + f_int y < 0) (nat \<bar>f_int x + f_int y\<bar>) 1"
  using assms is_fin_nan by (simp add: fadd_def Let_def)

lemma fadd_finite_zero:
  assumes "is_fin x" "is_fin y" "f_int x + f_int y = 0"
  shows "fadd nan x y = f_bits (f_sign x \<and> f_sign y) 0"
  using assms is_fin_nan by (simp add: fadd_def Let_def)

lemma fadd_nearest:
  assumes "is_fin x" "is_fin y" "is_fin (fadd nan x y)"
  shows "\<bar>f_int (fadd nan x y) - (f_int x + f_int y)\<bar> \<le> \<bar>f_int z - (f_int x + f_int y)\<bar>"
proof (cases "f_int x + f_int y = 0")
  case True
  then show ?thesis using fadd_finite_zero [OF assms(1,2) True] f_bits_zero(1) by simp
next
  case False
  note eq = fadd_finite [OF assms(1,2) False, of nan]
  from f_round_nearest [OF _ assms(3) [unfolded eq], of z] show ?thesis
    unfolding eq by (cases "f_int x + f_int y < 0") simp_all
qed

lemma sign_mult: "f_int x * f_int y = (if f_sign x \<noteq> f_sign y
    then - int (mag_int (f_mag x) * mag_int (f_mag y)) else int (mag_int (f_mag x) * mag_int (f_mag y)))"
  by (simp add: f_int_def)

lemma fmul_nearest:
  assumes "is_fin x" "is_fin y" "is_fin (fmul nan x y)"
  shows "\<bar>f_int (fmul nan x y) * 2 ^ 149 - f_int x * f_int y\<bar>
    \<le> \<bar>f_int z * 2 ^ 149 - f_int x * f_int y\<bar>"
proof -
  have eq: "fmul nan x y = f_round (f_sign x \<noteq> f_sign y)
      (mag_int (f_mag x) * mag_int (f_mag y)) (2 ^ 149)"
    using assms(1,2) is_fin_nan by (simp add: fmul_def Let_def)
  show ?thesis
    unfolding sign_mult
    using f_round_nearest [OF _ assms(3) [unfolded eq], of z] unfolding eq by simp
qed

lemma fdiv_nearest:
  assumes "is_fin x" "is_fin y" "\<not> f_zero y" "is_fin (fdiv nan x y)"
  shows "\<bar>f_int (fdiv nan x y) * f_int y - f_int x * 2 ^ 149\<bar>
    \<le> \<bar>f_int z * f_int y - f_int x * 2 ^ 149\<bar>"
proof -
  have eq: "fdiv nan x y = f_round (f_sign x \<noteq> f_sign y)
      (mag_int (f_mag x) * 2 ^ 149) (mag_int (f_mag y))"
    using assms(1-3) is_fin_nan by (simp add: fdiv_def Let_def)
  have d: "mag_int (f_mag y) > 0" using assms(3) f_int_eq_0 [of y] by (simp add: f_int_def split: if_splits)
  from f_round_nearest [OF d assms(4) [unfolded eq], of z]
  have near: "\<bar>f_int (fdiv nan x y) * int (mag_int (f_mag y))
      - (if f_sign x \<noteq> f_sign y then - (int (mag_int (f_mag x)) * 2 ^ 149)
         else int (mag_int (f_mag x)) * 2 ^ 149)\<bar>
    \<le> \<bar>f_int z * int (mag_int (f_mag y))
      - (if f_sign x \<noteq> f_sign y then - (int (mag_int (f_mag x)) * 2 ^ 149)
         else int (mag_int (f_mag x)) * 2 ^ 149)\<bar>"
    unfolding eq by (simp only: of_nat_mult of_nat_power of_nat_numeral)
  define A where "A = int (mag_int (f_mag x)) * 2 ^ 149"
  define Y where "Y = int (mag_int (f_mag y))"
  have "f_int y = (if f_sign y then - Y else Y)" "f_int x * 2 ^ 149 = (if f_sign x then - A else A)"
    by (simp_all add: f_int_def A_def Y_def)
  with near show ?thesis
    unfolding A_def [symmetric] Y_def [symmetric]
    by (cases "f_sign x"; cases "f_sign y"; simp add: abs_minus_commute; linarith)
qed

text \<open>The saturating conversions.\<close>

lemma const_int:
  "f_int F_2_31 = 2 ^ 180" "f_int F_M2_31 = - (2 ^ 180)" "f_int F_2_32 = 2 ^ 181" "f_int 0 = 0"
  "\<not> is_nan F_2_31" "\<not> is_nan F_M2_31" "\<not> is_nan F_2_32" "\<not> is_nan 0"
  by (simp_all add: f_int_def f_sign_def f_mag_def mag_int_def F_2_31_def F_M2_31_def F_2_32_def
      is_nan_def INF_MAG_def Let_def)


lemma sdiv_facts:
  fixes v D :: int
  assumes "0 < D"
  shows "0 \<le> v \<Longrightarrow> 0 \<le> v sdiv D \<and> v sdiv D * D \<le> v \<and> v < (v sdiv D + 1) * D"
    and "v \<le> 0 \<Longrightarrow> v sdiv D \<le> 0 \<and> v \<le> v sdiv D * D \<and> (v sdiv D - 1) * D < v"
proof -
  define q where "q = \<bar>v\<bar> div D"
  define r where "r = \<bar>v\<bar> mod D"
  have m: "\<bar>v\<bar> = q * D + r" "0 \<le> r" "r < D" "0 \<le> q"
    using assms by (simp_all add: q_def r_def pos_imp_zdiv_nonneg_iff)
  have t: "v sdiv D = sgn v * q" using assms by (simp add: signed_divide_int_def q_def)
  have qD: "(q + 1) * D = q * D + D" "(- q - 1) * D = - (q * D) - D" "- q * D = - (q * D)"
    by (simp_all add: algebra_simps)
  show "0 \<le> v sdiv D \<and> v sdiv D * D \<le> v \<and> v < (v sdiv D + 1) * D" if v: "0 \<le> v"
  proof -
    have "v sdiv D = q" using v t by (cases "v = 0") (simp_all add: q_def)
    then show ?thesis unfolding \<open>v sdiv D = q\<close> qD using m v by linarith
  qed
  show "v sdiv D \<le> 0 \<and> v \<le> v sdiv D * D \<and> (v sdiv D - 1) * D < v" if v: "v \<le> 0"
  proof -
    have "v sdiv D = - q" using v t by (cases "v = 0") (simp_all add: q_def)
    then show ?thesis unfolding \<open>v sdiv D = - q\<close> qD using m v by linarith
  qed
qed

lemma sdiv_mult_cancel: "0 < D \<Longrightarrow> c * D sdiv D = c" for c D :: int
  by (simp add: signed_divide_int_def abs_mult sgn_mult mult.commute [of "sgn _"] abs_mult_sgn)

lemma sdiv_cmp:
  fixes v D c :: int
  assumes D: "0 < D"
  shows "v < c * D \<Longrightarrow> 0 < c \<Longrightarrow> v sdiv D < c"
    and "c * D \<le> v \<Longrightarrow> 0 \<le> c \<Longrightarrow> c \<le> v sdiv D"
    and "- c * D \<le> v \<Longrightarrow> 0 \<le> c \<Longrightarrow> - c \<le> v sdiv D"
    and "v < - c * D \<Longrightarrow> 0 \<le> c \<Longrightarrow> v sdiv D \<le> - c"
proof -
  let ?t = "v sdiv D"
  have cancel: "a * D < b * D \<longleftrightarrow> a < b" "a * D \<le> b * D \<longleftrightarrow> a \<le> b" for a b using D by simp_all
  show "?t < c" if "v < c * D" "0 < c"
  proof (cases "0 \<le> v")
    case True
    then have "?t * D < c * D" using sdiv_facts(1) [OF D, of v] that(1) by linarith
    then show ?thesis by (simp only: cancel)
  qed (use sdiv_facts(2) [OF D, of v] that in linarith)
  show "c \<le> ?t" if "c * D \<le> v" "0 \<le> c"
  proof -
    have "0 \<le> c * D" using that(2) D by simp
    then have "c * D < (?t + 1) * D" using sdiv_facts(1) [OF D, of v] that(1) by linarith
    then show ?thesis by (simp only: cancel)
  qed
  show "- c \<le> ?t" if "- c * D \<le> v" "0 \<le> c"
  proof (cases "v \<le> 0")
    case True
    then have "- c * D \<le> ?t * D" using sdiv_facts(2) [OF D, of v] that(1) by linarith
    then show ?thesis by (simp only: cancel)
  qed (use sdiv_facts(1) [OF D, of v] that in linarith)
  show "?t \<le> - c" if "v < - c * D" "0 \<le> c"
  proof -
    have "- c * D \<le> 0" using that(2) D by simp
    then have "(?t - 1) * D < - c * D" using sdiv_facts(2) [OF D, of v] that(1) by linarith
    then show ?thesis by (simp only: cancel)
  qed
qed

lemma is_inf_mag: "is_inf f \<Longrightarrow> f_int f = (if f_sign f then - (2 ^ 277) else 2 ^ 277)"
  by (simp add: is_inf_def f_int_def INF_MAG_def mag_int_def)

lemma feq_self: "feq f f \<longleftrightarrow> \<not> is_nan f"
  by (simp add: feq_def)

lemma f32_to_i32_sat_eq:
  "cvm_f32_to_i32_sat f = Some (if is_nan f then 0
     else word_of_int (max (- (2 ^ 31)) (min (2 ^ 31 - 1) (f_int f sdiv 2 ^ 149))))"
proof (cases "is_nan f")
  case True
  then show ?thesis by (simp add: cvm_f32_to_i32_sat_def feq_self)
next
  case False
  let ?v = "f_int f"
  note cmp = sdiv_cmp [where D = "2 ^ 149" and v = ?v and c = "2 ^ 31"]
  consider "2 ^ 180 \<le> ?v" | "?v < - (2 ^ 180)" | "- (2 ^ 180) \<le> ?v" "?v < 2 ^ 180" by linarith
  then show ?thesis
  proof cases
    case 1
    have "2 ^ 31 \<le> ?v sdiv 2 ^ 149" by (rule cmp(2)) (use 1 in simp_all)
    with 1 False show ?thesis
      by (simp add: cvm_f32_to_i32_sat_def feq_self fle_def const_int max_def min_def)
  next
    case 2
    then have "?v sdiv 2 ^ 149 \<le> - (2 ^ 31)" using cmp(4) by simp
    with 2 False show ?thesis
      by (simp add: cvm_f32_to_i32_sat_def feq_self fle_def flt_def const_int max_def min_def)
  next
    case 3
    then have "?v sdiv 2 ^ 149 < 2 ^ 31" "- (2 ^ 31) \<le> ?v sdiv 2 ^ 149" using cmp(1,3) by simp_all
    then have "max (- (2 ^ 31)) (min (2 ^ 31 - 1) (?v sdiv 2 ^ 149)) = ?v sdiv 2 ^ 149"
      "?v sdiv 2 ^ 149 < 2 ^ 31" "- (2 ^ 31) \<le> ?v sdiv 2 ^ 149"
      by (simp_all add: min_absorb2 max_absorb2)
    moreover have "\<not> is_inf f" using 3 is_inf_mag [of f] by (auto split: if_splits)
    ultimately show ?thesis using 3 False
      by (simp add: cvm_f32_to_i32_sat_def feq_self fle_def flt_def const_int
          c_f32_to_i32_def Let_def)
  qed
qed

lemma f32_to_u32_sat_eq:
  "cvm_f32_to_u32_sat f = Some (if is_nan f then 0
     else word_of_int (max 0 (min (2 ^ 32 - 1) (f_int f sdiv 2 ^ 149))))"
proof (cases "is_nan f")
  case True
  then show ?thesis by (simp add: cvm_f32_to_u32_sat_def feq_self)
next
  case False
  let ?v = "f_int f"
  note cmp = sdiv_cmp [where D = "2 ^ 149" and v = ?v and c = "2 ^ 32"]
  note f = sdiv_facts [of "2 ^ 149" ?v]
  consider "2 ^ 181 \<le> ?v" | "?v < 0" | "0 \<le> ?v" "?v < 2 ^ 181" by linarith
  then show ?thesis
  proof cases
    case 1
    have "2 ^ 32 \<le> ?v sdiv 2 ^ 149" by (rule cmp(2)) (use 1 in simp_all)
    with 1 False show ?thesis
      by (simp add: cvm_f32_to_u32_sat_def feq_self fle_def const_int max_def min_def)
  next
    case 2
    then have "?v sdiv 2 ^ 149 \<le> 0" using f(2) by simp
    with 2 False show ?thesis
      by (simp add: cvm_f32_to_u32_sat_def feq_self fle_def flt_def const_int max_def min_def)
  next
    case 3
    then have "?v sdiv 2 ^ 149 < 2 ^ 32" "0 \<le> ?v sdiv 2 ^ 149" using cmp(1) f(1) by simp_all
    then have "max 0 (min (2 ^ 32 - 1) (?v sdiv 2 ^ 149)) = ?v sdiv 2 ^ 149"
      "?v sdiv 2 ^ 149 < 2 ^ 32" "0 \<le> ?v sdiv 2 ^ 149"
      by (simp_all add: min_absorb2 max_absorb2)
    moreover have "\<not> is_inf f" using 3 is_inf_mag [of f] by (auto split: if_splits)
    ultimately show ?thesis using 3 False
      by (simp add: cvm_f32_to_u32_sat_def feq_self fle_def flt_def const_int
          c_f32_to_u32_def Let_def)
  qed
qed


text \<open>Integers of up to 25 bits are representable.\<close>

lemma representable_int:
  assumes "N \<le> 2 ^ 24"
  shows "\<exists>k < INF_MAG. mag_int k = N * 2 ^ 149"
proof -
  consider "N = 0" | "0 < N" "N < 2 ^ 24" | "N = 2 ^ 24" using assms by linarith
  then show ?thesis
  proof cases
    case 1
    then show ?thesis by (intro exI [of _ 0]) (simp add: INF_MAG_def)
  next
    case 2
    define j where "j = 24 - bit_length N"
    note bl = bit_length_bounds [OF 2(1)]
    have le: "bit_length N \<le> 24" by (rule bit_length_le [OF 2(2)])
    then have p: "2 ^ bit_length N * 2 ^ j = (2 :: nat) ^ 24"
      by (simp add: j_def power_add [symmetric])
    have "2 ^ bit_length N * 2 ^ j \<le> 2 * N * 2 ^ j" "N * 2 ^ j < 2 ^ bit_length N * 2 ^ j"
      using bl by simp_all
    then have m: "2 ^ 23 \<le> N * 2 ^ j" "N * 2 ^ j < 2 ^ 24" unfolding p by simp_all
    have "mag_int ((149 - j) * 2 ^ 23 + N * 2 ^ j) = N * 2 ^ j * 2 ^ (149 - j)"
      by (rule mag_int_normal) (use m in simp_all)
    also have "\<dots> = N * 2 ^ 149"
      using le by (simp only: mult.assoc power_add [symmetric]) (simp add: j_def)
    finally have "mag_int ((149 - j) * 2 ^ 23 + N * 2 ^ j) = N * 2 ^ 149" .
    moreover have "(149 - j) * 2 ^ 23 \<le> 149 * 2 ^ 23" by simp
    then have "(149 - j) * 2 ^ 23 + N * 2 ^ j < INF_MAG" using m(2) by (simp add: INF_MAG_def)
    ultimately show ?thesis by blast
  next
    case 3
    have "mag_int (149 * 2 ^ 23 + 2 ^ 24) = 2 ^ 24 * 2 ^ 149"
      by (rule mag_int_normal) simp_all
    then show ?thesis using 3 by (intro exI [of _ "149 * 2 ^ 23 + 2 ^ 24"]) (simp add: INF_MAG_def)
  qed
qed

lemma f_round_int:
  assumes "N \<le> 2 ^ 24"
  shows "f_int (f_round s (N * 2 ^ 149) 1) = (if s then - int N else int N) * 2 ^ 149"
    "is_fin (f_round s (N * 2 ^ 149) 1)"
proof -
  obtain k where k: "k < INF_MAG" "mag_int k = N * 2 ^ 149" using representable_int [OF assms] by blast
  then have "round_mag (N * 2 ^ 149) 1 = k" using round_mag_exact [of 1 k] by simp
  then show "f_int (f_round s (N * 2 ^ 149) 1) = (if s then - int N else int N) * 2 ^ 149"
    "is_fin (f_round s (N * 2 ^ 149) 1)"
    using k by (simp_all add: f_int_def f_round_bits is_fin_mag)
qed

lemma i32_f32_roundtrip:
  assumes "\<bar>sint n\<bar> \<le> 2 ^ 24"
  shows "cvm_f32_to_i32_sat (i32_to_f n) = Some n"
proof -
  have N: "nat \<bar>sint n\<bar> \<le> 2 ^ 24" using assms by simp
  have "f_int (i32_to_f n) = sint n * 2 ^ 149"
    unfolding i32_to_f_def f_round_int(1) [OF N] by (cases "sint n < 0") simp_all
  moreover have "\<not> is_nan (i32_to_f n)" by (simp add: i32_to_f_def)
  moreover have "sint n * 2 ^ 149 sdiv 2 ^ 149 = sint n"
    by (rule sdiv_mult_cancel) simp
  moreover have "max (- (2 ^ 31)) (min (2 ^ 31 - 1) (sint n)) = sint n"
    using assms by (simp add: min_absorb2 max_absorb2)
  ultimately show ?thesis by (simp only: f32_to_i32_sat_eq if_False) simp
qed

lemma f_integral_int:
  assumes fin: "is_fin x" and small: "\<bar>f_int x\<bar> < 2 ^ 172 \<Longrightarrow> \<bar>q\<bar> \<le> 2 ^ 24"
    and exact: "2 ^ 149 dvd f_int x \<Longrightarrow> q * 2 ^ 149 = f_int x"
    and sign: "q \<noteq> 0 \<Longrightarrow> q < 0 \<longleftrightarrow> f_sign x"
  shows "f_int (f_integral (f_sign x) q) = q * 2 ^ 149"
proof (cases "\<bar>f_int x\<bar> < 2 ^ 172")
  case True
  then have "nat \<bar>q\<bar> \<le> 2 ^ 24" using small by simp
  from f_round_int(1) [OF this] show ?thesis
    using sign unfolding f_integral_def by (cases "q = 0"; cases "q < 0"; simp)
next
  case False
  obtain e m where k: "f_mag x = e * 2 ^ 23 + m" "e = 0 \<or> 2 ^ 23 \<le> m" "m < 2 ^ 24"
    using mag_form by blast
  have v: "mag_int (f_mag x) = m * 2 ^ e" unfolding k(1) by (rule mag_int_normal) (use k in simp_all)
  have "149 \<le> e"
  proof (rule ccontr)
    assume "\<not> 149 \<le> e"
    then have "2 ^ e \<le> (2 :: nat) ^ 148" by (intro power_increasing) simp_all
    then have "m * 2 ^ e \<le> m * 2 ^ 148" by simp
    also have "\<dots> < 2 ^ 24 * 2 ^ 148" using k(3) by simp
    finally have "mag_int (f_mag x) < 2 ^ 172" unfolding v by simp
    then have "int (mag_int (f_mag x)) < int (2 ^ 172)" by (simp only: of_nat_less_iff)
    with False show False by (cases "f_sign x") (simp_all add: f_int_def)
  qed
  then have "2 ^ 149 dvd (2 :: int) ^ e" by (rule le_imp_power_dvd)
  then have "2 ^ 149 dvd f_int x" by (simp add: f_int_def v)
  note ex = exact [OF this]
  have "f_integral (f_sign x) q = x"
    unfolding f_integral_def
    by (rule f_round_exact) (use fin ex in \<open>auto simp: is_fin_def abs_mult [symmetric]\<close>)
  then show ?thesis using ex by simp
qed


lemma unit_bounds:
  fixes v :: int
  assumes "\<bar>v\<bar> < 2 ^ 172"
  shows "\<bar>v div 2 ^ 149\<bar> \<le> 2 ^ 24" "\<bar>v sdiv 2 ^ 149\<bar> \<le> 2 ^ 24"
proof -
  have "- (2 ^ 23) * 2 ^ 149 \<le> v" "v < 2 ^ 23 * 2 ^ 149" using assms by simp_all
  then have "- (2 ^ 23) \<le> v div 2 ^ 149" "v div 2 ^ 149 < 2 ^ 23"
    by (simp_all add: le_divide_eq_numeral int_div_less_self pos_imp_zdiv_pos_iff
        zdiv_mono1 [of "- (2 ^ 23) * 2 ^ 149" v "2 ^ 149", simplified] div_less_iff_less_mult)
  then show "\<bar>v div 2 ^ 149\<bar> \<le> 2 ^ 24" by simp
  show "\<bar>v sdiv 2 ^ 149\<bar> \<le> 2 ^ 24"
  proof -
    have "v sdiv 2 ^ 149 < 2 ^ 23" by (rule sdiv_cmp(1)) (use assms in simp_all)
    moreover have "- (2 ^ 23) \<le> v sdiv 2 ^ 149" by (rule sdiv_cmp(3)) (use assms in simp_all)
    ultimately show ?thesis by simp
  qed
qed

lemma ffloor_int: "is_fin x \<Longrightarrow> f_int (ffloor nan x) = f_int x div 2 ^ 149 * 2 ^ 149"
proof -
  assume x: "is_fin x"
  then have "ffloor nan x = f_integral (f_sign x) (f_int x div 2 ^ 149)"
    by (simp add: ffloor_def is_fin_def)
  moreover have "f_int x div 2 ^ 149 < 0 \<longleftrightarrow> f_sign x" if "f_int x div 2 ^ 149 \<noteq> 0"
    using that f_int_eq_0 [of x] f_int_neg [of x] by (auto simp: neg_imp_zdiv_neg_iff pos_imp_zdiv_neg_iff)
  ultimately show ?thesis using unit_bounds(1)
    by (simp only:) (rule f_integral_int [OF x]; auto)
qed

lemma fceil_int: "is_fin x \<Longrightarrow> f_int (fceil nan x) = - ((- f_int x) div 2 ^ 149) * 2 ^ 149"
proof -
  assume x: "is_fin x"
  then have "fceil nan x = f_integral (f_sign x) (- ((- f_int x) div 2 ^ 149))"
    by (simp add: fceil_def is_fin_def)
  moreover have "- ((- f_int x) div 2 ^ 149) < 0 \<longleftrightarrow> f_sign x" if "- ((- f_int x) div 2 ^ 149) \<noteq> 0"
  proof -
    have "0 \<le> (- f_int x) div 2 ^ 149 \<longleftrightarrow> 0 \<le> - f_int x" by (rule pos_imp_zdiv_nonneg_iff) simp
    then show ?thesis using that f_int_eq_0 [of x] f_int_neg [of x] by auto
  qed
  ultimately show ?thesis using unit_bounds(1) [of "- f_int x"]
    by (simp only:) (rule f_integral_int [OF x]; auto)
qed

lemma ftrunc_int: "is_fin x \<Longrightarrow> f_int (ftrunc nan x) = f_int x sdiv 2 ^ 149 * 2 ^ 149"
proof -
  assume x: "is_fin x"
  then have "ftrunc nan x = f_integral (f_sign x) (f_int x sdiv 2 ^ 149)"
    by (simp add: ftrunc_def is_fin_def)
  moreover have "f_int x sdiv 2 ^ 149 < 0 \<longleftrightarrow> f_sign x" if "f_int x sdiv 2 ^ 149 \<noteq> 0"
  proof -
    have "0 \<le> f_int x \<Longrightarrow> 0 \<le> f_int x sdiv 2 ^ 149" "f_int x \<le> 0 \<Longrightarrow> f_int x sdiv 2 ^ 149 \<le> 0"
      using sdiv_facts [of "2 ^ 149" "f_int x"] by simp_all
    then show ?thesis using that f_int_eq_0 [of x] f_int_neg [of x]
      by (cases "f_int x \<le> 0") auto
  qed
  moreover have "f_int x sdiv 2 ^ 149 * 2 ^ 149 = f_int x" if "2 ^ 149 dvd f_int x"
  proof -
    from that obtain c where "f_int x = c * 2 ^ 149" by (metis dvdE mult.commute)
    then show ?thesis using sdiv_mult_cancel [of "2 ^ 149" c] by simp
  qed
  ultimately show ?thesis using unit_bounds(2)
    by (simp only:) (rule f_integral_int [OF x]; auto)
qed

section \<open>Properties of the floating-point operations\<close>



text \<open>C17. The saturating conversions never reach the undefined C conversion, whatever the bits:
  NaN gives 0, everything else is truncated towards zero and clamped to the range of the type.\<close>

theorem f32_to_int_saturates:
  "cvm_f32_to_i32_sat f = Some (if is_nan f then 0
     else word_of_int (max (- (2 ^ 31)) (min (2 ^ 31 - 1) (f_int f sdiv 2 ^ 149))))
   \<and> cvm_f32_to_u32_sat f = Some (if is_nan f then 0
     else word_of_int (max 0 (min (2 ^ 32 - 1) (f_int f sdiv 2 ^ 149))))"
  using f32_to_i32_sat_eq f32_to_u32_sat_eq by blast

text \<open>Integers up to \<open>2^24\<close> in magnitude survive a round trip through a float.\<close>

theorem int_float_roundtrip:
  assumes "\<bar>sint n\<bar> \<le> 2 ^ 24"
  shows "cvm_f32_to_i32_sat (i32_to_f n) = Some n"
  by (rule i32_f32_roundtrip [OF assms])

theorem int_float_roundtrip_witness: "cvm_f32_to_i32_sat (i32_to_f (- 77)) = Some (- 77)"
  by (rule int_float_roundtrip) simp



end
