(* ===== verification/Isa.thy ===== *)
theory Isa
  imports Float32_Correct
begin

text \<open>
  The instruction set of \<open>include/cvm.h\<close>: the opcodes with their encodings, and the fields of a
  32-bit instruction word. Encoding and decoding of opcodes are inverse, and opcodes are ordered
  by their encoding.
\<close>

section \<open>Opcodes\<close>

datatype (plugins only: code) cvm_opcode =
    CVM_OP_HALT | CVM_OP_MOVI | CVM_OP_MOV | CVM_OP_ADD | CVM_OP_SUB | CVM_OP_MUL | CVM_OP_LDW
    | CVM_OP_STW | CVM_OP_JMP | CVM_OP_BEQ | CVM_OP_BNE | CVM_OP_SYSCALL | CVM_OP_CMP_EQ
    | CVM_OP_CMP_NE | CVM_OP_CMP_LT | CVM_OP_CMP_LE | CVM_OP_CMP_LTU | CVM_OP_CMP_LEU
    | CVM_OP_DIV | CVM_OP_DIVU | CVM_OP_MOD | CVM_OP_MODU | CVM_OP_SHL | CVM_OP_SHR
    | CVM_OP_SAR | CVM_OP_AND | CVM_OP_OR | CVM_OP_XOR | CVM_OP_CALL | CVM_OP_RET
    | CVM_OP_CALLR | CVM_OP_LDB | CVM_OP_STB | CVM_OP_LDH | CVM_OP_STH | CVM_OP_MOVHI
    | CVM_OP_MEMCPY | CVM_OP_MEMSET | CVM_OP_MEMMOVE | CVM_OP_MULH | CVM_OP_MULHU | CVM_OP_FADD
    | CVM_OP_FSUB | CVM_OP_FMUL | CVM_OP_FDIV | CVM_OP_FNEG | CVM_OP_FCMP_EQ | CVM_OP_FCMP_NE
    | CVM_OP_FCMP_LT | CVM_OP_FCMP_LE | CVM_OP_F2I_S | CVM_OP_F2I_U | CVM_OP_I2F_S
    | CVM_OP_I2F_U | CVM_OP_JMPR | CVM_OP_FSQRT | CVM_OP_QDIV1616 | CVM_OP_QDIV6432
    | CVM_OP_SETJMP | CVM_OP_LONGJMP | CVM_OP_CORO_SWAP | CVM_OP_FFLOOR | CVM_OP_FCEIL
    | CVM_OP_FTRUNC

primrec op_value :: "cvm_opcode \<Rightarrow> u8" where
  "op_value CVM_OP_HALT = 0x00"
| "op_value CVM_OP_MOVI = 0x01"
| "op_value CVM_OP_MOV = 0x02"
| "op_value CVM_OP_ADD = 0x03"
| "op_value CVM_OP_SUB = 0x04"
| "op_value CVM_OP_MUL = 0x05"
| "op_value CVM_OP_LDW = 0x06"
| "op_value CVM_OP_STW = 0x07"
| "op_value CVM_OP_JMP = 0x08"
| "op_value CVM_OP_BEQ = 0x09"
| "op_value CVM_OP_BNE = 0x0A"
| "op_value CVM_OP_SYSCALL = 0x0B"
| "op_value CVM_OP_CMP_EQ = 0x0C"
| "op_value CVM_OP_CMP_NE = 0x0D"
| "op_value CVM_OP_CMP_LT = 0x0E"
| "op_value CVM_OP_CMP_LE = 0x0F"
| "op_value CVM_OP_CMP_LTU = 0x10"
| "op_value CVM_OP_CMP_LEU = 0x11"
| "op_value CVM_OP_DIV = 0x12"
| "op_value CVM_OP_DIVU = 0x13"
| "op_value CVM_OP_MOD = 0x14"
| "op_value CVM_OP_MODU = 0x15"
| "op_value CVM_OP_SHL = 0x16"
| "op_value CVM_OP_SHR = 0x17"
| "op_value CVM_OP_SAR = 0x18"
| "op_value CVM_OP_AND = 0x19"
| "op_value CVM_OP_OR = 0x1A"
| "op_value CVM_OP_XOR = 0x1B"
| "op_value CVM_OP_CALL = 0x1C"
| "op_value CVM_OP_RET = 0x1D"
| "op_value CVM_OP_CALLR = 0x1E"
| "op_value CVM_OP_LDB = 0x1F"
| "op_value CVM_OP_STB = 0x20"
| "op_value CVM_OP_LDH = 0x21"
| "op_value CVM_OP_STH = 0x22"
| "op_value CVM_OP_MOVHI = 0x23"
| "op_value CVM_OP_MEMCPY = 0x24"
| "op_value CVM_OP_MEMSET = 0x25"
| "op_value CVM_OP_MEMMOVE = 0x26"
| "op_value CVM_OP_MULH = 0x27"
| "op_value CVM_OP_MULHU = 0x28"
| "op_value CVM_OP_FADD = 0x29"
| "op_value CVM_OP_FSUB = 0x2A"
| "op_value CVM_OP_FMUL = 0x2B"
| "op_value CVM_OP_FDIV = 0x2C"
| "op_value CVM_OP_FNEG = 0x2D"
| "op_value CVM_OP_FCMP_EQ = 0x2E"
| "op_value CVM_OP_FCMP_NE = 0x2F"
| "op_value CVM_OP_FCMP_LT = 0x30"
| "op_value CVM_OP_FCMP_LE = 0x31"
| "op_value CVM_OP_F2I_S = 0x32"
| "op_value CVM_OP_F2I_U = 0x33"
| "op_value CVM_OP_I2F_S = 0x34"
| "op_value CVM_OP_I2F_U = 0x35"
| "op_value CVM_OP_JMPR = 0x36"
| "op_value CVM_OP_FSQRT = 0x37"
| "op_value CVM_OP_QDIV1616 = 0x38"
| "op_value CVM_OP_QDIV6432 = 0x39"
| "op_value CVM_OP_SETJMP = 0x3A"
| "op_value CVM_OP_LONGJMP = 0x3B"
| "op_value CVM_OP_CORO_SWAP = 0x3C"
| "op_value CVM_OP_FFLOOR = 0x3D"
| "op_value CVM_OP_FCEIL = 0x3E"
| "op_value CVM_OP_FTRUNC = 0x3F"

definition all_opcodes :: "cvm_opcode list" where
  "all_opcodes =
     [CVM_OP_HALT, CVM_OP_MOVI, CVM_OP_MOV, CVM_OP_ADD, CVM_OP_SUB, CVM_OP_MUL, CVM_OP_LDW,
      CVM_OP_STW, CVM_OP_JMP, CVM_OP_BEQ, CVM_OP_BNE, CVM_OP_SYSCALL, CVM_OP_CMP_EQ,
      CVM_OP_CMP_NE, CVM_OP_CMP_LT, CVM_OP_CMP_LE, CVM_OP_CMP_LTU, CVM_OP_CMP_LEU,
      CVM_OP_DIV, CVM_OP_DIVU, CVM_OP_MOD, CVM_OP_MODU, CVM_OP_SHL, CVM_OP_SHR,
      CVM_OP_SAR, CVM_OP_AND, CVM_OP_OR, CVM_OP_XOR, CVM_OP_CALL, CVM_OP_RET,
      CVM_OP_CALLR, CVM_OP_LDB, CVM_OP_STB, CVM_OP_LDH, CVM_OP_STH, CVM_OP_MOVHI,
      CVM_OP_MEMCPY, CVM_OP_MEMSET, CVM_OP_MEMMOVE, CVM_OP_MULH, CVM_OP_MULHU,
      CVM_OP_FADD, CVM_OP_FSUB, CVM_OP_FMUL, CVM_OP_FDIV, CVM_OP_FNEG, CVM_OP_FCMP_EQ,
      CVM_OP_FCMP_NE, CVM_OP_FCMP_LT, CVM_OP_FCMP_LE, CVM_OP_F2I_S, CVM_OP_F2I_U,
      CVM_OP_I2F_S, CVM_OP_I2F_U, CVM_OP_JMPR, CVM_OP_FSQRT, CVM_OP_QDIV1616,
      CVM_OP_QDIV6432, CVM_OP_SETJMP, CVM_OP_LONGJMP, CVM_OP_CORO_SWAP, CVM_OP_FFLOOR,
      CVM_OP_FCEIL, CVM_OP_FTRUNC]"

definition decode_op :: "u8 \<Rightarrow> cvm_opcode option" where
  "decode_op b = find (\<lambda>op. op_value op = b) all_opcodes"

lemma decode_op_value [simp]: "decode_op (op_value op) = Some op"
  by (cases op) (simp_all add: decode_op_def all_opcodes_def)

lemma op_value_inj [simp]: "op_value x = op_value y \<longleftrightarrow> x = y"
  by (metis decode_op_value option.inject)

lemma decode_op_Some: "decode_op b = Some op \<longleftrightarrow> b = op_value op"
proof
  assume "decode_op b = Some op"
  then show "b = op_value op" by (auto simp: decode_op_def find_Some_iff)
qed simp

instantiation cvm_opcode :: linorder
begin

definition less_eq_cvm_opcode :: "cvm_opcode \<Rightarrow> cvm_opcode \<Rightarrow> bool" where
  "less_eq_cvm_opcode x y \<longleftrightarrow> op_value x \<le> op_value y"

definition less_cvm_opcode :: "cvm_opcode \<Rightarrow> cvm_opcode \<Rightarrow> bool" where
  "less_cvm_opcode x y \<longleftrightarrow> op_value x < op_value y"

instance
proof
  fix x y z :: cvm_opcode
  show "x < y \<longleftrightarrow> x \<le> y \<and> \<not> y \<le> x"
    unfolding less_eq_cvm_opcode_def less_cvm_opcode_def by (rule less_le_not_le)
  show "x \<le> x" "x \<le> y \<Longrightarrow> y \<le> z \<Longrightarrow> x \<le> z" "x \<le> y \<or> y \<le> x"
    unfolding less_eq_cvm_opcode_def by (rule order_refl, erule (1) order_trans, rule linear)
  show "x \<le> y \<Longrightarrow> y \<le> x \<Longrightarrow> x = y"
    unfolding less_eq_cvm_opcode_def by (metis op_value_inj order_antisym)
qed

end

declare op_value.simps [simp del]

section \<open>Fields of an instruction\<close>

definition i_op :: "u32 \<Rightarrow> u8" where "i_op inst = ucast (inst AND 0xFF)"
definition i_a :: "u32 \<Rightarrow> u8" where "i_a inst = ucast (drop_bit 8 inst AND 0xFF)"
definition i_b :: "u32 \<Rightarrow> u8" where "i_b inst = ucast (drop_bit 16 inst AND 0xFF)"
definition i_c :: "u32 \<Rightarrow> u8" where "i_c inst = ucast (drop_bit 24 inst AND 0xFF)"

text \<open>The word with the given fields.\<close>

definition encode :: "u8 \<Rightarrow> u8 \<Rightarrow> u8 \<Rightarrow> u8 \<Rightarrow> u32" where
  "encode op a b c = le32 op a b c"

lemma ucast_mask8: "ucast (w AND 0xFF :: u32) = (ucast w :: u8)"
proof -
  have m: "(0xFF :: u32) = mask 8" by (simp add: mask_eq_exp_minus_1)
  show ?thesis unfolding m by (rule bit_word_eqI) (auto simp: bit_simps)
qed

lemma encode_fields [simp]:
  "i_op (encode op a b c) = op" "i_a (encode op a b c) = a" "i_b (encode op a b c) = b"
  "i_c (encode op a b c) = c"
  by (simp_all only: i_op_def i_a_def i_b_def i_c_def encode_def ucast_mask8 le32_bytes)

end
