(* ===== verification/Exec.thy ===== *)
theory Exec
  imports Isa
begin

text \<open>
  The interpreter \<open>cvm_exec_at\<close> of \<open>src/cvm.c\<close>, threaded version: one definition per label, the
  jump table \<open>jt\<close>, the \<open>DISPATCH\<close> macro, the setup of registers and stack, and the entry points
  \<open>cvm_run\<close>, \<open>cvm_run_args\<close>, \<open>cvm_call\<close>. Registers are 32-bit words read signed where the C type
  \<open>int32_t\<close> matters; a signed overflow, an access outside an array or an overlapping \<open>memcpy\<close> is the
  outcome \<open>Crash\<close>. The diagnostics and profiling macros are empty, as in the default build.
\<close>

section \<open>State\<close>

text \<open>What changes while a program runs: the local register file and \<open>pc\<close>, the image (its buffer
  is the machine's memory) and the state of the host.\<close>

record 'h vm =
  vm_R :: regs
  vm_pc :: u32
  vm_img :: cvm_image
  vm_host :: 'h

text \<open>What \<open>cvm_exec_at\<close> reads into \<open>const\<close> locals before the first instruction, and the
  environment: the host functions and the host's choice of NaN payloads.\<close>

record 'h ctx =
  cx_code :: "u32 list"
  cx_code_count :: u32
  cx_mem_size :: u32
  cx_func_offsets :: "u32 list"
  cx_func_count :: u32
  cx_host :: "nat \<Rightarrow> 'h handler"
  cx_nan :: nan_choice

datatype 'h outcome = Running "'h vm" | Done u32 "'h vm" | Trap cvm_result "'h vm" | Crash

type_synonym 'h label = "'h ctx \<Rightarrow> u32 \<Rightarrow> u8 \<Rightarrow> u8 \<Rightarrow> u8 \<Rightarrow> 'h vm \<Rightarrow> 'h outcome"

definition CVM_REG_SP :: u8 where [simp]: "CVM_REG_SP = 255"
definition CVM_RET_SENTINEL :: u32 where [simp]: "CVM_RET_SENTINEL = 0xFFFFFFFF"

abbreviation R :: "'h vm \<Rightarrow> u8 \<Rightarrow> u32" where "R s \<equiv> vm_R s"

definition set_R :: "'h vm \<Rightarrow> u8 \<Rightarrow> u32 \<Rightarrow> 'h vm" where
  "set_R s r v = s\<lparr>vm_R := (vm_R s)(r := v)\<rparr>"

definition set_pc :: "'h vm \<Rightarrow> u32 \<Rightarrow> 'h vm" where "set_pc s p = s\<lparr>vm_pc := p\<rparr>"

definition heap_of :: "'h vm \<Rightarrow> mem" where "heap_of s = cells (img_heap (vm_img s))"

definition set_heap :: "'h vm \<Rightarrow> mem \<Rightarrow> 'h vm" where
  "set_heap s m = s\<lparr>vm_img := (vm_img s)\<lparr>img_heap := put_cells (img_heap (vm_img s)) m\<rparr>\<rparr>"

text \<open>\<open>addr > mem_size || mem_size - addr < n\<close>\<close>

definition oob :: "'h ctx \<Rightarrow> u32 \<Rightarrow> u32 \<Rightarrow> bool" where
  "oob cx addr n \<longleftrightarrow> addr > cx_mem_size cx \<or> cx_mem_size cx - addr < n"

text \<open>\<open>memcpy(&v, heap + a, 4)\<close> and its inverse.\<close>

definition load :: "'h vm \<Rightarrow> nat \<Rightarrow> (u32 \<Rightarrow> 'h outcome) \<Rightarrow> 'h outcome" where
  "load s a k = (case rd32 (heap_of s) a of None \<Rightarrow> Crash | Some v \<Rightarrow> k v)"

definition store :: "'h vm \<Rightarrow> nat \<Rightarrow> u32 \<Rightarrow> ('h vm \<Rightarrow> 'h outcome) \<Rightarrow> 'h outcome" where
  "store s a v k = (case wr32 (heap_of s) a v of None \<Rightarrow> Crash | Some m \<Rightarrow> k (set_heap s m))"

text \<open>\<open>int32_t\<close> addition: undefined on overflow.\<close>

definition in_i32 :: "int \<Rightarrow> bool" where "in_i32 i \<longleftrightarrow> - (2 ^ 31) \<le> i \<and> i < 2 ^ 31"

definition bool32 :: "bool \<Rightarrow> u32" where "bool32 p = (if p then 1 else 0)"

section \<open>Moves and arithmetic\<close>

definition L_HALT :: "'h label" where
  "L_HALT cx inst a b c s = Done (R s a) s"

definition L_MOVI :: "'h label" where
  "L_MOVI cx inst a b c s = Running (set_R s a (scast (ucast (drop_bit 16 inst) :: u16)))"

definition L_MOV :: "'h label" where
  "L_MOV cx inst a b c s = Running (set_R s a (R s b))"

definition L_ADD :: "'h label" where
  "L_ADD cx inst a b c s = Running (set_R s a (R s b + R s c))"

definition L_SUB :: "'h label" where
  "L_SUB cx inst a b c s = Running (set_R s a (R s b - R s c))"

definition L_MUL :: "'h label" where
  "L_MUL cx inst a b c s = Running (set_R s a (R s b * R s c))"

definition L_CMP_EQ :: "'h label" where
  "L_CMP_EQ cx inst a b c s = Running (set_R s a (bool32 (R s b = R s c)))"

definition L_CMP_NE :: "'h label" where
  "L_CMP_NE cx inst a b c s = Running (set_R s a (bool32 (R s b \<noteq> R s c)))"

definition L_CMP_LT :: "'h label" where
  "L_CMP_LT cx inst a b c s = Running (set_R s a (bool32 (sint (R s b) < sint (R s c))))"

definition L_CMP_LE :: "'h label" where
  "L_CMP_LE cx inst a b c s = Running (set_R s a (bool32 (sint (R s b) \<le> sint (R s c))))"

definition L_CMP_LTU :: "'h label" where
  "L_CMP_LTU cx inst a b c s = Running (set_R s a (bool32 (R s b < R s c)))"

definition L_CMP_LEU :: "'h label" where
  "L_CMP_LEU cx inst a b c s = Running (set_R s a (bool32 (R s b \<le> R s c)))"

text \<open>Signed division truncates; a quotient out of range is undefined.\<close>

definition L_DIV :: "'h label" where
  "L_DIV cx inst a b c s =
     (if R s c = 0 then Trap CVM_E_DIV_BY_ZERO s
      else if R s b = 0x80000000 \<and> R s c = - 1 then Running (set_R s a 0x80000000)
      else let q = sint (R s b) sdiv sint (R s c) in
        if in_i32 q then Running (set_R s a (word_of_int q)) else Crash)"

definition L_DIVU :: "'h label" where
  "L_DIVU cx inst a b c s =
     (if R s c = 0 then Trap CVM_E_DIV_BY_ZERO s else Running (set_R s a (R s b div R s c)))"

definition L_MOD :: "'h label" where
  "L_MOD cx inst a b c s =
     (if R s c = 0 then Trap CVM_E_DIV_BY_ZERO s
      else if R s b = 0x80000000 \<and> R s c = - 1 then Running (set_R s a 0)
      else if in_i32 (sint (R s b) sdiv sint (R s c))
      then Running (set_R s a (word_of_int (sint (R s b) smod sint (R s c)))) else Crash)"

definition L_MODU :: "'h label" where
  "L_MODU cx inst a b c s =
     (if R s c = 0 then Trap CVM_E_DIV_BY_ZERO s else Running (set_R s a (R s b mod R s c)))"

definition L_SHL :: "'h label" where
  "L_SHL cx inst a b c s = Running (set_R s a (push_bit (unat (R s c AND 31)) (R s b)))"

definition L_SHR :: "'h label" where
  "L_SHR cx inst a b c s = Running (set_R s a (drop_bit (unat (R s c AND 31)) (R s b)))"

text \<open>\<open>>>\<close> of a negative \<open>int32_t\<close> is the arithmetic shift (implementation-defined in C, and so
  on every compiler the build supports).\<close>

definition L_SAR :: "'h label" where
  "L_SAR cx inst a b c s = Running (set_R s a (signed_drop_bit (unat (R s c AND 31)) (R s b)))"

definition L_AND :: "'h label" where
  "L_AND cx inst a b c s = Running (set_R s a (R s b AND R s c))"

definition L_OR :: "'h label" where
  "L_OR cx inst a b c s = Running (set_R s a (R s b OR R s c))"

definition L_XOR :: "'h label" where
  "L_XOR cx inst a b c s = Running (set_R s a (R s b XOR R s c))"

definition L_MOVHI :: "'h label" where
  "L_MOVHI cx inst a b c s =
     (let hi = drop_bit 16 inst AND 0xFFFF in
      Running (set_R s a (push_bit 16 hi OR (R s a AND 0xFFFF))))"

text \<open>\<open>int64_t\<close> product: undefined when it leaves the 64-bit range.\<close>

definition L_MULH :: "'h label" where
  "L_MULH cx inst a b c s =
     (let p = sint (R s b) * sint (R s c) in
      if - (2 ^ 63) \<le> p \<and> p < 2 ^ 63 then Running (set_R s a (word_of_int (p div 2 ^ 32)))
      else Crash)"

definition L_MULHU :: "'h label" where
  "L_MULHU cx inst a b c s =
     Running (set_R s a (ucast (drop_bit 32 ((ucast (R s b) :: u64) * ucast (R s c)))))"

definition L_QDIV1616 :: "'h label" where
  "L_QDIV1616 cx inst a b c s =
     (if R s c = 0 then Trap CVM_E_DIV_BY_ZERO s
      else Running (set_R s a (ucast (push_bit 16 (ucast (R s b) :: u64) div ucast (R s c)))))"

definition L_QDIV6432 :: "'h label" where
  "L_QDIV6432 cx inst a b c s =
     (if R s c = 0 then Trap CVM_E_DIV_BY_ZERO s
      else Running (set_R s a
        (ucast ((push_bit 32 (ucast (R s a) :: u64) OR ucast (R s b)) div ucast (R s c)))))"

section \<open>Floating point\<close>

definition L_FADD :: "'h label" where
  "L_FADD cx inst a b c s = Running (set_R s a (fadd (cx_nan cx) (R s b) (R s c)))"

definition L_FSUB :: "'h label" where
  "L_FSUB cx inst a b c s = Running (set_R s a (fsub (cx_nan cx) (R s b) (R s c)))"

definition L_FMUL :: "'h label" where
  "L_FMUL cx inst a b c s = Running (set_R s a (fmul (cx_nan cx) (R s b) (R s c)))"

definition L_FDIV :: "'h label" where
  "L_FDIV cx inst a b c s = Running (set_R s a (fdiv (cx_nan cx) (R s b) (R s c)))"

definition L_FNEG :: "'h label" where
  "L_FNEG cx inst a b c s = Running (set_R s a (R s b XOR 0x80000000))"

definition L_FCMP_EQ :: "'h label" where
  "L_FCMP_EQ cx inst a b c s = Running (set_R s a (bool32 (feq (R s b) (R s c))))"

definition L_FCMP_NE :: "'h label" where
  "L_FCMP_NE cx inst a b c s = Running (set_R s a (bool32 (\<not> feq (R s b) (R s c))))"

definition L_FCMP_LT :: "'h label" where
  "L_FCMP_LT cx inst a b c s = Running (set_R s a (bool32 (flt (R s b) (R s c))))"

definition L_FCMP_LE :: "'h label" where
  "L_FCMP_LE cx inst a b c s = Running (set_R s a (bool32 (fle (R s b) (R s c))))"

definition L_F2I_S :: "'h label" where
  "L_F2I_S cx inst a b c s =
     (case cvm_f32_to_i32_sat (R s b) of None \<Rightarrow> Crash | Some v \<Rightarrow> Running (set_R s a v))"

definition L_F2I_U :: "'h label" where
  "L_F2I_U cx inst a b c s =
     (case cvm_f32_to_u32_sat (R s b) of None \<Rightarrow> Crash | Some v \<Rightarrow> Running (set_R s a v))"

definition L_I2F_S :: "'h label" where
  "L_I2F_S cx inst a b c s = Running (set_R s a (i32_to_f (R s b)))"

definition L_I2F_U :: "'h label" where
  "L_I2F_U cx inst a b c s = Running (set_R s a (u32_to_f (R s b)))"

definition L_FSQRT :: "'h label" where
  "L_FSQRT cx inst a b c s = Running (set_R s a (fsqrt (cx_nan cx) (R s b)))"

definition L_FFLOOR :: "'h label" where
  "L_FFLOOR cx inst a b c s = Running (set_R s a (ffloor (cx_nan cx) (R s b)))"

definition L_FCEIL :: "'h label" where
  "L_FCEIL cx inst a b c s = Running (set_R s a (fceil (cx_nan cx) (R s b)))"

definition L_FTRUNC :: "'h label" where
  "L_FTRUNC cx inst a b c s = Running (set_R s a (ftrunc (cx_nan cx) (R s b)))"

section \<open>Memory\<close>

definition L_LDW :: "'h label" where
  "L_LDW cx inst a b c s =
     (let addr = R s b in
      if oob cx addr 4 then Trap CVM_E_BAD_ADDR s
      else load s (unat addr) (\<lambda>v. Running (set_R s a v)))"

definition L_STW :: "'h label" where
  "L_STW cx inst a b c s =
     (let addr = R s b in
      if oob cx addr 4 then Trap CVM_E_BAD_ADDR s
      else store s (unat addr) (R s c) Running)"

definition L_LDB :: "'h label" where
  "L_LDB cx inst a b c s =
     (let addr = R s b in
      if addr \<ge> cx_mem_size cx then Trap CVM_E_BAD_ADDR s
      else case rd8 (heap_of s) (unat addr) of None \<Rightarrow> Crash
        | Some v \<Rightarrow> Running (set_R s a (ucast v)))"

definition L_STB :: "'h label" where
  "L_STB cx inst a b c s =
     (let addr = R s b in
      if addr \<ge> cx_mem_size cx then Trap CVM_E_BAD_ADDR s
      else case wr8 (heap_of s) (unat addr) (ucast (R s c AND 0xFF)) of None \<Rightarrow> Crash
        | Some m \<Rightarrow> Running (set_heap s m))"

definition L_LDH :: "'h label" where
  "L_LDH cx inst a b c s =
     (let addr = R s b in
      if oob cx addr 2 then Trap CVM_E_BAD_ADDR s
      else case rd16 (heap_of s) (unat addr) of None \<Rightarrow> Crash
        | Some v \<Rightarrow> Running (set_R s a (ucast v)))"

definition L_STH :: "'h label" where
  "L_STH cx inst a b c s =
     (let addr = R s b in
      if oob cx addr 2 then Trap CVM_E_BAD_ADDR s
      else case wr16 (heap_of s) (unat addr) (ucast (R s c AND 0xFFFF)) of None \<Rightarrow> Crash
        | Some m \<Rightarrow> Running (set_heap s m))"

definition L_MEMCPY :: "'h label" where
  "L_MEMCPY cx inst a b c s =
     (let dst = R s a; src = R s b; len = R s c in
      if len \<noteq> 0 then
        if oob cx dst len then Trap CVM_E_BAD_ADDR s
        else if oob cx src len then Trap CVM_E_BAD_ADDR s
        else case c_memcpy (heap_of s) (unat dst) (unat src) (unat len) of None \<Rightarrow> Crash
          | Some m \<Rightarrow> Running (set_heap s m)
      else Running s)"

definition L_MEMSET :: "'h label" where
  "L_MEMSET cx inst a b c s =
     (let dst = R s a; len = R s c in
      if len \<noteq> 0 then
        if oob cx dst len then Trap CVM_E_BAD_ADDR s
        else case c_memset (heap_of s) (unat dst) (ucast (R s b AND 0xFF)) (unat len) of
            None \<Rightarrow> Crash
          | Some m \<Rightarrow> Running (set_heap s m)
      else Running s)"

definition L_MEMMOVE :: "'h label" where
  "L_MEMMOVE cx inst a b c s =
     (let dst = R s a; src = R s b; len = R s c in
      if len \<noteq> 0 then
        if oob cx dst len then Trap CVM_E_BAD_ADDR s
        else if oob cx src len then Trap CVM_E_BAD_ADDR s
        else case c_memmove (heap_of s) (unat dst) (unat src) (unat len) of None \<Rightarrow> Crash
          | Some m \<Rightarrow> Running (set_heap s m)
      else Running s)"

section \<open>Control\<close>

text \<open>\<open>pc = (uint32_t)((int32_t)pc + off)\<close>\<close>

definition branch :: "'h vm \<Rightarrow> int \<Rightarrow> 'h outcome" where
  "branch s off =
     (let t = sint (vm_pc s) + off in
      if in_i32 t then Running (set_pc s (word_of_int t)) else Crash)"

text \<open>\<open>off = (inst >> 8) & 0xFFFFFF; if (off & 0x800000) off -= 0x1000000;\<close>\<close>

definition jmp_offset :: "u32 \<Rightarrow> int" where
  "jmp_offset inst =
     (let off = uint (drop_bit 8 inst AND 0xFFFFFF) in
      if off AND 0x800000 \<noteq> 0 then off - 0x1000000 else off)"

definition L_JMP :: "'h label" where
  "L_JMP cx inst a b c s = branch s (jmp_offset inst)"

definition L_BEQ :: "'h label" where
  "L_BEQ cx inst a b c s = (if R s a = R s b then branch s (sint c) else Running s)"

definition L_BNE :: "'h label" where
  "L_BNE cx inst a b c s = (if R s a \<noteq> R s b then branch s (sint c) else Running s)"

definition L_JMPR :: "'h label" where
  "L_JMPR cx inst a b c s =
     (let target = R s a in
      if target \<ge> cx_code_count cx then Trap CVM_E_BAD_PC s else Running (set_pc s target))"

text \<open>A handler gets the image and the register file and may change both.\<close>

definition L_SYSCALL :: "'h label" where
  "L_SYSCALL cx inst a b c s =
     (let id = unat (ucast (drop_bit 16 inst) :: u16); img = vm_img s in
      if id \<ge> unat (img_import_count img) then Trap CVM_E_BAD_SYSCALL s
      else case at (cells (img_import_fns img)) id of None \<Rightarrow> Crash
      | Some None \<Rightarrow> Trap CVM_E_UNLINKED_SYSCALL s
      | Some (Some fn) \<Rightarrow>
        (case at (cells (img_import_userdata img)) id of None \<Rightarrow> Crash
         | Some ud \<Rightarrow>
           (case call_fn (cx_host cx) fn img (vm_R s) ud (vm_host s) of None \<Rightarrow> Crash
            | Some (rc, img', r', h') \<Rightarrow>
              (let s' = s\<lparr>vm_img := img', vm_R := r', vm_host := h'\<rparr> in
               if rc \<noteq> 0 then Trap CVM_E_SYSCALL_TRAP s' else Running s'))))"

text \<open>Pushing the return address and jumping, the common tail of \<open>CALL\<close> and \<open>CALLR\<close>.\<close>

definition do_call :: "'h ctx \<Rightarrow> u32 \<Rightarrow> 'h vm \<Rightarrow> 'h outcome" where
  "do_call cx fid s =
     (if fid = 0 then Trap CVM_E_NULL_FUNC_PTR s
      else if fid \<ge> cx_func_count cx then Trap CVM_E_BAD_FUNC_INDEX s
      else let sp = R s CVM_REG_SP in
        if sp < 4 \<or> sp > cx_mem_size cx then Trap CVM_E_STACK_OVERFLOW s
        else let sp' = sp - 4 in
          store s (unat sp') (vm_pc s) (\<lambda>s1.
            case at (cx_func_offsets cx) (unat fid) of None \<Rightarrow> Crash
            | Some target \<Rightarrow> Running (set_pc (set_R s1 CVM_REG_SP sp') target)))"

definition L_CALL :: "'h label" where
  "L_CALL cx inst a b c s = do_call cx (drop_bit 8 inst AND 0xFFFFFF) s"

definition L_CALLR :: "'h label" where
  "L_CALLR cx inst a b c s = do_call cx (R s a) s"

definition L_RET :: "'h label" where
  "L_RET cx inst a b c s =
     (let sp = R s CVM_REG_SP in
      if oob cx sp 4 then Trap CVM_E_BAD_ADDR s
      else load s (unat sp) (\<lambda>ret_pc.
        let s' = set_R s CVM_REG_SP (sp + 4) in
        if ret_pc = CVM_RET_SENTINEL then Done (R s' 0) s'
        else Running (set_pc s' ret_pc)))"

section \<open>Non-local jumps\<close>

definition L_SETJMP :: "'h label" where
  "L_SETJMP cx inst a b c s =
     (let env = R s b in
      if oob cx env 12 then Trap CVM_E_BAD_ADDR s
      else let e = unat env in
        store s e (vm_pc s) (\<lambda>s1.
        store s1 (e + 4) (R s CVM_REG_SP) (\<lambda>s2.
        store s2 (e + 8) (ucast a) (\<lambda>s3. Running (set_R s3 a 0)))))"

definition L_LONGJMP :: "'h label" where
  "L_LONGJMP cx inst a b c s =
     (let env = R s a in
      if oob cx env 12 then Trap CVM_E_BAD_ADDR s
      else let e = unat env in
        load s e (\<lambda>jpc. load s (e + 4) (\<lambda>jsp. load s (e + 8) (\<lambda>jdst.
          if jpc \<ge> cx_code_count cx then Trap CVM_E_BAD_PC s
          else if jdst \<ge> 256 then Trap CVM_E_BAD_ADDR s
          else let v = R s b in
            Running (set_pc (set_R (set_R s (ucast jdst) (if v \<noteq> 0 then v else 1))
                               CVM_REG_SP jsp) jpc)))))"

text \<open>The tail of \<open>CORO_SWAP\<close> once the resume point is known: save the running context into
  \<open>from\<close>, mark \<open>to\<close> as running, switch.\<close>

definition coro_switch ::
  "u8 \<Rightarrow> u32 \<Rightarrow> u32 \<Rightarrow> u32 \<Rightarrow> u32 \<Rightarrow> u32 \<Rightarrow> u32 \<Rightarrow> 'h vm \<Rightarrow> 'h outcome" where
  "coro_switch a from' to' jstat jpc jsp jdst s =
     (let f = unat from' in
      store s f (vm_pc s) (\<lambda>s1.
      store s1 (f + 4) (R s CVM_REG_SP) (\<lambda>s2.
      store s2 (f + 8) (ucast a) (\<lambda>s3.
      store s3 (f + 12) 2 (\<lambda>s4.
      store s4 (unat to' + 12) 1 (\<lambda>s5.
        let s6 = (if jstat = 0 then set_R s5 (ucast jdst) to' else s5) in
        Running (set_pc (set_R s6 CVM_REG_SP jsp) jpc)))))))"

definition L_CORO_SWAP :: "'h label" where
  "L_CORO_SWAP cx inst a b c s =
     (let from' = R s a; to' = R s b; t = unat to' in
      if oob cx from' 16 then Trap CVM_E_BAD_ADDR s
      else if oob cx to' 16 then Trap CVM_E_BAD_ADDR s
      else if from' = to' then Trap CVM_E_BAD_ADDR s
      else load s (t + 12) (\<lambda>jstat.
        if jstat \<noteq> 0 \<and> jstat \<noteq> 2 then Trap CVM_E_BAD_CORO_STATE s
        else load s t (\<lambda>jpc. load s (t + 4) (\<lambda>jsp. load s (t + 8) (\<lambda>jdst.
          if jstat = 0 then
            if jpc = 0 then Trap CVM_E_NULL_FUNC_PTR s
            else if jpc \<ge> cx_func_count cx then Trap CVM_E_BAD_FUNC_INDEX s
            else (case at (cx_func_offsets cx) (unat jpc) of None \<Rightarrow> Crash
              | Some target \<Rightarrow>
                if jdst \<ge> 256 then Trap CVM_E_BAD_ADDR s
                else if target \<ge> cx_code_count cx then Trap CVM_E_BAD_PC s
                else coro_switch a from' to' jstat target jsp jdst s)
          else if jpc \<ge> cx_code_count cx then Trap CVM_E_BAD_PC s
          else coro_switch a from' to' jstat jpc jsp jdst s)))))"

section \<open>Dispatch\<close>

text \<open>The jump table \<open>jt[256]\<close>; a byte without an entry is \<open>NULL\<close>.\<close>

definition jt :: "(u8 \<times> 'h label) list" where
  "jt =
    [(op_value CVM_OP_HALT, L_HALT), (op_value CVM_OP_MOVI, L_MOVI),
     (op_value CVM_OP_MOV, L_MOV), (op_value CVM_OP_ADD, L_ADD), (op_value CVM_OP_SUB, L_SUB),
     (op_value CVM_OP_MUL, L_MUL), (op_value CVM_OP_LDW, L_LDW), (op_value CVM_OP_STW, L_STW),
     (op_value CVM_OP_JMP, L_JMP), (op_value CVM_OP_BEQ, L_BEQ), (op_value CVM_OP_BNE, L_BNE),
     (op_value CVM_OP_SYSCALL, L_SYSCALL), (op_value CVM_OP_CMP_EQ, L_CMP_EQ),
     (op_value CVM_OP_CMP_NE, L_CMP_NE), (op_value CVM_OP_CMP_LT, L_CMP_LT),
     (op_value CVM_OP_CMP_LE, L_CMP_LE), (op_value CVM_OP_CMP_LTU, L_CMP_LTU),
     (op_value CVM_OP_CMP_LEU, L_CMP_LEU), (op_value CVM_OP_DIV, L_DIV),
     (op_value CVM_OP_DIVU, L_DIVU), (op_value CVM_OP_MOD, L_MOD),
     (op_value CVM_OP_MODU, L_MODU), (op_value CVM_OP_SHL, L_SHL), (op_value CVM_OP_SHR, L_SHR),
     (op_value CVM_OP_SAR, L_SAR), (op_value CVM_OP_AND, L_AND), (op_value CVM_OP_OR, L_OR),
     (op_value CVM_OP_XOR, L_XOR), (op_value CVM_OP_CALL, L_CALL), (op_value CVM_OP_RET, L_RET),
     (op_value CVM_OP_CALLR, L_CALLR), (op_value CVM_OP_LDB, L_LDB),
     (op_value CVM_OP_STB, L_STB), (op_value CVM_OP_LDH, L_LDH), (op_value CVM_OP_STH, L_STH),
     (op_value CVM_OP_MOVHI, L_MOVHI), (op_value CVM_OP_MEMCPY, L_MEMCPY),
     (op_value CVM_OP_MEMSET, L_MEMSET), (op_value CVM_OP_MEMMOVE, L_MEMMOVE),
     (op_value CVM_OP_MULH, L_MULH), (op_value CVM_OP_MULHU, L_MULHU),
     (op_value CVM_OP_FADD, L_FADD), (op_value CVM_OP_FSUB, L_FSUB),
     (op_value CVM_OP_FMUL, L_FMUL), (op_value CVM_OP_FDIV, L_FDIV),
     (op_value CVM_OP_FNEG, L_FNEG), (op_value CVM_OP_FCMP_EQ, L_FCMP_EQ),
     (op_value CVM_OP_FCMP_NE, L_FCMP_NE), (op_value CVM_OP_FCMP_LT, L_FCMP_LT),
     (op_value CVM_OP_FCMP_LE, L_FCMP_LE), (op_value CVM_OP_F2I_S, L_F2I_S),
     (op_value CVM_OP_F2I_U, L_F2I_U), (op_value CVM_OP_I2F_S, L_I2F_S),
     (op_value CVM_OP_I2F_U, L_I2F_U), (op_value CVM_OP_JMPR, L_JMPR),
     (op_value CVM_OP_FSQRT, L_FSQRT), (op_value CVM_OP_QDIV1616, L_QDIV1616),
     (op_value CVM_OP_QDIV6432, L_QDIV6432), (op_value CVM_OP_SETJMP, L_SETJMP),
     (op_value CVM_OP_LONGJMP, L_LONGJMP), (op_value CVM_OP_CORO_SWAP, L_CORO_SWAP),
     (op_value CVM_OP_FFLOOR, L_FFLOOR), (op_value CVM_OP_FCEIL, L_FCEIL),
     (op_value CVM_OP_FTRUNC, L_FTRUNC)]"

definition DISPATCH :: "'h ctx \<Rightarrow> 'h vm \<Rightarrow> 'h outcome" where
  "DISPATCH cx s =
     (if vm_pc s \<ge> cx_code_count cx then Trap CVM_E_BAD_PC s
      else case at (cx_code cx) (unat (vm_pc s)) of None \<Rightarrow> Crash
      | Some inst \<Rightarrow>
        let s' = set_pc s (vm_pc s + 1) in
        (case map_of jt (i_op inst) of None \<Rightarrow> Trap CVM_E_BAD_OPCODE s'
         | Some label \<Rightarrow> label cx inst (i_a inst) (i_b inst) (i_c inst) s'))"

text \<open>Running to the end: \<open>None\<close> is a program that never returns.\<close>

partial_function (option) exec_loop :: "'h ctx \<Rightarrow> 'h vm \<Rightarrow> 'h outcome option" where
  "exec_loop cx s =
     (case DISPATCH cx s of Running s' \<Rightarrow> exec_loop cx s' | r \<Rightarrow> Some r)"

text \<open>The same with a bound on the number of instructions, for evaluation.\<close>

fun exec_fuel :: "nat \<Rightarrow> 'h ctx \<Rightarrow> 'h vm \<Rightarrow> 'h outcome option" where
  "exec_fuel 0 cx s = None"
| "exec_fuel (Suc n) cx s =
     (case DISPATCH cx s of Running s' \<Rightarrow> exec_fuel n cx s' | r \<Rightarrow> Some r)"

section \<open>Entry points\<close>

text \<open>The environment of a run: the host's functions and its NaN payloads.\<close>

record 'h env =
  env_host :: "nat \<Rightarrow> 'h handler"
  env_nan :: nan_choice

definition mk_ctx :: "'h env \<Rightarrow> cvm_image \<Rightarrow> 'h ctx" where
  "mk_ctx e img = \<lparr>cx_code = cells (img_code img), cx_code_count = img_code_count img,
     cx_mem_size = img_mem_size img, cx_func_offsets = cells (img_func_offsets img),
     cx_func_count = img_func_count img, cx_host = env_host e, cx_nan = env_nan e\<rparr>"

text \<open>\<open>memset(R, 0, sizeof(R)); if (args && arg_count > 0) memcpy(R, args, ...)\<close>; fewer than
  \<open>arg_count\<close> words at \<open>args\<close> is an over-read.\<close>

definition init_regs :: "u32 list option \<Rightarrow> u32 \<Rightarrow> regs option" where
  "init_regs args arg_count =
     (case args of None \<Rightarrow> Some (\<lambda>_. 0)
      | Some xs \<Rightarrow>
        if arg_count > 0 \<and> length xs < unat arg_count then None
        else Some (\<lambda>r. if unat r < unat arg_count then xs ! unat r else 0))"

definition init_stack :: "cvm_image \<Rightarrow> 'h vm \<Rightarrow> 'h outcome" where
  "init_stack img s =
     (if img_stack_size img \<ge> 4 then
        (let sp = img_mem_size img - 4 in
         store s (unat sp) CVM_RET_SENTINEL (\<lambda>s'. Running (set_R s' CVM_REG_SP sp)))
      else Running (set_R s CVM_REG_SP (img_mem_size img)))"

text \<open>The state in which the first instruction is dispatched, or the error of a guard.\<close>

definition exec_start ::
  "cvm_image \<Rightarrow> u32 \<Rightarrow> u32 list option \<Rightarrow> u32 \<Rightarrow> 'h \<Rightarrow> cvm_result + 'h outcome" where
  "exec_start img start_pc args arg_count h =
     (if img_code img = NULL \<or> img_code_count img = 0 then Inl CVM_E_BAD_PC
      else if start_pc \<ge> img_code_count img then Inl CVM_E_BAD_ENTRY
      else if arg_count > 256 then Inl CVM_E_BAD_ADDR
      else case init_regs args arg_count of None \<Rightarrow> Inr Crash
      | Some r \<Rightarrow> Inr (init_stack img
          \<lparr>vm_R = r, vm_pc = start_pc, vm_img = img, vm_host = h\<rparr>))"

text \<open>The result of a call into the interpreter: an error code before anything ran, or the last
  outcome (\<open>Done\<close> is \<open>CVM_OK\<close> with the return value, \<open>Trap\<close> an error code).\<close>

definition cvm_exec_at ::
  "'h env \<Rightarrow> cvm_image option \<Rightarrow> u32 \<Rightarrow> u32 list option \<Rightarrow> u32 \<Rightarrow> 'h
    \<Rightarrow> (cvm_result + 'h outcome) option" where
  "cvm_exec_at e img start_pc args arg_count h =
     (case img of None \<Rightarrow> Some (Inl CVM_E_BAD_PC)
      | Some i \<Rightarrow>
        (case exec_start i start_pc args arg_count h of
           Inl err \<Rightarrow> Some (Inl err)
         | Inr (Running s) \<Rightarrow> map_option Inr (exec_loop (mk_ctx e i) s)
         | Inr r \<Rightarrow> Some (Inr r)))"

definition cvm_run_args ::
  "'h env \<Rightarrow> cvm_image option \<Rightarrow> u32 list option \<Rightarrow> u32 \<Rightarrow> 'h
    \<Rightarrow> (cvm_result + 'h outcome) option" where
  "cvm_run_args e img args arg_count h =
     (case img of None \<Rightarrow> Some (Inl CVM_E_BAD_PC)
      | Some i \<Rightarrow> cvm_exec_at e img (img_entry i) args arg_count h)"

definition cvm_run ::
  "'h env \<Rightarrow> cvm_image option \<Rightarrow> 'h \<Rightarrow> (cvm_result + 'h outcome) option" where
  "cvm_run e img h = cvm_run_args e img None 0 h"

definition cvm_call ::
  "'h env \<Rightarrow> cvm_image option \<Rightarrow> u32 \<Rightarrow> u32 list option \<Rightarrow> u32 \<Rightarrow> 'h
    \<Rightarrow> (cvm_result + 'h outcome) option" where
  "cvm_call e img fn_index args arg_count h =
     (case img of None \<Rightarrow> Some (Inl CVM_E_BAD_FUNCS)
      | Some i \<Rightarrow>
        if img_func_offsets i = NULL then Some (Inl CVM_E_BAD_FUNCS)
        else if fn_index = 0 then Some (Inl CVM_E_NULL_FUNC_PTR)
        else if fn_index \<ge> img_func_count i then Some (Inl CVM_E_BAD_FUNC_INDEX)
        else case at (cells (img_func_offsets i)) (unat fn_index) of None \<Rightarrow> Some (Inr Crash)
        | Some start_pc \<Rightarrow> cvm_exec_at e img start_pc args arg_count h)"

end
