(* ===== verification/Switch.thy ===== *)
theory Switch
  imports Exec
begin

text \<open>
  The second interpreter loop of \<open>cvm_exec_at\<close>: the \<open>switch\<close> fallback compiled when the compiler
  has no computed \<open>goto\<close>. It is translated on its own, in groups of cases (\<open>None\<close>: no case of the
  group matches), and proved to take the same steps as the threaded version, so every theorem
  about one build holds for the other.
\<close>

type_synonym 'h cases =
  "u8 \<Rightarrow> 'h ctx \<Rightarrow> u32 \<Rightarrow> u8 \<Rightarrow> u8 \<Rightarrow> u8 \<Rightarrow> 'h vm \<Rightarrow> 'h outcome option"

text \<open>Halting, moves, addition, word access, branches and system calls.\<close>

definition sw_core :: "'h cases" where
  "sw_core op cx inst a b c s =
    (if op = op_value CVM_OP_HALT then
       Some (Done (R s a) s)
     else if op = op_value CVM_OP_MOVI then
       Some (Running (set_R s a (scast (ucast (drop_bit 16 inst) :: u16))))
     else if op = op_value CVM_OP_MOV then
       Some (Running (set_R s a (R s b)))
     else if op = op_value CVM_OP_ADD then
       Some (Running (set_R s a (R s b + R s c)))
     else if op = op_value CVM_OP_SUB then
       Some (Running (set_R s a (R s b - R s c)))
     else if op = op_value CVM_OP_MUL then
       Some (Running (set_R s a (R s b * R s c)))
     else if op = op_value CVM_OP_LDW then
       Some ((let addr = R s b in
            if oob cx addr 4 then Trap CVM_E_BAD_ADDR s
            else load s (unat addr) (\<lambda>v. Running (set_R s a v))))
     else if op = op_value CVM_OP_STW then
       Some ((let addr = R s b in
            if oob cx addr 4 then Trap CVM_E_BAD_ADDR s
            else store s (unat addr) (R s c) Running))
     else if op = op_value CVM_OP_JMP then
       Some (branch s (jmp_offset inst))
     else if op = op_value CVM_OP_BEQ then
       Some ((if R s a = R s b then branch s (sint c) else Running s))
     else if op = op_value CVM_OP_BNE then
       Some ((if R s a \<noteq> R s b then branch s (sint c) else Running s))
     else if op = op_value CVM_OP_SYSCALL then
       Some ((let id = unat (ucast (drop_bit 16 inst) :: u16); img = vm_img s in
            if id \<ge> unat (img_import_count img) then Trap CVM_E_BAD_SYSCALL s
            else case at (cells (img_import_fns img)) id of None \<Rightarrow> Crash
            | Some None \<Rightarrow> Trap CVM_E_UNLINKED_SYSCALL s
            | Some (Some fn) \<Rightarrow>
              (case at (cells (img_import_userdata img)) id of None \<Rightarrow> Crash
               | Some ud \<Rightarrow>
                 (case call_fn (cx_host cx) fn img (vm_R s) ud (vm_host s) of None \<Rightarrow> Crash
                  | Some (rc, img', r', h') \<Rightarrow>
                    (let s' = s\<lparr>vm_img := img', vm_R := r', vm_host := h'\<rparr> in
                     if rc \<noteq> 0 then Trap CVM_E_SYSCALL_TRAP s' else Running s')))))
     else None)"

text \<open>Comparisons, division, shifts and bitwise operations.\<close>

definition sw_alu :: "'h cases" where
  "sw_alu op cx inst a b c s =
    (if op = op_value CVM_OP_CMP_EQ then
       Some (Running (set_R s a (bool32 (R s b = R s c))))
     else if op = op_value CVM_OP_CMP_NE then
       Some (Running (set_R s a (bool32 (R s b \<noteq> R s c))))
     else if op = op_value CVM_OP_CMP_LT then
       Some (Running (set_R s a (bool32 (sint (R s b) < sint (R s c)))))
     else if op = op_value CVM_OP_CMP_LE then
       Some (Running (set_R s a (bool32 (sint (R s b) \<le> sint (R s c)))))
     else if op = op_value CVM_OP_CMP_LTU then
       Some (Running (set_R s a (bool32 (R s b < R s c))))
     else if op = op_value CVM_OP_CMP_LEU then
       Some (Running (set_R s a (bool32 (R s b \<le> R s c))))
     else if op = op_value CVM_OP_DIV then
       Some ((if R s c = 0 then Trap CVM_E_DIV_BY_ZERO s
            else if R s b = 0x80000000 \<and> R s c = - 1 then Running (set_R s a 0x80000000)
            else let q = sint (R s b) sdiv sint (R s c) in
              if in_i32 q then Running (set_R s a (word_of_int q)) else Crash))
     else if op = op_value CVM_OP_DIVU then
       Some ((if R s c = 0 then Trap CVM_E_DIV_BY_ZERO s else Running (set_R s a (R s b div R s c))))
     else if op = op_value CVM_OP_MOD then
       Some ((if R s c = 0 then Trap CVM_E_DIV_BY_ZERO s
            else if R s b = 0x80000000 \<and> R s c = - 1 then Running (set_R s a 0)
            else if in_i32 (sint (R s b) sdiv sint (R s c))
            then Running (set_R s a (word_of_int (sint (R s b) smod sint (R s c)))) else Crash))
     else if op = op_value CVM_OP_MODU then
       Some ((if R s c = 0 then Trap CVM_E_DIV_BY_ZERO s else Running (set_R s a (R s b mod R s c))))
     else if op = op_value CVM_OP_SHL then
       Some (Running (set_R s a (push_bit (unat (R s c AND 31)) (R s b))))
     else if op = op_value CVM_OP_SHR then
       Some (Running (set_R s a (drop_bit (unat (R s c AND 31)) (R s b))))
     else if op = op_value CVM_OP_SAR then
       Some (Running (set_R s a (signed_drop_bit (unat (R s c AND 31)) (R s b))))
     else if op = op_value CVM_OP_AND then
       Some (Running (set_R s a (R s b AND R s c)))
     else if op = op_value CVM_OP_OR then
       Some (Running (set_R s a (R s b OR R s c)))
     else if op = op_value CVM_OP_XOR then
       Some (Running (set_R s a (R s b XOR R s c)))
     else None)"

text \<open>Calls, returns and access to bytes and half words.\<close>

definition sw_call :: "'h cases" where
  "sw_call op cx inst a b c s =
    (if op = op_value CVM_OP_CALL then
       Some (do_call cx (drop_bit 8 inst AND 0xFFFFFF) s)
     else if op = op_value CVM_OP_RET then
       Some ((let sp = R s CVM_REG_SP in
            if oob cx sp 4 then Trap CVM_E_BAD_ADDR s
            else load s (unat sp) (\<lambda>ret_pc.
              let s' = set_R s CVM_REG_SP (sp + 4) in
              if ret_pc = CVM_RET_SENTINEL then Done (R s' 0) s'
              else Running (set_pc s' ret_pc))))
     else if op = op_value CVM_OP_CALLR then
       Some (do_call cx (R s a) s)
     else if op = op_value CVM_OP_LDB then
       Some ((let addr = R s b in
            if addr \<ge> cx_mem_size cx then Trap CVM_E_BAD_ADDR s
            else case rd8 (heap_of s) (unat addr) of None \<Rightarrow> Crash
              | Some v \<Rightarrow> Running (set_R s a (ucast v))))
     else if op = op_value CVM_OP_STB then
       Some ((let addr = R s b in
            if addr \<ge> cx_mem_size cx then Trap CVM_E_BAD_ADDR s
            else case wr8 (heap_of s) (unat addr) (ucast (R s c AND 0xFF)) of None \<Rightarrow> Crash
              | Some m \<Rightarrow> Running (set_heap s m)))
     else if op = op_value CVM_OP_LDH then
       Some ((let addr = R s b in
            if oob cx addr 2 then Trap CVM_E_BAD_ADDR s
            else case rd16 (heap_of s) (unat addr) of None \<Rightarrow> Crash
              | Some v \<Rightarrow> Running (set_R s a (ucast v))))
     else if op = op_value CVM_OP_STH then
       Some ((let addr = R s b in
            if oob cx addr 2 then Trap CVM_E_BAD_ADDR s
            else case wr16 (heap_of s) (unat addr) (ucast (R s c AND 0xFFFF)) of None \<Rightarrow> Crash
              | Some m \<Rightarrow> Running (set_heap s m)))
     else None)"

text \<open>Upper halves, block operations and wide multiplication.\<close>

definition sw_block :: "'h cases" where
  "sw_block op cx inst a b c s =
    (if op = op_value CVM_OP_MOVHI then
       Some ((let hi = drop_bit 16 inst AND 0xFFFF in
            Running (set_R s a (push_bit 16 hi OR (R s a AND 0xFFFF)))))
     else if op = op_value CVM_OP_MEMCPY then
       Some ((let dst = R s a; src = R s b; len = R s c in
            if len \<noteq> 0 then
              if oob cx dst len then Trap CVM_E_BAD_ADDR s
              else if oob cx src len then Trap CVM_E_BAD_ADDR s
              else case c_memcpy (heap_of s) (unat dst) (unat src) (unat len) of None \<Rightarrow> Crash
                | Some m \<Rightarrow> Running (set_heap s m)
            else Running s))
     else if op = op_value CVM_OP_MEMSET then
       Some ((let dst = R s a; len = R s c in
            if len \<noteq> 0 then
              if oob cx dst len then Trap CVM_E_BAD_ADDR s
              else case c_memset (heap_of s) (unat dst) (ucast (R s b AND 0xFF)) (unat len) of
                  None \<Rightarrow> Crash
                | Some m \<Rightarrow> Running (set_heap s m)
            else Running s))
     else if op = op_value CVM_OP_MEMMOVE then
       Some ((let dst = R s a; src = R s b; len = R s c in
            if len \<noteq> 0 then
              if oob cx dst len then Trap CVM_E_BAD_ADDR s
              else if oob cx src len then Trap CVM_E_BAD_ADDR s
              else case c_memmove (heap_of s) (unat dst) (unat src) (unat len) of None \<Rightarrow> Crash
                | Some m \<Rightarrow> Running (set_heap s m)
            else Running s))
     else if op = op_value CVM_OP_MULH then
       Some ((let p = sint (R s b) * sint (R s c) in
            if - (2 ^ 63) \<le> p \<and> p < 2 ^ 63 then Running (set_R s a (word_of_int (p div 2 ^ 32)))
            else Crash))
     else if op = op_value CVM_OP_MULHU then
       Some (Running (set_R s a (ucast (drop_bit 32 ((ucast (R s b) :: u64) * ucast (R s c))))))
     else None)"

text \<open>Floating point and the indirect jump.\<close>

definition sw_float :: "'h cases" where
  "sw_float op cx inst a b c s =
    (if op = op_value CVM_OP_FADD then
       Some (Running (set_R s a (fadd (cx_nan cx) (R s b) (R s c))))
     else if op = op_value CVM_OP_FSUB then
       Some (Running (set_R s a (fsub (cx_nan cx) (R s b) (R s c))))
     else if op = op_value CVM_OP_FMUL then
       Some (Running (set_R s a (fmul (cx_nan cx) (R s b) (R s c))))
     else if op = op_value CVM_OP_FDIV then
       Some (Running (set_R s a (fdiv (cx_nan cx) (R s b) (R s c))))
     else if op = op_value CVM_OP_FNEG then
       Some (Running (set_R s a (R s b XOR 0x80000000)))
     else if op = op_value CVM_OP_FCMP_EQ then
       Some (Running (set_R s a (bool32 (feq (R s b) (R s c)))))
     else if op = op_value CVM_OP_FCMP_NE then
       Some (Running (set_R s a (bool32 (\<not> feq (R s b) (R s c)))))
     else if op = op_value CVM_OP_FCMP_LT then
       Some (Running (set_R s a (bool32 (flt (R s b) (R s c)))))
     else if op = op_value CVM_OP_FCMP_LE then
       Some (Running (set_R s a (bool32 (fle (R s b) (R s c)))))
     else if op = op_value CVM_OP_F2I_S then
       Some ((case cvm_f32_to_i32_sat (R s b) of None \<Rightarrow> Crash | Some v \<Rightarrow> Running (set_R s a v)))
     else if op = op_value CVM_OP_F2I_U then
       Some ((case cvm_f32_to_u32_sat (R s b) of None \<Rightarrow> Crash | Some v \<Rightarrow> Running (set_R s a v)))
     else if op = op_value CVM_OP_I2F_S then
       Some (Running (set_R s a (i32_to_f (R s b))))
     else if op = op_value CVM_OP_I2F_U then
       Some (Running (set_R s a (u32_to_f (R s b))))
     else if op = op_value CVM_OP_JMPR then
       Some ((let target = R s a in
            if target \<ge> cx_code_count cx then Trap CVM_E_BAD_PC s else Running (set_pc s target)))
     else if op = op_value CVM_OP_FSQRT then
       Some (Running (set_R s a (fsqrt (cx_nan cx) (R s b))))
     else if op = op_value CVM_OP_FFLOOR then
       Some (Running (set_R s a (ffloor (cx_nan cx) (R s b))))
     else if op = op_value CVM_OP_FCEIL then
       Some (Running (set_R s a (fceil (cx_nan cx) (R s b))))
     else if op = op_value CVM_OP_FTRUNC then
       Some (Running (set_R s a (ftrunc (cx_nan cx) (R s b))))
     else None)"

text \<open>Fixed-point division, non-local jumps and coroutines.\<close>

definition sw_jump :: "'h cases" where
  "sw_jump op cx inst a b c s =
    (if op = op_value CVM_OP_QDIV1616 then
       Some ((if R s c = 0 then Trap CVM_E_DIV_BY_ZERO s
            else Running (set_R s a (ucast (push_bit 16 (ucast (R s b) :: u64) div ucast (R s c))))))
     else if op = op_value CVM_OP_QDIV6432 then
       Some ((if R s c = 0 then Trap CVM_E_DIV_BY_ZERO s
            else Running (set_R s a
              (ucast ((push_bit 32 (ucast (R s a) :: u64) OR ucast (R s b)) div ucast (R s c))))))
     else if op = op_value CVM_OP_SETJMP then
       Some ((let env = R s b in
            if oob cx env 12 then Trap CVM_E_BAD_ADDR s
            else let e = unat env in
              store s e (vm_pc s) (\<lambda>s1.
              store s1 (e + 4) (R s CVM_REG_SP) (\<lambda>s2.
              store s2 (e + 8) (ucast a) (\<lambda>s3. Running (set_R s3 a 0))))))
     else if op = op_value CVM_OP_LONGJMP then
       Some ((let env = R s a in
            if oob cx env 12 then Trap CVM_E_BAD_ADDR s
            else let e = unat env in
              load s e (\<lambda>jpc. load s (e + 4) (\<lambda>jsp. load s (e + 8) (\<lambda>jdst.
                if jpc \<ge> cx_code_count cx then Trap CVM_E_BAD_PC s
                else if jdst \<ge> 256 then Trap CVM_E_BAD_ADDR s
                else let v = R s b in
                  Running (set_pc (set_R (set_R s (ucast jdst) (if v \<noteq> 0 then v else 1))
                                     CVM_REG_SP jsp) jpc))))))
     else if op = op_value CVM_OP_CORO_SWAP then
       Some ((let from' = R s a; to' = R s b; t = unat to' in
            if oob cx from' 16 then Trap CVM_E_BAD_ADDR s
            else if oob cx to' 16 then Trap CVM_E_BAD_ADDR s
            else if from' = to' then Trap CVM_E_BAD_ADDR s
            else load s (t + 12) (\<lambda>jstat.
              if jstat \<noteq> 0 \<and> jstat \<noteq> 2 then Trap CVM_E_BAD_CORO_STATE s
              else load s t (\<lambda>jpc. load s (t + 4) (\<lambda>jsp. load s (t + 8) (\<lambda>jdst.
                if jstat = 0 then
                  if jpc = 0 then Trap CVM_E_NULL_FUNC_PTR s
                  else if jpc \<ge> cx_func_count cx then Trap CVM_E_BAD_FUNC_INDEX s
                  else (case at (cx_func_offsets cx) (unat jpc) of None \<Rightarrow> Crash
                    | Some target \<Rightarrow>
                      if jdst \<ge> 256 then Trap CVM_E_BAD_ADDR s
                      else if target \<ge> cx_code_count cx then Trap CVM_E_BAD_PC s
                      else coro_switch a from' to' jstat target jsp jdst s)
                else if jpc \<ge> cx_code_count cx then Trap CVM_E_BAD_PC s
                else coro_switch a from' to' jstat jpc jsp jdst s))))))
     else None)"

text \<open>The chain of groups, one after the other.\<close>

definition switch_case :: "'h cases" where
  "switch_case op cx inst a b c s =
     (case sw_core op cx inst a b c s of Some r \<Rightarrow> Some r | None \<Rightarrow>
      case sw_alu op cx inst a b c s of Some r \<Rightarrow> Some r | None \<Rightarrow>
      case sw_call op cx inst a b c s of Some r \<Rightarrow> Some r | None \<Rightarrow>
      case sw_block op cx inst a b c s of Some r \<Rightarrow> Some r | None \<Rightarrow>
      case sw_float op cx inst a b c s of Some r \<Rightarrow> Some r | None \<Rightarrow>
      sw_jump op cx inst a b c s)"

text \<open>The body of \<open>for (;;)\<close>.\<close>

definition switch_step :: "'h ctx \<Rightarrow> 'h vm \<Rightarrow> 'h outcome" where
  "switch_step cx s =
     (if vm_pc s \<ge> cx_code_count cx then Trap CVM_E_BAD_PC s
      else case at (cx_code cx) (unat (vm_pc s)) of None \<Rightarrow> Crash
      | Some inst \<Rightarrow>
        let s' = set_pc s (vm_pc s + 1) in
        (case switch_case (i_op inst) cx inst (i_a inst) (i_b inst) (i_c inst) s' of
           None \<Rightarrow> Trap CVM_E_BAD_OPCODE s' | Some r \<Rightarrow> r))"

partial_function (option) switch_loop :: "'h ctx \<Rightarrow> 'h vm \<Rightarrow> 'h outcome option" where
  "switch_loop cx s =
     (case switch_step cx s of Running s' \<Rightarrow> switch_loop cx s' | r \<Rightarrow> Some r)"

lemma sw_core_label:
  "sw_core (op_value CVM_OP_HALT) cx inst a b c s = Some (L_HALT cx inst a b c s)"
  "sw_core (op_value CVM_OP_MOVI) cx inst a b c s = Some (L_MOVI cx inst a b c s)"
  "sw_core (op_value CVM_OP_MOV) cx inst a b c s = Some (L_MOV cx inst a b c s)"
  "sw_core (op_value CVM_OP_ADD) cx inst a b c s = Some (L_ADD cx inst a b c s)"
  "sw_core (op_value CVM_OP_SUB) cx inst a b c s = Some (L_SUB cx inst a b c s)"
  "sw_core (op_value CVM_OP_MUL) cx inst a b c s = Some (L_MUL cx inst a b c s)"
  "sw_core (op_value CVM_OP_LDW) cx inst a b c s = Some (L_LDW cx inst a b c s)"
  "sw_core (op_value CVM_OP_STW) cx inst a b c s = Some (L_STW cx inst a b c s)"
  "sw_core (op_value CVM_OP_JMP) cx inst a b c s = Some (L_JMP cx inst a b c s)"
  "sw_core (op_value CVM_OP_BEQ) cx inst a b c s = Some (L_BEQ cx inst a b c s)"
  "sw_core (op_value CVM_OP_BNE) cx inst a b c s = Some (L_BNE cx inst a b c s)"
  "sw_core (op_value CVM_OP_SYSCALL) cx inst a b c s = Some (L_SYSCALL cx inst a b c s)"
  by (simp_all only: sw_core_def op_value_inj cvm_opcode.distinct if_True if_False simp_thms
      L_HALT_def L_MOVI_def L_MOV_def L_ADD_def L_SUB_def L_MUL_def L_LDW_def L_STW_def
      L_JMP_def L_BEQ_def L_BNE_def L_SYSCALL_def)

lemma sw_alu_label:
  "sw_alu (op_value CVM_OP_CMP_EQ) cx inst a b c s = Some (L_CMP_EQ cx inst a b c s)"
  "sw_alu (op_value CVM_OP_CMP_NE) cx inst a b c s = Some (L_CMP_NE cx inst a b c s)"
  "sw_alu (op_value CVM_OP_CMP_LT) cx inst a b c s = Some (L_CMP_LT cx inst a b c s)"
  "sw_alu (op_value CVM_OP_CMP_LE) cx inst a b c s = Some (L_CMP_LE cx inst a b c s)"
  "sw_alu (op_value CVM_OP_CMP_LTU) cx inst a b c s = Some (L_CMP_LTU cx inst a b c s)"
  "sw_alu (op_value CVM_OP_CMP_LEU) cx inst a b c s = Some (L_CMP_LEU cx inst a b c s)"
  "sw_alu (op_value CVM_OP_DIV) cx inst a b c s = Some (L_DIV cx inst a b c s)"
  "sw_alu (op_value CVM_OP_DIVU) cx inst a b c s = Some (L_DIVU cx inst a b c s)"
  "sw_alu (op_value CVM_OP_MOD) cx inst a b c s = Some (L_MOD cx inst a b c s)"
  "sw_alu (op_value CVM_OP_MODU) cx inst a b c s = Some (L_MODU cx inst a b c s)"
  "sw_alu (op_value CVM_OP_SHL) cx inst a b c s = Some (L_SHL cx inst a b c s)"
  "sw_alu (op_value CVM_OP_SHR) cx inst a b c s = Some (L_SHR cx inst a b c s)"
  "sw_alu (op_value CVM_OP_SAR) cx inst a b c s = Some (L_SAR cx inst a b c s)"
  "sw_alu (op_value CVM_OP_AND) cx inst a b c s = Some (L_AND cx inst a b c s)"
  "sw_alu (op_value CVM_OP_OR) cx inst a b c s = Some (L_OR cx inst a b c s)"
  "sw_alu (op_value CVM_OP_XOR) cx inst a b c s = Some (L_XOR cx inst a b c s)"
  by (simp_all only: sw_alu_def op_value_inj cvm_opcode.distinct if_True if_False simp_thms
      L_CMP_EQ_def L_CMP_NE_def L_CMP_LT_def L_CMP_LE_def L_CMP_LTU_def L_CMP_LEU_def L_DIV_def
      L_DIVU_def L_MOD_def L_MODU_def L_SHL_def L_SHR_def L_SAR_def L_AND_def L_OR_def L_XOR_def)

lemma sw_call_label:
  "sw_call (op_value CVM_OP_CALL) cx inst a b c s = Some (L_CALL cx inst a b c s)"
  "sw_call (op_value CVM_OP_RET) cx inst a b c s = Some (L_RET cx inst a b c s)"
  "sw_call (op_value CVM_OP_CALLR) cx inst a b c s = Some (L_CALLR cx inst a b c s)"
  "sw_call (op_value CVM_OP_LDB) cx inst a b c s = Some (L_LDB cx inst a b c s)"
  "sw_call (op_value CVM_OP_STB) cx inst a b c s = Some (L_STB cx inst a b c s)"
  "sw_call (op_value CVM_OP_LDH) cx inst a b c s = Some (L_LDH cx inst a b c s)"
  "sw_call (op_value CVM_OP_STH) cx inst a b c s = Some (L_STH cx inst a b c s)"
  by (simp_all only: sw_call_def op_value_inj cvm_opcode.distinct if_True if_False simp_thms
      L_CALL_def L_RET_def L_CALLR_def L_LDB_def L_STB_def L_LDH_def L_STH_def)

lemma sw_block_label:
  "sw_block (op_value CVM_OP_MOVHI) cx inst a b c s = Some (L_MOVHI cx inst a b c s)"
  "sw_block (op_value CVM_OP_MEMCPY) cx inst a b c s = Some (L_MEMCPY cx inst a b c s)"
  "sw_block (op_value CVM_OP_MEMSET) cx inst a b c s = Some (L_MEMSET cx inst a b c s)"
  "sw_block (op_value CVM_OP_MEMMOVE) cx inst a b c s = Some (L_MEMMOVE cx inst a b c s)"
  "sw_block (op_value CVM_OP_MULH) cx inst a b c s = Some (L_MULH cx inst a b c s)"
  "sw_block (op_value CVM_OP_MULHU) cx inst a b c s = Some (L_MULHU cx inst a b c s)"
  by (simp_all only: sw_block_def op_value_inj cvm_opcode.distinct if_True if_False simp_thms
      L_MOVHI_def L_MEMCPY_def L_MEMSET_def L_MEMMOVE_def L_MULH_def L_MULHU_def)

lemma sw_float_label:
  "sw_float (op_value CVM_OP_FADD) cx inst a b c s = Some (L_FADD cx inst a b c s)"
  "sw_float (op_value CVM_OP_FSUB) cx inst a b c s = Some (L_FSUB cx inst a b c s)"
  "sw_float (op_value CVM_OP_FMUL) cx inst a b c s = Some (L_FMUL cx inst a b c s)"
  "sw_float (op_value CVM_OP_FDIV) cx inst a b c s = Some (L_FDIV cx inst a b c s)"
  "sw_float (op_value CVM_OP_FNEG) cx inst a b c s = Some (L_FNEG cx inst a b c s)"
  "sw_float (op_value CVM_OP_FCMP_EQ) cx inst a b c s = Some (L_FCMP_EQ cx inst a b c s)"
  "sw_float (op_value CVM_OP_FCMP_NE) cx inst a b c s = Some (L_FCMP_NE cx inst a b c s)"
  "sw_float (op_value CVM_OP_FCMP_LT) cx inst a b c s = Some (L_FCMP_LT cx inst a b c s)"
  "sw_float (op_value CVM_OP_FCMP_LE) cx inst a b c s = Some (L_FCMP_LE cx inst a b c s)"
  "sw_float (op_value CVM_OP_F2I_S) cx inst a b c s = Some (L_F2I_S cx inst a b c s)"
  "sw_float (op_value CVM_OP_F2I_U) cx inst a b c s = Some (L_F2I_U cx inst a b c s)"
  "sw_float (op_value CVM_OP_I2F_S) cx inst a b c s = Some (L_I2F_S cx inst a b c s)"
  "sw_float (op_value CVM_OP_I2F_U) cx inst a b c s = Some (L_I2F_U cx inst a b c s)"
  "sw_float (op_value CVM_OP_JMPR) cx inst a b c s = Some (L_JMPR cx inst a b c s)"
  "sw_float (op_value CVM_OP_FSQRT) cx inst a b c s = Some (L_FSQRT cx inst a b c s)"
  "sw_float (op_value CVM_OP_FFLOOR) cx inst a b c s = Some (L_FFLOOR cx inst a b c s)"
  "sw_float (op_value CVM_OP_FCEIL) cx inst a b c s = Some (L_FCEIL cx inst a b c s)"
  "sw_float (op_value CVM_OP_FTRUNC) cx inst a b c s = Some (L_FTRUNC cx inst a b c s)"
  by (simp_all only: sw_float_def op_value_inj cvm_opcode.distinct if_True if_False simp_thms
      L_FADD_def L_FSUB_def L_FMUL_def L_FDIV_def L_FNEG_def L_FCMP_EQ_def L_FCMP_NE_def
      L_FCMP_LT_def L_FCMP_LE_def L_F2I_S_def L_F2I_U_def L_I2F_S_def L_I2F_U_def L_JMPR_def
      L_FSQRT_def L_FFLOOR_def L_FCEIL_def L_FTRUNC_def)

lemma sw_jump_label:
  "sw_jump (op_value CVM_OP_QDIV1616) cx inst a b c s = Some (L_QDIV1616 cx inst a b c s)"
  "sw_jump (op_value CVM_OP_QDIV6432) cx inst a b c s = Some (L_QDIV6432 cx inst a b c s)"
  "sw_jump (op_value CVM_OP_SETJMP) cx inst a b c s = Some (L_SETJMP cx inst a b c s)"
  "sw_jump (op_value CVM_OP_LONGJMP) cx inst a b c s = Some (L_LONGJMP cx inst a b c s)"
  "sw_jump (op_value CVM_OP_CORO_SWAP) cx inst a b c s = Some (L_CORO_SWAP cx inst a b c s)"
  by (simp_all only: sw_jump_def op_value_inj cvm_opcode.distinct if_True if_False simp_thms
      L_QDIV1616_def L_QDIV6432_def L_SETJMP_def L_LONGJMP_def L_CORO_SWAP_def)

text \<open>The entries of the jump table.\<close>

lemma jt_label:
  "map_of jt (op_value CVM_OP_HALT) = Some L_HALT"
  "map_of jt (op_value CVM_OP_MOVI) = Some L_MOVI"
  "map_of jt (op_value CVM_OP_MOV) = Some L_MOV"
  "map_of jt (op_value CVM_OP_ADD) = Some L_ADD"
  "map_of jt (op_value CVM_OP_SUB) = Some L_SUB"
  "map_of jt (op_value CVM_OP_MUL) = Some L_MUL"
  "map_of jt (op_value CVM_OP_LDW) = Some L_LDW"
  "map_of jt (op_value CVM_OP_STW) = Some L_STW"
  "map_of jt (op_value CVM_OP_JMP) = Some L_JMP"
  "map_of jt (op_value CVM_OP_BEQ) = Some L_BEQ"
  "map_of jt (op_value CVM_OP_BNE) = Some L_BNE"
  "map_of jt (op_value CVM_OP_SYSCALL) = Some L_SYSCALL"
  "map_of jt (op_value CVM_OP_CMP_EQ) = Some L_CMP_EQ"
  "map_of jt (op_value CVM_OP_CMP_NE) = Some L_CMP_NE"
  "map_of jt (op_value CVM_OP_CMP_LT) = Some L_CMP_LT"
  "map_of jt (op_value CVM_OP_CMP_LE) = Some L_CMP_LE"
  "map_of jt (op_value CVM_OP_CMP_LTU) = Some L_CMP_LTU"
  "map_of jt (op_value CVM_OP_CMP_LEU) = Some L_CMP_LEU"
  "map_of jt (op_value CVM_OP_DIV) = Some L_DIV"
  "map_of jt (op_value CVM_OP_DIVU) = Some L_DIVU"
  "map_of jt (op_value CVM_OP_MOD) = Some L_MOD"
  "map_of jt (op_value CVM_OP_MODU) = Some L_MODU"
  "map_of jt (op_value CVM_OP_SHL) = Some L_SHL"
  "map_of jt (op_value CVM_OP_SHR) = Some L_SHR"
  "map_of jt (op_value CVM_OP_SAR) = Some L_SAR"
  "map_of jt (op_value CVM_OP_AND) = Some L_AND"
  "map_of jt (op_value CVM_OP_OR) = Some L_OR"
  "map_of jt (op_value CVM_OP_XOR) = Some L_XOR"
  "map_of jt (op_value CVM_OP_CALL) = Some L_CALL"
  "map_of jt (op_value CVM_OP_RET) = Some L_RET"
  "map_of jt (op_value CVM_OP_CALLR) = Some L_CALLR"
  "map_of jt (op_value CVM_OP_LDB) = Some L_LDB"
  "map_of jt (op_value CVM_OP_STB) = Some L_STB"
  "map_of jt (op_value CVM_OP_LDH) = Some L_LDH"
  "map_of jt (op_value CVM_OP_STH) = Some L_STH"
  "map_of jt (op_value CVM_OP_MOVHI) = Some L_MOVHI"
  "map_of jt (op_value CVM_OP_MEMCPY) = Some L_MEMCPY"
  "map_of jt (op_value CVM_OP_MEMSET) = Some L_MEMSET"
  "map_of jt (op_value CVM_OP_MEMMOVE) = Some L_MEMMOVE"
  "map_of jt (op_value CVM_OP_MULH) = Some L_MULH"
  "map_of jt (op_value CVM_OP_MULHU) = Some L_MULHU"
  "map_of jt (op_value CVM_OP_FADD) = Some L_FADD"
  "map_of jt (op_value CVM_OP_FSUB) = Some L_FSUB"
  "map_of jt (op_value CVM_OP_FMUL) = Some L_FMUL"
  "map_of jt (op_value CVM_OP_FDIV) = Some L_FDIV"
  "map_of jt (op_value CVM_OP_FNEG) = Some L_FNEG"
  "map_of jt (op_value CVM_OP_FCMP_EQ) = Some L_FCMP_EQ"
  "map_of jt (op_value CVM_OP_FCMP_NE) = Some L_FCMP_NE"
  "map_of jt (op_value CVM_OP_FCMP_LT) = Some L_FCMP_LT"
  "map_of jt (op_value CVM_OP_FCMP_LE) = Some L_FCMP_LE"
  "map_of jt (op_value CVM_OP_F2I_S) = Some L_F2I_S"
  "map_of jt (op_value CVM_OP_F2I_U) = Some L_F2I_U"
  "map_of jt (op_value CVM_OP_I2F_S) = Some L_I2F_S"
  "map_of jt (op_value CVM_OP_I2F_U) = Some L_I2F_U"
  "map_of jt (op_value CVM_OP_JMPR) = Some L_JMPR"
  "map_of jt (op_value CVM_OP_FSQRT) = Some L_FSQRT"
  "map_of jt (op_value CVM_OP_QDIV1616) = Some L_QDIV1616"
  "map_of jt (op_value CVM_OP_QDIV6432) = Some L_QDIV6432"
  "map_of jt (op_value CVM_OP_SETJMP) = Some L_SETJMP"
  "map_of jt (op_value CVM_OP_LONGJMP) = Some L_LONGJMP"
  "map_of jt (op_value CVM_OP_CORO_SWAP) = Some L_CORO_SWAP"
  "map_of jt (op_value CVM_OP_FFLOOR) = Some L_FFLOOR"
  "map_of jt (op_value CVM_OP_FCEIL) = Some L_FCEIL"
  "map_of jt (op_value CVM_OP_FTRUNC) = Some L_FTRUNC"
  by (simp_all only: jt_def map_of_Cons_code op_value_inj cvm_opcode.distinct if_True if_False
      simp_thms)

lemma decode_None_neq: "decode_op b = None \<Longrightarrow> b \<noteq> op_value op"
  by auto

lemma jt_opcodes: "list_all (\<lambda>p. decode_op (fst p) \<noteq> None) jt"
  by (simp add: jt_def del: op_value.simps)

lemma jt_None: "decode_op b = None \<Longrightarrow> map_of jt b = None"
  using jt_opcodes by (auto simp: map_of_eq_None_iff list_all_iff)

lemma sw_core_None:
  "decode_op v = None \<Longrightarrow> sw_core v cx inst a b c s = None"
  "op \<notin> {CVM_OP_HALT, CVM_OP_MOVI, CVM_OP_MOV, CVM_OP_ADD, CVM_OP_SUB, CVM_OP_MUL,
      CVM_OP_LDW, CVM_OP_STW, CVM_OP_JMP, CVM_OP_BEQ, CVM_OP_BNE, CVM_OP_SYSCALL} \<Longrightarrow>
    sw_core (op_value op) cx inst a b c s = None"
  by (simp_all only: sw_core_def decode_None_neq if_False op_value_inj insert_iff empty_iff
      de_Morgan_disj simp_thms)

lemma sw_alu_None:
  "decode_op v = None \<Longrightarrow> sw_alu v cx inst a b c s = None"
  "op \<notin> {CVM_OP_CMP_EQ, CVM_OP_CMP_NE, CVM_OP_CMP_LT, CVM_OP_CMP_LE, CVM_OP_CMP_LTU,
      CVM_OP_CMP_LEU, CVM_OP_DIV, CVM_OP_DIVU, CVM_OP_MOD, CVM_OP_MODU, CVM_OP_SHL,
      CVM_OP_SHR, CVM_OP_SAR, CVM_OP_AND, CVM_OP_OR, CVM_OP_XOR} \<Longrightarrow>
    sw_alu (op_value op) cx inst a b c s = None"
  by (simp_all only: sw_alu_def decode_None_neq if_False op_value_inj insert_iff empty_iff
      de_Morgan_disj simp_thms)

lemma sw_call_None:
  "decode_op v = None \<Longrightarrow> sw_call v cx inst a b c s = None"
  "op \<notin> {CVM_OP_CALL, CVM_OP_RET, CVM_OP_CALLR, CVM_OP_LDB, CVM_OP_STB, CVM_OP_LDH,
      CVM_OP_STH} \<Longrightarrow>
    sw_call (op_value op) cx inst a b c s = None"
  by (simp_all only: sw_call_def decode_None_neq if_False op_value_inj insert_iff empty_iff
      de_Morgan_disj simp_thms)

lemma sw_block_None:
  "decode_op v = None \<Longrightarrow> sw_block v cx inst a b c s = None"
  "op \<notin> {CVM_OP_MOVHI, CVM_OP_MEMCPY, CVM_OP_MEMSET, CVM_OP_MEMMOVE, CVM_OP_MULH,
      CVM_OP_MULHU} \<Longrightarrow>
    sw_block (op_value op) cx inst a b c s = None"
  by (simp_all only: sw_block_def decode_None_neq if_False op_value_inj insert_iff empty_iff
      de_Morgan_disj simp_thms)

lemma sw_float_None:
  "decode_op v = None \<Longrightarrow> sw_float v cx inst a b c s = None"
  "op \<notin> {CVM_OP_FADD, CVM_OP_FSUB, CVM_OP_FMUL, CVM_OP_FDIV, CVM_OP_FNEG, CVM_OP_FCMP_EQ,
      CVM_OP_FCMP_NE, CVM_OP_FCMP_LT, CVM_OP_FCMP_LE, CVM_OP_F2I_S, CVM_OP_F2I_U,
      CVM_OP_I2F_S, CVM_OP_I2F_U, CVM_OP_JMPR, CVM_OP_FSQRT, CVM_OP_FFLOOR, CVM_OP_FCEIL,
      CVM_OP_FTRUNC} \<Longrightarrow>
    sw_float (op_value op) cx inst a b c s = None"
  by (simp_all only: sw_float_def decode_None_neq if_False op_value_inj insert_iff empty_iff
      de_Morgan_disj simp_thms)

lemma sw_jump_None:
  "decode_op v = None \<Longrightarrow> sw_jump v cx inst a b c s = None"
  "op \<notin> {CVM_OP_QDIV1616, CVM_OP_QDIV6432, CVM_OP_SETJMP, CVM_OP_LONGJMP, CVM_OP_CORO_SWAP} \<Longrightarrow>
    sw_jump (op_value op) cx inst a b c s = None"
  by (simp_all only: sw_jump_def decode_None_neq if_False op_value_inj insert_iff empty_iff
      de_Morgan_disj simp_thms)

lemmas sw_None = sw_core_None sw_alu_None sw_call_None sw_block_None sw_float_None sw_jump_None
lemmas sw_label = sw_core_label sw_alu_label sw_call_label sw_block_label sw_float_label
  sw_jump_label

lemma switch_case_label:
  "switch_case (op_value op) cx inst a b c s =
     Some ((the (map_of jt (op_value op))) cx inst a b c s)"
  by (cases op)
    (simp_all only: switch_case_def sw_label jt_label sw_None(2,4,6,8,10,12)
      insert_iff empty_iff cvm_opcode.distinct simp_thms option.case option.sel)

lemma switch_case_None: "decode_op v = None \<Longrightarrow> switch_case v cx inst a b c s = None"
  by (simp only: switch_case_def sw_None(1,3,5,7,9,11) option.case)

text \<open>C4. Both interpreter loops of the source take the same step in every state: the jump table of
  the threaded build selects exactly the code the \<open>switch\<close> of the other build runs, for known and
  unknown opcodes alike.\<close>

theorem threaded_eq_switch: "DISPATCH cx s = switch_step cx s"
proof -
  have "(case map_of jt v of None \<Rightarrow> Trap CVM_E_BAD_OPCODE t | Some label \<Rightarrow> label cx inst a b c t)
    = (case switch_case v cx inst a b c t of None \<Rightarrow> Trap CVM_E_BAD_OPCODE t | Some r \<Rightarrow> r)"
    for v inst a b c and t :: "'a vm"
  proof (cases "decode_op v")
    case None
    then show ?thesis by (simp add: jt_None switch_case_None)
  next
    case (Some op)
    then have v: "v = op_value op" by (simp add: decode_op_Some)
    have "map_of jt (op_value op) \<noteq> (None :: 'a label option)"
      by (cases op) (simp_all only: jt_label option.distinct not_False_eq_True)
    then show ?thesis unfolding v switch_case_label by auto
  qed
  then show ?thesis unfolding DISPATCH_def switch_step_def Let_def
    by (cases "at (cx_code cx) (unat (vm_pc s))") (simp_all only: option.case if_cancel)
qed

end
