(* ===== verification/Safety.thy ===== *)
theory Safety
  imports Switch
begin

text \<open>
  Memory safety of the interpreter: from a well-formed image, with host handlers that keep the
  contract of \<open>syscall_handler\<close>, every instruction either runs, finishes or traps in a state that
  satisfies the same invariant; the only instruction that can reach undefined behaviour is
  \<open>MEMCPY\<close> on overlapping ranges, which the header file leaves undefined. Then whole runs, by
  induction on the step relation, and the entry points.
\<close>

section \<open>The invariant\<close>

text \<open>The image is well-formed and the constants captured at the start still describe it.\<close>

definition vm_ok :: "'h ctx \<Rightarrow> 'h vm \<Rightarrow> bool" where
  "vm_ok cx s \<longleftrightarrow> image_wf (vm_img s) \<and> cx_code cx = cells (img_code (vm_img s))
     \<and> cx_code_count cx = img_code_count (vm_img s) \<and> cx_mem_size cx = img_mem_size (vm_img s)
     \<and> cx_func_offsets cx = cells (img_func_offsets (vm_img s))
     \<and> cx_func_count cx = img_func_count (vm_img s)"

fun outcome_ok :: "'h ctx \<Rightarrow> 'h outcome \<Rightarrow> bool" where
  "outcome_ok cx Crash = False"
| "outcome_ok cx (Running s) = vm_ok cx s"
| "outcome_ok cx (Done v s) = vm_ok cx s"
| "outcome_ok cx (Trap e s) = vm_ok cx s"

lemma set_simps [simp]:
  "vm_ok cx (set_R s r v) = vm_ok cx s" "vm_ok cx (set_pc s p) = vm_ok cx s"
  "heap_of (set_R s r v) = heap_of s" "heap_of (set_pc s p) = heap_of s"
  "vm_R (set_R s r v) = (vm_R s)(r := v)" "vm_R (set_pc s p) = vm_R s" "vm_R (set_heap s m) = vm_R s"
  "vm_pc (set_R s r v) = vm_pc s" "vm_pc (set_pc s p) = p" "vm_pc (set_heap s m) = vm_pc s"
  "vm_host (set_R s r v) = vm_host s" "vm_host (set_pc s p) = vm_host s"
  "vm_host (set_heap s m) = vm_host s"
  "vm_img (set_R s r v) = vm_img s" "vm_img (set_pc s p) = vm_img s"
  by (simp_all add: set_R_def set_pc_def set_heap_def vm_ok_def heap_of_def)

lemma heap_set_heap [simp]: "length m = length (heap_of s) \<Longrightarrow> heap_of (set_heap s m) = m"
  by (simp add: heap_of_def set_heap_def cells_put_heap)

lemma put_cells_eq_NULL [simp]: "put_cells b xs = NULL \<longleftrightarrow> b = NULL"
  by (cases b) (simp_all add: put_cells_def)

lemma vm_ok_set_heap: "vm_ok cx s \<Longrightarrow> length m = length (heap_of s) \<Longrightarrow> vm_ok cx (set_heap s m)"
  by (simp add: vm_ok_def image_wf_def imports_wf_def set_heap_def heap_of_def cells_put_heap)

lemma vm_ok_heap: "vm_ok cx s \<Longrightarrow> length (heap_of s) = unat (cx_mem_size cx)"
  by (simp add: vm_ok_def image_wf_def heap_of_def)

lemma vm_ok_code: "vm_ok cx s \<Longrightarrow> length (cx_code cx) = unat (cx_code_count cx)"
  "vm_ok cx s \<Longrightarrow> unat (cx_code_count cx) < 2 ^ 30"
  by (simp_all add: vm_ok_def image_wf_def)

lemma vm_ok_funcs: "vm_ok cx s \<Longrightarrow> length (cx_func_offsets cx) = unat (cx_func_count cx)"
  by (simp add: vm_ok_def image_wf_def)

lemma oob_iff: "oob cx a n \<longleftrightarrow> \<not> unat a + unat n \<le> unat (cx_mem_size cx)"
  unfolding oob_def by (rule bounds_test)

text \<open>Reads and writes of a word inside the buffer.\<close>

lemma load_ok:
  assumes "vm_ok cx s" "a + 4 \<le> unat (cx_mem_size cx)" "\<And>v. outcome_ok cx (k v)"
  shows "outcome_ok cx (load s a k)"
proof -
  obtain v where "rd32 (heap_of s) a = Some v"
    using assms(1,2) heap32.ld_defined_iff [of "heap_of s" a] by (auto simp: vm_ok_heap)
  with assms(3) show ?thesis by (simp add: load_def)
qed

lemma store_ok:
  assumes "vm_ok cx s" "a + 4 \<le> unat (cx_mem_size cx)"
    "\<And>s1. vm_ok cx s1 \<Longrightarrow> outcome_ok cx (k s1)"
  shows "outcome_ok cx (store s a v k)"
proof -
  obtain m where m: "wr32 (heap_of s) a v = Some m"
    using assms(1,2) heap32.st_defined_iff [of "heap_of s" a v] by (auto simp: vm_ok_heap)
  then have "vm_ok cx (set_heap s m)" using assms(1) by (intro vm_ok_set_heap) (simp_all add: write_length)
  with m assms(3) show ?thesis by (simp add: store_def)
qed

text \<open>After the fetch the \<open>pc\<close> is at most \<open>code_count\<close>, so no branch overflows.\<close>

definition pc_ok :: "'h vm \<Rightarrow> bool" where "pc_ok s \<longleftrightarrow> unat (vm_pc s) \<le> 2 ^ 30"

lemma small_range: "0 \<le> x \<Longrightarrow> x \<le> 2 ^ 30 \<Longrightarrow> \<bar>off\<bar> \<le> 2 ^ 24 \<Longrightarrow> in_i32 (x + off)"
  by (auto simp: in_i32_def)

lemma sint_small:
  assumes "unat (p :: u32) \<le> 2 ^ 30"
  shows "sint p = uint p" "0 \<le> uint p" "uint p \<le> 2 ^ 30"
proof -
  have "int (unat p) \<le> int (2 ^ 30)" using assms by (simp only: of_nat_le_iff)
  then show u: "uint p \<le> 2 ^ 30" by simp
  show n: "0 \<le> uint p" by simp
  have "sint p = signed_take_bit 31 (uint p)" by (simp add: sint_uint)
  also have "\<dots> = uint p" using u n small_range [of "uint p" 0] by (intro signed_take_bit_int_eq_self) (simp_all add: in_i32_def)
  finally show "sint p = uint p" .
qed

lemma branch_ok:
  assumes "vm_ok cx s" "pc_ok s" "\<bar>off\<bar> \<le> 2 ^ 24"
  shows "outcome_ok cx (branch s off)"
proof -
  have "in_i32 (sint (vm_pc s) + off)"
    unfolding sint_small(1) [OF assms(2) [unfolded pc_ok_def]]
    by (rule small_range [OF sint_small(2,3) assms(3)]) (use assms(2) in \<open>simp_all add: pc_ok_def\<close>)
  with assms(1) show ?thesis by (simp add: branch_def Let_def)
qed

lemma jmp_offset_bound: "\<bar>jmp_offset inst\<bar> \<le> 2 ^ 24"
proof -
  have m: "(0xFFFFFF :: u32) = mask 24" by (simp add: mask_eq_exp_minus_1)
  have "uint (drop_bit 8 inst AND 0xFFFFFF) = take_bit 24 (uint (drop_bit 8 inst))"
    by (simp only: m take_bit_eq_mask [symmetric] unsigned_take_bit_eq)
  moreover have "take_bit 24 (uint (drop_bit 8 inst)) < 2 ^ 24" "0 \<le> take_bit 24 (uint (drop_bit 8 inst))"
    by (rule take_bit_int_less_exp, rule take_bit_nonnegative)
  ultimately show ?thesis by (auto simp: jmp_offset_def Let_def)
qed

lemma sint8_bound: "\<bar>sint (c :: u8)\<bar> \<le> 2 ^ 24"
  using sint_range_size [of c] by (simp add: word_size) linarith


section \<open>The labels\<close>

text \<open>Instructions that only compute a register.\<close>

lemma R_ok: "vm_ok cx s \<Longrightarrow> outcome_ok cx (Running (set_R s r v))"
  by simp

lemma sint32_range: "- (2 ^ 31) \<le> sint (x :: u32)" "sint x < 2 ^ 31"
  using sint_range_size [of x] by (simp_all add: word_size)

lemma sint_eqs: "sint (x :: u32) = - 1 \<longleftrightarrow> x = - 1" "sint x = - (2 ^ 31) \<longleftrightarrow> x = 0x80000000"
  "sint x = 0 \<longleftrightarrow> x = 0"
proof -
  have inj: "sint x = sint y \<longleftrightarrow> x = y" for y by (metis signed_word_eqI)
  have "sint (- 1 :: u32) = - 1" "sint (0x80000000 :: u32) = - (2 ^ 31)" "sint (0 :: u32) = 0"
    by simp_all
  then show "sint x = - 1 \<longleftrightarrow> x = - 1" "sint x = - (2 ^ 31) \<longleftrightarrow> x = 0x80000000" "sint x = 0 \<longleftrightarrow> x = 0"
    using inj by metis+
qed

lemma sdiv_i32:
  assumes "\<not> (x = 0x80000000 \<and> y = - 1)" "(y :: u32) \<noteq> 0"
  shows "in_i32 (sint (x :: u32) sdiv sint y)"
proof -
  define X where "X = sint x"
  define Y where "Y = sint y"
  have X: "- (2 ^ 31) \<le> X" "X < 2 ^ 31" using sint32_range [of x] by (simp_all add: X_def)
  have Y: "Y \<noteq> 0" using assms(2) by (simp add: Y_def sint_eqs)
  consider "Y = 1" | "Y = - 1" | "2 \<le> \<bar>Y\<bar>" using Y by linarith
  then have "in_i32 (X sdiv Y)"
  proof cases
    case 1
    then show ?thesis using X by (simp add: in_i32_def signed_divide_int_def abs_mult_sgn mult.commute)
  next
    case 2
    then have "X \<noteq> - (2 ^ 31)" using assms(1) sint_eqs(2) [of x] sint_eqs(1) [of y] by (auto simp: X_def Y_def)
    moreover have "X sdiv Y = - X" using 2 by (simp add: signed_divide_int_def sgn_if)
    ultimately show ?thesis using X by (auto simp: in_i32_def)
  next
    case 3
    have "\<bar>X\<bar> \<le> 2 ^ 31" using X by (simp add: abs_le_iff)
    have "\<bar>X\<bar> div \<bar>Y\<bar> \<le> \<bar>X\<bar> div 2" by (rule zdiv_mono2) (use 3 in simp_all)
    then have "\<bar>X\<bar> div \<bar>Y\<bar> \<le> 2 ^ 30" "0 \<le> \<bar>X\<bar> div \<bar>Y\<bar>"
      using \<open>\<bar>X\<bar> \<le> 2 ^ 31\<close> 3 by (simp_all add: pos_imp_zdiv_nonneg_iff)
    moreover have "\<bar>X sdiv Y\<bar> \<le> \<bar>X\<bar> div \<bar>Y\<bar>"
      using calculation(2) by (simp add: signed_divide_int_def abs_mult sgn_if)
    ultimately show ?thesis by (auto simp: in_i32_def)
  qed
  then show ?thesis by (simp add: X_def Y_def)
qed

lemma mulh_range: "- (2 ^ 63) \<le> sint (x :: u32) * sint (y :: u32) \<and> sint x * sint y < 2 ^ 63"
proof -
  have "\<bar>sint x\<bar> \<le> 2 ^ 31" "\<bar>sint y\<bar> \<le> 2 ^ 31"
    using sint32_range [of x] sint32_range [of y] by (simp_all add: abs_le_iff)
  then have "\<bar>sint x * sint y\<bar> \<le> 2 ^ 31 * 2 ^ 31" unfolding abs_mult by (intro mult_mono) simp_all
  then show ?thesis by (simp add: abs_le_iff)
qed

lemmas reg_labels = L_MOVI_def L_MOV_def L_ADD_def L_SUB_def L_MUL_def L_CMP_EQ_def L_CMP_NE_def
  L_CMP_LT_def L_CMP_LE_def L_CMP_LTU_def L_CMP_LEU_def L_DIV_def L_DIVU_def L_MOD_def L_MODU_def
  L_SHL_def L_SHR_def L_SAR_def L_AND_def L_OR_def L_XOR_def L_MOVHI_def L_MULH_def L_MULHU_def
  L_QDIV1616_def L_QDIV6432_def L_FADD_def L_FSUB_def L_FMUL_def L_FDIV_def L_FNEG_def
  L_FCMP_EQ_def L_FCMP_NE_def L_FCMP_LT_def L_FCMP_LE_def L_F2I_S_def L_F2I_U_def L_I2F_S_def
  L_I2F_U_def L_FSQRT_def L_FFLOOR_def L_FCEIL_def L_FTRUNC_def L_HALT_def L_JMPR_def

lemma oob_range: "\<not> oob cx a n \<Longrightarrow> unat a + unat n \<le> unat (cx_mem_size cx)"
  by (simp add: oob_iff)

lemma vm_ok_access:
  assumes "vm_ok cx s" "\<not> oob cx a n" "k \<le> unat n"
  shows "unat a + k \<le> length (heap_of s)"
  using assms oob_range [OF assms(2)] by (simp add: vm_ok_heap)

lemma heap_result_ok:
  assumes "vm_ok cx s" "r = None \<Longrightarrow> False" "\<And>m. r = Some m \<Longrightarrow> length m = length (heap_of s)"
  shows "outcome_ok cx (case r of None \<Rightarrow> Crash | Some m \<Rightarrow> Running (set_heap s m))"
  using assms by (cases r) (auto intro: vm_ok_set_heap)

lemma L_LDW_ok: "vm_ok cx s \<Longrightarrow> outcome_ok cx (L_LDW cx inst a b c s)"
  by (auto simp: L_LDW_def Let_def intro!: load_ok dest: oob_range)

lemma L_STW_ok: "vm_ok cx s \<Longrightarrow> outcome_ok cx (L_STW cx inst a b c s)"
  by (auto simp: L_STW_def Let_def intro!: store_ok dest: oob_range)

lemma L_LDB_ok: "vm_ok cx s \<Longrightarrow> outcome_ok cx (L_LDB cx inst a b c s)"
  using vm_ok_heap [of cx s] rd8_None [of "heap_of s" "unat (R s b)"]
  by (auto simp: L_LDB_def Let_def word_arith not_le split: option.split)

lemma L_LDH_ok: "vm_ok cx s \<Longrightarrow> outcome_ok cx (L_LDH cx inst a b c s)"
  using vm_ok_access [of cx s "R s b" 2 2] rd16_None [of "heap_of s" "unat (R s b)"]
  by (cases "oob cx (R s b) 2") (auto simp: L_LDH_def Let_def split: option.split)

lemma L_STB_ok: "vm_ok cx s \<Longrightarrow> outcome_ok cx (L_STB cx inst a b c s)"
  using vm_ok_heap [of cx s]
  by (auto simp: L_STB_def Let_def access_None write_length word_arith not_le intro!: heap_result_ok)

lemma L_STH_ok: "vm_ok cx s \<Longrightarrow> outcome_ok cx (L_STH cx inst a b c s)"
  using vm_ok_access [of cx s "R s b" 2 2]
  by (cases "oob cx (R s b) 2") (auto simp: L_STH_def Let_def access_None write_length not_less intro!: heap_result_ok)

lemma L_MEMSET_ok: "vm_ok cx s \<Longrightarrow> outcome_ok cx (L_MEMSET cx inst a b c s)"
  using vm_ok_access [of cx s "R s a" "R s c" "unat (R s c)"]
  by (auto simp: L_MEMSET_def Let_def access_None write_length not_less intro!: heap_result_ok)

lemma L_MEMMOVE_ok: "vm_ok cx s \<Longrightarrow> outcome_ok cx (L_MEMMOVE cx inst a b c s)"
  using vm_ok_access [of cx s "R s a" "R s c" "unat (R s c)"]
    vm_ok_access [of cx s "R s b" "R s c" "unat (R s c)"]
  by (auto simp: L_MEMMOVE_def Let_def access_None write_length not_less intro!: heap_result_ok)

text \<open>The one instruction a guest can use to run into undefined behaviour of the host.\<close>

definition memcpy_overlap :: "'h vm \<Rightarrow> u8 \<Rightarrow> u8 \<Rightarrow> u8 \<Rightarrow> bool" where
  "memcpy_overlap s a b c \<longleftrightarrow> ranges_overlap (unat (R s a)) (unat (R s b)) (unat (R s c))"

lemma L_MEMCPY_ok:
  "vm_ok cx s \<Longrightarrow> \<not> memcpy_overlap s a b c \<Longrightarrow> outcome_ok cx (L_MEMCPY cx inst a b c s)"
  using vm_ok_access [of cx s "R s a" "R s c" "unat (R s c)"]
    vm_ok_access [of cx s "R s b" "R s c" "unat (R s c)"]
  by (auto simp: L_MEMCPY_def Let_def access_None write_length not_less memcpy_overlap_def
      intro!: heap_result_ok)

lemma do_call_ok: "vm_ok cx s \<Longrightarrow> outcome_ok cx (do_call cx fid s)"
proof -
  assume ok: "vm_ok cx s"
  have f: "unat fid < length (cx_func_offsets cx)" if "fid < cx_func_count cx"
    using that vm_ok_funcs [OF ok] by (simp add: word_arith)
  have sp: "unat (R s 255 - 4) + 4 \<le> unat (cx_mem_size cx)"
    if "\<not> R s 255 < 4" "\<not> R s 255 > cx_mem_size cx"
    using that by (simp add: not_less unat_sub_le) (simp add: word_arith)
  show ?thesis
    using ok f sp by (auto simp: do_call_def Let_def not_le intro!: store_ok split: option.split)
qed

lemma L_RET_ok: "vm_ok cx s \<Longrightarrow> outcome_ok cx (L_RET cx inst a b c s)"
  by (auto simp: L_RET_def Let_def intro!: load_ok dest: oob_range)

lemma L_SETJMP_ok: "vm_ok cx s \<Longrightarrow> outcome_ok cx (L_SETJMP cx inst a b c s)"
  by (auto simp: L_SETJMP_def Let_def intro!: store_ok dest!: oob_range)

lemma L_LONGJMP_ok: "vm_ok cx s \<Longrightarrow> outcome_ok cx (L_LONGJMP cx inst a b c s)"
  by (auto simp: L_LONGJMP_def Let_def intro!: load_ok dest!: oob_range)

lemma coro_switch_ok:
  "vm_ok cx s \<Longrightarrow> \<not> oob cx f 16 \<Longrightarrow> \<not> oob cx t 16 \<Longrightarrow>
   outcome_ok cx (coro_switch a f t jstat jpc jsp jdst s)"
  by (auto simp: coro_switch_def Let_def intro!: store_ok dest!: oob_range)

lemma L_CORO_SWAP_ok: "vm_ok cx s \<Longrightarrow> outcome_ok cx (L_CORO_SWAP cx inst a b c s)"
proof -
  assume ok: "vm_ok cx s"
  have f: "at (cx_func_offsets cx) (unat fid) \<noteq> None" if "fid < cx_func_count cx" for fid
    using that vm_ok_funcs [OF ok] by (simp add: word_arith)
  show ?thesis
  proof (cases "oob cx (R s a) 16 \<or> oob cx (R s b) 16")
    case True
    with ok show ?thesis by (auto simp: L_CORO_SWAP_def Let_def)
  next
    case False
    then have "unat (R s b) + 16 \<le> unat (cx_mem_size cx)" using oob_range [of cx "R s b" 16] by simp
    with False ok f show ?thesis
      by (auto simp: L_CORO_SWAP_def Let_def not_le intro!: load_ok coro_switch_ok split: option.split)
  qed
qed


lemma L_SYSCALL_ok:
  assumes "\<And>k. syscall_handler (cx_host cx k)" "vm_ok cx s"
  shows "outcome_ok cx (L_SYSCALL cx inst a b c s)"
proof -
  let ?id = "unat (ucast (drop_bit 16 inst) :: u16)" and ?img = "vm_img s"
  have wf: "image_wf ?img" using assms(2) by (simp add: vm_ok_def)
  show ?thesis
  proof (cases "?id \<ge> unat (img_import_count ?img)")
    case True
    then show ?thesis using assms(2) by (simp add: L_SYSCALL_def Let_def)
  next
    case False
    then have "?id < unat (img_import_count ?img)" by simp
    note len = image_wf_imports [OF wf this]
    show ?thesis
    proof (cases "cells (img_import_fns ?img) ! ?id")
      case None
      then show ?thesis using False len assms(2) by (simp add: L_SYSCALL_def Let_def)
    next
      case (Some fn)
      have "syscall_handler (call_fn (cx_host cx) fn)" by (rule call_fn_handler [OF assms(1)])
      from syscall_handler.call_cases [OF this wf] obtain v i' r' h' where
        c: "call_fn (cx_host cx) fn ?img (vm_R s) (cells (img_import_userdata ?img) ! ?id) (vm_host s)
          = Some (v, i', r', h')" "image_wf i'" "same_frame ?img i'" by blast
      have "vm_ok cx (s\<lparr>vm_img := i', vm_R := r', vm_host := h'\<rparr>)"
        using assms(2) c(2,3) by (simp add: vm_ok_def same_frame_def)
      with False len Some c(1) show ?thesis by (simp add: L_SYSCALL_def Let_def)
    qed
  qed
qed

lemma reg_label_ok:
  assumes "vm_ok cx s"
  shows
    "outcome_ok cx (L_MOVI cx inst a b c s)"
    "outcome_ok cx (L_MOV cx inst a b c s)"
    "outcome_ok cx (L_ADD cx inst a b c s)"
    "outcome_ok cx (L_SUB cx inst a b c s)"
    "outcome_ok cx (L_MUL cx inst a b c s)"
    "outcome_ok cx (L_CMP_EQ cx inst a b c s)"
    "outcome_ok cx (L_CMP_NE cx inst a b c s)"
    "outcome_ok cx (L_CMP_LT cx inst a b c s)"
    "outcome_ok cx (L_CMP_LE cx inst a b c s)"
    "outcome_ok cx (L_CMP_LTU cx inst a b c s)"
    "outcome_ok cx (L_CMP_LEU cx inst a b c s)"
    "outcome_ok cx (L_DIV cx inst a b c s)"
    "outcome_ok cx (L_DIVU cx inst a b c s)"
    "outcome_ok cx (L_MOD cx inst a b c s)"
    "outcome_ok cx (L_MODU cx inst a b c s)"
    "outcome_ok cx (L_SHL cx inst a b c s)"
    "outcome_ok cx (L_SHR cx inst a b c s)"
    "outcome_ok cx (L_SAR cx inst a b c s)"
    "outcome_ok cx (L_AND cx inst a b c s)"
    "outcome_ok cx (L_OR cx inst a b c s)"
    "outcome_ok cx (L_XOR cx inst a b c s)"
    "outcome_ok cx (L_MOVHI cx inst a b c s)"
    "outcome_ok cx (L_MULH cx inst a b c s)"
    "outcome_ok cx (L_MULHU cx inst a b c s)"
    "outcome_ok cx (L_QDIV1616 cx inst a b c s)"
    "outcome_ok cx (L_QDIV6432 cx inst a b c s)"
    "outcome_ok cx (L_FADD cx inst a b c s)"
    "outcome_ok cx (L_FSUB cx inst a b c s)"
    "outcome_ok cx (L_FMUL cx inst a b c s)"
    "outcome_ok cx (L_FDIV cx inst a b c s)"
    "outcome_ok cx (L_FNEG cx inst a b c s)"
    "outcome_ok cx (L_FCMP_EQ cx inst a b c s)"
    "outcome_ok cx (L_FCMP_NE cx inst a b c s)"
    "outcome_ok cx (L_FCMP_LT cx inst a b c s)"
    "outcome_ok cx (L_FCMP_LE cx inst a b c s)"
    "outcome_ok cx (L_F2I_S cx inst a b c s)"
    "outcome_ok cx (L_F2I_U cx inst a b c s)"
    "outcome_ok cx (L_I2F_S cx inst a b c s)"
    "outcome_ok cx (L_I2F_U cx inst a b c s)"
    "outcome_ok cx (L_FSQRT cx inst a b c s)"
    "outcome_ok cx (L_FFLOOR cx inst a b c s)"
    "outcome_ok cx (L_FCEIL cx inst a b c s)"
    "outcome_ok cx (L_FTRUNC cx inst a b c s)"
    "outcome_ok cx (L_HALT cx inst a b c s)"
    "outcome_ok cx (L_JMPR cx inst a b c s)"
  using assms sdiv_i32 [of "R s b" "R s c"] mulh_range [of "R s b" "R s c"]
  by (simp_all only: reg_labels Let_def outcome_ok.simps set_simps f32_to_i32_sat_eq
      f32_to_u32_sat_eq option.case simp_thms if_cancel split: if_splits) blast+


lemmas label_ok = reg_label_ok L_LDW_ok L_STW_ok L_LDB_ok L_LDH_ok L_STB_ok L_STH_ok L_MEMSET_ok
  L_MEMMOVE_ok L_RET_ok L_SETJMP_ok L_LONGJMP_ok L_CORO_SWAP_ok

lemma L_BEQ_ok: "vm_ok cx s \<Longrightarrow> pc_ok s \<Longrightarrow> outcome_ok cx (L_BEQ cx inst a b c s)"
  by (auto simp: L_BEQ_def intro: branch_ok [OF _ _ sint8_bound])

lemma L_BNE_ok: "vm_ok cx s \<Longrightarrow> pc_ok s \<Longrightarrow> outcome_ok cx (L_BNE cx inst a b c s)"
  by (auto simp: L_BNE_def intro: branch_ok [OF _ _ sint8_bound])

lemma L_JMP_ok: "vm_ok cx s \<Longrightarrow> pc_ok s \<Longrightarrow> outcome_ok cx (L_JMP cx inst a b c s)"
  by (auto simp: L_JMP_def intro: branch_ok [OF _ _ jmp_offset_bound])

lemma L_CALL_ok: "vm_ok cx s \<Longrightarrow> outcome_ok cx (L_CALL cx inst a b c s)"
  by (simp add: L_CALL_def do_call_ok)

lemma L_CALLR_ok: "vm_ok cx s \<Longrightarrow> outcome_ok cx (L_CALLR cx inst a b c s)"
  by (simp add: L_CALLR_def do_call_ok)

lemma any_label_ok:
  assumes "vm_ok cx s" "pc_ok s" "\<And>k. syscall_handler (cx_host cx k)"
    "op = CVM_OP_MEMCPY \<Longrightarrow> \<not> memcpy_overlap s a b c"
  shows "outcome_ok cx (the (map_of jt (op_value op)) cx inst a b c s)"
  by (cases op)
    (simp_all only: jt_label option.sel label_ok [OF assms(1)] L_BEQ_ok [OF assms(1,2)]
      L_BNE_ok [OF assms(1,2)] L_JMP_ok [OF assms(1,2)] L_CALL_ok [OF assms(1)]
      L_CALLR_ok [OF assms(1)] L_SYSCALL_ok [OF assms(3,1)] L_MEMCPY_ok [OF assms(1) assms(4)])

section \<open>One step\<close>

text \<open>The instruction the state is about to execute, and the case left undefined by the header.\<close>

definition current :: "'h ctx \<Rightarrow> 'h vm \<Rightarrow> u32 option" where
  "current cx s = (if vm_pc s < cx_code_count cx then at (cx_code cx) (unat (vm_pc s)) else None)"

definition at_overlap :: "'h ctx \<Rightarrow> 'h vm \<Rightarrow> bool" where
  "at_overlap cx s \<longleftrightarrow> (case current cx s of None \<Rightarrow> False
     | Some inst \<Rightarrow> i_op inst = op_value CVM_OP_MEMCPY
         \<and> memcpy_overlap s (i_a inst) (i_b inst) (i_c inst))"

lemma dispatch_ok:
  assumes ok: "vm_ok cx s" and host: "\<And>k. syscall_handler (cx_host cx k)"
    and no: "\<not> at_overlap cx s"
  shows "outcome_ok cx (DISPATCH cx s)"
proof (cases "vm_pc s \<ge> cx_code_count cx")
  case True
  then show ?thesis using ok by (simp add: DISPATCH_def)
next
  case False
  then have lt: "unat (vm_pc s) < unat (cx_code_count cx)" by (simp add: word_arith not_le)
  then have inst: "at (cx_code cx) (unat (vm_pc s)) = Some (cx_code cx ! unat (vm_pc s))"
    using vm_ok_code(1) [OF ok] by simp
  let ?inst = "cx_code cx ! unat (vm_pc s)" and ?s = "set_pc s (vm_pc s + 1)"
  have "unat (vm_pc s) + unat (1 :: u32) < 2 ^ LENGTH(32)"
    using lt vm_ok_code(2) [OF ok] by simp
  then have "unat (vm_pc s + 1) = unat (vm_pc s) + 1" using unat_add_lt [of "vm_pc s" 1] by simp
  then have pc: "pc_ok ?s" using lt vm_ok_code(2) [OF ok] by (simp add: pc_ok_def)
  show ?thesis
  proof (cases "decode_op (i_op ?inst)")
    case None
    then show ?thesis using False inst ok by (simp add: DISPATCH_def Let_def jt_None)
  next
    case (Some op)
    then have v: "i_op ?inst = op_value op" by (simp add: decode_op_Some)
    have "op = CVM_OP_MEMCPY \<Longrightarrow> \<not> memcpy_overlap ?s (i_a ?inst) (i_b ?inst) (i_c ?inst)"
      using no inst False v by (simp add: at_overlap_def current_def memcpy_overlap_def not_le)
    from any_label_ok [OF _ pc host this, where inst = ?inst] ok
    have "outcome_ok cx (the (map_of jt (op_value op)) cx ?inst (i_a ?inst) (i_b ?inst) (i_c ?inst) ?s)"
      by simp
    moreover have "map_of jt (op_value op) \<noteq> (None :: 'a label option)"
      by (cases op) (simp_all only: jt_label option.distinct not_False_eq_True)
    ultimately show ?thesis using False inst v by (auto simp: DISPATCH_def Let_def)
  qed
qed

section \<open>Runs\<close>

inductive steps :: "'h ctx \<Rightarrow> 'h vm \<Rightarrow> 'h outcome \<Rightarrow> bool" for cx s where
  start: "steps cx s (Running s)"
| step: "steps cx s (Running t) \<Longrightarrow> steps cx s (DISPATCH cx t)"

text \<open>No state of the run stands at an overlapping \<open>MEMCPY\<close>.\<close>

definition overlap_free :: "'h ctx \<Rightarrow> 'h vm \<Rightarrow> bool" where
  "overlap_free cx s \<longleftrightarrow> (\<forall>t. steps cx s (Running t) \<longrightarrow> \<not> at_overlap cx t)"

lemma steps_ok:
  assumes "steps cx s r" "vm_ok cx s" "\<And>k. syscall_handler (cx_host cx k)" "overlap_free cx s"
  shows "outcome_ok cx r"
  using assms(1)
proof (induction rule: steps.induct)
  case start
  then show ?case using assms(2) by simp
next
  case (step t)
  then have "vm_ok cx t" by simp
  moreover have "\<not> at_overlap cx t" using assms(4) step.hyps by (simp add: overlap_free_def)
  ultimately show ?case by (intro dispatch_ok assms(3))
qed


text \<open>The loops and the step relation agree; a result is never a running state.\<close>

lemma steps_trans: "steps cx s (Running t) \<Longrightarrow> steps cx t r \<Longrightarrow> steps cx s r"
  by (rotate_tac, induction rule: steps.induct) (auto intro: steps.intros)

lemma exec_loop_steps:
  assumes "exec_loop cx s = Some r"
  shows "steps cx s r \<and> (\<forall>t. r \<noteq> Running t)"
  using assms
proof (rule exec_loop.raw_induct [rotated])
  fix loop and cx :: "'a ctx" and s r
  assume IH: "\<And>cx s r. loop cx s = Some r \<Longrightarrow> steps cx s r \<and> (\<forall>t. r \<noteq> Running t)"
    and eq: "(case DISPATCH cx s of Running s' \<Rightarrow> loop cx s' | r \<Rightarrow> Some r) = Some r"
  have one: "steps cx s (DISPATCH cx s)" by (rule steps.step [OF steps.start])
  show "steps cx s r \<and> (\<forall>t. r \<noteq> Running t)"
  proof (cases "DISPATCH cx s")
    case (Running t)
    then have "steps cx t r \<and> (\<forall>t. r \<noteq> Running t)" using IH eq by simp
    with one Running steps_trans show ?thesis by metis
  qed (use one eq in auto)
qed

lemma exec_fuel_loop: "exec_fuel n cx s = Some r \<Longrightarrow> exec_loop cx s = Some r"
proof (induction n arbitrary: s)
  case (Suc n)
  then show ?case by (cases "DISPATCH cx s") (auto simp: exec_loop.simps [of cx s])
qed simp

lemma exec_fuel_Suc: "exec_fuel n cx s = Some r \<Longrightarrow> exec_fuel (Suc n) cx s = Some r"
proof (induction n arbitrary: s)
  case (Suc n)
  then show ?case by (cases "DISPATCH cx s") auto
qed simp

lemma exec_fuel_one:
  "\<forall>t. DISPATCH cx s \<noteq> Running t \<Longrightarrow> exec_fuel (Suc 0) cx s = Some (DISPATCH cx s)"
  by (cases "DISPATCH cx s") simp_all

lemma exec_loop_fuel:
  assumes "exec_loop cx s = Some r" shows "\<exists>n. exec_fuel n cx s = Some r"
  using assms
proof (rule exec_loop.raw_induct [rotated])
  fix loop and cx :: "'a ctx" and s r
  assume IH: "\<And>cx s r. loop cx s = Some r \<Longrightarrow> \<exists>n. exec_fuel n cx s = Some r"
    and eq: "(case DISPATCH cx s of Running s' \<Rightarrow> loop cx s' | r \<Rightarrow> Some r) = Some r"
  show "\<exists>n. exec_fuel n cx s = Some r"
  proof (cases "\<exists>t. DISPATCH cx s = Running t")
    case True
    then obtain t where t: "DISPATCH cx s = Running t" by blast
    then obtain n where "exec_fuel n cx t = Some r" using IH eq by fastforce
    then show ?thesis using t by (intro exI [of _ "Suc n"]) simp
  next
    case False
    then have "exec_fuel (Suc 0) cx s = Some (DISPATCH cx s)" by (intro exec_fuel_one) blast
    moreover have "r = DISPATCH cx s" using eq False by (cases "DISPATCH cx s") auto
    ultimately show ?thesis by blast
  qed
qed

section \<open>Entry points\<close>

lemma mk_ctx_ok: "image_wf i \<Longrightarrow> vm_img s = i \<Longrightarrow> vm_ok (mk_ctx e i) s"
  by (simp add: vm_ok_def mk_ctx_def)

lemma mk_ctx_host [simp]: "cx_host (mk_ctx e i) = env_host e"
  by (simp add: mk_ctx_def)

definition args_ok :: "u32 list option \<Rightarrow> u32 \<Rightarrow> bool" where
  "args_ok args n \<longleftrightarrow> (case args of None \<Rightarrow> True | Some xs \<Rightarrow> unat n \<le> length xs)"

lemma exec_start_ok:
  assumes "image_wf i" "args_ok args n" "exec_start i pc args n h = Inr r"
  shows "\<exists>s. r = Running s \<and> vm_ok (mk_ctx e i) s \<and> vm_pc s = pc"
proof -
  obtain rg where rg: "init_regs args n = Some rg"
    using assms(2) by (auto simp: init_regs_def args_ok_def split: option.splits)
  let ?s = "\<lparr>vm_R = rg, vm_pc = pc, vm_img = i, vm_host = h\<rparr>"
  have ok: "vm_ok (mk_ctx e i) ?s" by (rule mk_ctx_ok [OF assms(1)]) simp
  have r: "r = init_stack i ?s" using assms(3) rg by (simp add: exec_start_def split: if_splits)
  show ?thesis
  proof (cases "img_stack_size i \<ge> 4")
    case True
    have "unat (img_mem_size i) = unat (img_heap_size i) + unat (img_stack_size i)"
      using assms(1) by (simp add: image_wf_def)
    with True have "4 \<le> img_mem_size i" by (simp add: word_arith)
    then have fit: "unat (img_mem_size i - 4) + 4 \<le> length (heap_of ?s)"
      using vm_ok_heap [OF ok] by (simp add: unat_sub_le mk_ctx_def) (simp add: word_arith)
    then obtain m where m: "wr32 (heap_of ?s) (unat (img_mem_size i - 4)) CVM_RET_SENTINEL = Some m"
      using heap32.st_SomeI [OF fit] by blast
    then have "vm_ok (mk_ctx e i) (set_heap ?s m)"
      using ok by (intro vm_ok_set_heap) (simp_all add: write_length)
    with True m r show ?thesis by (simp add: init_stack_def store_def Let_def)
  next
    case False
    with r ok show ?thesis by (simp add: init_stack_def)
  qed
qed


text \<open>Whatever an entry point returns, it is not a crash and leaves a well-formed image.\<close>

lemma exec_at_ok:
  assumes "image_wf i" "\<And>k. syscall_handler (env_host e k)" "args_ok args n"
    "\<And>s. exec_start i pc args n h = Inr (Running s) \<Longrightarrow> overlap_free (mk_ctx e i) s"
    "cvm_exec_at e (Some i) pc args n h = Some (Inr r)"
  shows "outcome_ok (mk_ctx e i) r \<and> (\<forall>s. r \<noteq> Running s)"
proof (cases "exec_start i pc args n h")
  case (Inl err)
  then show ?thesis using assms(5) by (simp add: cvm_exec_at_def)
next
  case (Inr q)
  obtain s where s: "q = Running s" "vm_ok (mk_ctx e i) s"
    using exec_start_ok [OF assms(1,3) Inr, of e] by blast
  then have loop: "exec_loop (mk_ctx e i) s = Some r" using assms(5) Inr by (simp add: cvm_exec_at_def)
  from exec_loop_steps [OF loop] have st: "steps (mk_ctx e i) s r" "\<forall>t. r \<noteq> Running t" by blast+
  have "overlap_free (mk_ctx e i) s" by (rule assms(4)) (simp add: Inr s(1))
  from steps_ok [OF st(1) s(2) _ this] st(2) assms(2) show ?thesis by simp
qed

lemma exec_fuel_add: "exec_fuel n cx s = Some r \<Longrightarrow> exec_fuel (n + k) cx s = Some r"
  by (induction k) (simp_all add: exec_fuel_Suc del: exec_fuel.simps)

section \<open>A small machine\<close>

text \<open>An environment whose handlers return at once, and states of the machine of \<open>demo_image\<close> with
  given memory and registers, for evaluating the properties on concrete inputs.\<close>

definition demo_env :: "unit env" where
  "demo_env = \<lparr>env_host = \<lambda>k i r ud h. Some (0, i, r, h), env_nan = \<lambda>_ _ _. 0x7FC00000\<rparr>"

definition demo_ctx :: "u32 list \<Rightarrow> unit ctx" where
  "demo_ctx code = mk_ctx demo_env (demo_image code)"

definition demo_vm :: "u32 list \<Rightarrow> mem \<Rightarrow> regs \<Rightarrow> unit vm" where
  "demo_vm code m r = set_heap \<lparr>vm_R = r, vm_pc = 0, vm_img = demo_image code, vm_host = ()\<rparr> m"

lemma demo_ok:
  "length m = 48 \<Longrightarrow> 0 < length code \<Longrightarrow> length code < 2 ^ 30 \<Longrightarrow>
   vm_ok (demo_ctx code) (demo_vm code m r)"
  unfolding demo_vm_def demo_ctx_def
  by (intro vm_ok_set_heap mk_ctx_ok demo_image_wf) (simp_all add: heap_of_def demo_image_def)

lemma demo_pc: "pc_ok (demo_vm code m r)"
  by (simp add: pc_ok_def demo_vm_def)

lemma demo_host: "syscall_handler (env_host demo_env k)"
  by unfold_locales (auto simp: demo_env_def same_frame_def)

fun next_of :: "'h outcome \<Rightarrow> 'h vm option" where
  "next_of (Running s) = Some s"
| "next_of _ = None"

lemma next_ofE: "next_of r \<noteq> None \<Longrightarrow> \<exists>s. r = Running s"
  by (cases r) simp_all

lemma steps_stopped:
  assumes "next_of (DISPATCH cx s) = None" "steps cx s (Running t)"
  shows "t = s"
proof -
  have "t = s" if "steps cx s r" "r = Running t" for r
    using that
  proof (induction arbitrary: t rule: steps.induct)
    case (step u)
    then have "u = s" by blast
    with step.prems assms(1) show ?case by simp
  qed simp
  then show ?thesis using assms(2) by blast
qed

section \<open>Properties of the interpreter as a whole\<close>

text \<open>C2. Memory safety of a run: on a well-formed image, with handlers that keep the contract of
  \<open>syscall_handler\<close> and no overlapping \<open>MEMCPY\<close>, no run of \<open>cvm_exec_at\<close> from any entry point and
  with any arguments reaches undefined behaviour; a run that returns does so with a value or an
  error code, and leaves a well-formed image with the same code.\<close>

theorem exec_safe:
  assumes "image_wf i" "\<And>k. syscall_handler (env_host e k)" "args_ok args n"
    "\<And>s. exec_start i pc args n h = Inr (Running s) \<Longrightarrow> overlap_free (mk_ctx e i) s"
    "cvm_exec_at e (Some i) pc args n h = Some (Inr r)"
  shows "case r of Crash \<Rightarrow> False | Running s \<Rightarrow> False
    | Done v s \<Rightarrow> image_wf (vm_img s) \<and> cells (img_code (vm_img s)) = cells (img_code i)
    | Trap err s \<Rightarrow> image_wf (vm_img s) \<and> cells (img_code (vm_img s)) = cells (img_code i)"
  using exec_at_ok [OF assms] by (cases r) (simp_all add: vm_ok_def mk_ctx_def)

theorem exec_safe_witness:
  "\<exists>v s. cvm_exec_at demo_env (Some (demo_image [0])) 0 None 0 () = Some (Inr (Done v s))
    \<and> image_wf (vm_img s)"
proof -
  let ?i = "demo_image [0]"
  obtain r where r: "exec_start ?i 0 None 0 () = Inr r"
    using init_regs_def [of None 0] by (simp add: exec_start_def demo_image_def)
  obtain s where s: "r = Running s" "vm_ok (mk_ctx demo_env ?i) s" "vm_pc s = 0"
    using exec_start_ok [OF demo_halt_wf _ r, of demo_env] by (auto simp: args_ok_def)
  have d: "DISPATCH (mk_ctx demo_env ?i) s = Done (R s 0) (set_pc s 1)"
    by (simp add: DISPATCH_def mk_ctx_def demo_image_def s(3) i_op_def i_a_def jt_def op_value.simps L_HALT_def)
  then have "exec_fuel (Suc 0) (mk_ctx demo_env ?i) s = Some (Done (R s 0) (set_pc s 1))" by simp
  then have run: "cvm_exec_at demo_env (Some ?i) 0 None 0 () = Some (Inr (Done (R s 0) (set_pc s 1)))"
    using r s(1) exec_fuel_loop by (fastforce simp: cvm_exec_at_def)
  have "overlap_free (mk_ctx demo_env ?i) s"
    using d steps_stopped [of "mk_ctx demo_env ?i" s]
    by (auto simp: overlap_free_def at_overlap_def current_def mk_ctx_def demo_image_def s(3) i_op_def
        op_value.simps)
  then show ?thesis
    using exec_safe [OF demo_halt_wf demo_host _ _ run] r s(1) run by (auto simp: args_ok_def)
qed

text \<open>C3. The only way a guest program can make the interpreter reach undefined behaviour: in a
  state that satisfies the invariant a step crashes exactly when it is a \<open>MEMCPY\<close> whose two ranges
  lie in memory and overlap.\<close>

theorem crash_iff_overlap:
  assumes "vm_ok cx s" "\<And>k. syscall_handler (cx_host cx k)"
  shows "DISPATCH cx s = Crash \<longleftrightarrow> (\<exists>inst. current cx s = Some inst
    \<and> i_op inst = op_value CVM_OP_MEMCPY \<and> memcpy_overlap s (i_a inst) (i_b inst) (i_c inst)
    \<and> \<not> oob cx (R s (i_a inst)) (R s (i_c inst)) \<and> \<not> oob cx (R s (i_b inst)) (R s (i_c inst)))"
    (is "_ \<longleftrightarrow> ?rhs")
proof
  assume crash: "DISPATCH cx s = Crash"
  then have "at_overlap cx s" using dispatch_ok [OF assms(1,2)] by force
  then obtain inst where i: "current cx s = Some inst" "i_op inst = op_value CVM_OP_MEMCPY"
    "memcpy_overlap s (i_a inst) (i_b inst) (i_c inst)"
    by (auto simp: at_overlap_def split: option.splits)
  then have "DISPATCH cx s = L_MEMCPY cx inst (i_a inst) (i_b inst) (i_c inst) (set_pc s (vm_pc s + 1))"
    by (auto simp: DISPATCH_def current_def Let_def jt_label split: if_splits)
  with crash i show ?rhs
    by (auto simp: L_MEMCPY_def Let_def memcpy_overlap_def ranges_overlap_def split: if_splits)
next
  assume ?rhs
  then obtain inst where i: "current cx s = Some inst" "i_op inst = op_value CVM_OP_MEMCPY"
    "memcpy_overlap s (i_a inst) (i_b inst) (i_c inst)"
    "\<not> oob cx (R s (i_a inst)) (R s (i_c inst))" "\<not> oob cx (R s (i_b inst)) (R s (i_c inst))" by blast
  then have "DISPATCH cx s = L_MEMCPY cx inst (i_a inst) (i_b inst) (i_c inst) (set_pc s (vm_pc s + 1))"
    by (auto simp: DISPATCH_def current_def Let_def jt_label split: if_splits)
  with i show "DISPATCH cx s = Crash"
    by (auto simp: L_MEMCPY_def Let_def memcpy_overlap_def ranges_overlap_def c_memcpy_def)
qed

theorem crash_iff_overlap_witness:
  "DISPATCH (demo_ctx [encode (op_value CVM_OP_MEMCPY) 0 1 2])
     (demo_vm [encode (op_value CVM_OP_MEMCPY) 0 1 2] (replicate 48 0) ((\<lambda>_. 0)(0 := 4, 1 := 8, 2 := 8))) = Crash"
proof -
  let ?c = "[encode (op_value CVM_OP_MEMCPY) 0 1 2]"
  let ?s = "demo_vm ?c (replicate 48 0) ((\<lambda>_. 0)(0 := 4, 1 := 8, 2 := 8))"
  have ok: "vm_ok (demo_ctx ?c) ?s" by (rule demo_ok) simp_all
  have "current (demo_ctx ?c) ?s = Some (encode (op_value CVM_OP_MEMCPY) 0 1 2)"
    "i_op (encode (op_value CVM_OP_MEMCPY) 0 1 2) = op_value CVM_OP_MEMCPY"
    "memcpy_overlap ?s (i_a (encode (op_value CVM_OP_MEMCPY) 0 1 2)) (i_b (encode (op_value CVM_OP_MEMCPY) 0 1 2))
      (i_c (encode (op_value CVM_OP_MEMCPY) 0 1 2))"
    "\<not> oob (demo_ctx ?c) (R ?s (i_a (encode (op_value CVM_OP_MEMCPY) 0 1 2))) (R ?s (i_c (encode (op_value CVM_OP_MEMCPY) 0 1 2)))"
    "\<not> oob (demo_ctx ?c) (R ?s (i_b (encode (op_value CVM_OP_MEMCPY) 0 1 2))) (R ?s (i_c (encode (op_value CVM_OP_MEMCPY) 0 1 2)))"
    by code_simp+
  moreover have "syscall_handler (cx_host (demo_ctx ?c) k)" for k
    by (simp add: demo_ctx_def demo_host)
  ultimately show ?thesis using crash_iff_overlap [OF ok] by blast
qed


end
