(* ===== verification/Semantics.thy ===== *)
theory Semantics
  imports Safety
begin

text \<open>
  What the instructions compute: wide multiplication and division against integer arithmetic,
  loads after stores, branch targets, calls and returns, \<open>SETJMP\<close>/\<open>LONGJMP\<close>, and the state
  machine of the coroutine records. Register contents are read signed (\<open>sint\<close>) or unsigned
  (\<open>uint\<close>) as the instruction does.
\<close>

section \<open>Arithmetic\<close>

text \<open>The register an arithmetic label writes.\<close>

definition result :: "'h outcome \<Rightarrow> u8 \<Rightarrow> u32 option" where
  "result r a = (case r of Running s \<Rightarrow> Some (R s a) | _ \<Rightarrow> None)"

lemma result_set [simp]: "result (Running (set_R s a v)) a = Some v"
  by (simp add: result_def)

lemma sint_word_of_int32: "- (2 ^ 31) \<le> i \<Longrightarrow> i < 2 ^ 31 \<Longrightarrow> sint (word_of_int i :: u32) = i"
  by (transfer, simp add: signed_take_bit_int_eq_self)

lemma uint32_range: "0 \<le> uint (x :: u32)" "uint x < 2 ^ 32"
  using uint_range_size [of x] by (simp_all add: word_size)

lemma mul_high_low:
  assumes "- (2 ^ 63) \<le> p" "p < 2 ^ 63"
  shows "sint (word_of_int (p div 2 ^ 32) :: u32) * 2 ^ 32 + uint (word_of_int p :: u32) = p"
proof -
  have "- (2 ^ 31) \<le> p div 2 ^ 32" "p div 2 ^ 32 < 2 ^ 31" using assms by simp_all
  then have "sint (word_of_int (p div 2 ^ 32) :: u32) = p div 2 ^ 32" by (rule sint_word_of_int32)
  moreover have "uint (word_of_int p :: u32) = p mod 2 ^ 32" by (simp add: uint_word_of_int)
  ultimately show ?thesis by simp
qed

lemma word_mult_of_int: "(x :: u32) * y = word_of_int (sint x * sint y)"
  by simp

lemma mulh_result: "result (L_MULH cx inst a b c s) a =
    Some (word_of_int (sint (R s b) * sint (R s c) div 2 ^ 32))"
  using mulh_range [of "R s b" "R s c"] by (simp add: L_MULH_def Let_def)

lemma uint_u64: "uint (ucast (x :: u32) :: u64) = uint x"
  by (simp add: unsigned_ucast_eq uint32_range take_bit_int_eq_self_iff) (use uint32_range(2)[of x] in simp)

lemma uint_mul64: "uint ((ucast (x :: u32) :: u64) * ucast (y :: u32)) = uint x * uint y"
proof -
  have "uint x * uint y < 2 ^ 32 * 2 ^ 32"
    by (rule mult_strict_mono) (use uint32_range in auto)
  then show ?thesis by (simp add: uint_word_ariths uint_u64)
qed

lemma uint_low32: "uint (x :: u64) < 2 ^ 32 \<Longrightarrow> uint (ucast x :: u32) = uint x"
  by (simp add: unsigned_ucast_eq take_bit_int_eq_self_iff)

lemma mulhu_result: "result (L_MULHU cx inst a b c s) a =
    Some (word_of_int (uint (R s b) * uint (R s c) div 2 ^ 32))"
proof -
  let ?p = "(ucast (R s b) :: u64) * ucast (R s c)"
  have "uint (drop_bit 32 ?p) = uint (R s b) * uint (R s c) div 2 ^ 32"
    unfolding drop_bit_eq_div uint_div_distrib uint_mul64 by simp
  then have "(ucast (drop_bit 32 ?p) :: u32) = word_of_int (uint (R s b) * uint (R s c) div 2 ^ 32)"
    by (metis (no_types) ucast_eq)
  then show ?thesis by (simp add: L_MULHU_def)
qed

lemma umul_high_low:
  assumes "0 \<le> p" "p < 2 ^ 64"
  shows "uint (word_of_int (p div 2 ^ 32) :: u32) * 2 ^ 32 + uint (word_of_int p :: u32) = p"
proof -
  have "0 \<le> p div 2 ^ 32" "p div 2 ^ 32 < 2 ^ 32" using assms by simp_all
  then have "uint (word_of_int (p div 2 ^ 32) :: u32) = p div 2 ^ 32" by (simp add: uint_word_of_int)
  moreover have "uint (word_of_int p :: u32) = p mod 2 ^ 32" by (simp add: uint_word_of_int)
  ultimately show ?thesis by simp
qed

text \<open>C15. \<open>MUL\<close> with \<open>MULH\<close> (signed) and with \<open>MULHU\<close> (unsigned) are the two halves of the exact
  64-bit product.\<close>

theorem wide_multiply:
  "\<exists>lo hi hu. result (L_MUL cx inst a b c s) a = Some lo \<and> result (L_MULH cx inst a b c s) a = Some hi
    \<and> result (L_MULHU cx inst a b c s) a = Some hu
    \<and> sint hi * 2 ^ 32 + uint lo = sint (R s b) * sint (R s c)
    \<and> uint hu * 2 ^ 32 + uint lo = uint (R s b) * uint (R s c)"
proof -
  let ?x = "R s b" and ?y = "R s c"
  have u: "0 \<le> uint ?x * uint ?y" "uint ?x * uint ?y < 2 ^ 64"
    using uint_mul64 [of ?x ?y] uint_range_size [of "(ucast ?x :: u64) * ucast ?y"] by (simp_all add: word_size)
  have "?x * ?y = word_of_int (uint ?x * uint ?y)" by simp
  then have "uint (word_of_int (uint ?x * uint ?y div 2 ^ 32) :: u32) * 2 ^ 32 + uint (?x * ?y) = uint ?x * uint ?y"
    using umul_high_low [OF u] by (simp only:)
  moreover have "sint (word_of_int (sint ?x * sint ?y div 2 ^ 32) :: u32) * 2 ^ 32 + uint (?x * ?y) = sint ?x * sint ?y"
    using mul_high_low [of "sint ?x * sint ?y"] mulh_range [of ?x ?y] unfolding word_mult_of_int [of ?x ?y]
    by blast
  ultimately show ?thesis unfolding mulh_result mulhu_result by (simp add: L_MUL_def)
qed

lemma uint_low64: "uint (ucast (x :: u64) :: u32) = uint x mod 2 ^ 32"
  by (simp add: unsigned_ucast_eq take_bit_eq_mod)

lemma q1616_result: "R s c \<noteq> 0 \<Longrightarrow>
  map_option uint (result (L_QDIV1616 cx inst a b c s) a) =
    Some (uint (R s b) * 2 ^ 16 div uint (R s c) mod 2 ^ 32)"
proof -
  assume nz: "R s c \<noteq> 0"
  have "uint (push_bit 16 (ucast (R s b) :: u64)) = uint (R s b) * 2 ^ 16"
    using uint32_range(2) [of "R s b"] unfolding push_bit_eq_mult
    by (simp add: uint_word_ariths uint_u64)
  with nz show ?thesis by (simp add: L_QDIV1616_def uint_low64 uint_div_distrib uint_u64 del: push_bit_numeral)
qed
lemma hilo: "uint (push_bit 32 (ucast (hi :: u32) :: u64) OR ucast (lo :: u32)) = uint hi * 2 ^ 32 + uint lo"
proof -
  have "push_bit 32 (ucast hi :: u64) OR ucast lo = push_bit 32 (ucast hi) + ucast lo"
    by (rule disjunctive_add [symmetric]) (auto simp: bit_simps dest: bit_imp_le_length)
  moreover have "uint (push_bit 32 (ucast hi :: u64)) = uint hi * 2 ^ 32"
    using uint32_range(2) [of hi] unfolding push_bit_eq_mult
    by (simp add: uint_word_ariths uint_u64)
  ultimately show ?thesis using uint32_range [of hi] uint32_range [of lo]
    by (simp only: uint_word_ariths uint_u64) simp
qed

lemma q6432_result: "R s c \<noteq> 0 \<Longrightarrow>
  map_option uint (result (L_QDIV6432 cx inst a b c s) a) =
    Some ((uint (R s a) * 2 ^ 32 + uint (R s b)) div uint (R s c) mod 2 ^ 32)"
  by (simp only: L_QDIV6432_def if_False result_set option.map uint_low64 uint_div_distrib hilo uint_u64)

text \<open>The fixed-point divisions are the exact 48-bit and 64-bit quotients, truncated to 32
  bits; a zero divisor traps.\<close>

theorem fixed_point_divide:
  "if R s c = 0 then L_QDIV1616 cx inst a b c s = Trap CVM_E_DIV_BY_ZERO s
      \<and> L_QDIV6432 cx inst a b c s = Trap CVM_E_DIV_BY_ZERO s
   else map_option uint (result (L_QDIV1616 cx inst a b c s) a) =
          Some (uint (R s b) * 2 ^ 16 div uint (R s c) mod 2 ^ 32)
      \<and> map_option uint (result (L_QDIV6432 cx inst a b c s) a) =
          Some ((uint (R s a) * 2 ^ 32 + uint (R s b)) div uint (R s c) mod 2 ^ 32)"
  using q1616_result [of s c] q6432_result [of s c] by (simp add: L_QDIV1616_def L_QDIV6432_def)

lemma div_mod_word:
  assumes "R s c \<noteq> 0" "\<not> (R s b = 0x80000000 \<and> R s c = - 1)"
  shows "result (L_DIV cx inst a b c s) a = Some (word_of_int (sint (R s b) sdiv sint (R s c)))"
    "sint (word_of_int (sint (R s b) sdiv sint (R s c)) :: u32) = sint (R s b) sdiv sint (R s c)"
    "result (L_MOD cx inst a b c s) a = Some (word_of_int (sint (R s b) smod sint (R s c)))"
    "sint (word_of_int (sint (R s b) smod sint (R s c)) :: u32) = sint (R s b) smod sint (R s c)"
proof -
  note q = sdiv_i32 [OF assms(2,1)]
  show "result (L_DIV cx inst a b c s) a = Some (word_of_int (sint (R s b) sdiv sint (R s c)))"
    "result (L_MOD cx inst a b c s) a = Some (word_of_int (sint (R s b) smod sint (R s c)))"
    using q assms by (auto simp: L_DIV_def L_MOD_def Let_def)
  show "sint (word_of_int (sint (R s b) sdiv sint (R s c)) :: u32) = sint (R s b) sdiv sint (R s c)"
    using q by (intro sint_word_of_int32) (simp_all add: in_i32_def)
  have "\<bar>sint (R s b) smod sint (R s c)\<bar> < \<bar>sint (R s c)\<bar>"
    using assms(1) sint_eqs(3) [of "R s c"] smod_int_range [of "sint (R s c)" "sint (R s b)"] by (auto simp: abs_if)
  moreover have "\<bar>sint (R s c)\<bar> \<le> 2 ^ 31" using sint32_range [of "R s c"] by (simp add: abs_le_iff)
  ultimately show "sint (word_of_int (sint (R s b) smod sint (R s c)) :: u32) = sint (R s b) smod sint (R s c)"
    by (intro sint_word_of_int32) linarith+
qed

lemma smod_sign:
  assumes "(y :: int) \<noteq> 0" shows "\<bar>x smod y\<bar> < \<bar>y\<bar>" "0 \<le> x smod y * x"
proof -
  show "\<bar>x smod y\<bar> < \<bar>y\<bar>" using smod_int_range [OF assms, of x] by auto
  have "x \<ge> 0 \<Longrightarrow> x smod y \<ge> 0" "x \<le> 0 \<Longrightarrow> x smod y \<le> 0"
    using smod_int_compares(2,4,6,7) [of x y] assms by (auto simp: neq_iff)
  then show "0 \<le> x smod y * x" by (cases "x \<ge> 0") (auto simp: zero_le_mult_iff)
qed

text \<open>C14. Division. \<open>DIV\<close> and \<open>MOD\<close> are the truncating quotient and the remainder with the sign of
  the dividend (the identity holds over the integers except for \<open>INT32_MIN / -1\<close>, where it holds
  modulo \<open>2^32\<close>), \<open>DIVU\<close> and \<open>MODU\<close> the unsigned ones; a zero divisor traps in all four.\<close>

theorem division_correct:
  "if R s c = 0 then L_DIV cx inst a b c s = Trap CVM_E_DIV_BY_ZERO s
      \<and> L_MOD cx inst a b c s = Trap CVM_E_DIV_BY_ZERO s
      \<and> L_DIVU cx inst a b c s = Trap CVM_E_DIV_BY_ZERO s
      \<and> L_MODU cx inst a b c s = Trap CVM_E_DIV_BY_ZERO s
   else \<exists>q r qu ru. result (L_DIV cx inst a b c s) a = Some q
      \<and> result (L_MOD cx inst a b c s) a = Some r
      \<and> result (L_DIVU cx inst a b c s) a = Some qu \<and> result (L_MODU cx inst a b c s) a = Some ru
      \<and> R s b = q * R s c + r \<and> \<bar>sint r\<bar> < \<bar>sint (R s c)\<bar> \<and> 0 \<le> sint r * sint (R s b)
      \<and> (sint (R s b) = sint q * sint (R s c) + sint r) = (\<not> (R s b = 0x80000000 \<and> R s c = - 1))
      \<and> uint (R s b) = uint qu * uint (R s c) + uint ru \<and> ru < R s c"
proof (cases "R s c = 0")
  case True
  then show ?thesis by (simp add: L_DIV_def L_MOD_def L_DIVU_def L_MODU_def)
next
  case nz: False
  let ?x = "R s b" and ?y = "R s c"
  have "0 < uint ?y" using nz word_gt_0 [of ?y] by (simp add: word_less_def)
  then have u: "uint ?x = uint (?x div ?y) * uint ?y + uint (?x mod ?y)" "?x mod ?y < ?y"
    by (simp_all add: uint_div_distrib uint_mod_distrib word_less_def)
  have ur: "result (L_DIVU cx inst a b c s) a = Some (?x div ?y)"
    "result (L_MODU cx inst a b c s) a = Some (?x mod ?y)"
    using nz by (simp_all add: L_DIVU_def L_MODU_def)
  have "\<exists>q r. result (L_DIV cx inst a b c s) a = Some q \<and> result (L_MOD cx inst a b c s) a = Some r
      \<and> ?x = q * ?y + r \<and> \<bar>sint r\<bar> < \<bar>sint ?y\<bar> \<and> 0 \<le> sint r * sint ?x
      \<and> (sint ?x = sint q * sint ?y + sint r) = (\<not> (?x = 0x80000000 \<and> ?y = - 1))"
  proof (cases "?x = 0x80000000 \<and> ?y = - 1")
    case True
    then show ?thesis by (simp add: L_DIV_def L_MOD_def)
  next
    case False
    note d = div_mod_word [OF nz False]
    let ?q = "sint ?x sdiv sint ?y" and ?r = "sint ?x smod sint ?y"
    have id: "sint ?x = ?q * sint ?y + ?r" by (rule sdiv_mult_smod_eq [symmetric])
    have "word_of_int (sint ?x) = (word_of_int (?q * sint ?y + ?r) :: u32)" using id by simp
    moreover have "word_of_int (sint z) = z" for z :: u32 by simp
    ultimately have "?x = word_of_int ?q * ?y + word_of_int ?r"
      by (simp only: wi_hom_syms of_int_add of_int_mult)
    moreover have "sint ?y \<noteq> 0" using nz by (simp add: sint_eqs)
    then have "\<bar>?r\<bar> < \<bar>sint ?y\<bar>" "0 \<le> ?r * sint ?x"
      by (rule smod_sign)+
    ultimately show ?thesis using False d id by auto
  qed
  with u ur nz show ?thesis by auto
qed

section \<open>Memory\<close>

text \<open>Nothing outside \<open>n\<close> bytes at \<open>a\<close> has changed.\<close>

definition agree_outside :: "mem \<Rightarrow> mem \<Rightarrow> nat \<Rightarrow> nat \<Rightarrow> bool" where
  "agree_outside m m' a n \<longleftrightarrow> length m' = length m \<and> take a m' = take a m \<and> drop (a + n) m' = drop (a + n) m"

lemma agree_refl [simp]: "agree_outside m m a n"
  by (simp add: agree_outside_def)

lemma agree_nth:
  "agree_outside m m' a n \<longleftrightarrow> length m' = length m
     \<and> (\<forall>i < length m. i < a \<or> a + n \<le> i \<longrightarrow> m' ! i = m ! i)"
proof (intro iffI conjI allI impI)
  fix i assume ag: "agree_outside m m' a n" and i: "i < length m" "i < a \<or> a + n \<le> i"
  let ?v = "\<lambda>x. if i < a then take a x ! i else drop (a + n) x ! (i - (a + n))"
  have eq: "x ! i = ?v x"
    if "length x = length m" for x
    using that i by auto
  have "m' ! i = ?v m'" by (rule eq) (use ag in \<open>simp add: agree_outside_def\<close>)
  also have "\<dots> = ?v m" using ag by (simp only: agree_outside_def)
  also have "\<dots> = m ! i" by (rule eq [symmetric]) simp
  finally show "m' ! i = m ! i" .
next
  assume r: "length m' = length m \<and> (\<forall>i < length m. i < a \<or> a + n \<le> i \<longrightarrow> m' ! i = m ! i)"
  then show "agree_outside m m' a n" by (auto simp: agree_outside_def list_eq_iff_nth_eq)
qed (simp add: agree_outside_def)

lemma mem_wr_agree: "mem_wr m a bs = Some m' \<Longrightarrow> length bs \<le> n \<Longrightarrow> agree_outside m m' a n"
  by (auto simp: mem_wr_nth agree_nth)

lemma agree_trans: "agree_outside m m1 a n \<Longrightarrow> agree_outside m1 m2 a n \<Longrightarrow> agree_outside m m2 a n"
  by (simp add: agree_outside_def)

lemma agree_widen: "agree_outside m m' a n \<Longrightarrow> b \<le> a \<Longrightarrow> a + n \<le> b + k \<Longrightarrow> agree_outside m m' b k"
  by (auto simp: agree_nth)

lemma wr32_agree: "wr32 m a v = Some m' \<Longrightarrow> agree_outside m m' a 4"
  unfolding wr32_def by (erule mem_wr_agree) simp

lemma put_cells_twice [simp]: "put_cells (put_cells b m) m' = put_cells b m'"
  by (cases b) (simp_all add: put_cells_def)

lemma set_heap_twice [simp]: "set_heap (set_heap s m) m' = set_heap s m'"
  by (simp add: set_heap_def)

text \<open>A store that fits, as a rewrite.\<close>

lemma store_eq:
  assumes "vm_ok cx s" "a + 4 \<le> unat (cx_mem_size cx)"
  obtains m where "wr32 (heap_of s) a v = Some m" "store s a v k = k (set_heap s m)"
    "vm_ok cx (set_heap s m)" "heap_of (set_heap s m) = m" "rd32 m a = Some v"
    "agree_outside (heap_of s) m a 4"
proof -
  obtain m where m: "wr32 (heap_of s) a v = Some m"
    using assms heap32.st_defined_iff [of "heap_of s" a v] by (auto simp: vm_ok_heap)
  show thesis
    by (rule that [OF m]) (use m assms in \<open>simp_all add: store_def vm_ok_set_heap write_length
      heap32.ld_st_same [OF m] wr32_agree [OF m]\<close>)
qed

text \<open>The word written by \<open>STW\<close>, in memory order, byte by byte.\<close>

lemma mem_rd_sub: "mem_rd m a n = Some bs \<Longrightarrow> i + k \<le> n \<Longrightarrow> mem_rd m (a + i) k = Some (take k (drop i bs))"
  by (auto simp: mem_rd_nth add.assoc)

lemma unat_plus_small: "unat (p :: u32) + k < 2 ^ 32 \<Longrightarrow> unat (p + of_nat k) = unat p + k"
  by (simp add: unat_word_ariths unat_of_nat)

lemma ucast_low: "ucast (ucast (v :: u32) :: u16) = v AND 0xFFFF" "ucast (ucast (v :: u32) :: u8) = v AND 0xFF"
proof -
  have m: "(0xFFFF :: u32) = mask 16" "(0xFF :: u32) = mask 8" by (simp_all add: mask_eq_exp_minus_1)
  show "ucast (ucast (v :: u32) :: u16) = v AND 0xFFFF" "ucast (ucast (v :: u32) :: u8) = v AND 0xFF"
    unfolding m by (rule bit_word_eqI; auto simp: bit_simps)+
qed

text \<open>C19. A word stored by \<open>STW\<close> is what \<open>LDW\<close>, \<open>LDH\<close> and \<open>LDB\<close> at the same address read later
  while memory is unchanged (the narrow loads zero-extend its low bytes), and the store changes
  no other byte.\<close>

theorem store_load:
  assumes "vm_ok cx s" "L_STW cx i a b c s = Running s1" "R s2 b2 = R s b" "heap_of s2 = heap_of s1"
  shows "L_LDW cx i2 a2 b2 c2 s2 = Running (set_R s2 a2 (R s c))
    \<and> L_LDH cx i2 a2 b2 c2 s2 = Running (set_R s2 a2 (R s c AND 0xFFFF))
    \<and> L_LDB cx i2 a2 b2 c2 s2 = Running (set_R s2 a2 (R s c AND 0xFF))
    \<and> agree_outside (heap_of s) (heap_of s1) (unat (R s b)) 4"
proof (intro conjI)
  have fit: "\<not> oob cx (R s b) 4" using assms(2) by (auto simp: L_STW_def Let_def)
  then have le: "unat (R s b) + 4 \<le> unat (cx_mem_size cx)" using oob_range by fastforce
  obtain m where m: "wr32 (heap_of s) (unat (R s b)) (R s c) = Some m" "s1 = set_heap s m"
    "heap_of s1 = m" "agree_outside (heap_of s) m (unat (R s b)) 4"
    by (rule store_eq [OF assms(1) le, of "R s c" Running])
      (use assms(2) fit in \<open>auto simp: L_STW_def Let_def\<close>)
  have r4: "mem_rd m (unat (R s b)) 4 = Some (to_le32 (R s c))"
    using m(1) heap.rd_wr_same [of "heap_of s" _ "to_le32 (R s c)" m] by (simp add: wr32_def)
  show "agree_outside (heap_of s) (heap_of s1) (unat (R s b)) 4" using m by simp
  show "L_LDW cx i2 a2 b2 c2 s2 = Running (set_R s2 a2 (R s c))"
    using fit r4 m(3) assms(3,4) by (simp add: L_LDW_def Let_def load_def rd32_def)
  have "\<not> oob cx (R s b) 2" using le by (simp add: oob_iff)
  moreover have "rd16 m (unat (R s b)) = Some (ucast (R s c))"
    using mem_rd_sub [OF r4, of 0 2]
    by (auto simp: rd16_def to_le32_def bit_simps intro!: bit_word_eqI)
  moreover have "ucast (ucast (R s c) :: u16) = R s c AND 0xFFFF" by (rule ucast_low)
  ultimately show "L_LDH cx i2 a2 b2 c2 s2 = Running (set_R s2 a2 (R s c AND 0xFFFF))"
    using m(3) assms(3,4) by (simp add: L_LDH_def Let_def)
  have "R s b < cx_mem_size cx" using le by (simp add: word_arith)
  moreover have "rd8 m (unat (R s b)) = Some (ucast (R s c))"
    using mem_rd_sub [OF r4, of 0 1] by (simp add: rd8_def to_le32_def)
  moreover have "ucast (ucast (R s c) :: u8) = R s c AND 0xFF" by (rule ucast_low)
  ultimately show "L_LDB cx i2 a2 b2 c2 s2 = Running (set_R s2 a2 (R s c AND 0xFF))"
    using m(3) assms(3,4) by (simp add: L_LDB_def Let_def)
qed

theorem store_load_witness:
  "\<exists>s s1. L_STW (demo_ctx [0]) 0 0 1 2 s = Running s1
    \<and> L_LDW (demo_ctx [0]) 0 3 1 0 s1 = Running (set_R s1 3 0x12345678)"
proof -
  let ?s = "demo_vm [0] (replicate 48 0) ((\<lambda>_. 0)(1 := 8, 2 := 0x12345678))"
  have ok: "vm_ok (demo_ctx [0]) ?s" by (rule demo_ok) simp_all
  have "next_of (L_STW (demo_ctx [0]) 0 0 1 2 ?s) \<noteq> None" by code_simp
  then obtain s1 where s1: "L_STW (demo_ctx [0]) 0 0 1 2 ?s = Running s1" using next_ofE by blast
  have "R s1 1 = R ?s 1" "R ?s 2 = 0x12345678"
    using s1 by (auto simp: L_STW_def store_def demo_vm_def Let_def split: if_splits option.splits)
  then show ?thesis using s1 store_load [OF ok s1, of s1 1 0 3 0] by auto
qed

section \<open>Calls\<close>

lemma do_call_Running:
  assumes "vm_ok cx s" "do_call cx fid s = Running s1"
  obtains m where "fid \<noteq> 0" "fid < cx_func_count cx" "unat (R s 255 - 4) + 4 \<le> unat (cx_mem_size cx)"
    "s1 = set_pc (set_R (set_heap s m) 255 (R s 255 - 4)) (cx_func_offsets cx ! unat fid)"
    "heap_of s1 = m" "rd32 m (unat (R s 255 - 4)) = Some (vm_pc s)"
    "agree_outside (heap_of s) m (unat (R s 255 - 4)) 4"
proof -
  have g: "fid \<noteq> 0" "fid < cx_func_count cx" "\<not> R s 255 < 4" "\<not> R s 255 > cx_mem_size cx"
    using assms(2) by (auto simp: do_call_def Let_def split: if_splits)
  then have sp: "unat (R s 255 - 4) + 4 \<le> unat (cx_mem_size cx)"
    by (simp add: not_less unat_sub_le) (simp add: word_arith)
  have "at (cx_func_offsets cx) (unat fid) = Some (cx_func_offsets cx ! unat fid)"
    using g(2) vm_ok_funcs [OF assms(1)] by (simp add: word_arith)
  with assms(2) g have "store s (unat (R s 255 - 4)) (vm_pc s) (\<lambda>s1. Running (set_pc (set_R s1 255 (R s 255 - 4))
      (cx_func_offsets cx ! unat fid))) = Running s1"
    by (auto simp: do_call_def Let_def split: if_splits)
  moreover obtain m where m: "store s (unat (R s 255 - 4)) (vm_pc s) (\<lambda>s1. Running (set_pc (set_R s1 255 (R s 255 - 4))
      (cx_func_offsets cx ! unat fid)))
      = Running (set_pc (set_R (set_heap s m) 255 (R s 255 - 4)) (cx_func_offsets cx ! unat fid))"
    "heap_of (set_heap s m) = m" "rd32 m (unat (R s 255 - 4)) = Some (vm_pc s)"
    "agree_outside (heap_of s) m (unat (R s 255 - 4)) 4"
    by (rule store_eq [OF assms(1) sp])
  ultimately have "s1 = set_pc (set_R (set_heap s m) 255 (R s 255 - 4)) (cx_func_offsets cx ! unat fid)"
    by simp
  with m g(1,2) sp show thesis by (intro that [of m]) simp_all
qed

text \<open>C9. Calls nest: after \<open>CALL\<close> or \<open>CALLR\<close> only \<open>SP\<close>, \<open>pc\<close> and the four bytes of the return
  slot have changed, and a \<open>RET\<close> executed later with the same \<open>SP\<close> and an intact slot continues
  behind the call with the caller's \<open>SP\<close>.\<close>

theorem call_return:
  assumes "vm_ok cx s" "pc_ok s" "do_call cx fid s = Running s1"
    "vm_ok cx s2" "R s2 255 = R s1 255"
    "rd32 (heap_of s2) (unat (R s1 255)) = rd32 (heap_of s1) (unat (R s1 255))"
  shows "vm_pc s1 = cx_func_offsets cx ! unat fid \<and> vm_R s1 = (vm_R s)(255 := R s 255 - 4)
    \<and> agree_outside (heap_of s) (heap_of s1) (unat (R s1 255)) 4
    \<and> L_RET cx i a b c s2 = Running (set_pc (set_R s2 255 (R s 255)) (vm_pc s))"
proof -
  obtain m where m: "fid \<noteq> 0" "fid < cx_func_count cx" "unat (R s 255 - 4) + 4 \<le> unat (cx_mem_size cx)"
    "s1 = set_pc (set_R (set_heap s m) 255 (R s 255 - 4)) (cx_func_offsets cx ! unat fid)"
    "heap_of s1 = m" "rd32 m (unat (R s 255 - 4)) = Some (vm_pc s)"
    "agree_outside (heap_of s) m (unat (R s 255 - 4)) 4"
    by (rule do_call_Running [OF assms(1,3)])
  have "vm_pc s \<noteq> 0xFFFFFFFF" using assms(2) by (auto simp: pc_ok_def)
  moreover have "\<not> oob cx (R s 255 - 4) 4" using m(3) by (simp add: oob_iff)
  moreover have "rd32 (heap_of s2) (unat (R s 255 - 4)) = Some (vm_pc s)"
    using assms(6) m(4-6) by simp
  ultimately have "L_RET cx i a b c s2 = Running (set_pc (set_R s2 255 (R s 255)) (vm_pc s))"
    using assms(5) m(4) by (simp add: L_RET_def Let_def load_def)
  with m show ?thesis by simp
qed

theorem call_return_witness:
  "\<exists>s s1. do_call (demo_ctx [0]) 1 s = Running s1 \<and> vm_pc s1 = 0
    \<and> L_RET (demo_ctx [0]) 0 0 0 0 s1 = Running (set_pc (set_R s1 255 44) 0)"
proof -
  let ?s = "demo_vm [0] (replicate 48 0) ((\<lambda>_. 0)(255 := 44))"
  have ok: "vm_ok (demo_ctx [0]) ?s" by (rule demo_ok) simp_all
  have "next_of (do_call (demo_ctx [0]) 1 ?s) \<noteq> None" by code_simp
  then obtain s1 where s1: "do_call (demo_ctx [0]) 1 ?s = Running s1" using next_ofE by blast
  have ok1: "vm_ok (demo_ctx [0]) s1" using do_call_ok [OF ok, of 1] s1 by simp
  have "R ?s 255 = 44" "vm_pc ?s = 0" by (simp_all add: demo_vm_def)
  moreover have "cx_func_offsets (demo_ctx [0]) ! unat (1 :: u32) = 0" by code_simp
  ultimately show ?thesis using call_return [OF ok demo_pc s1 ok1 refl refl, of 0 0 0 0] s1 by metis
qed

text \<open>The stack check of a call is against the whole memory, not the stack region: a call made with
  \<open>SP\<close> at the bottom of that region succeeds and overwrites the top of the heap.\<close>

theorem stack_overflow_unchecked:
  "\<exists>s s1. vm_ok (demo_ctx [0]) s \<and> R s 255 = img_heap_size (vm_img s)
    \<and> do_call (demo_ctx [0]) 1 s = Running s1
    \<and> take (unat (img_heap_size (vm_img s))) (heap_of s1) \<noteq> take (unat (img_heap_size (vm_img s))) (heap_of s)"
proof -
  let ?s = "demo_vm [0] (replicate 48 7) ((\<lambda>_. 0)(255 := 32))"
  have ok: "vm_ok (demo_ctx [0]) ?s" by (rule demo_ok) simp_all
  have "next_of (do_call (demo_ctx [0]) 1 ?s) \<noteq> None" by code_simp
  then obtain s1 where s1: "do_call (demo_ctx [0]) 1 ?s = Running s1" using next_ofE by blast
  have "R ?s 255 = img_heap_size (vm_img ?s)" "unat (img_heap_size (vm_img ?s)) = 32" by code_simp+
  moreover have "map_option (\<lambda>s1. take 32 (heap_of s1) = take 32 (heap_of ?s)) (next_of (do_call (demo_ctx [0]) 1 ?s)) = Some False"
    by code_simp
  then have "take 32 (heap_of s1) \<noteq> take 32 (heap_of ?s)" by (simp add: s1)
  ultimately show ?thesis using ok s1 by (intro exI [of _ ?s] exI [of _ s1]) simp
qed


section \<open>Non-local jumps\<close>

text \<open>Three words written front to back.\<close>

lemma store3_eq:
  assumes "vm_ok cx s" "a + 12 \<le> unat (cx_mem_size cx)"
  obtains m where
    "store s a x (\<lambda>s1. store s1 (a + 4) y (\<lambda>s2. store s2 (a + 8) z k)) = k (set_heap s m)"
    "vm_ok cx (set_heap s m)" "heap_of (set_heap s m) = m" "length m = length (heap_of s)"
    "rd32 m a = Some x" "rd32 m (a + 4) = Some y" "rd32 m (a + 8) = Some z"
    "agree_outside (heap_of s) m a 12"
proof -
  have fit: "a + 4 \<le> length (heap_of s)" "(a + 4) + 4 \<le> length (heap_of s)" "(a + 8) + 4 \<le> length (heap_of s)"
    using assms by (simp_all add: vm_ok_heap)
  obtain m1 where m1: "wr32 (heap_of s) a x = Some m1" "length m1 = length (heap_of s)"
    using heap32.st_SomeI [OF fit(1), of x] by blast
  obtain m2 where m2: "wr32 m1 (a + 4) y = Some m2" "length m2 = length (heap_of s)"
    using heap32.st_SomeI [of "a + 4" m1 y] fit(2) m1(2) by auto
  obtain m3 where m3: "wr32 m2 (a + 8) z = Some m3" "length m3 = length (heap_of s)"
    using heap32.st_SomeI [of "a + 8" m2 z] fit(3) m2(2) by auto
  have e: "agree_outside (heap_of s) m1 a 12" "agree_outside m1 m2 a 12" "agree_outside m2 m3 a 12"
    using wr32_agree [OF m1(1)] wr32_agree [OF m2(1)] wr32_agree [OF m3(1)]
    by (auto elim!: agree_widen)
  show thesis
    by (rule that [of m3])
      (use m1 m2 m3 assms e heap32.st3_ld3 [OF m1(1) m2(1) m3(1)] in
       \<open>auto simp: store_def vm_ok_set_heap intro: agree_trans\<close>)
qed

lemma setjmp_Running:
  assumes "vm_ok cx s" "L_SETJMP cx i a b c s = Running s1"
  obtains m where "unat (R s b) + 12 \<le> unat (cx_mem_size cx)" "s1 = set_R (set_heap s m) a 0"
    "heap_of s1 = m" "rd32 m (unat (R s b)) = Some (vm_pc s)"
    "rd32 m (unat (R s b) + 4) = Some (R s 255)" "rd32 m (unat (R s b) + 8) = Some (ucast a)"
    "agree_outside (heap_of s) m (unat (R s b)) 12"
proof -
  let ?k = "\<lambda>s3. Running (set_R s3 a 0)"
  have fit: "unat (R s b) + 12 \<le> unat (cx_mem_size cx)"
    using assms(2) by (auto simp: L_SETJMP_def Let_def oob_iff split: if_splits)
  obtain m where m: "store s (unat (R s b)) (vm_pc s) (\<lambda>s1. store s1 (unat (R s b) + 4) (R s 255)
      (\<lambda>s2. store s2 (unat (R s b) + 8) (ucast a) ?k)) = ?k (set_heap s m)"
    "heap_of (set_heap s m) = m" "rd32 m (unat (R s b)) = Some (vm_pc s)"
    "rd32 m (unat (R s b) + 4) = Some (R s 255)" "rd32 m (unat (R s b) + 8) = Some (ucast a)"
    "agree_outside (heap_of s) m (unat (R s b)) 12"
    by (rule store3_eq [OF assms(1) fit])
  have "s1 = set_R (set_heap s m) a 0"
    using assms(2) m(1) fit by (simp add: L_SETJMP_def Let_def oob_iff)
  with m fit show thesis by (intro that [of m]) simp_all
qed

lemma ucast_reg [simp]: "ucast (ucast (a :: u8) :: u32) = a" "\<not> (256 :: u32) \<le> ucast (a :: u8)"
proof -
  show "ucast (ucast (a :: u8) :: u32) = a" by (rule bit_word_eqI) (simp add: bit_simps)
  have "unat (ucast a :: u32) = unat a"
    using less_trans [OF unat_lt8 [of a], of "2 ^ 32"]
    by (simp add: unsigned_ucast_eq take_bit_nat_eq_self_iff)
  then show "\<not> (256 :: u32) \<le> ucast (a :: u8)" by (simp add: word_arith not_le)
qed

lemma same_words:
  assumes "mem_rd m' a n = mem_rd m a n" "k + 4 \<le> n" "a + n \<le> length m'"
  shows "rd32 m' (a + k) = rd32 m (a + k)"
proof -
  obtain bs where bs: "mem_rd m' a n = Some bs" using assms(3) by (simp add: mem_rd_def)
  then have "mem_rd m a n = Some bs" using assms(1) by simp
  from mem_rd_sub [OF this assms(2)] mem_rd_sub [OF bs assms(2)] show ?thesis by (simp add: rd32_def)
qed

text \<open>C8. \<open>SETJMP\<close> stores the resume point in the twelve bytes at its buffer and yields 0;
  a later \<open>LONGJMP\<close> on the intact buffer resumes behind the \<open>SETJMP\<close> with its \<open>SP\<close>, delivers the
  given value (1 for 0) in the \<open>SETJMP\<close>'s destination and leaves every other register and the
  memory alone.\<close>

theorem setjmp_longjmp:
  assumes "vm_ok cx s" "L_SETJMP cx i a b c s = Running s1"
    "vm_ok cx s2" "R s2 a2 = R s b"
    "mem_rd (heap_of s2) (unat (R s b)) 12 = mem_rd (heap_of s1) (unat (R s b)) 12"
  shows "vm_pc s1 = vm_pc s \<and> vm_R s1 = (vm_R s)(a := 0)
    \<and> agree_outside (heap_of s) (heap_of s1) (unat (R s b)) 12
    \<and> L_LONGJMP cx i2 a2 b2 c2 s2 =
        (if vm_pc s \<ge> cx_code_count cx then Trap CVM_E_BAD_PC s2
         else Running (s2\<lparr>vm_pc := vm_pc s,
           vm_R := (vm_R s2)(a := if R s2 b2 = 0 then 1 else R s2 b2, 255 := R s 255)\<rparr>))"
proof -
  obtain m where m: "unat (R s b) + 12 \<le> unat (cx_mem_size cx)" "s1 = set_R (set_heap s m) a 0"
    "heap_of s1 = m" "rd32 m (unat (R s b)) = Some (vm_pc s)"
    "rd32 m (unat (R s b) + 4) = Some (R s 255)" "rd32 m (unat (R s b) + 8) = Some (ucast a)"
    "agree_outside (heap_of s) m (unat (R s b)) 12"
    by (rule setjmp_Running [OF assms(1,2)])
  have "unat (R s b) + 12 \<le> length (heap_of s2)" using m(1) assms(3) by (simp add: vm_ok_heap)
  note same = same_words [OF assms(5) _ this]
  have "rd32 (heap_of s2) (unat (R s b)) = Some (vm_pc s)"
    "rd32 (heap_of s2) (unat (R s b) + 4) = Some (R s 255)"
    "rd32 (heap_of s2) (unat (R s b) + 8) = Some (ucast a)"
    using same [of 0] same [of 4] same [of 8] m(3-6) by simp_all
  then have "L_LONGJMP cx i2 a2 b2 c2 s2 =
        (if vm_pc s \<ge> cx_code_count cx then Trap CVM_E_BAD_PC s2
         else Running (s2\<lparr>vm_pc := vm_pc s,
           vm_R := (vm_R s2)(a := if R s2 b2 = 0 then 1 else R s2 b2, 255 := R s 255)\<rparr>))"
    using m(1) assms(4) by (simp add: L_LONGJMP_def Let_def oob_iff load_def set_R_def set_pc_def)
  with m show ?thesis by simp
qed

theorem setjmp_longjmp_witness:
  "\<exists>s s1 s2. L_SETJMP (demo_ctx [0]) 0 5 1 0 s = Running s1 \<and> L_LONGJMP (demo_ctx [0]) 0 1 6 0 s1 = Running s2
    \<and> R s1 5 = 0 \<and> R s2 5 = 1 \<and> vm_pc s2 = vm_pc s"
proof -
  let ?s = "demo_vm [0] (replicate 48 0) ((\<lambda>_. 0)(1 := 16, 255 := 44))"
  have ok: "vm_ok (demo_ctx [0]) ?s" by (rule demo_ok) simp_all
  have "next_of (L_SETJMP (demo_ctx [0]) 0 5 1 0 ?s) \<noteq> None" by code_simp
  then obtain s1 where s1: "L_SETJMP (demo_ctx [0]) 0 5 1 0 ?s = Running s1" using next_ofE by blast
  have ok1: "vm_ok (demo_ctx [0]) s1" using L_SETJMP_ok [OF ok, of 0 5 1 0] s1 by simp
  have r1: "vm_R s1 = (vm_R ?s)(5 := 0)" by (rule setjmp_Running [OF ok s1]) simp
  have f: "vm_pc ?s = 0" "cx_code_count (demo_ctx [0]) = 1" "R ?s 6 = 0" by code_simp+
  have "R s1 1 = R ?s 1" using r1 by simp
  from setjmp_longjmp [OF ok s1 ok1 this refl, of 0 6 0] f r1 s1 show ?thesis by force
qed

section \<open>Coroutines\<close>

text \<open>The status word of a coroutine record.\<close>

definition coro_status :: "'h vm \<Rightarrow> u32 \<Rightarrow> u32 option" where
  "coro_status s r = rd32 (heap_of s) (unat r + 12)"

text \<open>The guards a successful swap has passed, and the point at which \<open>to\<close> is entered.\<close>

lemma coro_Running:
  assumes "L_CORO_SWAP cx i a b c s = Running s1"
  obtains jstat jpc jsp jdst :: u32 where
    "unat (R s a) + 16 \<le> unat (cx_mem_size cx)" "unat (R s b) + 16 \<le> unat (cx_mem_size cx)"
    "R s a \<noteq> R s b" "coro_status s (R s b) = Some jstat" "jstat = 0 \<or> jstat = 2"
    "rd32 (heap_of s) (unat (R s b)) = Some jpc" "rd32 (heap_of s) (unat (R s b) + 4) = Some jsp"
    "rd32 (heap_of s) (unat (R s b) + 8) = Some jdst"
    "coro_switch a (R s a) (R s b) jstat
       (if jstat = 0 then cx_func_offsets cx ! unat jpc else jpc) jsp jdst s = Running s1"
    "jstat = 0 \<longrightarrow> jpc \<noteq> 0 \<and> jpc < cx_func_count cx \<and> jdst < 256
       \<and> cx_func_offsets cx ! unat jpc < cx_code_count cx"
    "jstat = 2 \<longrightarrow> jpc < cx_code_count cx"
proof -
  note a = assms [unfolded L_CORO_SWAP_def Let_def load_def]
  have g: "\<not> oob cx (R s a) 16" "\<not> oob cx (R s b) 16" "R s a \<noteq> R s b"
    using a by (auto split: if_splits)
  note a = a [simplified g if_False]
  obtain jstat where st: "rd32 (heap_of s) (unat (R s b) + 12) = Some jstat" "jstat = 0 \<or> jstat = 2"
    using a by (cases "rd32 (heap_of s) (unat (R s b) + 12)") (auto split: if_splits)
  obtain jpc jsp jdst where j: "rd32 (heap_of s) (unat (R s b)) = Some jpc"
    "rd32 (heap_of s) (unat (R s b) + 4) = Some jsp" "rd32 (heap_of s) (unat (R s b) + 8) = Some jdst"
    using a st by (auto split: option.splits if_splits)
  have fit: "unat (R s a) + 16 \<le> unat (cx_mem_size cx)" "unat (R s b) + 16 \<le> unat (cx_mem_size cx)"
    using g by (simp_all add: oob_iff)
  note a = a [simplified st j option.case]
  show thesis
  proof (cases "jstat = 0")
    case True
    with a have "jpc \<noteq> 0 \<and> jpc < cx_func_count cx \<and> jdst < 256
       \<and> cx_func_offsets cx ! unat jpc < cx_code_count cx
       \<and> coro_switch a (R s a) (R s b) 0 (cx_func_offsets cx ! unat jpc) jsp jdst s = Running s1"
      by (auto simp: at_def split: if_splits option.splits)
    with True show thesis by (intro that [OF fit g(3) _ st(2) j]) (simp_all add: coro_status_def st)
  next
    case False
    then have "jstat = 2" using st(2) by simp
    with a have "jpc < cx_code_count cx \<and> coro_switch a (R s a) (R s b) 2 jpc jsp jdst s = Running s1"
      by (auto split: if_splits)
    with \<open>jstat = 2\<close> show thesis by (intro that [OF fit g(3) _ st(2) j]) (simp_all add: coro_status_def st)
  qed
qed

text \<open>Two records of \<open>n\<close> bytes that do not overlap.\<close>

definition apart :: "u32 \<Rightarrow> u32 \<Rightarrow> nat \<Rightarrow> bool" where
  "apart x y n \<longleftrightarrow> unat x + n \<le> unat y \<or> unat y + n \<le> unat x"

lemma agree_rd32: "agree_outside m m' a n \<Longrightarrow> b + 4 \<le> a \<or> a + n \<le> b \<Longrightarrow> rd32 m' b = rd32 m b"
  unfolding rd32_def by (subst mem_rd_eqI [of m' m]) (auto simp: agree_nth)

lemma coro_switch_eq:
  assumes "vm_ok cx s" "unat f + 16 \<le> unat (cx_mem_size cx)" "unat t + 16 \<le> unat (cx_mem_size cx)"
  obtains m where
    "coro_switch a f t jstat pc sp dst s = Running (s\<lparr>vm_pc := pc,
       vm_R := (if jstat = 0 then (vm_R s)(ucast dst := t) else vm_R s)(255 := sp),
       vm_img := vm_img (set_heap s m)\<rparr>)"
    "heap_of (set_heap s m) = m"
    "rd32 m (unat t + 12) = Some 1"
    "apart f t 16 \<longrightarrow> rd32 m (unat f) = Some (vm_pc s) \<and> rd32 m (unat f + 4) = Some (R s 255)
       \<and> rd32 m (unat f + 8) = Some (ucast a) \<and> rd32 m (unat f + 12) = Some 2"
    "\<forall>b. (b + 4 \<le> unat f \<or> unat f + 16 \<le> b) \<and> (b + 4 \<le> unat t + 12 \<or> unat t + 16 \<le> b) \<longrightarrow>
       rd32 m b = rd32 (heap_of s) b"
proof -
  let ?f = "unat f" and ?t = "unat t"
  let ?k5 = "\<lambda>s5. Running (set_pc (set_R (if jstat = 0 then set_R s5 (ucast dst) t else s5) 255 sp) pc)"
  let ?k4 = "\<lambda>s4. store s4 (?t + 12) 1 ?k5"
  let ?k3 = "\<lambda>s3. store s3 (?f + 12) 2 ?k4"
  have "?f + 12 \<le> unat (cx_mem_size cx)" using assms(2) by simp
  then obtain m3 where m3: "store s ?f (vm_pc s) (\<lambda>s1. store s1 (?f + 4) (R s 255)
      (\<lambda>s2. store s2 (?f + 8) (ucast a) ?k3)) = ?k3 (set_heap s m3)"
    "vm_ok cx (set_heap s m3)" "heap_of (set_heap s m3) = m3" "length m3 = length (heap_of s)"
    "rd32 m3 ?f = Some (vm_pc s)" "rd32 m3 (?f + 4) = Some (R s 255)" "rd32 m3 (?f + 8) = Some (ucast a)"
    "agree_outside (heap_of s) m3 ?f 12"
    by (rule store3_eq [OF assms(1)])
  have "(?f + 12) + 4 \<le> unat (cx_mem_size cx)" using assms(2) by simp
  then obtain m4 where m4: "wr32 (heap_of (set_heap s m3)) (?f + 12) 2 = Some m4"
    "?k3 (set_heap s m3) = ?k4 (set_heap (set_heap s m3) m4)"
    "vm_ok cx (set_heap (set_heap s m3) m4)" "heap_of (set_heap (set_heap s m3) m4) = m4"
    "rd32 m4 (?f + 12) = Some 2" "agree_outside (heap_of (set_heap s m3)) m4 (?f + 12) 4"
    by (rule store_eq [OF m3(2)])
  have "(?t + 12) + 4 \<le> unat (cx_mem_size cx)" using assms(3) by simp
  then obtain m5 where m5: "wr32 (heap_of (set_heap (set_heap s m3) m4)) (?t + 12) 1 = Some m5"
    "?k4 (set_heap (set_heap s m3) m4) = ?k5 (set_heap (set_heap (set_heap s m3) m4) m5)"
    "vm_ok cx (set_heap (set_heap (set_heap s m3) m4) m5)"
    "heap_of (set_heap (set_heap (set_heap s m3) m4) m5) = m5"
    "rd32 m5 (?t + 12) = Some 1" "agree_outside (heap_of (set_heap (set_heap s m3) m4)) m5 (?t + 12) 4"
    by (rule store_eq [OF m4(3)])
  note a3 = m3(8) and a4 = m4(6) [unfolded m3(3)] and a5 = m5(6) [unfolded m4(4)]
  show thesis
  proof (rule that [of m5])
    show "coro_switch a f t jstat pc sp dst s = Running (s\<lparr>vm_pc := pc,
       vm_R := (if jstat = 0 then (vm_R s)(ucast dst := t) else vm_R s)(255 := sp),
       vm_img := vm_img (set_heap s m5)\<rparr>)"
      using m3(1) m4(2) m5(2) by (simp add: coro_switch_def Let_def set_R_def set_pc_def set_heap_def)
    show "heap_of (set_heap s m5) = m5" "rd32 m5 (?t + 12) = Some 1" using m5(4,5) by simp_all
    show "apart f t 16 \<longrightarrow> rd32 m5 ?f = Some (vm_pc s) \<and> rd32 m5 (?f + 4) = Some (R s 255)
       \<and> rd32 m5 (?f + 8) = Some (ucast a) \<and> rd32 m5 (?f + 12) = Some 2"
      using m3(5-7) m4(5) agree_rd32 [OF a5] agree_rd32 [OF a4] by (auto simp: apart_def)
    show "\<forall>b. (b + 4 \<le> ?f \<or> ?f + 16 \<le> b) \<and> (b + 4 \<le> ?t + 12 \<or> ?t + 16 \<le> b) \<longrightarrow>
       rd32 m5 b = rd32 (heap_of s) b"
      using agree_rd32 [OF a5] agree_rd32 [OF a4] agree_rd32 [OF a3] by auto
  qed
qed


text \<open>Everything a successful swap does, from its guards to the state it leaves.\<close>

lemma coro_swap_result:
  assumes "vm_ok cx s" "L_CORO_SWAP cx i a b c s = Running s1"
  obtains jstat jpc jsp jdst :: u32 where
    "unat (R s a) + 16 \<le> unat (cx_mem_size cx)"
    "coro_status s (R s b) = Some jstat" "jstat = 0 \<or> jstat = 2"
    "rd32 (heap_of s) (unat (R s b)) = Some jpc" "rd32 (heap_of s) (unat (R s b) + 4) = Some jsp"
    "rd32 (heap_of s) (unat (R s b) + 8) = Some jdst"
    "vm_pc s1 = (if jstat = 0 then cx_func_offsets cx ! unat jpc else jpc)"
    "vm_pc s1 < cx_code_count cx"
    "vm_R s1 = (if jstat = 0 then (vm_R s)(ucast jdst := R s b) else vm_R s)(255 := jsp)"
    "jstat = 0 \<longrightarrow> unat jpc < length (cx_func_offsets cx)"
    "coro_status s1 (R s b) = Some 1"
    "apart (R s a) (R s b) 16 \<longrightarrow> rd32 (heap_of s1) (unat (R s a)) = Some (vm_pc s)
       \<and> rd32 (heap_of s1) (unat (R s a) + 4) = Some (R s 255)
       \<and> rd32 (heap_of s1) (unat (R s a) + 8) = Some (ucast a)
       \<and> rd32 (heap_of s1) (unat (R s a) + 12) = Some 2"
    "\<forall>x. (x + 4 \<le> unat (R s a) \<or> unat (R s a) + 16 \<le> x)
       \<and> (x + 4 \<le> unat (R s b) + 12 \<or> unat (R s b) + 16 \<le> x) \<longrightarrow>
       rd32 (heap_of s1) x = rd32 (heap_of s) x"
proof (rule coro_Running [OF assms(2)])
  fix jstat jpc jsp jdst :: u32
  let ?pc = "if jstat = 0 then cx_func_offsets cx ! unat jpc else jpc"
  assume j: "unat (R s a) + 16 \<le> unat (cx_mem_size cx)" "unat (R s b) + 16 \<le> unat (cx_mem_size cx)"
    "R s a \<noteq> R s b" "coro_status s (R s b) = Some jstat" "jstat = 0 \<or> jstat = 2"
    "rd32 (heap_of s) (unat (R s b)) = Some jpc" "rd32 (heap_of s) (unat (R s b) + 4) = Some jsp"
    "rd32 (heap_of s) (unat (R s b) + 8) = Some jdst"
    "coro_switch a (R s a) (R s b) jstat ?pc jsp jdst s = Running s1"
    "jstat = 0 \<longrightarrow> jpc \<noteq> 0 \<and> jpc < cx_func_count cx \<and> jdst < 256
       \<and> cx_func_offsets cx ! unat jpc < cx_code_count cx"
    "jstat = 2 \<longrightarrow> jpc < cx_code_count cx"
  obtain m where m:
    "coro_switch a (R s a) (R s b) jstat ?pc jsp jdst s = Running (s\<lparr>vm_pc := ?pc,
       vm_R := (if jstat = 0 then (vm_R s)(ucast jdst := R s b) else vm_R s)(255 := jsp),
       vm_img := vm_img (set_heap s m)\<rparr>)"
    "heap_of (set_heap s m) = m" "rd32 m (unat (R s b) + 12) = Some 1"
    "apart (R s a) (R s b) 16 \<longrightarrow> rd32 m (unat (R s a)) = Some (vm_pc s)
       \<and> rd32 m (unat (R s a) + 4) = Some (R s 255)
       \<and> rd32 m (unat (R s a) + 8) = Some (ucast a) \<and> rd32 m (unat (R s a) + 12) = Some 2"
    "\<forall>x. (x + 4 \<le> unat (R s a) \<or> unat (R s a) + 16 \<le> x)
       \<and> (x + 4 \<le> unat (R s b) + 12 \<or> unat (R s b) + 16 \<le> x) \<longrightarrow> rd32 m x = rd32 (heap_of s) x"
    by (rule coro_switch_eq [OF assms(1) j(1,2)])
  have s1: "s1 = s\<lparr>vm_pc := ?pc,
       vm_R := (if jstat = 0 then (vm_R s)(ucast jdst := R s b) else vm_R s)(255 := jsp),
       vm_img := vm_img (set_heap s m)\<rparr>"
    using m(1) j(9) by simp
  then have h: "heap_of s1 = m" using m(2) by (simp add: heap_of_def)
  have f: "jstat = 0 \<longrightarrow> unat jpc < length (cx_func_offsets cx)"
    using j(10) vm_ok_funcs [OF assms(1)] by (simp add: word_arith)
  show thesis
    by (rule that [of jstat jpc jsp jdst, OF j(1,4-8) _ _ _ f])
      (use j(5,10,11) m(3-5) in \<open>auto simp: s1 h [unfolded s1] coro_status_def\<close>)
qed

text \<open>A fresh coroutine at 16, swapped to from the record at 0.\<close>

definition coro_demo :: "unit vm" where
  "coro_demo = demo_vm [0] (replicate 16 0 @ [1, 0, 0, 0, 40, 0, 0, 0, 3, 0, 0, 0, 0, 0, 0, 0] @ replicate 16 0)
     ((\<lambda>_. 0)(1 := 16, 255 := 44))"

lemma coro_demo_facts:
  "vm_ok (demo_ctx [0]) coro_demo" "R coro_demo 0 = 0" "R coro_demo 1 = 16" "vm_pc coro_demo = 0"
  "coro_status coro_demo 16 = Some 0" "the (rd32 (heap_of coro_demo) 24) = 3"
  "vm_pc coro_demo < cx_code_count (demo_ctx [0])" "cx_mem_size (demo_ctx [0]) = 48"
  "next_of (L_CORO_SWAP (demo_ctx [0]) 0 0 1 0 coro_demo) \<noteq> None"
proof -
  show "vm_ok (demo_ctx [0]) coro_demo" unfolding coro_demo_def by (rule demo_ok) simp_all
qed code_simp+

text \<open>C6. A successful \<open>CORO_SWAP\<close> between records that do not overlap moves the statuses through
  the state machine: the target was fresh (0) or suspended (2) and becomes running (1), the
  source becomes suspended, every other record keeps its status; the target starts at its entry
  function with its record's address as argument, or continues at its saved \<open>pc\<close>, on its own
  stack pointer.\<close>

theorem coro_swap_states:
  assumes "vm_ok cx s" "L_CORO_SWAP cx i a b c s = Running s1" "apart (R s a) (R s b) 16"
  shows "coro_status s (R s b) \<in> {Some 0, Some 2}
    \<and> coro_status s1 (R s a) = Some 2 \<and> coro_status s1 (R s b) = Some 1
    \<and> vm_R s1 = (if coro_status s (R s b) = Some 0
         then (vm_R s)(ucast (the (rd32 (heap_of s) (unat (R s b) + 8))) := R s b) else vm_R s)
           (255 := the (rd32 (heap_of s) (unat (R s b) + 4)))
    \<and> Some (vm_pc s1) = (let w = the (rd32 (heap_of s) (unat (R s b))) in
        if coro_status s (R s b) = Some 0 then at (cx_func_offsets cx) (unat w) else Some w)
    \<and> vm_pc s1 < cx_code_count cx
    \<and> {r. coro_status s1 r \<noteq> coro_status s r \<and> apart r (R s a) 16 \<and> apart r (R s b) 16} = {}"
proof (rule coro_swap_result [OF assms(1,2)])
  fix jstat jpc jsp jdst :: u32
  assume r: "coro_status s (R s b) = Some jstat" "jstat = 0 \<or> jstat = 2"
    "rd32 (heap_of s) (unat (R s b)) = Some jpc" "rd32 (heap_of s) (unat (R s b) + 4) = Some jsp"
    "rd32 (heap_of s) (unat (R s b) + 8) = Some jdst"
    "vm_pc s1 = (if jstat = 0 then cx_func_offsets cx ! unat jpc else jpc)"
    "vm_pc s1 < cx_code_count cx"
    "vm_R s1 = (if jstat = 0 then (vm_R s)(ucast jdst := R s b) else vm_R s)(255 := jsp)"
    "jstat = 0 \<longrightarrow> unat jpc < length (cx_func_offsets cx)" "coro_status s1 (R s b) = Some 1"
    "apart (R s a) (R s b) 16 \<longrightarrow> rd32 (heap_of s1) (unat (R s a)) = Some (vm_pc s)
       \<and> rd32 (heap_of s1) (unat (R s a) + 4) = Some (R s 255)
       \<and> rd32 (heap_of s1) (unat (R s a) + 8) = Some (ucast a)
       \<and> rd32 (heap_of s1) (unat (R s a) + 12) = Some 2"
    "\<forall>x. (x + 4 \<le> unat (R s a) \<or> unat (R s a) + 16 \<le> x)
       \<and> (x + 4 \<le> unat (R s b) + 12 \<or> unat (R s b) + 16 \<le> x) \<longrightarrow>
       rd32 (heap_of s1) x = rd32 (heap_of s) x"
  have "coro_status s1 r = coro_status s r" if "apart r (R s a) 16" "apart r (R s b) 16" for r
    unfolding coro_status_def by (rule r(12) [rule_format]) (use that in \<open>auto simp: apart_def\<close>)
  then have "{r. coro_status s1 r \<noteq> coro_status s r \<and> apart r (R s a) 16 \<and> apart r (R s b) 16} = {}"
    by blast
  moreover have "coro_status s1 (R s a) = Some 2" using r(11) assms(3) by (simp add: coro_status_def)
  ultimately show ?thesis using r(1-10) by auto
qed

theorem coro_swap_states_witness:
  "\<exists>s1. L_CORO_SWAP (demo_ctx [0]) 0 0 1 0 coro_demo = Running s1 \<and> coro_status s1 0 = Some 2
    \<and> coro_status s1 16 = Some 1 \<and> R s1 3 = 16"
proof -
  obtain s1 where s1: "L_CORO_SWAP (demo_ctx [0]) 0 0 1 0 coro_demo = Running s1"
    using next_ofE [OF coro_demo_facts(9)] by blast
  have "apart (R coro_demo 0) (R coro_demo 1) 16" by (simp add: apart_def coro_demo_facts)
  from coro_swap_states [OF coro_demo_facts(1) s1 this] s1 show ?thesis
    by (simp add: coro_demo_facts)
qed

text \<open>C7. Swapping back resumes: if the record a swap saved into is intact, a swap to it from any
  other record continues behind the first swap with its \<open>SP\<close> and the current registers.\<close>

theorem coro_resume:
  assumes "vm_ok cx s" "L_CORO_SWAP cx i a b c s = Running s1" "apart (R s a) (R s b) 16"
    "vm_ok cx s2" "R s2 b2 = R s a"
    "mem_rd (heap_of s2) (unat (R s a)) 16 = mem_rd (heap_of s1) (unat (R s a)) 16"
    "unat (R s2 a2) + 16 \<le> unat (cx_mem_size cx)" "apart (R s2 a2) (R s a) 16"
    "vm_pc s < cx_code_count cx"
  shows "\<exists>s3. L_CORO_SWAP cx i2 a2 b2 c2 s2 = Running s3 \<and> vm_pc s3 = vm_pc s
    \<and> vm_R s3 = (vm_R s2)(255 := R s 255)
    \<and> coro_status s3 (R s a) = Some 1 \<and> coro_status s3 (R s2 a2) = Some 2"
proof (rule coro_swap_result [OF assms(1,2)])
  assume fit: "unat (R s a) + 16 \<le> unat (cx_mem_size cx)"
    and "apart (R s a) (R s b) 16 \<longrightarrow> rd32 (heap_of s1) (unat (R s a)) = Some (vm_pc s)
       \<and> rd32 (heap_of s1) (unat (R s a) + 4) = Some (R s 255)
       \<and> rd32 (heap_of s1) (unat (R s a) + 8) = Some (ucast a)
       \<and> rd32 (heap_of s1) (unat (R s a) + 12) = Some 2"
  then have rec: "rd32 (heap_of s2) (unat (R s a)) = Some (vm_pc s)"
    "rd32 (heap_of s2) (unat (R s a) + 4) = Some (R s 255)"
    "rd32 (heap_of s2) (unat (R s a) + 8) = Some (ucast a)"
    "rd32 (heap_of s2) (unat (R s a) + 12) = Some 2"
    using assms(3,6) same_words [OF assms(6), of 0] same_words [OF assms(6), of 4]
      same_words [OF assms(6), of 8] same_words [OF assms(6), of 12] vm_ok_heap [OF assms(4)] by simp_all
  obtain m where m:
    "coro_switch a2 (R s2 a2) (R s a) 2 (vm_pc s) (R s 255) (ucast a) s2 = Running (s2\<lparr>vm_pc := vm_pc s,
       vm_R := (if (2::u32) = 0 then (vm_R s2)(ucast (ucast a :: u32) := R s a) else vm_R s2)(255 := R s 255),
       vm_img := vm_img (set_heap s2 m)\<rparr>)"
    "heap_of (set_heap s2 m) = m" "rd32 m (unat (R s a) + 12) = Some 1"
    "apart (R s2 a2) (R s a) 16 \<longrightarrow> rd32 m (unat (R s2 a2)) = Some (vm_pc s2)
       \<and> rd32 m (unat (R s2 a2) + 4) = Some (R s2 255)
       \<and> rd32 m (unat (R s2 a2) + 8) = Some (ucast a2) \<and> rd32 m (unat (R s2 a2) + 12) = Some 2"
    "\<forall>x. (x + 4 \<le> unat (R s2 a2) \<or> unat (R s2 a2) + 16 \<le> x)
       \<and> (x + 4 \<le> unat (R s a) + 12 \<or> unat (R s a) + 16 \<le> x) \<longrightarrow> rd32 m x = rd32 (heap_of s2) x"
    by (rule coro_switch_eq [OF assms(4,7) fit])
  let ?s3 = "s2\<lparr>vm_pc := vm_pc s, vm_R := (vm_R s2)(255 := R s 255), vm_img := vm_img (set_heap s2 m)\<rparr>"
  have h: "heap_of ?s3 = m" using m(2) by (simp add: heap_of_def)
  have "R s2 a2 \<noteq> R s a" using assms(8) by (auto simp: apart_def)
  then have "L_CORO_SWAP cx i2 a2 b2 c2 s2 = Running ?s3"
    using rec m(1) fit assms(5,7,9) by (simp add: L_CORO_SWAP_def Let_def oob_iff load_def not_le)
  with m(3,4) assms(8) h show ?thesis by (intro exI [of _ ?s3]) (simp add: coro_status_def)
qed

theorem coro_resume_witness:
  "\<exists>s1 s3. L_CORO_SWAP (demo_ctx [0]) 0 0 1 0 coro_demo = Running s1
    \<and> L_CORO_SWAP (demo_ctx [0]) 0 1 0 0 s1 = Running s3 \<and> vm_pc s3 = 0 \<and> coro_status s3 16 = Some 2"
proof -
  obtain s1 where s1: "L_CORO_SWAP (demo_ctx [0]) 0 0 1 0 coro_demo = Running s1"
    using next_ofE [OF coro_demo_facts(9)] by blast
  have ok1: "vm_ok (demo_ctx [0]) s1" using L_CORO_SWAP_ok [OF coro_demo_facts(1), of 0 0 1 0] s1 by simp
  have r: "vm_R s1 0 = 0 \<and> vm_R s1 1 = 16"
    by (rule coro_swap_result [OF coro_demo_facts(1) s1]) (use coro_demo_facts in auto)
  have ap: "apart (R coro_demo 0) (R coro_demo 1) 16" by (simp add: apart_def coro_demo_facts)
  show ?thesis
    using coro_resume [OF coro_demo_facts(1) s1 ap ok1 _ refl, of 0 1 0 0] s1 r coro_demo_facts
    by (auto simp: apart_def)
qed

section \<open>Branches\<close>

lemma sint24: "sint (w :: 24 word) = (if bit w 23 then uint w - 2 ^ 24 else uint w)"
proof -
  have u: "0 \<le> uint w" "uint w < 2 ^ 24" using uint_range_size [of w] by (simp_all add: word_size)
  have b: "bit w 23 \<longleftrightarrow> 2 ^ 23 \<le> uint w"
  proof -
    have "uint w div 2 ^ 23 = (if 2 ^ 23 \<le> uint w then 1 else 0)" using u by auto
    moreover have "bit w 23 = bit (uint w) 23" by (simp add: bit_uint_iff)
    ultimately show ?thesis by (simp only: bit_iff_odd) simp
  qed
  have "sint w = signed_take_bit 23 (uint w)" by (simp add: sint_uint)
  also have "\<dots> = (uint w + 2 ^ 23) mod 2 ^ 24 - 2 ^ 23"
    by (simp add: signed_take_bit_eq_take_bit_shift take_bit_eq_mod)
  also have "\<dots> = (if bit w 23 then uint w - 2 ^ 24 else uint w)"
  proof (cases "2 ^ 23 \<le> uint w")
    case True
    then have "(uint w + 2 ^ 23) mod 2 ^ 24 = (uint w - 2 ^ 23) mod 2 ^ 24"
      using mod_add_self2 [of "uint w - 2 ^ 23" "2 ^ 24"] by (simp add: add.commute)
    with True b u show ?thesis by simp
  qed (use b u in simp)
  finally show ?thesis .
qed

lemma jmp_offset_sint: "jmp_offset inst = sint (ucast (drop_bit 8 inst) :: 24 word)"
proof -
  let ?w = "ucast (drop_bit 8 inst) :: 24 word"
  have m: "(0xFFFFFF :: u32) = mask 24" by (simp add: mask_eq_exp_minus_1)
  have u: "uint (drop_bit 8 inst AND 0xFFFFFF) = uint ?w"
    by (simp only: m take_bit_eq_mask [symmetric] unsigned_take_bit_eq unsigned_ucast_eq) simp
  have "(uint ?w AND 0x800000 \<noteq> 0) = bit ?w 23"
    using and_exp_eq_0_iff_not_bit [of "uint ?w" 23] by (simp add: bit_uint_iff)
  then show ?thesis by (simp add: jmp_offset_def Let_def u sint24)
qed

lemma branch_eq:
  assumes "vm_ok cx s" "pc_ok s" "\<bar>off\<bar> \<le> 2 ^ 24"
  shows "branch s off = Running (set_pc s (vm_pc s + word_of_int off))"
  using branch_ok [OF assms] by (auto simp: branch_def Let_def split: if_splits)



end
