(* ===== verification/Int64.thy ===== *)
theory Int64
  imports Semantics
begin

text \<open>
  The 64-bit integer library of the guest, \<open>runtime/lib/cvm_int64.h\<close> and
  \<open>runtime/lib/cvm_int64_rt.c\<close>, and the intrinsics of \<open>runtime/lib/cvm_intrin.h\<close> it uses: pairs of
  32-bit words with carries, split shifts and restoring long division. \<open>val64\<close> is the 64-bit
  word a pair stands for; every operation is proved to be the operation on words, so the guest's
  arithmetic refines machine arithmetic.
\<close>

section \<open>Intrinsics\<close>

text \<open>The translator turns each call into the opcode of the same name; the label computes exactly
  this (lemma \<open>intrinsics_are_labels\<close>).\<close>

definition cvm_mulh :: "u32 \<Rightarrow> u32 \<Rightarrow> u32" where
  "cvm_mulh a b = word_of_int (sint a * sint b div 2 ^ 32)"

definition cvm_mulhu :: "u32 \<Rightarrow> u32 \<Rightarrow> u32" where
  "cvm_mulhu a b = ucast (drop_bit 32 ((ucast a :: u64) * ucast b))"

definition cvm_qmul_16_16 :: "u32 \<Rightarrow> u32 \<Rightarrow> u32" where
  "cvm_qmul_16_16 a b = (let lo = a * b; hi = cvm_mulh a b in drop_bit 16 lo OR push_bit 16 hi)"

definition cvm_qdiv_16_16 :: "u32 \<Rightarrow> u32 \<Rightarrow> u32" where
  "cvm_qdiv_16_16 a b = ucast (push_bit 16 (ucast a :: u64) div ucast b)"

definition cvm_qdiv_64_32 :: "u32 \<Rightarrow> u32 \<Rightarrow> u32 \<Rightarrow> u32" where
  "cvm_qdiv_64_32 hi lo d = ucast ((push_bit 32 (ucast hi :: u64) OR ucast lo) div ucast d)"

lemma intrinsics_are_labels:
  "result (L_MULH cx inst a b c s) a = Some (cvm_mulh (R s b) (R s c))"
  "result (L_MULHU cx inst a b c s) a = Some (cvm_mulhu (R s b) (R s c))"
  "R s c \<noteq> 0 \<Longrightarrow> result (L_QDIV1616 cx inst a b c s) a = Some (cvm_qdiv_16_16 (R s b) (R s c))"
  "R s c \<noteq> 0 \<Longrightarrow>
     result (L_QDIV6432 cx inst a b c s) a = Some (cvm_qdiv_64_32 (R s a) (R s b) (R s c))"
  by (simp add: mulh_result cvm_mulh_def,
      simp_all add: L_MULHU_def cvm_mulhu_def L_QDIV1616_def cvm_qdiv_16_16_def
        L_QDIV6432_def cvm_qdiv_64_32_def)

section \<open>Pairs of words\<close>

record cvm_i64 =
  lo :: u32
  hi :: u32

definition cvm_i64_from_i32 :: "u32 \<Rightarrow> cvm_i64" where
  "cvm_i64_from_i32 x = \<lparr>lo = x, hi = signed_drop_bit 31 x\<rparr>"

definition cvm_i64_from_u32 :: "u32 \<Rightarrow> cvm_i64" where
  "cvm_i64_from_u32 x = \<lparr>lo = x, hi = 0\<rparr>"

definition cvm_i64_from_parts :: "u32 \<Rightarrow> u32 \<Rightarrow> cvm_i64" where
  "cvm_i64_from_parts l h = \<lparr>lo = l, hi = h\<rparr>"

definition cvm_i64_to_i32 :: "cvm_i64 \<Rightarrow> u32" where "cvm_i64_to_i32 x = lo x"
definition cvm_i64_to_u32 :: "cvm_i64 \<Rightarrow> u32" where "cvm_i64_to_u32 x = lo x"

definition cvm_i64_neg :: "cvm_i64 \<Rightarrow> cvm_i64" where
  "cvm_i64_neg x = (let l = NOT (lo x) + 1 in \<lparr>lo = l, hi = NOT (hi x) + (if l = 0 then 1 else 0)\<rparr>)"

definition cvm_i64_add :: "cvm_i64 \<Rightarrow> cvm_i64 \<Rightarrow> cvm_i64" where
  "cvm_i64_add a b =
     (let l = lo a + lo b in \<lparr>lo = l, hi = hi a + hi b + (if l < lo a then 1 else 0)\<rparr>)"

definition cvm_i64_sub :: "cvm_i64 \<Rightarrow> cvm_i64 \<Rightarrow> cvm_i64" where
  "cvm_i64_sub a b = \<lparr>lo = lo a - lo b, hi = hi a - hi b - (if lo a < lo b then 1 else 0)\<rparr>"

definition cvm_u64_mul :: "cvm_i64 \<Rightarrow> cvm_i64 \<Rightarrow> cvm_i64" where
  "cvm_u64_mul a b =
     (let carry = cvm_mulhu (lo a) (lo b) in
      \<lparr>lo = lo a * lo b, hi = carry + lo a * hi b + hi a * lo b\<rparr>)"

definition cvm_i64_mul :: "cvm_i64 \<Rightarrow> cvm_i64 \<Rightarrow> cvm_i64" where
  "cvm_i64_mul a b = cvm_u64_mul a b"

text \<open>In the shifts every 32-bit shift amount is below 32, as C requires.\<close>

definition cvm_u64_shl :: "cvm_i64 \<Rightarrow> u32 \<Rightarrow> cvm_i64" where
  "cvm_u64_shl x n_in =
     (let n = n_in AND 63 in
      if n = 0 then x
      else if n \<ge> 32 then \<lparr>lo = 0, hi = push_bit (unat (n - 32)) (lo x)\<rparr>
      else \<lparr>lo = push_bit (unat n) (lo x),
            hi = push_bit (unat n) (hi x) OR drop_bit (unat (32 - n)) (lo x)\<rparr>)"

definition cvm_u64_shr :: "cvm_i64 \<Rightarrow> u32 \<Rightarrow> cvm_i64" where
  "cvm_u64_shr x n_in =
     (let n = n_in AND 63 in
      if n = 0 then x
      else if n \<ge> 32 then \<lparr>lo = drop_bit (unat (n - 32)) (hi x), hi = 0\<rparr>
      else \<lparr>lo = drop_bit (unat n) (lo x) OR push_bit (unat (32 - n)) (hi x),
            hi = drop_bit (unat n) (hi x)\<rparr>)"

definition cvm_i64_sar :: "cvm_i64 \<Rightarrow> u32 \<Rightarrow> cvm_i64" where
  "cvm_i64_sar x n_in =
     (let n = n_in AND 63 in
      if n = 0 then x
      else if n \<ge> 32 then \<lparr>lo = signed_drop_bit (unat (n - 32)) (hi x), hi = signed_drop_bit 31 (hi x)\<rparr>
      else \<lparr>lo = drop_bit (unat n) (lo x) OR push_bit (unat (32 - n)) (hi x),
            hi = signed_drop_bit (unat n) (hi x)\<rparr>)"

definition cvm_i64_eq :: "cvm_i64 \<Rightarrow> cvm_i64 \<Rightarrow> bool" where
  "cvm_i64_eq a b \<longleftrightarrow> lo a = lo b \<and> hi a = hi b"

definition cvm_i64_ne :: "cvm_i64 \<Rightarrow> cvm_i64 \<Rightarrow> bool" where
  "cvm_i64_ne a b \<longleftrightarrow> lo a \<noteq> lo b \<or> hi a \<noteq> hi b"

definition cvm_u64_lt :: "cvm_i64 \<Rightarrow> cvm_i64 \<Rightarrow> bool" where
  "cvm_u64_lt a b = (if hi a \<noteq> hi b then hi a < hi b else lo a < lo b)"

definition cvm_u64_le :: "cvm_i64 \<Rightarrow> cvm_i64 \<Rightarrow> bool" where
  "cvm_u64_le a b = (if hi a \<noteq> hi b then hi a < hi b else lo a \<le> lo b)"

definition cvm_i64_lt :: "cvm_i64 \<Rightarrow> cvm_i64 \<Rightarrow> bool" where
  "cvm_i64_lt a b = (if hi a \<noteq> hi b then sint (hi a) < sint (hi b) else lo a < lo b)"

definition cvm_i64_le :: "cvm_i64 \<Rightarrow> cvm_i64 \<Rightarrow> bool" where
  "cvm_i64_le a b = (if hi a \<noteq> hi b then sint (hi a) < sint (hi b) else lo a \<le> lo b)"

definition cvm_i64_and :: "cvm_i64 \<Rightarrow> cvm_i64 \<Rightarrow> cvm_i64" where
  "cvm_i64_and a b = \<lparr>lo = lo a AND lo b, hi = hi a AND hi b\<rparr>"

definition cvm_i64_or :: "cvm_i64 \<Rightarrow> cvm_i64 \<Rightarrow> cvm_i64" where
  "cvm_i64_or a b = \<lparr>lo = lo a OR lo b, hi = hi a OR hi b\<rparr>"

definition cvm_i64_xor :: "cvm_i64 \<Rightarrow> cvm_i64 \<Rightarrow> cvm_i64" where
  "cvm_i64_xor a b = \<lparr>lo = lo a XOR lo b, hi = hi a XOR hi b\<rparr>"

definition cvm_i64_not :: "cvm_i64 \<Rightarrow> cvm_i64" where
  "cvm_i64_not x = \<lparr>lo = NOT (lo x), hi = NOT (hi x)\<rparr>"

section \<open>Long division and the linked runtime\<close>

text \<open>The loop \<open>for (i = 63; i >= 0; --i)\<close>; the first argument is \<open>i + 1\<close>, so 0 is the exit.\<close>

definition divmod_step :: "cvm_i64 \<Rightarrow> cvm_i64 \<Rightarrow> nat \<Rightarrow> cvm_i64 \<times> cvm_i64 \<Rightarrow> cvm_i64 \<times> cvm_i64" where
  "divmod_step a b i qr =
     (let q = fst qr; r0 = cvm_u64_shl (snd qr) 1;
          bt = (if i \<ge> 32 then drop_bit (i - 32) (hi a) AND 1 else drop_bit i (lo a) AND 1);
          r = r0\<lparr>lo := lo r0 OR bt\<rparr> in
      if cvm_u64_le b r then
        (if i \<ge> 32 then q\<lparr>hi := hi q OR push_bit (i - 32) 1\<rparr> else q\<lparr>lo := lo q OR push_bit i 1\<rparr>,
         cvm_i64_sub r b)
      else (q, r))"

primrec divmod_loop :: "cvm_i64 \<Rightarrow> cvm_i64 \<Rightarrow> nat \<Rightarrow> cvm_i64 \<times> cvm_i64 \<Rightarrow> cvm_i64 \<times> cvm_i64" where
  "divmod_loop a b 0 qr = qr"
| "divmod_loop a b (Suc i) qr = divmod_loop a b i (divmod_step a b i qr)"

definition udivmod64 :: "cvm_i64 \<Rightarrow> cvm_i64 \<Rightarrow> cvm_i64 \<times> cvm_i64" where
  "udivmod64 a b = divmod_loop a b 64 (\<lparr>lo = 0, hi = 0\<rparr>, \<lparr>lo = 0, hi = 0\<rparr>)"

definition i64_abs :: "cvm_i64 \<Rightarrow> cvm_i64 \<times> bool" where
  "i64_abs x = (let neg = (drop_bit 31 (hi x) AND 1 \<noteq> 0) in (if neg then cvm_i64_neg x else x, neg))"

definition cvm_udiv64 :: "cvm_i64 \<Rightarrow> cvm_i64 \<Rightarrow> cvm_i64" where
  "cvm_udiv64 a b = fst (udivmod64 a b)"

definition cvm_umod64 :: "cvm_i64 \<Rightarrow> cvm_i64 \<Rightarrow> cvm_i64" where
  "cvm_umod64 a b = snd (udivmod64 a b)"

definition cvm_sdiv64 :: "cvm_i64 \<Rightarrow> cvm_i64 \<Rightarrow> cvm_i64" where
  "cvm_sdiv64 a b =
     (let (ua, na) = i64_abs a; (ub, nb) = i64_abs b; q = fst (udivmod64 ua ub) in
      if na \<noteq> nb then cvm_i64_neg q else q)"

definition cvm_smod64 :: "cvm_i64 \<Rightarrow> cvm_i64 \<Rightarrow> cvm_i64" where
  "cvm_smod64 a b =
     (let (ua, na) = i64_abs a; (ub, nb) = i64_abs b; r = snd (udivmod64 ua ub) in
      if na then cvm_i64_neg r else r)"

definition cvm_shl64 :: "cvm_i64 \<Rightarrow> cvm_i64 \<Rightarrow> cvm_i64" where "cvm_shl64 x n = cvm_u64_shl x (lo n)"
definition cvm_shr64 :: "cvm_i64 \<Rightarrow> cvm_i64 \<Rightarrow> cvm_i64" where "cvm_shr64 x n = cvm_u64_shr x (lo n)"
definition cvm_sar64 :: "cvm_i64 \<Rightarrow> cvm_i64 \<Rightarrow> cvm_i64" where "cvm_sar64 x n = cvm_i64_sar x (lo n)"

definition cvm_fshl64 :: "cvm_i64 \<Rightarrow> cvm_i64 \<Rightarrow> cvm_i64 \<Rightarrow> cvm_i64" where
  "cvm_fshl64 a b c =
     (let s = lo c AND 63 in
      if s = 0 then a
      else let h = cvm_u64_shl a s; l = cvm_u64_shr b (64 - s) in
        cvm_i64_from_parts (lo h OR lo l) (hi h OR hi l))"

definition cvm_fshr64 :: "cvm_i64 \<Rightarrow> cvm_i64 \<Rightarrow> cvm_i64 \<Rightarrow> cvm_i64" where
  "cvm_fshr64 a b c =
     (let s = lo c AND 63 in
      if s = 0 then b
      else let h = cvm_u64_shl a (64 - s); l = cvm_u64_shr b s in
        cvm_i64_from_parts (lo h OR lo l) (hi h OR hi l))"

section \<open>The word a pair stands for\<close>

definition val64 :: "cvm_i64 \<Rightarrow> u64" where
  "val64 x = word_of_int (uint (hi x) * 2 ^ 32 + uint (lo x))"

lemma uint_val64: "uint (val64 x) = uint (hi x) * 2 ^ 32 + uint (lo x)"
proof -
  have "0 \<le> uint (hi x) * 2 ^ 32 + uint (lo x)" by simp
  moreover have "uint (hi x) * 2 ^ 32 + uint (lo x) < 2 ^ 64"
    using uint32_range [of "hi x"] uint32_range [of "lo x"] by simp
  ultimately show ?thesis unfolding val64_def uint_word_of_int by simp
qed

lemma val64_bits: "bit (val64 x) n \<longleftrightarrow> (if n < 32 then bit (lo x) n else n < 64 \<and> bit (hi x) (n - 32))"
proof -
  have "val64 x = push_bit 32 (ucast (hi x)) OR ucast (lo x)"
    by (simp only: word_uint_eq_iff uint_val64 hilo)
  then show ?thesis by (auto simp: bit_simps dest: bit_imp_le_length)
qed

text \<open>Low half in range, high half reduced: how carries are discarded.\<close>

lemma split_mod:
  fixes l h :: int
  assumes "0 \<le> l" "l < 2 ^ 32"
  shows "h mod 2 ^ 32 * 2 ^ 32 + l = (h * 2 ^ 32 + l) mod 2 ^ 64"
proof -
  have "(h * 2 ^ 32 + l) mod 2 ^ 64 = ((h mod 2 ^ 32) * 2 ^ 32 + l) mod 2 ^ 64"
  proof -
    have "k * 2 ^ 32 + l = (m * 2 ^ 32 + l) + q * 2 ^ 64" if "q * 2 ^ 32 + m = k" for k q m :: int
      using that by simp
    from this [OF div_mult_mod_eq] have "h * 2 ^ 32 + l = (h mod 2 ^ 32 * 2 ^ 32 + l) + (h div 2 ^ 32) * 2 ^ 64" .
    then show ?thesis by (metis mod_mult_self1)
  qed
  moreover have "0 \<le> (h mod 2 ^ 32) * 2 ^ 32 + l" using assms by simp
  moreover have "(h mod 2 ^ 32) * 2 ^ 32 + l < 2 ^ 64"
    using assms pos_mod_bound [of "2 ^ 32" h] by simp
  ultimately show ?thesis by simp
qed

lemma val64I:
  assumes "uint (hi r) = h mod 2 ^ 32" "(h * 2 ^ 32 + uint (lo r)) mod 2 ^ 64 = uint w mod 2 ^ 64"
  shows "val64 r = w"
proof -
  have "uint w mod 2 ^ 64 = uint w" using uint_range_size [of w] by (simp add: word_size)
  then have "uint (val64 r) = uint w"
    using assms split_mod [of "uint (lo r)" h] uint32_range [of "lo r"] by (simp add: uint_val64)
  then show ?thesis by (simp add: word_uint_eq_iff)
qed

lemma uint_bool32: "uint (if p then 1 else 0 :: u32) = (if p then 1 else 0)"
  by simp

lemma add_carry:
  "uint ((x :: u32) + y) = uint x + uint y - (if x + y < x then 2 ^ 32 else 0)"
  "uint (x - y) = uint x - uint y + (if x < y then 2 ^ 32 else 0)"
proof -
  have r: "0 \<le> uint x" "uint x < 2 ^ 32" "0 \<le> uint y" "uint y < 2 ^ 32" by (rule uint32_range)+
  have "(uint x + uint y) mod 2 ^ 32 = uint x + uint y - 2 ^ 32" if "\<not> uint x + uint y < 2 ^ 32"
    using that r mod_pos_pos_trivial [of "uint x + uint y - 2 ^ 32" "2 ^ 32"] by simp
  then have s: "uint (x + y) = (if uint x + uint y < 2 ^ 32 then uint x + uint y else uint x + uint y - 2 ^ 32)"
    using r by (simp add: uint_word_ariths)
  then have "x + y < x \<longleftrightarrow> \<not> uint x + uint y < 2 ^ 32" using r by (auto simp: word_less_def)
  with s show "uint (x + y) = uint x + uint y - (if x + y < x then 2 ^ 32 else 0)" by simp
  have a1: "(i - j) mod 2 ^ 32 = i - j + 2 ^ 32" if "i < j" "0 \<le> i" "j < 2 ^ 32" for i j :: int
    using that mod_pos_pos_trivial [of "i - j + 2 ^ 32" "2 ^ 32"] by simp
  have a2: "(i - j) mod 2 ^ 32 = i - j" if "\<not> i < j" "0 \<le> j" "i < 2 ^ 32" for i j :: int
    using that by simp
  have "(uint x - uint y) mod 2 ^ 32 = uint x - uint y + (if uint x < uint y then 2 ^ 32 else 0)"
    by (cases "uint x < uint y") (simp_all only: a1 [OF _ r(1,4)] a2 [OF _ r(3,2)] if_True if_False add_0_right simp_thms)
  then show "uint (x - y) = uint x - uint y + (if x < y then 2 ^ 32 else 0)"
    by (simp add: uint_word_ariths word_less_def)
qed

lemma val64_add: "val64 (cvm_i64_add a b) = val64 a + val64 b"
proof (rule val64I [where h = "uint (hi a) + uint (hi b) + (if lo a + lo b < lo a then 1 else 0)"])
  show "uint (hi (cvm_i64_add a b)) = (uint (hi a) + uint (hi b) + (if lo a + lo b < lo a then 1 else 0)) mod 2 ^ 32"
    by (simp add: cvm_i64_add_def Let_def uint_word_ariths mod_simps)
  have "(uint (hi a) + uint (hi b) + (if lo a + lo b < lo a then 1 else 0)) * 2 ^ 32
      + uint (lo (cvm_i64_add a b)) = uint (val64 a) + uint (val64 b)"
    using add_carry(1) [of "lo a" "lo b"] by (simp add: cvm_i64_add_def Let_def uint_val64)
  then show "((uint (hi a) + uint (hi b) + (if lo a + lo b < lo a then 1 else 0)) * 2 ^ 32
      + uint (lo (cvm_i64_add a b))) mod 2 ^ 64 = uint (val64 a + val64 b) mod 2 ^ 64"
    by (simp only: uint_word_ariths) simp
qed

lemma val64_sub: "val64 (cvm_i64_sub a b) = val64 a - val64 b"
proof (rule val64I [where h = "uint (hi a) - uint (hi b) - (if lo a < lo b then 1 else 0)"])
  show "uint (hi (cvm_i64_sub a b)) = (uint (hi a) - uint (hi b) - (if lo a < lo b then 1 else 0)) mod 2 ^ 32"
    by (simp add: cvm_i64_sub_def uint_word_ariths mod_simps)
  have "(uint (hi a) - uint (hi b) - (if lo a < lo b then 1 else 0)) * 2 ^ 32
      + uint (lo (cvm_i64_sub a b)) = uint (val64 a) - uint (val64 b)"
    using add_carry(2) [of "lo a" "lo b"] by (simp add: cvm_i64_sub_def uint_val64)
  then show "((uint (hi a) - uint (hi b) - (if lo a < lo b then 1 else 0)) * 2 ^ 32
      + uint (lo (cvm_i64_sub a b))) mod 2 ^ 64 = uint (val64 a - val64 b) mod 2 ^ 64"
    by (simp only: uint_word_ariths) simp
qed

lemma val64_neg: "val64 (cvm_i64_neg x) = - val64 x"
proof -
  have "cvm_i64_neg x = cvm_i64_sub \<lparr>lo = 0, hi = 0\<rparr> x"
    by (simp add: cvm_i64_neg_def cvm_i64_sub_def Let_def minus_eq_not_plus_1 [symmetric] not_eq_complement word_gt_0)
  moreover have "val64 \<lparr>lo = 0, hi = 0\<rparr> = 0" by (simp add: val64_def)
  ultimately show ?thesis by (simp add: val64_sub)
qed

lemma uint_mulhu: "uint (cvm_mulhu a b) = uint a * uint b div 2 ^ 32"
proof -
  have "uint a * uint b div 2 ^ 32 < 2 ^ 32"
    using uint_mul64 [of a b] uint_range_size [of "(ucast a :: u64) * ucast b"] by (simp add: word_size)
  moreover have "0 \<le> uint a * uint b div 2 ^ 32" by (simp add: pos_imp_zdiv_nonneg_iff)
  moreover have "uint (drop_bit 32 ((ucast a :: u64) * ucast b)) = uint a * uint b div 2 ^ 32"
    unfolding drop_bit_eq_div uint_div_distrib uint_mul64 by simp
  ultimately show ?thesis unfolding cvm_mulhu_def by (simp only: uint_low64) simp
qed

lemma val64_mul: "val64 (cvm_u64_mul a b) = val64 a * val64 b"
proof (rule val64I [where h = "uint (lo a) * uint (lo b) div 2 ^ 32 + uint (lo a) * uint (hi b) + uint (hi a) * uint (lo b)"])
  show "uint (hi (cvm_u64_mul a b)) =
      (uint (lo a) * uint (lo b) div 2 ^ 32 + uint (lo a) * uint (hi b) + uint (hi a) * uint (lo b)) mod 2 ^ 32"
    by (simp add: cvm_u64_mul_def Let_def uint_word_ariths uint_mulhu mod_simps)
  have "uint (lo (cvm_u64_mul a b)) = uint (lo a) * uint (lo b) mod 2 ^ 32"
    by (simp add: cvm_u64_mul_def Let_def uint_word_ariths)
  moreover have "p div 2 ^ 32 * 2 ^ 32 + p mod 2 ^ 32 = p" for p :: int by simp
  ultimately have e1: "(uint (lo a) * uint (lo b) div 2 ^ 32 + uint (lo a) * uint (hi b) + uint (hi a) * uint (lo b)) * 2 ^ 32
      + uint (lo (cvm_u64_mul a b))
      = uint (lo a) * uint (lo b) + (uint (lo a) * uint (hi b) + uint (hi a) * uint (lo b)) * 2 ^ 32"
    by (simp add: algebra_simps)
  have e2: "uint (val64 a) * uint (val64 b)
      = uint (lo a) * uint (lo b) + (uint (lo a) * uint (hi b) + uint (hi a) * uint (lo b)) * 2 ^ 32
        + uint (hi a) * uint (hi b) * 2 ^ 64"
    by (simp add: uint_val64 algebra_simps)
  show "((uint (lo a) * uint (lo b) div 2 ^ 32 + uint (lo a) * uint (hi b) + uint (hi a) * uint (lo b)) * 2 ^ 32
      + uint (lo (cvm_u64_mul a b))) mod 2 ^ 64 = uint (val64 a * val64 b) mod 2 ^ 64"
    by (simp only: e1 uint_word_ariths e2) simp
qed

lemma val64_logic:
  "val64 (cvm_i64_and a b) = val64 a AND val64 b" "val64 (cvm_i64_or a b) = val64 a OR val64 b"
  "val64 (cvm_i64_xor a b) = val64 a XOR val64 b" "val64 (cvm_i64_not a) = NOT (val64 a)"
  by (rule bit_word_eqI; auto simp: val64_bits cvm_i64_and_def cvm_i64_or_def cvm_i64_xor_def
      cvm_i64_not_def bit_simps)+

text \<open>Reading a word signed.\<close>

lemma sint_bit: "sint (w :: 'a::len word) = uint w - (if bit w (LENGTH('a) - 1) then 2 ^ LENGTH('a) else 0)"
proof -
  have s: "Suc (LENGTH('a) - 1) = LENGTH('a)" by simp
  have "sint w = signed_take_bit (LENGTH('a) - 1) (uint w)" by (simp add: sint_uint)
  also have "\<dots> = take_bit LENGTH('a) (uint w) - 2 ^ LENGTH('a) * of_bool (bit (uint w) (LENGTH('a) - 1))"
    by (simp only: signed_take_bit_eq_take_bit_minus s)
  moreover have "take_bit LENGTH('a) (uint w) = uint w"
    by (rule take_bit_int_eq_self) (rule unsigned_greater_eq, rule unsigned_less)
  ultimately show ?thesis by (simp add: bit_uint_iff)
qed

lemma sint_val64: "sint (val64 x) = sint (hi x) * 2 ^ 32 + uint (lo x)"
  using sint_bit [of "val64 x"] sint_bit [of "hi x"] by (simp add: val64_bits uint_val64)

lemma digits:
  fixes h1 h2 l1 l2 :: int
  assumes "0 \<le> l1" "l1 < 2 ^ 32" "0 \<le> l2" "l2 < 2 ^ 32"
  shows "h1 * 2 ^ 32 + l1 = h2 * 2 ^ 32 + l2 \<longleftrightarrow> h1 = h2 \<and> l1 = l2"
    "h1 * 2 ^ 32 + l1 < h2 * 2 ^ 32 + l2 \<longleftrightarrow> (if h1 \<noteq> h2 then h1 < h2 else l1 < l2)"
    "h1 * 2 ^ 32 + l1 \<le> h2 * 2 ^ 32 + l2 \<longleftrightarrow> (if h1 \<noteq> h2 then h1 < h2 else l1 \<le> l2)"
proof -
  have less: "h * 2 ^ 32 + l < h' * 2 ^ 32 + l'" if "h < h'" "l < 2 ^ 32" "0 \<le> l'" for h h' l l' :: int
  proof -
    have "(h + 1) * 2 ^ 32 \<le> h' * 2 ^ 32" using that(1) by (intro mult_right_mono) simp_all
    with that(2,3) show ?thesis by (simp add: algebra_simps)
  qed
  consider "h1 < h2" | "h2 < h1" | "h1 = h2" by linarith
  then show "h1 * 2 ^ 32 + l1 = h2 * 2 ^ 32 + l2 \<longleftrightarrow> h1 = h2 \<and> l1 = l2"
    "h1 * 2 ^ 32 + l1 < h2 * 2 ^ 32 + l2 \<longleftrightarrow> (if h1 \<noteq> h2 then h1 < h2 else l1 < l2)"
    "h1 * 2 ^ 32 + l1 \<le> h2 * 2 ^ 32 + l2 \<longleftrightarrow> (if h1 \<noteq> h2 then h1 < h2 else l1 \<le> l2)"
    using less [of h1 h2 l1 l2] less [of h2 h1 l2 l1] assms by (cases; simp)+
qed

lemmas digits32 = digits [OF uint32_range uint32_range]

lemma val64_cmp:
  "cvm_i64_eq a b \<longleftrightarrow> val64 a = val64 b" "cvm_i64_ne a b \<longleftrightarrow> val64 a \<noteq> val64 b"
  "cvm_u64_lt a b \<longleftrightarrow> val64 a < val64 b" "cvm_u64_le a b \<longleftrightarrow> val64 a \<le> val64 b"
  "cvm_i64_lt a b \<longleftrightarrow> sint (val64 a) < sint (val64 b)"
  "cvm_i64_le a b \<longleftrightarrow> sint (val64 a) \<le> sint (val64 b)"
proof -
  have eq: "sint (hi a) = sint (hi b) \<longleftrightarrow> hi a = hi b" by (metis signed_word_eqI)
  have "val64 a = val64 b \<longleftrightarrow> hi a = hi b \<and> lo a = lo b"
    by (simp only: word_uint_eq_iff uint_val64 digits32)
  then show "cvm_i64_eq a b \<longleftrightarrow> val64 a = val64 b" "cvm_i64_ne a b \<longleftrightarrow> val64 a \<noteq> val64 b"
    by (auto simp: cvm_i64_eq_def cvm_i64_ne_def)
  show "cvm_u64_lt a b \<longleftrightarrow> val64 a < val64 b" "cvm_u64_le a b \<longleftrightarrow> val64 a \<le> val64 b"
    by (simp_all only: cvm_u64_lt_def cvm_u64_le_def word_less_def word_le_def uint_val64 digits32 word_uint_eq_iff)
  show "cvm_i64_lt a b \<longleftrightarrow> sint (val64 a) < sint (val64 b)"
    "cvm_i64_le a b \<longleftrightarrow> sint (val64 a) \<le> sint (val64 b)"
    by (simp_all only: cvm_i64_lt_def cvm_i64_le_def word_less_def word_le_def sint_val64 digits32 eq)
qed

lemma val64_conv:
  "val64 (cvm_i64_from_i32 x) = scast x" "val64 (cvm_i64_from_u32 x) = ucast x"
  "cvm_i64_to_u32 y = ucast (val64 y)"
proof -
  show "val64 (cvm_i64_from_i32 x) = scast x"
  proof (rule bit_word_eqI)
    fix n assume "n < LENGTH(64)"
    then consider "n < 32" | "n = 32" | "32 < n" "n < 64" by fastforce
    then show "bit (val64 (cvm_i64_from_i32 x)) n = bit (scast x :: u64) n"
      by cases (auto simp: val64_bits cvm_i64_from_i32_def bit_signed_drop_bit_iff bit_signed_iff Suc_le_eq)
  qed
  show "val64 (cvm_i64_from_u32 x) = ucast x" "cvm_i64_to_u32 y = ucast (val64 y)"
    by (rule bit_word_eqI; auto simp: val64_bits cvm_i64_from_u32_def cvm_i64_to_u32_def bit_simps
        dest: bit_imp_le_length)+
qed

section \<open>Shifts\<close>

lemma amount: "unat (n AND 63 :: u32) = unat n mod 64"
proof -
  have m: "(63 :: u32) = mask 6" by (simp add: mask_eq_exp_minus_1)
  have "unat (take_bit 6 n) = take_bit 6 (unat n)" by (rule unsigned_take_bit_eq)
  then show ?thesis by (simp only: m take_bit_eq_mask [symmetric] take_bit_eq_mod) simp
qed

lemma amount_cases:
  "n AND 63 = (0 :: u32) \<longleftrightarrow> unat n mod 64 = 0" "32 \<le> n AND 63 \<longleftrightarrow> 32 \<le> unat n mod 64"
  "32 \<le> unat n mod 64 \<Longrightarrow> unat ((n AND 63) - 32) = unat n mod 64 - 32"
  "\<not> 32 \<le> unat n mod 64 \<Longrightarrow> unat (32 - (n AND 63)) = 32 - unat n mod 64"
proof -
  show z: "n AND 63 = (0 :: u32) \<longleftrightarrow> unat n mod 64 = 0" using amount [of n] by (metis unat_eq_zero)
  show le: "32 \<le> n AND 63 \<longleftrightarrow> 32 \<le> unat n mod 64" using amount [of n] by (simp only: unat_le_iff) simp
  show "32 \<le> unat n mod 64 \<Longrightarrow> unat ((n AND 63) - 32) = unat n mod 64 - 32"
    using le amount [of n] by (simp only: unat_sub_le) simp
  assume "\<not> 32 \<le> unat n mod 64"
  then have "n AND 63 \<le> 32" using amount [of n] by (simp only: unat_le_iff) simp
  then show "unat (32 - (n AND 63)) = 32 - unat n mod 64"
    using amount [of n] by (simp only: unat_sub_le) simp
qed

lemma amount_mod: "unat n mod 64 < 64" by simp

lemma val64_shl: "val64 (cvm_u64_shl x n) = push_bit (unat n mod 64) (val64 x)"
proof (rule bit_word_eqI)
  fix k assume k: "k < LENGTH(64)"
  define m where "m = unat n mod 64"
  note ac = amount_cases [of n, folded m_def] amount [of n, folded m_def]
  have m: "m < 64" by (simp add: m_def)
  consider "m = 0" | "0 < m" "m < 32" | "32 \<le> m" by linarith
  then have "bit (val64 (cvm_u64_shl x n)) k = bit (push_bit m (val64 x)) k"
  proof cases
    case 1
    then show ?thesis using k by (simp add: cvm_u64_shl_def Let_def ac)
  next
    case 2
    with k show ?thesis
      by (auto simp: cvm_u64_shl_def Let_def ac val64_bits bit_push_bit_iff
          bit_drop_bit_eq bit_or_iff add.commute dest: bit_imp_le_length)
  next
    case 3
    with k show ?thesis
      by (auto simp: cvm_u64_shl_def Let_def ac val64_bits bit_push_bit_iff
          dest: bit_imp_le_length)
  qed
  then show "bit (val64 (cvm_u64_shl x n)) k = bit (push_bit (unat n mod 64) (val64 x)) k" by (simp only: m_def)
qed

lemma val64_shr: "val64 (cvm_u64_shr x n) = drop_bit (unat n mod 64) (val64 x)"
proof (rule bit_word_eqI)
  fix k assume k: "k < LENGTH(64)"
  define m where "m = unat n mod 64"
  note ac = amount_cases [of n, folded m_def] amount [of n, folded m_def]
  have m: "m < 64" by (simp add: m_def)
  consider "m = 0" | "0 < m" "m < 32" | "32 \<le> m" by linarith
  then have "bit (val64 (cvm_u64_shr x n)) k = bit (drop_bit m (val64 x)) k"
  proof cases
    case 1
    then show ?thesis using k by (simp add: cvm_u64_shr_def Let_def ac)
  next
    case 2
    have "bit (hi x) (k - (32 - m)) = bit (hi x) (m + k - 32)" if "32 \<le> m + k"
      using that 2 by (intro arg_cong [where f = "bit (hi x)"]) simp
    with k 2 show ?thesis
      by (auto simp: cvm_u64_shr_def Let_def ac val64_bits bit_push_bit_iff
          bit_drop_bit_eq bit_or_iff dest: bit_imp_le_length)
  next
    case 3
    with k show ?thesis
      by (auto simp: cvm_u64_shr_def Let_def ac val64_bits bit_push_bit_iff
          bit_drop_bit_eq dest: bit_imp_le_length)
  qed
  then show "bit (val64 (cvm_u64_shr x n)) k = bit (drop_bit (unat n mod 64) (val64 x)) k" by (simp only: m_def)
qed

lemma val64_sar: "val64 (cvm_i64_sar x n) = signed_drop_bit (unat n mod 64) (val64 x)"
proof (rule bit_word_eqI)
  fix k assume k: "k < LENGTH(64)"
  define m where "m = unat n mod 64"
  note ac = amount_cases [of n, folded m_def] amount [of n, folded m_def]
  have m: "m < 64" by (simp add: m_def)
  consider "m = 0" | "0 < m" "m < 32" | "32 \<le> m" by linarith
  then have "bit (val64 (cvm_i64_sar x n)) k = bit (signed_drop_bit m (val64 x)) k"
  proof cases
    case 1
    then show ?thesis using k by (simp add: cvm_i64_sar_def Let_def ac)
  next
    case 2
    with k show ?thesis
      by (auto simp: cvm_i64_sar_def Let_def ac val64_bits bit_push_bit_iff
          bit_signed_drop_bit_iff bit_drop_bit_eq bit_or_iff add.commute dest: bit_imp_le_length)
  next
    case 3
    with k m show ?thesis
      by (cases "k = 32") (auto simp: cvm_i64_sar_def Let_def ac val64_bits
          bit_signed_drop_bit_iff dest: bit_imp_le_length)
  qed
  then show "bit (val64 (cvm_i64_sar x n)) k = bit (signed_drop_bit (unat n mod 64) (val64 x)) k" by (simp only: m_def)
qed

section \<open>Long division\<close>

lemma val64_zero: "val64 \<lparr>lo = 0, hi = 0\<rparr> = 0"
  by (simp add: val64_def)

lemma unat_one32: "unat (1 :: u32) mod 64 = 1"
  by simp

lemma val64_set_bit:
  assumes "i < 64"
  shows "val64 (if i \<ge> 32 then q\<lparr>hi := hi q OR push_bit (i - 32) 1\<rparr> else q\<lparr>lo := lo q OR push_bit i 1\<rparr>)
    = val64 q OR push_bit i 1"
  by (rule bit_word_eqI) (use assms in \<open>auto simp: val64_bits bit_or_iff bit_exp_iff\<close>)

lemma val64_shift_in:
  assumes "i < 64"
  shows "val64 ((cvm_u64_shl r 1)\<lparr>lo := lo (cvm_u64_shl r 1) OR
      (if i \<ge> 32 then drop_bit (i - 32) (hi a) AND 1 else drop_bit i (lo a) AND 1)\<rparr>)
    = push_bit 1 (val64 r) OR of_bool (bit (val64 a) i)"
proof -
  have "val64 (r0\<lparr>lo := lo r0 OR c\<rparr>) = val64 r0 OR ucast c" for r0 c
    by (rule bit_word_eqI) (auto simp: val64_bits bit_or_iff bit_unsigned_iff dest: bit_imp_le_length)
  moreover have "ucast (if i \<ge> 32 then drop_bit (i - 32) (hi a) AND 1 else drop_bit i (lo a) AND 1)
      = (of_bool (bit (val64 a) i) :: u64)"
    by (rule bit_word_eqI) (use assms in \<open>auto simp: val64_bits bit_simps\<close>)
  ultimately show ?thesis by (simp only: val64_shl unat_one32)
qed

lemma uint_shift_in:
  assumes "2 * uint (w :: u64) + 1 < 2 ^ 64"
  shows "uint (push_bit 1 w OR of_bool c) = 2 * uint w + of_bool c"
proof -
  have "push_bit 1 w OR of_bool c = push_bit 1 w + of_bool c"
    by (rule disjunctive_add [symmetric]) (simp only: bit_push_bit_iff bit_of_bool_iff, auto)
  moreover have "push_bit 1 w = 2 * w" by (simp add: push_bit_eq_mult)
  ultimately show ?thesis using assms by (cases c) (simp_all add: uint_word_ariths)
qed

lemma uint_set_bit:
  assumes "2 ^ Suc i dvd uint (w :: u64)" "i < 64"
  shows "uint (w OR push_bit i 1) = uint w + 2 ^ i"
proof -
  have nb: "\<not> bit (uint w) i"
  proof -
    from assms(1) obtain k where "uint w = 2 ^ Suc i * k" by blast
    then have "uint w div 2 ^ i = 2 * k" by simp
    then show ?thesis by (simp add: bit_iff_odd)
  qed
  have "uint (w OR push_bit i 1) = uint w OR push_bit i 1"
    using assms(2) by (simp add: uint_or unsigned_push_bit_eq take_bit_push_bit del: push_bit_of_1)
  also have "\<dots> = uint w + push_bit i 1"
    by (rule disjunctive_add [symmetric]) (use nb in \<open>auto simp: bit_exp_iff\<close>)
  finally show ?thesis by (simp add: push_bit_eq_mult)
qed

text \<open>One iteration on the numbers.\<close>

lemma divmod_step_uint:
  assumes "i < 64" "2 ^ Suc i dvd uint (val64 q)" "2 * uint (val64 r) + 1 < 2 ^ 64"
    "divmod_step a b i (q, r) = (q', r')"
    "t = 2 * uint (val64 r) + of_bool (bit (val64 a) i)"
  shows "uint (val64 q') = uint (val64 q) + (if uint (val64 b) \<le> t then 2 ^ i else 0)"
    "uint (val64 r') = (if uint (val64 b) \<le> t then t - uint (val64 b) else t)"
proof -
  define s where "s = (cvm_u64_shl r 1)\<lparr>lo := lo (cvm_u64_shl r 1) OR
      (if i \<ge> 32 then drop_bit (i - 32) (hi a) AND 1 else drop_bit i (lo a) AND 1)\<rparr>"
  have s: "uint (val64 s) = t"
    unfolding s_def val64_shift_in [OF assms(1)] uint_shift_in [OF assms(3)] assms(5) ..
  have step: "(q', r') = (if cvm_u64_le b s then
      (if i \<ge> 32 then q\<lparr>hi := hi q OR push_bit (i - 32) 1\<rparr> else q\<lparr>lo := lo q OR push_bit i 1\<rparr>, cvm_i64_sub s b)
      else (q, s))"
    using assms(4) [symmetric] unfolding divmod_step_def s_def Let_def fst_conv snd_conv .
  have le: "cvm_u64_le b s \<longleftrightarrow> uint (val64 b) \<le> t"
    by (simp add: val64_cmp word_le_def s)
  have sub: "uint (val64 s - val64 b) = t - uint (val64 b)" if "uint (val64 b) \<le> t"
    using that by (simp add: uint_sub_if' s)
  show "uint (val64 q') = uint (val64 q) + (if uint (val64 b) \<le> t then 2 ^ i else 0)"
    "uint (val64 r') = (if uint (val64 b) \<le> t then t - uint (val64 b) else t)"
    using step le sub uint_set_bit [OF assms(2,1)]
    by (auto simp: val64_set_bit [OF assms(1)] val64_sub s split: if_splits)
qed

text \<open>The quotient and remainder of the bits seen so far; a zero divisor always "fits".\<close>

definition quot_upto :: "int \<Rightarrow> int \<Rightarrow> nat \<Rightarrow> int" where
  "quot_upto A B k = (if B = 0 then 2 ^ (64 - k) - 1 else A div 2 ^ k div B)"

lemma quot_upto_step:
  assumes "0 \<le> A" "0 \<le> B" "i < 64" and
    "t = 2 * (A div 2 ^ Suc i mod B) + of_bool (bit A i)"
  shows "quot_upto A B i = 2 * quot_upto A B (Suc i) + (if B \<le> t then 1 else 0)"
    "A div 2 ^ i mod B = (if B \<le> t then t - B else t)"
proof -
  define X where "X = A div 2 ^ Suc i"
  define c :: int where "c = of_bool (bit A i)"
  have X: "A div 2 ^ i = 2 * X + c"
  proof -
    have "A div 2 ^ i = 2 * (A div 2 ^ i div 2) + A div 2 ^ i mod 2" by simp
    moreover have "A div 2 ^ i div 2 = X" by (simp only: X_def power_Suc2 zdiv_zmult2_eq)
    moreover have "A div 2 ^ i mod 2 = c" by (simp add: c_def bit_iff_odd mod_2_eq_odd)
    ultimately show ?thesis by simp
  qed
  have c: "0 \<le> c" "c \<le> 1" by (simp_all add: c_def)
  have X0: "0 \<le> X" using assms(1) by (simp add: X_def pos_imp_zdiv_nonneg_iff)
  have t: "t = 2 * (X mod B) + c" using assms(4) by (simp only: X_def c_def)
  have "quot_upto A B i = 2 * quot_upto A B (Suc i) + (if B \<le> t then 1 else 0)
    \<and> (2 * X + c) mod B = (if B \<le> t then t - B else t)"
  proof (cases "B = 0")
    case True
    have "64 - i = Suc (64 - Suc i)" using assms(3) by simp
    with True X0 c t show ?thesis by (simp add: quot_upto_def)
  next
    case False
    then have B: "0 < B" using assms(2) by simp
    have m: "0 \<le> X mod B" "X mod B < B" using B by simp_all
    have e: "2 * X + c = B * (2 * (X div B)) + t"
    proof -
      have "X = B * (X div B) + X mod B" by simp
      then have "2 * X = B * (2 * (X div B)) + 2 * (X mod B)" by (metis distrib_left mult.left_commute)
      then show ?thesis by (simp add: t)
    qed
    show ?thesis
    proof (cases "B \<le> t")
      case True
      then have e': "2 * X + c = B * (2 * (X div B) + 1) + (t - B)" using e by (simp add: distrib_left)
      have r: "0 \<le> t - B" "t - B < B" using True m c t by simp_all
      have "(2 * X + c) div B = 2 * (X div B) + 1" "(2 * X + c) mod B = t - B"
        using int_div_pos_eq [OF e' r] int_mod_pos_eq [OF e' r] by simp_all
      with True False show ?thesis by (simp add: quot_upto_def X X_def)
    next
      case nt: False
      then have r: "0 \<le> t" "t < B" using m c t by simp_all
      have "(2 * X + c) div B = 2 * (X div B)" "(2 * X + c) mod B = t"
        using int_div_pos_eq [OF e r] int_mod_pos_eq [OF e r] by simp_all
      with nt False show ?thesis by (simp add: quot_upto_def X X_def)
    qed
  qed
  then show "quot_upto A B i = 2 * quot_upto A B (Suc i) + (if B \<le> t then 1 else 0)"
    "A div 2 ^ i mod B = (if B \<le> t then t - B else t)" by (simp_all add: X)
qed

lemma divmod_loop_inv:
  assumes "k \<le> 64"
    "uint (val64 q) = quot_upto (uint (val64 a)) (uint (val64 b)) k * 2 ^ k"
    "uint (val64 r) = uint (val64 a) div 2 ^ k mod uint (val64 b)"
  shows "uint (val64 (fst (divmod_loop a b k (q, r)))) = quot_upto (uint (val64 a)) (uint (val64 b)) 0
    \<and> uint (val64 (snd (divmod_loop a b k (q, r)))) = uint (val64 a) mod uint (val64 b)"
  using assms
proof (induction k arbitrary: q r)
  case 0
  then show ?case by simp
next
  case (Suc i)
  let ?A = "uint (val64 a)" and ?B = "uint (val64 b)"
  obtain q' r' where step: "divmod_step a b i (q, r) = (q', r')" by fastforce
  define t where "t = 2 * uint (val64 r) + of_bool (bit (val64 a) i)"
  have i: "i < 64" using Suc.prems(1) by simp
  have A: "0 \<le> ?A" "?A < 2 ^ 64" and B: "0 \<le> ?B"
    using uint_range_size [of "val64 a"] uint_range_size [of "val64 b"] by (simp_all add: word_size)
  have "uint (val64 r) \<le> ?A div 2 ^ Suc i"
    unfolding Suc.prems(3) using A(1) B by (intro zmod_le_nonneg_dividend) (simp add: pos_imp_zdiv_nonneg_iff)
  also have "\<dots> \<le> ?A div 2 ^ 1" by (rule zdiv_mono2) (use A(1) in simp_all)
  finally have "uint (val64 r) \<le> ?A div 2" by simp
  moreover have "?A div 2 < 2 ^ 63" using A by simp
  ultimately have r: "2 * uint (val64 r) + 1 < 2 ^ 64" by simp
  have "bit ?A i = bit (val64 a) i" using i by (simp add: bit_uint_iff)
  then have t: "t = 2 * (?A div 2 ^ Suc i mod ?B) + of_bool (bit ?A i)" by (simp only: t_def Suc.prems(3))
  have dvd: "2 ^ Suc i dvd uint (val64 q)" by (simp add: Suc.prems(2))
  note s = divmod_step_uint [OF i dvd r step t_def] and qs = quot_upto_step [OF A(1) B i t]
  have "uint (val64 q') = quot_upto ?A ?B i * 2 ^ i"
    unfolding s(1) qs(1) Suc.prems(2) by (simp add: algebra_simps)
  moreover have "uint (val64 r') = ?A div 2 ^ i mod ?B" unfolding s(2) qs(2) by (simp only: t_def)
  ultimately show ?case using Suc.IH [of q' r'] i by (simp add: step)
qed

lemma udivmod64_uint:
  "uint (val64 (fst (udivmod64 a b))) = (if val64 b = 0 then 2 ^ 64 - 1 else uint (val64 a) div uint (val64 b))"
  "uint (val64 (snd (udivmod64 a b))) = uint (val64 a) mod uint (val64 b)"
proof -
  have A: "0 \<le> uint (val64 a)" "uint (val64 a) < 2 ^ 64"
    using uint_range_size [of "val64 a"] by (simp_all add: word_size)
  then have "uint (val64 a) div 2 ^ 64 = 0" by simp
  then have "uint (val64 (fst (udivmod64 a b))) = quot_upto (uint (val64 a)) (uint (val64 b)) 0
    \<and> uint (val64 (snd (udivmod64 a b))) = uint (val64 a) mod uint (val64 b)"
    unfolding udivmod64_def by (intro divmod_loop_inv) (simp_all add: val64_zero quot_upto_def)
  then show "uint (val64 (fst (udivmod64 a b))) = (if val64 b = 0 then 2 ^ 64 - 1 else uint (val64 a) div uint (val64 b))"
    "uint (val64 (snd (udivmod64 a b))) = uint (val64 a) mod uint (val64 b)"
    by (simp_all add: quot_upto_def word_uint_eq_iff [of "val64 b" 0])
qed

lemma val64_udivmod:
  "val64 (cvm_udiv64 a b) = (if val64 b = 0 then - 1 else val64 a div val64 b)"
  "val64 (cvm_umod64 a b) = val64 a mod val64 b"
  using udivmod64_uint [of a b]
  by (simp_all add: word_uint_eq_iff cvm_udiv64_def cvm_umod64_def uint_div_distrib uint_mod_distrib
      unsigned_minus_1_eq_mask mask_eq_exp_minus_1)

lemma i64_abs_spec:
  "snd (i64_abs x) \<longleftrightarrow> sint (val64 x) < 0" "uint (val64 (fst (i64_abs x))) = \<bar>sint (val64 x)\<bar>"
proof -
  have u: "0 \<le> uint (val64 x)" "uint (val64 x) < 2 ^ 64"
    using uint_range_size [of "val64 x"] by (simp_all add: word_size)
  have s: "sint (val64 x) = uint (val64 x) - (if bit (hi x) 31 then 2 ^ 64 else 0)"
    using sint_bit [of "val64 x"] by (simp add: val64_bits)
  have n: "snd (i64_abs x) \<longleftrightarrow> bit (hi x) 31"
    by (simp add: i64_abs_def Let_def and_one_eq bit_iff_odd_drop_bit odd_iff_mod_2_eq_one)
  show neg: "snd (i64_abs x) \<longleftrightarrow> sint (val64 x) < 0" using n s u by simp
  have "uint (- val64 x) = 2 ^ 64 - uint (val64 x)" if "uint (val64 x) \<noteq> 0"
    using that mod_pos_pos_trivial [OF u] by (simp add: uint_word_ariths zmod_zminus1_eq_if)
  moreover have "uint (val64 x) \<noteq> 0" if "bit (hi x) 31"
  proof
    assume "uint (val64 x) = 0"
    then have "val64 x = 0" by (simp add: word_uint_eq_iff)
    then show False using that val64_bits [of x 63] by simp
  qed
  ultimately show "uint (val64 (fst (i64_abs x))) = \<bar>sint (val64 x)\<bar>"
    using n s u by (auto simp: i64_abs_def Let_def val64_neg and_one_eq bit_iff_odd_drop_bit odd_iff_mod_2_eq_one)
qed

lemma val64_sdiv:
  "val64 (cvm_sdiv64 a b) = (if val64 b = 0 then if sint (val64 a) < 0 then 1 else - 1
     else word_of_int (sint (val64 a) sdiv sint (val64 b)))"
  "val64 (cvm_smod64 a b) = word_of_int (sint (val64 a) smod sint (val64 b))"
proof -
  let ?a = "sint (val64 a)" and ?b = "sint (val64 b)"
  obtain ua na where a: "i64_abs a = (ua, na)" "na \<longleftrightarrow> ?a < 0" "uint (val64 ua) = \<bar>?a\<bar>"
    using i64_abs_spec [of a] by (cases "i64_abs a") simp
  obtain ub nb where b: "i64_abs b = (ub, nb)" "nb \<longleftrightarrow> ?b < 0" "uint (val64 ub) = \<bar>?b\<bar>"
    using i64_abs_spec [of b] by (cases "i64_abs b") simp
  have b0: "val64 b = 0 \<longleftrightarrow> ?b = 0" by (metis signed_0 signed_word_eqI)
  have z: "val64 ub = 0 \<longleftrightarrow> val64 b = 0" using b(3) by (simp add: word_uint_eq_iff [of "val64 ub"] b0)
  have m1: "word_of_int (2 ^ 64 - 1) = (- 1 :: u64)" by simp
  have w: "val64 x = word_of_int (uint (val64 x))" for x by simp
  have q: "val64 (fst (udivmod64 ua ub)) = (if val64 b = 0 then - 1 else word_of_int (\<bar>?a\<bar> div \<bar>?b\<bar>))"
    by (subst w) (simp only: udivmod64_uint a(3) b(3) z m1 if_distrib [of word_of_int])
  have r: "val64 (snd (udivmod64 ua ub)) = word_of_int (\<bar>?a\<bar> mod \<bar>?b\<bar>)"
    by (subst w) (simp only: udivmod64_uint a(3) b(3))
  show "val64 (cvm_sdiv64 a b) = (if val64 b = 0 then if ?a < 0 then 1 else - 1
     else word_of_int (?a sdiv ?b))"
    using a(2) b(2) by (auto simp: cvm_sdiv64_def a(1) b(1) Let_def val64_neg q b0 signed_divide_int_def sgn_if)
  show "val64 (cvm_smod64 a b) = word_of_int (?a smod ?b)"
    using a(2) by (auto simp: cvm_smod64_def a(1) b(1) Let_def val64_neg r signed_modulo_int_def sgn_if)
qed

section \<open>Properties\<close>

text \<open>C23. The pair arithmetic of the guest refines 64-bit machine arithmetic: every operation on
  pairs is the operation on the 64-bit words they stand for, carries, borrows and the cross terms
  of the product included, and the comparisons are the unsigned and the signed order.\<close>

theorem int64_refines:
  "val64 (cvm_i64_add a b) = val64 a + val64 b \<and> val64 (cvm_i64_sub a b) = val64 a - val64 b
    \<and> val64 (cvm_i64_neg a) = - val64 a \<and> val64 (cvm_i64_mul a b) = val64 a * val64 b
    \<and> val64 (cvm_i64_and a b) = val64 a AND val64 b \<and> val64 (cvm_i64_or a b) = val64 a OR val64 b
    \<and> val64 (cvm_i64_xor a b) = val64 a XOR val64 b \<and> val64 (cvm_i64_not a) = NOT (val64 a)
    \<and> (cvm_i64_eq a b \<longleftrightarrow> val64 a = val64 b) \<and> (cvm_i64_ne a b \<longleftrightarrow> val64 a \<noteq> val64 b)
    \<and> (cvm_u64_lt a b \<longleftrightarrow> val64 a < val64 b) \<and> (cvm_u64_le a b \<longleftrightarrow> val64 a \<le> val64 b)
    \<and> (cvm_i64_lt a b \<longleftrightarrow> sint (val64 a) < sint (val64 b))
    \<and> (cvm_i64_le a b \<longleftrightarrow> sint (val64 a) \<le> sint (val64 b))
    \<and> val64 (cvm_i64_from_i32 x) = scast x \<and> val64 (cvm_i64_from_u32 x) = ucast x
    \<and> cvm_i64_to_u32 a = ucast (val64 a)"
  unfolding cvm_i64_mul_def val64_add val64_sub val64_neg val64_mul val64_logic val64_cmp val64_conv
  by simp

lemma val64_parts: "val64 (cvm_i64_from_parts (lo x OR lo y) (hi x OR hi y)) = val64 x OR val64 y"
  using val64_logic(2) [of x y] by (simp add: cvm_i64_or_def cvm_i64_from_parts_def)

lemma amount64: "unat (64 - (n AND 63) :: u32) = 64 - unat n mod 64"
proof -
  have "n AND 63 \<le> 64" using amount [of n] by (simp only: unat_le_iff) simp
  then show ?thesis using amount [of n] by (simp only: unat_sub_le) simp
qed

text \<open>Shifts by a variable amount are the word shifts by the amount modulo 64, arithmetic for
  \<open>sar\<close>, and the funnel shifts take their 64 bits out of the concatenation of both operands, for
  every amount including 0.\<close>

theorem int64_shifts:
  "val64 (cvm_shl64 x n) = push_bit (unat (lo n) mod 64) (val64 x)
    \<and> val64 (cvm_shr64 x n) = drop_bit (unat (lo n) mod 64) (val64 x)
    \<and> val64 (cvm_sar64 x n) = signed_drop_bit (unat (lo n) mod 64) (val64 x)
    \<and> val64 (cvm_fshl64 x y n) =
        push_bit (unat (lo n) mod 64) (val64 x) OR drop_bit (64 - unat (lo n) mod 64) (val64 y)
    \<and> val64 (cvm_fshr64 x y n) =
        push_bit (64 - unat (lo n) mod 64) (val64 x) OR drop_bit (unat (lo n) mod 64) (val64 y)"
proof -
  let ?m = "unat (lo n) mod 64"
  have z: "push_bit 64 w = 0" "drop_bit 64 w = 0" for w :: u64
    by (rule bit_word_eqI; auto simp: bit_simps dest: bit_imp_le_length)+
  have m: "unat (lo n AND 63) mod 64 = ?m" "?m \<noteq> 0 \<Longrightarrow> unat (64 - (lo n AND 63)) mod 64 = 64 - ?m"
    by (simp_all only: amount amount64) simp_all
  have "val64 (cvm_fshl64 x y n) = push_bit ?m (val64 x) OR drop_bit (64 - ?m) (val64 y)"
  proof (cases "?m = 0")
    case True
    then show ?thesis using z by (simp add: cvm_fshl64_def Let_def amount_cases)
  next
    case False
    then show ?thesis by (simp only: cvm_fshl64_def Let_def amount_cases if_False val64_parts val64_shl val64_shr m(1) m(2) [OF False])
  qed
  moreover have "val64 (cvm_fshr64 x y n) = push_bit (64 - ?m) (val64 x) OR drop_bit ?m (val64 y)"
  proof (cases "?m = 0")
    case True
    then show ?thesis using z by (simp add: cvm_fshr64_def Let_def amount_cases)
  next
    case False
    then show ?thesis by (simp only: cvm_fshr64_def Let_def amount_cases if_False val64_parts val64_shl val64_shr m(1) m(2) [OF False])
  qed
  ultimately show ?thesis by (simp add: cvm_shl64_def cvm_shr64_def cvm_sar64_def val64_shl val64_shr val64_sar)
qed


text \<open>The fixed-point multiply is the exact product shifted right by 16, rounded down, modulo
  \<open>2^32\<close>.\<close>

theorem qmul_exact:
  "cvm_qmul_16_16 a b = word_of_int (sint a * sint b div 2 ^ 16)"
proof (rule bit_word_eqI)
  fix n assume n: "n < LENGTH(32)"
  let ?p = "sint a * sint b"
  have l: "a * b = word_of_int ?p" by simp
  have b: "bit (word_of_int i :: u32) k \<longleftrightarrow> k < 32 \<and> bit i k" for i k by (simp add: bit_word_of_int_iff)
  have d: "?p div 2 ^ 16 = drop_bit 16 ?p" "?p div 2 ^ 32 = drop_bit 32 ?p" by (simp_all only: drop_bit_eq_div)
  show "bit (cvm_qmul_16_16 a b) n = bit (word_of_int (?p div 2 ^ 16) :: u32) n"
    unfolding cvm_qmul_16_16_def cvm_mulh_def Let_def l d
    using n by (auto simp only: bit_or_iff bit_drop_bit_eq bit_push_bit_iff b comp_def) (auto simp: add.commute)
qed

end
