(* ===== verification/Bin_Writer.thy ===== *)
theory Bin_Writer
  imports Format
begin

text \<open>
  The \<open>.bin\<close> writer of the translator, \<open>write_bin\<close> of \<open>src/tools/translator/translator.c\<close>: the
  IMPORTS, FUNCS and HOST_REGION payloads, the section table, the file body and the integrity
  seal. Sizes and offsets are 32-bit words that wrap as in C; a payload buffer is as long as the
  wrapped size says, and writing past its end is \<open>Undef\<close>. The file is the byte list that
  \<open>fwrite\<close> appends to; \<open>fopen\<close>, \<open>fwrite\<close> and \<open>calloc\<close> succeed. Names are the bytes before the
  terminating NUL. Also the option parsers \<open>parse_size\<close> and \<open>parse_region\<close> that produce the
  writer's input, with the \<open>strtoull\<close> of the C library they call.
\<close>

section \<open>Input\<close>

record cli_region =
  cr_name :: "byte list"
  cr_size :: u32
  cr_direction :: u32

text \<open>The \<open>entry_offset\<close> of a \<open>struct cg_func\<close> and the \<open>name\<close> of a \<open>struct cg_import\<close> are what the
  writer reads of them.\<close>

record bin_input =
  bi_code :: "u32 list"
  bi_data :: "byte list"
  bi_heap_reserve :: u32
  bi_stack_reserve :: u32
  bi_imports :: "byte list list"
  bi_funcs :: "u32 list"
  bi_emit_funcs :: bool
  bi_regions :: "cli_region list"
  bi_rom :: "byte list"
  bi_meta :: "byte list"
  bi_seal :: bool
  bi_entry :: u32

abbreviation count32 :: "'a list \<Rightarrow> u32" where "count32 xs \<equiv> of_nat (length xs)"

text \<open>\<open>put_u32_le(p + a, v)\<close> inside a buffer.\<close>

definition put_u32_le :: "byte list \<Rightarrow> nat \<Rightarrow> u32 \<Rightarrow> byte list option" where
  "put_u32_le buf a v = mem_wr buf a (to_le32 v)"

section \<open>Payloads\<close>

text \<open>IMPORTS: the count, the offset of each name, the names with their NULs.\<close>

fun imports_total :: "byte list list \<Rightarrow> u32 \<Rightarrow> u32" where
  "imports_total [] tot = tot"
| "imports_total (nm # nms) tot = imports_total nms (tot + count32 nm + 1)"

fun put_imports :: "byte list list \<Rightarrow> nat \<Rightarrow> u32 \<Rightarrow> byte list \<Rightarrow> byte list cres" where
  "put_imports [] k cursor buf = Ret buf"
| "put_imports (nm # nms) k cursor buf =
     ub (put_u32_le buf (4 + k * 4) cursor) (\<lambda>buf1.
     ub (mem_wr buf1 (unat cursor) (nm @ [0])) (\<lambda>buf2.
       put_imports nms (Suc k) (cursor + count32 nm + 1) buf2))"

definition imports_payload :: "byte list list \<Rightarrow> byte list cres" where
  "imports_payload imports =
     (if imports = [] then Ret []
      else let names_off = 4 + count32 imports * 4;
               tot = imports_total imports names_off in
        ub (put_u32_le (replicate (unat tot) 0) 0 (count32 imports))
          (put_imports imports 0 names_off))"

text \<open>FUNCS: function \<open>k\<close> at slot \<open>(k + 1) << 1\<close>, every other slot zero.\<close>

definition CVM_FN_SLOT :: "u32 \<Rightarrow> u32" where
  "CVM_FN_SLOT fidx = push_bit 1 (fidx + 1)"

fun put_funcs :: "u32 list \<Rightarrow> nat \<Rightarrow> byte list \<Rightarrow> byte list cres" where
  "put_funcs [] k buf = Ret buf"
| "put_funcs (f # fs) k buf =
     ub (put_u32_le buf (unat (CVM_FN_SLOT (of_nat k)) * 4) f) (put_funcs fs (Suc k))"

definition funcs_payload :: "bool \<Rightarrow> u32 list \<Rightarrow> byte list cres" where
  "funcs_payload emit_funcs funcs =
     (if emit_funcs \<and> funcs \<noteq> [] then
        let slots = CVM_FN_SLOT (count32 funcs - 1) + 1; sz = slots * 4 in
        put_funcs funcs 0 (replicate (unat sz) 0)
      else Ret [])"

text \<open>HOST_REGION: the count and one 28-byte entry per region.\<close>

fun put_regions :: "cli_region list \<Rightarrow> nat \<Rightarrow> byte list \<Rightarrow> byte list cres" where
  "put_regions [] k buf = Ret buf"
| "put_regions (r # rs) k buf =
     (let e = 4 + k * 28 in
      ub (mem_wr buf e (take 16 (cr_name r))) (\<lambda>b1.
      ub (put_u32_le b1 (e + 16) (cr_size r)) (\<lambda>b2.
      ub (put_u32_le b2 (e + 20) (cr_direction r)) (\<lambda>b3.
      ub (put_u32_le b3 (e + 24) 0) (put_regions rs (Suc k))))))"

definition regions_payload :: "cli_region list \<Rightarrow> byte list cres" where
  "regions_payload regions =
     (if regions = [] then Ret []
      else ub (put_u32_le (replicate (unat (4 + count32 regions * 28)) 0) 0 (count32 regions))
             (put_regions regions 0))"

section \<open>The file\<close>

text \<open>\<open>crc32_file_prefix\<close>: the file is read in chunks of 64 KiB; \<open>None\<close> when it is too short.\<close>

function prefix_loop :: "byte list \<Rightarrow> nat \<Rightarrow> u32 \<Rightarrow> u32 option" where
  "prefix_loop rest left crc =
     (if left = 0 then Some crc
      else let buf = take (min left 65536) rest in
        if buf = [] then None
        else prefix_loop (drop (length buf) rest) (left - length buf) (foldl crc_byte crc buf))"
  by pat_completeness auto
termination by (relation "measure (\<lambda>(rest, left, crc). left)") (auto simp: min_def)

declare prefix_loop.simps [simp del]

definition crc32_file_prefix :: "byte list \<Rightarrow> nat \<Rightarrow> u32 option" where
  "crc32_file_prefix file n = map_option (\<lambda>crc. crc XOR 0xFFFFFFFF) (prefix_loop file n 0xFFFFFFFF)"

text \<open>\<open>fseek\<close> to a position and \<open>fwrite\<close>; a gap past the end of the file reads as zeros.\<close>

definition file_patch :: "byte list \<Rightarrow> nat \<Rightarrow> byte list \<Rightarrow> byte list" where
  "file_patch f pos bs =
     take pos f @ replicate (pos - length f) 0 @ bs @ drop (pos + length bs) f"

definition CVM_SEAL_MAGIC_LE :: u32 where "CVM_SEAL_MAGIC_LE = 0x314D5243"

definition sec_entry :: "cvm_section_type \<Rightarrow> u32 \<Rightarrow> u32 \<Rightarrow> byte list" where
  "sec_entry type file_off sz =
     to_le32 (sec_value type) @ to_le32 file_off @ to_le32 sz @ to_le32 0"

text \<open>The local sizes and offsets of \<open>write_bin\<close>.\<close>

record bin_layout =
  bl_section_count :: u32
  bl_code_off :: u32
  bl_code_size :: u32
  bl_data_off :: u32
  bl_imports_off :: u32
  bl_funcs_off :: u32
  bl_regions_off :: u32
  bl_rom_off :: u32
  bl_meta_off :: u32
  bl_seal_off :: u32

definition one_if :: "bool \<Rightarrow> u32" where "one_if p = (if p then 1 else 0)"

definition bin_offsets :: "bin_input \<Rightarrow> u32 \<Rightarrow> u32 \<Rightarrow> u32 \<Rightarrow> bin_layout" where
  "bin_offsets i imports_size funcs_size regions_size =
     (let data_size = count32 (bi_data i); rom_size = count32 (bi_rom i);
          meta_size = count32 (bi_meta i);
          section_count = 1 + one_if (data_size > 0) + one_if (imports_size > 0)
            + one_if (bi_heap_reserve i > 0) + one_if (bi_stack_reserve i > 0)
            + one_if (funcs_size > 0) + one_if (regions_size > 0) + one_if (rom_size > 0)
            + one_if (meta_size > 0) + one_if (bi_seal i);
          code_off = 24 + section_count * 16;
          code_size = count32 (bi_code i) * 4 in
      \<lparr>bl_section_count = section_count, bl_code_off = code_off, bl_code_size = code_size,
       bl_data_off = (if data_size > 0 then code_off + code_size else 0),
       bl_imports_off = (if imports_size > 0 then code_off + code_size + data_size else 0),
       bl_funcs_off = (if funcs_size > 0
         then code_off + code_size + data_size + imports_size else 0),
       bl_regions_off = (if regions_size > 0
         then code_off + code_size + data_size + imports_size + funcs_size else 0),
       bl_rom_off = (if rom_size > 0
         then code_off + code_size + data_size + imports_size + funcs_size + regions_size else 0),
       bl_meta_off = (if meta_size > 0
         then code_off + code_size + data_size + imports_size + funcs_size + regions_size + rom_size
         else 0),
       bl_seal_off = code_off + code_size + data_size + imports_size + funcs_size + regions_size
         + rom_size + meta_size\<rparr>)"

definition bin_header :: "bin_input \<Rightarrow> bin_layout \<Rightarrow> byte list" where
  "bin_header i L =
     [0x43, 0x56, 0x4D, 0x31] @ to_le32 CVM_VERSION_1_0 @ to_le32 0 @ to_le32 (bl_section_count L)
       @ to_le32 24 @ to_le32 (bi_entry i)"

definition bin_table :: "bin_input \<Rightarrow> bin_layout \<Rightarrow> u32 \<Rightarrow> u32 \<Rightarrow> u32 \<Rightarrow> byte list" where
  "bin_table i L imports_size funcs_size regions_size =
     (let data_size = count32 (bi_data i); rom_size = count32 (bi_rom i);
          meta_size = count32 (bi_meta i) in
      sec_entry CVM_SEC_CODE (bl_code_off L) (bl_code_size L)
      @ (if data_size > 0 then sec_entry CVM_SEC_DATA (bl_data_off L) data_size else [])
      @ (if imports_size > 0 then sec_entry CVM_SEC_IMPORTS (bl_imports_off L) imports_size else [])
      @ (if bi_heap_reserve i > 0 then sec_entry CVM_SEC_HEAP_RESERVE 0 (bi_heap_reserve i) else [])
      @ (if bi_stack_reserve i > 0 then sec_entry CVM_SEC_STACK_RESERVE 0 (bi_stack_reserve i) else [])
      @ (if funcs_size > 0 then sec_entry CVM_SEC_FUNCS (bl_funcs_off L) funcs_size else [])
      @ (if regions_size > 0 then sec_entry CVM_SEC_HOST_REGION (bl_regions_off L) regions_size else [])
      @ (if rom_size > 0 then sec_entry CVM_SEC_ROM (bl_rom_off L) rom_size else [])
      @ (if meta_size > 0 then sec_entry CVM_SEC_META (bl_meta_off L) meta_size else [])
      @ (if bi_seal i then sec_entry CVM_SEC_SEAL (bl_seal_off L) 12 else []))"

text \<open>\<open>fwrite(p, 1, n, f)\<close> of an \<open>n\<close>-byte array whose length was cut to 32 bits.\<close>

definition fwrite_bytes :: "byte list \<Rightarrow> byte list" where
  "fwrite_bytes bs = take (unat (count32 bs)) bs"

definition bin_body :: "bin_input \<Rightarrow> byte list \<Rightarrow> byte list \<Rightarrow> byte list \<Rightarrow> byte list" where
  "bin_body i imports_buf funcs_buf regions_buf =
     concat (map to_le32 (take (unat (count32 (bi_code i))) (bi_code i)))
     @ fwrite_bytes (bi_data i) @ imports_buf @ funcs_buf @ regions_buf
     @ fwrite_bytes (bi_rom i) @ fwrite_bytes (bi_meta i)
     @ (if bi_seal i then to_le32 CVM_SEAL_MAGIC_LE @ to_le32 1 @ to_le32 0 else [])"

text \<open>The second part of \<open>write_bin\<close>: the checksum of the prefix is patched into the seal;
  \<open>None\<close> is the error return.\<close>

definition patch_seal :: "u32 \<Rightarrow> byte list \<Rightarrow> byte list option" where
  "patch_seal seal_off f =
     map_option (\<lambda>crc. file_patch f (unat (seal_off + 8)) (to_le32 crc))
       (crc32_file_prefix f (unat seal_off))"

definition write_bin :: "bin_input \<Rightarrow> byte list option cres" where
  "write_bin i =
     cbind (imports_payload (bi_imports i)) (\<lambda>imports_buf.
     cbind (funcs_payload (bi_emit_funcs i) (bi_funcs i)) (\<lambda>funcs_buf.
     cbind (regions_payload (bi_regions i)) (\<lambda>regions_buf.
       let imports_size = count32 imports_buf; funcs_size = count32 funcs_buf;
           regions_size = count32 regions_buf;
           L = bin_offsets i imports_size funcs_size regions_size;
           f = bin_header i L @ bin_table i L imports_size funcs_size regions_size
             @ bin_body i imports_buf funcs_buf regions_buf in
       Ret (if bi_seal i then patch_seal (bl_seal_off L) f else Some f))))"

section \<open>Options\<close>

text \<open>\<open>strtoull(s, &end, 0)\<close>: white space, a sign, the prefix that selects the base, digits;
  the value saturates at \<open>ULLONG_MAX\<close>. The result is the value and the rest of the string,
  \<open>None\<close> when nothing was converted (\<open>end == s\<close>).\<close>

definition c_isspace :: "byte \<Rightarrow> bool" where "c_isspace c \<longleftrightarrow> c = 32 \<or> 9 \<le> c \<and> c \<le> 13"

definition digit_val :: "byte \<Rightarrow> nat" where
  "digit_val c = (if 48 \<le> c \<and> c \<le> 57 then unat c - 48
     else if 97 \<le> c \<and> c \<le> 122 then unat c - 87
     else if 65 \<le> c \<and> c \<le> 90 then unat c - 55 else 36)"

fun digits_loop :: "nat \<Rightarrow> byte list \<Rightarrow> nat \<Rightarrow> nat \<times> byte list" where
  "digits_loop base [] v = (v, [])"
| "digits_loop base (c # cs) v =
     (if digit_val c < base then digits_loop base cs (v * base + digit_val c) else (v, c # cs))"

definition strip_base :: "byte list \<Rightarrow> nat \<times> byte list" where
  "strip_base s = (case s of
       z # x # d # _ \<Rightarrow> if z = 48 \<and> (x = 120 \<or> x = 88) \<and> digit_val d < 16 then (16, drop 2 s)
         else if z = 48 then (8, s) else (10, s)
     | z # _ \<Rightarrow> if z = 48 then (8, s) else (10, s)
     | [] \<Rightarrow> (10, s))"

definition strtoull :: "byte list \<Rightarrow> (u64 \<times> byte list) option" where
  "strtoull s =
     (let s1 = dropWhile c_isspace s;
          neg = (case s1 of c # _ \<Rightarrow> c = 45 | [] \<Rightarrow> False);
          s2 = (case s1 of c # cs \<Rightarrow> if c = 45 \<or> c = 43 then cs else s1 | [] \<Rightarrow> s1);
          (base, s3) = strip_base s2;
          (v, rest) = digits_loop base s3 0 in
      if rest = s3 then None
      else if v \<ge> 2 ^ 64 then Some (- 1, rest)
      else Some (if neg then - of_nat v else of_nat v, rest))"

text \<open>The K and M suffixes: \<open>v <<= 10\<close> and \<open>v <<= 20\<close> on an \<open>unsigned long long\<close>.\<close>

definition scale_suffix :: "u64 \<Rightarrow> byte list \<Rightarrow> u64 \<times> byte list" where
  "scale_suffix v e = (case e of
       c # cs \<Rightarrow> if c = 75 \<or> c = 107 then (push_bit 10 v, cs)
         else if c = 77 \<or> c = 109 then (push_bit 20 v, cs) else (v, e)
     | [] \<Rightarrow> (v, e))"

definition parse_size :: "byte list \<Rightarrow> u32 option" where
  "parse_size s = (case strtoull s of None \<Rightarrow> None
     | Some (v0, e0) \<Rightarrow> (case scale_suffix v0 e0 of (v, e) \<Rightarrow>
         if e \<noteq> [] then None else if v > 0x7FFFFFFF then None else Some (ucast v)))"

definition CVM_DEFAULT_STACK_RESERVE :: u32 where "CVM_DEFAULT_STACK_RESERVE = 16 * 1024"

text \<open>The bytes before the first colon and behind it.\<close>

fun split_colon :: "byte list \<Rightarrow> (byte list \<times> byte list) option" where
  "split_colon [] = None"
| "split_colon (c # cs) =
     (if c = 58 then Some ([], cs) else map_option (\<lambda>(a, b). (c # a, b)) (split_colon cs))"

definition parse_direction :: "byte list \<Rightarrow> u32 option" where
  "parse_direction e = (case e of [] \<Rightarrow> Some (dir_value CVM_REGION_RW)
     | c # d \<Rightarrow> if c \<noteq> 58 then None
         else if d = [114] then Some (dir_value CVM_REGION_R)
         else if d = [119] then Some (dir_value CVM_REGION_W)
         else if d = [114, 119] then Some (dir_value CVM_REGION_RW) else None)"

definition parse_region :: "byte list \<Rightarrow> cli_region option" where
  "parse_region s = (case split_colon s of None \<Rightarrow> None
     | Some (nm, p) \<Rightarrow>
         if nm = [] then None
         else if length nm \<ge> 16 then None
         else if \<exists>c \<in> set nm. c < 0x20 \<or> c \<ge> 0x7F then None
         else (case strtoull p of None \<Rightarrow> None
           | Some (v0, e0) \<Rightarrow> (case scale_suffix v0 e0 of (v, e) \<Rightarrow>
               if v = 0 \<or> v > 0x7FFFFFFF then None
               else map_option (\<lambda>d. \<lparr>cr_name = nm @ replicate (16 - length nm) 0,
                   cr_size = ucast v, cr_direction = d\<rparr>) (parse_direction e))))"

end
