(* ===== verification/Bin_Payloads.thy ===== *)
theory Bin_Payloads
  imports Bin_Writer Loader_Theorems
begin

text \<open>
  The closed forms of what \<open>write_bin\<close> writes. When the sizes fit 32 bits the three payload
  builders fill their buffers completely and never write past the end; the file is the
  concatenation of header, section table, payloads and seal, and the seal's checksum, computed by
  reading the file back in chunks, is \<open>cvm_crc32\<close> of everything before it.
\<close>

section \<open>Writing into a buffer\<close>

lemma mem_wr_append:
  "length a = n \<Longrightarrow> length c = length bs \<Longrightarrow> mem_wr (a @ c @ d) n bs = Some (a @ bs @ d)"
  by (simp add: mem_wr_def)

lemma put_u32_append:
  "length a = n \<Longrightarrow> length c = 4 \<Longrightarrow> put_u32_le (a @ c @ d) n v = Some (a @ to_le32 v @ d)"
  unfolding put_u32_le_def by (rule mem_wr_append) simp_all

lemma replicate_split: "m \<le> n \<Longrightarrow> replicate n x = replicate m x @ replicate (n - m) x"
  by (simp flip: replicate_add)

section \<open>IMPORTS\<close>

definition names_size :: "byte list list \<Rightarrow> nat" where
  "names_size nms = sum_list (map (\<lambda>nm. length nm + 1) nms)"

fun name_offsets :: "byte list list \<Rightarrow> u32 \<Rightarrow> u32 list" where
  "name_offsets [] c = []"
| "name_offsets (nm # nms) c = c # name_offsets nms (c + count32 nm + 1)"

definition names_blob :: "byte list list \<Rightarrow> byte list" where
  "names_blob nms = concat (map (\<lambda>nm. nm @ [0]) nms)"

definition imports_bytes :: "byte list list \<Rightarrow> byte list" where
  "imports_bytes nms = (if nms = [] then []
     else concat (map to_le32 (count32 nms # name_offsets nms (4 + count32 nms * 4))) @ names_blob nms)"

lemma names_size_simps [simp]:
  "names_size [] = 0" "names_size (nm # nms) = length nm + 1 + names_size nms"
  by (simp_all add: names_size_def)

lemma names_blob_simps [simp]: "names_blob [] = []" "names_blob (nm # nms) = nm @ 0 # names_blob nms"
  by (simp_all add: names_blob_def)

lemma length_names_blob [simp]: "length (names_blob nms) = names_size nms"
  by (induction nms) simp_all

lemma length_name_offsets [simp]: "length (name_offsets nms c) = length nms"
  by (induction nms arbitrary: c) simp_all

lemma imports_total_eq: "imports_total nms tot = tot + of_nat (names_size nms)"
  by (induction nms arbitrary: tot) (simp_all add: algebra_simps)

lemma put_imports_eq:
  assumes "length offs = k" "unat cursor = 4 + 4 * (k + length nms) + length done"
    "4 + 4 * (k + length nms) + length done + names_size nms < 2 ^ 32"
  shows "put_imports nms k cursor
      (to_le32 n @ concat (map to_le32 offs) @ replicate (4 * length nms) 0 @ done @ replicate (names_size nms) 0)
    = Ret (to_le32 n @ concat (map to_le32 (offs @ name_offsets nms cursor)) @ done @ names_blob nms)"
  using assms
proof (induction nms arbitrary: offs k cursor "done")
  case Nil
  then show ?case by simp
next
  case (Cons nm nms)
  let ?hd = "to_le32 n @ concat (map to_le32 offs)"
  have len: "length ?hd = 4 + k * 4" using Cons.prems(1) by (simp add: length_words)
  have "put_u32_le (?hd @ replicate 4 0 @ replicate (4 * length nms) 0 @ done @ replicate (names_size (nm # nms)) 0)
      (4 + k * 4) cursor = Some (?hd @ to_le32 cursor @ replicate (4 * length nms) 0 @ done
        @ replicate (names_size (nm # nms)) 0)"
    by (rule put_u32_append [OF len]) simp
  moreover have "replicate (4 * length (nm # nms)) (0 :: byte) = replicate 4 0 @ replicate (4 * length nms) 0"
    by (simp flip: replicate_add)
  ultimately have w1: "put_u32_le (?hd @ replicate (4 * length (nm # nms)) 0 @ done
      @ replicate (names_size (nm # nms)) 0) (4 + k * 4) cursor
    = Some ((?hd @ to_le32 cursor @ replicate (4 * length nms) 0 @ done)
        @ replicate (length nm + 1) 0 @ replicate (names_size nms) 0)"
    by (simp add: replicate_add)
  have len2: "length (?hd @ to_le32 cursor @ replicate (4 * length nms) 0 @ done) = unat cursor"
    using len Cons.prems(1,2) by simp
  have w2: "mem_wr ((?hd @ to_le32 cursor @ replicate (4 * length nms) 0 @ done)
        @ replicate (length nm + 1) 0 @ replicate (names_size nms) 0) (unat cursor) (nm @ [0])
    = Some ((?hd @ to_le32 cursor @ replicate (4 * length nms) 0 @ done)
        @ (nm @ [0]) @ replicate (names_size nms) 0)"
    by (rule mem_wr_append [OF len2]) simp
  have "unat (of_nat (length nm + 1) :: u32) = length nm + 1"
    using Cons.prems(3) by (intro unat_of_nat32) simp
  then have "unat (cursor + of_nat (length nm + 1)) = unat cursor + (length nm + 1)"
    using Cons.prems by (subst unat_add_lt) simp_all
  then have cur: "unat (cursor + count32 nm + 1) = 4 + 4 * (Suc k + length nms) + length (done @ nm @ [0])"
    using Cons.prems(2) by (simp add: add_ac)
  have "put_imports nms (Suc k) (cursor + count32 nm + 1)
      (to_le32 n @ concat (map to_le32 (offs @ [cursor])) @ replicate (4 * length nms) 0
        @ (done @ nm @ [0]) @ replicate (names_size nms) 0)
    = Ret (to_le32 n @ concat (map to_le32 ((offs @ [cursor]) @ name_offsets nms (cursor + count32 nm + 1)))
        @ (done @ nm @ [0]) @ names_blob nms)"
    using Cons.prems by (intro Cons.IH cur) simp_all
  with w1 w2 show ?case by simp
qed

lemma imports_payload_eq:
  assumes "4 + 4 * length nms + names_size nms < 2 ^ 32"
  shows "imports_payload nms = Ret (imports_bytes nms)"
proof (cases "nms = []")
  case True
  then show ?thesis by (simp add: imports_payload_def imports_bytes_def)
next
  case False
  let ?n = "4 + 4 * length nms + names_size nms" and ?c = "4 + count32 nms * 4 :: u32"
  have c: "?c = of_nat (4 + 4 * length nms)" and tot: "imports_total nms ?c = of_nat ?n"
    by (simp_all add: imports_total_eq)
  have uc: "unat ?c = 4 + 4 * length nms"
    unfolding c using assms by (intro unat_of_nat32) simp
  have ut: "unat (imports_total nms ?c) = ?n"
    unfolding tot using assms by (intro unat_of_nat32) simp
  have "put_u32_le ([] @ replicate 4 0 @ replicate (4 * length nms + names_size nms) 0) 0 (count32 nms)
    = Some ([] @ to_le32 (count32 nms) @ replicate (4 * length nms + names_size nms) 0)"
    by (rule put_u32_append) simp_all
  then have "put_u32_le (replicate ?n 0) 0 (count32 nms)
    = Some (to_le32 (count32 nms) @ replicate (4 * length nms) 0 @ replicate (names_size nms) 0)"
    by (simp add: replicate_add)
  moreover have "put_imports nms 0 ?c (to_le32 (count32 nms) @ concat (map to_le32 [])
      @ replicate (4 * length nms) 0 @ [] @ replicate (names_size nms) 0)
    = Ret (to_le32 (count32 nms) @ concat (map to_le32 ([] @ name_offsets nms ?c)) @ [] @ names_blob nms)"
    using assms uc by (intro put_imports_eq) simp_all
  ultimately show ?thesis
    using False by (simp add: imports_payload_def imports_bytes_def ut Let_def)
qed

section \<open>FUNCS\<close>

definition func_slots :: "u32 list \<Rightarrow> u32 list" where
  "func_slots fs = 0 # concat (map (\<lambda>f. [0, f]) fs)"

definition funcs_words :: "bool \<Rightarrow> u32 list \<Rightarrow> u32 list" where
  "funcs_words emit fs = (if emit \<and> fs \<noteq> [] then func_slots fs else [])"

lemma length_func_slots [simp]: "length (func_slots fs) = 1 + 2 * length fs"
  by (induction fs) (simp_all add: func_slots_def)

lemma fn_slot_unat: "unat (of_nat k :: u32) = k \<Longrightarrow> k + 1 < 2 ^ 31 \<Longrightarrow> unat (CVM_FN_SLOT (of_nat k)) = 2 * (k + 1)"
proof -
  assume k: "k + 1 < 2 ^ 31"
  have "CVM_FN_SLOT (of_nat k) = of_nat (2 * (k + 1))"
    by (simp add: CVM_FN_SLOT_def push_bit_eq_mult algebra_simps)
  also have "unat \<dots> = 2 * (k + 1)" using k by (intro unat_of_nat32) simp
  finally show ?thesis .
qed

lemma func_slots_nth:
  "k < length fs \<Longrightarrow> func_slots fs ! (2 * (k + 1)) = fs ! k"
  "i \<le> 2 * length fs \<Longrightarrow> odd i \<or> i = 0 \<Longrightarrow> func_slots fs ! i = 0"
proof -
  have *: "concat (map (\<lambda>f. [0, f]) fs) ! (2 * k + 1) = fs ! k" if "k < length fs" for k
    using that
  proof (induction fs arbitrary: k)
    case (Cons f fs)
    then show ?case by (cases k) simp_all
  qed simp
  have z: "concat (map (\<lambda>f. [0, f]) fs) ! (2 * k) = 0" if "k < length fs" for k
    using that
  proof (induction fs arbitrary: k)
    case (Cons f fs)
    then show ?case by (cases k) simp_all
  qed simp
  show "k < length fs \<Longrightarrow> func_slots fs ! (2 * (k + 1)) = fs ! k"
    using * [of k] by (simp add: func_slots_def)
  assume i: "i \<le> 2 * length fs" "odd i \<or> i = 0"
  show "func_slots fs ! i = 0"
  proof (cases "i = 0")
    case False
    with i obtain k where "i = 2 * k + 1" by (auto elim: oddE)
    with i z [of k] show ?thesis by (simp add: func_slots_def)
  qed (simp add: func_slots_def)
qed

lemma put_funcs_eq:
  assumes "length ws = 1 + 2 * k" "1 + 2 * (k + length fs) < 2 ^ 30"
  shows "put_funcs fs k (concat (map to_le32 ws) @ replicate (8 * length fs) 0)
    = Ret (concat (map to_le32 (ws @ concat (map (\<lambda>f. [0, f]) fs))))"
  using assms
proof (induction fs arbitrary: ws k)
  case (Cons f fs)
  have "unat (of_nat k :: u32) = k" using Cons.prems by (intro unat_of_nat32) simp
  then have at: "unat (CVM_FN_SLOT (of_nat k)) * 4 = length (concat (map to_le32 ws) @ replicate 4 0)"
    using Cons.prems by (subst fn_slot_unat) (simp_all add: length_words)
  have "put_u32_le ((concat (map to_le32 ws) @ replicate 4 0) @ replicate 4 0 @ replicate (8 * length fs) 0)
      (unat (CVM_FN_SLOT (of_nat k)) * 4) f
    = Some ((concat (map to_le32 ws) @ replicate 4 0) @ to_le32 f @ replicate (8 * length fs) 0)"
    by (rule put_u32_append [OF at [symmetric]]) simp
  moreover have "replicate (8 * length (f # fs)) (0 :: byte)
      = replicate 4 0 @ replicate 4 0 @ replicate (8 * length fs) 0"
    by (simp flip: replicate_add)
  moreover have "(replicate 4 0 :: byte list) = to_le32 0"
    by (simp add: to_le32_def numeral_eq_Suc)
  ultimately have "put_u32_le (concat (map to_le32 ws) @ replicate (8 * length (f # fs)) 0)
      (unat (CVM_FN_SLOT (of_nat k)) * 4) f
    = Some (concat (map to_le32 (ws @ [0, f])) @ replicate (8 * length fs) 0)" by simp
  with Cons.IH [of "ws @ [0, f]" "Suc k"] Cons.prems show ?case by simp
qed simp

lemma funcs_payload_eq:
  assumes "4 * length (funcs_words emit fs) < 2 ^ 32"
  shows "funcs_payload emit fs = Ret (concat (map to_le32 (funcs_words emit fs)))"
proof (cases "emit \<and> fs \<noteq> []")
  case False
  then show ?thesis by (auto simp: funcs_payload_def funcs_words_def)
next
  case True
  let ?n = "length fs"
  from True assms have n: "1 + 2 * ?n < 2 ^ 30" "0 < ?n" by (auto simp: funcs_words_def)
  have "count32 fs - 1 = (of_nat (?n - 1) :: u32)" using n(2) by (subst of_nat_diff) (simp_all add: Suc_le_eq)
  moreover have "unat (of_nat (?n - 1) :: u32) = ?n - 1" using n by (intro unat_of_nat32) simp
  moreover have "CVM_FN_SLOT (of_nat (?n - 1)) = of_nat (2 * ?n)"
    using n(2) by (cases ?n) (simp_all add: CVM_FN_SLOT_def push_bit_eq_mult algebra_simps)
  ultimately have "(CVM_FN_SLOT (count32 fs - 1) + 1) * 4 = (of_nat (4 + 8 * ?n) :: u32)"
    by (simp add: algebra_simps)
  moreover have "unat (of_nat (4 + 8 * ?n) :: u32) = 4 + 8 * ?n"
    using n by (intro unat_of_nat32) simp
  ultimately have "unat ((CVM_FN_SLOT (count32 fs - 1) + 1) * 4) = 4 + 8 * ?n" by (simp only:)
  moreover have "replicate (4 + 8 * ?n) (0 :: byte) = concat (map to_le32 [0]) @ replicate (8 * ?n) 0"
    by (simp add: to_le32_def numeral_eq_Suc)
  ultimately show ?thesis
    using put_funcs_eq [of "[0]" 0 fs] n True
    by (simp add: funcs_payload_def funcs_words_def func_slots_def Let_def)
qed

section \<open>HOST_REGION\<close>

definition region_bytes :: "cli_region \<Rightarrow> byte list" where
  "region_bytes r = cr_name r @ to_le32 (cr_size r) @ to_le32 (cr_direction r) @ to_le32 0"

definition regions_bytes :: "cli_region list \<Rightarrow> byte list" where
  "regions_bytes rs = (if rs = [] then [] else to_le32 (count32 rs) @ concat (map region_bytes rs))"

lemma length_region_bytes:
  "\<forall>r \<in> set rs. length (cr_name r) = 16 \<Longrightarrow> length (concat (map region_bytes rs)) = 28 * length rs"
  by (induction rs) (simp_all add: region_bytes_def)

lemma put_regions_eq:
  assumes "length pre = 4 + k * 28" "\<forall>r \<in> set rs. length (cr_name r) = 16"
  shows "put_regions rs k (pre @ replicate (28 * length rs) 0) = Ret (pre @ concat (map region_bytes rs))"
  using assms
proof (induction rs arbitrary: pre k)
  case (Cons r rs)
  let ?z = "replicate (28 * length rs) (0 :: byte)" and ?e = "4 + k * 28"
  have nm: "length (cr_name r) = 16" using Cons.prems(2) by simp
  have "mem_wr (pre @ replicate 16 0 @ replicate 12 0 @ ?z) ?e (cr_name r)
      = Some (pre @ cr_name r @ replicate 12 0 @ ?z)"
    using Cons.prems(1) nm by (intro mem_wr_append) simp_all
  moreover have "replicate (28 * length (r # rs)) (0 :: byte) = replicate 16 0 @ replicate 12 0 @ ?z"
    by (simp flip: replicate_add)
  moreover have "put_u32_le ((pre @ cr_name r) @ replicate 4 0 @ replicate 8 0 @ ?z) (?e + 16) (cr_size r)
      = Some ((pre @ cr_name r) @ to_le32 (cr_size r) @ replicate 8 0 @ ?z)"
    using Cons.prems(1) nm by (intro put_u32_append) simp_all
  moreover have "put_u32_le ((pre @ cr_name r @ to_le32 (cr_size r)) @ replicate 4 0 @ replicate 4 0 @ ?z)
        (?e + 20) (cr_direction r)
      = Some ((pre @ cr_name r @ to_le32 (cr_size r)) @ to_le32 (cr_direction r) @ replicate 4 0 @ ?z)"
    using Cons.prems(1) nm by (intro put_u32_append) simp_all
  moreover have "put_u32_le ((pre @ cr_name r @ to_le32 (cr_size r) @ to_le32 (cr_direction r))
        @ replicate 4 0 @ ?z) (?e + 24) 0
      = Some ((pre @ cr_name r @ to_le32 (cr_size r) @ to_le32 (cr_direction r)) @ to_le32 0 @ ?z)"
    using Cons.prems(1) nm by (intro put_u32_append) simp_all
  moreover have "replicate 12 (0 :: byte) = replicate 4 0 @ replicate 8 0"
    "replicate 8 (0 :: byte) = replicate 4 0 @ replicate 4 0"
    by (simp_all flip: replicate_add)
  moreover have "put_regions rs (Suc k) ((pre @ region_bytes r) @ ?z)
      = Ret ((pre @ region_bytes r) @ concat (map region_bytes rs))"
    using Cons.prems nm by (intro Cons.IH) (simp_all add: region_bytes_def)
  ultimately show ?case using nm by (simp add: Let_def region_bytes_def [of r])
qed simp

lemma regions_payload_eq:
  assumes "\<forall>r \<in> set rs. length (cr_name r) = 16" "4 + 28 * length rs < 2 ^ 32"
  shows "regions_payload rs = Ret (regions_bytes rs)"
proof (cases "rs = []")
  case True
  then show ?thesis by (simp add: regions_payload_def regions_bytes_def)
next
  case False
  have "4 + count32 rs * 28 = (of_nat (4 + 28 * length rs) :: u32)" by (simp add: mult.commute)
  moreover have "unat (of_nat (4 + 28 * length rs) :: u32) = 4 + 28 * length rs"
    using assms(2) by (intro unat_of_nat32) simp
  ultimately have sz: "unat (4 + count32 rs * 28 :: u32) = 4 + 28 * length rs" by (simp only:)
  have "put_u32_le ([] @ replicate 4 0 @ replicate (28 * length rs) 0) 0 (count32 rs)
      = Some ([] @ to_le32 (count32 rs) @ replicate (28 * length rs) 0)"
    by (rule put_u32_append) simp_all
  then have "put_u32_le (replicate (4 + 28 * length rs) 0) 0 (count32 rs)
      = Some (to_le32 (count32 rs) @ replicate (28 * length rs) 0)"
    by (simp add: replicate_add)
  with put_regions_eq [of "to_le32 (count32 rs)" 0 rs] assms(1) False sz show ?thesis
    by (simp add: regions_payload_def regions_bytes_def)
qed

section \<open>The file\<close>

lemma take_length_min: "take (min (length xs) n) xs = take n xs"
  by (cases "n \<le> length xs") (simp_all add: min_def)

lemma prefix_loop_eq:
  "prefix_loop rest left crc =
     (if left \<le> length rest then Some (foldl crc_byte crc (take left rest)) else None)"
proof (induction rest left crc rule: prefix_loop.induct)
  case (1 rest left crc)
  let ?buf = "take (min left 65536) rest"
  show ?case
  proof (cases "left = 0 \<or> ?buf = []")
    case True
    then show ?thesis by (subst prefix_loop.simps) (auto simp: Let_def)
  next
    case False
    let ?k = "length ?buf"
    have k: "?k \<le> left" "?k \<le> length rest" by simp_all
    have "?buf = take ?k rest" by (simp add: take_length_min)
    moreover have "take left rest = take ?k rest @ take (left - ?k) (drop ?k rest)"
      using take_add [of ?k "left - ?k" rest] k(1) by (simp only: le_add_diff_inverse)
    ultimately have whole: "foldl crc_byte (foldl crc_byte crc ?buf) (take (left - ?k) (drop ?k rest))
      = foldl crc_byte crc (take left rest)"
      by (simp only: foldl_append)
    have "prefix_loop rest left crc = prefix_loop (drop ?k rest) (left - ?k) (foldl crc_byte crc ?buf)"
      using False by (subst prefix_loop.simps) (auto simp: Let_def min_def)
    also have "\<dots> = (if left - ?k \<le> length (drop ?k rest)
        then Some (foldl crc_byte (foldl crc_byte crc ?buf) (take (left - ?k) (drop ?k rest))) else None)"
      using False by (intro 1) auto
    also have "\<dots> = (if left - ?k \<le> length (drop ?k rest)
        then Some (foldl crc_byte crc (take left rest)) else None)" by (simp only: whole)
    also have "left - ?k \<le> length (drop ?k rest) \<longleftrightarrow> left \<le> length rest"
      unfolding length_drop using k by linarith
    finally show ?thesis .
  qed
qed

lemma crc32_file_prefix_eq:
  "crc32_file_prefix f n = (if n \<le> length f then Some (cvm_crc32 (take n f)) else None)"
  by (simp add: crc32_file_prefix_def prefix_loop_eq cvm_crc32_def)

lemma count32_pos: "length xs < 2 ^ 32 \<Longrightarrow> 0 < count32 xs \<longleftrightarrow> xs \<noteq> []"
  by (cases xs) (simp_all add: word_gt_0_no unat_of_nat unat_eq_0 [symmetric] word_gt_0 del: of_nat_Suc)

lemma fwrite_bytes_eq: "length bs < 2 ^ 32 \<Longrightarrow> fwrite_bytes bs = bs"
  by (simp add: fwrite_bytes_def unat_of_nat)

definition code_bytes :: "bin_input \<Rightarrow> byte list" where
  "code_bytes i = concat (map to_le32 (bi_code i))"

definition imps :: "bin_input \<Rightarrow> byte list" where "imps i = imports_bytes (bi_imports i)"

definition fns :: "bin_input \<Rightarrow> byte list" where
  "fns i = concat (map to_le32 (funcs_words (bi_emit_funcs i) (bi_funcs i)))"

definition regs :: "bin_input \<Rightarrow> byte list" where "regs i = regions_bytes (bi_regions i)"

text \<open>The payload of a section, and the sections in file order.\<close>

definition present :: "bin_input \<Rightarrow> cvm_section_type \<Rightarrow> bool" where
  "present i t = (case t of CVM_SEC_CODE \<Rightarrow> True | CVM_SEC_DATA \<Rightarrow> bi_data i \<noteq> []
     | CVM_SEC_IMPORTS \<Rightarrow> imps i \<noteq> [] | CVM_SEC_HEAP_RESERVE \<Rightarrow> bi_heap_reserve i > 0
     | CVM_SEC_STACK_RESERVE \<Rightarrow> bi_stack_reserve i > 0 | CVM_SEC_FUNCS \<Rightarrow> fns i \<noteq> []
     | CVM_SEC_HOST_REGION \<Rightarrow> regs i \<noteq> [] | CVM_SEC_ROM \<Rightarrow> bi_rom i \<noteq> []
     | CVM_SEC_META \<Rightarrow> bi_meta i \<noteq> [] | CVM_SEC_SEAL \<Rightarrow> bi_seal i | _ \<Rightarrow> False)"

definition table_order :: "cvm_section_type list" where
  "table_order = [CVM_SEC_CODE, CVM_SEC_DATA, CVM_SEC_IMPORTS, CVM_SEC_HEAP_RESERVE,
     CVM_SEC_STACK_RESERVE, CVM_SEC_FUNCS, CVM_SEC_HOST_REGION, CVM_SEC_ROM, CVM_SEC_META, CVM_SEC_SEAL]"

definition base :: "bin_input \<Rightarrow> nat" where
  "base i = 24 + 16 * length (filter (present i) table_order)"

text \<open>The offset a payload has in the file and its size in the table.\<close>

definition sec_off :: "bin_input \<Rightarrow> cvm_section_type \<Rightarrow> nat" where
  "sec_off i t = (let c = base i + length (code_bytes i); d = c + length (bi_data i);
       m = d + length (imps i); f = m + length (fns i); r = f + length (regs i);
       x = r + length (bi_rom i); e = x + length (bi_meta i) in
     case t of CVM_SEC_CODE \<Rightarrow> base i | CVM_SEC_DATA \<Rightarrow> c | CVM_SEC_IMPORTS \<Rightarrow> d
       | CVM_SEC_FUNCS \<Rightarrow> m | CVM_SEC_HOST_REGION \<Rightarrow> f | CVM_SEC_ROM \<Rightarrow> r | CVM_SEC_META \<Rightarrow> x
       | CVM_SEC_SEAL \<Rightarrow> e | _ \<Rightarrow> 0)"

definition sec_size :: "bin_input \<Rightarrow> cvm_section_type \<Rightarrow> u32" where
  "sec_size i t = (case t of CVM_SEC_CODE \<Rightarrow> count32 (code_bytes i) | CVM_SEC_DATA \<Rightarrow> count32 (bi_data i)
     | CVM_SEC_IMPORTS \<Rightarrow> count32 (imps i) | CVM_SEC_HEAP_RESERVE \<Rightarrow> bi_heap_reserve i
     | CVM_SEC_STACK_RESERVE \<Rightarrow> bi_stack_reserve i | CVM_SEC_FUNCS \<Rightarrow> count32 (fns i)
     | CVM_SEC_HOST_REGION \<Rightarrow> count32 (regs i) | CVM_SEC_ROM \<Rightarrow> count32 (bi_rom i)
     | CVM_SEC_META \<Rightarrow> count32 (bi_meta i) | CVM_SEC_SEAL \<Rightarrow> 12 | _ \<Rightarrow> 0)"

definition entries :: "bin_input \<Rightarrow> (cvm_section_type \<times> u32 \<times> u32) list" where
  "entries i = map (\<lambda>t. (t, of_nat (sec_off i t), sec_size i t)) (filter (present i) table_order)"

definition entry_bytes :: "(cvm_section_type \<times> u32 \<times> u32) list \<Rightarrow> byte list" where
  "entry_bytes es = concat (map (\<lambda>(t, off, sz). sec_entry t off sz) es)"

definition header :: "bin_input \<Rightarrow> byte list" where
  "header i = concat (map to_le32 [0x314D5643, CVM_VERSION_1_0, 0, of_nat (length (entries i)), 24, bi_entry i])"

definition bin_prefix :: "bin_input \<Rightarrow> byte list" where
  "bin_prefix i = header i @ entry_bytes (entries i) @ code_bytes i @ bi_data i @ imps i @ fns i @ regs i
     @ bi_rom i @ bi_meta i"

definition bin_file :: "bin_input \<Rightarrow> byte list" where
  "bin_file i = bin_prefix i @ (if bi_seal i
     then concat (map to_le32 [CVM_SEAL_MAGIC, 1, cvm_crc32 (bin_prefix i)]) else [])"

text \<open>Everything fits 32 bits.\<close>

definition bin_fits :: "bin_input \<Rightarrow> bool" where
  "bin_fits i \<longleftrightarrow> (\<forall>r \<in> set (bi_regions i). length (cr_name r) = 16) \<and>
     196 + length (code_bytes i) + length (bi_data i)
       + (4 + 4 * length (bi_imports i) + names_size (bi_imports i)) + length (fns i)
       + (4 + 28 * length (bi_regions i)) + length (bi_rom i) + length (bi_meta i) < 2 ^ 32"

lemma length_imps: "length (imps i) \<le> 4 + 4 * length (bi_imports i) + names_size (bi_imports i)"
  by (simp add: imps_def imports_bytes_def length_words)

lemma length_regs:
  "\<forall>r \<in> set (bi_regions i). length (cr_name r) = 16 \<Longrightarrow> length (regs i) \<le> 4 + 28 * length (bi_regions i)"
  by (simp add: regs_def regions_bytes_def length_region_bytes)

lemma length_table_order: "length (filter (present i) table_order) \<le> 10"
  using length_filter_le [of "present i" table_order] by (simp add: table_order_def)

lemma length_entry_bytes [simp]: "length (entry_bytes es) = 16 * length es"
  by (induction es) (auto simp: entry_bytes_def sec_entry_def)

lemma length_header [simp]: "length (header i) = 24"
  by (simp add: header_def)

lemma length_prefix: "length (bin_prefix i) = sec_off i CVM_SEC_SEAL"
  by (simp add: bin_prefix_def sec_off_def base_def entries_def Let_def)

lemma fits_bound:
  "bin_fits i \<Longrightarrow> base i + length (code_bytes i) + length (bi_data i) + length (imps i) + length (fns i)
     + length (regs i) + length (bi_rom i) + length (bi_meta i) + 12 < 2 ^ 32"
  using length_imps [of i] length_regs [of i] length_table_order [of i]
  unfolding bin_fits_def base_def by linarith

end
