(* ===== verification/Bin_Round_Trip.thy ===== *)
theory Bin_Round_Trip
  imports Bin_Payloads
begin

text \<open>
  What \<open>write_bin\<close> writes, \<open>cvm_load_ex\<close> loads: for every input whose sizes fit, the file loads and
  the image has the input's code, data, function table, imports, regions and ROM; the seal
  checks; the META blob is found. The checksum changes with every single byte.
\<close>

section \<open>The file \<open>write_bin\<close> writes\<close>

lemma of_nat_filter_Cons:
  "(of_nat (length (filter P (x # xs))) :: u32) = one_if (P x) + of_nat (length (filter P xs))"
  by (simp add: one_if_def)

lemma entry_bytes_Cons:
  "entry_bytes (map (\<lambda>t. (t, off t, sz t)) (filter P (x # xs)))
     = (if P x then sec_entry x (off x) (sz x) else []) @ entry_bytes (map (\<lambda>t. (t, off t, sz t)) (filter P xs))"
  by (simp add: entry_bytes_def)

abbreviation lay :: "bin_input \<Rightarrow> bin_layout" where
  "lay i \<equiv> bin_offsets i (count32 (imps i)) (count32 (fns i)) (count32 (regs i))"

lemma lens:
  assumes fits: "bin_fits i"
  shows "length (bi_data i) < 2 ^ 32" "length (imps i) < 2 ^ 32" "length (fns i) < 2 ^ 32"
  "length (regs i) < 2 ^ 32" "length (bi_rom i) < 2 ^ 32" "length (bi_meta i) < 2 ^ 32"
  "length (code_bytes i) < 2 ^ 32" "4 * length (bi_code i) < 2 ^ 32"
  using fits_bound [OF fits] by (simp_all add: code_bytes_def length_words)

lemma pos:
  assumes fits: "bin_fits i"
  shows "0 < count32 (bi_data i) \<longleftrightarrow> bi_data i \<noteq> []" "0 < count32 (imps i) \<longleftrightarrow> imps i \<noteq> []"
  "0 < count32 (fns i) \<longleftrightarrow> fns i \<noteq> []" "0 < count32 (regs i) \<longleftrightarrow> regs i \<noteq> []"
  "0 < count32 (bi_rom i) \<longleftrightarrow> bi_rom i \<noteq> []" "0 < count32 (bi_meta i) \<longleftrightarrow> bi_meta i \<noteq> []"
  using lens [OF fits] by (simp_all only: count32_pos)

lemma section_count_eq:
  assumes fits: "bin_fits i"
  shows "bl_section_count (lay i) = of_nat (length (entries i))"
  by (simp add: bin_offsets_def Let_def entries_def table_order_def of_nat_filter_Cons present_def pos [OF fits]
      del: filter.simps) (simp add: one_if_def)

lemma base_eq: "of_nat (base i) = (24 + of_nat (length (entries i)) * 16 :: u32)"
  by (simp add: base_def entries_def)

lemma lay_code:
  assumes fits: "bin_fits i"
  shows "bl_code_off (lay i) = of_nat (base i)" "bl_code_size (lay i) = count32 (code_bytes i)"
  unfolding base_eq section_count_eq [OF fits, symmetric]
  by (simp_all add: bin_offsets_def Let_def code_bytes_def length_words)

lemma lay_offs:
  assumes fits: "bin_fits i"
  shows "bi_data i \<noteq> [] \<Longrightarrow> bl_data_off (lay i) = of_nat (sec_off i CVM_SEC_DATA)"
  "imps i \<noteq> [] \<Longrightarrow> bl_imports_off (lay i) = of_nat (sec_off i CVM_SEC_IMPORTS)"
  "fns i \<noteq> [] \<Longrightarrow> bl_funcs_off (lay i) = of_nat (sec_off i CVM_SEC_FUNCS)"
  "regs i \<noteq> [] \<Longrightarrow> bl_regions_off (lay i) = of_nat (sec_off i CVM_SEC_HOST_REGION)"
  "bi_rom i \<noteq> [] \<Longrightarrow> bl_rom_off (lay i) = of_nat (sec_off i CVM_SEC_ROM)"
  "bi_meta i \<noteq> [] \<Longrightarrow> bl_meta_off (lay i) = of_nat (sec_off i CVM_SEC_META)"
  "bl_seal_off (lay i) = of_nat (sec_off i CVM_SEC_SEAL)"
proof -
  have c: "bl_code_off (lay i) = of_nat (base i)" "bl_code_size (lay i) = count32 (code_bytes i)"
    by (rule lay_code [OF fits])+
  have "bl_data_off (lay i) = (if 0 < count32 (bi_data i) then bl_code_off (lay i) + bl_code_size (lay i) else 0)"
    "bl_imports_off (lay i) = (if 0 < count32 (imps i) then bl_code_off (lay i) + bl_code_size (lay i) + count32 (bi_data i) else 0)"
    "bl_funcs_off (lay i) = (if 0 < count32 (fns i) then bl_code_off (lay i) + bl_code_size (lay i) + count32 (bi_data i)
       + count32 (imps i) else 0)"
    "bl_regions_off (lay i) = (if 0 < count32 (regs i) then bl_code_off (lay i) + bl_code_size (lay i) + count32 (bi_data i)
       + count32 (imps i) + count32 (fns i) else 0)"
    "bl_rom_off (lay i) = (if 0 < count32 (bi_rom i) then bl_code_off (lay i) + bl_code_size (lay i) + count32 (bi_data i)
       + count32 (imps i) + count32 (fns i) + count32 (regs i) else 0)"
    "bl_meta_off (lay i) = (if 0 < count32 (bi_meta i) then bl_code_off (lay i) + bl_code_size (lay i) + count32 (bi_data i)
       + count32 (imps i) + count32 (fns i) + count32 (regs i) + count32 (bi_rom i) else 0)"
    "bl_seal_off (lay i) = bl_code_off (lay i) + bl_code_size (lay i) + count32 (bi_data i)
       + count32 (imps i) + count32 (fns i) + count32 (regs i) + count32 (bi_rom i) + count32 (bi_meta i)"
    by (simp_all add: bin_offsets_def Let_def)
  then show
    "bi_data i \<noteq> [] \<Longrightarrow> bl_data_off (lay i) = of_nat (sec_off i CVM_SEC_DATA)"
    "imps i \<noteq> [] \<Longrightarrow> bl_imports_off (lay i) = of_nat (sec_off i CVM_SEC_IMPORTS)"
    "fns i \<noteq> [] \<Longrightarrow> bl_funcs_off (lay i) = of_nat (sec_off i CVM_SEC_FUNCS)"
    "regs i \<noteq> [] \<Longrightarrow> bl_regions_off (lay i) = of_nat (sec_off i CVM_SEC_HOST_REGION)"
    "bi_rom i \<noteq> [] \<Longrightarrow> bl_rom_off (lay i) = of_nat (sec_off i CVM_SEC_ROM)"
    "bi_meta i \<noteq> [] \<Longrightarrow> bl_meta_off (lay i) = of_nat (sec_off i CVM_SEC_META)"
    "bl_seal_off (lay i) = of_nat (sec_off i CVM_SEC_SEAL)"
    unfolding c pos [OF fits] by (simp_all add: sec_off_def Let_def)
qed

lemma table_eq:
  assumes fits: "bin_fits i"
  shows "bin_table i (lay i) (count32 (imps i)) (count32 (fns i)) (count32 (regs i)) = entry_bytes (entries i)"
  unfolding entries_def table_order_def entry_bytes_Cons
  by (simp add: bin_table_def present_def pos [OF fits] lay_code [OF fits] lay_offs [OF fits] sec_size_def sec_off_def [of _ CVM_SEC_CODE]
      sec_off_def [of _ CVM_SEC_HEAP_RESERVE] sec_off_def [of _ CVM_SEC_STACK_RESERVE] entry_bytes_def Let_def
      cong: if_cong)

lemma header_eq:
  assumes fits: "bin_fits i"
  shows "bin_header i (lay i) = header i"
  by (simp add: bin_header_def header_def section_count_eq [OF fits] to_le32_def)

lemma body_eq:
  assumes fits: "bin_fits i"
  shows "bin_body i (imps i) (fns i) (regs i) = code_bytes i @ bi_data i @ imps i @ fns i @ regs i
     @ bi_rom i @ bi_meta i @ (if bi_seal i then to_le32 CVM_SEAL_MAGIC @ to_le32 1 @ to_le32 0 else [])"
  using lens [OF fits] by (simp add: bin_body_def fwrite_bytes_eq code_bytes_def CVM_SEAL_MAGIC_LE_def unat_of_nat)

lemma seal_patch:
  assumes fits: "bin_fits i"
  shows "patch_seal (bl_seal_off (lay i)) (bin_prefix i @ to_le32 CVM_SEAL_MAGIC @ to_le32 1 @ to_le32 0)
   = Some (bin_prefix i @ to_le32 CVM_SEAL_MAGIC @ to_le32 1 @ to_le32 (cvm_crc32 (bin_prefix i)))"
proof -
  let ?n = "sec_off i CVM_SEC_SEAL"
  have n: "?n + 12 < 2 ^ 32"
    using fits_bound [OF fits] by (simp add: sec_off_def Let_def)
  have "unat (of_nat ?n :: u32) = ?n" using n by (intro unat_of_nat32) simp
  moreover have "of_nat ?n + 8 = (of_nat (?n + 8) :: u32)" by simp
  moreover have "unat (of_nat (?n + 8) :: u32) = ?n + 8" using n by (intro unat_of_nat32) simp
  ultimately have u: "unat (bl_seal_off (lay i)) = ?n" "unat (bl_seal_off (lay i) + 8) = ?n + 8"
    by (simp_all only: lay_offs [OF fits])
  have len: "length (bin_prefix i) = ?n" by (rule length_prefix)
  show ?thesis
    unfolding patch_seal_def u crc32_file_prefix_eq file_patch_def using len by simp
qed

lemma write_bin_eq:
  assumes fits: "bin_fits i"
  shows "write_bin i = Ret (Some (bin_file i))"
proof -
  have b: "4 + 4 * length (bi_imports i) + names_size (bi_imports i) < 2 ^ 32"
    "4 * length (funcs_words (bi_emit_funcs i) (bi_funcs i)) < 2 ^ 32" "4 + 28 * length (bi_regions i) < 2 ^ 32"
    and r: "\<forall>r \<in> set (bi_regions i). length (cr_name r) = 16"
    using fits by (auto simp: bin_fits_def fns_def length_words)
  have p: "imports_payload (bi_imports i) = Ret (imps i)"
    "funcs_payload (bi_emit_funcs i) (bi_funcs i) = Ret (fns i)" "regions_payload (bi_regions i) = Ret (regs i)"
    using imports_payload_eq [OF b(1)] funcs_payload_eq [OF b(2)] regions_payload_eq [OF r b(3)]
    by (simp_all add: imps_def fns_def regs_def)
  show ?thesis
  proof (cases "bi_seal i")
    case True
    then show ?thesis
      unfolding write_bin_def p Let_def cbind.simps header_eq [OF fits] table_eq [OF fits] body_eq [OF fits]
      using seal_patch [OF fits] by (simp add: bin_file_def bin_prefix_def)
  next
    case False
    then show ?thesis
      unfolding write_bin_def p Let_def cbind.simps header_eq [OF fits] table_eq [OF fits] body_eq [OF fits]
      by (simp add: bin_file_def bin_prefix_def)
  qed
qed

section \<open>Scanning the table\<close>

lemma rd32_at: "length pre = n \<Longrightarrow> rd32 (pre @ to_le32 v @ post) n = Some v"
  by (simp add: rd32_def mem_rd_def)

fun scan_table :: "nat \<Rightarrow> (cvm_section_type \<times> u32 \<times> u32) list \<Rightarrow> secs \<Rightarrow> secs cres" where
  "scan_table len [] s = Ret s"
| "scan_table len ((t, off, sz) # es) s = cbind (scan_section len (sec_value t) off sz 0 s) (scan_table len es)"

lemma entry_reads:
  assumes "length pre = sec"
  shows "rd32 (pre @ sec_entry t off sz @ post) sec = Some (sec_value t)"
    "rd32 (pre @ sec_entry t off sz @ post) (sec + 4) = Some off"
    "rd32 (pre @ sec_entry t off sz @ post) (sec + 8) = Some sz"
    "rd32 (pre @ sec_entry t off sz @ post) (sec + 12) = Some 0"
proof -
  have "rd32 (pre @ to_le32 (sec_value t) @ (to_le32 off @ to_le32 sz @ to_le32 0 @ post)) sec = Some (sec_value t)"
    by (rule rd32_at) (simp add: assms)
  moreover have "rd32 ((pre @ to_le32 (sec_value t)) @ to_le32 off @ (to_le32 sz @ to_le32 0 @ post)) (sec + 4) = Some off"
    by (rule rd32_at) (simp add: assms)
  moreover have "rd32 ((pre @ to_le32 (sec_value t) @ to_le32 off) @ to_le32 sz @ (to_le32 0 @ post)) (sec + 8) = Some sz"
    by (rule rd32_at) (simp add: assms)
  moreover have "rd32 ((pre @ to_le32 (sec_value t) @ to_le32 off @ to_le32 sz) @ to_le32 0 @ post) (sec + 12) = Some 0"
    by (rule rd32_at) (simp add: assms)
  ultimately show
    "rd32 (pre @ sec_entry t off sz @ post) sec = Some (sec_value t)"
    "rd32 (pre @ sec_entry t off sz @ post) (sec + 4) = Some off"
    "rd32 (pre @ sec_entry t off sz @ post) (sec + 8) = Some sz"
    "rd32 (pre @ sec_entry t off sz @ post) (sec + 12) = Some 0"
    by (simp_all add: sec_entry_def)
qed

lemma entry_bytes_simps [simp]:
  "entry_bytes [] = []" "entry_bytes ((t, off, sz) # es) = sec_entry t off sz @ entry_bytes es"
  by (simp_all add: entry_bytes_def)

lemma length_sec_entry [simp]: "length (sec_entry t off sz) = 16"
  by (simp add: sec_entry_def)

lemma scan_loop_table:
  "length pre = sec \<Longrightarrow> f = pre @ entry_bytes es @ post \<Longrightarrow>
   scan_loop f (length es) sec s = scan_table (length f) es s"
proof (induction es arbitrary: pre sec s)
  case (Cons e es)
  obtain t off sz where e: "e = (t, off, sz)" by (cases e)
  have f: "f = pre @ sec_entry t off sz @ (entry_bytes es @ post)" using Cons.prems(2) by (simp add: e)
  have "scan_loop f (length es) (sec + 16) = scan_table (length f) es"
    using Cons.prems f by (intro ext Cons.IH [of "pre @ sec_entry t off sz"]) simp_all
  then show ?case
    using entry_reads [OF Cons.prems(1), of t off sz "entry_bytes es @ post"] by (simp add: e f [symmetric])
qed simp

lemma peek_loop_table:
  "length pre = sec \<Longrightarrow> f = pre @ entry_bytes es @ post \<Longrightarrow>
   peek_loop f type (length es) sec =
     (case find (\<lambda>e. sec_value (fst e) = sec_value type) es of None \<Rightarrow> Ret Peek_absent
      | Some (t, off, sz) \<Rightarrow> if unat off + unat sz > length f then Ret Peek_malformed
          else Ret (Peek_found (unat off) sz))"
proof (induction es arbitrary: pre sec)
  case (Cons e es)
  obtain t off sz where e: "e = (t, off, sz)" by (cases e)
  have f: "f = pre @ sec_entry t off sz @ (entry_bytes es @ post)" using Cons.prems(2) by (simp add: e)
  have "peek_loop f type (length es) (sec + 16) =
     (case find (\<lambda>e. sec_value (fst e) = sec_value type) es of None \<Rightarrow> Ret Peek_absent
      | Some (t, off, sz) \<Rightarrow> if unat off + unat sz > length f then Ret Peek_malformed
          else Ret (Peek_found (unat off) sz))"
    using Cons.prems f by (intro Cons.IH [of "pre @ sec_entry t off sz"]) simp_all
  then show ?case
    using entry_reads [OF Cons.prems(1), of t off sz "entry_bytes es @ post"] by (simp add: e f [symmetric])
qed simp

text \<open>The scan's variables after the sections of \<open>D\<close>.\<close>

definition fld :: "bin_input \<Rightarrow> cvm_section_type set \<Rightarrow> cvm_section_type \<Rightarrow> u32 \<Rightarrow> u32" where
  "fld i D t v = (if t \<in> D \<and> present i t then v else 0)"

definition sec_state :: "bin_input \<Rightarrow> cvm_section_type set \<Rightarrow> secs" where
  "sec_state i D = (let o32 = (\<lambda>t. fld i D t (of_nat (sec_off i t))); z = (\<lambda>t. fld i D t (sec_size i t)) in
     \<lparr>seen = map (\<lambda>k. \<exists>t \<in> D. present i t \<and> unat (sec_value t) = k) [0..<13],
      code_off = o32 CVM_SEC_CODE, code_size = z CVM_SEC_CODE,
      data_off = o32 CVM_SEC_DATA, data_size = z CVM_SEC_DATA, bss_size = 0,
      reserve_size = z CVM_SEC_HEAP_RESERVE, stack_size = z CVM_SEC_STACK_RESERVE,
      imports_off = o32 CVM_SEC_IMPORTS, imports_size = z CVM_SEC_IMPORTS,
      funcs_off = o32 CVM_SEC_FUNCS, funcs_size = z CVM_SEC_FUNCS,
      regions_off = o32 CVM_SEC_HOST_REGION, regions_size = z CVM_SEC_HOST_REGION,
      rom_off = o32 CVM_SEC_ROM, rom_size = z CVM_SEC_ROM,
      has_code = (CVM_SEC_CODE \<in> D)\<rparr>)"

lemma sec_value_inj: "unat (sec_value t) = unat (sec_value t') \<longleftrightarrow> t = t'"
  by (cases t; cases t'; simp)

lemma sec_value_lt: "unat (sec_value t) < 13"
  by (cases t) simp_all

lemma sec_state_empty: "sec_state i {} = no_secs"
  by (simp add: sec_state_def no_secs_def fld_def Let_def map_replicate_trivial)

lemma fld_simps:
  "present i t \<Longrightarrow> fld i (insert t D) t v = v" "t \<noteq> t' \<Longrightarrow> fld i (insert t D) t' v = fld i D t' v"
  by (simp_all add: fld_def)

lemma sec_state_absent: "\<not> present i t \<Longrightarrow> sec_state i (insert t D) = sec_state i D"
proof -
  assume np: "\<not> present i t"
  have "fld i (insert t D) = fld i D" using np by (auto simp: fld_def fun_eq_iff)
  moreover have "t \<noteq> CVM_SEC_CODE" using np by (auto simp: present_def)
  moreover have "(\<exists>t' \<in> insert t D. present i t' \<and> unat (sec_value t') = k)
      = (\<exists>t' \<in> D. present i t' \<and> unat (sec_value t') = k)" for k using np by auto
  ultimately show ?thesis by (simp add: sec_state_def Let_def)
qed

lemma seen_insert:
  "present i t \<Longrightarrow> (map (\<lambda>k. \<exists>t' \<in> D. present i t' \<and> unat (sec_value t') = k) [0..<13])[unat (sec_value t) := True]
   = map (\<lambda>k. \<exists>t' \<in> insert t D. present i t' \<and> unat (sec_value t') = k) [0..<13]"
proof (rule nth_equalityI)
  assume p: "present i t"
  let ?f = "\<lambda>D k. \<exists>t' \<in> D. present i t' \<and> unat (sec_value t') = k" and ?v = "unat (sec_value t)"
  fix k assume "k < length ((map (?f D) [0..<13])[?v := True])"
  then have k: "k < 13" by simp
  show "(map (?f D) [0..<13])[?v := True] ! k = map (?f (insert t D)) [0..<13] ! k"
  proof (cases "k = ?v")
    case True
    with k p show ?thesis by auto
  next
    case False
    then have "?f (insert t D) k = ?f D k" by auto
    with k False show ?thesis by simp
  qed
qed simp

lemma not_seen: "t \<notin> D \<Longrightarrow> \<not> seen (sec_state i D) ! unat (sec_value t)"
  using sec_value_lt [of t] by (auto simp: sec_state_def Let_def sec_value_inj)

text \<open>What a program needs to be loadable.\<close>

definition region_ok :: "cli_region \<Rightarrow> bool" where
  "region_ok r \<longleftrightarrow> length (cr_name r) = 16 \<and> 0 \<in> set (cr_name r) \<and> cr_name r ! 0 \<noteq> 0
     \<and> dir_value CVM_REGION_R \<le> cr_direction r \<and> cr_direction r \<le> dir_value CVM_REGION_RW"

definition regions_total :: "cli_region list \<Rightarrow> nat" where
  "regions_total rs = sum_list (map (\<lambda>r. align4 (unat (cr_size r))) rs)"

definition bin_valid :: "bin_input \<Rightarrow> bool" where
  "bin_valid i \<longleftrightarrow> bin_fits i \<and> unat (bi_entry i) < length (bi_code i)
     \<and> (\<forall>nm \<in> set (bi_imports i). 0 \<notin> set nm) \<and> length (bi_imports i) \<le> 0xFFFF
     \<and> (\<forall>f \<in> set (bi_funcs i). unat f < length (bi_code i))
     \<and> (\<forall>r \<in> set (bi_regions i). region_ok r) \<and> length (bi_regions i) \<le> 0xFFFF
     \<and> distinct (map (\<lambda>r. c_str (cr_name r)) (bi_regions i))
     \<and> length (bi_data i) + regions_total (bi_regions i) + length (bi_rom i)
         + unat (bi_heap_reserve i) + unat (bi_stack_reserve i) \<le> 0xFFFFFFFF
     \<and> (bi_stack_reserve i = 0 \<or> 4 \<le> bi_stack_reserve i)"

lemma valid_fits: "bin_valid i \<Longrightarrow> bin_fits i"
  by (simp add: bin_valid_def)

lemma unat_count32: "length xs < 2 ^ 32 \<Longrightarrow> unat (count32 xs :: u32) = length xs"
  by (simp add: unat_of_nat)

lemma unat_sizes:
  assumes "bin_fits i"
  shows "unat (sec_size i CVM_SEC_CODE) = 4 * length (bi_code i)"
    "unat (sec_size i CVM_SEC_DATA) = length (bi_data i)"
    "unat (sec_size i CVM_SEC_IMPORTS) = length (imps i)"
    "unat (sec_size i CVM_SEC_FUNCS) = length (fns i)"
    "unat (sec_size i CVM_SEC_HOST_REGION) = length (regs i)"
    "unat (sec_size i CVM_SEC_ROM) = length (bi_rom i)"
    "unat (sec_size i CVM_SEC_META) = length (bi_meta i)"
    "unat (sec_size i CVM_SEC_SEAL) = 12"
proof -
  have "sec_size i CVM_SEC_CODE = count32 (code_bytes i)" by (simp add: sec_size_def)
  then have "unat (sec_size i CVM_SEC_CODE) = length (code_bytes i)"
    by (simp only: unat_count32 [OF lens(7) [OF assms]])
  then show "unat (sec_size i CVM_SEC_CODE) = 4 * length (bi_code i)"
    by (simp add: code_bytes_def length_words)
qed (use lens [OF assms] in \<open>simp_all add: sec_size_def unat_count32\<close>)

lemma sec_off_bound:
  assumes "bin_fits i" shows "sec_off i t < 2 ^ 32"
  using fits_bound [OF assms] by (cases t) (simp_all add: sec_off_def Let_def)

lemma unat_sec_off: "bin_fits i \<Longrightarrow> unat (of_nat (sec_off i t) :: u32) = sec_off i t"
  using sec_off_bound [of i t] by (intro unat_of_nat32) simp

lemma length_bin_file: "length (bin_file i) = sec_off i CVM_SEC_SEAL + (if bi_seal i then 12 else 0)"
  by (simp add: bin_file_def length_prefix)

definition with_payload :: "cvm_section_type list" where
  "with_payload = [CVM_SEC_CODE, CVM_SEC_DATA, CVM_SEC_IMPORTS, CVM_SEC_FUNCS, CVM_SEC_HOST_REGION,
     CVM_SEC_ROM, CVM_SEC_META, CVM_SEC_SEAL]"

lemma payload_in_file:
  assumes "bin_fits i" "present i t" "t \<in> set with_payload"
  shows "sec_off i t + unat (sec_size i t) \<le> length (bin_file i)"
  using assms(2,3) unat_sizes [OF assms(1)]
  by (auto simp: with_payload_def length_bin_file sec_off_def Let_def present_def code_bytes_def length_words)

lemma fns_mod4: "length (fns i) mod 4 = 0"
  by (simp add: fns_def length_words)

lemma scan_section_step:
  assumes v: "bin_valid i" and t: "t \<in> set table_order" "present i t" "t \<notin> D"
  shows "scan_section (length (bin_file i)) (sec_value t) (of_nat (sec_off i t)) (sec_size i t) 0 (sec_state i D)
    = Ret (sec_state i (insert t D))"
proof -
  note f = valid_fits [OF v]
  let ?s = "(sec_state i D)\<lparr>seen := (seen (sec_state i D))[unat (sec_value t) := True]\<rparr>"
  have len: "length (seen (sec_state i D)) = 13" by (simp add: sec_state_def Let_def)
  have t': "t \<noteq> CVM_SEC_DEBUG" "t \<noteq> CVM_SEC_BSS" using t(1) by (auto simp: table_order_def)
  have pay: "has_payload (sec_value t) \<longleftrightarrow> t \<in> set with_payload"
    using t' t(1) by (cases t) (simp_all add: has_payload_def with_payload_def table_order_def)
  have off0: "t \<notin> set with_payload \<Longrightarrow> sec_off i t = 0"
    using t' t(1) by (cases t) (simp_all add: sec_off_def with_payload_def Let_def table_order_def)
  have in_file: "t \<in> set with_payload \<Longrightarrow>
      unat (of_nat (sec_off i t) :: u32) + unat (sec_size i t) \<le> length (bin_file i)"
    using payload_in_file [OF f t(2)] by (simp only: unat_sec_off [OF f])
  have type: "sec_value t \<noteq> 0" "\<not> 12 < sec_value t" "sec_value t \<noteq> sec_value CVM_SEC_DEBUG"
    using t' by (cases t; simp)+
  have "scan_section (length (bin_file i)) (sec_value t) (of_nat (sec_off i t)) (sec_size i t) 0 (sec_state i D)
    = record_section (sec_value t) (of_nat (sec_off i t)) (sec_size i t) ?s"
    using not_seen [OF t(3), of i] len sec_value_lt [of t] pay off0 in_file
    by (cases "t \<in> set with_payload") (simp_all add: scan_section_def Let_def type type [simplified])
  also have "seen ?s = map (\<lambda>k. \<exists>t' \<in> insert t D. present i t' \<and> unat (sec_value t') = k) [0..<13]"
    using seen_insert [OF t(2), of D] by (simp add: sec_state_def Let_def)
  then have "?s = (sec_state i D)\<lparr>seen := seen (sec_state i (insert t D))\<rparr>"
    by (simp add: sec_state_def Let_def)
  also have "record_section (sec_value t) (of_nat (sec_off i t)) (sec_size i t) \<dots> = Ret (sec_state i (insert t D))"
  proof -
    have nz: "x \<noteq> 0 \<and> x mod 4 = 0" if "unat x \<noteq> 0" "unat x mod 4 = 0" for x :: u32
      using that by (auto simp: mod4_unat)
    have code: "t = CVM_SEC_CODE \<Longrightarrow> sec_size i t \<noteq> 0 \<and> sec_size i t mod 4 = 0"
      using v by (intro nz) (auto simp: unat_sizes [OF f] bin_valid_def)
    have func: "t = CVM_SEC_FUNCS \<Longrightarrow> sec_size i t \<noteq> 0 \<and> sec_size i t mod 4 = 0"
      using t(2) fns_mod4 [of i] by (intro nz) (auto simp: unat_sizes [OF f] present_def)
    show ?thesis
      using t(2) t' code func by (cases t)
        (simp_all add: record_section_def sec_state_def Let_def fld_def present_def)
  qed
  finally show ?thesis .
qed

lemma scan_entries:
  assumes v: "bin_valid i"
  shows "set ts \<subseteq> set table_order \<Longrightarrow> distinct ts \<Longrightarrow> D \<inter> set ts = {} \<Longrightarrow>
    scan_table (length (bin_file i)) (map (\<lambda>t. (t, of_nat (sec_off i t), sec_size i t)) (filter (present i) ts))
      (sec_state i D) = Ret (sec_state i (D \<union> set ts))"
proof (induction ts arbitrary: D)
  case (Cons t ts)
  have IH: "scan_table (length (bin_file i)) (map (\<lambda>t. (t, of_nat (sec_off i t), sec_size i t)) (filter (present i) ts))
      (sec_state i (insert t D)) = Ret (sec_state i (insert t D \<union> set ts))"
    using Cons.prems by (intro Cons.IH) auto
  show ?case
  proof (cases "present i t")
    case True
    with Cons.prems scan_section_step [OF v, of t D] IH show ?thesis by simp
  next
    case False
    with IH sec_state_absent [OF False, of D] show ?thesis by simp
  qed
qed simp

definition bin_secs :: "bin_input \<Rightarrow> secs" where
  "bin_secs i = sec_state i (set table_order)"

lemma file_split: "\<exists>post. bin_file i = header i @ entry_bytes (entries i) @ post"
  by (simp add: bin_file_def bin_prefix_def)

lemma rd32_words_append: "k < length ws \<Longrightarrow> rd32 (concat (map to_le32 ws) @ post) (4 * k) = Some (ws ! k)"
proof -
  assume k: "k < length ws"
  have "rd32 (concat (map to_le32 (take k ws)) @ to_le32 (ws ! k) @ (concat (map to_le32 (drop (Suc k) ws)) @ post)) (4 * k)
      = Some (ws ! k)"
    using k by (intro rd32_at) (simp add: length_words)
  moreover have "concat (map to_le32 ws) = concat (map to_le32 (take k ws)) @ to_le32 (ws ! k)
      @ concat (map to_le32 (drop (Suc k) ws))"
    using id_take_nth_drop [OF k] by (metis concat.simps(2) concat_append list.simps(9) map_append)
  ultimately show ?thesis by simp
qed

lemma header_reads:
  "rd32 (bin_file i) 4 = Some CVM_VERSION_1_0" "rd32 (bin_file i) 8 = Some 0"
  "rd32 (bin_file i) 12 = Some (of_nat (length (entries i)))" "rd32 (bin_file i) 16 = Some 24"
  "rd32 (bin_file i) 20 = Some (bi_entry i)" "magic_ok (bin_file i)"
proof -
  obtain post where f: "bin_file i = header i @ post" using file_split by blast
  let ?ws = "[0x314D5643, CVM_VERSION_1_0, 0, of_nat (length (entries i)), 24, bi_entry i]"
  have at: "k < 6 \<Longrightarrow> rd32 (bin_file i) (4 * k) = Some (?ws ! k)" for k
    unfolding f header_def by (rule rd32_words_append) simp
  show "rd32 (bin_file i) 4 = Some CVM_VERSION_1_0" "rd32 (bin_file i) 8 = Some 0"
    "rd32 (bin_file i) 12 = Some (of_nat (length (entries i)))" "rd32 (bin_file i) 16 = Some 24"
    "rd32 (bin_file i) 20 = Some (bi_entry i)"
    using at [of 1] at [of 2] at [of 3] at [of 4] at [of 5] by simp_all
  show "magic_ok (bin_file i)"
    by (simp add: f header_def magic_ok_def to_le32_def)
qed

lemma length_entries: "length (entries i) \<le> 10"
  using length_table_order by (simp add: entries_def)

lemma table_in_file: "24 + 16 * length (entries i) \<le> length (bin_file i)"
  by (simp add: bin_file_def bin_prefix_def)

lemma load_header_file:
  assumes v: "bin_valid i"
  shows "load_header (bin_file i) = Ret (bin_secs i, bi_entry i)"
proof -
  note f = valid_fits [OF v]
  obtain post where fs: "bin_file i = header i @ entry_bytes (entries i) @ post" using file_split by blast
  have n: "unat (of_nat (length (entries i)) :: u32) = length (entries i)"
    using length_entries [of i] by (intro unat_of_nat32) simp
  have "scan_loop (bin_file i) (length (entries i)) 24 no_secs = scan_table (length (bin_file i)) (entries i) (sec_state i {})"
    unfolding sec_state_empty by (rule scan_loop_table [OF _ fs]) simp
  also have "\<dots> = Ret (bin_secs i)"
    using scan_entries [OF v, of table_order "{}"]
    by (simp add: entries_def bin_secs_def) (simp add: table_order_def)
  finally have scan: "scan_loop (bin_file i) (length (entries i)) 24 no_secs = Ret (bin_secs i)" .
  have hc: "has_code (bin_secs i)" "code_size (bin_secs i) = sec_size i CVM_SEC_CODE"
    by (simp_all add: bin_secs_def sec_state_def table_order_def Let_def fld_def present_def)
  have "bi_entry i < sec_size i CVM_SEC_CODE div 4"
    using v unat_sizes(1) [OF f] by (simp add: word_arith unat_div4 bin_valid_def)
  then show ?thesis
    using table_in_file [of i] scan hc by (simp add: load_header_def header_reads n not_le not_less)
qed

end
