(* ===== verification/Bin_Loads.thy ===== *)
theory Bin_Loads
  imports Bin_Round_Trip
begin

text \<open>
  The second half of the round trip: the payloads of a written file pass the loader's validation,
  and the image holds what the writer was given. The properties of the writer.
\<close>

section \<open>Payloads in the file\<close>

fun payload :: "bin_input \<Rightarrow> cvm_section_type \<Rightarrow> byte list" where
  "payload i CVM_SEC_CODE = code_bytes i"
| "payload i CVM_SEC_DATA = bi_data i"
| "payload i CVM_SEC_IMPORTS = imps i"
| "payload i CVM_SEC_FUNCS = fns i"
| "payload i CVM_SEC_HOST_REGION = regs i"
| "payload i CVM_SEC_ROM = bi_rom i"
| "payload i CVM_SEC_META = bi_meta i"
| "payload i _ = []"

lemma payload_at: "t \<in> set with_payload \<Longrightarrow> \<exists>A B. bin_file i = A @ payload i t @ B \<and> length A = sec_off i t"
proof -
  let ?h = "header i @ entry_bytes (entries i)"
  have h: "length ?h = base i" by (simp add: base_def entries_def)
  obtain post where f: "bin_file i = ?h @ code_bytes i @ bi_data i @ imps i @ fns i @ regs i @ bi_rom i @ bi_meta i @ post"
    by (simp add: bin_file_def bin_prefix_def)
  let ?pre = "\<lambda>t. case t of CVM_SEC_CODE \<Rightarrow> ?h | CVM_SEC_DATA \<Rightarrow> ?h @ code_bytes i
    | CVM_SEC_IMPORTS \<Rightarrow> ?h @ code_bytes i @ bi_data i | CVM_SEC_FUNCS \<Rightarrow> ?h @ code_bytes i @ bi_data i @ imps i
    | CVM_SEC_HOST_REGION \<Rightarrow> ?h @ code_bytes i @ bi_data i @ imps i @ fns i
    | CVM_SEC_ROM \<Rightarrow> ?h @ code_bytes i @ bi_data i @ imps i @ fns i @ regs i
    | CVM_SEC_META \<Rightarrow> ?h @ code_bytes i @ bi_data i @ imps i @ fns i @ regs i @ bi_rom i
    | _ \<Rightarrow> ?h @ code_bytes i @ bi_data i @ imps i @ fns i @ regs i @ bi_rom i @ bi_meta i"
  assume "t \<in> set with_payload"
  then have "length (?pre t) = sec_off i t \<and> (\<exists>B. bin_file i = ?pre t @ payload i t @ B)"
    using h by (auto simp: with_payload_def sec_off_def Let_def f)
  then show ?thesis by blast
qed

lemma mem_rd_at: "length A = n \<Longrightarrow> mem_rd (A @ p @ B) n (length p) = Some p"
  by (simp add: mem_rd_def)

lemma rd32s_words: "length A = n \<Longrightarrow> rd32s (A @ concat (map to_le32 ws) @ B) n (length ws) = Some ws"
proof (induction ws arbitrary: A n)
  case (Cons w ws)
  have "rd32 (A @ to_le32 w @ (concat (map to_le32 ws) @ B)) n = Some w" by (rule rd32_at) (rule Cons.prems)
  moreover have "rd32s ((A @ to_le32 w) @ concat (map to_le32 ws) @ B) (n + 4) (length ws) = Some ws"
    using Cons.prems by (intro Cons.IH) simp
  ultimately show ?case by simp
qed simp

lemma load_funcs_words:
  "length A = n \<Longrightarrow> \<forall>w \<in> set ws. w < cc \<Longrightarrow>
   load_funcs (A @ concat (map to_le32 ws) @ B) n (length ws) cc = Ret (Some ws)"
proof (induction ws arbitrary: A n)
  case (Cons w ws)
  have "rd32 (A @ to_le32 w @ (concat (map to_le32 ws) @ B)) n = Some w" by (rule rd32_at) (rule Cons.prems)
  moreover have "load_funcs ((A @ to_le32 w) @ concat (map to_le32 ws) @ B) (n + 4) (length ws) cc = Ret (Some ws)"
    using Cons.prems by (intro Cons.IH) simp_all
  ultimately show ?case using Cons.prems by (simp add: not_le)
qed simp

section \<open>HOST_REGION\<close>

lemma c_str_take16: "0 \<in> set nm \<Longrightarrow> length nm = 16 \<Longrightarrow> take 16 (c_str nm) = c_str nm"
  by (metis c_str_def length_takeWhile_le take_all)

lemma c_str_append: "0 \<in> set nm \<Longrightarrow> c_str (nm @ t) = c_str nm"
  by (simp add: c_str_def takeWhile_append1)

lemma region_at:
  assumes "\<forall>r \<in> set rs. region_ok r" "length A = rp" "j < length rs"
  shows "\<exists>C D. A @ to_le32 n @ concat (map region_bytes rs) @ B = C @ region_bytes (rs ! j) @ D
    \<and> length C = rp + 4 + j * 28"
proof -
  have 16: "\<forall>r \<in> set rs. length (cr_name r) = 16" using assms(1) by (simp add: region_ok_def)
  have "concat (map region_bytes rs) = concat (map region_bytes (take j rs)) @ region_bytes (rs ! j)
      @ concat (map region_bytes (drop (Suc j) rs))"
    using id_take_nth_drop [OF assms(3)] by (metis concat.simps(2) concat_append list.simps(9) map_append)
  moreover have "length (concat (map region_bytes (take j rs))) = 28 * j"
    using 16 assms(3) by (subst length_region_bytes) (auto dest: in_set_takeD)
  ultimately show ?thesis
    using assms(2) by (intro exI [of _ "A @ to_le32 n @ concat (map region_bytes (take j rs))"]
      exI [of _ "concat (map region_bytes (drop (Suc j) rs)) @ B"]) simp
qed

lemma drop_region_name:
  assumes "\<forall>r \<in> set rs. region_ok r" "length A = rp" "j < length rs"
  shows "\<exists>D. drop (rp + 4 + j * 28) (A @ to_le32 n @ concat (map region_bytes rs) @ B) = cr_name (rs ! j) @ D"
proof -
  obtain C D where eq: "A @ to_le32 n @ concat (map region_bytes rs) @ B = C @ region_bytes (rs ! j) @ D"
    and C: "length C = rp + 4 + j * 28" using region_at [OF assms] by blast
  show ?thesis unfolding eq using C by (simp add: region_bytes_def)
qed

lemma region_dup_False:
  assumes ok: "\<forall>r \<in> set rs. region_ok r" and A: "length A = rp"
    and d: "distinct (map (\<lambda>r. c_str (cr_name r)) rs)" and j: "j < length rs"
    and f: "f = A @ to_le32 n @ concat (map region_bytes rs) @ B"
  shows "m + k \<le> j \<Longrightarrow> region_dup f (rp + 4 + j * 28) k (rp + 4 + m * 28) = Ret False"
proof (induction k arbitrary: m)
  case (Suc k)
  then have m: "m < length rs" "m < j" using j by simp_all
  obtain D where D: "drop (rp + 4 + j * 28) f = cr_name (rs ! j) @ D"
    using drop_region_name [OF ok A j] f by blast
  obtain E where E: "drop (rp + 4 + m * 28) f = cr_name (rs ! m) @ E"
    using drop_region_name [OF ok A m(1)] f by blast
  have "region_ok (rs ! j)" "region_ok (rs ! m)" using ok j m(1) by simp_all
  then have z: "0 \<in> set (cr_name (rs ! j))" "0 \<in> set (cr_name (rs ! m))"
    "length (cr_name (rs ! j)) = 16" "length (cr_name (rs ! m)) = 16"
    by (simp_all add: region_ok_def)
  have "c_str (cr_name (rs ! j)) \<noteq> c_str (cr_name (rs ! m))"
    using d j m by (simp add: distinct_conv_nth)
  then have "strncmp_eq 16 (drop (rp + 4 + j * 28) f) (drop (rp + 4 + m * 28) f) = Some False"
    using z unfolding D E by (subst strncmp_eq_terminated) (simp_all add: c_str_append c_str_take16)
  moreover have "region_dup f (rp + 4 + j * 28) k (rp + 4 + Suc m * 28) = Ret False"
    using Suc.prems by (intro Suc.IH) simp
  ultimately show ?case by (simp add: algebra_simps)
qed simp

lemma check_regions_ok:
  assumes ok: "\<forall>r \<in> set rs. region_ok r" and A: "length A = rp"
    and d: "distinct (map (\<lambda>r. c_str (cr_name r)) rs)"
    and f: "f = A @ to_le32 n @ concat (map region_bytes rs) @ B"
  shows "j + k = length rs \<Longrightarrow> tot + regions_total (drop j rs) \<le> 0xFFFFFFFF \<Longrightarrow>
    check_regions f rp k j tot = Ret (tot + regions_total (drop j rs))"
proof (induction k arbitrary: j tot)
  case (Suc k)
  then have j: "j < length rs" by simp
  let ?r = "rs ! j" and ?e = "rp + 4 + j * 28"
  have r: "region_ok ?r" using ok j by simp
  obtain C D where CD: "f = C @ region_bytes ?r @ D" "length C = ?e"
    using region_at [OF ok A j] f by blast
  have f1: "f = (C @ cr_name ?r) @ to_le32 (cr_size ?r) @ (to_le32 (cr_direction ?r) @ to_le32 0 @ D)"
    "f = (C @ cr_name ?r @ to_le32 (cr_size ?r)) @ to_le32 (cr_direction ?r) @ (to_le32 0 @ D)"
    "f = (C @ cr_name ?r @ to_le32 (cr_size ?r) @ to_le32 (cr_direction ?r)) @ to_le32 0 @ D"
    by (simp_all add: CD(1) region_bytes_def)
  have nm: "length (cr_name ?r) = 16" using r by (simp add: region_ok_def)
  have at: "rd32 f (?e + 16) = Some (cr_size ?r)" "rd32 f (?e + 20) = Some (cr_direction ?r)" "rd32 f (?e + 24) = Some 0"
    by (subst f1(1), rule rd32_at, simp add: CD(2) nm) (subst f1(2), rule rd32_at, simp add: CD(2) nm,
      subst f1(3), rule rd32_at, simp add: CD(2) nm)
  obtain D' where D': "drop ?e f = cr_name ?r @ D'" using drop_region_name [OF ok A j] f by blast
  have "memchr_found 0 16 (drop ?e f) = Some (0 \<in> set (take 16 (drop ?e f)))"
    unfolding D' by (rule memchr_found_take) (simp add: nm)
  then have m: "memchr_found 0 16 (drop ?e f) = Some True"
    using r nm by (simp add: D' region_ok_def)
  have e0: "f ! ?e = cr_name ?r ! 0"
    unfolding CD(1) using CD(2) nm by (simp add: nth_append region_bytes_def)
  have tot: "regions_total (drop j rs) = align4 (unat (cr_size ?r)) + regions_total (drop (Suc j) rs)"
    using j by (simp add: regions_total_def Cons_nth_drop_Suc [symmetric])
  have dup: "region_dup f ?e j (rp + 4) = Ret False"
    using region_dup_False [OF ok A d j f, of 0 j] by simp
  have "check_regions f rp k (Suc j) (tot + align4 (unat (cr_size ?r)))
      = Ret (tot + align4 (unat (cr_size ?r)) + regions_total (drop (Suc j) rs))"
    using Suc.prems tot by (intro Suc.IH) simp_all
  then show ?case
    using m e0 at dup r tot Suc.prems by (simp add: Let_def region_ok_def not_less not_le one_le_word)
qed (simp add: regions_total_def)

lemma bin_secs_fields:
  assumes "bin_fits i"
  shows "unat (code_off (bin_secs i)) = sec_off i CVM_SEC_CODE" "unat (code_size (bin_secs i)) = 4 * length (bi_code i)"
    "unat (data_size (bin_secs i)) = length (bi_data i)" "bss_size (bin_secs i) = 0"
    "bi_data i \<noteq> [] \<Longrightarrow> unat (data_off (bin_secs i)) = sec_off i CVM_SEC_DATA"
    "reserve_size (bin_secs i) = bi_heap_reserve i" "stack_size (bin_secs i) = bi_stack_reserve i"
    "unat (imports_size (bin_secs i)) = length (imps i)"
    "imps i \<noteq> [] \<Longrightarrow> unat (imports_off (bin_secs i)) = sec_off i CVM_SEC_IMPORTS"
    "unat (funcs_size (bin_secs i)) = length (fns i)"
    "fns i \<noteq> [] \<Longrightarrow> unat (funcs_off (bin_secs i)) = sec_off i CVM_SEC_FUNCS"
    "unat (regions_size (bin_secs i)) = length (regs i)"
    "regs i \<noteq> [] \<Longrightarrow> unat (regions_off (bin_secs i)) = sec_off i CVM_SEC_HOST_REGION"
    "unat (rom_size (bin_secs i)) = length (bi_rom i)"
    "bi_rom i \<noteq> [] \<Longrightarrow> unat (rom_off (bin_secs i)) = sec_off i CVM_SEC_ROM"
  using unat_sizes [OF assms] unat_sec_off [OF assms]
  by (auto simp: bin_secs_def sec_state_def Let_def fld_def table_order_def present_def
      sec_size_def [of i CVM_SEC_HEAP_RESERVE] sec_size_def [of i CVM_SEC_STACK_RESERVE] word_gt_0)

lemma size_zero: "unat (x :: u32) = length xs \<Longrightarrow> x = 0 \<longleftrightarrow> xs = []"
  by (auto simp flip: unat_eq_0)

lemma validate_regions_file:
  assumes v: "bin_valid i"
  shows "validate_regions (bin_file i) (bin_secs i) = Ret (length (bi_regions i), regions_total (bi_regions i))"
proof (cases "bi_regions i = []")
  case True
  then have "regs i = []" by (simp add: regs_def regions_bytes_def)
  then show ?thesis
    using True size_zero [OF bin_secs_fields(12) [OF valid_fits [OF v]]]
    by (simp add: validate_regions_def regions_total_def)
next
  case False
  note f = valid_fits [OF v]
  let ?rs = "bi_regions i" and ?rp = "sec_off i CVM_SEC_HOST_REGION"
  have ok: "\<forall>r \<in> set ?rs. region_ok r" and d: "distinct (map (\<lambda>r. c_str (cr_name r)) ?rs)"
    and n: "length ?rs \<le> 0xFFFF" and tot: "regions_total ?rs \<le> 0xFFFFFFFF"
    using v by (auto simp: bin_valid_def)
  have 16: "\<forall>r \<in> set ?rs. length (cr_name r) = 16" using ok by (simp add: region_ok_def)
  have regs: "regs i = to_le32 (count32 ?rs) @ concat (map region_bytes ?rs)"
    using False by (simp add: regs_def regions_bytes_def)
  then have len: "length (regs i) = 4 + 28 * length ?rs" by (simp add: length_region_bytes [OF 16])
  have ne: "regs i \<noteq> []" using len by auto
  obtain A B where "bin_file i = A @ payload i CVM_SEC_HOST_REGION @ B" and A: "length A = ?rp"
    using payload_at [of CVM_SEC_HOST_REGION i] by (auto simp: with_payload_def)
  then have fl: "bin_file i = A @ to_le32 (count32 ?rs) @ (concat (map region_bytes ?rs) @ B)"
    by (simp add: regs)
  have cnt: "rd32 (bin_file i) ?rp = Some (count32 ?rs)" unfolding fl by (rule rd32_at [OF A])
  have u: "unat (count32 ?rs :: u32) = length ?rs" using n by (intro unat_count32) simp
  then have small: "\<not> 0xFFFF < (count32 ?rs :: u32)" using n by (simp add: word_arith)
  have chk: "check_regions (bin_file i) ?rp (length ?rs) 0 0 = Ret (regions_total ?rs)"
    using check_regions_ok [OF ok A d fl, of 0 "length ?rs" 0] tot by simp
  have sz: "unat (regions_size (bin_secs i)) = 4 + 28 * length ?rs"
    "unat (regions_off (bin_secs i)) = ?rp"
    using bin_secs_fields(12,13) [OF f] ne len by simp_all
  then have "0 < regions_size (bin_secs i)" "\<not> regions_size (bin_secs i) < 4"
    by (simp_all add: word_arith)
  then show ?thesis
    unfolding validate_regions_def Let_def sz cnt ub_simps u using small chk by simp
qed

section \<open>IMPORTS\<close>

lemma name_offsets_nth:
  "unat c + names_size nms < 2 ^ 32 \<Longrightarrow> j < length nms \<Longrightarrow>
   unat (name_offsets nms c ! j) = unat c + names_size (take j nms)"
proof (induction nms arbitrary: c j)
  case (Cons nm nms)
  have "unat (of_nat (length nm + 1) :: u32) = length nm + 1"
    using Cons.prems(1) by (intro unat_of_nat32) simp
  then have u: "unat (c + of_nat (length nm + 1)) = unat c + (length nm + 1)"
    using Cons.prems(1) by (subst unat_add_lt) simp_all
  then have c: "unat (c + count32 nm + 1) = unat c + (length nm + 1)" by (simp add: add_ac)
  show ?case
  proof (cases j)
    case (Suc k)
    have "unat (name_offsets nms (c + count32 nm + 1) ! k) = unat (c + count32 nm + 1) + names_size (take k nms)"
      using Cons.prems c Suc by (intro Cons.IH) simp_all
    then show ?thesis unfolding Suc c by (simp add: c)
  qed simp
qed simp

lemma names_size_take: "names_size (take j nms) + names_size (drop j nms) = names_size nms"
  by (metis append_take_drop_id map_append names_size_def sum_list.append)

lemma drop_names_blob: "drop (names_size (take j nms)) (names_blob nms) = names_blob (drop j nms)"
proof -
  have "names_blob nms = names_blob (take j nms) @ names_blob (drop j nms)"
    by (simp add: names_blob_def flip: concat_append map_append)
  then show ?thesis by (metis append_eq_conv_conj length_names_blob)
qed

definition names_off :: "byte list list \<Rightarrow> u32" where
  "names_off nms = 4 + count32 nms * 4"

lemma imports_bytes_eq:
  "nms \<noteq> [] \<Longrightarrow> imports_bytes nms = to_le32 (count32 nms)
     @ concat (map to_le32 (name_offsets nms (names_off nms))) @ names_blob nms"
  by (simp add: imports_bytes_def names_off_def)

lemma unat_names_off: "4 + 4 * length nms < 2 ^ 32 \<Longrightarrow> unat (names_off nms) = 4 + 4 * length nms"
proof -
  assume a: "4 + 4 * length nms < 2 ^ 32"
  have "names_off nms = of_nat (4 + 4 * length nms)" by (simp add: names_off_def)
  also have "unat \<dots> = 4 + 4 * length nms" using a by (intro unat_of_nat32) simp
  finally show ?thesis .
qed

lemma import_name_at:
  assumes sz: "4 + 4 * length nms + names_size nms < 2 ^ 32" and j: "j < length nms"
  shows "unat (name_offsets nms (names_off nms) ! j) < length (imports_bytes nms)"
    "drop (unat (name_offsets nms (names_off nms) ! j)) (imports_bytes nms) = names_blob (drop j nms)"
proof -
  have ne: "nms \<noteq> []" using j by auto
  have c: "unat (names_off nms) = 4 + 4 * length nms" using sz by (intro unat_names_off) simp
  have o: "unat (name_offsets nms (names_off nms) ! j) = 4 + 4 * length nms + names_size (take j nms)"
    using sz j c by (subst name_offsets_nth) simp_all
  have "drop j nms = nms ! j # drop (Suc j) nms" using j by (simp add: Cons_nth_drop_Suc)
  then have "names_size (take j nms) < names_size nms"
    using names_size_take [of j nms] by simp
  then show "unat (name_offsets nms (names_off nms) ! j) < length (imports_bytes nms)"
    unfolding o by (simp add: imports_bytes_eq [OF ne] length_words)
  show "drop (unat (name_offsets nms (names_off nms) ! j)) (imports_bytes nms) = names_blob (drop j nms)"
    unfolding o by (simp add: imports_bytes_eq [OF ne] length_words drop_names_blob)
qed

lemma rd32_word_at:
  assumes "f = A @ concat (map to_le32 ws) @ B" "length A = n" "k < length ws"
  shows "rd32 f (n + 4 * k) = Some (ws ! k)"
proof -
  have "concat (map to_le32 ws) = concat (map to_le32 (take k ws)) @ to_le32 (ws ! k)
      @ concat (map to_le32 (drop (Suc k) ws))"
    using id_take_nth_drop [OF assms(3)] by (metis concat.simps(2) concat_append list.simps(9) map_append)
  then have "f = (A @ concat (map to_le32 (take k ws))) @ to_le32 (ws ! k)
      @ (concat (map to_le32 (drop (Suc k) ws)) @ B)"
    using assms(1) by simp
  moreover have "length (A @ concat (map to_le32 (take k ws))) = n + 4 * k"
    using assms(2,3) by (simp add: length_words)
  ultimately show ?thesis by (metis rd32_at)
qed

lemma check_imports_ok:
  assumes sz: "4 + 4 * length nms + names_size nms < 2 ^ 32"
    and f: "f = A @ imports_bytes nms @ B" and A: "length A = ip"
    and isz: "unat isize = length (imports_bytes nms)"
  shows "j + k = length nms \<Longrightarrow> check_imports f ip isize k j = Ret ()"
proof (induction k arbitrary: j)
  case (Suc k)
  then have j: "j < length nms" by simp
  then have ne: "nms \<noteq> []" by auto
  let ?o = "name_offsets nms (names_off nms) ! j"
  have "rd32 f (ip + 4 + 4 * j) = Some ?o"
  proof (rule rd32_word_at)
    show "f = (A @ to_le32 (count32 nms)) @ concat (map to_le32 (name_offsets nms (names_off nms)))
        @ (names_blob nms @ B)"
      unfolding f imports_bytes_eq [OF ne] by simp
  qed (use A j in simp_all)
  then have rd: "rd32 f (ip + 4 + j * 4) = Some ?o" by (simp add: mult.commute)
  note at = import_name_at [OF sz j]
  have lt: "?o < isize" using at(1) isz by (simp add: word_arith)
  have "drop (ip + unat ?o) f = drop (unat ?o) (imports_bytes nms) @ B"
    using A at(1) by (simp add: f)
  also have "\<dots> = (nms ! j @ [0]) @ (names_blob (drop (Suc j) nms) @ B)"
    unfolding at(2) using j by (simp add: Cons_nth_drop_Suc [symmetric])
  finally have dr: "drop (ip + unat ?o) f = (nms ! j @ [0]) @ (names_blob (drop (Suc j) nms) @ B)" .
  have len: "unat (isize - ?o) = length (names_blob (drop j nms))"
    using lt isz at(2) by (metis length_drop less_imp_le unat_sub_le)
  have "take (unat (isize - ?o)) (drop (ip + unat ?o) f) = names_blob (drop j nms)"
    unfolding dr len using j by (simp add: Cons_nth_drop_Suc [symmetric])
  moreover have "0 \<in> set (names_blob (drop j nms))"
    using j by (simp add: Cons_nth_drop_Suc [symmetric])
  moreover have "unat (isize - ?o) \<le> length (drop (ip + unat ?o) f)"
    unfolding len dr using j by (simp add: Cons_nth_drop_Suc [symmetric])
  ultimately have m: "memchr_found 0 (unat (isize - ?o)) (drop (ip + unat ?o) f) = Some True"
    by (simp add: memchr_found_take)
  have "check_imports f ip isize k (Suc j) = Ret ()" using Suc.prems by (intro Suc.IH) simp
  with rd lt m show ?case by (simp add: not_le)
qed simp

lemma imps_size:
  assumes "bin_fits i"
  shows "4 + 4 * length (bi_imports i) + names_size (bi_imports i) < 2 ^ 32"
  using assms by (simp add: bin_fits_def)

lemma validate_imports_file:
  assumes v: "bin_valid i"
  shows "validate_imports (bin_file i) (bin_secs i) = Ret (length (bi_imports i))"
proof (cases "bi_imports i = []")
  case True
  then have "imps i = []" by (simp add: imps_def imports_bytes_def)
  then show ?thesis
    using True size_zero [OF bin_secs_fields(8) [OF valid_fits [OF v]]]
    by (simp add: validate_imports_def)
next
  case False
  note f = valid_fits [OF v]
  let ?nms = "bi_imports i" and ?ip = "sec_off i CVM_SEC_IMPORTS"
  have len: "length (imps i) = 4 + 4 * length ?nms + names_size ?nms"
    by (simp add: imps_def imports_bytes_eq [OF False] length_words)
  then have ne: "imps i \<noteq> []" by auto
  obtain A B where fl: "bin_file i = A @ imports_bytes ?nms @ B" and A: "length A = ?ip"
    using payload_at [of CVM_SEC_IMPORTS i] by (auto simp: with_payload_def imps_def)
  have cnt: "rd32 (bin_file i) ?ip = Some (count32 ?nms)"
    unfolding fl imports_bytes_eq [OF False] append_assoc by (rule rd32_at [OF A])
  have n: "length ?nms \<le> 0xFFFF" using v by (simp add: bin_valid_def)
  have u: "unat (count32 ?nms :: u32) = length ?nms" using n by (intro unat_count32) simp
  then have small: "\<not> 0xFFFF < (count32 ?nms :: u32)" using n by (simp add: word_arith)
  have sz: "unat (imports_size (bin_secs i)) = length (imports_bytes ?nms)"
    "unat (imports_off (bin_secs i)) = ?ip"
    using bin_secs_fields(8,9) [OF f] ne by (simp_all add: imps_def)
  have "check_imports (bin_file i) ?ip (imports_size (bin_secs i)) (length ?nms) 0 = Ret ()"
    by (rule check_imports_ok [OF imps_size [OF f] fl A sz(1)]) simp
  moreover have "unat (imports_size (bin_secs i)) = 4 + 4 * length ?nms + names_size ?nms"
    using sz(1) len by (simp add: imps_def)
  then have "0 < imports_size (bin_secs i)" "\<not> imports_size (bin_secs i) < 4"
      "4 + length ?nms * 4 \<le> unat (imports_size (bin_secs i))"
    by (simp_all add: word_arith)
  ultimately show ?thesis
    unfolding validate_imports_def Let_def sz(2) cnt ub_simps u using small by simp
qed

section \<open>The loaded image\<close>

lemma validated_file:
  assumes v: "bin_valid i"
  obtains ht mt where "validated (bin_file i) (bin_secs i) (bi_entry i) (length (bi_regions i))
    (regions_total (bi_regions i)) ht mt (length (bi_imports i))"
proof -
  note f = valid_fits [OF v]
  have "load_layout (bin_secs i) (regions_total (bi_regions i)) \<noteq> Undef" by (simp add: load_layout_def Let_def)
  moreover have "load_layout (bin_secs i) (regions_total (bi_regions i)) \<noteq> Fail e" for e
    using v bin_secs_fields [OF f] by (auto simp: load_layout_def Let_def bin_valid_def not_le not_less)
  ultimately obtain ht mt where "load_layout (bin_secs i) (regions_total (bi_regions i)) = Ret (ht, mt)"
    by (metis cres.exhaust surj_pair)
  with that [of ht mt] show ?thesis
    using load_header_file [OF v] validate_regions_file [OF v] validate_imports_file [OF v]
    by (simp add: validated_def)
qed

lemma alloc_granted:
  assumes "code_size s \<noteq> 0" "rc \<le> 0xFFFF" "ic \<le> 0xFFFF"
  shows "\<exists>bk l'. load_alloc (\<lambda>_ _ _. True) a s mt rc ic l = (True, bk, l')"
proof -
  have small: "\<not> SIZE_MAX div n < m" if "n \<noteq> 0" "n \<le> 0xFFFF" "m \<le> 28" for n m :: nat
  proof -
    have "28 \<le> SIZE_MAX div 0xFFFF" by (simp add: SIZE_MAX_def)
    also have "\<dots> \<le> SIZE_MAX div n" using that by (intro div_le_mono2) simp_all
    finally show ?thesis using that(3) by simp
  qed
  have al: "cvm_int_alloc (\<lambda>_ _ _. True) a n l = (Some (lg_next l), l\<lparr>lg_next := Suc (lg_next l),
      lg_live := lg_next l # lg_live l\<rparr>)" if "n \<noteq> 0" for n l
    using that by (simp add: cvm_int_alloc_def Let_def)
  have cal: "cvm_int_calloc (\<lambda>_ _ _. True) a n m l = (Some (lg_next l), l\<lparr>lg_next := Suc (lg_next l),
      lg_live := lg_next l # lg_live l\<rparr>)" if "n \<noteq> 0" "n \<le> 0xFFFF" "m \<le> 28" "m \<noteq> 0" for n m l
    using that small [of n m] by (simp add: cvm_int_calloc_def al)
  have nz: "unat x \<noteq> 0" if "x > 0" for x :: u32 using that by (simp add: word_gt_0 unat_eq_0)
  show ?thesis
    using assms
    by (cases "mt > 0"; cases "funcs_size s > 0"; cases "rc > 0"; cases "imports_size s > 0"; cases "ic > 0")
      (simp_all add: load_alloc_def Let_def al cal nz unat_eq_0)
qed

text \<open>The image holds what the writer was given.\<close>

definition image_of :: "bin_input \<Rightarrow> cvm_image \<Rightarrow> bool" where
  "image_of i img \<longleftrightarrow>
     cells (img_code img) = bi_code i \<and> img_entry img = bi_entry i
     \<and> mem_rd (cells (img_heap img)) 0 (length (bi_data i)) = Some (bi_data i)
     \<and> mem_rd (cells (img_heap img)) (unat (img_rom_offset img)) (length (bi_rom i)) = Some (bi_rom i)
     \<and> unat (img_rom_size img) = length (bi_rom i)
     \<and> cells (img_func_offsets img) = funcs_words (bi_emit_funcs i) (bi_funcs i)
     \<and> map (\<lambda>off. c_str (drop off (cells (img_import_blob img)))) (cells (img_import_names img)) = bi_imports i
     \<and> map (\<lambda>r. (rg_name r, rg_size r, rg_direction r)) (cells (img_regions img))
         = map (\<lambda>r. (cr_name r, cr_size r, cr_direction r)) (bi_regions i)
     \<and> img_reserve_size img = bi_heap_reserve i \<and> img_stack_size img = bi_stack_reserve i"

lemma funcs_loaded:
  assumes v: "bin_valid i"
  shows "load_funcs (bin_file i) (unat (funcs_off (bin_secs i))) (unat (funcs_size (bin_secs i)) div 4)
    (code_size (bin_secs i) div 4) = Ret (Some (funcs_words (bi_emit_funcs i) (bi_funcs i)))"
proof -
  note f = valid_fits [OF v]
  let ?ws = "funcs_words (bi_emit_funcs i) (bi_funcs i)"
  have n: "unat (funcs_size (bin_secs i)) div 4 = length ?ws"
    by (simp add: bin_secs_fields(10) [OF f] fns_def length_words)
  show ?thesis
  proof (cases "?ws = []")
    case True
    then show ?thesis unfolding n by simp
  next
    case False
    then have ne: "fns i \<noteq> []" by (cases ?ws) (auto simp: fns_def to_le32_def)
    obtain A B where fl: "bin_file i = A @ concat (map to_le32 ?ws) @ B" and A: "length A = sec_off i CVM_SEC_FUNCS"
      using payload_at [of CVM_SEC_FUNCS i] by (auto simp: with_payload_def fns_def)
    have cc: "unat (code_size (bin_secs i) div 4) = length (bi_code i)"
      by (simp add: unat_div4 bin_secs_fields(2) [OF f])
    have "w < code_size (bin_secs i) div 4" if "w \<in> set ?ws" for w
    proof -
      have "w = 0 \<or> w \<in> set (bi_funcs i)" using that by (auto simp: funcs_words_def func_slots_def split: if_splits)
      then have "unat w < length (bi_code i)" using v by (auto simp: bin_valid_def)
      then show ?thesis by (simp add: word_arith cc)
    qed
    then show ?thesis
      unfolding n fl bin_secs_fields(11) [OF f ne] by (intro load_funcs_words A) blast
  qed
qed

lemma heap_slice:
  assumes "cells h = map g [0..<n]" "a + length xs \<le> n" "\<And>j. j < length xs \<Longrightarrow> g (a + j) = xs ! j"
  shows "mem_rd (cells h) a (length xs) = Some xs"
proof -
  have "take (length xs) (drop a (map g [0..<n])) = xs"
    using assms(2,3) by (intro nth_equalityI) (simp_all add: drop_map take_map)
  then show ?thesis using assms(1,2) by (simp add: mem_rd_def)
qed

lemma image_from_file:
  assumes v: "bin_valid i"
    and va: "validated (bin_file i) (bin_secs i) (bi_entry i) (length (bi_regions i))
      (regions_total (bi_regions i)) ht mt (length (bi_imports i))"
    and im: "image_from (bin_file i) (bin_secs i) (length (bi_regions i)) (regions_total (bi_regions i))
      (length (bi_imports i)) img"
    and wf: "image_wf img" and e: "img_entry img = bi_entry i"
  shows "image_of i img"
proof -
  note f = valid_fits [OF v] and fields = bin_secs_fields [OF valid_fits [OF v]]
  let ?rt = "regions_total (bi_regions i)" and ?S = "bin_secs i" and ?F = "bin_file i"
  obtain A B where code: "?F = A @ concat (map to_le32 (bi_code i)) @ B" "length A = sec_off i CVM_SEC_CODE"
    using payload_at [of CVM_SEC_CODE i] by (auto simp: with_payload_def code_bytes_def)
  have "rd32s ?F (unat (code_off ?S)) (unat (code_size ?S) div 4) = Some (bi_code i)"
    using rd32s_words [OF code(2), of "bi_code i" B] by (simp add: fields(1,2) code(1))
  then have c: "cells (img_code img) = bi_code i" using im by (simp add: image_from_def)
  have fo: "cells (img_func_offsets img) = funcs_words (bi_emit_funcs i) (bi_funcs i)"
    using im funcs_loaded [OF v] by (simp add: image_from_def)
  have heap: "cells (img_heap img) = map (heap_image ?F ?S (length (bi_data i) + ?rt)) [0..<unat (img_mem_size img)]"
    using im by (simp add: image_from_def fields)
  have sizes: "unat (img_heap_size img) = length (bi_data i) + ?rt + length (bi_rom i) + unat (bi_heap_reserve i)"
    "img_rom_size img = rom_size ?S"
    "unat (img_rom_offset img) = (if rom_size ?S = 0 then 0 else length (bi_data i) + ?rt)"
    "img_reserve_size img = bi_heap_reserve i" "img_stack_size img = bi_stack_reserve i"
    using im by (simp_all add: image_from_def fields)
  have mem: "unat (img_heap_size img) \<le> unat (img_mem_size img)" using wf by (simp add: image_wf_def)
  have d: "mem_rd (cells (img_heap img)) 0 (length (bi_data i)) = Some (bi_data i)"
  proof (rule heap_slice [OF heap])
    fix j assume j: "j < length (bi_data i)"
    then have ne: "bi_data i \<noteq> []" by auto
    obtain A B where "?F = A @ bi_data i @ B" "length A = sec_off i CVM_SEC_DATA"
      using payload_at [of CVM_SEC_DATA i] by (auto simp: with_payload_def)
    then show "heap_image ?F ?S (length (bi_data i) + ?rt) (0 + j) = bi_data i ! j"
      using j by (simp add: heap_image_def fields(3) fields(5) [OF ne] nth_append)
  qed (use mem sizes in simp)
  have r: "mem_rd (cells (img_heap img)) (unat (img_rom_offset img)) (length (bi_rom i)) = Some (bi_rom i)"
  proof (rule heap_slice [OF heap])
    have z: "rom_size ?S = 0 \<longleftrightarrow> bi_rom i = []" by (rule size_zero) (rule fields(14))
    then show "unat (img_rom_offset img) + length (bi_rom i) \<le> unat (img_mem_size img)"
      using mem sizes by auto
    fix j assume j: "j < length (bi_rom i)"
    then have ne: "bi_rom i \<noteq> []" by auto
    obtain A B where "?F = A @ bi_rom i @ B" "length A = sec_off i CVM_SEC_ROM"
      using payload_at [of CVM_SEC_ROM i] by (auto simp: with_payload_def)
    then show "heap_image ?F ?S (length (bi_data i) + ?rt) (unat (img_rom_offset img) + j) = bi_rom i ! j"
      using j ne z by (simp add: heap_image_def fields(14) fields(15) [OF ne] sizes(3) nth_append)
  qed
  have imp: "map (\<lambda>off. c_str (drop off (cells (img_import_blob img)))) (cells (img_import_names img)) = bi_imports i"
  proof (cases "bi_imports i = []")
    case True
    then have "imports_size ?S = 0"
      using size_zero [OF fields(8)] by (simp add: imps_def imports_bytes_def)
    then show ?thesis using im True by (simp add: image_from_def)
  next
    case False
    let ?nms = "bi_imports i"
    have ne: "imps i \<noteq> []" using False by (simp add: imps_def imports_bytes_def to_le32_def)
    then have nz: "imports_size ?S \<noteq> 0" using size_zero [OF fields(8)] by simp
    obtain A B where "?F = A @ imps i @ B" "length A = sec_off i CVM_SEC_IMPORTS"
      using payload_at [of CVM_SEC_IMPORTS i] by (auto simp: with_payload_def)
    then have "mem_rd ?F (unat (imports_off ?S)) (unat (imports_size ?S)) = Some (imps i)"
      by (simp add: fields(8) fields(9) [OF ne] mem_rd_at)
    then have blob: "cells (img_import_blob img) = imports_bytes ?nms"
      using im nz by (simp add: image_from_def imps_def)
    have "rd32s (to_le32 (count32 ?nms) @ concat (map to_le32 (name_offsets ?nms (names_off ?nms)))
        @ names_blob ?nms) 4 (length (name_offsets ?nms (names_off ?nms)))
      = Some (name_offsets ?nms (names_off ?nms))"
      by (rule rd32s_words) simp
    then have "rd32s (imports_bytes ?nms) 4 (length ?nms) = Some (name_offsets ?nms (names_off ?nms))"
      by (simp add: imports_bytes_eq [OF False])
    then have names: "cells (img_import_names img) = map unat (name_offsets ?nms (names_off ?nms))"
      using im nz by (simp add: image_from_def blob)
    have "c_str (drop (unat (name_offsets ?nms (names_off ?nms) ! j)) (imports_bytes ?nms)) = ?nms ! j"
      if j: "j < length ?nms" for j
    proof -
      have "0 \<notin> set (?nms ! j)" using v j by (simp add: bin_valid_def)
      moreover have "names_blob (drop j ?nms) = ?nms ! j @ 0 # names_blob (drop (Suc j) ?nms)"
        using j by (simp add: Cons_nth_drop_Suc [symmetric])
      ultimately show ?thesis using import_name_at(2) [OF imps_size [OF f] j] by simp
    qed
    then show ?thesis unfolding names blob by (intro nth_equalityI) simp_all
  qed
  have reg: "map (\<lambda>r. (rg_name r, rg_size r, rg_direction r)) (cells (img_regions img))
         = map (\<lambda>r. (cr_name r, cr_size r, cr_direction r)) (bi_regions i)"
  proof (rule nth_equalityI)
    have len: "length (cells (img_regions img)) = length (bi_regions i)" using im by (simp add: image_from_def)
    then show "length (map (\<lambda>r. (rg_name r, rg_size r, rg_direction r)) (cells (img_regions img)))
       = length (map (\<lambda>r. (cr_name r, cr_size r, cr_direction r)) (bi_regions i))" by simp
    fix j assume "j < length (map (\<lambda>r. (rg_name r, rg_size r, rg_direction r)) (cells (img_regions img)))"
    then have j: "j < length (bi_regions i)" using len by simp
    let ?r = "bi_regions i ! j" and ?q = "cells (img_regions img) ! j"
    let ?e = "unat (regions_off ?S) + 4 + j * 28"
    have at: "mem_rd ?F ?e 16 = Some (rg_name ?q)" "rd32 ?F (?e + 16) = Some (rg_size ?q)"
      "rd32 ?F (?e + 20) = Some (rg_direction ?q)"
      using im j by (simp_all add: image_from_def Let_def)
    have ok: "\<forall>r \<in> set (bi_regions i). region_ok r" using v by (simp add: bin_valid_def)
    have regs: "regs i = to_le32 (count32 (bi_regions i)) @ concat (map region_bytes (bi_regions i))"
      using j by (auto simp: regs_def regions_bytes_def)
    then have ne: "regs i \<noteq> []" by (simp add: to_le32_def)
    obtain A B where fl: "?F = A @ regs i @ B" and A: "length A = sec_off i CVM_SEC_HOST_REGION"
      using payload_at [of CVM_SEC_HOST_REGION i] by (auto simp: with_payload_def)
    obtain C D where CD: "?F = C @ region_bytes ?r @ D" "length C = ?e"
      using region_at [OF ok A j, of "count32 (bi_regions i)" B] fields(13) [OF ne] regs fl by auto
    have nm: "length (cr_name ?r) = 16" using ok j by (simp add: region_ok_def)
    have f1: "?F = C @ cr_name ?r @ (to_le32 (cr_size ?r) @ to_le32 (cr_direction ?r) @ to_le32 0 @ D)"
      "?F = (C @ cr_name ?r) @ to_le32 (cr_size ?r) @ (to_le32 (cr_direction ?r) @ to_le32 0 @ D)"
      "?F = (C @ cr_name ?r @ to_le32 (cr_size ?r)) @ to_le32 (cr_direction ?r) @ (to_le32 0 @ D)"
      by (simp_all add: CD(1) region_bytes_def)
    have "mem_rd ?F ?e (length (cr_name ?r)) = Some (cr_name ?r)"
      unfolding f1(1) by (rule mem_rd_at [OF CD(2)])
    moreover have "rd32 ?F (?e + 16) = Some (cr_size ?r)"
      by (subst f1(2), rule rd32_at) (simp add: CD(2) nm)
    moreover have "rd32 ?F (?e + 20) = Some (cr_direction ?r)"
      by (subst f1(3), rule rd32_at) (simp add: CD(2) nm)
    ultimately show "map (\<lambda>r. (rg_name r, rg_size r, rg_direction r)) (cells (img_regions img)) ! j
       = map (\<lambda>r. (cr_name r, cr_size r, cr_direction r)) (bi_regions i) ! j"
      using at j len nm by simp
  qed
  show ?thesis
    using c e d r fo imp reg sizes fields(14) by (simp add: image_of_def)
qed

end
