(* ===== verification/Bin_Theorems.thy ===== *)
theory Bin_Theorems
  imports Bin_Loads
begin

text \<open>The properties of the \<open>.bin\<close> writer, its seal and its option parsers.\<close>

section \<open>The checksum\<close>

lemma xor_cancel: "(x :: u32) XOR k = y XOR k \<longleftrightarrow> x = y" "k XOR x = k XOR y \<longleftrightarrow> x = y"
proof -
  have *: "x = y" if "x XOR k = y XOR k"
  proof -
    have "(x XOR k) XOR k = (y XOR k) XOR k" using that by simp
    then show ?thesis by (simp add: xor.assoc)
  qed
  then show "x XOR k = y XOR k \<longleftrightarrow> x = y" by blast
  with * show "k XOR x = k XOR y \<longleftrightarrow> x = y" by (simp add: xor.commute)
qed

lemma bit32_top: "\<not> bit (c :: u32) 32"
  using bit_imp_le_length [of c 32] by auto

lemma crc_bit_top: "bit (crc_bit c) 31 \<longleftrightarrow> odd c"
proof -
  have "bit crc_poly 31" by (simp add: crc_poly_def bit_simps)
  then show ?thesis using bit32_top [of c] by (simp add: crc_bit_cases bit_simps)
qed

lemma crc_bit_inj: "crc_bit c = crc_bit d \<Longrightarrow> c = d"
proof -
  assume eq: "crc_bit c = crc_bit d"
  then have o: "odd c \<longleftrightarrow> odd d" by (metis crc_bit_top)
  then have s: "drop_bit 1 c = drop_bit 1 d"
    using eq by (simp add: crc_bit_cases xor_cancel split: if_splits)
  show "c = d"
  proof (rule bit_word_eqI)
    fix n assume "n < LENGTH(32)"
    show "bit c n = bit d n"
    proof (cases n)
      case 0
      with o show ?thesis by (simp add: bit_0)
    next
      case (Suc m)
      have "bit (drop_bit 1 c) m = bit (drop_bit 1 d) m" using s by simp
      with Suc show ?thesis by (simp only: bit_drop_bit_eq o_def plus_1_eq_Suc)
    qed
  qed
qed

lemma crc_bits_inj: "(crc_bit ^^ n) c = (crc_bit ^^ n) d \<Longrightarrow> c = d"
  by (induction n) (auto dest: crc_bit_inj)

lemma crc_byte_inj: "crc_byte c b = crc_byte d b \<Longrightarrow> c = d"
  by (auto simp: crc_byte_def xor_cancel dest!: crc_bits_inj)

lemma crc_byte_inj_byte: "crc_byte c b = crc_byte c b' \<Longrightarrow> b = b'"
proof -
  assume "crc_byte c b = crc_byte c b'"
  then have "c XOR ucast b = (c XOR ucast b' :: u32)" unfolding crc_byte_def by (rule crc_bits_inj)
  then have "(ucast b :: u32) = ucast b'" by (simp only: xor_cancel)
  then have "(ucast (ucast b :: u32) :: byte) = ucast (ucast b' :: u32)" by (rule arg_cong)
  moreover have "ucast (ucast x :: u32) = x" for x :: byte by (rule bit_word_eqI) (simp add: bit_simps)
  ultimately show "b = b'" by (simp only:)
qed

lemma crc_fold_inj: "foldl crc_byte c xs = foldl crc_byte d xs \<Longrightarrow> c = d"
  by (induction xs arbitrary: c d) (auto dest: crc_byte_inj)

lemma crc32_byte_change: "cvm_crc32 (xs @ b # ys) = cvm_crc32 (xs @ b' # ys) \<longleftrightarrow> b = b'"
proof
  assume "cvm_crc32 (xs @ b # ys) = cvm_crc32 (xs @ b' # ys)"
  then have "foldl crc_byte (crc_byte (foldl crc_byte 0xFFFFFFFF xs) b) ys
      = foldl crc_byte (crc_byte (foldl crc_byte 0xFFFFFFFF xs) b') ys"
    unfolding cvm_crc32_def xor_cancel by simp
  then have "crc_byte (foldl crc_byte 0xFFFFFFFF xs) b = crc_byte (foldl crc_byte 0xFFFFFFFF xs) b'"
    by (rule crc_fold_inj)
  then show "b = b'" by (rule crc_byte_inj_byte)
qed simp

lemma crc32_update: "p < length xs \<Longrightarrow> c \<noteq> xs ! p \<Longrightarrow> cvm_crc32 (xs[p := c]) \<noteq> cvm_crc32 xs"
  using crc32_byte_change [of "take p xs" c "drop (Suc p) xs" "xs ! p"]
  by (simp add: upd_conv_take_nth_drop id_take_nth_drop [symmetric])

section \<open>Peeking at a written file\<close>

lemma find_entry:
  "find (\<lambda>e. fst e = t) (map (\<lambda>t. (t, g t)) (filter P ts)) = (if P t \<and> t \<in> set ts then Some (t, g t) else None)"
  by (induction ts) auto

lemma peek_entries:
  assumes f: "b = header i @ entry_bytes (entries i) @ post" and fits: "bin_fits i"
  shows "cvm_peek_section (Some b) t = (if present i t \<and> t \<in> set table_order then
      if sec_off i t + unat (sec_size i t) > length b then Ret Peek_malformed
      else Ret (Peek_found (sec_off i t) (sec_size i t)) else Ret Peek_absent)"
proof -
  let ?ws = "[0x314D5643, CVM_VERSION_1_0, 0, of_nat (length (entries i)), 24, bi_entry i]"
  have at: "k < 6 \<Longrightarrow> rd32 b (4 * k) = Some (?ws ! k)" for k
    unfolding f header_def by (rule rd32_words_append) simp
  have r: "rd32 b 12 = Some (of_nat (length (entries i)))" "rd32 b 16 = Some 24"
    using at [of 3] at [of 4] by simp_all
  have m: "magic_ok b" by (simp add: f header_def magic_ok_def to_le32_def)
  have n: "unat (of_nat (length (entries i)) :: u32) = length (entries i)"
    using length_entries [of i] by (intro unat_of_nat32) simp
  have len: "24 + 16 * length (entries i) \<le> length b" by (simp add: f)
  have pk: "cvm_peek_section (Some b) t = peek_loop b t (length (entries i)) 24"
    using len m by (simp add: cvm_peek_section_def r n not_less)
  have loop: "peek_loop b t (length (entries i)) 24
    = (case find (\<lambda>e. sec_value (fst e) = sec_value t) (entries i) of None \<Rightarrow> Ret Peek_absent
      | Some (t, off, sz) \<Rightarrow> if unat off + unat sz > length b then Ret Peek_malformed
          else Ret (Peek_found (unat off) sz))"
    by (rule peek_loop_table [OF _ f]) simp
  have eq: "(\<lambda>e :: cvm_section_type \<times> u32 \<times> u32. sec_value (fst e) = sec_value t) = (\<lambda>e. fst e = t)"
    by (rule ext) (metis sec_value_inj)
  have fe: "find (\<lambda>e. sec_value (fst e) = sec_value t) (entries i)
      = (if present i t \<and> t \<in> set table_order then Some (t, of_nat (sec_off i t), sec_size i t) else None)"
    unfolding eq entries_def by (simp only: find_entry)
  show ?thesis
  proof (cases "present i t \<and> t \<in> set table_order")
    case True
    then have "find (\<lambda>e. sec_value (fst e) = sec_value t) (entries i) = Some (t, of_nat (sec_off i t), sec_size i t)"
      unfolding fe by simp
    then show ?thesis unfolding pk loop using True by (simp add: unat_sec_off [OF fits])
  next
    case False
    then have "find (\<lambda>e. sec_value (fst e) = sec_value t) (entries i) = None"
      unfolding fe by simp
    then show ?thesis unfolding pk loop using False by (simp only: option.case if_False)
  qed
qed

section \<open>Properties of the writer\<close>

text \<open>A program using every section: two instructions, DATA, an import, a function, a region,
  ROM, META and a seal.\<close>

definition sample_input :: bin_input where
  "sample_input = \<lparr>bi_code = [0x0E, 0x0E], bi_data = [1, 2, 3, 4], bi_heap_reserve = 64,
     bi_stack_reserve = 32, bi_imports = [[112, 117, 116]], bi_funcs = [0, 1], bi_emit_funcs = True,
     bi_regions = [\<lparr>cr_name = [102, 98, 0, 0, 0, 0, 0, 0, 0, 0, 0, 0, 0, 0, 0, 0], cr_size = 6, cr_direction = 3\<rparr>],
     bi_rom = [9, 8, 7], bi_meta = [5], bi_seal = True, bi_entry = 1\<rparr>"

lemma sample_valid: "bin_valid sample_input"
  by (simp add: bin_valid_def bin_fits_def sample_input_def region_ok_def regions_total_def align4_def
      code_bytes_def fns_def funcs_words_def func_slots_def)



lemma seal_at:
  assumes "bi_seal i" "length p = sec_off i CVM_SEC_SEAL"
  shows "rd32 (p @ concat (map to_le32 [CVM_SEAL_MAGIC, 1, c])) (sec_off i CVM_SEC_SEAL) = Some CVM_SEAL_MAGIC"
    "rd32 (p @ concat (map to_le32 [CVM_SEAL_MAGIC, 1, c])) (sec_off i CVM_SEC_SEAL + 8) = Some c"
  using rd32_word_at [OF refl assms(2), of 0 "[CVM_SEAL_MAGIC, 1, c]" "[]"]
    rd32_word_at [OF refl assms(2), of 2 "[CVM_SEAL_MAGIC, 1, c]" "[]"] by simp_all

text \<open>The seal check on a file with the table of \<open>i\<close> and prefix \<open>p\<close>.\<close>

lemma seal_check_prefix:
  assumes fits: "bin_fits i" and seal: "bi_seal i" and p: "p = header i @ entry_bytes (entries i) @ post"
    and len: "length p = sec_off i CVM_SEC_SEAL"
  shows "cvm_seal_check (Some (p @ concat (map to_le32 [CVM_SEAL_MAGIC, 1, c])))
    = Ret (if cvm_crc32 p = c then 1 else -1)"
proof -
  let ?f = "p @ concat (map to_le32 [CVM_SEAL_MAGIC, 1, c])"
  have f: "?f = header i @ entry_bytes (entries i) @ (post @ concat (map to_le32 [CVM_SEAL_MAGIC, 1, c]))"
    by (simp add: p)
  have "cvm_peek_section (Some ?f) CVM_SEC_SEAL = Ret (Peek_found (sec_off i CVM_SEC_SEAL) 12)"
    unfolding peek_entries [OF f fits] using len seal
    by (simp add: present_def table_order_def sec_size_def)
  then show ?thesis using seal_at [OF seal len, of c] len by (simp add: seal_check_cases)
qed

text \<open>The file \<open>write_bin\<close> seals passes \<open>cvm_seal_check\<close>, an unsealed one is reported as
  unsealed, and \<open>cvm_peek_section\<close> finds exactly the META bytes that were written.\<close>

theorem write_then_peek:
  assumes "bin_fits i"
  shows "\<exists>f. write_bin i = Ret (Some f) \<and> cvm_seal_check (Some f) = Ret (if bi_seal i then 1 else 0) \<and>
    (if bi_meta i = [] then cvm_peek_section (Some f) CVM_SEC_META = Ret Peek_absent
     else \<exists>off. cvm_peek_section (Some f) CVM_SEC_META = Ret (Peek_found off (count32 (bi_meta i)))
       \<and> mem_rd f off (length (bi_meta i)) = Some (bi_meta i))"
proof -
  obtain post where fs: "bin_file i = header i @ entry_bytes (entries i) @ post" using file_split by blast
  note pk = peek_entries [OF fs assms]
  have "cvm_seal_check (Some (bin_file i)) = Ret (if bi_seal i then 1 else 0)"
  proof (cases "bi_seal i")
    case True
    have "bin_prefix i = header i @ entry_bytes (entries i) @ (code_bytes i @ bi_data i @ imps i @ fns i
        @ regs i @ bi_rom i @ bi_meta i)" by (simp add: bin_prefix_def)
    from seal_check_prefix [OF assms True this length_prefix, of "cvm_crc32 (bin_prefix i)"] True
    show ?thesis by (simp add: bin_file_def)
  next
    case False
    then have "cvm_peek_section (Some (bin_file i)) CVM_SEC_SEAL = Ret Peek_absent"
      unfolding pk by (simp add: present_def)
    with False show ?thesis by (simp add: seal_check_cases)
  qed
  moreover have "cvm_peek_section (Some (bin_file i)) CVM_SEC_META = Ret Peek_absent" if "bi_meta i = []"
    unfolding pk using that by (simp add: present_def)
  moreover have "cvm_peek_section (Some (bin_file i)) CVM_SEC_META
      = Ret (Peek_found (sec_off i CVM_SEC_META) (count32 (bi_meta i)))
    \<and> mem_rd (bin_file i) (sec_off i CVM_SEC_META) (length (bi_meta i)) = Some (bi_meta i)"
    if ne: "bi_meta i \<noteq> []"
  proof -
    have pr: "present i CVM_SEC_META" using ne by (simp add: present_def)
    have "sec_off i CVM_SEC_META + unat (sec_size i CVM_SEC_META) \<le> length (bin_file i)"
      using payload_in_file [OF assms pr] by (simp add: with_payload_def)
    then have "cvm_peek_section (Some (bin_file i)) CVM_SEC_META
      = Ret (Peek_found (sec_off i CVM_SEC_META) (count32 (bi_meta i)))"
      unfolding pk using pr by (simp add: table_order_def sec_size_def)
    moreover obtain A B where "bin_file i = A @ bi_meta i @ B" "length A = sec_off i CVM_SEC_META"
      using payload_at [of CVM_SEC_META i] by (auto simp: with_payload_def)
    ultimately show ?thesis by (simp add: mem_rd_at)
  qed
  ultimately show ?thesis using write_bin_eq [OF assms] by auto
qed

theorem write_then_peek_witness:
  "\<exists>f. write_bin sample_input = Ret (Some f) \<and> cvm_seal_check (Some f) = Ret (if bi_seal sample_input then 1 else 0) \<and>
    (if bi_meta sample_input = [] then cvm_peek_section (Some f) CVM_SEC_META = Ret Peek_absent
     else \<exists>off. cvm_peek_section (Some f) CVM_SEC_META = Ret (Peek_found off (count32 (bi_meta sample_input)))
       \<and> mem_rd f off (length (bi_meta sample_input)) = Some (bi_meta sample_input))"
  by (rule write_then_peek [OF valid_fits [OF sample_valid]])

text \<open>C26. The seal detects corruption: change any one byte between the section table and the seal
  of a sealed file and \<open>cvm_seal_check\<close> rejects it.\<close>

theorem seal_detects_change:
  assumes "bin_fits i" "bi_seal i" "write_bin i = Ret (Some f)"
    "base i \<le> p" "p < sec_off i CVM_SEC_SEAL" "c \<noteq> f ! p"
  shows "cvm_seal_check (Some (f[p := c])) = Ret (-1)"
proof -
  let ?pre = "bin_prefix i" and ?w = "concat (map to_le32 [CVM_SEAL_MAGIC, 1, cvm_crc32 (bin_prefix i)])"
  have f: "f = ?pre @ ?w" using assms(2,3) write_bin_eq [OF assms(1)] by (simp add: bin_file_def)
  have p: "p < length ?pre" using assms(5) by (simp add: length_prefix)
  then have c: "c \<noteq> ?pre ! p" using assms(6) by (simp add: f nth_append)
  let ?h = "header i @ entry_bytes (entries i)"
  have h: "length ?h = base i" by (simp add: base_def entries_def)
  have "?pre = ?h @ (code_bytes i @ bi_data i @ imps i @ fns i @ regs i @ bi_rom i @ bi_meta i)"
    by (simp add: bin_prefix_def)
  then obtain post where "?pre[p := c] = ?h @ post"
    using assms(4) h by (metis list_update_append not_less)
  then have "?pre[p := c] = header i @ entry_bytes (entries i) @ post" by simp
  from seal_check_prefix [OF assms(1,2) this, of "cvm_crc32 ?pre"]
  have "cvm_seal_check (Some (?pre[p := c] @ ?w)) = Ret (if cvm_crc32 (?pre[p := c]) = cvm_crc32 ?pre then 1 else -1)"
    by (simp add: length_prefix)
  moreover have "f[p := c] = ?pre[p := c] @ ?w" using p by (simp add: f list_update_append1)
  ultimately show ?thesis using crc32_update [OF p c] by simp
qed

theorem seal_detects_change_witness:
  "\<exists>f. write_bin sample_input = Ret (Some f) \<and>
    cvm_seal_check (Some (f[base sample_input := f ! base sample_input + 1])) = Ret (-1)"
proof -
  have w: "write_bin sample_input = Ret (Some (bin_file sample_input))"
    by (rule write_bin_eq [OF valid_fits [OF sample_valid]])
  have "base sample_input < sec_off sample_input CVM_SEC_SEAL"
    by (simp add: sec_off_def Let_def code_bytes_def length_words) (simp add: sample_input_def)
  from seal_detects_change [OF valid_fits [OF sample_valid] _ w order_refl this]
  show ?thesis using w by (simp add: sample_input_def)
qed

section \<open>Option parsers\<close>

text \<open>Decimal notation.\<close>

function dec :: "nat \<Rightarrow> byte list" where
  "dec n = (if n < 10 then [of_nat (48 + n)] else dec (n div 10) @ [of_nat (48 + n mod 10)])"
  by pat_completeness auto
termination by (relation "measure id") auto

declare dec.simps [simp del]

lemma digit_byte: "d < 10 \<Longrightarrow> unat (of_nat (48 + d) :: byte) = 48 + d"
  by (simp only: unat_of_nat) simp

lemma digit_val_byte: "d < 10 \<Longrightarrow> digit_val (of_nat (48 + d)) = d"
  using digit_byte [of d] by (simp add: digit_val_def word_le_nat_alt del: of_nat_add)

lemma digits_loop_dec:
  "digits_loop 10 (dec n @ rest) v = digits_loop 10 rest (v * 10 ^ length (dec n) + n)"
proof (induction n arbitrary: rest v rule: dec.induct)
  case (1 n)
  show ?case
  proof (cases "n < 10")
    case True
    then show ?thesis by (subst (1 2) dec.simps) (simp add: digit_val_byte del: of_nat_add)
  next
    case False
    have "n mod 10 < 10" by simp
    note d = digit_val_byte [OF this]
    have "digits_loop 10 (dec n @ rest) v
      = digits_loop 10 (dec (n div 10) @ (of_nat (48 + n mod 10) # rest)) v"
      using False by (subst dec.simps) (simp del: of_nat_add)
    also have "\<dots> = digits_loop 10 rest ((v * 10 ^ length (dec (n div 10)) + n div 10) * 10 + n mod 10)"
      using False d by (subst 1) (simp_all del: of_nat_add)
    also have "(v * 10 ^ length (dec (n div 10)) + n div 10) * 10 + n mod 10 = v * 10 ^ length (dec n) + n"
      using False by (subst (2) dec.simps) (simp add: algebra_simps)
    finally show ?thesis .
  qed
qed

lemma dec_head: "0 < n \<Longrightarrow> \<exists>d cs. dec n = of_nat (48 + d) # cs \<and> 0 < d \<and> d < 10"
proof (induction n rule: dec.induct)
  case (1 n)
  show ?case
  proof (cases "n < 10")
    case True
    with 1 show ?thesis by (subst dec.simps) (auto simp del: of_nat_add)
  next
    case False
    with 1 have "\<exists>d cs. dec (n div 10) = of_nat (48 + d) # cs \<and> 0 < d \<and> d < 10" by simp
    with False show ?thesis by (subst dec.simps) (auto simp del: of_nat_add)
  qed
qed

lemma strtoull_dec:
  assumes "n < 2 ^ 64" "case rest of [] \<Rightarrow> True | c # _ \<Rightarrow> 10 \<le> digit_val c \<and> c \<noteq> 120 \<and> c \<noteq> 88"
  shows "strtoull (dec n @ rest) = Some (of_nat n, rest)"
proof -
  have stop: "digits_loop b rest v = (v, rest)" if "b \<le> 10" for v b
    using assms(2) that by (cases rest) auto
  show ?thesis
  proof (cases "n = 0")
    case True
    have "dec 0 = [48]" by (subst dec.simps) simp
    moreover have "strip_base (48 # rest) = (8, 48 # rest)"
      using assms(2) by (auto simp: strip_base_def split: list.splits)
    moreover have "digit_val 48 = 0" by (simp add: digit_val_def)
    ultimately show ?thesis
      using True stop [of 8] by (simp add: strtoull_def c_isspace_def Let_def)
  next
    case False
    then obtain d cs where d: "dec n = of_nat (48 + d) # cs" "0 < d" "d < 10"
      using dec_head [of n] by auto
    let ?c = "of_nat (48 + d) :: byte"
    have u: "unat ?c = 48 + d" by (rule digit_byte [OF d(3)])
    have ne: "?c \<noteq> k" if "unat k \<noteq> 48 + d" for k :: byte using u that by auto
    have c: "\<not> c_isspace ?c" "?c \<noteq> 45" "?c \<noteq> 43" "?c \<noteq> 48"
      using d(2,3) u by (auto simp: c_isspace_def word_le_nat_alt intro!: ne simp del: of_nat_add dest!: arg_cong [of _ _ unat])
    have base: "strip_base (dec n @ rest) = (10, dec n @ rest)"
      using c(4) by (auto simp: strip_base_def d(1) split: list.splits simp del: of_nat_add)
    have "digits_loop 10 (dec n @ rest) 0 = (n, rest)"
      unfolding digits_loop_dec using stop [of 10] by simp
    moreover have "dropWhile c_isspace (dec n @ rest) = dec n @ rest" using c(1) by (simp add: d(1) del: of_nat_add)
    moreover have "rest \<noteq> dec n @ rest" using d(1) by simp
    ultimately show ?thesis
      using c(2,3) base assms(1) by (simp add: strtoull_def Let_def d(1) del: of_nat_add)
  qed
qed

lemma unat_ucast32: "unat (ucast (w :: u64) :: u32) = unat w mod 2 ^ 32"
  by (simp add: unsigned_ucast_eq take_bit_eq_mod)

definition size_of :: "nat \<Rightarrow> u32 option" where
  "size_of v = (if v mod 2 ^ 64 < 2 ^ 31 then Some (of_nat (v mod 2 ^ 64)) else None)"

text \<open>\<open>parse_size\<close> on decimal input: the number, scaled by the K or M suffix modulo
  \<open>2 ^ 64\<close>, if it is below \<open>2 ^ 31\<close>. The reduction is part of the statement: a number whose
  scaled value overflows 64 bits is accepted as a small size.\<close>

theorem parse_size_decimal:
  assumes "n < 2 ^ 64"
  shows "parse_size (dec n) = size_of n \<and> parse_size (dec n @ [75]) = size_of (n * 2 ^ 10) \<and>
    parse_size (dec n @ [77]) = size_of (n * 2 ^ 20)"
proof (intro conjI)
  have fin: "(if (of_nat v :: u64) > 0x7FFFFFFF then None else Some (ucast (of_nat v :: u64) :: u32)) = size_of v" for v
  proof -
    have "unat (of_nat v :: u64) = v mod 2 ^ 64" by (simp add: unat_of_nat)
    moreover have "(ucast (of_nat v :: u64) :: u32) = of_nat (unat (of_nat v :: u64))"
      unfolding word_unat_eq_iff unat_ucast32 by (simp add: unat_of_nat)
    ultimately show ?thesis by (simp add: size_of_def word_less_nat_alt not_less)
  qed
  have "parse_size (dec n) = (if (of_nat n :: u64) > 0x7FFFFFFF then None else Some (ucast (of_nat n :: u64)))"
    using strtoull_dec [of n "[]"] assms by (simp add: parse_size_def scale_suffix_def)
  then show "parse_size (dec n) = size_of n" by (simp only: fin)
  have d: "10 \<le> digit_val 75" "10 \<le> digit_val 77" by (simp_all add: digit_val_def)
  have "parse_size (dec n @ [75]) = (if (of_nat (n * 2 ^ 10) :: u64) > 0x7FFFFFFF then None
      else Some (ucast (of_nat (n * 2 ^ 10) :: u64)))"
    using strtoull_dec [of n "[75]"] assms d by (simp add: parse_size_def scale_suffix_def push_bit_eq_mult)
  then show "parse_size (dec n @ [75]) = size_of (n * 2 ^ 10)" by (simp only: fin)
  have "parse_size (dec n @ [77]) = (if (of_nat (n * 2 ^ 20) :: u64) > 0x7FFFFFFF then None
      else Some (ucast (of_nat (n * 2 ^ 20) :: u64)))"
    using strtoull_dec [of n "[77]"] assms d by (simp add: parse_size_def scale_suffix_def push_bit_eq_mult)
  then show "parse_size (dec n @ [77]) = size_of (n * 2 ^ 20)" by (simp only: fin)
qed

theorem parse_size_decimal_witness:
  "parse_size (dec 18014398509481985 @ [75]) = Some 1024"
  using parse_size_decimal [of 18014398509481985] by (simp add: size_of_def)

lemma split_colon_Some: "split_colon s = Some (a, b) \<Longrightarrow> s = a @ 58 # b \<and> 58 \<notin> set a"
  by (induction s arbitrary: a) (auto split: if_splits)



end
