(* ===== verification/Float64.thy ===== *)
theory Float64
  imports Int64
begin

text \<open>
  The software binary64 of guest programs: \<open>src/runtime/lib/cvm_float64.h\<close> and the linked runtime
  \<open>src/runtime/lib/cvm_float64_rt.c\<close>. A \<open>cvm_f64\<close> is the pair of 32-bit words of the bit
  pattern; a \<open>float\<close> is its 32-bit pattern. Every operation is word arithmetic, as in the source;
  C functions returning \<open>int\<close> truth values are bool-valued. No shift amount reaches 32 and no
  signed sum leaves 32 bits, so exponents are integers.
\<close>

record cvm_f64 =
  d_lo :: u32
  d_hi :: u32

section \<open>Bit fields, constants, classification\<close>

definition CVM_D_SIGN :: "cvm_f64 \<Rightarrow> u32" where "CVM_D_SIGN x = drop_bit 31 (d_hi x) AND 1"
definition CVM_D_EXP :: "cvm_f64 \<Rightarrow> u32" where "CVM_D_EXP x = drop_bit 20 (d_hi x) AND 0x7FF"
definition CVM_D_MHI :: "cvm_f64 \<Rightarrow> u32" where "CVM_D_MHI x = d_hi x AND 0x000FFFFF"

definition cvm_d_pack :: "u32 \<Rightarrow> u32 \<Rightarrow> u32 \<Rightarrow> u32 \<Rightarrow> cvm_f64" where
  "cvm_d_pack sign exp mhi20 mlo32 = \<lparr>d_lo = mlo32,
     d_hi = push_bit 31 sign OR push_bit 20 (exp AND 0x7FF) OR (mhi20 AND 0xFFFFF)\<rparr>"

definition CVM_D_ZERO :: cvm_f64 where "CVM_D_ZERO = \<lparr>d_lo = 0, d_hi = 0\<rparr>"
definition CVM_D_NEG_ZERO :: cvm_f64 where "CVM_D_NEG_ZERO = \<lparr>d_lo = 0, d_hi = 0x80000000\<rparr>"
definition CVM_D_ONE :: cvm_f64 where "CVM_D_ONE = \<lparr>d_lo = 0, d_hi = 0x3FF00000\<rparr>"
definition CVM_D_NEG_ONE :: cvm_f64 where "CVM_D_NEG_ONE = \<lparr>d_lo = 0, d_hi = 0xBFF00000\<rparr>"
definition CVM_D_INF :: cvm_f64 where "CVM_D_INF = \<lparr>d_lo = 0, d_hi = 0x7FF00000\<rparr>"
definition CVM_D_NEG_INF :: cvm_f64 where "CVM_D_NEG_INF = \<lparr>d_lo = 0, d_hi = 0xFFF00000\<rparr>"
definition CVM_D_NAN :: cvm_f64 where "CVM_D_NAN = \<lparr>d_lo = 0, d_hi = 0x7FF80000\<rparr>"

definition cvm_d_iszero :: "cvm_f64 \<Rightarrow> bool" where
  "cvm_d_iszero x \<longleftrightarrow> CVM_D_EXP x = 0 \<and> CVM_D_MHI x = 0 \<and> d_lo x = 0"

definition cvm_d_isinf :: "cvm_f64 \<Rightarrow> bool" where
  "cvm_d_isinf x \<longleftrightarrow> CVM_D_EXP x = 0x7FF \<and> CVM_D_MHI x = 0 \<and> d_lo x = 0"

definition cvm_d_isnan :: "cvm_f64 \<Rightarrow> bool" where
  "cvm_d_isnan x \<longleftrightarrow> CVM_D_EXP x = 0x7FF \<and> (CVM_D_MHI x \<noteq> 0 \<or> d_lo x \<noteq> 0)"

definition cvm_d_isfinite :: "cvm_f64 \<Rightarrow> bool" where
  "cvm_d_isfinite x \<longleftrightarrow> CVM_D_EXP x \<noteq> 0x7FF"

definition cvm_d_neg :: "cvm_f64 \<Rightarrow> cvm_f64" where
  "cvm_d_neg x = x\<lparr>d_hi := d_hi x XOR 0x80000000\<rparr>"

definition cvm_d_abs :: "cvm_f64 \<Rightarrow> cvm_f64" where
  "cvm_d_abs x = x\<lparr>d_hi := d_hi x AND 0x7FFFFFFF\<rparr>"

definition cvm_d_copysign :: "cvm_f64 \<Rightarrow> cvm_f64 \<Rightarrow> cvm_f64" where
  "cvm_d_copysign mag sg = mag\<lparr>d_hi := (d_hi mag AND 0x7FFFFFFF) OR (d_hi sg AND 0x80000000)\<rparr>"

section \<open>Comparisons\<close>

definition cvm_d_eq :: "cvm_f64 \<Rightarrow> cvm_f64 \<Rightarrow> bool" where
  "cvm_d_eq a b = (if cvm_d_isnan a \<or> cvm_d_isnan b then False
     else if cvm_d_iszero a \<and> cvm_d_iszero b then True
     else d_lo a = d_lo b \<and> d_hi a = d_hi b)"

definition cvm_d_ne :: "cvm_f64 \<Rightarrow> cvm_f64 \<Rightarrow> bool" where
  "cvm_d_ne a b = (if cvm_d_isnan a \<or> cvm_d_isnan b then True
     else if cvm_d_iszero a \<and> cvm_d_iszero b then False
     else d_lo a \<noteq> d_lo b \<or> d_hi a \<noteq> d_hi b)"

definition cvm_d_lt :: "cvm_f64 \<Rightarrow> cvm_f64 \<Rightarrow> bool" where
  "cvm_d_lt a b = (if cvm_d_isnan a \<or> cvm_d_isnan b then False
     else if cvm_d_iszero a \<and> cvm_d_iszero b then False
     else let sa = CVM_D_SIGN a; sb = CVM_D_SIGN b in
       if sa \<noteq> sb then sa > sb
       else if sa = 0 then (if d_hi a \<noteq> d_hi b then d_hi a < d_hi b else d_lo a < d_lo b)
       else (if d_hi a \<noteq> d_hi b then d_hi a > d_hi b else d_lo a > d_lo b))"

definition cvm_d_le :: "cvm_f64 \<Rightarrow> cvm_f64 \<Rightarrow> bool" where
  "cvm_d_le a b \<longleftrightarrow> cvm_d_lt a b \<or> cvm_d_eq a b"
definition cvm_d_gt :: "cvm_f64 \<Rightarrow> cvm_f64 \<Rightarrow> bool" where "cvm_d_gt a b = cvm_d_lt b a"
definition cvm_d_ge :: "cvm_f64 \<Rightarrow> cvm_f64 \<Rightarrow> bool" where "cvm_d_ge a b = cvm_d_le b a"

section \<open>Conversions\<close>

definition cvm_d_from_f32 :: "u32 \<Rightarrow> cvm_f64" where
  "cvm_d_from_f32 bits =
     (let sign = drop_bit 31 bits; exp32 = drop_bit 23 bits AND 0xFF; m32 = bits AND 0x7FFFFF in
      if exp32 = 0 then (if sign \<noteq> 0 then CVM_D_NEG_ZERO else CVM_D_ZERO)
      else if exp32 = 0xFF then
        (if m32 = 0 then (if sign \<noteq> 0 then CVM_D_NEG_INF else CVM_D_INF) else CVM_D_NAN)
      else let exp64 = exp32 - 127 + 1023; mhi = drop_bit 3 m32; mlo = push_bit 29 (m32 AND 7) in
        cvm_d_pack sign exp64 mhi mlo)"

definition cvm_d_to_f32 :: "cvm_f64 \<Rightarrow> u32" where
  "cvm_d_to_f32 x =
     (let sign = CVM_D_SIGN x; exp64 = CVM_D_EXP x in
      if exp64 = 0 then push_bit 31 sign
      else if exp64 = 0x7FF then
        (if CVM_D_MHI x = 0 \<and> d_lo x = 0 then push_bit 31 sign OR 0x7F800000 else 0x7FC00000)
      else let e32 = sint exp64 - 1023 + 127 in
        if e32 \<ge> 0xFF then push_bit 31 sign OR 0x7F800000
        else if e32 \<le> 0 then push_bit 31 sign
        else let m23 = push_bit 3 (CVM_D_MHI x) OR drop_bit 29 (d_lo x) in
          push_bit 31 sign OR push_bit 23 (of_int e32) OR (m23 AND 0x7FFFFF))"

text \<open>\<open>cvm__top_bit_u32\<close>: a binary search whose five steps move the found half down.\<close>

definition top_step :: "u32 \<Rightarrow> nat \<Rightarrow> u32 \<times> nat \<Rightarrow> u32 \<times> nat" where
  "top_step msk k xn = (if fst xn AND msk \<noteq> 0 then (drop_bit k (fst xn), snd xn + k) else xn)"

definition cvm__top_bit_u32 :: "u32 \<Rightarrow> nat" where
  "cvm__top_bit_u32 x =
     (let (y, n) = top_step 0xC 2 (top_step 0xF0 4 (top_step 0xFF00 8 (top_step 0xFFFF0000 16 (x, 0)))) in
      if y AND 2 \<noteq> 0 then n + 1 else n)"

definition cvm_d_from_u32 :: "u32 \<Rightarrow> cvm_f64" where
  "cvm_d_from_u32 v = (if v = 0 then CVM_D_ZERO
     else let top = cvm__top_bit_u32 v; exp = of_nat (1023 + top);
              mant_no_lead = v XOR push_bit top 1; shl = 52 - top;
              (mlo, mhi) = (if shl \<ge> 32 then (0, push_bit (shl - 32) mant_no_lead)
                else if shl = 0 then (mant_no_lead, 0)
                else (push_bit shl mant_no_lead, drop_bit (32 - shl) mant_no_lead)) in
       cvm_d_pack 0 exp (mhi AND 0xFFFFF) mlo)"

definition cvm_d_from_i32 :: "u32 \<Rightarrow> cvm_f64" where
  "cvm_d_from_i32 v = (if v = 0 then CVM_D_ZERO
     else let neg = sint v < 0; mag = (if neg then NOT v + 1 else v); r = cvm_d_from_u32 mag in
       if neg then r\<lparr>d_hi := d_hi r OR 0x80000000\<rparr> else r)"

text \<open>\<open>sh = 52 - e\<close> with \<open>0 \<le> e < 32\<close>: the integer part of the 53-bit mantissa.\<close>

definition int_part :: "u32 \<Rightarrow> u32 \<Rightarrow> nat \<Rightarrow> u32" where
  "int_part mhi_full mlo sh = (if sh \<ge> 32 then drop_bit (sh - 32) mhi_full
     else push_bit (32 - sh) mhi_full OR drop_bit sh mlo)"

definition cvm_d_to_i32 :: "cvm_f64 \<Rightarrow> u32" where
  "cvm_d_to_i32 x = (if cvm_d_isnan x then 0
     else let sign = CVM_D_SIGN x; exp = CVM_D_EXP x in
       if exp = 0 then 0
       else let e = sint exp - 1023 in
         if e < 0 then 0
         else if e \<ge> 31 then (if sign \<noteq> 0 then 0x80000000 else 0x7FFFFFFF)
         else let mhi_full = CVM_D_MHI x OR 0x100000; result = int_part mhi_full (d_lo x) (nat (52 - e)) in
           if sign \<noteq> 0 then - result else result)"

definition cvm_d_to_u32 :: "cvm_f64 \<Rightarrow> u32" where
  "cvm_d_to_u32 x = (if cvm_d_isnan x then 0
     else if CVM_D_SIGN x \<noteq> 0 then 0
     else let exp = CVM_D_EXP x in
       if exp = 0 then 0
       else let e = sint exp - 1023 in
         if e < 0 then 0
         else if e \<ge> 32 then 0xFFFFFFFF
         else int_part (CVM_D_MHI x OR 0x100000) (d_lo x) (nat (52 - e)))"

section \<open>Addition\<close>

text \<open>A 64-bit value in two halves, high half first, as the bodies below keep it.\<close>

definition signed_inf :: "u32 \<Rightarrow> cvm_f64" where
  "signed_inf s = (if s \<noteq> 0 then CVM_D_NEG_INF else CVM_D_INF)"
definition signed_zero :: "u32 \<Rightarrow> cvm_f64" where
  "signed_zero s = (if s \<noteq> 0 then CVM_D_NEG_ZERO else CVM_D_ZERO)"

text \<open>The right shift that aligns \<open>b\<close>, for a difference below 64.\<close>

definition align_right :: "u32 \<Rightarrow> u32 \<Rightarrow> u32 \<Rightarrow> u32 \<times> u32" where
  "align_right bh bl d =
     (if d \<ge> 32 then (0, drop_bit (unat (d - 32)) bh)
      else if d > 0 then (drop_bit (unat d) bh, drop_bit (unat d) bl OR push_bit (unat (32 - d)) bh)
      else (bh, bl))"

text \<open>Effective subtraction with renormalisation.\<close>

definition sub_mags :: "u32 \<Rightarrow> u32 \<Rightarrow> u32 \<Rightarrow> u32 \<Rightarrow> u32 \<Rightarrow> u32 \<Rightarrow> cvm_f64" where
  "sub_mags r_sign r_exp a_hi a_lo b_hi b_lo =
     (let r_lo = a_lo - b_lo; r_hi = a_hi - b_hi - (if a_lo < b_lo then 1 else 0) in
      if r_lo = 0 \<and> r_hi = 0 then CVM_D_ZERO
      else let leading = (if r_hi \<noteq> 0 then 32 + cvm__top_bit_u32 r_hi else cvm__top_bit_u32 r_lo);
               shl = 52 - int leading in
        if shl > 0 then
          let n = nat shl;
              (h, l) = (if n \<ge> 32 then (push_bit (n - 32) r_lo, 0)
                else (push_bit n r_hi OR drop_bit (32 - n) r_lo, push_bit n r_lo));
              r_exp_signed = sint r_exp - shl in
          if r_exp_signed \<le> 0 then signed_zero r_sign
          else cvm_d_pack r_sign (of_int r_exp_signed) (h AND 0xFFFFF) l
        else cvm_d_pack r_sign r_exp (r_hi AND 0xFFFFF) r_lo)"

text \<open>Effective addition with the possible carry into bit 53.\<close>

definition add_mags :: "u32 \<Rightarrow> u32 \<Rightarrow> u32 \<Rightarrow> u32 \<Rightarrow> u32 \<Rightarrow> u32 \<Rightarrow> cvm_f64" where
  "add_mags r_sign r_exp a_hi a_lo b_hi b_lo =
     (let r_lo = a_lo + b_lo; r_hi = a_hi + b_hi + (if r_lo < a_lo then 1 else 0) in
      if r_hi AND 0x200000 \<noteq> 0 then
        (let l = drop_bit 1 r_lo OR push_bit 31 r_hi; h = drop_bit 1 r_hi; r_exp' = r_exp + 1 in
         if r_exp' \<ge> 0x7FF then signed_inf r_sign
         else cvm_d_pack r_sign r_exp' (h AND 0xFFFFF) l)
      else cvm_d_pack r_sign r_exp (r_hi AND 0xFFFFF) r_lo)"

definition mag_lt :: "cvm_f64 \<Rightarrow> cvm_f64 \<Rightarrow> bool" where
  "mag_lt a b = (let ah = d_hi a AND 0x7FFFFFFF; bh = d_hi b AND 0x7FFFFFFF in
     ah < bh \<or> ah = bh \<and> d_lo a < d_lo b)"

text \<open>The part of \<open>cvm_d_add\<close> after the operands are ordered by magnitude.\<close>

definition add_ordered :: "cvm_f64 \<Rightarrow> cvm_f64 \<Rightarrow> cvm_f64" where
  "add_ordered a b =
     (let r_sign = CVM_D_SIGN a; eff_sub = (CVM_D_SIGN a \<noteq> CVM_D_SIGN b);
          a_exp = CVM_D_EXP a; b_exp = CVM_D_EXP b;
          a_m_hi = CVM_D_MHI a OR 0x100000; b_m_hi = CVM_D_MHI b OR 0x100000;
          exp_diff = a_exp - b_exp in
      if exp_diff \<ge> 64 then a
      else let (bh, bl) = align_right b_m_hi (d_lo b) exp_diff in
        if eff_sub then sub_mags r_sign a_exp a_m_hi (d_lo a) bh bl
        else add_mags r_sign a_exp a_m_hi (d_lo a) bh bl)"

definition cvm_d_add :: "cvm_f64 \<Rightarrow> cvm_f64 \<Rightarrow> cvm_f64" where
  "cvm_d_add a b =
     (if cvm_d_isnan a \<or> cvm_d_isnan b then CVM_D_NAN
      else if cvm_d_isinf a then
        (if cvm_d_isinf b \<and> CVM_D_SIGN a \<noteq> CVM_D_SIGN b then CVM_D_NAN else a)
      else if cvm_d_isinf b then b
      else if cvm_d_iszero a then b
      else if cvm_d_iszero b then a
      else if mag_lt a b then add_ordered b a else add_ordered a b)"

definition cvm_d_sub :: "cvm_f64 \<Rightarrow> cvm_f64 \<Rightarrow> cvm_f64" where
  "cvm_d_sub a b = cvm_d_add a (cvm_d_neg b)"

section \<open>Multiplication\<close>

definition carry32 :: "bool \<Rightarrow> u32" where "carry32 p = (if p then 1 else 0)"

text \<open>The 128-bit product of two pairs of words, most significant word first.\<close>

definition wide_product :: "u32 \<Rightarrow> u32 \<Rightarrow> u32 \<Rightarrow> u32 \<Rightarrow> u32 \<times> u32 \<times> u32 \<times> u32" where
  "wide_product a_hi a_lo b_hi b_lo =
     (let p0_lo = a_lo * b_lo; p0_hi = cvm_mulhu a_lo b_lo;
          p1_lo = a_lo * b_hi; p1_hi = cvm_mulhu a_lo b_hi;
          p2_lo = a_hi * b_lo; p2_hi = cvm_mulhu a_hi b_lo;
          p3_lo = a_hi * b_hi; p3_hi = cvm_mulhu a_hi b_hi;
          w0 = p0_lo;
          s1a = p0_hi + p1_lo; c1a = carry32 (s1a < p0_hi);
          w1 = s1a + p2_lo; c1b = carry32 (w1 < s1a); carry_to_w2 = c1a + c1b;
          s2a = p1_hi + p2_hi; c2a = carry32 (s2a < p1_hi);
          s2b = s2a + p3_lo; c2b = carry32 (s2b < s2a);
          w2 = s2b + carry_to_w2; c2c = carry32 (w2 < s2b);
          carry_to_w3 = c2a + c2b + c2c;
          w3 = p3_hi + carry_to_w3 in
      (w3, w2, w1, w0))"

definition cvm_d_mul :: "cvm_f64 \<Rightarrow> cvm_f64 \<Rightarrow> cvm_f64" where
  "cvm_d_mul a b =
     (if cvm_d_isnan a \<or> cvm_d_isnan b then CVM_D_NAN
      else let r_sign = CVM_D_SIGN a XOR CVM_D_SIGN b in
      if cvm_d_isinf a then (if cvm_d_iszero b then CVM_D_NAN else signed_inf r_sign)
      else if cvm_d_isinf b then (if cvm_d_iszero a then CVM_D_NAN else signed_inf r_sign)
      else if cvm_d_iszero a \<or> cvm_d_iszero b then signed_zero r_sign
      else let (w3, w2, w1, w0) = wide_product (CVM_D_MHI a OR 0x100000) (d_lo a)
                 (CVM_D_MHI b OR 0x100000) (d_lo b);
               extra = (if drop_bit 9 w3 AND 1 \<noteq> 0 then 1 else 0 :: nat);
               s = 52 + extra - 32;
               out_hi = push_bit (32 - s) w3 OR drop_bit s w2;
               out_lo = push_bit (32 - s) w2 OR drop_bit s w1;
               r_exp_signed = sint (CVM_D_EXP a) + sint (CVM_D_EXP b) - 1023 + int extra in
        if r_exp_signed \<ge> 0x7FF then signed_inf r_sign
        else if r_exp_signed \<le> 0 then signed_zero r_sign
        else cvm_d_pack r_sign (of_int r_exp_signed) (out_hi AND 0xFFFFF) out_lo)"

section \<open>Division\<close>

text \<open>\<open>cvm_d_div_round_rne\<close> on the quotient, the exponent and the remainder.\<close>

definition cvm_d_div_round_rne :: "u32 \<Rightarrow> u32 \<Rightarrow> int \<Rightarrow> u32 \<Rightarrow> u32 \<Rightarrow> u32 \<times> u32 \<times> int" where
  "cvm_d_div_round_rne q_hi q_lo r_exp r_lo r_hi =
     (let guard = q_lo AND 1; sticky = (r_lo OR r_hi \<noteq> 0);
          ql = drop_bit 1 q_lo OR push_bit 31 q_hi; qh = drop_bit 1 q_hi; lsb = ql AND 1 in
      if guard \<noteq> 0 \<and> (sticky \<or> lsb \<noteq> 0) then
        (let new_lo = ql + 1; qh' = qh + carry32 (new_lo = 0) in
         if qh' AND 0x200000 \<noteq> 0
         then (drop_bit 1 qh', drop_bit 1 new_lo OR push_bit 31 (qh' AND 1), r_exp + 1)
         else (qh', new_lo, r_exp))
      else (qh, ql, r_exp))"

text \<open>One iteration of the division loop on \<open>(r_hi, r_lo, q_hi, q_lo)\<close>.\<close>

definition div_step :: "u32 \<Rightarrow> u32 \<Rightarrow> u32 \<times> u32 \<times> u32 \<times> u32 \<Rightarrow> u32 \<times> u32 \<times> u32 \<times> u32" where
  "div_step b_hi b_lo st = (case st of (rh0, rl0, qh0, ql0) \<Rightarrow>
     let rh = push_bit 1 rh0 OR drop_bit 31 rl0; rl = push_bit 1 rl0;
         qh = push_bit 1 qh0 OR drop_bit 31 ql0; ql = push_bit 1 ql0 in
     if (if rh \<noteq> b_hi then rh > b_hi else rl \<ge> b_lo)
     then (rh - b_hi - carry32 (rl < b_lo), rl - b_lo, qh, ql OR 1)
     else (rh, rl, qh, ql))"

primrec div_loop :: "nat \<Rightarrow> u32 \<Rightarrow> u32 \<Rightarrow> u32 \<times> u32 \<times> u32 \<times> u32 \<Rightarrow> u32 \<times> u32 \<times> u32 \<times> u32" where
  "div_loop 0 b_hi b_lo st = st"
| "div_loop (Suc n) b_hi b_lo st = div_loop n b_hi b_lo (div_step b_hi b_lo st)"

definition cvm_d_div :: "cvm_f64 \<Rightarrow> cvm_f64 \<Rightarrow> cvm_f64" where
  "cvm_d_div a b =
     (if cvm_d_isnan a \<or> cvm_d_isnan b then CVM_D_NAN
      else let r_sign = CVM_D_SIGN a XOR CVM_D_SIGN b in
      if cvm_d_isinf a then (if cvm_d_isinf b then CVM_D_NAN else signed_inf r_sign)
      else if cvm_d_isinf b then signed_zero r_sign
      else if cvm_d_iszero b then (if cvm_d_iszero a then CVM_D_NAN else signed_inf r_sign)
      else if cvm_d_iszero a then signed_zero r_sign
      else let a_lo0 = d_lo a; a_hi0 = CVM_D_MHI a OR 0x100000;
               b_lo = d_lo b; b_hi = CVM_D_MHI b OR 0x100000;
               a_lt_b = (if a_hi0 \<noteq> b_hi then a_hi0 < b_hi else a_lo0 < b_lo);
               a_hi = (if a_lt_b then push_bit 1 a_hi0 OR drop_bit 31 a_lo0 else a_hi0);
               a_lo = (if a_lt_b then push_bit 1 a_lo0 else a_lo0);
               exp_adjust = (if a_lt_b then -1 else 0);
               r_lo = a_lo - b_lo; r_hi = a_hi - b_hi - carry32 (a_lo < b_lo);
               (rh, rl, qh, ql) = div_loop 53 b_hi b_lo (r_hi, r_lo, 0, 1);
               r_exp0 = sint (CVM_D_EXP a) - sint (CVM_D_EXP b) + 1023 + exp_adjust;
               (q_hi, q_lo, r_exp_signed) = cvm_d_div_round_rne qh ql r_exp0 rl rh in
        if r_exp_signed \<ge> 0x7FF then signed_inf r_sign
        else if r_exp_signed \<le> 0 then signed_zero r_sign
        else cvm_d_pack r_sign (of_int r_exp_signed) (q_hi AND 0xFFFFF) q_lo)"

section \<open>The linked runtime\<close>

definition cvm_fadd :: "cvm_f64 \<Rightarrow> cvm_f64 \<Rightarrow> cvm_f64" where "cvm_fadd a b = cvm_d_add a b"
definition cvm_fsub :: "cvm_f64 \<Rightarrow> cvm_f64 \<Rightarrow> cvm_f64" where "cvm_fsub a b = cvm_d_sub a b"
definition cvm_fmul :: "cvm_f64 \<Rightarrow> cvm_f64 \<Rightarrow> cvm_f64" where "cvm_fmul a b = cvm_d_mul a b"
definition cvm_fdiv :: "cvm_f64 \<Rightarrow> cvm_f64 \<Rightarrow> cvm_f64" where "cvm_fdiv a b = cvm_d_div a b"
definition cvm_feq :: "cvm_f64 \<Rightarrow> cvm_f64 \<Rightarrow> bool" where "cvm_feq a b = cvm_d_eq a b"
definition cvm_fne :: "cvm_f64 \<Rightarrow> cvm_f64 \<Rightarrow> bool" where "cvm_fne a b = cvm_d_ne a b"
definition cvm_flt :: "cvm_f64 \<Rightarrow> cvm_f64 \<Rightarrow> bool" where "cvm_flt a b = cvm_d_lt a b"
definition cvm_fle :: "cvm_f64 \<Rightarrow> cvm_f64 \<Rightarrow> bool" where "cvm_fle a b = cvm_d_le a b"
definition cvm_fgt :: "cvm_f64 \<Rightarrow> cvm_f64 \<Rightarrow> bool" where "cvm_fgt a b = cvm_d_gt a b"
definition cvm_fge :: "cvm_f64 \<Rightarrow> cvm_f64 \<Rightarrow> bool" where "cvm_fge a b = cvm_d_ge a b"

definition cvm_ford :: "cvm_f64 \<Rightarrow> cvm_f64 \<Rightarrow> bool" where
  "cvm_ford a b \<longleftrightarrow> \<not> cvm_d_isnan a \<and> \<not> cvm_d_isnan b"
definition cvm_fone :: "cvm_f64 \<Rightarrow> cvm_f64 \<Rightarrow> bool" where
  "cvm_fone a b \<longleftrightarrow> cvm_d_lt a b \<or> cvm_d_lt b a"

definition cvm_f_from_i32 :: "u32 \<Rightarrow> cvm_f64" where "cvm_f_from_i32 v = cvm_d_from_i32 v"
definition cvm_f_from_u32 :: "u32 \<Rightarrow> cvm_f64" where "cvm_f_from_u32 v = cvm_d_from_u32 v"
definition cvm_f_to_i32 :: "cvm_f64 \<Rightarrow> u32" where "cvm_f_to_i32 x = cvm_d_to_i32 x"
definition cvm_f_to_u32 :: "cvm_f64 \<Rightarrow> u32" where "cvm_f_to_u32 x = cvm_d_to_u32 x"
definition cvm_f_from_f32 :: "u32 \<Rightarrow> cvm_f64" where "cvm_f_from_f32 f = cvm_d_from_f32 f"
definition cvm_f_to_f32 :: "cvm_f64 \<Rightarrow> u32" where "cvm_f_to_f32 x = cvm_d_to_f32 x"

definition cvm_f_from_u64 :: "u64 \<Rightarrow> cvm_f64" where
  "cvm_f_from_u64 v =
     (let l = ucast v; h = ucast (drop_bit 32 v); dlo = cvm_d_from_u32 l in
      if h = 0 then dlo
      else let k16 = cvm_d_from_u32 0x10000;
               thi = cvm_d_mul (cvm_d_mul (cvm_d_from_u32 h) k16) k16 in
        cvm_d_add thi dlo)"

definition cvm_f_from_i64 :: "u64 \<Rightarrow> cvm_f64" where
  "cvm_f_from_i64 v =
     (if sint v < 0 then cvm_d_neg (cvm_f_from_u64 (- v)) else cvm_f_from_u64 v)"

definition sqrt_step :: "cvm_f64 \<Rightarrow> cvm_f64 \<Rightarrow> cvm_f64" where
  "sqrt_step x y = (let half = cvm_d_pack 0 1022 0 0; q = cvm_d_div x y in cvm_d_mul (cvm_d_add y q) half)"

definition cvm_fsqrt :: "cvm_f64 \<Rightarrow> cvm_f64" where
  "cvm_fsqrt x =
     (if cvm_d_isnan x then CVM_D_NAN
      else if cvm_d_iszero x then x
      else if CVM_D_SIGN x \<noteq> 0 then CVM_D_NAN
      else if cvm_d_isinf x then x
      else let se = (sint (CVM_D_EXP x) - 1023) div 2;
               y = cvm_d_pack 0 (of_int (se + 1023)) 0 0 in
        (sqrt_step x ^^ 6) y)"

end
