(* ===== verification/Float64_Correct.thy ===== *)
theory Float64_Correct
  imports Float64
begin

text \<open>
  The value of a \<open>cvm_f64\<close> in units of \<open>2^-1074\<close>, comparisons and conversions. The arithmetic is in
  \<open>Float64_Arith\<close>.
\<close>

section \<open>Fields\<close>

definition d_neg :: "cvm_f64 \<Rightarrow> bool" where "d_neg x \<longleftrightarrow> CVM_D_SIGN x \<noteq> 0"
definition d_exp :: "cvm_f64 \<Rightarrow> nat" where "d_exp x = unat (CVM_D_EXP x)"
definition d_mant :: "cvm_f64 \<Rightarrow> nat" where "d_mant x = unat (CVM_D_MHI x) * 2 ^ 32 + unat (d_lo x)"

text \<open>Magnitudes as numbers: the exponent field on top of the 52 mantissa bits.\<close>

definition d_mag :: "cvm_f64 \<Rightarrow> nat" where "d_mag x = d_exp x * 2 ^ 52 + d_mant x"

definition mag64 :: "nat \<Rightarrow> nat" where
  "mag64 k = (let e = k div 2 ^ 52; m = k mod 2 ^ 52 in if e = 0 then m else (2 ^ 52 + m) * 2 ^ (e - 1))"

definition d_int :: "cvm_f64 \<Rightarrow> int" where
  "d_int x = (if d_neg x then - int (mag64 (d_mag x)) else int (mag64 (d_mag x)))"

lemma unat_and_mask: "unat (w AND mask n :: u32) = unat w mod 2 ^ n"
  by (metis take_bit_eq_mask take_bit_eq_mod unsigned_take_bit_eq)

lemma masks: "(0x7FF :: u32) = mask 11" "(0x000FFFFF :: u32) = mask 20" "(0x7FFFFFFF :: u32) = mask 31"
  "(1 :: u32) = mask 1" "(0x7FFFFF :: u32) = mask 23" "(0xFF :: u32) = mask 8" "(7 :: u32) = mask 3"
  by (simp_all add: mask_eq_exp_minus_1)

lemma unat_drop: "unat (drop_bit n w :: u32) = unat w div 2 ^ n"
  by (subst unsigned_drop_bit_eq) (simp add: drop_bit_eq_div take_bit_nat_eq_self)

lemma field_nat:
  "unat (CVM_D_SIGN x) = unat (d_hi x) div 2 ^ 31"
  "unat (CVM_D_EXP x) = unat (d_hi x) div 2 ^ 20 mod 2 ^ 11"
  "unat (CVM_D_MHI x) = unat (d_hi x) mod 2 ^ 20"
proof -
  have "unat (d_hi x) div 2 ^ 31 < 2" by (rule less_mult_imp_div_less) simp
  then show "unat (CVM_D_SIGN x) = unat (d_hi x) div 2 ^ 31"
    unfolding CVM_D_SIGN_def masks(4) unat_and_mask unat_drop by simp
  show "unat (CVM_D_EXP x) = unat (d_hi x) div 2 ^ 20 mod 2 ^ 11"
    unfolding CVM_D_EXP_def masks(1) unat_and_mask unat_drop ..
  show "unat (CVM_D_MHI x) = unat (d_hi x) mod 2 ^ 20"
    unfolding CVM_D_MHI_def masks(2) unat_and_mask ..
qed

lemma glue: "a < 2 ^ i \<Longrightarrow> b < 2 ^ j \<Longrightarrow> a * 2 ^ j + b < (2 :: nat) ^ (i + j)"
proof -
  assume a: "a < 2 ^ i" and b: "b < 2 ^ j"
  have "(a + 1) * 2 ^ j \<le> 2 ^ i * 2 ^ j" using a by (intro mult_right_mono) simp_all
  then show ?thesis using b by (simp add: power_add)
qed

lemma mhi_lt: "unat (CVM_D_MHI x) < 2 ^ 20"
  unfolding field_nat by simp

lemma field_bounds: "d_exp x < 2 ^ 11" "d_mant x < 2 ^ 52" "d_mag x < 2 ^ 63"
proof -
  show e: "d_exp x < 2 ^ 11" unfolding d_exp_def field_nat by simp
  show m: "d_mant x < 2 ^ 52" unfolding d_mant_def using glue [OF mhi_lt, of "unat (d_lo x)" 32 x] by simp
  show "d_mag x < 2 ^ 63" unfolding d_mag_def using glue [OF e m] by simp
qed

lemma hi_fields: "unat (d_hi x) = (if d_neg x then 2 ^ 31 else 0) + d_exp x * 2 ^ 20 + unat (CVM_D_MHI x)"
proof -
  let ?h = "unat (d_hi x)"
  have s: "?h div 2 ^ 31 < 2" by (rule less_mult_imp_div_less) simp
  have "d_neg x \<longleftrightarrow> ?h div 2 ^ 31 \<noteq> 0" unfolding d_neg_def using field_nat(1) [of x] by (metis unat_eq_0)
  with s have n: "(if d_neg x then 2 ^ 31 else 0) = ?h div 2 ^ 31 * 2 ^ 31" by (auto simp: less_2_cases_iff)
  have "?h = ?h div 2 ^ 20 * 2 ^ 20 + ?h mod 2 ^ 20" by simp
  also have "?h div 2 ^ 20 = ?h div 2 ^ 20 div 2 ^ 11 * 2 ^ 11 + ?h div 2 ^ 20 mod 2 ^ 11" by simp
  also have "?h div 2 ^ 20 div 2 ^ 11 = ?h div 2 ^ 31" by (simp flip: div_mult2_eq)
  finally show ?thesis unfolding n d_exp_def field_nat by (simp add: algebra_simps)
qed

lemma d_ext: "d_neg x = d_neg y \<Longrightarrow> d_exp x = d_exp y \<Longrightarrow> d_mant x = d_mant y \<Longrightarrow> x = y"
proof -
  assume a: "d_neg x = d_neg y" "d_exp x = d_exp y" "d_mant x = d_mant y"
  have "unat (CVM_D_MHI z) = d_mant z div 2 ^ 32 \<and> unat (d_lo z) = d_mant z mod 2 ^ 32" for z
    by (simp add: d_mant_def)
  with a have "unat (CVM_D_MHI x) = unat (CVM_D_MHI y)" "unat (d_lo x) = unat (d_lo y)" by simp_all
  with a hi_fields [of x] hi_fields [of y] have "unat (d_hi x) = unat (d_hi y)" "unat (d_lo x) = unat (d_lo y)"
    by simp_all
  then show "x = y" by (cases x; cases y) (simp add: word_unat_eq_iff)
qed

lemma pack_fields:
  assumes "unat s \<le> 1" "unat e < 2 ^ 11"
  shows "d_neg (cvm_d_pack s e h l) \<longleftrightarrow> s \<noteq> 0" "d_exp (cvm_d_pack s e h l) = unat e"
    "CVM_D_MHI (cvm_d_pack s e h l) = h AND 0xFFFFF" "d_lo (cvm_d_pack s e h l) = l"
proof -
  have s: "s = 0 \<or> s = 1"
    using assms(1) by (auto simp: word_unat_eq_iff le_Suc_eq)
  have e': "e AND 0x7FF = e"
    unfolding masks(1) using assms(2) by (metis mod_less unat_and_mask word_unat_eq_iff)
  let ?x = "cvm_d_pack s e h l"
  have be: "bit (e AND 0x7FF) n \<longleftrightarrow> bit e n" for n by (simp only: e')
  have e11: "n < 11" if "bit e n" for n
    using be [of n] that by (auto simp: masks(1) bit_simps)
  have hb: "bit (d_hi ?x) n \<longleftrightarrow> n < 32 \<and> (n = 31 \<and> s = 1 \<or> 20 \<le> n \<and> bit e (n - 20) \<or> n < 20 \<and> bit h n)" for n
  proof -
    have "bit (push_bit 31 s) n \<longleftrightarrow> n = 31 \<and> s = 1"
      using s by (cases "n = 31") (auto simp: bit_simps)
    moreover have "bit (push_bit 20 (e AND 0x7FF)) n \<longleftrightarrow> n < 32 \<and> 20 \<le> n \<and> bit e (n - 20)"
      unfolding e' by (auto simp: bit_simps)
    moreover have "bit (h AND 0xFFFFF) n \<longleftrightarrow> n < 20 \<and> bit h n" unfolding masks(2) by (auto simp: bit_simps)
    ultimately show ?thesis by (auto simp: cvm_d_pack_def bit_or_iff)
  qed
  have "CVM_D_SIGN ?x = s"
    by (rule bit_word_eqI) (use s in \<open>auto simp: CVM_D_SIGN_def bit_simps hb dest!: e11\<close>)
  then show "d_neg ?x \<longleftrightarrow> s \<noteq> 0" by (simp add: d_neg_def)
  have "CVM_D_EXP ?x = e"
    unfolding CVM_D_EXP_def masks(1) by (rule bit_word_eqI) (auto simp: bit_simps hb dest: e11)
  then show "d_exp ?x = unat e" by (simp add: d_exp_def)
  show "CVM_D_MHI ?x = h AND 0xFFFFF"
    unfolding CVM_D_MHI_def masks(2) by (rule bit_word_eqI) (auto simp: bit_simps hb)
  show "d_lo ?x = l" by (simp add: cvm_d_pack_def)
qed

lemma nan_inf_zero:
  "cvm_d_isnan x \<longleftrightarrow> d_exp x = 2047 \<and> d_mant x \<noteq> 0"
  "cvm_d_isinf x \<longleftrightarrow> d_exp x = 2047 \<and> d_mant x = 0"
  "cvm_d_iszero x \<longleftrightarrow> d_mag x = 0"
proof -
  have e: "CVM_D_EXP x = 0x7FF \<longleftrightarrow> d_exp x = 2047" "CVM_D_EXP x = 0 \<longleftrightarrow> d_exp x = 0"
    by (simp_all add: d_exp_def word_unat_eq_iff)
  have m: "CVM_D_MHI x = 0 \<and> d_lo x = 0 \<longleftrightarrow> d_mant x = 0"
    by (simp add: d_mant_def unat_eq_0)
  show "cvm_d_isnan x \<longleftrightarrow> d_exp x = 2047 \<and> d_mant x \<noteq> 0"
    "cvm_d_isinf x \<longleftrightarrow> d_exp x = 2047 \<and> d_mant x = 0"
    using e m by (auto simp: cvm_d_isnan_def cvm_d_isinf_def)
  show "cvm_d_iszero x \<longleftrightarrow> d_mag x = 0" using e m by (auto simp: cvm_d_iszero_def d_mag_def)
qed

section \<open>Values\<close>

lemma mag64_Suc: "mag64 k < mag64 (Suc k)"
proof -
  define e m where "e = k div 2 ^ 52" and "m = k mod 2 ^ 52"
  have k: "k = e * 2 ^ 52 + m" "m < 2 ^ 52" by (simp_all add: e_def m_def)
  show ?thesis
  proof (cases "Suc m < 2 ^ 52")
    case True
    have "Suc k = e * 2 ^ 52 + Suc m" using k(1) by simp
    then have "Suc k div 2 ^ 52 = e" "Suc k mod 2 ^ 52 = Suc m"
      using True by (simp_all only:) simp_all
    then show ?thesis unfolding mag64_def e_def [symmetric] m_def [symmetric] by (simp add: Let_def)
  next
    case False
    with k(2) have m: "m = 2 ^ 52 - 1" by simp
    then have "Suc k = (e + 1) * 2 ^ 52" using k(1) by simp
    then have d: "Suc k div 2 ^ 52 = e + 1" "Suc k mod 2 ^ 52 = 0" by simp_all
    show ?thesis
    proof (cases e)
      case 0
      then show ?thesis unfolding mag64_def d e_def [symmetric] m_def [symmetric] m by simp
    next
      case (Suc n)
      have "(2 ^ 52 + (2 ^ 52 - 1)) * 2 ^ n < (2 ^ 53 :: nat) * 2 ^ n" by simp
      then show ?thesis unfolding mag64_def d e_def [symmetric] m_def [symmetric] m Suc by (simp add: Let_def)
    qed
  qed
qed

lemma mag64_less: "mag64 j < mag64 k \<longleftrightarrow> j < k"
  using lift_Suc_mono_less_iff [of mag64 j k] mag64_Suc by blast

lemma mag64_eq: "mag64 j = mag64 k \<longleftrightarrow> j = k"
  by (metis less_irrefl nat_neq_iff mag64_less)

lemma mag64_0 [simp]: "mag64 0 = 0"
  by (simp add: mag64_def)

lemma mag64_pos: "0 < mag64 k \<longleftrightarrow> 0 < k"
  using mag64_less [of 0 k] by simp

lemma mag64_normal: "d_exp x \<noteq> 0 \<Longrightarrow> mag64 (d_mag x) = (2 ^ 52 + d_mant x) * 2 ^ (d_exp x - 1)"
proof -
  assume e: "d_exp x \<noteq> 0"
  have "d_mag x div 2 ^ 52 = d_exp x" "d_mag x mod 2 ^ 52 = d_mant x"
    using field_bounds(2) [of x] by (simp_all add: d_mag_def)
  with e show ?thesis by (simp add: mag64_def)
qed

lemma mag64_subnormal: "d_exp x = 0 \<Longrightarrow> mag64 (d_mag x) = d_mant x"
  using field_bounds(2) [of x] by (simp add: mag64_def d_mag_def)

lemma d_mag_words: "d_mag x = unat (d_hi x AND 0x7FFFFFFF) * 2 ^ 32 + unat (d_lo x)"
proof -
  have "d_exp x * 2 ^ 20 + unat (CVM_D_MHI x) < 2 ^ 31"
    using glue [OF field_bounds(1) mhi_lt, of x x] by simp
  then have "unat (d_hi x) mod 2 ^ 31 = d_exp x * 2 ^ 20 + unat (CVM_D_MHI x)"
    unfolding hi_fields by (auto simp: add.assoc)
  then show ?thesis unfolding masks(3) unat_and_mask by (simp add: d_mag_def d_mant_def algebra_simps)
qed

section \<open>Comparisons\<close>

lemma unat_hi_cmp: "d_neg a = d_neg b \<Longrightarrow>
  (if d_hi a \<noteq> d_hi b then d_hi a < d_hi b else d_lo a < d_lo b) \<longleftrightarrow> d_mag a < d_mag b"
proof -
  assume s: "d_neg a = d_neg b"
  have h: "unat (d_hi x) = (if d_neg x then 2 ^ 31 else 0) + d_mag x div 2 ^ 32"
    "unat (d_lo x) = d_mag x mod 2 ^ 32" for x
  proof -
    have q: "d_mag x = (d_exp x * 2 ^ 20 + unat (CVM_D_MHI x)) * 2 ^ 32 + unat (d_lo x)"
      by (simp add: d_mag_def d_mant_def algebra_simps)
    have "(k * 2 ^ 32 + unat (d_lo x)) div 2 ^ 32 = k" "(k * 2 ^ 32 + unat (d_lo x)) mod 2 ^ 32 = unat (d_lo x)"
      for k by simp_all
    then show "unat (d_hi x) = (if d_neg x then 2 ^ 31 else 0) + d_mag x div 2 ^ 32"
      "unat (d_lo x) = d_mag x mod 2 ^ 32" unfolding q by (simp_all only: hi_fields [of x] add.assoc)
  qed
  define ha hb la lb where "ha = d_mag a div 2 ^ 32" "hb = d_mag b div 2 ^ 32"
    "la = d_mag a mod 2 ^ 32" "lb = d_mag b mod 2 ^ 32"
  have m: "d_mag a = ha * 2 ^ 32 + la" "d_mag b = hb * 2 ^ 32 + lb" "la < 2 ^ 32" "lb < 2 ^ 32"
    by (simp_all add: ha_hb_la_lb_def)
  have "d_mag a < d_mag b \<longleftrightarrow> ha < hb \<or> ha = hb \<and> la < lb" unfolding m(1,2) using m(3,4) by auto
  moreover have "d_hi a \<noteq> d_hi b \<longleftrightarrow> ha \<noteq> hb" "d_hi a < d_hi b \<longleftrightarrow> ha < hb" "d_lo a < d_lo b \<longleftrightarrow> la < lb"
    using s by (simp_all add: word_less_nat_alt word_unat_eq_iff h ha_hb_la_lb_def)
  ultimately show ?thesis by auto
qed

lemma d_lt_int: "\<not> cvm_d_isnan a \<Longrightarrow> \<not> cvm_d_isnan b \<Longrightarrow> cvm_d_lt a b \<longleftrightarrow> d_int a < d_int b"
proof -
  assume n: "\<not> cvm_d_isnan a" "\<not> cvm_d_isnan b"
  have s: "CVM_D_SIGN x = (if d_neg x then 1 else 0)" for x
  proof -
    have "CVM_D_SIGN x = 0 \<or> CVM_D_SIGN x = 1"
      unfolding CVM_D_SIGN_def by (simp add: and_one_eq) (metis even_iff_mod_2_eq_zero not_mod_2_eq_1_eq_0)
    then show ?thesis by (auto simp: d_neg_def)
  qed
  have flip: "(if d_hi a \<noteq> d_hi b then d_hi a > d_hi b else d_lo a > d_lo b) \<longleftrightarrow> d_mag b < d_mag a"
    if "d_neg a = d_neg b" using unat_hi_cmp [of b a] that by auto
  show ?thesis
    using n unat_hi_cmp [of a b] flip mag64_less [of "d_mag a" "d_mag b"] mag64_less [of "d_mag b" "d_mag a"]
      mag64_pos [of "d_mag a"] mag64_pos [of "d_mag b"]
    by (simp add: cvm_d_lt_def nan_inf_zero(3) s d_int_def Let_def) auto
qed

lemma d_eq_int: "\<not> cvm_d_isnan a \<Longrightarrow> \<not> cvm_d_isnan b \<Longrightarrow> cvm_d_eq a b \<longleftrightarrow> d_int a = d_int b"
proof -
  assume n: "\<not> cvm_d_isnan a" "\<not> cvm_d_isnan b"
  have "d_lo a = d_lo b \<and> d_hi a = d_hi b \<longleftrightarrow> d_neg a = d_neg b \<and> d_mag a = d_mag b"
  proof
    assume "d_neg a = d_neg b \<and> d_mag a = d_mag b"
    moreover have "d_exp x = d_mag x div 2 ^ 52" "d_mant x = d_mag x mod 2 ^ 52" for x
      using field_bounds(2) [of x] by (simp_all add: d_mag_def)
    ultimately have "a = b" by (intro d_ext) simp_all
    then show "d_lo a = d_lo b \<and> d_hi a = d_hi b" by simp
  next
    assume "d_lo a = d_lo b \<and> d_hi a = d_hi b"
    then have "a = b" by simp
    then show "d_neg a = d_neg b \<and> d_mag a = d_mag b" by simp
  qed
  then show ?thesis
    using n mag64_eq [of "d_mag a" "d_mag b"] mag64_pos [of "d_mag a"] mag64_pos [of "d_mag b"]
    by (simp add: cvm_d_eq_def nan_inf_zero(3) d_int_def) auto
qed


section \<open>The highest bit\<close>

lemma band_zero:
  assumes "unat (y :: u32) < 2 ^ (2 * k)" "msk = push_bit k (mask k)" "2 * k \<le> 32"
  shows "y AND msk = 0 \<longleftrightarrow> unat y < 2 ^ k"
proof -
  have y: "n < 2 * k" if "bit y n" for n
  proof (rule ccontr)
    assume "\<not> n < 2 * k"
    moreover have "take_bit (2 * k) y = y"
      using assms(1) by (metis mod_less take_bit_eq_mod unsigned_take_bit_eq word_unat_eq_iff)
    ultimately show False using that by (metis bit_take_bit_iff)
  qed
  have "y AND msk = 0 \<longleftrightarrow> drop_bit k y = 0"
  proof
    assume z: "y AND msk = 0"
    show "drop_bit k y = 0"
    proof (rule bit_word_eqI)
      fix n assume "n < LENGTH(32)"
      have "\<not> bit (y AND msk) (k + n)" unfolding z by simp
      then show "bit (drop_bit k y) n = bit 0 n"
        using y [of "k + n"] assms(3) by (auto simp: assms(2) bit_simps)
    qed
  next
    assume d: "drop_bit k y = 0"
    show "y AND msk = 0"
    proof (rule bit_word_eqI)
      fix n assume "n < LENGTH(32)"
      have "\<not> bit (drop_bit k y) (n - k)" unfolding d by simp
      then show "bit (y AND msk) n = bit 0 n" by (auto simp: assms(2) bit_simps)
    qed
  qed
  also have "\<dots> \<longleftrightarrow> unat (drop_bit k y) = 0" by (simp add: unat_eq_0)
  also have "\<dots> \<longleftrightarrow> unat y < 2 ^ k" unfolding unat_drop by (simp add: div_eq_0_iff)
  finally show ?thesis .
qed

definition top_inv :: "u32 \<Rightarrow> nat \<Rightarrow> u32 \<times> nat \<Rightarrow> bool" where
  "top_inv x b yn \<longleftrightarrow> unat (fst yn) = unat x div 2 ^ snd yn \<and> 0 < unat (fst yn) \<and> unat (fst yn) < 2 ^ b"

lemma top_step_inv:
  assumes "top_inv x (2 * k) yn" "msk = push_bit k (mask k)" "2 * k \<le> 32"
  shows "top_inv x k (top_step msk k yn)"
proof (cases "unat (fst yn) < 2 ^ k")
  case True
  then have "fst yn AND msk = 0" using band_zero [of "fst yn" k msk] assms by (simp add: top_inv_def)
  with True assms(1) show ?thesis by (simp add: top_inv_def top_step_def)
next
  case False
  then have nz: "fst yn AND msk \<noteq> 0" using band_zero [of "fst yn" k msk] assms by (simp add: top_inv_def)
  have "unat (fst yn) < 2 ^ k * 2 ^ k" using assms(1) by (simp add: top_inv_def mult_2 power_add)
  then have "unat (fst yn) div 2 ^ k < 2 ^ k" by (rule less_mult_imp_div_less)
  moreover have "0 < unat (fst yn) div 2 ^ k" using False by (simp add: div_greater_zero_iff)
  ultimately show ?thesis
    using assms(1) nz by (simp add: top_inv_def top_step_def unat_drop power_add div_mult2_eq)
qed

lemma quot_one: "(n :: nat) div d = 1 \<Longrightarrow> d \<le> n \<and> n < 2 * d"
proof -
  assume q: "n div d = 1"
  then have d: "0 < d" by (cases "d = 0") simp_all
  have "d + n mod d = n" using div_mult_mod_eq [of n d] by (simp only: q mult_1)
  with mod_less_divisor [OF d, of n] show ?thesis by linarith
qed

lemma leading_bit:
  assumes "x \<noteq> 0"
  shows "2 ^ cvm__top_bit_u32 x \<le> unat x" "unat x < 2 ^ Suc (cvm__top_bit_u32 x)" "cvm__top_bit_u32 x < 32"
proof -
  have m: "(0xFFFF0000 :: u32) = push_bit 16 (mask 16)" "(0xFF00 :: u32) = push_bit 8 (mask 8)"
    "(0xF0 :: u32) = push_bit 4 (mask 4)" "(0xC :: u32) = push_bit 2 (mask 2)" "(2 :: u32) = push_bit 1 (mask 1)"
    by (simp_all add: mask_eq_exp_minus_1 push_bit_eq_mult)
  have "top_inv x (2 * 16) (x, 0)" using assms by (simp add: top_inv_def unat_gt_0)
  from top_step_inv [OF this m(1)] have "top_inv x (2 * 8) (top_step 0xFFFF0000 16 (x, 0))" by simp
  from top_step_inv [OF this m(2)] have "top_inv x (2 * 4) (top_step 0xFF00 8 (top_step 0xFFFF0000 16 (x, 0)))" by simp
  from top_step_inv [OF this m(3)] have "top_inv x (2 * 2) (top_step 0xF0 4 (top_step 0xFF00 8 (top_step 0xFFFF0000 16 (x, 0))))" by simp
  from top_step_inv [OF this m(4)]
  have i: "top_inv x (2 * 1) (top_step 0xC 2 (top_step 0xF0 4 (top_step 0xFF00 8 (top_step 0xFFFF0000 16 (x, 0)))))" by simp
  obtain y n where yn: "top_step 0xC 2 (top_step 0xF0 4 (top_step 0xFF00 8 (top_step 0xFFFF0000 16 (x, 0)))) = (y, n)"
    by fastforce
  have y: "unat y = unat x div 2 ^ n" "0 < unat y" "unat y < 4" using i by (simp_all add: yn top_inv_def)
  have z: "y AND 2 = 0 \<longleftrightarrow> unat y < 2" using band_zero [of y 1 2, OF _ m(5)] y(3) by simp
  have t: "cvm__top_bit_u32 x = (if unat y < 2 then n else n + 1)"
    using z by (simp add: cvm__top_bit_u32_def yn)
  have "unat x div 2 ^ cvm__top_bit_u32 x = 1"
  proof (cases "unat y < 2")
    case True
    with y(2) have "unat y = 1" by simp
    with True t y(1) show ?thesis by simp
  next
    case False
    have "unat x div 2 ^ (n + 1) = unat y div 2" unfolding y(1) by (simp add: mult.commute flip: div_mult2_eq)
    also have "\<dots> = 1" using False y(3) by simp
    finally show ?thesis using False t by simp
  qed
  from quot_one [OF this] show lo: "2 ^ cvm__top_bit_u32 x \<le> unat x" "unat x < 2 ^ Suc (cvm__top_bit_u32 x)"
    by simp_all
  have "2 ^ cvm__top_bit_u32 x < (4294967296 :: nat)" using lo(1) unat_lt32 [of x] by linarith
  then have "2 ^ cvm__top_bit_u32 x < (2 :: nat) ^ 32" by simp
  then show "cvm__top_bit_u32 x < 32" by (rule power_less_imp_less_exp [rotated]) simp
qed

section \<open>Pairs of halves\<close>

text \<open>The number two halves stand for, as the 64-bit word of \<open>Int64\<close>.\<close>

definition pair64 :: "u32 \<Rightarrow> u32 \<Rightarrow> u64" where "pair64 h l = val64 \<lparr>lo = l, hi = h\<rparr>"

lemma unat_pair64: "unat (pair64 h l) = unat h * 2 ^ 32 + unat l"
proof -
  have "int (unat (pair64 h l)) = int (unat h * 2 ^ 32 + unat l)"
    using uint_val64 [of "\<lparr>lo = l, hi = h\<rparr>"] by (simp add: pair64_def)
  then show ?thesis by (simp only: of_nat_eq_iff)
qed

lemma unat_of_nat6: "n < 64 \<Longrightarrow> unat (of_nat n :: u32) = n" "n < 64 \<Longrightarrow> (of_nat n :: u32) AND 63 = of_nat n"
proof -
  assume n: "n < 64"
  show u: "unat (of_nat n :: u32) = n" using n by (intro unat_of_nat32) simp
  have "(63 :: u32) = mask 6" by (simp add: mask_eq_exp_minus_1)
  then have "unat ((of_nat n :: u32) AND 63) = n" using n by (simp only: unat_and_mask u) simp
  then show "(of_nat n :: u32) AND 63 = of_nat n" by (simp add: word_unat_eq_iff u)
qed

text \<open>The two-halves shifts the bodies write out are the shifts of \<open>Int64\<close>.\<close>

lemma shl_pair:
  assumes "n < 64" "0 < n"
  shows "(if n \<ge> 32 then pair64 (push_bit (n - 32) l) 0
      else pair64 (push_bit n h OR drop_bit (32 - n) l) (push_bit n l)) = push_bit n (pair64 h l)"
proof -
  let ?n = "of_nat n :: u32"
  note u = unat_of_nat6 [OF assms(1)]
  have z: "?n \<noteq> 0" using assms(2) u(1) by auto
  have le: "32 \<le> ?n \<longleftrightarrow> 32 \<le> n" by (simp add: word_le_nat_alt u(1))
  have s: "32 \<le> n \<Longrightarrow> unat (?n - 32) = n - 32" using le by (simp add: unat_sub_le u(1))
  have t: "\<not> 32 \<le> n \<Longrightarrow> unat (32 - ?n) = 32 - n"
    using le by (simp add: unat_sub_le u(1) word_le_nat_alt)
  have "push_bit n (pair64 h l) = val64 (cvm_u64_shl \<lparr>lo = l, hi = h\<rparr> ?n)"
    unfolding val64_shl pair64_def u(1) using assms(1) by simp
  then show ?thesis
    using z le s t by (simp add: cvm_u64_shl_def Let_def u pair64_def)
qed

lemma shr_pair:
  assumes "n < 64" "0 < n"
  shows "(if n \<ge> 32 then pair64 0 (drop_bit (n - 32) h)
      else pair64 (drop_bit n h) (drop_bit n l OR push_bit (32 - n) h)) = drop_bit n (pair64 h l)"
proof -
  let ?n = "of_nat n :: u32"
  note u = unat_of_nat6 [OF assms(1)]
  have z: "?n \<noteq> 0" using assms(2) u(1) by auto
  have le: "32 \<le> ?n \<longleftrightarrow> 32 \<le> n" by (simp add: word_le_nat_alt u(1))
  have s: "32 \<le> n \<Longrightarrow> unat (?n - 32) = n - 32" using le by (simp add: unat_sub_le u(1))
  have t: "\<not> 32 \<le> n \<Longrightarrow> unat (32 - ?n) = 32 - n"
    using le by (simp add: unat_sub_le u(1) word_le_nat_alt)
  have "drop_bit n (pair64 h l) = val64 (cvm_u64_shr \<lparr>lo = l, hi = h\<rparr> ?n)"
    unfolding val64_shr pair64_def u(1) using assms(1) by simp
  then show ?thesis
    using z le s t by (simp add: cvm_u64_shr_def Let_def u pair64_def)
qed

lemma unat_drop64: "unat (drop_bit n w :: u64) = unat w div 2 ^ n"
proof -
  have "take_bit 64 (unat w) = unat w"
    by (rule take_bit_nat_eq_self) (use unsigned_less [of w, where 'a = nat] in simp)
  then show ?thesis by (subst unsigned_drop_bit_eq) (simp add: drop_bit_eq_div)
qed

lemma unat_push64: "unat w * 2 ^ n < 2 ^ 64 \<Longrightarrow> unat (push_bit n w :: u64) = unat w * 2 ^ n"
  by (subst unsigned_push_bit_eq) (simp add: push_bit_eq_mult take_bit_nat_eq_self)

lemma or_implicit: "unat (CVM_D_MHI x OR 0x100000) = unat (CVM_D_MHI x) + 2 ^ 20"
proof -
  have "CVM_D_MHI x OR 0x100000 = CVM_D_MHI x + push_bit 20 1"
  proof -
    have "bit (push_bit 20 1 :: u32) n \<longleftrightarrow> n = 20" for n
      by (auto simp: bit_push_bit_iff bit_1_iff simp del: push_bit_of_1)
    then have "\<not> (bit (CVM_D_MHI x) n \<and> bit (push_bit 20 1 :: u32) n)" for n
      unfolding CVM_D_MHI_def masks(2) by (simp add: bit_simps del: push_bit_of_1)
    then have "CVM_D_MHI x + push_bit 20 1 = CVM_D_MHI x OR push_bit 20 1"
      by (intro disjunctive_add) blast
    then show ?thesis by (simp add: push_bit_eq_mult)
  qed
  moreover have "unat (CVM_D_MHI x) + unat (push_bit 20 1 :: u32) < 2 ^ 32"
    using mhi_lt [of x] by (simp add: push_bit_eq_mult)
  ultimately show ?thesis by (simp add: unat_add_lt push_bit_eq_mult)
qed

definition mant64 :: "cvm_f64 \<Rightarrow> u64" where "mant64 x = pair64 (CVM_D_MHI x OR 0x100000) (d_lo x)"

lemma unat_mant64: "unat (mant64 x) = 2 ^ 52 + d_mant x"
  by (simp add: mant64_def unat_pair64 or_implicit d_mant_def algebra_simps)

lemma pack_value:
  assumes "unat s \<le> 1" "0 < unat e" "unat e < 2 ^ 11" "2 ^ 52 \<le> unat (pair64 h l)" "unat (pair64 h l) < 2 ^ 53"
  shows "d_mant (cvm_d_pack s e (h AND 0xFFFFF) l) + 2 ^ 52 = unat (pair64 h l)"
    "d_int (cvm_d_pack s e (h AND 0xFFFFF) l)
      = (if s \<noteq> 0 then - 1 else 1) * int (unat (pair64 h l) * 2 ^ (unat e - 1))"
proof -
  let ?x = "cvm_d_pack s e (h AND 0xFFFFF) l"
  note f = pack_fields [OF assms(1,3), of "h AND 0xFFFFF" l]
  have p: "unat (pair64 h l) = unat h * 2 ^ 32 + unat l" by (rule unat_pair64)
  have "unat h div 2 ^ 20 = 1"
  proof -
    have "unat h * 2 ^ 32 < 2 ^ 53" using assms(5) p by simp
    then have "unat h < 2 ^ 21" by simp
    moreover have "2 ^ 20 \<le> unat h"
    proof (rule ccontr)
      assume "\<not> 2 ^ 20 \<le> unat h"
      then have "unat h < 2 ^ 20" by simp
      from glue [OF this, of "unat l" 32] assms(4) p show False by simp
    qed
    ultimately show ?thesis by (simp add: div_nat_eqI)
  qed
  then have h: "unat h = 2 ^ 20 + unat h mod 2 ^ 20" using div_mult_mod_eq [of "unat h" "2 ^ 20"] by simp
  have "unat (CVM_D_MHI ?x) = unat h mod 2 ^ 20"
    unfolding f(3) by (simp only: masks(2) unat_and_mask mod_mod_trivial)
  then show m: "d_mant ?x + 2 ^ 52 = unat (pair64 h l)"
    unfolding p by (subst h) (simp add: d_mant_def f(4))
  have e: "d_exp ?x \<noteq> 0" using f(2) assms(2) by simp
  show "d_int ?x = (if s \<noteq> 0 then - 1 else 1) * int (unat (pair64 h l) * 2 ^ (unat e - 1))"
    unfolding d_int_def mag64_normal [OF e] f(1,2) m [symmetric] by (simp add: add.commute)
qed

section \<open>Conversions\<close>

lemma from_u32_value:
  assumes "v \<noteq> 0"
  shows "d_int (cvm_d_from_u32 v) = int (unat v) * 2 ^ 1074" "\<not> d_neg (cvm_d_from_u32 v)"
    "d_exp (cvm_d_from_u32 v) = 1023 + cvm__top_bit_u32 v"
    "d_mant (cvm_d_from_u32 v) + 2 ^ 52 = unat v * 2 ^ (52 - cvm__top_bit_u32 v)"
proof -
  let ?t = "cvm__top_bit_u32 v" let ?m = "v XOR push_bit ?t 1"
  note t = leading_bit [OF assms]
  have e: "unat (of_nat (1023 + ?t) :: u32) = 1023 + ?t" using t(3) by (intro unat_of_nat32) simp
  have m: "unat ?m + 2 ^ ?t = unat v"
  proof -
    have b: "bit v ?t"
    proof -
      have "unat v div 2 ^ ?t = 1" using t(1,2) by (simp add: div_nat_eqI)
      then have "drop_bit ?t v = 1" unfolding word_unat_eq_iff unat_drop by simp
      then show ?thesis by (simp add: bit_iff_odd_drop_bit)
    qed
    have p: "bit (push_bit ?t 1 :: u32) n \<longleftrightarrow> n = ?t" for n
      using t(3) by (auto simp: bit_push_bit_iff bit_1_iff simp del: push_bit_of_1)
    have "?m + push_bit ?t 1 = ?m OR push_bit ?t 1"
      by (rule disjunctive_add) (use b in \<open>auto simp: bit_xor_iff p simp del: push_bit_of_1\<close>)
    also have "\<dots> = v"
      by (rule bit_word_eqI) (use b in \<open>auto simp: bit_or_iff bit_xor_iff p simp del: push_bit_of_1\<close>)
    finally have eq: "?m + push_bit ?t 1 = v" .
    have pu: "unat (push_bit ?t 1 :: u32) = 2 ^ ?t"
    proof -
      have "(2 :: nat) ^ ?t \<le> 2 ^ 31" using t(3) by (intro power_increasing) simp_all
      then have "(2 :: nat) ^ ?t < 4294967296" by simp
      then show ?thesis
        using t(3) by (subst unsigned_push_bit_eq) (simp add: push_bit_eq_mult take_bit_nat_eq_self)
    qed
    have "?m = v - push_bit ?t 1" using eq by (metis add_diff_cancel_right')
    moreover have "push_bit ?t 1 \<le> v" using t(1) by (simp only: word_le_nat_alt pu)
    ultimately have "unat ?m = unat v - 2 ^ ?t" by (simp only: unat_sub_le pu)
    then show ?thesis using t(1) by simp
  qed
  obtain ml mh where pr: "(if 52 - ?t \<ge> 32 then (0, push_bit (52 - ?t - 32) ?m)
      else if 52 - ?t = 0 then (?m, 0) else (push_bit (52 - ?t) ?m, drop_bit (32 - (52 - ?t)) ?m)) = (ml, mh)"
    by fastforce
  have sh: "0 < 52 - ?t" "52 - ?t < 64" using t(3) by simp_all
  have pm: "pair64 mh ml = push_bit (52 - ?t) (pair64 0 ?m)"
    unfolding shl_pair [OF sh(2,1), of ?m 0, symmetric] using pr sh(1) by (auto split: if_splits)
  have mlt: "unat ?m < 2 ^ ?t" using m t(2) by simp
  have "unat (pair64 0 ?m) * 2 ^ (52 - ?t) = unat ?m * 2 ^ (52 - ?t)" by (simp add: unat_pair64)
  also have "\<dots> < 2 ^ ?t * 2 ^ (52 - ?t)" using mlt by simp
  also have "\<dots> = 2 ^ 52" using t(3) by (simp flip: power_add)
  finally have b: "unat (pair64 0 ?m) * 2 ^ (52 - ?t) < 2 ^ 52" .
  then have um: "unat (pair64 mh ml) = unat ?m * 2 ^ (52 - ?t)"
    unfolding pm by (subst unat_push64) (simp_all add: unat_pair64)
  have mh: "unat mh < 2 ^ 20"
  proof -
    have "unat mh * 2 ^ 32 < 2 ^ 52" using um b by (simp add: unat_pair64)
    then show ?thesis by simp
  qed
  have x: "cvm_d_from_u32 v = cvm_d_pack 0 (of_nat (1023 + ?t)) (mh AND 0xFFFFF) ml"
    using assms pr by (simp add: cvm_d_from_u32_def Let_def split: prod.splits if_splits)
  have s0: "unat (0 :: u32) \<le> 1" by simp
  have e11: "unat (of_nat (1023 + ?t) :: u32) < 2 ^ 11" unfolding e using t(3) by simp
  note f = pack_fields [OF s0 e11, of "mh AND 0xFFFFF" ml, folded x]
  show "\<not> d_neg (cvm_d_from_u32 v)" using f(1) by simp
  then have pos: "d_int (cvm_d_from_u32 v) = int (mag64 (d_mag (cvm_d_from_u32 v)))" by (simp add: d_int_def)
  show ex: "d_exp (cvm_d_from_u32 v) = 1023 + ?t" using f(2) e by simp
  have "unat (CVM_D_MHI (cvm_d_from_u32 v)) = unat mh"
    unfolding f(3) using mh by (simp only: masks(2) unat_and_mask) simp
  then have "d_mant (cvm_d_from_u32 v) = unat ?m * 2 ^ (52 - ?t)"
    using um by (simp add: d_mant_def f(4) unat_pair64)
  then have "d_mant (cvm_d_from_u32 v) + 2 ^ ?t * 2 ^ (52 - ?t) = unat v * 2 ^ (52 - ?t)"
    unfolding m [symmetric] by (simp only: distrib_right)
  then show mv: "d_mant (cvm_d_from_u32 v) + 2 ^ 52 = unat v * 2 ^ (52 - ?t)"
    using t(3) by (simp flip: power_add)
  have "mag64 (d_mag (cvm_d_from_u32 v)) = unat v * 2 ^ (52 - ?t) * 2 ^ (1022 + ?t)"
    using ex mv by (subst mag64_normal) (simp_all add: add.commute)
  also have "\<dots> = unat v * 2 ^ 1074" using t(3) by (simp only: mult.assoc power_add [symmetric]) simp
  finally show "d_int (cvm_d_from_u32 v) = int (unat v) * 2 ^ 1074" unfolding pos by (simp only: of_nat_mult of_nat_power of_nat_numeral)
qed

lemma d_int_set_sign:
  assumes "\<not> d_neg x" "y = x\<lparr>d_hi := d_hi x OR 0x80000000\<rparr> \<or> y = cvm_d_neg x"
  shows "d_int y = - d_int x" "d_mag y = d_mag x" "d_neg y"
proof -
  have "(0x80000000 :: u32) = push_bit 31 1" by (simp add: push_bit_eq_mult)
  then have top: "bit (0x80000000 :: u32) n \<longleftrightarrow> n = 31" for n
    by (simp only: bit_push_bit_iff bit_1_iff) auto
  have nb: "\<not> bit (d_hi x) 31"
  proof
    assume "bit (d_hi x) 31"
    then have "CVM_D_SIGN x \<noteq> 0"
      by (auto simp: CVM_D_SIGN_def and_one_eq bit_iff_odd_drop_bit even_iff_mod_2_eq_zero)
    with assms(1) show False by (simp add: d_neg_def)
  qed
  have x: "d_hi x XOR 0x80000000 = d_hi x OR 0x80000000"
    by (rule bit_word_eqI, simp only: bit_xor_iff bit_or_iff top) (use nb in auto)
  then have y: "d_hi y = d_hi x OR 0x80000000" "d_lo y = d_lo x"
    using assms(2) by (auto simp: cvm_d_neg_def)
  have lt: "unat (d_hi x) < 2 ^ 31"
    using assms(1) field_nat(1) [of x] by (simp add: d_neg_def div_eq_0_iff)
  have "d_hi x OR 0x80000000 = d_hi x + 0x80000000"
    by (rule disjunctive_add [symmetric]) (use nb in \<open>auto simp only: top\<close>)
  then have h: "unat (d_hi y) = unat (d_hi x) + 2 ^ 31"
    using lt by (simp add: y unat_add_lt)
  have ex: "(a + 2 ^ 31) div 2 ^ 20 mod 2 ^ 11 = a div 2 ^ 20 mod 2 ^ 11" "(a + 2 ^ 31) mod 2 ^ 20 = a mod 2 ^ 20" for a :: nat
  proof -
    have e: "a + 2 ^ 31 = a + 2 ^ 20 * 2 ^ 11" by simp
    have "(a + 2 ^ 20 * 2 ^ 11) div 2 ^ 20 = 2 ^ 11 + a div 2 ^ 20" by (rule div_mult_self2) simp
    then show "(a + 2 ^ 31) div 2 ^ 20 mod 2 ^ 11 = a div 2 ^ 20 mod 2 ^ 11" "(a + 2 ^ 31) mod 2 ^ 20 = a mod 2 ^ 20"
      unfolding e by (simp_all only: mod_mult_self2 mod_add_self1)
  qed
  show m: "d_mag y = d_mag x"
    unfolding d_mag_def d_exp_def d_mant_def field_nat h y(2) ex ..
  have "unat (CVM_D_SIGN y) = 1" unfolding field_nat h using lt by simp
  then show n: "d_neg y" by (auto simp: d_neg_def)
  show "d_int y = - d_int x" using assms(1) n m by (simp add: d_int_def)
qed

lemma from_i32_value: "d_int (cvm_d_from_i32 v) = sint v * 2 ^ 1074" "\<not> cvm_d_isnan (cvm_d_from_i32 v)"
proof -
  have "d_int (cvm_d_from_i32 v) = sint v * 2 ^ 1074 \<and> d_exp (cvm_d_from_i32 v) < 2047"
  proof (cases "v = 0")
    case True
    then show ?thesis
      by (simp add: cvm_d_from_i32_def CVM_D_ZERO_def d_int_def d_mag_def d_exp_def d_mant_def CVM_D_EXP_def CVM_D_MHI_def)
  next
    case nz: False
    let ?neg = "sint v < 0" and ?mag = "if sint v < 0 then NOT v + 1 else v"
    have mag: "?mag \<noteq> 0" using nz by (auto simp: minus_eq_not_plus_1 [symmetric])
    have u: "int (unat ?mag) = \<bar>sint v\<bar>"
    proof (cases ?neg)
      case True
      have "NOT v + 1 = - v" by (simp add: minus_eq_not_plus_1)
      moreover have "uint (- v) = 2 ^ 32 - uint v"
        using nz uint32_range [of v] by (simp add: uint_word_ariths zmod_zminus1_eq_if word_uint_eq_iff)
      moreover have "sint v = uint v - 2 ^ 32" using True uint32_range [of v] by (simp add: sint_bit split: if_splits)
      ultimately show ?thesis using True by simp
    next
      case False
      then have "sint v = uint v" using uint32_range [of v] by (simp add: sint_bit split: if_splits)
      with False show ?thesis by simp
    qed
    note fv = from_u32_value [OF mag]
    have e: "d_exp (cvm_d_from_u32 ?mag) < 2047" unfolding fv(3) using leading_bit(3) [OF mag] by simp
    let ?r = "cvm_d_from_u32 ?mag"
    show ?thesis
    proof (cases ?neg)
      case True
      let ?y = "?r\<lparr>d_hi := d_hi ?r OR 0x80000000\<rparr>"
      have y: "cvm_d_from_i32 v = ?y" using nz True by (simp add: cvm_d_from_i32_def Let_def)
      note sg = d_int_set_sign [OF fv(2), of ?y]
      have "d_exp ?y = d_mag ?y div 2 ^ 52" "d_exp ?r = d_mag ?r div 2 ^ 52"
        using field_bounds(2) [of ?y] field_bounds(2) [of ?r] by (simp_all add: d_mag_def)
      with sg e have "d_exp ?y < 2047" by simp
      moreover have "d_int ?y = sint v * 2 ^ 1074" using sg fv(1) u True by simp
      ultimately show ?thesis unfolding y by blast
    next
      case False
      then have "cvm_d_from_i32 v = ?r" using nz by (simp add: cvm_d_from_i32_def Let_def)
      with False fv(1) u e show ?thesis by simp
    qed
  qed
  then show "d_int (cvm_d_from_i32 v) = sint v * 2 ^ 1074" "\<not> cvm_d_isnan (cvm_d_from_i32 v)"
    by (simp_all add: nan_inf_zero)
qed

end
