(* ===== verification/Float64_Theorems.thy ===== *)
theory Float64_Theorems
  imports Float64_Correct
begin

text \<open>
  The float-to-integer conversions of \<open>cvm_float64.h\<close>, and the conversion property.
\<close>

section \<open>Integer parts\<close>

lemma sint32: "sint (w :: u32) = (if uint w < 2 ^ 31 then uint w else uint w - 2 ^ 32)"
  using sint_bit [of w] sint_ge [of w] sint_lt [of w] by (cases "bit w 31") (simp_all)

definition int_mag :: "cvm_f64 \<Rightarrow> nat" where "int_mag x = mag64 (d_mag x) div 2 ^ 1074"

definition d_trunc :: "cvm_f64 \<Rightarrow> int" where "d_trunc x = d_int x sdiv 2 ^ 1074"

lemma d_int_trunc: "d_trunc x = (if d_neg x then - int (int_mag x) else int (int_mag x))"
  by (simp add: d_trunc_def d_int_def int_mag_def signed_divide_int_def zdiv_int sgn_if)

lemma int_mag_small:
  assumes "d_exp x < 1023"
  shows "int_mag x = 0"
proof (cases "d_exp x = 0")
  case True
  have "mag64 (d_mag x) < 2 ^ 52" using mag64_subnormal [OF True] field_bounds(2) [of x] by simp
  also have "(2 :: nat) ^ 52 \<le> 2 ^ 1074" by (rule power_increasing) simp_all
  finally show ?thesis unfolding int_mag_def by (rule div_less)
next
  case False
  have "mag64 (d_mag x) < 2 ^ 53 * 2 ^ (d_exp x - 1)"
    unfolding mag64_normal [OF False] using field_bounds(2) [of x] by (intro mult_strict_right_mono) simp_all
  also have "\<dots> = 2 ^ (53 + (d_exp x - 1))" by (rule power_add [symmetric])
  also have "\<dots> \<le> 2 ^ 1074" using assms by (intro power_increasing) simp_all
  finally show ?thesis unfolding int_mag_def by (rule div_less)
qed

lemma int_mag_mid:
  assumes "1023 \<le> d_exp x" "d_exp x \<le> 1075"
  shows "int_mag x = unat (mant64 x) div 2 ^ (1075 - d_exp x)"
proof -
  have "d_exp x \<noteq> 0" using assms by simp
  then have "int_mag x = (2 ^ 52 + d_mant x) * 2 ^ (d_exp x - 1) div 2 ^ 1074"
    unfolding int_mag_def by (subst mag64_normal) simp_all
  also have "(2 :: nat) ^ 1074 = 2 ^ (1075 - d_exp x) * 2 ^ (d_exp x - 1)"
    unfolding power_add [symmetric] using assms by (intro arg_cong [where f = "power 2"]) simp
  also have "(2 ^ 52 + d_mant x) * 2 ^ (d_exp x - 1) div (2 ^ (1075 - d_exp x) * 2 ^ (d_exp x - 1))
      = (2 ^ 52 + d_mant x) div 2 ^ (1075 - d_exp x)"
    by (rule div_mult_mult2) simp
  finally show ?thesis unfolding unat_mant64 .
qed

lemma int_mag_large:
  assumes "1023 + k \<le> d_exp x"
  shows "2 ^ k \<le> int_mag x"
proof -
  have nz: "d_exp x \<noteq> 0" using assms by simp
  have "(2 :: nat) ^ k * 2 ^ 1074 = 2 ^ (k + 1074)" by (rule power_add [symmetric])
  also have "\<dots> \<le> 2 ^ (52 + (d_exp x - 1))" using assms by (intro power_increasing) simp_all
  also have "\<dots> = 2 ^ 52 * 2 ^ (d_exp x - 1)" by (rule power_add)
  also have "\<dots> \<le> mag64 (d_mag x)" unfolding mag64_normal [OF nz] by (intro mult_right_mono) simp_all
  finally have "2 ^ k * 2 ^ 1074 div 2 ^ 1074 \<le> int_mag x" unfolding int_mag_def by (rule div_le_mono)
  moreover have "(2 :: nat) ^ k * 2 ^ 1074 div 2 ^ 1074 = 2 ^ k" by (rule nonzero_mult_div_cancel_right) simp
  ultimately show ?thesis by (simp only:)
qed

lemma int_mag_bound:
  assumes "d_exp x < 1023 + k" "k \<le> 52"
  shows "int_mag x < 2 ^ k"
proof (cases "d_exp x < 1023")
  case True
  then show ?thesis by (simp add: int_mag_small)
next
  case False
  have "unat (mant64 x) < 2 ^ 53" unfolding unat_mant64 using field_bounds(2) [of x] by simp
  also have "(2 :: nat) ^ 53 \<le> 2 ^ (k + (1075 - d_exp x))"
    using False assms by (intro power_increasing) simp_all
  also have "\<dots> = 2 ^ k * 2 ^ (1075 - d_exp x)" by (rule power_add)
  finally have "unat (mant64 x) div 2 ^ (1075 - d_exp x) < 2 ^ k" by (rule less_mult_imp_div_less)
  then show ?thesis using int_mag_mid [of x] False assms by simp
qed

lemma int_part_value:
  assumes "1023 \<le> d_exp x" "d_exp x < 1023 + 32"
  shows "unat (int_part (CVM_D_MHI x OR 0x100000) (d_lo x) (1075 - d_exp x)) = int_mag x"
proof -
  let ?n = "1075 - d_exp x" let ?h = "CVM_D_MHI x OR 0x100000"
  let ?p = "int_part ?h (d_lo x) ?n"
  have n: "?n < 64" "0 < ?n" using assms by simp_all
  have "\<exists>h. pair64 h ?p = drop_bit ?n (mant64 x)"
    unfolding mant64_def shr_pair [OF n, symmetric] int_part_def
    by (cases "32 \<le> ?n") (auto simp: or.commute)
  then obtain h where "unat (pair64 h ?p) = unat (mant64 x) div 2 ^ ?n" using unat_drop64 by metis
  then have v: "unat h * 2 ^ 32 + unat ?p = int_mag x" using int_mag_mid [of x] assms by (simp add: unat_pair64)
  with int_mag_bound [of x 32] assms have "unat h * 2 ^ 32 < 2 ^ 32" by simp
  then have "unat h = 0" by simp
  with v show ?thesis by simp
qed

lemma sint_exp: "sint (CVM_D_EXP x) = int (d_exp x)"
proof -
  have "uint (CVM_D_EXP x) = int (d_exp x)" by (simp add: d_exp_def)
  then show ?thesis using field_bounds(1) [of x] by (simp add: sint32)
qed

lemma to_u32_value:
  "uint (cvm_d_to_u32 x)
    = (if cvm_d_isnan x then 0 else max 0 (min (2 ^ 32 - 1) (d_trunc x)))"
proof -
  consider "cvm_d_isnan x \<or> d_neg x" | "\<not> cvm_d_isnan x" "\<not> d_neg x" "d_exp x < 1023"
    | "\<not> cvm_d_isnan x" "\<not> d_neg x" "1023 \<le> d_exp x" "d_exp x < 1023 + 32"
    | "\<not> cvm_d_isnan x" "\<not> d_neg x" "1023 + 32 \<le> d_exp x" by linarith
  then show ?thesis
  proof cases
    case 1
    then show ?thesis by (auto simp: cvm_d_to_u32_def d_neg_def [symmetric] d_int_trunc)
  next
    case 2
    then show ?thesis
      by (simp add: cvm_d_to_u32_def d_neg_def [symmetric] d_int_trunc int_mag_small sint_exp Let_def)
  next
    case 3
    have z: "CVM_D_EXP x \<noteq> 0" using 3 by (auto simp: d_exp_def)
    have e: "nat (1075 - int (d_exp x)) = 1075 - d_exp x" using 3 by simp
    have "cvm_d_to_u32 x = int_part (CVM_D_MHI x OR 0x100000) (d_lo x) (1075 - d_exp x)"
      using 3 z by (simp add: cvm_d_to_u32_def d_neg_def [symmetric] sint_exp Let_def e)
    then have "uint (cvm_d_to_u32 x) = int (int_mag x)" using int_part_value 3 by (metis uint_nat)
    with int_mag_bound [of x 32] 3 show ?thesis by (simp add: d_int_trunc)
  next
    case 4
    have z: "CVM_D_EXP x \<noteq> 0" using 4 by (auto simp: d_exp_def)
    have "cvm_d_to_u32 x = 0xFFFFFFFF"
      using 4 z by (simp add: cvm_d_to_u32_def d_neg_def [symmetric] sint_exp Let_def)
    moreover have "2 ^ 32 \<le> int_mag x" using 4 by (intro int_mag_large) simp
    ultimately show ?thesis using 4 by (simp add: d_int_trunc)
  qed
qed

lemma sint_word_small: "uint (w :: u32) < 2 ^ 31 \<Longrightarrow> sint w = uint w" "uint (w :: u32) < 2 ^ 31 \<Longrightarrow> sint (- w) = - uint w"
proof -
  assume w: "uint w < 2 ^ 31"
  then show "sint w = uint w" by (simp add: sint32)
  show "sint (- w) = - uint w"
  proof (cases "w = 0")
    case False
    then have "uint (- w) = 2 ^ 32 - uint w"
      using uint32_range [of w] by (simp add: uint_word_ariths zmod_zminus1_eq_if word_uint_eq_iff)
    then show ?thesis using w uint32_range [of w] False by (simp add: sint32 word_uint_eq_iff)
  qed simp
qed

lemma to_i32_value:
  "sint (cvm_d_to_i32 x)
    = (if cvm_d_isnan x then 0 else max (- (2 ^ 31)) (min (2 ^ 31 - 1) (d_trunc x)))"
proof -
  consider "cvm_d_isnan x" | "\<not> cvm_d_isnan x" "d_exp x < 1023"
    | "\<not> cvm_d_isnan x" "1023 \<le> d_exp x" "d_exp x < 1023 + 31"
    | "\<not> cvm_d_isnan x" "1023 + 31 \<le> d_exp x" by linarith
  then show ?thesis
  proof cases
    case 1
    then show ?thesis by (simp add: cvm_d_to_i32_def)
  next
    case 2
    then show ?thesis
      by (simp add: cvm_d_to_i32_def d_int_trunc int_mag_small sint_exp Let_def)
  next
    case 3
    let ?p = "int_part (CVM_D_MHI x OR 0x100000) (d_lo x) (1075 - d_exp x)"
    have z: "CVM_D_EXP x \<noteq> 0" using 3 by (auto simp: d_exp_def)
    have e: "nat (1075 - int (d_exp x)) = 1075 - d_exp x" using 3 by simp
    have r: "cvm_d_to_i32 x = (if d_neg x then - ?p else ?p)"
      using 3 z by (simp add: cvm_d_to_i32_def d_neg_def [symmetric] sint_exp Let_def e)
    have u: "uint ?p = int (int_mag x)" using int_part_value [of x] 3 by (simp add: uint_nat)
    have "int_mag x < 2 ^ 31" using int_mag_bound [of x 31] 3 by simp
    with u sint_word_small [of ?p] show ?thesis unfolding r d_int_trunc using 3 by simp
  next
    case 4
    have z: "CVM_D_EXP x \<noteq> 0" using 4 by (auto simp: d_exp_def)
    have "cvm_d_to_i32 x = (if d_neg x then 0x80000000 else 0x7FFFFFFF)"
      using 4 z by (simp add: cvm_d_to_i32_def d_neg_def [symmetric] sint_exp Let_def)
    moreover have "2 ^ 31 \<le> int_mag x" using 4 by (intro int_mag_large) simp
    ultimately show ?thesis using 4 by (simp add: d_int_trunc)
  qed
qed

text \<open>C29. Every 32-bit integer converts to a double exactly, and a double converts back to the
  integer it truncates to, saturated at the ends of the range; NaN converts to 0.\<close>

theorem float64_int_conversions:
  "\<not> cvm_d_isnan (cvm_d_from_i32 v) \<and> d_int (cvm_d_from_i32 v) = sint v * 2 ^ 1074 \<and>
   \<not> cvm_d_isnan (cvm_d_from_u32 v) \<and> d_int (cvm_d_from_u32 v) = uint v * 2 ^ 1074 \<and>
   sint (cvm_d_to_i32 x)
    = (if cvm_d_isnan x then 0 else max (- (2 ^ 31)) (min (2 ^ 31 - 1) (d_int x sdiv 2 ^ 1074))) \<and>
   uint (cvm_d_to_u32 x)
    = (if cvm_d_isnan x then 0 else max 0 (min (2 ^ 32 - 1) (d_int x sdiv 2 ^ 1074)))"
proof -
  have i: "\<not> cvm_d_isnan (cvm_d_from_i32 v) \<and> d_int (cvm_d_from_i32 v) = sint v * 2 ^ 1074"
    using from_i32_value by blast
  have u: "\<not> cvm_d_isnan (cvm_d_from_u32 v) \<and> d_int (cvm_d_from_u32 v) = uint v * 2 ^ 1074"
  proof (cases "v = 0")
    case True
    have "cvm_d_from_u32 0 = CVM_D_ZERO" by (simp add: cvm_d_from_u32_def)
    moreover have "d_exp CVM_D_ZERO = 0" "d_mag CVM_D_ZERO = 0"
      by (simp_all add: CVM_D_ZERO_def d_mag_def d_exp_def d_mant_def CVM_D_EXP_def CVM_D_MHI_def)
    ultimately show ?thesis unfolding True by (simp add: d_int_def nan_inf_zero(1))
  next
    case False
    have "d_exp (cvm_d_from_u32 v) \<noteq> 2047" using from_u32_value(3) [OF False] leading_bit(3) [OF False] by simp
    moreover have "d_int (cvm_d_from_u32 v) = uint v * 2 ^ 1074"
      using from_u32_value(1) [OF False] by (simp only: of_nat_unat)
    ultimately show ?thesis by (simp only: nan_inf_zero(1)) blast
  qed
  show ?thesis using i u to_i32_value [of x] to_u32_value [of x] unfolding d_trunc_def by (intro conjI) blast+
qed

end
