(* ===== verification/Float64_Arith.thy ===== *)
theory Float64_Arith
  imports Float64_Theorems
begin

text \<open>
  The arithmetic of \<open>cvm_float64.h\<close> on normal numbers, against exact arithmetic on the values.
\<close>

definition d_normal :: "cvm_f64 \<Rightarrow> bool" where "d_normal x \<longleftrightarrow> d_exp x \<noteq> 0 \<and> d_exp x \<noteq> 2047"

definition d_abs :: "cvm_f64 \<Rightarrow> nat" where "d_abs x = mag64 (d_mag x)"

lemma abs_d_int: "\<bar>d_int x\<bar> = int (d_abs x)"
  by (simp add: d_int_def d_abs_def)

lemma d_abs_normal: "d_exp x \<noteq> 0 \<Longrightarrow> d_abs x = unat (mant64 x) * 2 ^ (d_exp x - 1)"
  unfolding d_abs_def unat_mant64 by (rule mag64_normal)

lemma normal_flags: "d_normal x \<Longrightarrow> \<not> cvm_d_isnan x" "d_normal x \<Longrightarrow> \<not> cvm_d_isinf x" "d_normal x \<Longrightarrow> \<not> cvm_d_iszero x"
  by (auto simp: nan_inf_zero d_normal_def d_mag_def)

lemma mant64_range: "2 ^ 52 \<le> unat (mant64 x)" "unat (mant64 x) < 2 ^ 53"
  unfolding unat_mant64 using field_bounds(2) [of x] by simp_all

lemma sign_xor:
  "unat (CVM_D_SIGN a XOR CVM_D_SIGN b) \<le> 1" "CVM_D_SIGN a XOR CVM_D_SIGN b \<noteq> 0 \<longleftrightarrow> d_neg a \<noteq> d_neg b"
proof -
  have s: "CVM_D_SIGN x = 0 \<or> CVM_D_SIGN x = 1" for x
  proof -
    have "unat (CVM_D_SIGN x) < 2" unfolding field_nat by (rule less_mult_imp_div_less) simp
    then show ?thesis by (auto simp: word_unat_eq_iff less_2_cases_iff)
  qed
  from s [of a] s [of b] show "unat (CVM_D_SIGN a XOR CVM_D_SIGN b) \<le> 1"
    "CVM_D_SIGN a XOR CVM_D_SIGN b \<noteq> 0 \<longleftrightarrow> d_neg a \<noteq> d_neg b"
    by (auto simp: d_neg_def)
qed

lemma low_shr:
  assumes "0 < n" "n < 32"
  shows "unat (drop_bit n l OR push_bit (32 - n) h :: u32) = (unat h * 2 ^ 32 + unat l) div 2 ^ n mod 2 ^ 32"
proof -
  have "pair64 (drop_bit n h) (drop_bit n l OR push_bit (32 - n) h) = drop_bit n (pair64 h l)"
    using shr_pair [of n h l] assms by simp
  then have "unat (drop_bit n h) * 2 ^ 32 + unat (drop_bit n l OR push_bit (32 - n) h)
      = (unat h * 2 ^ 32 + unat l) div 2 ^ n"
    by (metis unat_pair64 unat_drop64)
  then have "(unat h * 2 ^ 32 + unat l) div 2 ^ n mod 2 ^ 32 = unat (drop_bit n l OR push_bit (32 - n) h) mod 2 ^ 32"
    by (metis mod_mult_self3)
  then show ?thesis using unat_lt32 [of "drop_bit n l OR push_bit (32 - n) h"] by simp
qed

section \<open>The product\<close>

lemma uint_carry32: "uint (carry32 p) = (if p then 1 else 0)"
  by (simp add: carry32_def)

lemma partial_product: "uint (x * y) + uint (cvm_mulhu x y) * 2 ^ 32 = uint x * uint y"
  unfolding uint_mulhu by (simp add: uint_word_ariths)

lemma bit_sums:
  "uint (carry32 p + carry32 q) = uint (carry32 p) + uint (carry32 q)"
  "uint (carry32 p + carry32 q + carry32 r) = uint (carry32 p) + uint (carry32 q) + uint (carry32 r)"
  by (simp_all add: carry32_def)

lemma add_carry32: "uint ((x :: u32) + y) = uint x + uint y - 2 ^ 32 * uint (carry32 (x + y < x))"
  unfolding uint_carry32 using add_carry(1) [of x y] by (cases "x + y < x") simp_all

lemma wide_product_exact:
  assumes "wide_product ah al bh bl = (w3, w2, w1, w0)"
  shows "uint w3 * 2 ^ 96 + uint w2 * 2 ^ 64 + uint w1 * 2 ^ 32 + uint w0
    = (uint ah * 2 ^ 32 + uint al) * (uint bh * 2 ^ 32 + uint bl)"
proof -
  let ?h = cvm_mulhu
  define s1a where "s1a = ?h al bl + al * bh"
  define s2a where "s2a = ?h al bh + ?h ah bl"
  define s2b where "s2b = s2a + ah * bh"
  define c1 where "c1 = carry32 (s1a < ?h al bl) + carry32 (w1 < s1a)"
  define c2 where "c2 = carry32 (s2a < ?h al bh) + carry32 (s2b < s2a) + carry32 (w2 < s2b)"
  have w: "w0 = al * bl" "w1 = s1a + ah * bl" "w2 = s2b + c1" "w3 = ?h ah bh + c2"
    using assms by (auto simp: wide_product_def Let_def s1a_def s2a_def s2b_def c1_def c2_def)
  note p = partial_product [of al bl] partial_product [of al bh] partial_product [of ah bl] partial_product [of ah bh]
  have "uint s1a = uint (?h al bl) + uint (al * bh) - 2 ^ 32 * uint (carry32 (s1a < ?h al bl))"
    "uint w1 = uint s1a + uint (ah * bl) - 2 ^ 32 * uint (carry32 (w1 < s1a))"
    "uint s2a = uint (?h al bh) + uint (?h ah bl) - 2 ^ 32 * uint (carry32 (s2a < ?h al bh))"
    "uint s2b = uint s2a + uint (ah * bh) - 2 ^ 32 * uint (carry32 (s2b < s2a))"
    "uint w2 = uint s2b + uint c1 - 2 ^ 32 * uint (carry32 (w2 < s2b))"
    "uint w3 = uint (?h ah bh) + uint c2 - 2 ^ 32 * uint (carry32 (w3 < ?h ah bh))"
    unfolding w(2-4) s1a_def s2a_def s2b_def by (rule add_carry32)+
  then have t: "uint w3 * 2 ^ 96 + uint w2 * 2 ^ 64 + uint w1 * 2 ^ 32 + uint w0 + 2 ^ 128 * uint (carry32 (w3 < ?h ah bh))
      = uint ah * uint bh * 2 ^ 64 + (uint ah * uint bl + uint al * uint bh) * 2 ^ 32 + uint al * uint bl"
    unfolding p [symmetric] w(1) c1_def c2_def bit_sums by (simp add: algebra_simps)
  define X where "X = uint ah * 2 ^ 32 + uint al"
  define Y where "Y = uint bh * 2 ^ 32 + uint bl"
  have "0 \<le> X" "X \<le> 2 ^ 64 - 1" "0 \<le> Y" "Y \<le> 2 ^ 64 - 1"
    unfolding X_def Y_def using uint32_range [of ah] uint32_range [of al] uint32_range [of bh] uint32_range [of bl]
    by simp_all
  then have "X * Y \<le> (2 ^ 64 - 1) * (2 ^ 64 - 1)" by (intro mult_mono) simp_all
  also have "\<dots> < 2 ^ 128" by simp
  finally have lt: "X * Y < 2 ^ 128" .
  have xy: "X * Y = uint ah * uint bh * 2 ^ 64 + (uint ah * uint bl + uint al * uint bh) * 2 ^ 32 + uint al * uint bl"
    unfolding X_def Y_def by (simp add: algebra_simps)
  define S where "S = uint w3 * 2 ^ 96 + uint w2 * 2 ^ 64 + uint w1 * 2 ^ 32 + uint w0"
  have "0 \<le> S" by (simp add: S_def)
  moreover from t have e: "S + 2 ^ 128 * uint (carry32 (w3 < ?h ah bh)) = X * Y" unfolding S_def xy .
  ultimately have "\<not> w3 < ?h ah bh" using lt by (intro notI) (simp add: uint_carry32)
  with e show ?thesis unfolding S_def X_def Y_def by (simp add: uint_carry32)
qed

lemma wide_mantissa_product:
  assumes "wide_product (CVM_D_MHI a OR 0x100000) (d_lo a) (CVM_D_MHI b OR 0x100000) (d_lo b) = (w3, w2, w1, w0)"
  shows "unat w3 * 2 ^ 96 + unat w2 * 2 ^ 64 + unat w1 * 2 ^ 32 + unat w0 = unat (mant64 a) * unat (mant64 b)"
proof -
  have "int (unat w3 * 2 ^ 96 + unat w2 * 2 ^ 64 + unat w1 * 2 ^ 32 + unat w0) = int (unat (mant64 a) * unat (mant64 b))"
    using wide_product_exact [OF assms] by (simp add: mant64_def unat_pair64)
  then show ?thesis by (simp only: of_nat_eq_iff)
qed

text \<open>The words of a number below \<open>2^106\<close>, shifted down by \<open>52\<close> or \<open>53\<close>.\<close>

lemma extract_mantissa:
  fixes w0 :: u32
  assumes M: "unat w3 * 2 ^ 96 + unat w2 * 2 ^ 64 + unat w1 * 2 ^ 32 + unat w0 = M" "M < 2 ^ 106"
    and s: "20 \<le> s" "s < 32"
  shows "unat (pair64 (push_bit (32 - s) w3 OR drop_bit s w2) (push_bit (32 - s) w2 OR drop_bit s w1)) = M div 2 ^ (32 + s)"
proof -
  have lt: "unat w < 2 ^ 32" for w :: u32 using unat_lt32 [of w] by simp
  have d1: "M div 2 ^ 32 = unat w3 * 2 ^ 64 + unat w2 * 2 ^ 32 + unat w1"
    unfolding M(1) [symmetric] by (rule div_nat_eqI) (use lt [of w0] in simp_all)
  have d2: "M div 2 ^ 64 = unat w3 * 2 ^ 32 + unat w2"
  proof -
    have "M div 2 ^ 64 = M div 2 ^ 32 div 2 ^ 32" by (simp flip: div_mult2_eq)
    also have "\<dots> = unat w3 * 2 ^ 32 + unat w2"
      unfolding d1 by (rule div_nat_eqI) (use lt [of w1] in simp_all)
    finally show ?thesis .
  qed
  define Q where "Q = M div 2 ^ (32 + s)"
  have "Q = M div 2 ^ 32 div 2 ^ s" unfolding Q_def power_add by (rule div_mult2_eq)
  also have "\<dots> = (unat w3 * 2 ^ 32 * 2 ^ 32 + (unat w2 * 2 ^ 32 + unat w1)) div 2 ^ s" unfolding d1 by (simp add: algebra_simps)
  also have "unat w3 * 2 ^ 32 * 2 ^ 32 = unat w3 * 2 ^ (32 - s) * 2 ^ 32 * 2 ^ s"
    using s by (simp flip: power_add add: mult.assoc mult.left_commute [of "2 ^ 32"])
  also have "(unat w3 * 2 ^ (32 - s) * 2 ^ 32 * 2 ^ s + (unat w2 * 2 ^ 32 + unat w1)) div 2 ^ s
      = unat w3 * 2 ^ (32 - s) * 2 ^ 32 + (unat w2 * 2 ^ 32 + unat w1) div 2 ^ s"
    by (rule div_mult_self3) simp
  finally have q: "Q = unat w3 * 2 ^ (32 - s) * 2 ^ 32 + (unat w2 * 2 ^ 32 + unat w1) div 2 ^ s" .
  have "unat (push_bit (32 - s) w2 OR drop_bit s w1) = Q mod 2 ^ 32"
    unfolding q using low_shr [of s w1 w2] s by (simp add: or.commute)
  moreover have "unat (push_bit (32 - s) w3 OR drop_bit s w2) = Q div 2 ^ 32"
  proof -
    have "Q div 2 ^ 32 = M div 2 ^ 64 div 2 ^ s"
      unfolding Q_def power_add by (simp flip: div_mult2_eq add: mult_ac)
    moreover have "M div 2 ^ 64 div 2 ^ s < 2 ^ 32"
    proof -
      have "M < 2 ^ 32 * (2 ^ 64 * 2 ^ s)"
      proof -
        have "(2 :: nat) ^ 106 \<le> 2 ^ (32 + (64 + s))" using s by (intro power_increasing) simp_all
        with M(2) show ?thesis unfolding power_add by linarith
      qed
      then show ?thesis unfolding div_mult2_eq [symmetric] by (rule less_mult_imp_div_less)
    qed
    moreover have "unat (push_bit (32 - s) w3 OR drop_bit s w2) = M div 2 ^ 64 div 2 ^ s mod 2 ^ 32"
      unfolding d2 using low_shr [of s w2 w3] s by (simp add: or.commute)
    ultimately show ?thesis by simp
  qed
  ultimately show ?thesis unfolding unat_pair64 Q_def [symmetric] by (simp only: div_mult_mod_eq)
qed

lemma unat_of_exp: "0 < re \<Longrightarrow> re < 2047 \<Longrightarrow> unat (of_int re :: u32) = nat re"
proof -
  assume "0 < re" "re < 2047"
  then have "uint (of_int re :: u32) = re" by (simp add: unsigned_of_int take_bit_int_eq_self)
  then show "unat (of_int re :: u32) = nat re" by (metis unat_eq_nat_uint)
qed

lemma pack_normal:
  assumes "unat s \<le> 1" "0 < re" "re < 2047" "2 ^ 52 \<le> unat (pair64 h l)" "unat (pair64 h l) < 2 ^ 53"
  shows "d_exp (cvm_d_pack s (of_int re) (h AND 0xFFFFF) l) = nat re"
    "d_neg (cvm_d_pack s (of_int re) (h AND 0xFFFFF) l) \<longleftrightarrow> s \<noteq> 0"
    "unat (mant64 (cvm_d_pack s (of_int re) (h AND 0xFFFFF) l)) = unat (pair64 h l)"
proof -
  have e: "unat (of_int re :: u32) < 2 ^ 11" "0 < unat (of_int re :: u32)"
    unfolding unat_of_exp [OF assms(2,3)] using assms(2,3) by simp_all
  note pf = pack_fields [OF assms(1) e(1)]
  show "d_exp (cvm_d_pack s (of_int re) (h AND 0xFFFFF) l) = nat re"
    unfolding pf(2) by (rule unat_of_exp [OF assms(2,3)])
  show "d_neg (cvm_d_pack s (of_int re) (h AND 0xFFFFF) l) \<longleftrightarrow> s \<noteq> 0" by (rule pf(1))
  show "unat (mant64 (cvm_d_pack s (of_int re) (h AND 0xFFFFF) l)) = unat (pair64 h l)"
    unfolding unat_mant64 using pack_value(1) [OF assms(1) e(2,1) assms(4,5)] by (simp only: add.commute)
qed

lemma mul_normal:
  assumes n: "d_normal a" "d_normal b"
    and x: "extra = (if 2 ^ 105 \<le> unat (mant64 a) * unat (mant64 b) then 1 else 0)"
    and e: "re = int (d_exp a + d_exp b + extra) - 1023"
  shows "re \<ge> 2047 \<Longrightarrow> cvm_d_mul a b = signed_inf (CVM_D_SIGN a XOR CVM_D_SIGN b)"
    and "re \<le> 0 \<Longrightarrow> cvm_d_mul a b = signed_zero (CVM_D_SIGN a XOR CVM_D_SIGN b)"
    and "0 < re \<Longrightarrow> re < 2047 \<Longrightarrow> d_exp (cvm_d_mul a b) = nat re
      \<and> d_neg (cvm_d_mul a b) = (d_neg a \<noteq> d_neg b)
      \<and> unat (mant64 (cvm_d_mul a b)) = unat (mant64 a) * unat (mant64 b) div 2 ^ (52 + extra)"
proof -
  let ?M = "unat (mant64 a) * unat (mant64 b)"
  let ?s = "CVM_D_SIGN a XOR CVM_D_SIGN b"
  obtain w3 w2 w1 w0 where w: "wide_product (CVM_D_MHI a OR 0x100000) (d_lo a) (CVM_D_MHI b OR 0x100000) (d_lo b) = (w3, w2, w1, w0)"
    by (metis prod_cases4)
  note M = wide_mantissa_product [OF w]
  have "?M < 2 ^ 53 * 2 ^ 53" by (intro mult_strict_mono mant64_range) simp_all
  then have M106: "?M < 2 ^ 106" by simp
  have M104: "2 ^ 104 \<le> ?M" using mult_le_mono [OF mant64_range(1) [of a] mant64_range(1) [of b]] by simp
  have lt: "unat v < 2 ^ 32" for v :: u32 using unat_lt32 [of v] by simp
  have w3: "2 ^ 105 \<le> ?M \<longleftrightarrow> 2 ^ 9 \<le> unat w3" "unat w3 < 2 ^ 10"
  proof -
    have "unat w2 * 2 ^ 64 + unat w1 * 2 ^ 32 + unat w0 < 2 ^ 96"
      using glue [OF glue [OF lt [of w2] lt [of w1]] lt [of w0]] by simp
    then have q: "?M div 2 ^ 96 = unat w3" unfolding M [symmetric] by (intro div_nat_eqI) simp_all
    show "unat w3 < 2 ^ 10" unfolding q [symmetric] using M106 by (intro less_mult_imp_div_less) simp
    show "2 ^ 105 \<le> ?M \<longleftrightarrow> 2 ^ 9 \<le> unat w3"
      unfolding q [symmetric] by (simp add: less_eq_div_iff_mult_less_eq)
  qed
  have b9: "drop_bit 9 w3 AND 1 \<noteq> 0 \<longleftrightarrow> 2 ^ 105 \<le> ?M"
  proof -
    have "unat (drop_bit 9 w3 AND 1) = unat w3 div 2 ^ 9 mod 2 ^ 1" unfolding masks(4) unat_and_mask unat_drop ..
    moreover have "unat w3 div 2 ^ 9 < 2" using w3(2) by (intro less_mult_imp_div_less) simp
    moreover have "unat w3 div 2 ^ 9 = 0 \<longleftrightarrow> unat w3 < 2 ^ 9" by (simp add: div_eq_0_iff)
    ultimately have "unat (drop_bit 9 w3 AND 1) = 0 \<longleftrightarrow> unat w3 < 2 ^ 9" by simp
    then show ?thesis unfolding w3(1) by (simp only: unat_eq_0 not_less [symmetric])
  qed
  have re: "sint (CVM_D_EXP a) + sint (CVM_D_EXP b) - 1023 + int extra = re"
    unfolding sint_exp e by simp
  have ex: "(if drop_bit 9 w3 AND 1 \<noteq> 0 then 1 else 0) = extra" unfolding b9 x by simp
  let ?oh = "push_bit (32 - (20 + extra)) w3 OR drop_bit (20 + extra) w2"
  let ?ol = "push_bit (32 - (20 + extra)) w2 OR drop_bit (20 + extra) w1"
  have s: "52 + extra - 32 = 20 + extra" by simp
  have r: "cvm_d_mul a b = (if re \<ge> 2047 then signed_inf ?s else if re \<le> 0 then signed_zero ?s
      else cvm_d_pack ?s (of_int re) (?oh AND 0xFFFFF) ?ol)"
    unfolding cvm_d_mul_def
    by (simp only: normal_flags [OF n(1)] normal_flags [OF n(2)] w Let_def prod.case if_False simp_thms ex re s)
  then show "re \<ge> 2047 \<Longrightarrow> cvm_d_mul a b = signed_inf ?s" "re \<le> 0 \<Longrightarrow> cvm_d_mul a b = signed_zero ?s"
    by simp_all
  assume p: "0 < re" "re < 2047"
  with r have r: "cvm_d_mul a b = cvm_d_pack ?s (of_int re) (?oh AND 0xFFFFF) ?ol" by simp
  have Q: "unat (pair64 ?oh ?ol) = ?M div 2 ^ (52 + extra)"
    using extract_mantissa [OF M M106, of "20 + extra"] x by simp
  have "2 ^ 52 \<le> ?M div 2 ^ (52 + extra)" "?M div 2 ^ (52 + extra) < 2 ^ 53"
  proof -
    have "2 ^ 52 * 2 ^ (52 + extra) \<le> ?M" using M104 x by (auto simp: power_add)
    then show "2 ^ 52 \<le> ?M div 2 ^ (52 + extra)" by (simp add: less_eq_div_iff_mult_less_eq)
    have "?M < 2 ^ 53 * 2 ^ (52 + extra)" using M106 x by (auto simp: power_add)
    then show "?M div 2 ^ (52 + extra) < 2 ^ 53" by (rule less_mult_imp_div_less)
  qed
  then have R: "2 ^ 52 \<le> unat (pair64 ?oh ?ol)" "unat (pair64 ?oh ?ol) < 2 ^ 53" unfolding Q .
  show "d_exp (cvm_d_mul a b) = nat re \<and> d_neg (cvm_d_mul a b) = (d_neg a \<noteq> d_neg b)
      \<and> unat (mant64 (cvm_d_mul a b)) = ?M div 2 ^ (52 + extra)"
    using pack_normal [OF sign_xor(1) p R] sign_xor(2) [of a b] unfolding r Q by blast
qed

lemma pow2_between:
  assumes "2 ^ n \<le> (M :: nat)" "M < 2 ^ Suc n"
  shows "2 ^ c \<le> M * 2 ^ k \<longleftrightarrow> c \<le> n + k"
proof
  assume "c \<le> n + k"
  then have "(2 :: nat) ^ c \<le> 2 ^ (n + k)" by (rule power_increasing) simp
  also have "\<dots> \<le> M * 2 ^ k" unfolding power_add using assms(1) by (rule mult_right_mono) simp
  finally show "2 ^ c \<le> M * 2 ^ k" .
next
  assume "2 ^ c \<le> M * 2 ^ k"
  also have "M * 2 ^ k < 2 ^ Suc n * 2 ^ k" using assms(2) by (rule mult_strict_right_mono) simp
  also have "\<dots> = 2 ^ (Suc n + k)" by (rule power_add [symmetric])
  finally have "c < Suc n + k" by (rule power_less_imp_less_exp [rotated]) simp
  then show "c \<le> n + k" by simp
qed

text \<open>C30. Multiplying normal doubles truncates the exact product to 53 bits, gives infinity when the
  product is at least \<open>2^1024\<close> in magnitude, and zero when it is below \<open>2^-1022\<close>.\<close>

theorem float64_mul_truncates:
  assumes "d_normal a" "d_normal b"
  defines "r \<equiv> cvm_d_mul a b" and "s \<equiv> CVM_D_SIGN a XOR CVM_D_SIGN b" and "P \<equiv> d_abs a * d_abs b"
  shows "if 2 ^ (1024 + 2 * 1074) \<le> P then r = signed_inf s
    else if P < 2 ^ (2 * 1074 - 1022) then r = signed_zero s
    else d_normal r \<and> d_neg r = (d_neg a \<noteq> d_neg b)
      \<and> d_abs r * 2 ^ 1074 \<le> P \<and> P < (d_abs r + 2 ^ (d_exp r - 1)) * 2 ^ 1074"
proof -
  let ?M = "unat (mant64 a) * unat (mant64 b)" let ?k = "(d_exp a - 1) + (d_exp b - 1)"
  define extra :: nat where "extra = (if 2 ^ 105 \<le> ?M then 1 else 0)"
  define re where "re = int (d_exp a + d_exp b + extra) - 1023"
  note m = mul_normal [OF assms(1,2) extra_def re_def]
  have nz: "d_exp a \<noteq> 0" "d_exp b \<noteq> 0" using assms(1,2) by (simp_all add: d_normal_def)
  have P: "P = ?M * 2 ^ ?k" unfolding P_def d_abs_normal [OF nz(1)] d_abs_normal [OF nz(2)] by (simp only: power_add mult_ac)
  have "?M < 2 ^ 53 * 2 ^ 53" by (intro mult_strict_mono mant64_range) simp_all
  moreover have "2 ^ 104 \<le> ?M" using mult_le_mono [OF mant64_range(1) [of a] mant64_range(1) [of b]] by simp
  ultimately have M: "2 ^ (104 + extra) \<le> ?M" "?M < 2 ^ Suc (104 + extra)" by (auto simp: extra_def)
  note pb = pow2_between [OF M, of _ ?k, folded P]
  have big: "2 ^ (1024 + 2 * 1074) \<le> P \<longleftrightarrow> re \<ge> 2047"
    and small: "P < 2 ^ (2 * 1074 - 1022) \<longleftrightarrow> re \<le> 0"
    unfolding pb not_le [symmetric] using nz by (auto simp: re_def)
  show ?thesis
  proof (cases "re \<ge> 2047 \<or> re \<le> 0")
    case True
    then show ?thesis using m(1,2) unfolding big small r_def s_def by (cases "re \<ge> 2047") simp_all
  next
    case False
    then have rr: "0 < re" "re < 2047" by simp_all
    note v = m(3) [OF rr, folded r_def]
    have e: "d_exp r \<noteq> 0" "d_exp r \<noteq> 2047" using v rr by simp_all
    have k: "2 ^ (d_exp r - 1) * 2 ^ 1074 = (2 :: nat) ^ (52 + extra) * 2 ^ ?k"
      unfolding power_add [symmetric] using v rr nz by (intro arg_cong [where f = "power 2"]) (simp add: re_def)
    define Q where "Q = unat (mant64 r)"
    have Q: "Q = ?M div 2 ^ (52 + extra)" using v by (simp add: Q_def)
    have "Q * 2 ^ (52 + extra) \<le> ?M" unfolding Q by simp
    then have lo: "Q * 2 ^ (52 + extra) * 2 ^ ?k \<le> P" unfolding P by (rule mult_right_mono) simp
    have "?M < (Q + 1) * 2 ^ (52 + extra)" unfolding Q by (simp add: dividend_less_div_times)
    then have hi: "P < (Q + 1) * 2 ^ (52 + extra) * 2 ^ ?k" unfolding P by (rule mult_strict_right_mono) simp
    have ra: "d_abs r * 2 ^ 1074 = Q * 2 ^ (52 + extra) * 2 ^ ?k"
      unfolding d_abs_normal [OF e(1)] Q_def [symmetric] mult.assoc k ..
    have rb: "(d_abs r + 2 ^ (d_exp r - 1)) * 2 ^ 1074 = (Q + 1) * 2 ^ (52 + extra) * 2 ^ ?k"
      unfolding add_mult_distrib ra k by (simp only: mult_1 mult.assoc)
    show ?thesis unfolding big small ra rb using False v e lo hi by (simp add: d_normal_def)
  qed
qed

lemma one_normal: "d_normal CVM_D_ONE" "d_normal CVM_D_NEG_ONE"
  by (simp_all add: d_normal_def d_exp_def CVM_D_EXP_def CVM_D_ONE_def CVM_D_NEG_ONE_def)

lemma float64_mul_truncates_witness:
  "d_normal CVM_D_ONE \<and> d_normal CVM_D_NEG_ONE \<and>
   (if 2 ^ (1024 + 2 * 1074) \<le> d_abs CVM_D_ONE * d_abs CVM_D_NEG_ONE
    then cvm_d_mul CVM_D_ONE CVM_D_NEG_ONE = signed_inf (CVM_D_SIGN CVM_D_ONE XOR CVM_D_SIGN CVM_D_NEG_ONE)
    else if d_abs CVM_D_ONE * d_abs CVM_D_NEG_ONE < 2 ^ (2 * 1074 - 1022)
    then cvm_d_mul CVM_D_ONE CVM_D_NEG_ONE = signed_zero (CVM_D_SIGN CVM_D_ONE XOR CVM_D_SIGN CVM_D_NEG_ONE)
    else d_normal (cvm_d_mul CVM_D_ONE CVM_D_NEG_ONE)
      \<and> d_neg (cvm_d_mul CVM_D_ONE CVM_D_NEG_ONE) = (d_neg CVM_D_ONE \<noteq> d_neg CVM_D_NEG_ONE)
      \<and> d_abs (cvm_d_mul CVM_D_ONE CVM_D_NEG_ONE) * 2 ^ 1074 \<le> d_abs CVM_D_ONE * d_abs CVM_D_NEG_ONE
      \<and> d_abs CVM_D_ONE * d_abs CVM_D_NEG_ONE
        < (d_abs (cvm_d_mul CVM_D_ONE CVM_D_NEG_ONE) + 2 ^ (d_exp (cvm_d_mul CVM_D_ONE CVM_D_NEG_ONE) - 1)) * 2 ^ 1074)"
  by (intro conjI one_normal float64_mul_truncates)

section \<open>Where the results are not those of IEEE 754\<close>

text \<open>The sum of zeros of different sign has the sign of the second; an effective subtraction has no guard bit, so
  \<open>1 - (1 - 2^-53)\<close> is \<open>2^-52\<close>; subnormal operands are not flushed but get an implicit leading one.\<close>

lemma float64_zero_sum: "cvm_d_add \<lparr>d_lo = 0, d_hi = 0\<rparr> \<lparr>d_lo = 0, d_hi = 0x80000000\<rparr> = \<lparr>d_lo = 0, d_hi = 0x80000000\<rparr>"
  by code_simp

lemma float64_cancellation:
  "cvm_d_sub \<lparr>d_lo = 0, d_hi = 0x3FF00000\<rparr> \<lparr>d_lo = 0xFFFFFFFF, d_hi = 0x3FEFFFFF\<rparr> = \<lparr>d_lo = 0, d_hi = 0x3CB00000\<rparr>"
  by code_simp

lemma float64_subnormal_operand:
  "cvm_d_add \<lparr>d_lo = 1, d_hi = 0\<rparr> \<lparr>d_lo = 1, d_hi = 0\<rparr> \<noteq> \<lparr>d_lo = 0, d_hi = 0\<rparr>"
  by code_simp

end
