(* ===== verification/Float64_Div.thy ===== *)
theory Float64_Div
  imports Float64_Arith
begin

text \<open>
  \<open>cvm_d_div\<close>: the long division computes quotient and remainder of the mantissas, and the rounding
  helper rounds the quotient to nearest even.
\<close>

section \<open>Halves as numbers\<close>

lemma pair_cmp:
  "(if h1 \<noteq> h2 then h1 < h2 else l1 < l2) \<longleftrightarrow> unat (pair64 h1 l1) < unat (pair64 h2 l2)"
  "(if h1 \<noteq> h2 then h2 < h1 else l2 \<le> l1) \<longleftrightarrow> unat (pair64 h2 l2) \<le> unat (pair64 h1 l1)"
  using val64_cmp(3) [of "\<lparr>lo = l1, hi = h1\<rparr>" "\<lparr>lo = l2, hi = h2\<rparr>"]
    val64_cmp(4) [of "\<lparr>lo = l2, hi = h2\<rparr>" "\<lparr>lo = l1, hi = h1\<rparr>"]
  by (auto simp: cvm_u64_lt_def cvm_u64_le_def pair64_def word_less_nat_alt word_le_nat_alt split: if_splits)

lemma pair_split: "unat h = unat (pair64 h l) div 2 ^ 32" "unat l = unat (pair64 h l) mod 2 ^ 32"
  using unat_lt32 [of l] by (simp_all add: unat_pair64)

lemma pair_double: "pair64 (push_bit 1 h OR drop_bit 31 l) (push_bit 1 l) = push_bit 1 (pair64 h l)"
  using shl_pair [of 1 l h] by simp

lemma unat_double: "unat w < 2 ^ 63 \<Longrightarrow> unat (push_bit 1 w :: u64) = 2 * unat w"
  using unat_push64 [of w 1] by simp

lemma pair_sub:
  assumes "unat (pair64 h2 l2) \<le> unat (pair64 h1 l1)"
  shows "unat (pair64 (h1 - h2 - carry32 (l1 < l2)) (l1 - l2)) = unat (pair64 h1 l1) - unat (pair64 h2 l2)"
proof -
  have "pair64 (h1 - h2 - carry32 (l1 < l2)) (l1 - l2) = pair64 h1 l1 - pair64 h2 l2"
    using val64_sub [of "\<lparr>lo = l1, hi = h1\<rparr>" "\<lparr>lo = l2, hi = h2\<rparr>"]
    by (simp add: pair64_def cvm_i64_sub_def carry32_def cong: if_cong)
  then show ?thesis using assms by (simp add: unat_sub word_le_nat_alt)
qed

lemma pair_set0:
  assumes "even (unat l)"
  shows "unat (pair64 h (l OR 1)) = unat (pair64 h l) + 1"
proof -
  have "bit (unat l) 0 \<longleftrightarrow> bit l 0" by (simp only: bit_unsigned_iff) simp
  then have "\<not> bit l 0" using assms unfolding bit_0 by blast
  then have "l OR 1 = l + 1"
    by (intro disjunctive_add [symmetric]) (metis bit_1_iff)
  moreover have "unat l + 1 < 2 ^ 32"
  proof -
    have "unat l \<le> 4294967295" using unat_lt32 [of l] by linarith
    moreover have "unat l \<noteq> 4294967295" using assms by auto
    ultimately have "unat l < 4294967295" by (rule le_neq_trans)
    then show ?thesis by simp
  qed
  ultimately show ?thesis by (simp add: unat_pair64 unat_add_lt)
qed

lemma pair_inc:
  assumes "unat (pair64 h l) + 1 < 2 ^ 64"
  shows "unat (pair64 (h + carry32 (l + 1 = 0)) (l + 1)) = unat (pair64 h l) + 1"
proof -
  have "pair64 (h + carry32 (l + 1 = 0)) (l + 1) = pair64 h l + 1"
  proof -
    have "l + 1 < l \<longleftrightarrow> l + 1 = 0" 
      using unat_lt32 [of l] by (auto simp: word_less_nat_alt word_unat_eq_iff unat_word_ariths mod_Suc)
    then show ?thesis
      using val64_add [of "\<lparr>lo = l, hi = h\<rparr>" "\<lparr>lo = 1, hi = 0\<rparr>"]
      by (simp add: pair64_def cvm_i64_add_def carry32_def val64_def Let_def cong: if_cong)
  qed
  then show ?thesis using assms by (simp add: unat_add_lt)
qed

section \<open>The division loop\<close>

lemma div_step_value:
  assumes "div_step bh bl (rh, rl, qh, ql) = (rh', rl', qh', ql')"
    and r: "unat (pair64 rh rl) < unat (pair64 bh bl)" and b: "unat (pair64 bh bl) < 2 ^ 63"
    and q: "unat (pair64 qh ql) < 2 ^ 62"
  defines "B \<equiv> unat (pair64 bh bl)" and "T \<equiv> 2 * unat (pair64 rh rl)"
  shows "unat (pair64 rh' rl') = (if B \<le> T then T - B else T)"
    "unat (pair64 qh' ql') = 2 * unat (pair64 qh ql) + (if B \<le> T then 1 else 0)"
proof -
  let ?rh = "push_bit 1 rh OR drop_bit 31 rl" and ?rl = "push_bit 1 rl"
  let ?qh = "push_bit 1 qh OR drop_bit 31 ql" and ?ql = "push_bit 1 ql"
  have T: "unat (pair64 ?rh ?rl) = T"
    unfolding pair_double T_def using r b by (intro unat_double) simp
  have Q: "unat (pair64 ?qh ?ql) = 2 * unat (pair64 qh ql)"
    unfolding pair_double using q by (intro unat_double) simp
  have ev: "even (unat ?ql)"
  proof -
    have "even (unat (pair64 ?qh ?ql))" unfolding Q by simp
    then show ?thesis unfolding unat_pair64 by simp
  qed
  have ge: "(if ?rh \<noteq> bh then bh < ?rh else bl \<le> ?rl) \<longleftrightarrow> B \<le> T"
    unfolding pair_cmp(2) T B_def ..
  have e: "(rh', rl', qh', ql') = (if B \<le> T then (?rh - bh - carry32 (?rl < bl), ?rl - bl, ?qh, ?ql OR 1)
      else (?rh, ?rl, ?qh, ?ql))"
    using assms(1) unfolding div_step_def Let_def prod.case ge by (rule sym)
  show "unat (pair64 rh' rl') = (if B \<le> T then T - B else T)"
  proof (cases "B \<le> T")
    case True
    then have "rh' = ?rh - bh - carry32 (?rl < bl)" "rl' = ?rl - bl" using e by simp_all
    then show ?thesis using pair_sub [of bh bl ?rh ?rl] True unfolding T B_def [symmetric] by simp
  next
    case False
    then have "rh' = ?rh" "rl' = ?rl" using e by simp_all
    then show ?thesis using False T by simp
  qed
  show "unat (pair64 qh' ql') = 2 * unat (pair64 qh ql) + (if B \<le> T then 1 else 0)"
  proof (cases "B \<le> T")
    case True
    then have "qh' = ?qh" "ql' = ?ql OR 1" using e by simp_all
    then show ?thesis using pair_set0 [OF ev, of ?qh] True unfolding Q by simp
  next
    case False
    then have "qh' = ?qh" "ql' = ?ql" using e by simp_all
    then show ?thesis using False Q by simp
  qed
qed

lemma div_loop_value:
  assumes "div_loop n bh bl (rh, rl, qh, ql) = (rh', rl', qh', ql')"
    and "unat (pair64 rh rl) < unat (pair64 bh bl)" "unat (pair64 bh bl) < 2 ^ 63"
    and "unat (pair64 qh ql) < 2 ^ k" "k + n \<le> 62"
  shows "unat (pair64 rh' rl') < unat (pair64 bh bl)
    \<and> unat (pair64 qh' ql') * unat (pair64 bh bl) + unat (pair64 rh' rl')
      = 2 ^ n * (unat (pair64 qh ql) * unat (pair64 bh bl) + unat (pair64 rh rl))
    \<and> unat (pair64 qh' ql') < 2 ^ (k + n)"
  using assms
proof (induction n arbitrary: rh rl qh ql k)
  case (Suc n)
  obtain rh1 rl1 qh1 ql1 where s: "div_step bh bl (rh, rl, qh, ql) = (rh1, rl1, qh1, ql1)"
    by (metis prod_cases4)
  let ?B = "unat (pair64 bh bl)"
  have "(2 :: nat) ^ k \<le> 2 ^ 62" using Suc.prems(5) by (intro power_increasing) simp_all
  with Suc.prems(4) have "unat (pair64 qh ql) < 2 ^ 62" by linarith
  note v = div_step_value [OF s Suc.prems(2,3) this]
  have step: "unat (pair64 rh1 rl1) < ?B" "unat (pair64 qh1 ql1) < 2 ^ Suc k"
    "unat (pair64 qh1 ql1) * ?B + unat (pair64 rh1 rl1) = 2 * (unat (pair64 qh ql) * ?B + unat (pair64 rh rl))"
    using Suc.prems(2,4) unfolding v by (auto simp: algebra_simps)
  have "div_loop n bh bl (rh1, rl1, qh1, ql1) = (rh', rl', qh', ql')" using Suc.prems(1) s by simp
  from Suc.IH [OF this step(1) Suc.prems(3) step(2)] Suc.prems(5) step(3) show ?case by simp
qed simp

section \<open>Rounding\<close>

definition round_half_even :: "nat \<Rightarrow> bool \<Rightarrow> nat" where
  "round_half_even q sticky = (if odd q \<and> (sticky \<or> odd (q div 2)) then q div 2 + 1 else q div 2)"

lemma round_half_even_error:
  assumes "q * B + r = X" "r < B"
  defines "N \<equiv> round_half_even q (r \<noteq> 0)"
  shows "2 * \<bar>int (2 * N * B) - int X\<bar> \<le> 2 * int B"
    "\<bar>int (2 * N * B) - int X\<bar> = int B \<Longrightarrow> even N"
proof -
  define h where "h = q div 2"
  have q: "q = 2 * h + q mod 2" by (simp add: h_def)
  have X: "int X = 2 * int h * int B + (if odd q then int B else 0) + int r"
  proof (cases "odd q")
    case True
    then have "q = 2 * h + 1" using q by presburger
    then show ?thesis using True unfolding assms(1) [symmetric] by (simp add: algebra_simps)
  next
    case False
    then have "q = 2 * h" using q by presburger
    then show ?thesis using False unfolding assms(1) [symmetric] by simp
  qed
  have N: "N = (if odd q \<and> (r \<noteq> 0 \<or> odd h) then h + 1 else h)" by (simp add: N_def round_half_even_def h_def)
  have B: "int r < int B" "0 \<le> int r" using assms(2) by simp_all
  show "2 * \<bar>int (2 * N * B) - int X\<bar> \<le> 2 * int B" unfolding X N using B by (auto simp: algebra_simps)
  show "\<bar>int (2 * N * B) - int X\<bar> = int B \<Longrightarrow> even N" unfolding X N using B by (auto simp: algebra_simps split: if_splits)
qed

lemma round_rne_value:
  assumes rr: "cvm_d_div_round_rne qh ql re rl rh = (oh, ol, re')"
    and q: "2 ^ 53 \<le> unat (pair64 qh ql)" "unat (pair64 qh ql) < 2 ^ 54"
  defines "N \<equiv> round_half_even (unat (pair64 qh ql)) (unat (pair64 rh rl) \<noteq> 0)"
  shows "unat (pair64 oh ol) = (if N < 2 ^ 53 then N else 2 ^ 52)"
    "re' = (if N < 2 ^ 53 then re else re + 1)" "2 ^ 52 \<le> N" "N \<le> 2 ^ 53"
proof -
  let ?q = "unat (pair64 qh ql)"
  let ?ql = "drop_bit 1 ql OR push_bit 31 qh" and ?qh = "drop_bit 1 qh"
  have "pair64 ?qh ?ql = drop_bit 1 (pair64 qh ql)" using shr_pair [of 1 qh ql] by simp
  then have Q: "unat (pair64 ?qh ?ql) = ?q div 2" unfolding unat_drop64 [of 1, simplified power_one_right, symmetric] by simp
  have and1: "unat (w AND 1) = unat w mod 2" for w :: u32 unfolding masks(4) unat_and_mask by simp
  have odd1: "(w AND 1 \<noteq> 0) = odd (unat w)" for w :: u32
    using and1 [of w] by (metis unat_eq_0 even_iff_mod_2_eq_zero unat_0)
  have g: "ql AND 1 \<noteq> 0 \<longleftrightarrow> odd ?q" unfolding odd1 unat_pair64 by simp
  have l: "?ql AND 1 \<noteq> 0 \<longleftrightarrow> odd (?q div 2)" 
  proof -
    have "even (unat (pair64 ?qh ?ql)) = even (unat ?ql)" unfolding unat_pair64 by simp
    then show ?thesis unfolding odd1 Q by simp
  qed
  have st: "rl OR rh \<noteq> 0 \<longleftrightarrow> unat (pair64 rh rl) \<noteq> 0"
    unfolding unat_pair64 by (auto simp: or_eq_0_iff unat_eq_0)
  let ?up = "odd ?q \<and> (unat (pair64 rh rl) \<noteq> 0 \<or> odd (?q div 2))"
  let ?nl = "?ql + 1" let ?nh = "?qh + carry32 (?nl = 0)"
  have h: "2 ^ 52 \<le> ?q div 2" "?q div 2 < 2 ^ 53" using q by simp_all
  have N: "N = (if ?up then ?q div 2 + 1 else ?q div 2)" by (simp add: N_def round_half_even_def)
  show "2 ^ 52 \<le> N" "N \<le> 2 ^ 53" unfolding N using h by simp_all
  have up: "unat (pair64 ?nh ?nl) = ?q div 2 + 1" using pair_inc [of ?qh ?ql] h unfolding Q by simp
  have b21: "?nh AND 0x200000 \<noteq> 0 \<longleftrightarrow> ?q div 2 + 1 = 2 ^ 53"
  proof -
    have nh: "unat ?nh = (?q div 2 + 1) div 2 ^ 32" unfolding up [symmetric] by (rule pair_split(1))
    have "(0x200000 :: u32) = 2 ^ 21" by simp
    then have "?nh AND 0x200000 \<noteq> 0 \<longleftrightarrow> bit ?nh 21" by (simp only: and_exp_eq_0_iff_not_bit not_not)
    also have "\<dots> \<longleftrightarrow> bit (unat ?nh) 21" by (simp add: bit_unsigned_iff del: bit_numeral_rec)
    also have "\<dots> \<longleftrightarrow> odd ((?q div 2 + 1) div 2 ^ 53)"
      unfolding nh bit_iff_odd by (simp flip: div_mult2_eq)
    also have "\<dots> \<longleftrightarrow> ?q div 2 + 1 = 2 ^ 53"
    proof (cases "?q div 2 + 1 = 2 ^ 53")
      case True
      then show ?thesis by simp
    next
      case False
      with h(2) have "?q div 2 + 1 < 2 ^ 53" by linarith
      then have "(?q div 2 + 1) div 2 ^ 53 = 0" by (rule div_less)
      with False show ?thesis by (simp only: even_zero not_True_eq_False)
    qed
    finally show ?thesis .
  qed
  have e: "(oh, ol, re') = (if ?up then if ?nh AND 0x200000 \<noteq> 0
        then (drop_bit 1 ?nh, drop_bit 1 ?nl OR push_bit 31 (?nh AND 1), re + 1) else (?nh, ?nl, re) else (?qh, ?ql, re))"
    using rr unfolding cvm_d_div_round_rne_def Let_def g l st by (rule sym)
  show "unat (pair64 oh ol) = (if N < 2 ^ 53 then N else 2 ^ 52)" "re' = (if N < 2 ^ 53 then re else re + 1)"
  proof -
    consider "\<not> ?up" | "?up" "?q div 2 + 1 \<noteq> 2 ^ 53" | "?up" "?q div 2 + 1 = 2 ^ 53" by blast
    then have "unat (pair64 oh ol) = (if N < 2 ^ 53 then N else 2 ^ 52) \<and> re' = (if N < 2 ^ 53 then re else re + 1)"
    proof cases
      case 1
      then have "oh = ?qh" "ol = ?ql" "re' = re" using e by (simp_all only: if_False prod.inject)
      then show ?thesis using Q h(2) unfolding N if_not_P [OF 1] by simp
    next
      case 2
      then have "oh = ?nh" "ol = ?nl" "re' = re" using e b21 by (simp_all only: if_True if_False prod.inject simp_thms)
      moreover have "?q div 2 + 1 < 2 ^ 53" using h(2) 2(2) by linarith
      ultimately show ?thesis using up unfolding N if_P [OF 2(1)] by simp
    next
      case 3
      then have o: "oh = drop_bit 1 ?nh" "ol = drop_bit 1 ?nl OR push_bit 31 (?nh AND 1)" "re' = re + 1"
        using e b21 by (simp_all only: if_True prod.inject simp_thms)
      have "unat ?nh = (?q div 2 + 1) div 2 ^ 32" "unat ?nl = (?q div 2 + 1) mod 2 ^ 32"
        unfolding up [symmetric] by (rule pair_split)+
      then have n: "unat ?nh = 2 ^ 21" "unat ?nl = 0" unfolding 3(2) by simp_all
      have "unat (?nh AND 1) = 0" unfolding and1 n by simp
      then have "?nh AND 1 = 0" "?nl = 0" using n by (simp_all add: unat_eq_0)
      then have "unat ol = 0" "unat oh = 2 ^ 20" unfolding o unat_drop n by simp_all
      then have "unat (pair64 oh ol) = 2 ^ 52" unfolding unat_pair64 by simp
      then show ?thesis using o(3) 3(2) unfolding N if_P [OF 3(1)] by simp
    qed
    then show "unat (pair64 oh ol) = (if N < 2 ^ 53 then N else 2 ^ 52)" "re' = (if N < 2 ^ 53 then re else re + 1)"
      by blast+
  qed
qed

section \<open>Quotients\<close>

text \<open>The rounded quotient \<open>N\<close> of the mantissas, the dividend doubled when it is the smaller one, and the
  exponents before and after rounding.\<close>

lemma div_normal:
  assumes n: "d_normal a" "d_normal b"
    and t: "t = (if unat (mant64 a) < unat (mant64 b) then 1 else 0 :: nat)"
    and A: "A = unat (mant64 a) * 2 ^ t"
    and N: "N = round_half_even (A * 2 ^ 53 div unat (mant64 b)) (A * 2 ^ 53 mod unat (mant64 b) \<noteq> 0)"
    and re: "re = int (d_exp a) - int (d_exp b) + 1023 - int t + (if N < 2 ^ 53 then 0 else 1)"
  shows "re \<ge> 2047 \<Longrightarrow> cvm_d_div a b = signed_inf (CVM_D_SIGN a XOR CVM_D_SIGN b)"
    and "re \<le> 0 \<Longrightarrow> cvm_d_div a b = signed_zero (CVM_D_SIGN a XOR CVM_D_SIGN b)"
    and "0 < re \<Longrightarrow> re < 2047 \<Longrightarrow> d_exp (cvm_d_div a b) = nat re
      \<and> d_neg (cvm_d_div a b) = (d_neg a \<noteq> d_neg b)
      \<and> unat (mant64 (cvm_d_div a b)) = (if N < 2 ^ 53 then N else 2 ^ 52)"
    and "unat (mant64 b) \<le> A" "A < 2 * unat (mant64 b)" "N \<le> 2 ^ 53"
proof -
  let ?s = "CVM_D_SIGN a XOR CVM_D_SIGN b"
  let ?ah = "CVM_D_MHI a OR 0x100000" and ?al = "d_lo a" and ?bh = "CVM_D_MHI b OR 0x100000" and ?bl = "d_lo b"
  let ?lt = "if ?ah \<noteq> ?bh then ?ah < ?bh else ?al < ?bl"
  let ?B = "unat (mant64 b)"
  define ah where "ah = (if ?lt then push_bit 1 ?ah OR drop_bit 31 ?al else ?ah)"
  define al where "al = (if ?lt then push_bit 1 ?al else ?al)"
  note m = mant64_range [of a] mant64_range [of b]
  have lt: "?lt \<longleftrightarrow> unat (mant64 a) < ?B" unfolding pair_cmp(1) mant64_def ..
  have Aw: "unat (pair64 ah al) = A"
  proof (cases "unat (mant64 a) < ?B")
    case True
    then have l: ?lt using lt by blast
    have "pair64 ah al = push_bit 1 (mant64 a)"
      unfolding ah_def al_def if_P [OF l] mant64_def pair_double ..
    then show ?thesis using True unat_double [of "mant64 a"] m unfolding A t by simp
  next
    case False
    then have l: "\<not> ?lt" using lt by blast
    have "pair64 ah al = mant64 a" unfolding ah_def al_def if_not_P [OF l] mant64_def ..
    then show ?thesis using False unfolding A t by simp
  qed
  show AB: "?B \<le> A" "A < 2 * ?B" unfolding A t using m by auto
  have R0: "unat (pair64 (ah - ?bh - carry32 (al < ?bl)) (al - ?bl)) = A - ?B"
    using pair_sub [of ?bh ?bl ah al] AB Aw by (simp add: mant64_def)
  obtain rh rl qh ql where loop: "div_loop 53 ?bh ?bl (ah - ?bh - carry32 (al < ?bl), al - ?bl, 0, 1) = (rh, rl, qh, ql)"
    by (metis prod_cases4)
  have one: "unat (pair64 0 1) = 1" by (simp add: unat_pair64)
  have bb: "unat (pair64 ?bh ?bl) = ?B" by (simp add: mant64_def)
  have lv: "unat (pair64 rh rl) < ?B" "unat (pair64 qh ql) * ?B + unat (pair64 rh rl) = 2 ^ 53 * A"
    "unat (pair64 qh ql) < 2 ^ (1 + 53)"
    using div_loop_value [OF loop, unfolded R0 one bb, of 1] AB m by simp_all
  have q: "A * 2 ^ 53 div ?B = unat (pair64 qh ql)" "A * 2 ^ 53 mod ?B = unat (pair64 rh rl)"
    using lv(1) unfolding mult.commute [of A] lv(2) [symmetric] by simp_all
  have "2 ^ 53 * ?B \<le> A * 2 ^ 53" using AB by simp
  then have q53: "2 ^ 53 \<le> unat (pair64 qh ql)"
    unfolding q(1) [symmetric] using m by (subst less_eq_div_iff_mult_less_eq) simp_all
  define r0 where "r0 = sint (CVM_D_EXP a) - sint (CVM_D_EXP b) + 1023 + (if ?lt then - 1 else 0)"
  obtain oh ol r1 where rnd: "cvm_d_div_round_rne qh ql r0 rl rh = (oh, ol, r1)" by (metis prod_cases3)
  note rv = round_rne_value [OF rnd q53, folded q, folded N]
  have q54: "A * 2 ^ 53 div ?B < 2 ^ 54" using lv(3) unfolding q by simp
  show "N \<le> 2 ^ 53" by (rule rv(4) [OF q54])
  have rr: "r1 = re" unfolding rv(2) [OF q54] re r0_def sint_exp lt t by simp
  have eq: "cvm_d_div a b = (if re \<ge> 2047 then signed_inf ?s else if re \<le> 0 then signed_zero ?s
      else cvm_d_pack ?s (of_int re) (oh AND 0xFFFFF) ol)"
    unfolding cvm_d_div_def
    by (simp only: normal_flags [OF n(1)] normal_flags [OF n(2)] Let_def if_False simp_thms ah_def [symmetric]
        al_def [symmetric] loop prod.case r0_def [symmetric] rnd rr)
  then show "re \<ge> 2047 \<Longrightarrow> cvm_d_div a b = signed_inf ?s" "re \<le> 0 \<Longrightarrow> cvm_d_div a b = signed_zero ?s"
    by simp_all
  assume p: "0 < re" "re < 2047"
  with eq have eq: "cvm_d_div a b = cvm_d_pack ?s (of_int re) (oh AND 0xFFFFF) ol" by simp
  have "2 ^ 52 \<le> unat (pair64 oh ol)" "unat (pair64 oh ol) < 2 ^ 53"
    using rv(3,4) [OF q54] unfolding rv(1) [OF q54] by simp_all
  from pack_normal [OF sign_xor(1) p this]
  show "d_exp (cvm_d_div a b) = nat re \<and> d_neg (cvm_d_div a b) = (d_neg a \<noteq> d_neg b)
      \<and> unat (mant64 (cvm_d_div a b)) = (if N < 2 ^ 53 then N else 2 ^ 52)"
    using sign_xor(2) [of a b] unfolding eq rv(1) [OF q54] by blast
qed

text \<open>The rounded quotient against the exact one, both scaled by a common power of two.\<close>

lemma scaled_error:
  assumes "2 * \<bar>int (2 * N * B) - int (A * 2 ^ 53)\<bar> \<le> 2 * int B"
    and "\<bar>int (2 * N * B) - int (A * 2 ^ 53)\<bar> = int B \<longrightarrow> even N" and "N \<le> 2 ^ 53"
    and "M = (if N < 2 ^ 53 then N else 2 ^ 52)" "c = (if N < 2 ^ 53 then 0 else 1 :: nat)"
  shows "2 * \<bar>int (M * B * 2 ^ k) - int (A * 2 ^ (52 - c) * 2 ^ k)\<bar> \<le> int (B * 2 ^ k)"
    "2 * \<bar>int (M * B * 2 ^ k) - int (A * 2 ^ (52 - c) * 2 ^ k)\<bar> = int (B * 2 ^ k) \<Longrightarrow> even M"
proof -
  have d: "int (M * B * 2 ^ k) - int (A * 2 ^ (52 - c) * 2 ^ k) = (int (M * B) - int (A * 2 ^ (52 - c))) * 2 ^ k"
    by (simp add: algebra_simps)
  have s: "2 * \<bar>int (M * B * 2 ^ k) - int (A * 2 ^ (52 - c) * 2 ^ k)\<bar> = (2 * \<bar>int (M * B) - int (A * 2 ^ (52 - c))\<bar>) * 2 ^ k"
    unfolding d abs_mult by simp
  have b: "int (B * 2 ^ k) = int B * 2 ^ k" by simp
  have N: "N = 2 ^ 53" if "\<not> N < 2 ^ 53" using that assms(3) by simp
  have two: "2 * \<bar>x - y\<bar> = \<bar>2 * x - 2 * y\<bar>" for x y :: int
    unfolding right_diff_distrib [symmetric] abs_mult by simp
  have e: "2 * \<bar>int (M * B) - int (A * 2 ^ (52 - c))\<bar> \<le> int B
      \<and> (2 * \<bar>int (M * B) - int (A * 2 ^ (52 - c))\<bar> = int B \<longrightarrow> even M)"
  proof (cases "N < 2 ^ 53")
    case True
    then have "2 * \<bar>int (M * B) - int (A * 2 ^ (52 - c))\<bar> = \<bar>int (2 * N * B) - int (A * 2 ^ 53)\<bar>"
      unfolding two assms(4,5) by simp
    then show ?thesis using assms(1,2) True unfolding assms(4) by simp
  next
    case False
    have "even M" using False unfolding assms(4) by simp
    moreover have "2 * (2 * \<bar>int (M * B) - int (A * 2 ^ (52 - c))\<bar>) = \<bar>int (2 * N * B) - int (A * 2 ^ 53)\<bar>"
      unfolding two assms(4,5) using False N [OF False] by simp
    ultimately show ?thesis using assms(1) by simp
  qed
  show "2 * \<bar>int (M * B * 2 ^ k) - int (A * 2 ^ (52 - c) * 2 ^ k)\<bar> \<le> int (B * 2 ^ k)"
    unfolding s b using e by (intro mult_right_mono) simp_all
  assume "2 * \<bar>int (M * B * 2 ^ k) - int (A * 2 ^ (52 - c) * 2 ^ k)\<bar> = int (B * 2 ^ k)"
  then have "2 * \<bar>int (M * B) - int (A * 2 ^ (52 - c))\<bar> = int B" unfolding s b by simp
  with e show "even M" by blast
qed

lemma special_exp: "d_exp (signed_inf s) = 2047" "d_exp (signed_zero s) = 0"
  by (simp_all add: signed_inf_def signed_zero_def d_exp_def CVM_D_EXP_def CVM_D_INF_def CVM_D_NEG_INF_def
      CVM_D_ZERO_def CVM_D_NEG_ZERO_def)

lemma overflow_bound:
  assumes "B \<le> A" "int (2 * N * B) - int (A * 2 ^ 53) \<le> int B" "c = (if N < 2 ^ 53 then 0 else 1 :: nat)"
    and "N \<le> 2 ^ 53" "1024 \<le> m + c"
  shows "(2 ^ 54 - 1) * 2 ^ 970 * B \<le> A * (2 :: nat) ^ m"
proof (cases "N < 2 ^ 53")
  case True
  have "(2 ^ 54 - 1) * 2 ^ 970 * B \<le> 2 ^ 54 * 2 ^ 970 * A" using assms(1) by (intro mult_mono) simp_all
  also have "(2 :: nat) ^ 54 * 2 ^ 970 = 2 ^ 1024" unfolding power_add [symmetric] by simp
  also have "2 ^ 1024 * A \<le> 2 ^ m * A" using True assms(3,5) by (intro mult_right_mono power_increasing) simp_all
  finally show ?thesis by (simp only: mult.commute)
next
  case False
  then have "N = 2 ^ 53" using assms(4) by simp
  with assms(2) have "int (2 ^ 54 * B) \<le> int (A * 2 ^ 53 + B)" by simp
  then have "2 ^ 54 * B \<le> A * 2 ^ 53 + B" by (simp only: of_nat_le_iff)
  then have "(2 ^ 54 - 1) * B \<le> A * 2 ^ 53" by simp
  then have "(2 ^ 54 - 1) * B * 2 ^ 970 \<le> A * 2 ^ 53 * 2 ^ 970" by (rule mult_right_mono) simp
  also have "\<dots> = A * 2 ^ 1023" unfolding mult.assoc power_add [symmetric] by simp
  also have "\<dots> \<le> A * 2 ^ m" using False assms(3,5) by (intro mult_left_mono power_increasing) simp_all
  finally show ?thesis by (simp only: mult_ac)
qed

text \<open>C31. Dividing normal doubles gives the exact quotient rounded to nearest, ties to even; infinity only
  when the quotient is within half a unit of \<open>2^1024\<close> or above, and zero only when it is below \<open>2^-1022\<close>.\<close>

theorem float64_div_nearest:
  assumes "d_normal a" "d_normal b"
  defines "r \<equiv> cvm_d_div a b" and "s \<equiv> CVM_D_SIGN a XOR CVM_D_SIGN b"
  shows "if d_exp r = 2047 then r = signed_inf s \<and> (2 ^ 54 - 1) * 2 ^ 970 * d_abs b \<le> d_abs a
    else if d_exp r = 0 then r = signed_zero s \<and> 2 ^ 1022 * d_abs a < d_abs b
    else d_neg r = (d_neg a \<noteq> d_neg b)
      \<and> 2 * \<bar>int (d_abs r * d_abs b) - int (d_abs a * 2 ^ 1074)\<bar> \<le> int (2 ^ (d_exp r - 1) * d_abs b)
      \<and> (2 * \<bar>int (d_abs r * d_abs b) - int (d_abs a * 2 ^ 1074)\<bar> = int (2 ^ (d_exp r - 1) * d_abs b) \<longrightarrow> even (d_mant r))"
proof -
  define t where "t = (if unat (mant64 a) < unat (mant64 b) then 1 else 0 :: nat)"
  define A where "A = unat (mant64 a) * 2 ^ t"
  define B where "B = unat (mant64 b)"
  define N where "N = round_half_even (A * 2 ^ 53 div B) (A * 2 ^ 53 mod B \<noteq> 0)"
  define c :: nat where "c = (if N < 2 ^ 53 then 0 else 1)"
  define re where "re = int (d_exp a) - int (d_exp b) + 1023 - int t + (if N < 2 ^ 53 then 0 else 1)"
  have rc: "re = int (d_exp a) - int (d_exp b) + 1023 - int t + int c" by (simp add: re_def c_def)
  note d = div_normal [OF assms(1,2) t_def A_def N_def [unfolded B_def] re_def, folded B_def r_def s_def]
  have nz: "d_exp a \<noteq> 0" "d_exp b \<noteq> 0" using assms(1,2) by (simp_all add: d_normal_def)
  have a: "d_abs a * 2 ^ t = A * 2 ^ (d_exp a - 1)" unfolding d_abs_normal [OF nz(1)] A_def by (simp only: mult_ac)
  have b: "d_abs b = B * 2 ^ (d_exp b - 1)" unfolding d_abs_normal [OF nz(2)] B_def ..
  have B: "0 < B" unfolding B_def using mant64_range(1) [of b] by simp
  note AB = d(4,5) and N53 = d(6)
  have err: "2 * \<bar>int (2 * N * B) - int (A * 2 ^ 53)\<bar> \<le> 2 * int B"
    "\<bar>int (2 * N * B) - int (A * 2 ^ 53)\<bar> = int B \<longrightarrow> even N"
    using round_half_even_error [OF div_mult_mod_eq [of "A * 2 ^ 53" B] mod_less_divisor [OF B], folded N_def] by blast+
  consider "re \<ge> 2047" | "re \<le> 0" | "0 < re" "re < 2047" by linarith
  then show ?thesis
  proof cases
    case 1
    define m where "m = nat (re - int c - 1023)"
    have "c \<le> 1" by (simp add: c_def)
    then have m: "int m = re - int c - 1023" using 1 by (simp add: m_def)
    then have "d_exp a - 1 = d_exp b - 1 + t + m" using nz rc by linarith
    then have pm: "(2 :: nat) ^ (d_exp a - 1) = 2 ^ (d_exp b - 1) * 2 ^ t * 2 ^ m"
      unfolding power_add [symmetric] by (rule arg_cong)
    have "(2 ^ 54 - 1) * 2 ^ 970 * B \<le> A * (2 :: nat) ^ m"
    proof (rule overflow_bound [OF AB(1) _ c_def N53])
      have "\<bar>int (2 * N * B) - int (A * 2 ^ 53)\<bar> \<le> int B" using err(1) by (rule mult_left_le_imp_le) simp
      then show "int (2 * N * B) - int (A * 2 ^ 53) \<le> int B" by (rule abs_le_D1)
      show "1024 \<le> m + c" using 1 m by linarith
    qed
    then have "(2 ^ 54 - 1) * 2 ^ 970 * B * (2 ^ (d_exp b - 1) * 2 ^ t) \<le> A * (2 :: nat) ^ m * (2 ^ (d_exp b - 1) * 2 ^ t)"
      by (rule mult_right_mono) simp
    also have "\<dots> = d_abs a * 2 ^ t" unfolding a pm by (simp only: mult_ac)
    finally have "(2 ^ 54 - 1) * 2 ^ 970 * d_abs b * 2 ^ t \<le> d_abs a * 2 ^ t" unfolding b by (simp only: mult_ac)
    then have "(2 ^ 54 - 1) * 2 ^ 970 * d_abs b \<le> d_abs a" by (rule mult_right_le_imp_le) simp
    then show ?thesis unfolding d(1) [OF 1] special_exp by (simp only: if_True simp_thms)
  next
    case 2
    have "2 ^ 1022 * d_abs a * 2 ^ t = 2 ^ 1022 * 2 ^ (d_exp a - 1) * A" unfolding mult.assoc a by (simp only: mult_ac)
    also have "\<dots> < 2 ^ 1022 * 2 ^ (d_exp a - 1) * (2 * B)" using AB(2) by (rule mult_strict_left_mono) simp
    also have "\<dots> = B * 2 ^ (1023 + (d_exp a - 1))" unfolding power_add by simp
    also have "\<dots> \<le> B * 2 ^ ((d_exp b - 1) + t)"
      using 2 nz rc by (intro mult_left_mono power_increasing) (auto simp: c_def split: if_splits)
    also have "\<dots> = d_abs b * 2 ^ t" unfolding b power_add by (simp only: mult_ac)
    finally have "2 ^ 1022 * d_abs a < d_abs b" by (rule mult_right_less_imp_less) simp
    then show ?thesis unfolding d(2) [OF 2] special_exp by simp
  next
    case 3
    define M where "M = unat (mant64 r)"
    define k where "k = (d_exp r - 1) + (d_exp b - 1)"
    note v = d(3) [OF 3]
    have e: "d_exp r \<noteq> 0" "d_exp r \<noteq> 2047" using v 3 by simp_all
    have M: "M = (if N < 2 ^ 53 then N else 2 ^ 52)" using v by (simp add: M_def)
    have rb: "d_abs r * d_abs b = M * B * 2 ^ k" unfolding d_abs_normal [OF e(1)] M_def [symmetric] b k_def power_add
      by (simp only: mult_ac)
    have ub: "2 ^ (d_exp r - 1) * d_abs b = B * 2 ^ k" unfolding b k_def power_add by (simp only: mult_ac)
    have pe: "(2 :: nat) ^ (d_exp a - 1) * 2 ^ 1074 = 2 ^ t * (2 ^ (52 - c) * 2 ^ k)"
      unfolding power_add [symmetric] k_def using v 3 nz rc
      by (intro arg_cong [where f = "power 2"]) (auto simp: t_def c_def)
    have "d_abs a * 2 ^ 1074 * 2 ^ t = d_abs a * 2 ^ t * 2 ^ 1074" by (simp only: mult_ac)
    also have "\<dots> = A * (2 ^ t * (2 ^ (52 - c) * 2 ^ k))" unfolding a mult.assoc pe ..
    also have "\<dots> = A * 2 ^ (52 - c) * 2 ^ k * 2 ^ t" by (simp only: mult_ac)
    finally have ab: "d_abs a * 2 ^ 1074 = A * 2 ^ (52 - c) * 2 ^ k" by (rule mult_right_cancel [THEN iffD1, rotated]) simp
    note se = scaled_error [OF err N53 M c_def, of k, folded rb ub ab]
    have "even M \<longleftrightarrow> even (d_mant r)" unfolding M_def unat_mant64 by simp
    then show ?thesis unfolding if_not_P [OF e(1)] if_not_P [OF e(2)] using se v by blast
  qed
qed

lemma float64_div_nearest_witness:
  "d_normal CVM_D_ONE \<and> d_normal CVM_D_NEG_ONE \<and>
   (if d_exp (cvm_d_div CVM_D_ONE CVM_D_NEG_ONE) = 2047
    then cvm_d_div CVM_D_ONE CVM_D_NEG_ONE = signed_inf (CVM_D_SIGN CVM_D_ONE XOR CVM_D_SIGN CVM_D_NEG_ONE)
      \<and> (2 ^ 54 - 1) * 2 ^ 970 * d_abs CVM_D_NEG_ONE \<le> d_abs CVM_D_ONE
    else if d_exp (cvm_d_div CVM_D_ONE CVM_D_NEG_ONE) = 0
    then cvm_d_div CVM_D_ONE CVM_D_NEG_ONE = signed_zero (CVM_D_SIGN CVM_D_ONE XOR CVM_D_SIGN CVM_D_NEG_ONE)
      \<and> 2 ^ 1022 * d_abs CVM_D_ONE < d_abs CVM_D_NEG_ONE
    else d_neg (cvm_d_div CVM_D_ONE CVM_D_NEG_ONE) = (d_neg CVM_D_ONE \<noteq> d_neg CVM_D_NEG_ONE)
      \<and> 2 * \<bar>int (d_abs (cvm_d_div CVM_D_ONE CVM_D_NEG_ONE) * d_abs CVM_D_NEG_ONE) - int (d_abs CVM_D_ONE * 2 ^ 1074)\<bar>
        \<le> int (2 ^ (d_exp (cvm_d_div CVM_D_ONE CVM_D_NEG_ONE) - 1) * d_abs CVM_D_NEG_ONE)
      \<and> (2 * \<bar>int (d_abs (cvm_d_div CVM_D_ONE CVM_D_NEG_ONE) * d_abs CVM_D_NEG_ONE) - int (d_abs CVM_D_ONE * 2 ^ 1074)\<bar>
          = int (2 ^ (d_exp (cvm_d_div CVM_D_ONE CVM_D_NEG_ONE) - 1) * d_abs CVM_D_NEG_ONE)
        \<longrightarrow> even (d_mant (cvm_d_div CVM_D_ONE CVM_D_NEG_ONE))))"
  by (intro conjI one_normal float64_div_nearest)

end
