(* ===== verification/Fenwick.thy ===== *)
theory Fenwick
  imports Link "HOL-Library.Multiset"
begin

text \<open>
  The binary indexed tree of the translator's branch relaxation (\<open>cg_fen_add\<close> and \<open>cg_fen_below\<close> in
  \<open>src/tools/translator/translator.c\<close>), as an implementation of a set of counted positions. The tree
  is the C array \<open>bit[0..n]\<close>; an access outside it, or a loop that does not end, is \<open>None\<close>.
\<close>

section \<open>The loops\<close>

text \<open>\<open>i & -i\<close>\<close>

definition low_bit :: "nat \<Rightarrow> nat" where "low_bit i = nat (int i AND - int i)"

partial_function (option) fen_add_loop :: "nat list \<Rightarrow> nat \<Rightarrow> nat \<Rightarrow> nat list option" where
  "fen_add_loop bits n i =
     (if i \<le> n then
        (case at bits i of None \<Rightarrow> None
         | Some v \<Rightarrow> fen_add_loop (bits[i := v + 1]) n (i + low_bit i))
      else Some bits)"

definition cg_fen_add :: "nat list \<Rightarrow> nat \<Rightarrow> nat \<Rightarrow> nat list option" where
  "cg_fen_add bits n pos = fen_add_loop bits n (pos + 1)"

partial_function (option) fen_below_loop :: "nat list \<Rightarrow> nat \<Rightarrow> nat \<Rightarrow> nat option" where
  "fen_below_loop bits i s =
     (if i > 0 then
        (case at bits i of None \<Rightarrow> None
         | Some v \<Rightarrow> fen_below_loop bits (i - low_bit i) (s + v))
      else Some s)"

definition cg_fen_below :: "nat list \<Rightarrow> nat \<Rightarrow> nat option" where
  "cg_fen_below bits x = fen_below_loop bits x 0"

section \<open>The lowest set bit\<close>

lemma low_bit_odd: "low_bit (2 * m + 1) = 1"
proof -
  have "int (2 * m + 1) AND - int (2 * m + 1) = 1 + 2 * (int m AND NOT (int m))"
  proof -
    have "- int (2 * m + 1) = 1 + 2 * NOT (int m)" by (simp add: not_int_def)
    moreover have "(- 1 - 2 * x) div 2 = - x - 1" for x :: int by presburger
    ultimately show ?thesis by (subst and_int_rec) (simp add: not_int_def)
  qed
  then show ?thesis by (simp add: low_bit_def bit.conj_cancel_right)
qed

lemma low_bit_double: "low_bit (2 * m) = 2 * low_bit m"
proof -
  have "int (2 * m) AND - int (2 * m) = 2 * (int m AND - int m)"
  proof -
    have "- (2 * x) div 2 = - x" for x :: int by presburger
    then show ?thesis by (subst and_int_rec) simp
  qed
  then show ?thesis by (simp add: low_bit_def nat_mult_distrib)
qed

lemma low_bit_cases:
  assumes "0 < i"
  obtains k m where "i = 2 ^ k * (2 * m + 1)" "low_bit i = 2 ^ k"
  using assms
proof (induction i arbitrary: thesis rule: less_induct)
  case (less i)
  show ?case
  proof (cases "even i")
    case True
    then obtain j where j: "i = 2 * j" by blast
    with less.prems have "j < i" "0 < j" by simp_all
    from less.IH [OF this(1) _ this(2)] obtain k m where km: "j = 2 ^ k * (2 * m + 1)" "low_bit j = 2 ^ k" by metis
    have "low_bit i = 2 ^ Suc k" unfolding j low_bit_double km(2) by simp
    moreover have "i = 2 ^ Suc k * (2 * m + 1)" unfolding j by (subst km(1)) simp
    ultimately show ?thesis by (intro less.prems(1))
  next
    case False
    then obtain m where "i = 2 * m + 1" by (metis oddE)
    then show ?thesis using less.prems(1) [of 0 m] low_bit_odd by simp
  qed
qed

lemma low_bit_range: "0 < i \<Longrightarrow> 0 < low_bit i" "0 < i \<Longrightarrow> low_bit i \<le> i"
  by (auto elim!: low_bit_cases)

text \<open>Node \<open>j\<close> counts the positions in \<open>[j - low_bit j, j)\<close>; a step up from a node that is covered by
  another stays covered by it.\<close>

definition covers :: "nat \<Rightarrow> nat \<Rightarrow> bool" where "covers j q \<longleftrightarrow> j - low_bit j < q \<and> q \<le> j"

lemma cancel_pow2: "(2 :: nat) ^ a * x < 2 ^ a * y \<longleftrightarrow> x < y" "(2 :: nat) ^ a * x \<le> 2 ^ a * y \<longleftrightarrow> x \<le> y"
  by simp_all

lemma covers_step:
  assumes "0 < q" "0 < j" "q \<noteq> j"
  shows "covers j q \<longleftrightarrow> covers j (q + low_bit q)"
proof -
  obtain a u where q: "q = 2 ^ a * (2 * u + 1)" "low_bit q = 2 ^ a" by (rule low_bit_cases [OF assms(1)])
  obtain b v where j: "j = 2 ^ b * (2 * v + 1)" "low_bit j = 2 ^ b" by (rule low_bit_cases [OF assms(2)])
  have jl: "j - low_bit j = 2 ^ b * (2 * v)" unfolding j(2) by (subst j(1)) (simp add: algebra_simps)
  have ql: "q + low_bit q = 2 ^ a * (2 * u + 2)" unfolding q(2) by (subst q(1)) (simp add: algebra_simps)
  show ?thesis
  proof (cases "a < b")
    case True
    then obtain c where b: "b = a + Suc c" by (metis add_Suc_right less_imp_Suc_add)
    define w where "w = (2 :: nat) ^ c"
    have e: "j = 2 ^ a * (2 * w * (2 * v + 1))" "j - low_bit j = 2 ^ a * (2 * w * (2 * v))" "q + low_bit q = 2 ^ a * (2 * u + 2)"
      unfolding jl ql using j(1) by (simp_all add: b w_def power_add mult_ac)
    have "covers j q \<longleftrightarrow> 2 * w * (2 * v) < 2 * u + 1 \<and> 2 * u + 1 \<le> 2 * w * (2 * v + 1)"
      unfolding covers_def e(2) unfolding e(1) q(1) cancel_pow2 ..
    also have "\<dots> \<longleftrightarrow> 2 * w * (2 * v) < 2 * u + 2 \<and> 2 * u + 2 \<le> 2 * w * (2 * v + 1)"
    proof -
      have "2 * y < 2 * u + 1 \<longleftrightarrow> 2 * y < 2 * u + 2" "2 * u + 1 \<le> 2 * y \<longleftrightarrow> 2 * u + 2 \<le> 2 * y" for y :: nat
        by presburger+
      then show ?thesis unfolding mult.assoc by blast
    qed
    also have "\<dots> \<longleftrightarrow> covers j (q + low_bit q)"
      unfolding covers_def e(2,3) unfolding e(1) cancel_pow2 ..
    finally show ?thesis .
  next
    case False
    then obtain c where a: "a = b + c" by (metis le_Suc_ex not_less)
    define w where "w = (2 :: nat) ^ c"
    have e: "q = 2 ^ b * (w * (2 * u + 1))" "j - low_bit j = 2 ^ b * (2 * v)" "q + low_bit q = 2 ^ b * (w * (2 * u + 2))"
      unfolding jl ql using q(1) by (simp_all add: a w_def power_add algebra_simps)
    have "\<not> covers j q"
    proof
      assume "covers j q"
      then have "2 * v < w * (2 * u + 1)" "w * (2 * u + 1) \<le> 2 * v + 1"
        unfolding covers_def e(2) unfolding e(1) j(1) cancel_pow2 by blast+
      then have "w * (2 * u + 1) = 2 * v + 1" by simp
      with assms(3) e(1) j(1) show False by simp
    qed
    moreover have "\<not> covers j (q + low_bit q)"
    proof
      assume "covers j (q + low_bit q)"
      then have "2 * v < w * (2 * u + 2)" "w * (2 * u + 2) \<le> 2 * v + 1"
        unfolding covers_def e(2,3) unfolding j(1) cancel_pow2 by blast+
      then have "w * (2 * u + 2) = 2 * v + 1" by simp
      moreover have "even (w * (2 * u + 2))" by simp
      ultimately show False by simp
    qed
    ultimately show ?thesis by simp
  qed
qed

section \<open>The tree counts\<close>

text \<open>The positions added so far, latest first.\<close>

definition fen_counts :: "nat list \<Rightarrow> nat \<Rightarrow> nat list \<Rightarrow> bool" where
  "fen_counts bits n ps \<longleftrightarrow> length bits = n + 1
    \<and> (\<forall>j. 0 < j \<longrightarrow> j \<le> n \<longrightarrow> bits ! j = length (filter (\<lambda>p. covers j (p + 1)) ps))"

lemma fen_counts_empty: "fen_counts (replicate (n + 1) 0) n []"
  by (simp add: fen_counts_def del: replicate.simps replicate_Suc)

lemma fen_add_loop_nth:
  assumes "0 < i" "length bits = n + 1"
  shows "\<exists>bits'. fen_add_loop bits n i = Some bits' \<and> length bits' = n + 1
    \<and> (\<forall>j. 0 < j \<longrightarrow> j \<le> n \<longrightarrow> bits' ! j = bits ! j + of_bool (covers j i))"
  using assms
proof (induction "n + 1 - i" arbitrary: i bits rule: less_induct)
  case less
  show ?case
  proof (cases "i \<le> n")
    case False
    then have "fen_add_loop bits n i = Some bits" by (simp add: fen_add_loop.simps)
    moreover have "\<not> covers j i" if "j \<le> n" for j using that False by (simp add: covers_def)
    ultimately show ?thesis using less.prems by simp
  next
    case True
    note lb = low_bit_range(1) [OF less.prems(1)]
    let ?b = "bits[i := bits ! i + 1]"
    have s: "fen_add_loop bits n i = fen_add_loop ?b n (i + low_bit i)"
      using True less.prems by (subst fen_add_loop.simps) (simp add: at_def)
    obtain b' where b': "fen_add_loop ?b n (i + low_bit i) = Some b'" "length b' = n + 1"
      "\<And>j. 0 < j \<Longrightarrow> j \<le> n \<Longrightarrow> b' ! j = ?b ! j + of_bool (covers j (i + low_bit i))"
      using less.hyps [of "i + low_bit i" ?b] less.prems True lb by (auto simp: diff_less_mono2)
    have "b' ! j = bits ! j + of_bool (covers j i)" if j: "0 < j" "j \<le> n" for j
    proof (cases "j = i")
      case eq: True
      then have "covers j i" "\<not> covers j (i + low_bit i)" using lb less.prems(1) by (simp_all add: covers_def)
      then show ?thesis using b'(3) [OF j] eq True less.prems by simp
    next
      case False
      then show ?thesis using b'(3) [OF j] covers_step [OF less.prems(1) j(1)] by simp
    qed
    with s b'(1,2) show ?thesis by auto
  qed
qed

lemma cg_fen_add_counts:
  assumes "fen_counts bits n ps"
  shows "\<exists>bits'. cg_fen_add bits n pos = Some bits' \<and> fen_counts bits' n (pos # ps)"
proof -
  obtain b' where "fen_add_loop bits n (pos + 1) = Some b'" "length b' = n + 1"
    "\<And>j. 0 < j \<Longrightarrow> j \<le> n \<Longrightarrow> b' ! j = bits ! j + of_bool (covers j (pos + 1))"
    using fen_add_loop_nth [of "pos + 1" bits n] assms by (auto simp: fen_counts_def)
  then show ?thesis using assms by (auto simp: fen_counts_def cg_fen_add_def)
qed

lemma fen_below_loop_counts:
  assumes "fen_counts bits n ps" "i \<le> n"
  shows "fen_below_loop bits i s = Some (s + length (filter (\<lambda>p. p < i) ps))"
  using assms(2)
proof (induction i arbitrary: s rule: less_induct)
  case (less i)
  show ?case
  proof (cases "i = 0")
    case True
    then show ?thesis by (simp add: fen_below_loop.simps)
  next
    case False
    then have i: "0 < i" by simp
    let ?j = "i - low_bit i"
    have "bits ! i = length (filter (\<lambda>p. covers i (p + 1)) ps)" "i < length bits"
      using assms(1) i less.prems by (simp_all add: fen_counts_def)
    then have "fen_below_loop bits i s = fen_below_loop bits ?j (s + length (filter (\<lambda>p. covers i (p + 1)) ps))"
      using i by (subst fen_below_loop.simps) (simp add: at_def)
    also have "\<dots> = Some (s + length (filter (\<lambda>p. covers i (p + 1)) ps) + length (filter (\<lambda>p. p < ?j) ps))"
      using less.prems low_bit_range [OF i] i by (intro less.IH) simp_all
    also have "s + length (filter (\<lambda>p. covers i (p + 1)) ps) + length (filter (\<lambda>p. p < ?j) ps) = s + length (filter (\<lambda>p. p < i) ps)"
      by (induction ps) (auto simp: covers_def)
    finally show ?thesis by simp
  qed
qed

lemma cg_fen_below_counts:
  "fen_counts bits n ps \<Longrightarrow> x \<le> n \<Longrightarrow> cg_fen_below bits x = Some (length (filter (\<lambda>p. p < x) ps))"
  unfolding cg_fen_below_def using fen_below_loop_counts [of bits n ps x 0] by simp

section \<open>Counters\<close>

text \<open>What branch relaxation needs of the tree: positions are added, and it answers how many of them are
  below a bound. Two counters that were given the same positions in any order answer alike.\<close>

locale position_counter =
  fixes counts :: "'s \<Rightarrow> nat \<Rightarrow> nat list \<Rightarrow> bool"
    and add :: "'s \<Rightarrow> nat \<Rightarrow> nat \<Rightarrow> 's option"
    and below :: "'s \<Rightarrow> nat \<Rightarrow> nat option"
  assumes add_counts: "counts s n ps \<Longrightarrow> \<exists>s'. add s n p = Some s' \<and> counts s' n (p # ps)"
    and below_counts: "counts s n ps \<Longrightarrow> x \<le> n \<Longrightarrow> below s x = Some (length (filter (\<lambda>p. p < x) ps))"
begin

lemma add_below:
  assumes "counts s n ps" "x \<le> n" "add s n p = Some s'"
  shows "below s' x = map_option (\<lambda>k. k + of_bool (p < x)) (below s x)"
  using add_counts [OF assms(1), of p] assms below_counts [OF assms(1,2)] below_counts [of s' n "p # ps" x] by auto

lemma order_irrelevant:
  assumes "counts s n ps" "counts t n qs" "mset ps = mset qs" "x \<le> n"
  shows "below s x = below t x"
proof -
  have "length (filter P ps) = length (filter P qs)" for P
    using assms(3) by (metis mset_filter size_mset)
  then show ?thesis using below_counts assms by metis
qed

end

interpretation fen: position_counter fen_counts cg_fen_add cg_fen_below
  by unfold_locales (rule cg_fen_add_counts cg_fen_below_counts; assumption)+

end
