(* ===== verification/Branches.thy ===== *)
theory Branches
  imports Fenwick Semantics "HOL-Library.Monad_Syntax"
begin

text \<open>
  Instruction encoding and branch fix-up of the translator (\<open>src/tools/translator/translator.c\<close>): the
  encoders, the queue of branches whose target blocks are not placed yet, the relaxation of conditional
  branches that are out of reach of their 8-bit field, and the final patching of the displacements. A
  basic block is an element of a type \<open>'b\<close> (an LLVM handle, compared by identity). Positions in the code
  array are natural numbers: the array has fewer than \<open>2^31\<close> words. \<open>None\<close> is an access outside an array;
  \<open>Inl ()\<close> is the error return. Failing allocations end the process and are not modelled.
\<close>

section \<open>Encoders\<close>

definition enc_r :: "u8 \<Rightarrow> u8 \<Rightarrow> u8 \<Rightarrow> u8 \<Rightarrow> u32" where
  "enc_r op a b c = ucast op OR push_bit 8 (ucast a) OR push_bit 16 (ucast b) OR push_bit 24 (ucast c)"

definition enc_i16 :: "u8 \<Rightarrow> u8 \<Rightarrow> u16 \<Rightarrow> u32" where
  "enc_i16 op a imm = ucast op OR push_bit 8 (ucast a) OR push_bit 16 (ucast imm)"

definition enc_i24 :: "u8 \<Rightarrow> u32 \<Rightarrow> u32" where
  "enc_i24 op imm = ucast op OR push_bit 8 (imm AND 0xFFFFFF)"

definition enc_br :: "u8 \<Rightarrow> u8 \<Rightarrow> u8 \<Rightarrow> u8 \<Rightarrow> u32" where
  "enc_br op a b off = ucast op OR push_bit 8 (ucast a) OR push_bit 16 (ucast b) OR push_bit 24 (ucast off)"

section \<open>The code generator's state\<close>

record 'b cg_fixup =
  fx_inst_index :: nat
  fx_target :: 'b
  fx_shift :: nat
  fx_bits :: nat

record 'b cg_table_fixup =
  tf_data_off :: nat
  tf_target :: 'b

record 'b cg =
  cg_code :: "u32 list"
  cg_blocks :: "'b list"
  cg_block_offsets :: "nat list"
  cg_fixups :: "'b cg_fixup list"
  cg_table_fixups :: "'b cg_table_fixup list"
  cg_data_bytes :: "byte list"

definition cg_emit :: "u32 \<Rightarrow> ('b, 'm) cg_scheme \<Rightarrow> ('b, 'm) cg_scheme" where
  "cg_emit inst cg = cg\<lparr>cg_code := cg_code cg @ [inst]\<rparr>"

primrec index_of :: "'a \<Rightarrow> 'a list \<Rightarrow> nat option" where
  "index_of x [] = None"
| "index_of x (y # ys) = (if y = x then Some 0 else map_option Suc (index_of x ys))"

definition cg_find_block :: "'b cg \<Rightarrow> 'b \<Rightarrow> nat option" where
  "cg_find_block cg bb = index_of bb (cg_blocks cg)"

definition cg_register_block :: "'b \<Rightarrow> 'b cg \<Rightarrow> 'b cg" where
  "cg_register_block bb cg =
     cg\<lparr>cg_blocks := cg_blocks cg @ [bb], cg_block_offsets := cg_block_offsets cg @ [0]\<rparr>"

definition cg_queue_fixup :: "nat \<Rightarrow> 'b \<Rightarrow> nat \<Rightarrow> nat \<Rightarrow> ('b, 'm) cg_scheme \<Rightarrow> ('b, 'm) cg_scheme" where
  "cg_queue_fixup inst_index target shift bits cg =
     cg\<lparr>cg_fixups := cg_fixups cg @ [\<lparr>fx_inst_index = inst_index, fx_target = target, fx_shift = shift, fx_bits = bits\<rparr>]\<rparr>"

definition cg_queue_table_fixup :: "nat \<Rightarrow> 'b \<Rightarrow> ('b, 'm) cg_scheme \<Rightarrow> ('b, 'm) cg_scheme" where
  "cg_queue_table_fixup doff target cg =
     cg\<lparr>cg_table_fixups := cg_table_fixups cg @ [\<lparr>tf_data_off = doff, tf_target = target\<rparr>]\<rparr>"

section \<open>Relaxation\<close>

text \<open>\<open>target_b\<close>: the block index of every 8-bit fixup, the error return when one is not registered.\<close>

primrec target_blocks :: "'b cg \<Rightarrow> 'b cg_fixup list \<Rightarrow> nat option list option" where
  "target_blocks cg [] = Some []"
| "target_blocks cg (fx # fxs) =
     (if fx_bits fx \<noteq> 8 then map_option ((#) None) (target_blocks cg fxs)
      else case cg_find_block cg (fx_target fx) of None \<Rightarrow> None
           | Some b \<Rightarrow> map_option ((#) (Some b)) (target_blocks cg fxs))"

text \<open>One turn of the inner loop on \<open>(relaxed, bit, changed)\<close>.\<close>

definition relax_fixup ::
  "'b cg \<Rightarrow> nat option list \<Rightarrow> nat \<Rightarrow> bool list \<times> nat list \<times> bool \<Rightarrow> (bool list \<times> nat list \<times> bool) option" where
  "relax_fixup cg target_b i st = (case st of (relaxed, tree, changed) \<Rightarrow>
     do {
       fx \<leftarrow> at (cg_fixups cg) i;
       r \<leftarrow> at relaxed i;
       if fx_bits fx \<noteq> 8 \<or> r then Some (relaxed, tree, changed)
       else do {
         tb \<leftarrow> at target_b i;
         b \<leftarrow> tb;
         orig_target \<leftarrow> at (cg_block_offsets cg) b;
         let orig_pc_after = fx_inst_index fx + 1;
         target_displ \<leftarrow> cg_fen_below tree orig_target;
         pc_displ \<leftarrow> cg_fen_below tree orig_pc_after;
         let rel = int (orig_target + target_displ) - int (orig_pc_after + pc_displ);
         if rel < - 128 \<or> rel > 127 then do {
           tree' \<leftarrow> cg_fen_add tree (length (cg_code cg)) (fx_inst_index fx);
           Some (relaxed[i := True], tree', True)
         } else Some (relaxed, tree, changed)
       }
     })"

primrec relax_pass ::
  "'b cg \<Rightarrow> nat option list \<Rightarrow> nat list \<Rightarrow> bool list \<times> nat list \<times> bool \<Rightarrow> (bool list \<times> nat list \<times> bool) option" where
  "relax_pass cg target_b [] st = Some st"
| "relax_pass cg target_b (i # is) st = Option.bind (relax_fixup cg target_b i st) (relax_pass cg target_b is)"

text \<open>\<open>for (it = 0; it <= fixup_count; ++it)\<close>, left when a pass changes nothing.\<close>

primrec relax_passes ::
  "'b cg \<Rightarrow> nat option list \<Rightarrow> nat \<Rightarrow> bool list \<times> nat list \<Rightarrow> (bool list \<times> nat list) option" where
  "relax_passes cg target_b 0 st = Some st"
| "relax_passes cg target_b (Suc k) st =
     do {
       (relaxed, tree, changed) \<leftarrow> relax_pass cg target_b [0..<length (cg_fixups cg)] (fst st, snd st, False);
       if changed then relax_passes cg target_b k (relaxed, tree) else Some (relaxed, tree)
     }"

text \<open>\<open>extra[op]\<close>, a byte per instruction.\<close>

definition extra_at :: "'b cg_fixup list \<Rightarrow> bool list \<Rightarrow> nat \<Rightarrow> nat" where
  "extra_at fxs relaxed op =
     length (filter (\<lambda>(fx, r). r \<and> fx_inst_index fx = op) (zip fxs relaxed)) mod 256"

text \<open>The copy loop: \<open>new_code\<close> and \<open>new_pos_of\<close> from instruction \<open>op\<close> and new position \<open>np\<close> on.\<close>

primrec rebuild :: "(nat \<Rightarrow> nat) \<Rightarrow> nat \<Rightarrow> nat \<Rightarrow> u32 list \<Rightarrow> u32 list \<times> nat list" where
  "rebuild extra op np [] = ([], [])"
| "rebuild extra op np (w # ws) =
     (let (code, pos) = rebuild extra (op + 1) (np + 1 + extra op) ws in
      (w # replicate (extra op) (enc_i24 (op_value CVM_OP_JMP) 0) @ code, np # pos))"

definition flip_op :: "u8 \<Rightarrow> u8" where
  "flip_op op = (if op = op_value CVM_OP_BNE then op_value CVM_OP_BEQ
     else if op = op_value CVM_OP_BEQ then op_value CVM_OP_BNE else op)"

definition flip_branch :: "u32 \<Rightarrow> u32" where
  "flip_branch orig =
     (let op = ucast (orig AND 0xFF); rs1 = ucast (drop_bit 8 orig AND 0xFF); rs2 = ucast (drop_bit 16 orig AND 0xFF) in
      enc_br (flip_op op) rs1 rs2 1)"

text \<open>The rewrite loop over the relaxed fixups.\<close>

primrec rewrite_branches :: "nat list \<Rightarrow> ('b cg_fixup \<times> bool) list \<Rightarrow> u32 list \<Rightarrow> u32 list option" where
  "rewrite_branches new_pos [] code = Some code"
| "rewrite_branches new_pos (fr # frs) code =
     (if \<not> snd fr then rewrite_branches new_pos frs code
      else do {
        pos \<leftarrow> at new_pos (fx_inst_index (fst fr));
        orig \<leftarrow> at code pos;
        rewrite_branches new_pos frs (code[pos := flip_branch orig])
      })"

definition move_fixup :: "nat list \<Rightarrow> 'b cg_fixup \<times> bool \<Rightarrow> 'b cg_fixup option" where
  "move_fixup new_pos fr =
     map_option (\<lambda>p. if snd fr then (fst fr)\<lparr>fx_inst_index := p + 1, fx_shift := 8, fx_bits := 24\<rparr>
       else (fst fr)\<lparr>fx_inst_index := p\<rparr>) (at new_pos (fx_inst_index (fst fr)))"

primrec move_fixups :: "nat list \<Rightarrow> ('b cg_fixup \<times> bool) list \<Rightarrow> 'b cg_fixup list option" where
  "move_fixups new_pos [] = Some []"
| "move_fixups new_pos (fr # frs) =
     do { fx \<leftarrow> move_fixup new_pos fr; fxs \<leftarrow> move_fixups new_pos frs; Some (fx # fxs) }"

text \<open>The passes, then the new code array and the moved fixups and blocks.\<close>

definition relax_apply :: "'b cg \<Rightarrow> bool list \<Rightarrow> 'b cg option" where
  "relax_apply cg relaxed =
     (let fxs = cg_fixups cg; old_size = length (cg_code cg) in
      if True \<notin> set relaxed then Some cg
      else if \<exists>fr \<in> set (zip fxs relaxed). snd fr \<and> fx_inst_index (fst fr) \<ge> old_size then None
      else (case rebuild (extra_at fxs relaxed) 0 0 (cg_code cg) of (code, new_pos) \<Rightarrow>
        do {
          code' \<leftarrow> rewrite_branches new_pos (zip fxs relaxed) code;
          fxs' \<leftarrow> move_fixups new_pos (zip fxs relaxed);
          Some (cg\<lparr>cg_code := code', cg_fixups := fxs',
            cg_block_offsets := map (\<lambda>orig. if orig < old_size then new_pos ! orig
              else old_size + length (filter id relaxed)) (cg_block_offsets cg)\<rparr>)
        }))"

definition cg_relax_branches :: "'b cg \<Rightarrow> (unit + 'b cg) option" where
  "cg_relax_branches cg =
     (if cg_fixups cg = [] then Some (Inr cg)
      else case target_blocks cg (cg_fixups cg) of None \<Rightarrow> Some (Inl ())
      | Some target_b \<Rightarrow>
        do {
          (relaxed, tree) \<leftarrow> relax_passes cg target_b (length (cg_fixups cg) + 1)
            (replicate (length (cg_fixups cg)) False, replicate (length (cg_code cg) + 1) 0);
          map_option Inr (relax_apply cg relaxed)
        })"

section \<open>Resolution\<close>

definition resolve_fixup :: "'b cg \<Rightarrow> 'b cg_fixup \<Rightarrow> u32 list \<Rightarrow> (unit + u32 list) option" where
  "resolve_fixup cg fx code =
     (case cg_find_block cg (fx_target fx) of None \<Rightarrow> Some (Inl ())
      | Some b \<Rightarrow>
        do {
          target_off \<leftarrow> at (cg_block_offsets cg) b;
          let rel = int target_off - (int (fx_inst_index fx) + 1);
          let maxv = 2 ^ (fx_bits fx - 1) - 1;
          let minv = - maxv - 1;
          if rel < minv \<or> rel > maxv then Some (Inl ())
          else do {
            w \<leftarrow> at code (fx_inst_index fx);
            let msk = (if fx_bits fx = 32 then 0xFFFFFFFF else push_bit (fx_bits fx) 1 - 1);
            Some (Inr (code[fx_inst_index fx := w OR push_bit (fx_shift fx) (of_int rel AND msk)]))
          }
        })"

primrec resolve_loop :: "'b cg \<Rightarrow> 'b cg_fixup list \<Rightarrow> u32 list \<Rightarrow> (unit + u32 list) option" where
  "resolve_loop cg [] code = Some (Inr code)"
| "resolve_loop cg (fx # fxs) code =
     do {
       r \<leftarrow> resolve_fixup cg fx code;
       case r of Inl e \<Rightarrow> Some (Inl e) | Inr code' \<Rightarrow> resolve_loop cg fxs code'
     }"

definition cg_resolve_fixups :: "'b cg \<Rightarrow> (unit + 'b cg) option" where
  "cg_resolve_fixups cg =
     do {
       r \<leftarrow> resolve_loop cg (cg_fixups cg) (cg_code cg);
       case r of Inl e \<Rightarrow> Some (Inl e) | Inr code \<Rightarrow> Some (Inr (cg\<lparr>cg_code := code\<rparr>))
     }"

text \<open>Jump-table entries: the absolute position of the block, little-endian, in the DATA bytes.\<close>

primrec resolve_table_loop :: "'b cg \<Rightarrow> 'b cg_table_fixup list \<Rightarrow> byte list \<Rightarrow> (unit + byte list) option" where
  "resolve_table_loop cg [] data = Some (Inr data)"
| "resolve_table_loop cg (fx # fxs) data =
     (case cg_find_block cg (tf_target fx) of None \<Rightarrow> Some (Inl ())
      | Some b \<Rightarrow>
        do {
          off \<leftarrow> at (cg_block_offsets cg) b;
          data' \<leftarrow> wr32 data (tf_data_off fx) (of_nat off);
          resolve_table_loop cg fxs data'
        })"

definition cg_resolve_table_fixups :: "'b cg \<Rightarrow> (unit + 'b cg) option" where
  "cg_resolve_table_fixups cg =
     do {
       r \<leftarrow> resolve_table_loop cg (cg_table_fixups cg) (cg_data_bytes cg);
       case r of Inl e \<Rightarrow> Some (Inl e) | Inr data \<Rightarrow> Some (Inr (cg\<lparr>cg_data_bytes := data\<rparr>))
     }"

end
