(* ===== verification/Codegen.thy ===== *)
theory Codegen
  imports Branches
begin

text \<open>
  Emitted instructions on the machine: the fields of encoded words, the steps of the instructions the
  translator emits for branches, and runs of several instructions.
\<close>

section \<open>Fields of encoded instructions\<close>

lemma enc_r_encode: "enc_r op a b c = encode op a b c" "enc_br op a b c = encode op a b c"
  by (simp_all add: enc_r_def enc_br_def encode_def le32_def)

lemma enc_fields [simp]:
  "i_op (enc_br op a b c) = op" "i_a (enc_br op a b c) = a" "i_b (enc_br op a b c) = b" "i_c (enc_br op a b c) = c"
  "i_op (enc_r op a b c) = op" "i_a (enc_r op a b c) = a" "i_b (enc_r op a b c) = b" "i_c (enc_r op a b c) = c"
  by (simp_all add: enc_r_encode)

lemma mask24: "(0xFFFFFF :: u32) = mask 24"
  by (simp add: mask_eq_exp_minus_1)

lemma enc_imm_fields [simp]:
  "i_op (enc_i16 op a imm) = op" "i_a (enc_i16 op a imm) = a" "drop_bit 16 (enc_i16 op a imm) = ucast imm"
  "i_op (enc_i24 op jmm) = op" "ucast (drop_bit 8 (enc_i24 op jmm)) = (ucast jmm :: 24 word)"
  unfolding i_op_def i_a_def ucast_mask8 enc_i16_def enc_i24_def mask24
  by (rule bit_word_eqI; auto simp: bit_simps dest: bit_imp_le_length)+

lemma sint_of_int24: "- (2 ^ 23) \<le> k \<Longrightarrow> k < 2 ^ 23 \<Longrightarrow> sint (of_int k :: 24 word) = k"
  by (simp add: signed_of_int signed_take_bit_int_eq_self)

lemma sint_of_int8: "- 128 \<le> k \<Longrightarrow> k \<le> 127 \<Longrightarrow> sint (of_int k :: u8) = k"
  by (simp add: signed_of_int signed_take_bit_int_eq_self)

lemma jmp_offset_enc:
  "- (2 ^ 23) \<le> k \<Longrightarrow> k < 2 ^ 23 \<Longrightarrow> jmp_offset (enc_i24 op (of_int k)) = k"
proof -
  have "ucast (of_int k :: u32) = (of_int k :: 24 word)" by (rule bit_word_eqI) (simp add: bit_simps)
  then show "- (2 ^ 23) \<le> k \<Longrightarrow> k < 2 ^ 23 \<Longrightarrow> jmp_offset (enc_i24 op (of_int k)) = k"
    unfolding jmp_offset_sint enc_imm_fields by (simp only: sint_of_int24)
qed

text \<open>Patching the displacement field of a word encoded with displacement 0.\<close>

lemma patch_field:
  "enc_i24 op 0 OR push_bit 8 (w AND (push_bit 24 1 - 1)) = enc_i24 op w"
  "enc_br op a b 0 OR push_bit 24 (w AND (push_bit 8 1 - 1)) = enc_br op a b (ucast w)"
proof -
  have m: "push_bit n 1 - 1 = (mask n :: u32)" for n by (simp add: mask_eq_exp_minus_1)
  show "enc_i24 op 0 OR push_bit 8 (w AND (push_bit 24 1 - 1)) = enc_i24 op w"
    unfolding m enc_i24_def mask24 by (rule bit_word_eqI) (auto simp: bit_simps)
  show "enc_br op a b 0 OR push_bit 24 (w AND (push_bit 8 1 - 1)) = enc_br op a b (ucast w)"
    unfolding m enc_br_def by (rule bit_word_eqI) (auto simp: bit_simps)
qed

section \<open>Steps of branches\<close>

text \<open>A machine whose context runs the given code.\<close>

definition runs_code :: "'h ctx \<Rightarrow> u32 list \<Rightarrow> bool" where
  "runs_code cx code \<longleftrightarrow> cx_code cx = code \<and> cx_code_count cx = of_nat (length code) \<and> length code < 2 ^ 31"

lemma dispatch_at:
  assumes "runs_code cx code" "vm_pc s = of_nat p" "p < length code" "map_of jt (i_op (code ! p)) = Some l"
  shows "DISPATCH cx s = l cx (code ! p) (i_a (code ! p)) (i_b (code ! p)) (i_c (code ! p)) (set_pc s (of_nat (Suc p)))"
proof -
  have n: "length code < 2 ^ 31" and c: "cx_code cx = code" "cx_code_count cx = of_nat (length code)"
    using assms(1) by (simp_all add: runs_code_def)
  have u: "unat (of_nat k :: u32) = k" if "k \<le> length code" for k using that n by (intro unat_of_nat32) simp
  have "\<not> vm_pc s \<ge> cx_code_count cx" unfolding assms(2) c word_le_nat_alt using u assms(3) by simp
  moreover have "unat (vm_pc s) = p" unfolding assms(2) using u assms(3) by simp
  moreover have "vm_pc s + 1 = of_nat (Suc p)" unfolding assms(2) by simp
  ultimately show ?thesis using assms(3,4) c by (simp add: DISPATCH_def at_def Let_def add.commute)
qed

lemma branch_within:
  assumes "vm_pc s = of_nat (Suc p)" "Suc p < 2 ^ 31" "int (Suc p) + off = int q" "q < 2 ^ 31"
  shows "branch s off = Running (set_pc s (of_nat q))"
proof -
  have "sint (vm_pc s) = int (Suc p)" unfolding assms(1) using assms(2) by (simp add: signed_of_nat signed_take_bit_int_eq_self del: of_nat_Suc)
  then have t: "sint (vm_pc s) + off = int q" using assms(3) by simp
  then show ?thesis unfolding branch_def Let_def t using assms(4) by (simp add: in_i32_def)
qed

end
