(* ===== verification/Branches_Correct.thy ===== *)
theory Branches_Correct
  imports Codegen
begin

text \<open>
  Branch relaxation reaches a fixed point, rebuilds the code at shifted positions, and resolution then
  finds every displacement in range; the patched code branches where the queued fixups say.
\<close>

section \<open>Well-formed functions\<close>

text \<open>A queued branch: a conditional one with an 8-bit field, or a jump with a 24-bit field, the field
  still 0, to a registered block.\<close>

definition fixup_ok :: "'b cg \<Rightarrow> 'b cg_fixup \<Rightarrow> bool" where
  "fixup_ok cg fx \<longleftrightarrow> fx_inst_index fx < length (cg_code cg) \<and> fx_target fx \<in> set (cg_blocks cg)
    \<and> (fx_bits fx = 8 \<and> fx_shift fx = 24
        \<and> (\<exists>op a b. op \<in> {op_value CVM_OP_BEQ, op_value CVM_OP_BNE} \<and> cg_code cg ! fx_inst_index fx = enc_br op a b 0)
      \<or> fx_bits fx = 24 \<and> fx_shift fx = 8 \<and> cg_code cg ! fx_inst_index fx = enc_i24 (op_value CVM_OP_JMP) 0)"

definition cg_ok :: "'b cg \<Rightarrow> bool" where
  "cg_ok cg \<longleftrightarrow> length (cg_block_offsets cg) = length (cg_blocks cg)
    \<and> (\<forall>off \<in> set (cg_block_offsets cg). off \<le> length (cg_code cg))
    \<and> (\<forall>fx \<in> set (cg_fixups cg). fixup_ok cg fx)
    \<and> distinct (map fx_inst_index (cg_fixups cg))
    \<and> length (cg_code cg) + length (cg_fixups cg) < 2 ^ 23"

lemma index_of_Some: "x \<in> set xs \<Longrightarrow> \<exists>i. index_of x xs = Some i \<and> i < length xs \<and> xs ! i = x"
  by (induction xs) fastforce+

text \<open>Where a fixup's target is.\<close>

definition target_of :: "'b cg \<Rightarrow> 'b cg_fixup \<Rightarrow> nat" where
  "target_of cg fx = cg_block_offsets cg ! the (cg_find_block cg (fx_target fx))"

lemma find_block_ok:
  assumes "cg_ok cg" "fx_target fx \<in> set (cg_blocks cg)"
  obtains b where "cg_find_block cg (fx_target fx) = Some b" "at (cg_block_offsets cg) b = Some (target_of cg fx)"
    "target_of cg fx \<le> length (cg_code cg)"
proof -
  obtain b where "cg_find_block cg (fx_target fx) = Some b" "b < length (cg_blocks cg)"
    using index_of_Some [OF assms(2)] unfolding cg_find_block_def by blast
  then show ?thesis using assms(1) by (intro that) (auto simp: target_of_def at_def cg_ok_def)
qed

lemma target_blocks_ok:
  assumes "cg_ok cg" "\<forall>fx \<in> set fxs. fixup_ok cg fx"
  shows "\<exists>tb. target_blocks cg fxs = Some tb \<and> length tb = length fxs
    \<and> (\<forall>i < length fxs. fx_bits (fxs ! i) = 8 \<longrightarrow> tb ! i = cg_find_block cg (fx_target (fxs ! i)))"
  using assms(2)
proof (induction fxs)
  case (Cons fx fxs)
  then obtain tb where tb: "target_blocks cg fxs = Some tb" "length tb = length fxs"
    "\<forall>i < length fxs. fx_bits (fxs ! i) = 8 \<longrightarrow> tb ! i = cg_find_block cg (fx_target (fxs ! i))" by auto
  obtain b where b: "cg_find_block cg (fx_target fx) = Some b"
    by (rule find_block_ok [OF assms(1), of fx]) (use Cons.prems in \<open>simp_all add: fixup_ok_def\<close>)
  have "target_blocks cg (fx # fxs) = Some ((if fx_bits fx \<noteq> 8 then None else Some b) # tb)"
    using tb(1) b by simp
  moreover have "((if fx_bits fx \<noteq> 8 then None else Some b) # tb) ! i = cg_find_block cg (fx_target ((fx # fxs) ! i))"
    if "i < length (fx # fxs)" "fx_bits ((fx # fxs) ! i) = 8" for i
    using that tb(2,3) b by (cases i) simp_all
  ultimately show ?case using tb(2) by auto
qed simp

section \<open>The passes\<close>

text \<open>The positions of the relaxed branches, and how far they move an instruction.\<close>

definition relaxed_at :: "'b cg \<Rightarrow> bool list \<Rightarrow> nat set" where
  "relaxed_at cg r = {fx_inst_index (cg_fixups cg ! i) |i. i < length (cg_fixups cg) \<and> r ! i}"

definition new_pos :: "'b cg \<Rightarrow> bool list \<Rightarrow> nat \<Rightarrow> nat" where
  "new_pos cg r x = x + card {p \<in> relaxed_at cg r. p < x}"

definition relax_inv :: "'b cg \<Rightarrow> bool list \<Rightarrow> nat list \<Rightarrow> bool" where
  "relax_inv cg r tree \<longleftrightarrow> length r = length (cg_fixups cg)
    \<and> (\<forall>i < length r. r ! i \<longrightarrow> fx_bits (cg_fixups cg ! i) = 8)
    \<and> (\<exists>ps. distinct ps \<and> set ps = relaxed_at cg r \<and> fen_counts tree (length (cg_code cg)) ps)"

definition in_reach :: "'b cg \<Rightarrow> bool list \<Rightarrow> nat \<Rightarrow> bool" where
  "in_reach cg r i \<longleftrightarrow> (let fx = cg_fixups cg ! i; d = int (new_pos cg r (target_of cg fx)) - int (new_pos cg r (fx_inst_index fx + 1)) in
    fx_bits fx = 8 \<longrightarrow> \<not> r ! i \<longrightarrow> - 128 \<le> d \<and> d \<le> 127)"

lemma relax_inv_below:
  assumes "relax_inv cg r tree" "x \<le> length (cg_code cg)"
  shows "\<exists>k. cg_fen_below tree x = Some k \<and> x + k = new_pos cg r x"
proof -
  obtain ps where ps: "distinct ps" "set ps = relaxed_at cg r" "fen_counts tree (length (cg_code cg)) ps"
    using assms(1) by (auto simp: relax_inv_def)
  have "length (filter (\<lambda>p. p < x) ps) = card {p \<in> relaxed_at cg r. p < x}"
    using ps(1,2) by (metis distinct_card distinct_filter set_filter)
  then show ?thesis using fen.below_counts [OF ps(3) assms(2)] by (simp add: new_pos_def)
qed

lemma relaxed_at_update:
  assumes "i < length (cg_fixups cg)" "length r = length (cg_fixups cg)" "\<not> r ! i"
    "distinct (map fx_inst_index (cg_fixups cg))"
  shows "relaxed_at cg (r[i := True]) = insert (fx_inst_index (cg_fixups cg ! i)) (relaxed_at cg r)"
    "fx_inst_index (cg_fixups cg ! i) \<notin> relaxed_at cg r"
proof -
  show "relaxed_at cg (r[i := True]) = insert (fx_inst_index (cg_fixups cg ! i)) (relaxed_at cg r)"
    unfolding relaxed_at_def using assms(1-3) by (auto simp: nth_list_update)
  show "fx_inst_index (cg_fixups cg ! i) \<notin> relaxed_at cg r"
    unfolding relaxed_at_def using assms(1,3,4) by (auto simp: distinct_conv_nth)
qed

definition trues :: "bool list \<Rightarrow> nat" where "trues r = length (filter id r)"

lemma trues_update: "i < length r \<Longrightarrow> \<not> r ! i \<Longrightarrow> trues (r[i := True]) = Suc (trues r)"
  unfolding trues_def
proof (induction r arbitrary: i)
  case (Cons x r)
  then show ?case by (cases i) auto
qed simp

lemma relax_fixup_step:
  assumes ok: "cg_ok cg" and inv: "relax_inv cg r tree" and i: "i < length (cg_fixups cg)"
    and tb: "target_blocks cg (cg_fixups cg) = Some tb"
  shows "\<exists>r' tree' c'. relax_fixup cg tb i (r, tree, c) = Some (r', tree', c') \<and> relax_inv cg r' tree'
    \<and> (r' = r \<and> tree' = tree \<and> c' = c \<and> in_reach cg r i \<or> trues r' = Suc (trues r) \<and> c')"
proof -
  define fx where "fx = cg_fixups cg ! i"
  have fxs: "\<forall>fx \<in> set (cg_fixups cg). fixup_ok cg fx" "distinct (map fx_inst_index (cg_fixups cg))"
    using ok by (simp_all add: cg_ok_def)
  have fx: "fixup_ok cg fx" "at (cg_fixups cg) i = Some fx" using fxs i by (simp_all add: fx_def at_def)
  have len: "length r = length (cg_fixups cg)" using inv by (simp add: relax_inv_def)
  then have ri: "at r i = Some (r ! i)" using i by (simp add: at_def)
  show ?thesis
  proof (cases "fx_bits fx \<noteq> 8 \<or> r ! i")
    case True
    then have "relax_fixup cg tb i (r, tree, c) = Some (r, tree, c)" by (simp add: relax_fixup_def fx(2) ri)
    moreover have "in_reach cg r i" using True by (auto simp: in_reach_def fx_def Let_def)
    ultimately show ?thesis using inv by blast
  next
    case False
    obtain tb' where "target_blocks cg (cg_fixups cg) = Some tb'" "length tb' = length (cg_fixups cg)"
      "\<forall>i < length (cg_fixups cg). fx_bits (cg_fixups cg ! i) = 8 \<longrightarrow> tb' ! i = cg_find_block cg (fx_target (cg_fixups cg ! i))"
      using target_blocks_ok [OF ok fxs(1)] by blast
    then have tbi: "at tb i = Some (cg_find_block cg (fx_target fx))" using tb i False by (simp add: at_def fx_def)
    have "fx_target fx \<in> set (cg_blocks cg)" using fx(1) by (simp add: fixup_ok_def)
    from find_block_ok [OF ok this] obtain b where b: "cg_find_block cg (fx_target fx) = Some b"
      "at (cg_block_offsets cg) b = Some (target_of cg fx)" "target_of cg fx \<le> length (cg_code cg)" by metis
    have "fx_inst_index fx + 1 \<le> length (cg_code cg)" using fx(1) by (simp add: fixup_ok_def)
    from relax_inv_below [OF inv this] obtain k2 where k2:
      "cg_fen_below tree (fx_inst_index fx + 1) = Some k2" "fx_inst_index fx + 1 + k2 = new_pos cg r (fx_inst_index fx + 1)" by blast
    from relax_inv_below [OF inv b(3)] obtain k1 where k1:
      "cg_fen_below tree (target_of cg fx) = Some k1" "target_of cg fx + k1 = new_pos cg r (target_of cg fx)" by blast
    define d where "d = int (new_pos cg r (target_of cg fx)) - int (new_pos cg r (fx_inst_index fx + 1))"
    have e: "relax_fixup cg tb i (r, tree, c) = (if d < - 128 \<or> d > 127
        then Option.bind (cg_fen_add tree (length (cg_code cg)) (fx_inst_index fx)) (\<lambda>t. Some (r[i := True], t, True))
        else Some (r, tree, c))"
      using False fx(2) ri tbi b k1(1) k2(1) unfolding d_def k1(2) [symmetric] k2(2) [symmetric]
      by (simp add: relax_fixup_def Let_def)
    show ?thesis
    proof (cases "d < - 128 \<or> d > 127")
      case out: True
      obtain ps where ps: "distinct ps" "set ps = relaxed_at cg r" "fen_counts tree (length (cg_code cg)) ps"
        using inv by (auto simp: relax_inv_def)
      from fen.add_counts [OF ps(3), of "fx_inst_index fx"] obtain t' where
        t': "cg_fen_add tree (length (cg_code cg)) (fx_inst_index fx) = Some t'"
        "fen_counts t' (length (cg_code cg)) (fx_inst_index fx # ps)" by blast
      note u = relaxed_at_update [OF i len _ fxs(2), folded fx_def]
      have "distinct (fx_inst_index fx # ps)" "set (fx_inst_index fx # ps) = relaxed_at cg (r[i := True])"
        using u False ps by simp_all
      moreover have "\<forall>j < length r. r[i := True] ! j \<longrightarrow> fx_bits (cg_fixups cg ! j) = 8"
        using inv False i len by (auto simp: relax_inv_def nth_list_update fx_def)
      ultimately have "relax_inv cg (r[i := True]) t'" using t'(2) len by (auto simp: relax_inv_def simp del: distinct.simps list.set)
      moreover have "trues (r[i := True]) = Suc (trues r)" using trues_update [of i r] i len False by simp
      ultimately show ?thesis using e out t'(1) by auto
    next
      case within: False
      then have "in_reach cg r i" unfolding in_reach_def fx_def [symmetric] Let_def d_def by linarith
      then show ?thesis using e within inv by auto
    qed
  qed
qed

lemma relax_pass_step:
  assumes ok: "cg_ok cg" and tb: "target_blocks cg (cg_fixups cg) = Some tb"
    and "relax_inv cg r tree" "\<forall>i \<in> set is. i < length (cg_fixups cg)"
  shows "\<exists>r' tree' c'. relax_pass cg tb is (r, tree, c) = Some (r', tree', c') \<and> relax_inv cg r' tree'
    \<and> (r' = r \<and> c' = c \<and> (\<forall>i \<in> set is. in_reach cg r i) \<or> trues r < trues r' \<and> c')"
  using assms(3,4)
proof (induction "is" arbitrary: r tree c)
  case (Cons i "is")
  obtain r1 t1 c1 where 1: "relax_fixup cg tb i (r, tree, c) = Some (r1, t1, c1)" "relax_inv cg r1 t1"
    "r1 = r \<and> t1 = tree \<and> c1 = c \<and> in_reach cg r i \<or> trues r1 = Suc (trues r) \<and> c1"
    using relax_fixup_step [OF ok Cons.prems(1) _ tb, of i c] Cons.prems(2) by auto
  obtain r' t' c' where 2: "relax_pass cg tb is (r1, t1, c1) = Some (r', t', c')" "relax_inv cg r' t'"
    "r' = r1 \<and> c' = c1 \<and> (\<forall>i \<in> set is. in_reach cg r1 i) \<or> trues r1 < trues r' \<and> c'"
    using Cons.IH [OF 1(2), of c1] Cons.prems(2) by auto
  have "relax_pass cg tb (i # is) (r, tree, c) = Some (r', t', c')" using 1(1) 2(1) by simp
  moreover have "r' = r \<and> c' = c \<and> (\<forall>j \<in> set (i # is). in_reach cg r j) \<or> trues r < trues r' \<and> c'"
    using 1(3) 2(3) by auto
  ultimately show ?case using 2(2) by blast
qed simp

lemma trues_le: "trues r \<le> length r"
  by (simp add: trues_def)

lemma relax_passes_fixpoint:
  assumes ok: "cg_ok cg" and tb: "target_blocks cg (cg_fixups cg) = Some tb"
    and "relax_inv cg r tree" "length r < trues r + k"
  shows "\<exists>r' tree'. relax_passes cg tb k (r, tree) = Some (r', tree') \<and> relax_inv cg r' tree'
    \<and> (\<forall>i < length (cg_fixups cg). in_reach cg r' i)"
  using assms(3,4)
proof (induction k arbitrary: r tree)
  case 0
  then show ?case using trues_le [of r] by simp
next
  case (Suc k)
  have "\<forall>i \<in> set [0..<length (cg_fixups cg)]. i < length (cg_fixups cg)" by simp
  from relax_pass_step [OF ok tb Suc.prems(1) this, of False] obtain r1 t1 c1 where
    1: "relax_pass cg tb [0..<length (cg_fixups cg)] (r, tree, False) = Some (r1, t1, c1)" "relax_inv cg r1 t1"
    "r1 = r \<and> c1 = False \<and> (\<forall>i \<in> set [0..<length (cg_fixups cg)]. in_reach cg r i) \<or> trues r < trues r1 \<and> c1"
    by blast
  show ?case
  proof (cases c1)
    case True
    with 1(3) have "trues r < trues r1" by simp
    moreover have "length r1 = length r" using 1(2) Suc.prems(1) by (simp add: relax_inv_def)
    ultimately have "length r1 < trues r1 + k" using Suc.prems(2) by simp
    from Suc.IH [OF 1(2) this] show ?thesis using 1(1) True by simp
  next
    case False
    then have "relax_passes cg tb (Suc k) (r, tree) = Some (r1, t1)" using 1(1) by simp
    then show ?thesis using False 1(2,3) by auto
  qed
qed

lemma relax_start: "relax_inv cg (replicate (length (cg_fixups cg)) False) (replicate (length (cg_code cg) + 1) 0)"
proof -
  have "relaxed_at cg (replicate (length (cg_fixups cg)) False) = {}" by (auto simp: relaxed_at_def)
  then show ?thesis using fen_counts_empty [of "length (cg_code cg)"]
    by (auto simp: relax_inv_def simp del: replicate_Suc intro!: exI [of _ "[]"])
qed

section \<open>The new code array\<close>

lemma rebuild_nth:
  assumes "rebuild extra op np ws = (code, pos)" "j < length ws"
  shows "length pos = length ws" "pos ! j = np + j + (\<Sum>i<j. extra (op + i))"
    "pos ! j - np < length code" "code ! (pos ! j - np) = ws ! j"
    "e < extra (op + j) \<Longrightarrow> pos ! j - np + 1 + e < length code
      \<and> code ! (pos ! j - np + 1 + e) = enc_i24 (op_value CVM_OP_JMP) 0"
    "length code = length ws + (\<Sum>i<length ws. extra (op + i))"
proof -
  have "length pos = length ws \<and> length code = length ws + (\<Sum>i<length ws. extra (op + i))
      \<and> (\<forall>j<length ws. pos ! j = np + j + (\<Sum>i<j. extra (op + i)) \<and> pos ! j - np < length code
        \<and> code ! (pos ! j - np) = ws ! j
        \<and> (\<forall>e<extra (op + j). pos ! j - np + 1 + e < length code
            \<and> code ! (pos ! j - np + 1 + e) = enc_i24 (op_value CVM_OP_JMP) 0))"
    using assms(1)
  proof (induction ws arbitrary: op np code pos)
    case (Cons w ws)
    let ?x = "extra op"
    obtain c p where r: "rebuild extra (op + 1) (np + 1 + ?x) ws = (c, p)" by fastforce
    then have cp: "code = w # replicate ?x (enc_i24 (op_value CVM_OP_JMP) 0) @ c" "pos = np # p"
      using Cons.prems by auto
    note IH = Cons.IH [OF r]
    have sum: "(\<Sum>i<Suc k. extra (op + i)) = ?x + (\<Sum>i<k. extra (op + 1 + i))" for k
      by (simp add: sum.lessThan_Suc_shift del: sum.lessThan_Suc)
    show ?case
    proof (intro conjI allI impI)
      show "length pos = length (w # ws)" using IH cp by simp
      show "length code = length (w # ws) + (\<Sum>i<length (w # ws). extra (op + i))"
        using IH cp sum [of "length ws"] by simp
    next
      fix j assume j: "j < length (w # ws)"
      have jS: "j = Suc k \<Longrightarrow> k < length ws" for k using j by simp
      have p: "pos ! Suc k = np + Suc k + (\<Sum>i<Suc k. extra (op + i))" if "k < length ws" for k
        using IH that cp unfolding sum by simp
      show pj: "pos ! j = np + j + (\<Sum>i<j. extra (op + i))" using p jS cp by (cases j) simp_all
      have sh: "pos ! Suc k - np = Suc ?x + (p ! k - (np + 1 + ?x))" "np + 1 + ?x \<le> p ! k" if "k < length ws" for k
        using p [OF that] IH that cp unfolding sum by simp_all
      have len: "length code = Suc (?x + length c)" using cp by simp
      have nth: "code ! (Suc ?x + m) = c ! m" for m using cp by (simp add: nth_append)
      show "pos ! j - np < length code" "code ! (pos ! j - np) = (w # ws) ! j"
        using sh jS IH cp len nth by (cases j; simp)+
      fix e assume e: "e < extra (op + j)"
      show "pos ! j - np + 1 + e < length code"
        "code ! (pos ! j - np + 1 + e) = enc_i24 (op_value CVM_OP_JMP) 0"
      proof (atomize (full), cases j)
        case 0
        then show "pos ! j - np + 1 + e < length code \<and> code ! (pos ! j - np + 1 + e) = enc_i24 (op_value CVM_OP_JMP) 0"
          using e cp by (simp add: nth_append)
      next
        case (Suc k)
        define m where "m = p ! k - (np + 1 + ?x)"
        have k: "k < length ws" using jS Suc by simp
        have "m + 1 + e < length c" "c ! (m + 1 + e) = enc_i24 (op_value CVM_OP_JMP) 0"
        proof -
          have "e < extra (op + 1 + k)" using e Suc by simp
          then show "m + 1 + e < length c" "c ! (m + 1 + e) = enc_i24 (op_value CVM_OP_JMP) 0"
            using IH k unfolding m_def by blast+
        qed
        moreover have "pos ! j - np + 1 + e = Suc ?x + (m + 1 + e)" using sh(1) [OF k] unfolding m_def Suc by simp
        ultimately show "pos ! j - np + 1 + e < length code \<and> code ! (pos ! j - np + 1 + e) = enc_i24 (op_value CVM_OP_JMP) 0"
          using nth [of "m + 1 + e"] len by (simp add: add.assoc)
      qed
    qed
  qed simp
  with assms(2) show "length pos = length ws" "pos ! j = np + j + (\<Sum>i<j. extra (op + i))"
    "pos ! j - np < length code" "code ! (pos ! j - np) = ws ! j"
    "e < extra (op + j) \<Longrightarrow> pos ! j - np + 1 + e < length code
      \<and> code ! (pos ! j - np + 1 + e) = enc_i24 (op_value CVM_OP_JMP) 0"
    "length code = length ws + (\<Sum>i<length ws. extra (op + i))"
    by blast+
qed

text \<open>At most one branch sits at a position.\<close>

lemma extra_at_of_bool:
  assumes "distinct (map fx_inst_index (cg_fixups cg))" "length r = length (cg_fixups cg)"
  shows "extra_at (cg_fixups cg) r op = of_bool (op \<in> relaxed_at cg r)"
proof -
  have "length (filter (\<lambda>(fx, r). r \<and> fx_inst_index fx = op) (zip fxs r))
      = of_bool (\<exists>i<length fxs. r ! i \<and> fx_inst_index (fxs ! i) = op)"
    if "length fxs = length r" "distinct (map fx_inst_index fxs)" for fxs :: "'a cg_fixup list"
    using that
  proof (induction fxs r rule: list_induct2)
    case (Cons fx fxs b r)
    show ?case
    proof (cases "b \<and> fx_inst_index fx = op")
      case True
      then have "\<not> (\<exists>i<length fxs. r ! i \<and> fx_inst_index (fxs ! i) = op)" using Cons.prems by (auto simp: image_iff) (metis nth_mem)
      with Cons True show ?thesis by (auto simp: Ex_less_Suc2)
    next
      case False
      with Cons show ?thesis by (auto simp: Ex_less_Suc2)
    qed
  qed simp
  from this [of "cg_fixups cg"] assms show ?thesis by (auto simp: extra_at_def relaxed_at_def)
qed

lemma card_below: "card {p \<in> E. p < j} = (\<Sum>i<j. of_bool (i \<in> E))" for E :: "nat set"
proof (induction j)
  case (Suc j)
  have "{p \<in> E. p < Suc j} = (if j \<in> E then insert j {p \<in> E. p < j} else {p \<in> E. p < j})"
    by (auto simp: less_Suc_eq)
  with Suc show ?case by simp
qed simp

lemma new_pos_Suc: "new_pos cg r (Suc x) = new_pos cg r x + 1 + of_bool (x \<in> relaxed_at cg r)"
  by (simp add: new_pos_def card_below)

lemma new_pos_mono: "x < y \<Longrightarrow> new_pos cg r x < new_pos cg r y"
proof (induction y)
  case (Suc y)
  then show ?case by (cases "x = y") (auto simp: new_pos_Suc)
qed simp

lemma new_pos_inj: "new_pos cg r x = new_pos cg r y \<longleftrightarrow> x = y"
  by (metis linorder_neqE_nat new_pos_mono nat_neq_iff)

lemma relaxed_at_bound:
  assumes "cg_ok cg"
  shows "relaxed_at cg r \<subseteq> {..<length (cg_code cg)}"
  using assms by (auto simp: relaxed_at_def cg_ok_def fixup_ok_def)

lemma trues_card:
  assumes "cg_ok cg" "length r = length (cg_fixups cg)"
  shows "length (cg_code cg) + trues r = new_pos cg r (length (cg_code cg))"
proof -
  let ?I = "{i. i < length r \<and> r ! i}"
  have E: "relaxed_at cg r = (\<lambda>i. fx_inst_index (cg_fixups cg ! i)) ` ?I"
    using assms(2) by (auto simp: relaxed_at_def)
  have "inj_on (\<lambda>i. fx_inst_index (cg_fixups cg ! i)) ?I"
    using assms by (auto simp: inj_on_def cg_ok_def distinct_conv_nth)
  then have "card (relaxed_at cg r) = trues r"
    unfolding E by (simp add: card_image trues_def length_filter_conv_card)
  moreover have "{p \<in> relaxed_at cg r. p < length (cg_code cg)} = relaxed_at cg r"
    using relaxed_at_bound [OF assms(1)] by auto
  ultimately show ?thesis by (simp add: new_pos_def)
qed

lemma rewrite_branches_nth:
  assumes "distinct (map (\<lambda>fr. np ! fx_inst_index (fst fr)) (filter snd frs))"
    and "\<forall>fr \<in> set frs. snd fr \<longrightarrow> fx_inst_index (fst fr) < length np \<and> np ! fx_inst_index (fst fr) < length code"
  shows "\<exists>code'. rewrite_branches np frs code = Some code' \<and> length code' = length code
    \<and> (\<forall>q < length code. code' ! q
      = (if \<exists>fr \<in> set frs. snd fr \<and> np ! fx_inst_index (fst fr) = q then flip_branch (code ! q) else code ! q))"
  using assms
proof (induction frs arbitrary: code)
  case (Cons fr frs)
  show ?case
  proof (cases "snd fr")
    case False
    with Cons show ?thesis by simp
  next
    case True
    let ?p = "np ! fx_inst_index (fst fr)"
    have p: "fx_inst_index (fst fr) < length np" "?p < length code" using Cons.prems(2) True by simp_all
    obtain code' where c: "rewrite_branches np frs (code[?p := flip_branch (code ! ?p)]) = Some code'" "length code' = length code"
      "\<And>q. q < length code \<Longrightarrow> code' ! q = (if \<exists>fr \<in> set frs. snd fr \<and> np ! fx_inst_index (fst fr) = q
        then flip_branch (code[?p := flip_branch (code ! ?p)] ! q) else code[?p := flip_branch (code ! ?p)] ! q)"
      using Cons.IH [of "code[?p := flip_branch (code ! ?p)]"] Cons.prems True by auto
    have "\<not> (\<exists>fr' \<in> set frs. snd fr' \<and> np ! fx_inst_index (fst fr') = ?p)" using Cons.prems(1) True by (force simp: image_iff)
    then have "code' ! q = (if \<exists>fr' \<in> set (fr # frs). snd fr' \<and> np ! fx_inst_index (fst fr') = q
        then flip_branch (code ! q) else code ! q)" if "q < length code" for q
      using c(3) [OF that] True p by (cases "q = ?p") auto
    moreover have "rewrite_branches np (fr # frs) code = Some code'" using True p c(1) by (simp add: at_def)
    ultimately show ?thesis using c(2) by blast
  qed
qed simp

lemma move_fixups_map:
  assumes "\<forall>fr \<in> set frs. fx_inst_index (fst fr) < length np"
  shows "move_fixups np frs = Some (map (\<lambda>(fx, b). if b
      then fx\<lparr>fx_inst_index := np ! fx_inst_index fx + 1, fx_shift := 8, fx_bits := 24\<rparr>
      else fx\<lparr>fx_inst_index := np ! fx_inst_index fx\<rparr>) frs)"
  using assms by (induction frs) (auto simp: move_fixup_def at_def)

text \<open>The slot behind a relaxed branch is the position of no old instruction.\<close>

lemma new_pos_gap:
  assumes "p \<in> relaxed_at cg r"
  shows "new_pos cg r q \<noteq> new_pos cg r p + 1"
proof -
  have s: "new_pos cg r (Suc p) = new_pos cg r p + 2" using assms by (simp add: new_pos_Suc)
  consider "q < p" | "q = p" | "q = Suc p" | "Suc p < q" by linarith
  then show ?thesis using s new_pos_mono [of q p cg r] new_pos_mono [of "Suc p" q cg r] by cases auto
qed

text \<open>The state after the rebuild.\<close>

definition moved_fixup :: "'b cg \<Rightarrow> bool list \<Rightarrow> 'b cg_fixup \<times> bool \<Rightarrow> 'b cg_fixup" where
  "moved_fixup cg r fr = (case fr of (fx, b) \<Rightarrow>
     if b then fx\<lparr>fx_inst_index := new_pos cg r (fx_inst_index fx) + 1, fx_shift := 8, fx_bits := 24\<rparr>
     else fx\<lparr>fx_inst_index := new_pos cg r (fx_inst_index fx)\<rparr>)"

lemma relaxed_at_zip:
  assumes "length r = length (cg_fixups cg)" "distinct (map fx_inst_index (cg_fixups cg))" "i < length r"
  shows "fx_inst_index (cg_fixups cg ! i) \<in> relaxed_at cg r \<longleftrightarrow> r ! i"
  using assms by (auto simp: relaxed_at_def distinct_conv_nth)

lemma relax_apply_spec:
  assumes ok: "cg_ok cg" and len: "length r = length (cg_fixups cg)"
  defines "N \<equiv> length (cg_code cg)"
  shows "\<exists>cg1. relax_apply cg r = Some cg1 \<and> cg_blocks cg1 = cg_blocks cg
    \<and> length (cg_code cg1) = new_pos cg r N
    \<and> cg_block_offsets cg1 = map (new_pos cg r) (cg_block_offsets cg)
    \<and> cg_fixups cg1 = map (moved_fixup cg r) (zip (cg_fixups cg) r)
    \<and> (\<forall>p < N. cg_code cg1 ! new_pos cg r p
        = (if p \<in> relaxed_at cg r then flip_branch (cg_code cg ! p) else cg_code cg ! p))
    \<and> (\<forall>p \<in> relaxed_at cg r. cg_code cg1 ! (new_pos cg r p + 1) = enc_i24 (op_value CVM_OP_JMP) 0)"
proof (cases "True \<in> set r")
  case False
  then have E: "relaxed_at cg r = {}" using len by (auto simp: relaxed_at_def in_set_conv_nth)
  then have np: "new_pos cg r x = x" for x by (simp add: new_pos_def)
  have "map (moved_fixup cg r) (zip (cg_fixups cg) r) = map fst (zip (cg_fixups cg) r)"
    using False by (intro map_cong) (auto simp: moved_fixup_def np, metis set_zip_rightD)
  then have "cg_fixups cg = map (moved_fixup cg r) (zip (cg_fixups cg) r)" using len by simp
  moreover have "relax_apply cg r = Some cg" using False by (simp add: relax_apply_def)
  ultimately show ?thesis using E np by (auto simp: N_def map_idI)
next
  case True
  have fx: "\<forall>fx \<in> set (cg_fixups cg). fx_inst_index fx < N" "distinct (map fx_inst_index (cg_fixups cg))"
    "\<forall>off \<in> set (cg_block_offsets cg). off \<le> N"
    using ok by (auto simp: cg_ok_def fixup_ok_def N_def)
  obtain code np where rb: "rebuild (extra_at (cg_fixups cg) r) 0 0 (cg_code cg) = (code, np)" by fastforce
  note ex = extra_at_of_bool [OF fx(2) len]
  have N: "0 < N" using True len fx(1) by (cases N; cases "cg_fixups cg") auto
  note rn = rebuild_nth [OF rb, folded N_def, unfolded ex add_0]
  have np: "np ! j = new_pos cg r j" if "j < N" for j using rn(2) [OF that] by (simp add: new_pos_def card_below)
  have lnp: "length np = N" using rn(1) [OF N] .
  have lcode: "length code = new_pos cg r N" using rn(6) [OF N] by (simp add: new_pos_def card_below)
  have Elt: "p < N" if "p \<in> relaxed_at cg r" for p using that relaxed_at_bound [OF ok] by (auto simp: N_def)
  let ?frs = "zip (cg_fixups cg) r"
  have inr: "fx_inst_index (fst fr) < N" if "fr \<in> set ?frs" for fr using that fx(1) by (metis prod.collapse set_zip_leftD)
  have "map (\<lambda>fr. np ! fx_inst_index (fst fr)) (filter snd ?frs) = map (\<lambda>fr. new_pos cg r (fx_inst_index (fst fr))) (filter snd ?frs)"
    using inr np by (intro map_cong) auto
  moreover have "distinct (map (\<lambda>fr. new_pos cg r (fx_inst_index (fst fr))) (filter snd ?frs))"
  proof -
    have "distinct (map (new_pos cg r) (map fx_inst_index (cg_fixups cg)))"
      using fx(2) by (subst distinct_map) (simp add: inj_on_def new_pos_inj)
    then have "distinct (map (\<lambda>fr. new_pos cg r (fx_inst_index (fst fr))) ?frs)"
      using len by (simp add: comp_def map_fst_zip_take flip: map_map [of "\<lambda>fx. new_pos cg r (fx_inst_index fx)" fst, unfolded comp_def])
    then show ?thesis by (rule distinct_map_filter)
  qed
  ultimately have d: "distinct (map (\<lambda>fr. np ! fx_inst_index (fst fr)) (filter snd ?frs))" by (simp only:)
  have "new_pos cg r p < length code" if "p < N" for p unfolding lcode using that by (rule new_pos_mono)
  then have "\<forall>fr \<in> set ?frs. snd fr \<longrightarrow> fx_inst_index (fst fr) < length np \<and> np ! fx_inst_index (fst fr) < length code"
    using inr np lnp by simp
  from rewrite_branches_nth [OF d this] obtain code' where
    c: "rewrite_branches np ?frs code = Some code'" "length code' = length code"
    "\<And>q. q < length code \<Longrightarrow> code' ! q = (if \<exists>fr \<in> set ?frs. snd fr \<and> np ! fx_inst_index (fst fr) = q
      then flip_branch (code ! q) else code ! q)" by blast
  have E: "(\<exists>fr \<in> set ?frs. snd fr \<and> np ! fx_inst_index (fst fr) = q) \<longleftrightarrow> (\<exists>p \<in> relaxed_at cg r. new_pos cg r p = q)" for q
    using inr np len by (fastforce simp: relaxed_at_def in_set_zip set_zip)
  have mf: "move_fixups np ?frs = Some (map (moved_fixup cg r) ?frs)"
    using move_fixups_map [of ?frs np] inr np lnp by (auto simp: moved_fixup_def split_beta intro!: map_cong)
  have off: "map (\<lambda>orig. if orig < N then np ! orig else N + length (filter id r)) (cg_block_offsets cg)
      = map (new_pos cg r) (cg_block_offsets cg)"
    using fx(3) np trues_card [OF ok len] by (intro map_cong) (auto simp: trues_def N_def [symmetric])
  have app: "relax_apply cg r = Some (cg\<lparr>cg_code := code', cg_fixups := map (moved_fixup cg r) ?frs,
      cg_block_offsets := map (new_pos cg r) (cg_block_offsets cg)\<rparr>)"
    using True inr rb c(1) mf off by (auto simp: relax_apply_def Let_def N_def [symmetric] not_le)
  have "code' ! new_pos cg r p = (if p \<in> relaxed_at cg r then flip_branch (cg_code cg ! p) else cg_code cg ! p)" if p: "p < N" for p
  proof -
    have "new_pos cg r p < length code" unfolding lcode using p by (rule new_pos_mono)
    moreover have "code ! new_pos cg r p = cg_code cg ! p" using rn(4) [OF p] np [OF p] by simp
    ultimately show ?thesis unfolding c(3) [OF \<open>new_pos cg r p < length code\<close>] E by (auto simp: new_pos_inj)
  qed
  moreover have "code' ! (new_pos cg r p + 1) = enc_i24 (op_value CVM_OP_JMP) 0" if p: "p \<in> relaxed_at cg r" for p
  proof -
    have "new_pos cg r p + 1 < length code \<and> code ! (new_pos cg r p + 1) = enc_i24 (op_value CVM_OP_JMP) 0"
      using rn(5) [OF Elt [OF p], of 0] np [OF Elt [OF p]] p by simp
    moreover have "new_pos cg r q \<noteq> new_pos cg r p + 1" for q
      by (rule new_pos_gap [OF p])
    ultimately show ?thesis using c(3) [of "new_pos cg r p + 1"] unfolding E by auto
  qed
  ultimately show ?thesis using app c(2) lcode by auto
qed

section \<open>Resolution\<close>

definition fixup_rel :: "'b cg \<Rightarrow> 'b cg_fixup \<Rightarrow> int" where
  "fixup_rel cg fx = int (target_of cg fx) - int (fx_inst_index fx + 1)"

definition fixup_patch :: "'b cg \<Rightarrow> 'b cg_fixup \<Rightarrow> u32" where
  "fixup_patch cg fx = push_bit (fx_shift fx) (of_int (fixup_rel cg fx) AND (push_bit (fx_bits fx) 1 - 1))"

text \<open>A fixup that resolution accepts.\<close>

definition resolvable :: "'b cg \<Rightarrow> 'b cg_fixup \<Rightarrow> bool" where
  "resolvable cg fx \<longleftrightarrow> fx_inst_index fx < length (cg_code cg) \<and> fx_bits fx \<noteq> 32
    \<and> (\<exists>b. cg_find_block cg (fx_target fx) = Some b \<and> b < length (cg_block_offsets cg))
    \<and> - (2 ^ (fx_bits fx - 1)) \<le> fixup_rel cg fx \<and> fixup_rel cg fx < 2 ^ (fx_bits fx - 1)"

lemma resolve_fixup_ok:
  assumes "resolvable cg fx" "length code = length (cg_code cg)"
  shows "resolve_fixup cg fx code
    = Some (Inr (code[fx_inst_index fx := code ! fx_inst_index fx OR fixup_patch cg fx]))"
  using assms by (auto simp: resolve_fixup_def resolvable_def at_def Let_def fixup_rel_def target_of_def fixup_patch_def add.commute)

lemma resolve_loop_nth:
  assumes "\<forall>fx \<in> set fxs. resolvable cg fx" "distinct (map fx_inst_index fxs)" "length code = length (cg_code cg)"
  shows "\<exists>code'. resolve_loop cg fxs code = Some (Inr code') \<and> length code' = length code
    \<and> (\<forall>q. q \<notin> fx_inst_index ` set fxs \<longrightarrow> code' ! q = code ! q)
    \<and> (\<forall>fx \<in> set fxs. code' ! fx_inst_index fx = code ! fx_inst_index fx OR fixup_patch cg fx)"
  using assms
proof (induction fxs arbitrary: code)
  case (Cons fx fxs)
  let ?c = "code[fx_inst_index fx := code ! fx_inst_index fx OR fixup_patch cg fx]"
  have r: "resolve_fixup cg fx code = Some (Inr ?c)" using Cons.prems by (intro resolve_fixup_ok) simp_all
  have i: "fx_inst_index fx < length code" using Cons.prems by (simp add: resolvable_def)
  obtain code' where c: "resolve_loop cg fxs ?c = Some (Inr code')" "length code' = length code"
    "\<And>q. q \<notin> fx_inst_index ` set fxs \<Longrightarrow> code' ! q = ?c ! q"
    "\<And>fx. fx \<in> set fxs \<Longrightarrow> code' ! fx_inst_index fx = ?c ! fx_inst_index fx OR fixup_patch cg fx"
    using Cons.IH [of ?c] Cons.prems by auto
  have "code' ! fx_inst_index fx = code ! fx_inst_index fx OR fixup_patch cg fx"
    using c(3) [of "fx_inst_index fx"] Cons.prems(2) i by auto
  moreover have "code' ! fx_inst_index f = code ! fx_inst_index f OR fixup_patch cg f" if "f \<in> set fxs" for f
    using c(4) [OF that] Cons.prems(2) that by (metis distinct.simps(2) image_eqI list.set_map list.simps(9) nth_list_update_neq)
  ultimately show ?case using r c(1,2,3) by auto
qed simp

section \<open>Relaxed and resolved code\<close>

definition relaxed_code :: "'b cg \<Rightarrow> bool list \<Rightarrow> 'b cg \<Rightarrow> bool" where
  "relaxed_code cg r cg1 \<longleftrightarrow> relax_apply cg r = Some cg1 \<and> length r = length (cg_fixups cg)
    \<and> (\<forall>i < length (cg_fixups cg). in_reach cg r i \<and> (r ! i \<longrightarrow> fx_bits (cg_fixups cg ! i) = 8))"

lemma relax_total:
  assumes "cg_ok cg"
  shows "\<exists>r cg1. cg_relax_branches cg = Some (Inr cg1) \<and> relaxed_code cg r cg1"
proof (cases "cg_fixups cg = []")
  case True
  then have "cg_relax_branches cg = Some (Inr cg)" "relaxed_code cg [] cg"
    by (simp_all add: cg_relax_branches_def relaxed_code_def relax_apply_def)
  then show ?thesis by blast
next
  case False
  let ?r0 = "replicate (length (cg_fixups cg)) False" and ?t0 = "replicate (length (cg_code cg) + 1) 0"
  have "\<forall>fx \<in> set (cg_fixups cg). fixup_ok cg fx" using assms by (simp add: cg_ok_def)
  from target_blocks_ok [OF assms this] obtain tb where tb: "target_blocks cg (cg_fixups cg) = Some tb" by blast
  have "length ?r0 < trues ?r0 + (length (cg_fixups cg) + 1)" by simp
  from relax_passes_fixpoint [OF assms tb relax_start this] obtain r t where
    r: "relax_passes cg tb (length (cg_fixups cg) + 1) (?r0, ?t0) = Some (r, t)" "relax_inv cg r t"
    "\<forall>i < length (cg_fixups cg). in_reach cg r i" by blast
  have len: "length r = length (cg_fixups cg)" using r(2) by (simp add: relax_inv_def)
  obtain cg1 where cg1: "relax_apply cg r = Some cg1" using relax_apply_spec [OF assms len] by blast
  have "cg_relax_branches cg = Some (Inr cg1)"
    using False tb r(1) cg1 by (simp add: cg_relax_branches_def del: relax_passes.simps replicate.simps replicate_Suc)
  moreover have "relaxed_code cg r cg1" using cg1 len r(2,3) by (simp add: relaxed_code_def relax_inv_def)
  ultimately show ?thesis by blast
qed

text \<open>What stands at the new place of a queued branch.\<close>

definition jump_word :: "nat \<Rightarrow> nat \<Rightarrow> u32" where
  "jump_word p t = enc_i24 (op_value CVM_OP_JMP) (of_int (int t - int (p + 1)))"

definition branch_lowered :: "u32 list \<Rightarrow> (nat \<Rightarrow> nat) \<Rightarrow> nat \<Rightarrow> nat \<Rightarrow> u32 \<Rightarrow> bool" where
  "branch_lowered code pos p t w \<longleftrightarrow>
     (w = enc_i24 (op_value CVM_OP_JMP) 0 \<and> code ! pos p = jump_word (pos p) (pos t) \<and> pos (Suc p) = pos p + 1)
   \<or> (\<exists>op a b. op \<in> {op_value CVM_OP_BEQ, op_value CVM_OP_BNE} \<and> w = enc_br op a b 0
       \<and> (code ! pos p = enc_br op a b (of_int (int (pos t) - int (pos p + 1))) \<and> pos (Suc p) = pos p + 1
            \<and> - 128 \<le> int (pos t) - int (pos p + 1) \<and> int (pos t) - int (pos p + 1) \<le> 127
        \<or> code ! pos p = enc_br (flip_op op) a b 1 \<and> code ! (pos p + 1) = jump_word (pos p + 1) (pos t)
            \<and> pos (Suc p) = pos p + 2))"

lemma flip_branch_enc: "flip_branch (enc_br op a b c) = enc_br (flip_op op) a b 1"
proof -
  have "ucast (enc_br op a b c AND 0xFF) = op" "ucast (drop_bit 8 (enc_br op a b c) AND 0xFF) = a"
    "ucast (drop_bit 16 (enc_br op a b c) AND 0xFF) = b"
    using enc_fields(1-3) [of op a b c] by (simp_all only: i_op_def i_a_def i_b_def)
  then show ?thesis by (simp add: flip_branch_def Let_def)
qed

lemma near_within:
  assumes "0 < p" "p \<le> n" "t \<le> n" "n \<le> 2 ^ 23"
  shows "- (2 ^ 23) \<le> int t - int p" "int t - int p < 2 ^ 23"
proof -
  have "int p \<le> int n" "int t \<le> int n" "int n \<le> int (2 ^ 23)" "0 < int p" using assms by (simp_all only: of_nat_le_iff of_nat_0_less_iff)
  then show "- (2 ^ 23) \<le> int t - int p" "int t - int p < 2 ^ 23" by simp_all
qed

lemma resolve_total:
  assumes ok: "cg_ok cg" and rc: "relaxed_code cg r cg1"
  defines "pos \<equiv> new_pos cg r" and "N \<equiv> length (cg_code cg)"
  shows "\<exists>cg2. cg_resolve_fixups cg1 = Some (Inr cg2) \<and> cg_block_offsets cg2 = map pos (cg_block_offsets cg)
    \<and> length (cg_code cg2) = pos N \<and> pos N < 2 ^ 23
    \<and> (\<forall>p < N. p \<notin> fx_inst_index ` set (cg_fixups cg) \<longrightarrow> cg_code cg2 ! pos p = cg_code cg ! p \<and> pos (Suc p) = Suc (pos p))
    \<and> (\<forall>fx \<in> set (cg_fixups cg). branch_lowered (cg_code cg2) pos (fx_inst_index fx) (target_of cg fx)
        (cg_code cg ! fx_inst_index fx))"
proof -
  have len: "length r = length (cg_fixups cg)" and reach: "\<And>i. i < length (cg_fixups cg) \<Longrightarrow> in_reach cg r i"
    and r8: "\<And>i. i < length (cg_fixups cg) \<Longrightarrow> r ! i \<Longrightarrow> fx_bits (cg_fixups cg ! i) = 8"
    using rc by (simp_all add: relaxed_code_def)
  have fxs: "\<And>i. i < length (cg_fixups cg) \<Longrightarrow> fixup_ok cg (cg_fixups cg ! i)" "distinct (map fx_inst_index (cg_fixups cg))"
    "N + length (cg_fixups cg) < 2 ^ 23" using ok by (simp_all add: cg_ok_def N_def)
  obtain cg1' where s: "relax_apply cg r = Some cg1'" "cg_blocks cg1' = cg_blocks cg" "length (cg_code cg1') = pos N"
    "cg_block_offsets cg1' = map pos (cg_block_offsets cg)"
    "cg_fixups cg1' = map (moved_fixup cg r) (zip (cg_fixups cg) r)"
    "\<And>p. p < N \<Longrightarrow> cg_code cg1' ! pos p = (if p \<in> relaxed_at cg r then flip_branch (cg_code cg ! p) else cg_code cg ! p)"
    "\<And>p. p \<in> relaxed_at cg r \<Longrightarrow> cg_code cg1' ! (pos p + 1) = enc_i24 (op_value CVM_OP_JMP) 0"
    using relax_apply_spec [OF ok len] unfolding pos_def N_def by blast
  have cg1': "cg1' = cg1" using s(1) rc by (simp add: relaxed_code_def)
  note s = s(2-) [unfolded cg1']
  let ?n = "length (cg_fixups cg)"
  define fx where "fx i = cg_fixups cg ! i" for i
  define p where "p i = fx_inst_index (fx i)" for i
  define t where "t i = target_of cg (fx i)" for i
  define fx1 where "fx1 i = moved_fixup cg r (fx i, r ! i)" for i
  have Er: "p i \<in> relaxed_at cg r \<longleftrightarrow> r ! i" if "i < ?n" for i
    using relaxed_at_zip [OF len fxs(2)] that len by (simp add: p_def fx_def)
  have m: "cg_fixups cg1 = map fx1 [0..<?n]"
    unfolding s(4) by (rule nth_equalityI) (use len in \<open>simp_all add: fx1_def fx_def\<close>)
  have set1: "set (cg_fixups cg1) = fx1 ` {..<?n}" unfolding m by auto
  have inst1: "fx_inst_index (fx1 i) = pos (p i) + (if r ! i then 1 else 0)" for i
    by (simp add: fx1_def moved_fixup_def p_def pos_def)
  have pN: "p i < N" if "i < ?n" for i using fxs(1) [OF that] by (simp add: fixup_ok_def p_def fx_def N_def)
  have pi: "p i = p j \<longleftrightarrow> i = j" if "i < ?n" "j < ?n" for i j
    using fxs(2) that by (auto simp: p_def fx_def distinct_conv_nth)
  have i1: "fx_inst_index (fx1 i) = fx_inst_index (fx1 j) \<longleftrightarrow> i = j" if "i < ?n" "j < ?n" for i j
  proof
    assume a: "fx_inst_index (fx1 i) = fx_inst_index (fx1 j)"
    have "pos (p i) = pos (p j)"
      using a new_pos_gap [of "p i" cg r "p j"] new_pos_gap [of "p j" cg r "p i"] Er [OF that(1)] Er [OF that(2)]
      unfolding inst1 pos_def by (auto split: if_splits)
    then show "i = j" unfolding pos_def new_pos_inj using pi that by simp
  qed simp
  then have d1: "distinct (map fx_inst_index (cg_fixups cg1))" unfolding m by (auto simp: distinct_map inj_on_def)
  have mono: "x \<le> y \<Longrightarrow> pos x \<le> pos y" for x y unfolding pos_def using new_pos_mono [of x y cg r] by (cases "x = y") auto
  have pN23: "pos N < 2 ^ 23" using trues_card [OF ok len] trues_le [of r] len fxs(3) by (simp add: pos_def N_def)
  have tgt: "\<exists>b. cg_find_block cg1 (fx_target (fx1 i)) = Some b \<and> b < length (cg_block_offsets cg1)
      \<and> target_of cg1 (fx1 i) = pos (t i) \<and> t i \<le> N" if "i < ?n" for i
  proof -
    have ft: "fx_target (fx1 i) = fx_target (fx i)" by (simp add: fx1_def moved_fixup_def)
    have "fx_target (fx i) \<in> set (cg_blocks cg)" using fxs(1) [OF that] by (simp add: fixup_ok_def fx_def)
    from find_block_ok [OF ok this] obtain b where b: "cg_find_block cg (fx_target (fx i)) = Some b"
      "at (cg_block_offsets cg) b = Some (t i)" "t i \<le> N" unfolding t_def N_def by metis
    have fb: "cg_find_block cg1 (fx_target (fx1 i)) = Some b" using b(1) ft s(1) by (simp add: cg_find_block_def)
    with b(2,3) s(3) show ?thesis by (auto simp: target_of_def at_def split: if_splits)
  qed
  have rel: "fixup_rel cg1 (fx1 i) = int (pos (t i)) - int (pos (p i) + (if r ! i then 2 else 1))" if "i < ?n" for i
    using tgt [OF that] by (auto simp: fixup_rel_def inst1)
  have room: "pos (p i) + (if r ! i then 2 else 1) \<le> pos N" if "i < ?n" for i
    using mono [of "Suc (p i)" N] pN [OF that] Er [OF that] by (cases "r ! i") (simp_all add: pos_def new_pos_Suc)
  have bits: "fx_bits (fx1 i) = (if r ! i then 24 else fx_bits (fx i))" "fx_shift (fx1 i) = (if r ! i then 8 else fx_shift (fx i))" for i
    by (simp_all add: fx1_def moved_fixup_def)
  have near: "- 128 \<le> fixup_rel cg1 (fx1 i) \<and> fixup_rel cg1 (fx1 i) \<le> 127" if "i < ?n" "\<not> r ! i" "fx_bits (fx i) = 8" for i
  proof -
    have "pos (Suc (p i)) = pos (p i) + 1" using that Er [of i] by (simp add: pos_def new_pos_Suc)
    then show ?thesis using reach [OF that(1)] that unfolding rel [OF that(1)]
      by (simp add: in_reach_def Let_def fx_def [symmetric] p_def [symmetric] t_def [symmetric] pos_def [symmetric])
  qed
  have res: "resolvable cg1 (fx1 i)" if i: "i < ?n" for i
  proof -
    have t: "pos (t i) \<le> pos N" using tgt [OF i] mono by blast
    have far: "- (2 ^ 23) \<le> fixup_rel cg1 (fx1 i) \<and> fixup_rel cg1 (fx1 i) < 2 ^ 23"
      unfolding rel [OF i] by (intro conjI near_within [OF _ room [OF i] t]) (use pN23 in simp_all)
    have "fx_bits (fx1 i) = 24 \<or> \<not> r ! i \<and> fx_bits (fx1 i) = 8 \<and> fx_bits (fx i) = 8"
      using fxs(1) [OF i] bits(1) [of i] by (auto simp: fixup_ok_def fx_def)
    then show ?thesis using tgt [OF i] room [OF i] near [OF i] far
      by (auto simp: resolvable_def inst1 s(2) split: if_splits)
  qed
  have "\<forall>f \<in> set (cg_fixups cg1). resolvable cg1 f" unfolding set1 using res by auto
  from resolve_loop_nth [OF this d1 refl] obtain c2 where c2: "resolve_loop cg1 (cg_fixups cg1) (cg_code cg1) = Some (Inr c2)"
    "length c2 = length (cg_code cg1)" "\<And>q. q \<notin> fx_inst_index ` set (cg_fixups cg1) \<Longrightarrow> c2 ! q = cg_code cg1 ! q"
    "\<And>f. f \<in> set (cg_fixups cg1) \<Longrightarrow> c2 ! fx_inst_index f = cg_code cg1 ! fx_inst_index f OR fixup_patch cg1 f" by blast
  have off: "c2 ! pos q = cg_code cg1 ! pos q" if q: "\<And>i. i < ?n \<Longrightarrow> \<not> r ! i \<Longrightarrow> q \<noteq> p i" for q
  proof (rule c2(3))
    show "pos q \<notin> fx_inst_index ` set (cg_fixups cg1)"
    proof
      assume "pos q \<in> fx_inst_index ` set (cg_fixups cg1)"
      then obtain i where i: "i < ?n" "pos q = pos (p i) + (if r ! i then 1 else 0)" unfolding set1 by (auto simp: inst1)
      then show False using new_pos_gap [of "p i" cg r q] q [OF i(1)] Er [OF i(1)]
        by (cases "r ! i") (simp_all add: pos_def new_pos_inj)
    qed
  qed
  have plain: "c2 ! pos q = cg_code cg ! q \<and> pos (Suc q) = Suc (pos q)" if q: "q < N" "q \<notin> fx_inst_index ` set (cg_fixups cg)" for q
  proof -
    have ne: "q \<noteq> p i" if "i < ?n" for i using q(2) that by (auto simp: p_def fx_def)
    then have "q \<notin> relaxed_at cg r" by (auto simp: relaxed_at_def p_def fx_def)
    then show ?thesis using off [of q] ne s(5) [OF q(1)] by (simp add: pos_def new_pos_Suc)
  qed
  have low: "branch_lowered c2 pos (p i) (t i) (cg_code cg ! p i)" if i: "i < ?n" for i
  proof -
    have patched: "c2 ! (pos (p i) + (if r ! i then 1 else 0)) = cg_code cg1 ! (pos (p i) + (if r ! i then 1 else 0)) OR fixup_patch cg1 (fx1 i)"
      using c2(4) [of "fx1 i"] i unfolding set1 inst1 by simp
    have w1: "cg_code cg1 ! pos (p i) = (if r ! i then flip_branch (cg_code cg ! p i) else cg_code cg ! p i)"
      using s(5) [OF pN [OF i]] Er [OF i] by simp
    have Sp: "pos (Suc (p i)) = pos (p i) + (if r ! i then 2 else 1)" using Er [OF i] by (simp add: pos_def new_pos_Suc)
    note pat = fixup_patch_def [of cg1 "fx1 i"] bits [of i] rel [OF i]
    consider (jump) "\<not> r ! i" "fx_bits (fx i) = 24" "fx_shift (fx i) = 8" "cg_code cg ! p i = enc_i24 (op_value CVM_OP_JMP) 0"
      | (cond) op a b where "fx_bits (fx i) = 8" "fx_shift (fx i) = 24" "op \<in> {op_value CVM_OP_BEQ, op_value CVM_OP_BNE}"
          "cg_code cg ! p i = enc_br op a b 0"
      using fxs(1) [OF i] r8 [OF i] unfolding fixup_ok_def fx_def [symmetric] p_def [symmetric] by fastforce
    then show ?thesis
    proof cases
      case jump
      then have "c2 ! pos (p i) = jump_word (pos (p i)) (pos (t i))"
        using patched w1 patch_field(1) by (simp add: pat jump_word_def del: push_bit_of_1 of_int_diff)
      then show ?thesis using jump Sp by (simp add: branch_lowered_def)
    next
      case cond
      show ?thesis
      proof (cases "r ! i")
        case True
        have "c2 ! (pos (p i) + 1) = jump_word (pos (p i) + 1) (pos (t i))"
          using patched True s(6) [of "p i"] Er [OF i] patch_field(1)
          by (simp add: pat jump_word_def del: push_bit_of_1 of_int_diff)
        moreover have "c2 ! pos (p i) = enc_br (flip_op op) a b 1"
          using off [of "p i"] pi [OF i] True w1 cond(4) by (auto simp: flip_branch_enc)
        ultimately show ?thesis using cond(3,4) True Sp by (auto simp: branch_lowered_def)
      next
        case False
        have u: "ucast (of_int k :: u32) = (of_int k :: u8)" for k by (rule bit_word_eqI) (simp add: bit_simps)
        have "c2 ! pos (p i) = enc_br op a b (of_int (int (pos (t i)) - int (pos (p i) + 1)))"
          using patched False w1 cond patch_field(2)
          by (simp add: pat u del: push_bit_of_1 of_int_diff)
        then show ?thesis using cond(3,4) False Sp near [OF i False cond(1)] unfolding rel [OF i]
          by (auto simp: branch_lowered_def)
      qed
    qed
  qed
  have "cg_resolve_fixups cg1 = Some (Inr (cg1\<lparr>cg_code := c2\<rparr>))" by (simp add: cg_resolve_fixups_def c2(1))
  then show ?thesis using s(2,3) c2(2) pN23 plain low
    by (auto simp: in_set_conv_nth p_def t_def fx_def)
qed

section \<open>Running the patched code\<close>

definition taken :: "u32 \<Rightarrow> 'h vm \<Rightarrow> bool" where
  "taken inst s \<longleftrightarrow> (if i_op inst = op_value CVM_OP_BEQ then R s (i_a inst) = R s (i_b inst)
     else if i_op inst = op_value CVM_OP_BNE then R s (i_a inst) \<noteq> R s (i_b inst) else True)"

lemma step_jump:
  assumes rc: "runs_code cx code" and "length code \<le> 2 ^ 23" "vm_pc s = of_nat p" "p < length code"
    and "code ! p = jump_word p t" "t \<le> length code"
  shows "DISPATCH cx s = Running (set_pc s (of_nat t))"
proof -
  have b: "- (2 ^ 23) \<le> int t - int (p + 1)" "int t - int (p + 1) < 2 ^ 23"
    by (rule near_within [of "p + 1" "length code" t]; use assms(2,4,6) in simp)+
  have "DISPATCH cx s = L_JMP cx (code ! p) (i_a (code ! p)) (i_b (code ! p)) (i_c (code ! p)) (set_pc s (of_nat (Suc p)))"
    by (rule dispatch_at [OF rc assms(3,4)]) (simp add: assms(5) jump_word_def jt_label)
  also have "\<dots> = branch (set_pc s (of_nat (Suc p))) (int t - int (p + 1))"
    unfolding L_JMP_def assms(5) jump_word_def jmp_offset_enc [OF b] ..
  also have "\<dots> = Running (set_pc (set_pc s (of_nat (Suc p))) (of_nat t))"
    using assms(2,4,6) by (intro branch_within) (simp_all add: set_pc_def del: of_nat_Suc)
  finally show ?thesis by (simp add: set_pc_def)
qed

lemma step_branch:
  assumes rc: "runs_code cx code" and "length code \<le> 2 ^ 23" "vm_pc s = of_nat p" "p < length code"
    and "code ! p = enc_br op a b (of_int d)" "op \<in> {op_value CVM_OP_BEQ, op_value CVM_OP_BNE}"
    and "- 128 \<le> d" "d \<le> 127" "int (p + 1) + d = int t" "t \<le> length code"
  shows "DISPATCH cx s = Running (set_pc s (of_nat (if taken (enc_br op a b 0) s then t else p + 1)))"
proof -
  let ?s = "set_pc s (of_nat (Suc p))"
  have br: "branch ?s (sint (of_int d :: u8)) = Running (set_pc s (of_nat t))"
    unfolding sint_of_int8 [OF assms(7,8)]
    using branch_within [of ?s p d t] assms(2,4,9,10) by (simp add: set_pc_def del: of_nat_Suc)
  have R: "R ?s x = R s x" for x by (simp add: set_pc_def)
  from assms(6) consider "op = op_value CVM_OP_BEQ" | "op = op_value CVM_OP_BNE" by blast
  then show ?thesis
  proof cases
    case 1
    have "DISPATCH cx s = L_BEQ cx (code ! p) a b (of_int d) ?s"
      using dispatch_at [OF rc assms(3,4), of L_BEQ] by (simp add: assms(5) 1 jt_label del: of_nat_Suc)
    then show ?thesis unfolding L_BEQ_def br R by (simp add: taken_def 1)
  next
    case 2
    have "DISPATCH cx s = L_BNE cx (code ! p) a b (of_int d) ?s"
      using dispatch_at [OF rc assms(3,4), of L_BNE] by (simp add: assms(5) 2 jt_label del: of_nat_Suc)
    then show ?thesis unfolding L_BNE_def br R by (simp add: taken_def 2)
  qed
qed

lemma branch_lowered_steps:
  assumes low: "branch_lowered code pos p t w" and rc: "runs_code cx code" and len: "length code \<le> 2 ^ 23"
    and pc: "vm_pc s = of_nat (pos p)" and t: "pos t \<le> length code" and p: "pos (Suc p) \<le> length code"
  shows "steps cx s (Running (set_pc s (of_nat (pos (if taken w s then t else Suc p)))))"
proof -
  have one: "steps cx s (Running s')" if "DISPATCH cx s = Running s'" for s' using steps.step [OF steps.start, of cx s] that by simp
  from low show ?thesis unfolding branch_lowered_def
  proof (elim disjE exE conjE)
    assume j: "w = enc_i24 (op_value CVM_OP_JMP) 0" "code ! pos p = jump_word (pos p) (pos t)" "pos (Suc p) = pos p + 1"
    then have "taken w s" by (simp add: taken_def)
    then show ?thesis using one [OF step_jump [OF rc len pc _ j(2) t]] p j(3) by simp
  next
    fix op a b
    assume b: "op \<in> {op_value CVM_OP_BEQ, op_value CVM_OP_BNE}" "w = enc_br op a b 0"
      "code ! pos p = enc_br op a b (of_int (int (pos t) - int (pos p + 1)))" "pos (Suc p) = pos p + 1"
      "- 128 \<le> int (pos t) - int (pos p + 1)" "int (pos t) - int (pos p + 1) \<le> 127"
    have "DISPATCH cx s = Running (set_pc s (of_nat (if taken w s then pos t else pos p + 1)))"
      unfolding b(2) by (rule step_branch [OF rc len pc _ b(3,1,5,6) _ t]) (use p b(4) in simp_all)
    from one [OF this] show ?thesis by (simp add: b(4) split: if_splits)
  next
    fix op a b
    assume b: "op \<in> {op_value CVM_OP_BEQ, op_value CVM_OP_BNE}" "w = enc_br op a b 0"
      "code ! pos p = enc_br (flip_op op) a b 1" "code ! (pos p + 1) = jump_word (pos p + 1) (pos t)" "pos (Suc p) = pos p + 2"
    have fl: "flip_op op \<in> {op_value CVM_OP_BEQ, op_value CVM_OP_BNE}" using b(1) by (auto simp: flip_op_def)
    have neg: "taken (enc_br (flip_op op) a b 0) s \<longleftrightarrow> \<not> taken w s" using b(1) by (auto simp: b(2) taken_def flip_op_def)
    have w1: "code ! pos p = enc_br (flip_op op) a b (of_int 1)" using b(3) by simp
    have "DISPATCH cx s = Running (set_pc s (of_nat (if taken (enc_br (flip_op op) a b 0) s then pos p + 2 else pos p + 1)))"
      by (rule step_branch [OF rc len pc _ w1 fl]) (use p b(5) in simp_all)
    then have d: "DISPATCH cx s = Running (set_pc s (of_nat (if taken w s then pos p + 1 else pos p + 2)))" unfolding neg by simp
    show ?thesis
    proof (cases "taken w s")
      case False
      then show ?thesis using one [OF d] b(5) by simp
    next
      case True
      let ?s = "set_pc s (of_nat (pos p + 1))"
      have 1: "steps cx s (Running ?s)" using one [OF d] True by simp
      have "DISPATCH cx ?s = Running (set_pc ?s (of_nat (pos t)))"
        by (rule step_jump [OF rc len _ _ b(4) t]) (use p b(5) in \<open>simp_all add: set_pc_def\<close>)
      then show ?thesis using steps.step [OF 1] True by (simp add: set_pc_def)
    qed
  qed
qed

text \<open>C32. Relaxing and resolving the branches of a well-formed function ends without error, moves
  instructions in order, copies every other instruction, and every queued branch, run on the machine,
  reaches the place of its target block when it is taken and the next instruction's place otherwise.\<close>

theorem branches_reach_targets:
  fixes cg :: "'b cg"
  assumes "cg_ok cg"
  shows "\<exists>cg1 cg2 pos. cg_relax_branches cg = Some (Inr cg1) \<and> cg_resolve_fixups cg1 = Some (Inr cg2)
    \<and> strict_mono pos \<and> length (cg_code cg2) = pos (length (cg_code cg))
    \<and> cg_block_offsets cg2 = map pos (cg_block_offsets cg)
    \<and> (\<forall>p < length (cg_code cg). p \<notin> fx_inst_index ` set (cg_fixups cg) \<longrightarrow>
          cg_code cg2 ! pos p = cg_code cg ! p \<and> pos (Suc p) = Suc (pos p))
    \<and> (\<forall>fx \<in> set (cg_fixups cg). \<forall>(cx :: 'h ctx) s. runs_code cx (cg_code cg2) \<longrightarrow> vm_pc s = of_nat (pos (fx_inst_index fx)) \<longrightarrow>
          steps cx s (Running (set_pc s (of_nat (pos
            (if taken (cg_code cg ! fx_inst_index fx) s then target_of cg fx else Suc (fx_inst_index fx)))))))"
proof -
  obtain r cg1 where r: "cg_relax_branches cg = Some (Inr cg1)" "relaxed_code cg r cg1" using relax_total [OF assms] by blast
  define pos where "pos = new_pos cg r"
  obtain cg2 where c: "cg_resolve_fixups cg1 = Some (Inr cg2)" "cg_block_offsets cg2 = map pos (cg_block_offsets cg)"
    "length (cg_code cg2) = pos (length (cg_code cg))" "pos (length (cg_code cg)) < 2 ^ 23"
    "\<forall>p < length (cg_code cg). p \<notin> fx_inst_index ` set (cg_fixups cg) \<longrightarrow>
        cg_code cg2 ! pos p = cg_code cg ! p \<and> pos (Suc p) = Suc (pos p)"
    "\<forall>fx \<in> set (cg_fixups cg). branch_lowered (cg_code cg2) pos (fx_inst_index fx) (target_of cg fx)
        (cg_code cg ! fx_inst_index fx)"
    using resolve_total [OF assms r(2)] unfolding pos_def by blast
  have mono: "strict_mono pos" unfolding pos_def by (rule strict_monoI) (rule new_pos_mono)
  have "steps cx s (Running (set_pc s (of_nat (pos
      (if taken (cg_code cg ! fx_inst_index fx) s then target_of cg fx else Suc (fx_inst_index fx))))))"
    if "fx \<in> set (cg_fixups cg)" "runs_code cx (cg_code cg2)" "vm_pc s = of_nat (pos (fx_inst_index fx))" for fx and cx :: "'h ctx" and s
  proof (rule branch_lowered_steps)
    show "runs_code cx (cg_code cg2)" "vm_pc s = of_nat (pos (fx_inst_index fx))" by (rule that)+
    have fx: "fixup_ok cg fx" using assms that(1) by (simp add: cg_ok_def)
    have le: "pos x \<le> length (cg_code cg2)" if "x \<le> length (cg_code cg)" for x
      unfolding c(3) using mono that by (simp add: strict_mono_less_eq)
    show "branch_lowered (cg_code cg2) pos (fx_inst_index fx) (target_of cg fx) (cg_code cg ! fx_inst_index fx)"
      using c(6) that(1) by blast
    show "length (cg_code cg2) \<le> 2 ^ 23" using c(3,4) by simp
    show "pos (Suc (fx_inst_index fx)) \<le> length (cg_code cg2)" using fx by (intro le) (simp add: fixup_ok_def)
    show "pos (target_of cg fx) \<le> length (cg_code cg2)"
      using find_block_ok [OF assms, of fx] fx by (intro le) (metis fixup_ok_def)
  qed
  with r(1) c(1-3,5) mono show ?thesis by blast
qed

text \<open>A loop of one conditional branch back to its start and a jump behind it.\<close>

definition demo_cg :: "nat cg" where
  "demo_cg = \<lparr>cg_code = [enc_br (op_value CVM_OP_BNE) 1 0 0, enc_i24 (op_value CVM_OP_JMP) 0],
     cg_blocks = [0, 1], cg_block_offsets = [0, 2],
     cg_fixups = [\<lparr>fx_inst_index = 0, fx_target = 0, fx_shift = 24, fx_bits = 8\<rparr>,
       \<lparr>fx_inst_index = 1, fx_target = 1, fx_shift = 8, fx_bits = 24\<rparr>],
     cg_table_fixups = [], cg_data_bytes = []\<rparr>"

lemma branches_reach_targets_witness:
  "cg_ok demo_cg \<and> (\<exists>cg1 cg2. cg_relax_branches demo_cg = Some (Inr cg1) \<and> cg_resolve_fixups cg1 = Some (Inr cg2))"
proof -
  have ok: "cg_ok demo_cg" by (auto simp: cg_ok_def demo_cg_def fixup_ok_def)
  then show ?thesis using branches_reach_targets [OF ok] by blast
qed

end
