(* ===== verification/Llvm.thy ===== *)
theory Llvm
  imports Prelude
begin

text \<open>
  The LLVM C interface the translator (\<open>src/tools/translator/translator.c\<close>) reads its input through, and
  the translator's own predicates on it. LLVM is not part of the repository: a record of functions, an
  argument of every definition that uses it, stands for a loaded module. Values, types and blocks are
  elements of the types \<open>'v\<close>, \<open>'t\<close>, \<open>'b\<close>, compared by identity; they are never null. Enumerations list the
  constructors the translator tests, the others are numbered.
\<close>

section \<open>Enumerations\<close>

datatype LLVMTypeKind = LLVMVoidTypeKind | LLVMFloatTypeKind | LLVMDoubleTypeKind | LLVMIntegerTypeKind
  | LLVMStructTypeKind | LLVMArrayTypeKind | LLVMPointerTypeKind | LLVMVectorTypeKind | LLVMOtherTypeKind nat

datatype LLVMOpcode = LLVMPHI | LLVMCall | LLVMInvoke | LLVMLandingPad | LLVMResume | LLVMSelect
  | LLVMExtractValue | LLVMAtomicCmpXchg | LLVMAtomicRMW | LLVMLoad | LLVMFreeze
  | LLVMSExt | LLVMZExt | LLVMTrunc | LLVMBitCast | LLVMAddrSpaceCast | LLVMIntToPtr | LLVMPtrToInt
  | LLVMGetElementPtr | LLVMAdd | LLVMSub | LLVMAnd | LLVMOr | LLVMXor | LLVMMul
  | LLVMUDiv | LLVMSDiv | LLVMURem | LLVMSRem | LLVMShl | LLVMLShr | LLVMAShr
  | LLVMFAdd | LLVMFSub | LLVMFMul | LLVMFDiv | LLVMFCmp | LLVMSIToFP | LLVMUIToFP
  | LLVMFPToSI | LLVMFPToUI | LLVMFPTrunc | LLVMFPExt | LLVMICmp | LLVMFNeg | LLVMBr | LLVMRet | LLVMUnreachable
  | LLVMSwitch | LLVMAlloca | LLVMStore | LLVMFence | LLVMExtractElement | LLVMInsertElement | LLVMShuffleVector | LLVMOtherOpcode nat

datatype LLVMIntPredicate = LLVMIntEQ | LLVMIntNE | LLVMIntUGT | LLVMIntUGE | LLVMIntULT | LLVMIntULE
  | LLVMIntSGT | LLVMIntSGE | LLVMIntSLT | LLVMIntSLE | LLVMIntOther nat

datatype LLVMAtomicRMWBinOp = LLVMAtomicRMWBinOpXchg | LLVMAtomicRMWBinOpAdd | LLVMAtomicRMWBinOpSub
  | LLVMAtomicRMWBinOpAnd | LLVMAtomicRMWBinOpNand | LLVMAtomicRMWBinOpOr | LLVMAtomicRMWBinOpXor
  | LLVMAtomicRMWBinOpOther nat

section \<open>The interface\<close>

text \<open>\<open>v_addr\<close> is the handle itself as a number. The two constants of floating type are read through
  \<open>LLVMConstRealGetDouble\<close>: \<open>v_real_bits\<close> is the image of that double, \<open>v_real_float_bits\<close> the image of the
  double converted to \<open>float\<close>. \<open>LLVMIncoming\<close> lists the block and value of a phi's entries, \<open>LLVMInstructions\<close> a
  block's instructions and \<open>LLVMSuccessors\<close> the successors of its terminator, in order.\<close>

record ('v, 't, 'b) llvm =
  v_addr :: "'v \<Rightarrow> u64"
  value_name :: "'v \<Rightarrow> string"
  LLVMTypeOf :: "'v \<Rightarrow> 't"
  LLVMGetTypeKind :: "'t \<Rightarrow> LLVMTypeKind"
  LLVMGetIntTypeWidth :: "'t \<Rightarrow> nat"
  LLVMGetElementType :: "'t \<Rightarrow> 't"
  LLVMGetVectorSize :: "'t \<Rightarrow> nat"
  LLVMCountStructElementTypes :: "'t \<Rightarrow> nat"
  LLVMStructGetTypeAtIndex :: "'t \<Rightarrow> nat \<Rightarrow> 't"
  LLVMOffsetOfElement :: "'t \<Rightarrow> nat \<Rightarrow> u64"
  LLVMABISizeOfType :: "'t \<Rightarrow> u64"
  LLVMIsAInstruction :: "'v \<Rightarrow> bool"
  LLVMIsAArgument :: "'v \<Rightarrow> bool"
  LLVMIsACallInst :: "'v \<Rightarrow> bool"
  LLVMIsAConstantInt :: "'v \<Rightarrow> bool"
  LLVMIsAConstantFP :: "'v \<Rightarrow> bool"
  LLVMIsAConstantPointerNull :: "'v \<Rightarrow> bool"
  LLVMIsAConstantAggregateZero :: "'v \<Rightarrow> bool"
  LLVMIsAConstantExpr :: "'v \<Rightarrow> bool"
  LLVMIsConstant :: "'v \<Rightarrow> bool"
  LLVMIsUndef :: "'v \<Rightarrow> bool"
  LLVMIsAGlobalVariable :: "'v \<Rightarrow> bool"
  LLVMIsAGlobalAlias :: "'v \<Rightarrow> bool"
  LLVMIsAFunction :: "'v \<Rightarrow> bool"
  LLVMAliasGetAliasee :: "'v \<Rightarrow> 'v"
  LLVMConstIntGetZExtValue :: "'v \<Rightarrow> u64"
  LLVMConstIntGetSExtValue :: "'v \<Rightarrow> u64"
  v_real_bits :: "'v \<Rightarrow> u64"
  v_real_float_bits :: "'v \<Rightarrow> u32"
  LLVMGetConstOpcode :: "'v \<Rightarrow> LLVMOpcode"
  LLVMGetInstructionOpcode :: "'v \<Rightarrow> LLVMOpcode"
  LLVMGetNumOperands :: "'v \<Rightarrow> nat"
  LLVMGetOperand :: "'v \<Rightarrow> nat \<Rightarrow> 'v"
  LLVMGetAggregateElement :: "'v \<Rightarrow> nat \<Rightarrow> 'v option"
  LLVMGetNumIndices :: "'v \<Rightarrow> nat"
  LLVMGetIndices :: "'v \<Rightarrow> nat list"
  LLVMGetGEPSourceElementType :: "'v \<Rightarrow> 't option"
  LLVMGetCalledValue :: "'v \<Rightarrow> 'v"
  LLVMGetAtomicRMWBinOp :: "'v \<Rightarrow> LLVMAtomicRMWBinOp"
  LLVMIncoming :: "'v \<Rightarrow> ('b \<times> 'v) list"
  LLVMInstructions :: "'b \<Rightarrow> 'v list"
  LLVMSuccessors :: "'b \<Rightarrow> 'b list"

section \<open>Types\<close>

definition cg_type_is_i64 :: "('v, 't, 'b) llvm \<Rightarrow> 't \<Rightarrow> bool" where
  "cg_type_is_i64 L t \<longleftrightarrow> LLVMGetTypeKind L t = LLVMIntegerTypeKind \<and> LLVMGetIntTypeWidth L t = 64"

definition cg_type_is_wide_int :: "('v, 't, 'b) llvm \<Rightarrow> 't \<Rightarrow> bool" where
  "cg_type_is_wide_int L t \<longleftrightarrow> (if LLVMGetTypeKind L t \<noteq> LLVMIntegerTypeKind then False
     else let w = LLVMGetIntTypeWidth L t in w \<ge> 33 \<and> w \<le> 64)"

definition cg_type_is_i65 :: "('v, 't, 'b) llvm \<Rightarrow> 't \<Rightarrow> bool" where
  "cg_type_is_i65 L t \<longleftrightarrow> LLVMGetTypeKind L t = LLVMIntegerTypeKind \<and> LLVMGetIntTypeWidth L t = 65"

definition cg_type_is_f64 :: "('v, 't, 'b) llvm \<Rightarrow> 't \<Rightarrow> bool" where
  "cg_type_is_f64 L t \<longleftrightarrow> LLVMGetTypeKind L t = LLVMDoubleTypeKind"

definition cg_type_is_wide :: "('v, 't, 'b) llvm \<Rightarrow> 't \<Rightarrow> bool" where
  "cg_type_is_wide L t \<longleftrightarrow> cg_type_is_wide_int L t \<or> cg_type_is_f64 L t"

definition cg_type_is_eh_pad :: "('v, 't, 'b) llvm \<Rightarrow> 't \<Rightarrow> bool" where
  "cg_type_is_eh_pad L t \<longleftrightarrow> LLVMGetTypeKind L t = LLVMStructTypeKind \<and> LLVMCountStructElementTypes L t = 2
     \<and> LLVMGetTypeKind L (LLVMStructGetTypeAtIndex L t 0) = LLVMPointerTypeKind
     \<and> LLVMGetTypeKind L (LLVMStructGetTypeAtIndex L t 1) = LLVMIntegerTypeKind"

definition cg_arg_words :: "('v, 't, 'b) llvm \<Rightarrow> 't \<Rightarrow> nat" where
  "cg_arg_words L t = (if cg_type_is_wide L t then 2 else 1)"

definition cg_type_is_vector :: "('v, 't, 'b) llvm \<Rightarrow> 't \<Rightarrow> bool" where
  "cg_type_is_vector L t \<longleftrightarrow> (if LLVMGetTypeKind L t \<noteq> LLVMVectorTypeKind then False
     else let et = LLVMGetElementType L t; ek = LLVMGetTypeKind L et in
       (ek = LLVMIntegerTypeKind \<and> LLVMGetIntTypeWidth L et \<le> 32) \<or> ek = LLVMPointerTypeKind)"

definition cg_vec_lanes :: "('v, 't, 'b) llvm \<Rightarrow> 't \<Rightarrow> nat" where "cg_vec_lanes L t = LLVMGetVectorSize L t"

definition cg_vec_elem_bits :: "('v, 't, 'b) llvm \<Rightarrow> 't \<Rightarrow> nat" where
  "cg_vec_elem_bits L t = (let et = LLVMGetElementType L t in
     if LLVMGetTypeKind L et = LLVMIntegerTypeKind then LLVMGetIntTypeWidth L et else 32)"

section \<open>Values\<close>

definition cg_is_eh_value :: "('v, 't, 'b) llvm \<Rightarrow> 'v \<Rightarrow> bool" where
  "cg_is_eh_value L v \<longleftrightarrow> (if \<not> LLVMIsAInstruction L v then False
     else let op = LLVMGetInstructionOpcode L v in
       op = LLVMLandingPad \<or> (op = LLVMPHI \<or> op = LLVMSelect) \<and> cg_type_is_eh_pad L (LLVMTypeOf L v))"

definition cg_is_landingpad_extract :: "('v, 't, 'b) llvm \<Rightarrow> 'v \<Rightarrow> bool" where
  "cg_is_landingpad_extract L i = cg_is_eh_value L (LLVMGetOperand L i 0)"

definition cg_op_is_runtime_call :: "('v, 't, 'b) llvm \<Rightarrow> 'v \<Rightarrow> LLVMOpcode \<Rightarrow> bool" where
  "cg_op_is_runtime_call L i op =
     (if op = LLVMResume then True
      else if op = LLVMExtractValue then cg_is_landingpad_extract L i
      else if op \<in> {LLVMFAdd, LLVMFSub, LLVMFMul, LLVMFDiv, LLVMSIToFP, LLVMUIToFP, LLVMFPExt}
      then cg_type_is_f64 L (LLVMTypeOf L i)
      else if op \<in> {LLVMFCmp, LLVMFPToSI, LLVMFPToUI, LLVMFPTrunc}
      then cg_type_is_f64 L (LLVMTypeOf L (LLVMGetOperand L i 0))
      else if op \<in> {LLVMUDiv, LLVMSDiv, LLVMURem, LLVMSRem} then cg_type_is_i64 L (LLVMTypeOf L i)
      else if op \<in> {LLVMShl, LLVMLShr, LLVMAShr}
      then cg_type_is_i64 L (LLVMTypeOf L i) \<and> \<not> LLVMIsAConstantInt L (LLVMGetOperand L i 1)
      else if op = LLVMCall then
        (if \<not> cg_type_is_f64 L (LLVMTypeOf L i) then False
         else value_name L (LLVMGetCalledValue L i)
           \<in> {''llvm.fmuladd.f64'', ''llvm.fma.f64'', ''llvm.sqrt.f64'', ''sqrt''})
      else False)"

definition cg_call_is_handled_f64_intrinsic :: "('v, 't, 'b) llvm \<Rightarrow> 'v \<Rightarrow> bool" where
  "cg_call_is_handled_f64_intrinsic L i \<longleftrightarrow>
     (if LLVMGetInstructionOpcode L i \<noteq> LLVMCall then False
      else value_name L (LLVMGetCalledValue L i)
        \<in> {''llvm.fmuladd.f64'', ''llvm.fma.f64'', ''llvm.fabs.f64'', ''llvm.copysign.f64'', ''llvm.sqrt.f64'', ''sqrt''})"

text \<open>\<open>atoi\<close> on a text without leading blanks or sign, as the width at the end of an intrinsic's name is.\<close>

fun atoi_digits :: "int \<Rightarrow> string \<Rightarrow> int" where
  "atoi_digits acc (c # cs) =
     (if 48 \<le> (of_char c :: int) \<and> (of_char c :: int) \<le> 57 then atoi_digits (acc * 10 + (of_char c - 48)) cs else acc)"
| "atoi_digits acc [] = acc"

text \<open>The kind (0 unsigned addition, 1 unsigned multiplication, 2 signed addition) and the width.\<close>

definition cg_overflow_call_kind :: "('v, 't, 'b) llvm \<Rightarrow> 'v \<Rightarrow> (nat \<times> int) option" where
  "cg_overflow_call_kind L v =
     (if \<not> LLVMIsACallInst L v then None
      else let nm = value_name L (LLVMGetCalledValue L v); b = atoi_digits 0 (drop 25 nm) in
        if take 25 nm = ''llvm.uadd.with.overflow.i'' then (if b \<noteq> 32 \<and> b \<noteq> 64 then None else Some (0, b))
        else if take 25 nm = ''llvm.umul.with.overflow.i'' then (if b \<noteq> 32 \<and> b \<noteq> 64 then None else Some (1, b))
        else if take 25 nm = ''llvm.sadd.with.overflow.i''
        then (if \<not> (b \<ge> 33 \<and> b \<le> 63 \<or> b = 65) then None else Some (2, b))
        else None)"

definition cg_overflow_val_words :: "int \<Rightarrow> nat" where
  "cg_overflow_val_words bits = (if bits > 64 then 3 else if bits \<ge> 33 then 2 else 1)"

definition cg_is_overflow_extract :: "('v, 't, 'b) llvm \<Rightarrow> 'v \<Rightarrow> ('v \<times> nat) option" where
  "cg_is_overflow_extract L i =
     (if LLVMGetInstructionOpcode L i \<noteq> LLVMExtractValue then None
      else let src = LLVMGetOperand L i 0 in
        if cg_overflow_call_kind L src = None then None
        else if LLVMGetNumIndices L i \<noteq> 1 then None
        else Some (src, LLVMGetIndices L i ! 0))"

definition cg_is_cmpxchg :: "('v, 't, 'b) llvm \<Rightarrow> 'v \<Rightarrow> bool" where
  "cg_is_cmpxchg L v \<longleftrightarrow>
     (if LLVMGetInstructionOpcode L v \<noteq> LLVMAtomicCmpXchg then False
      else let vt = LLVMTypeOf L (LLVMGetOperand L v 1); k = LLVMGetTypeKind L vt in
        if k = LLVMPointerTypeKind then True
        else if k = LLVMIntegerTypeKind then LLVMGetIntTypeWidth L vt \<in> {8, 16, 32, 64}
        else False)"

definition cg_cmpxchg_val_words :: "('v, 't, 'b) llvm \<Rightarrow> 'v \<Rightarrow> nat" where
  "cg_cmpxchg_val_words L v = (if cg_type_is_i64 L (LLVMTypeOf L (LLVMGetOperand L v 1)) then 2 else 1)"

definition cg_is_cmpxchg_extract :: "('v, 't, 'b) llvm \<Rightarrow> 'v \<Rightarrow> ('v \<times> nat) option" where
  "cg_is_cmpxchg_extract L i =
     (if LLVMGetInstructionOpcode L i \<noteq> LLVMExtractValue then None
      else let s = LLVMGetOperand L i 0 in
        if \<not> cg_is_cmpxchg L s then None
        else if LLVMGetNumIndices L i \<noteq> 1 then None
        else Some (s, LLVMGetIndices L i ! 0))"

text \<open>The words of a 64-bit constant.\<close>

definition cg_wide_const_words :: "('v, 't, 'b) llvm \<Rightarrow> 'v \<Rightarrow> (u32 \<times> u32) option" where
  "cg_wide_const_words L v =
     (if LLVMIsAConstantInt L v then
        let k = LLVMConstIntGetZExtValue L v in Some (ucast (k AND 0xFFFFFFFF), ucast (drop_bit 32 k))
      else if LLVMIsAConstantFP L v \<and> cg_type_is_f64 L (LLVMTypeOf L v) then
        let bits = v_real_bits L v in Some (ucast (bits AND 0xFFFFFFFF), ucast (drop_bit 32 bits))
      else None)"

text \<open>A block has phi moves when one of the phis at its head is not an exception value.\<close>

definition cg_block_has_phi :: "('v, 't, 'b) llvm \<Rightarrow> 'b \<Rightarrow> bool" where
  "cg_block_has_phi L bb \<longleftrightarrow>
     (\<exists>inst \<in> set (takeWhile (\<lambda>i. LLVMGetInstructionOpcode L i = LLVMPHI) (LLVMInstructions L bb)).
       \<not> cg_is_eh_value L inst)"

end
