(* ===== verification/Gen.thy ===== *)
theory Gen
  imports Llvm Codegen Bin_Writer
begin

text \<open>
  The code generator's state, \<open>struct cg\<close> of \<open>src/tools/translator/translator.c\<close>, with its value table,
  register pool, liveness bit sets and function, import and global tables. The state extends the part that
  branch fix-up uses. A function that sets \<open>had_error\<close> or returns an error yields \<open>None\<close>: the flag is never
  cleared, every caller gives up and the module is rejected. Counts and capacities are those of the lists;
  a failing \<open>realloc\<close> ends the process and is not modelled.
\<close>

section \<open>Bit sets\<close>

type_synonym cg_bits = "u64 list"

definition CG_BITS_W :: nat where "CG_BITS_W = 4"

definition cg_bits_clear :: cg_bits where "cg_bits_clear = replicate CG_BITS_W 0"

definition cg_bits_set :: "nat \<Rightarrow> cg_bits \<Rightarrow> cg_bits" where
  "cg_bits_set b w = w[b div 64 := w ! (b div 64) OR push_bit (b mod 64) 1]"

definition cg_bits_clear_bit :: "nat \<Rightarrow> cg_bits \<Rightarrow> cg_bits" where
  "cg_bits_clear_bit b w = w[b div 64 := w ! (b div 64) AND NOT (push_bit (b mod 64) 1)]"

definition cg_bits_test :: "cg_bits \<Rightarrow> nat \<Rightarrow> bool" where
  "cg_bits_test w b \<longleftrightarrow> drop_bit (b mod 64) (w ! (b div 64)) AND 1 \<noteq> 0"

definition cg_bits_or :: "cg_bits \<Rightarrow> cg_bits \<Rightarrow> cg_bits" where "cg_bits_or = map2 (OR)"

definition cg_bits_andnot :: "cg_bits \<Rightarrow> cg_bits \<Rightarrow> cg_bits" where "cg_bits_andnot = map2 (\<lambda>d s. d AND NOT s)"

definition cg_bits_eq :: "cg_bits \<Rightarrow> cg_bits \<Rightarrow> bool" where "cg_bits_eq a b \<longleftrightarrow> a = b"

section \<open>The state\<close>

record 'v cg_func =
  fn_value :: 'v
  fn_entry_offset :: u32
  fn_frame_size :: u32

record 'v cg_global =
  gl_value :: 'v
  gl_offset :: u32
  gl_size :: u32

definition CG_REG_SP :: u8 where "CG_REG_SP = 255"
definition CG_REG_SCRATCH :: u8 where "CG_REG_SCRATCH = 254"
definition CG_REG_ZERO :: u8 where "CG_REG_ZERO = 253"
definition CG_MAX_SSA_REG :: nat where "CG_MAX_SSA_REG = 229"
definition CG_MAX_EMIT_REG :: nat where "CG_MAX_EMIT_REG = 252"
definition CG_REG_SPILLED :: u8 where "CG_REG_SPILLED = 0"
definition CG_NO_SLOT :: u16 where "CG_NO_SLOT = 0xFFFF"

record ('b, 'v) gen = "'b cg" +
  cg_globals :: "'v cg_global list"
  cg_imports :: "('v \<times> string) list"
  cg_funcs :: "'v cg_func list"
  cg_has_calls :: bool
  cg_funcs_referenced :: bool
  cg_vals :: "'v list"
  cg_regs :: "u8 list"
  cg_val_slot :: "u16 list"
  cg_i64_slot :: "u16 list"
  cg_agg_slot :: "u16 list"
  cg_vec_slot :: "u16 list"
  cg_next_reg :: nat
  cg_htab :: "('v \<times> nat) option list"
  cg_allocas :: "('v \<times> u32) list"
  cg_bb_live_in :: "cg_bits list"
  cg_bb_live_out :: "cg_bits list"
  cg_call_lives :: "('v \<times> cg_bits) list"
  cg_alloca_bytes :: u32
  cg_spill_bytes :: u32
  cg_val_spill_bytes :: u32
  cg_val_spill_count :: nat
  cg_frame_bytes :: u32
  cg_fn_has_invoke :: bool
  cg_eh_frame_off :: u32
  cg_ssa_reg_high :: nat
  cg_ever_spilled :: cg_bits
  cg_slot_of :: "u8 list"
  cg_spill_slot_count :: nat
  cg_zero_reg :: u8
  cg_free_list :: "u8 list"

section \<open>Functions, imports, globals\<close>

definition cg_func_lookup :: "('b, 'v) gen \<Rightarrow> 'v \<Rightarrow> nat option" where
  "cg_func_lookup cg v = index_of v (map fn_value (cg_funcs cg))"

definition cg_func_append :: "'v \<Rightarrow> ('b, 'v) gen \<Rightarrow> nat \<times> ('b, 'v) gen" where
  "cg_func_append v cg = (length (cg_funcs cg),
     cg\<lparr>cg_funcs := cg_funcs cg @ [\<lparr>fn_value = v, fn_entry_offset = 0, fn_frame_size = 0\<rparr>]\<rparr>)"

definition cg_func_by_name :: "('v, 't, 'b) llvm \<Rightarrow> ('b, 'v) gen \<Rightarrow> string \<Rightarrow> nat option" where
  "cg_func_by_name L cg name = index_of name (map (\<lambda>f. value_name L (fn_value f)) (cg_funcs cg))"

definition cg_alloca_append :: "'v \<Rightarrow> u32 \<Rightarrow> ('b, 'v) gen \<Rightarrow> ('b, 'v) gen" where
  "cg_alloca_append v off cg = cg\<lparr>cg_allocas := cg_allocas cg @ [(v, off)]\<rparr>"

definition cg_import_lookup_or_add :: "'v \<Rightarrow> string \<Rightarrow> ('b, 'v) gen \<Rightarrow> nat \<times> ('b, 'v) gen" where
  "cg_import_lookup_or_add callee name cg =
     (case index_of callee (map fst (cg_imports cg)) of Some i \<Rightarrow> (i, cg)
      | None \<Rightarrow> (length (cg_imports cg), cg\<lparr>cg_imports := cg_imports cg @ [(callee, name)]\<rparr>))"

definition cg_globals_lookup :: "('b, 'v) gen \<Rightarrow> 'v \<Rightarrow> nat option" where
  "cg_globals_lookup cg v = index_of v (map gl_value (cg_globals cg))"

definition cg_globals_append :: "'v \<Rightarrow> u32 \<Rightarrow> u32 \<Rightarrow> ('b, 'v) gen \<Rightarrow> ('b, 'v) gen" where
  "cg_globals_append v offset sz cg =
     cg\<lparr>cg_globals := cg_globals cg @ [\<lparr>gl_value = v, gl_offset = offset, gl_size = sz\<rparr>]\<rparr>"

text \<open>The start of a function. The hash table keeps its capacity and loses its keys; the free list and the
  stale tail of every array are left alone.\<close>

definition cg_reset_function_state :: "('b, 'v) gen \<Rightarrow> ('b, 'v) gen" where
  "cg_reset_function_state cg =
     cg\<lparr>cg_vals := [], cg_regs := [], cg_val_slot := [], cg_i64_slot := [], cg_agg_slot := [], cg_vec_slot := [],
       cg_htab := replicate (length (cg_htab cg)) None, cg_next_reg := 8,
       cg_blocks := [], cg_block_offsets := [], cg_fixups := [], cg_allocas := [],
       cg_alloca_bytes := 0, cg_spill_bytes := 0, cg_val_spill_bytes := 0, cg_val_spill_count := 0,
       cg_frame_bytes := 0, cg_fn_has_invoke := False, cg_eh_frame_off := 0, cg_ssa_reg_high := 8, cg_zero_reg := 0,
       cg_call_lives := [], cg_ever_spilled := cg_bits_clear, cg_slot_of := replicate 256 0xFF,
       cg_spill_slot_count := 0, cg_table_fixups := []\<rparr>"

section \<open>Registers\<close>

definition cg_alloc_reg :: "('b, 'v) gen \<Rightarrow> (u8 \<times> ('b, 'v) gen) option" where
  "cg_alloc_reg cg =
     (if cg_free_list cg \<noteq> [] then Some (last (cg_free_list cg), cg\<lparr>cg_free_list := butlast (cg_free_list cg)\<rparr>)
      else if cg_next_reg cg > CG_MAX_EMIT_REG then None
      else Some (of_nat (cg_next_reg cg), cg\<lparr>cg_next_reg := cg_next_reg cg + 1\<rparr>))"

definition cg_free_reg :: "u8 \<Rightarrow> ('b, 'v) gen \<Rightarrow> ('b, 'v) gen" where
  "cg_free_reg r cg =
     (if r \<in> set (cg_free_list cg) then cg
      else if length (cg_free_list cg) < 256 then cg\<lparr>cg_free_list := cg_free_list cg @ [r]\<rparr> else cg)"

section \<open>The value table\<close>

text \<open>The probe loop: the slot that holds \<open>v\<close> or the first empty one. The loop runs on for ever when there
  is neither, and then the value is \<open>None\<close>.\<close>

partial_function (option) htab_probe :: "('v \<times> nat) option list \<Rightarrow> 'v \<Rightarrow> u64 \<Rightarrow> nat option" where
  "htab_probe tab v h =
     Option.bind (at tab (unat h)) (\<lambda>e. case e of None \<Rightarrow> Some (unat h)
       | Some kv \<Rightarrow> if fst kv = v then Some (unat h)
                    else htab_probe tab v ((h + 1) AND (of_nat (length tab) - 1)))"

definition htab_start :: "('v, 't, 'b) llvm \<Rightarrow> ('v \<times> nat) option list \<Rightarrow> 'v \<Rightarrow> u64" where
  "htab_start L tab v = drop_bit 4 (v_addr L v) AND (of_nat (length tab) - 1)"

definition cg_htab_put :: "('v, 't, 'b) llvm \<Rightarrow> 'v \<Rightarrow> nat \<Rightarrow> ('v \<times> nat) option list \<Rightarrow> ('v \<times> nat) option list option" where
  "cg_htab_put L v idx tab = do {
     h \<leftarrow> htab_probe tab v (htab_start L tab v);
     Some (if tab ! h \<noteq> None then tab else tab[h := Some (v, idx)])
   }"

function grow_cap :: "nat \<Rightarrow> nat \<Rightarrow> nat" where
  "grow_cap cap min_cap = (if cap < min_cap \<and> 0 < cap then grow_cap (2 * cap) min_cap else cap)"
  by pat_completeness auto
termination by (relation "measure (\<lambda>(c, m). m - c)") auto

declare grow_cap.simps [simp del]

primrec htab_fill ::
  "('v, 't, 'b) llvm \<Rightarrow> 'v list \<Rightarrow> nat \<Rightarrow> ('v \<times> nat) option list \<Rightarrow> ('v \<times> nat) option list option" where
  "htab_fill L [] i tab = Some tab"
| "htab_fill L (v # vs) i tab = do { tab' \<leftarrow> cg_htab_put L v i tab; htab_fill L vs (i + 1) tab' }"

definition cg_htab_grow ::
  "('v, 't, 'b) llvm \<Rightarrow> nat \<Rightarrow> 'v list \<Rightarrow> ('v \<times> nat) option list \<Rightarrow> ('v \<times> nat) option list option" where
  "cg_htab_grow L min_cap vals tab =
     (let cap = grow_cap (if length tab = 0 then 64 else length tab) min_cap in
      htab_fill L vals 0 (replicate cap None))"

text \<open>The index of a value, \<open>Some None\<close> for -1.\<close>

definition cg_lookup :: "('v, 't, 'b) llvm \<Rightarrow> ('b, 'v) gen \<Rightarrow> 'v \<Rightarrow> nat option option" where
  "cg_lookup L cg v =
     (if length (cg_htab cg) = 0 then Some None
      else do {
        h \<leftarrow> htab_probe (cg_htab cg) v (htab_start L (cg_htab cg) v);
        Some (map_option snd (cg_htab cg ! h))
      })"

definition cg_assign :: "('v, 't, 'b) llvm \<Rightarrow> 'v \<Rightarrow> u8 \<Rightarrow> ('b, 'v) gen \<Rightarrow> ('b, 'v) gen option" where
  "cg_assign L v r cg =
     (let n = length (cg_vals cg) in do {
       tab \<leftarrow> (if length (cg_htab cg) < 2 * (n + 1)
              then cg_htab_grow L (2 * (n + 1)) (cg_vals cg) (cg_htab cg) else Some (cg_htab cg));
       tab' \<leftarrow> cg_htab_put L v n tab;
       Some (cg\<lparr>cg_vals := cg_vals cg @ [v], cg_regs := cg_regs cg @ [r],
         cg_val_slot := cg_val_slot cg @ [CG_NO_SLOT], cg_i64_slot := cg_i64_slot cg @ [CG_NO_SLOT],
         cg_agg_slot := cg_agg_slot cg @ [CG_NO_SLOT], cg_vec_slot := cg_vec_slot cg @ [CG_NO_SLOT],
         cg_htab := tab'\<rparr>)
     })"

end
