(* ===== verification/Emit.thy ===== *)
theory Emit
  imports Gen
begin

text \<open>
  Emission helpers of the translator (\<open>src/tools/translator/translator.c\<close>): constants, the stack frame,
  operands, 64-bit operands, caller-save spilling and calls of the soft runtime. Each definition appends to
  the code of the state what its C function emits, in the same order. \<open>None\<close> is an error: see \<open>Gen\<close>. The
  frame helpers of the source return 0 always, so they are plain functions of the state here.
\<close>

section \<open>Constants and the frame\<close>

definition fits_i16 :: "u32 \<Rightarrow> bool" where
  "fits_i16 imm \<longleftrightarrow> sint imm \<ge> - 32768 \<and> sint imm \<le> 32767"

definition cg_emit_load_const32 :: "u8 \<Rightarrow> u32 \<Rightarrow> ('b, 'v) gen \<Rightarrow> ('b, 'v) gen" where
  "cg_emit_load_const32 rd imm cg =
     (if fits_i16 imm then cg_emit (enc_i16 (op_value CVM_OP_MOVI) rd (ucast imm)) cg
      else cg_emit (enc_i16 (op_value CVM_OP_MOVHI) rd (ucast (drop_bit 16 imm AND 0xFFFF)))
        (cg_emit (enc_i16 (op_value CVM_OP_MOVI) rd (ucast (imm AND 0xFFFF))) cg))"

definition cg_movi_scratch :: "u32 \<Rightarrow> ('b, 'v) gen \<Rightarrow> ('b, 'v) gen" where
  "cg_movi_scratch imm cg = cg_emit_load_const32 CG_REG_SCRATCH imm cg"

definition cg_addr_sp_plus :: "u32 \<Rightarrow> ('b, 'v) gen \<Rightarrow> ('b, 'v) gen" where
  "cg_addr_sp_plus off cg =
     cg_emit (enc_r (op_value CVM_OP_ADD) CG_REG_SCRATCH CG_REG_SP CG_REG_SCRATCH) (cg_movi_scratch off cg)"

definition cg_sp_sub :: "u32 \<Rightarrow> ('b, 'v) gen \<Rightarrow> ('b, 'v) gen" where
  "cg_sp_sub n cg = (if n = 0 then cg
     else cg_emit (enc_r (op_value CVM_OP_SUB) CG_REG_SP CG_REG_SP CG_REG_SCRATCH) (cg_movi_scratch n cg))"

definition cg_sp_add :: "u32 \<Rightarrow> ('b, 'v) gen \<Rightarrow> ('b, 'v) gen" where
  "cg_sp_add n cg = (if n = 0 then cg
     else cg_emit (enc_r (op_value CVM_OP_ADD) CG_REG_SP CG_REG_SP CG_REG_SCRATCH) (cg_movi_scratch n cg))"

definition cg_stw_sp_off :: "u32 \<Rightarrow> u8 \<Rightarrow> ('b, 'v) gen \<Rightarrow> ('b, 'v) gen" where
  "cg_stw_sp_off off src_reg cg =
     cg_emit (enc_r (op_value CVM_OP_STW) 0 CG_REG_SCRATCH src_reg) (cg_addr_sp_plus off cg)"

definition cg_ldw_sp_off :: "u8 \<Rightarrow> u32 \<Rightarrow> ('b, 'v) gen \<Rightarrow> ('b, 'v) gen" where
  "cg_ldw_sp_off dst_reg off cg =
     cg_emit (enc_r (op_value CVM_OP_LDW) dst_reg CG_REG_SCRATCH 0) (cg_addr_sp_plus off cg)"

definition cg_val_slot_off :: "('b, 'v) gen \<Rightarrow> u16 \<Rightarrow> u32" where
  "cg_val_slot_off cg slot = cg_alloca_bytes cg + cg_spill_bytes cg + ucast slot * 4"

section \<open>Operands\<close>

definition cg_reload_spilled :: "nat \<Rightarrow> ('b, 'v) gen \<Rightarrow> (u8 \<times> ('b, 'v) gen) option" where
  "cg_reload_spilled idx cg = do {
     (reload, cg1) \<leftarrow> cg_alloc_reg cg;
     slot \<leftarrow> at (cg_val_slot cg1) idx;
     Some (reload, cg_ldw_sp_off reload (cg_val_slot_off cg1 slot) cg1)
   }"

text \<open>The walk over the indices \<open>ks\<close> of a constant GEP.\<close>

primrec gep_walk :: "('v, 't, 'b) llvm \<Rightarrow> 'v \<Rightarrow> nat list \<Rightarrow> 't \<Rightarrow> u64 \<Rightarrow> u64 option" where
  "gep_walk L gep [] cur_ty off = Some off"
| "gep_walk L gep (k # ks) cur_ty off =
     (let idx_v = LLVMGetOperand L gep (k + 1) in
      if \<not> LLVMIsAConstantInt L idx_v then None
      else if k = 0
      then gep_walk L gep ks cur_ty (off + LLVMConstIntGetSExtValue L idx_v * LLVMABISizeOfType L cur_ty)
      else if LLVMGetTypeKind L cur_ty = LLVMArrayTypeKind
      then let et = LLVMGetElementType L cur_ty in
        gep_walk L gep ks et (off + LLVMConstIntGetSExtValue L idx_v * LLVMABISizeOfType L et)
      else if LLVMGetTypeKind L cur_ty = LLVMStructTypeKind
      then let fi = unat (ucast (LLVMConstIntGetZExtValue L idx_v) :: u32) in
        gep_walk L gep ks (LLVMStructGetTypeAtIndex L cur_ty fi) (off + LLVMOffsetOfElement L cur_ty fi)
      else None)"

definition cg_const_gep_offset :: "('v, 't, 'b) llvm \<Rightarrow> 'v \<Rightarrow> u64 option" where
  "cg_const_gep_offset L gep = do {
     cur_ty \<leftarrow> LLVMGetGEPSourceElementType L gep;
     gep_walk L gep [0..<LLVMGetNumIndices L gep] cur_ty 0
   }"

text \<open>The loop of \<open>cg_strip_alias\<close>; aliases form no cycles, and \<open>None\<close> is a walk that does not end.\<close>

partial_function (option) cg_strip_alias :: "('v, 't, 'b) llvm \<Rightarrow> 'v \<Rightarrow> 'v option" where
  "cg_strip_alias L v = (if LLVMIsAGlobalAlias L v then cg_strip_alias L (LLVMAliasGetAliasee L v) else Some v)"

definition in_i32_range :: "u64 \<Rightarrow> bool" where
  "in_i32_range x \<longleftrightarrow> \<not> (sint x < - (2 ^ 31) \<or> sint x > 2 ^ 31 - 1)"

text \<open>A constant in a fresh register.\<close>

definition cg_fresh_const :: "u32 \<Rightarrow> ('b, 'v) gen \<Rightarrow> (u8 \<times> ('b, 'v) gen) option" where
  "cg_fresh_const imm cg = do { (r, cg1) \<leftarrow> cg_alloc_reg cg; Some (r, cg_emit_load_const32 r imm cg1) }"

partial_function (option) cg_reg_for ::
  "('v, 't, 'b) llvm \<Rightarrow> 'v \<Rightarrow> ('b, 'v) gen \<Rightarrow> (u8 \<times> ('b, 'v) gen) option" where
  "cg_reg_for L v cg =
     (if LLVMIsAGlobalAlias L v then Option.bind (cg_strip_alias L v) (\<lambda>a. cg_reg_for L a cg)
      else Option.bind (cg_lookup L cg v) (\<lambda>ix. case ix of
        Some idx \<Rightarrow> Option.bind (at (cg_val_slot cg) idx) (\<lambda>slot.
          if slot \<noteq> CG_NO_SLOT then cg_reload_spilled idx cg
          else map_option (\<lambda>r. (r, cg)) (at (cg_regs cg) idx))
      | None \<Rightarrow>
        if LLVMIsAConstantInt L v then
          (let imm = (if LLVMGetIntTypeWidth L (LLVMTypeOf L v) = 1 then LLVMConstIntGetZExtValue L v
             else LLVMConstIntGetSExtValue L v) in
           if \<not> in_i32_range imm then None else cg_fresh_const (ucast imm) cg)
        else if LLVMIsAConstantPointerNull L v then
          Option.bind (cg_alloc_reg cg) (\<lambda>(r, cg1). Some (r, cg_emit (enc_i16 (op_value CVM_OP_MOVI) r 0) cg1))
        else if LLVMIsAConstantFP L v then
          (if LLVMGetTypeKind L (LLVMTypeOf L v) \<noteq> LLVMFloatTypeKind then None
           else cg_fresh_const (v_real_float_bits L v) cg)
        else if LLVMIsUndef L v then Some (cg_zero_reg cg, cg)
        else if LLVMIsAGlobalVariable L v then
          Option.bind (cg_globals_lookup cg v) (\<lambda>idx. cg_fresh_const (gl_offset (cg_globals cg ! idx)) cg)
        else if LLVMIsAFunction L v then
          Option.bind (cg_func_lookup cg v) (\<lambda>fidx. Option.bind (cg_fresh_const (CVM_FN_SLOT (of_nat fidx)) cg)
            (\<lambda>(r, cg1). Some (r, cg1\<lparr>cg_funcs_referenced := True\<rparr>)))
        else if LLVMIsAConstantExpr L v then
          (if LLVMGetConstOpcode L v \<in> {LLVMBitCast, LLVMAddrSpaceCast, LLVMIntToPtr, LLVMPtrToInt}
           then cg_reg_for L (LLVMGetOperand L v 0) cg
           else if LLVMGetConstOpcode L v = LLVMGetElementPtr then
             Option.bind (cg_const_gep_offset L v) (\<lambda>off.
             Option.bind (cg_reg_for L (LLVMGetOperand L v 0) cg) (\<lambda>(base, cg1).
               if off = 0 then Some (base, cg1)
               else if \<not> in_i32_range off then None
               else Option.bind (cg_fresh_const (ucast off) cg1) (\<lambda>(off_r, cg2).
                 Option.bind (cg_alloc_reg cg2) (\<lambda>(sum_r, cg3).
                   Some (sum_r, cg_emit (enc_r (op_value CVM_OP_ADD) sum_r base off_r) cg3)))))
           else None)
        else None))"

text \<open>A narrow operand brought to its width \<open>w\<close>, by sign or zero extension.\<close>

definition cg_norm_reg_width :: "u8 \<Rightarrow> nat \<Rightarrow> bool \<Rightarrow> ('b, 'v) gen \<Rightarrow> (u8 \<times> ('b, 'v) gen) option" where
  "cg_norm_reg_width src w is_signed cg =
     (if w \<ge> 32 then Some (src, cg)
      else do {
        (dst, cg1) \<leftarrow> cg_alloc_reg cg;
        Some (dst,
          if is_signed
          then cg_emit (enc_r (op_value CVM_OP_SAR) dst dst CG_REG_SCRATCH)
            (cg_emit (enc_r (op_value CVM_OP_SHL) dst src CG_REG_SCRATCH)
              (cg_emit (enc_i16 (op_value CVM_OP_MOVI) CG_REG_SCRATCH (of_nat (32 - w))) cg1))
          else cg_emit (enc_r (op_value CVM_OP_AND) dst src CG_REG_SCRATCH)
            (cg_emit_load_const32 CG_REG_SCRATCH (ucast (push_bit w (1 :: u64) - 1)) cg1))
      })"

definition cg_icmp_operand :: "('v, 't, 'b) llvm \<Rightarrow> 'v \<Rightarrow> nat \<Rightarrow> bool \<Rightarrow> ('b, 'v) gen \<Rightarrow> (u8 \<times> ('b, 'v) gen) option" where
  "cg_icmp_operand L v w is_signed cg =
     do { (src, cg1) \<leftarrow> cg_reg_for L v cg; cg_norm_reg_width src w is_signed cg1 }"

text \<open>The comparison that decides a predicate, and whether its operands are swapped.\<close>

fun icmp_to_op :: "LLVMIntPredicate \<Rightarrow> (u8 \<times> bool) option" where
  "icmp_to_op LLVMIntEQ = Some (op_value CVM_OP_CMP_EQ, False)"
| "icmp_to_op LLVMIntNE = Some (op_value CVM_OP_CMP_NE, False)"
| "icmp_to_op LLVMIntSLT = Some (op_value CVM_OP_CMP_LT, False)"
| "icmp_to_op LLVMIntSLE = Some (op_value CVM_OP_CMP_LE, False)"
| "icmp_to_op LLVMIntSGT = Some (op_value CVM_OP_CMP_LT, True)"
| "icmp_to_op LLVMIntSGE = Some (op_value CVM_OP_CMP_LE, True)"
| "icmp_to_op LLVMIntULT = Some (op_value CVM_OP_CMP_LTU, False)"
| "icmp_to_op LLVMIntULE = Some (op_value CVM_OP_CMP_LEU, False)"
| "icmp_to_op LLVMIntUGT = Some (op_value CVM_OP_CMP_LTU, True)"
| "icmp_to_op LLVMIntUGE = Some (op_value CVM_OP_CMP_LEU, True)"
| "icmp_to_op (LLVMIntOther k) = None"

section \<open>64-bit and 65-bit operands\<close>

definition cg_i64_lo_off :: "('b, 'v) gen \<Rightarrow> nat \<Rightarrow> u32 option" where
  "cg_i64_lo_off cg idx = map_option (cg_val_slot_off cg) (at (cg_i64_slot cg) idx)"

text \<open>The slot of a value that lives in wide slots.\<close>

definition wide_index :: "('v, 't, 'b) llvm \<Rightarrow> ('b, 'v) gen \<Rightarrow> 'v \<Rightarrow> nat option" where
  "wide_index L cg v = do {
     ix \<leftarrow> cg_lookup L cg v;
     idx \<leftarrow> ix;
     slot \<leftarrow> at (cg_i64_slot cg) idx;
     if slot = CG_NO_SLOT then None else Some idx
   }"

definition cg_i64_read :: "('v, 't, 'b) llvm \<Rightarrow> 'v \<Rightarrow> ('b, 'v) gen \<Rightarrow> (u8 \<times> u8 \<times> ('b, 'v) gen) option" where
  "cg_i64_read L v cg =
     (case cg_wide_const_words L v of
        Some (clo, chi) \<Rightarrow> do {
          (lo, cg1) \<leftarrow> cg_fresh_const clo cg;
          (hi, cg2) \<leftarrow> cg_fresh_const chi cg1;
          Some (lo, hi, cg2)
        }
      | None \<Rightarrow>
        if LLVMIsUndef L v then Some (cg_zero_reg cg, cg_zero_reg cg, cg)
        else do {
          idx \<leftarrow> wide_index L cg v;
          off \<leftarrow> cg_i64_lo_off cg idx;
          (lo, cg1) \<leftarrow> cg_alloc_reg cg;
          (hi, cg2) \<leftarrow> cg_alloc_reg (cg_ldw_sp_off lo off cg1);
          Some (lo, hi, cg_ldw_sp_off hi (off + 4) cg2)
        })"

definition cg_i64_write :: "nat \<Rightarrow> u8 \<Rightarrow> u8 \<Rightarrow> ('b, 'v) gen \<Rightarrow> ('b, 'v) gen option" where
  "cg_i64_write idx lo hi cg =
     map_option (\<lambda>off. cg_stw_sp_off (off + 4) hi (cg_stw_sp_off off lo cg)) (cg_i64_lo_off cg idx)"

definition cg_i65_read ::
  "('v, 't, 'b) llvm \<Rightarrow> 'v \<Rightarrow> ('b, 'v) gen \<Rightarrow> (u8 \<times> u8 \<times> u8 \<times> ('b, 'v) gen) option" where
  "cg_i65_read L v cg = do {
     idx \<leftarrow> wide_index L cg v;
     off \<leftarrow> cg_i64_lo_off cg idx;
     (w0, cg1) \<leftarrow> cg_alloc_reg cg;
     (w1, cg2) \<leftarrow> cg_alloc_reg (cg_ldw_sp_off w0 off cg1);
     (w2, cg3) \<leftarrow> cg_alloc_reg (cg_ldw_sp_off w1 (off + 4) cg2);
     Some (w0, w1, w2, cg_ldw_sp_off w2 (off + 8) cg3)
   }"

definition cg_i65_write :: "nat \<Rightarrow> u8 \<Rightarrow> u8 \<Rightarrow> u8 \<Rightarrow> ('b, 'v) gen \<Rightarrow> ('b, 'v) gen option" where
  "cg_i65_write idx w0 w1 w2 cg =
     map_option (\<lambda>off. cg_stw_sp_off (off + 8) w2 (cg_stw_sp_off (off + 4) w1 (cg_stw_sp_off off w0 cg)))
       (cg_i64_lo_off cg idx)"

definition cg_shift_imm :: "u8 \<Rightarrow> u8 \<Rightarrow> u8 \<Rightarrow> nat \<Rightarrow> ('b, 'v) gen \<Rightarrow> ('b, 'v) gen" where
  "cg_shift_imm cv dst src amt cg =
     cg_emit (enc_r cv dst src CG_REG_SCRATCH)
       (cg_emit (enc_i16 (op_value CVM_OP_MOVI) CG_REG_SCRATCH (of_nat amt)) cg)"

end
