(* ===== verification/Phi_Moves.thy ===== *)
theory Phi_Moves
  imports Emit
begin

text \<open>
  The moves of the phis on a control-flow edge (\<open>cg_emit_phi_moves\<close> and its helpers in
  \<open>src/tools/translator/translator.c\<close>). The moves of an edge happen at once; the translator collects them and
  then orders them, saving a location to a spare register when only cycles are left.
\<close>

section \<open>Locations\<close>

text \<open>A register, or a frame slot marked by a flag.\<close>

definition PHI_SLOT_FLAG :: u32 where "PHI_SLOT_FLAG = 0x10000"

definition cg_loc_is_slot :: "u32 \<Rightarrow> bool" where "cg_loc_is_slot loc \<longleftrightarrow> loc AND PHI_SLOT_FLAG \<noteq> 0"

definition cg_phi_dst_loc :: "('b, 'v) gen \<Rightarrow> nat \<Rightarrow> u32 option" where
  "cg_phi_dst_loc cg phi_idx = Option.bind (at (cg_val_slot cg) phi_idx) (\<lambda>slot.
     if slot \<noteq> CG_NO_SLOT then Some (PHI_SLOT_FLAG OR ucast slot)
     else map_option ucast (at (cg_regs cg) phi_idx))"

definition cg_phi_src_loc :: "('v, 't, 'b) llvm \<Rightarrow> 'v \<Rightarrow> ('b, 'v) gen \<Rightarrow> (u32 \<times> ('b, 'v) gen) option" where
  "cg_phi_src_loc L src cg = do {
     ix \<leftarrow> cg_lookup L cg src;
     slot \<leftarrow> (case ix of None \<Rightarrow> Some CG_NO_SLOT | Some idx \<Rightarrow> at (cg_val_slot cg) idx);
     if slot \<noteq> CG_NO_SLOT then Some (PHI_SLOT_FLAG OR ucast slot, cg)
     else map_option (\<lambda>(r, cg1). (ucast r, cg1)) (cg_reg_for L src cg)
   }"

definition cg_phi_read_to :: "u32 \<Rightarrow> u8 \<Rightarrow> ('b, 'v) gen \<Rightarrow> ('b, 'v) gen" where
  "cg_phi_read_to src_loc dst cg =
     (if cg_loc_is_slot src_loc then cg_ldw_sp_off dst (cg_val_slot_off cg (ucast (src_loc AND 0xFFFF))) cg
      else if ucast src_loc \<noteq> dst then cg_emit (enc_r (op_value CVM_OP_MOV) dst (ucast src_loc) 0) cg
      else cg)"

definition cg_phi_write_from :: "u32 \<Rightarrow> u8 \<Rightarrow> ('b, 'v) gen \<Rightarrow> ('b, 'v) gen" where
  "cg_phi_write_from dst_loc src cg =
     (if cg_loc_is_slot dst_loc then cg_stw_sp_off (cg_val_slot_off cg (ucast (dst_loc AND 0xFFFF))) src cg
      else if ucast dst_loc \<noteq> src then cg_emit (enc_r (op_value CVM_OP_MOV) (ucast dst_loc) src 0) cg
      else cg)"

definition cg_phi_copy_loc :: "u32 \<Rightarrow> u32 \<Rightarrow> u8 \<Rightarrow> ('b, 'v) gen \<Rightarrow> ('b, 'v) gen" where
  "cg_phi_copy_loc dst src stage cg =
     (if src = dst then cg
      else if cg_loc_is_slot src \<and> cg_loc_is_slot dst then cg_phi_write_from dst stage (cg_phi_read_to src stage cg)
      else if cg_loc_is_slot src then cg_phi_read_to src (ucast dst) cg
      else if cg_loc_is_slot dst then cg_phi_write_from dst (ucast src) cg
      else cg_emit (enc_r (op_value CVM_OP_MOV) (ucast dst) (ucast src) 0) cg)"

definition cg_phi_emit_const :: "('v, 't, 'b) llvm \<Rightarrow> u32 \<Rightarrow> 'v \<Rightarrow> ('b, 'v) gen \<Rightarrow> ('b, 'v) gen option" where
  "cg_phi_emit_const L dst cv cg = do {
     (r, cg1) \<leftarrow> cg_reg_for L cv cg;
     Some ((cg_phi_write_from dst r cg1)\<lparr>cg_next_reg := cg_next_reg cg\<rparr>)
   }"

definition cg_phi_emit_word :: "u32 \<Rightarrow> u32 \<Rightarrow> u8 \<Rightarrow> ('b, 'v) gen \<Rightarrow> ('b, 'v) gen" where
  "cg_phi_emit_word dst w stage cg =
     (if cg_loc_is_slot dst then cg_phi_write_from dst stage (cg_emit_load_const32 stage w cg)
      else cg_emit_load_const32 (ucast dst) w cg)"

section \<open>Collecting the moves of an edge\<close>

datatype 'v phi_src = SRC_LOC u32 | SRC_CONST 'v | SRC_WORD u32

record 'v phi_move =
  pm_dst :: u32
  pm_src :: "'v phi_src"

definition loc_move :: "u32 \<Rightarrow> u32 \<Rightarrow> 'v phi_move list" where
  "loc_move d s = (if s \<noteq> d then [\<lparr>pm_dst = d, pm_src = SRC_LOC s\<rparr>] else [])"

text \<open>A phi in two slots.\<close>

definition wide_slot_of :: "('v, 't, 'b) llvm \<Rightarrow> ('b, 'v) gen \<Rightarrow> 'v \<Rightarrow> u16 option option" where
  "wide_slot_of L cg v = Option.bind (cg_lookup L cg v) (\<lambda>ix. case ix of None \<Rightarrow> Some None
     | Some idx \<Rightarrow> map_option (\<lambda>slot. if slot = CG_NO_SLOT then None else Some slot) (at (cg_i64_slot cg) idx))"

abbreviation lo_loc :: "u16 \<Rightarrow> u32" where "lo_loc slot \<equiv> PHI_SLOT_FLAG OR ucast slot"
abbreviation hi_loc :: "u16 \<Rightarrow> u32" where "hi_loc slot \<equiv> PHI_SLOT_FLAG OR (ucast slot + 1)"

definition wide_phi_moves ::
  "('v, 't, 'b) llvm \<Rightarrow> ('b, 'v) gen \<Rightarrow> u16 \<Rightarrow> 'v \<Rightarrow> 'v phi_move list option" where
  "wide_phi_moves L cg slot sval = Option.bind (wide_slot_of L cg sval) (\<lambda>ss. case ss of
       Some s \<Rightarrow> Some (loc_move (lo_loc slot) (lo_loc s) @ loc_move (hi_loc slot) (hi_loc s))
     | None \<Rightarrow> (case cg_wide_const_words L sval of
         Some (clo, chi) \<Rightarrow> Some [\<lparr>pm_dst = lo_loc slot, pm_src = SRC_WORD clo\<rparr>, \<lparr>pm_dst = hi_loc slot, pm_src = SRC_WORD chi\<rparr>]
       | None \<Rightarrow> if LLVMIsUndef L sval
           then Some [\<lparr>pm_dst = lo_loc slot, pm_src = SRC_LOC (ucast (cg_zero_reg cg))\<rparr>,
             \<lparr>pm_dst = hi_loc slot, pm_src = SRC_LOC (ucast (cg_zero_reg cg))\<rparr>]
           else None))"

text \<open>A phi in a register or one slot; code for the source may be emitted here.\<close>

definition word_phi_moves ::
  "('v, 't, 'b) llvm \<Rightarrow> nat \<Rightarrow> 'v \<Rightarrow> ('b, 'v) gen \<Rightarrow> ('v phi_move list \<times> ('b, 'v) gen) option" where
  "word_phi_moves L phi_idx sval cg = do {
     dst_loc \<leftarrow> cg_phi_dst_loc cg phi_idx;
     sidx \<leftarrow> cg_lookup L cg sval;
     if sidx \<noteq> None then do { (src_loc, cg1) \<leftarrow> cg_phi_src_loc L sval cg; Some (loc_move dst_loc src_loc, cg1) }
     else if LLVMIsUndef L sval then Some (loc_move dst_loc (ucast (cg_zero_reg cg)), cg)
     else Some ([\<lparr>pm_dst = dst_loc, pm_src = SRC_CONST sval\<rparr>], cg)
   }"

definition MAXM :: nat where "MAXM = 1024"

text \<open>One phi: the first entry for the edge's source block counts.\<close>

definition phi_moves1 ::
  "('v, 't, 'b) llvm \<Rightarrow> 'b \<Rightarrow> 'v \<Rightarrow> 'v phi_move list \<times> ('b, 'v) gen \<Rightarrow> ('v phi_move list \<times> ('b, 'v) gen) option" where
  "phi_moves1 L from inst acc =
     (let (moves, cg) = acc in
      if cg_is_eh_value L inst then Some acc
      else case map_of (LLVMIncoming L inst) from of None \<Rightarrow> Some acc
      | Some sval \<Rightarrow> do {
          ix \<leftarrow> cg_lookup L cg inst;
          phi_idx \<leftarrow> ix;
          if length moves + 2 > MAXM then None
          else do {
            wide \<leftarrow> at (cg_i64_slot cg) phi_idx;
            if wide \<noteq> CG_NO_SLOT then map_option (\<lambda>ms. (moves @ ms, cg)) (wide_phi_moves L cg wide sval)
            else map_option (\<lambda>(ms, cg1). (moves @ ms, cg1)) (word_phi_moves L phi_idx sval cg)
          }
        })"

definition block_phis :: "('v, 't, 'b) llvm \<Rightarrow> 'b \<Rightarrow> 'v list" where
  "block_phis L b = takeWhile (\<lambda>i. LLVMGetInstructionOpcode L i = LLVMPHI) (LLVMInstructions L b)"

primrec phi_moves_all ::
  "('v, 't, 'b) llvm \<Rightarrow> 'b \<Rightarrow> 'v list \<Rightarrow> 'v phi_move list \<times> ('b, 'v) gen \<Rightarrow> ('v phi_move list \<times> ('b, 'v) gen) option" where
  "phi_moves_all L from [] acc = Some acc"
| "phi_moves_all L from (i # is) acc = do { acc' \<leftarrow> phi_moves1 L from i acc; phi_moves_all L from is acc' }"

section \<open>Ordering the moves\<close>

text \<open>\<open>ps_loc\<close> is the table \<open>Lv\<close> of locations; \<open>ps_cur k\<close> the index of the location that holds the value location
  \<open>k\<close> had, \<open>ps_pred k\<close> the move that defines \<open>k\<close>, \<open>None\<close> for -1. The two stacks have their top in front.\<close>

record phi_state =
  ps_loc :: "u32 list"
  ps_cur :: "nat option list"
  ps_pred :: "nat option list"
  ps_done :: "nat \<Rightarrow> bool"
  ps_inready :: "nat \<Rightarrow> bool"
  ps_ready :: "nat list"
  ps_todo :: "nat list"

definition MAXLOC :: nat where "MAXLOC = 2 * 1024 + 1"

definition cg_loc_intern :: "u32 \<Rightarrow> phi_state \<Rightarrow> nat \<times> phi_state" where
  "cg_loc_intern v st = (case index_of v (ps_loc st) of Some k \<Rightarrow> (k, st)
     | None \<Rightarrow> (length (ps_loc st), st\<lparr>ps_loc := ps_loc st @ [v], ps_cur := ps_cur st @ [None], ps_pred := ps_pred st @ [None]\<rparr>))"

text \<open>Registering the move number \<open>m\<close>, and the moves whose destination is not read.\<close>

definition phi_register :: "'v phi_move \<Rightarrow> nat \<Rightarrow> phi_state \<Rightarrow> phi_state" where
  "phi_register mv m st =
     (let (di, st1) = cg_loc_intern (pm_dst mv) st;
          st2 = st1\<lparr>ps_pred := (ps_pred st1)[di := Some m], ps_todo := di # ps_todo st1\<rparr> in
      case pm_src mv of
        SRC_LOC s \<Rightarrow> let (si, st3) = cg_loc_intern s st2 in st3\<lparr>ps_cur := (ps_cur st3)[si := Some si]\<rparr>
      | _ \<Rightarrow> st2)"

definition phi_make_ready :: "'v phi_move \<Rightarrow> phi_state \<Rightarrow> phi_state" where
  "phi_make_ready mv st =
     (let (di, st1) = cg_loc_intern (pm_dst mv) st in
      if ps_cur st1 ! di = None \<and> \<not> ps_inready st1 di
      then st1\<lparr>ps_ready := di # ps_ready st1, ps_inready := (ps_inready st1)(di := True)\<rparr> else st1)"

definition phi_init :: "'v phi_move list \<Rightarrow> u8 \<Rightarrow> phi_state" where
  "phi_init moves spare =
     (let st0 = snd (cg_loc_intern (ucast spare) \<lparr>ps_loc = [], ps_cur = [], ps_pred = [], ps_done = \<lambda>_. False,
            ps_inready = \<lambda>_. False, ps_ready = [], ps_todo = []\<rparr>) in
      fold phi_make_ready moves (fold (\<lambda>(m, mv). phi_register mv m) (enumerate 0 moves) st0))"

definition CG_PHI_PUSH :: "nat \<Rightarrow> phi_state \<Rightarrow> phi_state option" where
  "CG_PHI_PUSH x st =
     (if \<not> ps_done st x \<and> \<not> ps_inready st x
      then if length (ps_ready st) \<ge> MAXLOC then None
        else Some (st\<lparr>ps_ready := x # ps_ready st, ps_inready := (ps_inready st)(x := True)\<rparr>)
      else Some st)"

text \<open>What an iteration emits.\<close>

datatype 'v phi_action = Act_None | Act_Const u32 'v | Act_Word u32 u32 | Act_Copy u32 u32

definition phi_emit :: "('v, 't, 'b) llvm \<Rightarrow> u8 \<Rightarrow> 'v phi_action \<Rightarrow> ('b, 'v) gen \<Rightarrow> ('b, 'v) gen option" where
  "phi_emit L stage act cg = (case act of Act_None \<Rightarrow> Some cg | Act_Const d v \<Rightarrow> cg_phi_emit_const L d v cg
     | Act_Word d w \<Rightarrow> Some (cg_phi_emit_word d w stage cg) | Act_Copy d s \<Rightarrow> Some (cg_phi_copy_loc d s stage cg))"

text \<open>An iteration of the inner loop, on the top \<open>b\<close> of \<open>ready\<close>. \<open>None\<close> is the overflow of \<open>ready\<close>.\<close>

definition phi_ready :: "'v phi_move list \<Rightarrow> nat \<Rightarrow> phi_state \<Rightarrow> ('v phi_action \<times> phi_state) option" where
  "phi_ready moves b st =
     (if ps_done st b then Some (Act_None, st)
      else let st1 = st\<lparr>ps_done := (ps_done st)(b := True)\<rparr> in
        case ps_pred st ! b of None \<Rightarrow> Some (Act_None, st1)
        | Some m \<Rightarrow> (case pm_src (moves ! m) of
            SRC_CONST v \<Rightarrow> Some (Act_Const (ps_loc st ! b) v, st1)
          | SRC_WORD w \<Rightarrow> Some (Act_Word (ps_loc st ! b) w, st1)
          | SRC_LOC s \<Rightarrow>
              let (a, st2) = cg_loc_intern s st1 in
              Option.bind (ps_cur st2 ! a) (\<lambda>c.
                let st3 = st2\<lparr>ps_cur := (ps_cur st2)[a := Some b]\<rparr> in
                map_option (Pair (Act_Copy (ps_loc st3 ! b) (ps_loc st3 ! c)))
                  (if a = c \<and> ps_pred st3 ! a \<noteq> None then CG_PHI_PUSH a st3 else Some st3))))"

text \<open>The step of the outer loop, on the top \<open>b\<close> of \<open>to_do\<close>; \<open>spare_idx\<close> is 0.\<close>

definition phi_todo :: "u8 \<Rightarrow> nat \<Rightarrow> phi_state \<Rightarrow> ('v phi_action \<times> phi_state) option" where
  "phi_todo spare b st =
     (if ps_done st b then Some (Act_None, st)
      else map_option (Pair (Act_Copy (ucast spare) (ps_loc st ! b)))
        (CG_PHI_PUSH b (st\<lparr>ps_cur := (ps_cur st)[b := Some 0]\<rparr>)))"

definition phi_step :: "'v phi_move list \<Rightarrow> u8 \<Rightarrow> phi_state \<Rightarrow> ('v phi_action \<times> phi_state) option" where
  "phi_step moves spare st = (case ps_ready st of
       b # bs \<Rightarrow> phi_ready moves b (st\<lparr>ps_ready := bs, ps_inready := (ps_inready st)(b := False)\<rparr>)
     | [] \<Rightarrow> (case ps_todo st of b # bs \<Rightarrow> phi_todo spare b (st\<lparr>ps_todo := bs\<rparr>) | [] \<Rightarrow> None))"

partial_function (option) phi_loop ::
  "('v, 't, 'b) llvm \<Rightarrow> 'v phi_move list \<Rightarrow> u8 \<Rightarrow> u8 \<Rightarrow> phi_state \<Rightarrow> ('b, 'v) gen \<Rightarrow> ('b, 'v) gen option" where
  "phi_loop L moves spare stage st cg =
     (if ps_todo st = [] then Some cg
      else Option.bind (phi_step moves spare st) (\<lambda>(act, st').
        Option.bind (phi_emit L stage act cg) (\<lambda>cg'. phi_loop L moves spare stage st' cg')))"

definition phi_sequence :: "('v, 't, 'b) llvm \<Rightarrow> 'v phi_move list \<Rightarrow> ('b, 'v) gen \<Rightarrow> ('b, 'v) gen option" where
  "phi_sequence L moves cg =
     (if moves = [] then Some cg
      else do {
        (spare, cg1) \<leftarrow> cg_alloc_reg cg;
        (stage, cg2) \<leftarrow> cg_alloc_reg cg1;
        phi_loop L moves spare stage (phi_init moves spare) cg2
      })"

definition cg_emit_phi_moves :: "('v, 't, 'b) llvm \<Rightarrow> 'b \<Rightarrow> 'b \<Rightarrow> ('b, 'v) gen \<Rightarrow> ('b, 'v) gen option" where
  "cg_emit_phi_moves L from to cg = do {
     (moves, cg1) \<leftarrow> phi_moves_all L from (block_phis L to) ([], cg);
     phi_sequence L moves cg1
   }"

end
