(* ===== verification/Phi_Sequence.thy ===== *)
theory Phi_Sequence
  imports Phi_Moves
begin

text \<open>
  Ordering a parallel copy. The invariant of the loop is stated on indices of locations; every step keeps it
  and makes progress, and at the end each destination holds its source's value from before.
\<close>

section \<open>The invariant\<close>

text \<open>\<open>D\<close> are the destinations, \<open>rd b\<close> the location that \<open>b\<close> is a copy of and \<open>T b\<close> the value it is to get; index 0
  is the spare register. \<open>E\<close> and \<open>V\<close> are the values of locations before and now.\<close>

definition copy_problem :: "nat set \<Rightarrow> (nat \<Rightarrow> nat option) \<Rightarrow> (nat \<Rightarrow> u32) \<Rightarrow> (nat \<Rightarrow> u32) \<Rightarrow> bool" where
  "copy_problem D rd E T \<longleftrightarrow> finite D \<and> 0 \<notin> D
     \<and> (\<forall>b \<in> D. rd b \<noteq> Some b \<and> rd b \<noteq> Some 0 \<and> (\<forall>a. rd b = Some a \<longrightarrow> T b = E a))"

definition copy_inv ::
  "nat set \<Rightarrow> (nat \<Rightarrow> nat option) \<Rightarrow> (nat \<Rightarrow> u32) \<Rightarrow> (nat \<Rightarrow> u32) \<Rightarrow> (nat \<Rightarrow> u32) \<Rightarrow> (nat \<Rightarrow> nat option)
    \<Rightarrow> nat set \<Rightarrow> nat set \<Rightarrow> nat set \<Rightarrow> bool" where
  "copy_inv D rd E T V cur dn rdy todo \<longleftrightarrow>
     dn \<subseteq> D \<and> rdy \<subseteq> D - dn \<and> todo \<subseteq> D \<and> D - dn \<subseteq> todo \<union> rdy
     \<and> (\<forall>b \<in> D - dn. \<forall>a. rd b = Some a \<longrightarrow> (\<exists>c. cur a = Some c \<and> V c = E a))
     \<and> (\<forall>b \<in> dn. V b = T b) \<and> (\<forall>k. k \<notin> D \<longrightarrow> k \<noteq> 0 \<longrightarrow> V k = E k)
     \<and> (\<forall>b \<in> D. cur b = Some b \<longrightarrow> b \<notin> dn \<and> b \<notin> rdy \<and> (\<exists>b' \<in> D - dn. rd b' = Some b))
     \<and> (\<forall>b \<in> D - dn - rdy. cur b = Some b)
     \<and> (\<forall>x y. cur x = Some y \<longrightarrow> y = x \<or> y \<in> dn \<or> y = 0)
     \<and> (todo = {} \<longrightarrow> rdy = {} \<and> D \<subseteq> dn)"

lemma copy_inv_facts:
  assumes "copy_inv D rd E T V cur dn rdy todo"
  shows "dn \<subseteq> D" "rdy \<subseteq> D - dn" "todo \<subseteq> D" "D - dn \<subseteq> todo \<union> rdy"
    "\<forall>b \<in> D - dn. \<forall>a. rd b = Some a \<longrightarrow> (\<exists>c. cur a = Some c \<and> V c = E a)"
    "\<forall>b \<in> dn. V b = T b" "\<forall>k. k \<notin> D \<longrightarrow> k \<noteq> 0 \<longrightarrow> V k = E k"
    "\<forall>b \<in> D. cur b = Some b \<longrightarrow> b \<notin> dn \<and> b \<notin> rdy \<and> (\<exists>b' \<in> D - dn. rd b' = Some b)"
    "\<forall>b \<in> D - dn - rdy. cur b = Some b"
    "\<forall>x y. cur x = Some y \<longrightarrow> y = x \<or> y \<in> dn \<or> y = 0"
    "todo = {} \<longrightarrow> rdy = {} \<and> D \<subseteq> dn"
  by (insert assms, unfold copy_inv_def, (elim conjE, assumption)+)

lemma copy_invI:
  assumes "dn \<subseteq> D" "rdy \<subseteq> D - dn" "todo \<subseteq> D" "D - dn \<subseteq> todo \<union> rdy"
    "\<And>b a. b \<in> D - dn \<Longrightarrow> rd b = Some a \<Longrightarrow> \<exists>c. cur a = Some c \<and> V c = E a"
    "\<And>b. b \<in> dn \<Longrightarrow> V b = T b" "\<And>k. k \<notin> D \<Longrightarrow> k \<noteq> 0 \<Longrightarrow> V k = E k"
    "\<And>b. b \<in> D \<Longrightarrow> cur b = Some b \<Longrightarrow> b \<notin> dn \<and> b \<notin> rdy \<and> (\<exists>b' \<in> D - dn. rd b' = Some b)"
    "\<And>b. b \<in> D - dn - rdy \<Longrightarrow> cur b = Some b"
    "\<And>x y. cur x = Some y \<Longrightarrow> y = x \<or> y \<in> dn \<or> y = 0"
    "todo = {} \<Longrightarrow> rdy = {} \<and> D \<subseteq> dn"
  shows "copy_inv D rd E T V cur dn rdy todo"
  unfolding copy_inv_def
  by (intro conjI ballI allI impI; ((rule assms; assumption) | (insert assms(8) assms(11), blast)))

lemmas copy_invD = copy_inv_facts(1-4) copy_inv_facts(5-) [rule_format]

lemma copy_problemD:
  assumes "copy_problem D rd E T"
  shows "finite D" "0 \<notin> D" "b \<in> D \<Longrightarrow> rd b \<noteq> Some b" "b \<in> D \<Longrightarrow> rd b \<noteq> Some 0"
    "b \<in> D \<Longrightarrow> rd b = Some a \<Longrightarrow> T b = E a"
  using assms by (simp_all add: copy_problem_def)

text \<open>The location of a value that is still needed is not one that is ready.\<close>

lemma ready_not_read:
  assumes "copy_problem D rd E T" "copy_inv D rd E T V cur dn rdy todo" "b \<in> rdy" "cur a = Some c"
  shows "c \<noteq> b"
proof
  assume "c = b"
  have b: "b \<in> D" "b \<notin> dn" using copy_invD(2) [OF assms(2)] assms(3) by auto
  then have "b \<noteq> 0" using copy_problemD(2) [OF assms(1)] by metis
  then have "cur b = Some b" using copy_inv_facts(10) [OF assms(2)] assms(4) \<open>c = b\<close> b by metis
  then show False using copy_inv_facts(8) [OF assms(2)] b(1) assms(3) by blast
qed

lemma copy_inv_write:
  assumes P: "copy_problem D rd E T" and I: "copy_inv D rd E T V cur dn rdy todo" and b: "b \<in> rdy" "rd b = None" "todo \<noteq> {}"
  shows "copy_inv D rd E T (V(b := T b)) cur (insert b dn) (rdy - {b}) todo"
proof -
  note J = copy_inv_facts [OF I]
  have bD: "b \<in> D" "b \<notin> dn" using J(2) b(1) by auto
  show ?thesis
  proof (rule copy_invI)
    show "insert b dn \<subseteq> D" "rdy - {b} \<subseteq> D - insert b dn" "todo \<subseteq> D" "D - insert b dn \<subseteq> todo \<union> (rdy - {b})"
      using J(1-4) bD(1) by blast+
    fix b1 a1 assume h: "b1 \<in> D - insert b dn" "rd b1 = Some a1"
    have "b1 \<in> D - dn" using h(1) by simp
    then obtain c1 where c1: "cur a1 = Some c1" "V c1 = E a1" using J(5) h(2) by blast
    then show "\<exists>c. cur a1 = Some c \<and> (V(b := T b)) c = E a1" using ready_not_read [OF P I b(1) c1(1)] by simp
  next
    fix x assume h: "x \<in> D" "cur x = Some x"
    have "x \<notin> dn" "x \<notin> rdy" "x \<noteq> b" using J(8) h b(1) by blast+
    moreover obtain b' where "b' \<in> D - dn" "rd b' = Some x" using J(8) h by blast
    ultimately show "x \<notin> insert b dn \<and> x \<notin> rdy - {b} \<and> (\<exists>b' \<in> D - insert b dn. rd b' = Some x)"
      using b(2) by (intro conjI bexI [of _ b']) auto
  next
    show "cur x = Some x" if "x \<in> D - insert b dn - (rdy - {b})" for x using J(9) that by blast
    show "y = x \<or> y \<in> insert b dn \<or> y = 0" if "cur x = Some y" for x y using J(10) that by blast
    show "(V(b := T b)) k = E k" if "k \<notin> D" "k \<noteq> 0" for k using J(7) that bD(1) by auto
    show "(V(b := T b)) x = T x" if "x \<in> insert b dn" for x using J(6) that by auto
  qed (use b(3) in simp)
qed

text \<open>A ready copy from where its source's value is; the source is freed when it was still in place.\<close>

lemma copy_inv_copy:
  assumes P: "copy_problem D rd E T" and I: "copy_inv D rd E T V cur dn rdy todo" and b: "b \<in> rdy" "rd b = Some a" "todo \<noteq> {}"
    and c: "cur a = Some c"
  shows "copy_inv D rd E T (V(b := V c)) (cur(a := Some b)) (insert b dn)
    (rdy - {b} \<union> (if a = c \<and> a \<in> D then {a} else {})) todo"
    and "a = c \<Longrightarrow> a \<in> D \<Longrightarrow> a \<notin> insert b dn \<and> a \<notin> rdy"
proof -
  let ?cur = "cur(a := Some b)" and ?rdy = "rdy - {b} \<union> (if a = c \<and> a \<in> D then {a} else {})"
  note J = copy_inv_facts [OF I]
  have bD: "b \<in> D" "b \<notin> dn" using J(2) b(1) by auto
  have ab: "a \<noteq> b" using copy_problemD(3) [OF P bD(1)] b(2) by auto
  have Vc: "V c = T b"
  proof -
    have "b \<in> D - dn" using bD by simp
    then have "V c = E a" using J(5) b(2) c by fastforce
    then show ?thesis using copy_problemD(5) [OF P bD(1) b(2)] by simp
  qed
  have free: "a \<notin> insert b dn \<and> a \<notin> rdy" if "a = c" "a \<in> D" using J(8) c that ab by blast
  show "a = c \<Longrightarrow> a \<in> D \<Longrightarrow> a \<notin> insert b dn \<and> a \<notin> rdy" by (rule free)
  show "copy_inv D rd E T (V(b := V c)) ?cur (insert b dn) ?rdy todo"
  proof (rule copy_invI)
    show "insert b dn \<subseteq> D" "?rdy \<subseteq> D - insert b dn" "todo \<subseteq> D" "D - insert b dn \<subseteq> todo \<union> ?rdy"
      using J(1-4) bD(1) free by (auto split: if_splits)
    fix b1 a1 assume h: "b1 \<in> D - insert b dn" "rd b1 = Some a1"
    have p: "b1 \<in> D - dn" using h(1) by simp
    show "\<exists>d. ?cur a1 = Some d \<and> (V(b := V c)) d = E a1"
    proof (cases "a1 = a")
      case True
      then have "V c = E a1" using J(5) p h(2) c by fastforce
      then show ?thesis using True by simp
    next
      case False
      obtain c1 where c1: "cur a1 = Some c1" "V c1 = E a1" using J(5) p h(2) by blast
      then show ?thesis using ready_not_read [OF P I b(1) c1(1)] False by simp
    qed
  next
    fix x assume h: "x \<in> D" "?cur x = Some x"
    have xa: "x \<noteq> a" using h(2) ab by auto
    then have cx: "cur x = Some x" using h(2) by simp
    have "x \<notin> dn" "x \<notin> rdy" "x \<noteq> b" using J(8) h(1) cx b(1) by blast+
    moreover obtain b' where "b' \<in> D - dn" "rd b' = Some x" using J(8) h(1) cx by blast
    ultimately show "x \<notin> insert b dn \<and> x \<notin> ?rdy \<and> (\<exists>b' \<in> D - insert b dn. rd b' = Some x)"
      using b(2) xa by (intro conjI bexI [of _ b']) auto
  next
    fix x assume h: "x \<in> D - insert b dn - ?rdy"
    then have x: "x \<in> D - dn - rdy" by auto
    then have cx: "cur x = Some x" using J(9) by blast
    then have "x \<noteq> a" using h c by (auto split: if_splits)
    then show "?cur x = Some x" using cx by simp
  next
    show "y = x \<or> y \<in> insert b dn \<or> y = 0" if "?cur x = Some y" for x y using J(10) that by (auto split: if_splits)
    show "(V(b := V c)) k = E k" if "k \<notin> D" "k \<noteq> 0" for k using J(7) that bD(1) by auto
    show "(V(b := V c)) x = T x" if "x \<in> insert b dn" for x using J(6) that Vc by auto
  qed (use b(3) in simp)
qed

text \<open>When no location is ready every pending copy is part of a cycle.\<close>

lemma pending_cycles:
  assumes P: "copy_problem D rd E T" and I: "copy_inv D rd E T V cur dn {} todo" and b: "b \<in> D - dn"
  obtains a where "rd b = Some a" "a \<in> D - dn" "a \<noteq> b"
proof -
  note J = copy_inv_facts [OF I]
  let ?S = "D - dn"
  have fin: "finite ?S" using copy_problemD(1) [OF P] by simp
  let ?f = "\<lambda>b. the (rd b)"
  have sub: "?S \<subseteq> ?f ` ?S"
  proof
    fix x assume x: "x \<in> ?S"
    then have "cur x = Some x" using J(9) by blast
    then obtain b' where "b' \<in> ?S" "rd b' = Some x" using J(8) x by blast
    then show "x \<in> ?f ` ?S" by (intro image_eqI [of _ _ b']) auto
  qed
  have eq: "?S = ?f ` ?S"
    by (rule card_seteq [OF finite_imageI [OF fin] sub card_image_le [OF fin]])
  have inj: "inj_on ?f ?S" by (rule eq_card_imp_inj_on [OF fin]) (simp only: eq [symmetric])
  have some: "\<exists>a. rd x = Some a \<and> a \<in> ?S" if x: "x \<in> ?S" for x
  proof -
    have fx: "?f x \<in> ?S" using x eq by blast
    then have "cur (?f x) = Some (?f x)" using J(9) by blast
    then obtain b' where b': "b' \<in> ?S" "rd b' = Some (?f x)" using J(8) fx by blast
    then have "?f b' = ?f x" by simp
    then have "b' = x" using inj b'(1) x by (auto dest: inj_onD)
    then show ?thesis using b'(2) fx by auto
  qed
  obtain a where a: "rd b = Some a" "a \<in> ?S" using some [OF b] by blast
  moreover have "a \<noteq> b" using copy_problemD(3) [OF P, of b] a(1) b by auto
  ultimately show ?thesis by (rule that)
qed

lemma copy_inv_break:
  assumes P: "copy_problem D rd E T" and I: "copy_inv D rd E T V cur dn {} todo" and b: "b \<in> D - dn" "todo \<subseteq> insert b todo'" "todo' \<subseteq> D"
  shows "copy_inv D rd E T (V(0 := V b)) (cur(b := Some 0)) dn {b} todo'"
proof -
  note J = copy_inv_facts [OF I]
  have b0: "b \<noteq> 0" using b(1) copy_problemD(2) [OF P] by (metis DiffD1)
  have cb: "cur b = Some b" using J(9) b(1) by blast
  show ?thesis
  proof (rule copy_invI)
    show "dn \<subseteq> D" "{b} \<subseteq> D - dn" "todo' \<subseteq> D" "D - dn \<subseteq> todo' \<union> {b}" using J(1,4) b by blast+
    fix b1 a1 assume h: "b1 \<in> D - dn" "rd b1 = Some a1"
    obtain c1 where c1: "cur a1 = Some c1" "V c1 = E a1" using J(5) h by blast
    obtain a where "rd b1 = Some a" "a \<in> D - dn" by (rule pending_cycles [OF P I h(1)])
    then have a1: "a1 \<in> D - dn" using h(2) by simp
    then have "cur a1 = Some a1" using J(9) by blast
    then have "c1 = a1" using c1(1) by simp
    moreover have "a1 \<noteq> 0" using a1 copy_problemD(2) [OF P] by (metis DiffD1)
    ultimately show "\<exists>c. (cur(b := Some 0)) a1 = Some c \<and> (V(0 := V b)) c = E a1" using c1 by (cases "a1 = b") auto
  next
    fix x assume h: "x \<in> D" "(cur(b := Some 0)) x = Some x"
    have xb: "x \<noteq> b" using h(2) b0 by auto
    then have "cur x = Some x" using h(2) by simp
    then show "x \<notin> dn \<and> x \<notin> {b} \<and> (\<exists>b' \<in> D - dn. rd b' = Some x)" using J(8) h(1) xb by blast
  next
    show "(cur(b := Some 0)) x = Some x" if "x \<in> D - dn - {b}" for x using J(9) that by auto
    show "y = x \<or> y \<in> dn \<or> y = 0" if "(cur(b := Some 0)) x = Some y" for x y using J(10) that by (auto split: if_splits)
    show "(V(0 := V b)) k = E k" if "k \<notin> D" "k \<noteq> 0" for k using J(7) that by simp
    show "(V(0 := V b)) x = T x" if "x \<in> dn" for x
      using J(6,1) that copy_problemD(2) [OF P] by (metis fun_upd_other subsetD)
    assume e: "todo' = {}"
    obtain a where "a \<in> D - dn" "a \<noteq> b" by (rule pending_cycles [OF P I b(1)])
    then show "{b} = {} \<and> D \<subseteq> dn" using J(4) b(2) e by blast
  qed
qed

lemma copy_inv_skip:
  assumes I: "copy_inv D rd E T V cur dn {} todo" and b: "b \<in> dn" "todo \<subseteq> insert b todo'" "todo' \<subseteq> D"
  shows "copy_inv D rd E T V cur dn {} todo'"
proof -
  note J = copy_inv_facts [OF I]
  show ?thesis
  proof (rule copy_invI)
    show "D - dn \<subseteq> todo' \<union> {}" "todo' = {} \<Longrightarrow> {} = {} \<and> D \<subseteq> dn" using J(4) b by blast+
    show "dn \<subseteq> D" "{} \<subseteq> D - dn" "todo' \<subseteq> D" using J(1) b(3) by simp_all
  qed ((rule J(5) [rule_format] J(6) [rule_format] J(7) [rule_format] J(8) [rule_format] J(9) [rule_format]
      J(10) [rule_format]; assumption) | (insert J(8), blast))+
qed

section \<open>The loop's state\<close>

text \<open>The indices of destinations, the index a copy reads and the value a destination is to get.\<close>

definition dst_set :: "nat option list \<Rightarrow> nat set" where
  "dst_set pred = {k. k < length pred \<and> pred ! k \<noteq> None}"

definition src_of :: "'v phi_move list \<Rightarrow> nat option list \<Rightarrow> nat \<Rightarrow> 'v phi_src option" where
  "src_of moves pred b = (if b < length pred then map_option (\<lambda>m. pm_src (moves ! m)) (pred ! b) else None)"

definition read_idx :: "'v phi_move list \<Rightarrow> u32 list \<Rightarrow> nat option list \<Rightarrow> nat \<Rightarrow> nat option" where
  "read_idx moves ls pred b = (case src_of moves pred b of Some (SRC_LOC s) \<Rightarrow> index_of s ls | _ \<Rightarrow> None)"

fun src_value :: "('v \<Rightarrow> u32) \<Rightarrow> (u32 \<Rightarrow> u32) \<Rightarrow> 'v phi_src \<Rightarrow> u32" where
  "src_value cval E (SRC_LOC s) = E s"
| "src_value cval E (SRC_CONST v) = cval v"
| "src_value cval E (SRC_WORD w) = w"

definition goal_value :: "('v \<Rightarrow> u32) \<Rightarrow> (u32 \<Rightarrow> u32) \<Rightarrow> 'v phi_move list \<Rightarrow> nat option list \<Rightarrow> nat \<Rightarrow> u32" where
  "goal_value cval E moves pred b = (case src_of moves pred b of Some s \<Rightarrow> src_value cval E s | None \<Rightarrow> 0)"

definition on_idx :: "u32 list \<Rightarrow> (u32 \<Rightarrow> u32) \<Rightarrow> nat \<Rightarrow> u32" where
  "on_idx ls V k = (if k < length ls then V (ls ! k) else 0)"

definition cur_of :: "nat option list \<Rightarrow> nat \<Rightarrow> nat option" where
  "cur_of cur k = (if k < length cur then cur ! k else None)"

text \<open>What does not change once all moves are registered.\<close>

definition phi_static :: "'v phi_move list \<Rightarrow> u32 \<Rightarrow> phi_state \<Rightarrow> bool" where
  "phi_static moves spare st \<longleftrightarrow> (let ls = ps_loc st; pred = ps_pred st in
     distinct ls \<and> ls \<noteq> [] \<and> ls ! 0 = spare \<and> length ls \<le> MAXLOC \<and> length pred = length ls \<and> pred ! 0 = None
     \<and> (\<forall>k < length ls. \<forall>m. pred ! k = Some m \<longrightarrow> m < length moves \<and> pm_dst (moves ! m) = ls ! k)
     \<and> (\<forall>m < length moves. \<exists>k < length ls. pred ! k = Some m)
     \<and> (\<forall>mv \<in> set moves. \<forall>s. pm_src mv = SRC_LOC s \<longrightarrow> s \<in> set ls \<and> s \<noteq> spare \<and> s \<noteq> pm_dst mv))"

definition phi_inv ::
  "('v \<Rightarrow> u32) \<Rightarrow> 'v phi_move list \<Rightarrow> u32 \<Rightarrow> (u32 \<Rightarrow> u32) \<Rightarrow> (u32 \<Rightarrow> u32) \<Rightarrow> phi_state \<Rightarrow> bool" where
  "phi_inv cval moves spare E V st \<longleftrightarrow> phi_static moves spare st \<and> length (ps_cur st) = length (ps_loc st)
     \<and> copy_inv (dst_set (ps_pred st)) (read_idx moves (ps_loc st) (ps_pred st)) (on_idx (ps_loc st) E)
         (goal_value cval E moves (ps_pred st)) (on_idx (ps_loc st) V) (cur_of (ps_cur st))
         {k. ps_done st k} (set (ps_ready st)) (set (ps_todo st))
     \<and> (\<forall>k. ps_inready st k \<longleftrightarrow> k \<in> set (ps_ready st)) \<and> distinct (ps_ready st)
     \<and> (\<forall>l. l \<notin> set (ps_loc st) \<longrightarrow> V l = E l)"

lemma loc_index_of:
  "index_of x xs = Some i \<Longrightarrow> i < length xs \<and> xs ! i = x"
  "x \<in> set xs \<Longrightarrow> \<exists>i. index_of x xs = Some i"
  by (induction xs arbitrary: i) (auto simp: index_of.simps split: if_splits)

lemma static_problem:
  assumes "phi_static moves spare st"
  shows "copy_problem (dst_set (ps_pred st)) (read_idx moves (ps_loc st) (ps_pred st)) (on_idx (ps_loc st) E)
    (goal_value cval E moves (ps_pred st))"
proof -
  let ?ls = "ps_loc st" and ?pred = "ps_pred st"
  have S: "distinct ?ls" "?ls \<noteq> []" "?ls ! 0 = spare" "length ?pred = length ?ls" "?pred ! 0 = None"
    "\<And>k m. k < length ?ls \<Longrightarrow> ?pred ! k = Some m \<Longrightarrow> m < length moves \<and> pm_dst (moves ! m) = ?ls ! k"
    "\<And>mv s. mv \<in> set moves \<Longrightarrow> pm_src mv = SRC_LOC s \<Longrightarrow> s \<in> set ?ls \<and> s \<noteq> spare \<and> s \<noteq> pm_dst mv"
    using assms by (simp_all add: phi_static_def Let_def)
  have rd: "a \<noteq> b \<and> a \<noteq> 0 \<and> goal_value cval E moves ?pred b = on_idx ?ls E a" if b: "b \<in> dst_set ?pred" "read_idx moves ?ls ?pred b = Some a" for a b
  proof -
    obtain m where m: "b < length ?ls" "?pred ! b = Some m" using b(1) S(4) by (auto simp: dst_set_def)
    obtain s where s: "pm_src (moves ! m) = SRC_LOC s" "index_of s ?ls = Some a"
      using b(2) m S(4) by (auto simp: read_idx_def src_of_def split: phi_src.splits)
    have a: "a < length ?ls" "?ls ! a = s" using loc_index_of(1) [OF s(2)] by auto
    have "s \<noteq> spare \<and> s \<noteq> ?ls ! b" using S(6) [OF m] S(7) [OF _ s(1)] by (metis nth_mem)
    then have "a \<noteq> b \<and> a \<noteq> 0" using a(2) S(3) by metis
    moreover have "goal_value cval E moves ?pred b = E s" using m S(4) s(1) by (simp add: goal_value_def src_of_def)
    ultimately show ?thesis using a by (simp add: on_idx_def)
  qed
  show ?thesis unfolding copy_problem_def
  proof (intro conjI ballI allI impI notI)
    show "finite (dst_set ?pred)" by (simp add: dst_set_def)
    show "0 \<in> dst_set ?pred \<Longrightarrow> False" using S(5) by (simp add: dst_set_def)
  qed (use rd in blast)+
qed

text \<open>The effect of an action on the values of locations.\<close>

fun act_env :: "('v \<Rightarrow> u32) \<Rightarrow> 'v phi_action \<Rightarrow> (u32 \<Rightarrow> u32) \<Rightarrow> u32 \<Rightarrow> u32" where
  "act_env cval Act_None V = V"
| "act_env cval (Act_Const d v) V = V(d := cval v)"
| "act_env cval (Act_Word d w) V = V(d := w)"
| "act_env cval (Act_Copy d s) V = V(d := V s)"

definition phi_measure :: "phi_state \<Rightarrow> nat" where
  "phi_measure st = 2 * length (ps_todo st) + 2 * card (dst_set (ps_pred st) - {k. ps_done st k}) + length (ps_ready st)"

lemma on_idx_upd: "distinct ls \<Longrightarrow> b < length ls \<Longrightarrow> on_idx ls (V(ls ! b := x)) = (on_idx ls V)(b := x)"
  by (auto simp: on_idx_def fun_eq_iff nth_eq_iff_index_eq)

lemma cur_of_upd: "a < length cur \<Longrightarrow> cur_of (cur[a := x]) = (cur_of cur)(a := x)"
  by (auto simp: cur_of_def fun_eq_iff nth_list_update)

text \<open>The locations of an action.\<close>

fun act_ok :: "'v phi_move list \<Rightarrow> u32 \<Rightarrow> 'v phi_action \<Rightarrow> bool" where
  "act_ok moves spare Act_None \<longleftrightarrow> True"
| "act_ok moves spare (Act_Const d v) \<longleftrightarrow> d \<in> pm_dst ` set moves \<and> SRC_CONST v \<in> pm_src ` set moves"
| "act_ok moves spare (Act_Word d w) \<longleftrightarrow> d \<in> pm_dst ` set moves"
| "act_ok moves spare (Act_Copy d s) \<longleftrightarrow> d \<in> insert spare (pm_dst ` set moves)
     \<and> s \<in> insert spare (pm_dst ` set moves \<union> {s. SRC_LOC s \<in> pm_src ` set moves}) \<and> d \<noteq> s"

lemma phi_push:
  assumes "phi_static moves spare st" "a < length (ps_loc st)" "set (ps_ready st) \<subseteq> {..< length (ps_loc st)}" "distinct (ps_ready st)"
    "\<not> ps_done st a" "\<not> ps_inready st a" "a \<notin> set (ps_ready st)"
  shows "CG_PHI_PUSH a st = Some (st\<lparr>ps_ready := a # ps_ready st, ps_inready := (ps_inready st)(a := True)\<rparr>)"
proof -
  have "card (insert a (set (ps_ready st))) \<le> card {..< length (ps_loc st)}" using assms(2,3) by (intro card_mono) auto
  then have "length (ps_ready st) < length (ps_loc st)" using assms(7) distinct_card [OF assms(4)] by simp
  then have "length (ps_ready st) < MAXLOC" using assms(1) by (simp add: phi_static_def Let_def)
  then show ?thesis using assms(5,6) by (simp add: CG_PHI_PUSH_def)
qed

lemma static_simps:
  assumes "phi_static moves spare st"
  shows "distinct (ps_loc st)" "ps_loc st \<noteq> []" "ps_loc st ! 0 = spare" "length (ps_loc st) \<le> MAXLOC"
    "length (ps_pred st) = length (ps_loc st)" "ps_pred st ! 0 = None"
    "k < length (ps_loc st) \<Longrightarrow> ps_pred st ! k = Some m \<Longrightarrow> m < length moves \<and> pm_dst (moves ! m) = ps_loc st ! k"
    "mv \<in> set moves \<Longrightarrow> pm_src mv = SRC_LOC s \<Longrightarrow> s \<in> set (ps_loc st) \<and> s \<noteq> spare \<and> s \<noteq> pm_dst mv"
  using assms by (simp_all add: phi_static_def Let_def)

lemma static_cong:
  "ps_loc st' = ps_loc st \<Longrightarrow> ps_pred st' = ps_pred st \<Longrightarrow> phi_static moves spare st' = phi_static moves spare st"
  by (simp add: phi_static_def)

lemma loc_of_dst:
  assumes "phi_static moves spare st" "k \<in> dst_set (ps_pred st)"
  shows "k < length (ps_loc st)" "ps_loc st ! k \<in> pm_dst ` set moves" "k \<noteq> 0"
    "\<exists>mv \<in> set moves. src_of moves (ps_pred st) k = Some (pm_src mv)"
proof -
  note S = static_simps [OF assms(1)]
  obtain m where m: "k < length (ps_loc st)" "ps_pred st ! k = Some m" using assms(2) S(5) by (auto simp: dst_set_def)
  show "k < length (ps_loc st)" by (rule m(1))
  show "ps_loc st ! k \<in> pm_dst ` set moves" using S(7) [OF m] by (metis image_eqI nth_mem)
  show "k \<noteq> 0" using m(2) S(6) by (metis option.distinct(1))
  show "\<exists>mv \<in> set moves. src_of moves (ps_pred st) k = Some (pm_src mv)" using m S(5) S(7) [OF m] by (auto simp: src_of_def)
qed

lemma phi_invI:
  assumes "phi_static moves spare st0"
    "copy_inv (dst_set (ps_pred st0)) (read_idx moves (ps_loc st0) (ps_pred st0)) (on_idx (ps_loc st0) E)
         (goal_value cval E moves (ps_pred st0)) (on_idx (ps_loc st0) V) (cur_of (ps_cur st)) dn rdy todo"
    "ps_loc st = ps_loc st0" "ps_pred st = ps_pred st0" "length (ps_cur st) = length (ps_loc st0)" "{k. ps_done st k} = dn" "set (ps_ready st) = rdy" "set (ps_todo st) = todo"
    "\<And>k. ps_inready st k \<longleftrightarrow> k \<in> set (ps_ready st)" "distinct (ps_ready st)" "\<And>l. l \<notin> set (ps_loc st0) \<Longrightarrow> V l = E l"
  shows "phi_inv cval moves spare E V st"
proof -
  have "phi_static moves spare st" using assms(1) static_cong [OF assms(3,4)] by blast
  then show ?thesis unfolding phi_inv_def using assms by metis
qed

section \<open>Steps keep the invariant\<close>

definition phi_progress ::
  "('v \<Rightarrow> u32) \<Rightarrow> 'v phi_move list \<Rightarrow> u8 \<Rightarrow> (u32 \<Rightarrow> u32) \<Rightarrow> (u32 \<Rightarrow> u32) \<Rightarrow> phi_state \<Rightarrow> 'v phi_action \<Rightarrow> phi_state \<Rightarrow> bool" where
  "phi_progress cval moves spare E V st act st' \<longleftrightarrow> phi_step moves spare st = Some (act, st')
     \<and> phi_inv cval moves (ucast spare) E (act_env cval act V) st' \<and> phi_measure st' < phi_measure st \<and> act_ok moves (ucast spare) act"

lemma step_ready:
  assumes I: "phi_inv cval moves (ucast spare) E V st" and r: "ps_ready st = b # bs" "ps_todo st \<noteq> []"
  shows "\<exists>act st'. phi_progress cval moves spare E V st act st'"
proof -
  let ?ls = "ps_loc st" and ?pred = "ps_pred st"
  let ?D = "dst_set ?pred" and ?dn = "{k. ps_done st k}" and ?rd = "read_idx moves ?ls ?pred"
  have S: "phi_static moves (ucast spare) st" and len: "length (ps_cur st) = length ?ls"
    and C: "copy_inv ?D ?rd (on_idx ?ls E) (goal_value cval E moves ?pred) (on_idx ?ls V) (cur_of (ps_cur st)) ?dn
      (set (ps_ready st)) (set (ps_todo st))"
    and ir: "\<And>k. ps_inready st k \<longleftrightarrow> k \<in> set (ps_ready st)" and dr: "distinct (ps_ready st)"
    and out: "\<And>l. l \<notin> set ?ls \<Longrightarrow> V l = E l"
    using I by (simp_all add: phi_inv_def)
  note SS = static_simps [OF S] and P = static_problem [OF S, where E = E and cval = cval] and J = copy_inv_facts [OF C]
  have b: "b \<in> set (ps_ready st)" "b \<in> ?D" "\<not> ps_done st b" using J(2) r(1) by auto
  note bl = loc_of_dst [OF S b(2)]
  have bs: "set bs = set (ps_ready st) - {b}" using dr r(1) by auto
  obtain mv where mv: "mv \<in> set moves" "src_of moves ?pred b = Some (pm_src mv)" using bl(4) by blast
  obtain m where m: "?pred ! b = Some m" "pm_src (moves ! m) = pm_src mv" using mv(2) by (auto simp: src_of_def split: if_splits)
  have fin: "finite ?D" by (simp add: dst_set_def)
  have dec: "card (?D - insert b ?dn) < card (?D - ?dn)" using fin b by (intro psubset_card_mono) auto
  have ls: "?ls ! b \<in> set ?ls" using bl(1) by simp
  let ?st = "st\<lparr>ps_ready := bs, ps_inready := (ps_inready st)(b := False), ps_done := (ps_done st)(b := True)\<rparr>"
  have st_eq: "phi_step moves spare st = (case pm_src mv of
      SRC_CONST v \<Rightarrow> Some (Act_Const (?ls ! b) v, ?st) | SRC_WORD w \<Rightarrow> Some (Act_Word (?ls ! b) w, ?st)
    | SRC_LOC s \<Rightarrow> let (a, st2) = cg_loc_intern s ?st in Option.bind (ps_cur st2 ! a) (\<lambda>c.
        let st3 = st2\<lparr>ps_cur := (ps_cur st2)[a := Some b]\<rparr> in
        map_option (Pair (Act_Copy (ps_loc st3 ! b) (ps_loc st3 ! c)))
          (if a = c \<and> ps_pred st3 ! a \<noteq> None then CG_PHI_PUSH a st3 else Some st3)))"
    using b(3) m by (simp add: phi_step_def r(1) phi_ready_def split: phi_src.splits)
  have ir2: "((ps_inready st)(b := False)) k \<longleftrightarrow> k \<in> set bs" for k using ir dr r(1) by auto
  have dn': "{k. ps_done ?st k} = insert b ?dn" by auto
  have direct: "phi_inv cval moves (ucast spare) E (V(?ls ! b := goal_value cval E moves ?pred b)) ?st" if "?rd b = None"
  proof -
    have "copy_inv ?D ?rd (on_idx ?ls E) (goal_value cval E moves ?pred)
        (on_idx ?ls (V(?ls ! b := goal_value cval E moves ?pred b))) (cur_of (ps_cur st)) (insert b ?dn) (set bs) (set (ps_todo st))"
      unfolding on_idx_upd [OF SS(1) bl(1)] bs by (rule copy_inv_write [OF P C b(1) that]) (simp add: r(2))
    then show ?thesis
      by (intro phi_invI [OF S, where dn = "insert b ?dn" and rdy = "set bs" and todo = "set (ps_todo st)"])
        (use len ir2 dr r(1) out ls dn' in auto)
  qed
  have meas: "phi_measure ?st < phi_measure st" unfolding phi_measure_def dn' using dec r(1) by simp
  show ?thesis
  proof (cases "pm_src mv")
    case (SRC_CONST v)
    have "?rd b = None" using mv(2) SRC_CONST by (simp add: read_idx_def)
    moreover have "goal_value cval E moves ?pred b = cval v" using mv(2) SRC_CONST by (simp add: goal_value_def)
    moreover have "SRC_CONST v \<in> pm_src ` set moves" using mv(1) SRC_CONST by (metis image_eqI)
    ultimately show ?thesis
      unfolding phi_progress_def using direct meas bl(2) by (intro exI [of _ "Act_Const (?ls ! b) v"] exI [of _ ?st]) (simp add: st_eq SRC_CONST)
  next
    case (SRC_WORD w)
    have "?rd b = None" using mv(2) SRC_WORD by (simp add: read_idx_def)
    moreover have "goal_value cval E moves ?pred b = w" using mv(2) SRC_WORD by (simp add: goal_value_def)
    ultimately show ?thesis
      unfolding phi_progress_def using direct meas bl(2) by (intro exI [of _ "Act_Word (?ls ! b) w"] exI [of _ ?st]) (simp add: st_eq SRC_WORD)
  next
    case (SRC_LOC s)
    have sin: "s \<in> set ?ls" using SS(8) [OF mv(1) SRC_LOC] by blast
    obtain a where a: "index_of s ?ls = Some a" using loc_index_of(2) [OF sin] by blast
    have al: "a < length ?ls" "?ls ! a = s" using loc_index_of(1) [OF a] by auto
    have rd: "?rd b = Some a" using mv(2) SRC_LOC a by (simp add: read_idx_def)
    have bp: "b \<in> ?D - ?dn" using b by simp
    obtain c where c: "cur_of (ps_cur st) a = Some c" using J(5) bp rd by blast
    have cl: "c < length ?ls" using J(10) c J(1) loc_of_dst(1) [OF S] al(1) SS(2) by (metis length_greater_0_conv subsetD)
    have cb: "c \<noteq> b" by (rule ready_not_read [OF P C b(1) c])
    have ca: "ps_cur st ! a = Some c" using c al(1) len by (simp add: cur_of_def)
    let ?p = "a = c \<and> a \<in> ?D"
    let ?st3 = "?st\<lparr>ps_cur := (ps_cur st)[a := Some b]\<rparr>"
    let ?st4 = "if ?p then ?st3\<lparr>ps_ready := a # bs, ps_inready := (ps_inready ?st)(a := True)\<rparr> else ?st3"
    have W: "copy_inv ?D ?rd (on_idx ?ls E) (goal_value cval E moves ?pred) ((on_idx ?ls V)(b := on_idx ?ls V c))
        ((cur_of (ps_cur st))(a := Some b)) (insert b ?dn) (set (ps_ready st) - {b} \<union> (if ?p then {a} else {})) (set (ps_todo st))"
      and W2: "?p \<Longrightarrow> a \<notin> insert b ?dn \<and> a \<notin> set (ps_ready st)"
      using copy_inv_copy [OF P C b(1) rd _ c] r(2) by auto
    have V: "(on_idx ?ls V)(b := on_idx ?ls V c) = on_idx ?ls (V(?ls ! b := V (?ls ! c)))"
      unfolding on_idx_upd [OF SS(1) bl(1)] using cl by (simp add: on_idx_def)
    have Cu: "(cur_of (ps_cur st))(a := Some b) = cur_of ((ps_cur st)[a := Some b])" using al(1) len by (simp add: cur_of_upd)
    have dbs: "distinct bs" using dr r(1) by simp
    have nbs: "a \<notin> set bs" if ?p using W2 [OF that] bs by blast
    have push: "CG_PHI_PUSH a ?st3 = Some ?st4" if p: ?p
    proof -
      have "set bs \<subseteq> {..< length ?ls}" using bs J(2) loc_of_dst(1) [OF S] by blast
      then have "CG_PHI_PUSH a ?st3 = Some (?st3\<lparr>ps_ready := a # ps_ready ?st3, ps_inready := (ps_inready ?st3)(a := True)\<rparr>)"
        using W2 [OF p] S al(1) dbs nbs [OF p] ir by (intro phi_push [of moves "ucast spare"]) (auto simp: static_cong [of ?st3 st])
      then show ?thesis unfolding if_P [OF p] by simp
    qed
    have mem: "?pred ! a \<noteq> None \<longleftrightarrow> a \<in> ?D" using al(1) SS(5) by (simp add: dst_set_def)
    have sel: "ps_cur ?st = ps_cur st" "ps_loc ?st3 = ?ls" "ps_pred ?st3 = ?pred" by simp_all
    have int: "cg_loc_intern s ?st = (a, ?st)" by (simp add: cg_loc_intern_def a)
    have "phi_step moves spare st = map_option (Pair (Act_Copy (?ls ! b) (?ls ! c)))
        (if a = c \<and> ?pred ! a \<noteq> None then CG_PHI_PUSH a ?st3 else Some ?st3)"
      unfolding st_eq SRC_LOC by (simp only: phi_src.case int Let_def prod.case sel ca bind.bind_lunit)
    also have "(if a = c \<and> ?pred ! a \<noteq> None then CG_PHI_PUSH a ?st3 else Some ?st3) = Some ?st4"
    proof (cases ?p)
      case True
      then have q: "a = c \<and> ?pred ! a \<noteq> None" using mem by blast
      show ?thesis unfolding if_P [OF q] by (rule push [OF True])
    next
      case False
      then have q: "\<not> (a = c \<and> ?pred ! a \<noteq> None)" using mem by blast
      show ?thesis unfolding if_not_P [OF q] if_not_P [OF False] ..
    qed
    finally have "phi_step moves spare st = Some (Act_Copy (?ls ! b) (?ls ! c), ?st4)" by simp
    moreover have "phi_inv cval moves (ucast spare) E (V(?ls ! b := V (?ls ! c))) ?st4"
    proof -
      have sel4: "ps_cur ?st4 = (ps_cur st)[a := Some b]" by auto
      have "copy_inv ?D ?rd (on_idx ?ls E) (goal_value cval E moves ?pred) (on_idx ?ls (V(?ls ! b := V (?ls ! c))))
          (cur_of (ps_cur ?st4)) (insert b ?dn) (set (ps_ready st) - {b} \<union> (if ?p then {a} else {})) (set (ps_todo st))"
        unfolding sel4 by (rule W [unfolded V Cu])
      then show ?thesis
      proof (rule phi_invI [OF S])
        show "set (ps_ready ?st4) = set (ps_ready st) - {b} \<union> (if ?p then {a} else {})" unfolding bs [symmetric] by auto
        show "distinct (ps_ready ?st4)" using dbs nbs by auto
        show "ps_inready ?st4 k \<longleftrightarrow> k \<in> set (ps_ready ?st4)" for k using ir2 by auto
        show "{k. ps_done ?st4 k} = insert b ?dn" using dn' by simp
      qed (use len out ls in auto)
    qed
    moreover have "phi_measure ?st4 < phi_measure st"
      using dec r(1) dn' by (simp add: phi_measure_def)
    moreover have "act_ok moves (ucast spare) (Act_Copy (?ls ! b) (?ls ! c))"
    proof -
      have "c = a \<or> c \<in> ?D \<or> c = 0" using J(10) c J(1) by blast
      moreover have "SRC_LOC s \<in> pm_src ` set moves" using mv(1) SRC_LOC by (metis image_eqI)
      moreover have "?ls ! b \<noteq> ?ls ! c" using cb cl bl(1) SS(1) by (simp add: nth_eq_iff_index_eq)
      ultimately show ?thesis using bl(2) al(2) loc_of_dst(2) [OF S] SS(3) by auto
    qed
    ultimately show ?thesis unfolding phi_progress_def by (intro exI [of _ "Act_Copy (?ls ! b) (?ls ! c)"] exI [of _ ?st4]) simp
  qed
qed

lemma step_todo:
  assumes I: "phi_inv cval moves (ucast spare) E V st" and r: "ps_ready st = []" "ps_todo st = b # bs"
  shows "\<exists>act st'. phi_progress cval moves spare E V st act st'"
proof -
  let ?ls = "ps_loc st" and ?pred = "ps_pred st"
  let ?D = "dst_set ?pred" and ?dn = "{k. ps_done st k}" and ?rd = "read_idx moves ?ls ?pred"
  have S: "phi_static moves (ucast spare) st" and len: "length (ps_cur st) = length ?ls"
    and C: "copy_inv ?D ?rd (on_idx ?ls E) (goal_value cval E moves ?pred) (on_idx ?ls V) (cur_of (ps_cur st)) ?dn {} (set (b # bs))"
    and ir: "\<And>k. \<not> ps_inready st k" and out: "\<And>l. l \<notin> set ?ls \<Longrightarrow> V l = E l"
    using I r by (simp_all add: phi_inv_def)
  note SS = static_simps [OF S] and P = static_problem [OF S, where E = E and cval = cval] and J = copy_inv_facts [OF C]
  have bD: "b \<in> ?D" "set bs \<subseteq> ?D" using J(3) by auto
  note bl = loc_of_dst [OF S bD(1)]
  let ?st = "st\<lparr>ps_todo := bs\<rparr>"
  have step: "phi_step moves spare st = phi_todo spare b ?st" by (simp add: phi_step_def r)
  show ?thesis
  proof (cases "ps_done st b")
    case True
    have "copy_inv ?D ?rd (on_idx ?ls E) (goal_value cval E moves ?pred) (on_idx ?ls V) (cur_of (ps_cur st)) ?dn {} (set bs)"
      by (rule copy_inv_skip [OF C, of b]) (use True bD(2) in auto)
    then have "phi_inv cval moves (ucast spare) E V ?st"
      by (intro phi_invI [OF S, where dn = ?dn and rdy = "{}" and todo = "set bs"]) (use len out ir r(1) in auto)
    moreover have "phi_measure ?st < phi_measure st" by (simp add: phi_measure_def r)
    ultimately show ?thesis unfolding phi_progress_def
      using step True by (intro exI [of _ Act_None] exI [of _ ?st]) (simp add: phi_todo_def)
  next
    case False
    then have bp: "b \<in> ?D - ?dn" using bD(1) by simp
    let ?st1 = "?st\<lparr>ps_cur := (ps_cur st)[b := Some 0]\<rparr>"
    let ?st2 = "?st1\<lparr>ps_ready := [b], ps_inready := (ps_inready st)(b := True)\<rparr>"
    have push: "CG_PHI_PUSH b ?st1 = Some ?st2"
      using phi_push [of moves "ucast spare" ?st1 b] False ir bl(1) S r(1) by (simp add: static_cong [of ?st1 st])
    have V: "(on_idx ?ls V)(0 := on_idx ?ls V b) = on_idx ?ls (V(ucast spare := V (?ls ! b)))"
      using on_idx_upd [OF SS(1), of 0 V "V (?ls ! b)"] SS(2,3) bl(1) by (simp add: on_idx_def)
    have Cu: "(cur_of (ps_cur st))(b := Some 0) = cur_of ((ps_cur st)[b := Some 0])" using bl(1) len by (simp add: cur_of_upd)
    have "copy_inv ?D ?rd (on_idx ?ls E) (goal_value cval E moves ?pred) (on_idx ?ls (V(ucast spare := V (?ls ! b))))
        (cur_of ((ps_cur st)[b := Some 0])) ?dn {b} (set bs)"
      unfolding V [symmetric] Cu [symmetric] by (rule copy_inv_break [OF P C bp]) (use bD(2) in auto)
    moreover have "ucast spare \<in> set ?ls" using SS(2,3) by (metis length_greater_0_conv nth_mem)
    ultimately have "phi_inv cval moves (ucast spare) E (V(ucast spare := V (?ls ! b))) ?st2"
      by (intro phi_invI [OF S, where dn = ?dn and rdy = "{b}" and todo = "set bs"]) (use len out ir in auto)
    moreover have "phi_measure ?st2 < phi_measure st" by (simp add: phi_measure_def r)
    moreover have "?ls ! b \<noteq> ucast spare"
      using SS(1-3) bl(1,3) by (metis length_greater_0_conv nth_eq_iff_index_eq)
    then have "act_ok moves (ucast spare) (Act_Copy (ucast spare) (?ls ! b))" using bl(2) by simp
    ultimately show ?thesis unfolding phi_progress_def
      using step False push by (intro exI [of _ "Act_Copy (ucast spare) (?ls ! b)"] exI [of _ ?st2]) (simp add: phi_todo_def)
  qed
qed

lemma phi_step_progress:
  assumes "phi_inv cval moves (ucast spare) E V st" "ps_todo st \<noteq> []"
  obtains act st' where "phi_step moves spare st = Some (act, st')" "phi_inv cval moves (ucast spare) E (act_env cval act V) st'"
    "phi_measure st' < phi_measure st" "act_ok moves (ucast spare) act"
proof -
  have "\<exists>act st'. phi_progress cval moves spare E V st act st'"
  proof (cases "ps_ready st")
    case (Cons b bs)
    then show ?thesis by (rule step_ready [OF assms(1) _ assms(2)])
  next
    case Nil
    then show ?thesis using step_todo [OF assms(1)] assms(2) by (cases "ps_todo st") auto
  qed
  then show ?thesis using that unfolding phi_progress_def by blast
qed

text \<open>At the end every destination has its value and nothing but the spare location has changed otherwise.\<close>

lemma phi_inv_end:
  assumes "phi_inv cval moves spare E V st" "ps_todo st = []"
  shows "mv \<in> set moves \<Longrightarrow> V (pm_dst mv) = src_value cval E (pm_src mv)"
    "l \<notin> pm_dst ` set moves \<Longrightarrow> l \<noteq> spare \<Longrightarrow> V l = E l"
proof -
  let ?ls = "ps_loc st" and ?pred = "ps_pred st"
  let ?D = "dst_set ?pred"
  have S: "phi_static moves spare st"
    and C: "copy_inv ?D (read_idx moves ?ls ?pred) (on_idx ?ls E) (goal_value cval E moves ?pred) (on_idx ?ls V)
      (cur_of (ps_cur st)) {k. ps_done st k} (set (ps_ready st)) {}"
    and out: "\<And>l. l \<notin> set ?ls \<Longrightarrow> V l = E l"
    using assms by (simp_all add: phi_inv_def)
  note SS = static_simps [OF S] and J = copy_inv_facts [OF C]
  have D: "on_idx ?ls V k = goal_value cval E moves ?pred k" if "k \<in> ?D" for k using J(6,11) that by blast
  show "V (pm_dst mv) = src_value cval E (pm_src mv)" if mv: "mv \<in> set moves"
  proof -
    obtain m where m: "m < length moves" "moves ! m = mv" using mv by (auto simp: in_set_conv_nth)
    obtain k where k: "k < length ?ls" "?pred ! k = Some m" using S m(1) by (auto simp: phi_static_def Let_def)
    then have "k \<in> ?D" using SS(5) by (simp add: dst_set_def)
    then show ?thesis using D [of k] k SS(5) SS(7) [OF k] m(2) by (simp add: on_idx_def goal_value_def src_of_def)
  qed
  show "V l = E l" if l: "l \<notin> pm_dst ` set moves" "l \<noteq> spare"
  proof (cases "l \<in> set ?ls")
    case True
    then obtain k where k: "k < length ?ls" "?ls ! k = l" by (auto simp: in_set_conv_nth)
    then have "k \<notin> ?D" "k \<noteq> 0" using loc_of_dst(2) [OF S, of k] l SS(3) by auto
    then show ?thesis using J(7) k by (auto simp: on_idx_def)
  qed (rule out)
qed

end
