(* ===== verification/Phi_Start.thy ===== *)
theory Phi_Start
  imports Phi_Sequence
begin

text \<open>The tables the ordering of phi moves starts from satisfy its invariant.\<close>

section \<open>Interning\<close>

text \<open>The first \<open>mp\<close> moves are registered as definitions, the first \<open>mc\<close> as reads.\<close>

definition reg_inv :: "'v phi_move list \<Rightarrow> u32 \<Rightarrow> nat \<Rightarrow> nat \<Rightarrow> nat \<Rightarrow> phi_state \<Rightarrow> bool" where
  "reg_inv moves spare mp mc n st \<longleftrightarrow> (let ls = ps_loc st in
     distinct ls \<and> ls \<noteq> [] \<and> ls ! 0 = spare \<and> length ls \<le> n \<and> length (ps_cur st) = length ls \<and> length (ps_pred st) = length ls
     \<and> (\<forall>k < length ls. \<forall>j. ps_pred st ! k = Some j \<longleftrightarrow> j < mp \<and> pm_dst (moves ! j) = ls ! k)
     \<and> (\<forall>k < length ls. ps_cur st ! k = (if SRC_LOC (ls ! k) \<in> pm_src ` set (take mc moves) then Some k else None))
     \<and> (\<forall>j < mp. pm_dst (moves ! j) \<in> set ls) \<and> (\<forall>s. SRC_LOC s \<in> pm_src ` set (take mc moves) \<longrightarrow> s \<in> set ls)
     \<and> ps_done st = (\<lambda>_. False) \<and> ps_inready st = (\<lambda>_. False) \<and> ps_ready st = []
     \<and> set (ps_todo st) = dst_set (ps_pred st))"

lemma index_of_distinct: "distinct xs \<Longrightarrow> k < length xs \<Longrightarrow> index_of (xs ! k) xs = Some k"
  using loc_index_of [of "xs ! k" xs] nth_mem [of k xs] nth_eq_iff_index_eq [of xs] by fastforce

lemma index_of_iff: "distinct xs \<Longrightarrow> index_of x xs = Some i \<longleftrightarrow> i < length xs \<and> x = xs ! i"
  using loc_index_of(1) [of x xs i] index_of_distinct [of xs i] by auto

lemma intern_known:
  assumes "v \<in> set (ps_loc st)"
  obtains k where "cg_loc_intern v st = (k, st)" "k < length (ps_loc st)" "ps_loc st ! k = v"
  using loc_index_of(2) [OF assms] loc_index_of(1) [of v "ps_loc st"] by (auto simp: cg_loc_intern_def)

lemma intern_reg:
  assumes I: "reg_inv moves spare mp mc n st"
  obtains k st' where "cg_loc_intern v st = (k, st')" "reg_inv moves spare mp mc (Suc n) st'" "k < length (ps_loc st')"
    "ps_loc st' ! k = v"
proof (cases "v \<in> set (ps_loc st)")
  case True
  obtain k where k: "cg_loc_intern v st = (k, st)" "k < length (ps_loc st)" "ps_loc st ! k = v" by (rule intern_known [OF True])
  have "reg_inv moves spare mp mc (Suc n) st" using I by (simp add: reg_inv_def Let_def)
  then show ?thesis by (rule that [OF k(1) _ k(2,3)])
next
  case False
  let ?ls = "ps_loc st"
  let ?st = "st\<lparr>ps_loc := ?ls @ [v], ps_cur := ps_cur st @ [None], ps_pred := ps_pred st @ [None]\<rparr>"
  have R: "distinct ?ls" "?ls \<noteq> []" "?ls ! 0 = spare" "length ?ls \<le> n" "length (ps_cur st) = length ?ls" "length (ps_pred st) = length ?ls"
    "\<And>k j. k < length ?ls \<Longrightarrow> ps_pred st ! k = Some j \<longleftrightarrow> j < mp \<and> pm_dst (moves ! j) = ?ls ! k"
    "\<And>k. k < length ?ls \<Longrightarrow> ps_cur st ! k = (if SRC_LOC (?ls ! k) \<in> pm_src ` set (take mc moves) then Some k else None)"
    "\<And>j. j < mp \<Longrightarrow> pm_dst (moves ! j) \<in> set ?ls" "\<And>s. SRC_LOC s \<in> pm_src ` set (take mc moves) \<Longrightarrow> s \<in> set ?ls"
    "set (ps_todo st) = dst_set (ps_pred st)"
    using I by (simp_all add: reg_inv_def Let_def)
  have i: "index_of v ?ls = None" using False loc_index_of(1) by (metis nth_mem option.exhaust)
  then have e: "cg_loc_intern v st = (length ?ls, ?st)" by (simp add: cg_loc_intern_def)
  have z: "length ?ls \<noteq> 0" using R(2) by simp
  have D: "dst_set (ps_pred ?st) = dst_set (ps_pred st)" using R(6) by (auto simp: dst_set_def nth_append less_Suc_eq)
  have "reg_inv moves spare mp mc (Suc n) ?st"
    unfolding reg_inv_def Let_def D
    using R(1-6,9-11) I False z
    by (auto simp: nth_append less_Suc_eq R(7,8) reg_inv_def Let_def)
  then show ?thesis by (rule that [OF e]) (simp_all add: nth_append)
qed

section \<open>Registering the moves\<close>

definition phi_moves_ok :: "'v phi_move list \<Rightarrow> u32 \<Rightarrow> bool" where
  "phi_moves_ok moves spare \<longleftrightarrow> distinct (map pm_dst moves) \<and> length moves \<le> MAXM \<and> spare \<notin> pm_dst ` set moves
     \<and> (\<forall>mv \<in> set moves. \<forall>s. pm_src mv = SRC_LOC s \<longrightarrow> s \<noteq> spare \<and> s \<noteq> pm_dst mv)"

lemma register_reg:
  assumes ok: "phi_moves_ok moves spare" and m: "m < length moves" and I: "reg_inv moves spare m m n st"
  shows "reg_inv moves spare (Suc m) (Suc m) (Suc (Suc n)) (phi_register (moves ! m) m st)"
proof -
  let ?mv = "moves ! m"
  obtain di st1 where d: "cg_loc_intern (pm_dst ?mv) st = (di, st1)" "reg_inv moves spare m m (Suc n) st1"
    "di < length (ps_loc st1)" "ps_loc st1 ! di = pm_dst ?mv" by (rule intern_reg [OF I])
  let ?st2 = "st1\<lparr>ps_pred := (ps_pred st1)[di := Some m], ps_todo := di # ps_todo st1\<rparr>"
  have R: "distinct (ps_loc st1)" "length (ps_pred st1) = length (ps_loc st1)"
    "\<And>k j. k < length (ps_loc st1) \<Longrightarrow> ps_pred st1 ! k = Some j \<longleftrightarrow> j < m \<and> pm_dst (moves ! j) = ps_loc st1 ! k"
    "set (ps_todo st1) = dst_set (ps_pred st1)"
    using d(2) by (simp_all add: reg_inv_def Let_def)
  have new: "pm_dst (moves ! j) \<noteq> pm_dst ?mv" if "j < m" for j
    using ok m that by (auto simp: phi_moves_ok_def distinct_conv_nth)
  have "ps_pred st1 ! di = None"
    using R(3) [OF d(3)] new d(4) by (cases "ps_pred st1 ! di") auto
  have p: "(ps_pred st1)[di := Some m] ! k = Some j \<longleftrightarrow> j < Suc m \<and> pm_dst (moves ! j) = ps_loc st1 ! k" if "k < length (ps_loc st1)" for k j
    using R(1-3) that d(3,4) new by (cases "k = di") (auto simp: less_Suc_eq nth_list_update nth_eq_iff_index_eq)
  have D: "dst_set ((ps_pred st1)[di := Some m]) = insert di (dst_set (ps_pred st1))"
    using d(3) R(2) by (auto simp: dst_set_def nth_list_update)
  have dm: "pm_dst ?mv \<in> set (ps_loc st1)" using d(3,4) by (metis nth_mem)
  have I2: "reg_inv moves spare (Suc m) m (Suc n) ?st2"
    unfolding reg_inv_def Let_def using d(2) R(4) p D dm by (auto simp: reg_inv_def Let_def less_Suc_eq)
  have t: "set (take (Suc m) moves) = insert ?mv (set (take m moves))" using m by (simp add: take_Suc_conv_app_nth)
  have weaken: "reg_inv moves spare (Suc m) (Suc m) (Suc (Suc n)) ?st2" if "\<And>s. pm_src ?mv \<noteq> SRC_LOC s"
    using I2 that [symmetric] unfolding reg_inv_def Let_def t by auto
  show ?thesis
  proof (cases "pm_src ?mv")
    case (SRC_LOC s)
    obtain si st3 where s: "cg_loc_intern s ?st2 = (si, st3)" "reg_inv moves spare (Suc m) m (Suc (Suc n)) st3"
      "si < length (ps_loc st3)" "ps_loc st3 ! si = s" by (rule intern_reg [OF I2])
    have "SRC_LOC (ps_loc st3 ! k) = SRC_LOC s \<longleftrightarrow> k = si" if "k < length (ps_loc st3)" for k
      using s(2-4) that by (auto simp: reg_inv_def Let_def nth_eq_iff_index_eq)
    moreover have "s \<in> set (ps_loc st3)" using s(3,4) by (metis nth_mem)
    ultimately have "reg_inv moves spare (Suc m) (Suc m) (Suc (Suc n)) (st3\<lparr>ps_cur := (ps_cur st3)[si := Some si]\<rparr>)"
      using s(2-4) SRC_LOC unfolding reg_inv_def Let_def t by (auto simp: nth_list_update)
    then show ?thesis using d(1) s(1) SRC_LOC by (simp add: phi_register_def Let_def)
  qed (use d(1) weaken in \<open>simp_all add: phi_register_def Let_def\<close>)
qed

lemma register_all:
  assumes ok: "phi_moves_ok moves spare" and "k + length ms = length moves" "drop k moves = ms" "reg_inv moves spare k k n st"
  shows "reg_inv moves spare (length moves) (length moves) (n + 2 * length ms) (fold (\<lambda>(m, mv). phi_register mv m) (enumerate k ms) st)"
  using assms(2-)
proof (induction ms arbitrary: k n st)
  case (Cons mv ms)
  have k: "k < length moves" using Cons.prems(1) by simp
  then have mv: "moves ! k = mv" "drop (Suc k) moves = ms"
    using Cons.prems(2) by (metis Cons_nth_drop_Suc list.inject)+
  have "reg_inv moves spare (Suc k) (Suc k) (Suc (Suc n)) (phi_register mv k st)"
    using register_reg [OF ok k Cons.prems(3)] by (simp add: mv(1))
  then show ?case using Cons.IH [of "Suc k" "Suc (Suc n)"] Cons.prems(1) mv(2) by simp
qed simp

section \<open>The ready locations\<close>

definition made_ready :: "phi_state \<Rightarrow> 'v phi_move list \<Rightarrow> phi_state \<Rightarrow> bool" where
  "made_ready st ms st' \<longleftrightarrow> st' = st\<lparr>ps_ready := ps_ready st', ps_inready := ps_inready st'\<rparr> \<and> distinct (ps_ready st')
     \<and> (\<forall>k. ps_inready st' k \<longleftrightarrow> k \<in> set (ps_ready st'))
     \<and> set (ps_ready st') = {k. k < length (ps_loc st) \<and> ps_loc st ! k \<in> pm_dst ` set ms \<and> ps_cur st ! k = None}"

lemma made_readyD:
  assumes "made_ready st ms st'"
  shows "distinct (ps_ready st')" "\<forall>k. ps_inready st' k \<longleftrightarrow> k \<in> set (ps_ready st')"
    "set (ps_ready st') = {k. k < length (ps_loc st) \<and> ps_loc st ! k \<in> pm_dst ` set ms \<and> ps_cur st ! k = None}"
  by (insert assms, unfold made_ready_def, (elim conjE, assumption)+)

lemma make_ready_step:
  assumes d: "distinct (ps_loc st)" "pm_dst mv \<in> set (ps_loc st)" and I: "made_ready st ms st1"
  shows "made_ready st (ms @ [mv]) (phi_make_ready mv st1)"
proof -
  obtain rs ir where st1: "st1 = st\<lparr>ps_ready := rs, ps_inready := ir\<rparr>" using I unfolding made_ready_def by blast
  have J: "distinct (ps_ready st1)" "\<And>k. ps_inready st1 k \<longleftrightarrow> k \<in> set (ps_ready st1)"
    "set (ps_ready st1) = {k. k < length (ps_loc st) \<and> ps_loc st ! k \<in> pm_dst ` set ms \<and> ps_cur st ! k = None}"
    using made_readyD [OF I] by auto
  have f: "ps_loc st1 = ps_loc st" "ps_cur st1 = ps_cur st" by (simp_all add: st1)
  obtain k where k: "cg_loc_intern (pm_dst mv) st1 = (k, st1)" "k < length (ps_loc st)" "ps_loc st ! k = pm_dst mv"
    using intern_known [of "pm_dst mv" st1] d(2) f by metis
  have u: "ps_loc st ! j = pm_dst mv \<longleftrightarrow> j = k" if "j < length (ps_loc st)" for j using nth_eq_iff_index_eq [OF d(1) that k(2)] k(3) by simp
  have e: "{j. j < length (ps_loc st) \<and> ps_loc st ! j \<in> pm_dst ` set (ms @ [mv]) \<and> ps_cur st ! j = None}
      = {j. j < length (ps_loc st) \<and> ps_loc st ! j \<in> pm_dst ` set ms \<and> ps_cur st ! j = None} \<union> (if ps_cur st ! k = None then {k} else {})"
    using u k(2) by auto
  show ?thesis
  proof (cases "ps_cur st ! k = None \<and> \<not> ps_inready st1 k")
    case True
    let ?r = "st1\<lparr>ps_ready := k # ps_ready st1, ps_inready := (ps_inready st1)(k := True)\<rparr>"
    have r: "phi_make_ready mv st1 = ?r" using True k(1) f by (simp add: phi_make_ready_def)
    have "?r = st\<lparr>ps_ready := ps_ready ?r, ps_inready := ps_inready ?r\<rparr>"
      by (simp add: st1)
    moreover have "distinct (ps_ready ?r)" "\<forall>j. ps_inready ?r j \<longleftrightarrow> j \<in> set (ps_ready ?r)"
      using J(1,2) True by auto
    moreover have "set (ps_ready ?r) = {j. j < length (ps_loc st) \<and> ps_loc st ! j \<in> pm_dst ` set (ms @ [mv]) \<and> ps_cur st ! j = None}"
      using J(3) True unfolding e by auto
    ultimately show ?thesis unfolding made_ready_def r by blast
  next
    case False
    have r: "phi_make_ready mv st1 = st1" using False k(1) f by (auto simp: phi_make_ready_def)
    have "set (ps_ready st1) = {j. j < length (ps_loc st) \<and> ps_loc st ! j \<in> pm_dst ` set (ms @ [mv]) \<and> ps_cur st ! j = None}"
      using J(2,3) False unfolding e by auto
    then show ?thesis using I unfolding made_ready_def r by blast
  qed
qed

lemma make_ready_all:
  assumes "distinct (ps_loc st)" "pm_dst ` set (ms @ ns) \<subseteq> set (ps_loc st)" "made_ready st ms st1"
  shows "made_ready st (ms @ ns) (fold phi_make_ready ns st1)"
  using assms(2,3)
proof (induction ns arbitrary: ms st1)
  case (Cons mv ns)
  have "made_ready st (ms @ [mv]) (phi_make_ready mv st1)" using make_ready_step [OF assms(1) _ Cons.prems(2)] Cons.prems(1) by simp
  then show ?case using Cons.IH [of "ms @ [mv]"] Cons.prems(1) by simp
qed simp

section \<open>The initial state\<close>

lemma registered_static:
  assumes ok: "phi_moves_ok moves spare" and I: "reg_inv moves spare (length moves) (length moves) n st" "n \<le> MAXLOC"
  shows "phi_static moves spare st"
  unfolding phi_static_def Let_def
proof (intro conjI allI impI ballI)
  note R = I(1) [unfolded reg_inv_def Let_def]
  show "distinct (ps_loc st)" "ps_loc st \<noteq> []" "ps_loc st ! 0 = spare" "length (ps_loc st) \<le> MAXLOC"
    "length (ps_pred st) = length (ps_loc st)" using R I(2) by auto
  show "ps_pred st ! 0 = None"
  proof (cases "ps_pred st ! 0")
    case (Some j)
    then have "j < length moves" "pm_dst (moves ! j) = spare" using R by auto
    then show ?thesis using ok nth_mem [of j moves] by (force simp: phi_moves_ok_def)
  qed
  show "m < length moves" "pm_dst (moves ! m) = ps_loc st ! k" if "k < length (ps_loc st)" "ps_pred st ! k = Some m" for k m
    using R that by auto
  show "\<exists>k < length (ps_loc st). ps_pred st ! k = Some m" if "m < length moves" for m
  proof -
    have "pm_dst (moves ! m) \<in> set (ps_loc st)" using R that by blast
    then obtain k where "k < length (ps_loc st)" "ps_loc st ! k = pm_dst (moves ! m)" by (auto simp: in_set_conv_nth)
    then show ?thesis using R that by auto
  qed
  fix mv s assume mv: "mv \<in> set moves" "pm_src mv = SRC_LOC s"
  then have "SRC_LOC s \<in> pm_src ` set (take (length moves) moves)" by (simp add: image_iff) (metis)
  then show "s \<in> set (ps_loc st)" using R by blast
  show "s \<noteq> spare" "s \<noteq> pm_dst mv" using ok mv by (auto simp: phi_moves_ok_def)
qed

text \<open>The tables after registration, in terms of the moves.\<close>

lemma registered_tables:
  assumes ok: "phi_moves_ok moves spare" and I: "reg_inv moves spare (length moves) (length moves) n st" "n \<le> MAXLOC"
  shows "k \<in> dst_set (ps_pred st) \<longleftrightarrow> k < length (ps_loc st) \<and> ps_loc st ! k \<in> pm_dst ` set moves"
    "cur_of (ps_cur st) k = (if k < length (ps_loc st) \<and> SRC_LOC (ps_loc st ! k) \<in> pm_src ` set moves then Some k else None)"
    "b < length (ps_loc st) \<Longrightarrow> read_idx moves (ps_loc st) (ps_pred st) b = Some a \<longleftrightarrow>
      (\<exists>j < length moves. pm_dst (moves ! j) = ps_loc st ! b \<and> a < length (ps_loc st) \<and> pm_src (moves ! j) = SRC_LOC (ps_loc st ! a))"
proof -
  let ?ls = "ps_loc st" and ?pred = "ps_pred st" and ?cur = "ps_cur st"
  note SS = static_simps [OF registered_static [OF ok I]]
  have R: "length ?cur = length ?ls" "\<And>k. k < length ?ls \<Longrightarrow> ?cur ! k = (if SRC_LOC (?ls ! k) \<in> pm_src ` set moves then Some k else None)"
    "\<And>k j. k < length ?ls \<Longrightarrow> ?pred ! k = Some j \<longleftrightarrow> j < length moves \<and> pm_dst (moves ! j) = ?ls ! k"
    using I(1) by (simp_all add: reg_inv_def Let_def)
  show "k \<in> dst_set ?pred \<longleftrightarrow> k < length ?ls \<and> ?ls ! k \<in> pm_dst ` set moves"
  proof (cases "k < length ?ls")
    case True
    have "?ls ! k \<in> pm_dst ` set moves \<longleftrightarrow> (\<exists>j < length moves. pm_dst (moves ! j) = ?ls ! k)"
      unfolding image_iff by (metis in_set_conv_nth)
    also have "\<dots> \<longleftrightarrow> (\<exists>j. ?pred ! k = Some j)" using R(3) [OF True] by simp
    finally show ?thesis using True SS(5) by (simp add: dst_set_def)
  qed (simp add: dst_set_def SS(5))
  show "cur_of ?cur k = (if k < length ?ls \<and> SRC_LOC (?ls ! k) \<in> pm_src ` set moves then Some k else None)"
    using R(1,2) by (simp add: cur_of_def)
  assume b: "b < length ?ls"
  have "src_of moves ?pred b = Some t \<longleftrightarrow> (\<exists>j < length moves. pm_dst (moves ! j) = ?ls ! b \<and> pm_src (moves ! j) = t)" for t
    using R(3) [OF b] SS(5) b by (auto simp: src_of_def)
  moreover have "read_idx moves ?ls ?pred b = Some a \<longleftrightarrow> (\<exists>s. src_of moves ?pred b = Some (SRC_LOC s) \<and> index_of s ?ls = Some a)"
    by (auto simp: read_idx_def split: option.splits phi_src.splits)
  ultimately show "read_idx moves ?ls ?pred b = Some a \<longleftrightarrow> (\<exists>j < length moves. pm_dst (moves ! j) = ?ls ! b \<and> a < length ?ls
      \<and> pm_src (moves ! j) = SRC_LOC (?ls ! a))" by (auto simp: index_of_iff [OF SS(1)])
qed

text \<open>The invariant where nothing is done and the unread destinations are ready.\<close>

lemma registered_copy_inv:
  assumes ok: "phi_moves_ok moves spare" and I: "reg_inv moves spare (length moves) (length moves) n st" "n \<le> MAXLOC"
    and rdy: "rdy = {k. k < length (ps_loc st) \<and> ps_loc st ! k \<in> pm_dst ` set moves \<and> ps_cur st ! k = None}"
  shows "copy_inv (dst_set (ps_pred st)) (read_idx moves (ps_loc st) (ps_pred st)) (on_idx (ps_loc st) E)
    (goal_value cval E moves (ps_pred st)) (on_idx (ps_loc st) E) (cur_of (ps_cur st)) {} rdy (dst_set (ps_pred st))"
proof (rule copy_invI)
  let ?ls = "ps_loc st" and ?pred = "ps_pred st" and ?cur = "ps_cur st"
  note T = registered_tables [OF ok I]
  have C: "length ?cur = length ?ls" "\<And>j. j < length moves \<Longrightarrow> pm_dst (moves ! j) \<in> set ?ls" using I(1) by (simp_all add: reg_inv_def Let_def)
  fix b a assume b: "b \<in> dst_set ?pred - {}" "read_idx moves ?ls ?pred b = Some a"
  have "b < length ?ls" using b(1) T(1) by simp
  then obtain j where j: "j < length moves" "a < length ?ls" "pm_src (moves ! j) = SRC_LOC (?ls ! a)" using T(3) b(2) by blast
  then have "SRC_LOC (?ls ! a) \<in> pm_src ` set moves" by (auto intro: image_eqI [of _ _ "moves ! j"])
  then show "\<exists>c. cur_of ?cur a = Some c \<and> on_idx ?ls E c = on_idx ?ls E a" using j(2) by (simp add: T(2))
next
  let ?ls = "ps_loc st" and ?pred = "ps_pred st" and ?cur = "ps_cur st"
  note T = registered_tables [OF ok I]
  have C: "length ?cur = length ?ls" "\<And>j. j < length moves \<Longrightarrow> pm_dst (moves ! j) \<in> set ?ls" using I(1) by (simp_all add: reg_inv_def Let_def)
  fix b assume b: "b \<in> dst_set ?pred" "cur_of ?cur b = Some b"
  then have bl: "b < length ?ls" "SRC_LOC (?ls ! b) \<in> pm_src ` set moves" by (auto simp: T(2) split: if_splits)
  then obtain j where j: "j < length moves" "pm_src (moves ! j) = SRC_LOC (?ls ! b)" by (auto simp: in_set_conv_nth image_iff)
  obtain b' where b': "b' < length ?ls" "?ls ! b' = pm_dst (moves ! j)" using C(2) [OF j(1)] by (auto simp: in_set_conv_nth)
  have "b' \<in> dst_set ?pred" unfolding T(1) using b' j(1) by simp
  moreover have "read_idx moves ?ls ?pred b' = Some b" unfolding T(3) [OF b'(1)] using b'(2) j bl(1) by metis
  moreover have "b \<notin> rdy" using b(2) C(1) bl(1) by (auto simp: rdy cur_of_def)
  ultimately show "b \<notin> {} \<and> b \<notin> rdy \<and> (\<exists>b' \<in> dst_set ?pred - {}. read_idx moves ?ls ?pred b' = Some b)" by blast
next
  let ?ls = "ps_loc st" and ?pred = "ps_pred st" and ?cur = "ps_cur st"
  note T = registered_tables [OF ok I]
  have C: "length ?cur = length ?ls" using I(1) by (simp add: reg_inv_def Let_def)
  fix b assume b: "b \<in> dst_set ?pred - {} - rdy"
  then have "b < length ?ls" "?cur ! b \<noteq> None" using T(1) rdy by auto
  then show "cur_of ?cur b = Some b" using T(2) [of b] C by (auto simp: cur_of_def split: if_splits)
qed (use rdy registered_tables(1,2) [OF ok I] in \<open>auto split: if_splits\<close>)

lemma phi_init_inv:
  assumes ok: "phi_moves_ok moves (ucast spare)"
  shows "phi_inv cval moves (ucast spare) E E (phi_init moves spare)"
proof -
  let ?sa = "\<lparr>ps_loc = [ucast spare], ps_cur = [None], ps_pred = [None], ps_done = \<lambda>_. False,
            ps_inready = \<lambda>_. False, ps_ready = [], ps_todo = []\<rparr>"
  let ?sb = "fold (\<lambda>(m, mv). phi_register mv m) (enumerate 0 moves) ?sa"
  let ?sc = "fold phi_make_ready moves ?sb"
  let ?n = "1 + 2 * length moves"
  have "reg_inv moves (ucast spare) 0 0 1 ?sa" by (auto simp: reg_inv_def dst_set_def nth_Cons')
  then have I: "reg_inv moves (ucast spare) (length moves) (length moves) ?n ?sb"
    by (intro register_all [OF ok]) simp_all
  have n: "?n \<le> MAXLOC" using ok by (simp add: phi_moves_ok_def MAXM_def MAXLOC_def)
  note S = registered_static [OF ok I n]
  have R: "length (ps_cur ?sb) = length (ps_loc ?sb)" "ps_done ?sb = (\<lambda>_. False)" "ps_inready ?sb = (\<lambda>_. False)" "ps_ready ?sb = []"
    "set (ps_todo ?sb) = dst_set (ps_pred ?sb)" "\<And>j. j < length moves \<Longrightarrow> pm_dst (moves ! j) \<in> set (ps_loc ?sb)"
    using I by (simp_all add: reg_inv_def Let_def)
  have "made_ready ?sb [] ?sb" using R(3,4) by (simp add: made_ready_def)
  moreover have "pm_dst ` set moves \<subseteq> set (ps_loc ?sb)" using R(6) by (auto simp: in_set_conv_nth)
  ultimately have M: "made_ready ?sb moves ?sc" using make_ready_all [OF static_simps(1) [OF S], of "[]" moves ?sb] by simp
  then obtain rs ir where st: "?sc = ?sb\<lparr>ps_ready := rs, ps_inready := ir\<rparr>" unfolding made_ready_def by blast
  note C = registered_copy_inv [OF ok I n made_readyD(3) [OF M], where E = E and cval = cval]
  have "phi_inv cval moves (ucast spare) E E ?sc"
    by (intro phi_invI [OF S, where dn = "{}" and rdy = "set (ps_ready ?sc)" and todo = "dst_set (ps_pred ?sb)"])
      (use C made_readyD [OF M] R(1,2,5) in \<open>simp_all add: st\<close>)
  then show ?thesis by (simp add: phi_init_def cg_loc_intern_def)
qed

end
