(* ===== verification/Calls.thy ===== *)
theory Calls
  imports Emit
begin

text \<open>
  Caller-save spilling and calls in the translator (\<open>src/tools/translator/translator.c\<close>): the registers live
  after a call are stored to their slots, the arguments placed, the call emitted, the registers reloaded.
\<close>

section \<open>The registers to save\<close>

text \<open>The bit of a value that lives in an SSA register.\<close>

definition cg_spill_bit_of :: "('v, 't, 'b) llvm \<Rightarrow> ('b, 'v) gen \<Rightarrow> 'v \<Rightarrow> nat option option" where
  "cg_spill_bit_of L cg v =
     (if \<not> LLVMIsAInstruction L v \<and> \<not> LLVMIsAArgument L v then Some None
      else do {
        ix \<leftarrow> cg_lookup L cg v;
        case ix of None \<Rightarrow> Some None
        | Some idx \<Rightarrow> do {
            slot \<leftarrow> at (cg_val_slot cg) idx;
            r \<leftarrow> at (cg_regs cg) idx;
            Some (if slot \<noteq> CG_NO_SLOT then None
              else if unat r < 8 \<or> unat r \<ge> cg_ssa_reg_high cg then None else Some (unat r - 8))
          }
      })"

definition cg_lookup_call_live :: "('b, 'v) gen \<Rightarrow> 'v \<Rightarrow> cg_bits option" where
  "cg_lookup_call_live cg call = map_of (cg_call_lives cg) call"

definition cg_call_spill_set :: "('v, 't, 'b) llvm \<Rightarrow> ('b, 'v) gen \<Rightarrow> 'v \<Rightarrow> cg_bits option" where
  "cg_call_spill_set L cg i =
     (let st = (case cg_lookup_call_live cg i of Some live \<Rightarrow> live | None \<Rightarrow> cg_ever_spilled cg) in do {
        my_bit \<leftarrow> cg_spill_bit_of L cg i;
        Some (case my_bit of Some b \<Rightarrow> cg_bits_clear_bit b st | None \<Rightarrow> st)
      })"

text \<open>The slot offset of register \<open>8 + k\<close> if it is to be saved.\<close>

definition spill_off :: "('b, 'v) gen \<Rightarrow> cg_bits \<Rightarrow> nat \<Rightarrow> u32 option" where
  "spill_off cg st k =
     (if \<not> cg_bits_test st k then None
      else let slot = cg_slot_of cg ! k in
        if slot = 0xFF then None else Some (cg_alloca_bytes cg + ucast slot * 4))"

definition spill_one :: "cg_bits \<Rightarrow> nat \<Rightarrow> ('b, 'v) gen \<Rightarrow> ('b, 'v) gen" where
  "spill_one st k cg = (case spill_off cg st k of None \<Rightarrow> cg
     | Some off \<Rightarrow> cg_stw_sp_off off (of_nat (8 + k)) cg)"

definition restore_one :: "cg_bits \<Rightarrow> nat \<Rightarrow> ('b, 'v) gen \<Rightarrow> ('b, 'v) gen" where
  "restore_one st k cg = (case spill_off cg st k of None \<Rightarrow> cg
     | Some off \<Rightarrow> cg_ldw_sp_off (of_nat (8 + k)) off cg)"

definition cg_emit_spill :: "cg_bits \<Rightarrow> ('b, 'v) gen \<Rightarrow> ('b, 'v) gen" where
  "cg_emit_spill st cg = fold (spill_one st) [0..<cg_ssa_reg_high cg - 8] cg"

definition cg_emit_restore :: "cg_bits \<Rightarrow> ('b, 'v) gen \<Rightarrow> ('b, 'v) gen" where
  "cg_emit_restore st cg = fold (restore_one st) [0..<cg_ssa_reg_high cg - 8] cg"

section \<open>Arguments\<close>

definition cg_f64_operand_to_regs :: "('v, 't, 'b) llvm \<Rightarrow> 'v \<Rightarrow> u8 \<Rightarrow> ('b, 'v) gen \<Rightarrow> ('b, 'v) gen option" where
  "cg_f64_operand_to_regs L v base cg =
     (case cg_wide_const_words L v of
        Some (clo, chi) \<Rightarrow> Some (cg_emit_load_const32 (base + 1) chi (cg_emit_load_const32 base clo cg))
      | None \<Rightarrow> do {
          idx \<leftarrow> wide_index L cg v;
          off \<leftarrow> cg_i64_lo_off cg idx;
          Some (cg_ldw_sp_off (base + 1) (off + 4) (cg_ldw_sp_off base off cg))
        })"

primrec wide_args_to_regs :: "('v, 't, 'b) llvm \<Rightarrow> 'v list \<Rightarrow> u8 \<Rightarrow> ('b, 'v) gen \<Rightarrow> (u8 \<times> ('b, 'v) gen) option" where
  "wide_args_to_regs L [] r cg = Some (r, cg)"
| "wide_args_to_regs L (v # vs) r cg = do { cg1 \<leftarrow> cg_f64_operand_to_regs L v r cg; wide_args_to_regs L vs (r + 2) cg1 }"

definition emit_mov :: "u8 \<Rightarrow> u8 \<Rightarrow> ('b, 'v) gen \<Rightarrow> ('b, 'v) gen" where
  "emit_mov d s cg = (if s \<noteq> d then cg_emit (enc_r (op_value CVM_OP_MOV) d s 0) cg else cg)"

definition scalar_arg_to_reg :: "('v, 't, 'b) llvm \<Rightarrow> 'v \<Rightarrow> nat \<Rightarrow> u8 \<Rightarrow> ('b, 'v) gen \<Rightarrow> ('b, 'v) gen option" where
  "scalar_arg_to_reg L v sext_w r cg = do {
     cg1 \<leftarrow> (if LLVMIsAConstantInt L v then Some (cg_emit_load_const32 r (ucast (LLVMConstIntGetZExtValue L v)) cg)
            else map_option (\<lambda>(s, c). emit_mov r s c) (cg_reg_for L v cg));
     Some (if sext_w \<ge> 1 \<and> sext_w < 32
       then cg_emit (enc_r (op_value CVM_OP_SAR) r r CG_REG_SCRATCH)
         (cg_emit (enc_r (op_value CVM_OP_SHL) r r CG_REG_SCRATCH)
           (cg_emit (enc_i16 (op_value CVM_OP_MOVI) CG_REG_SCRATCH (of_nat (32 - sext_w))) cg1))
       else cg1)
   }"

text \<open>\<open>ret_slot\<close> is \<open>None\<close> for a negative one: the result is a word in R0, moved to \<open>dst_reg\<close>.\<close>

definition cg_emit_runtime_call ::
  "('v, 't, 'b) llvm \<Rightarrow> 'v \<Rightarrow> string \<Rightarrow> 'v list \<Rightarrow> 'v option \<Rightarrow> u16 option \<Rightarrow> u8 \<Rightarrow> nat \<Rightarrow> ('b, 'v) gen \<Rightarrow> ('b, 'v) gen option"
  where
  "cg_emit_runtime_call L i name wide_args scalar_arg ret_slot dst_reg scalar_sext_w cg = do {
     callee_idx \<leftarrow> cg_func_by_name L cg name;
     st \<leftarrow> cg_call_spill_set L cg i;
     let cg1 = cg_emit_spill st cg;
     let (r, cg2) = (case ret_slot of
           Some slot \<Rightarrow> (1, cg_emit (enc_r (op_value CVM_OP_MOV) 0 CG_REG_SCRATCH 0)
             (cg_addr_sp_plus (cg_val_slot_off cg1 slot) cg1))
         | None \<Rightarrow> (0, cg1));
     (r', cg3) \<leftarrow> wide_args_to_regs L wide_args r cg2;
     cg4 \<leftarrow> (case scalar_arg of None \<Rightarrow> Some cg3 | Some v \<Rightarrow> scalar_arg_to_reg L v scalar_sext_w r' cg3);
     let cg5 = (cg_emit (enc_i24 (op_value CVM_OP_CALL) (CVM_FN_SLOT (of_nat callee_idx))) cg4)\<lparr>cg_has_calls := True\<rparr>;
     let cg6 = cg_emit_restore st cg5;
     Some (if ret_slot = None \<and> dst_reg \<noteq> 0 then cg_emit (enc_r (op_value CVM_OP_MOV) dst_reg 0 0) cg6 else cg6)
   }"

text \<open>One word of a call's arguments: into a register, or to the outgoing stack area. \<open>half\<close> is \<open>None\<close> for a
  scalar and tells the high word of a 64-bit argument. The scratch registers are handed back.\<close>

definition place_word :: "u8 \<Rightarrow> u32 \<Rightarrow> bool \<Rightarrow> u32 \<Rightarrow> ('b, 'v) gen \<Rightarrow> ('b, 'v) gen option" where
  "place_word rk off target_reg stk_off cg =
     (if target_reg then Some (cg_ldw_sp_off rk off cg)
      else do { (s, cg1) \<leftarrow> cg_alloc_reg cg; Some (cg_stw_sp_off stk_off s (cg_ldw_sp_off s off cg1)) })"

definition cg_place_arg_word ::
  "('v, 't, 'b) llvm \<Rightarrow> 'v \<Rightarrow> bool option \<Rightarrow> nat \<Rightarrow> nat \<Rightarrow> u32 \<Rightarrow> ('b, 'v) gen \<Rightarrow> ('b, 'v) gen option" where
  "cg_place_arg_word L av half wp n_reg_words sp_bias cg =
     (let target_reg = (wp < n_reg_words); rk = of_nat wp; stk_off = (of_nat wp - of_nat n_reg_words) * 4 in
      map_option (\<lambda>c. c\<lparr>cg_next_reg := cg_next_reg cg\<rparr>)
       (case half of
          None \<Rightarrow> do {
            ix \<leftarrow> cg_lookup L cg av;
            slot \<leftarrow> (case ix of None \<Rightarrow> Some CG_NO_SLOT | Some aidx \<Rightarrow> at (cg_val_slot cg) aidx);
            if slot \<noteq> CG_NO_SLOT then place_word rk (cg_val_slot_off cg slot + sp_bias) target_reg stk_off cg
            else do {
              (s, cg1) \<leftarrow> cg_reg_for L av cg;
              Some (if target_reg then emit_mov rk s cg1 else cg_stw_sp_off stk_off s cg1)
            }
          }
        | Some high \<Rightarrow> (case cg_wide_const_words L av of
            Some (clo, chi) \<Rightarrow>
              (let w = (if high then chi else clo) in
               if target_reg then Some (cg_emit_load_const32 rk w cg)
               else do { (s, cg1) \<leftarrow> cg_fresh_const w cg; Some (cg_stw_sp_off stk_off s cg1) })
          | None \<Rightarrow> do {
              aidx \<leftarrow> wide_index L cg av;
              off \<leftarrow> cg_i64_lo_off cg aidx;
              place_word rk (off + (if high then 4 else 0) + sp_bias) target_reg stk_off cg
            })))"

end
