(* ===== verification/Wide.thy ===== *)
theory Wide
  imports Calls
begin

text \<open>
  Lowering of an instruction with a 64-bit integer result (\<open>cg_emit_i64_def\<close> and \<open>cg_emit_wide_select\<close> of
  \<open>src/tools/translator/translator.c\<close>): one definition per group of cases of the switch, then the switch.
\<close>

section \<open>Select\<close>

definition cg_emit_wide_select :: "('v, 't, 'b) llvm \<Rightarrow> 'v \<Rightarrow> nat \<Rightarrow> ('b, 'v) gen \<Rightarrow> ('b, 'v) gen option" where
  "cg_emit_wide_select L i idx cg = do {
     (cond, cg1) \<leftarrow> cg_reg_for L (LLVMGetOperand L i 0) cg;
     (al, ah, cg2) \<leftarrow> cg_i64_read L (LLVMGetOperand L i 1) cg1;
     (bl, bh, cg3) \<leftarrow> cg_i64_read L (LLVMGetOperand L i 2) cg2;
     (lo, cg4) \<leftarrow> cg_alloc_reg cg3;
     (hi, cg5) \<leftarrow> cg_alloc_reg cg4;
     cg_i64_write idx lo hi
       (cg_emit (enc_r (op_value CVM_OP_MOV) hi bh 0)
       (cg_emit (enc_r (op_value CVM_OP_MOV) lo bl 0)
       (cg_emit (enc_i24 (op_value CVM_OP_JMP) 2)
       (cg_emit (enc_r (op_value CVM_OP_MOV) hi ah 0)
       (cg_emit (enc_r (op_value CVM_OP_MOV) lo al 0)
       (cg_emit (enc_br (op_value CVM_OP_BEQ) cond (cg_zero_reg cg5) 3) cg5))))))
   }"

section \<open>Extension and truncation\<close>

definition i64_sext :: "('v, 't, 'b) llvm \<Rightarrow> 'v \<Rightarrow> nat \<Rightarrow> ('b, 'v) gen \<Rightarrow> ('b, 'v) gen option" where
  "i64_sext L i idx cg =
     (let ssv = LLVMGetOperand L i 0 in do {
        (src0, cg1) \<leftarrow> cg_reg_for L ssv cg;
        (src, cg2) \<leftarrow> cg_norm_reg_width src0 (LLVMGetIntTypeWidth L (LLVMTypeOf L ssv)) True cg1;
        (hi, cg3) \<leftarrow> cg_alloc_reg cg2;
        let cg4 = cg_shift_imm (op_value CVM_OP_SAR) hi src 31 cg3;
        if cg_type_is_i65 L (LLVMTypeOf L i) then cg_i65_write idx src hi hi cg4 else cg_i64_write idx src hi cg4
      })"

definition i64_zext :: "('v, 't, 'b) llvm \<Rightarrow> 'v \<Rightarrow> nat \<Rightarrow> ('b, 'v) gen \<Rightarrow> ('b, 'v) gen option" where
  "i64_zext L i idx cg =
     (let sv = LLVMGetOperand L i 0 in
      if cg_type_is_i65 L (LLVMTypeOf L i) then
        if cg_type_is_i64 L (LLVMTypeOf L sv) then do {
          (lo, hi, cg1) \<leftarrow> cg_i64_read L sv cg;
          cg_i65_write idx lo hi (cg_zero_reg cg1) cg1
        } else do {
          (src, cg1) \<leftarrow> cg_reg_for L sv cg;
          cg_i65_write idx src (cg_zero_reg cg1) (cg_zero_reg cg1) cg1
        }
      else do {
        (src0, cg1) \<leftarrow> cg_reg_for L sv cg;
        (src, cg2) \<leftarrow> cg_norm_reg_width src0 (LLVMGetIntTypeWidth L (LLVMTypeOf L sv)) False cg1;
        cg_i64_write idx src (cg_zero_reg cg2) cg2
      })"

text \<open>In this case and the next the source leaves the switch with \<open>break\<close> on an error.\<close>

definition i64_trunc :: "('v, 't, 'b) llvm \<Rightarrow> 'v \<Rightarrow> nat \<Rightarrow> ('b, 'v) gen \<Rightarrow> ('b, 'v) gen option" where
  "i64_trunc L i idx cg = do {
     (w0, w1, w2, cg1) \<leftarrow> cg_i65_read L (LLVMGetOperand L i 0) cg;
     cg_i64_write idx w0 w1 cg1
   }"

text \<open>\<open>freeze\<close> and \<open>bitcast\<close>.\<close>

definition i64_copy :: "('v, 't, 'b) llvm \<Rightarrow> 'v \<Rightarrow> nat \<Rightarrow> ('b, 'v) gen \<Rightarrow> ('b, 'v) gen option" where
  "i64_copy L i idx cg = do {
     (lo, hi, cg1) \<leftarrow> cg_i64_read L (LLVMGetOperand L i 0) cg;
     cg_i64_write idx lo hi cg1
   }"

section \<open>Memory\<close>

text \<open>\<open>[ptr]\<close> and \<open>[ptr + 4]\<close> in fresh registers, with the registers that hold the two addresses.\<close>

definition i64_load_words ::
  "('v, 't, 'b) llvm \<Rightarrow> 'v \<Rightarrow> ('b, 'v) gen \<Rightarrow> (u8 \<times> u8 \<times> u8 \<times> u8 \<times> ('b, 'v) gen) option" where
  "i64_load_words L ptr cg = do {
     (addr, cg1) \<leftarrow> cg_reg_for L ptr cg;
     (lo, cg2) \<leftarrow> cg_alloc_reg cg1;
     let cg3 = cg_movi_scratch 4 (cg_emit (enc_r (op_value CVM_OP_LDW) lo addr 0) cg2);
     (a4, cg4) \<leftarrow> cg_alloc_reg cg3;
     let cg5 = cg_emit (enc_r (op_value CVM_OP_ADD) a4 addr CG_REG_SCRATCH) cg4;
     (hi, cg6) \<leftarrow> cg_alloc_reg cg5;
     Some (addr, a4, lo, hi, cg_emit (enc_r (op_value CVM_OP_LDW) hi a4 0) cg6)
   }"

definition i64_load :: "('v, 't, 'b) llvm \<Rightarrow> 'v \<Rightarrow> nat \<Rightarrow> ('b, 'v) gen \<Rightarrow> ('b, 'v) gen option" where
  "i64_load L i idx cg = do {
     (addr, a4, lo, hi, cg1) \<leftarrow> i64_load_words L (LLVMGetOperand L i 0) cg;
     cg_i64_write idx lo hi cg1
   }"

section \<open>Arithmetic\<close>

definition add_words :: "u8 \<Rightarrow> u8 \<Rightarrow> u8 \<Rightarrow> u8 \<Rightarrow> u8 \<Rightarrow> u8 \<Rightarrow> u8 \<Rightarrow> ('b, 'v) gen \<Rightarrow> ('b, 'v) gen" where
  "add_words lo hi carry al ah bl bh cg =
     cg_emit (enc_r (op_value CVM_OP_ADD) hi hi carry)
     (cg_emit (enc_r (op_value CVM_OP_ADD) hi ah bh)
     (cg_emit (enc_r (op_value CVM_OP_CMP_LTU) carry lo al)
     (cg_emit (enc_r (op_value CVM_OP_ADD) lo al bl) cg)))"

definition sub_words :: "u8 \<Rightarrow> u8 \<Rightarrow> u8 \<Rightarrow> u8 \<Rightarrow> u8 \<Rightarrow> u8 \<Rightarrow> u8 \<Rightarrow> ('b, 'v) gen \<Rightarrow> ('b, 'v) gen" where
  "sub_words lo hi borrow al ah bl bh cg =
     cg_emit (enc_r (op_value CVM_OP_SUB) hi hi borrow)
     (cg_emit (enc_r (op_value CVM_OP_SUB) hi ah bh)
     (cg_emit (enc_r (op_value CVM_OP_SUB) lo al bl)
     (cg_emit (enc_r (op_value CVM_OP_CMP_LTU) borrow al bl) cg)))"

definition i64_add_logic :: "('v, 't, 'b) llvm \<Rightarrow> LLVMOpcode \<Rightarrow> 'v \<Rightarrow> nat \<Rightarrow> ('b, 'v) gen \<Rightarrow> ('b, 'v) gen option" where
  "i64_add_logic L op i idx cg = do {
     (al, ah, cg1) \<leftarrow> cg_i64_read L (LLVMGetOperand L i 0) cg;
     (bl, bh, cg2) \<leftarrow> cg_i64_read L (LLVMGetOperand L i 1) cg1;
     (lo, cg3) \<leftarrow> cg_alloc_reg cg2;
     (hi, cg4) \<leftarrow> cg_alloc_reg cg3;
     cg6 \<leftarrow> (if op = LLVMAdd then do { (carry, cg5) \<leftarrow> cg_alloc_reg cg4; Some (add_words lo hi carry al ah bl bh cg5) }
       else if op = LLVMSub then do { (borrow, cg5) \<leftarrow> cg_alloc_reg cg4; Some (sub_words lo hi borrow al ah bl bh cg5) }
       else let cv = op_value (if op = LLVMAnd then CVM_OP_AND else if op = LLVMOr then CVM_OP_OR else CVM_OP_XOR) in
         Some (cg_emit (enc_r cv hi ah bh) (cg_emit (enc_r cv lo al bl) cg4)));
     cg_i64_write idx lo hi cg6
   }"

definition i64_mul :: "('v, 't, 'b) llvm \<Rightarrow> 'v \<Rightarrow> nat \<Rightarrow> ('b, 'v) gen \<Rightarrow> ('b, 'v) gen option" where
  "i64_mul L i idx cg = do {
     (al, ah, cg1) \<leftarrow> cg_i64_read L (LLVMGetOperand L i 0) cg;
     (bl, bh, cg2) \<leftarrow> cg_i64_read L (LLVMGetOperand L i 1) cg1;
     (lo, cg3) \<leftarrow> cg_alloc_reg cg2;
     (hi, cg4) \<leftarrow> cg_alloc_reg cg3;
     (t, cg5) \<leftarrow> cg_alloc_reg cg4;
     cg_i64_write idx lo hi
       (cg_emit (enc_r (op_value CVM_OP_ADD) hi hi t)
       (cg_emit (enc_r (op_value CVM_OP_MUL) t ah bl)
       (cg_emit (enc_r (op_value CVM_OP_ADD) hi hi t)
       (cg_emit (enc_r (op_value CVM_OP_MUL) t al bh)
       (cg_emit (enc_r (op_value CVM_OP_MULHU) hi al bl)
       (cg_emit (enc_r (op_value CVM_OP_MUL) lo al bl) cg5))))))
   }"

definition i64_div :: "('v, 't, 'b) llvm \<Rightarrow> LLVMOpcode \<Rightarrow> 'v \<Rightarrow> nat \<Rightarrow> ('b, 'v) gen \<Rightarrow> ('b, 'v) gen option" where
  "i64_div L op i idx cg =
     (let name = (if op = LLVMUDiv then ''__cvm_udiv64'' else if op = LLVMSDiv then ''__cvm_sdiv64''
        else if op = LLVMURem then ''__cvm_umod64'' else ''__cvm_smod64'') in
      Option.bind (at (cg_i64_slot cg) idx) (\<lambda>slot.
        cg_emit_runtime_call L i name [LLVMGetOperand L i 0, LLVMGetOperand L i 1] None (Some slot) 0 0 cg))"

section \<open>Shifts\<close>

text \<open>A left shift by the constant \<open>n\<close>: the registers of the result.\<close>

definition shl_words :: "nat \<Rightarrow> u8 \<Rightarrow> u8 \<Rightarrow> ('b, 'v) gen \<Rightarrow> (u8 \<times> u8 \<times> ('b, 'v) gen) option" where
  "shl_words n al ah cg =
     (if n = 0 then Some (al, ah, cg)
      else if n < 32 then do {
        (t1, cg1) \<leftarrow> cg_alloc_reg cg;
        (t2, cg2) \<leftarrow> cg_alloc_reg cg1;
        (out_hi, cg3) \<leftarrow> cg_alloc_reg cg2;
        (out_lo, cg4) \<leftarrow> cg_alloc_reg cg3;
        let cg5 = cg_shift_imm (op_value CVM_OP_SHR) t2 al (32 - n) (cg_shift_imm (op_value CVM_OP_SHL) t1 ah n cg4);
        Some (out_lo, out_hi, cg_shift_imm (op_value CVM_OP_SHL) out_lo al n
          (cg_emit (enc_r (op_value CVM_OP_OR) out_hi t1 t2) cg5))
      }
      else if n = 32 then Some (cg_zero_reg cg, al, cg)
      else do {
        (out_hi, cg1) \<leftarrow> cg_alloc_reg cg;
        Some (cg_zero_reg cg1, out_hi, cg_shift_imm (op_value CVM_OP_SHL) out_hi al (n - 32) cg1)
      })"

text \<open>A right shift, arithmetic if \<open>ashr\<close>.\<close>

definition sign_word :: "bool \<Rightarrow> u8 \<Rightarrow> ('b, 'v) gen \<Rightarrow> (u8 \<times> ('b, 'v) gen) option" where
  "sign_word ashr ah cg =
     (if ashr then do { (out_hi, cg1) \<leftarrow> cg_alloc_reg cg; Some (out_hi, cg_shift_imm (op_value CVM_OP_SAR) out_hi ah 31 cg1) }
      else Some (cg_zero_reg cg, cg))"

definition shr_words :: "bool \<Rightarrow> nat \<Rightarrow> u8 \<Rightarrow> u8 \<Rightarrow> ('b, 'v) gen \<Rightarrow> (u8 \<times> u8 \<times> ('b, 'v) gen) option" where
  "shr_words ashr n al ah cg =
     (let fill_op = (if ashr then op_value CVM_OP_SAR else op_value CVM_OP_SHR) in
      if n = 0 then Some (al, ah, cg)
      else if n < 32 then do {
        (t1, cg1) \<leftarrow> cg_alloc_reg cg;
        (t2, cg2) \<leftarrow> cg_alloc_reg cg1;
        (out_lo, cg3) \<leftarrow> cg_alloc_reg cg2;
        (out_hi, cg4) \<leftarrow> cg_alloc_reg cg3;
        let cg5 = cg_shift_imm (op_value CVM_OP_SHL) t2 ah (32 - n) (cg_shift_imm (op_value CVM_OP_SHR) t1 al n cg4);
        Some (out_lo, out_hi, cg_shift_imm fill_op out_hi ah n
          (cg_emit (enc_r (op_value CVM_OP_OR) out_lo t1 t2) cg5))
      }
      else if n = 32 then do { (out_hi, cg1) \<leftarrow> sign_word ashr ah cg; Some (ah, out_hi, cg1) }
      else do {
        (out_lo, cg1) \<leftarrow> cg_alloc_reg cg;
        (out_hi, cg2) \<leftarrow> sign_word ashr ah (cg_shift_imm fill_op out_lo ah (n - 32) cg1);
        Some (out_lo, out_hi, cg2)
      })"

definition i64_shift :: "('v, 't, 'b) llvm \<Rightarrow> LLVMOpcode \<Rightarrow> 'v \<Rightarrow> nat \<Rightarrow> ('b, 'v) gen \<Rightarrow> ('b, 'v) gen option" where
  "i64_shift L op i idx cg =
     (let amt_v = LLVMGetOperand L i 1 in
      if \<not> LLVMIsAConstantInt L amt_v then
        let name = (if op = LLVMShl then ''__cvm_shl64'' else if op = LLVMLShr then ''__cvm_shr64'' else ''__cvm_sar64'') in
        Option.bind (at (cg_i64_slot cg) idx) (\<lambda>slot.
          cg_emit_runtime_call L i name [LLVMGetOperand L i 0, amt_v] None (Some slot) 0 0 cg)
      else let n = unat (LLVMConstIntGetZExtValue L amt_v AND 63) in do {
        (al, ah, cg1) \<leftarrow> cg_i64_read L (LLVMGetOperand L i 0) cg;
        (lo, hi, cg2) \<leftarrow> (if op = LLVMShl then shl_words n al ah cg1 else shr_words (op = LLVMAShr) n al ah cg1);
        cg_i64_write idx lo hi cg2
      })"

section \<open>Atomic read-modify-write\<close>

definition rmw_words ::
  "LLVMAtomicRMWBinOp \<Rightarrow> u8 \<Rightarrow> u8 \<Rightarrow> u8 \<Rightarrow> u8 \<Rightarrow> ('b, 'v) gen \<Rightarrow> (u8 \<times> u8 \<times> ('b, 'v) gen) option" where
  "rmw_words bop olo ohi vl vh cg =
     (if bop = LLVMAtomicRMWBinOpXchg then Some (vl, vh, cg)
      else if bop \<in> {LLVMAtomicRMWBinOpAdd, LLVMAtomicRMWBinOpSub} then do {
        (c, cg1) \<leftarrow> cg_alloc_reg cg;
        (nlo, cg2) \<leftarrow> cg_alloc_reg cg1;
        (nhi, cg3) \<leftarrow> cg_alloc_reg cg2;
        Some (nlo, nhi, if bop = LLVMAtomicRMWBinOpAdd then add_words nlo nhi c olo ohi vl vh cg3
          else sub_words nlo nhi c olo ohi vl vh cg3)
      }
      else if bop \<in> {LLVMAtomicRMWBinOpAnd, LLVMAtomicRMWBinOpOr, LLVMAtomicRMWBinOpXor, LLVMAtomicRMWBinOpNand} then
        let cv = op_value (if bop = LLVMAtomicRMWBinOpOr then CVM_OP_OR
          else if bop = LLVMAtomicRMWBinOpXor then CVM_OP_XOR else CVM_OP_AND) in do {
        (nlo, cg1) \<leftarrow> cg_alloc_reg cg;
        (nhi, cg2) \<leftarrow> cg_alloc_reg cg1;
        let cg3 = cg_emit (enc_r cv nhi ohi vh) (cg_emit (enc_r cv nlo olo vl) cg2);
        Some (nlo, nhi, if bop = LLVMAtomicRMWBinOpNand
          then cg_emit (enc_r (op_value CVM_OP_XOR) nhi nhi CG_REG_SCRATCH)
            (cg_emit (enc_r (op_value CVM_OP_XOR) nlo nlo CG_REG_SCRATCH) (cg_movi_scratch (- 1) cg3))
          else cg3)
      }
      else None)"

definition i64_rmw :: "('v, 't, 'b) llvm \<Rightarrow> 'v \<Rightarrow> nat \<Rightarrow> ('b, 'v) gen \<Rightarrow> ('b, 'v) gen option" where
  "i64_rmw L i idx cg = do {
     (addr, a4, olo, ohi, cg1) \<leftarrow> i64_load_words L (LLVMGetOperand L i 0) cg;
     (vl, vh, cg2) \<leftarrow> cg_i64_read L (LLVMGetOperand L i 1) cg1;
     (nlo, nhi, cg3) \<leftarrow> rmw_words (LLVMGetAtomicRMWBinOp L i) olo ohi vl vh cg2;
     cg_i64_write idx olo ohi
       (cg_emit (enc_r (op_value CVM_OP_STW) 0 a4 nhi) (cg_emit (enc_r (op_value CVM_OP_STW) 0 addr nlo) cg3))
   }"

section \<open>The switch\<close>

definition cg_emit_i64_def :: "('v, 't, 'b) llvm \<Rightarrow> 'v \<Rightarrow> LLVMOpcode \<Rightarrow> ('b, 'v) gen \<Rightarrow> ('b, 'v) gen option" where
  "cg_emit_i64_def L i op cg =
     Option.bind (wide_index L cg i) (\<lambda>idx.
      if LLVMGetIntTypeWidth L (LLVMTypeOf L i) \<noteq> 64 \<and> op \<noteq> LLVMSExt \<and> op \<noteq> LLVMZExt \<and> op \<noteq> LLVMExtractValue
      then None
      else case op of
        LLVMSExt \<Rightarrow> i64_sext L i idx cg
      | LLVMZExt \<Rightarrow> i64_zext L i idx cg
      | LLVMTrunc \<Rightarrow> i64_trunc L i idx cg
      | LLVMLoad \<Rightarrow> i64_load L i idx cg
      | LLVMAdd \<Rightarrow> i64_add_logic L op i idx cg
      | LLVMSub \<Rightarrow> i64_add_logic L op i idx cg
      | LLVMAnd \<Rightarrow> i64_add_logic L op i idx cg
      | LLVMOr \<Rightarrow> i64_add_logic L op i idx cg
      | LLVMXor \<Rightarrow> i64_add_logic L op i idx cg
      | LLVMMul \<Rightarrow> i64_mul L i idx cg
      | LLVMFreeze \<Rightarrow> i64_copy L i idx cg
      | LLVMSelect \<Rightarrow> cg_emit_wide_select L i idx cg
      | LLVMUDiv \<Rightarrow> i64_div L op i idx cg
      | LLVMSDiv \<Rightarrow> i64_div L op i idx cg
      | LLVMURem \<Rightarrow> i64_div L op i idx cg
      | LLVMSRem \<Rightarrow> i64_div L op i idx cg
      | LLVMLShr \<Rightarrow> i64_shift L op i idx cg
      | LLVMShl \<Rightarrow> i64_shift L op i idx cg
      | LLVMAShr \<Rightarrow> i64_shift L op i idx cg
      | LLVMExtractValue \<Rightarrow>
          (if (case cg_is_overflow_extract L i of Some (c, field) \<Rightarrow> field = 0 | None \<Rightarrow> False)
              \<or> (case cg_is_cmpxchg_extract L i of Some (c, field) \<Rightarrow> field = 0 | None \<Rightarrow> False)
           then Some cg else None)
      | LLVMBitCast \<Rightarrow> i64_copy L i idx cg
      | LLVMAtomicRMW \<Rightarrow> i64_rmw L i idx cg
      | _ \<Rightarrow> None)"

end
