(* ===== verification/Straight.thy ===== *)
theory Straight
  imports Codegen
begin

text \<open>
  Running a piece of straight-line code: \<open>run\<close> executes a list of instructions without the program counter,
  and \<open>run_dispatches\<close> shows that a machine that has the list in its code takes exactly these steps.
\<close>

section \<open>Instructions and lists of instructions\<close>

definition run1 :: "'h ctx \<Rightarrow> u32 \<Rightarrow> 'h vm \<Rightarrow> 'h outcome" where
  "run1 cx w s = (case map_of jt (i_op w) of None \<Rightarrow> Trap CVM_E_BAD_OPCODE s
     | Some l \<Rightarrow> l cx w (i_a w) (i_b w) (i_c w) s)"

primrec run :: "'h ctx \<Rightarrow> u32 list \<Rightarrow> 'h vm \<Rightarrow> 'h outcome" where
  "run cx [] s = Running s"
| "run cx (w # ws) s = (case run1 cx w s of Running s' \<Rightarrow> run cx ws s' | r \<Rightarrow> r)"

lemma run_append: "run cx (ws @ vs) s = (case run cx ws s of Running s' \<Rightarrow> run cx vs s' | r \<Rightarrow> r)"
  by (induction ws arbitrary: s) (auto split: outcome.splits)

lemma run_append_Running: "run cx ws s = Running s1 \<Longrightarrow> run cx (ws @ vs) s = run cx vs s1"
  by (simp add: run_append)

text \<open>The instructions that neither read nor write the program counter.\<close>

definition straight_ops :: "cvm_opcode set" where
  "straight_ops = {CVM_OP_MOVI, CVM_OP_MOVHI, CVM_OP_MOV, CVM_OP_ADD, CVM_OP_SUB, CVM_OP_MUL, CVM_OP_MULHU,
     CVM_OP_AND, CVM_OP_OR, CVM_OP_XOR, CVM_OP_SHL, CVM_OP_SHR, CVM_OP_SAR, CVM_OP_CMP_LTU, CVM_OP_LDW, CVM_OP_STW,
     CVM_OP_DIV, CVM_OP_DIVU, CVM_OP_MOD, CVM_OP_MODU, CVM_OP_CMP_EQ, CVM_OP_CMP_NE, CVM_OP_CMP_LT, CVM_OP_CMP_LE, CVM_OP_CMP_LEU}"

definition straight :: "u32 list \<Rightarrow> bool" where
  "straight ws \<longleftrightarrow> (\<forall>w \<in> set ws. \<exists>op \<in> straight_ops. i_op w = op_value op)"

lemma straight_append [simp]: "straight (ws @ vs) \<longleftrightarrow> straight ws \<and> straight vs"
  by (auto simp: straight_def)

lemma straight_simps [simp]: "straight []" "straight (w # ws) \<longleftrightarrow> (\<exists>op \<in> straight_ops. i_op w = op_value op) \<and> straight ws"
  by (auto simp: straight_def)

lemmas run_labels = L_MOVI_def L_MOVHI_def L_MOV_def L_ADD_def L_SUB_def L_MUL_def L_MULHU_def L_AND_def L_OR_def
  L_XOR_def L_SHL_def L_SHR_def L_SAR_def L_CMP_LTU_def L_LDW_def L_STW_def
  L_DIV_def L_DIVU_def L_MOD_def L_MODU_def L_CMP_EQ_def L_CMP_NE_def L_CMP_LT_def L_CMP_LE_def L_CMP_LEU_def

lemma set_pc_swap:
  "set_R (set_pc s p) r v = set_pc (set_R s r v) p" "set_heap (set_pc s p) m = set_pc (set_heap s m) p"
  "vm_R (set_pc s p) = vm_R s" "heap_of (set_pc s p) = heap_of s" "set_pc (set_pc s p) q = set_pc s q"
  by (simp_all add: set_R_def set_pc_def set_heap_def heap_of_def)

lemma run1_pc:
  assumes "i_op w = op_value op" "op \<in> straight_ops" "run1 cx w s = Running s'"
  shows "run1 cx w (set_pc s p) = Running (set_pc s' p)"
  using assms unfolding straight_ops_def
  by (elim insertE emptyE)
    (auto simp: run1_def jt_label run_labels set_pc_swap Let_def load_def store_def split: option.splits if_splits)

section \<open>On the machine\<close>

primrec dispatches :: "'h ctx \<Rightarrow> nat \<Rightarrow> 'h vm \<Rightarrow> 'h vm \<Rightarrow> bool" where
  "dispatches cx 0 s s' \<longleftrightarrow> s' = s"
| "dispatches cx (Suc n) s s' \<longleftrightarrow> (\<exists>t. DISPATCH cx s = Running t \<and> dispatches cx n t s')"

lemma dispatches_trans: "dispatches cx m s t \<Longrightarrow> dispatches cx n t u \<Longrightarrow> dispatches cx (m + n) s u"
  by (induction m arbitrary: s) auto

lemma dispatches_loop: "dispatches cx n s s' \<Longrightarrow> exec_loop cx s = exec_loop cx s'"
proof (induction n arbitrary: s)
  case (Suc n)
  then obtain t where t: "DISPATCH cx s = Running t" "dispatches cx n t s'" by auto
  have "exec_loop cx s = exec_loop cx t" by (subst exec_loop.simps) (simp add: t(1))
  then show ?case using Suc.IH [OF t(2)] by simp
qed simp

lemma dispatch_run1:
  fixes cx :: "'h ctx"
  assumes "runs_code cx code" "vm_pc s = of_nat p" "p < length code" "i_op (code ! p) = op_value op" "op \<in> straight_ops"
    "run1 cx (code ! p) s = Running s'"
  shows "DISPATCH cx s = Running (set_pc s' (of_nat (Suc p)))"
proof -
  obtain l :: "'h label" where l: "map_of jt (i_op (code ! p)) = Some l" using assms(6) by (auto simp: run1_def split: option.splits)
  have "DISPATCH cx s = run1 cx (code ! p) (set_pc s (of_nat (Suc p)))"
    unfolding dispatch_at [OF assms(1-3) l] run1_def l by simp
  then show ?thesis using run1_pc [OF assms(4-6)] by simp
qed

lemma run_dispatches:
  assumes "runs_code cx code" "vm_pc s = of_nat p" "take (length ws) (drop p code) = ws" "straight ws"
    "run cx ws s = Running s'"
  shows "dispatches cx (length ws) s (set_pc s' (of_nat (p + length ws)))"
  using assms(2-)
proof (induction ws arbitrary: s p s')
  case Nil
  then show ?case by (simp add: set_pc_def)
next
  case (Cons w ws)
  have "length (take (length (w # ws)) (drop p code)) = length (w # ws)" using Cons.prems(2) by (rule arg_cong)
  then have p: "p < length code" by simp
  have d: "drop p code = code ! p # drop (Suc p) code" using p by (simp add: Cons_nth_drop_Suc)
  have w: "code ! p = w" "take (length ws) (drop (Suc p) code) = ws" using Cons.prems(2) unfolding d by simp_all
  obtain s1 where s1: "run1 cx w s = Running s1" "run cx ws s1 = Running s'"
    using Cons.prems(4) by (auto split: outcome.splits)
  obtain op where op: "op \<in> straight_ops" "i_op w = op_value op" using Cons.prems(3) by auto
  have D: "DISPATCH cx s = Running (set_pc s1 (of_nat (Suc p)))"
    using dispatch_run1 [OF assms(1) Cons.prems(1) p, of op] op s1(1) by (simp add: w(1))
  have r: "run cx vs (set_pc t q) = Running (set_pc t' q)" if "run cx vs t = Running t'" "straight vs" for vs t t' q
    using that
  proof (induction vs arbitrary: t)
    case (Cons v vs)
    then obtain t1 where t1: "run1 cx v t = Running t1" "run cx vs t1 = Running t'" by (auto split: outcome.splits)
    obtain o1 where "o1 \<in> straight_ops" "i_op v = op_value o1" using Cons.prems(2) by auto
    then show ?case using run1_pc [of v o1 cx t t1 q] t1 Cons.IH Cons.prems(2) by simp
  qed simp
  have "dispatches cx (length ws) (set_pc s1 (of_nat (Suc p))) (set_pc s' (of_nat (Suc p + length ws)))"
    using Cons.IH [of "set_pc s1 (of_nat (Suc p))" "Suc p" "set_pc s' (of_nat (Suc p))"] w(2) Cons.prems(3) r [OF s1(2)]
    by (simp add: set_pc_swap)
  then show ?case using D by simp
qed

section \<open>Steps of the emitted instructions\<close>

lemma ucast_i16: "ucast (ucast (x :: u16) :: u32) = x"
  by (rule bit_word_eqI) (simp add: bit_simps)

lemma run_alu [simp]:
  "run cx (enc_i16 (op_value CVM_OP_MOVI) a imm # ws) s = run cx ws (set_R s a (scast imm))"
  "run cx (enc_r (op_value CVM_OP_MOV) a b c # ws) s = run cx ws (set_R s a (R s b))"
  "run cx (enc_r (op_value CVM_OP_ADD) a b c # ws) s = run cx ws (set_R s a (R s b + R s c))"
  "run cx (enc_r (op_value CVM_OP_SUB) a b c # ws) s = run cx ws (set_R s a (R s b - R s c))"
  "run cx (enc_r (op_value CVM_OP_MUL) a b c # ws) s = run cx ws (set_R s a (R s b * R s c))"
  "run cx (enc_r (op_value CVM_OP_MULHU) a b c # ws) s
    = run cx ws (set_R s a (ucast (drop_bit 32 ((ucast (R s b) :: u64) * ucast (R s c)))))"
  "run cx (enc_r (op_value CVM_OP_AND) a b c # ws) s = run cx ws (set_R s a (R s b AND R s c))"
  "run cx (enc_r (op_value CVM_OP_OR) a b c # ws) s = run cx ws (set_R s a (R s b OR R s c))"
  "run cx (enc_r (op_value CVM_OP_XOR) a b c # ws) s = run cx ws (set_R s a (R s b XOR R s c))"
  "run cx (enc_r (op_value CVM_OP_SHL) a b c # ws) s = run cx ws (set_R s a (push_bit (unat (R s c AND 31)) (R s b)))"
  "run cx (enc_r (op_value CVM_OP_SHR) a b c # ws) s = run cx ws (set_R s a (drop_bit (unat (R s c AND 31)) (R s b)))"
  "run cx (enc_r (op_value CVM_OP_SAR) a b c # ws) s
    = run cx ws (set_R s a (signed_drop_bit (unat (R s c AND 31)) (R s b)))"
  "run cx (enc_r (op_value CVM_OP_CMP_LTU) a b c # ws) s = run cx ws (set_R s a (bool32 (R s b < R s c)))"
  "run cx (enc_r (op_value CVM_OP_CMP_LEU) a b c # ws) s = run cx ws (set_R s a (bool32 (R s b \<le> R s c)))"
  "run cx (enc_r (op_value CVM_OP_CMP_EQ) a b c # ws) s = run cx ws (set_R s a (bool32 (R s b = R s c)))"
  "run cx (enc_r (op_value CVM_OP_CMP_NE) a b c # ws) s = run cx ws (set_R s a (bool32 (R s b \<noteq> R s c)))"
  "run cx (enc_r (op_value CVM_OP_CMP_LT) a b c # ws) s = run cx ws (set_R s a (bool32 (sint (R s b) < sint (R s c))))"
  "run cx (enc_r (op_value CVM_OP_CMP_LE) a b c # ws) s = run cx ws (set_R s a (bool32 (sint (R s b) \<le> sint (R s c))))"
  by (simp_all add: run1_def jt_label run_labels ucast_i16)

lemma run_movhi [simp]:
  "run cx (enc_i16 (op_value CVM_OP_MOVHI) a imm # ws) s
    = run cx ws (set_R s a (push_bit 16 (ucast imm) OR (R s a AND 0xFFFF)))"
proof -
  have m: "(0xFFFF :: u32) = mask 16" by (simp add: mask_eq_exp_minus_1)
  have "ucast imm AND 0xFFFF = (ucast imm :: u32)"
    unfolding m by (rule bit_word_eqI) (auto simp: bit_simps dest: bit_imp_le_length)
  then show ?thesis by (simp add: run1_def jt_label run_labels Let_def)
qed

declare run.simps(2) [simp del]

end
