(* ===== verification/Frame.thy ===== *)
theory Frame
  imports Straight Emit
begin

text \<open>
  The translator's frame helpers on the machine: the code they emit loads a constant, and reads and writes
  the words of the stack frame.
\<close>

section \<open>The code a helper emits\<close>

definition emit_all :: "u32 list \<Rightarrow> ('b, 'm) cg_scheme \<Rightarrow> ('b, 'm) cg_scheme" where
  "emit_all ws cg = cg\<lparr>cg_code := cg_code cg @ ws\<rparr>"

lemma emit_all_simps [simp]: "cg_emit w (emit_all ws cg) = emit_all (ws @ [w]) cg" "emit_all [] cg = cg"
  "emit_all vs (emit_all ws cg) = emit_all (ws @ vs) cg"
  by (simp_all add: emit_all_def cg_emit_def)

lemma emit_all_one: "cg_emit w cg = emit_all [w] cg"
  by (simp add: emit_all_def cg_emit_def)

definition const_code :: "u8 \<Rightarrow> u32 \<Rightarrow> u32 list" where
  "const_code rd imm = (if fits_i16 imm then [enc_i16 (op_value CVM_OP_MOVI) rd (ucast imm)]
     else [enc_i16 (op_value CVM_OP_MOVI) rd (ucast (imm AND 0xFFFF)),
       enc_i16 (op_value CVM_OP_MOVHI) rd (ucast (drop_bit 16 imm AND 0xFFFF))])"

definition sp_code :: "u32 \<Rightarrow> u32 list" where
  "sp_code off = const_code CG_REG_SCRATCH off @ [enc_r (op_value CVM_OP_ADD) CG_REG_SCRATCH CG_REG_SP CG_REG_SCRATCH]"

definition stw_code :: "u32 \<Rightarrow> u8 \<Rightarrow> u32 list" where
  "stw_code off src = sp_code off @ [enc_r (op_value CVM_OP_STW) 0 CG_REG_SCRATCH src]"

definition ldw_code :: "u8 \<Rightarrow> u32 \<Rightarrow> u32 list" where
  "ldw_code dst off = sp_code off @ [enc_r (op_value CVM_OP_LDW) dst CG_REG_SCRATCH 0]"

lemma emit_helpers:
  "cg_emit_load_const32 rd imm cg = emit_all (const_code rd imm) cg"
  "cg_movi_scratch imm cg = emit_all (const_code CG_REG_SCRATCH imm) cg"
  "cg_addr_sp_plus off cg = emit_all (sp_code off) cg"
  "cg_stw_sp_off off src cg = emit_all (stw_code off src) cg"
  "cg_ldw_sp_off dst off cg = emit_all (ldw_code dst off) cg"
  "cg_shift_imm cv dst src amt cg
    = emit_all [enc_i16 (op_value CVM_OP_MOVI) CG_REG_SCRATCH (of_nat amt), enc_r cv dst src CG_REG_SCRATCH] cg"
  by (simp_all add: cg_emit_load_const32_def const_code_def cg_movi_scratch_def cg_addr_sp_plus_def sp_code_def
      cg_stw_sp_off_def stw_code_def cg_ldw_sp_off_def ldw_code_def cg_shift_imm_def emit_all_one [of _ cg])

lemma straight_const [simp]: "straight (const_code rd imm)"
  by (simp add: const_code_def straight_ops_def)

lemma straight_frame [simp]: "straight (sp_code off)" "straight (stw_code off src)" "straight (ldw_code dst off)"
  by (simp_all add: sp_code_def stw_code_def ldw_code_def straight_ops_def)

section \<open>Constants\<close>

lemma set_R_twice [simp]: "set_R (set_R s r a) r b = set_R s r b"
  by (simp add: set_R_def)

lemma set_R_self: "R s r = v \<Longrightarrow> set_R s r v = s"
  by (simp add: set_R_def fun_upd_idem)

lemma mask16: "(0xFFFF :: u32) = mask 16"
  by (simp add: mask_eq_exp_minus_1)

lemma scast_low16:
  assumes "fits_i16 imm"
  shows "scast (ucast imm :: u16) = imm"
proof -
  have "sint (ucast imm :: u16) = signed_take_bit 15 (sint imm)"
    by (simp add: sint_uint unsigned_ucast_eq signed_take_bit_signed_take_bit signed_take_bit_take_bit)
  also have "\<dots> = sint imm" using assms by (simp add: fits_i16_def signed_take_bit_int_eq_self)
  finally show ?thesis by (metis of_int_sint scast_id)
qed

lemma glue16: "push_bit 16 (ucast (ucast (drop_bit 16 imm AND 0xFFFF :: u32) :: u16) :: u32)
    OR (scast (ucast (imm AND 0xFFFF) :: u16) AND 0xFFFF) = imm"
  unfolding mask16
proof (rule bit_word_eqI)
  fix n assume "n < LENGTH(32)"
  then show "bit (push_bit 16 (ucast (ucast (drop_bit 16 imm AND mask 16) :: u16) :: u32)
      OR (scast (ucast (imm AND mask 16) :: u16) AND mask 16)) n = bit imm n"
    by (cases "n < 15"; cases "n = 15") (auto simp: bit_simps min_def)
qed

lemma run_const [simp]: "run cx (const_code rd imm @ ws) s = run cx ws (set_R s rd imm)"
  by (simp add: const_code_def scast_low16 glue16)

lemma run_sp [simp]: "run cx (sp_code off @ ws) s = run cx ws (set_R s CG_REG_SCRATCH (R s CG_REG_SP + off))"
  by (simp add: sp_code_def CG_REG_SP_def CG_REG_SCRATCH_def)

section \<open>Frame words\<close>

definition in_frame :: "'h ctx \<Rightarrow> 'h vm \<Rightarrow> u32 \<Rightarrow> bool" where
  "in_frame cx s off \<longleftrightarrow> unat (R s CG_REG_SP) + unat off + 4 \<le> unat (cx_mem_size cx)"

definition slot_addr :: "'h vm \<Rightarrow> u32 \<Rightarrow> nat" where "slot_addr s off = unat (R s CG_REG_SP + off)"

definition slot_val :: "'h vm \<Rightarrow> u32 \<Rightarrow> u32" where "slot_val s off = the (rd32 (heap_of s) (slot_addr s off))"

definition slot_put :: "u32 \<Rightarrow> u32 \<Rightarrow> 'h vm \<Rightarrow> 'h vm" where
  "slot_put off v s = set_heap s (the (wr32 (heap_of s) (slot_addr s off) v))"

lemma slot_addr_eq: "in_frame cx s off \<Longrightarrow> slot_addr s off = unat (R s CG_REG_SP) + unat off"
  using unat_lt32 [of "cx_mem_size cx"] unfolding slot_addr_def in_frame_def by (intro unat_add_lt) (simp del: unat_lt32)

lemma slot_rd: "vm_ok cx s \<Longrightarrow> in_frame cx s off \<Longrightarrow> rd32 (heap_of s) (slot_addr s off) = Some (slot_val s off)"
  using rd32_None [of "heap_of s" "slot_addr s off"] vm_ok_heap [of cx s]
  by (cases "rd32 (heap_of s) (slot_addr s off)") (auto simp: slot_val_def slot_addr_eq in_frame_def)

lemma slot_wr:
  assumes "vm_ok cx s" "in_frame cx s off"
  obtains m where "wr32 (heap_of s) (slot_addr s off) v = Some m" "slot_put off v s = set_heap s m"
    "length m = length (heap_of s)"
proof -
  have "wr32 (heap_of s) (slot_addr s off) v \<noteq> None"
    using vm_ok_heap [OF assms(1)] assms(2) by (auto simp: wr32_None slot_addr_eq [OF assms(2)] in_frame_def)
  then show ?thesis using that write_length by (auto simp: slot_put_def)
qed

lemma slot_put_keeps [simp]:
  "R (slot_put off v s) = R s" "vm_pc (slot_put off v s) = vm_pc s" "vm_host (slot_put off v s) = vm_host s"
  "in_frame cx (slot_put off v s) off' = in_frame cx s off'"
  "slot_addr (slot_put off v s) off' = slot_addr s off'"
  by (simp_all add: slot_put_def in_frame_def slot_addr_def)

lemma slot_put_ok:
  assumes "vm_ok cx s" "in_frame cx s off"
  shows "vm_ok cx (slot_put off v s)" "slot_val (slot_put off v s) off = v"
    "agree_outside (heap_of s) (heap_of (slot_put off v s)) (slot_addr s off) 4"
proof -
  obtain m where m: "wr32 (heap_of s) (slot_addr s off) v = Some m" "slot_put off v s = set_heap s m"
    "length m = length (heap_of s)" by (rule slot_wr [OF assms])
  have h: "heap_of (set_heap s m) = m" using m(3) by simp
  show "vm_ok cx (slot_put off v s)" unfolding m(2) by (rule vm_ok_set_heap [OF assms(1) m(3)])
  show "slot_val (slot_put off v s) off = v"
    unfolding slot_val_def m(2) h using heap32.ld_st_same [OF m(1)] by (simp add: slot_addr_def)
  show "agree_outside (heap_of s) (heap_of (slot_put off v s)) (slot_addr s off) 4"
    unfolding m(2) h by (rule wr32_agree [OF m(1)])
qed

lemma slot_val_agree:
  assumes "agree_outside (heap_of s) (heap_of s') a n" "R s' CG_REG_SP = R s CG_REG_SP"
    "slot_addr s off + 4 \<le> a \<or> a + n \<le> slot_addr s off"
  shows "slot_val s' off = slot_val s off"
proof -
  have "rd32 (heap_of s') (slot_addr s off) = rd32 (heap_of s) (slot_addr s off)"
    by (rule agree_rd32 [OF assms(1,3)])
  then show ?thesis by (simp add: slot_val_def slot_addr_def assms(2))
qed

lemma slot_put_other:
  assumes "vm_ok cx s" "in_frame cx s off" "in_frame cx s off'"
    "unat off' + 4 \<le> unat off \<or> unat off + 4 \<le> unat off'"
  shows "slot_val (slot_put off v s) off' = slot_val s off'"
  by (rule slot_val_agree [OF slot_put_ok(3) [OF assms(1,2)]])
    (use assms(4) in \<open>auto simp: slot_addr_eq [OF assms(2)] slot_addr_eq [OF assms(3)]\<close>)

lemma slot_val_set_R [simp]: "r \<noteq> CG_REG_SP \<Longrightarrow> slot_val (set_R s r v) off = slot_val s off"
  "r \<noteq> CG_REG_SP \<Longrightarrow> in_frame cx (set_R s r v) off = in_frame cx s off"
  "r \<noteq> CG_REG_SP \<Longrightarrow> slot_addr (set_R s r v) off = slot_addr s off"
  by (simp_all add: slot_val_def slot_addr_def in_frame_def)

text \<open>Loads and stores of frame words, as rewrites of a run.\<close>

abbreviation sp_scratch :: "u32 \<Rightarrow> 'h vm \<Rightarrow> 'h vm" where
  "sp_scratch off s \<equiv> set_R s CG_REG_SCRATCH (R s CG_REG_SP + off)"

lemma scratch_sp: "CG_REG_SCRATCH \<noteq> CG_REG_SP" by (simp add: CG_REG_SCRATCH_def CG_REG_SP_def)

lemma run_ldw:
  assumes "vm_ok cx s" "in_frame cx s off"
  shows "run cx (ldw_code d off @ ws) s = run cx ws (set_R (sp_scratch off s) d (slot_val s off))"
proof -
  have b: "\<not> oob cx (R s CG_REG_SP + off) 4"
    using assms(2) slot_addr_eq [OF assms(2)] by (simp add: oob_iff in_frame_def slot_addr_def)
  show ?thesis
    using b slot_rd [OF assms]
    by (simp add: ldw_code_def run.simps(2) run1_def jt_label L_LDW_def Let_def load_def slot_addr_def)
qed

lemma run_stw:
  assumes "vm_ok cx s" "in_frame cx s off" "src \<noteq> CG_REG_SCRATCH"
  shows "run cx (stw_code off src @ ws) s = run cx ws (slot_put off (R s src) (sp_scratch off s))"
proof -
  have b: "\<not> oob cx (R s CG_REG_SP + off) 4"
    using assms(2) slot_addr_eq [OF assms(2)] by (simp add: oob_iff in_frame_def slot_addr_def)
  obtain m where m: "wr32 (heap_of s) (slot_addr s off) (R s src) = Some m" by (rule slot_wr [OF assms(1,2)])
  show ?thesis
    using b m assms(3) scratch_sp
    by (simp add: stw_code_def run.simps(2) run1_def jt_label L_STW_def Let_def store_def slot_addr_def slot_put_def)
qed

end
