(* ===== verification/Wide_Correct.thy ===== *)
theory Wide_Correct
  imports Wide Frame Int64
begin

text \<open>
  The translator's inline code for 64-bit integer operations, run on the machine: the slots of the result
  hold the 64-bit result, and nothing but scratch registers and these slots has changed. The pairs of words
  are those of the runtime's \<open>cvm_i64\<close>, so the arithmetic is that of the theory \<open>Int64\<close>.
\<close>

section \<open>What emission changes\<close>

definition gen_ok :: "('b, 'v) gen \<Rightarrow> bool" where
  "gen_ok cg \<longleftrightarrow> cg_free_list cg = [] \<and> cg_zero_reg cg = CG_REG_ZERO \<and> cg_next_reg cg \<le> 253"

definition emitted :: "('b, 'v) gen \<Rightarrow> ('b, 'v) gen \<Rightarrow> u32 list \<Rightarrow> bool" where
  "emitted cg cg' ws \<longleftrightarrow> cg' = (emit_all ws cg)\<lparr>cg_next_reg := cg_next_reg cg'\<rparr>
     \<and> cg_next_reg cg \<le> cg_next_reg cg' \<and> gen_ok cg' \<and> straight ws"

lemma emittedD:
  assumes "emitted cg cg' ws"
  shows "cg_code cg' = cg_code cg @ ws" "cg_next_reg cg \<le> cg_next_reg cg'" "gen_ok cg'" "straight ws"
    "cg_i64_slot cg' = cg_i64_slot cg" "cg_val_slot_off cg' = cg_val_slot_off cg" "cg_lookup L cg' = cg_lookup L cg"
    "cg_zero_reg cg' = cg_zero_reg cg"
proof -
  have e: "cg' = (emit_all ws cg)\<lparr>cg_next_reg := cg_next_reg cg'\<rparr>" using assms by (simp add: emitted_def)
  show "cg_next_reg cg \<le> cg_next_reg cg'" "gen_ok cg'" "straight ws" using assms by (simp_all add: emitted_def)
  show "cg_code cg' = cg_code cg @ ws" "cg_i64_slot cg' = cg_i64_slot cg" "cg_zero_reg cg' = cg_zero_reg cg"
    by (subst e, simp add: emit_all_def)+
  show "cg_val_slot_off cg' = cg_val_slot_off cg" "cg_lookup L cg' = cg_lookup L cg"
    by (rule ext, subst e, simp add: emit_all_def cg_val_slot_off_def cg_lookup_def)+
qed

lemma emitted_refl: "gen_ok cg \<Longrightarrow> emitted cg cg []"
  by (simp add: emitted_def)

lemma emitted_trans:
  assumes "emitted cg cg1 ws" "emitted cg1 cg2 vs"
  shows "emitted cg cg2 (ws @ vs)"
proof -
  have e: "cg1 = (emit_all ws cg)\<lparr>cg_next_reg := cg_next_reg cg1\<rparr>" "cg2 = (emit_all vs cg1)\<lparr>cg_next_reg := cg_next_reg cg2\<rparr>"
    using assms by (simp_all add: emitted_def)
  have "cg2 = (emit_all (ws @ vs) cg)\<lparr>cg_next_reg := cg_next_reg cg2\<rparr>"
    by (subst e(2), subst e(1)) (simp add: emit_all_def)
  then show ?thesis using assms unfolding emitted_def by (meson le_trans straight_append)
qed

lemma emitted_code: "gen_ok cg \<Longrightarrow> straight ws \<Longrightarrow> emitted cg (emit_all ws cg) ws"
  by (simp add: emitted_def gen_ok_def emit_all_def)

text \<open>Registers that emitted code may write, and those an operand can be in.\<close>

definition scratch :: "nat \<Rightarrow> u8 \<Rightarrow> bool" where
  "scratch n r \<longleftrightarrow> r = CG_REG_SCRATCH \<or> n \<le> unat r \<and> unat r \<le> 252"

definition opreg :: "nat \<Rightarrow> u8 \<Rightarrow> bool" where
  "opreg n r \<longleftrightarrow> unat r < n \<and> unat r \<le> 252 \<or> r = CG_REG_ZERO"

lemma alloc_emitted:
  assumes "gen_ok cg" "cg_alloc_reg cg = Some (r, cg')"
  shows "emitted cg cg' []" "unat r = cg_next_reg cg" "cg_next_reg cg' = Suc (cg_next_reg cg)" "opreg (cg_next_reg cg') r"
    "cg_next_reg cg \<le> 252"
proof -
  have r: "r = of_nat (cg_next_reg cg)" "cg' = cg\<lparr>cg_next_reg := cg_next_reg cg + 1\<rparr>" "cg_next_reg cg \<le> 252"
    using assms by (auto simp: gen_ok_def cg_alloc_reg_def CG_MAX_EMIT_REG_def split: if_splits)
  show "cg_next_reg cg \<le> 252" by (rule r(3))
  show "unat r = cg_next_reg cg" unfolding r(1) using r(3) by (simp add: unat_of_nat take_bit_nat_eq_self)
  then show "opreg (cg_next_reg cg') r" using r by (simp add: opreg_def)
  show "cg_next_reg cg' = Suc (cg_next_reg cg)" unfolding r(2) by simp
  show "emitted cg cg' []" using assms(1) r(3) unfolding r(2) by (simp add: emitted_def emit_all_def gen_ok_def)
qed

lemma opreg_mono: "opreg n r \<Longrightarrow> n \<le> m \<Longrightarrow> opreg m r"
  by (auto simp: opreg_def)

lemma opreg_not_scratch: "opreg n r \<Longrightarrow> \<not> scratch n r"
  by (auto simp: opreg_def scratch_def CG_REG_ZERO_def CG_REG_SCRATCH_def)

lemma opreg_fresh:
  assumes "opreg n a" "unat r = m" "n \<le> m" "m \<le> 252"
  shows "a \<noteq> r" "r \<noteq> a" "r \<noteq> CG_REG_SCRATCH" "r \<noteq> CG_REG_SP" "r \<noteq> CG_REG_ZERO" "a \<noteq> CG_REG_SCRATCH" "a \<noteq> CG_REG_SP"
  using assms by (auto simp: opreg_def CG_REG_SCRATCH_def CG_REG_SP_def CG_REG_ZERO_def)

lemma fresh_neq: "unat a = n \<Longrightarrow> unat b = m \<Longrightarrow> n \<noteq> m \<Longrightarrow> a \<noteq> b"
  by auto

section \<open>What a run changes\<close>

definition same_but :: "nat \<Rightarrow> 'h vm \<Rightarrow> 'h vm \<Rightarrow> bool" where
  "same_but n s s' \<longleftrightarrow> s' = s\<lparr>vm_R := vm_R s'\<rparr> \<and> (\<forall>r. \<not> scratch n r \<longrightarrow> R s' r = R s r)"

lemma same_but_refl: "same_but n s s"
  by (simp add: same_but_def)

lemma same_but_trans: "same_but n s s1 \<Longrightarrow> same_but m s1 s2 \<Longrightarrow> n \<le> m \<Longrightarrow> same_but n s s2"
  unfolding same_but_def scratch_def by (metis (no_types, lifting) le_trans vm.select_convs(1) vm.surjective vm.update_convs(1))

lemma same_but_set: "same_but n s s1 \<Longrightarrow> scratch n r \<Longrightarrow> same_but n s (set_R s1 r v)"
  unfolding same_but_def set_R_def by (cases s; cases s1) auto

lemma sp_not_scratch: "\<not> scratch n CG_REG_SP" "\<not> scratch n CG_REG_ZERO" "scratch n CG_REG_SCRATCH"
  by (simp_all add: scratch_def CG_REG_SCRATCH_def CG_REG_SP_def CG_REG_ZERO_def)

lemma same_butD:
  assumes "same_but n s s'"
  shows "\<not> scratch n r \<Longrightarrow> R s' r = R s r" "heap_of s' = heap_of s" "vm_ok cx s' = vm_ok cx s" "vm_pc s' = vm_pc s"
    "slot_val s' off = slot_val s off" "in_frame cx s' off = in_frame cx s off" "slot_addr s' off = slot_addr s off"
    "vm_host s' = vm_host s"
proof -
  have e: "s' = s\<lparr>vm_R := vm_R s'\<rparr>" and r: "\<And>r. \<not> scratch n r \<Longrightarrow> R s' r = R s r" using assms by (auto simp: same_but_def)
  show "\<not> scratch n r \<Longrightarrow> R s' r = R s r" by (rule r)
  show h: "heap_of s' = heap_of s" "vm_ok cx s' = vm_ok cx s" "vm_pc s' = vm_pc s" "vm_host s' = vm_host s"
    by (subst e, simp add: heap_of_def vm_ok_def)+
  show "slot_val s' off = slot_val s off" "in_frame cx s' off = in_frame cx s off" "slot_addr s' off = slot_addr s off"
    using h r sp_not_scratch by (simp_all add: slot_val_def slot_addr_def in_frame_def)
qed

section \<open>Wide values\<close>

text \<open>The value of a wide operand: a constant, undefined (taken to be 0), or two frame words.\<close>

definition slot_pair :: "'h vm \<Rightarrow> u32 \<Rightarrow> cvm_i64" where
  "slot_pair s off = \<lparr>lo = slot_val s off, hi = slot_val s (off + 4)\<rparr>"

definition wide_of :: "('v, 't, 'b) llvm \<Rightarrow> ('b, 'v) gen \<Rightarrow> 'h vm \<Rightarrow> 'v \<Rightarrow> cvm_i64 option" where
  "wide_of L cg s v =
     (case cg_wide_const_words L v of Some (l, h) \<Rightarrow> Some \<lparr>lo = l, hi = h\<rparr>
      | None \<Rightarrow> if LLVMIsUndef L v then Some \<lparr>lo = 0, hi = 0\<rparr>
          else map_option (slot_pair s) (Option.bind (wide_index L cg v) (cg_i64_lo_off cg)))"

definition wide_frame :: "'h ctx \<Rightarrow> ('b, 'v) gen \<Rightarrow> 'h vm \<Rightarrow> bool" where
  "wide_frame cx cg s \<longleftrightarrow> (\<forall>idx slot. at (cg_i64_slot cg) idx = Some slot \<longrightarrow> slot \<noteq> CG_NO_SLOT \<longrightarrow>
     unat (R s CG_REG_SP) + unat (cg_val_slot_off cg slot) + 8 \<le> unat (cx_mem_size cx))"

definition machine_ok :: "'h ctx \<Rightarrow> ('b, 'v) gen \<Rightarrow> 'h vm \<Rightarrow> bool" where
  "machine_ok cx cg s \<longleftrightarrow> vm_ok cx s \<and> wide_frame cx cg s \<and> R s CG_REG_ZERO = 0"

lemma emitted_same:
  assumes "emitted cg cg' ws"
  shows "wide_index L cg' = wide_index L cg" "cg_i64_lo_off cg' = cg_i64_lo_off cg" "wide_frame cx cg' s = wide_frame cx cg s"
    "wide_of L cg' s v = wide_of L cg s v" "machine_ok cx cg' s = machine_ok cx cg s"
proof -
  show i: "wide_index L cg' = wide_index L cg" "cg_i64_lo_off cg' = cg_i64_lo_off cg"
    by (rule ext, simp add: wide_index_def cg_i64_lo_off_def emittedD [OF assms])+
  show w: "wide_frame cx cg' s = wide_frame cx cg s" by (simp add: wide_frame_def emittedD [OF assms])
  show "wide_of L cg' s v = wide_of L cg s v" by (simp only: wide_of_def i)
  show "machine_ok cx cg' s = machine_ok cx cg s" by (simp add: machine_ok_def w)
qed

lemma same_but_same:
  assumes "same_but n s s'"
  shows "wide_of L cg s' v = wide_of L cg s v" "machine_ok cx cg s' = machine_ok cx cg s" "slot_pair s' = slot_pair s"
proof -
  show p: "slot_pair s' = slot_pair s" by (rule ext) (simp add: slot_pair_def same_butD [OF assms])
  show "wide_of L cg s' v = wide_of L cg s v" by (simp only: wide_of_def p)
  show "machine_ok cx cg s' = machine_ok cx cg s"
    using same_butD(1) [OF assms] sp_not_scratch by (simp add: machine_ok_def wide_frame_def same_butD [OF assms])
qed

text \<open>Both words of a wide value are in the frame.\<close>

lemma pair_in_frame:
  assumes "machine_ok cx cg s" "wide_index L cg v = Some idx" "cg_i64_lo_off cg idx = Some off"
  shows "in_frame cx s off" "in_frame cx s (off + 4)" "unat (off + 4) = unat off + 4"
proof -
  obtain slot where slot: "at (cg_i64_slot cg) idx = Some slot" "slot \<noteq> CG_NO_SLOT"
    using assms(2) by (auto simp: wide_index_def bind_eq_Some_conv split: if_splits)
  then have off: "off = cg_val_slot_off cg slot" using assms(3) by (simp add: cg_i64_lo_off_def)
  have le: "unat (R s CG_REG_SP) + unat off + 8 \<le> unat (cx_mem_size cx)"
    using assms(1) slot unfolding off by (auto simp: machine_ok_def wide_frame_def)
  then have "unat off + 4 < 4294967296" using unat_lt32 [of "cx_mem_size cx"] by linarith
  then show u: "unat (off + 4) = unat off + 4" using unat_plus_small [of off 4] by simp
  show "in_frame cx s off" "in_frame cx s (off + 4)" using le u by (simp_all add: in_frame_def)
qed

section \<open>Reading an operand\<close>

text \<open>Code that may only change scratch registers from \<open>n\<close> on and establishes \<open>P\<close>, on every machine.\<close>

definition computes ::
  "('b, 'v) gen \<Rightarrow> nat \<Rightarrow> u32 list \<Rightarrow> ('h vm \<Rightarrow> 'h vm \<Rightarrow> bool) \<Rightarrow> bool" where
  "computes cg n ws P \<longleftrightarrow> (\<forall>cx s. machine_ok cx cg s \<longrightarrow> (\<exists>s'. run cx ws s = Running s' \<and> same_but n s s' \<and> P s s'))"

lemma read_const:
  assumes "gen_ok cg" "cg_fresh_const w cg = Some (r, cg')"
  shows "emitted cg cg' (const_code r w)" "unat r = cg_next_reg cg" "opreg (cg_next_reg cg') r" "cg_next_reg cg \<le> 252"
    "run cx (const_code r w @ ws) s = run cx ws (set_R s r w)" "cg_next_reg cg' = Suc (cg_next_reg cg)"
proof -
  obtain cg1 where a: "cg_alloc_reg cg = Some (r, cg1)" "cg' = emit_all (const_code r w) cg1"
    using assms(2) by (auto simp: cg_fresh_const_def emit_helpers bind_eq_Some_conv)
  note A = alloc_emitted [OF assms(1) a(1)]
  have n: "cg_next_reg cg' = cg_next_reg cg1" unfolding a(2) by (simp add: emit_all_def)
  show "emitted cg cg' (const_code r w)"
    using emitted_trans [OF A(1) emitted_code [OF emittedD(3) [OF A(1)]]] unfolding a(2) by simp
  show "unat r = cg_next_reg cg" "opreg (cg_next_reg cg') r" "cg_next_reg cg \<le> 252" "cg_next_reg cg' = Suc (cg_next_reg cg)"
    using A unfolding n by simp_all
  show "run cx (const_code r w @ ws) s = run cx ws (set_R s r w)" by simp
qed

lemma read_slot:
  assumes "gen_ok cg" "cg_alloc_reg cg = Some (r, cg1)" "cg' = cg_ldw_sp_off r off cg1"
  shows "emitted cg cg' (ldw_code r off)" "unat r = cg_next_reg cg" "opreg (cg_next_reg cg') r" "cg_next_reg cg \<le> 252"
    "vm_ok cx s \<Longrightarrow> in_frame cx s off \<Longrightarrow>
      run cx (ldw_code r off @ ws) s = run cx ws (set_R (sp_scratch off s) r (slot_val s off))"
    "cg_next_reg cg' = Suc (cg_next_reg cg)"
proof -
  note A = alloc_emitted [OF assms(1,2)]
  have c: "cg' = emit_all (ldw_code r off) cg1" unfolding assms(3) by (simp add: emit_helpers)
  have n: "cg_next_reg cg' = cg_next_reg cg1" unfolding c by (simp add: emit_all_def)
  show "emitted cg cg' (ldw_code r off)"
    using emitted_trans [OF A(1) emitted_code [OF emittedD(3) [OF A(1)]]] unfolding c by simp
  show "unat r = cg_next_reg cg" "opreg (cg_next_reg cg') r" "cg_next_reg cg \<le> 252" "cg_next_reg cg' = Suc (cg_next_reg cg)"
    using A unfolding n by simp_all
  show "vm_ok cx s \<Longrightarrow> in_frame cx s off \<Longrightarrow>
      run cx (ldw_code r off @ ws) s = run cx ws (set_R (sp_scratch off s) r (slot_val s off))" by (rule run_ldw)
qed

lemma i64_read_computes:
  assumes "gen_ok cg" "cg_i64_read L v cg = Some (l, h, cg')"
  obtains ws where "emitted cg cg' ws" "opreg (cg_next_reg cg') l" "opreg (cg_next_reg cg') h"
    "computes cg (cg_next_reg cg) ws (\<lambda>(s :: 'h vm) s'. wide_of L cg s v = Some \<lparr>lo = R s' l, hi = R s' h\<rparr>)"
proof (cases "cg_wide_const_words L v")
  case (Some w)
  obtain cl ch where w: "w = (cl, ch)" by (cases w)
  obtain cg1 where c: "cg_fresh_const cl cg = Some (l, cg1)" "cg_fresh_const ch cg1 = Some (h, cg')"
    using assms(2) Some w by (auto simp: cg_i64_read_def bind_eq_Some_conv)
  note A = read_const [OF assms(1) c(1)]
  note B = read_const [OF emittedD(3) [OF A(1)] c(2)]
  let ?ws = "const_code l cl @ const_code h ch"
  have ne: "l \<noteq> h" using A(2,6) B(2) by auto
  have r: "run cx ?ws s = Running (set_R (set_R s l cl) h ch)" for cx :: "'h ctx" and s :: "'h vm"
    using A(5) [of cx "const_code h ch" s] B(5) [of cx "[]" "set_R s l cl"] by simp
  have "computes cg (cg_next_reg cg) ?ws (\<lambda>(s :: 'h vm) s'. wide_of L cg s v = Some \<lparr>lo = R s' l, hi = R s' h\<rparr>)"
    unfolding computes_def
  proof (intro allI impI)
    fix cx :: "'h ctx" and s :: "'h vm"
    have "same_but (cg_next_reg cg) s (set_R (set_R s l cl) h ch)"
      by (intro same_but_set same_but_refl) (use A(2,4,6) B(2,4) in \<open>auto simp: scratch_def\<close>)
    then show "\<exists>s'. run cx ?ws s = Running s' \<and> same_but (cg_next_reg cg) s s'
        \<and> wide_of L cg s v = Some \<lparr>lo = R s' l, hi = R s' h\<rparr>"
      using Some w r [of cx s] ne by (auto simp: wide_of_def)
  qed
  moreover have "opreg (cg_next_reg cg') l" using A(3) B(6) by (simp add: opreg_mono)
  ultimately show ?thesis using that emitted_trans [OF A(1) B(1)] B(3) by blast
next
  case None
  note const = None
  show ?thesis
  proof (cases "LLVMIsUndef L v")
    case True
    have z: "l = CG_REG_ZERO" "h = CG_REG_ZERO" "cg' = cg"
      using assms True const by (auto simp: cg_i64_read_def gen_ok_def)
    have "computes cg (cg_next_reg cg) [] (\<lambda>(s :: 'h vm) s'. wide_of L cg s v = Some \<lparr>lo = R s' l, hi = R s' h\<rparr>)"
      using True const by (auto simp: computes_def wide_of_def z machine_ok_def same_but_refl)
    then show ?thesis using that emitted_refl [OF assms(1)] by (auto simp: z opreg_def)
  next
    case False
    obtain idx off cg1 cg2 where c: "wide_index L cg v = Some idx" "cg_i64_lo_off cg idx = Some off"
      "cg_alloc_reg cg = Some (l, cg1)" "cg_alloc_reg (cg_ldw_sp_off l off cg1) = Some (h, cg2)"
      "cg' = cg_ldw_sp_off h (off + 4) cg2"
      using assms(2) False const by (auto simp: cg_i64_read_def bind_eq_Some_conv)
    note A = read_slot [OF assms(1) c(3), where off = off, OF refl]
    note B = read_slot [OF emittedD(3) [OF A(1)] c(4,5)]
    let ?ws = "ldw_code l off @ ldw_code h (off + 4)"
    have ne: "l \<noteq> h" "l \<noteq> CG_REG_SP" "h \<noteq> CG_REG_SP" "l \<noteq> CG_REG_SCRATCH" "h \<noteq> CG_REG_SCRATCH"
      using A(2,4,6) B(2,4) by (auto simp: CG_REG_SP_def CG_REG_SCRATCH_def)
    have "computes cg (cg_next_reg cg) ?ws (\<lambda>(s :: 'h vm) s'. wide_of L cg s v = Some \<lparr>lo = R s' l, hi = R s' h\<rparr>)"
      unfolding computes_def
    proof (intro allI impI)
      fix cx :: "'h ctx" and s :: "'h vm" assume ok: "machine_ok cx cg s"
      note F = pair_in_frame [OF ok c(1,2)]
      have vm: "vm_ok cx s" using ok by (simp add: machine_ok_def)
      let ?s1 = "set_R (sp_scratch off s) l (slot_val s off)"
      let ?s2 = "set_R (sp_scratch (off + 4) ?s1) h (slot_val s (off + 4))"
      have "run cx ?ws s = run cx (ldw_code h (off + 4)) ?s1" by (rule A(5) [OF vm F(1)])
      also have "\<dots> = Running ?s2"
        using B(5) [of cx ?s1 "[]"] vm F(2) ne scratch_sp by simp
      finally have r: "run cx ?ws s = Running ?s2" .
      have "same_but (cg_next_reg cg) s ?s2"
        by (intro same_but_set same_but_refl) (use A(2,4,6) B(2,4) in \<open>auto simp: scratch_def\<close>)
      moreover have "wide_of L cg s v = Some \<lparr>lo = R ?s2 l, hi = R ?s2 h\<rparr>"
        using const False c(1,2) ne by (simp add: wide_of_def slot_pair_def)
      ultimately show "\<exists>s'. run cx ?ws s = Running s' \<and> same_but (cg_next_reg cg) s s'
          \<and> wide_of L cg s v = Some \<lparr>lo = R s' l, hi = R s' h\<rparr>" using r by blast
    qed
    moreover have "opreg (cg_next_reg cg') l" using A(3) B(6) by (simp add: opreg_mono)
    ultimately show ?thesis using that emitted_trans [OF A(1) B(1)] B(3) by blast
  qed
qed

lemma computes_seq:
  assumes "computes cg n ws P" "emitted cg cg1 ws" "computes cg1 m vs Q" "n \<le> m"
    "\<And>s s1 s2. P s s1 \<Longrightarrow> Q s1 s2 \<Longrightarrow> same_but n s s1 \<Longrightarrow> same_but m s1 s2 \<Longrightarrow> T s s2"
  shows "computes cg n (ws @ vs) T"
  unfolding computes_def
proof (intro allI impI)
  fix cx :: "'c ctx" and s :: "'c vm" assume ok: "machine_ok cx cg s"
  obtain s1 where s1: "run cx ws s = Running s1" "same_but n s s1" "P s s1"
    using assms(1) ok by (auto simp: computes_def)
  have "machine_ok cx cg1 s1" using ok by (simp add: same_but_same(2) [OF s1(2)] emitted_same(5) [OF assms(2)])
  then obtain s2 where s2: "run cx vs s1 = Running s2" "same_but m s1 s2" "Q s1 s2"
    using assms(3) by (auto simp: computes_def)
  then show "\<exists>s'. run cx (ws @ vs) s = Running s' \<and> same_but n s s' \<and> T s s'"
    using s1 assms(4,5) by (auto simp: run_append intro: same_but_trans)
qed

lemma read2_computes:
  assumes "gen_ok cg" "cg_i64_read L a cg = Some (al, ah, cg1)" "cg_i64_read L b cg1 = Some (bl, bh, cg2)"
  obtains ws where "emitted cg cg2 ws" "opreg (cg_next_reg cg2) al" "opreg (cg_next_reg cg2) ah"
    "opreg (cg_next_reg cg2) bl" "opreg (cg_next_reg cg2) bh"
    "computes cg (cg_next_reg cg) ws (\<lambda>(s :: 'h vm) s'. wide_of L cg s a = Some \<lparr>lo = R s' al, hi = R s' ah\<rparr>
      \<and> wide_of L cg s b = Some \<lparr>lo = R s' bl, hi = R s' bh\<rparr>)"
proof -
  obtain ws where A: "emitted cg cg1 ws" "opreg (cg_next_reg cg1) al" "opreg (cg_next_reg cg1) ah"
    "computes cg (cg_next_reg cg) ws (\<lambda>(s :: 'h vm) s'. wide_of L cg s a = Some \<lparr>lo = R s' al, hi = R s' ah\<rparr>)"
    by (rule i64_read_computes [OF assms(1,2)])
  obtain vs where B: "emitted cg1 cg2 vs" "opreg (cg_next_reg cg2) bl" "opreg (cg_next_reg cg2) bh"
    "computes cg1 (cg_next_reg cg1) vs (\<lambda>(s :: 'h vm) s'. wide_of L cg1 s b = Some \<lparr>lo = R s' bl, hi = R s' bh\<rparr>)"
    by (rule i64_read_computes [OF emittedD(3) [OF A(1)] assms(3)])
  have "computes cg (cg_next_reg cg) (ws @ vs) (\<lambda>(s :: 'h vm) s'. wide_of L cg s a = Some \<lparr>lo = R s' al, hi = R s' ah\<rparr>
      \<and> wide_of L cg s b = Some \<lparr>lo = R s' bl, hi = R s' bh\<rparr>)"
  proof (rule computes_seq [OF A(4) A(1) B(4) emittedD(2) [OF A(1)]])
    fix s s1 s2 :: "'h vm"
    assume 1: "wide_of L cg s a = Some \<lparr>lo = R s1 al, hi = R s1 ah\<rparr>"
      and 2: "wide_of L cg1 s1 b = Some \<lparr>lo = R s2 bl, hi = R s2 bh\<rparr>"
      and b: "same_but (cg_next_reg cg) s s1" "same_but (cg_next_reg cg1) s1 s2"
    have "R s2 al = R s1 al" "R s2 ah = R s1 ah"
      using same_butD(1) [OF b(2)] opreg_not_scratch A(2,3) by blast+
    then show "wide_of L cg s a = Some \<lparr>lo = R s2 al, hi = R s2 ah\<rparr> \<and> wide_of L cg s b = Some \<lparr>lo = R s2 bl, hi = R s2 bh\<rparr>"
      using 1 2 by (simp add: emitted_same(4) [OF A(1)] same_but_same(1) [OF b(1)])
  qed
  then show ?thesis
    using that emitted_trans [OF A(1) B(1)] opreg_mono [OF _ emittedD(2) [OF B(1)]] A(2,3) B(2,3) by blast
qed

section \<open>Writing the result\<close>

text \<open>The state after an instruction with the result \<open>x\<close> at frame offset \<open>off\<close>.\<close>

definition defines_pair :: "nat \<Rightarrow> u32 \<Rightarrow> cvm_i64 \<Rightarrow> 'h ctx \<Rightarrow> 'h vm \<Rightarrow> 'h vm \<Rightarrow> bool" where
  "defines_pair n off x cx s s' \<longleftrightarrow> vm_ok cx s' \<and> vm_host s' = vm_host s \<and> (\<forall>r. \<not> scratch n r \<longrightarrow> R s' r = R s r)
     \<and> agree_outside (heap_of s) (heap_of s') (slot_addr s off) 8 \<and> slot_pair s' off = x"

lemma write_defines:
  assumes "gen_ok cg" "cg_i64_write idx l h cg = Some cg'" "wide_index L cg i = Some idx" "opreg n l" "opreg n h"
  obtains off ws where "cg_i64_lo_off cg idx = Some off" "emitted cg cg' ws"
    "\<And>(cx :: 'h ctx) s. machine_ok cx cg s \<Longrightarrow> \<exists>s'. run cx ws s = Running s' \<and> defines_pair n off \<lparr>lo = R s l, hi = R s h\<rparr> cx s s'"
proof -
  obtain off where off: "cg_i64_lo_off cg idx = Some off" "cg' = cg_stw_sp_off (off + 4) h (cg_stw_sp_off off l cg)"
    using assms(2) by (auto simp: cg_i64_write_def)
  let ?ws = "stw_code off l @ stw_code (off + 4) h"
  have e: "emitted cg cg' ?ws" unfolding off(2) by (simp add: emit_helpers emitted_code [OF assms(1)])
  have ne: "l \<noteq> CG_REG_SCRATCH" "h \<noteq> CG_REG_SCRATCH"
    using assms(4,5) opreg_not_scratch sp_not_scratch(3) by metis+
  show ?thesis
  proof (rule that [OF off(1) e])
    fix cx :: "'h ctx" and s :: "'h vm" assume ok: "machine_ok cx cg s"
    note F = pair_in_frame [OF ok assms(3) off(1)]
    have vm: "vm_ok cx s" using ok by (simp add: machine_ok_def)
    let ?a = "sp_scratch off s"
    let ?s1 = "slot_put off (R s l) ?a"
    let ?b = "sp_scratch (off + 4) ?s1"
    let ?s2 = "slot_put (off + 4) (R s h) ?b"
    have a: "vm_ok cx ?a" "in_frame cx ?a off" "in_frame cx ?a (off + 4)" using vm F scratch_sp by simp_all
    note P = slot_put_ok [OF a(1,2), of "R s l"]
    have b: "vm_ok cx ?b" "in_frame cx ?b off" "in_frame cx ?b (off + 4)" using P(1) F scratch_sp by simp_all
    note Q = slot_put_ok [OF b(1,3), of "R s h"]
    have "run cx ?ws s = run cx (stw_code (off + 4) h) ?s1" by (rule run_stw [OF vm F(1) ne(1)])
    also have "\<dots> = Running ?s2"
      using run_stw [of cx ?s1 "off + 4" h "[]"] P(1) F(2) ne(2) scratch_sp by simp
    finally have r: "run cx ?ws s = Running ?s2" .
    have "slot_val ?s2 off = slot_val ?b off"
      by (rule slot_put_other [OF b(1,3,2)]) (simp add: F(3))
    then have pair: "slot_pair ?s2 off = \<lparr>lo = R s l, hi = R s h\<rparr>"
      unfolding slot_pair_def using P(2) Q(2) scratch_sp by simp
    have sa: "slot_addr ?a off = slot_addr s off" "slot_addr ?b (off + 4) = slot_addr s off + 4"
      using scratch_sp slot_addr_eq [OF F(1)] slot_addr_eq [OF F(2)] F(3) by simp_all
    have "agree_outside (heap_of s) (heap_of ?s1) (slot_addr s off) 8"
      using agree_widen [OF P(3), of "slot_addr s off" 8] sa by simp
    moreover have "agree_outside (heap_of ?s1) (heap_of ?s2) (slot_addr s off) 8"
      using agree_widen [OF Q(3), of "slot_addr s off" 8] sa by simp
    ultimately have agr: "agree_outside (heap_of s) (heap_of ?s2) (slot_addr s off) 8" by (rule agree_trans)
    have regs: "\<forall>r. \<not> scratch n r \<longrightarrow> R ?s2 r = R s r" using sp_not_scratch(3) by auto
    show "\<exists>s'. run cx ?ws s = Running s' \<and> defines_pair n off \<lparr>lo = R s l, hi = R s h\<rparr> cx s s'"
      unfolding defines_pair_def using r Q(1) regs agr pair by auto
  qed
qed

text \<open>Operands, then the operation, then the slots.\<close>

lemma op_defines:
  assumes "gen_ok cg" "emitted cg cg1 ws" "computes cg (cg_next_reg cg) ws (\<lambda>(s :: 'h vm) s'. F s = Some \<lparr>lo = R s' l, hi = R s' h\<rparr>)"
    "cg_i64_write idx l h cg1 = Some cg'" "wide_index L cg i = Some idx" "opreg n l" "opreg n h" "cg_next_reg cg \<le> n"
  obtains off vs where "cg_i64_lo_off cg idx = Some off" "emitted cg cg' vs"
    "\<And>(cx :: 'h ctx) s. machine_ok cx cg s \<Longrightarrow> \<exists>s' x. run cx vs s = Running s' \<and> F s = Some x
      \<and> defines_pair (cg_next_reg cg) off x cx s s'"
proof -
  have w: "wide_index L cg1 i = Some idx" using assms(5) by (simp add: emitted_same(1) [OF assms(2)])
  obtain off vs where W: "cg_i64_lo_off cg1 idx = Some off" "emitted cg1 cg' vs"
    "\<And>(cx :: 'h ctx) s. machine_ok cx cg1 s \<Longrightarrow> \<exists>s'. run cx vs s = Running s' \<and> defines_pair n off \<lparr>lo = R s l, hi = R s h\<rparr> cx s s'"
    using write_defines [OF emittedD(3) [OF assms(2)] assms(4) w assms(6,7), where ?'h = 'h] by metis
  show ?thesis
  proof (rule that [OF _ emitted_trans [OF assms(2) W(2)]])
    show "cg_i64_lo_off cg idx = Some off" using W(1) by (simp add: emitted_same(2) [OF assms(2)])
    fix cx :: "'h ctx" and s :: "'h vm" assume ok: "machine_ok cx cg s"
    obtain s1 where s1: "run cx ws s = Running s1" "same_but (cg_next_reg cg) s s1" "F s = Some \<lparr>lo = R s1 l, hi = R s1 h\<rparr>"
      using assms(3) ok by (auto simp: computes_def)
    have "machine_ok cx cg1 s1" using ok by (simp add: same_but_same(2) [OF s1(2)] emitted_same(5) [OF assms(2)])
    then obtain s2 where s2: "run cx vs s1 = Running s2" "defines_pair n off \<lparr>lo = R s1 l, hi = R s1 h\<rparr> cx s1 s2"
      using W(3) by blast
    have "scratch n r \<Longrightarrow> scratch (cg_next_reg cg) r" for r using assms(8) by (auto simp: scratch_def)
    then have "defines_pair (cg_next_reg cg) off \<lparr>lo = R s1 l, hi = R s1 h\<rparr> cx s s2"
      using s2(2) same_butD [OF s1(2)] unfolding defines_pair_def by metis
    then show "\<exists>s' x. run cx (ws @ vs) s = Running s' \<and> F s = Some x \<and> defines_pair (cg_next_reg cg) off x cx s s'"
      using s1 s2(1) by (simp add: run_append)
  qed
qed

end
