(* ===== verification/Wide_Ops.thy ===== *)
theory Wide_Ops
  imports Wide_Correct
begin

text \<open>
  The inline lowerings of 64-bit additions, subtractions, products, bitwise operations and constant shifts
  compute these operations.
\<close>

section \<open>Two operands and an operation\<close>

definition combine ::
  "(cvm_i64 \<Rightarrow> cvm_i64 \<Rightarrow> cvm_i64) \<Rightarrow> ('v, 't, 'b) llvm \<Rightarrow> ('b, 'v) gen \<Rightarrow> 'v \<Rightarrow> 'v \<Rightarrow> 'h vm \<Rightarrow> cvm_i64 option" where
  "combine f L cg a b s = (case (wide_of L cg s a, wide_of L cg s b) of (Some x, Some y) \<Rightarrow> Some (f x y) | _ \<Rightarrow> None)"

lemma bin_defines:
  assumes "gen_ok cg" "cg_i64_read L a cg = Some (al, ah, cg1)" "cg_i64_read L b cg1 = Some (bl, bh, cg2)"
    "emitted cg2 cg3 vs"
    "computes cg2 (cg_next_reg cg2) vs (\<lambda>(s :: 'h vm) s'. \<lparr>lo = R s' l, hi = R s' h\<rparr>
      = f \<lparr>lo = R s al, hi = R s ah\<rparr> \<lparr>lo = R s bl, hi = R s bh\<rparr>)"
    "cg_i64_write idx l h cg3 = Some cg'" "wide_index L cg i = Some idx"
    "opreg (cg_next_reg cg3) l" "opreg (cg_next_reg cg3) h"
  shows "\<exists>off ws. cg_i64_lo_off cg idx = Some off \<and> emitted cg cg' ws \<and>
    (\<forall>(cx :: 'h ctx) s. machine_ok cx cg s \<longrightarrow> (\<exists>s' x. run cx ws s = Running s' \<and> combine f L cg a b s = Some x
      \<and> defines_pair (cg_next_reg cg) off x cx s s'))"
proof -
  obtain ws where A: "emitted cg cg2 ws"
    "computes cg (cg_next_reg cg) ws (\<lambda>(s :: 'h vm) s'. wide_of L cg s a = Some \<lparr>lo = R s' al, hi = R s' ah\<rparr>
      \<and> wide_of L cg s b = Some \<lparr>lo = R s' bl, hi = R s' bh\<rparr>)"
    by (rule read2_computes [OF assms(1-3)])
  have c: "computes cg (cg_next_reg cg) (ws @ vs) (\<lambda>(s :: 'h vm) s'. combine f L cg a b s = Some \<lparr>lo = R s' l, hi = R s' h\<rparr>)"
    by (rule computes_seq [OF A(2,1) assms(5) emittedD(2) [OF A(1)]]) (simp add: combine_def)
  have n: "cg_next_reg cg \<le> cg_next_reg cg3" using emittedD(2) [OF A(1)] emittedD(2) [OF assms(4)] by simp
  show ?thesis
    using op_defines [OF assms(1) emitted_trans [OF A(1) assms(4)] c assms(6,7,8,9) n] by metis
qed

section \<open>The instruction sequences\<close>

lemma emitted_alloc2:
  assumes "gen_ok cg" "cg_alloc_reg cg = Some (r, cg1)" "cg_alloc_reg cg1 = Some (q, cg2)"
  shows "emitted cg cg2 []" "unat r = cg_next_reg cg" "unat q = Suc (cg_next_reg cg)"
    "cg_next_reg cg2 = Suc (Suc (cg_next_reg cg))" "Suc (cg_next_reg cg) \<le> 252"
proof -
  note A = alloc_emitted [OF assms(1,2)]
  note B = alloc_emitted [OF emittedD(3) [OF A(1)] assms(3)]
  show "emitted cg cg2 []" using emitted_trans [OF A(1) B(1)] by simp
  show "unat r = cg_next_reg cg" "unat q = Suc (cg_next_reg cg)"
    "cg_next_reg cg2 = Suc (Suc (cg_next_reg cg))" "Suc (cg_next_reg cg) \<le> 252" using A B by simp_all
qed

text \<open>A sequence of register operations: its run is a state, the state differs in scratch registers only.\<close>

lemma computesI:
  assumes "\<And>cx s. run cx ws s = Running (F s)" "\<And>s. same_but n s (F s)" "\<And>s. R s CG_REG_ZERO = 0 \<Longrightarrow> P s (F s)"
  shows "computes cg n ws P"
  using assms unfolding computes_def machine_ok_def by auto

lemma bool32_carry: "bool32 p = (if p then 1 else 0)"
  by (simp add: bool32_def)

lemma add_computes:
  assumes "gen_ok cg" "opreg (cg_next_reg cg) al" "opreg (cg_next_reg cg) ah" "opreg (cg_next_reg cg) bl"
    "opreg (cg_next_reg cg) bh" "unat l = cg_next_reg cg" "unat h = Suc (cg_next_reg cg)" "unat c = Suc (Suc (cg_next_reg cg))"
    "Suc (Suc (cg_next_reg cg)) \<le> 252"
  shows "\<exists>vs. add_words l h c al ah bl bh cg' = emit_all vs cg' \<and> straight vs \<and>
    computes cg (cg_next_reg cg) vs (\<lambda>s s'. \<lparr>lo = R s' l, hi = R s' h\<rparr>
      = cvm_i64_add \<lparr>lo = R s al, hi = R s ah\<rparr> \<lparr>lo = R s bl, hi = R s bh\<rparr>)"
    "\<exists>vs. sub_words l h c al ah bl bh cg' = emit_all vs cg' \<and> straight vs \<and>
    computes cg (cg_next_reg cg) vs (\<lambda>s s'. \<lparr>lo = R s' l, hi = R s' h\<rparr>
      = cvm_i64_sub \<lparr>lo = R s al, hi = R s ah\<rparr> \<lparr>lo = R s bl, hi = R s bh\<rparr>)"
proof -
  note ne = opreg_fresh [OF assms(2)] opreg_fresh [OF assms(3)] opreg_fresh [OF assms(4)] opreg_fresh [OF assms(5)]
  have ops: "al \<noteq> l" "al \<noteq> h" "al \<noteq> c" "ah \<noteq> l" "ah \<noteq> h" "ah \<noteq> c" "bl \<noteq> l" "bl \<noteq> h" "bl \<noteq> c" "bh \<noteq> l" "bh \<noteq> h" "bh \<noteq> c"
    "l \<noteq> h" "l \<noteq> c" "h \<noteq> c" "h \<noteq> l" "c \<noteq> l" "c \<noteq> h" using assms(6-9) ne by auto
  have sc: "scratch (cg_next_reg cg) l" "scratch (cg_next_reg cg) h" "scratch (cg_next_reg cg) c"
    using assms(6-9) by (simp_all add: scratch_def)
  let ?a = "[enc_r (op_value CVM_OP_ADD) l al bl, enc_r (op_value CVM_OP_CMP_LTU) c l al,
    enc_r (op_value CVM_OP_ADD) h ah bh, enc_r (op_value CVM_OP_ADD) h h c]"
  let ?s = "[enc_r (op_value CVM_OP_CMP_LTU) c al bl, enc_r (op_value CVM_OP_SUB) l al bl,
    enc_r (op_value CVM_OP_SUB) h ah bh, enc_r (op_value CVM_OP_SUB) h h c]"
  have "computes cg (cg_next_reg cg) ?a (\<lambda>s s'. \<lparr>lo = R s' l, hi = R s' h\<rparr>
      = cvm_i64_add \<lparr>lo = R s al, hi = R s ah\<rparr> \<lparr>lo = R s bl, hi = R s bh\<rparr>)"
    by (rule computesI, simp, intro same_but_set same_but_refl sc)
      (use ops in \<open>simp add: cvm_i64_add_def Let_def bool32_carry\<close>)
  then show "\<exists>vs. add_words l h c al ah bl bh cg' = emit_all vs cg' \<and> straight vs \<and>
    computes cg (cg_next_reg cg) vs (\<lambda>s s'. \<lparr>lo = R s' l, hi = R s' h\<rparr>
      = cvm_i64_add \<lparr>lo = R s al, hi = R s ah\<rparr> \<lparr>lo = R s bl, hi = R s bh\<rparr>)"
    by (intro exI [of _ ?a]) (simp add: add_words_def emit_all_one [of _ cg'] straight_ops_def)
  have "computes cg (cg_next_reg cg) ?s (\<lambda>s s'. \<lparr>lo = R s' l, hi = R s' h\<rparr>
      = cvm_i64_sub \<lparr>lo = R s al, hi = R s ah\<rparr> \<lparr>lo = R s bl, hi = R s bh\<rparr>)"
    by (rule computesI, simp, intro same_but_set same_but_refl sc)
      (use ops in \<open>simp add: cvm_i64_sub_def Let_def bool32_carry\<close>)
  then show "\<exists>vs. sub_words l h c al ah bl bh cg' = emit_all vs cg' \<and> straight vs \<and>
    computes cg (cg_next_reg cg) vs (\<lambda>s s'. \<lparr>lo = R s' l, hi = R s' h\<rparr>
      = cvm_i64_sub \<lparr>lo = R s al, hi = R s ah\<rparr> \<lparr>lo = R s bl, hi = R s bh\<rparr>)"
    by (intro exI [of _ ?s]) (simp add: sub_words_def emit_all_one [of _ cg'] straight_ops_def)
qed

lemma logic_computes:
  assumes "opreg (cg_next_reg cg) al" "opreg (cg_next_reg cg) ah" "opreg (cg_next_reg cg) bl"
    "opreg (cg_next_reg cg) bh" "unat l = cg_next_reg cg" "unat h = Suc (cg_next_reg cg)" "Suc (cg_next_reg cg) \<le> 252"
    "(op, f) \<in> {(CVM_OP_AND, cvm_i64_and), (CVM_OP_OR, cvm_i64_or), (CVM_OP_XOR, cvm_i64_xor)}"
  shows "\<exists>vs. cg_emit (enc_r (op_value op) h ah bh) (cg_emit (enc_r (op_value op) l al bl) cg') = emit_all vs cg' \<and> straight vs \<and>
    computes cg (cg_next_reg cg) vs (\<lambda>s s'. \<lparr>lo = R s' l, hi = R s' h\<rparr>
      = f \<lparr>lo = R s al, hi = R s ah\<rparr> \<lparr>lo = R s bl, hi = R s bh\<rparr>)"
proof -
  note ne = opreg_fresh [OF assms(2)] opreg_fresh [OF assms(4)]
  have ops: "ah \<noteq> l" "bh \<noteq> l" "l \<noteq> h" "h \<noteq> l" using assms(5-7) ne by auto
  have sc: "scratch (cg_next_reg cg) l" "scratch (cg_next_reg cg) h" using assms(5-7) by (simp_all add: scratch_def)
  let ?a = "[enc_r (op_value op) l al bl, enc_r (op_value op) h ah bh]"
  have "computes cg (cg_next_reg cg) ?a (\<lambda>s s'. \<lparr>lo = R s' l, hi = R s' h\<rparr>
      = f \<lparr>lo = R s al, hi = R s ah\<rparr> \<lparr>lo = R s bl, hi = R s bh\<rparr>)"
    using assms(8)
    by (elim insertE emptyE; simp only: prod.inject; elim conjE; hypsubst; intro computesI; (simp; fail)?;
        (intro same_but_set same_but_refl sc; fail)?)
      (simp_all add: ops cvm_i64_and_def cvm_i64_or_def cvm_i64_xor_def)
  moreover have "straight ?a" using assms(8) by (auto simp: straight_ops_def)
  ultimately show ?thesis by (intro exI [of _ ?a]) (simp add: emit_all_one [of _ cg'])
qed

lemma mul_computes:
  assumes "opreg (cg_next_reg cg) al" "opreg (cg_next_reg cg) ah" "opreg (cg_next_reg cg) bl"
    "opreg (cg_next_reg cg) bh" "unat l = cg_next_reg cg" "unat h = Suc (cg_next_reg cg)" "unat t = Suc (Suc (cg_next_reg cg))"
    "Suc (Suc (cg_next_reg cg)) \<le> 252"
  shows "computes cg (cg_next_reg cg) [enc_r (op_value CVM_OP_MUL) l al bl, enc_r (op_value CVM_OP_MULHU) h al bl,
      enc_r (op_value CVM_OP_MUL) t al bh, enc_r (op_value CVM_OP_ADD) h h t,
      enc_r (op_value CVM_OP_MUL) t ah bl, enc_r (op_value CVM_OP_ADD) h h t] (\<lambda>s s'. \<lparr>lo = R s' l, hi = R s' h\<rparr>
    = cvm_u64_mul \<lparr>lo = R s al, hi = R s ah\<rparr> \<lparr>lo = R s bl, hi = R s bh\<rparr>)"
proof -
  note ne = opreg_fresh [OF assms(1)] opreg_fresh [OF assms(2)] opreg_fresh [OF assms(3)] opreg_fresh [OF assms(4)]
  have ops: "al \<noteq> l" "al \<noteq> h" "al \<noteq> t" "ah \<noteq> l" "ah \<noteq> h" "ah \<noteq> t" "bl \<noteq> l" "bl \<noteq> h" "bl \<noteq> t" "bh \<noteq> l" "bh \<noteq> h" "bh \<noteq> t"
    "l \<noteq> h" "l \<noteq> t" "h \<noteq> t" "h \<noteq> l" "t \<noteq> l" "t \<noteq> h" using assms(5-8) ne by auto
  have sc: "scratch (cg_next_reg cg) l" "scratch (cg_next_reg cg) h" "scratch (cg_next_reg cg) t"
    using assms(5-8) by (simp_all add: scratch_def)
  show ?thesis
    by (rule computesI, simp, intro same_but_set same_but_refl sc)
      (use ops in \<open>simp add: cvm_u64_mul_def cvm_mulhu_def Let_def\<close>)
qed

section \<open>Shift amounts\<close>

definition shift_code :: "cvm_opcode \<Rightarrow> u8 \<Rightarrow> u8 \<Rightarrow> nat \<Rightarrow> u32 list" where
  "shift_code op d r n = [enc_i16 (op_value CVM_OP_MOVI) CG_REG_SCRATCH (of_nat n), enc_r (op_value op) d r CG_REG_SCRATCH]"

lemma shift_code_emit: "cg_shift_imm (op_value op) d r n cg = emit_all (shift_code op d r n) cg"
  by (simp add: emit_helpers shift_code_def)

definition shift_fun :: "cvm_opcode \<Rightarrow> nat \<Rightarrow> u32 \<Rightarrow> u32" where
  "shift_fun op n x = (if op = CVM_OP_SHL then push_bit n x else if op = CVM_OP_SHR then drop_bit n x else signed_drop_bit n x)"

definition shift_ops :: "cvm_opcode set" where "shift_ops = {CVM_OP_SHL, CVM_OP_SHR, CVM_OP_SAR}"

lemma straight_shift [simp]: "op \<in> shift_ops \<Longrightarrow> straight (shift_code op d r n)"
  by (auto simp: shift_code_def straight_ops_def shift_ops_def)

lemma amount_word:
  assumes "n < 32"
  shows "unat (scast (of_nat n :: u16) AND 31 :: u32) = n"
proof -
  have "sint (of_nat n :: u16) = int n" using assms by (simp add: signed_of_nat signed_take_bit_int_eq_self)
  then have c: "(scast (of_nat n :: u16) :: u32) = of_nat n" by (metis of_int_sint of_int_of_nat_eq)
  have m: "(31 :: u32) = mask 5" by (simp add: mask_eq_exp_minus_1)
  show ?thesis unfolding c m
    using assms by (simp only: take_bit_eq_mask [symmetric] unsigned_take_bit_eq) (simp add: unat_of_nat take_bit_nat_eq_self)
qed

lemma run_shift [simp]:
  assumes "n < 32" "op \<in> shift_ops" "r \<noteq> CG_REG_SCRATCH"
  shows "run cx (shift_code op d r n @ ws) s
    = run cx ws (set_R (set_R s CG_REG_SCRATCH (scast (of_nat n :: u16))) d (shift_fun op n (R s r)))"
  using assms(2,3) amount_word [OF assms(1)] unfolding shift_ops_def
  by (elim insertE emptyE) (simp_all add: shift_code_def shift_fun_def)

section \<open>Constant shifts\<close>

lemma amount_of_nat:
  assumes "n < 64"
  shows "(of_nat n AND 63 :: u32) = of_nat n" "unat (of_nat n :: u32) = n"
proof -
  show u: "unat (of_nat n :: u32) = n" using assms by (simp add: unat_of_nat take_bit_nat_eq_self)
  show "(of_nat n AND 63 :: u32) = of_nat n"
    using amount [of "of_nat n"] u assms unfolding word_unat_eq_iff by simp
qed

lemma shift_pairs:
  assumes "n < 64"
  shows "cvm_u64_shl x (of_nat n) = (if n = 0 then x else if n \<ge> 32 then \<lparr>lo = 0, hi = push_bit (n - 32) (lo x)\<rparr>
      else \<lparr>lo = push_bit n (lo x), hi = push_bit n (hi x) OR drop_bit (32 - n) (lo x)\<rparr>)"
    "cvm_u64_shr x (of_nat n) = (if n = 0 then x else if n \<ge> 32 then \<lparr>lo = drop_bit (n - 32) (hi x), hi = 0\<rparr>
      else \<lparr>lo = drop_bit n (lo x) OR push_bit (32 - n) (hi x), hi = drop_bit n (hi x)\<rparr>)"
    "cvm_i64_sar x (of_nat n) = (if n = 0 then x
      else if n \<ge> 32 then \<lparr>lo = signed_drop_bit (n - 32) (hi x), hi = signed_drop_bit 31 (hi x)\<rparr>
      else \<lparr>lo = drop_bit n (lo x) OR push_bit (32 - n) (hi x), hi = signed_drop_bit n (hi x)\<rparr>)"
proof -
  note A = amount_of_nat [OF assms]
  have z: "(of_nat n :: u32) = 0 \<longleftrightarrow> n = 0" "(32 :: u32) \<le> of_nat n \<longleftrightarrow> 32 \<le> n"
    using A(2) by (simp_all add: word_unat_eq_iff unat_le_iff)
  have s: "n \<ge> 32 \<Longrightarrow> unat (of_nat n - 32 :: u32) = n - 32" "\<not> n \<ge> 32 \<Longrightarrow> unat (32 - of_nat n :: u32) = 32 - n"
    using A(2) by (subst unat_sub_le; simp add: unat_le_iff)+
  show "cvm_u64_shl x (of_nat n) = (if n = 0 then x else if n \<ge> 32 then \<lparr>lo = 0, hi = push_bit (n - 32) (lo x)\<rparr>
      else \<lparr>lo = push_bit n (lo x), hi = push_bit n (hi x) OR drop_bit (32 - n) (lo x)\<rparr>)"
    "cvm_u64_shr x (of_nat n) = (if n = 0 then x else if n \<ge> 32 then \<lparr>lo = drop_bit (n - 32) (hi x), hi = 0\<rparr>
      else \<lparr>lo = drop_bit n (lo x) OR push_bit (32 - n) (hi x), hi = drop_bit n (hi x)\<rparr>)"
    "cvm_i64_sar x (of_nat n) = (if n = 0 then x
      else if n \<ge> 32 then \<lparr>lo = signed_drop_bit (n - 32) (hi x), hi = signed_drop_bit 31 (hi x)\<rparr>
      else \<lparr>lo = drop_bit n (lo x) OR push_bit (32 - n) (hi x), hi = signed_drop_bit n (hi x)\<rparr>)"
    unfolding cvm_u64_shl_def cvm_u64_shr_def cvm_i64_sar_def A(1) Let_def z A(2) using s by (cases "32 \<le> n"; simp)+
qed

lemma emitted_shift: "gen_ok cg \<Longrightarrow> op \<in> shift_ops \<Longrightarrow> emitted cg (emit_all (shift_code op d r n) cg) (shift_code op d r n)"
  by (rule emitted_code) simp_all

lemma opreg_fresh2: "gen_ok cg \<Longrightarrow> unat r < cg_next_reg cg \<Longrightarrow> unat r \<le> 252 \<Longrightarrow> opreg (cg_next_reg cg) r"
  by (simp add: opreg_def)

lemma emit_one: "gen_ok cg \<Longrightarrow> straight [w] \<Longrightarrow> emitted cg (cg_emit w cg) [w]"
  unfolding emit_all_one by (rule emitted_code)

text \<open>The shift by less than a word: two parts of one result word, and the other word.\<close>

lemma shift_small:
  assumes "gen_ok cg" "opreg (cg_next_reg cg) a" "opreg (cg_next_reg cg) b" "0 < n" "n < 32"
    "op1 \<in> shift_ops" "op2 \<in> shift_ops" "op3 \<in> shift_ops"
    "cg_alloc_reg cg = Some (t1, cg1)" "cg_alloc_reg cg1 = Some (t2, cg2)" "cg_alloc_reg cg2 = Some (x, cg3)"
    "cg_alloc_reg cg3 = Some (y, cg4)"
    "cg' = cg_shift_imm (op_value op3) y b n (cg_emit (enc_r (op_value CVM_OP_OR) x t1 t2)
      (cg_shift_imm (op_value op2) t2 b (32 - n) (cg_shift_imm (op_value op1) t1 a n cg4)))"
  shows "\<exists>vs. emitted cg cg' vs \<and> opreg (cg_next_reg cg') x \<and> opreg (cg_next_reg cg') y
    \<and> computes cg (cg_next_reg cg) vs (\<lambda>(s :: 'h vm) s'. R s' x = shift_fun op1 n (R s a) OR shift_fun op2 (32 - n) (R s b)
      \<and> R s' y = shift_fun op3 n (R s b))"
proof -
  note A = emitted_alloc2 [OF assms(1,9,10)]
  note B = emitted_alloc2 [OF emittedD(3) [OF A(1)] assms(11,12)]
  have ok4: "gen_ok cg4" by (rule emittedD(3) [OF B(1)])
  let ?vs = "shift_code op1 t1 a n @ shift_code op2 t2 b (32 - n) @ [enc_r (op_value CVM_OP_OR) x t1 t2] @ shift_code op3 y b n"
  have cg': "cg' = emit_all ?vs cg4" unfolding assms(13) shift_code_emit by (simp add: emit_all_one)
  have e: "emitted cg cg' ?vs"
    using emitted_trans [OF emitted_trans [OF A(1) B(1)] emitted_code [OF ok4, of ?vs]] assms(6-8)
    unfolding cg' by (simp add: straight_ops_def)
  have n': "cg_next_reg cg' = Suc (Suc (Suc (Suc (cg_next_reg cg))))" unfolding cg' using A(4) B(4) by (simp add: emit_all_def)
  have u: "unat t1 = cg_next_reg cg" "unat t2 = Suc (cg_next_reg cg)" "unat x = Suc (Suc (cg_next_reg cg))"
    "unat y = Suc (Suc (Suc (cg_next_reg cg)))" "Suc (Suc (Suc (cg_next_reg cg))) \<le> 252" using A B by simp_all
  have ops: "a \<noteq> t1" "a \<noteq> t2" "a \<noteq> x" "a \<noteq> y" "b \<noteq> t1" "b \<noteq> t2" "b \<noteq> x" "b \<noteq> y" "t1 \<noteq> t2" "t1 \<noteq> x" "t1 \<noteq> y" "t2 \<noteq> x" "t2 \<noteq> y" "x \<noteq> y"
    "t2 \<noteq> t1" "x \<noteq> t1" "x \<noteq> t2" "y \<noteq> x"
    using u opreg_fresh [OF assms(2)] opreg_fresh [OF assms(3)] by auto
  have ns: "a \<noteq> CG_REG_SCRATCH" "b \<noteq> CG_REG_SCRATCH" "t1 \<noteq> CG_REG_SCRATCH" "t2 \<noteq> CG_REG_SCRATCH"
    "x \<noteq> CG_REG_SCRATCH" "y \<noteq> CG_REG_SCRATCH"
    using u assms(2,3) by (auto simp: opreg_def CG_REG_SCRATCH_def CG_REG_ZERO_def)
  have sc: "scratch (cg_next_reg cg) t1" "scratch (cg_next_reg cg) t2" "scratch (cg_next_reg cg) x" "scratch (cg_next_reg cg) y"
    "scratch (cg_next_reg cg) CG_REG_SCRATCH"
    using u by (simp_all add: scratch_def)
  let ?amt = "\<lambda>k s. set_R s CG_REG_SCRATCH (scast (of_nat k :: u16))"
  let ?F = "\<lambda>s :: 'h vm. set_R (?amt n (set_R (set_R (?amt (32 - n) (set_R (?amt n s) t1 (shift_fun op1 n (R s a))))
      t2 (shift_fun op2 (32 - n) (R s b))) x (shift_fun op1 n (R s a) OR shift_fun op2 (32 - n) (R s b)))) y (shift_fun op3 n (R s b))"
  have "computes cg (cg_next_reg cg) ?vs (\<lambda>(s :: 'h vm) s'. R s' x = shift_fun op1 n (R s a) OR shift_fun op2 (32 - n) (R s b)
      \<and> R s' y = shift_fun op3 n (R s b))"
  proof (rule computesI [of _ ?F])
    fix cx :: "'h ctx" and s :: "'h vm"
    show "run cx ?vs s = Running (?F s)"
      using assms(4) ops ns
      by (simp add: run_shift [OF assms(5,6)] run_shift [OF _ assms(7), of "32 - n"]
          run_shift [OF assms(5,8), where ws = "[]", simplified])
    show "same_but (cg_next_reg cg) s (?F s)" by (intro same_but_set same_but_refl sc)
    show "R (?F s) x = shift_fun op1 n (R s a) OR shift_fun op2 (32 - n) (R s b) \<and> R (?F s) y = shift_fun op3 n (R s b)"
      using ops ns by simp
  qed
  then show ?thesis using e u n' by (intro exI [of _ ?vs]) (simp add: opreg_def)
qed

end
