(* ===== verification/Wide_Shifts.thy ===== *)
theory Wide_Shifts
  imports Wide_Ops
begin

text \<open>
  Constant shifts of 64-bit values, and the theorem on the lowering of 64-bit instructions: run on the
  machine, the code emitted for an instruction leaves its value in the slots of the instruction.
\<close>

section \<open>The cases of a constant shift\<close>

text \<open>The registers \<open>l\<close> and \<open>h\<close> hold \<open>f\<close> of the pair in \<open>al\<close> and \<open>ah\<close>.\<close>

definition shifts_to ::
  "(cvm_i64 \<Rightarrow> cvm_i64) \<Rightarrow> u8 \<Rightarrow> u8 \<Rightarrow> ('b, 'v) gen \<Rightarrow> u8 \<Rightarrow> u8 \<Rightarrow> ('b, 'v) gen \<Rightarrow> 'h itself \<Rightarrow> bool" where
  "shifts_to f al ah cg l h cg' tp \<longleftrightarrow> (\<exists>vs. emitted cg cg' vs \<and> opreg (cg_next_reg cg') l \<and> opreg (cg_next_reg cg') h
    \<and> computes cg (cg_next_reg cg) vs (\<lambda>(s :: 'h vm) s'. \<lparr>lo = R s' l, hi = R s' h\<rparr> = f \<lparr>lo = R s al, hi = R s ah\<rparr>))"

lemma shift_one:
  assumes "gen_ok cg" "opreg (cg_next_reg cg) a" "n < 32" "op \<in> shift_ops" "cg_alloc_reg cg = Some (r, cg1)"
    "cg' = cg_shift_imm (op_value op) r a n cg1"
  obtains vs where "emitted cg cg' vs" "unat r = cg_next_reg cg" "opreg (cg_next_reg cg') r"
    "computes cg (cg_next_reg cg) vs (\<lambda>(s :: 'h vm) s'. R s' r = shift_fun op n (R s a) \<and> R s' CG_REG_ZERO = 0)"
proof -
  note A = alloc_emitted [OF assms(1,5)]
  have cg': "cg' = emit_all (shift_code op r a n) cg1" unfolding assms(6) shift_code_emit ..
  have e: "emitted cg cg' (shift_code op r a n)"
    using emitted_trans [OF A(1) emitted_shift [OF emittedD(3) [OF A(1)] assms(4)]] unfolding cg' by simp
  have ne: "r \<noteq> CG_REG_SCRATCH" "a \<noteq> CG_REG_SCRATCH" "a \<noteq> r" "r \<noteq> CG_REG_ZERO"
    using A(2,5) assms(2) by (auto simp: opreg_def CG_REG_SCRATCH_def CG_REG_ZERO_def)
  have z: "CG_REG_ZERO \<noteq> CG_REG_SCRATCH" by (simp add: CG_REG_SCRATCH_def CG_REG_ZERO_def)
  let ?F = "\<lambda>s :: 'h vm. set_R (set_R s CG_REG_SCRATCH (scast (of_nat n :: u16))) r (shift_fun op n (R s a))"
  have "computes cg (cg_next_reg cg) (shift_code op r a n) (\<lambda>(s :: 'h vm) s'. R s' r = shift_fun op n (R s a) \<and> R s' CG_REG_ZERO = 0)"
  proof (rule computesI [of _ ?F])
    show "run cx (shift_code op r a n) s = Running (?F s)" for cx and s :: "'h vm"
      using run_shift [OF assms(3,4) ne(2), of cx r "[]" s] by simp
    show "same_but (cg_next_reg cg) s (?F s)" for s
      by (intro same_but_set same_but_refl) (use A(2,5) in \<open>simp_all add: scratch_def\<close>)
    show "R (?F s) r = shift_fun op n (R s a) \<and> R (?F s) CG_REG_ZERO = 0" if "R s CG_REG_ZERO = 0" for s :: "'h vm"
      using that ne z by simp
  qed
  moreover have "cg_next_reg cg' = cg_next_reg cg1" unfolding cg' by (simp add: emit_all_def)
  ultimately show ?thesis using that e A(2,4) by simp
qed

lemma opreg_zero: "gen_ok cg \<Longrightarrow> opreg n (cg_zero_reg cg)" "gen_ok cg \<Longrightarrow> cg_zero_reg cg = CG_REG_ZERO"
  by (simp_all add: gen_ok_def opreg_def)

lemma computes_nil:
  assumes "\<And>s. R s CG_REG_ZERO = 0 \<Longrightarrow> P s s"
  shows "computes cg n [] P"
  using assms by (auto simp: computes_def machine_ok_def same_but_refl)

lemma computes_weaken: "computes cg n ws P \<Longrightarrow> (\<And>s s'. P s s' \<Longrightarrow> Q s s') \<Longrightarrow> computes cg n ws Q"
  unfolding computes_def by blast

lemma shl_shifts:
  assumes "gen_ok cg" "opreg (cg_next_reg cg) al" "opreg (cg_next_reg cg) ah" "n < 64"
    "shl_words n al ah cg = Some (l, h, cg')"
  shows "shifts_to (\<lambda>x. cvm_u64_shl x (of_nat n)) al ah cg l h cg' TYPE('h)"
proof -
  note P = shift_pairs(1) [OF assms(4)]
  consider "n = 0" | "0 < n" "n < 32" | "n = 32" | "32 < n" by linarith
  then show ?thesis
  proof cases
    case 1
    then have "l = al" "h = ah" "cg' = cg" using assms(5) by (auto simp: shl_words_def)
    then show ?thesis unfolding shifts_to_def P using 1 assms(1-3)
      by (intro exI [of _ "[]"]) (auto intro: emitted_refl computes_nil)
  next
    case 2
    obtain t1 t2 cg1 cg2 cg3 cg4 where c: "cg_alloc_reg cg = Some (t1, cg1)" "cg_alloc_reg cg1 = Some (t2, cg2)"
      "cg_alloc_reg cg2 = Some (h, cg3)" "cg_alloc_reg cg3 = Some (l, cg4)"
      "cg' = cg_shift_imm (op_value CVM_OP_SHL) l al n (cg_emit (enc_r (op_value CVM_OP_OR) h t1 t2)
        (cg_shift_imm (op_value CVM_OP_SHR) t2 al (32 - n) (cg_shift_imm (op_value CVM_OP_SHL) t1 ah n cg4)))"
      using assms(5) 2 by (auto simp: shl_words_def bind_eq_Some_conv Let_def)
    obtain vs where v: "emitted cg cg' vs" "opreg (cg_next_reg cg') h" "opreg (cg_next_reg cg') l"
      "computes cg (cg_next_reg cg) vs (\<lambda>(s :: 'h vm) s'. R s' h = shift_fun CVM_OP_SHL n (R s ah) OR shift_fun CVM_OP_SHR (32 - n) (R s al)
        \<and> R s' l = shift_fun CVM_OP_SHL n (R s al))"
      using shift_small [OF assms(1,3,2) 2 _ _ _ c, where ?'h = 'h] by (auto simp: shift_ops_def)
    show ?thesis unfolding shifts_to_def P using 2 v
      by (intro exI [of _ vs]) (auto simp: shift_fun_def elim: computes_weaken)
  next
    case 3
    then have "l = cg_zero_reg cg" "h = al" "cg' = cg" using assms(5) by (auto simp: shl_words_def)
    then show ?thesis unfolding shifts_to_def P using 3 assms(1-3) opreg_zero [OF assms(1)]
      by (intro exI [of _ "[]"]) (auto intro: emitted_refl computes_nil)
  next
    case 4
    obtain cg1 where c: "cg_alloc_reg cg = Some (h, cg1)" "cg' = cg_shift_imm (op_value CVM_OP_SHL) h al (n - 32) cg1"
      "l = cg_zero_reg cg1"
      using assms(5) 4 by (auto simp: shl_words_def bind_eq_Some_conv)
    have l: "l = CG_REG_ZERO" using c(3) opreg_zero(2) [OF emittedD(3) [OF alloc_emitted(1) [OF assms(1) c(1)]]] by simp
    have n: "n - 32 < 32" using assms(4) by simp
    obtain vs where v: "emitted cg cg' vs" "opreg (cg_next_reg cg') h"
      "computes cg (cg_next_reg cg) vs (\<lambda>(s :: 'h vm) s'. R s' h = shift_fun CVM_OP_SHL (n - 32) (R s al) \<and> R s' CG_REG_ZERO = 0)"
      by (rule shift_one [OF assms(1,2) n _ c(1,2)]) (auto simp: shift_ops_def)
    show ?thesis unfolding shifts_to_def P using 4 v
      by (intro exI [of _ vs]) (auto simp: shift_fun_def l opreg_def elim: computes_weaken)
  qed
qed

definition shr_fun :: "bool \<Rightarrow> nat \<Rightarrow> cvm_i64 \<Rightarrow> cvm_i64" where
  "shr_fun ashr n x = (if ashr then cvm_i64_sar x (of_nat n) else cvm_u64_shr x (of_nat n))"

abbreviation fill :: "bool \<Rightarrow> cvm_opcode" where "fill ashr \<equiv> (if ashr then CVM_OP_SAR else CVM_OP_SHR)"

text \<open>The high word of a shift by 32 or more.\<close>

lemma sign_word_shifts:
  assumes "gen_ok cg" "opreg (cg_next_reg cg) ah" "sign_word ashr ah cg = Some (h, cg')"
  obtains vs where "emitted cg cg' vs" "opreg (cg_next_reg cg') h"
    "computes cg (cg_next_reg cg) vs (\<lambda>(s :: 'h vm) s'. R s' h = (if ashr then signed_drop_bit 31 (R s ah) else 0))"
proof (cases ashr)
  case True
  obtain cg1 where c: "cg_alloc_reg cg = Some (h, cg1)" "cg' = cg_shift_imm (op_value CVM_OP_SAR) h ah 31 cg1"
    using assms(3) True by (auto simp: sign_word_def bind_eq_Some_conv)
  obtain vs where "emitted cg cg' vs" "opreg (cg_next_reg cg') h"
    "computes cg (cg_next_reg cg) vs (\<lambda>(s :: 'h vm) s'. R s' h = shift_fun CVM_OP_SAR 31 (R s ah) \<and> R s' CG_REG_ZERO = 0)"
    by (rule shift_one [OF assms(1,2) _ _ c]) (auto simp: shift_ops_def)
  note v = this
  have "computes cg (cg_next_reg cg) vs (\<lambda>(s :: 'h vm) s'. R s' h = (if ashr then signed_drop_bit 31 (R s ah) else 0))"
    by (rule computes_weaken [OF v(3)]) (simp add: shift_fun_def True)
  then show ?thesis by (rule that [OF v(1,2)])
next
  case False
  then have "h = CG_REG_ZERO" "cg' = cg" using assms(3) opreg_zero(2) [OF assms(1)] by (auto simp: sign_word_def)
  then show ?thesis using False by (intro that [of "[]"]) (auto simp: opreg_def intro: emitted_refl [OF assms(1)] computes_nil)
qed

lemma shr_shifts:
  assumes "gen_ok cg" "opreg (cg_next_reg cg) al" "opreg (cg_next_reg cg) ah" "n < 64"
    "shr_words ashr n al ah cg = Some (l, h, cg')"
  shows "shifts_to (shr_fun ashr n) al ah cg l h cg' TYPE('h)"
proof -
  note P = shift_pairs(2,3) [OF assms(4)]
  have fop: "fill ashr \<in> shift_ops" by (simp add: shift_ops_def)
  have sop: "CVM_OP_SHL \<in> shift_ops" "CVM_OP_SHR \<in> shift_ops" by (simp_all add: shift_ops_def)
  have fv: "(if ashr then op_value CVM_OP_SAR else op_value CVM_OP_SHR) = op_value (fill ashr)" by simp
  note D = assms(5) [unfolded shr_words_def Let_def fv]
  consider "n = 0" | "0 < n" "n < 32" | "n = 32" | "32 < n" by linarith
  then show ?thesis
  proof cases
    case 1
    then have "l = al" "h = ah" "cg' = cg" using D by auto
    then show ?thesis unfolding shifts_to_def shr_fun_def P using 1 assms(1-3)
      by (intro exI [of _ "[]"]) (auto intro: emitted_refl computes_nil)
  next
    case 2
    have b: "n \<noteq> 0" "n < 32" using 2 by simp_all
    obtain t1 t2 cg1 cg2 cg3 cg4 where c: "cg_alloc_reg cg = Some (t1, cg1)" "cg_alloc_reg cg1 = Some (t2, cg2)"
      "cg_alloc_reg cg2 = Some (l, cg3)" "cg_alloc_reg cg3 = Some (h, cg4)"
      "cg' = cg_shift_imm (op_value (fill ashr)) h ah n (cg_emit (enc_r (op_value CVM_OP_OR) l t1 t2)
        (cg_shift_imm (op_value CVM_OP_SHL) t2 ah (32 - n) (cg_shift_imm (op_value CVM_OP_SHR) t1 al n cg4)))"
      using D unfolding if_not_P [OF b(1)] if_P [OF b(2)] bind_eq_Some_conv split_paired_Ex prod.case option.inject prod.inject
      by blast
    obtain vs where v: "emitted cg cg' vs \<and> opreg (cg_next_reg cg') l \<and> opreg (cg_next_reg cg') h
      \<and> computes cg (cg_next_reg cg) vs (\<lambda>(s :: 'h vm) s'. R s' l = shift_fun CVM_OP_SHR n (R s al) OR shift_fun CVM_OP_SHL (32 - n) (R s ah)
        \<and> R s' h = shift_fun (fill ashr) n (R s ah))"
      using shift_small [OF assms(1,2,3) 2 sop(2,1) fop c, where ?'h = 'h] by (rule exE)
    have "computes cg (cg_next_reg cg) vs (\<lambda>(s :: 'h vm) s'. \<lparr>lo = R s' l, hi = R s' h\<rparr> = shr_fun ashr n \<lparr>lo = R s al, hi = R s ah\<rparr>)"
      by (rule computes_weaken [OF v [THEN conjunct2, THEN conjunct2, THEN conjunct2]]) (use 2 in \<open>simp add: shr_fun_def P shift_fun_def\<close>)
    then show ?thesis unfolding shifts_to_def using v by blast
  next
    case 3
    have b: "n \<noteq> 0" "\<not> n < 32" using 3 by simp_all
    have lc: "l = ah \<and> sign_word ashr ah cg = Some (h, cg')"
      using D unfolding if_not_P [OF b(1)] if_not_P [OF b(2)] if_P [OF 3] bind_eq_Some_conv split_paired_Ex prod.case
        option.inject prod.inject by blast
    then have l: "l = ah" and c: "sign_word ashr ah cg = Some (h, cg')" by simp_all
    obtain vs where v: "emitted cg cg' vs" "opreg (cg_next_reg cg') h"
      "computes cg (cg_next_reg cg) vs (\<lambda>(s :: 'h vm) s'. R s' h = (if ashr then signed_drop_bit 31 (R s ah) else 0))"
      by (rule sign_word_shifts [OF assms(1,3) c])
    have "computes cg (cg_next_reg cg) vs (\<lambda>(s :: 'h vm) s'. \<lparr>lo = R s' l, hi = R s' h\<rparr> = shr_fun ashr n \<lparr>lo = R s al, hi = R s ah\<rparr>)"
      unfolding computes_def
    proof (intro allI impI)
      fix cx :: "'h ctx" and s :: "'h vm" assume "machine_ok cx cg s"
      then obtain s' where s': "run cx vs s = Running s'" "same_but (cg_next_reg cg) s s'"
        "R s' h = (if ashr then signed_drop_bit 31 (R s ah) else 0)" using v(3) by (auto simp: computes_def)
      have "R s' ah = R s ah" by (rule same_butD(1) [OF s'(2) opreg_not_scratch [OF assms(3)]])
      then show "\<exists>s'. run cx vs s = Running s' \<and> same_but (cg_next_reg cg) s s'
          \<and> \<lparr>lo = R s' l, hi = R s' h\<rparr> = shr_fun ashr n \<lparr>lo = R s al, hi = R s ah\<rparr>"
        unfolding shr_fun_def P l using s' 3 by auto
    qed
    then show ?thesis unfolding shifts_to_def
      using v(1,2) opreg_mono [OF assms(3) emittedD(2) [OF v(1)]] l by blast
  next
    case 4
    have b: "n \<noteq> 0" "\<not> n < 32" "n \<noteq> 32" using 4 by simp_all
    obtain cg1 cg2 where c: "cg_alloc_reg cg = Some (l, cg1)" "cg2 = cg_shift_imm (op_value (fill ashr)) l ah (n - 32) cg1"
      "sign_word ashr ah cg2 = Some (h, cg')"
      using D unfolding if_not_P [OF b(1)] if_not_P [OF b(2)] if_not_P [OF b(3)] bind_eq_Some_conv split_paired_Ex
        prod.case option.inject prod.inject by blast
    have n: "n - 32 < 32" using assms(4) by simp
    obtain vs where v: "emitted cg cg2 vs" "unat l = cg_next_reg cg" "opreg (cg_next_reg cg2) l"
      "computes cg (cg_next_reg cg) vs (\<lambda>(s :: 'h vm) s'. R s' l = shift_fun (fill ashr) (n - 32) (R s ah) \<and> R s' CG_REG_ZERO = 0)"
      by (rule shift_one [OF assms(1,3) n fop c(1,2)])
    note o2 = opreg_mono [OF assms(3) emittedD(2) [OF v(1)]]
    obtain us where u: "emitted cg2 cg' us" "opreg (cg_next_reg cg') h"
      "computes cg2 (cg_next_reg cg2) us (\<lambda>(s :: 'h vm) s'. R s' h = (if ashr then signed_drop_bit 31 (R s ah) else 0))"
      by (rule sign_word_shifts [OF emittedD(3) [OF v(1)] o2 c(3)])
    have "computes cg (cg_next_reg cg) (vs @ us)
        (\<lambda>(s :: 'h vm) s'. \<lparr>lo = R s' l, hi = R s' h\<rparr> = shr_fun ashr n \<lparr>lo = R s al, hi = R s ah\<rparr>)"
    proof (rule computes_seq [OF v(4) v(1) u(3) emittedD(2) [OF v(1)]])
      fix s s1 s2 :: "'h vm"
      assume a: "R s1 l = shift_fun (fill ashr) (n - 32) (R s ah) \<and> R s1 CG_REG_ZERO = 0"
        "R s2 h = (if ashr then signed_drop_bit 31 (R s1 ah) else 0)"
        "same_but (cg_next_reg cg) s s1" "same_but (cg_next_reg cg2) s1 s2"
      have "R s1 ah = R s ah" "R s2 l = R s1 l"
        using same_butD(1) [OF a(3) opreg_not_scratch [OF assms(3)]] same_butD(1) [OF a(4) opreg_not_scratch [OF v(3)]] by auto
      then show "\<lparr>lo = R s2 l, hi = R s2 h\<rparr> = shr_fun ashr n \<lparr>lo = R s al, hi = R s ah\<rparr>"
        unfolding shr_fun_def P using a 4 by (auto simp: shift_fun_def)
    qed
    then show ?thesis unfolding shifts_to_def
      using emitted_trans [OF v(1) u(1)] u(2) opreg_mono [OF v(3) emittedD(2) [OF u(1)]] by blast
  qed
qed

end
