(* ===== verification/Small_Module.thy ===== *)
theory Small_Module
  imports Gen
begin

text \<open>
  Small modules for evaluating the properties on concrete inputs: an instance of the LLVM interface given by
  a list of instructions. All values have the same address, so that the value table's probes collide.
\<close>

record small_inst =
  si_block :: nat
  si_opcode :: LLVMOpcode
  si_width :: nat
  si_operands :: "nat list"
  si_incoming :: "(nat \<times> nat) list"

text \<open>The value \<open>v\<close> is an instruction of the list, an argument if below 1000, or else the 64-bit constant
  \<open>v - 1000\<close>. A type is the width of an integer, 0 is \<open>void\<close>.\<close>

definition small_llvm :: "(nat \<times> small_inst) list \<Rightarrow> (nat \<Rightarrow> nat list) \<Rightarrow> (nat, nat, nat) llvm" where
  "small_llvm insts succ = (let get = map_of insts; is_const = (\<lambda>v. 1000 \<le> v) in
     \<lparr>v_addr = \<lambda>v. 64, value_name = \<lambda>v. '''', LLVMTypeOf = \<lambda>v. case get v of Some i \<Rightarrow> si_width i | None \<Rightarrow> 64,
      LLVMGetTypeKind = \<lambda>t. if t = 0 then LLVMVoidTypeKind else LLVMIntegerTypeKind, LLVMGetIntTypeWidth = \<lambda>t. t,
      LLVMGetElementType = \<lambda>t. t, LLVMGetVectorSize = \<lambda>t. 0,
      LLVMCountStructElementTypes = \<lambda>t. 0, LLVMStructGetTypeAtIndex = \<lambda>t k. t, LLVMOffsetOfElement = \<lambda>t k. 0,
      LLVMABISizeOfType = \<lambda>t. of_nat (t div 8), LLVMIsAInstruction = \<lambda>v. get v \<noteq> None,
      LLVMIsAArgument = \<lambda>v. get v = None \<and> v < 1000, LLVMIsACallInst = \<lambda>v. map_option si_opcode (get v) = Some LLVMCall,
      LLVMIsAConstantInt = is_const, LLVMIsAConstantFP = \<lambda>v. False, LLVMIsAConstantPointerNull = \<lambda>v. False,
      LLVMIsAConstantAggregateZero = \<lambda>v. False, LLVMIsAConstantExpr = \<lambda>v. False, LLVMIsConstant = is_const,
      LLVMIsUndef = \<lambda>v. False, LLVMIsAGlobalVariable = \<lambda>v. False, LLVMIsAGlobalAlias = \<lambda>v. False,
      LLVMIsAFunction = \<lambda>v. False, LLVMAliasGetAliasee = \<lambda>v. v,
      LLVMConstIntGetZExtValue = \<lambda>v. of_nat (v - 1000), LLVMConstIntGetSExtValue = \<lambda>v. of_nat (v - 1000),
      v_real_bits = \<lambda>v. 0, v_real_float_bits = \<lambda>v. 0, LLVMGetConstOpcode = \<lambda>v. LLVMOtherOpcode 0,
      LLVMGetInstructionOpcode = \<lambda>v. case get v of Some i \<Rightarrow> si_opcode i | None \<Rightarrow> LLVMOtherOpcode 0,
      LLVMGetNumOperands = \<lambda>v. case get v of Some i \<Rightarrow> length (si_operands i) | None \<Rightarrow> 0,
      LLVMGetOperand = \<lambda>v k. case get v of Some i \<Rightarrow> si_operands i ! k | None \<Rightarrow> 0,
      LLVMGetAggregateElement = \<lambda>v k. None, LLVMGetNumIndices = \<lambda>v. 0, LLVMGetIndices = \<lambda>v. [],
      LLVMGetGEPSourceElementType = \<lambda>v. None, LLVMGetCalledValue = \<lambda>v. 0,
      LLVMGetAtomicRMWBinOp = \<lambda>v. LLVMAtomicRMWBinOpXchg,
      LLVMIncoming = \<lambda>v. case get v of Some i \<Rightarrow> si_incoming i | None \<Rightarrow> [],
      LLVMInstructions = \<lambda>b. map fst (filter (\<lambda>(v, i). si_block i = b) insts), LLVMSuccessors = succ\<rparr>)"

text \<open>The state \<open>struct cg cg = {0}\<close> before the first function.\<close>

definition cg_initial :: "('b, 'v) gen" where
  "cg_initial = \<lparr>cg_code = [], cg_blocks = [], cg_block_offsets = [], cg_fixups = [], cg_table_fixups = [], cg_data_bytes = [],
     cg_globals = [], cg_imports = [], cg_funcs = [], cg_has_calls = False, cg_funcs_referenced = False,
     cg_vals = [], cg_regs = [], cg_val_slot = [], cg_i64_slot = [], cg_agg_slot = [], cg_vec_slot = [],
     cg_next_reg = 0, cg_htab = [], cg_allocas = [], cg_bb_live_in = [], cg_bb_live_out = [], cg_call_lives = [],
     cg_alloca_bytes = 0, cg_spill_bytes = 0, cg_val_spill_bytes = 0, cg_val_spill_count = 0, cg_frame_bytes = 0,
     cg_fn_has_invoke = False, cg_eh_frame_off = 0, cg_ssa_reg_high = 0, cg_ever_spilled = cg_bits_clear,
     cg_slot_of = replicate 256 0, cg_spill_slot_count = 0, cg_zero_reg = 0, cg_free_list = []\<rparr>"

end
