(* ===== verification/Value_Table.thy ===== *)
theory Value_Table
  imports Small_Module
begin

text \<open>
  The translator's value table is an open-addressing hash table over the handles of the LLVM values. It
  answers like the linear scan it replaced: the index of the first assignment of a value.
\<close>

section \<open>Probing\<close>

definition tab_ok :: "('v \<times> nat) option list \<Rightarrow> bool" where
  "tab_ok tab \<longleftrightarrow> (\<exists>k < 63. length tab = 2 ^ k)"

abbreviation slot_key :: "('v \<times> nat) option list \<Rightarrow> nat \<Rightarrow> 'v option" where
  "slot_key tab h \<equiv> map_option fst (tab ! h)"

text \<open>\<open>d\<close> slots from \<open>s\<close> on hold other keys.\<close>

definition passed :: "('v \<times> nat) option list \<Rightarrow> 'v \<Rightarrow> nat \<Rightarrow> nat \<Rightarrow> bool" where
  "passed tab v s d \<longleftrightarrow>
     (\<forall>j < d. slot_key tab ((s + j) mod length tab) \<noteq> None \<and> slot_key tab ((s + j) mod length tab) \<noteq> Some v)"

lemma mask_slot:
  assumes "tab_ok tab"
  shows "unat (h AND (of_nat (length tab) - 1)) = unat (h :: u64) mod length tab"
proof -
  obtain k where k: "k < 63" "length tab = 2 ^ k" using assms by (auto simp: tab_ok_def)
  have "(of_nat (length tab) - 1 :: u64) = mask k" unfolding k(2) by (simp add: mask_eq_exp_minus_1)
  moreover have "unat (h AND mask k) = unat h mod 2 ^ k"
    by (simp only: take_bit_eq_mask [symmetric] unsigned_take_bit_eq) (simp add: take_bit_eq_mod)
  ultimately show ?thesis unfolding k(2) by simp
qed

lemma tab_ok_pos: "tab_ok tab \<Longrightarrow> 0 < length tab \<and> length tab < 2 ^ 63"
  unfolding tab_ok_def using power_strict_increasing [of _ 63 "2 :: nat"] by auto

lemma probe_next:
  assumes "tab_ok tab" "h < length tab"
  shows "unat ((of_nat h + 1 :: u64) AND (of_nat (length tab) - 1)) = Suc h mod length tab"
proof -
  have h: "Suc h < 2 ^ 64" using tab_ok_pos [OF assms(1)] assms(2) by auto
  have "(of_nat h + 1 :: u64) = of_nat (Suc h)" by simp
  then have "unat (of_nat h + 1 :: u64) = Suc h" using h by (simp add: unat_of_nat take_bit_nat_eq_self del: of_nat_Suc)
  then show ?thesis by (simp only: mask_slot [OF assms(1)])
qed

lemma probe_finds:
  assumes "tab_ok tab" "passed tab v s d" "s < length tab"
    "slot_key tab ((s + d) mod length tab) \<in> {None, Some v}"
  shows "htab_probe tab v (of_nat s) = Some ((s + d) mod length tab)"
  using assms(2-4)
proof (induction d arbitrary: s)
  case 0
  have u: "unat (of_nat s :: u64) = s"
    using tab_ok_pos [OF assms(1)] 0(2) by (simp add: unat_of_nat take_bit_nat_eq_self)
  show ?case using 0(2,3) by (subst htab_probe.simps) (auto simp: u at_def split: option.splits)
next
  case (Suc d)
  have u: "unat (of_nat s :: u64) = s"
    using tab_ok_pos [OF assms(1)] Suc.prems(2) by (simp add: unat_of_nat take_bit_nat_eq_self)
  have p: "slot_key tab ((s + j) mod length tab) \<noteq> None \<and> slot_key tab ((s + j) mod length tab) \<noteq> Some v"
    if "j < Suc d" for j using Suc.prems(1) that by (simp add: passed_def)
  obtain kv where kv: "tab ! s = Some kv" "fst kv \<noteq> v" using p [of 0] Suc.prems(2) by auto
  let ?s = "Suc s mod length tab"
  have mv: "(?s + j) mod length tab = (s + Suc j) mod length tab" for j by (simp add: mod_add_left_eq)
  have "passed tab v ?s d" unfolding passed_def mv using p [OF Suc_mono] by blast
  moreover have "?s < length tab" using tab_ok_pos [OF assms(1)] by simp
  moreover have "slot_key tab ((?s + d) mod length tab) \<in> {None, Some v}" using Suc.prems(3) unfolding mv .
  ultimately have ih: "htab_probe tab v (of_nat ?s) = Some ((s + Suc d) mod length tab)"
    using Suc.IH [of ?s] unfolding mv by blast
  have nx: "((of_nat s + 1 :: u64) AND (of_nat (length tab) - 1)) = of_nat ?s"
    unfolding word_unat_eq_iff probe_next [OF assms(1) Suc.prems(2)]
    using tab_ok_pos [OF assms(1)] mod_less_divisor [of "length tab" "Suc s"]
    by (simp add: unat_of_nat take_bit_nat_eq_self del: mod_less_divisor of_nat_Suc)
  show ?case
    using ih kv Suc.prems(2) by (subst htab_probe.simps) (simp only: u at_def nx bind.simps option.case if_True if_False)
qed

lemma passed_unique:
  assumes "passed tab v s d" "passed tab v s d'"
    "slot_key tab ((s + d) mod length tab) \<in> {None, Some v}" "slot_key tab ((s + d') mod length tab) \<in> {None, Some v}"
  shows "d = d'"
proof (rule ccontr)
  assume "d \<noteq> d'"
  then consider "d < d'" | "d' < d" by linarith
  then show False
  proof cases
    case 1 then show False using assms(2,3) unfolding passed_def by auto
  next
    case 2 then show False using assms(1,4) unfolding passed_def by auto
  qed
qed

text \<open>With an empty slot the probe always ends.\<close>

lemma probe_ends:
  assumes "tab_ok tab" "h < length tab" "tab ! h = None" "s < length tab"
  obtains d where "passed tab v s d" "slot_key tab ((s + d) mod length tab) \<in> {None, Some v}"
proof -
  let ?P = "\<lambda>d. slot_key tab ((s + d) mod length tab) \<in> {None, Some v}"
  have "(s + (h + length tab - s)) mod length tab = h" using assms(2,4) by simp
  then have "?P (h + length tab - s)" using assms(3) by simp
  then have "?P (LEAST d. ?P d)" by (rule LeastI)
  moreover have "passed tab v s (LEAST d. ?P d)" unfolding passed_def
  proof (intro allI impI)
    fix j assume "j < (LEAST d. ?P d)"
    then have "\<not> ?P j" by (rule not_less_Least)
    then show "slot_key tab ((s + j) mod length tab) \<noteq> None \<and> slot_key tab ((s + j) mod length tab) \<noteq> Some v"
      by (simp only: insert_iff empty_iff de_Morgan_disj simp_thms)
  qed
  ultimately show ?thesis using that by blast
qed

section \<open>The table of a list of assignments\<close>

lemma index_of_set: "index_of x xs = Some i \<Longrightarrow> x \<in> set xs"
  by (induction xs arbitrary: i) (auto split: if_splits)

lemma index_of_None: "index_of x xs = None \<longleftrightarrow> x \<notin> set xs"
  by (induction xs) auto

lemma index_of_snoc: "index_of x (xs @ [y]) = (if x \<in> set xs then index_of x xs else if y = x then Some (length xs) else None)"
  by (induction xs) auto

abbreviation start_slot :: "('v, 't, 'b) llvm \<Rightarrow> ('v \<times> nat) option list \<Rightarrow> 'v \<Rightarrow> nat" where
  "start_slot L tab v \<equiv> unat (htab_start L tab v)"

definition table_for :: "('v, 't, 'b) llvm \<Rightarrow> ('v \<times> nat) option list \<Rightarrow> 'v list \<Rightarrow> bool" where
  "table_for L tab vals \<longleftrightarrow> tab_ok tab
    \<and> (\<forall>h < length tab. \<forall>k i. tab ! h = Some (k, i) \<longrightarrow> index_of k vals = Some i)
    \<and> (\<forall>k \<in> set vals. \<exists>d. passed tab k (start_slot L tab k) d
        \<and> slot_key tab ((start_slot L tab k + d) mod length tab) = Some k)
    \<and> card {h. h < length tab \<and> tab ! h \<noteq> None} \<le> length vals"

lemma start_slot_less: "tab_ok tab \<Longrightarrow> start_slot L tab v < length tab"
  unfolding htab_start_def using tab_ok_pos [of tab] by (simp add: mask_slot)

lemma table_empty_slot:
  assumes "table_for L tab vals" "length vals < length tab"
  shows "\<exists>e < length tab. tab ! e = None"
proof (rule ccontr)
  assume n: "\<not> ?thesis"
  have "{h. h < length tab \<and> tab ! h \<noteq> None} = {h. h < length tab}"
    by (rule Collect_cong) (use n in metis)
  from arg_cong [OF this, of card] have "card {h. h < length tab \<and> tab ! h \<noteq> None} = length tab"
    unfolding card_Collect_less_nat .
  moreover have "card {h. h < length tab \<and> tab ! h \<noteq> None} \<le> length vals" using assms(1) by (simp add: table_for_def)
  ultimately show False using assms(2) by linarith
qed

lemma table_probe:
  assumes "table_for L tab vals" "length vals < length tab"
  shows "\<exists>h d. htab_probe tab v (htab_start L tab v) = Some h \<and> h < length tab
    \<and> passed tab v (start_slot L tab v) d \<and> h = (start_slot L tab v + d) mod length tab
    \<and> tab ! h = map_option (Pair v) (index_of v vals)"
proof -
  let ?s = "start_slot L tab v"
  have ok: "tab_ok tab" and idx: "\<And>h k i. h < length tab \<Longrightarrow> tab ! h = Some (k, i) \<Longrightarrow> index_of k vals = Some i"
    and path: "v \<in> set vals \<Longrightarrow> \<exists>d. passed tab v ?s d \<and> slot_key tab ((?s + d) mod length tab) = Some v"
    using assms(1) unfolding table_for_def by blast+
  obtain e where e: "e < length tab" "tab ! e = None" using table_empty_slot [OF assms] by blast
  obtain d where d: "passed tab v ?s d" "slot_key tab ((?s + d) mod length tab) \<in> {None, Some v}"
    by (rule probe_ends [OF ok e start_slot_less [OF ok]])
  let ?h = "(?s + d) mod length tab"
  have h: "?h < length tab" using tab_ok_pos [OF ok] by simp
  have pr: "htab_probe tab v (htab_start L tab v) = Some ?h"
    using probe_finds [OF ok d(1) start_slot_less [OF ok] d(2)] by simp
  have "tab ! ?h = map_option (Pair v) (index_of v vals)"
  proof (cases "tab ! ?h")
    case None
    have "v \<notin> set vals"
    proof
      assume "v \<in> set vals"
      then obtain d' where d': "passed tab v ?s d'" "slot_key tab ((?s + d') mod length tab) = Some v" using path by blast
      have "d = d'" by (rule passed_unique [OF d(1) d'(1) d(2)]) (simp only: d'(2) insert_iff simp_thms)
      then show False using d'(2) None by simp
    qed
    then show ?thesis using None index_of_None [of v vals] by simp
  next
    case (Some ki)
    then have "fst ki = v" using d(2) by simp
    then have ki: "tab ! ?h = Some (v, snd ki)" using Some by auto
    show ?thesis using ki idx [OF h ki] by simp
  qed
  then show ?thesis using pr h d(1) by blast
qed

lemma htab_start_length: "length tab' = length tab \<Longrightarrow> htab_start L tab' v = htab_start L tab v"
  by (simp add: htab_start_def)

text \<open>One insertion, of the next index.\<close>

lemma put_table:
  assumes "table_for L tab vals" "length vals < length tab"
  shows "\<exists>tab'. cg_htab_put L v (length vals) tab = Some tab' \<and> length tab' = length tab \<and> table_for L tab' (vals @ [v])"
proof -
  obtain h d0 where pr: "htab_probe tab v (htab_start L tab v) = Some h" "h < length tab"
    and path: "passed tab v (start_slot L tab v) d0" "h = (start_slot L tab v + d0) mod length tab"
    and entry: "tab ! h = map_option (Pair v) (index_of v vals)"
    using table_probe [OF assms, of v] by blast
  have T: "tab_ok tab" "\<And>h k i. h < length tab \<Longrightarrow> tab ! h = Some (k, i) \<Longrightarrow> index_of k vals = Some i"
    "\<And>k. k \<in> set vals \<Longrightarrow> \<exists>d. passed tab k (start_slot L tab k) d
        \<and> slot_key tab ((start_slot L tab k + d) mod length tab) = Some k"
    "card {h. h < length tab \<and> tab ! h \<noteq> None} \<le> length vals"
    using assms(1) by (auto simp: table_for_def)
  show ?thesis
  proof (cases "v \<in> set vals")
    case True
    then obtain i where "index_of v vals = Some i" using index_of_None [of v vals] by auto
    then have "cg_htab_put L v (length vals) tab = Some tab" using entry pr(1) by (simp add: cg_htab_put_def)
    moreover have "table_for L tab (vals @ [v])"
      unfolding table_for_def using T True index_of_set [OF T(2)] by (auto simp: index_of_snoc insert_absorb)
    ultimately show ?thesis by blast
  next
    case False
    let ?t = "tab[h := Some (v, length vals)]"
    have e: "tab ! h = None" using entry False index_of_None [of v vals] by simp
    have put: "cg_htab_put L v (length vals) tab = Some ?t" using pr(1) e by (simp add: cg_htab_put_def)
    have key: "slot_key ?t j = (if j = h then Some v else slot_key tab j)" if "j < length tab" for j
      using that by (simp add: nth_list_update)
    have keep: "passed ?t k s d" if "passed tab k s d" for k s d
      unfolding passed_def length_list_update
    proof (intro allI impI)
      fix j assume "j < d"
      then have p: "slot_key tab ((s + j) mod length tab) \<noteq> None" "slot_key tab ((s + j) mod length tab) \<noteq> Some k"
        using that by (auto simp: passed_def)
      then have "(s + j) mod length tab \<noteq> h" using e by auto
      then show "slot_key ?t ((s + j) mod length tab) \<noteq> None \<and> slot_key ?t ((s + j) mod length tab) \<noteq> Some k"
        using p by simp
    qed
    have "index_of k (vals @ [v]) = Some i" if "j < length tab" "?t ! j = Some (k, i)" for j k i
      using that False T(2) index_of_set [of k vals i] by (cases "j = h") (auto simp: index_of_snoc)
    moreover have "\<exists>d. passed ?t k (start_slot L ?t k) d \<and> slot_key ?t ((start_slot L ?t k + d) mod length ?t) = Some k"
      if "k \<in> set (vals @ [v])" for k
    proof (cases "k = v")
      case True
      have "slot_key ?t ((start_slot L tab v + d0) mod length tab) = Some v" using pr(2) unfolding path(2) [symmetric] by simp
      then show ?thesis using keep [OF path(1)] True by (auto simp: htab_start_length [of ?t tab])
    next
      case False
      then have "k \<in> set vals" using that by simp
      then obtain d where d: "passed tab k (start_slot L tab k) d"
        "slot_key tab ((start_slot L tab k + d) mod length tab) = Some k" using T(3) by blast
      then have "(start_slot L tab k + d) mod length tab \<noteq> h" using e by auto
      then have "slot_key ?t ((start_slot L tab k + d) mod length tab) = Some k" using d(2) by simp
      then show ?thesis using keep [OF d(1)] by (auto simp: htab_start_length [of ?t tab])
    qed
    moreover have "card {j. j < length ?t \<and> ?t ! j \<noteq> None} \<le> length (vals @ [v])"
    proof -
      have "{j. j < length ?t \<and> ?t ! j \<noteq> None} \<subseteq> insert h {j. j < length tab \<and> tab ! j \<noteq> None}"
        by (auto simp: nth_list_update split: if_splits)
      then have "card {j. j < length ?t \<and> ?t ! j \<noteq> None} \<le> card (insert h {j. j < length tab \<and> tab ! j \<noteq> None})"
        by (intro card_mono) simp_all
      also have "\<dots> \<le> Suc (card {j. j < length tab \<and> tab ! j \<noteq> None})" by (rule card_insert_le_m1) simp_all
      finally show ?thesis using T(4) by simp
    qed
    ultimately have "table_for L ?t (vals @ [v])"
      unfolding table_for_def using T(1) by (simp add: tab_ok_def)
    then show ?thesis using put by auto
  qed
qed

lemma empty_table: "tab_ok (replicate n None :: ('v \<times> nat) option list) \<Longrightarrow> table_for L (replicate n (None :: ('v \<times> nat) option)) []"
  by (simp add: table_for_def)

lemma fill_table:
  assumes "table_for L tab dn" "length dn + length vals \<le> length tab"
  shows "\<exists>tab'. htab_fill L vals (length dn) tab = Some tab' \<and> length tab' = length tab \<and> table_for L tab' (dn @ vals)"
  using assms
proof (induction vals arbitrary: dn tab)
  case (Cons v vals)
  obtain t where t: "cg_htab_put L v (length dn) tab = Some t" "length t = length tab" "table_for L t (dn @ [v])"
    using put_table [OF Cons.prems(1), of v] Cons.prems(2) by auto
  show ?case using Cons.IH [OF t(3)] t Cons.prems(2) by auto
qed auto

section \<open>Growth\<close>

lemma grow_cap_power:
  assumes "cap = 2 ^ k" "m < 2 ^ 62" "k < 63"
  shows "\<exists>k' < 63. grow_cap cap m = 2 ^ k' \<and> m \<le> grow_cap cap m"
  using assms
proof (induction cap m arbitrary: k rule: grow_cap.induct)
  case (1 cap m)
  show ?case
  proof (cases "cap < m")
    case True
    then have "(2 :: nat) ^ k < 2 ^ 62" using 1(2,3) by linarith
    then have "k < 62" by (rule power_less_imp_less_exp [rotated]) simp
    then show ?thesis using 1(1) [of "Suc k"] True 1(2,3) by (subst (1 2) grow_cap.simps) auto
  next
    case False
    then show ?thesis using 1(2,4) by (subst (1 2) grow_cap.simps) auto
  qed
qed

section \<open>Assignments of a function\<close>

definition value_table_ok :: "('v, 't, 'b) llvm \<Rightarrow> ('b, 'v) gen \<Rightarrow> bool" where
  "value_table_ok L cg \<longleftrightarrow> (if cg_htab cg = [] then cg_vals cg = []
     else table_for L (cg_htab cg) (cg_vals cg) \<and> 2 * length (cg_vals cg) \<le> length (cg_htab cg))"

lemma lookup_first:
  assumes "value_table_ok L cg"
  shows "cg_lookup L cg v = Some (index_of v (cg_vals cg))"
proof (cases "cg_htab cg = []")
  case False
  then have t: "table_for L (cg_htab cg) (cg_vals cg)" "length (cg_vals cg) < length (cg_htab cg)"
  proof -
    show t: "table_for L (cg_htab cg) (cg_vals cg)" using assms False by (simp add: value_table_ok_def)
    have "2 * length (cg_vals cg) \<le> length (cg_htab cg)" using assms False by (simp add: value_table_ok_def)
    then show "length (cg_vals cg) < length (cg_htab cg)" using False by (cases "cg_vals cg") simp_all
  qed
  obtain h where h: "htab_probe (cg_htab cg) v (htab_start L (cg_htab cg) v) = Some h"
    "cg_htab cg ! h = map_option (Pair v) (index_of v (cg_vals cg))"
    using table_probe [OF t, of v] by blast
  show ?thesis using h False by (simp add: cg_lookup_def option.map_comp comp_def option.map_ident)
qed (use assms in \<open>simp add: value_table_ok_def cg_lookup_def\<close>)

lemma assign_ok:
  assumes "value_table_ok L cg" "length (cg_vals cg) < 2 ^ 60" "length (cg_htab cg) < 2 ^ 63"
  shows "\<exists>cg'. cg_assign L v r cg = Some cg' \<and> value_table_ok L cg' \<and> cg_vals cg' = cg_vals cg @ [v]
    \<and> cg_regs cg' = cg_regs cg @ [r]"
proof -
  let ?n = "length (cg_vals cg)"
  obtain tab where tab: "(if length (cg_htab cg) < 2 * (?n + 1)
      then cg_htab_grow L (2 * (?n + 1)) (cg_vals cg) (cg_htab cg) else Some (cg_htab cg)) = Some tab"
    "table_for L tab (cg_vals cg)" "2 * (?n + 1) \<le> length tab"
  proof (cases "length (cg_htab cg) < 2 * (?n + 1)")
    case True
    obtain k where k: "k < 63" "(if length (cg_htab cg) = 0 then 64 else length (cg_htab cg)) = 2 ^ k"
    proof (cases "cg_htab cg = []")
      case True then show ?thesis by (intro that [of 6]) simp_all
    next
      case False then show ?thesis using assms(1) that by (auto simp: value_table_ok_def table_for_def tab_ok_def)
    qed
    have "2 * (?n + 1) < 2 ^ 62" using assms(2) by simp
    then obtain k' where k': "k' < 63" "grow_cap (2 ^ k) (2 * (?n + 1)) = 2 ^ k'" "2 * (?n + 1) \<le> grow_cap (2 ^ k) (2 * (?n + 1))"
      using grow_cap_power [OF refl _ k(1), of "2 * (?n + 1)"] by blast
    let ?t = "replicate (grow_cap (2 ^ k) (2 * (?n + 1))) None :: ('a \<times> nat) option list"
    have "tab_ok ?t" unfolding tab_ok_def length_replicate using k'(1,2) by blast
    then obtain t where t: "htab_fill L (cg_vals cg) 0 ?t = Some t" "length t = length ?t" "table_for L t (cg_vals cg)"
      using fill_table [OF empty_table, of "grow_cap (2 ^ k) (2 * (?n + 1))" "cg_vals cg" L] k'(3) by auto
    have "cg_htab_grow L (2 * (?n + 1)) (cg_vals cg) (cg_htab cg) = Some t"
      unfolding cg_htab_grow_def k(2) Let_def by (rule t(1))
    then show ?thesis using that [of t] t(2,3) k'(3) True by simp
  next
    case False
    then have "cg_htab cg \<noteq> []" by auto
    then show ?thesis using that [of "cg_htab cg"] False assms(1) by (simp add: value_table_ok_def)
  qed
  obtain tab' where t': "cg_htab_put L v ?n tab = Some tab'" "length tab' = length tab" "table_for L tab' (cg_vals cg @ [v])"
    using put_table [OF tab(2), of v] tab(3) by auto
  let ?cg = "cg\<lparr>cg_vals := cg_vals cg @ [v], cg_regs := cg_regs cg @ [r],
         cg_val_slot := cg_val_slot cg @ [CG_NO_SLOT], cg_i64_slot := cg_i64_slot cg @ [CG_NO_SLOT],
         cg_agg_slot := cg_agg_slot cg @ [CG_NO_SLOT], cg_vec_slot := cg_vec_slot cg @ [CG_NO_SLOT], cg_htab := tab'\<rparr>"
  have "cg_assign L v r cg = Some ?cg" unfolding cg_assign_def Let_def tab(1) using t'(1) by simp
  moreover have "value_table_ok L ?cg" using t' tab(3) by (auto simp: value_table_ok_def)
  ultimately show ?thesis by auto
qed

primrec assign_all :: "('v, 't, 'b) llvm \<Rightarrow> ('v \<times> u8) list \<Rightarrow> ('b, 'v) gen \<Rightarrow> ('b, 'v) gen option" where
  "assign_all L [] cg = Some cg"
| "assign_all L (vr # vrs) cg = do { cg' \<leftarrow> cg_assign L (fst vr) (snd vr) cg; assign_all L vrs cg' }"

lemma assign_all_ok:
  assumes "value_table_ok L cg" "length (cg_vals cg) + length vrs < 2 ^ 60" "length (cg_htab cg) < 2 ^ 63"
  shows "\<exists>cg'. assign_all L vrs cg = Some cg' \<and> value_table_ok L cg' \<and> cg_vals cg' = cg_vals cg @ map fst vrs
    \<and> cg_regs cg' = cg_regs cg @ map snd vrs"
  using assms
proof (induction vrs arbitrary: cg)
  case (Cons vr vrs)
  obtain cg' where a: "cg_assign L (fst vr) (snd vr) cg = Some cg'" "value_table_ok L cg'"
    "cg_vals cg' = cg_vals cg @ [fst vr]" "cg_regs cg' = cg_regs cg @ [snd vr]"
    using assign_ok [OF Cons.prems(1) _ Cons.prems(3)] Cons.prems(2) by fastforce
  have "cg_htab cg' \<noteq> []" using a(2,3) by (auto simp: value_table_ok_def split: if_splits)
  then have "length (cg_htab cg') < 2 ^ 63" using a(2) tab_ok_pos by (auto simp: value_table_ok_def table_for_def)
  then show ?case using Cons.IH [OF a(2)] a Cons.prems(2) by auto
qed simp



end
