(* ===== verification/Wide_Theorems.thy ===== *)
theory Wide_Theorems
  imports Wide_Shifts Value_Table Safety
begin

text \<open>
  The lowering of 64-bit instructions: run on the machine, the code emitted for an instruction leaves its
  value in the two words of its slot and touches nothing else but scratch registers.
\<close>

section \<open>The value of an instruction\<close>

definition shift_opcodes :: "LLVMOpcode set" where "shift_opcodes = {LLVMShl, LLVMLShr, LLVMAShr}"

definition inline_opcodes :: "LLVMOpcode set" where
  "inline_opcodes = {LLVMAdd, LLVMSub, LLVMMul, LLVMAnd, LLVMOr, LLVMXor, LLVMFreeze, LLVMBitCast} \<union> shift_opcodes"

text \<open>The values are those of the 64-bit operations of LLVM. \<open>n\<close> is the amount of a constant shift, \<open>y\<close> the
  second operand of the others.\<close>

definition pair_op :: "LLVMOpcode \<Rightarrow> nat \<Rightarrow> cvm_i64 \<Rightarrow> cvm_i64 \<Rightarrow> cvm_i64" where
  "pair_op op n x y = (case op of LLVMAdd \<Rightarrow> cvm_i64_add x y | LLVMSub \<Rightarrow> cvm_i64_sub x y | LLVMMul \<Rightarrow> cvm_u64_mul x y
     | LLVMAnd \<Rightarrow> cvm_i64_and x y | LLVMOr \<Rightarrow> cvm_i64_or x y | LLVMXor \<Rightarrow> cvm_i64_xor x y
     | LLVMShl \<Rightarrow> cvm_u64_shl x (of_nat n) | LLVMLShr \<Rightarrow> cvm_u64_shr x (of_nat n) | LLVMAShr \<Rightarrow> cvm_i64_sar x (of_nat n)
     | _ \<Rightarrow> x)"

definition word_op :: "LLVMOpcode \<Rightarrow> nat \<Rightarrow> u64 \<Rightarrow> u64 \<Rightarrow> u64" where
  "word_op op n x y = (case op of LLVMAdd \<Rightarrow> x + y | LLVMSub \<Rightarrow> x - y | LLVMMul \<Rightarrow> x * y
     | LLVMAnd \<Rightarrow> x AND y | LLVMOr \<Rightarrow> x OR y | LLVMXor \<Rightarrow> x XOR y
     | LLVMShl \<Rightarrow> push_bit n x | LLVMLShr \<Rightarrow> drop_bit n x | LLVMAShr \<Rightarrow> signed_drop_bit n x | _ \<Rightarrow> x)"

lemma pair_op_word:
  assumes "n < 64" "op \<in> inline_opcodes"
  shows "val64 (pair_op op n x y) = word_op op n (val64 x) (val64 y)"
  using assms amount_of_nat(2) [OF assms(1)] unfolding inline_opcodes_def shift_opcodes_def
  by (elim UnE insertE emptyE)
    (simp_all add: pair_op_def word_op_def val64_add val64_sub val64_mul val64_logic val64_shl val64_shr val64_sar)

definition shift_amount :: "('v, 't, 'b) llvm \<Rightarrow> 'v \<Rightarrow> nat" where
  "shift_amount L i = unat (LLVMConstIntGetZExtValue L (LLVMGetOperand L i 1) AND 63)"

lemma shift_amount_less: "shift_amount L i < 64"
proof -
  have m: "(63 :: u64) = mask 6" by (simp add: mask_eq_exp_minus_1)
  have "unat (LLVMConstIntGetZExtValue L (LLVMGetOperand L i 1) AND 63) < 2 ^ 6"
    unfolding m by (simp only: take_bit_eq_mask [symmetric] unsigned_take_bit_eq take_bit_nat_less_exp)
  then show ?thesis by (simp add: shift_amount_def)
qed

text \<open>The value of the instruction \<open>i\<close>, from the values of its operands in the frame. Copies and constant
  shifts read one operand.\<close>

definition one_operand :: "LLVMOpcode \<Rightarrow> bool" where
  "one_operand op \<longleftrightarrow> op \<in> shift_opcodes \<union> {LLVMFreeze, LLVMBitCast}"

definition pair_value :: "('v, 't, 'b) llvm \<Rightarrow> ('b, 'v) gen \<Rightarrow> 'v \<Rightarrow> LLVMOpcode \<Rightarrow> 'h vm \<Rightarrow> cvm_i64 option" where
  "pair_value L cg i op s =
     (if one_operand op then map_option (\<lambda>x. pair_op op (shift_amount L i) x x) (wide_of L cg s (LLVMGetOperand L i 0))
      else combine (pair_op op (shift_amount L i)) L cg (LLVMGetOperand L i 0) (LLVMGetOperand L i 1) s)"

definition i64_value :: "('v, 't, 'b) llvm \<Rightarrow> ('b, 'v) gen \<Rightarrow> 'v \<Rightarrow> LLVMOpcode \<Rightarrow> 'h vm \<Rightarrow> u64 option" where
  "i64_value L cg i op s =
     (let x = map_option val64 (wide_of L cg s (LLVMGetOperand L i 0));
          y = (if one_operand op then x else map_option val64 (wide_of L cg s (LLVMGetOperand L i 1))) in
      case (x, y) of (Some a, Some b) \<Rightarrow> Some (word_op op (shift_amount L i) a b) | _ \<Rightarrow> None)"

lemma i64_value_pair:
  "op \<in> inline_opcodes \<Longrightarrow> i64_value L cg i op s = map_option val64 (pair_value L cg i op s)"
  by (auto simp: i64_value_def pair_value_def combine_def Let_def pair_op_word [OF shift_amount_less] split: option.splits)

section \<open>Each case of the switch\<close>

text \<open>The code of the instruction leaves its value in the slot \<open>idx\<close>.\<close>

definition lowers ::
  "('v, 't, 'b) llvm \<Rightarrow> 'v \<Rightarrow> LLVMOpcode \<Rightarrow> nat \<Rightarrow> ('b, 'v) gen \<Rightarrow> ('b, 'v) gen \<Rightarrow> 'h itself \<Rightarrow> bool" where
  "lowers L i op idx cg cg' tp \<longleftrightarrow> (\<exists>off ws. cg_i64_lo_off cg idx = Some off \<and> emitted cg cg' ws \<and>
    (\<forall>(cx :: 'h ctx) s. machine_ok cx cg s \<longrightarrow> (\<exists>s' x. run cx ws s = Running s' \<and> pair_value L cg i op s = Some x
      \<and> defines_pair (cg_next_reg cg) off x cx s s')))"

lemma lowers_bin:
  assumes "gen_ok cg" "wide_index L cg i = Some idx" "\<not> one_operand op"
    "cg_i64_read L (LLVMGetOperand L i 0) cg = Some (al, ah, cg1)" "cg_i64_read L (LLVMGetOperand L i 1) cg1 = Some (bl, bh, cg2)"
    "emitted cg2 cg3 vs"
    "computes cg2 (cg_next_reg cg2) vs (\<lambda>(s :: 'h vm) s'. \<lparr>lo = R s' l, hi = R s' h\<rparr>
      = pair_op op (shift_amount L i) \<lparr>lo = R s al, hi = R s ah\<rparr> \<lparr>lo = R s bl, hi = R s bh\<rparr>)"
    "cg_i64_write idx l h cg3 = Some cg'" "opreg (cg_next_reg cg3) l" "opreg (cg_next_reg cg3) h"
  shows "lowers L i op idx cg cg' TYPE('h)"
proof -
  have p: "pair_value L cg i op = combine (pair_op op (shift_amount L i)) L cg (LLVMGetOperand L i 0) (LLVMGetOperand L i 1)"
    by (rule ext) (simp add: pair_value_def assms(3))
  show ?thesis
    unfolding lowers_def p by (rule bin_defines [OF assms(1,4-8,2,9,10)])
qed

lemma lowers_add_logic:
  assumes "gen_ok cg" "wide_index L cg i = Some idx" "op \<in> {LLVMAdd, LLVMSub, LLVMAnd, LLVMOr, LLVMXor}"
    "i64_add_logic L op i idx cg = Some cg'"
  shows "lowers L i op idx cg cg' TYPE('h)"
proof -
  have one: "\<not> one_operand op" using assms(3) by (auto simp: one_operand_def shift_opcodes_def)
  obtain al ah cg1 bl bh cg2 l cg3 h cg4 cg6 where c: "cg_i64_read L (LLVMGetOperand L i 0) cg = Some (al, ah, cg1)"
    "cg_i64_read L (LLVMGetOperand L i 1) cg1 = Some (bl, bh, cg2)" "cg_alloc_reg cg2 = Some (l, cg3)"
    "cg_alloc_reg cg3 = Some (h, cg4)" "cg_i64_write idx l h cg6 = Some cg'"
    and b: "(if op = LLVMAdd then do { (carry, cg5) \<leftarrow> cg_alloc_reg cg4; Some (add_words l h carry al ah bl bh cg5) }
       else if op = LLVMSub then do { (borrow, cg5) \<leftarrow> cg_alloc_reg cg4; Some (sub_words l h borrow al ah bl bh cg5) }
       else let cv = op_value (if op = LLVMAnd then CVM_OP_AND else if op = LLVMOr then CVM_OP_OR else CVM_OP_XOR) in
         Some (cg_emit (enc_r cv h ah bh) (cg_emit (enc_r cv l al bl) cg4))) = Some cg6"
    using assms(4) unfolding i64_add_logic_def bind_eq_Some_conv split_paired_Ex prod.case by blast
  obtain ws where A: "emitted cg cg2 ws" "opreg (cg_next_reg cg2) al" "opreg (cg_next_reg cg2) ah"
    "opreg (cg_next_reg cg2) bl" "opreg (cg_next_reg cg2) bh"
    using read2_computes [OF assms(1) c(1,2), where ?'h = 'h] by blast
  note ok2 = emittedD(3) [OF A(1)]
  note B = emitted_alloc2 [OF ok2 c(3,4)]
  note ok4 = emittedD(3) [OF B(1)]
  obtain cg5 vs where v: "emitted cg4 cg5 []" "cg_next_reg cg4 \<le> cg_next_reg cg5" "cg6 = emit_all vs cg5" "straight vs"
    "computes cg2 (cg_next_reg cg2) vs (\<lambda>(s :: 'h vm) s'. \<lparr>lo = R s' l, hi = R s' h\<rparr>
      = pair_op op (shift_amount L i) \<lparr>lo = R s al, hi = R s ah\<rparr> \<lparr>lo = R s bl, hi = R s bh\<rparr>)"
  proof (cases "op \<in> {LLVMAdd, LLVMSub}")
    case True
    obtain ca cg5 where ca: "cg_alloc_reg cg4 = Some (ca, cg5)"
      "cg6 = (if op = LLVMAdd then add_words l h ca al ah bl bh cg5 else sub_words l h ca al ah bl bh cg5)"
      using b True by (auto simp: bind_eq_Some_conv)
    note C = alloc_emitted [OF ok4 ca(1)]
    have n: "unat ca = Suc (Suc (cg_next_reg cg2))" "Suc (Suc (cg_next_reg cg2)) \<le> 252" using C(2,5) B(4) by simp_all
    note W = add_computes [OF ok2 A(2-5) B(2,3) n, where cg' = cg5]
    note T = that [OF C(1) emittedD(2) [OF C(1)]]
    from True consider "op = LLVMAdd" | "op = LLVMSub" by auto
    then show ?thesis
    proof cases
      case 1
      from W(1) obtain vs where "cg6 = emit_all vs cg5" "straight vs" "computes cg2 (cg_next_reg cg2) vs (\<lambda>(s :: 'h vm) s'.
          \<lparr>lo = R s' l, hi = R s' h\<rparr> = cvm_i64_add \<lparr>lo = R s al, hi = R s ah\<rparr> \<lparr>lo = R s bl, hi = R s bh\<rparr>)"
        using ca(2) 1 by auto
      then show ?thesis using T 1 by (simp add: pair_op_def)
    next
      case 2
      from W(2) obtain vs where "cg6 = emit_all vs cg5" "straight vs" "computes cg2 (cg_next_reg cg2) vs (\<lambda>(s :: 'h vm) s'.
          \<lparr>lo = R s' l, hi = R s' h\<rparr> = cvm_i64_sub \<lparr>lo = R s al, hi = R s ah\<rparr> \<lparr>lo = R s bl, hi = R s bh\<rparr>)"
        using ca(2) 2 by auto
      then show ?thesis using T 2 by (simp add: pair_op_def)
    qed
  next
    case False
    let ?o = "if op = LLVMAnd then CVM_OP_AND else if op = LLVMOr then CVM_OP_OR else CVM_OP_XOR"
    have e: "cg6 = cg_emit (enc_r (op_value ?o) h ah bh) (cg_emit (enc_r (op_value ?o) l al bl) cg4)"
      using b False by (simp add: Let_def)
    have m: "(?o, pair_op op (shift_amount L i)) \<in> {(CVM_OP_AND, cvm_i64_and), (CVM_OP_OR, cvm_i64_or), (CVM_OP_XOR, cvm_i64_xor)}"
      using assms(3) False by (auto simp: pair_op_def fun_eq_iff)
    from logic_computes [OF A(2-5) B(2,3,5) m, where cg' = cg4] obtain vs where "cg6 = emit_all vs cg4" "straight vs"
      "computes cg2 (cg_next_reg cg2) vs (\<lambda>(s :: 'h vm) s'. \<lparr>lo = R s' l, hi = R s' h\<rparr>
        = pair_op op (shift_amount L i) \<lparr>lo = R s al, hi = R s ah\<rparr> \<lparr>lo = R s bl, hi = R s bh\<rparr>)"
      unfolding e by (elim exE conjE)
    then show ?thesis by (rule that [OF emitted_refl [OF ok4] order.refl])
  qed
  have E: "emitted cg2 cg6 vs"
    using emitted_trans [OF emitted_trans [OF B(1) v(1)] emitted_code [OF emittedD(3) [OF v(1)] v(4)]] v(3) by simp
  have o: "opreg (cg_next_reg cg6) l" "opreg (cg_next_reg cg6) h"
    using B(2-5) v(2) unfolding v(3) by (simp_all add: opreg_def emit_all_def)
  show ?thesis by (rule lowers_bin [OF assms(1,2) one c(1,2) E v(5) c(5) o])
qed

lemma lowers_mul:
  assumes "gen_ok cg" "wide_index L cg i = Some idx" "i64_mul L i idx cg = Some cg'"
  shows "lowers L i LLVMMul idx cg cg' TYPE('h)"
proof -
  have one: "\<not> one_operand LLVMMul" by (simp add: one_operand_def shift_opcodes_def)
  let ?vs = "\<lambda>l h t al ah bl bh. [enc_r (op_value CVM_OP_MUL) l al bl, enc_r (op_value CVM_OP_MULHU) h al bl,
      enc_r (op_value CVM_OP_MUL) t al bh, enc_r (op_value CVM_OP_ADD) h h t,
      enc_r (op_value CVM_OP_MUL) t ah bl, enc_r (op_value CVM_OP_ADD) h h t]"
  obtain al ah cg1 bl bh cg2 l cg3 h cg4 t cg5 where c: "cg_i64_read L (LLVMGetOperand L i 0) cg = Some (al, ah, cg1)"
    "cg_i64_read L (LLVMGetOperand L i 1) cg1 = Some (bl, bh, cg2)" "cg_alloc_reg cg2 = Some (l, cg3)"
    "cg_alloc_reg cg3 = Some (h, cg4)" "cg_alloc_reg cg4 = Some (t, cg5)"
    "cg_i64_write idx l h (emit_all (?vs l h t al ah bl bh) cg5) = Some cg'"
    using assms(3) by (auto simp: i64_mul_def bind_eq_Some_conv emit_all_one)
  obtain ws where A: "emitted cg cg2 ws" "opreg (cg_next_reg cg2) al" "opreg (cg_next_reg cg2) ah"
    "opreg (cg_next_reg cg2) bl" "opreg (cg_next_reg cg2) bh"
    using read2_computes [OF assms(1) c(1,2), where ?'h = 'h] by blast
  note B = emitted_alloc2 [OF emittedD(3) [OF A(1)] c(3,4)]
  note C = alloc_emitted [OF emittedD(3) [OF B(1)] c(5)]
  have n: "unat t = Suc (Suc (cg_next_reg cg2))" "Suc (Suc (cg_next_reg cg2)) \<le> 252" using C(2,5) B(4) by simp_all
  have E: "emitted cg2 (emit_all (?vs l h t al ah bl bh) cg5) (?vs l h t al ah bl bh)"
    using emitted_trans [OF emitted_trans [OF B(1) C(1)] emitted_code [OF emittedD(3) [OF C(1)]]] by (simp add: straight_ops_def)
  have o: "opreg (cg_next_reg (emit_all (?vs l h t al ah bl bh) cg5)) l" "opreg (cg_next_reg (emit_all (?vs l h t al ah bl bh) cg5)) h"
    using B(2-5) C(3) by (simp_all add: opreg_def emit_all_def)
  have p: "pair_op LLVMMul n = cvm_u64_mul" for n by (simp add: pair_op_def fun_eq_iff)
  show ?thesis
    by (rule lowers_bin [OF assms(1,2) one c(1,2) E _ c(6) o])
      (unfold p, rule mul_computes [OF A(2-5) B(2,3) n])
qed

lemma lowers_one:
  assumes "gen_ok cg" "wide_index L cg i = Some idx" "one_operand op"
    "cg_i64_read L (LLVMGetOperand L i 0) cg = Some (al, ah, cg1)" "emitted cg cg1 ws"
    "computes cg (cg_next_reg cg) ws (\<lambda>(s :: 'h vm) s'. wide_of L cg s (LLVMGetOperand L i 0) = Some \<lparr>lo = R s' al, hi = R s' ah\<rparr>)"
    "shifts_to (\<lambda>x. pair_op op (shift_amount L i) x x) al ah cg1 l h cg2 TYPE('h)" "cg_i64_write idx l h cg2 = Some cg'"
  shows "lowers L i op idx cg cg' TYPE('h)"
proof -
  obtain vs where v: "emitted cg1 cg2 vs" "opreg (cg_next_reg cg2) l" "opreg (cg_next_reg cg2) h"
    "computes cg1 (cg_next_reg cg1) vs (\<lambda>(s :: 'h vm) s'. \<lparr>lo = R s' l, hi = R s' h\<rparr>
      = pair_op op (shift_amount L i) \<lparr>lo = R s al, hi = R s ah\<rparr> \<lparr>lo = R s al, hi = R s ah\<rparr>)"
    using assms(7) unfolding shifts_to_def by blast
  have c: "computes cg (cg_next_reg cg) (ws @ vs) (\<lambda>(s :: 'h vm) s'. pair_value L cg i op s = Some \<lparr>lo = R s' l, hi = R s' h\<rparr>)"
    by (rule computes_seq [OF assms(6,5) v(4) emittedD(2) [OF assms(5)]]) (simp add: pair_value_def assms(3))
  have n: "cg_next_reg cg \<le> cg_next_reg cg2" using emittedD(2) [OF assms(5)] emittedD(2) [OF v(1)] by simp
  show ?thesis unfolding lowers_def
    using op_defines [OF assms(1) emitted_trans [OF assms(5) v(1)] c assms(8,2) v(2,3) n] by metis
qed

lemma lowers_copy:
  assumes "gen_ok cg" "wide_index L cg i = Some idx" "op \<in> {LLVMFreeze, LLVMBitCast}" "i64_copy L i idx cg = Some cg'"
  shows "lowers L i op idx cg cg' TYPE('h)"
proof -
  have one: "one_operand op" using assms(3) by (auto simp: one_operand_def)
  obtain al ah cg1 where c: "cg_i64_read L (LLVMGetOperand L i 0) cg = Some (al, ah, cg1)" "cg_i64_write idx al ah cg1 = Some cg'"
    using assms(4) by (auto simp: i64_copy_def bind_eq_Some_conv)
  obtain ws where A: "emitted cg cg1 ws" "opreg (cg_next_reg cg1) al" "opreg (cg_next_reg cg1) ah"
    "computes cg (cg_next_reg cg) ws (\<lambda>(s :: 'h vm) s'. wide_of L cg s (LLVMGetOperand L i 0) = Some \<lparr>lo = R s' al, hi = R s' ah\<rparr>)"
    by (rule i64_read_computes [OF assms(1) c(1)])
  have "shifts_to (\<lambda>x. pair_op op (shift_amount L i) x x) al ah cg1 al ah cg1 TYPE('h)"
    unfolding shifts_to_def using A(2,3) assms(3)
    by (intro exI [of _ "[]"]) (auto simp: pair_op_def intro: emitted_refl [OF emittedD(3) [OF A(1)]] computes_nil)
  then show ?thesis by (rule lowers_one [OF assms(1,2) one c(1) A(1,4) _ c(2)])
qed

lemma lowers_shift:
  assumes "gen_ok cg" "wide_index L cg i = Some idx" "op \<in> shift_opcodes" "LLVMIsAConstantInt L (LLVMGetOperand L i 1)"
    "i64_shift L op i idx cg = Some cg'"
  shows "lowers L i op idx cg cg' TYPE('h)"
proof -
  let ?n = "shift_amount L i"
  have one: "one_operand op" using assms(3) by (auto simp: one_operand_def)
  have k: "\<not> \<not> LLVMIsAConstantInt L (LLVMGetOperand L i 1)" using assms(4) by simp
  obtain al ah cg1 l h cg2 where c: "cg_i64_read L (LLVMGetOperand L i 0) cg = Some (al, ah, cg1)"
    "(if op = LLVMShl then shl_words ?n al ah cg1 else shr_words (op = LLVMAShr) ?n al ah cg1) = Some (l, h, cg2)"
    "cg_i64_write idx l h cg2 = Some cg'"
    using assms(5) unfolding i64_shift_def Let_def if_not_P [OF k] bind_eq_Some_conv split_paired_Ex prod.case shift_amount_def
    by blast
  obtain ws where A: "emitted cg cg1 ws" "opreg (cg_next_reg cg1) al" "opreg (cg_next_reg cg1) ah"
    "computes cg (cg_next_reg cg) ws (\<lambda>(s :: 'h vm) s'. wide_of L cg s (LLVMGetOperand L i 0) = Some \<lparr>lo = R s' al, hi = R s' ah\<rparr>)"
    by (rule i64_read_computes [OF assms(1) c(1)])
  note ok = emittedD(3) [OF A(1)]
  from assms(3) consider "op = LLVMShl" | "op = LLVMLShr" | "op = LLVMAShr" by (auto simp: shift_opcodes_def)
  then have "shifts_to (\<lambda>x. pair_op op ?n x x) al ah cg1 l h cg2 TYPE('h)"
  proof cases
    case 1
    then have "shl_words ?n al ah cg1 = Some (l, h, cg2)" using c(2) by simp
    from shl_shifts [OF ok A(2,3) shift_amount_less this, where ?'h = 'h] show ?thesis by (simp add: pair_op_def 1)
  next
    case 2
    then have "shr_words False ?n al ah cg1 = Some (l, h, cg2)" using c(2) by simp
    from shr_shifts [OF ok A(2,3) shift_amount_less this, where ?'h = 'h] show ?thesis by (simp add: pair_op_def 2 shr_fun_def [abs_def])
  next
    case 3
    then have "shr_words True ?n al ah cg1 = Some (l, h, cg2)" using c(2) by simp
    from shr_shifts [OF ok A(2,3) shift_amount_less this, where ?'h = 'h] show ?thesis by (simp add: pair_op_def 3 shr_fun_def [abs_def])
  qed
  then show ?thesis by (rule lowers_one [OF assms(1,2) one c(1) A(1,4) _ c(3)])
qed

lemma lowers_inline:
  assumes "gen_ok cg" "op \<in> inline_opcodes" "op \<in> shift_opcodes \<longrightarrow> LLVMIsAConstantInt L (LLVMGetOperand L i 1)"
    "cg_emit_i64_def L i op cg = Some cg'"
  obtains idx where "wide_index L cg i = Some idx" "lowers L i op idx cg cg' TYPE('h)"
proof -
  obtain idx where w: "wide_index L cg i = Some idx" using assms(4) by (auto simp: cg_emit_i64_def_def bind_eq_Some_conv)
  have d: "\<not> (LLVMGetIntTypeWidth L (LLVMTypeOf L i) \<noteq> 64 \<and> op \<noteq> LLVMSExt \<and> op \<noteq> LLVMZExt \<and> op \<noteq> LLVMExtractValue)"
    using assms(4) w by (auto simp: cg_emit_i64_def_def split: if_splits)
  note D = assms(4) [unfolded cg_emit_i64_def_def w Option.bind.simps if_not_P [OF d]]
  have s: "op \<in> {LLVMAdd, LLVMSub, LLVMAnd, LLVMOr, LLVMXor} \<or> op = LLVMMul \<or> op \<in> {LLVMFreeze, LLVMBitCast} \<or> op \<in> shift_opcodes"
    using assms(2) by (auto simp: inline_opcodes_def)
  have "lowers L i op idx cg cg' TYPE('h)"
    using s
  proof (elim disjE)
    assume o: "op \<in> {LLVMAdd, LLVMSub, LLVMAnd, LLVMOr, LLVMXor}"
    then have "i64_add_logic L op i idx cg = Some cg'" using D by (elim insertE emptyE) simp_all
    then show ?thesis by (rule lowers_add_logic [OF assms(1) w o])
  next
    assume o: "op = LLVMMul"
    then have "i64_mul L i idx cg = Some cg'" using D by simp
    then show ?thesis unfolding o by (rule lowers_mul [OF assms(1) w])
  next
    assume o: "op \<in> {LLVMFreeze, LLVMBitCast}"
    then have "i64_copy L i idx cg = Some cg'" using D by (elim insertE emptyE) simp_all
    then show ?thesis by (rule lowers_copy [OF assms(1) w o])
  next
    assume o: "op \<in> shift_opcodes"
    then have "i64_shift L op i idx cg = Some cg'" using D unfolding shift_opcodes_def by (elim insertE emptyE) simp_all
    then show ?thesis using lowers_shift [OF assms(1) w o] assms(3) o by blast
  qed
  then show ?thesis by (rule that [OF w])
qed

section \<open>On the machine\<close>

lemma defines_pair_pc: "defines_pair n off x cx s (set_pc s' p) = defines_pair n off x cx s s'"
  by (simp add: defines_pair_def slot_pair_def slot_val_def slot_addr_def heap_of_def set_pc_def vm_ok_def)

text \<open>C33. The lowering of 64-bit instructions (add, sub, mul, and, or, xor, freeze, bitcast and shifts by a
  constant): in a program that contains the code emitted for the instruction, the machine runs from the
  first to behind the last of its words without trapping, the two words at the instruction's frame slot then
  hold the 64-bit result of the operands' values before, and apart from that slot and scratch registers
  (those from \<open>cg_next_reg\<close> on and \<open>CG_REG_SCRATCH\<close>) nothing in registers, memory or host has changed.\<close>

theorem i64_lowering:
  assumes "gen_ok cg" "op \<in> inline_opcodes" "op \<in> shift_opcodes \<longrightarrow> LLVMIsAConstantInt L (LLVMGetOperand L i 1)"
    "cg_emit_i64_def L i op cg = Some cg'" "take (length (cg_code cg')) code = cg_code cg'"
    "runs_code cx code" "vm_pc s = of_nat (length (cg_code cg))" "machine_ok cx cg s"
  shows "\<exists>idx off x n s'. wide_index L cg i = Some idx \<and> cg_i64_lo_off cg idx = Some off
    \<and> i64_value L cg i op s = Some x \<and> dispatches cx n s s' \<and> vm_pc s' = of_nat (length (cg_code cg'))
    \<and> val64 (slot_pair s' off) = x \<and> vm_ok cx s' \<and> vm_host s' = vm_host s
    \<and> (\<forall>r. \<not> scratch (cg_next_reg cg) r \<longrightarrow> R s' r = R s r)
    \<and> agree_outside (heap_of s) (heap_of s') (slot_addr s off) 8"
proof -
  obtain idx off ws where w: "wide_index L cg i = Some idx" "cg_i64_lo_off cg idx = Some off" "emitted cg cg' ws"
    "\<And>(cx :: 'd ctx) s. machine_ok cx cg s \<Longrightarrow> \<exists>s' x. run cx ws s = Running s' \<and> pair_value L cg i op s = Some x
      \<and> defines_pair (cg_next_reg cg) off x cx s s'"
    using lowers_inline [OF assms(1-4), where ?'h = 'd] unfolding lowers_def by metis
  obtain s1 x where s1: "run cx ws s = Running s1" "pair_value L cg i op s = Some x"
    "defines_pair (cg_next_reg cg) off x cx s s1" using w(4) [OF assms(8)] by blast
  note E = emittedD [OF w(3)]
  let ?p = "length (cg_code cg)" and ?s = "set_pc s1 (of_nat (length (cg_code cg')))"
  have len: "length (cg_code cg') = ?p + length ws" using E(1) by simp
  have "take (length ws) (drop ?p code) = drop ?p (take (?p + length ws) code)" by (simp add: drop_take)
  then have t: "take (length ws) (drop ?p code) = ws" using assms(5) E(1) by simp
  have "dispatches cx (length ws) s ?s"
    using run_dispatches [OF assms(6,7) t E(4) s1(1)] len by simp
  moreover have "defines_pair (cg_next_reg cg) off x cx s ?s" using s1(3) by (simp add: defines_pair_pc)
  moreover have "i64_value L cg i op s = Some (val64 x)" using s1(2) by (simp add: i64_value_pair [OF assms(2)])
  moreover have "vm_pc ?s = of_nat (length (cg_code cg'))" by (simp add: set_pc_def)
  ultimately show ?thesis using w(1,2) unfolding defines_pair_def by metis
qed

text \<open>\<open>%1 = add i64 %0, 5\<close>, with \<open>%0\<close> in the slots 0 and 1 and \<open>%1\<close> in the slots 2 and 3 of the frame.\<close>

definition small_add :: "(nat, nat, nat) llvm" where
  "small_add = small_llvm [(0, \<lparr>si_block = 0, si_opcode = LLVMLoad, si_width = 64, si_operands = [], si_incoming = []\<rparr>),
     (1, \<lparr>si_block = 0, si_opcode = LLVMAdd, si_width = 64, si_operands = [0, 1005], si_incoming = []\<rparr>)] (\<lambda>b. [])"

lemma small_gen:
  obtains cg :: "(nat, nat) gen" where "gen_ok cg" "cg_code cg = []" "cg_i64_slot cg = [0, 2]" "cg_alloca_bytes cg = 0"
    "cg_spill_bytes cg = 0" "cg_next_reg cg = 230"
    "\<forall>v. cg_lookup small_add cg v = Some (if v = 0 then Some 0 else if v = 1 then Some 1 else None)"
proof -
  let ?g = "cg_reset_function_state cg_initial :: (nat, nat) gen"
  have ok: "value_table_ok small_add ?g"
    by (simp add: value_table_ok_def cg_reset_function_state_def cg_initial_def)
  obtain g where g: "value_table_ok small_add g" "cg_vals g = [0, 1]"
    using assign_all_ok [OF ok, of "[(0, 0), (1, 0)]"] by (auto simp: cg_reset_function_state_def cg_initial_def)
  let ?c = "g\<lparr>cg_code := [], cg_i64_slot := [0, 2], cg_alloca_bytes := 0, cg_spill_bytes := 0, cg_next_reg := 230,
    cg_zero_reg := CG_REG_ZERO, cg_free_list := []\<rparr>"
  have "cg_lookup small_add ?c v = cg_lookup small_add g v" for v by (simp add: cg_lookup_def)
  then show ?thesis using that [of ?c] lookup_first [OF g(1)] g(2) by (simp add: gen_ok_def index_of.simps)
qed

lemma small_add_simps:
  "LLVMGetIntTypeWidth small_add (LLVMTypeOf small_add 1) = 64"
  "LLVMGetOperand small_add 1 0 = 0" "LLVMGetOperand small_add 1 1 = 1005"
  "cg_wide_const_words small_add 0 = None" "cg_wide_const_words small_add 1005 = Some (5, 0)" "\<not> LLVMIsUndef small_add 0"
proof -
  have d: "drop_bit 32 (5 :: u64) = 0" "(5 :: u64) AND 0xFFFFFFFF = 5" by (rule bit_word_eqI, auto simp: bit_simps; fail | simp)+
  show "LLVMGetIntTypeWidth small_add (LLVMTypeOf small_add 1) = 64"
    "LLVMGetOperand small_add 1 0 = 0" "LLVMGetOperand small_add 1 1 = 1005"
    "cg_wide_const_words small_add 0 = None" "cg_wide_const_words small_add 1005 = Some (5, 0)" "\<not> LLVMIsUndef small_add 0"
    by (simp_all add: small_add_def small_llvm_def Let_def cg_wide_const_words_def d)
qed

lemma small_add_emits:
  assumes "gen_ok cg" "cg_i64_slot cg = [0, 2]" "cg_next_reg cg = 230"
    "\<forall>v. cg_lookup small_add cg v = Some (if v = 0 then Some 0 else if v = 1 then Some 1 else None)"
  shows "\<exists>cg'. cg_emit_i64_def small_add 1 LLVMAdd cg = Some cg' \<and> length (cg_code cg') \<in> {length (cg_code cg) + 1..length (cg_code cg) + 40}"
proof -
  have len: "length (const_code r w) \<le> 2" for r w by (simp add: const_code_def)
  have bound: "length (ldw_code r w) \<le> 4" "length (stw_code w r) \<le> 4" for r w
    using len [of CG_REG_SCRATCH w] by (simp_all add: ldw_code_def stw_code_def sp_code_def)
  have w: "wide_index small_add cg 0 = Some 0" "wide_index small_add cg 1 = Some 1"
    by (simp_all add: wide_index_def assms(2,4) at_def CG_NO_SLOT_def)
  have o: "cg_i64_lo_off cg 0 = Some (cg_val_slot_off cg 0)"
    by (simp add: cg_i64_lo_off_def at_def assms(2))
  obtain z where z: "\<And>n c. cg_i64_lo_off (cg\<lparr>cg_next_reg := n, cg_code := c\<rparr>) 1 = Some z"
    using that [of "cg_val_slot_off cg 2"] by (simp add: cg_i64_lo_off_def at_def assms(2) cg_val_slot_off_def)
  show ?thesis
    unfolding cg_emit_i64_def_def w Option.bind.simps
    using assms(1,3) len [of 232 5] len [of 233 0] bound(1) [of 230 "cg_val_slot_off cg 0"] bound(1) [of 231 "cg_val_slot_off cg 0 + 4"]
      bound(2) [of z 234] bound(2) [of "z + 4" 235]
    by (simp add: small_add_simps i64_add_logic_def cg_i64_read_def w(1) o cg_alloc_reg_def cg_fresh_const_def gen_ok_def
        CG_MAX_EMIT_REG_def emit_helpers emit_all_def add_words_def cg_emit_def cg_i64_write_def z del: One_nat_def)
qed

theorem i64_lowering_witness:
  "\<exists>cg cg' n s'. cg_emit_i64_def small_add 1 LLVMAdd cg = Some cg'
    \<and> dispatches (demo_ctx (cg_code cg')) n (demo_vm (cg_code cg') (replicate 48 0) (\<lambda>_. 0)) s'
    \<and> vm_pc s' = of_nat (length (cg_code cg')) \<and> val64 (slot_pair s' 8) = 5"
proof -
  obtain cg :: "(nat, nat) gen" where g: "gen_ok cg" "cg_code cg = []" "cg_i64_slot cg = [0, 2]" "cg_alloca_bytes cg = 0"
    "cg_spill_bytes cg = 0" "cg_next_reg cg = 230"
    "\<forall>v. cg_lookup small_add cg v = Some (if v = 0 then Some 0 else if v = 1 then Some 1 else None)" by (rule small_gen)
  obtain cg' where e: "cg_emit_i64_def small_add 1 LLVMAdd cg = Some cg'" "length (cg_code cg') \<in> {1..40}"
    using small_add_emits [OF g(1,3,6,7)] by (auto simp: g(2))
  let ?c = "cg_code cg'" and ?s = "demo_vm (cg_code cg') (replicate 48 0) (\<lambda>_. 0)"
  have w: "wide_index small_add cg 0 = Some 0" "wide_index small_add cg 1 = Some 1"
    by (simp_all add: wide_index_def g at_def CG_NO_SLOT_def)
  have len: "0 < length ?c" "length ?c < 2 ^ 30" using e(2) by auto
  have ok: "machine_ok (demo_ctx ?c) cg ?s" unfolding machine_ok_def
    using demo_ok [OF _ len, of "replicate 48 0"] 
    by (auto simp: wide_frame_def at_def g cg_val_slot_off_def demo_ctx_def mk_ctx_def demo_image_def demo_vm_def less_Suc_eq nth_Cons' split: if_splits)
  have rc: "runs_code (demo_ctx ?c) ?c" using len by (simp add: runs_code_def demo_ctx_def mk_ctx_def demo_image_def)
  have "wide_of small_add cg ?s 0 = Some (slot_pair ?s 0)" "wide_of small_add cg ?s 1005 = Some \<lparr>lo = 5, hi = 0\<rparr>"
    by (simp_all add: wide_of_def small_add_simps w cg_i64_lo_off_def at_def g cg_val_slot_off_def)
  moreover have "heap_of ?s = replicate 48 0" by (simp add: heap_of_def demo_vm_def set_heap_def demo_image_def put_cells_def)
  moreover have "rd32 (replicate 48 0) 0 = Some 0" "rd32 (replicate 48 0) 4 = Some 0" by code_simp+
  moreover have "R ?s r = 0" for r by (simp add: demo_vm_def set_heap_def)
  moreover note slot_pair_def [of ?s 0] slot_val_def [of ?s] slot_addr_def [of ?s]
  ultimately have v: "i64_value small_add cg 1 LLVMAdd ?s = Some 5"
    by (simp add: i64_value_def one_operand_def shift_opcodes_def small_add_simps word_op_def val64_def del: One_nat_def)
  have o: "cg_i64_lo_off cg 1 = Some 8" by (simp add: cg_i64_lo_off_def at_def g cg_val_slot_off_def)
  have pc: "vm_pc ?s = of_nat (length (cg_code cg))" by (simp add: demo_vm_def set_heap_def g(2))
  show ?thesis
    using i64_lowering [OF g(1) _ _ e(1) _ rc pc ok] e(1) v o w(2)
    by (auto simp: inline_opcodes_def shift_opcodes_def)
qed

end
