(* ===== verification/Phi_Theorems.thy ===== *)
theory Phi_Theorems
  imports Phi_Start Wide_Theorems
begin

text \<open>
  The moves of an edge on the machine: the emitted code gives every phi the value its source had before, at
  once for all phis.
\<close>

section \<open>Locations of the machine\<close>

definition loc_off :: "('b, 'v) gen \<Rightarrow> u32 \<Rightarrow> u32" where "loc_off cg l = cg_val_slot_off cg (ucast (l AND 0xFFFF))"

definition loc_val :: "('b, 'v) gen \<Rightarrow> 'h vm \<Rightarrow> u32 \<Rightarrow> u32" where
  "loc_val cg s l = (if cg_loc_is_slot l then slot_val s (loc_off cg l) else R s (ucast l))"

text \<open>A slot of the frame, or a register that is not one of the scratch registers from \<open>n\<close> on.\<close>

definition loc_ok :: "'h ctx \<Rightarrow> ('b, 'v) gen \<Rightarrow> nat \<Rightarrow> 'h vm \<Rightarrow> u32 \<Rightarrow> bool" where
  "loc_ok cx cg n s l \<longleftrightarrow>
     (if cg_loc_is_slot l then l = PHI_SLOT_FLAG OR ucast (ucast l :: u16) \<and> in_frame cx s (loc_off cg l)
      else unat l < 256 \<and> \<not> scratch n (ucast l))"

definition dst_ok :: "'h ctx \<Rightarrow> ('b, 'v) gen \<Rightarrow> nat \<Rightarrow> 'h vm \<Rightarrow> u32 \<Rightarrow> bool" where
  "dst_ok cx cg n s l \<longleftrightarrow> loc_ok cx cg n s l \<and> l \<noteq> ucast CG_REG_SP \<and> l \<noteq> ucast CG_REG_ZERO"

text \<open>The bytes of a slot.\<close>

definition loc_bytes :: "('b, 'v) gen \<Rightarrow> 'h vm \<Rightarrow> u32 \<Rightarrow> nat set" where
  "loc_bytes cg s l = (if cg_loc_is_slot l then {slot_addr s (loc_off cg l) ..< slot_addr s (loc_off cg l) + 4} else {})"

definition mem_same_but :: "nat set \<Rightarrow> mem \<Rightarrow> mem \<Rightarrow> bool" where
  "mem_same_but S m m' \<longleftrightarrow> length m' = length m \<and> (\<forall>a < length m. a \<notin> S \<longrightarrow> m' ! a = m ! a)"

lemma mem_same_but_refl [simp]: "mem_same_but S m m"
  by (simp add: mem_same_but_def)

lemma mem_same_but_trans: "mem_same_but S m m1 \<Longrightarrow> mem_same_but T m1 m2 \<Longrightarrow> mem_same_but (S \<union> T) m m2"
  by (auto simp: mem_same_but_def)

lemma mem_same_but_mono: "mem_same_but S m m' \<Longrightarrow> S \<subseteq> T \<Longrightarrow> mem_same_but T m m'"
  by (auto simp: mem_same_but_def)

lemma agree_same_but: "agree_outside m m' a n \<Longrightarrow> mem_same_but {a ..< a + n} m m'"
  unfolding mem_same_but_def
proof (intro conjI allI impI)
  assume A: "agree_outside m m' a n"
  show "length m' = length m" using A by (simp add: agree_outside_def)
  fix b assume b: "b < length m" "b \<notin> {a ..< a + n}"
  show "m' ! b = m ! b"
  proof (cases "b < a")
    case True
    then show ?thesis using A by (metis agree_outside_def nth_take)
  next
    case False
    then have "b = (a + n) + (b - (a + n))" "a + n \<le> length m" using b by auto
    then show ?thesis using A nth_drop [of "a + n" m "b - (a + n)"] nth_drop [of "a + n" m' "b - (a + n)"]
      by (metis agree_outside_def)
  qed
qed

text \<open>Different slots do not overlap.\<close>

lemma slots_disjoint:
  assumes "i \<noteq> (j :: u16)"
  shows "unat (cg_val_slot_off cg i) + 4 \<le> unat (cg_val_slot_off cg j) \<or> unat (cg_val_slot_off cg j) + 4 \<le> unat (cg_val_slot_off cg i)"
proof -
  define b where "b = cg_alloca_bytes cg + cg_spill_bytes cg"
  have u: "unat (b + ucast k * 4) = (unat b + 4 * unat k) mod 4294967296" for k :: u16
  proof -
    have k: "unat k < 65536" using unsigned_less [of k] by simp
    have c: "unat (ucast k :: u32) = unat k" using k by (simp add: unsigned_ucast_eq take_bit_nat_eq_self)
    have "unat (ucast k * 4 :: u32) = (unat k * 4) mod 4294967296" using unat_word_ariths(2) [of "ucast k :: u32" 4] by (simp add: c)
    then have "unat (ucast k * 4 :: u32) = 4 * unat k" using k by simp
    then show ?thesis using unat_word_ariths(1) [of b "ucast k * 4"] by simp
  qed
  have wlog: "unat (b + ucast i * 4) + 4 \<le> unat (b + ucast j * 4) \<or> unat (b + ucast j * 4) + 4 \<le> unat (b + ucast i * 4)"
    if lt: "unat i < unat j" for i j :: u16
  proof -
    define a where "a = (unat b + 4 * unat i) mod 4294967296"
    define d where "d = 4 * (unat j - unat i)"
    have "unat j < 65536" using unsigned_less [of j] by simp
    then have d: "4 \<le> d" "d \<le> 262140" using lt by (auto simp: d_def)
    have e: "unat b + 4 * unat j = (unat b + 4 * unat i) + d" using lt by (simp add: d_def)
    have "(unat b + 4 * unat j) mod 4294967296 = (a + d) mod 4294967296" unfolding e a_def by (rule mod_add_left_eq [symmetric])
    moreover have "a < 4294967296" by (simp add: a_def)
    ultimately show ?thesis unfolding u a_def [symmetric] using d by (cases "a + d < 4294967296") (auto simp: mod_if)
  qed
  have "unat i \<noteq> unat j" using assms by (metis word_unat_eq_iff)
  then consider "unat i < unat j" | "unat j < unat i" by linarith
  then show ?thesis unfolding cg_val_slot_off_def b_def [symmetric] using wlog by cases blast+
qed

lemma low16: "ucast (l AND 0xFFFF) = (ucast (l :: u32) :: u16)"
  by (rule bit_word_eqI) (simp add: bit_simps mask16)

lemma loc_disjoint:
  assumes "loc_ok cx cg n s l" "loc_ok cx cg n s k" "cg_loc_is_slot l" "cg_loc_is_slot k" "l \<noteq> k"
  shows "unat (loc_off cg l) + 4 \<le> unat (loc_off cg k) \<or> unat (loc_off cg k) + 4 \<le> unat (loc_off cg l)"
proof -
  have "l = PHI_SLOT_FLAG OR ucast (ucast l :: u16)" "k = PHI_SLOT_FLAG OR ucast (ucast k :: u16)"
    using assms(1-4) by (simp_all only: loc_ok_def if_True)
  then have "(ucast l :: u16) \<noteq> ucast k" using assms(5) by metis
  then show ?thesis unfolding loc_off_def low16 by (rule slots_disjoint)
qed

section \<open>One write\<close>

text \<open>The location \<open>d\<close> gets the value \<open>x\<close>; no other location and no byte outside of \<open>d\<close> changes.\<close>

definition writes_loc :: "'h ctx \<Rightarrow> ('b, 'v) gen \<Rightarrow> nat \<Rightarrow> u32 \<Rightarrow> u32 \<Rightarrow> 'h vm \<Rightarrow> 'h vm \<Rightarrow> bool" where
  "writes_loc cx cg n d x s s' \<longleftrightarrow> vm_ok cx s' \<and> vm_host s' = vm_host s \<and> R s' CG_REG_SP = R s CG_REG_SP
     \<and> (\<forall>l. loc_ok cx cg n s l \<longrightarrow> loc_val cg s' l = (if l = d then x else loc_val cg s l))
     \<and> mem_same_but (loc_bytes cg s d) (heap_of s) (heap_of s')"

lemma loc_ok_SP: "R s' CG_REG_SP = R s CG_REG_SP \<Longrightarrow> loc_ok cx cg n s' l = loc_ok cx cg n s l"
  "R s' CG_REG_SP = R s CG_REG_SP \<Longrightarrow> loc_bytes cg s' l = loc_bytes cg s l"
  by (simp_all add: loc_ok_def in_frame_def loc_bytes_def slot_addr_def)

lemma reg_loc_eq: "unat (l :: u32) < 256 \<Longrightarrow> (ucast l :: u8) = r \<longleftrightarrow> l = ucast r"
proof -
  assume l: "unat l < 256"
  have "unat r < 2 ^ 32" by (rule less_le_trans [OF unat_lt8]) simp
  then have "take_bit 32 (unat r) = unat r" by (rule take_bit_nat_eq_self)
  then have c: "unat (ucast l :: u8) = unat l" "unat (ucast r :: u32) = unat r" using l
    by (simp_all add: unsigned_ucast_eq take_bit_nat_eq_self)
  show ?thesis using c by (metis word_unat_eq_iff)
qed

lemma dst_okD:
  assumes "dst_ok cx cg n s d" "\<not> cg_loc_is_slot d"
  shows "unat d < 256" "ucast d \<noteq> CG_REG_SP" "ucast d \<noteq> CG_REG_ZERO" "ucast d \<noteq> CG_REG_SCRATCH" "\<not> scratch n (ucast d)"
proof -
  show d: "unat d < 256" "\<not> scratch n (ucast d)" using assms by (simp_all add: dst_ok_def loc_ok_def)
  show "ucast d \<noteq> CG_REG_SP" "ucast d \<noteq> CG_REG_ZERO" using assms reg_loc_eq [OF d(1)] by (auto simp: dst_ok_def)
  show "ucast d \<noteq> CG_REG_SCRATCH" using d(2) by (auto simp: scratch_def)
qed

text \<open>A state that differs in scratch registers and in the register \<open>d\<close>.\<close>

lemma writes_reg:
  assumes "dst_ok cx cg n s d" "\<not> cg_loc_is_slot d" "same_but n s s1" "vm_ok cx s"
  shows "writes_loc cx cg n d x s (set_R s1 (ucast d) x)"
proof -
  note D = dst_okD [OF assms(1,2)] and B = same_butD [OF assms(3)]
  have "loc_val cg (set_R s1 (ucast d) x) l = (if l = d then x else loc_val cg s l)" if l: "loc_ok cx cg n s l" for l
  proof (cases "cg_loc_is_slot l")
    case True
    then show ?thesis using assms(2) D(2) B(5) by (auto simp: loc_val_def)
  next
    case False
    then have "unat l < 256" "\<not> scratch n (ucast l)" using l by (simp_all add: loc_ok_def)
    moreover have "(ucast l :: u8) = ucast d \<longleftrightarrow> l = d" using reg_loc_eq [OF \<open>unat l < 256\<close>, of "ucast d"] D(1) reg_loc_eq [OF D(1), of "ucast d"] by metis
    ultimately show ?thesis using False B(1) by (simp add: loc_val_def)
  qed
  moreover have "vm_ok cx (set_R s1 (ucast d) x)" using assms(4) B(3) by simp
  ultimately show ?thesis unfolding writes_loc_def
    using D(2) B(1) [OF sp_not_scratch(1)] B(2,8) by simp
qed

text \<open>A store to the slot \<open>d\<close> from a state that differs in scratch registers.\<close>

lemma writes_slot:
  assumes "loc_ok cx cg n s d" "cg_loc_is_slot d" "same_but n s s1" "vm_ok cx s"
  shows "writes_loc cx cg n d x s (slot_put (loc_off cg d) x s1)"
proof -
  note B = same_butD [OF assms(3)]
  have f: "in_frame cx s (loc_off cg d)" using assms(1,2) by (simp add: loc_ok_def)
  then have f1: "in_frame cx s1 (loc_off cg d)" using B(6) by simp
  have v1: "vm_ok cx s1" using assms(4) B(3) by simp
  note P = slot_put_ok [OF v1 f1, of x]
  have "loc_val cg (slot_put (loc_off cg d) x s1) l = (if l = d then x else loc_val cg s l)" if l: "loc_ok cx cg n s l" for l
  proof (cases "cg_loc_is_slot l")
    case True
    show ?thesis
    proof (cases "l = d")
      case False
      have "in_frame cx s1 (loc_off cg l)" using l True B(6) by (simp add: loc_ok_def)
      then have "slot_val (slot_put (loc_off cg d) x s1) (loc_off cg l) = slot_val s1 (loc_off cg l)"
        by (rule slot_put_other [OF v1 f1]) (use loc_disjoint [OF l assms(1) True assms(2) False] in blast)
      then show ?thesis using True False B(5) by (simp add: loc_val_def)
    qed (use assms(2) P(2) in \<open>simp add: loc_val_def\<close>)
  next
    case False
    then have "\<not> scratch n (ucast l)" using l by (simp add: loc_ok_def)
    then show ?thesis using False assms(2) B(1) by (auto simp: loc_val_def)
  qed
  moreover have "mem_same_but (loc_bytes cg s d) (heap_of s) (heap_of (slot_put (loc_off cg d) x s1))"
    using agree_same_but [OF P(3)] assms(2) B(2,7) by (simp add: loc_bytes_def)
  ultimately show ?thesis unfolding writes_loc_def using P(1) B(1) [OF sp_not_scratch(1)] B(8) by simp
qed

section \<open>The emitted code of an action\<close>

text \<open>\<open>ws\<close> writes the value \<open>F\<close> of the state to \<open>d\<close>.\<close>

definition code_writes :: "('b, 'v) gen \<Rightarrow> nat \<Rightarrow> u32 list \<Rightarrow> u32 \<Rightarrow> ('h ctx \<Rightarrow> 'h vm \<Rightarrow> bool) \<Rightarrow> ('h vm \<Rightarrow> u32) \<Rightarrow> bool" where
  "code_writes cg n ws d P F \<longleftrightarrow> (\<forall>cx s. vm_ok cx s \<longrightarrow> dst_ok cx cg n s d \<longrightarrow> P cx s \<longrightarrow>
     (\<exists>s'. run cx ws s = Running s' \<and> writes_loc cx cg n d (F s) s s'))"

lemma run_ldw_nil:
  "vm_ok cx s \<Longrightarrow> in_frame cx s off \<Longrightarrow> run cx (ldw_code d off) s = Running (set_R (sp_scratch off s) d (slot_val s off))"
  using run_ldw [of cx s off d "[]"] by simp

lemma run_stw_nil:
  "vm_ok cx s \<Longrightarrow> in_frame cx s off \<Longrightarrow> src \<noteq> CG_REG_SCRATCH \<Longrightarrow>
    run cx (stw_code off src) s = Running (slot_put off (R s src) (sp_scratch off s))"
  using run_stw [of cx s off src "[]"] by simp

lemma same_but_scratch: "same_but n s (sp_scratch off s)"
  by (intro same_but_set same_but_refl sp_not_scratch(3))

lemma copy_writes:
  assumes st: "scratch n stage" "stage \<noteq> CG_REG_SCRATCH" "stage \<noteq> CG_REG_SP" and "d \<noteq> src"
  shows "\<exists>ws. cg_phi_copy_loc d src stage cg = emit_all ws cg \<and> straight ws
    \<and> code_writes cg n ws d (\<lambda>cx (s :: 'h vm). loc_ok cx cg n s src) (\<lambda>s. loc_val cg s src)"
proof -
  consider "cg_loc_is_slot src" "cg_loc_is_slot d" | "cg_loc_is_slot src" "\<not> cg_loc_is_slot d"
    | "\<not> cg_loc_is_slot src" "cg_loc_is_slot d" | "\<not> cg_loc_is_slot src" "\<not> cg_loc_is_slot d" by blast
  then show ?thesis
  proof cases
    case 1
    let ?ws = "ldw_code stage (loc_off cg src) @ stw_code (loc_off cg d) stage"
    have e: "cg_phi_copy_loc d src stage cg = emit_all ?ws cg"
      using 1 assms(4) by (simp add: cg_phi_copy_loc_def cg_phi_read_to_def cg_phi_write_from_def emit_helpers loc_off_def)
        (simp add: emit_all_def cg_val_slot_off_def)
    have "code_writes cg n ?ws d (\<lambda>cx (s :: 'h vm). loc_ok cx cg n s src) (\<lambda>s. loc_val cg s src)"
      unfolding code_writes_def
    proof (intro allI impI)
      fix cx :: "'h ctx" and s :: "'h vm" assume a: "vm_ok cx s" "dst_ok cx cg n s d" "loc_ok cx cg n s src"
      have f: "in_frame cx s (loc_off cg src)" "in_frame cx s (loc_off cg d)" using a 1 by (simp_all add: loc_ok_def dst_ok_def)
      let ?s1 = "set_R (sp_scratch (loc_off cg src) s) stage (slot_val s (loc_off cg src))"
      let ?s2 = "sp_scratch (loc_off cg d) ?s1"
      have b: "same_but n s ?s2" by (intro same_but_set same_but_refl sp_not_scratch(3) st(1))
      have "run cx ?ws s = run cx (stw_code (loc_off cg d) stage) ?s1" by (rule run_ldw [OF a(1) f(1)])
      also have "\<dots> = Running (slot_put (loc_off cg d) (R ?s1 stage) ?s2)"
        by (rule run_stw_nil) (use a(1) f(2) st scratch_sp in simp_all)
      finally have r: "run cx ?ws s = Running (slot_put (loc_off cg d) (slot_val s (loc_off cg src)) ?s2)" by simp
      have dl: "loc_ok cx cg n s d" using a(2) by (simp add: dst_ok_def)
      have lv: "loc_val cg s src = slot_val s (loc_off cg src)" by (simp add: loc_val_def 1)
      have "writes_loc cx cg n d (loc_val cg s src) s (slot_put (loc_off cg d) (slot_val s (loc_off cg src)) ?s2)"
        unfolding lv by (rule writes_slot [OF dl 1(2) b a(1)])
      then show "\<exists>s'. run cx ?ws s = Running s' \<and> writes_loc cx cg n d (loc_val cg s src) s s'" using r by blast
    qed
    then show ?thesis using e by (intro exI [of _ ?ws]) simp
  next
    case 2
    let ?ws = "ldw_code (ucast d) (loc_off cg src)"
    have e: "cg_phi_copy_loc d src stage cg = emit_all ?ws cg"
      using 2 assms(4) by (simp add: cg_phi_copy_loc_def cg_phi_read_to_def emit_helpers loc_off_def)
    have "code_writes cg n ?ws d (\<lambda>cx (s :: 'h vm). loc_ok cx cg n s src) (\<lambda>s. loc_val cg s src)"
      unfolding code_writes_def
    proof (intro allI impI)
      fix cx :: "'h ctx" and s :: "'h vm" assume a: "vm_ok cx s" "dst_ok cx cg n s d" "loc_ok cx cg n s src"
      have f: "in_frame cx s (loc_off cg src)" using a 2 by (simp add: loc_ok_def)
      show "\<exists>s'. run cx ?ws s = Running s' \<and> writes_loc cx cg n d (loc_val cg s src) s s'"
        unfolding run_ldw_nil [OF a(1) f] using writes_reg [OF a(2) 2(2) same_but_scratch a(1)] 2(1) by (auto simp: loc_val_def)
    qed
    then show ?thesis using e by (intro exI [of _ ?ws]) simp
  next
    case 3
    let ?ws = "stw_code (loc_off cg d) (ucast src)"
    have e: "cg_phi_copy_loc d src stage cg = emit_all ?ws cg"
      using 3 assms(4) by (simp add: cg_phi_copy_loc_def cg_phi_write_from_def emit_helpers loc_off_def)
    have "code_writes cg n ?ws d (\<lambda>cx (s :: 'h vm). loc_ok cx cg n s src) (\<lambda>s. loc_val cg s src)"
      unfolding code_writes_def
    proof (intro allI impI)
      fix cx :: "'h ctx" and s :: "'h vm" assume a: "vm_ok cx s" "dst_ok cx cg n s d" "loc_ok cx cg n s src"
      have f: "in_frame cx s (loc_off cg d)" using a 3 by (simp add: loc_ok_def dst_ok_def)
      have "\<not> scratch n (ucast src)" using a(3) 3 by (simp add: loc_ok_def)
      then have ns: "ucast src \<noteq> CG_REG_SCRATCH" using sp_not_scratch(3) by metis
      show "\<exists>s'. run cx ?ws s = Running s' \<and> writes_loc cx cg n d (loc_val cg s src) s s'"
        unfolding run_stw_nil [OF a(1) f ns] using writes_slot [OF _ 3(2) same_but_scratch a(1)] a(2) 3(1) by (auto simp: loc_val_def dst_ok_def)
    qed
    then show ?thesis using e by (intro exI [of _ ?ws]) simp
  next
    case 4
    let ?ws = "[enc_r (op_value CVM_OP_MOV) (ucast d) (ucast src) 0]"
    have e: "cg_phi_copy_loc d src stage cg = emit_all ?ws cg" using 4 assms(4) by (simp add: cg_phi_copy_loc_def emit_all_one)
    have "code_writes cg n ?ws d (\<lambda>cx (s :: 'h vm). loc_ok cx cg n s src) (\<lambda>s. loc_val cg s src)"
      unfolding code_writes_def using writes_reg [OF _ 4(2) same_but_refl] 4(1) by (auto simp: loc_val_def)
    then show ?thesis using e by (intro exI [of _ ?ws]) (simp add: straight_ops_def)
  qed
qed

lemma word_writes:
  assumes st: "scratch n stage" "stage \<noteq> CG_REG_SCRATCH" "stage \<noteq> CG_REG_SP"
  shows "\<exists>ws. cg_phi_emit_word d w stage cg = emit_all ws cg \<and> straight ws \<and> code_writes cg n ws d (\<lambda>cx (s :: 'h vm). True) (\<lambda>s. w)"
proof (cases "cg_loc_is_slot d")
  case True
  let ?ws = "const_code stage w @ stw_code (loc_off cg d) stage"
  have e: "cg_phi_emit_word d w stage cg = emit_all ?ws cg"
    using True by (simp add: cg_phi_emit_word_def cg_phi_write_from_def emit_helpers loc_off_def) (simp add: emit_all_def cg_val_slot_off_def)
  have "code_writes cg n ?ws d (\<lambda>cx (s :: 'h vm). True) (\<lambda>s. w)"
    unfolding code_writes_def
  proof (intro allI impI)
    fix cx :: "'h ctx" and s :: "'h vm" assume a: "vm_ok cx s" "dst_ok cx cg n s d"
    have dl: "loc_ok cx cg n s d" using a(2) by (simp add: dst_ok_def)
    have f: "in_frame cx s (loc_off cg d)" using dl True by (simp add: loc_ok_def)
    have b: "same_but n s (sp_scratch (loc_off cg d) (set_R s stage w))" by (intro same_but_set same_but_refl sp_not_scratch(3) st(1))
    have "run cx ?ws s = run cx (stw_code (loc_off cg d) stage) (set_R s stage w)" by simp
    also have "\<dots> = Running (slot_put (loc_off cg d) (R (set_R s stage w) stage) (sp_scratch (loc_off cg d) (set_R s stage w)))"
      by (rule run_stw_nil) (use a(1) f st in simp_all)
    finally have r: "run cx ?ws s = Running (slot_put (loc_off cg d) w (sp_scratch (loc_off cg d) (set_R s stage w)))" by simp
    show "\<exists>s'. run cx ?ws s = Running s' \<and> writes_loc cx cg n d w s s'" using r writes_slot [OF dl True b a(1)] by blast
  qed
  then show ?thesis using e by (intro exI [of _ ?ws]) simp
next
  case False
  let ?ws = "const_code (ucast d) w"
  have r: "run cx ?ws s = Running (set_R s (ucast d) w)" for cx :: "'h ctx" and s using run_const [of cx "ucast d" w "[]" s] by simp
  have "code_writes cg n ?ws d (\<lambda>cx (s :: 'h vm). True) (\<lambda>s. w)"
    unfolding code_writes_def r using writes_reg [OF _ False same_but_refl] by blast
  then show ?thesis using False by (intro exI [of _ ?ws]) (simp add: cg_phi_emit_word_def emit_helpers)
qed

text \<open>A constant integer, as \<open>cg_reg_for\<close> materialises it.\<close>

definition int_const :: "('v, 't, 'b) llvm \<Rightarrow> ('b, 'v) gen \<Rightarrow> 'v \<Rightarrow> u32 \<Rightarrow> bool" where
  "int_const L cg v w \<longleftrightarrow> \<not> LLVMIsAGlobalAlias L v \<and> cg_lookup L cg v = Some None \<and> LLVMIsAConstantInt L v
     \<and> (let imm = (if LLVMGetIntTypeWidth L (LLVMTypeOf L v) = 1 then LLVMConstIntGetZExtValue L v
          else LLVMConstIntGetSExtValue L v) in in_i32_range imm \<and> w = ucast imm)"

lemma const_writes:
  assumes ok: "gen_ok cg" "cg_next_reg cg \<le> 252" "n \<le> cg_next_reg cg" and v: "int_const L cg v w"
  shows "\<exists>ws. cg_phi_emit_const L d v cg = Some (emit_all ws cg) \<and> straight ws \<and> code_writes cg n ws d (\<lambda>cx (s :: 'h vm). True) (\<lambda>s. w)"
proof -
  let ?r = "of_nat (cg_next_reg cg) :: u8"
  have rf: "cg_reg_for L v cg = cg_fresh_const w cg"
    using v by (subst cg_reg_for.simps) (auto simp: int_const_def Let_def)
  have fc: "cg_fresh_const w cg = Some (?r, (emit_all (const_code ?r w) cg)\<lparr>cg_next_reg := Suc (cg_next_reg cg)\<rparr>)"
    using ok by (simp add: cg_fresh_const_def cg_alloc_reg_def gen_ok_def CG_MAX_EMIT_REG_def emit_helpers) (simp add: emit_all_def)
  have u: "unat ?r = cg_next_reg cg" using ok(2) by (simp add: unat_of_nat take_bit_nat_eq_self)
  have sr: "scratch n ?r" "?r \<noteq> CG_REG_SCRATCH" "?r \<noteq> CG_REG_SP"
    using ok(2,3) u by (auto simp: scratch_def CG_REG_SCRATCH_def CG_REG_SP_def)
  have run: "run cx (const_code ?r w @ ws) s = run cx ws (set_R s ?r w)" for cx :: "'h ctx" and s ws by simp
  show ?thesis
  proof (cases "cg_loc_is_slot d")
    case True
    let ?ws = "const_code ?r w @ stw_code (loc_off cg d) ?r"
    have e: "cg_phi_emit_const L d v cg = Some (emit_all ?ws cg)"
      using True unfolding cg_phi_emit_const_def rf fc
      by (simp add: cg_phi_write_from_def emit_helpers loc_off_def) (simp add: emit_all_def cg_val_slot_off_def)
    obtain vs where "cg_phi_emit_word d w ?r cg = emit_all vs cg" "straight vs" "code_writes cg n vs d (\<lambda>cx (s :: 'h vm). True) (\<lambda>s. w)"
      using word_writes [OF sr] by blast
    moreover have "cg_phi_emit_word d w ?r cg = emit_all ?ws cg"
      using True by (simp add: cg_phi_emit_word_def cg_phi_write_from_def emit_helpers loc_off_def) (simp add: emit_all_def cg_val_slot_off_def)
    ultimately show ?thesis using e by metis
  next
    case False
    let ?ws = "const_code ?r w @ (if ucast d \<noteq> ?r then [enc_r (op_value CVM_OP_MOV) (ucast d) ?r 0] else [])"
    have e: "cg_phi_emit_const L d v cg = Some (emit_all ?ws cg)"
      using False unfolding cg_phi_emit_const_def rf fc by (simp add: cg_phi_write_from_def emit_all_one) (simp add: emit_all_def)
    have "code_writes cg n ?ws d (\<lambda>cx (s :: 'h vm). True) (\<lambda>s. w)"
      unfolding code_writes_def
    proof (intro allI impI)
      fix cx :: "'h ctx" and s :: "'h vm" assume a: "vm_ok cx s" "dst_ok cx cg n s d"
      have ne: "ucast d \<noteq> ?r" using dst_okD(5) [OF a(2) False] sr(1) by metis
      have "run cx ?ws s = Running (set_R (set_R s ?r w) (ucast d) w)" using ne by (simp add: run)
      moreover have "same_but n s (set_R s ?r w)" by (intro same_but_set same_but_refl sr(1))
      ultimately show "\<exists>s'. run cx ?ws s = Running s' \<and> writes_loc cx cg n d w s s'"
        using writes_reg [OF a(2) False _ a(1)] by blast
    qed
    then show ?thesis using e by (intro exI [of _ ?ws]) (simp add: straight_ops_def)
  qed
qed

section \<open>The loop\<close>

lemma emit_all_same:
  "loc_ok cx (emit_all ws cg) n s l = loc_ok cx cg n s l" "dst_ok cx (emit_all ws cg) n s l = dst_ok cx cg n s l"
  "loc_val (emit_all ws cg) s l = loc_val cg s l" "loc_bytes (emit_all ws cg) s l = loc_bytes cg s l"
  "gen_ok (emit_all ws cg) = gen_ok cg" "cg_next_reg (emit_all ws cg) = cg_next_reg cg"
  "int_const L (emit_all ws cg) v w = int_const L cg v w"
  by (simp_all add: loc_ok_def dst_ok_def loc_val_def loc_bytes_def loc_off_def gen_ok_def int_const_def emit_all_def
      cg_val_slot_off_def cg_lookup_def)

definition in_sync :: "'h ctx \<Rightarrow> ('b, 'v) gen \<Rightarrow> nat \<Rightarrow> 'h vm \<Rightarrow> (u32 \<Rightarrow> u32) \<Rightarrow> bool" where
  "in_sync cx cg n s V \<longleftrightarrow> (\<forall>l. loc_ok cx cg n s l \<longrightarrow> loc_val cg s l = V l)"

definition moves_fit :: "'h ctx \<Rightarrow> ('b, 'v) gen \<Rightarrow> nat \<Rightarrow> 'v phi_move list \<Rightarrow> 'h vm \<Rightarrow> bool" where
  "moves_fit cx cg n moves s \<longleftrightarrow> (\<forall>mv \<in> set moves. dst_ok cx cg n s (pm_dst mv)
     \<and> (\<forall>l. pm_src mv = SRC_LOC l \<longrightarrow> loc_ok cx cg n s l))"

lemma moves_fit_SP:
  assumes "R s' CG_REG_SP = R s CG_REG_SP"
  shows "moves_fit cx cg n moves s' = moves_fit cx cg n moves s" "dst_ok cx cg n s' l = dst_ok cx cg n s l"
  by (simp_all add: moves_fit_def dst_ok_def loc_ok_SP(1) [OF assms])

text \<open>What holds after code that changes the locations in \<open>S\<close> only.\<close>

definition keeps_but :: "'h ctx \<Rightarrow> ('b, 'v) gen \<Rightarrow> u32 set \<Rightarrow> 'h vm \<Rightarrow> 'h vm \<Rightarrow> bool" where
  "keeps_but cx cg S s s' \<longleftrightarrow> vm_ok cx s' \<and> vm_host s' = vm_host s \<and> R s' CG_REG_SP = R s CG_REG_SP
     \<and> mem_same_but (\<Union> (loc_bytes cg s ` S)) (heap_of s) (heap_of s')"

lemma keeps_but_trans:
  assumes "keeps_but cx cg S s s1" "keeps_but cx cg S s1 s2"
  shows "keeps_but cx cg S s s2"
proof -
  have sp: "R s1 CG_REG_SP = R s CG_REG_SP" using assms(1) by (simp add: keeps_but_def)
  show ?thesis
    using assms mem_same_but_trans [of "\<Union> (loc_bytes cg s ` S)" "heap_of s" "heap_of s1" "\<Union> (loc_bytes cg s ` S)" "heap_of s2"]
    unfolding keeps_but_def loc_ok_SP(2) [OF sp] by simp
qed

lemma action_run:
  assumes ok: "gen_ok cg" "cg_next_reg cg \<le> 252" "n \<le> cg_next_reg cg"
    and st: "scratch n stage" "stage \<noteq> CG_REG_SCRATCH" "stage \<noteq> CG_REG_SP"
    and act: "act_ok moves (ucast spare) act" and c: "\<And>mv v. mv \<in> set moves \<Longrightarrow> pm_src mv = SRC_CONST v \<Longrightarrow> int_const L cg v (cval v)"
  shows "\<exists>ws. phi_emit L stage act cg = Some (emit_all ws cg) \<and> straight ws
    \<and> (\<forall>(cx :: 'h ctx) s V. vm_ok cx s \<longrightarrow> moves_fit cx cg n moves s \<longrightarrow> dst_ok cx cg n s (ucast spare) \<longrightarrow> in_sync cx cg n s V \<longrightarrow>
       (\<exists>s'. run cx ws s = Running s' \<and> keeps_but cx cg (insert (ucast spare) (pm_dst ` set moves)) s s'
         \<and> in_sync cx cg n s' (act_env cval act V)))"
proof -
  let ?S = "insert (ucast spare) (pm_dst ` set moves)"
  have fin: "keeps_but cx cg ?S s s' \<and> in_sync cx cg n s' (V(d := x))"
    if "d \<in> ?S" "writes_loc cx cg n d x s s'" "in_sync cx cg n s V" for cx :: "'h ctx" and s s' V d x
  proof
    have "loc_bytes cg s d \<subseteq> \<Union> (loc_bytes cg s ` ?S)" using that(1) by blast
    then show "keeps_but cx cg ?S s s'" using that(2) mem_same_but_mono by (auto simp: keeps_but_def writes_loc_def)
    have sp: "R s' CG_REG_SP = R s CG_REG_SP" using that(2) by (simp add: writes_loc_def)
    show "in_sync cx cg n s' (V(d := x))" using that(2,3) unfolding in_sync_def loc_ok_SP(1) [OF sp] writes_loc_def by auto
  qed
  have dst: "dst_ok cx cg n s d" if "d \<in> ?S" "moves_fit cx cg n moves s" "dst_ok cx cg n s (ucast spare)" for d and cx :: "'h ctx" and s
    using that by (auto simp: moves_fit_def)
  have store: ?thesis if e: "phi_emit L stage act cg = Some (emit_all ws cg)" "straight ws"
    and w: "code_writes cg n ws d (\<lambda>cx (s :: 'h vm). True) (\<lambda>s. x)" and d: "d \<in> ?S" and env: "\<And>V. act_env cval act V = V(d := x)" for ws d x
  proof (intro exI [of _ ws] conjI allI impI e)
    fix cx :: "'h ctx" and s V
    assume a: "vm_ok cx s" "moves_fit cx cg n moves s" "dst_ok cx cg n s (ucast spare)" "in_sync cx cg n s V"
    obtain s' where s': "run cx ws s = Running s'" "writes_loc cx cg n d x s s'"
      using w a(1) dst [OF d a(2,3)] unfolding code_writes_def by blast
    then show "\<exists>s'. run cx ws s = Running s' \<and> keeps_but cx cg ?S s s' \<and> in_sync cx cg n s' (act_env cval act V)"
      using fin [OF d s'(2) a(4)] env by (intro exI [of _ s']) simp
  qed
  show ?thesis
  proof (cases act)
    case Act_None
    then show ?thesis by (intro exI [of _ "[]"]) (auto simp: phi_emit_def keeps_but_def)
  next
    case (Act_Const d v)
    have d: "d \<in> ?S" "int_const L cg v (cval v)" using act c by (auto simp: Act_Const)
    obtain ws where ws: "cg_phi_emit_const L d v cg = Some (emit_all ws cg)" "straight ws"
      "code_writes cg n ws d (\<lambda>cx (s :: 'h vm). True) (\<lambda>s. cval v)" using const_writes [OF ok d(2)] by blast
    show ?thesis by (rule store [OF _ ws(2,3) d(1)]) (simp_all add: phi_emit_def Act_Const ws(1))
  next
    case (Act_Word d w)
    have d: "d \<in> ?S" using act by (auto simp: Act_Word)
    obtain ws where ws: "cg_phi_emit_word d w stage cg = emit_all ws cg" "straight ws"
      "code_writes cg n ws d (\<lambda>cx (s :: 'h vm). True) (\<lambda>s. w)" using word_writes [OF st] by blast
    show ?thesis by (rule store [OF _ ws(2,3) d]) (simp_all add: phi_emit_def Act_Word ws(1))
  next
    case (Act_Copy d src)
    have d: "d \<in> ?S" "d \<noteq> src" "src \<in> ?S \<union> {l. SRC_LOC l \<in> pm_src ` set moves}" using act by (auto simp: Act_Copy)
    obtain ws where ws: "cg_phi_copy_loc d src stage cg = emit_all ws cg" "straight ws"
      "code_writes cg n ws d (\<lambda>cx (s :: 'h vm). loc_ok cx cg n s src) (\<lambda>s. loc_val cg s src)" using copy_writes [OF st d(2)] by blast
    have src: "loc_ok cx cg n s src" if "moves_fit cx cg n moves s" "dst_ok cx cg n s (ucast spare)" for cx :: "'h ctx" and s
      using that d(3) dst [OF _ that, of src] by (force simp: moves_fit_def dst_ok_def)
    show ?thesis
    proof (intro exI [of _ ws] conjI allI impI)
      show "phi_emit L stage act cg = Some (emit_all ws cg)" "straight ws" using ws(1,2) by (simp_all add: phi_emit_def Act_Copy)
      fix cx :: "'h ctx" and s V
      assume a: "vm_ok cx s" "moves_fit cx cg n moves s" "dst_ok cx cg n s (ucast spare)" "in_sync cx cg n s V"
      obtain s' where s': "run cx ws s = Running s'" "writes_loc cx cg n d (loc_val cg s src) s s'"
        using ws(3) a(1) dst [OF d(1) a(2,3)] src [OF a(2,3)] unfolding code_writes_def by blast
      have "loc_val cg s src = V src" using a(4) src [OF a(2,3)] by (simp add: in_sync_def)
      then show "\<exists>s'. run cx ws s = Running s' \<and> keeps_but cx cg ?S s s' \<and> in_sync cx cg n s' (act_env cval act V)"
        using s' fin [OF d(1) s'(2) a(4)] by (simp add: Act_Copy)
    qed
  qed
qed

lemma keeps_but_refl: "vm_ok cx s \<Longrightarrow> keeps_but cx cg S s s"
  by (simp add: keeps_but_def)

lemma loop_run:
  assumes "phi_inv cval moves (ucast spare) E V st"
    "gen_ok cg" "cg_next_reg cg \<le> 252" "n \<le> cg_next_reg cg" "scratch n stage" "stage \<noteq> CG_REG_SCRATCH" "stage \<noteq> CG_REG_SP"
    "\<And>mv v. mv \<in> set moves \<Longrightarrow> pm_src mv = SRC_CONST v \<Longrightarrow> int_const L cg v (cval v)"
    "vm_ok cx (s :: 'h vm)" "moves_fit cx cg n moves s" "dst_ok cx cg n s (ucast spare)" "in_sync cx cg n s V"
  shows "\<exists>ws s' V' st'. phi_loop L moves spare stage st cg = Some (emit_all ws cg) \<and> straight ws \<and> run cx ws s = Running s'
    \<and> keeps_but cx cg (insert (ucast spare) (pm_dst ` set moves)) s s' \<and> in_sync cx cg n s' V'
    \<and> phi_inv cval moves (ucast spare) E V' st' \<and> ps_todo st' = []"
  using assms
proof (induction "phi_measure st" arbitrary: V st cg s rule: less_induct)
  case less
  note p = less.prems
  show ?case
  proof (cases "ps_todo st = []")
    case True
    then show ?thesis using p(1,9,12) keeps_but_refl [OF p(9)]
      by (intro exI [of _ "[]"] exI [of _ s] exI [of _ V] exI [of _ st]) (simp add: phi_loop.simps)
  next
    case False
    obtain act st1 where st1: "phi_step moves spare st = Some (act, st1)" "phi_inv cval moves (ucast spare) E (act_env cval act V) st1"
      "phi_measure st1 < phi_measure st" "act_ok moves (ucast spare) act" by (rule phi_step_progress [OF p(1) False])
    obtain ws1 where ws1: "phi_emit L stage act cg = Some (emit_all ws1 cg)" "straight ws1"
      and r: "\<forall>(cx :: 'h ctx) s V. vm_ok cx s \<longrightarrow> moves_fit cx cg n moves s \<longrightarrow> dst_ok cx cg n s (ucast spare) \<longrightarrow> in_sync cx cg n s V \<longrightarrow>
       (\<exists>s'. run cx ws1 s = Running s' \<and> keeps_but cx cg (insert (ucast spare) (pm_dst ` set moves)) s s'
         \<and> in_sync cx cg n s' (act_env cval act V))"
      using action_run [OF p(2-7) st1(4), where ?'h = 'h and L = L] p(8) by blast
    obtain s1 where s1: "run cx ws1 s = Running s1" "keeps_but cx cg (insert (ucast spare) (pm_dst ` set moves)) s s1"
      "in_sync cx cg n s1 (act_env cval act V)" using r p(9-12) by blast
    have sp: "R s1 CG_REG_SP = R s CG_REG_SP" and v1: "vm_ok cx s1" using s1(2) by (simp_all add: keeps_but_def)
    note same = emit_all_same [where ws = ws1] and SP = moves_fit_SP [OF sp]
    have fit: "moves_fit cx (emit_all ws1 cg) n moves s1" "in_sync cx (emit_all ws1 cg) n s1 (act_env cval act V)"
      using p(10) s1(3) unfolding SP(1) [symmetric] by (simp_all only: moves_fit_def in_sync_def same)
    obtain ws2 s2 V2 st2 where I: "phi_loop L moves spare stage st1 (emit_all ws1 cg) = Some (emit_all ws2 (emit_all ws1 cg))"
      "straight ws2" "run cx ws2 s1 = Running s2" "keeps_but cx (emit_all ws1 cg) (insert (ucast spare) (pm_dst ` set moves)) s1 s2"
      "in_sync cx (emit_all ws1 cg) n s2 V2" "phi_inv cval moves (ucast spare) E V2 st2" "ps_todo st2 = []"
      using less.hyps [OF st1(3,2), of "emit_all ws1 cg" s1] p(2-8,11) fit v1 SP(2) unfolding same by blast
    have "phi_loop L moves spare stage st cg = Some (emit_all (ws1 @ ws2) cg)"
      using False by (subst phi_loop.simps) (simp add: st1(1) ws1(1) I(1))
    moreover have "straight (ws1 @ ws2)" using ws1(2) I(2) by simp
    moreover have "run cx (ws1 @ ws2) s = Running s2" using s1(1) I(3) by (simp add: run_append)
    moreover have "keeps_but cx cg (insert (ucast spare) (pm_dst ` set moves)) s s2"
      using keeps_but_trans [OF s1(2)] I(4) unfolding keeps_but_def same by blast
    moreover have "in_sync cx cg n s2 V2" using I(5) unfolding in_sync_def same .
    ultimately show ?thesis using I(6,7) by blast
  qed
qed

section \<open>The moves of an edge\<close>

lemma next_reg_same:
  "loc_ok cx (cg\<lparr>cg_next_reg := k\<rparr>) n s l = loc_ok cx cg n s l" "dst_ok cx (cg\<lparr>cg_next_reg := k\<rparr>) n s l = dst_ok cx cg n s l"
  "loc_val (cg\<lparr>cg_next_reg := k\<rparr>) s l = loc_val cg s l" "loc_bytes (cg\<lparr>cg_next_reg := k\<rparr>) s l = loc_bytes cg s l"
  "int_const L (cg\<lparr>cg_next_reg := k\<rparr>) v w = int_const L cg v w"
  by (simp_all add: loc_ok_def dst_ok_def loc_val_def loc_bytes_def loc_off_def int_const_def cg_val_slot_off_def cg_lookup_def)

lemma loc_reg: "ucast (ucast (r :: u8) :: u32) = r"
  by (rule bit_word_eqI) (auto simp: bit_simps)

text \<open>The scratch register that saves a value of a cycle.\<close>

lemma spare_loc:
  assumes "k \<le> 250"
  shows "dst_ok cx cg (Suc k) s (ucast (of_nat k :: u8))" "loc_ok cx cg k s l \<Longrightarrow> l \<noteq> ucast (of_nat k :: u8)"
    "loc_bytes cg s (ucast (of_nat k :: u8)) = {}" "loc_ok cx cg k s l \<Longrightarrow> loc_ok cx cg (Suc k) s l"
proof -
  let ?r = "of_nat k :: u8"
  have u: "unat ?r = k" using assms by (simp add: unat_of_nat take_bit_nat_eq_self)
  have c: "(ucast (ucast ?r :: u32) :: u8) = ?r" by (rule loc_reg)
  have "unat (ucast ?r :: u32) < 256" using u assms by (simp add: unsigned_ucast_eq take_bit_nat_eq_self)
  moreover have ns: "\<not> cg_loc_is_slot (ucast ?r)"
  proof -
    have f: "PHI_SLOT_FLAG = push_bit 16 1" by (simp add: PHI_SLOT_FLAG_def push_bit_eq_mult)
    have "16 \<le> n" if "bit PHI_SLOT_FLAG n" for n using that unfolding f bit_push_bit_iff by blast
    then have "ucast ?r AND PHI_SLOT_FLAG = 0" by (intro bit_word_eqI) (fastforce simp: bit_simps)
    then show ?thesis by (simp add: cg_loc_is_slot_def)
  qed
  moreover have ne: "?r \<noteq> CG_REG_SCRATCH" "?r \<noteq> CG_REG_SP" "?r \<noteq> CG_REG_ZERO"
    using u assms by (auto simp: CG_REG_SCRATCH_def CG_REG_SP_def CG_REG_ZERO_def)
  moreover have "\<not> scratch (Suc k) ?r" using u ne(1) by (simp add: scratch_def)
  moreover have "(ucast ?r :: u32) \<noteq> ucast CG_REG_SP" "(ucast ?r :: u32) \<noteq> ucast CG_REG_ZERO" using ne
    by (metis loc_reg)+
  ultimately show "dst_ok cx cg (Suc k) s (ucast ?r)" by (simp add: dst_ok_def loc_ok_def c)
  have "scratch k ?r" using u assms by (simp add: scratch_def)
  then show "loc_ok cx cg k s l \<Longrightarrow> l \<noteq> ucast ?r" using c ns by (auto simp: loc_ok_def)
  show "loc_bytes cg s (ucast ?r) = {}" using ns by (simp add: loc_bytes_def)
  have "scratch k q" if "scratch (Suc k) q" for q using that by (auto simp: scratch_def)
  then show "loc_ok cx cg k s l \<Longrightarrow> loc_ok cx cg (Suc k) s l" unfolding loc_ok_def by (auto split: if_splits)
qed

text \<open>The moves can be done on the machine \<open>s\<close>: the destinations differ, locations are in the frame or registers in
  use, and the constants have the values \<open>cval\<close>.\<close>

definition edge_ok ::
  "('v, 't, 'b) llvm \<Rightarrow> ('v \<Rightarrow> u32) \<Rightarrow> ('b, 'v) gen \<Rightarrow> 'v phi_move list \<Rightarrow> 'h ctx \<Rightarrow> 'h vm \<Rightarrow> bool" where
  "edge_ok L cval cg moves cx s \<longleftrightarrow> gen_ok cg \<and> cg_next_reg cg \<le> 250 \<and> length moves \<le> MAXM \<and> distinct (map pm_dst moves)
     \<and> vm_ok cx s \<and> moves_fit cx cg (cg_next_reg cg) moves s
     \<and> (\<forall>mv \<in> set moves. pm_src mv \<noteq> SRC_LOC (pm_dst mv) \<and> (\<forall>v. pm_src mv = SRC_CONST v \<longrightarrow> int_const L cg v (cval v)))"

text \<open>The destinations get the values the sources had, and nothing else changes but scratch registers.\<close>

definition moved :: "('v \<Rightarrow> u32) \<Rightarrow> ('b, 'v) gen \<Rightarrow> 'v phi_move list \<Rightarrow> 'h ctx \<Rightarrow> 'h vm \<Rightarrow> 'h vm \<Rightarrow> bool" where
  "moved cval cg moves cx s s' \<longleftrightarrow>
     (\<forall>mv \<in> set moves. loc_val cg s' (pm_dst mv) = src_value cval (loc_val cg s) (pm_src mv))
     \<and> (\<forall>l. loc_ok cx cg (cg_next_reg cg) s l \<longrightarrow> l \<notin> pm_dst ` set moves \<longrightarrow> loc_val cg s' l = loc_val cg s l)
     \<and> keeps_but cx cg (pm_dst ` set moves) s s'"

lemma moved_pc: "moved cval cg moves cx s (set_pc s' p) = moved cval cg moves cx s s'"
  by (simp add: moved_def keeps_but_def loc_val_def set_pc_def slot_val_def slot_addr_def heap_of_def vm_ok_def)

lemma sequence_run:
  assumes "edge_ok L cval cg moves cx s"
  shows "\<exists>cg' ws s'. phi_sequence L moves cg = Some cg' \<and> cg_code cg' = cg_code cg @ ws \<and> straight ws
    \<and> run cx ws s = Running s' \<and> moved cval cg moves cx s s'"
proof (cases "moves = []")
  case True
  then show ?thesis using assms by (intro exI [of _ cg] exI [of _ "[]"] exI [of _ s]) (simp add: phi_sequence_def moved_def edge_ok_def keeps_but_refl)
next
  case False
  note A = assms [unfolded edge_ok_def, THEN conjunct1] and B = assms [unfolded edge_ok_def]
  let ?k = "cg_next_reg cg" and ?D = "pm_dst ` set moves"
  let ?spare = "of_nat ?k :: u8" and ?stage = "of_nat (Suc ?k) :: u8"
  let ?cg = "cg\<lparr>cg_next_reg := Suc (Suc ?k)\<rparr>"
  have k: "?k \<le> 250" and fit: "moves_fit cx cg ?k moves s" and v: "vm_ok cx s" using B by simp_all
  note S = spare_loc [OF k] and N = next_reg_same
  have seq: "phi_sequence L moves cg = phi_loop L moves ?spare ?stage (phi_init moves ?spare) ?cg"
    using False A k by (simp add: phi_sequence_def cg_alloc_reg_def gen_ok_def CG_MAX_EMIT_REG_def)
  have dst: "dst_ok cx cg (Suc ?k) s d" "d \<noteq> ucast ?spare" if "d \<in> ?D" for d
  proof -
    have "dst_ok cx cg ?k s d" using that fit by (auto simp: moves_fit_def)
    then show "dst_ok cx cg (Suc ?k) s d" "d \<noteq> ucast ?spare" using S(2,4) unfolding dst_ok_def by blast+
  qed
  have src: "loc_ok cx cg (Suc ?k) s l" "l \<noteq> ucast ?spare" if "mv \<in> set moves" "pm_src mv = SRC_LOC l" for mv l
    using that fit S(2,4) unfolding moves_fit_def by blast+
  have "phi_moves_ok moves (ucast ?spare)" using B dst(2) src(2) by (auto simp: phi_moves_ok_def)
  note I = phi_init_inv [OF this, of cval "loc_val cg s"]
  have u: "unat ?stage = Suc ?k" using k by (simp add: unat_of_nat take_bit_nat_eq_self del: of_nat_Suc)
  have stage: "scratch (Suc ?k) ?stage" "?stage \<noteq> CG_REG_SCRATCH" "?stage \<noteq> CG_REG_SP"
    using u k by (auto simp: scratch_def CG_REG_SCRATCH_def CG_REG_SP_def simp del: of_nat_Suc)
  have fit': "moves_fit cx ?cg (Suc ?k) moves s" unfolding moves_fit_def N using dst(1) src(1) by blast
  have ok: "gen_ok ?cg" "cg_next_reg ?cg \<le> 252" "Suc ?k \<le> cg_next_reg ?cg" using A k by (simp_all add: gen_ok_def)
  have c: "int_const L ?cg v (cval v)" if "mv \<in> set moves" "pm_src mv = SRC_CONST v" for mv v unfolding N using B that by blast
  have d: "dst_ok cx ?cg (Suc ?k) s (ucast ?spare)" unfolding N by (rule S(1))
  have y: "in_sync cx ?cg (Suc ?k) s (loc_val cg s)" by (simp add: in_sync_def N)
  obtain ws s' V' st' where L: "phi_loop L moves ?spare ?stage (phi_init moves ?spare) ?cg = Some (emit_all ws ?cg)"
    "straight ws" "run cx ws s = Running s'" "keeps_but cx ?cg (insert (ucast ?spare) ?D) s s'" "in_sync cx ?cg (Suc ?k) s' V'"
    "phi_inv cval moves (ucast ?spare) (loc_val cg s) V' st'" "ps_todo st' = []"
    using loop_run [OF I ok stage _ v fit' d y, where L = L] c by blast
  have sp: "R s' CG_REG_SP = R s CG_REG_SP" using L(4) by (simp add: keeps_but_def)
  have V: "loc_val cg s' l = V' l" if "loc_ok cx cg (Suc ?k) s l" for l
    using L(5) that unfolding in_sync_def N loc_ok_SP(1) [OF sp] by blast
  note E = phi_inv_end [OF L(6,7)]
  have "moved cval cg moves cx s s'"
    unfolding moved_def
  proof (intro conjI ballI allI impI)
    fix mv assume mv: "mv \<in> set moves"
    then have "loc_ok cx cg (Suc ?k) s (pm_dst mv)" using dst(1) by (auto simp: dst_ok_def)
    then show "loc_val cg s' (pm_dst mv) = src_value cval (loc_val cg s) (pm_src mv)" using V E(1) [OF mv] by simp
  next
    fix l assume "loc_ok cx cg ?k s l" "l \<notin> ?D"
    then show "loc_val cg s' l = loc_val cg s l" using V E(2) S(2,4) by metis
  next
    show "keeps_but cx cg ?D s s'" using L(4) by (simp add: keeps_but_def N S(3))
  qed
  then show ?thesis using seq L(1-3) by (intro exI [of _ "emit_all ws ?cg"] exI [of _ ws] exI [of _ s']) (simp add: emit_all_def)
qed

text \<open>C35. The moves of an edge happen at once: for moves with different destinations the ordering succeeds, and the
  machine, running the emitted code from its first to behind its last word, gives every destination (a register or
  a slot of the frame) the value its source (a location, a constant or a word) had at the start, whatever cycles
  the moves form, and changes no other location in use, no other byte and nothing of the host.\<close>

theorem phi_moves_parallel:
  assumes "edge_ok L cval cg moves cx s"
  shows "\<exists>cg'. phi_sequence L moves cg = Some cg' \<and>
    (\<forall>code. take (length (cg_code cg')) code = cg_code cg' \<and> runs_code cx code \<and> vm_pc s = of_nat (length (cg_code cg)) \<longrightarrow>
      (\<exists>n s'. dispatches cx n s s' \<and> vm_pc s' = of_nat (length (cg_code cg')) \<and> moved cval cg moves cx s s'))"
proof -
  obtain cg' ws s1 where p: "phi_sequence L moves cg = Some cg'" "cg_code cg' = cg_code cg @ ws" "straight ws"
    "run cx ws s = Running s1" "moved cval cg moves cx s s1" using sequence_run [OF assms] by blast
  have "\<exists>n s'. dispatches cx n s s' \<and> vm_pc s' = of_nat (length (cg_code cg')) \<and> moved cval cg moves cx s s'"
    if c: "take (length (cg_code cg')) code = cg_code cg'" "runs_code cx code" "vm_pc s = of_nat (length (cg_code cg))" for code
  proof -
    let ?p = "length (cg_code cg)"
    have "take (length ws) (drop ?p code) = drop ?p (take (?p + length ws) code)" by (simp add: drop_take)
    then have "take (length ws) (drop ?p code) = ws" using c(1) p(2) by simp
    from run_dispatches [OF c(2,3) this p(3,4)] show ?thesis
      using p(5) by (intro exI [of _ "length ws"] exI [of _ "set_pc s1 (of_nat (?p + length ws))"]) (simp add: p(2) moved_pc)
  qed
  then show ?thesis using p(1) by blast
qed

text \<open>A cycle through two registers and the first slot of the frame.\<close>

definition cycle_gen :: "(nat, nat) gen" where
  "cycle_gen = cg_initial\<lparr>cg_next_reg := 12, cg_zero_reg := CG_REG_ZERO\<rparr>"

definition cycle_moves :: "nat phi_move list" where
  "cycle_moves = [\<lparr>pm_dst = 10, pm_src = SRC_LOC 11\<rparr>, \<lparr>pm_dst = 11, pm_src = SRC_LOC 0x10000\<rparr>, \<lparr>pm_dst = 0x10000, pm_src = SRC_LOC 10\<rparr>]"

declare phi_loop.simps [code]

lemma cycle_code: "map_option (\<lambda>cg. length (cg_code cg)) (phi_sequence small_add cycle_moves cycle_gen) = Some 8"
  by code_simp
definition cycle_vm :: "u32 list \<Rightarrow> unit vm" where
  "cycle_vm code = demo_vm code (replicate 48 1) (\<lambda>r. if r = CG_REG_SP then 0 else ucast r)"

lemma cycle_locs:
  "cg_loc_is_slot 0x10000" "\<not> cg_loc_is_slot 10" "\<not> cg_loc_is_slot 11" "loc_off cycle_gen 0x10000 = 0"
  "ucast CG_REG_SP = (255 :: u32)" "ucast CG_REG_ZERO = (253 :: u32)"
  by code_simp+

lemma cycle_vm_simps: "R (cycle_vm c) r = (if r = CG_REG_SP then 0 else ucast r)" "slot_val (cycle_vm c) 0 = 0x01010101" "vm_pc (cycle_vm c) = 0"
  "cx_mem_size (demo_ctx c) = 48"
proof -
  show R: "R (cycle_vm c) r = (if r = CG_REG_SP then 0 else ucast r)" for r by (simp add: cycle_vm_def demo_vm_def set_heap_def)
  have "rd32 (replicate 48 1) 0 = Some 0x01010101" by code_simp
  moreover have "heap_of (cycle_vm c) = replicate 48 1" by (simp add: heap_of_def cycle_vm_def demo_vm_def set_heap_def demo_image_def put_cells_def)
  ultimately show "slot_val (cycle_vm c) 0 = 0x01010101" using R by (simp add: slot_val_def slot_addr_def)
  show "vm_pc (cycle_vm c) = 0" "cx_mem_size (demo_ctx c) = 48"
    by (simp_all add: cycle_vm_def demo_vm_def set_heap_def demo_ctx_def mk_ctx_def demo_image_def)
qed

lemma cycle_edge_ok:
  assumes "0 < length c" "length c < 2 ^ 30"
  shows "edge_ok small_add (\<lambda>_. 0) cycle_gen cycle_moves (demo_ctx c) (cycle_vm c)"
proof -
  have "vm_ok (demo_ctx c) (cycle_vm c)" unfolding cycle_vm_def using assms by (intro demo_ok) simp_all
  moreover have "dst_ok (demo_ctx c) cycle_gen 12 (cycle_vm c) l" if "l \<in> {10, 11, 0x10000}" for l
    using that cycle_locs(1-4) by (auto simp: PHI_SLOT_FLAG_def dst_ok_def loc_ok_def in_frame_def cycle_vm_simps scratch_def CG_REG_SCRATCH_def cycle_locs(5,6))
  ultimately show ?thesis
    by (simp add: edge_ok_def cycle_moves_def moves_fit_def gen_ok_def MAXM_def dst_ok_def) (simp add: cycle_gen_def cg_initial_def)
qed

theorem phi_moves_parallel_witness:
  "\<exists>cg' n s'. phi_sequence small_add cycle_moves cycle_gen = Some cg'
    \<and> dispatches (demo_ctx (cg_code cg')) n (cycle_vm (cg_code cg')) s' \<and> vm_pc s' = 8
    \<and> R s' 10 = 11 \<and> R s' 11 = 0x01010101 \<and> slot_val s' 0 = 10"
proof -
  obtain cg' where g: "phi_sequence small_add cycle_moves cycle_gen = Some cg'" "length (cg_code cg') = 8" using cycle_code by auto
  let ?c = "cg_code cg'"
  have "runs_code (demo_ctx ?c) ?c" using g(2) by (simp add: runs_code_def demo_ctx_def mk_ctx_def demo_image_def)
  moreover have "vm_pc (cycle_vm ?c) = of_nat (length (cg_code cycle_gen))" by (simp add: cycle_vm_simps cycle_gen_def cg_initial_def)
  moreover have "edge_ok small_add (\<lambda>_. 0) cycle_gen cycle_moves (demo_ctx ?c) (cycle_vm ?c)" using g(2) by (intro cycle_edge_ok) simp_all
  ultimately obtain n s' where s': "dispatches (demo_ctx ?c) n (cycle_vm ?c) s'" "vm_pc s' = 8"
    "moved (\<lambda>_. 0) cycle_gen cycle_moves (demo_ctx ?c) (cycle_vm ?c) s'"
    using phi_moves_parallel [of small_add "\<lambda>_. 0" cycle_gen cycle_moves "demo_ctx ?c" "cycle_vm ?c"] g by auto
  have sp: "CG_REG_SP \<noteq> 10" "CG_REG_SP \<noteq> 11" by (simp_all add: CG_REG_SP_def)
  let ?v = "loc_val cycle_gen (cycle_vm ?c)"
  have "loc_val cycle_gen s' 10 = ?v 11" "loc_val cycle_gen s' 11 = ?v 0x10000" "loc_val cycle_gen s' 0x10000 = ?v 10"
    using s'(3) unfolding moved_def cycle_moves_def by simp_all
  then have "R s' 10 = 11" "R s' 11 = 0x01010101" "slot_val s' 0 = 10"
    using sp(1,2) by (simp_all add: loc_val_def cycle_locs(1-4) cycle_vm_simps)
  then show ?thesis using g(1) s'(1,2) by blast
qed

end
