(* ===== verification/Prealloc.thy ===== *)
theory Prealloc
  imports Calls
begin

text \<open>
  The frame and the registers of a function before any code is emitted (\<open>cg_collect_allocas\<close>,
  \<open>cg_pre_alloc_function\<close> in \<open>src/tools/translator/translator.c\<close>): offsets of the stack objects, a register
  or slots of the frame for every value.
\<close>

section \<open>A function of the module\<close>

text \<open>What the translator reads of a function, beside \<open>llvm\<close>: parameters, blocks (the entry block first), the
  block and the users of an instruction, and the types of stack objects.\<close>

record ('v, 't, 'b) llvm_fn =
  LLVMParams :: "'v list"
  LLVMBasicBlocks :: "'b list"
  LLVMGetEntryBasicBlock :: 'b
  LLVMGetInstructionParent :: "'v \<Rightarrow> 'b"
  LLVMUsers :: "'v \<Rightarrow> 'v list"
  LLVMGetAllocatedType :: "'v \<Rightarrow> 't"
  LLVMABIAlignmentOfType :: "'t \<Rightarrow> u32"

text \<open>A loop with an early exit.\<close>

primrec fold_opt :: "('a \<Rightarrow> 's \<Rightarrow> 's option) \<Rightarrow> 'a list \<Rightarrow> 's \<Rightarrow> 's option" where
  "fold_opt f [] s = Some s"
| "fold_opt f (x # xs) s = Option.bind (f x s) (fold_opt f xs)"

lemma fold_opt_append: "fold_opt f (xs @ ys) s = Option.bind (fold_opt f xs s) (fold_opt f ys)"
  by (induction xs arbitrary: s) (simp_all add: bind_eq_Some_conv split: bind_split)

definition operands :: "('v, 't, 'b) llvm \<Rightarrow> 'v \<Rightarrow> 'v list" where
  "operands L i = map (LLVMGetOperand L i) [0..<LLVMGetNumOperands L i]"

section \<open>Stack objects\<close>

definition align_up :: "u32 \<Rightarrow> u32 \<Rightarrow> u32" where "align_up x a = (x + a - 1) AND NOT (a - 1)"

definition collect_alloca ::
  "('v, 't, 'b) llvm \<Rightarrow> ('v, 't, 'b) llvm_fn \<Rightarrow> 'v \<Rightarrow> u32 \<times> ('b, 'v) gen \<Rightarrow> (u32 \<times> ('b, 'v) gen) option" where
  "collect_alloca L F i acc =
     (let (cursor, cg) = acc in
      if LLVMGetInstructionOpcode L i \<noteq> LLVMAlloca then Some acc
      else let cnt = LLVMGetOperand L i 0; n = LLVMConstIntGetSExtValue L cnt in
        if \<not> LLVMIsAConstantInt L cnt then None
        else if sint n < 0 then None
        else let ety = LLVMGetAllocatedType F i;
            esz = (ucast (LLVMABISizeOfType L ety) :: u32);
            align = (let a = LLVMABIAlignmentOfType F ety in if a < 4 then 4 else a);
            cursor1 = align_up cursor align in
          Some (cursor1 + ucast n * esz, cg_alloca_append i cursor1 cg))"

definition cg_collect_allocas ::
  "('v, 't, 'b) llvm \<Rightarrow> ('v, 't, 'b) llvm_fn \<Rightarrow> ('b, 'v) gen \<Rightarrow> ('b, 'v) gen option" where
  "cg_collect_allocas L F cg = do {
     (cursor, cg1) \<leftarrow> fold_opt (collect_alloca L F) (LLVMInstructions L (LLVMGetEntryBasicBlock F)) (0, cg);
     if \<exists>bb \<in> set (LLVMBasicBlocks F). bb \<noteq> LLVMGetEntryBasicBlock F
         \<and> (\<exists>i \<in> set (LLVMInstructions L bb). LLVMGetInstructionOpcode L i = LLVMAlloca) then None
     else Some (cg1\<lparr>cg_alloca_bytes := (cursor + 3) AND NOT 3\<rparr>)
   }"

definition cg_alloca_offset_of :: "('b, 'v) gen \<Rightarrow> 'v \<Rightarrow> u32 option" where
  "cg_alloca_offset_of cg v = map_of (cg_allocas cg) v"

section \<open>Values that end in their block\<close>

definition cg_value_is_block_local :: "('v, 't, 'b) llvm \<Rightarrow> ('v, 't, 'b) llvm_fn \<Rightarrow> 'v \<Rightarrow> bool" where
  "cg_value_is_block_local L F v \<longleftrightarrow> LLVMIsAInstruction L v \<and> LLVMGetInstructionOpcode L v \<noteq> LLVMPHI \<and> LLVMUsers F v \<noteq> []
     \<and> (\<forall>u \<in> set (LLVMUsers F v). LLVMIsAInstruction L u \<and> LLVMGetInstructionOpcode L u \<noteq> LLVMPHI
         \<and> LLVMGetInstructionParent F u = LLVMGetInstructionParent F v)"

text \<open>\<open>js\<close> are the instructions behind the one looked at.\<close>

definition cg_is_last_use_in_block :: "('v, 't, 'b) llvm \<Rightarrow> 'v list \<Rightarrow> 'v \<Rightarrow> bool" where
  "cg_is_last_use_in_block L js v \<longleftrightarrow> (\<forall>j \<in> set js. v \<notin> set (operands L j))"

section \<open>Registers and slots\<close>

text \<open>A register from the block's pool, the next free one, or a slot of the frame.\<close>

definition cg_pre_alloc_def :: "nat \<Rightarrow> ('b, 'v) gen \<Rightarrow> ('b, 'v) gen" where
  "cg_pre_alloc_def idx cg =
     (if cg_free_list cg \<noteq> []
      then cg\<lparr>cg_free_list := butlast (cg_free_list cg), cg_regs := (cg_regs cg)[idx := last (cg_free_list cg)]\<rparr>
      else if cg_next_reg cg \<le> CG_MAX_SSA_REG
      then cg\<lparr>cg_next_reg := cg_next_reg cg + 1, cg_regs := (cg_regs cg)[idx := of_nat (cg_next_reg cg)]\<rparr>
      else cg\<lparr>cg_regs := (cg_regs cg)[idx := CG_REG_SPILLED], cg_val_slot := (cg_val_slot cg)[idx := of_nat (cg_val_spill_count cg)],
          cg_val_spill_count := cg_val_spill_count cg + 1\<rparr>)"

text \<open>Slots for a value that lives in the frame only; \<open>map_count - 1\<close> is its index.\<close>

definition claim_i64 :: "('v, 't, 'b) llvm \<Rightarrow> 'v \<Rightarrow> nat \<Rightarrow> ('b, 'v) gen \<Rightarrow> ('b, 'v) gen option" where
  "claim_i64 L i n cg = map_option (\<lambda>cg1. cg1\<lparr>
     cg_i64_slot := (cg_i64_slot cg1)[length (cg_vals cg1) - 1 := of_nat (cg_val_spill_count cg1)],
     cg_val_spill_count := cg_val_spill_count cg1 + n\<rparr>) (cg_assign L i CG_REG_SPILLED cg)"

definition claim_agg :: "('v, 't, 'b) llvm \<Rightarrow> 'v \<Rightarrow> nat \<Rightarrow> ('b, 'v) gen \<Rightarrow> ('b, 'v) gen option" where
  "claim_agg L i n cg = map_option (\<lambda>cg1. cg1\<lparr>
     cg_agg_slot := (cg_agg_slot cg1)[length (cg_vals cg1) - 1 := of_nat (cg_val_spill_count cg1)],
     cg_val_spill_count := cg_val_spill_count cg1 + n\<rparr>) (cg_assign L i CG_REG_SPILLED cg)"

definition claim_vec :: "('v, 't, 'b) llvm \<Rightarrow> 'v \<Rightarrow> nat \<Rightarrow> ('b, 'v) gen \<Rightarrow> ('b, 'v) gen option" where
  "claim_vec L i n cg = map_option (\<lambda>cg1. cg1\<lparr>
     cg_vec_slot := (cg_vec_slot cg1)[length (cg_vals cg1) - 1 := of_nat (cg_val_spill_count cg1)],
     cg_val_spill_count := cg_val_spill_count cg1 + n\<rparr>) (cg_assign L i CG_REG_SPILLED cg)"

text \<open>An extracted value that stays in the slots of its aggregate \<open>src\<close>.\<close>

definition claim_alias :: "('v, 't, 'b) llvm \<Rightarrow> 'v \<Rightarrow> 'v \<Rightarrow> ('b, 'v) gen \<Rightarrow> ('b, 'v) gen option" where
  "claim_alias L i src cg = do {
     cidx \<leftarrow> cg_lookup L cg src;
     cg1 \<leftarrow> cg_assign L i CG_REG_SPILLED cg;
     slot \<leftarrow> (case cidx of Some c \<Rightarrow> at (cg_agg_slot cg1) c | None \<Rightarrow> Some CG_NO_SLOT);
     Some (cg1\<lparr>cg_i64_slot := (cg_i64_slot cg1)[length (cg_vals cg1) - 1 := slot]\<rparr>)
   }"

definition pre_alloc_param :: "('v, 't, 'b) llvm \<Rightarrow> 'v \<Rightarrow> ('b, 'v) gen \<Rightarrow> ('b, 'v) gen option" where
  "pre_alloc_param L p cg =
     (if cg_type_is_wide L (LLVMTypeOf L p) then claim_i64 L p 2 cg
      else do { (r, cg1) \<leftarrow> cg_alloc_reg cg; cg_assign L p r cg1 })"

text \<open>What a value-producing instruction gets; the second component is its register, if it has one.\<close>

definition pre_alloc_dst :: "('v, 't, 'b) llvm \<Rightarrow> 'v \<Rightarrow> ('b, 'v) gen \<Rightarrow> (('b, 'v) gen \<times> u8 option) option" where
  "pre_alloc_dst L i cg =
     (let ty = LLVMTypeOf L i; slots = map_option (\<lambda>cg1. (cg1, None)) in
      case cg_overflow_call_kind L i of Some (_, bits) \<Rightarrow> slots (claim_agg L i (cg_overflow_val_words bits + 1) cg)
      | None \<Rightarrow>
        if cg_is_cmpxchg L i then slots (claim_agg L i (cg_cmpxchg_val_words L i + 1) cg)
        else case (cg_is_cmpxchg_extract L i, cg_type_is_i64 L ty) of
          (Some (_, 0), True) \<Rightarrow> slots (claim_alias L i (LLVMGetOperand L i 0) cg)
        | _ \<Rightarrow> (case (cg_is_overflow_extract L i, cg_type_is_wide_int L ty \<or> cg_type_is_i65 L ty) of
            (Some (call, 0), True) \<Rightarrow> slots (claim_alias L i call cg)
          | _ \<Rightarrow>
            if cg_type_is_i65 L ty then slots (claim_i64 L i 3 cg)
            else if cg_type_is_wide L ty then slots (claim_i64 L i 2 cg)
            else if cg_type_is_vector L ty then slots (claim_vec L i (cg_vec_lanes L ty) cg)
            else if LLVMGetTypeKind L ty \<noteq> LLVMVoidTypeKind \<and> \<not> cg_is_eh_value L i
            then do {
              cg1 \<leftarrow> cg_assign L i CG_REG_SPILLED cg;
              let idx = length (cg_vals cg1) - 1; cg2 = cg_pre_alloc_def idx cg1 in do {
                r \<leftarrow> at (cg_regs cg2) idx;
                slot \<leftarrow> at (cg_val_slot cg2) idx;
                Some (cg2, if r = CG_REG_SPILLED \<and> slot \<noteq> CG_NO_SLOT then None else Some r)
              }
            }
            else Some (cg, None)))"

text \<open>Operands whose last use this was give their registers back, but not the one the instruction got.\<close>

definition pre_alloc_free ::
  "('v, 't, 'b) llvm \<Rightarrow> ('v, 't, 'b) llvm_fn \<Rightarrow> 'b \<Rightarrow> 'v list \<Rightarrow> u8 option \<Rightarrow> 'v \<Rightarrow> ('b, 'v) gen \<Rightarrow> ('b, 'v) gen option" where
  "pre_alloc_free L F bb js dst v cg =
     (if \<not> LLVMIsAInstruction L v \<or> LLVMGetInstructionParent F v \<noteq> bb \<or> \<not> cg_value_is_block_local L F v
         \<or> \<not> cg_is_last_use_in_block L js v then Some cg
      else do {
        ix \<leftarrow> cg_lookup L cg v;
        case ix of None \<Rightarrow> Some cg
        | Some v_idx \<Rightarrow> do {
            slot \<leftarrow> at (cg_val_slot cg) v_idx;
            r \<leftarrow> at (cg_regs cg) v_idx;
            Some (if slot \<noteq> CG_NO_SLOT \<or> r = CG_REG_SPILLED \<or> dst = Some r then cg else cg_free_reg r cg)
          }
      })"

text \<open>The instructions of a block: \<open>i\<close> and those behind it.\<close>

primrec pre_alloc_insts ::
  "('v, 't, 'b) llvm \<Rightarrow> ('v, 't, 'b) llvm_fn \<Rightarrow> 'b \<Rightarrow> 'v list \<Rightarrow> ('b, 'v) gen \<Rightarrow> ('b, 'v) gen option" where
  "pre_alloc_insts L F bb [] cg = Some cg"
| "pre_alloc_insts L F bb (i # js) cg = do {
     (cg1, dst) \<leftarrow> pre_alloc_dst L i cg;
     cg2 \<leftarrow> fold_opt (pre_alloc_free L F bb js dst) (operands L i) cg1;
     pre_alloc_insts L F bb js cg2
   }"

definition pre_alloc_block ::
  "('v, 't, 'b) llvm \<Rightarrow> ('v, 't, 'b) llvm_fn \<Rightarrow> 'b \<Rightarrow> ('b, 'v) gen \<Rightarrow> ('b, 'v) gen option" where
  "pre_alloc_block L F bb cg =
     pre_alloc_insts L F bb (LLVMInstructions L bb)
       (cg\<lparr>cg_blocks := cg_blocks cg @ [bb], cg_block_offsets := cg_block_offsets cg @ [0], cg_free_list := []\<rparr>)"

definition cg_pre_alloc_function ::
  "('v, 't, 'b) llvm \<Rightarrow> ('v, 't, 'b) llvm_fn \<Rightarrow> ('b, 'v) gen \<Rightarrow> ('b, 'v) gen option" where
  "cg_pre_alloc_function L F cg = do {
     cg1 \<leftarrow> fold_opt (pre_alloc_param L) (LLVMParams F) (cg\<lparr>cg_next_reg := 8, cg_free_list := []\<rparr>);
     cg2 \<leftarrow> fold_opt (pre_alloc_block L F) (LLVMBasicBlocks F) (cg1\<lparr>cg_zero_reg := CG_REG_ZERO\<rparr>);
     Some (cg2\<lparr>cg_free_list := []\<rparr>)
   }"

end
