(* ===== verification/Liveness.thy ===== *)
theory Liveness
  imports Prealloc Phi_Moves
begin

text \<open>
  Liveness of registers (\<open>cg_compute_liveness\<close>, \<open>cg_compute_call_liveouts\<close> in
  \<open>src/tools/translator/translator.c\<close>) and the layout of the frame in \<open>cg_function\<close>: the sets of registers to
  save at calls and their slots.
\<close>

section \<open>Definitions and uses of a block\<close>

definition set_bit_of :: "('v, 't, 'b) llvm \<Rightarrow> ('b, 'v) gen \<Rightarrow> 'v \<Rightarrow> cg_bits \<Rightarrow> cg_bits option" where
  "set_bit_of L cg v w = map_option (\<lambda>b. case b of None \<Rightarrow> w | Some k \<Rightarrow> cg_bits_set k w) (cg_spill_bit_of L cg v)"

definition clear_bit_of :: "('v, 't, 'b) llvm \<Rightarrow> ('b, 'v) gen \<Rightarrow> 'v \<Rightarrow> cg_bits \<Rightarrow> cg_bits option" where
  "clear_bit_of L cg v w = map_option (\<lambda>b. case b of None \<Rightarrow> w | Some k \<Rightarrow> cg_bits_clear_bit k w) (cg_spill_bit_of L cg v)"

definition def_inst :: "('v, 't, 'b) llvm \<Rightarrow> ('b, 'v) gen \<Rightarrow> 'v \<Rightarrow> cg_bits \<times> cg_bits \<Rightarrow> (cg_bits \<times> cg_bits) option" where
  "def_inst L cg i dp = do {
     d \<leftarrow> set_bit_of L cg i (fst dp);
     p \<leftarrow> (if LLVMGetInstructionOpcode L i = LLVMPHI then set_bit_of L cg i (snd dp) else Some (snd dp));
     Some (d, p)
   }"

text \<open>An instruction seen from behind.\<close>

definition live_step :: "('v, 't, 'b) llvm \<Rightarrow> ('b, 'v) gen \<Rightarrow> 'v \<Rightarrow> cg_bits \<Rightarrow> cg_bits option" where
  "live_step L cg i w =
     (if LLVMGetInstructionOpcode L i = LLVMPHI then Some w
      else Option.bind (clear_bit_of L cg i w) (fold_opt (set_bit_of L cg) (operands L i)))"

record def_use =
  du_def :: cg_bits
  du_use :: cg_bits
  du_phi_def :: cg_bits

definition cg_block_def_use ::
  "('v, 't, 'b) llvm \<Rightarrow> ('v, 't, 'b) llvm_fn \<Rightarrow> ('b, 'v) gen \<Rightarrow> 'b \<Rightarrow> def_use option" where
  "cg_block_def_use L F cg bb = do {
     (d, p) \<leftarrow> fold_opt (def_inst L cg) (LLVMInstructions L bb) (cg_bits_clear, cg_bits_clear);
     d' \<leftarrow> (if bb = LLVMGetEntryBasicBlock F then fold_opt (set_bit_of L cg) (LLVMParams F) d else Some d);
     live \<leftarrow> fold_opt (live_step L cg) (rev (LLVMInstructions L bb)) cg_bits_clear;
     Some \<lparr>du_def = d', du_use = cg_bits_andnot live p, du_phi_def = p\<rparr>
   }"

definition cg_block_index :: "('b, 'v) gen \<Rightarrow> 'b \<Rightarrow> nat option" where "cg_block_index cg bb = index_of bb (cg_blocks cg)"

definition phi_use :: "('v, 't, 'b) llvm \<Rightarrow> ('b, 'v) gen \<Rightarrow> 'b \<Rightarrow> 'v \<Rightarrow> cg_bits \<Rightarrow> cg_bits option" where
  "phi_use L cg P phi w = (case map_of (LLVMIncoming L phi) P of None \<Rightarrow> Some w | Some v \<Rightarrow> set_bit_of L cg v w)"

definition cg_or_phi_use_from_edge ::
  "('v, 't, 'b) llvm \<Rightarrow> ('b, 'v) gen \<Rightarrow> 'b \<Rightarrow> 'b \<Rightarrow> cg_bits \<Rightarrow> cg_bits option" where
  "cg_or_phi_use_from_edge L cg P S out = fold_opt (phi_use L cg P) (block_phis L S) out"

section \<open>The fixed point\<close>

record live_state =
  ls_in :: "cg_bits list"
  ls_out :: "cg_bits list"
  ls_changed :: bool

definition live_succ ::
  "('v, 't, 'b) llvm \<Rightarrow> ('b, 'v) gen \<Rightarrow> def_use list \<Rightarrow> cg_bits list \<Rightarrow> 'b \<Rightarrow> 'b \<Rightarrow> cg_bits \<Rightarrow> cg_bits option" where
  "live_succ L cg du ins bb succ w =
     (case cg_block_index cg succ of None \<Rightarrow> Some w
      | Some si \<Rightarrow> cg_or_phi_use_from_edge L cg bb succ (cg_bits_or w (cg_bits_andnot (ins ! si) (du_phi_def (du ! si)))))"

definition live_block ::
  "('v, 't, 'b) llvm \<Rightarrow> ('b, 'v) gen \<Rightarrow> def_use list \<Rightarrow> nat \<Rightarrow> live_state \<Rightarrow> live_state option" where
  "live_block L cg du b st = do {
     new_out \<leftarrow> fold_opt (live_succ L cg du (ls_in st) (cg_blocks cg ! b)) (LLVMSuccessors L (cg_blocks cg ! b)) cg_bits_clear;
     let new_in = cg_bits_or (du_use (du ! b)) (cg_bits_andnot new_out (du_def (du ! b)));
         st1 = (if \<not> cg_bits_eq new_in (ls_in st ! b) then st\<lparr>ls_changed := True, ls_in := (ls_in st)[b := new_in]\<rparr> else st) in
     Some (if \<not> cg_bits_eq new_out (ls_out st1 ! b) then st1\<lparr>ls_changed := True, ls_out := (ls_out st1)[b := new_out]\<rparr> else st1)
   }"

definition live_pass ::
  "('v, 't, 'b) llvm \<Rightarrow> ('b, 'v) gen \<Rightarrow> def_use list \<Rightarrow> live_state \<Rightarrow> live_state option" where
  "live_pass L cg du st = fold_opt (live_block L cg du) (rev [0..<length (cg_blocks cg)]) (st\<lparr>ls_changed := False\<rparr>)"

partial_function (option) live_loop ::
  "('v, 't, 'b) llvm \<Rightarrow> ('b, 'v) gen \<Rightarrow> def_use list \<Rightarrow> live_state \<Rightarrow> live_state option" where
  "live_loop L cg du st = Option.bind (live_pass L cg du st) (\<lambda>st'. if ls_changed st' then live_loop L cg du st' else Some st')"

declare live_loop.simps [code]

primrec def_uses :: "('v, 't, 'b) llvm \<Rightarrow> ('v, 't, 'b) llvm_fn \<Rightarrow> ('b, 'v) gen \<Rightarrow> 'b list \<Rightarrow> def_use list option" where
  "def_uses L F cg [] = Some []"
| "def_uses L F cg (b # bs) = do { d \<leftarrow> cg_block_def_use L F cg b; ds \<leftarrow> def_uses L F cg bs; Some (d # ds) }"

definition cg_compute_liveness ::
  "('v, 't, 'b) llvm \<Rightarrow> ('v, 't, 'b) llvm_fn \<Rightarrow> ('b, 'v) gen \<Rightarrow> ('b, 'v) gen option" where
  "cg_compute_liveness L F cg =
     (let n = length (cg_blocks cg) in
      if n = 0 then Some cg
      else do {
        du \<leftarrow> def_uses L F cg (cg_blocks cg);
        st \<leftarrow> live_loop L cg du \<lparr>ls_in = replicate n cg_bits_clear, ls_out = replicate n cg_bits_clear, ls_changed = True\<rparr>;
        Some (cg\<lparr>cg_bb_live_in := ls_in st, cg_bb_live_out := ls_out st\<rparr>)
      })"

section \<open>Registers live after calls\<close>

definition spill_point :: "('v, 't, 'b) llvm \<Rightarrow> 'v \<Rightarrow> bool" where
  "spill_point L i \<longleftrightarrow> (let op = LLVMGetInstructionOpcode L i in
     op \<noteq> LLVMPHI \<and> (op = LLVMCall \<or> op = LLVMInvoke \<or> cg_op_is_runtime_call L i op))"

definition call_live_inst ::
  "('v, 't, 'b) llvm \<Rightarrow> ('b, 'v) gen \<Rightarrow> 'v \<Rightarrow> cg_bits \<times> ('v \<times> cg_bits) list \<Rightarrow> (cg_bits \<times> ('v \<times> cg_bits) list) option" where
  "call_live_inst L cg i acc = (let (live, calls) = acc in
     map_option (\<lambda>w. (w, if spill_point L i then calls @ [(i, live)] else calls)) (live_step L cg i live))"

definition call_live_block ::
  "('v, 't, 'b) llvm \<Rightarrow> ('b, 'v) gen \<Rightarrow> 'b \<times> cg_bits \<Rightarrow> ('v \<times> cg_bits) list \<Rightarrow> ('v \<times> cg_bits) list option" where
  "call_live_block L cg bl calls =
     map_option snd (fold_opt (call_live_inst L cg) (rev (LLVMInstructions L (fst bl))) (snd bl, calls))"

definition cg_compute_call_liveouts :: "('v, 't, 'b) llvm \<Rightarrow> ('b, 'v) gen \<Rightarrow> ('b, 'v) gen option" where
  "cg_compute_call_liveouts L cg =
     map_option (\<lambda>calls. cg\<lparr>cg_call_lives := calls\<rparr>) (fold_opt (call_live_block L cg) (zip (cg_blocks cg) (cg_bb_live_out cg)) [])"

section \<open>The frame\<close>

text \<open>The slots for saving registers, and the frame: stack objects, saved registers, values in slots and, with an
  \<open>invoke\<close>, the frame of the exception handler.\<close>

definition CVM_EH_FRAME_BYTES :: u32 where "CVM_EH_FRAME_BYTES = 24"

definition invoke_uses :: "('v, 't, 'b) llvm \<Rightarrow> ('b, 'v) gen \<Rightarrow> 'v \<Rightarrow> cg_bits \<times> bool \<Rightarrow> (cg_bits \<times> bool) option" where
  "invoke_uses L cg i acc =
     (if LLVMGetInstructionOpcode L i \<noteq> LLVMInvoke then Some acc
      else map_option (\<lambda>w. (w, True)) (fold_opt (set_bit_of L cg) (operands L i) (fst acc)))"

definition assign_slot :: "cg_bits \<Rightarrow> nat \<Rightarrow> u8 list \<times> nat \<Rightarrow> u8 list \<times> nat" where
  "assign_slot st k acc = (if cg_bits_test st k then ((fst acc)[k := of_nat (snd acc)], snd acc + 1) else acc)"

definition frame_layout :: "('v, 't, 'b) llvm \<Rightarrow> nat \<Rightarrow> ('b, 'v) gen \<Rightarrow> ('b, 'v) gen option" where
  "frame_layout L func_idx cg =
     (let spill_count = cg_ssa_reg_high cg - 8 in
      if spill_count > 256 then None
      else do {
        (ever, inv) \<leftarrow> fold_opt (invoke_uses L cg) (concat (map (LLVMInstructions L) (cg_blocks cg)))
          (fold (\<lambda>(i, w) st. cg_bits_or st w) (cg_call_lives cg) cg_bits_clear, cg_fn_has_invoke cg);
        let (slots, n) = fold (assign_slot ever) [0..<spill_count] (replicate 256 0xFF, 0);
            frame = cg_alloca_bytes cg + of_nat n * 4 + of_nat (cg_val_spill_count cg) * 4;
            frame' = (if inv then frame + CVM_EH_FRAME_BYTES else frame) in
        Some (cg\<lparr>cg_ever_spilled := ever, cg_fn_has_invoke := inv, cg_slot_of := slots, cg_spill_slot_count := n,
          cg_spill_bytes := of_nat n * 4, cg_val_spill_bytes := of_nat (cg_val_spill_count cg) * 4,
          cg_eh_frame_off := (if inv then frame else cg_eh_frame_off cg),
          cg_frame_bytes := frame', cg_funcs := (cg_funcs cg)[func_idx := (cg_funcs cg ! func_idx)\<lparr>fn_frame_size := frame'\<rparr>]\<rparr>)
      })"

text \<open>The analysis phase of \<open>cg_function\<close>, up to the prologue.\<close>

definition cg_function_frame ::
  "('v, 't, 'b) llvm \<Rightarrow> ('v, 't, 'b) llvm_fn \<Rightarrow> nat \<Rightarrow> ('b, 'v) gen \<Rightarrow> ('b, 'v) gen option" where
  "cg_function_frame L F func_idx cg = do {
     cg1 \<leftarrow> cg_collect_allocas L F (cg_reset_function_state cg);
     cg2 \<leftarrow> cg_pre_alloc_function L F cg1;
     cg3 \<leftarrow> cg_compute_liveness L F (cg2\<lparr>cg_ssa_reg_high := cg_next_reg cg2\<rparr>);
     cg4 \<leftarrow> cg_compute_call_liveouts L cg3;
     frame_layout L func_idx cg4
   }"

end
