(* ===== verification/Liveness_Correct.thy ===== *)
theory Liveness_Correct
  imports Liveness Value_Table
begin

text \<open>
  Liveness is exact: a register is in the set recorded for a call exactly when some path from behind the call
  reads it before it is written.
\<close>

section \<open>Bit sets as sets\<close>

definition bset :: "cg_bits \<Rightarrow> nat set" where "bset w = {k. k < 256 \<and> cg_bits_test w k}"

definition bits_ok :: "cg_bits \<Rightarrow> bool" where "bits_ok w \<longleftrightarrow> length w = 4"

lemma test_bit: "cg_bits_test w k \<longleftrightarrow> bit (w ! (k div 64)) (k mod 64)"
  by (simp add: cg_bits_test_def bit_iff_odd_drop_bit and_one_eq mod2_eq_if)

lemma bset_clear [simp]: "bset cg_bits_clear = {}" "bits_ok cg_bits_clear"
  by (auto simp: bset_def bits_ok_def cg_bits_clear_def CG_BITS_W_def test_bit nth_replicate)

lemma div64: "k < (256 :: nat) \<Longrightarrow> k div 64 < 4"
  by (simp add: less_mult_imp_div_less)

lemma same_place: "(k :: nat) div 64 = b div 64 \<Longrightarrow> k mod 64 = b mod 64 \<longleftrightarrow> k = b"
  by (metis div_mult_mod_eq)

lemma bset_set: "bits_ok w \<Longrightarrow> b < 256 \<Longrightarrow> bset (cg_bits_set b w) = insert b (bset w)" "bits_ok w \<Longrightarrow> bits_ok (cg_bits_set b w)"
  using div64 by (auto simp: bset_def bits_ok_def cg_bits_set_def test_bit nth_list_update bit_simps same_place split: if_splits)

lemma bset_clear_bit: "bits_ok w \<Longrightarrow> b < 256 \<Longrightarrow> bset (cg_bits_clear_bit b w) = bset w - {b}" "bits_ok w \<Longrightarrow> bits_ok (cg_bits_clear_bit b w)"
  using div64 by (auto simp: bset_def bits_ok_def cg_bits_clear_bit_def test_bit nth_list_update bit_simps same_place split: if_splits)

lemma bset_or: "bits_ok v \<Longrightarrow> bits_ok w \<Longrightarrow> bset (cg_bits_or v w) = bset v \<union> bset w" "bits_ok v \<Longrightarrow> bits_ok w \<Longrightarrow> bits_ok (cg_bits_or v w)"
  using div64 by (auto simp: bset_def bits_ok_def cg_bits_or_def test_bit bit_simps)

lemma bset_andnot: "bits_ok v \<Longrightarrow> bits_ok w \<Longrightarrow> bset (cg_bits_andnot v w) = bset v - bset w"
  "bits_ok v \<Longrightarrow> bits_ok w \<Longrightarrow> bits_ok (cg_bits_andnot v w)"
  using div64 by (auto simp: bset_def bits_ok_def cg_bits_andnot_def test_bit bit_simps)

lemma bset_eq:
  assumes "bits_ok v" "bits_ok w"
  shows "cg_bits_eq v w \<longleftrightarrow> bset v = bset w"
proof
  assume e: "bset v = bset w"
  have "v ! j = w ! j" if j: "j < 4" for j
  proof (rule bit_word_eqI)
    fix n assume n: "n < LENGTH(64)"
    have k: "64 * j + n < 256" "(64 * j + n) div 64 = j" "(64 * j + n) mod 64 = n" using j n by auto
    have "64 * j + n \<in> bset v \<longleftrightarrow> 64 * j + n \<in> bset w" using e by simp
    then show "bit (v ! j) n = bit (w ! j) n" using k by (simp add: bset_def test_bit)
  qed
  then show "cg_bits_eq v w" using assms by (simp add: cg_bits_eq_def bits_ok_def list_eq_iff_nth_eq)
qed (simp add: cg_bits_eq_def)

lemma bset_finite: "finite (bset w)" "card (bset w) \<le> 256"
proof -
  have "bset w \<subseteq> {..<256}" by (auto simp: bset_def)
  then show "finite (bset w)" "card (bset w) \<le> 256" using finite_subset card_mono [of "{..<256}" "bset w"] by auto
qed

text \<open>The computation succeeds with the set \<open>S\<close>.\<close>

definition yields :: "cg_bits option \<Rightarrow> nat set \<Rightarrow> bool" where
  "yields r S \<longleftrightarrow> (\<exists>w. r = Some w \<and> bits_ok w \<and> bset w = S)"

lemma yieldsI: "bits_ok w \<Longrightarrow> bset w = S \<Longrightarrow> yields (Some w) S"
  by (simp add: yields_def)

lemma yieldsE: "yields r S \<Longrightarrow> (\<And>w. r = Some w \<Longrightarrow> bits_ok w \<Longrightarrow> bset w = S \<Longrightarrow> thesis) \<Longrightarrow> thesis"
  by (auto simp: yields_def)

lemma fold_yields:
  assumes "\<And>x w. x \<in> set xs \<Longrightarrow> bits_ok w \<Longrightarrow> yields (f x w) (bset w \<union> g x)" "bits_ok w"
  shows "yields (fold_opt f xs w) (bset w \<union> \<Union> (g ` set xs))"
  using assms
proof (induction xs arbitrary: w)
  case (Cons x xs)
  obtain w1 where w1: "f x w = Some w1" "bits_ok w1" "bset w1 = bset w \<union> g x" using Cons.prems(1) [of x w] Cons.prems(2) by (auto elim: yieldsE)
  have "yields (fold_opt f xs w1) (bset w1 \<union> \<Union> (g ` set xs))" using Cons w1(2) by simp
  then show ?case using w1 by (simp add: Un_assoc)
qed (simp add: yields_def)

section \<open>The sets of the analysis\<close>

lemma index_of_nth: "index_of x xs = Some i \<Longrightarrow> i < length xs \<and> xs ! i = x"
  by (induction xs arbitrary: i) (auto split: if_splits)

text \<open>All values have a place in the tables.\<close>

definition bits_total :: "('v, 't, 'b) llvm \<Rightarrow> ('b, 'v) gen \<Rightarrow> bool" where
  "bits_total L cg \<longleftrightarrow> (\<forall>v. cg_spill_bit_of L cg v \<noteq> None)"

lemma bits_totalI:
  assumes "value_table_ok L cg" "length (cg_val_slot cg) = length (cg_vals cg)" "length (cg_regs cg) = length (cg_vals cg)"
  shows "bits_total L cg"
proof -
  have "index_of v (cg_vals cg) = Some i \<Longrightarrow> i < length (cg_vals cg)" for v i
    using index_of_nth by metis
  then show ?thesis using assms lookup_first [OF assms(1)]
    by (auto simp: bits_total_def cg_spill_bit_of_def at_def split: option.splits)
qed

definition vbits :: "('v, 't, 'b) llvm \<Rightarrow> ('b, 'v) gen \<Rightarrow> 'v \<Rightarrow> nat set" where
  "vbits L cg v = set_option (the (cg_spill_bit_of L cg v))"

definition reads :: "('v, 't, 'b) llvm \<Rightarrow> ('b, 'v) gen \<Rightarrow> 'v \<Rightarrow> nat set" where
  "reads L cg i = \<Union> (vbits L cg ` set (operands L i))"

lemma spill_bit_less: "cg_spill_bit_of L cg v = Some (Some k) \<Longrightarrow> k < 256"
proof -
  have "unat (r :: u8) - 8 < 256" for r using unat_lt8 [of r] by linarith
  then show "cg_spill_bit_of L cg v = Some (Some k) \<Longrightarrow> k < 256"
    by (auto simp: cg_spill_bit_of_def bind_eq_Some_conv split: option.splits if_splits)
qed

lemma bit_of_yields:
  assumes "bits_total L cg" "bits_ok w"
  shows "yields (set_bit_of L cg v w) (bset w \<union> vbits L cg v)" "yields (clear_bit_of L cg v w) (bset w - vbits L cg v)"
proof -
  obtain x where x: "cg_spill_bit_of L cg v = Some x" using assms(1) by (auto simp: bits_total_def)
  show "yields (set_bit_of L cg v w) (bset w \<union> vbits L cg v)" "yields (clear_bit_of L cg v w) (bset w - vbits L cg v)"
    using spill_bit_less [of L cg v] assms(2)
    by (cases x; auto simp: x yields_def set_bit_of_def clear_bit_of_def vbits_def bset_set bset_clear_bit)+
qed

definition is_phi :: "('v, 't, 'b) llvm \<Rightarrow> 'v \<Rightarrow> bool" where "is_phi L i \<longleftrightarrow> LLVMGetInstructionOpcode L i = LLVMPHI"

text \<open>The registers needed before the instructions, if \<open>S\<close> are needed behind them.\<close>

primrec before :: "('v, 't, 'b) llvm \<Rightarrow> ('b, 'v) gen \<Rightarrow> 'v list \<Rightarrow> nat set \<Rightarrow> nat set" where
  "before L cg [] S = S"
| "before L cg (i # is) S = (if is_phi L i then before L cg is S else (before L cg is S - vbits L cg i) \<union> reads L cg i)"

lemma live_step_yields:
  assumes "bits_total L cg" "bits_ok w"
  shows "yields (live_step L cg i w) (if is_phi L i then bset w else (bset w - vbits L cg i) \<union> reads L cg i)"
proof (cases "is_phi L i")
  case False
  obtain w1 where w1: "clear_bit_of L cg i w = Some w1" "bits_ok w1" "bset w1 = bset w - vbits L cg i"
    using bit_of_yields(2) [OF assms] by (rule yieldsE)
  have "yields (fold_opt (set_bit_of L cg) (operands L i) w1) (bset w1 \<union> reads L cg i)"
    unfolding reads_def by (rule fold_yields [OF bit_of_yields(1) [OF assms(1)] w1(2)])
  then show ?thesis using False w1 by (simp add: live_step_def is_phi_def)
qed (use assms in \<open>simp add: live_step_def is_phi_def yields_def\<close>)

lemma before_append: "before L cg (xs @ ys) S = before L cg xs (before L cg ys S)"
  by (induction xs) simp_all

lemma live_steps_yield:
  assumes "bits_total L cg" "bits_ok w"
  shows "yields (fold_opt (live_step L cg) (rev is) w) (before L cg is (bset w))"
  using assms(2)
proof (induction "is" arbitrary: w rule: rev_induct)
  case (snoc i "is")
  obtain w1 where w1: "live_step L cg i w = Some w1" "bits_ok w1" "bset w1 = before L cg [i] (bset w)"
    using live_step_yields [OF assms(1) snoc.prems, of i] by (auto elim!: yieldsE)
  then show ?case using snoc.IH [OF w1(2)] by (simp add: before_append)
qed (simp add: yields_def)

definition phi_defs :: "('v, 't, 'b) llvm \<Rightarrow> ('b, 'v) gen \<Rightarrow> 'v list \<Rightarrow> nat set" where
  "phi_defs L cg is = \<Union> (vbits L cg ` {i \<in> set is. is_phi L i})"

definition all_defs :: "('v, 't, 'b) llvm \<Rightarrow> ('b, 'v) gen \<Rightarrow> 'v list \<Rightarrow> nat set" where
  "all_defs L cg is = \<Union> (vbits L cg ` set is)"

lemma def_insts_yield:
  assumes "bits_total L cg" "bits_ok d" "bits_ok p"
  shows "\<exists>d' p'. fold_opt (def_inst L cg) is (d, p) = Some (d', p') \<and> bits_ok d' \<and> bits_ok p'
    \<and> bset d' = bset d \<union> all_defs L cg is \<and> bset p' = bset p \<union> phi_defs L cg is"
  using assms(2,3)
proof (induction "is" arbitrary: d p)
  case (Cons i "is")
  obtain d1 where d1: "set_bit_of L cg i d = Some d1" "bits_ok d1" "bset d1 = bset d \<union> vbits L cg i"
    using bit_of_yields(1) [OF assms(1) Cons.prems(1)] by (rule yieldsE)
  obtain p1 where p1: "set_bit_of L cg i p = Some p1" "bits_ok p1" "bset p1 = bset p \<union> vbits L cg i"
    using bit_of_yields(1) [OF assms(1) Cons.prems(2)] by (rule yieldsE)
  let ?p = "if is_phi L i then p1 else p"
  have p2: "bits_ok ?p" "bset ?p = bset p \<union> phi_defs L cg [i]" using p1 Cons.prems(2) by (auto simp: phi_defs_def)
  have "def_inst L cg i (d, p) = Some (d1, ?p)" using d1(1) p1(1) by (simp add: def_inst_def is_phi_def)
  moreover obtain d' p' where "fold_opt (def_inst L cg) is (d1, ?p) = Some (d', p')" "bits_ok d'" "bits_ok p'"
    "bset d' = bset d1 \<union> all_defs L cg is" "bset p' = bset ?p \<union> phi_defs L cg is" using Cons.IH [OF d1(2) p2(1)] by blast
  ultimately show ?case unfolding d1(3) p2(2) by (intro exI [of _ d'] exI [of _ p']) (auto simp: all_defs_def phi_defs_def)
qed (simp add: all_defs_def phi_defs_def)

lemma params_yield:
  assumes "bits_total L cg" "bits_ok d"
  shows "yields (fold_opt (set_bit_of L cg) vs d) (bset d \<union> \<Union> (vbits L cg ` set vs))"
  by (rule fold_yields [OF bit_of_yields(1) [OF assms(1)] assms(2)])

text \<open>What \<open>cg_block_def_use\<close> computes.\<close>

definition block_defs :: "('v, 't, 'b) llvm \<Rightarrow> ('v, 't, 'b) llvm_fn \<Rightarrow> ('b, 'v) gen \<Rightarrow> 'b \<Rightarrow> nat set" where
  "block_defs L F cg b = all_defs L cg (LLVMInstructions L b)
     \<union> (if b = LLVMGetEntryBasicBlock F then \<Union> (vbits L cg ` set (LLVMParams F)) else {})"

definition du_ok :: "('v, 't, 'b) llvm \<Rightarrow> ('v, 't, 'b) llvm_fn \<Rightarrow> ('b, 'v) gen \<Rightarrow> 'b \<Rightarrow> def_use \<Rightarrow> bool" where
  "du_ok L F cg b d \<longleftrightarrow> bits_ok (du_def d) \<and> bits_ok (du_use d) \<and> bits_ok (du_phi_def d)
     \<and> bset (du_def d) = block_defs L F cg b \<and> bset (du_phi_def d) = phi_defs L cg (LLVMInstructions L b)
     \<and> bset (du_use d) = before L cg (LLVMInstructions L b) {} - phi_defs L cg (LLVMInstructions L b)"

lemma block_def_use_ok:
  assumes "bits_total L cg"
  shows "\<exists>d. cg_block_def_use L F cg b = Some d \<and> du_ok L F cg b d"
proof -
  let ?is = "LLVMInstructions L b"
  obtain d p where dp: "fold_opt (def_inst L cg) ?is (cg_bits_clear, cg_bits_clear) = Some (d, p)" "bits_ok d" "bits_ok p"
    "bset d = all_defs L cg ?is" "bset p = phi_defs L cg ?is" using def_insts_yield [OF assms, of cg_bits_clear cg_bits_clear ?is] by auto
  have "yields (if b = LLVMGetEntryBasicBlock F then fold_opt (set_bit_of L cg) (LLVMParams F) d else Some d) (block_defs L F cg b)"
    using params_yield [OF assms dp(2), of "LLVMParams F"] dp(2,4) by (auto simp: block_defs_def yields_def)
  then obtain d' where d': "(if b = LLVMGetEntryBasicBlock F then fold_opt (set_bit_of L cg) (LLVMParams F) d else Some d) = Some d'"
    "bits_ok d'" "bset d' = block_defs L F cg b" by (rule yieldsE)
  obtain w where w: "fold_opt (live_step L cg) (rev ?is) cg_bits_clear = Some w" "bits_ok w" "bset w = before L cg ?is {}"
    using live_steps_yield [OF assms bset_clear(2), of ?is] by (auto elim!: yieldsE)
  show ?thesis
    using dp d' w by (simp add: cg_block_def_use_def du_ok_def bset_andnot)
qed

lemma def_uses_ok:
  assumes "bits_total L cg"
  shows "\<exists>ds. def_uses L F cg bs = Some ds \<and> length ds = length bs \<and> (\<forall>j < length bs. du_ok L F cg (bs ! j) (ds ! j))"
proof (induction bs)
  case (Cons b bs)
  then obtain ds where "def_uses L F cg bs = Some ds" "length ds = length bs" "\<forall>j < length bs. du_ok L F cg (bs ! j) (ds ! j)" by blast
  moreover obtain d where "cg_block_def_use L F cg b = Some d" "du_ok L F cg b d" using block_def_use_ok [OF assms] by blast
  ultimately show ?case by (intro exI [of _ "d # ds"]) (auto simp: nth_Cons split: nat.split)
qed simp

end
