(* ===== verification/Live_Paths.thy ===== *)
theory Live_Paths
  imports Liveness_Correct
begin

text \<open>
  The fixed point of the liveness analysis and the paths of a function: the loop ends, and its result says
  which registers are read later on before they are written.
\<close>

section \<open>Paths\<close>

text \<open>The registers whose values the phis of \<open>S\<close> take on the edge from \<open>P\<close>.\<close>

definition edge_reads :: "('v, 't, 'b) llvm \<Rightarrow> ('b, 'v) gen \<Rightarrow> 'b \<Rightarrow> 'b \<Rightarrow> nat set" where
  "edge_reads L cg P S = (\<Union>phi \<in> set (block_phis L S). case map_of (LLVMIncoming L phi) P of None \<Rightarrow> {} | Some v \<Rightarrow> vbits L cg v)"

text \<open>\<open>needs L cg k is b\<close>: on some path that goes on with the instructions \<open>is\<close>, the last of the block \<open>b\<close>, the register
  \<open>k\<close> is read before it is written. The phis of a block are written on the edges into it.\<close>

inductive needs :: "('v, 't, 'b) llvm \<Rightarrow> ('b, 'v) gen \<Rightarrow> nat \<Rightarrow> 'v list \<Rightarrow> 'b \<Rightarrow> bool" for L cg k where
  reads_it: "\<not> is_phi L i \<Longrightarrow> k \<in> reads L cg i \<Longrightarrow> needs L cg k (i # is) b"
| passes: "\<not> is_phi L i \<Longrightarrow> k \<notin> vbits L cg i \<Longrightarrow> needs L cg k is b \<Longrightarrow> needs L cg k (i # is) b"
| phi_done: "is_phi L i \<Longrightarrow> needs L cg k is b \<Longrightarrow> needs L cg k (i # is) b"
| edge_moves: "S \<in> set (LLVMSuccessors L b) \<Longrightarrow> S \<in> set (cg_blocks cg) \<Longrightarrow> k \<in> edge_reads L cg b S \<Longrightarrow> needs L cg k [] b"
| edge_passes: "S \<in> set (LLVMSuccessors L b) \<Longrightarrow> S \<in> set (cg_blocks cg) \<Longrightarrow> k \<notin> phi_defs L cg (LLVMInstructions L S) \<Longrightarrow>
    needs L cg k (LLVMInstructions L S) S \<Longrightarrow> needs L cg k [] b"

inductive_simps needs_simps: "needs L cg k (i # is) b" "needs L cg k [] b"

lemma needs_before: "k \<in> before L cg is {k. needs L cg k [] b} \<longleftrightarrow> needs L cg k is b"
  by (induction "is") (auto simp: needs_simps(1))

lemma before_mono: "S \<subseteq> T \<Longrightarrow> before L cg is S \<subseteq> before L cg is T"
  by (induction "is") auto

lemma before_split:
  "before L cg is S - phi_defs L cg is = (before L cg is {} - phi_defs L cg is) \<union> (S - all_defs L cg is)"
proof -
  define D where "D = \<Union> (vbits L cg ` {i \<in> set is. \<not> is_phi L i})"
  have "before L cg is S = before L cg is {} \<union> (S - D)" unfolding D_def by (induction "is") auto
  moreover have "all_defs L cg is = D \<union> phi_defs L cg is" by (auto simp: D_def all_defs_def phi_defs_def)
  ultimately show ?thesis by blast
qed

section \<open>The equations\<close>

definition succ_need :: "('v, 't, 'b) llvm \<Rightarrow> ('b, 'v) gen \<Rightarrow> (nat \<Rightarrow> nat set) \<Rightarrow> 'b \<Rightarrow> 'b \<Rightarrow> nat set" where
  "succ_need L cg I b S = (case cg_block_index cg S of None \<Rightarrow> {}
     | Some si \<Rightarrow> (I si - phi_defs L cg (LLVMInstructions L S)) \<union> edge_reads L cg b S)"

definition out_eq :: "('v, 't, 'b) llvm \<Rightarrow> ('b, 'v) gen \<Rightarrow> (nat \<Rightarrow> nat set) \<Rightarrow> 'b \<Rightarrow> nat set" where
  "out_eq L cg I b = \<Union> (succ_need L cg I b ` set (LLVMSuccessors L b))"

definition in_eq :: "('v, 't, 'b) llvm \<Rightarrow> ('v, 't, 'b) llvm_fn \<Rightarrow> ('b, 'v) gen \<Rightarrow> nat set \<Rightarrow> 'b \<Rightarrow> nat set" where
  "in_eq L F cg S b = (before L cg (LLVMInstructions L b) {} - phi_defs L cg (LLVMInstructions L b)) \<union> (S - block_defs L F cg b)"

lemma out_eq_mono: "(\<And>j. I j \<subseteq> I' j) \<Longrightarrow> out_eq L cg I b \<subseteq> out_eq L cg I' b"
  by (fastforce simp: out_eq_def succ_need_def split: option.splits)

lemma out_eqI:
  assumes "S \<in> set (LLVMSuccessors L b)" "cg_block_index cg S = Some si"
    "k \<in> (I si - phi_defs L cg (LLVMInstructions L S)) \<union> edge_reads L cg b S"
  shows "k \<in> out_eq L cg I b"
  unfolding out_eq_def by (rule UN_I [OF assms(1)]) (use assms(2,3) in \<open>simp add: succ_need_def\<close>)

lemma in_eq_mono: "S \<subseteq> T \<Longrightarrow> in_eq L F cg S b \<subseteq> in_eq L F cg T b"
  by (auto simp: in_eq_def)

definition sets_of :: "cg_bits list \<Rightarrow> nat \<Rightarrow> nat set" where "sets_of ws j = bset (ws ! j)"

definition du_list :: "('v, 't, 'b) llvm \<Rightarrow> ('v, 't, 'b) llvm_fn \<Rightarrow> ('b, 'v) gen \<Rightarrow> def_use list \<Rightarrow> bool" where
  "du_list L F cg du \<longleftrightarrow> length du = length (cg_blocks cg) \<and> (\<forall>j < length (cg_blocks cg). du_ok L F cg (cg_blocks cg ! j) (du ! j))"

lemma edge_yields:
  assumes "bits_total L cg" "bits_ok w"
  shows "yields (cg_or_phi_use_from_edge L cg P S w) (bset w \<union> edge_reads L cg P S)"
  unfolding cg_or_phi_use_from_edge_def edge_reads_def
proof (rule fold_yields)
  show "yields (phi_use L cg P phi v) (bset v \<union> (case map_of (LLVMIncoming L phi) P of None \<Rightarrow> {} | Some v \<Rightarrow> vbits L cg v))"
    if "bits_ok v" for phi v
    using bit_of_yields(1) [OF assms(1) that] that by (auto simp: phi_use_def yields_def split: option.splits)
qed (rule assms(2))

lemma out_yields:
  assumes "bits_total L cg" "du_list L F cg du" "length ins = length (cg_blocks cg)" "\<forall>w \<in> set ins. bits_ok w"
  shows "yields (fold_opt (live_succ L cg du ins b) (LLVMSuccessors L b) cg_bits_clear) (out_eq L cg (sets_of ins) b)"
proof -
  have "yields (live_succ L cg du ins b S w) (bset w \<union> succ_need L cg (sets_of ins) b S)" if w: "bits_ok w" for S w
  proof (cases "cg_block_index cg S")
    case (Some si)
    then have si: "si < length (cg_blocks cg)" "cg_blocks cg ! si = S" using index_of_nth [of S] by (auto simp: cg_block_index_def)
    have "du_ok L F cg S (du ! si)" using assms(2) si by (auto simp: du_list_def)
    moreover have "bits_ok (ins ! si)" using assms(3,4) si(1) by simp
    ultimately have W: "bits_ok (cg_bits_or w (cg_bits_andnot (ins ! si) (du_phi_def (du ! si))))"
      "bset (cg_bits_or w (cg_bits_andnot (ins ! si) (du_phi_def (du ! si))))
        = bset w \<union> (sets_of ins si - phi_defs L cg (LLVMInstructions L S))"
      using w by (simp_all add: du_ok_def bset_or bset_andnot sets_of_def)
    show ?thesis using edge_yields [OF assms(1) W(1), of b S] W(2) by (simp add: live_succ_def succ_need_def Some Un_assoc)
  qed (use w in \<open>simp add: live_succ_def succ_need_def yields_def\<close>)
  then have "yields (fold_opt (live_succ L cg du ins b) (LLVMSuccessors L b) cg_bits_clear)
     (bset cg_bits_clear \<union> \<Union> (succ_need L cg (sets_of ins) b ` set (LLVMSuccessors L b)))"
    by (intro fold_yields) simp_all
  then show ?thesis by (simp add: out_eq_def)
qed

section \<open>The loop\<close>

text \<open>The sets only grow towards the solution, and no more than the paths justify.\<close>

definition live_inv :: "('v, 't, 'b) llvm \<Rightarrow> ('v, 't, 'b) llvm_fn \<Rightarrow> ('b, 'v) gen \<Rightarrow> live_state \<Rightarrow> bool" where
  "live_inv L F cg st \<longleftrightarrow> (let n = length (cg_blocks cg); I = sets_of (ls_in st); S = sets_of (ls_out st) in
     length (ls_in st) = n \<and> length (ls_out st) = n \<and> (\<forall>w \<in> set (ls_in st @ ls_out st). bits_ok w)
     \<and> (\<forall>j < n. S j \<subseteq> out_eq L cg I (cg_blocks cg ! j) \<and> I j \<subseteq> in_eq L F cg (S j) (cg_blocks cg ! j)
         \<and> S j \<subseteq> {k. needs L cg k [] (cg_blocks cg ! j)}))"

definition solved :: "('v, 't, 'b) llvm \<Rightarrow> ('v, 't, 'b) llvm_fn \<Rightarrow> ('b, 'v) gen \<Rightarrow> live_state \<Rightarrow> nat \<Rightarrow> bool" where
  "solved L F cg st j \<longleftrightarrow> sets_of (ls_out st) j = out_eq L cg (sets_of (ls_in st)) (cg_blocks cg ! j)
     \<and> sets_of (ls_in st) j = in_eq L F cg (sets_of (ls_out st) j) (cg_blocks cg ! j)"

definition bits_left :: "live_state \<Rightarrow> nat" where
  "bits_left st = sum_list (map (\<lambda>w. 256 - card (bset w)) (ls_in st @ ls_out st))"

lemma sets_of_update: "j < length ws \<Longrightarrow> sets_of (ws[j := w]) = (sets_of ws)(j := bset w)"
  by (auto simp: sets_of_def fun_eq_iff)

lemma in_needs:
  assumes "S \<subseteq> {k. needs L cg k [] b}" "k \<in> in_eq L F cg S b" "k \<notin> phi_defs L cg (LLVMInstructions L b)"
  shows "needs L cg k (LLVMInstructions L b) b"
proof -
  let ?is = "LLVMInstructions L b"
  have "k \<in> (before L cg ?is {} - phi_defs L cg ?is) \<union> (S - all_defs L cg ?is)"
    using assms(2,3) by (auto simp: in_eq_def block_defs_def)
  then have "k \<in> before L cg ?is S - phi_defs L cg ?is" by (simp only: before_split [of L cg ?is S])
  then show ?thesis using before_mono [OF assms(1)] needs_before [of k L cg ?is b] by blast
qed

lemma out_needs:
  assumes "\<And>j. j < length (cg_blocks cg) \<Longrightarrow> I j \<subseteq> in_eq L F cg (S j) (cg_blocks cg ! j) \<and> S j \<subseteq> {k. needs L cg k [] (cg_blocks cg ! j)}"
  shows "out_eq L cg I b \<subseteq> {k. needs L cg k [] b}"
proof
  fix k assume "k \<in> out_eq L cg I b"
  then obtain T where T: "T \<in> set (LLVMSuccessors L b)" "k \<in> succ_need L cg I b T" by (auto simp: out_eq_def)
  then obtain si where si: "cg_block_index cg T = Some si" by (auto simp: succ_need_def split: option.splits)
  then have j: "si < length (cg_blocks cg)" "cg_blocks cg ! si = T" using index_of_nth [of T] by (auto simp: cg_block_index_def)
  then have blk: "T \<in> set (cg_blocks cg)" by auto
  consider "k \<in> edge_reads L cg b T" | "k \<in> I si" "k \<notin> phi_defs L cg (LLVMInstructions L T)"
    using T(2) si by (auto simp: succ_need_def)
  then show "k \<in> {k. needs L cg k [] b}"
  proof cases
    case 1
    then show ?thesis using edge_moves [OF T(1) blk] by blast
  next
    case 2
    have "needs L cg k (LLVMInstructions L T) T" using in_needs [OF _ _ 2(2)] assms [OF j(1)] 2(1) j(2) by blast
    then show ?thesis using edge_passes [OF T(1) blk 2(2)] by blast
  qed
qed

lemma bits_left_update:
  assumes "j < length ws" "bset (ws ! j) \<subset> bset w"
  shows "sum_list (map (\<lambda>w. 256 - card (bset w)) (ws[j := w])) < sum_list (map (\<lambda>w. 256 - card (bset w)) ws)"
proof -
  have "256 - card (bset w) < 256 - card (bset (ws ! j))"
    using psubset_card_mono [OF bset_finite(1) assms(2)] bset_finite(2) [of w] by linarith
  moreover have "ws = take j ws @ ws ! j # drop (Suc j) ws" using assms(1) by (rule id_take_nth_drop)
  then have "sum_list (map f ws) = sum_list (map f (take j ws)) + f (ws ! j) + sum_list (map f (drop (Suc j) ws))" for f :: "cg_bits \<Rightarrow> nat"
    by (metis (no_types, lifting) add.assoc list.simps(9) map_append sum_list.Cons sum_list_append)
  ultimately show ?thesis using assms(1) by (simp add: upd_conv_take_nth_drop)
qed

text \<open>One block: its sets become what the equations say, and something is left to do only if they change.\<close>

lemma live_block_step:
  assumes "bits_total L cg" "du_list L F cg du" "live_inv L F cg st" "b < length (cg_blocks cg)"
  obtains st' where "live_block L cg du b st = Some st'" "live_inv L F cg st'"
    "st' = st \<and> solved L F cg st b \<or> ls_changed st' \<and> bits_left st' < bits_left st"
proof -
  let ?n = "length (cg_blocks cg)" and ?blk = "cg_blocks cg ! b"
  define I where "I = sets_of (ls_in st)"
  define S where "S = sets_of (ls_out st)"
  have len: "length (ls_in st) = ?n" "length (ls_out st) = ?n" and ok: "\<forall>w \<in> set (ls_in st). bits_ok w" "\<forall>w \<in> set (ls_out st). bits_ok w"
    and J: "\<And>j. j < ?n \<Longrightarrow> S j \<subseteq> out_eq L cg I (cg_blocks cg ! j)" "\<And>j. j < ?n \<Longrightarrow> I j \<subseteq> in_eq L F cg (S j) (cg_blocks cg ! j)"
      "\<And>j. j < ?n \<Longrightarrow> S j \<subseteq> {k. needs L cg k [] (cg_blocks cg ! j)}"
    using assms(3) by (auto simp: live_inv_def Let_def I_def S_def)
  obtain o' where o': "fold_opt (live_succ L cg du (ls_in st) ?blk) (LLVMSuccessors L ?blk) cg_bits_clear = Some o'"
    "bits_ok o'" "bset o' = out_eq L cg I ?blk" using out_yields [OF assms(1,2) len(1) ok(1)] unfolding I_def by (rule yieldsE)
  have du: "du_ok L F cg ?blk (du ! b)" using assms(2,4) by (simp add: du_list_def)
  define i' where "i' = cg_bits_or (du_use (du ! b)) (cg_bits_andnot o' (du_def (du ! b)))"
  have i': "bits_ok i'" "bset i' = in_eq L F cg (out_eq L cg I ?blk) ?blk"
    using du o'(2,3) by (simp_all add: i'_def du_ok_def bset_or bset_andnot in_eq_def)
  let ?st = "st\<lparr>ls_in := (ls_in st)[b := i'], ls_out := (ls_out st)[b := o']\<rparr>"
  have I': "sets_of (ls_in ?st) = I(b := bset i')" and S': "sets_of (ls_out ?st) = S(b := bset o')"
    using assms(4) len by (simp_all add: sets_of_update I_def S_def)
  have grow: "I b \<subseteq> bset i'" "S b \<subseteq> bset o'"
    using J(1,2) [OF assms(4)] in_eq_mono [OF J(1) [OF assms(4)], of L F cg ?blk] by (auto simp: i'(2) o'(3))
  have le: "I j \<subseteq> (I(b := bset i')) j" for j using grow(1) by auto
  have inv: "live_inv L F cg (?st\<lparr>ls_changed := c\<rparr>)" for c
  proof -
    have "bset o' \<subseteq> {k. needs L cg k [] ?blk}" unfolding o'(3) by (rule out_needs) (use J(2,3) in blast)
    moreover have "(S(b := bset o')) j \<subseteq> out_eq L cg (I(b := bset i')) (cg_blocks cg ! j)" if "j < ?n" for j
      using J(1) [OF that] out_eq_mono [of I "I(b := bset i')" L cg "cg_blocks cg ! j", OF le] o'(3) by auto
    moreover have "(I(b := bset i')) j \<subseteq> in_eq L F cg ((S(b := bset o')) j) (cg_blocks cg ! j)" if "j < ?n" for j
      using J(2) [OF that] i'(2) o'(3) by auto
    moreover have "\<forall>w \<in> set ((ls_in st)[b := i'] @ (ls_out st)[b := o']). bits_ok w"
      using ok i'(1) o'(2) set_update_subset_insert by fastforce
    ultimately show ?thesis using J(3) len I' S' unfolding live_inv_def Let_def by simp
  qed
  have nth: "bits_ok (ls_in st ! b)" "bits_ok (ls_out st ! b)" using ok len assms(4) by simp_all
  have eq: "cg_bits_eq i' (ls_in st ! b) \<longleftrightarrow> i' = ls_in st ! b" "cg_bits_eq o' (ls_out st ! b) \<longleftrightarrow> o' = ls_out st ! b"
    by (simp_all add: cg_bits_eq_def)
  define ch where "ch \<longleftrightarrow> i' \<noteq> ls_in st ! b \<or> o' \<noteq> ls_out st ! b"
  have step: "live_block L cg du b st = Some (if ch then ?st\<lparr>ls_changed := True\<rparr> else st)"
    unfolding live_block_def o'(1) Option.bind.simps i'_def [symmetric] Let_def ch_def
    by (cases "i' = ls_in st ! b"; cases "o' = ls_out st ! b") (simp_all add: eq cg_bits_eq_def)
  show ?thesis
  proof (cases ch)
    case False
    then have "solved L F cg st b" using i'(2) o'(3) by (auto simp: ch_def solved_def I_def S_def sets_of_def)
    then show ?thesis using that [of st] step False assms(3) by simp
  next
    case True
    have "bits_left (?st\<lparr>ls_changed := True\<rparr>) < bits_left st"
    proof (cases "o' = ls_out st ! b")
      case True
      then have "I b \<subset> bset i'" using \<open>ch\<close> grow(1) bset_eq [OF i'(1) nth(1)] eq by (auto simp: ch_def I_def sets_of_def)
      then show ?thesis using bits_left_update [of b "ls_in st" i'] True assms(4) len by (simp add: bits_left_def I_def sets_of_def)
    next
      case False
      then have o: "S b \<subset> bset o'" using grow(2) bset_eq [OF o'(2) nth(2)] eq by (auto simp: S_def sets_of_def)
      have "sum_list (map (\<lambda>w. 256 - card (bset w)) ((ls_in st)[b := i'])) \<le> sum_list (map (\<lambda>w. 256 - card (bset w)) (ls_in st))"
        using bits_left_update [of b "ls_in st" i'] grow(1) bset_eq [OF i'(1) nth(1)] eq assms(4) len
        by (cases "i' = ls_in st ! b") (auto simp: I_def sets_of_def intro: less_imp_le)
      then show ?thesis using bits_left_update [of b "ls_out st" o'] o assms(4) len by (simp add: bits_left_def S_def sets_of_def)
    qed
    then show ?thesis using that [of "?st\<lparr>ls_changed := True\<rparr>"] step True inv by simp
  qed
qed

lemma live_blocks_step:
  assumes "bits_total L cg" "du_list L F cg du" "live_inv L F cg st" "\<forall>b \<in> set bs. b < length (cg_blocks cg)"
  shows "\<exists>st'. fold_opt (live_block L cg du) bs st = Some st' \<and> live_inv L F cg st'
    \<and> (st' = st \<and> (\<forall>b \<in> set bs. solved L F cg st b) \<or> ls_changed st' \<and> bits_left st' < bits_left st)"
  using assms(3,4)
proof (induction bs arbitrary: st)
  case (Cons b bs)
  obtain st1 where s1: "live_block L cg du b st = Some st1" "live_inv L F cg st1"
    "st1 = st \<and> solved L F cg st b \<or> ls_changed st1 \<and> bits_left st1 < bits_left st"
    using live_block_step [OF assms(1,2) Cons.prems(1), of b] Cons.prems(2) by auto
  obtain st2 where s2: "fold_opt (live_block L cg du) bs st1 = Some st2" "live_inv L F cg st2"
    "st2 = st1 \<and> (\<forall>b \<in> set bs. solved L F cg st1 b) \<or> ls_changed st2 \<and> bits_left st2 < bits_left st1"
    using Cons.IH [OF s1(2)] Cons.prems(2) by auto
  have "fold_opt (live_block L cg du) (b # bs) st = Some st2" using s1(1) s2(1) by simp
  then show ?case using s1(3) s2(2,3) by (intro exI [of _ st2]) auto
qed simp

lemma changed_irrelevant: "live_inv L F cg (st\<lparr>ls_changed := c\<rparr>) = live_inv L F cg st" "bits_left (st\<lparr>ls_changed := c\<rparr>) = bits_left st"
  by (simp_all add: live_inv_def bits_left_def)

lemma live_loop_ends:
  assumes "bits_total L cg" "du_list L F cg du" "live_inv L F cg st"
  shows "\<exists>st'. live_loop L cg du st = Some st' \<and> live_inv L F cg st' \<and> (\<forall>b < length (cg_blocks cg). solved L F cg st' b)"
  using assms(3)
proof (induction "bits_left st" arbitrary: st rule: less_induct)
  case less
  let ?sa = "st\<lparr>ls_changed := False\<rparr>"
  have inv: "live_inv L F cg ?sa" using less.prems by (simp add: changed_irrelevant)
  obtain st1 where s1: "live_pass L cg du st = Some st1" "live_inv L F cg st1"
    "st1 = ?sa \<and> (\<forall>b < length (cg_blocks cg). solved L F cg ?sa b) \<or> ls_changed st1 \<and> bits_left st1 < bits_left st"
    using live_blocks_step [OF assms(1,2) inv, of "rev [0..<length (cg_blocks cg)]"] by (auto simp: live_pass_def changed_irrelevant)
  show ?case
  proof (cases "ls_changed st1")
    case True
    then have "bits_left st1 < bits_left st" using s1(3) by auto
    from less.hyps [OF this s1(2)] show ?thesis using s1(1) True by (subst live_loop.simps) simp
  next
    case False
    then show ?thesis using s1 by (subst live_loop.simps) auto
  qed
qed

text \<open>A solution has all registers that some path needs.\<close>

lemma solution_complete:
  assumes "needs L cg k is b" "\<forall>j < length (cg_blocks cg). solved L F cg st j"
    "\<forall>b \<in> set (cg_blocks cg). LLVMGetEntryBasicBlock F \<notin> set (LLVMSuccessors L b)"
    "j < length (cg_blocks cg)" "cg_blocks cg ! j = b"
  shows "k \<in> before L cg is (sets_of (ls_out st) j)"
  using assms(1,4,5)
proof (induction arbitrary: j rule: needs.induct)
  case (edge_moves S b)
  obtain si where si: "cg_block_index cg S = Some si" using edge_moves.hyps(2) unfolding cg_block_index_def by (metis index_of_None not_None_eq)
  have "k \<in> out_eq L cg (sets_of (ls_in st)) b" using edge_moves.hyps(1,3) si by (blast intro: out_eqI)
  then show ?case using assms(2) edge_moves.prems by (simp add: solved_def)
next
  case (edge_passes S b)
  obtain si where si: "cg_block_index cg S = Some si" using edge_passes.hyps(2) unfolding cg_block_index_def by (metis index_of_None not_None_eq)
  then have j: "si < length (cg_blocks cg)" "cg_blocks cg ! si = S" using index_of_nth [of S] by (auto simp: cg_block_index_def)
  let ?is = "LLVMInstructions L S"
  have ne: "S \<noteq> LLVMGetEntryBasicBlock F" using assms(3) edge_passes.hyps(1) edge_passes.prems by (metis nth_mem)
  have "k \<in> before L cg ?is (sets_of (ls_out st) si) - phi_defs L cg ?is" using edge_passes.IH [OF j] edge_passes.hyps(3) by blast
  then have "k \<in> in_eq L F cg (sets_of (ls_out st) si) S"
    unfolding before_split [of L cg ?is "sets_of (ls_out st) si"] using ne by (auto simp: in_eq_def block_defs_def)
  then have "k \<in> sets_of (ls_in st) si" using assms(2) j by (simp add: solved_def)
  then have "k \<in> out_eq L cg (sets_of (ls_in st)) b" using edge_passes.hyps(1,3) si by (blast intro: out_eqI)
  then show ?case using assms(2) edge_passes.prems by (simp add: solved_def)
qed auto

text \<open>So the loop computes exactly the registers that are needed.\<close>

lemma liveness_exact:
  assumes "bits_total L cg" "\<forall>b \<in> set (cg_blocks cg). LLVMGetEntryBasicBlock F \<notin> set (LLVMSuccessors L b)"
  shows "\<exists>ins outs. cg_compute_liveness L F cg = Some (cg\<lparr>cg_bb_live_in := ins, cg_bb_live_out := outs\<rparr>)
    \<and> (cg_blocks cg \<noteq> [] \<longrightarrow> length outs = length (cg_blocks cg)) \<and> (\<forall>j < length (cg_blocks cg). bits_ok (outs ! j)
      \<and> bset (outs ! j) = {k. needs L cg k [] (cg_blocks cg ! j)})"
proof (cases "cg_blocks cg = []")
  case True
  then show ?thesis by (intro exI [of _ "cg_bb_live_in cg"] exI [of _ "cg_bb_live_out cg"]) (simp add: cg_compute_liveness_def)
next
  case False
  let ?n = "length (cg_blocks cg)"
  let ?sa = "\<lparr>ls_in = replicate ?n cg_bits_clear, ls_out = replicate ?n cg_bits_clear, ls_changed = True\<rparr>"
  obtain du where du: "def_uses L F cg (cg_blocks cg) = Some du" "du_list L F cg du"
    using def_uses_ok [OF assms(1), of F "cg_blocks cg"] by (auto simp: du_list_def)
  have "sets_of (replicate ?n cg_bits_clear) j = {}" if "j < ?n" for j using that by (simp add: sets_of_def)
  then have "live_inv L F cg ?sa" by (auto simp: live_inv_def Let_def)
  from live_loop_ends [OF assms(1) du(2) this] obtain st where st: "live_loop L cg du ?sa = Some st" "live_inv L F cg st"
    "\<forall>b < ?n. solved L F cg st b" by blast
  have "bset (ls_out st ! j) = {k. needs L cg k [] (cg_blocks cg ! j)}" if j: "j < ?n" for j
  proof
    show "bset (ls_out st ! j) \<subseteq> {k. needs L cg k [] (cg_blocks cg ! j)}" using st(2) j by (auto simp: live_inv_def Let_def sets_of_def)
    show "{k. needs L cg k [] (cg_blocks cg ! j)} \<subseteq> bset (ls_out st ! j)"
      by (auto simp: sets_of_def dest!: solution_complete [OF _ st(3) assms(2) j refl])
  qed
  moreover have "length (ls_out st) = ?n" "\<forall>w \<in> set (ls_out st). bits_ok w" using st(2) by (auto simp: live_inv_def Let_def)
  ultimately show ?thesis using False du(1) st(1)
    by (intro exI [of _ "ls_in st"] exI [of _ "ls_out st"]) (simp add: cg_compute_liveness_def)
qed

end
