(* ===== verification/Live_Theorems.thy ===== *)
theory Live_Theorems
  imports Live_Paths Small_Module
begin

text \<open>The registers recorded for calls, and the property of the analysis.\<close>

section \<open>Calls\<close>

definition records :: "('v, 't, 'b) llvm \<Rightarrow> ('b, 'v) gen \<Rightarrow> 'b \<Rightarrow> 'v \<times> cg_bits \<Rightarrow> bool" where
  "records L cg b iw \<longleftrightarrow> (\<exists>pre post. LLVMInstructions L b = pre @ fst iw # post \<and> bits_ok (snd iw)
     \<and> bset (snd iw) = {k. needs L cg k post b})"

text \<open>A block from behind: \<open>post\<close> are the instructions already seen.\<close>

lemma call_live_insts:
  assumes "bits_total L cg" "bits_ok w" "bset w = {k. needs L cg k post b}" "LLVMInstructions L b = pre @ post"
    "\<forall>iw \<in> set calls. \<exists>b \<in> set (cg_blocks cg). records L cg b iw" "b \<in> set (cg_blocks cg)"
  shows "\<exists>w' calls'. fold_opt (call_live_inst L cg) (rev pre) (w, calls) = Some (w', calls')
    \<and> (\<forall>iw \<in> set calls'. \<exists>b \<in> set (cg_blocks cg). records L cg b iw)
    \<and> fst ` set calls' = fst ` set calls \<union> {i \<in> set pre. spill_point L i}"
  using assms(2-5)
proof (induction pre arbitrary: w calls post rule: rev_induct)
  case (snoc i pre)
  obtain w1 where w1: "live_step L cg i w = Some w1" "bits_ok w1"
    "bset w1 = before L cg [i] {k. needs L cg k post b}"
    using live_step_yields [OF assms(1) snoc.prems(1), of i] snoc.prems(2) by (auto elim!: yieldsE)
  have n: "bset w1 = {k. needs L cg k (i # post) b}" unfolding w1(3) by (auto simp: needs_simps(1))
  let ?calls = "if spill_point L i then calls @ [(i, w)] else calls"
  have "records L cg b (i, w)" using snoc.prems(1-3) unfolding records_def by (intro exI [of _ pre] exI [of _ post]) simp
  then have r: "\<forall>iw \<in> set ?calls. \<exists>b \<in> set (cg_blocks cg). records L cg b iw" using snoc.prems(4) assms(6) by auto
  have e: "fold_opt (call_live_inst L cg) (rev (pre @ [i])) (w, calls) = fold_opt (call_live_inst L cg) (rev pre) (w1, ?calls)"
    using w1(1) by (simp add: call_live_inst_def)
  show ?case unfolding e using snoc.IH [OF w1(2) n _ r] snoc.prems(3) by fastforce
qed simp

lemma call_live_blocks:
  assumes "bits_total L cg" "\<forall>(b, w) \<in> set bws. b \<in> set (cg_blocks cg) \<and> bits_ok w \<and> bset w = {k. needs L cg k [] b}"
    "\<forall>iw \<in> set calls. \<exists>b \<in> set (cg_blocks cg). records L cg b iw"
  shows "\<exists>calls'. fold_opt (call_live_block L cg) bws calls = Some calls'
    \<and> (\<forall>iw \<in> set calls'. \<exists>b \<in> set (cg_blocks cg). records L cg b iw)
    \<and> fst ` set calls' = fst ` set calls \<union> {i. \<exists>b \<in> fst ` set bws. i \<in> set (LLVMInstructions L b) \<and> spill_point L i}"
  using assms(2,3)
proof (induction bws arbitrary: calls)
  case (Cons bw bws)
  obtain b w where bw: "bw = (b, w)" by (cases bw)
  obtain w' calls1 where c: "fold_opt (call_live_inst L cg) (rev (LLVMInstructions L b)) (w, calls) = Some (w', calls1)"
    "\<forall>iw \<in> set calls1. \<exists>b \<in> set (cg_blocks cg). records L cg b iw"
    "fst ` set calls1 = fst ` set calls \<union> {i \<in> set (LLVMInstructions L b). spill_point L i}"
    using call_live_insts [OF assms(1), of w "[]" b "LLVMInstructions L b" calls] Cons.prems bw by auto
  have "fold_opt (call_live_block L cg) (bw # bws) calls = fold_opt (call_live_block L cg) bws calls1"
    by (simp add: call_live_block_def bw c(1))
  then show ?case using Cons.IH [OF _ c(2)] Cons.prems(1) c(3) bw by fastforce
qed auto

lemma distinct_position:
  assumes "distinct (concat (map f bs))" "b \<in> set bs" "b' \<in> set bs" "f b = pre @ i # post" "f b' = pre' @ i # post'"
  shows "b' = b \<and> post' = post"
proof -
  have "b' = b \<or> set (f b) \<inter> set (f b') = {}" using assms(1-3)
    by (induction bs) (auto simp: disjoint_iff)
  then have "b' = b" using assms(4,5) by auto
  moreover have "distinct (f b)" using assms(1,2) by (induction bs) auto
  ultimately show ?thesis using \<open>b' = b\<close> assms(4,5) by (auto simp: append_eq_append_conv2 append_eq_Cons_conv Cons_eq_append_conv)
qed

lemma analysis_same:
  assumes "cg_spill_bit_of L cg' = cg_spill_bit_of L cg"
  shows "call_live_block L cg' = call_live_block L cg"
proof -
  have "set_bit_of L cg' = set_bit_of L cg" "clear_bit_of L cg' = clear_bit_of L cg"
    by (intro ext; simp add: set_bit_of_def clear_bit_of_def assms)+
  then have "live_step L cg' = live_step L cg" by (intro ext) (simp add: live_step_def)
  then have "call_live_inst L cg' = call_live_inst L cg" by (intro ext) (simp add: call_live_inst_def)
  then show ?thesis by (intro ext) (simp add: call_live_block_def)
qed

text \<open>The tables have a place for every value, and no block branches to the entry block.\<close>

definition live_input :: "('v, 't, 'b) llvm \<Rightarrow> ('v, 't, 'b) llvm_fn \<Rightarrow> ('b, 'v) gen \<Rightarrow> bool" where
  "live_input L F cg \<longleftrightarrow> value_table_ok L cg \<and> length (cg_val_slot cg) = length (cg_vals cg) \<and> length (cg_regs cg) = length (cg_vals cg)
     \<and> (\<forall>b \<in> set (cg_blocks cg). LLVMGetEntryBasicBlock F \<notin> set (LLVMSuccessors L b))
     \<and> distinct (concat (map (LLVMInstructions L) (cg_blocks cg)))"

lemma recorded_exact:
  assumes "live_input L F cg"
  shows "\<exists>ins outs calls. cg_compute_liveness L F cg = Some (cg\<lparr>cg_bb_live_in := ins, cg_bb_live_out := outs\<rparr>)
    \<and> cg_compute_call_liveouts L (cg\<lparr>cg_bb_live_in := ins, cg_bb_live_out := outs\<rparr>)
      = Some (cg\<lparr>cg_bb_live_in := ins, cg_bb_live_out := outs, cg_call_lives := calls\<rparr>)
    \<and> (\<forall>iw \<in> set calls. bits_ok (snd iw))
    \<and> (\<forall>b \<in> set (cg_blocks cg). \<forall>pre i post. LLVMInstructions L b = pre @ i # post \<and> spill_point L i \<longrightarrow>
        (\<exists>w. map_of calls i = Some w \<and> bset w = {k. needs L cg k post b}))"
proof -
  have total: "bits_total L cg" and entry: "\<forall>b \<in> set (cg_blocks cg). LLVMGetEntryBasicBlock F \<notin> set (LLVMSuccessors L b)"
    and dist: "distinct (concat (map (LLVMInstructions L) (cg_blocks cg)))"
    using assms bits_totalI by (auto simp: live_input_def)
  obtain ins outs where lv: "cg_compute_liveness L F cg = Some (cg\<lparr>cg_bb_live_in := ins, cg_bb_live_out := outs\<rparr>)"
    "cg_blocks cg \<noteq> [] \<Longrightarrow> length outs = length (cg_blocks cg)"
    "\<forall>j < length (cg_blocks cg). bits_ok (outs ! j) \<and> bset (outs ! j) = {k. needs L cg k [] (cg_blocks cg ! j)}"
    using liveness_exact [OF total entry] by blast
  let ?cg = "cg\<lparr>cg_bb_live_in := ins, cg_bb_live_out := outs\<rparr>" and ?bws = "zip (cg_blocks cg) outs"
  have z: "\<forall>(b, w) \<in> set ?bws. b \<in> set (cg_blocks cg) \<and> bits_ok w \<and> bset w = {k. needs L cg k [] b}"
    using lv(3) by (auto simp: set_zip)
  have fz: "fst ` set ?bws = set (cg_blocks cg)"
    using lv(2) by (cases "cg_blocks cg = []") (auto simp: set_map [symmetric] simp del: set_map)
  obtain calls where c: "fold_opt (call_live_block L cg) ?bws [] = Some calls"
    "\<forall>iw \<in> set calls. \<exists>b \<in> set (cg_blocks cg). records L cg b iw"
    "fst ` set calls = {i. \<exists>b \<in> set (cg_blocks cg). i \<in> set (LLVMInstructions L b) \<and> spill_point L i}"
    using call_live_blocks [OF total z, of "[]"] fz by auto
  have same: "cg_spill_bit_of L ?cg = cg_spill_bit_of L cg"
  proof -
    have "cg_lookup L ?cg = cg_lookup L cg" by (simp add: fun_eq_iff cg_lookup_def)
    then show ?thesis by (intro ext) (simp add: cg_spill_bit_of_def cong: if_cong option.case_cong)
  qed
  note analysis_same [OF same]
  then have co: "cg_compute_call_liveouts L ?cg = Some (?cg\<lparr>cg_call_lives := calls\<rparr>)"
    using c(1) by (simp add: cg_compute_call_liveouts_def)
  have "\<exists>w. map_of calls i = Some w \<and> bset w = {k. needs L cg k post b}"
    if b: "b \<in> set (cg_blocks cg)" "LLVMInstructions L b = pre @ i # post" "spill_point L i" for b pre i post
  proof -
    have "i \<in> set (LLVMInstructions L b)" using b(2) by simp
    then have "i \<in> fst ` set calls" using b(1,3) c(3) by blast
    then obtain w where w: "map_of calls i = Some w" by (metis map_of_eq_None_iff not_None_eq)
    then obtain b' pre' post' where r: "b' \<in> set (cg_blocks cg)" "LLVMInstructions L b' = pre' @ i # post'"
      "bset w = {k. needs L cg k post' b'}" using c(2) map_of_SomeD [OF w] by (fastforce simp: records_def)
    have "b' = b \<and> post' = post" using distinct_position [OF dist b(1) r(1) b(2) r(2)] .
    then show ?thesis using w r(3) by blast
  qed
  moreover have "\<forall>iw \<in> set calls. bits_ok (snd iw)" using c(2) by (auto simp: records_def)
  ultimately show ?thesis using lv(1) co by (intro exI [of _ ins] exI [of _ outs] exI [of _ calls]) simp
qed

text \<open>C37. Liveness is exact: on a function whose blocks do not branch to its entry block the analysis ends, and for
  every call (or instruction lowered to a call, or \<open>invoke\<close>) it records the registers that some path from behind the
  call reads, in an instruction or as a phi's source on an edge, before it writes them: these and no others.\<close>

theorem call_liveouts_exact:
  assumes "live_input L F cg"
  shows "\<exists>cg1 cg2. cg_compute_liveness L F cg = Some cg1 \<and> cg_compute_call_liveouts L cg1 = Some cg2
    \<and> (\<forall>b \<in> set (cg_blocks cg). \<forall>pre i post. LLVMInstructions L b = pre @ i # post \<and> spill_point L i \<longrightarrow>
        (\<exists>w. cg_lookup_call_live cg2 i = Some w \<and> (\<forall>k < 256. cg_bits_test w k \<longleftrightarrow> needs L cg k post b)))"
proof -
  obtain ins outs calls where c: "cg_compute_liveness L F cg = Some (cg\<lparr>cg_bb_live_in := ins, cg_bb_live_out := outs\<rparr>)"
    "cg_compute_call_liveouts L (cg\<lparr>cg_bb_live_in := ins, cg_bb_live_out := outs\<rparr>)
      = Some (cg\<lparr>cg_bb_live_in := ins, cg_bb_live_out := outs, cg_call_lives := calls\<rparr>)"
    "\<forall>b \<in> set (cg_blocks cg). \<forall>pre i post. LLVMInstructions L b = pre @ i # post \<and> spill_point L i \<longrightarrow>
        (\<exists>w. map_of calls i = Some w \<and> bset w = {k. needs L cg k post b})" using recorded_exact [OF assms] by blast
  let ?cg2 = "cg\<lparr>cg_bb_live_in := ins, cg_bb_live_out := outs, cg_call_lives := calls\<rparr>"
  have "\<exists>w. cg_lookup_call_live ?cg2 i = Some w \<and> (\<forall>k < 256. cg_bits_test w k \<longleftrightarrow> needs L cg k post b)"
    if at: "b \<in> set (cg_blocks cg)" "LLVMInstructions L b = pre @ i # post \<and> spill_point L i" for b pre i post
  proof -
    obtain w where w: "map_of calls i = Some w" "bset w = {k. needs L cg k post b}" using c(3) at by blast
    have "cg_bits_test w k \<longleftrightarrow> needs L cg k post b" if "k < 256" for k using w(2) that by (auto simp: bset_def)
    then show ?thesis using w(1) by (simp add: cg_lookup_call_live_def)
  qed
  then show ?thesis using c(1,2) by blast
qed

text \<open>A loop with a call: \<open>%0\<close> before it; \<open>%1 = phi [%0, 0], [%3, 1]\<close>, \<open>%2 = call\<close>, \<open>%3 = add %1, %0\<close> in it. The registers of
  \<open>%0\<close> and \<open>%1\<close> are needed behind the call, that of \<open>%3\<close> is not.\<close>

definition loop_module :: "(nat, nat, nat) llvm" where
  "loop_module = small_llvm [(0, \<lparr>si_block = 0, si_opcode = LLVMLoad, si_width = 32, si_operands = [], si_incoming = []\<rparr>),
     (1, \<lparr>si_block = 1, si_opcode = LLVMPHI, si_width = 32, si_operands = [0, 3], si_incoming = [(0, 0), (1, 3)]\<rparr>),
     (2, \<lparr>si_block = 1, si_opcode = LLVMCall, si_width = 32, si_operands = [], si_incoming = []\<rparr>),
     (3, \<lparr>si_block = 1, si_opcode = LLVMAdd, si_width = 32, si_operands = [1, 0], si_incoming = []\<rparr>)]
     (\<lambda>b. if b = 0 then [1] else if b = 1 then [1, 2] else [])"

definition loop_fn :: "(nat, nat, nat) llvm_fn" where
  "loop_fn = \<lparr>LLVMParams = [], LLVMBasicBlocks = [0, 1, 2], LLVMGetEntryBasicBlock = 0, LLVMGetInstructionParent = (\<lambda>v. if v = 0 then 0 else 1),
     LLVMUsers = (\<lambda>v. [3]), LLVMGetAllocatedType = (\<lambda>v. 0), LLVMABIAlignmentOfType = (\<lambda>t. 4)\<rparr>"

lemma loop_module_simps:
  "LLVMInstructions loop_module 0 = [0]" "LLVMInstructions loop_module 1 = [1, 2, 3]" "LLVMInstructions loop_module 2 = []"
  "LLVMSuccessors loop_module 0 = [1]" "LLVMSuccessors loop_module 1 = [1, 2]" "LLVMSuccessors loop_module 2 = []"
  "operands loop_module 3 = [1, 0]" "operands loop_module 2 = []" "\<not> is_phi loop_module 3" "spill_point loop_module 2"
  "LLVMIsAInstruction loop_module v \<longleftrightarrow> v < 4"
proof -
  show "LLVMIsAInstruction loop_module v \<longleftrightarrow> v < 4" by (auto simp: loop_module_def small_llvm_def Let_def)
qed (simp_all add: loop_module_def small_llvm_def Let_def operands_def is_phi_def spill_point_def upt_rec)

lemma loop_gen:
  obtains cg :: "(nat, nat) gen" where "live_input loop_module loop_fn cg" "cg_blocks cg = [0, 1, 2]"
    "\<And>v. v < 4 \<Longrightarrow> cg_spill_bit_of loop_module cg v = Some (Some v)" "cg_ssa_reg_high cg = 12" "cg_alloca_bytes cg = 0"
proof -
  let ?g = "cg_reset_function_state cg_initial :: (nat, nat) gen"
  have ok: "value_table_ok loop_module ?g"
    by (simp add: value_table_ok_def cg_reset_function_state_def cg_initial_def)
  obtain g where g: "value_table_ok loop_module g" "cg_vals g = [0, 1, 2, 3]" "cg_regs g = [8, 9, 10, 11]"
    using assign_all_ok [OF ok, of "[(0, 8), (1, 9), (2, 10), (3, 11)]"] by (auto simp: cg_reset_function_state_def cg_initial_def)
  let ?c = "g\<lparr>cg_blocks := [0, 1, 2], cg_val_slot := replicate 4 CG_NO_SLOT, cg_ssa_reg_high := 12, cg_alloca_bytes := 0\<rparr>"
  have lk: "cg_lookup loop_module ?c v = Some (index_of v [0, 1, 2, 3])" for v
  proof -
    have "cg_lookup loop_module ?c v = cg_lookup loop_module g v" by (simp add: cg_lookup_def)
    then show ?thesis by (simp only: lookup_first [OF g(1)] g(2))
  qed
  have "live_input loop_module loop_fn ?c"
    using g by (auto simp: live_input_def value_table_ok_def loop_fn_def loop_module_simps simp del: One_nat_def)
  moreover have "cg_spill_bit_of loop_module ?c v = Some (Some v)" if "v < 4" for v
  proof -
    have "v \<in> {0, 1, 2, 3}" using that by auto
    then show ?thesis by (auto simp: cg_spill_bit_of_def lk loop_module_simps at_def g index_of.simps simp del: One_nat_def cong: if_cong option.case_cong)
  qed
  ultimately show ?thesis using that [of ?c] by simp
qed

theorem call_liveouts_exact_witness:
  "\<exists>cg cg1 cg2 w. cg_compute_liveness loop_module loop_fn cg = Some cg1 \<and> cg_compute_call_liveouts loop_module cg1 = Some cg2
    \<and> cg_lookup_call_live cg2 2 = Some w \<and> cg_bits_test w 0 \<and> cg_bits_test w 1 \<and> \<not> cg_bits_test w 3"
proof -
  obtain cg :: "(nat, nat) gen" where cg: "live_input loop_module loop_fn cg" "cg_blocks cg = [0, 1, 2]"
    "\<And>v. v < 4 \<Longrightarrow> cg_spill_bit_of loop_module cg v = Some (Some v)" using loop_gen by blast
  have v: "vbits loop_module cg v = {v}" if "v < 4" for v using cg(3) [OF that] by (simp add: vbits_def)
  have r: "reads loop_module cg 3 = {0, 1}" by (auto simp: reads_def loop_module_simps v)
  have n: "needs loop_module cg 0 [3] 1" "needs loop_module cg 1 [3] 1" "\<not> needs loop_module cg 3 [3] 1"
    unfolding needs_simps(1) by (simp_all add: loop_module_simps r v)
  have "1 \<in> set (cg_blocks cg)" "LLVMInstructions loop_module 1 = [1] @ 2 # [3]" "spill_point loop_module 2"
    by (simp_all add: cg(2) loop_module_simps del: One_nat_def)
  moreover obtain cg1 cg2 where c: "cg_compute_liveness loop_module loop_fn cg = Some cg1"
    "cg_compute_call_liveouts loop_module cg1 = Some cg2"
    "\<forall>b \<in> set (cg_blocks cg). \<forall>pre i post. LLVMInstructions loop_module b = pre @ i # post \<and> spill_point loop_module i \<longrightarrow>
        (\<exists>w. cg_lookup_call_live cg2 i = Some w \<and> (\<forall>k < 256. cg_bits_test w k \<longleftrightarrow> needs loop_module cg k post b))"
    using call_liveouts_exact [OF cg(1)] by blast
  ultimately obtain w where w: "cg_lookup_call_live cg2 2 = Some w" "\<forall>k < 256. cg_bits_test w k \<longleftrightarrow> needs loop_module cg k [3] 1"
    by blast
  have "(0 :: nat) < 256" "(1 :: nat) < 256" "(3 :: nat) < 256" by simp_all
  then have "cg_bits_test w 0" "cg_bits_test w 1" "\<not> cg_bits_test w 3" using w(2) n by blast+
  then show ?thesis using c(1,2) w(1) by blast
qed

end
