(* ===== verification/Spill.thy ===== *)
theory Spill
  imports Live_Theorems Wide_Theorems
begin

text \<open>
  Caller-save spilling on the machine: what \<open>cg_emit_spill\<close> stores around a call, \<open>cg_emit_restore\<close> brings back,
  and with the slots of \<open>frame_layout\<close> these are the registers that are needed after the call.
\<close>

section \<open>The code\<close>

definition saves :: "('b, 'v) gen \<Rightarrow> cg_bits \<Rightarrow> (nat \<times> u32) list" where
  "saves cg st = concat (map (\<lambda>k. case spill_off cg st k of None \<Rightarrow> [] | Some off \<Rightarrow> [(k, off)]) [0..<cg_ssa_reg_high cg - 8])"

definition save_code :: "(nat \<times> u32) list \<Rightarrow> u32 list" where
  "save_code ps = concat (map (\<lambda>(k, off). stw_code off (of_nat (8 + k))) ps)"

definition load_code :: "(nat \<times> u32) list \<Rightarrow> u32 list" where
  "load_code ps = concat (map (\<lambda>(k, off). ldw_code (of_nat (8 + k)) off) ps)"

lemma code_simps [simp]:
  "save_code [] = []" "save_code (p # ps) = stw_code (snd p) (of_nat (8 + fst p)) @ save_code ps"
  "load_code [] = []" "load_code (p # ps) = ldw_code (of_nat (8 + fst p)) (snd p) @ load_code ps"
  "save_code (ps @ qs) = save_code ps @ save_code qs" "load_code (ps @ qs) = load_code ps @ load_code qs"
  by (simp_all add: save_code_def load_code_def split: prod.splits)

lemma straight_code [simp]: "straight (save_code ps)" "straight (load_code ps)"
  by (induction ps) simp_all

lemma spill_off_emit: "spill_off (emit_all ws cg) st k = spill_off cg st k"
  by (simp add: spill_off_def emit_all_def Let_def cong: if_cong)

lemma emit_saves:
  "cg_emit_spill st cg = emit_all (save_code (saves cg st)) cg"
  "cg_emit_restore st cg = emit_all (load_code (saves cg st)) cg"
proof -
  let ?p = "\<lambda>k. case spill_off cg st k of None \<Rightarrow> [] | Some off \<Rightarrow> [(k, off)]"
  have "fold (spill_one st) ks (emit_all ws cg) = emit_all (ws @ save_code (concat (map ?p ks))) cg" for ks ws
    by (induction ks arbitrary: ws) (simp_all add: spill_one_def spill_off_emit emit_helpers split: option.splits)
  from this [of "[0..<cg_ssa_reg_high cg - 8]" "[]"] show "cg_emit_spill st cg = emit_all (save_code (saves cg st)) cg"
    by (simp add: cg_emit_spill_def saves_def)
  have "fold (restore_one st) ks (emit_all ws cg) = emit_all (ws @ load_code (concat (map ?p ks))) cg" for ks ws
    by (induction ks arbitrary: ws) (simp_all add: restore_one_def spill_off_emit emit_helpers split: option.splits)
  from this [of "[0..<cg_ssa_reg_high cg - 8]" "[]"] show "cg_emit_restore st cg = emit_all (load_code (saves cg st)) cg"
    by (simp add: cg_emit_restore_def saves_def)
qed

section \<open>On the machine\<close>

abbreviation apart :: "u32 \<Rightarrow> u32 \<Rightarrow> bool" where
  "apart a b \<equiv> unat a + 4 \<le> unat b \<or> unat b + 4 \<le> unat a"

definition save_reg :: "nat \<Rightarrow> u8" where "save_reg k = of_nat (8 + k)"

text \<open>Registers below the scratch window, and slots of the frame that do not overlap.\<close>

definition saves_ok :: "'h ctx \<Rightarrow> 'h vm \<Rightarrow> (nat \<times> u32) list \<Rightarrow> bool" where
  "saves_ok cx s ps \<longleftrightarrow> (\<forall>(k, off) \<in> set ps. k < 245 \<and> in_frame cx s off) \<and> distinct (map fst ps)
     \<and> (\<forall>p \<in> set ps. \<forall>q \<in> set ps. fst p \<noteq> fst q \<longrightarrow> apart (snd p) (snd q))"

lemma save_reg_eq: "k < 245 \<Longrightarrow> j < 245 \<Longrightarrow> save_reg k = save_reg j \<longleftrightarrow> k = j"
  and save_reg_other: "k < 245 \<Longrightarrow> save_reg k \<noteq> CG_REG_SCRATCH" "k < 245 \<Longrightarrow> save_reg k \<noteq> CG_REG_SP"
proof -
  have u: "unat (save_reg i) = 8 + i" if "i < 245" for i
  proof -
    have "8 + i < 2 ^ LENGTH(8)" using that by simp
    then show ?thesis unfolding save_reg_def by (simp only: unat_of_nat mod_less)
  qed
  show "k < 245 \<Longrightarrow> j < 245 \<Longrightarrow> save_reg k = save_reg j \<longleftrightarrow> k = j" using u by (metis add_left_cancel)
  show "k < 245 \<Longrightarrow> save_reg k \<noteq> CG_REG_SCRATCH" "k < 245 \<Longrightarrow> save_reg k \<noteq> CG_REG_SP"
    using u [of k] by (auto simp: CG_REG_SCRATCH_def CG_REG_SP_def)
qed

lemma saves_ok_Cons:
  assumes "saves_ok cx s (p # ps)" "R s' CG_REG_SP = R s CG_REG_SP"
  shows "saves_ok cx s' ps" "fst p < 245" "in_frame cx s (snd p)" "\<forall>q \<in> set ps. apart (snd p) (snd q)" "fst p \<notin> fst ` set ps"
    "\<forall>q \<in> set ps. fst q < 245"
  using assms by (fastforce simp: saves_ok_def in_frame_def split: prod.splits)+

lemma run_save:
  assumes "vm_ok cx s" "saves_ok cx s ps"
  shows "\<exists>s'. run cx (save_code ps) s = Running s' \<and> vm_ok cx s' \<and> vm_host s' = vm_host s \<and> (\<forall>r. r \<noteq> CG_REG_SCRATCH \<longrightarrow> R s' r = R s r)
    \<and> (\<forall>(k, off) \<in> set ps. slot_val s' off = R s (save_reg k))
    \<and> (\<forall>off. in_frame cx s off \<longrightarrow> (\<forall>p \<in> set ps. apart (snd p) off) \<longrightarrow> slot_val s' off = slot_val s off)"
  using assms
proof (induction ps arbitrary: s)
  case (Cons p ps)
  obtain k off where p: "p = (k, off)" by (cases p)
  let ?sa = "sp_scratch off s"
  let ?sb = "slot_put off (R s (save_reg k)) ?sa"
  have sp: "R ?sb CG_REG_SP = R s CG_REG_SP" using scratch_sp by simp
  note C = saves_ok_Cons [OF Cons.prems(2) sp]
  have k: "k < 245" "in_frame cx s off" using C(2,3) p by simp_all
  have ok: "vm_ok cx ?sa" "in_frame cx ?sa off" using Cons.prems(1) k(2) scratch_sp by simp_all
  have run: "run cx (save_code (p # ps)) s = run cx (save_code ps) ?sb"
    using run_stw [OF Cons.prems(1) k(2) save_reg_other(1) [OF k(1)]] by (simp add: p save_reg_def)
  obtain s' where s': "run cx (save_code ps) ?sb = Running s'" "vm_ok cx s'" "vm_host s' = vm_host ?sb"
    "\<forall>r. r \<noteq> CG_REG_SCRATCH \<longrightarrow> R s' r = R ?sb r" "\<forall>(k, off) \<in> set ps. slot_val s' off = R ?sb (save_reg k)"
    "\<forall>off. in_frame cx ?sb off \<longrightarrow> (\<forall>p \<in> set ps. apart (snd p) off) \<longrightarrow> slot_val s' off = slot_val ?sb off"
    using Cons.IH [OF slot_put_ok(1) [OF ok] C(1)] by blast
  have "slot_val s' off = R s (save_reg k)"
    using s'(6) C(4) k(2) slot_put_ok(2) [OF ok] p scratch_sp by auto
  moreover have "slot_val s' o' = R s (save_reg j)" if "(j, o') \<in> set ps" for j o'
    using s'(5) that C(6) save_reg_other(1) [of j] by fastforce
  moreover have "slot_val s' o' = slot_val s o'" if "in_frame cx s o'" "\<forall>q \<in> set (p # ps). apart (snd q) o'" for o'
  proof -
    have "slot_val ?sb o' = slot_val ?sa o'"
      by (rule slot_put_other [OF ok]) (use that p scratch_sp in auto)
    then show ?thesis using s'(6) that scratch_sp by simp
  qed
  moreover have "\<forall>r. r \<noteq> CG_REG_SCRATCH \<longrightarrow> R s' r = R s r" using s'(4) by simp
  ultimately show ?case using run s'(1-3) p by auto
qed auto

lemma run_load:
  assumes "vm_ok cx s" "saves_ok cx s ps"
  shows "\<exists>s'. run cx (load_code ps) s = Running s' \<and> vm_ok cx s' \<and> vm_host s' = vm_host s \<and> heap_of s' = heap_of s
    \<and> (\<forall>(k, off) \<in> set ps. R s' (save_reg k) = slot_val s off)
    \<and> (\<forall>r. r \<noteq> CG_REG_SCRATCH \<longrightarrow> r \<notin> save_reg ` fst ` set ps \<longrightarrow> R s' r = R s r)"
  using assms
proof (induction ps arbitrary: s)
  case (Cons p ps)
  obtain k off where p: "p = (k, off)" by (cases p)
  let ?sa = "set_R (sp_scratch off s) (save_reg k) (slot_val s off)"
  have k: "k < 245" "in_frame cx s off" using saves_ok_Cons(2,3) [OF Cons.prems(2) refl] p by simp_all
  have sp: "R ?sa CG_REG_SP = R s CG_REG_SP" using scratch_sp save_reg_other(2) [OF k(1)] by simp
  note C = saves_ok_Cons [OF Cons.prems(2) sp]
  have run: "run cx (load_code (p # ps)) s = run cx (load_code ps) ?sa"
    using run_ldw [OF Cons.prems(1) k(2)] by (simp add: p save_reg_def)
  obtain s' where s': "run cx (load_code ps) ?sa = Running s'" "vm_ok cx s'" "vm_host s' = vm_host ?sa" "heap_of s' = heap_of ?sa"
    "\<forall>(k, off) \<in> set ps. R s' (save_reg k) = slot_val ?sa off"
    "\<forall>r. r \<noteq> CG_REG_SCRATCH \<longrightarrow> r \<notin> save_reg ` fst ` set ps \<longrightarrow> R s' r = R ?sa r"
    using Cons.IH [OF _ C(1)] Cons.prems(1) by auto
  have v: "slot_val ?sa o' = slot_val s o'" for o' using scratch_sp save_reg_other(2) [OF k(1)] by simp
  have "save_reg k \<notin> save_reg ` fst ` set ps"
  proof
    assume "save_reg k \<in> save_reg ` fst ` set ps"
    then obtain q where q: "q \<in> set ps" "save_reg k = save_reg (fst q)" by blast
    then have "k = fst q" using save_reg_eq [OF k(1), of "fst q"] C(6) by blast
    then show False using C(5) p q(1) by auto
  qed
  then have "R s' (save_reg k) = slot_val s off" using s'(6) save_reg_other(1) [OF k(1)] by simp
  then have A: "\<forall>(k, off) \<in> set (p # ps). R s' (save_reg k) = slot_val s off" using s'(5) unfolding p v by simp
  have B: "R s' r = R s r" if "r \<noteq> CG_REG_SCRATCH" "r \<notin> save_reg ` fst ` set (p # ps)" for r
    using s'(6) that p by simp
  show ?case using run s'(1-4) A B by (intro exI [of _ s']) simp
qed auto

section \<open>The slots of the frame\<close>

definition rank :: "cg_bits \<Rightarrow> nat \<Rightarrow> nat" where "rank st k = card {j. j < k \<and> cg_bits_test st j}"

lemma rank_Suc: "rank st (Suc k) = rank st k + (if cg_bits_test st k then 1 else 0)"
proof -
  have "{j. j < Suc k \<and> cg_bits_test st j} = {j. j < k \<and> cg_bits_test st j} \<union> (if cg_bits_test st k then {k} else {})"
    by (auto simp: less_Suc_eq)
  then show ?thesis by (simp add: rank_def)
qed

lemma rank_le: "rank st k \<le> k"
  by (induction k) (simp_all add: rank_Suc, simp add: rank_def)

lemma rank_mono: "k \<le> j \<Longrightarrow> rank st k \<le> rank st j"
  by (induction j) (auto simp: rank_Suc le_Suc_eq)

lemma rank_less: "cg_bits_test st k \<Longrightarrow> k < j \<Longrightarrow> rank st k < rank st j"
  using rank_mono [of "Suc k" j st] by (simp add: rank_Suc)

lemma slots_assigned:
  assumes "n \<le> 256"
  shows "\<exists>slots. fold (assign_slot st) [0..<n] (replicate 256 0xFF, 0) = (slots, rank st n) \<and> length slots = 256
    \<and> (\<forall>k < 256. slots ! k = (if k < n \<and> cg_bits_test st k then of_nat (rank st k) else 0xFF))"
  using assms
proof (induction n)
  case 0
  then show ?case by (simp add: rank_def)
next
  case (Suc n)
  then obtain slots where s: "fold (assign_slot st) [0..<n] (replicate 256 0xFF, 0) = (slots, rank st n)" "length slots = 256"
    "\<forall>k < 256. slots ! k = (if k < n \<and> cg_bits_test st k then of_nat (rank st k) else 0xFF)" by auto
  have "fold (assign_slot st) [0..<Suc n] (replicate 256 0xFF, 0)
      = (if cg_bits_test st n then slots[n := of_nat (rank st n)] else slots, rank st (Suc n))"
    by (simp add: s(1) assign_slot_def rank_Suc)
  then show ?case using s(2,3) Suc.prems by (auto simp: nth_list_update less_Suc_eq)
qed

lemma set_bit_of_grows: "set_bit_of L cg v w = Some w' \<Longrightarrow> bits_ok w \<Longrightarrow> bits_ok w' \<and> bset w \<subseteq> bset w'"
  by (auto simp: set_bit_of_def bset_set spill_bit_less split: option.splits)

lemma set_bits_grow: "fold_opt (set_bit_of L cg) vs w = Some w' \<Longrightarrow> bits_ok w \<Longrightarrow> bits_ok w' \<and> bset w \<subseteq> bset w'"
proof (induction vs arbitrary: w)
  case (Cons v vs)
  then obtain w1 where w1: "set_bit_of L cg v w = Some w1" "fold_opt (set_bit_of L cg) vs w1 = Some w'" by (auto simp: bind_eq_Some_conv)
  then show ?case using set_bit_of_grows [OF w1(1) Cons.prems(2)] Cons.IH [OF w1(2)] by blast
qed simp

lemma invoke_uses_grow:
  "fold_opt (invoke_uses L cg) is acc = Some acc' \<Longrightarrow> bits_ok (fst acc) \<Longrightarrow> bits_ok (fst acc') \<and> bset (fst acc) \<subseteq> bset (fst acc')"
proof (induction "is" arbitrary: acc)
  case (Cons i "is")
  then obtain a where a: "invoke_uses L cg i acc = Some a" "fold_opt (invoke_uses L cg) is a = Some acc'" by (auto simp: bind_eq_Some_conv)
  have "bits_ok (fst a) \<and> bset (fst acc) \<subseteq> bset (fst a)"
    using a(1) Cons.prems(2) set_bits_grow [of L cg "operands L i" "fst acc"]
    by (auto simp: invoke_uses_def split: if_splits)
  then show ?case using Cons.IH [OF a(2)] by blast
qed simp

lemma union_calls:
  "\<forall>iw \<in> set calls. bits_ok (snd iw) \<Longrightarrow> bits_ok w \<Longrightarrow> bits_ok (fold (\<lambda>(i, w) st. cg_bits_or st w) calls w)
    \<and> bset (fold (\<lambda>(i, w) st. cg_bits_or st w) calls w) = bset w \<union> \<Union> (bset ` snd ` set calls)"
proof (induction calls arbitrary: w)
  case (Cons c calls)
  have "bits_ok (cg_bits_or w (snd c)) \<and> bset (cg_bits_or w (snd c)) = bset w \<union> bset (snd c)" using Cons.prems by (simp add: bset_or)
  then show ?case using Cons.IH [of "cg_bits_or w (snd c)"] Cons.prems(1) by (simp add: case_prod_beta Un_assoc)
qed simp

text \<open>What \<open>frame_layout\<close> decides about the registers to save.\<close>

lemma layout_slots:
  assumes "frame_layout L fi cg = Some cg'" "\<forall>iw \<in> set (cg_call_lives cg). bits_ok (snd iw)"
  obtains ever where "\<Union> (bset ` snd ` set (cg_call_lives cg)) \<subseteq> bset ever" "cg_spill_slot_count cg' = rank ever (cg_ssa_reg_high cg - 8)"
    "\<forall>k < 256. cg_slot_of cg' ! k = (if k < cg_ssa_reg_high cg - 8 \<and> cg_bits_test ever k then of_nat (rank ever k) else 0xFF)"
    "cg_ssa_reg_high cg' = cg_ssa_reg_high cg" "cg_alloca_bytes cg' = cg_alloca_bytes cg" "cg_call_lives cg' = cg_call_lives cg"
    "cg_spill_bit_of L cg' = cg_spill_bit_of L cg"
proof -
  let ?n = "cg_ssa_reg_high cg - 8"
  have n: "?n \<le> 256" using assms(1) by (auto simp: frame_layout_def Let_def split: if_splits)
  obtain ever inv where e: "fold_opt (invoke_uses L cg) (concat (map (LLVMInstructions L) (cg_blocks cg)))
      (fold (\<lambda>(i, w) st. cg_bits_or st w) (cg_call_lives cg) cg_bits_clear, cg_fn_has_invoke cg) = Some (ever, inv)"
    using assms(1) n by (auto simp: frame_layout_def Let_def bind_eq_Some_conv split: if_splits)
  obtain slots where s: "fold (assign_slot ever) [0..<?n] (replicate 256 0xFF, 0) = (slots, rank ever ?n)"
    "\<forall>k < 256. slots ! k = (if k < ?n \<and> cg_bits_test ever k then of_nat (rank ever k) else 0xFF)" using slots_assigned [OF n] by blast
  have "\<Union> (bset ` snd ` set (cg_call_lives cg)) \<subseteq> bset ever"
    using invoke_uses_grow [OF e] union_calls [OF assms(2), of cg_bits_clear] by simp
  moreover have "cg_spill_slot_count cg' = rank ever ?n" "cg_slot_of cg' = slots" "cg_ssa_reg_high cg' = cg_ssa_reg_high cg"
    "cg_alloca_bytes cg' = cg_alloca_bytes cg" "cg_call_lives cg' = cg_call_lives cg"
    using assms(1) n e s(1) by (auto simp: frame_layout_def Let_def)
  moreover have "cg_spill_bit_of L cg' = cg_spill_bit_of L cg"
  proof -
    have t: "cg_htab cg' = cg_htab cg" "cg_val_slot cg' = cg_val_slot cg" "cg_regs cg' = cg_regs cg" "cg_ssa_reg_high cg' = cg_ssa_reg_high cg"
      using assms(1) n e s(1) by (auto simp: frame_layout_def Let_def)
    have "cg_lookup L cg' = cg_lookup L cg" by (simp add: fun_eq_iff cg_lookup_def t(1))
    then show ?thesis by (intro ext) (simp add: cg_spill_bit_of_def t cong: if_cong option.case_cong)
  qed
  ultimately show ?thesis using that s(2) by blast
qed

lemma set_saves: "set (saves cg st) = {(k, off). k < cg_ssa_reg_high cg - 8 \<and> spill_off cg st k = Some off}"
  by (auto simp: saves_def split: option.splits)

lemma distinct_saves: "distinct (map fst (saves cg st))"
proof -
  have "map fst (concat (map (\<lambda>k. case spill_off cg st k of None \<Rightarrow> [] | Some off \<Rightarrow> [(k, off)]) ks))
      = filter (\<lambda>k. spill_off cg st k \<noteq> None) ks" for ks
    by (induction ks) (auto split: option.splits)
  then show ?thesis by (simp add: saves_def)
qed

lemma slot_offset:
  assumes "r < 245" "unat a + 4 * r < 2 ^ 32"
  shows "unat (a + ucast (of_nat r :: u8) * 4 :: u32) = unat a + 4 * r" "(of_nat r :: u8) \<noteq> 0xFF"
proof -
  have u: "unat (of_nat r :: u8) = r"
  proof -
    have "r < 2 ^ LENGTH(8)" using assms(1) by simp
    then show ?thesis by (simp only: unat_of_nat mod_less)
  qed
  have c: "unat (ucast (of_nat r :: u8) :: u32) = r" using u assms(1) by (simp add: unsigned_ucast_eq take_bit_nat_eq_self)
  have "unat (ucast (of_nat r :: u8) * 4 :: u32) = r * 4" using unat_word_ariths(2) [of "ucast (of_nat r :: u8) :: u32" 4] assms(1) by (simp add: c)
  then show "unat (a + ucast (of_nat r :: u8) * 4 :: u32) = unat a + 4 * r" using unat_word_ariths(1) [of a "ucast (of_nat r :: u8) * 4"] assms(2) by simp
  show "(of_nat r :: u8) \<noteq> 0xFF" using u assms(1) by auto
qed

text \<open>The frame of the function lies in memory.\<close>

definition frame_fits :: "'h ctx \<Rightarrow> 'h vm \<Rightarrow> ('b, 'v) gen \<Rightarrow> bool" where
  "frame_fits cx s cg \<longleftrightarrow> unat (R s CG_REG_SP) + unat (cg_alloca_bytes cg) + 4 * cg_spill_slot_count cg \<le> unat (cx_mem_size cx)"

lemma layout_saves:
  assumes "frame_layout L fi cg = Some cg'" "\<forall>iw \<in> set (cg_call_lives cg). bits_ok (snd iw)" "cg_ssa_reg_high cg \<le> 253"
    "frame_fits cx s cg'"
  shows "saves_ok cx s (saves cg' st)"
    "\<lbrakk>k < cg_ssa_reg_high cg - 8; cg_bits_test st k; k \<in> \<Union> (bset ` snd ` set (cg_call_lives cg))\<rbrakk> \<Longrightarrow> k \<in> fst ` set (saves cg' st)"
    "(j, off) \<in> set (saves cg' st) \<Longrightarrow> unat (cg_alloca_bytes cg') \<le> unat off \<and> unat off + 4 \<le> unat (cg_alloca_bytes cg') + 4 * cg_spill_slot_count cg'"
proof -
  obtain ever where e: "\<Union> (bset ` snd ` set (cg_call_lives cg)) \<subseteq> bset ever" "cg_spill_slot_count cg' = rank ever (cg_ssa_reg_high cg - 8)"
    "\<forall>k < 256. cg_slot_of cg' ! k = (if k < cg_ssa_reg_high cg - 8 \<and> cg_bits_test ever k then of_nat (rank ever k) else 0xFF)"
    "cg_ssa_reg_high cg' = cg_ssa_reg_high cg" by (rule layout_slots [OF assms(1,2)])
  let ?n = "cg_ssa_reg_high cg - 8" and ?a = "cg_alloca_bytes cg'"
  let ?off = "\<lambda>k. ?a + ucast (of_nat (rank ever k) :: u8) * 4"
  have fit: "unat (R s CG_REG_SP) + unat ?a + 4 * rank ever ?n \<le> unat (cx_mem_size cx)" using assms(4) e(2) by (simp add: frame_fits_def)
  have lt: "unat (cx_mem_size cx) < 2 ^ 32" by simp
  have off: "unat (?off k) = unat ?a + 4 * rank ever k" "(of_nat (rank ever k) :: u8) \<noteq> 0xFF" "rank ever k < rank ever ?n"
    if k: "k < ?n" "cg_bits_test ever k" for k
  proof -
    show r: "rank ever k < rank ever ?n" by (rule rank_less [OF k(2,1)])
    have "rank ever k < 245" using rank_le [of ever k] k(1) assms(3) by linarith
    moreover have "unat ?a + 4 * rank ever k < 2 ^ 32" using r fit lt by linarith
    ultimately show "unat (?off k) = unat ?a + 4 * rank ever k" "(of_nat (rank ever k) :: u8) \<noteq> 0xFF" using slot_offset by blast+
  qed
  have so: "spill_off cg' st k = (if cg_bits_test st k \<and> cg_bits_test ever k then Some (?off k) else None)" if "k < ?n" for k
    using that off(2) [OF that] e(3) assms(3) by (simp add: spill_off_def Let_def)
  have S: "k < ?n \<and> cg_bits_test ever k \<and> off = ?off k" if "(k, off) \<in> set (saves cg' st)" for k off
    using that so [of k] unfolding set_saves e(4) by (auto split: if_splits)
  show area: "unat ?a \<le> unat off \<and> unat off + 4 \<le> unat ?a + 4 * cg_spill_slot_count cg'" if "(j, off) \<in> set (saves cg' st)" for j off
    using S [OF that] off [of j] e(2) by auto
  have "k < 245 \<and> in_frame cx s off" if "(k, off) \<in> set (saves cg' st)" for k off
    using S [OF that] area [OF that] fit e(2) assms(3) by (auto simp: in_frame_def)
  moreover have "apart (snd p) (snd q)" if "p \<in> set (saves cg' st)" "q \<in> set (saves cg' st)" "fst p \<noteq> fst q" for p q
  proof -
    have p: "fst p < ?n" "cg_bits_test ever (fst p)" "snd p = ?off (fst p)" using S [of "fst p" "snd p"] that(1) by auto
    have q: "fst q < ?n" "cg_bits_test ever (fst q)" "snd q = ?off (fst q)" using S [of "fst q" "snd q"] that(2) by auto
    note ne = that(3)
    consider "rank ever (fst p) < rank ever (fst q)" | "rank ever (fst q) < rank ever (fst p)"
      using ne rank_less [OF p(2), of "fst q"] rank_less [OF q(2), of "fst p"] by linarith
    then show ?thesis unfolding p(3) q(3) off(1) [OF p(1,2)] off(1) [OF q(1,2)] by cases simp_all
  qed
  ultimately show "saves_ok cx s (saves cg' st)" using distinct_saves by (auto simp: saves_ok_def)
  show "k \<in> fst ` set (saves cg' st)" if "k < ?n" "cg_bits_test st k" "k \<in> \<Union> (bset ` snd ` set (cg_call_lives cg))"
  proof -
    have "cg_bits_test ever k" using that(3) e(1) by (auto simp: bset_def)
    then have "(k, ?off k) \<in> set (saves cg' st)" using that(1,2) so [OF that(1)] by (simp add: set_saves e(4))
    then show ?thesis by force
  qed
qed

section \<open>Calls keep what is needed\<close>

lemma vbits_less:
  assumes "bits_total L cg" "k \<in> vbits L cg v"
  shows "k < cg_ssa_reg_high cg - 8"
proof -
  have "cg_spill_bit_of L cg v \<noteq> None" using assms(1) unfolding bits_total_def by blast
  then have "cg_spill_bit_of L cg v = Some (Some k)" using assms(2) by (auto simp: vbits_def split: option.splits)
  then show ?thesis by (auto simp: cg_spill_bit_of_def bind_eq_Some_conv split: option.splits if_splits)
qed

lemma needs_less:
  assumes "bits_total L cg" "needs L cg k is b"
  shows "k < cg_ssa_reg_high cg - 8"
  using assms(2)
proof (induction rule: needs.induct)
  case (reads_it i "is" b)
  then show ?case using vbits_less [OF assms(1)] by (auto simp: reads_def)
next
  case (edge_moves S b)
  then show ?case using vbits_less [OF assms(1)] by (auto simp: edge_reads_def split: option.splits)
qed

text \<open>The words of the save area are as in \<open>s\<close>.\<close>

definition saves_kept :: "('b, 'v) gen \<Rightarrow> 'h vm \<Rightarrow> 'h vm \<Rightarrow> bool" where
  "saves_kept cg s s' \<longleftrightarrow> (\<forall>off. unat (cg_alloca_bytes cg) \<le> unat off \<and> unat off + 4 \<le> unat (cg_alloca_bytes cg) + 4 * cg_spill_slot_count cg
     \<longrightarrow> slot_val s' off = slot_val s off)"

lemma save_dispatches:
  assumes "vm_ok cx s" "saves_ok cx s ps" "runs_code cx code" "take (length (save_code ps)) (drop p code) = save_code ps" "vm_pc s = of_nat p"
  shows "\<exists>n s1. dispatches cx n s s1 \<and> vm_ok cx s1 \<and> vm_pc s1 = of_nat (p + length (save_code ps)) \<and> (\<forall>r. r \<noteq> CG_REG_SCRATCH \<longrightarrow> R s1 r = R s r)
    \<and> (\<forall>(k, off) \<in> set ps. slot_val s1 off = R s (save_reg k))"
proof -
  obtain s' where s': "run cx (save_code ps) s = Running s'" "vm_ok cx s'" "\<forall>r. r \<noteq> CG_REG_SCRATCH \<longrightarrow> R s' r = R s r"
    "\<forall>(k, off) \<in> set ps. slot_val s' off = R s (save_reg k)" using run_save [OF assms(1,2)] by blast
  have ok: "vm_ok cx (set_pc s' x)" for x using s'(2) by simp
  have v: "slot_val (set_pc s' x) off = slot_val s' off" for x off by (simp add: slot_val_def slot_addr_def heap_of_def set_pc_def)
  show ?thesis
    using run_dispatches [OF assms(3,5,4) straight_code(1) s'(1)] s'(3,4) v ok
    by (intro exI [of _ "length (save_code ps)"] exI [of _ "set_pc s' (of_nat (p + length (save_code ps)))"])
      (simp add: set_pc_def)
qed

lemma load_dispatches:
  assumes "vm_ok cx s" "saves_ok cx s ps" "runs_code cx code" "take (length (load_code ps)) (drop p code) = load_code ps" "vm_pc s = of_nat p"
  shows "\<exists>n s1. dispatches cx n s s1 \<and> vm_pc s1 = of_nat (p + length (load_code ps)) \<and> (\<forall>(k, off) \<in> set ps. R s1 (save_reg k) = slot_val s off)
    \<and> (\<forall>r. r \<noteq> CG_REG_SCRATCH \<longrightarrow> r \<notin> save_reg ` fst ` set ps \<longrightarrow> R s1 r = R s r)"
proof -
  obtain s' where s': "run cx (load_code ps) s = Running s'" "\<forall>(k, off) \<in> set ps. R s' (save_reg k) = slot_val s off"
    "\<forall>r. r \<noteq> CG_REG_SCRATCH \<longrightarrow> r \<notin> save_reg ` fst ` set ps \<longrightarrow> R s' r = R s r" using run_load [OF assms(1,2)] by blast
  show ?thesis
    using run_dispatches [OF assms(3,5,4) straight_code(2) s'(1)] s'(2,3)
    by (intro exI [of _ "length (load_code ps)"] exI [of _ "set_pc s' (of_nat (p + length (load_code ps)))"]) (simp add: set_pc_def)
qed

text \<open>What is saved at the call \<open>i\<close>, and what of it is needed.\<close>

lemma call_saves:
  assumes "live_input L F cg" "cg_compute_liveness L F cg = Some cg1" "cg_compute_call_liveouts L cg1 = Some cg2"
    "frame_layout L fi cg2 = Some cg3" "cg_ssa_reg_high cg \<le> 253" "b \<in> set (cg_blocks cg)"
    "LLVMInstructions L b = pre @ i # post" "spill_point L i"
  shows "\<exists>st. cg_call_spill_set L cg3 i = Some st \<and> (\<forall>(cx :: 'h ctx) s. frame_fits cx s cg3 \<longrightarrow> saves_ok cx s (saves cg3 st)
    \<and> (\<forall>k. needs L cg k post b \<and> k \<notin> vbits L cg i \<longrightarrow> k \<in> fst ` set (saves cg3 st))
    \<and> (\<forall>j off. (j, off) \<in> set (saves cg3 st) \<longrightarrow> cg_bits_test st j \<and> unat (cg_alloca_bytes cg3) \<le> unat off
      \<and> unat off + 4 \<le> unat (cg_alloca_bytes cg3) + 4 * cg_spill_slot_count cg3))"
proof -
  have total: "bits_total L cg" using assms(1) bits_totalI by (auto simp: live_input_def)
  obtain ins outs calls where c: "cg2 = cg\<lparr>cg_bb_live_in := ins, cg_bb_live_out := outs, cg_call_lives := calls\<rparr>"
    "\<forall>iw \<in> set calls. bits_ok (snd iw)"
    "\<forall>b \<in> set (cg_blocks cg). \<forall>pre i post. LLVMInstructions L b = pre @ i # post \<and> spill_point L i \<longrightarrow>
        (\<exists>w. map_of calls i = Some w \<and> bset w = {k. needs L cg k post b})"
    using recorded_exact [OF assms(1)] assms(2,3) by auto
  obtain w where w: "map_of calls i = Some w" "bset w = {k. needs L cg k post b}" using c(3) assms(6-8) by blast
  have lives: "cg_call_lives cg2 = calls" "cg_ssa_reg_high cg2 = cg_ssa_reg_high cg" by (simp_all add: c(1))
  have ok: "\<forall>iw \<in> set (cg_call_lives cg2). bits_ok (snd iw)" "cg_ssa_reg_high cg2 \<le> 253" using c(2) assms(5) lives by simp_all
  have wok: "bits_ok w" "w \<in> snd ` set calls" using c(2) map_of_SomeD [OF w(1)] by force+
  have "cg_spill_bit_of L cg2 = cg_spill_bit_of L cg"
  proof -
    have "cg_lookup L cg2 = cg_lookup L cg" by (simp add: fun_eq_iff cg_lookup_def c(1))
    then show ?thesis by (intro ext) (simp add: cg_spill_bit_of_def c(1) cong: if_cong option.case_cong)
  qed
  then have same: "cg_call_lives cg3 = calls" "cg_spill_bit_of L cg3 = cg_spill_bit_of L cg"
    using layout_slots [OF assms(4) ok(1)] lives(1) by metis+
  obtain mb where mb: "cg_spill_bit_of L cg i = Some mb" using total by (auto simp: bits_total_def)
  define st where "st = (case mb of Some k \<Rightarrow> cg_bits_clear_bit k w | None \<Rightarrow> w)"
  have set: "cg_call_spill_set L cg3 i = Some st"
    by (simp add: cg_call_spill_set_def cg_lookup_call_live_def same w(1) mb st_def)
  have st: "bset st = bset w - vbits L cg i"
    using wok(1) spill_bit_less [of L cg i] by (cases mb) (simp_all add: st_def vbits_def mb bset_clear_bit)
  note S = layout_saves [OF assms(4) ok, where st = st]
  have "k \<in> fst ` set (saves cg3 st)" if k: "frame_fits cx s cg3" "needs L cg k post b" "k \<notin> vbits L cg i" for cx :: "'h ctx" and s k
  proof (rule S(2) [OF k(1)])
    show "k < cg_ssa_reg_high cg2 - 8" using needs_less [OF total k(2)] lives(2) by simp
    have "k \<in> bset st" using k st w(2) by simp
    then show "cg_bits_test st k" by (simp add: bset_def)
    show "k \<in> \<Union> (bset ` snd ` set (cg_call_lives cg2))" using k(2) w(2) wok(2) lives(1) by auto
  qed
  moreover have "cg_bits_test st j" if "(j, off) \<in> set (saves cg3 st)" for j off
    using that by (auto simp: set_saves spill_off_def split: if_splits)
  ultimately show ?thesis using S(1,3) by (intro exI [of _ st] conjI set allI impI) blast+
qed

text \<open>C36. A call keeps the registers that are needed after it: with the analysis, the frame layout and the code that
  stores registers before a call and loads them after it, a register that some path behind the call reads before it
  writes it has, when the machine has run the loads, the value it had before the stores, whatever the callee did to
  registers and memory outside of the save area. Registers that are not saved, such as the result, are left alone.\<close>

theorem calls_keep_needed:
  assumes "live_input L F cg" "cg_compute_liveness L F cg = Some cg1" "cg_compute_call_liveouts L cg1 = Some cg2"
    "frame_layout L fi cg2 = Some cg3" "cg_ssa_reg_high cg \<le> 253" "b \<in> set (cg_blocks cg)"
    "LLVMInstructions L b = pre @ i # post" "spill_point L i"
  shows "\<exists>st ws vs. cg_call_spill_set L cg3 i = Some st \<and> cg_emit_spill st cg3 = emit_all ws cg3 \<and> cg_emit_restore st cg3 = emit_all vs cg3
    \<and> (\<forall>(cx :: 'h ctx) s code p q. vm_ok cx s \<and> frame_fits cx s cg3 \<and> runs_code cx code \<and> take (length ws) (drop p code) = ws \<and> take (length vs) (drop q code) = vs \<and> vm_pc s = of_nat p \<longrightarrow>
      (\<exists>n s1. dispatches cx n s s1 \<and> vm_ok cx s1 \<and> vm_pc s1 = of_nat (p + length ws) \<and> (\<forall>r. r \<noteq> CG_REG_SCRATCH \<longrightarrow> R s1 r = R s r)
      \<and> (\<forall>s2. vm_ok cx s2 \<and> vm_pc s2 = of_nat q \<and> R s2 CG_REG_SP = R s CG_REG_SP \<and> saves_kept cg3 s1 s2 \<longrightarrow>
        (\<exists>m s3. dispatches cx m s2 s3 \<and> vm_pc s3 = of_nat (q + length vs)
          \<and> (\<forall>k. needs L cg k post b \<and> k \<notin> vbits L cg i \<longrightarrow> R s3 (save_reg k) = R s (save_reg k))
          \<and> (\<forall>r. r \<noteq> CG_REG_SCRATCH \<and> (\<forall>k. cg_bits_test st k \<longrightarrow> r \<noteq> save_reg k) \<longrightarrow> R s3 r = R s2 r)))))"
proof -
  obtain st where st0: "cg_call_spill_set L cg3 i = Some st"
    "\<forall>(cx :: 'h ctx) s. frame_fits cx s cg3 \<longrightarrow> saves_ok cx s (saves cg3 st)
    \<and> (\<forall>k. needs L cg k post b \<and> k \<notin> vbits L cg i \<longrightarrow> k \<in> fst ` set (saves cg3 st))
    \<and> (\<forall>j off. (j, off) \<in> set (saves cg3 st) \<longrightarrow> cg_bits_test st j \<and> unat (cg_alloca_bytes cg3) \<le> unat off
      \<and> unat off + 4 \<le> unat (cg_alloca_bytes cg3) + 4 * cg_spill_slot_count cg3)"
    using call_saves [OF assms] by blast
  let ?ps = "saves cg3 st"
  have "\<exists>n s1. dispatches cx n s s1 \<and> vm_ok cx s1 \<and> vm_pc s1 = of_nat (p + length (save_code ?ps)) \<and> (\<forall>r. r \<noteq> CG_REG_SCRATCH \<longrightarrow> R s1 r = R s r)
      \<and> (\<forall>s2. vm_ok cx s2 \<and> vm_pc s2 = of_nat q \<and> R s2 CG_REG_SP = R s CG_REG_SP \<and> saves_kept cg3 s1 s2 \<longrightarrow>
        (\<exists>m s3. dispatches cx m s2 s3 \<and> vm_pc s3 = of_nat (q + length (load_code ?ps))
          \<and> (\<forall>k. needs L cg k post b \<and> k \<notin> vbits L cg i \<longrightarrow> R s3 (save_reg k) = R s (save_reg k))
          \<and> (\<forall>r. r \<noteq> CG_REG_SCRATCH \<and> (\<forall>k. cg_bits_test st k \<longrightarrow> r \<noteq> save_reg k) \<longrightarrow> R s3 r = R s2 r)))"
    if ok: "vm_ok cx s" "frame_fits cx s cg3" and c: "runs_code cx code" "take (length (save_code ?ps)) (drop p code) = save_code ?ps"
      "take (length (load_code ?ps)) (drop q code) = load_code ?ps" "vm_pc s = of_nat p" for cx :: "'h ctx" and s code p q
  proof -
    have st: "cg_call_spill_set L cg3 i = Some st" "saves_ok cx s (saves cg3 st)"
      "\<And>k. needs L cg k post b \<Longrightarrow> k \<notin> vbits L cg i \<Longrightarrow> k \<in> fst ` set (saves cg3 st)"
      "\<And>j off. (j, off) \<in> set (saves cg3 st) \<Longrightarrow> cg_bits_test st j \<and> unat (cg_alloca_bytes cg3) \<le> unat off
        \<and> unat off + 4 \<le> unat (cg_alloca_bytes cg3) + 4 * cg_spill_slot_count cg3"
      using st0 ok(2) by blast+
    obtain n s1 where s1: "dispatches cx n s s1" "vm_ok cx s1" "vm_pc s1 = of_nat (p + length (save_code ?ps))" "\<forall>r. r \<noteq> CG_REG_SCRATCH \<longrightarrow> R s1 r = R s r"
      "\<forall>(k, off) \<in> set ?ps. slot_val s1 off = R s (save_reg k)" using save_dispatches [OF ok(1) st(2) c(1,2,4)] by blast
    have "\<exists>m s3. dispatches cx m s2 s3 \<and> vm_pc s3 = of_nat (q + length (load_code ?ps))
        \<and> (\<forall>k. needs L cg k post b \<and> k \<notin> vbits L cg i \<longrightarrow> R s3 (save_reg k) = R s (save_reg k))
        \<and> (\<forall>r. r \<noteq> CG_REG_SCRATCH \<and> (\<forall>k. cg_bits_test st k \<longrightarrow> r \<noteq> save_reg k) \<longrightarrow> R s3 r = R s2 r)"
      if s2: "vm_ok cx s2" "vm_pc s2 = of_nat q" "R s2 CG_REG_SP = R s CG_REG_SP" "saves_kept cg3 s1 s2" for s2
    proof -
      have "saves_ok cx s2 ?ps" using st(2) s2(3) by (simp add: saves_ok_def in_frame_def)
      from load_dispatches [OF s2(1) this c(1,3) s2(2)] obtain m s3 where s3: "dispatches cx m s2 s3"
        "vm_pc s3 = of_nat (q + length (load_code ?ps))" "\<forall>(k, off) \<in> set ?ps. R s3 (save_reg k) = slot_val s2 off"
        "\<forall>r. r \<noteq> CG_REG_SCRATCH \<longrightarrow> r \<notin> save_reg ` fst ` set ?ps \<longrightarrow> R s3 r = R s2 r" by blast
      have "R s3 (save_reg k) = R s (save_reg k)" if k: "needs L cg k post b" "k \<notin> vbits L cg i" for k
      proof -
        obtain off where o: "(k, off) \<in> set ?ps" using st(3) [OF k] by auto
        then have "slot_val s2 off = slot_val s1 off" using s2(4) st(4) [OF o] by (simp add: saves_kept_def)
        then show ?thesis using bspec [OF s1(5) o] bspec [OF s3(3) o] by simp
      qed
      moreover have "R s3 r = R s2 r" if "r \<noteq> CG_REG_SCRATCH" "\<forall>k. cg_bits_test st k \<longrightarrow> r \<noteq> save_reg k" for r
        using that s3(4) st(4) by fastforce
      ultimately show ?thesis using s3(1,2) by blast
    qed
    then show ?thesis using s1(1-4) by blast
  qed
  then show ?thesis using st0(1) emit_saves [of st cg3] by blast
qed

text \<open>The loop of \<open>loop_module\<close> on the machine: behind the call \<open>%2\<close> the registers 8 and 9, of \<open>%0\<close> and \<open>%1\<close>, have
  the values they had before it, though every other register but the stack pointer is cleared between.\<close>

definition spill_vm :: "u32 list \<Rightarrow> unit vm" where
  "spill_vm code = demo_vm code (replicate 48 1) (\<lambda>r. if r = CG_REG_SP then 0 else ucast r)"

lemma spill_vm_R: "R (spill_vm c) r = (if r = CG_REG_SP then 0 else ucast r)" "vm_pc (spill_vm c) = 0" "cx_mem_size (demo_ctx c) = 48"
  by (simp_all add: spill_vm_def demo_vm_def set_heap_def demo_ctx_def mk_ctx_def demo_image_def)

lemma code_lengths: "length (save_code ps) \<le> 4 * length ps" "length (load_code ps) \<le> 4 * length ps"
  by (induction ps) (auto simp: save_code_def load_code_def stw_code_def ldw_code_def sp_code_def const_code_def)

lemma saves_length: "length (saves cg st) \<le> cg_ssa_reg_high cg - 8"
proof -
  have "length (concat (map (\<lambda>k. case spill_off cg st k of None \<Rightarrow> [] | Some off \<Rightarrow> [(k, off)]) ks)) \<le> length ks" for ks
    by (induction ks) (auto split: option.splits)
  from this [of "[0..<cg_ssa_reg_high cg - 8]"] show ?thesis by (simp add: saves_def)
qed

lemma emit_all_eq: "emit_all ws cg = emit_all vs cg \<Longrightarrow> ws = vs"
proof -
  assume "emit_all ws cg = emit_all vs cg"
  then have "cg_code (emit_all ws cg) = cg_code (emit_all vs cg)" by simp
  then show ?thesis by (simp add: emit_all_def)
qed

text \<open>The tables of the loop: the frame exists and has at most four slots.\<close>

lemma loop_frame:
  obtains cg cg1 cg2 cg3 :: "(nat, nat) gen" where "live_input loop_module loop_fn cg" "cg_compute_liveness loop_module loop_fn cg = Some cg1"
    "cg_compute_call_liveouts loop_module cg1 = Some cg2" "frame_layout loop_module 0 cg2 = Some cg3" "cg_ssa_reg_high cg = 12" "cg_blocks cg = [0, 1, 2]"
    "\<And>v. v < 4 \<Longrightarrow> cg_spill_bit_of loop_module cg v = Some (Some v)" "cg_ssa_reg_high cg3 = 12" "cg_alloca_bytes cg3 = 0" "cg_spill_slot_count cg3 \<le> 4"
proof -
  obtain cg :: "(nat, nat) gen" where cg: "live_input loop_module loop_fn cg" "cg_blocks cg = [0, 1, 2]"
    "\<And>v. v < 4 \<Longrightarrow> cg_spill_bit_of loop_module cg v = Some (Some v)" "cg_ssa_reg_high cg = 12" "cg_alloca_bytes cg = 0" using loop_gen by blast
  obtain cg1 ins outs calls where c: "cg_compute_liveness loop_module loop_fn cg = Some cg1"
    "cg_compute_call_liveouts loop_module cg1 = Some (cg\<lparr>cg_bb_live_in := ins, cg_bb_live_out := outs, cg_call_lives := calls\<rparr>)"
    "\<forall>iw \<in> set calls. bits_ok (snd iw)" using recorded_exact [OF cg(1)] by blast
  let ?g = "cg\<lparr>cg_bb_live_in := ins, cg_bb_live_out := outs, cg_call_lives := calls\<rparr>"
  have no: "LLVMGetInstructionOpcode loop_module i \<noteq> LLVMInvoke" if "i \<in> {0, 1, 2, 3}" for i
    using that by (auto simp: loop_module_def small_llvm_def Let_def)
  have skip: "fold_opt (invoke_uses loop_module ?g) is acc = Some acc" if "set is \<subseteq> {0, 1, 2, 3}" for "is" acc
    using that by (induction "is") (auto simp: invoke_uses_def no)
  have inv: "fold_opt (invoke_uses loop_module ?g) (concat (map (LLVMInstructions loop_module) (cg_blocks cg))) acc = Some acc" for acc
    by (rule skip) (simp add: cg(2) loop_module_simps del: One_nat_def)
  have "frame_layout loop_module 0 ?g \<noteq> None" using cg(4) unfolding frame_layout_def Let_def by (simp add: inv case_prod_beta)
  then obtain cg3 where f: "frame_layout loop_module 0 ?g = Some cg3" by blast
  have "\<forall>iw \<in> set (cg_call_lives ?g). bits_ok (snd iw)" using c(3) by simp
  then obtain ever where ever: "cg_spill_slot_count cg3 = rank ever (cg_ssa_reg_high ?g - 8)" "cg_ssa_reg_high cg3 = cg_ssa_reg_high ?g"
    "cg_alloca_bytes cg3 = cg_alloca_bytes ?g" using layout_slots [OF f] by metis
  have "cg_ssa_reg_high cg3 = 12" "cg_alloca_bytes cg3 = 0" "cg_spill_slot_count cg3 \<le> 4"
    using ever rank_le [of ever 4] cg(4,5) by simp_all
  then show ?thesis using that [OF cg(1) c(1,2) f cg(4,2,3)] by blast
qed

theorem calls_keep_needed_witness:
  "\<exists>cg cg1 cg2 cg3 st ws vs n s1 m s3. cg_compute_liveness loop_module loop_fn cg = Some cg1 \<and> cg_compute_call_liveouts loop_module cg1 = Some cg2
    \<and> frame_layout loop_module 0 cg2 = Some cg3 \<and> cg_call_spill_set loop_module cg3 2 = Some st
    \<and> cg_emit_spill st cg3 = emit_all ws cg3 \<and> cg_emit_restore st cg3 = emit_all vs cg3
    \<and> dispatches (demo_ctx (ws @ vs @ [0])) n (spill_vm (ws @ vs @ [0])) s1
    \<and> dispatches (demo_ctx (ws @ vs @ [0])) m (s1\<lparr>vm_R := \<lambda>r. 0\<rparr>) s3 \<and> R s3 8 = 8 \<and> R s3 9 = 9"
proof -
  obtain cg cg1 cg2 cg3 :: "(nat, nat) gen" where a: "live_input loop_module loop_fn cg" "cg_compute_liveness loop_module loop_fn cg = Some cg1"
    "cg_compute_call_liveouts loop_module cg1 = Some cg2" "frame_layout loop_module 0 cg2 = Some cg3" and high: "cg_ssa_reg_high cg = 12" and bl: "cg_blocks cg = [0, 1, 2]"
    and bits: "\<And>v. v < 4 \<Longrightarrow> cg_spill_bit_of loop_module cg v = Some (Some v)"
    and fr: "cg_ssa_reg_high cg3 = 12" "cg_alloca_bytes cg3 = 0" "cg_spill_slot_count cg3 \<le> 4" using loop_frame by blast
  have v: "vbits loop_module cg v = {v}" if "v < 4" for v using bits [OF that] by (simp add: vbits_def)
  have r: "reads loop_module cg 3 = {0, 1}" by (auto simp: reads_def loop_module_simps v)
  have n: "needs loop_module cg 0 [3] 1" "needs loop_module cg 1 [3] 1" unfolding needs_simps(1) by (simp_all add: loop_module_simps r v)
  have b: "1 \<in> set (cg_blocks cg)" "LLVMInstructions loop_module 1 = [1] @ 2 # [3]" "spill_point loop_module 2"
    by (simp_all add: bl loop_module_simps del: One_nat_def)
  have "cg_ssa_reg_high cg \<le> 253" using high by simp
  from calls_keep_needed [OF a this b] obtain st ws vs where st: "cg_call_spill_set loop_module cg3 2 = Some st"
    "cg_emit_spill st cg3 = emit_all ws cg3" "cg_emit_restore st cg3 = emit_all vs cg3"
    and run: "\<forall>(cx :: unit ctx) s code p q. vm_ok cx s \<and> frame_fits cx s cg3 \<and> runs_code cx code
      \<and> take (length ws) (drop p code) = ws \<and> take (length vs) (drop q code) = vs \<and> vm_pc s = of_nat p \<longrightarrow>
      (\<exists>n s1. dispatches cx n s s1 \<and> vm_ok cx s1 \<and> vm_pc s1 = of_nat (p + length ws) \<and> (\<forall>r. r \<noteq> CG_REG_SCRATCH \<longrightarrow> R s1 r = R s r)
      \<and> (\<forall>s2. vm_ok cx s2 \<and> vm_pc s2 = of_nat q \<and> R s2 CG_REG_SP = R s CG_REG_SP \<and> saves_kept cg3 s1 s2 \<longrightarrow>
        (\<exists>m s3. dispatches cx m s2 s3 \<and> vm_pc s3 = of_nat (q + length vs)
          \<and> (\<forall>k. needs loop_module cg k [3] 1 \<and> k \<notin> vbits loop_module cg 2 \<longrightarrow> R s3 (save_reg k) = R s (save_reg k))
          \<and> (\<forall>r. r \<noteq> CG_REG_SCRATCH \<and> (\<forall>k. cg_bits_test st k \<longrightarrow> r \<noteq> save_reg k) \<longrightarrow> R s3 r = R s2 r))))"
    by blast
  let ?c = "ws @ vs @ [0]" and ?s = "spill_vm (ws @ vs @ [0])"
  have "ws = save_code (saves cg3 st)" "vs = load_code (saves cg3 st)" using st(2,3) emit_saves [of st cg3] emit_all_eq by metis+
  then have len: "length ?c < 2 ^ 30" using code_lengths [of "saves cg3 st"] saves_length [of cg3 st] fr(1) by simp
  have ok: "vm_ok (demo_ctx ?c) ?s" unfolding spill_vm_def using len by (intro demo_ok) simp_all
  have "frame_fits (demo_ctx ?c) ?s cg3" using fr by (simp add: frame_fits_def spill_vm_R)
  moreover have "runs_code (demo_ctx ?c) ?c" using len by (simp add: runs_code_def demo_ctx_def mk_ctx_def demo_image_def)
  moreover have "take (length ws) (drop 0 ?c) = ws" "take (length vs) (drop (length ws) ?c) = vs" "vm_pc ?s = of_nat 0"
    by (simp_all add: spill_vm_R)
  ultimately have pre: "vm_ok (demo_ctx ?c) ?s \<and> frame_fits (demo_ctx ?c) ?s cg3 \<and> runs_code (demo_ctx ?c) ?c
      \<and> take (length ws) (drop 0 ?c) = ws \<and> take (length vs) (drop (length ws) ?c) = vs \<and> vm_pc ?s = of_nat 0" using ok by blast
  obtain n s1 where s1: "dispatches (demo_ctx ?c) n ?s s1" "vm_ok (demo_ctx ?c) s1" "vm_pc s1 = of_nat (0 + length ws)"
      "\<forall>r. r \<noteq> CG_REG_SCRATCH \<longrightarrow> R s1 r = R ?s r"
    and later: "\<And>s2. vm_ok (demo_ctx ?c) s2 \<and> vm_pc s2 = of_nat (length ws) \<and> R s2 CG_REG_SP = R ?s CG_REG_SP \<and> saves_kept cg3 s1 s2 \<Longrightarrow>
        \<exists>m s3. dispatches (demo_ctx ?c) m s2 s3
          \<and> (\<forall>k. needs loop_module cg k [3] 1 \<and> k \<notin> vbits loop_module cg 2 \<longrightarrow> R s3 (save_reg k) = R ?s (save_reg k))"
    using run [THEN spec, THEN spec, THEN spec, THEN spec, THEN spec, THEN mp, OF pre] by blast
  let ?t = "s1\<lparr>vm_R := \<lambda>r. 0\<rparr>"
  have sp: "CG_REG_SP \<noteq> CG_REG_SCRATCH" by code_simp
  have "R s1 CG_REG_SP = 0" using s1(4) sp by (simp add: spill_vm_R)
  then have "saves_kept cg3 s1 ?t" by (simp add: saves_kept_def slot_val_def slot_addr_def heap_of_def)
  moreover have "vm_ok (demo_ctx ?c) ?t" using s1(2) by (simp add: vm_ok_def)
  ultimately have "vm_ok (demo_ctx ?c) ?t \<and> vm_pc ?t = of_nat (length ws) \<and> R ?t CG_REG_SP = R ?s CG_REG_SP \<and> saves_kept cg3 s1 ?t"
    using s1(3) by (simp add: spill_vm_R)
  from later [OF this] obtain m s3 where s3: "dispatches (demo_ctx ?c) m ?t s3"
    "\<forall>k. needs loop_module cg k [3] 1 \<and> k \<notin> vbits loop_module cg 2 \<longrightarrow> R s3 (save_reg k) = R ?s (save_reg k)"
    by blast
  have "save_reg 0 = 8" "save_reg 1 = 9" "CG_REG_SP \<noteq> 8" "CG_REG_SP \<noteq> 9" by code_simp+
  then have "R s3 8 = 8" "R s3 9 = 9" using s3(2) n v [of 2] spec [OF s3(2), of 0] spec [OF s3(2), of 1] by (simp_all add: spill_vm_R)
  then show ?thesis using a(2-4) st s1(1) s3(1) by blast
qed

end
