(* ===== verification/Lanes.thy ===== *)
theory Lanes
  imports Prealloc Wide
begin

text \<open>
  Vectors in the translator (\<open>src/tools/translator/translator.c\<close>): a vector lives in consecutive frame slots, a
  lane in each, and an instruction with a vector result is lowered lane by lane (\<open>cg_emit_vec_def\<close>). What the
  lowering of instructions reads beyond the record of the theory \<open>Llvm\<close> is a second record here.
\<close>

datatype LLVMRealPredicate = LLVMRealPredicateFalse | LLVMRealOEQ | LLVMRealOGT | LLVMRealOGE | LLVMRealOLT | LLVMRealOLE
  | LLVMRealONE | LLVMRealORD | LLVMRealUNO | LLVMRealUEQ | LLVMRealUGT | LLVMRealUGE | LLVMRealULT | LLVMRealULE
  | LLVMRealUNE | LLVMRealPredicateTrue

record ('v, 'b) llvm_inst =
  LLVMGetICmpPredicate :: "'v \<Rightarrow> LLVMIntPredicate"
  LLVMGetFCmpPredicate :: "'v \<Rightarrow> LLVMRealPredicate"
  LLVMIsConditional :: "'v \<Rightarrow> bool"
  LLVMGetCondition :: "'v \<Rightarrow> 'v"
  LLVMGetNumSuccessors :: "'v \<Rightarrow> nat"
  LLVMGetSuccessor :: "'v \<Rightarrow> nat \<Rightarrow> 'b"
  LLVMGetSwitchDefaultDest :: "'v \<Rightarrow> 'b"
  cvm_llvm_get_switch_case_value :: "'v \<Rightarrow> nat \<Rightarrow> 'v option"
  LLVMGetMaskValue :: "'v \<Rightarrow> nat \<Rightarrow> u32"
  LLVMGetUndefMaskElem :: u32

section \<open>Lanes\<close>

text \<open>Opcodes that load and store a lane, and the bytes of a lane in memory.\<close>

definition cg_vec_lane_mem :: "('v, 't, 'b) llvm \<Rightarrow> 't \<Rightarrow> (u8 \<times> u8 \<times> u32) option" where
  "cg_vec_lane_mem L et =
     (let k = LLVMGetTypeKind L et; w = LLVMGetIntTypeWidth L et in
      if k = LLVMPointerTypeKind then Some (op_value CVM_OP_LDW, op_value CVM_OP_STW, 4)
      else if k = LLVMIntegerTypeKind then
        (if w = 1 \<or> w = 8 then Some (op_value CVM_OP_LDB, op_value CVM_OP_STB, 1)
         else if w = 16 then Some (op_value CVM_OP_LDH, op_value CVM_OP_STH, 2)
         else if w = 32 then Some (op_value CVM_OP_LDW, op_value CVM_OP_STW, 4)
         else None)
      else None)"

text \<open>The word of a lane of a constant, extended by sign from the width of the element.\<close>

definition lane_const :: "('v, 't, 'b) llvm \<Rightarrow> 'v \<Rightarrow> nat \<Rightarrow> u32" where
  "lane_const L v lane =
     (case LLVMGetAggregateElement L v lane of None \<Rightarrow> 0
      | Some e \<Rightarrow>
        if LLVMIsUndef L e \<or> \<not> LLVMIsAConstantInt L e then 0
        else let eb = cg_vec_elem_bits L (LLVMTypeOf L v); z = LLVMConstIntGetZExtValue L e; sbit = push_bit (eb - 1) 1 in
          ucast (if eb \<ge> 1 \<and> eb < 32 then (z XOR sbit) - sbit else z))"

definition vec_index :: "('v, 't, 'b) llvm \<Rightarrow> ('b, 'v) gen \<Rightarrow> 'v \<Rightarrow> (nat \<times> u16) option" where
  "vec_index L cg v = do {
     ix \<leftarrow> cg_lookup L cg v;
     idx \<leftarrow> ix;
     slot \<leftarrow> at (cg_vec_slot cg) idx;
     if slot = CG_NO_SLOT then None else Some (idx, slot)
   }"

definition cg_vec_read_lane :: "('v, 't, 'b) llvm \<Rightarrow> 'v \<Rightarrow> nat \<Rightarrow> ('b, 'v) gen \<Rightarrow> (u8 \<times> ('b, 'v) gen) option" where
  "cg_vec_read_lane L v lane cg =
     (if LLVMIsUndef L v \<or> LLVMIsAConstantAggregateZero L v
      then do { (r, cg1) \<leftarrow> cg_alloc_reg cg; Some (r, cg_emit (enc_i16 (op_value CVM_OP_MOVI) r 0) cg1) }
      else if LLVMIsConstant L v then cg_fresh_const (lane_const L v lane) cg
      else do {
        (idx, slot) \<leftarrow> vec_index L cg v;
        let off = cg_val_slot_off cg slot + of_nat lane * 4;
        (r, cg1) \<leftarrow> cg_alloc_reg cg;
        Some (r, cg_ldw_sp_off r off cg1)
      })"

definition cg_vec_write_lane :: "u16 \<Rightarrow> nat \<Rightarrow> u8 \<Rightarrow> ('b, 'v) gen \<Rightarrow> ('b, 'v) gen" where
  "cg_vec_write_lane slot lane reg cg = cg_stw_sp_off (cg_val_slot_off cg slot + of_nat lane * 4) reg cg"

text \<open>The loop over \<open>n\<close> lanes: the scratch registers from \<open>saved\<close> on are free again for each.\<close>

definition each_lane :: "nat \<Rightarrow> nat \<Rightarrow> (nat \<Rightarrow> ('b, 'v) gen \<Rightarrow> ('b, 'v) gen option) \<Rightarrow> ('b, 'v) gen \<Rightarrow> ('b, 'v) gen option" where
  "each_lane n saved f cg = fold_opt (\<lambda>l c. f l (c\<lparr>cg_next_reg := saved\<rparr>)) [0..<n] cg"

text \<open>The register with the address of lane \<open>l\<close>.\<close>

definition lane_addr :: "u8 \<Rightarrow> nat \<Rightarrow> u32 \<Rightarrow> ('b, 'v) gen \<Rightarrow> (u8 \<times> ('b, 'v) gen) option" where
  "lane_addr addr l bytes cg =
     (if l = 0 then Some (addr, cg)
      else do {
        (a, cg1) \<leftarrow> cg_alloc_reg (cg_movi_scratch (of_nat l * bytes) cg);
        Some (a, cg_emit (enc_r (op_value CVM_OP_ADD) a addr CG_REG_SCRATCH) cg1)
      })"

section \<open>Instructions with a vector result\<close>

definition vec_insert :: "('v, 't, 'b) llvm \<Rightarrow> 'v \<Rightarrow> u16 \<Rightarrow> ('b, 'v) gen \<Rightarrow> ('b, 'v) gen option" where
  "vec_insert L i slot cg =
     (let base = LLVMGetOperand L i 0; elt = LLVMGetOperand L i 1; idxv = LLVMGetOperand L i 2 in
      if \<not> LLVMIsAConstantInt L idxv then None
      else let ins = unat (ucast (LLVMConstIntGetZExtValue L idxv) :: u32) in
        each_lane (cg_vec_lanes L (LLVMTypeOf L i)) (cg_next_reg cg) (\<lambda>l c. do {
          (r, c1) \<leftarrow> (if l = ins then cg_reg_for L elt c else cg_vec_read_lane L base l c);
          Some (cg_vec_write_lane slot l r c1)
        }) cg)"

definition vec_shuffle :: "('v, 't, 'b) llvm \<Rightarrow> ('v, 'b) llvm_inst \<Rightarrow> 'v \<Rightarrow> u16 \<Rightarrow> ('b, 'v) gen \<Rightarrow> ('b, 'v) gen option" where
  "vec_shuffle L I i slot cg =
     (let a = LLVMGetOperand L i 0; b = LLVMGetOperand L i 1; na = cg_vec_lanes L (LLVMTypeOf L a) in
      each_lane (cg_vec_lanes L (LLVMTypeOf L i)) (cg_next_reg cg) (\<lambda>l c.
        let m = LLVMGetMaskValue I i l in do {
          (r, c1) \<leftarrow> (if m = LLVMGetUndefMaskElem I
              then do { (r, c1) \<leftarrow> cg_alloc_reg c; Some (r, cg_emit (enc_i16 (op_value CVM_OP_MOVI) r 0) c1) }
            else if unat m < na then cg_vec_read_lane L a (unat m) c
            else cg_vec_read_lane L b (unat m - na) c);
          Some (cg_vec_write_lane slot l r c1)
        }) cg)"

definition signed_predicate :: "LLVMIntPredicate \<Rightarrow> bool" where
  "signed_predicate p \<longleftrightarrow> p \<in> {LLVMIntSLT, LLVMIntSLE, LLVMIntSGT, LLVMIntSGE}"

definition vec_icmp :: "('v, 't, 'b) llvm \<Rightarrow> ('v, 'b) llvm_inst \<Rightarrow> 'v \<Rightarrow> u16 \<Rightarrow> ('b, 'v) gen \<Rightarrow> ('b, 'v) gen option" where
  "vec_icmp L I i slot cg =
     (let p = LLVMGetICmpPredicate I i; o0 = LLVMGetOperand L i 0; o1 = LLVMGetOperand L i 1;
          ow = cg_vec_elem_bits L (LLVMTypeOf L o0) in
      Option.bind (icmp_to_op p) (\<lambda>(op2, swap).
      each_lane (cg_vec_lanes L (LLVMTypeOf L i)) (cg_next_reg cg) (\<lambda>l c. do {
        (la, c1) \<leftarrow> cg_vec_read_lane L o0 l c;
        (lb, c2) \<leftarrow> cg_vec_read_lane L o1 l c1;
        (na, c3) \<leftarrow> cg_norm_reg_width la ow (signed_predicate p) c2;
        (nb, c4) \<leftarrow> cg_norm_reg_width lb ow (signed_predicate p) c3;
        (d, c5) \<leftarrow> cg_alloc_reg c4;
        Some (cg_vec_write_lane slot l d (cg_emit (if swap then enc_r op2 d nb na else enc_r op2 d na nb) c5))
      }) cg))"

definition vec_cast :: "('v, 't, 'b) llvm \<Rightarrow> LLVMOpcode \<Rightarrow> 'v \<Rightarrow> u16 \<Rightarrow> ('b, 'v) gen \<Rightarrow> ('b, 'v) gen option" where
  "vec_cast L op i slot cg =
     (let src = LLVMGetOperand L i 0; sw = cg_vec_elem_bits L (LLVMTypeOf L src) in
      each_lane (cg_vec_lanes L (LLVMTypeOf L i)) (cg_next_reg cg) (\<lambda>l c. do {
        (s, c1) \<leftarrow> cg_vec_read_lane L src l c;
        (d, c2) \<leftarrow> (if op = LLVMSExt then cg_norm_reg_width s sw True c1
          else if op = LLVMZExt then cg_norm_reg_width s sw False c1 else Some (s, c1));
        Some (cg_vec_write_lane slot l d c2)
      }) cg)"

fun vec_cv :: "LLVMOpcode \<Rightarrow> u8" where
  "vec_cv LLVMAdd = op_value CVM_OP_ADD" | "vec_cv LLVMSub = op_value CVM_OP_SUB" | "vec_cv LLVMMul = op_value CVM_OP_MUL"
| "vec_cv LLVMAnd = op_value CVM_OP_AND" | "vec_cv LLVMOr = op_value CVM_OP_OR" | "vec_cv LLVMXor = op_value CVM_OP_XOR"
| "vec_cv LLVMShl = op_value CVM_OP_SHL" | "vec_cv LLVMLShr = op_value CVM_OP_SHR" | "vec_cv _ = op_value CVM_OP_SAR"

definition vec_binop :: "('v, 't, 'b) llvm \<Rightarrow> LLVMOpcode \<Rightarrow> 'v \<Rightarrow> u16 \<Rightarrow> ('b, 'v) gen \<Rightarrow> ('b, 'v) gen option" where
  "vec_binop L op i slot cg =
     (let ew = cg_vec_elem_bits L (LLVMTypeOf L i) in
      each_lane (cg_vec_lanes L (LLVMTypeOf L i)) (cg_next_reg cg) (\<lambda>l c. do {
        (a, c1) \<leftarrow> cg_vec_read_lane L (LLVMGetOperand L i 0) l c;
        (b, c2) \<leftarrow> cg_vec_read_lane L (LLVMGetOperand L i 1) l c1;
        (a', c3) \<leftarrow> (if ew < 32 \<and> op = LLVMLShr then cg_norm_reg_width a ew False c2
          else if ew < 32 \<and> op = LLVMAShr then cg_norm_reg_width a ew True c2 else Some (a, c2));
        (d, c4) \<leftarrow> cg_alloc_reg c3;
        Some (cg_vec_write_lane slot l d (cg_emit (enc_r (vec_cv op) d a' b) c4))
      }) cg)"

definition vec_load :: "('v, 't, 'b) llvm \<Rightarrow> 'v \<Rightarrow> u16 \<Rightarrow> ('b, 'v) gen \<Rightarrow> ('b, 'v) gen option" where
  "vec_load L i slot cg = do {
     (ldop, stop, bytes) \<leftarrow> cg_vec_lane_mem L (LLVMGetElementType L (LLVMTypeOf L i));
     (addr, cg1) \<leftarrow> cg_reg_for L (LLVMGetOperand L i 0) cg;
     each_lane (cg_vec_lanes L (LLVMTypeOf L i)) (cg_next_reg cg1) (\<lambda>l c. do {
       (r, c1) \<leftarrow> cg_alloc_reg c;
       (a, c2) \<leftarrow> lane_addr addr l bytes c1;
       Some (cg_vec_write_lane slot l r (cg_emit (enc_r ldop r a 0) c2))
     }) cg1
   }"

definition cg_emit_vec_def ::
  "('v, 't, 'b) llvm \<Rightarrow> ('v, 'b) llvm_inst \<Rightarrow> 'v \<Rightarrow> LLVMOpcode \<Rightarrow> ('b, 'v) gen \<Rightarrow> ('b, 'v) gen option" where
  "cg_emit_vec_def L I i op cg =
     Option.bind (vec_index L cg i) (\<lambda>(ridx, slot).
      if op = LLVMInsertElement then vec_insert L i slot cg
      else if op = LLVMShuffleVector then vec_shuffle L I i slot cg
      else if op = LLVMICmp then vec_icmp L I i slot cg
      else if op \<in> {LLVMSExt, LLVMZExt, LLVMTrunc} then vec_cast L op i slot cg
      else if op \<in> {LLVMAdd, LLVMSub, LLVMMul, LLVMAnd, LLVMOr, LLVMXor, LLVMShl, LLVMLShr, LLVMAShr}
      then vec_binop L op i slot cg
      else if op = LLVMLoad then vec_load L i slot cg
      else None)"

end
