(* ===== verification/Scalar.thy ===== *)
theory Scalar
  imports Lanes Phi_Moves
begin

text \<open>
  The cases of the instruction switch of \<open>cg_function\<close> (\<open>src/tools/translator/translator.c\<close>) for instructions
  whose result, if there is one, is a single word: integer and binary32 arithmetic, comparisons, conversions,
  memory, addresses, branches and returns, one definition per case; then the frame of the switch, which gives
  a result that lives in a frame slot a register for the time of the instruction.
\<close>

text \<open>The register of a value; an index of -1 reads outside of the array.\<close>

definition reg_of :: "('v, 't, 'b) llvm \<Rightarrow> ('b, 'v) gen \<Rightarrow> 'v \<Rightarrow> u8 option" where
  "reg_of L cg v = do { ix \<leftarrow> cg_lookup L cg v; idx \<leftarrow> ix; at (cg_regs cg) idx }"

section \<open>Integer operations\<close>

definition binop_opcodes :: "LLVMOpcode set" where
  "binop_opcodes = {LLVMAdd, LLVMSub, LLVMMul, LLVMSDiv, LLVMUDiv, LLVMSRem, LLVMURem, LLVMShl, LLVMLShr, LLVMAShr,
     LLVMAnd, LLVMOr, LLVMXor}"

fun binop_cv :: "LLVMOpcode \<Rightarrow> u8" where
  "binop_cv LLVMAdd = op_value CVM_OP_ADD" | "binop_cv LLVMSub = op_value CVM_OP_SUB"
| "binop_cv LLVMMul = op_value CVM_OP_MUL" | "binop_cv LLVMSDiv = op_value CVM_OP_DIV"
| "binop_cv LLVMUDiv = op_value CVM_OP_DIVU" | "binop_cv LLVMSRem = op_value CVM_OP_MOD"
| "binop_cv LLVMURem = op_value CVM_OP_MODU" | "binop_cv LLVMShl = op_value CVM_OP_SHL"
| "binop_cv LLVMLShr = op_value CVM_OP_SHR" | "binop_cv LLVMAShr = op_value CVM_OP_SAR"
| "binop_cv LLVMAnd = op_value CVM_OP_AND" | "binop_cv LLVMOr = op_value CVM_OP_OR"
| "binop_cv LLVMXor = op_value CVM_OP_XOR" | "binop_cv _ = op_value CVM_OP_ADD"

text \<open>Operands narrower than 32 bits are first brought to their width where high bits matter.\<close>

definition scalar_binop :: "('v, 't, 'b) llvm \<Rightarrow> LLVMOpcode \<Rightarrow> 'v \<Rightarrow> ('b, 'v) gen \<Rightarrow> ('b, 'v) gen option" where
  "scalar_binop L op i cg = do {
     (lhs, cg1) \<leftarrow> cg_reg_for L (LLVMGetOperand L i 0) cg;
     (rhs, cg2) \<leftarrow> cg_reg_for L (LLVMGetOperand L i 1) cg1;
     dst \<leftarrow> reg_of L cg2 i;
     let rw = LLVMGetIntTypeWidth L (LLVMTypeOf L i);
     let is_div = (op \<in> {LLVMUDiv, LLVMURem, LLVMSDiv, LLVMSRem});
     let norm_lhs = (op = LLVMLShr \<or> op = LLVMAShr \<or> is_div);
     let sext = (op \<in> {LLVMAShr, LLVMSDiv, LLVMSRem});
     (lhs', cg3) \<leftarrow> (if rw < 32 \<and> norm_lhs then cg_norm_reg_width lhs rw sext cg2 else Some (lhs, cg2));
     (rhs', cg4) \<leftarrow> (if rw < 32 \<and> norm_lhs \<and> is_div then cg_norm_reg_width rhs rw sext cg3 else Some (rhs, cg3));
     Some (cg_emit (enc_r (binop_cv op) dst lhs' rhs') cg4)
   }"

text \<open>Comparisons of 65-bit values with 0, of pairs of words, and of single words.\<close>

definition icmp_i65 :: "('v, 't, 'b) llvm \<Rightarrow> LLVMIntPredicate \<Rightarrow> 'v \<Rightarrow> ('b, 'v) gen \<Rightarrow> ('b, 'v) gen option" where
  "icmp_i65 L p i cg =
     (let o1 = LLVMGetOperand L i 1 in
      if \<not> LLVMIsAConstantInt L o1 \<or> LLVMConstIntGetZExtValue L o1 \<noteq> 0 then None
      else do {
        (w0, w1, w2, cg1) \<leftarrow> cg_i65_read L (LLVMGetOperand L i 0) cg;
        dst \<leftarrow> reg_of L cg1 i;
        if p = LLVMIntSLT then Some (cg_emit (enc_r (op_value CVM_OP_CMP_NE) dst w2 (cg_zero_reg cg1)) cg1)
        else if p = LLVMIntSGE then Some (cg_emit (enc_r (op_value CVM_OP_CMP_EQ) dst w2 (cg_zero_reg cg1)) cg1)
        else if p = LLVMIntEQ \<or> p = LLVMIntNE then do {
          (t01, cg2) \<leftarrow> cg_alloc_reg cg1;
          (t2, cg3) \<leftarrow> cg_alloc_reg cg2;
          let cmp = (if p = LLVMIntEQ then op_value CVM_OP_CMP_EQ else op_value CVM_OP_CMP_NE);
          let comb = (if p = LLVMIntEQ then op_value CVM_OP_AND else op_value CVM_OP_OR);
          Some (cg_emit (enc_r comb dst t01 t2)
            (cg_emit (enc_r cmp t2 w2 (cg_zero_reg cg3))
            (cg_emit (enc_r comb t01 t01 t2)
            (cg_emit (enc_r cmp t2 w1 (cg_zero_reg cg3))
            (cg_emit (enc_r cmp t01 w0 (cg_zero_reg cg3)) cg3)))))
        }
        else None
      })"

definition icmp_wide :: "('v, 't, 'b) llvm \<Rightarrow> LLVMIntPredicate \<Rightarrow> 'v \<Rightarrow> ('b, 'v) gen \<Rightarrow> ('b, 'v) gen option" where
  "icmp_wide L p i cg = do {
     (al, ah, cg1) \<leftarrow> cg_i64_read L (LLVMGetOperand L i 0) cg;
     (bl, bh, cg2) \<leftarrow> cg_i64_read L (LLVMGetOperand L i 1) cg1;
     dst \<leftarrow> reg_of L cg2 i;
     if p = LLVMIntEQ \<or> p = LLVMIntNE then do {
       (tlo, cg3) \<leftarrow> cg_alloc_reg cg2;
       (thi, cg4) \<leftarrow> cg_alloc_reg cg3;
       let cmp = (if p = LLVMIntEQ then op_value CVM_OP_CMP_EQ else op_value CVM_OP_CMP_NE);
       let comb = (if p = LLVMIntEQ then op_value CVM_OP_AND else op_value CVM_OP_OR);
       Some (cg_emit (enc_r comb dst tlo thi) (cg_emit (enc_r cmp thi ah bh) (cg_emit (enc_r cmp tlo al bl) cg4)))
     }
     else let is_le = (p \<in> {LLVMIntSLE, LLVMIntULE, LLVMIntSGE, LLVMIntUGE});
         swap = (p \<in> {LLVMIntSGT, LLVMIntSGE, LLVMIntUGT, LLVMIntUGE});
         (xl, xh, yl, yh) = (if swap then (bl, bh, al, ah) else (al, ah, bl, bh));
         hcmp = (if signed_predicate p then op_value CVM_OP_CMP_LT else op_value CVM_OP_CMP_LTU);
         lcmp = (if is_le then op_value CVM_OP_CMP_LEU else op_value CVM_OP_CMP_LTU) in do {
       (hi_lt, cg3) \<leftarrow> cg_alloc_reg cg2;
       (hi_eq, cg4) \<leftarrow> cg_alloc_reg cg3;
       (lo_r, cg5) \<leftarrow> cg_alloc_reg cg4;
       Some (cg_emit (enc_r (op_value CVM_OP_OR) dst hi_lt lo_r)
         (cg_emit (enc_r (op_value CVM_OP_AND) lo_r hi_eq lo_r)
         (cg_emit (enc_r lcmp lo_r xl yl)
         (cg_emit (enc_r (op_value CVM_OP_CMP_EQ) hi_eq xh yh)
         (cg_emit (enc_r hcmp hi_lt xh yh) cg5)))))
     }
   }"

text \<open>The width of an integer type, 32 for the others.\<close>

definition scalar_width :: "('v, 't, 'b) llvm \<Rightarrow> 't \<Rightarrow> nat" where
  "scalar_width L t = (if LLVMGetTypeKind L t = LLVMIntegerTypeKind then LLVMGetIntTypeWidth L t else 32)"

definition icmp_word :: "('v, 't, 'b) llvm \<Rightarrow> LLVMIntPredicate \<Rightarrow> 'v \<Rightarrow> ('b, 'v) gen \<Rightarrow> ('b, 'v) gen option" where
  "icmp_word L p i cg = do {
     (op2, swap) \<leftarrow> icmp_to_op p;
     let o0 = LLVMGetOperand L i 0;
     let o1 = LLVMGetOperand L i 1;
     let w = scalar_width L (LLVMTypeOf L o0);
     (lhs, cg1) \<leftarrow> cg_icmp_operand L o0 w (signed_predicate p) cg;
     (rhs, cg2) \<leftarrow> cg_icmp_operand L o1 w (signed_predicate p) cg1;
     dst \<leftarrow> reg_of L cg2 i;
     Some (if swap then cg_emit (enc_r op2 dst rhs lhs) cg2 else cg_emit (enc_r op2 dst lhs rhs) cg2)
   }"

definition scalar_icmp :: "('v, 't, 'b) llvm \<Rightarrow> ('v, 'b) llvm_inst \<Rightarrow> 'v \<Rightarrow> ('b, 'v) gen \<Rightarrow> ('b, 'v) gen option" where
  "scalar_icmp L I i cg =
     (let p = LLVMGetICmpPredicate I i; ty = LLVMTypeOf L (LLVMGetOperand L i 0) in
      if cg_type_is_i65 L ty then icmp_i65 L p i cg
      else if cg_type_is_wide_int L ty then icmp_wide L p i cg
      else icmp_word L p i cg)"

section \<open>Conversions of integers\<close>

definition width_mask :: "nat \<Rightarrow> u32" where "width_mask w = ucast (push_bit w (1 :: u64) - 1)"

definition scalar_zext :: "('v, 't, 'b) llvm \<Rightarrow> 'v \<Rightarrow> ('b, 'v) gen \<Rightarrow> ('b, 'v) gen option" where
  "scalar_zext L i cg =
     (let src_v = LLVMGetOperand L i 0 in do {
        (src, cg1) \<leftarrow> cg_reg_for L src_v cg;
        dst \<leftarrow> reg_of L cg1 i;
        let src_w = scalar_width L (LLVMTypeOf L src_v);
        Some (if src_w \<ge> 32 then emit_mov dst src cg1
          else cg_emit (enc_r (op_value CVM_OP_AND) dst src CG_REG_SCRATCH)
            (cg_emit_load_const32 CG_REG_SCRATCH (width_mask src_w) cg1))
      })"

definition scalar_trunc :: "('v, 't, 'b) llvm \<Rightarrow> 'v \<Rightarrow> ('b, 'v) gen \<Rightarrow> ('b, 'v) gen option" where
  "scalar_trunc L i cg =
     (let src_v = LLVMGetOperand L i 0; dw = LLVMGetIntTypeWidth L (LLVMTypeOf L i);
          msk = (if dw = 0 then 0 else width_mask dw) in do {
        dst \<leftarrow> reg_of L cg i;
        if cg_type_is_wide_int L (LLVMTypeOf L src_v) then do {
          cg1 \<leftarrow> (if LLVMIsAConstantInt L src_v
            then Some (cg_emit_load_const32 dst (ucast (LLVMConstIntGetZExtValue L src_v)) cg)
            else do { sidx \<leftarrow> wide_index L cg src_v; off \<leftarrow> cg_i64_lo_off cg sidx; Some (cg_ldw_sp_off dst off cg) });
          Some (if dw < 32
            then cg_emit (enc_r (op_value CVM_OP_AND) dst dst CG_REG_SCRATCH) (cg_emit_load_const32 CG_REG_SCRATCH msk cg1)
            else cg1)
        }
        else do {
          (src, cg1) \<leftarrow> cg_reg_for L src_v cg;
          Some (if dw \<ge> 32 then emit_mov dst src cg1
            else cg_emit (enc_r (op_value CVM_OP_AND) dst src CG_REG_SCRATCH) (cg_emit_load_const32 CG_REG_SCRATCH msk cg1))
        }
      })"

definition sext_in_place :: "u8 \<Rightarrow> u8 \<Rightarrow> nat \<Rightarrow> ('b, 'v) gen \<Rightarrow> ('b, 'v) gen" where
  "sext_in_place dst src w cg =
     cg_emit (enc_r (op_value CVM_OP_SAR) dst dst CG_REG_SCRATCH)
       (cg_emit (enc_r (op_value CVM_OP_SHL) dst src CG_REG_SCRATCH)
         (cg_emit (enc_i16 (op_value CVM_OP_MOVI) CG_REG_SCRATCH (of_nat (32 - w))) cg))"

definition scalar_sext :: "('v, 't, 'b) llvm \<Rightarrow> 'v \<Rightarrow> ('b, 'v) gen \<Rightarrow> ('b, 'v) gen option" where
  "scalar_sext L i cg =
     (let src_v = LLVMGetOperand L i 0 in do {
        (src, cg1) \<leftarrow> cg_reg_for L src_v cg;
        dst \<leftarrow> reg_of L cg1 i;
        let src_w = scalar_width L (LLVMTypeOf L src_v);
        Some (if src_w \<ge> 32 then emit_mov dst src cg1 else sext_in_place dst src src_w cg1)
      })"

text \<open>Reinterpretations: a copy, or for a vector of \<open>i1\<close> the mask of its lanes.\<close>

definition movemask :: "('v, 't, 'b) llvm \<Rightarrow> 'v \<Rightarrow> u8 \<Rightarrow> ('b, 'v) gen \<Rightarrow> ('b, 'v) gen option" where
  "movemask L bo dst cg =
     each_lane (cg_vec_lanes L (LLVMTypeOf L bo)) (cg_next_reg cg) (\<lambda>l c. do {
       (lane, c1) \<leftarrow> cg_vec_read_lane L bo l c;
       let c2 = cg_emit (enc_r (op_value CVM_OP_AND) lane lane CG_REG_SCRATCH)
         (cg_emit (enc_i16 (op_value CVM_OP_MOVI) CG_REG_SCRATCH 1) c1);
       let c3 = (if l = 0 then c2 else cg_shift_imm (op_value CVM_OP_SHL) lane lane l c2);
       Some (cg_emit (enc_r (op_value CVM_OP_OR) dst dst lane) c3)
     }) (cg_emit (enc_i16 (op_value CVM_OP_MOVI) dst 0) cg)"

definition scalar_copy :: "('v, 't, 'b) llvm \<Rightarrow> LLVMOpcode \<Rightarrow> 'v \<Rightarrow> ('b, 'v) gen \<Rightarrow> ('b, 'v) gen option" where
  "scalar_copy L op i cg =
     (let bo = LLVMGetOperand L i 0 in
      if op = LLVMBitCast \<and> LLVMGetTypeKind L (LLVMTypeOf L bo) = LLVMVectorTypeKind then do {
        dst \<leftarrow> reg_of L cg i;
        if cg_vec_elem_bits L (LLVMTypeOf L bo) \<noteq> 1 then None else movemask L bo dst cg
      }
      else do { (src, cg1) \<leftarrow> cg_reg_for L bo cg; dst \<leftarrow> reg_of L cg1 i; Some (emit_mov dst src cg1) })"

definition scalar_extract_element :: "('v, 't, 'b) llvm \<Rightarrow> 'v \<Rightarrow> ('b, 'v) gen \<Rightarrow> ('b, 'v) gen option" where
  "scalar_extract_element L i cg =
     (let vec = LLVMGetOperand L i 0; idxv = LLVMGetOperand L i 1 in
      if \<not> LLVMIsAConstantInt L idxv then None
      else do {
        dst \<leftarrow> reg_of L cg i;
        (r, cg1) \<leftarrow> cg_vec_read_lane L vec (unat (ucast (LLVMConstIntGetZExtValue L idxv) :: u32)) cg;
        Some (emit_mov dst r cg1)
      })"

section \<open>binary32\<close>

fun fbinop_cv :: "LLVMOpcode \<Rightarrow> u8" where
  "fbinop_cv LLVMFAdd = op_value CVM_OP_FADD" | "fbinop_cv LLVMFSub = op_value CVM_OP_FSUB"
| "fbinop_cv LLVMFMul = op_value CVM_OP_FMUL" | "fbinop_cv LLVMFDiv = op_value CVM_OP_FDIV"
| "fbinop_cv _ = op_value CVM_OP_FADD"

definition scalar_fbinop :: "('v, 't, 'b) llvm \<Rightarrow> LLVMOpcode \<Rightarrow> 'v \<Rightarrow> ('b, 'v) gen \<Rightarrow> ('b, 'v) gen option" where
  "scalar_fbinop L op i cg = do {
     (lhs, cg1) \<leftarrow> cg_reg_for L (LLVMGetOperand L i 0) cg;
     (rhs, cg2) \<leftarrow> cg_reg_for L (LLVMGetOperand L i 1) cg1;
     dst \<leftarrow> reg_of L cg2 i;
     Some (cg_emit (enc_r (fbinop_cv op) dst lhs rhs) cg2)
   }"

definition scalar_fneg :: "('v, 't, 'b) llvm \<Rightarrow> 'v \<Rightarrow> ('b, 'v) gen \<Rightarrow> ('b, 'v) gen option" where
  "scalar_fneg L i cg = do {
     (src, cg1) \<leftarrow> cg_reg_for L (LLVMGetOperand L i 0) cg;
     dst \<leftarrow> reg_of L cg1 i;
     Some (cg_emit (enc_r (op_value CVM_OP_FNEG) dst src 0) cg1)
   }"

text \<open>\<open>1 - dst\<close>.\<close>

definition emit_negate :: "u8 \<Rightarrow> ('b, 'v) gen \<Rightarrow> ('b, 'v) gen option" where
  "emit_negate dst cg = do {
     (one_r, cg1) \<leftarrow> cg_alloc_reg cg;
     Some (cg_emit (enc_r (op_value CVM_OP_SUB) dst one_r dst) (cg_emit (enc_i16 (op_value CVM_OP_MOVI) one_r 1) cg1))
   }"

text \<open>The runtime function of a binary64 comparison, and whether its result is negated.\<close>

fun f64_predicate :: "LLVMRealPredicate \<Rightarrow> (string \<times> bool) option" where
  "f64_predicate LLVMRealOEQ = Some (''__cvm_feq'', False)" | "f64_predicate LLVMRealUNE = Some (''__cvm_fne'', False)"
| "f64_predicate LLVMRealOLT = Some (''__cvm_flt'', False)" | "f64_predicate LLVMRealOLE = Some (''__cvm_fle'', False)"
| "f64_predicate LLVMRealOGT = Some (''__cvm_fgt'', False)" | "f64_predicate LLVMRealOGE = Some (''__cvm_fge'', False)"
| "f64_predicate LLVMRealUGE = Some (''__cvm_flt'', True)" | "f64_predicate LLVMRealUGT = Some (''__cvm_fle'', True)"
| "f64_predicate LLVMRealULT = Some (''__cvm_fge'', True)" | "f64_predicate LLVMRealULE = Some (''__cvm_fgt'', True)"
| "f64_predicate LLVMRealORD = Some (''__cvm_ford'', False)" | "f64_predicate LLVMRealUNO = Some (''__cvm_ford'', True)"
| "f64_predicate LLVMRealONE = Some (''__cvm_fone'', False)" | "f64_predicate LLVMRealUEQ = Some (''__cvm_fone'', True)"
| "f64_predicate LLVMRealPredicateTrue = None" | "f64_predicate LLVMRealPredicateFalse = None"

definition fcmp_f64 :: "('v, 't, 'b) llvm \<Rightarrow> LLVMRealPredicate \<Rightarrow> 'v \<Rightarrow> ('b, 'v) gen \<Rightarrow> ('b, 'v) gen option" where
  "fcmp_f64 L p i cg = do {
     dst \<leftarrow> reg_of L cg i;
     case f64_predicate p of
       None \<Rightarrow> Some (cg_emit (enc_i16 (op_value CVM_OP_MOVI) dst (if p = LLVMRealPredicateTrue then 1 else 0)) cg)
     | Some (fn, negate) \<Rightarrow> do {
         cg1 \<leftarrow> cg_emit_runtime_call L i fn [LLVMGetOperand L i 0, LLVMGetOperand L i 1] None None dst 0 cg;
         if negate then emit_negate dst cg1 else Some cg1
       }
   }"

text \<open>Comparisons of binary32 by one instruction: the opcode, swapped operands, negated result; or by two.\<close>

fun f32_predicate :: "LLVMRealPredicate \<Rightarrow> (u8 \<times> bool \<times> bool) option" where
  "f32_predicate LLVMRealOEQ = Some (op_value CVM_OP_FCMP_EQ, False, False)"
| "f32_predicate LLVMRealUNE = Some (op_value CVM_OP_FCMP_NE, False, False)"
| "f32_predicate LLVMRealOLT = Some (op_value CVM_OP_FCMP_LT, False, False)"
| "f32_predicate LLVMRealOLE = Some (op_value CVM_OP_FCMP_LE, False, False)"
| "f32_predicate LLVMRealOGT = Some (op_value CVM_OP_FCMP_LT, True, False)"
| "f32_predicate LLVMRealOGE = Some (op_value CVM_OP_FCMP_LE, True, False)"
| "f32_predicate LLVMRealUGE = Some (op_value CVM_OP_FCMP_LT, False, True)"
| "f32_predicate LLVMRealUGT = Some (op_value CVM_OP_FCMP_LE, False, True)"
| "f32_predicate LLVMRealULT = Some (op_value CVM_OP_FCMP_LE, True, True)"
| "f32_predicate LLVMRealULE = Some (op_value CVM_OP_FCMP_LT, True, True)"
| "f32_predicate _ = None"

definition fcmp_pair :: "LLVMRealPredicate \<Rightarrow> u8 \<Rightarrow> u8 \<Rightarrow> u8 \<Rightarrow> ('b, 'v) gen \<Rightarrow> ('b, 'v) gen option" where
  "fcmp_pair p dst lhs rhs cg = do {
     (t1, cg1) \<leftarrow> cg_alloc_reg cg;
     (t2, cg2) \<leftarrow> cg_alloc_reg cg1;
     if p = LLVMRealORD then
       Some (cg_emit (enc_r (op_value CVM_OP_AND) dst t1 t2) (cg_emit (enc_r (op_value CVM_OP_FCMP_EQ) t2 rhs rhs)
         (cg_emit (enc_r (op_value CVM_OP_FCMP_EQ) t1 lhs lhs) cg2)))
     else if p = LLVMRealUNO then
       Some (cg_emit (enc_r (op_value CVM_OP_OR) dst t1 t2) (cg_emit (enc_r (op_value CVM_OP_FCMP_NE) t2 rhs rhs)
         (cg_emit (enc_r (op_value CVM_OP_FCMP_NE) t1 lhs lhs) cg2)))
     else
       Some (cg_emit (enc_r (op_value CVM_OP_OR) dst t1 t2) (cg_emit (enc_r (op_value CVM_OP_FCMP_LT) t2 rhs lhs)
         (cg_emit (enc_r (op_value CVM_OP_FCMP_LT) t1 lhs rhs) cg2)))
   }"

definition fcmp_f32 :: "('v, 't, 'b) llvm \<Rightarrow> LLVMRealPredicate \<Rightarrow> 'v \<Rightarrow> ('b, 'v) gen \<Rightarrow> ('b, 'v) gen option" where
  "fcmp_f32 L p i cg =
     (if f32_predicate p = None \<and> p \<notin> {LLVMRealORD, LLVMRealUNO, LLVMRealONE, LLVMRealUEQ} then None
      else do {
        (lhs, cg1) \<leftarrow> cg_reg_for L (LLVMGetOperand L i 0) cg;
        (rhs, cg2) \<leftarrow> cg_reg_for L (LLVMGetOperand L i 1) cg1;
        dst \<leftarrow> reg_of L cg2 i;
        case f32_predicate p of
          Some (op2, swap, negate) \<Rightarrow>
            (let cg3 = cg_emit (if swap then enc_r op2 dst rhs lhs else enc_r op2 dst lhs rhs) cg2 in
             if negate then emit_negate dst cg3 else Some cg3)
        | None \<Rightarrow> do {
            cg3 \<leftarrow> fcmp_pair p dst lhs rhs cg2;
            if p = LLVMRealUEQ then emit_negate dst cg3 else Some cg3
          }
      })"

definition scalar_fcmp :: "('v, 't, 'b) llvm \<Rightarrow> ('v, 'b) llvm_inst \<Rightarrow> 'v \<Rightarrow> ('b, 'v) gen \<Rightarrow> ('b, 'v) gen option" where
  "scalar_fcmp L I i cg =
     (let p = LLVMGetFCmpPredicate I i in
      if cg_type_is_f64 L (LLVMTypeOf L (LLVMGetOperand L i 0)) then fcmp_f64 L p i cg else fcmp_f32 L p i cg)"

definition scalar_fptrunc :: "('v, 't, 'b) llvm \<Rightarrow> 'v \<Rightarrow> ('b, 'v) gen \<Rightarrow> ('b, 'v) gen option" where
  "scalar_fptrunc L i cg = do {
     dst \<leftarrow> reg_of L cg i;
     cg_emit_runtime_call L i ''__cvm_f_to_f32'' [LLVMGetOperand L i 0] None None dst 0 cg
   }"

fun fconv_cv :: "LLVMOpcode \<Rightarrow> u8" where
  "fconv_cv LLVMSIToFP = op_value CVM_OP_I2F_S" | "fconv_cv LLVMUIToFP = op_value CVM_OP_I2F_U"
| "fconv_cv LLVMFPToSI = op_value CVM_OP_F2I_S" | "fconv_cv LLVMFPToUI = op_value CVM_OP_F2I_U"
| "fconv_cv _ = op_value CVM_OP_I2F_S"

definition scalar_fconv :: "('v, 't, 'b) llvm \<Rightarrow> LLVMOpcode \<Rightarrow> 'v \<Rightarrow> ('b, 'v) gen \<Rightarrow> ('b, 'v) gen option" where
  "scalar_fconv L op i cg =
     (let o0 = LLVMGetOperand L i 0 in
      if (op = LLVMFPToSI \<or> op = LLVMFPToUI) \<and> cg_type_is_f64 L (LLVMTypeOf L o0) then do {
        dst \<leftarrow> reg_of L cg i;
        cg_emit_runtime_call L i (if op = LLVMFPToSI then ''__cvm_f_to_i32'' else ''__cvm_f_to_u32'') [o0] None None dst 0 cg
      }
      else do {
        (src, cg1) \<leftarrow> cg_reg_for L o0 cg;
        dst \<leftarrow> reg_of L cg1 i;
        let w = scalar_width L (LLVMTypeOf L o0);
        Some (if op = LLVMSIToFP \<and> w < 32 then cg_emit (enc_r (fconv_cv op) dst dst 0) (sext_in_place dst src w cg1)
          else cg_emit (enc_r (fconv_cv op) dst src 0) cg1)
      })"

section \<open>Memory\<close>

text \<open>Opcodes to load and store a word of the widths that loads, stores and the atomic instructions take.\<close>

definition mem_ops :: "nat set \<Rightarrow> ('v, 't, 'b) llvm \<Rightarrow> 't \<Rightarrow> (u8 \<times> u8) option" where
  "mem_ops bytes L t =
     (let k = LLVMGetTypeKind L t; w = LLVMGetIntTypeWidth L t in
      if k = LLVMPointerTypeKind then Some (op_value CVM_OP_LDW, op_value CVM_OP_STW)
      else if k = LLVMIntegerTypeKind then
        (if w \<in> bytes then Some (op_value CVM_OP_LDB, op_value CVM_OP_STB)
         else if w = 16 then Some (op_value CVM_OP_LDH, op_value CVM_OP_STH)
         else if w = 32 then Some (op_value CVM_OP_LDW, op_value CVM_OP_STW)
         else None)
      else None)"

definition load_store_ops :: "('v, 't, 'b) llvm \<Rightarrow> 't \<Rightarrow> (u8 \<times> u8) option" where
  "load_store_ops L t = (if LLVMGetTypeKind L t = LLVMFloatTypeKind then Some (op_value CVM_OP_LDW, op_value CVM_OP_STW)
     else mem_ops {1, 8} L t)"

definition scalar_load :: "('v, 't, 'b) llvm \<Rightarrow> 'v \<Rightarrow> ('b, 'v) gen \<Rightarrow> ('b, 'v) gen option" where
  "scalar_load L i cg =
     (let ptr_v = LLVMGetOperand L i 0 in
      if LLVMGetTypeKind L (LLVMTypeOf L ptr_v) \<noteq> LLVMPointerTypeKind then None
      else do {
        (ldop, stop) \<leftarrow> load_store_ops L (LLVMTypeOf L i);
        (addr, cg1) \<leftarrow> cg_reg_for L ptr_v cg;
        dst \<leftarrow> reg_of L cg1 i;
        Some (cg_emit (enc_r ldop dst addr 0) cg1)
      })"

definition store_vector :: "('v, 't, 'b) llvm \<Rightarrow> 'v \<Rightarrow> ('b, 'v) gen \<Rightarrow> ('b, 'v) gen option" where
  "store_vector L i cg =
     (let val_v = LLVMGetOperand L i 0; vty = LLVMTypeOf L val_v in do {
        (ldop, stop, bytes) \<leftarrow> cg_vec_lane_mem L (LLVMGetElementType L vty);
        (addr, cg1) \<leftarrow> cg_reg_for L (LLVMGetOperand L i 1) cg;
        each_lane (cg_vec_lanes L vty) (cg_next_reg cg1) (\<lambda>l c. do {
          (v, c1) \<leftarrow> cg_vec_read_lane L val_v l c;
          (a, c2) \<leftarrow> lane_addr addr l bytes c1;
          Some (cg_emit (enc_r stop 0 a v) c2)
        }) cg1
      })"

definition store_wide :: "('v, 't, 'b) llvm \<Rightarrow> 'v \<Rightarrow> ('b, 'v) gen \<Rightarrow> ('b, 'v) gen option" where
  "store_wide L i cg = do {
     (addr, cg1) \<leftarrow> cg_reg_for L (LLVMGetOperand L i 1) cg;
     (lo, hi, cg2) \<leftarrow> cg_i64_read L (LLVMGetOperand L i 0) cg1;
     (a4, cg3) \<leftarrow> cg_alloc_reg (cg_movi_scratch 4 (cg_emit (enc_r (op_value CVM_OP_STW) 0 addr lo) cg2));
     Some (cg_emit (enc_r (op_value CVM_OP_STW) 0 a4 hi) (cg_emit (enc_r (op_value CVM_OP_ADD) a4 addr CG_REG_SCRATCH) cg3))
   }"

definition scalar_store :: "('v, 't, 'b) llvm \<Rightarrow> 'v \<Rightarrow> ('b, 'v) gen \<Rightarrow> ('b, 'v) gen option" where
  "scalar_store L i cg =
     (let val_v = LLVMGetOperand L i 0; vty = LLVMTypeOf L val_v in
      if cg_type_is_vector L vty then store_vector L i cg
      else if cg_type_is_wide L vty then store_wide L i cg
      else do {
        (ldop, stop) \<leftarrow> load_store_ops L vty;
        (val, cg1) \<leftarrow> cg_reg_for L val_v cg;
        (addr, cg2) \<leftarrow> cg_reg_for L (LLVMGetOperand L i 1) cg1;
        Some (cg_emit (enc_r stop 0 addr val) cg2)
      })"

text \<open>An alloca is computed in the prologue, except when its result is spilled.\<close>

definition scalar_alloca :: "('v, 't, 'b) llvm \<Rightarrow> bool \<Rightarrow> 'v \<Rightarrow> ('b, 'v) gen \<Rightarrow> ('b, 'v) gen option" where
  "scalar_alloca L result_spilled i cg =
     (if result_spilled then do {
        aoff \<leftarrow> cg_alloca_offset_of cg i;
        if sint aoff < 0 then None
        else do {
          def_reg \<leftarrow> reg_of L cg i;
          Some (cg_emit (enc_r (op_value CVM_OP_ADD) def_reg CG_REG_SP CG_REG_SCRATCH) (cg_movi_scratch aoff cg))
        }
      }
      else Some cg)"

text \<open>Read-modify-write: the new word from the old one and the operand.\<close>

definition rmw_word :: "LLVMAtomicRMWBinOp \<Rightarrow> u8 \<Rightarrow> u8 \<Rightarrow> ('b, 'v) gen \<Rightarrow> (u8 \<times> ('b, 'v) gen) option" where
  "rmw_word bop old val cg =
     (let compute = (\<lambda>cv. do { (nw, cg1) \<leftarrow> cg_alloc_reg cg; Some (nw, cg_emit (enc_r (op_value cv) nw old val) cg1) }) in
      case bop of
        LLVMAtomicRMWBinOpXchg \<Rightarrow> Some (val, cg)
      | LLVMAtomicRMWBinOpAdd \<Rightarrow> compute CVM_OP_ADD
      | LLVMAtomicRMWBinOpSub \<Rightarrow> compute CVM_OP_SUB
      | LLVMAtomicRMWBinOpAnd \<Rightarrow> compute CVM_OP_AND
      | LLVMAtomicRMWBinOpOr \<Rightarrow> compute CVM_OP_OR
      | LLVMAtomicRMWBinOpXor \<Rightarrow> compute CVM_OP_XOR
      | LLVMAtomicRMWBinOpNand \<Rightarrow> do {
          (nw, cg1) \<leftarrow> compute CVM_OP_AND;
          Some (nw, cg_emit (enc_r (op_value CVM_OP_XOR) nw nw CG_REG_SCRATCH) (cg_movi_scratch (- 1) cg1))
        }
      | LLVMAtomicRMWBinOpOther k \<Rightarrow> None)"

definition scalar_rmw :: "('v, 't, 'b) llvm \<Rightarrow> 'v \<Rightarrow> ('b, 'v) gen \<Rightarrow> ('b, 'v) gen option" where
  "scalar_rmw L i cg = do {
     (ldop, stop) \<leftarrow> mem_ops {8} L (LLVMTypeOf L i);
     (addr, cg1) \<leftarrow> cg_reg_for L (LLVMGetOperand L i 0) cg;
     (val, cg2) \<leftarrow> cg_reg_for L (LLVMGetOperand L i 1) cg1;
     old \<leftarrow> reg_of L cg2 i;
     (nw, cg3) \<leftarrow> rmw_word (LLVMGetAtomicRMWBinOp L i) old val (cg_emit (enc_r ldop old addr 0) cg2);
     Some (cg_emit (enc_r stop 0 addr nw) cg3)
   }"

text \<open>\<open>sv = old XOR ((old XOR new) AND mask)\<close>: the new word if the mask is all ones, else the old one.\<close>

definition blend :: "u8 \<Rightarrow> u8 \<Rightarrow> u8 \<Rightarrow> u8 \<Rightarrow> ('b, 'v) gen \<Rightarrow> ('b, 'v) gen" where
  "blend sv old new msk cg =
     cg_emit (enc_r (op_value CVM_OP_XOR) sv old sv)
       (cg_emit (enc_r (op_value CVM_OP_AND) sv sv msk) (cg_emit (enc_r (op_value CVM_OP_XOR) sv old new) cg))"

definition cmpxchg_wide :: "('v, 't, 'b) llvm \<Rightarrow> 'v \<Rightarrow> u16 \<Rightarrow> ('b, 'v) gen \<Rightarrow> ('b, 'v) gen option" where
  "cmpxchg_wide L i base cg = do {
     (addr, a4, olo, ohi, cg1) \<leftarrow> i64_load_words L (LLVMGetOperand L i 0) cg;
     (clo, chi, cg2) \<leftarrow> cg_i64_read L (LLVMGetOperand L i 1) cg1;
     (nlo, nhi, cg3) \<leftarrow> cg_i64_read L (LLVMGetOperand L i 2) cg2;
     (eql, cg4) \<leftarrow> cg_alloc_reg cg3;
     (eqh, cg5) \<leftarrow> cg_alloc_reg cg4;
     (eq, cg6) \<leftarrow> cg_alloc_reg cg5;
     let cg7 = cg_emit (enc_r (op_value CVM_OP_AND) eq eql eqh) (cg_emit (enc_r (op_value CVM_OP_CMP_EQ) eqh ohi chi)
       (cg_emit (enc_r (op_value CVM_OP_CMP_EQ) eql olo clo) cg6));
     (msk, cg8) \<leftarrow> cg_alloc_reg cg7;
     (svl, cg9) \<leftarrow> cg_alloc_reg (cg_emit (enc_r (op_value CVM_OP_SUB) msk (cg_zero_reg cg8) eq) cg8);
     (svh, cg10) \<leftarrow> cg_alloc_reg cg9;
     let cg11 = cg_emit (enc_r (op_value CVM_OP_STW) 0 a4 svh) (cg_emit (enc_r (op_value CVM_OP_STW) 0 addr svl)
       (blend svh ohi nhi msk (blend svl olo nlo msk cg10)));
     Some (cg_stw_sp_off (cg_val_slot_off cg11 (base + 2)) eq (cg_stw_sp_off (cg_val_slot_off cg11 (base + 1)) ohi
       (cg_stw_sp_off (cg_val_slot_off cg11 base) olo cg11)))
   }"

definition cmpxchg_word :: "('v, 't, 'b) llvm \<Rightarrow> 'v \<Rightarrow> u16 \<Rightarrow> ('b, 'v) gen \<Rightarrow> ('b, 'v) gen option" where
  "cmpxchg_word L i base cg =
     (let vt = LLVMTypeOf L (LLVMGetOperand L i 1); width = scalar_width L vt in do {
        (ldop, stop) \<leftarrow> mem_ops {8} L vt;
        (addr, cg1) \<leftarrow> cg_reg_for L (LLVMGetOperand L i 0) cg;
        (cmp, cg2) \<leftarrow> cg_reg_for L (LLVMGetOperand L i 1) cg1;
        (neu, cg3) \<leftarrow> cg_reg_for L (LLVMGetOperand L i 2) cg2;
        (old, cg4) \<leftarrow> cg_alloc_reg cg3;
        let cg5 = cg_emit (enc_r ldop old addr 0) cg4;
        (oc, cc, cg6) \<leftarrow> (if width < 32 then do {
            (oc, c1) \<leftarrow> cg_alloc_reg (cg_movi_scratch (if width = 8 then 0xFF else 0xFFFF) cg5);
            (cc, c2) \<leftarrow> cg_alloc_reg (cg_emit (enc_r (op_value CVM_OP_AND) oc old CG_REG_SCRATCH) c1);
            Some (oc, cc, cg_emit (enc_r (op_value CVM_OP_AND) cc cmp CG_REG_SCRATCH) c2)
          } else Some (old, cmp, cg5));
        (eq, cg7) \<leftarrow> cg_alloc_reg cg6;
        (msk, cg8) \<leftarrow> cg_alloc_reg (cg_emit (enc_r (op_value CVM_OP_CMP_EQ) eq oc cc) cg7);
        (sv, cg9) \<leftarrow> cg_alloc_reg (cg_emit (enc_r (op_value CVM_OP_SUB) msk (cg_zero_reg cg8) eq) cg8);
        let cg10 = cg_emit (enc_r stop 0 addr sv) (blend sv old neu msk cg9);
        Some (cg_stw_sp_off (cg_val_slot_off cg10 (base + 1)) eq (cg_stw_sp_off (cg_val_slot_off cg10 base) old cg10))
      })"

definition agg_slot_of :: "('v, 't, 'b) llvm \<Rightarrow> ('b, 'v) gen \<Rightarrow> 'v \<Rightarrow> u16 option" where
  "agg_slot_of L cg v = do {
     ix \<leftarrow> cg_lookup L cg v;
     idx \<leftarrow> ix;
     slot \<leftarrow> at (cg_agg_slot cg) idx;
     if slot = CG_NO_SLOT then None else Some slot
   }"

definition scalar_cmpxchg :: "('v, 't, 'b) llvm \<Rightarrow> 'v \<Rightarrow> ('b, 'v) gen \<Rightarrow> ('b, 'v) gen option" where
  "scalar_cmpxchg L i cg = do {
     base \<leftarrow> agg_slot_of L cg i;
     if cg_type_is_i64 L (LLVMTypeOf L (LLVMGetOperand L i 1)) then cmpxchg_wide L i base cg else cmpxchg_word L i base cg
   }"

section \<open>Fields of results\<close>

definition cg_emit_eh_call0 ::
  "('v, 't, 'b) llvm \<Rightarrow> string \<Rightarrow> u8 option \<Rightarrow> cg_bits option \<Rightarrow> ('b, 'v) gen \<Rightarrow> ('b, 'v) gen option" where
  "cg_emit_eh_call0 L name dst_reg st cg = do {
     idx \<leftarrow> cg_func_by_name L cg name;
     let cg1 = (case st of Some w \<Rightarrow> cg_emit_spill w cg | None \<Rightarrow> cg);
     let cg2 = (cg_emit (enc_i24 (op_value CVM_OP_CALL) (CVM_FN_SLOT (of_nat idx))) cg1)\<lparr>cg_has_calls := True\<rparr>;
     let cg3 = (case st of Some w \<Rightarrow> cg_emit_restore w cg2 | None \<Rightarrow> cg2);
     Some (case dst_reg of Some d \<Rightarrow> if d \<noteq> 0 then cg_emit (enc_r (op_value CVM_OP_MOV) d 0 0) cg3 else cg3 | None \<Rightarrow> cg3)
   }"

definition extract_slot :: "('v, 't, 'b) llvm \<Rightarrow> 'v \<Rightarrow> 'v \<Rightarrow> nat \<Rightarrow> ('b, 'v) gen \<Rightarrow> ('b, 'v) gen option" where
  "extract_slot L i src offset cg = do {
     base \<leftarrow> agg_slot_of L cg src;
     dst \<leftarrow> reg_of L cg i;
     Some (cg_ldw_sp_off dst (cg_val_slot_off cg (base + of_nat offset)) cg)
   }"

definition scalar_extract_value :: "('v, 't, 'b) llvm \<Rightarrow> 'v \<Rightarrow> ('b, 'v) gen \<Rightarrow> ('b, 'v) gen option" where
  "scalar_extract_value L i cg =
     (case cg_is_cmpxchg_extract L i of
        Some (src, field) \<Rightarrow> extract_slot L i src (if field = 0 then 0 else cg_cmpxchg_val_words L src) cg
      | None \<Rightarrow> (case cg_is_overflow_extract L i of
          Some (call, field) \<Rightarrow>
            extract_slot L i call (if field = 0 then 0
              else case cg_overflow_call_kind L call of Some (k, bits) \<Rightarrow> cg_overflow_val_words bits | None \<Rightarrow> 0) cg
        | None \<Rightarrow>
          if \<not> cg_is_landingpad_extract L i then None
          else let which = (if LLVMGetNumIndices L i \<ge> 1 then LLVMGetIndices L i ! 0 else 0) in do {
            dst \<leftarrow> reg_of L cg i;
            st \<leftarrow> cg_call_spill_set L cg i;
            cg_emit_eh_call0 L (if which = 0 then ''__cvm_eh_exc'' else ''__cvm_eh_sel'') (Some dst) (Some st) cg
          }))"

section \<open>Addresses\<close>

text \<open>The walk over the indices \<open>ks\<close>: the type reached, the constant part of the offset, and the register with the
  rest.\<close>

definition gep_step ::
  "('v, 't, 'b) llvm \<Rightarrow> 'v \<Rightarrow> u32 \<Rightarrow> u64 \<times> u8 option \<Rightarrow> ('b, 'v) gen \<Rightarrow> ((u64 \<times> u8 option) \<times> ('b, 'v) gen) option" where
  "gep_step L idx_v stride acc cg =
     (if LLVMIsAConstantInt L idx_v
      then Some ((fst acc + LLVMConstIntGetSExtValue L idx_v * ucast stride, snd acc), cg)
      else do {
        (idx_r, cg1) \<leftarrow> cg_reg_for L idx_v cg;
        (stride_r, cg2) \<leftarrow> cg_alloc_reg cg1;
        (step_r, cg3) \<leftarrow> cg_alloc_reg (cg_emit_load_const32 stride_r stride cg2);
        let cg4 = cg_emit (enc_r (op_value CVM_OP_MUL) step_r idx_r stride_r) cg3;
        case snd acc of
          None \<Rightarrow> Some ((fst acc, Some step_r), cg4)
        | Some dyn_reg \<Rightarrow> do {
            (sum_r, cg5) \<leftarrow> cg_alloc_reg cg4;
            Some ((fst acc, Some sum_r), cg_emit (enc_r (op_value CVM_OP_ADD) sum_r dyn_reg step_r) cg5)
          }
      })"

primrec gep_indices ::
  "('v, 't, 'b) llvm \<Rightarrow> 'v \<Rightarrow> nat list \<Rightarrow> 't \<Rightarrow> u64 \<times> u8 option \<Rightarrow> ('b, 'v) gen \<Rightarrow> ((u64 \<times> u8 option) \<times> ('b, 'v) gen) option" where
  "gep_indices L i [] cur_ty acc cg = Some (acc, cg)"
| "gep_indices L i (k # ks) cur_ty acc cg =
     (let idx_v = LLVMGetOperand L i (k + 1); size = (\<lambda>t. ucast (LLVMABISizeOfType L t) :: u32) in
      if k = 0 then Option.bind (gep_step L idx_v (size cur_ty) acc cg) (\<lambda>(acc', cg1). gep_indices L i ks cur_ty acc' cg1)
      else if LLVMGetTypeKind L cur_ty = LLVMArrayTypeKind then
        let et = LLVMGetElementType L cur_ty in
        Option.bind (gep_step L idx_v (size et) acc cg) (\<lambda>(acc', cg1). gep_indices L i ks et acc' cg1)
      else if LLVMGetTypeKind L cur_ty = LLVMStructTypeKind then
        (if \<not> LLVMIsAConstantInt L idx_v then None
         else let fi = unat (ucast (LLVMConstIntGetZExtValue L idx_v) :: u32) in
           gep_indices L i ks (LLVMStructGetTypeAtIndex L cur_ty fi) (fst acc + LLVMOffsetOfElement L cur_ty fi, snd acc) cg)
      else None)"

definition scalar_gep :: "('v, 't, 'b) llvm \<Rightarrow> 'v \<Rightarrow> ('b, 'v) gen \<Rightarrow> ('b, 'v) gen option" where
  "scalar_gep L i cg = do {
     (base, cg1) \<leftarrow> cg_reg_for L (LLVMGetOperand L i 0) cg;
     dst \<leftarrow> reg_of L cg1 i;
     cur_ty \<leftarrow> LLVMGetGEPSourceElementType L i;
     ((const_off, dyn), cg2) \<leftarrow> gep_indices L i [0..<LLVMGetNumIndices L i] cur_ty (0, None) cg1;
     (cur, cg3) \<leftarrow> (if const_off = 0 then Some (base, cg2)
       else if \<not> in_i32_range const_off then None
       else do {
         (off_r, c1) \<leftarrow> cg_fresh_const (ucast const_off) cg2;
         (sum_r, c2) \<leftarrow> cg_alloc_reg c1;
         Some (sum_r, cg_emit (enc_r (op_value CVM_OP_ADD) sum_r base off_r) c2)
       });
     Some (case dyn of Some dyn_reg \<Rightarrow> cg_emit (enc_r (op_value CVM_OP_ADD) dst cur dyn_reg) cg3
       | None \<Rightarrow> emit_mov dst cur cg3)
   }"

section \<open>Control\<close>

definition scalar_select :: "('v, 't, 'b) llvm \<Rightarrow> 'v \<Rightarrow> ('b, 'v) gen \<Rightarrow> ('b, 'v) gen option" where
  "scalar_select L i cg = do {
     (cond, cg1) \<leftarrow> cg_reg_for L (LLVMGetOperand L i 0) cg;
     (a, cg2) \<leftarrow> cg_reg_for L (LLVMGetOperand L i 1) cg1;
     (b, cg3) \<leftarrow> cg_reg_for L (LLVMGetOperand L i 2) cg2;
     dst \<leftarrow> reg_of L cg3 i;
     Some (cg_emit (enc_r (op_value CVM_OP_MOV) dst b 0)
       (cg_emit (enc_i24 (op_value CVM_OP_JMP) 1)
       (cg_emit (enc_r (op_value CVM_OP_MOV) dst a 0)
       (cg_emit (enc_br (op_value CVM_OP_BEQ) cond (cg_zero_reg cg3) 2) cg3))))
   }"

text \<open>A jump or branch to a block: a word with an empty displacement and its fixup.\<close>

definition emit_jump :: "'b \<Rightarrow> ('b, 'v) gen \<Rightarrow> ('b, 'v) gen" where
  "emit_jump target cg = cg_emit (enc_i24 (op_value CVM_OP_JMP) 0) (cg_queue_fixup (length (cg_code cg)) target 8 24 cg)"

definition emit_branch :: "u8 \<Rightarrow> u8 \<Rightarrow> 'b \<Rightarrow> ('b, 'v) gen \<Rightarrow> ('b, 'v) gen" where
  "emit_branch opc cond target cg =
     cg_emit (enc_br opc cond (cg_zero_reg cg) 0) (cg_queue_fixup (length (cg_code cg)) target 24 8 cg)"

text \<open>\<open>bb\<close> is the block of the branch. The moves of an edge are emitted where only this edge runs through them.\<close>

definition scalar_br :: "('v, 't, 'b) llvm \<Rightarrow> ('v, 'b) llvm_inst \<Rightarrow> 'b \<Rightarrow> 'v \<Rightarrow> ('b, 'v) gen \<Rightarrow> ('b, 'v) gen option" where
  "scalar_br L I bb i cg =
     (if \<not> LLVMIsConditional I i then
        let target = LLVMGetSuccessor I i 0 in map_option (emit_jump target) (cg_emit_phi_moves L bb target cg)
      else let true_bb = LLVMGetSuccessor I i 0; false_bb = LLVMGetSuccessor I i 1;
          true_phi = cg_block_has_phi L true_bb; false_phi = cg_block_has_phi L false_bb in do {
        (cond_reg, cg1) \<leftarrow> cg_reg_for L (LLVMGetCondition I i) cg;
        if true_phi \<and> false_phi then do {
          let cg2 = cg_emit (enc_br (op_value CVM_OP_BEQ) cond_reg (cg_zero_reg cg1) 1) cg1;
          let jskip_idx = length (cg_code cg2);
          cg3 \<leftarrow> cg_emit_phi_moves L bb false_bb (cg_emit (enc_i24 (op_value CVM_OP_JMP) 0) cg2);
          let cg4 = emit_jump false_bb cg3;
          let skip = length (cg_code cg4) - (jskip_idx + 1);
          if skip > 0x7FFFFF then None
          else map_option (emit_jump true_bb) (cg_emit_phi_moves L bb true_bb
            (cg4\<lparr>cg_code := (cg_code cg4)[jskip_idx := enc_i24 (op_value CVM_OP_JMP) (of_nat skip)]\<rparr>))
        }
        else if true_phi then
          map_option (emit_jump true_bb) (cg_emit_phi_moves L bb true_bb (emit_branch (op_value CVM_OP_BEQ) cond_reg false_bb cg1))
        else
          map_option (emit_jump false_bb) (cg_emit_phi_moves L bb false_bb (emit_branch (op_value CVM_OP_BNE) cond_reg true_bb cg1))
      })"

definition scalar_ret :: "('v, 't, 'b) llvm \<Rightarrow> 'v \<Rightarrow> ('b, 'v) gen \<Rightarrow> ('b, 'v) gen option" where
  "scalar_ret L i cg =
     map_option (\<lambda>c. cg_emit (enc_r (op_value CVM_OP_RET) 0 0 0) (cg_sp_add (cg_frame_bytes c) c))
       (if LLVMGetNumOperands L i = 0 then Some cg
        else let rv = LLVMGetOperand L i 0 in
          if cg_type_is_wide L (LLVMTypeOf L rv)
          then map_option (\<lambda>(lo, hi, c). emit_mov 1 hi (emit_mov 0 lo c)) (cg_i64_read L rv cg)
          else map_option (\<lambda>(r, c). emit_mov 0 r c) (cg_reg_for L rv cg))"

definition scalar_unreachable :: "('b, 'v) gen \<Rightarrow> ('b, 'v) gen" where
  "scalar_unreachable cg = cg_emit (enc_r (op_value CVM_OP_HALT) 0 0 0) cg"

section \<open>Switch\<close>

text \<open>The constant of case \<open>k\<close>, within the width of the condition.\<close>

definition width_mask64 :: "nat \<Rightarrow> u64" where "width_mask64 w = (if w \<ge> 64 then - 1 else push_bit w 1 - 1)"

definition case_const :: "('v, 't, 'b) llvm \<Rightarrow> ('v, 'b) llvm_inst \<Rightarrow> 'v \<Rightarrow> nat \<Rightarrow> nat \<Rightarrow> u64 option" where
  "case_const L I i w k = do {
     cv \<leftarrow> cvm_llvm_get_switch_case_value I i k;
     if LLVMIsAConstantInt L cv then Some (LLVMConstIntGetZExtValue L cv AND width_mask64 w) else None
   }"

text \<open>The least and greatest case, as signed words; \<open>None\<close> when a case is not a constant of 32 bits.\<close>

definition case_bounds :: "('v, 't, 'b) llvm \<Rightarrow> ('v, 'b) llvm_inst \<Rightarrow> 'v \<Rightarrow> nat \<Rightarrow> nat \<Rightarrow> (u32 \<times> u32) option" where
  "case_bounds L I i w n_succ =
     fold_opt (\<lambda>k (lo, hi). Option.bind (case_const L I i w k) (\<lambda>zv.
       if zv > 0xFFFFFFFF then None
       else let iv = ucast zv in
         if k = 1 then Some (iv, iv)
         else Some (if sint iv < sint lo then iv else lo, if sint iv > sint hi then iv else hi))) [1..<n_succ] (0, 0)"

definition switch_table :: "('v, 't, 'b) llvm \<Rightarrow> ('v, 'b) llvm_inst \<Rightarrow> 'v \<Rightarrow> nat \<Rightarrow> nat \<Rightarrow> (u32 \<times> nat) option" where
  "switch_table L I i w n_succ =
     (if n_succ - 1 < 4 then None
      else Option.bind (case_bounds L I i w n_succ) (\<lambda>(lo, hi).
        let range = sint hi - sint lo + 1 in
        if range > 0 \<and> range \<le> 2 * int (n_succ - 1) then Some (lo, nat range) else None))"

text \<open>The blocks of the table's slots, from \<open>lo\<close> on.\<close>

definition switch_targets :: "('v, 't, 'b) llvm \<Rightarrow> ('v, 'b) llvm_inst \<Rightarrow> 'v \<Rightarrow> nat \<Rightarrow> nat \<Rightarrow> u32 \<Rightarrow> nat \<Rightarrow> 'b list option" where
  "switch_targets L I i w n_succ lo n_range =
     fold_opt (\<lambda>k ts. map_option (\<lambda>zv. ts[unat ((ucast zv :: u32) - lo) := LLVMGetSuccessor I i k]) (case_const L I i w k))
       [1..<n_succ] (replicate n_range (LLVMGetSwitchDefaultDest I i))"

definition queue_targets :: "nat \<Rightarrow> 'b list \<Rightarrow> ('b, 'v) gen \<Rightarrow> ('b, 'v) gen" where
  "queue_targets table_off ts cg = fold (\<lambda>k. cg_queue_table_fixup (table_off + k * 4) (ts ! k)) [0..<length ts] cg"

definition emit_table :: "('v, 't, 'b) llvm \<Rightarrow> ('v, 'b) llvm_inst \<Rightarrow> 'v \<Rightarrow> u8 \<Rightarrow> u32 \<Rightarrow> 'b list \<Rightarrow> ('b, 'v) gen \<Rightarrow> ('b, 'v) gen option" where
  "emit_table L I i cond_reg lo ts cg =
     (let table_off = length (cg_data_bytes cg); n = length ts in do {
        let cg1 = queue_targets table_off ts (cg\<lparr>cg_data_bytes := cg_data_bytes cg @ replicate (4 * n) 0\<rparr>);
        (lo_reg, cg2) \<leftarrow> cg_fresh_const lo cg1;
        (off_reg, cg3) \<leftarrow> cg_alloc_reg cg2;
        (n_reg, cg4) \<leftarrow> cg_fresh_const (of_nat n) (cg_emit (enc_r (op_value CVM_OP_SUB) off_reg cond_reg lo_reg) cg3);
        (inrange, cg5) \<leftarrow> cg_alloc_reg cg4;
        let cg6 = cg_emit (enc_r (op_value CVM_OP_CMP_LTU) inrange off_reg n_reg) cg5;
        let beq_pos = length (cg_code cg6);
        (two_reg, cg7) \<leftarrow> cg_alloc_reg (cg_emit 0 cg6);
        (idx_reg, cg8) \<leftarrow> cg_alloc_reg (cg_emit (enc_i16 (op_value CVM_OP_MOVI) two_reg 2) cg7);
        (base_reg, cg9) \<leftarrow> cg_fresh_const (of_nat table_off) (cg_emit (enc_r (op_value CVM_OP_SHL) idx_reg off_reg two_reg) cg8);
        (addr_reg, cg10) \<leftarrow> cg_alloc_reg cg9;
        (target_reg, cg11) \<leftarrow> cg_alloc_reg (cg_emit (enc_r (op_value CVM_OP_ADD) addr_reg base_reg idx_reg) cg10);
        let cg12 = cg_emit (enc_r (op_value CVM_OP_JMPR) target_reg 0 0)
          (cg_emit (enc_r (op_value CVM_OP_LDW) target_reg addr_reg 0) cg11);
        let skip = length (cg_code cg12) - (beq_pos + 1);
        if skip > 127 then None
        else Some (emit_jump (LLVMGetSwitchDefaultDest I i)
          (cg12\<lparr>cg_code := (cg_code cg12)[beq_pos := enc_br (op_value CVM_OP_BEQ) inrange (cg_zero_reg cg12) (of_nat skip)]\<rparr>))
      })"

definition chain_case :: "('v, 't, 'b) llvm \<Rightarrow> ('v, 'b) llvm_inst \<Rightarrow> 'v \<Rightarrow> nat \<Rightarrow> u8 \<Rightarrow> nat \<Rightarrow> ('b, 'v) gen \<Rightarrow> ('b, 'v) gen option" where
  "chain_case L I i w cond_reg k cg = do {
     zv \<leftarrow> case_const L I i w k;
     (case_reg, cg1) \<leftarrow> cg_fresh_const (ucast zv) cg;
     (tmp, cg2) \<leftarrow> cg_alloc_reg cg1;
     Some (emit_branch (op_value CVM_OP_BNE) tmp (LLVMGetSuccessor I i k)
       (cg_emit (enc_r (op_value CVM_OP_CMP_EQ) tmp cond_reg case_reg) cg2))
   }"

text \<open>The moves of all successors, then the dispatch by a table or by a chain of comparisons.\<close>

definition scalar_switch :: "('v, 't, 'b) llvm \<Rightarrow> ('v, 'b) llvm_inst \<Rightarrow> 'b \<Rightarrow> 'v \<Rightarrow> ('b, 'v) gen \<Rightarrow> ('b, 'v) gen option" where
  "scalar_switch L I bb i cg =
     (let cond_v = LLVMGetOperand L i 0; w = scalar_width L (LLVMTypeOf L cond_v); n_succ = LLVMGetNumSuccessors I i;
          default_bb = LLVMGetSwitchDefaultDest I i in do {
        (cond_reg, cg1) \<leftarrow> cg_reg_for L cond_v cg;
        cg2 \<leftarrow> cg_emit_phi_moves L bb default_bb cg1;
        cg3 \<leftarrow> fold_opt (\<lambda>k. cg_emit_phi_moves L bb (LLVMGetSuccessor I i k)) [1..<n_succ] cg2;
        case switch_table L I i w n_succ of
          Some (lo, n_range) \<Rightarrow> do {
            ts \<leftarrow> switch_targets L I i w n_succ lo n_range;
            emit_table L I i cond_reg lo ts cg3
          }
        | None \<Rightarrow> do {
            cg4 \<leftarrow> fold_opt (\<lambda>k c. chain_case L I i w cond_reg k (c\<lparr>cg_next_reg := cg_next_reg cg3\<rparr>)) [1..<n_succ] cg3;
            Some (emit_jump default_bb (cg4\<lparr>cg_next_reg := cg_next_reg cg3\<rparr>))
          }
      })"

section \<open>The switch on the opcode\<close>

text \<open>The case of an opcode, given whether the result is spilled. The remaining cases of the source (calls, \<open>invoke\<close>,
  exception pads) have none here.\<close>

definition scalar_case ::
  "('v, 't, 'b) llvm \<Rightarrow> ('v, 'b) llvm_inst \<Rightarrow> 'b \<Rightarrow> bool \<Rightarrow> LLVMOpcode \<Rightarrow> 'v \<Rightarrow> (('b, 'v) gen \<Rightarrow> ('b, 'v) gen option) option" where
  "scalar_case L I bb result_spilled op i =
     (if op = LLVMPHI \<or> op = LLVMFence then Some Some
      else if op \<in> binop_opcodes then Some (scalar_binop L op i)
      else if op = LLVMICmp then Some (scalar_icmp L I i)
      else if op \<in> {LLVMFAdd, LLVMFSub, LLVMFMul, LLVMFDiv} then Some (scalar_fbinop L op i)
      else if op = LLVMFNeg then Some (scalar_fneg L i)
      else if op = LLVMFCmp then Some (scalar_fcmp L I i)
      else if op = LLVMFPTrunc then Some (scalar_fptrunc L i)
      else if op \<in> {LLVMSIToFP, LLVMUIToFP, LLVMFPToSI, LLVMFPToUI} then Some (scalar_fconv L op i)
      else if op = LLVMSelect then Some (scalar_select L i)
      else if op = LLVMBr then Some (scalar_br L I bb i)
      else if op = LLVMSwitch then Some (scalar_switch L I bb i)
      else if op = LLVMRet then Some (scalar_ret L i)
      else if op = LLVMUnreachable then Some (\<lambda>cg. Some (scalar_unreachable cg))
      else if op = LLVMExtractValue then Some (scalar_extract_value L i)
      else if op = LLVMAlloca then Some (scalar_alloca L result_spilled i)
      else if op = LLVMLoad then Some (scalar_load L i)
      else if op = LLVMStore then Some (scalar_store L i)
      else if op = LLVMAtomicRMW then Some (scalar_rmw L i)
      else if op = LLVMAtomicCmpXchg then Some (scalar_cmpxchg L i)
      else if op \<in> {LLVMPtrToInt, LLVMIntToPtr, LLVMBitCast, LLVMFreeze} then Some (scalar_copy L op i)
      else if op = LLVMExtractElement then Some (scalar_extract_element L i)
      else if op = LLVMZExt then Some (scalar_zext L i)
      else if op = LLVMTrunc then Some (scalar_trunc L i)
      else if op = LLVMSExt then Some (scalar_sext L i)
      else if op = LLVMGetElementPtr then Some (scalar_gep L i)
      else None)"

text \<open>The index of a result that lives in a slot of the frame.\<close>

definition spilled_result :: "('v, 't, 'b) llvm \<Rightarrow> LLVMOpcode \<Rightarrow> 'v \<Rightarrow> ('b, 'v) gen \<Rightarrow> (nat \<times> u16) option option" where
  "spilled_result L op i cg = do {
     ix \<leftarrow> cg_lookup L cg i;
     case ix of None \<Rightarrow> Some None
     | Some idx \<Rightarrow> do {
         slot \<leftarrow> at (cg_val_slot cg) idx;
         Some (if op \<noteq> LLVMPHI \<and> slot \<noteq> CG_NO_SLOT then Some (idx, slot) else None)
       }
   }"

text \<open>Around a case: such a result gets a scratch register, whose word is stored to the slot behind the case.\<close>

definition with_result ::
  "('v, 't, 'b) llvm \<Rightarrow> LLVMOpcode \<Rightarrow> 'v \<Rightarrow> (bool \<Rightarrow> ('b, 'v) gen \<Rightarrow> ('b, 'v) gen option) \<Rightarrow> ('b, 'v) gen \<Rightarrow> ('b, 'v) gen option" where
  "with_result L op i handler cg =
     Option.bind (spilled_result L op i cg) (\<lambda>r. case r of
        None \<Rightarrow> handler False cg
      | Some (idx, slot) \<Rightarrow> do {
          (def_reg, cg1) \<leftarrow> cg_alloc_reg cg;
          cg2 \<leftarrow> handler True (cg1\<lparr>cg_regs := (cg_regs cg1)[idx := def_reg]\<rparr>);
          let cg3 = cg_stw_sp_off (cg_val_slot_off cg2 slot) def_reg cg2;
          Some (cg3\<lparr>cg_regs := (cg_regs cg3)[idx := CG_REG_SPILLED]\<rparr>)
        })"

definition scalar_instruction ::
  "('v, 't, 'b) llvm \<Rightarrow> ('v, 'b) llvm_inst \<Rightarrow> 'b \<Rightarrow> 'v \<Rightarrow> ('b, 'v) gen \<Rightarrow> ('b, 'v) gen option option" where
  "scalar_instruction L I bb i cg =
     (let op = LLVMGetInstructionOpcode L i in
      case scalar_case L I bb False op i of None \<Rightarrow> None
      | Some _ \<Rightarrow> Some (with_result L op i (\<lambda>sp. the (scalar_case L I bb sp op i)) (cg\<lparr>cg_next_reg := cg_ssa_reg_high cg\<rparr>)))"

end
