(* ===== verification/Narrow.thy ===== *)
theory Narrow
  imports Scalar Wide_Theorems
begin

text \<open>
  Integer operations of a width up to 32 bits and the machine's 32-bit operations: on words that agree with
  the operands on their low bits, the machine's result agrees with the narrow one on the low bits, if the
  operands are brought to their width where the translator does so.
\<close>

section \<open>The operations of the input language\<close>

text \<open>The operands are the values in \<open>0..<2 ^ w\<close>; results are up to multiples of \<open>2 ^ w\<close>.\<close>

definition signed_of :: "nat \<Rightarrow> int \<Rightarrow> int" where "signed_of w a = signed_take_bit (w - 1) a"

fun narrow_op :: "LLVMOpcode \<Rightarrow> nat \<Rightarrow> int \<Rightarrow> int \<Rightarrow> int" where
  "narrow_op LLVMAdd w a b = a + b"
| "narrow_op LLVMSub w a b = a - b"
| "narrow_op LLVMMul w a b = a * b"
| "narrow_op LLVMAnd w a b = a AND b"
| "narrow_op LLVMOr w a b = a OR b"
| "narrow_op LLVMXor w a b = a XOR b"
| "narrow_op LLVMShl w a b = a * 2 ^ nat b"
| "narrow_op LLVMLShr w a b = a div 2 ^ nat b"
| "narrow_op LLVMAShr w a b = signed_of w a div 2 ^ nat b"
| "narrow_op LLVMUDiv w a b = a div b"
| "narrow_op LLVMURem w a b = a mod b"
| "narrow_op LLVMSDiv w a b = signed_of w a sdiv signed_of w b"
| "narrow_op LLVMSRem w a b = signed_of w a smod signed_of w b"
| "narrow_op _ w a b = 0"

text \<open>Where the result is defined: no division by 0, no overflow of a signed division, no shift by the width or
  more. The translator does not clear the high bits of a shift count, of which the machine takes five.\<close>

definition op_defined :: "LLVMOpcode \<Rightarrow> nat \<Rightarrow> int \<Rightarrow> int \<Rightarrow> bool" where
  "op_defined op w a b \<longleftrightarrow>
     (op \<in> {LLVMUDiv, LLVMURem, LLVMSDiv, LLVMSRem} \<longrightarrow> b \<noteq> 0)
     \<and> (op \<in> {LLVMSDiv, LLVMSRem} \<longrightarrow> \<not> (signed_of w a = - (2 ^ (w - 1)) \<and> signed_of w b = - 1))
     \<and> (op \<in> {LLVMShl, LLVMLShr, LLVMAShr} \<longrightarrow> b < int w \<and> 5 \<le> w)"

fun icmp_holds :: "LLVMIntPredicate \<Rightarrow> nat \<Rightarrow> int \<Rightarrow> int \<Rightarrow> bool" where
  "icmp_holds LLVMIntEQ w a b \<longleftrightarrow> a = b"
| "icmp_holds LLVMIntNE w a b \<longleftrightarrow> a \<noteq> b"
| "icmp_holds LLVMIntUGT w a b \<longleftrightarrow> a > b"
| "icmp_holds LLVMIntUGE w a b \<longleftrightarrow> a \<ge> b"
| "icmp_holds LLVMIntULT w a b \<longleftrightarrow> a < b"
| "icmp_holds LLVMIntULE w a b \<longleftrightarrow> a \<le> b"
| "icmp_holds LLVMIntSGT w a b \<longleftrightarrow> signed_of w a > signed_of w b"
| "icmp_holds LLVMIntSGE w a b \<longleftrightarrow> signed_of w a \<ge> signed_of w b"
| "icmp_holds LLVMIntSLT w a b \<longleftrightarrow> signed_of w a < signed_of w b"
| "icmp_holds LLVMIntSLE w a b \<longleftrightarrow> signed_of w a \<le> signed_of w b"
| "icmp_holds (LLVMIntOther k) w a b \<longleftrightarrow> False"

section \<open>Words brought to a width\<close>

definition normed :: "nat \<Rightarrow> bool \<Rightarrow> u32 \<Rightarrow> u32" where
  "normed w sg x = (if w \<ge> 32 then x else if sg then signed_take_bit (w - 1) x else take_bit w x)"

text \<open>The value in \<open>0..<2 ^ w\<close> a word stands for.\<close>

definition low :: "nat \<Rightarrow> u32 \<Rightarrow> int" where "low w x = take_bit w (uint x)"

lemma low_range: "0 \<le> low w x" "low w x < 2 ^ w"
  by (simp_all add: low_def)

lemma low_word: "w \<le> 32 \<Longrightarrow> low w (word_of_int k) = take_bit w k"
  by (simp add: low_def unsigned_of_int min_def)

lemma low_sint: "w \<le> 32 \<Longrightarrow> low w x = take_bit w (sint x)"
  by (simp add: low_def sint_uint take_bit_signed_take_bit)

lemma low_whole: "low 32 x = uint x"
  using uint_lt2p [of x] by (simp add: low_def take_bit_int_eq_self)

lemma uint_normed: "w \<le> 32 \<Longrightarrow> uint (normed w False x) = low w x"
proof (cases "w = 32")
  case False
  then show "w \<le> 32 \<Longrightarrow> uint (normed w False x) = low w x" by (simp add: normed_def low_def unsigned_take_bit_eq)
qed (simp add: normed_def low_whole)

lemma sint_normed:
  assumes "1 \<le> w" "w \<le> 32"
  shows "sint (normed w True x) = signed_of w (low w x)"
proof (cases "w = 32")
  case True
  then show ?thesis by (simp add: normed_def low_whole signed_of_def sint_uint)
next
  case False
  let ?k = "signed_take_bit (w - 1) (uint x)"
  have "signed_take_bit (w - 1) x = word_of_int ?k"
    using assms False by (intro bit_word_eqI) (auto simp: bit_simps min_def)
  then have "sint (signed_take_bit (w - 1) x) = signed_take_bit 31 ?k" by (simp add: signed_of_int)
  also have "\<dots> = ?k"
  proof -
    have "\<not> 31 \<le> w - 1" using assms False by linarith
    then show ?thesis by (simp add: signed_take_bit_signed_take_bit min_def)
  qed
  also have "\<dots> = signed_take_bit (w - 1) (take_bit w (uint x))"
  proof -
    have "\<not> w \<le> w - 1" using assms by linarith
    then show ?thesis by (simp add: signed_take_bit_take_bit)
  qed
  finally show ?thesis using assms False by (simp add: normed_def signed_of_def low_def)
qed

section \<open>The machine's operations\<close>

fun alu :: "LLVMOpcode \<Rightarrow> u32 \<Rightarrow> u32 \<Rightarrow> u32" where
  "alu LLVMAdd x y = x + y"
| "alu LLVMSub x y = x - y"
| "alu LLVMMul x y = x * y"
| "alu LLVMAnd x y = x AND y"
| "alu LLVMOr x y = x OR y"
| "alu LLVMXor x y = x XOR y"
| "alu LLVMShl x y = push_bit (unat (y AND 31)) x"
| "alu LLVMLShr x y = drop_bit (unat (y AND 31)) x"
| "alu LLVMAShr x y = signed_drop_bit (unat (y AND 31)) x"
| "alu LLVMUDiv x y = x div y"
| "alu LLVMURem x y = x mod y"
| "alu LLVMSDiv x y = word_of_int (sint x sdiv sint y)"
| "alu LLVMSRem x y = word_of_int (sint x smod sint y)"
| "alu _ x y = 0"

definition alu_ok :: "LLVMOpcode \<Rightarrow> u32 \<Rightarrow> u32 \<Rightarrow> bool" where
  "alu_ok op x y \<longleftrightarrow> (op \<in> {LLVMUDiv, LLVMURem, LLVMSDiv, LLVMSRem} \<longrightarrow> y \<noteq> 0)
     \<and> (op \<in> {LLVMSDiv, LLVMSRem} \<longrightarrow> \<not> (x = 0x80000000 \<and> y = - 1))"

lemma run_binop:
  assumes "op \<in> binop_opcodes" "alu_ok op (R s l) (R s r)"
  shows "run cx [enc_r (binop_cv op) d l r] s = Running (set_R s d (alu op (R s l) (R s r)))"
  using assms sdiv_i32 [of "R s l" "R s r"] unfolding binop_opcodes_def
  by (elim insertE emptyE)
    (auto simp: alu_ok_def run.simps(2) run1_def jt_label run_labels Let_def)

text \<open>The word the translator hands the machine for an operand: brought to its width or as it is.\<close>

definition div_opcodes :: "LLVMOpcode set" where "div_opcodes = {LLVMUDiv, LLVMURem, LLVMSDiv, LLVMSRem}"

definition prep_left :: "LLVMOpcode \<Rightarrow> nat \<Rightarrow> u32 \<Rightarrow> u32" where
  "prep_left op w x = (if op \<in> div_opcodes \<union> {LLVMLShr, LLVMAShr} then normed w (op \<in> {LLVMAShr, LLVMSDiv, LLVMSRem}) x else x)"

definition prep_right :: "LLVMOpcode \<Rightarrow> nat \<Rightarrow> u32 \<Rightarrow> u32" where
  "prep_right op w y = (if op \<in> div_opcodes then normed w (op \<in> {LLVMSDiv, LLVMSRem}) y else y)"

text \<open>The shift count.\<close>

lemma count_low:
  assumes "low w y < int w" "5 \<le> w" "w \<le> 32"
  shows "unat (y AND 31) = nat (low w y)"
proof -
  have m: "(31 :: u32) = mask 5" by (simp add: mask_eq_exp_minus_1)
  have "uint (y AND 31) = take_bit 5 (uint y)" unfolding m by (simp add: take_bit_eq_mask [symmetric] unsigned_take_bit_eq)
  also have "\<dots> = take_bit 5 (low w y)" using assms(2) by (simp add: low_def min_def)
  also have "\<dots> = low w y" using assms(1,3) low_range(1) [of w y] by (intro take_bit_int_eq_self) simp_all
  finally show ?thesis by (simp add: unat_eq_nat_uint)
qed

lemma low_ops:
  assumes "w \<le> 32"
  shows "low w (x + y) = take_bit w (low w x + low w y)" "low w (x - y) = take_bit w (low w x - low w y)"
    "low w (x * y) = take_bit w (low w x * low w y)" "low w (x AND y) = low w x AND low w y"
    "low w (x OR y) = low w x OR low w y" "low w (x XOR y) = low w x XOR low w y"
    "low w (push_bit n x) = take_bit w (low w x * 2 ^ n)"
proof -
  have w: "take_bit w (take_bit 32 k) = take_bit w k" for k :: int using assms by (simp add: min_def)
  have c: "x = word_of_int (uint x)" "y = word_of_int (uint y)" by simp_all
  show "low w (x + y) = take_bit w (low w x + low w y)"
    using low_word [OF assms, of "uint x + uint y"] by (simp add: low_def take_bit_add)
  show "low w (x - y) = take_bit w (low w x - low w y)"
    using low_word [OF assms, of "uint x - uint y"] by (simp add: low_def take_bit_diff)
  show "low w (x * y) = take_bit w (low w x * low w y)"
    using low_word [OF assms, of "uint x * uint y"] by (simp add: low_def take_bit_mult)
  show "low w (x AND y) = low w x AND low w y" by (simp add: low_def unsigned_and_eq)
  show "low w (x OR y) = low w x OR low w y" by (simp add: low_def unsigned_or_eq)
  show "low w (x XOR y) = low w x XOR low w y" by (simp add: low_def unsigned_xor_eq)
  have "push_bit n x = word_of_int (uint x * 2 ^ n)" by (simp add: push_bit_eq_mult)
  then show "low w (push_bit n x) = take_bit w (low w x * 2 ^ n)"
    using low_word [OF assms, of "uint x * 2 ^ n"] by (simp add: low_def take_bit_mult [of w "uint x" "2 ^ n", symmetric] mod_mult_left_eq take_bit_eq_mod)
qed

lemma low_small: "0 \<le> k \<Longrightarrow> k < 2 ^ w \<Longrightarrow> take_bit w k = (k :: int)"
  by (rule take_bit_int_eq_self)

lemma low_of_uint: "low w x = take_bit w (uint x)" by (rule low_def)

lemma signed_range: "1 \<le> w \<Longrightarrow> - (2 ^ (w - 1)) \<le> signed_of w a \<and> signed_of w a < 2 ^ (w - 1)"
  unfolding signed_of_def using signed_take_bit_int_less_exp [of "w - 1" a] signed_take_bit_int_greater_eq_minus_exp [of "w - 1" a] by simp

lemma signed_zero: "1 \<le> w \<Longrightarrow> signed_of w (low w x) = 0 \<longleftrightarrow> low w x = 0"
proof -
  assume w: "1 \<le> w"
  have "take_bit w (signed_of w (low w x)) = low w x"
    using w by (simp add: signed_of_def take_bit_signed_take_bit low_def)
  then show ?thesis by (auto simp: signed_of_def)
qed

text \<open>What the machine gets is fit for its operation.\<close>

lemma prepared_ok:
  assumes "1 \<le> w" "w \<le> 32" "op_defined op w (low w x) (low w y)"
  shows "alu_ok op (prep_left op w x) (prep_right op w y)"
  unfolding alu_ok_def
proof (intro conjI impI)
  assume op: "op \<in> {LLVMUDiv, LLVMURem, LLVMSDiv, LLVMSRem}"
  then have z: "low w y \<noteq> 0" using assms(3) by (simp add: op_defined_def)
  then have "uint (normed w False y) \<noteq> 0" "sint (normed w True y) \<noteq> 0"
    using uint_normed [OF assms(2), of y] sint_normed [OF assms(1,2), of y] signed_zero [OF assms(1), of y] by simp_all
  then have "normed w False y \<noteq> 0" "normed w True y \<noteq> 0" by auto
  then show "prep_right op w y \<noteq> 0" using op by (auto simp: prep_right_def div_opcodes_def)
next
  assume op: "op \<in> {LLVMSDiv, LLVMSRem}"
  then have d: "\<not> (signed_of w (low w x) = - (2 ^ (w - 1)) \<and> signed_of w (low w y) = - 1)" using assms(3) by (simp add: op_defined_def)
  have p: "prep_left op w x = normed w True x" "prep_right op w y = normed w True y"
    using op by (auto simp: prep_left_def prep_right_def div_opcodes_def)
  show "\<not> (prep_left op w x = 0x80000000 \<and> prep_right op w y = - 1)"
  proof
    assume "prep_left op w x = 0x80000000 \<and> prep_right op w y = - 1"
    then have s: "sint (normed w True x) = - (2 ^ 31)" "sint (normed w True y) = - 1" unfolding p by simp_all
    then have "- (2 ^ (w - 1)) \<le> - (2 ^ 31 :: int)" using signed_range [OF assms(1), of "low w x"] sint_normed [OF assms(1,2)] by simp
    then have "(2 :: int) ^ 31 \<le> 2 ^ (w - 1)" by simp
    then have "31 \<le> w - 1" using power_le_imp_le_exp [of "2 :: int" 31 "w - 1"] by simp
    then have "w = 32" using assms(2) by simp
    then show False using d s sint_normed [OF assms(1,2)] by simp
  qed
qed

lemma binop_word:
  assumes "op \<in> binop_opcodes" "1 \<le> w" "w \<le> 32" "op_defined op w (low w x) (low w y)"
  shows "low w (alu op (prep_left op w x) (prep_right op w y)) = take_bit w (narrow_op op w (low w x) (low w y))"
proof -
  note L = low_ops [OF assms(3)]
  note U = uint_normed [OF assms(3)]
  note S = sint_normed [OF assms(2,3)]
  have t: "take_bit w (low w z) = low w z" for z by (simp add: low_def)
  have cnt: "op \<in> {LLVMShl, LLVMLShr, LLVMAShr} \<Longrightarrow> unat (y AND 31) = nat (low w y)"
    using count_low [OF _ _ assms(3)] assms(4) by (auto simp: op_defined_def)
  from assms(1) consider (wrap) "op \<in> {LLVMAdd, LLVMSub, LLVMMul}" | (bits) "op \<in> {LLVMAnd, LLVMOr, LLVMXor}" | (shl) "op = LLVMShl"
    | (lshr) "op = LLVMLShr" | (ashr) "op = LLVMAShr" | (udiv) "op = LLVMUDiv" | (urem) "op = LLVMURem" | (sdiv) "op = LLVMSDiv" | (srem) "op = LLVMSRem"
    by (auto simp: binop_opcodes_def)
  then show ?thesis
  proof cases
    case wrap
    then show ?thesis by (auto simp: prep_left_def prep_right_def div_opcodes_def L)
  next
    case bits
    then show ?thesis by (auto simp: prep_left_def prep_right_def div_opcodes_def L t)
  next
    case shl
    then show ?thesis using cnt by (simp add: prep_left_def prep_right_def div_opcodes_def L)
  next
    case lshr
    have "uint (drop_bit k v) = drop_bit k (uint v)" for k and v :: u32 by (rule bit_eqI) (auto simp: bit_simps dest: bit_imp_le_length)
    then have "uint (drop_bit k (normed w False x)) = low w x div 2 ^ k" for k by (simp only: U) (simp add: drop_bit_eq_div)
    then show ?thesis using lshr cnt by (simp add: prep_left_def prep_right_def div_opcodes_def low_of_uint)
  next
    case ashr
    have "sint (signed_drop_bit k (normed w True x)) = signed_of w (low w x) div 2 ^ k" for k
      by (simp add: sint_signed_drop_bit_eq drop_bit_eq_div S)
    then show ?thesis using ashr cnt by (simp add: prep_left_def prep_right_def div_opcodes_def low_sint [OF assms(3)])
  next
    case udiv
    have "uint (normed w False x div normed w False y) = low w x div low w y" by (simp add: uint_div_distrib U)
    then show ?thesis using udiv by (simp add: prep_left_def prep_right_def div_opcodes_def low_of_uint)
  next
    case urem
    have "uint (normed w False x mod normed w False y) = low w x mod low w y" by (simp add: uint_mod_distrib U)
    then show ?thesis using urem by (simp add: prep_left_def prep_right_def div_opcodes_def low_of_uint)
  next
    case sdiv
    then show ?thesis by (simp add: prep_left_def prep_right_def div_opcodes_def low_word [OF assms(3)] S)
  next
    case srem
    then show ?thesis by (simp add: prep_left_def prep_right_def div_opcodes_def low_word [OF assms(3)] S)
  qed
qed

section \<open>Comparisons\<close>

lemma run_icmp:
  assumes "1 \<le> w" "w \<le> 32" "icmp_to_op p = Some (op2, swap)"
    "R s l = normed w (signed_predicate p) x" "R s r = normed w (signed_predicate p) y"
  shows "run cx [if swap then enc_r op2 d r l else enc_r op2 d l r] s = Running (set_R s d (bool32 (icmp_holds p w (low w x) (low w y))))"
proof -
  have U: "normed w False x = normed w False y \<longleftrightarrow> low w x = low w y" "normed w False x < normed w False y \<longleftrightarrow> low w x < low w y"
    "normed w False x \<le> normed w False y \<longleftrightarrow> low w x \<le> low w y" for x y
    by (simp_all add: word_uint_eq_iff word_less_def word_le_def uint_normed [OF assms(2)])
  show ?thesis
    using assms(3-5) by (cases p) (auto simp: signed_predicate_def U sint_normed [OF assms(1,2)])
qed

end
