(* ===== verification/Scalar_Correct.thy ===== *)
theory Scalar_Correct
  imports Narrow
begin

text \<open>
  The code emitted for word instructions, on the machine: the word it leaves for the result agrees with the
  meaning of the instruction on the low bits that its type has, even when the operands' words have other bits
  above these.
\<close>

section \<open>Words of values\<close>

text \<open>The word of an operand: a slot, a register, or a constant that is no constant expression.\<close>

definition word_const :: "('v, 't, 'b) llvm \<Rightarrow> ('b, 'v) gen \<Rightarrow> 'v \<Rightarrow> u32 option" where
  "word_const L cg v =
     (if LLVMIsAConstantInt L v then
        let imm = (if LLVMGetIntTypeWidth L (LLVMTypeOf L v) = 1 then LLVMConstIntGetZExtValue L v
          else LLVMConstIntGetSExtValue L v) in
        if in_i32_range imm then Some (ucast imm) else None
      else if LLVMIsAConstantPointerNull L v then Some 0
      else if LLVMIsAConstantFP L v then
        (if LLVMGetTypeKind L (LLVMTypeOf L v) = LLVMFloatTypeKind then Some (v_real_float_bits L v) else None)
      else if LLVMIsUndef L v then Some 0
      else if LLVMIsAGlobalVariable L v then map_option (\<lambda>k. gl_offset (cg_globals cg ! k)) (cg_globals_lookup cg v)
      else None)"

datatype place = In_slot u32 | In_reg u8 | Is_const u32

definition place_of :: "('v, 't, 'b) llvm \<Rightarrow> ('b, 'v) gen \<Rightarrow> 'v \<Rightarrow> place option" where
  "place_of L cg v =
     (if LLVMIsAGlobalAlias L v then None
      else case cg_lookup L cg v of
        None \<Rightarrow> None
      | Some None \<Rightarrow> map_option Is_const (word_const L cg v)
      | Some (Some idx) \<Rightarrow> (case at (cg_val_slot cg) idx of
          None \<Rightarrow> None
        | Some slot \<Rightarrow> if slot \<noteq> CG_NO_SLOT then Some (In_slot (cg_val_slot_off cg slot))
            else map_option In_reg (at (cg_regs cg) idx)))"

fun place_val :: "'h vm \<Rightarrow> place \<Rightarrow> u32" where
  "place_val s (In_slot off) = slot_val s off"
| "place_val s (In_reg r) = R s r"
| "place_val s (Is_const w) = w"

definition word_of :: "('v, 't, 'b) llvm \<Rightarrow> ('b, 'v) gen \<Rightarrow> 'h vm \<Rightarrow> 'v \<Rightarrow> u32 option" where
  "word_of L cg s v = map_option (place_val s) (place_of L cg v)"

text \<open>Registers of the table are below the scratch registers; slots of the frame are in memory.\<close>

definition regs_ok :: "('b, 'v) gen \<Rightarrow> bool" where
  "regs_ok cg \<longleftrightarrow> gen_ok cg \<and> (\<forall>r \<in> set (cg_regs cg). opreg (cg_next_reg cg) r)"

definition frame_ok :: "'h ctx \<Rightarrow> ('b, 'v) gen \<Rightarrow> 'h vm \<Rightarrow> bool" where
  "frame_ok cx cg s \<longleftrightarrow> vm_ok cx s \<and> R s CG_REG_ZERO = 0
     \<and> (\<forall>slot \<in> set (cg_val_slot cg). slot \<noteq> CG_NO_SLOT \<longrightarrow> in_frame cx s (cg_val_slot_off cg slot))"

lemma at_set: "at xs i = Some x \<Longrightarrow> x \<in> set xs"
  by (auto simp: at_def split: if_splits)

lemma emitted_tables:
  assumes "emitted cg cg' ws"
  shows "cg_regs cg' = cg_regs cg" "cg_val_slot cg' = cg_val_slot cg" "word_const L cg' = word_const L cg"
    "place_of L cg' = place_of L cg" "frame_ok cx cg' s = frame_ok cx cg s"
    "reg_of L cg' = reg_of L cg" "regs_ok cg \<Longrightarrow> regs_ok cg'"
    "word_of L cg' = (word_of L cg :: 'h vm \<Rightarrow> 'v \<Rightarrow> u32 option)"
proof -
  have e: "cg' = (emit_all ws cg)\<lparr>cg_next_reg := cg_next_reg cg'\<rparr>" using assms by (simp add: emitted_def)
  note E = emittedD [OF assms]
  show r: "cg_regs cg' = cg_regs cg" and v: "cg_val_slot cg' = cg_val_slot cg" by (subst e, simp add: emit_all_def)+
  have g: "cg_globals cg' = cg_globals cg" by (subst e, simp add: emit_all_def)
  show c: "word_const L cg' = word_const L cg" by (rule ext) (simp add: word_const_def g cg_globals_lookup_def)
  show p: "place_of L cg' = place_of L cg" by (intro ext) (simp only: place_of_def c v r E(6,7))
  show "word_of L cg' = (word_of L cg :: 'h vm \<Rightarrow> 'v \<Rightarrow> u32 option)" by (intro ext) (simp only: word_of_def p)
  show "frame_ok cx cg' s = frame_ok cx cg s" by (simp add: frame_ok_def v E(6))
  show "reg_of L cg' = reg_of L cg" by (rule ext) (simp add: reg_of_def r E(7))
  show "regs_ok cg'" if "regs_ok cg" using that E(2,3) by (auto simp: regs_ok_def r intro: opreg_mono)
qed

lemma same_but_words:
  assumes "same_but n s s'" "regs_ok cg" "cg_next_reg cg \<le> n"
  shows "word_of L cg s' v = word_of L cg s v" "frame_ok cx cg s' = frame_ok cx cg s"
proof -
  have r: "R s' r = R s r" if "r \<in> set (cg_regs cg)" for r
    using same_butD(1) [OF assms(1)] opreg_not_scratch opreg_mono assms(2,3) that unfolding regs_ok_def by metis
  then have "place_val s' p = place_val s p" if "place_of L cg v = Some p" for p
    using that by (auto simp: place_of_def at_def same_butD(5) [OF assms(1)] split: if_splits option.splits)
  then show "word_of L cg s' v = word_of L cg s v" by (cases "place_of L cg v") (simp_all add: word_of_def)
  show "frame_ok cx cg s' = frame_ok cx cg s"
    using same_butD(1) [OF assms(1)] sp_not_scratch by (simp add: frame_ok_def same_butD [OF assms(1)])
qed

section \<open>Operands\<close>

definition evals :: "('b, 'v) gen \<Rightarrow> nat \<Rightarrow> u32 list \<Rightarrow> ('h vm \<Rightarrow> 'h vm \<Rightarrow> bool) \<Rightarrow> bool" where
  "evals cg n ws P \<longleftrightarrow> (\<forall>(cx :: 'h ctx) s. frame_ok cx cg s \<longrightarrow> (\<exists>s'. run cx ws s = Running s' \<and> same_but n s s' \<and> P s s'))"

lemma evals_seq:
  assumes "evals cg n ws P" "emitted cg cg1 ws" "regs_ok cg" "evals cg1 (cg_next_reg cg1) vs Q" "n = cg_next_reg cg"
    "\<And>s s1 s2. P s s1 \<Longrightarrow> Q s1 s2 \<Longrightarrow> same_but n s s1 \<Longrightarrow> same_but (cg_next_reg cg1) s1 s2 \<Longrightarrow> T s s2"
  shows "evals cg n (ws @ vs) T"
  unfolding evals_def
proof (intro allI impI)
  fix cx :: "'c ctx" and s :: "'c vm" assume ok: "frame_ok cx cg s"
  obtain s1 where s1: "run cx ws s = Running s1" "same_but n s s1" "P s s1" using assms(1) ok by (auto simp: evals_def)
  have "frame_ok cx cg1 s1" using ok assms(5) by (simp add: same_but_words(2) [OF s1(2) assms(3)] emitted_tables(5) [OF assms(2)])
  then obtain s2 where s2: "run cx vs s1 = Running s2" "same_but (cg_next_reg cg1) s1 s2" "Q s1 s2"
    using assms(4) by (auto simp: evals_def)
  then show "\<exists>s'. run cx (ws @ vs) s = Running s' \<and> same_but n s s' \<and> T s s'"
    using s1 assms(5,6) emittedD(2) [OF assms(2)] by (auto simp: run_append intro: same_but_trans)
qed

lemma fresh_const_evals:
  assumes "gen_ok cg" "cg_fresh_const w cg = Some (r, cg')"
  shows "emitted cg cg' (const_code r w)" "opreg (cg_next_reg cg') r" "evals cg (cg_next_reg cg) (const_code r w) (\<lambda>(s :: 'h vm) s'. R s' r = w)"
proof -
  note A = read_const [OF assms]
  show "emitted cg cg' (const_code r w)" "opreg (cg_next_reg cg') r" by (rule A(1), rule A(3))
  have "run cx (const_code r w) s = Running (set_R s r w)" for cx and s :: "'h vm" using A(5) [of cx "[]" s] by simp
  moreover have "same_but (cg_next_reg cg) s (set_R s r w)" for s :: "'h vm"
    by (intro same_but_set same_but_refl) (use A(2,4) in \<open>auto simp: scratch_def\<close>)
  ultimately show "evals cg (cg_next_reg cg) (const_code r w) (\<lambda>(s :: 'h vm) s'. R s' r = w)" by (simp add: evals_def)
qed

lemma no_code_evals:
  assumes "\<And>s :: 'h vm. R s CG_REG_ZERO = 0 \<Longrightarrow> P s s"
  shows "evals cg n [] P"
  using assms by (auto simp: evals_def frame_ok_def same_but_refl)

lemma reg_for_evals:
  assumes "regs_ok cg" "cg_reg_for L v cg = Some (r, cg')" "place_of L cg v \<noteq> None"
  obtains ws where "emitted cg cg' ws" "opreg (cg_next_reg cg') r"
    "evals cg (cg_next_reg cg) ws (\<lambda>(s :: 'h vm) s'. word_of L cg s v = Some (R s' r))"
proof -
  have ok: "gen_ok cg" using assms(1) by (simp add: regs_ok_def)
  have al: "\<not> LLVMIsAGlobalAlias L v" using assms(3) by (auto simp: word_of_def place_of_def)
  obtain ix where ix: "cg_lookup L cg v = Some ix" using assms(3) al by (cases "cg_lookup L cg v") (auto simp: word_of_def place_of_def)
  note D = assms(2) [unfolded cg_reg_for.simps [of L v] ix if_not_P [OF al] Option.bind.simps]
  show ?thesis
  proof (cases ix)
    case None
    have w: "word_of L cg s v = word_const L cg v" for s :: "'h vm"
      using al ix None by (cases "word_const L cg v") (simp_all add: word_of_def place_of_def)
    obtain x where x: "word_const L cg v = Some x" using assms(3) al ix None by (auto simp: place_of_def)
    consider (const) "cg_fresh_const x cg = Some (r, cg')" | (undef) "r = CG_REG_ZERO" "cg' = cg" "x = 0"
    proof -
      have z: "cg_fresh_const 0 cg = Option.bind (cg_alloc_reg cg) (\<lambda>(r, cg1). Some (r, cg_emit (enc_i16 (op_value CVM_OP_MOVI) r 0) cg1))"
        by (cases "cg_alloc_reg cg") (simp_all add: cg_fresh_const_def cg_emit_load_const32_def fits_i16_def case_prod_beta)
      show ?thesis using D x that ok unfolding None word_const_def z [symmetric]
        by (auto simp: Let_def gen_ok_def split: if_splits option.splits)
    qed
    then show ?thesis
    proof cases
      case const
      note A = fresh_const_evals [OF ok const]
      have "evals cg (cg_next_reg cg) (const_code r x) (\<lambda>(s :: 'h vm) s'. word_of L cg s v = Some (R s' r))"
        using A(3) [where ?'h = 'h] unfolding evals_def w x by auto
      then show ?thesis using that A(1,2) by blast
    next
      case undef
      have "evals cg (cg_next_reg cg) [] (\<lambda>(s :: 'h vm) s'. word_of L cg s v = Some (R s' r))"
        by (rule no_code_evals) (simp add: w x undef)
      moreover have "opreg (cg_next_reg cg') r" by (simp add: undef opreg_def)
      ultimately show ?thesis using that emitted_refl [OF ok] undef(2) by blast
    qed
  next
    case (Some idx)
    obtain slot where slot: "at (cg_val_slot cg) idx = Some slot" using assms(3) al ix Some by (cases "at (cg_val_slot cg) idx") (auto simp: word_of_def place_of_def)
    show ?thesis
    proof (cases "slot = CG_NO_SLOT")
      case True
      then have r: "at (cg_regs cg) idx = Some r" "cg' = cg" using D Some slot by auto
      then have "opreg (cg_next_reg cg') r" using assms(1) at_set [OF r(1)] by (simp add: regs_ok_def)
      moreover have "evals cg (cg_next_reg cg) [] (\<lambda>(s :: 'h vm) s'. word_of L cg s v = Some (R s' r))"
        by (rule no_code_evals) (simp add: word_of_def place_of_def al ix Some slot True r)
      ultimately show ?thesis using that emitted_refl [OF ok] r(2) by blast
    next
      case False
      let ?off = "cg_val_slot_off cg slot"
      obtain cg1 where c: "cg_alloc_reg cg = Some (r, cg1)" "cg' = cg_ldw_sp_off r (cg_val_slot_off cg1 (the (at (cg_val_slot cg1) idx))) cg1"
        using D Some slot False by (auto simp: cg_reload_spilled_def bind_eq_Some_conv)
      have off: "cg_val_slot_off cg1 (the (at (cg_val_slot cg1) idx)) = ?off"
        using alloc_emitted(1) [OF ok c(1)] slot by (simp add: emittedD(6) emitted_tables(2))
      note A = read_slot [OF ok c(1), where off = ?off, OF c(2) [unfolded off]]
      have "evals cg (cg_next_reg cg) (ldw_code r ?off) (\<lambda>(s :: 'h vm) s'. word_of L cg s v = Some (R s' r))"
        unfolding evals_def
      proof (intro allI impI)
        fix cx :: "'h ctx" and s :: "'h vm" assume "frame_ok cx cg s"
        then have f: "vm_ok cx s" "in_frame cx s ?off" using at_set [OF slot] False by (auto simp: frame_ok_def)
        have "run cx (ldw_code r ?off) s = Running (set_R (sp_scratch ?off s) r (slot_val s ?off))" using A(5) [OF f, of "[]"] by simp
        moreover have "same_but (cg_next_reg cg) s (set_R (sp_scratch ?off s) r (slot_val s ?off))"
          by (intro same_but_set same_but_refl) (use A(2,4) in \<open>auto simp: scratch_def\<close>)
        ultimately show "\<exists>s'. run cx (ldw_code r ?off) s = Running s' \<and> same_but (cg_next_reg cg) s s' \<and> word_of L cg s v = Some (R s' r)"
          using False by (simp add: word_of_def place_of_def al ix Some slot)
      qed
      then show ?thesis using that A(1,3) by blast
    qed
  qed
qed

section \<open>Operands of a width\<close>

lemma width_mask_eq: "w \<le> 32 \<Longrightarrow> width_mask w = mask w"
proof -
  assume w: "w \<le> 32"
  have "push_bit w (1 :: u64) - 1 = mask w" by (simp add: mask_eq_exp_minus_1 push_bit_eq_mult)
  then show ?thesis using w unfolding width_mask_def by (simp only:) (rule bit_word_eqI, simp add: bit_simps)
qed

lemma shift_pair:
  assumes "1 \<le> w" "w < 32"
  shows "signed_drop_bit (32 - w) (push_bit (32 - w) (x :: u32)) = signed_take_bit (w - 1) x"
proof (rule bit_word_eqI)
  fix n assume "n < LENGTH(32)"
  then show "bit (signed_drop_bit (32 - w) (push_bit (32 - w) x)) n = bit (signed_take_bit (w - 1) x) n"
    using assms by (cases "n < w - 1"; cases "n = w - 1") (auto simp: bit_simps min_def not_le not_less le_diff_conv)
qed

lemma norm_evals:
  assumes "gen_ok cg" "opreg (cg_next_reg cg) src" "1 \<le> w" "cg_norm_reg_width src w sg cg = Some (r, cg')"
  obtains ws where "emitted cg cg' ws" "opreg (cg_next_reg cg') r"
    "evals cg (cg_next_reg cg) ws (\<lambda>(s :: 'h vm) s'. R s' r = normed w sg (R s src))"
proof (cases "w \<ge> 32")
  case True
  then have c: "r = src" "cg' = cg" using assms(4) by (simp_all add: cg_norm_reg_width_def)
  have "evals cg (cg_next_reg cg) [] (\<lambda>(s :: 'h vm) s'. R s' r = normed w sg (R s src))"
    by (rule no_code_evals) (simp add: c normed_def True)
  then show ?thesis using that emitted_refl [OF assms(1)] assms(2) c by simp
next
  case False
  then have w: "w < 32" by simp
  let ?ws = "if sg then [enc_i16 (op_value CVM_OP_MOVI) CG_REG_SCRATCH (of_nat (32 - w)), enc_r (op_value CVM_OP_SHL) r src CG_REG_SCRATCH,
      enc_r (op_value CVM_OP_SAR) r r CG_REG_SCRATCH]
    else const_code CG_REG_SCRATCH (width_mask w) @ [enc_r (op_value CVM_OP_AND) r src CG_REG_SCRATCH]"
  obtain cg1 where c: "cg_alloc_reg cg = Some (r, cg1)" "cg' = emit_all ?ws cg1"
    using assms(4) w by (auto simp: cg_norm_reg_width_def emit_helpers emit_all_one width_mask_def bind_eq_Some_conv split: if_splits)
  note A = alloc_emitted [OF assms(1) c(1)]
  have st: "straight ?ws" by (simp add: straight_ops_def)
  have e: "emitted cg cg' ?ws" using emitted_trans [OF A(1) emitted_code [OF emittedD(3) [OF A(1)] st]] c(2) by simp
  have n: "cg_next_reg cg' = cg_next_reg cg1" by (simp add: c(2) emit_all_def)
  have ne: "src \<noteq> CG_REG_SCRATCH" "r \<noteq> CG_REG_SCRATCH" using opreg_fresh [OF assms(2) A(2) le_refl A(5)] by simp_all
  have amt: "unat (scast (of_nat (32 - w) :: u16) AND 31 :: u32) = 32 - w" using amount_word [of "32 - w"] assms(3) by simp
  define k :: u32 where "k = (if sg then scast (of_nat (32 - w) :: u16) else width_mask w)"
  define y :: "'h vm \<Rightarrow> u32" where "y s = (if sg then push_bit (32 - w) (R s src) else 0)" for s
  have run: "run cx ?ws s = Running (if sg then set_R (set_R (set_R s CG_REG_SCRATCH k) r (y s)) r (normed w sg (R s src))
      else set_R (set_R s CG_REG_SCRATCH k) r (normed w sg (R s src)))" for cx and s :: "'h vm"
    using ne w amt assms(3) by (simp add: k_def y_def normed_def shift_pair width_mask_eq take_bit_eq_mask)
  have "evals cg (cg_next_reg cg) ?ws (\<lambda>(s :: 'h vm) s'. R s' r = normed w sg (R s src))"
    unfolding evals_def run
  proof (intro allI impI)
    fix s :: "'h vm"
    have "same_but (cg_next_reg cg) s (set_R (set_R s CG_REG_SCRATCH k) r z)" for z
      by (intro same_but_set same_but_refl) (use A(2,5) in \<open>auto simp: scratch_def\<close>)
    then show "\<exists>s'. Running (if sg then set_R (set_R (set_R s CG_REG_SCRATCH k) r (y s)) r (normed w sg (R s src))
        else set_R (set_R s CG_REG_SCRATCH k) r (normed w sg (R s src))) = Running s'
        \<and> same_but (cg_next_reg cg) s s' \<and> R s' r = normed w sg (R s src)" by simp
  qed
  then show ?thesis using that e A(4) n by simp
qed

section \<open>Instructions\<close>

text \<open>The code of an instruction with a result: the registers change in scratch registers, and then the result's is set.\<close>

definition delivers ::
  "('v, 't, 'b) llvm \<Rightarrow> 'v \<Rightarrow> ('b, 'v) gen \<Rightarrow> ('b, 'v) gen \<Rightarrow> ('h vm \<Rightarrow> bool) \<Rightarrow> ('h vm \<Rightarrow> u32 \<Rightarrow> bool) \<Rightarrow> bool" where
  "delivers L i cg cg' Q P \<longleftrightarrow> (\<exists>ws d. emitted cg cg' ws \<and> reg_of L cg i = Some d
     \<and> (\<forall>(cx :: 'h ctx) s. frame_ok cx cg s \<and> Q s \<longrightarrow>
         (\<exists>s1 x. run cx ws s = Running (set_R s1 d x) \<and> same_but (cg_next_reg cg) s s1 \<and> P s x)))"

lemma deliversI:
  assumes "emitted cg cg1 ws" "evals cg (cg_next_reg cg) ws P'" "cg' = emit_all vs cg1" "straight vs" "reg_of L cg1 i = Some d"
    "\<And>(cx :: 'h ctx) s s1. Q s \<Longrightarrow> P' s s1 \<Longrightarrow> \<exists>s2 x. run cx vs s1 = Running (set_R s2 d x) \<and> same_but (cg_next_reg cg1) s1 s2 \<and> P s x"
  shows "delivers L i cg cg' Q P"
proof -
  have e: "emitted cg cg' (ws @ vs)" using emitted_trans [OF assms(1) emitted_code [OF emittedD(3) [OF assms(1)] assms(4)]] assms(3) by simp
  have d: "reg_of L cg i = Some d" using assms(5) emitted_tables(6) [OF assms(1), of L] by simp
  have "\<exists>s1 x. run cx (ws @ vs) s = Running (set_R s1 d x) \<and> same_but (cg_next_reg cg) s s1 \<and> P s x"
    if s: "frame_ok cx cg s" "Q s" for cx :: "'h ctx" and s
  proof -
    obtain s1 where s1: "run cx ws s = Running s1" "same_but (cg_next_reg cg) s s1" "P' s s1" using assms(2) s(1) by (auto simp: evals_def)
    obtain s2 x where "run cx vs s1 = Running (set_R s2 d x)" "same_but (cg_next_reg cg1) s1 s2" "P s x" using assms(6) [OF s(2) s1(3)] by blast
    then show ?thesis using run_append_Running [OF s1(1)] same_but_trans [OF s1(2)] emittedD(2) [OF assms(1)] by metis
  qed
  then show ?thesis unfolding delivers_def using e d by blast
qed

lemma maybe_norm_evals:
  assumes "gen_ok cg" "opreg (cg_next_reg cg) r" "1 \<le> w"
    "(if nw then cg_norm_reg_width r w sg cg else Some (r, cg)) = Some (r', cg')"
  obtains ws where "emitted cg cg' ws" "opreg (cg_next_reg cg') r'"
    "evals cg (cg_next_reg cg) ws (\<lambda>(s :: 'h vm) s'. R s' r' = (if nw then normed w sg (R s r) else R s r))"
proof (cases nw)
  case True
  then have n: "cg_norm_reg_width r w sg cg = Some (r', cg')" using assms(4) by simp
  show ?thesis by (rule norm_evals [OF assms(1-3) n, where ?'h = 'h]) (use that True in simp)
next
  case False
  then have c: "r' = r" "cg' = cg" using assms(4) by simp_all
  have "evals cg (cg_next_reg cg) [] (\<lambda>(s :: 'h vm) s'. R s' r' = (if nw then normed w sg (R s r) else R s r))"
    by (rule no_code_evals) (simp add: False c)
  then show ?thesis using that emitted_refl [OF assms(1)] assms(2) unfolding c by blast
qed

lemma keeps: "same_but n s s' \<Longrightarrow> opreg n r \<Longrightarrow> R s' r = R s r"
  using same_butD(1) opreg_not_scratch by blast

lemma emitted_next: "emitted cg cg' ws \<Longrightarrow> opreg (cg_next_reg cg) r \<Longrightarrow> opreg (cg_next_reg cg') r"
  using emittedD(2) opreg_mono by blast

lemma emitted_regs: "emitted cg cg' ws \<Longrightarrow> regs_ok cg \<Longrightarrow> regs_ok cg'" "regs_ok cg \<Longrightarrow> gen_ok cg"
  by (rule emitted_tables(7)) (simp_all add: regs_ok_def)

text \<open>An operand after some code has run.\<close>

lemma next_operand:
  assumes "regs_ok cg" "emitted cg cg1 ws" "evals cg (cg_next_reg cg) ws P" "cg_reg_for L v cg1 = Some (r, cg2)"
    "place_of L cg v \<noteq> None"
    "\<And>s s1 s2. P s s1 \<Longrightarrow> same_but (cg_next_reg cg1) s1 s2 \<Longrightarrow> P s s2"
  obtains vs where "emitted cg cg2 vs" "opreg (cg_next_reg cg2) r" "cg_next_reg cg1 \<le> cg_next_reg cg2"
    "evals cg (cg_next_reg cg) vs (\<lambda>(s :: 'h vm) s'. P s s' \<and> word_of L cg s v = Some (R s' r))"
proof -
  note w = emitted_tables(8) [OF assms(2), of L]
  obtain vs where B: "emitted cg1 cg2 vs" "opreg (cg_next_reg cg2) r"
    "evals cg1 (cg_next_reg cg1) vs (\<lambda>(s :: 'h vm) s'. word_of L cg1 s v = Some (R s' r))"
    by (rule reg_for_evals [OF emitted_regs(1) [OF assms(2,1)] assms(4)]) (use assms(5) emitted_tables(4) [OF assms(2), of L] in simp)
  have "evals cg (cg_next_reg cg) (ws @ vs) (\<lambda>(s :: 'h vm) s'. P s s' \<and> word_of L cg s v = Some (R s' r))"
  proof (rule evals_seq [OF assms(3,2,1) B(3) refl])
    fix s s1 s2 :: "'h vm"
    assume a: "P s s1" "word_of L cg1 s1 v = Some (R s2 r)" "same_but (cg_next_reg cg) s s1" "same_but (cg_next_reg cg1) s1 s2"
    have "word_of L cg s1 v = word_of L cg s v" by (rule same_but_words(1) [OF a(3) assms(1) le_refl])
    then have "word_of L cg s v = Some (R s2 r)" using a(2) by (simp add: w)
    then show "P s s2 \<and> word_of L cg s v = Some (R s2 r)" using a(1,4) assms(6) by blast
  qed
  then show ?thesis using that emitted_trans [OF assms(2) B(1)] B(2) emittedD(2) [OF B(1)] by blast
qed

lemma next_norm:
  assumes "regs_ok cg" "emitted cg cg1 ws" "evals cg (cg_next_reg cg) ws P" "opreg (cg_next_reg cg1) r" "1 \<le> w"
    "(if nw then cg_norm_reg_width r w sg cg1 else Some (r, cg1)) = Some (r', cg2)"
  obtains vs where "emitted cg cg2 vs" "opreg (cg_next_reg cg2) r'" "cg_next_reg cg1 \<le> cg_next_reg cg2"
    "evals cg (cg_next_reg cg) vs (\<lambda>(s :: 'h vm) s2. \<exists>s1. P s s1 \<and> same_but (cg_next_reg cg1) s1 s2
      \<and> R s2 r' = (if nw then normed w sg (R s1 r) else R s1 r))"
proof -
  obtain vs where B: "emitted cg1 cg2 vs" "opreg (cg_next_reg cg2) r'"
    "evals cg1 (cg_next_reg cg1) vs (\<lambda>(s :: 'h vm) s'. R s' r' = (if nw then normed w sg (R s r) else R s r))"
    by (rule maybe_norm_evals [OF emittedD(3) [OF assms(2)] assms(4-6)])
  have "evals cg (cg_next_reg cg) (ws @ vs) (\<lambda>(s :: 'h vm) s2. \<exists>s1. P s s1 \<and> same_but (cg_next_reg cg1) s1 s2
      \<and> R s2 r' = (if nw then normed w sg (R s1 r) else R s1 r))"
    by (rule evals_seq [OF assms(3,2,1) B(3) refl]) blast
  then show ?thesis using that emitted_trans [OF assms(2) B(1)] B(2) emittedD(2) [OF B(1)] by blast
qed

section \<open>Binary operations\<close>

definition binop_input :: "('v, 't, 'b) llvm \<Rightarrow> ('b, 'v) gen \<Rightarrow> LLVMOpcode \<Rightarrow> 'v \<Rightarrow> 'h vm \<Rightarrow> bool" where
  "binop_input L cg op i s \<longleftrightarrow> (let w = LLVMGetIntTypeWidth L (LLVMTypeOf L i) in
     \<exists>a b. word_of L cg s (LLVMGetOperand L i 0) = Some a \<and> word_of L cg s (LLVMGetOperand L i 1) = Some b \<and> op_defined op w (low w a) (low w b))"

definition binop_output :: "('v, 't, 'b) llvm \<Rightarrow> ('b, 'v) gen \<Rightarrow> LLVMOpcode \<Rightarrow> 'v \<Rightarrow> 'h vm \<Rightarrow> u32 \<Rightarrow> bool" where
  "binop_output L cg op i s x \<longleftrightarrow> (let w = LLVMGetIntTypeWidth L (LLVMTypeOf L i) in
     \<exists>a b. word_of L cg s (LLVMGetOperand L i 0) = Some a \<and> word_of L cg s (LLVMGetOperand L i 1) = Some b
       \<and> low w x = take_bit w (narrow_op op w (low w a) (low w b)))"

lemma straight_binop: "op \<in> binop_opcodes \<Longrightarrow> straight [enc_r (binop_cv op) d l r]"
  unfolding binop_opcodes_def by (elim insertE emptyE) (simp_all add: straight_ops_def)

lemma binop_delivers:
  assumes "regs_ok cg" "op \<in> binop_opcodes" "scalar_binop L op i cg = Some cg'"
    "1 \<le> LLVMGetIntTypeWidth L (LLVMTypeOf L i)" "LLVMGetIntTypeWidth L (LLVMTypeOf L i) \<le> 32"
    "place_of L cg (LLVMGetOperand L i 0) \<noteq> None" "place_of L cg (LLVMGetOperand L i 1) \<noteq> None"
  shows "delivers L i cg cg' (binop_input L cg op i) (binop_output L cg op i :: 'h vm \<Rightarrow> u32 \<Rightarrow> bool)"
proof -
  let ?w = "LLVMGetIntTypeWidth L (LLVMTypeOf L i)" and ?o0 = "LLVMGetOperand L i 0" and ?o1 = "LLVMGetOperand L i 1"
  let ?div = "op \<in> {LLVMUDiv, LLVMURem, LLVMSDiv, LLVMSRem}" and ?sg = "op \<in> {LLVMAShr, LLVMSDiv, LLVMSRem}"
  let ?nl = "?w < 32 \<and> (op = LLVMLShr \<or> op = LLVMAShr \<or> ?div)"
  let ?nr = "?w < 32 \<and> (op = LLVMLShr \<or> op = LLVMAShr \<or> ?div) \<and> ?div"
  obtain lhs cg1 rhs cg2 dst l cg3 r cg4 where c: "cg_reg_for L ?o0 cg = Some (lhs, cg1)" "cg_reg_for L ?o1 cg1 = Some (rhs, cg2)"
    "reg_of L cg2 i = Some dst" "(if ?nl then cg_norm_reg_width lhs ?w ?sg cg2 else Some (lhs, cg2)) = Some (l, cg3)"
    "(if ?nr then cg_norm_reg_width rhs ?w ?sg cg3 else Some (rhs, cg3)) = Some (r, cg4)"
    "cg' = cg_emit (enc_r (binop_cv op) dst l r) cg4"
    using assms(3) unfolding scalar_binop_def Let_def bind_eq_Some_conv split_paired_Ex prod.case by blast
  obtain w1 where A: "emitted cg cg1 w1" "opreg (cg_next_reg cg1) lhs"
    "evals cg (cg_next_reg cg) w1 (\<lambda>(s :: 'h vm) s'. word_of L cg s ?o0 = Some (R s' lhs))" by (rule reg_for_evals [OF assms(1) c(1) assms(6)])
  obtain w2 where B: "emitted cg cg2 w2" "opreg (cg_next_reg cg2) rhs" "cg_next_reg cg1 \<le> cg_next_reg cg2" "evals cg (cg_next_reg cg) w2
      (\<lambda>(s :: 'h vm) s'. word_of L cg s ?o0 = Some (R s' lhs) \<and> word_of L cg s ?o1 = Some (R s' rhs))"
    by (rule next_operand [OF assms(1) A(1,3) c(2) assms(7)]) (simp_all add: keeps [OF _ A(2)])
  have lhs2: "opreg (cg_next_reg cg2) lhs" by (rule opreg_mono [OF A(2) B(3)])
  obtain w3 where C: "emitted cg cg3 w3" "opreg (cg_next_reg cg3) l" "cg_next_reg cg2 \<le> cg_next_reg cg3" "evals cg (cg_next_reg cg) w3
      (\<lambda>(s :: 'h vm) s2. \<exists>s1. (word_of L cg s ?o0 = Some (R s1 lhs) \<and> word_of L cg s ?o1 = Some (R s1 rhs))
        \<and> same_but (cg_next_reg cg2) s1 s2 \<and> R s2 l = (if ?nl then normed ?w ?sg (R s1 lhs) else R s1 lhs))"
    by (rule next_norm [OF assms(1) B(1,4) lhs2 assms(4) c(4)])
  have rhs3: "opreg (cg_next_reg cg3) rhs" by (rule opreg_mono [OF B(2) C(3)])
  obtain w4 where D: "emitted cg cg4 w4" "opreg (cg_next_reg cg4) r" "cg_next_reg cg3 \<le> cg_next_reg cg4" "evals cg (cg_next_reg cg) w4
      (\<lambda>(s :: 'h vm) s3. \<exists>s2. (\<exists>s1. (word_of L cg s ?o0 = Some (R s1 lhs) \<and> word_of L cg s ?o1 = Some (R s1 rhs))
        \<and> same_but (cg_next_reg cg2) s1 s2 \<and> R s2 l = (if ?nl then normed ?w ?sg (R s1 lhs) else R s1 lhs))
        \<and> same_but (cg_next_reg cg3) s2 s3 \<and> R s3 r = (if ?nr then normed ?w ?sg (R s2 rhs) else R s2 rhs))"
    by (rule next_norm [OF assms(1) C(1,4) rhs3 assms(4) c(5)])
  have dst: "reg_of L cg4 i = Some dst" using c(3) by (simp add: emitted_tables(6) [OF B(1)] emitted_tables(6) [OF D(1)])
  show ?thesis
  proof (rule deliversI [OF D(1,4) _ straight_binop [OF assms(2)] dst])
    show "cg' = emit_all [enc_r (binop_cv op) dst l r] cg4" unfolding c(6) by (rule emit_all_one)
    fix cx :: "'h ctx" and s s3 :: "'h vm"
    assume "binop_input L cg op i s" and "\<exists>s2. (\<exists>s1. (word_of L cg s ?o0 = Some (R s1 lhs) \<and> word_of L cg s ?o1 = Some (R s1 rhs))
        \<and> same_but (cg_next_reg cg2) s1 s2 \<and> R s2 l = (if ?nl then normed ?w ?sg (R s1 lhs) else R s1 lhs))
        \<and> same_but (cg_next_reg cg3) s2 s3 \<and> R s3 r = (if ?nr then normed ?w ?sg (R s2 rhs) else R s2 rhs)"
    then obtain s1 s2 where r: "word_of L cg s ?o0 = Some (R s1 lhs)" "word_of L cg s ?o1 = Some (R s1 rhs)"
      "same_but (cg_next_reg cg2) s1 s2" "R s2 l = (if ?nl then normed ?w ?sg (R s1 lhs) else R s1 lhs)"
      "same_but (cg_next_reg cg3) s2 s3" "R s3 r = (if ?nr then normed ?w ?sg (R s2 rhs) else R s2 rhs)"
      and d: "op_defined op ?w (low ?w (R s1 lhs)) (low ?w (R s1 rhs))" by (auto simp: binop_input_def Let_def)
    have n32: "normed 32 b x = x" for b x by (simp add: normed_def)
    have w: "?w < 32 \<or> ?w = 32" using assms(5) by auto
    have "R s3 l = prep_left op ?w (R s1 lhs)"
      using w by (auto simp: keeps [OF r(5) C(2)] r(4) prep_left_def div_opcodes_def n32)
    moreover have "R s3 r = prep_right op ?w (R s1 rhs)"
      using w by (auto simp: r(6) keeps [OF r(3) B(2)] prep_right_def div_opcodes_def n32)
    ultimately have "run cx [enc_r (binop_cv op) dst l r] s3 = Running (set_R s3 dst (alu op (prep_left op ?w (R s1 lhs)) (prep_right op ?w (R s1 rhs))))"
      using run_binop [OF assms(2), of s3 l r cx dst] prepared_ok [OF assms(4,5) d] by simp
    moreover have "binop_output L cg op i s (alu op (prep_left op ?w (R s1 lhs)) (prep_right op ?w (R s1 rhs)))"
      using binop_word [OF assms(2,4,5) d] r(1,2) by (simp add: binop_output_def Let_def)
    ultimately show "\<exists>s2 x. run cx [enc_r (binop_cv op) dst l r] s3 = Running (set_R s2 dst x)
        \<and> same_but (cg_next_reg cg4) s3 s2 \<and> binop_output L cg op i s x" using same_but_refl by blast
  qed
qed

section \<open>Comparisons and conversions\<close>

definition icmp_output :: "('v, 't, 'b) llvm \<Rightarrow> ('b, 'v) gen \<Rightarrow> LLVMIntPredicate \<Rightarrow> 'v \<Rightarrow> 'h vm \<Rightarrow> u32 \<Rightarrow> bool" where
  "icmp_output L cg p i s x \<longleftrightarrow> (let w = scalar_width L (LLVMTypeOf L (LLVMGetOperand L i 0)) in
     \<exists>a b. word_of L cg s (LLVMGetOperand L i 0) = Some a \<and> word_of L cg s (LLVMGetOperand L i 1) = Some b
       \<and> x = bool32 (icmp_holds p w (low w a) (low w b)))"

lemma icmp_delivers:
  assumes "regs_ok cg" "icmp_word L p i cg = Some cg'"
    "1 \<le> scalar_width L (LLVMTypeOf L (LLVMGetOperand L i 0))" "scalar_width L (LLVMTypeOf L (LLVMGetOperand L i 0)) \<le> 32"
    "place_of L cg (LLVMGetOperand L i 0) \<noteq> None" "place_of L cg (LLVMGetOperand L i 1) \<noteq> None"
  shows "delivers L i cg cg' (\<lambda>s. True) (icmp_output L cg p i :: 'h vm \<Rightarrow> u32 \<Rightarrow> bool)"
proof -
  let ?o0 = "LLVMGetOperand L i 0" and ?o1 = "LLVMGetOperand L i 1" and ?sg = "signed_predicate p"
  let ?w = "scalar_width L (LLVMTypeOf L ?o0)"
  obtain op2 swap l0 cg1 l cg2 r0 cg3 r cg4 dst where c: "icmp_to_op p = Some (op2, swap)" "cg_reg_for L ?o0 cg = Some (l0, cg1)"
    "cg_norm_reg_width l0 ?w ?sg cg1 = Some (l, cg2)" "cg_reg_for L ?o1 cg2 = Some (r0, cg3)"
    "cg_norm_reg_width r0 ?w ?sg cg3 = Some (r, cg4)" "reg_of L cg4 i = Some dst"
    "cg' = (if swap then cg_emit (enc_r op2 dst r l) cg4 else cg_emit (enc_r op2 dst l r) cg4)"
    using assms(2) unfolding icmp_word_def cg_icmp_operand_def Let_def bind_eq_Some_conv split_paired_Ex prod.case by auto
  obtain w1 where A: "emitted cg cg1 w1" "opreg (cg_next_reg cg1) l0"
    "evals cg (cg_next_reg cg) w1 (\<lambda>(s :: 'h vm) s'. word_of L cg s ?o0 = Some (R s' l0))" by (rule reg_for_evals [OF assms(1) c(2) assms(5)])
  have n0: "(if True then cg_norm_reg_width l0 ?w ?sg cg1 else Some (l0, cg1)) = Some (l, cg2)" using c(3) by simp
  obtain w2 where B: "emitted cg cg2 w2" "opreg (cg_next_reg cg2) l" "cg_next_reg cg1 \<le> cg_next_reg cg2" "evals cg (cg_next_reg cg) w2
      (\<lambda>(s :: 'h vm) s2. \<exists>s1. word_of L cg s ?o0 = Some (R s1 l0) \<and> same_but (cg_next_reg cg1) s1 s2
        \<and> R s2 l = (if True then normed ?w ?sg (R s1 l0) else R s1 l0))" by (rule next_norm [OF assms(1) A(1,3,2) assms(3) n0])
  have B': "evals cg (cg_next_reg cg) w2 (\<lambda>(s :: 'h vm) s2. \<exists>a. word_of L cg s ?o0 = Some a \<and> R s2 l = normed ?w ?sg a)"
    using B(4) unfolding evals_def by fastforce
  obtain w3 where C: "emitted cg cg3 w3" "opreg (cg_next_reg cg3) r0" "cg_next_reg cg2 \<le> cg_next_reg cg3" "evals cg (cg_next_reg cg) w3
      (\<lambda>(s :: 'h vm) s'. (\<exists>a. word_of L cg s ?o0 = Some a \<and> R s' l = normed ?w ?sg a) \<and> word_of L cg s ?o1 = Some (R s' r0))"
    by (rule next_operand [OF assms(1) B(1) B' c(4) assms(6)]) (simp_all add: keeps [OF _ B(2)])
  have n1: "(if True then cg_norm_reg_width r0 ?w ?sg cg3 else Some (r0, cg3)) = Some (r, cg4)" using c(5) by simp
  obtain w4 where D: "emitted cg cg4 w4" "opreg (cg_next_reg cg4) r" "cg_next_reg cg3 \<le> cg_next_reg cg4" "evals cg (cg_next_reg cg) w4
      (\<lambda>(s :: 'h vm) s2. \<exists>s1. ((\<exists>a. word_of L cg s ?o0 = Some a \<and> R s1 l = normed ?w ?sg a) \<and> word_of L cg s ?o1 = Some (R s1 r0))
        \<and> same_but (cg_next_reg cg3) s1 s2 \<and> R s2 r = (if True then normed ?w ?sg (R s1 r0) else R s1 r0))"
    by (rule next_norm [OF assms(1) C(1,4,2) assms(3) n1])
  let ?vs = "[if swap then enc_r op2 dst r l else enc_r op2 dst l r]"
  have st: "straight ?vs" using c(1) by (cases p) (auto simp: straight_ops_def)
  show ?thesis
  proof (rule deliversI [OF D(1,4) _ st c(6)])
    show "cg' = emit_all ?vs cg4" unfolding c(7) by (simp add: emit_all_one)
    fix cx :: "'h ctx" and s s3 :: "'h vm"
    assume "\<exists>s1. ((\<exists>a. word_of L cg s ?o0 = Some a \<and> R s1 l = normed ?w ?sg a) \<and> word_of L cg s ?o1 = Some (R s1 r0))
        \<and> same_but (cg_next_reg cg3) s1 s3 \<and> R s3 r = (if True then normed ?w ?sg (R s1 r0) else R s1 r0)"
    then obtain s1 a where r: "word_of L cg s ?o0 = Some a" "R s1 l = normed ?w ?sg a" "word_of L cg s ?o1 = Some (R s1 r0)"
      "same_but (cg_next_reg cg3) s1 s3" "R s3 r = normed ?w ?sg (R s1 r0)" by auto
    have "R s3 l = normed ?w ?sg a" using keeps [OF r(4) opreg_mono [OF B(2) C(3)]] r(2) by simp
    from run_icmp [OF assms(3,4) c(1) this r(5)] same_but_refl r(1,3)
    show "\<exists>s2 x. run cx ?vs s3 = Running (set_R s2 dst x) \<and> same_but (cg_next_reg cg4) s3 s2 \<and> icmp_output L cg p i s x"
      unfolding icmp_output_def Let_def by blast
  qed
qed

text \<open>A conversion of one operand: the code behind the operand's.\<close>

lemma conversion_delivers:
  assumes "regs_ok cg" "cg_reg_for L v cg = Some (src, cg1)" "place_of L cg v \<noteq> None" "cg' = emit_all vs cg1" "straight vs"
    "reg_of L cg1 i = Some d"
    "\<And>(cx :: 'h ctx) s. opreg (cg_next_reg cg1) src \<Longrightarrow> opreg (cg_next_reg cg1) d \<Longrightarrow>
       \<exists>k. run cx vs s = Running (set_R s d (f (R s src))) \<or> run cx vs s = Running (set_R (set_R s CG_REG_SCRATCH k) d (f (R s src)))"
  shows "delivers L i cg cg' (\<lambda>s. True) (\<lambda>(s :: 'h vm) x. \<exists>a. word_of L cg s v = Some a \<and> x = f a)"
proof -
  obtain ws where A: "emitted cg cg1 ws" "opreg (cg_next_reg cg1) src"
    "evals cg (cg_next_reg cg) ws (\<lambda>(s :: 'h vm) s'. word_of L cg s v = Some (R s' src))" by (rule reg_for_evals [OF assms(1-3)])
  have "d \<in> set (cg_regs cg1)" using assms(6) by (auto simp: reg_of_def bind_eq_Some_conv dest: at_set)
  then have d: "opreg (cg_next_reg cg1) d" using emitted_regs(1) [OF A(1) assms(1)] by (simp add: regs_ok_def)
  show ?thesis
  proof (rule deliversI [OF A(1,3) assms(4-6)])
    fix cx :: "'h ctx" and s s1 :: "'h vm" assume a: "word_of L cg s v = Some (R s1 src)"
    have sb: "same_but (cg_next_reg cg1) s1 (set_R s1 CG_REG_SCRATCH k)" for k by (intro same_but_set same_but_refl sp_not_scratch(3))
    obtain k where "run cx vs s1 = Running (set_R s1 d (f (R s1 src))) \<or> run cx vs s1 = Running (set_R (set_R s1 CG_REG_SCRATCH k) d (f (R s1 src)))"
      using assms(7) [OF A(2) d] by blast
    then show "\<exists>s2 x. run cx vs s1 = Running (set_R s2 d x) \<and> same_but (cg_next_reg cg1) s1 s2 \<and> (\<exists>a. word_of L cg s v = Some a \<and> x = f a)"
      using a sb same_but_refl by blast
  qed
qed

lemma run_emit_mov: "emit_mov d s cg = emit_all (if s \<noteq> d then [enc_r (op_value CVM_OP_MOV) d s 0] else []) cg"
  by (simp add: emit_mov_def emit_all_one)

lemma run_move: "\<exists>k. run cx (if src \<noteq> d then [enc_r (op_value CVM_OP_MOV) d src 0] else []) s = Running (set_R s d (R s src)) \<or> Q k"
  by (simp add: set_R_self)

lemma run_mask:
  assumes "w \<le> 32" "src \<noteq> CG_REG_SCRATCH"
  shows "run cx (const_code CG_REG_SCRATCH (width_mask w) @ [enc_r (op_value CVM_OP_AND) d src CG_REG_SCRATCH]) s
    = Running (set_R (set_R s CG_REG_SCRATCH (width_mask w)) d (take_bit w (R s src)))"
  using assms(2) by (simp add: width_mask_eq [OF assms(1)] take_bit_eq_mask)

lemma run_sext:
  assumes "1 \<le> w" "w < 32" "src \<noteq> CG_REG_SCRATCH" "d \<noteq> CG_REG_SCRATCH"
  shows "run cx [enc_i16 (op_value CVM_OP_MOVI) CG_REG_SCRATCH (of_nat (32 - w)), enc_r (op_value CVM_OP_SHL) d src CG_REG_SCRATCH,
      enc_r (op_value CVM_OP_SAR) d d CG_REG_SCRATCH] s
    = Running (set_R (set_R s CG_REG_SCRATCH (scast (of_nat (32 - w) :: u16))) d (signed_take_bit (w - 1) (R s src)))"
  using assms amount_word [of "32 - w"] by (simp add: shift_pair)

lemma zext_delivers:
  assumes "regs_ok cg" "scalar_zext L i cg = Some cg'" "place_of L cg (LLVMGetOperand L i 0) \<noteq> None"
  shows "delivers L i cg cg' (\<lambda>s. True) (\<lambda>(s :: 'h vm) x. \<exists>a. word_of L cg s (LLVMGetOperand L i 0) = Some a
    \<and> x = normed (scalar_width L (LLVMTypeOf L (LLVMGetOperand L i 0))) False a)"
proof -
  let ?v = "LLVMGetOperand L i 0"
  let ?w = "scalar_width L (LLVMTypeOf L ?v)"
  obtain src cg1 d where c: "cg_reg_for L ?v cg = Some (src, cg1)" "reg_of L cg1 i = Some d"
    "cg' = (if ?w \<ge> 32 then emit_mov d src cg1 else cg_emit (enc_r (op_value CVM_OP_AND) d src CG_REG_SCRATCH)
      (cg_emit_load_const32 CG_REG_SCRATCH (width_mask ?w) cg1))"
    using assms(2) unfolding scalar_zext_def Let_def bind_eq_Some_conv split_paired_Ex prod.case by auto
  let ?vs = "if ?w \<ge> 32 then (if src \<noteq> d then [enc_r (op_value CVM_OP_MOV) d src 0] else [])
    else const_code CG_REG_SCRATCH (width_mask ?w) @ [enc_r (op_value CVM_OP_AND) d src CG_REG_SCRATCH]"
  show ?thesis
  proof (rule conversion_delivers [OF assms(1) c(1) assms(3) _ _ c(2), of _ ?vs])
    show "cg' = emit_all ?vs cg1" unfolding c(3) by (simp add: run_emit_mov emit_helpers)
    show "straight ?vs" by (simp add: straight_ops_def)
    fix cx :: "'h ctx" and s :: "'h vm" assume "opreg (cg_next_reg cg1) src"
    then have "src \<noteq> CG_REG_SCRATCH" by (auto simp: opreg_def CG_REG_SCRATCH_def CG_REG_ZERO_def)
    then show "\<exists>k. run cx ?vs s = Running (set_R s d (normed ?w False (R s src)))
        \<or> run cx ?vs s = Running (set_R (set_R s CG_REG_SCRATCH k) d (normed ?w False (R s src)))"
      using run_mask [of ?w src cx d s] run_move by (cases "?w \<ge> 32") (auto simp: normed_def set_R_self)
  qed
qed

lemma sext_delivers:
  assumes "regs_ok cg" "scalar_sext L i cg = Some cg'" "place_of L cg (LLVMGetOperand L i 0) \<noteq> None"
    "1 \<le> scalar_width L (LLVMTypeOf L (LLVMGetOperand L i 0))"
  shows "delivers L i cg cg' (\<lambda>s. True) (\<lambda>(s :: 'h vm) x. \<exists>a. word_of L cg s (LLVMGetOperand L i 0) = Some a
    \<and> x = normed (scalar_width L (LLVMTypeOf L (LLVMGetOperand L i 0))) True a)"
proof -
  let ?v = "LLVMGetOperand L i 0"
  let ?w = "scalar_width L (LLVMTypeOf L ?v)"
  obtain src cg1 d where c: "cg_reg_for L ?v cg = Some (src, cg1)" "reg_of L cg1 i = Some d"
    "cg' = (if ?w \<ge> 32 then emit_mov d src cg1 else sext_in_place d src ?w cg1)"
    using assms(2) unfolding scalar_sext_def Let_def bind_eq_Some_conv split_paired_Ex prod.case by auto
  let ?vs = "if ?w \<ge> 32 then (if src \<noteq> d then [enc_r (op_value CVM_OP_MOV) d src 0] else [])
    else [enc_i16 (op_value CVM_OP_MOVI) CG_REG_SCRATCH (of_nat (32 - ?w)), enc_r (op_value CVM_OP_SHL) d src CG_REG_SCRATCH,
      enc_r (op_value CVM_OP_SAR) d d CG_REG_SCRATCH]"
  show ?thesis
  proof (rule conversion_delivers [OF assms(1) c(1) assms(3) _ _ c(2), of _ ?vs])
    show "cg' = emit_all ?vs cg1" unfolding c(3) by (simp add: run_emit_mov sext_in_place_def emit_all_one)
    show "straight ?vs" by (simp add: straight_ops_def)
    fix cx :: "'h ctx" and s :: "'h vm" assume "opreg (cg_next_reg cg1) src" "opreg (cg_next_reg cg1) d"
    then have "src \<noteq> CG_REG_SCRATCH" "d \<noteq> CG_REG_SCRATCH" by (auto simp: opreg_def CG_REG_SCRATCH_def CG_REG_ZERO_def)
    then show "\<exists>k. run cx ?vs s = Running (set_R s d (normed ?w True (R s src)))
        \<or> run cx ?vs s = Running (set_R (set_R s CG_REG_SCRATCH k) d (normed ?w True (R s src)))"
      using run_sext [OF assms(4), of src d cx s] run_move by (cases "?w < 32") (auto simp del: run_alu simp: normed_def set_R_self run_alu(2))
  qed
qed

lemma trunc_delivers:
  assumes "regs_ok cg" "scalar_trunc L i cg = Some cg'" "place_of L cg (LLVMGetOperand L i 0) \<noteq> None"
    "\<not> cg_type_is_wide_int L (LLVMTypeOf L (LLVMGetOperand L i 0))" "1 \<le> LLVMGetIntTypeWidth L (LLVMTypeOf L i)"
  shows "delivers L i cg cg' (\<lambda>s. True) (\<lambda>(s :: 'h vm) x. \<exists>a. word_of L cg s (LLVMGetOperand L i 0) = Some a
    \<and> x = normed (LLVMGetIntTypeWidth L (LLVMTypeOf L i)) False a)"
proof -
  let ?v = "LLVMGetOperand L i 0" and ?w = "LLVMGetIntTypeWidth L (LLVMTypeOf L i)"
  obtain src cg1 d where c: "cg_reg_for L ?v cg = Some (src, cg1)" "reg_of L cg i = Some d"
    "cg' = (if ?w \<ge> 32 then emit_mov d src cg1 else cg_emit (enc_r (op_value CVM_OP_AND) d src CG_REG_SCRATCH)
      (cg_emit_load_const32 CG_REG_SCRATCH (width_mask ?w) cg1))"
    using assms(2,4,5) unfolding scalar_trunc_def Let_def bind_eq_Some_conv split_paired_Ex prod.case by (auto simp: bind_eq_Some_conv)
  obtain ws where e: "emitted cg cg1 ws" by (rule reg_for_evals [OF assms(1) c(1) assms(3), where ?'h = 'h])
  have d: "reg_of L cg1 i = Some d" using c(2) by (simp add: emitted_tables(6) [OF e])
  let ?vs = "if ?w \<ge> 32 then (if src \<noteq> d then [enc_r (op_value CVM_OP_MOV) d src 0] else [])
    else const_code CG_REG_SCRATCH (width_mask ?w) @ [enc_r (op_value CVM_OP_AND) d src CG_REG_SCRATCH]"
  show ?thesis
  proof (rule conversion_delivers [OF assms(1) c(1) assms(3) _ _ d, of _ ?vs])
    show "cg' = emit_all ?vs cg1" unfolding c(3) by (simp add: run_emit_mov emit_helpers)
    show "straight ?vs" by (simp add: straight_ops_def)
    fix cx :: "'h ctx" and s :: "'h vm" assume "opreg (cg_next_reg cg1) src"
    then have "src \<noteq> CG_REG_SCRATCH" by (auto simp: opreg_def CG_REG_SCRATCH_def CG_REG_ZERO_def)
    then show "\<exists>k. run cx ?vs s = Running (set_R s d (normed ?w False (R s src)))
        \<or> run cx ?vs s = Running (set_R (set_R s CG_REG_SCRATCH k) d (normed ?w False (R s src)))"
      using run_mask [of ?w src cx d s] by (cases "?w \<ge> 32") (auto simp: normed_def set_R_self)
  qed
qed

section \<open>Any of these instructions\<close>

definition int_opcodes :: "LLVMOpcode set" where
  "int_opcodes = binop_opcodes \<union> {LLVMICmp, LLVMZExt, LLVMSExt, LLVMTrunc}"

definition two_operands :: "LLVMOpcode \<Rightarrow> bool" where "two_operands op \<longleftrightarrow> op \<in> binop_opcodes \<union> {LLVMICmp}"

text \<open>The width that counts: that of the result of a binary operation, else that of the operand.\<close>

definition op_width :: "('v, 't, 'b) llvm \<Rightarrow> LLVMOpcode \<Rightarrow> 'v \<Rightarrow> nat" where
  "op_width L op i = (if op \<in> binop_opcodes then LLVMGetIntTypeWidth L (LLVMTypeOf L i)
     else scalar_width L (LLVMTypeOf L (LLVMGetOperand L i 0)))"

text \<open>The word \<open>x\<close> stands for the result on operands that the words \<open>a\<close> and \<open>b\<close> stand for.\<close>

definition int_result :: "('v, 't, 'b) llvm \<Rightarrow> ('v, 'b) llvm_inst \<Rightarrow> LLVMOpcode \<Rightarrow> 'v \<Rightarrow> u32 \<Rightarrow> u32 \<Rightarrow> u32 \<Rightarrow> bool" where
  "int_result L I op i a b x \<longleftrightarrow> (let w = op_width L op i; dw = LLVMGetIntTypeWidth L (LLVMTypeOf L i) in
     if op \<in> binop_opcodes then low w x = take_bit w (narrow_op op w (low w a) (low w b))
     else if op = LLVMICmp then x = bool32 (icmp_holds (LLVMGetICmpPredicate I i) w (low w a) (low w b))
     else if op = LLVMZExt then uint x = low w a
     else if op = LLVMSExt then sint x = signed_of w (low w a)
     else uint x = low (min dw 32) a)"

definition int_input :: "('v, 't, 'b) llvm \<Rightarrow> ('b, 'v) gen \<Rightarrow> LLVMOpcode \<Rightarrow> 'v \<Rightarrow> 'h vm \<Rightarrow> u32 \<Rightarrow> u32 \<Rightarrow> bool" where
  "int_input L cg op i s a b \<longleftrightarrow> word_of L cg s (LLVMGetOperand L i 0) = Some a
     \<and> (two_operands op \<longrightarrow> word_of L cg s (LLVMGetOperand L i 1) = Some b)
     \<and> (op \<in> binop_opcodes \<longrightarrow> op_defined op (op_width L op i) (low (op_width L op i) a) (low (op_width L op i) b))"

lemma delivers_cong:
  assumes "delivers L i cg cg' Q P" "\<And>s. Q' s \<Longrightarrow> Q s" "\<And>s x. Q' s \<Longrightarrow> P s x \<Longrightarrow> P' s x"
  shows "delivers L i cg cg' Q' P'"
  using assms unfolding delivers_def by metis

lemma not_wide:
  assumes "scalar_width L t \<le> 32"
  shows "\<not> cg_type_is_i65 L t" "\<not> cg_type_is_wide_int L t"
  using assms by (auto simp: scalar_width_def cg_type_is_i65_def cg_type_is_wide_int_def Let_def split: if_splits)

lemma int_delivers:
  assumes "regs_ok cg" "op \<in> int_opcodes" "scalar_case L I bb sp op i = Some h" "h cg = Some cg'"
    "1 \<le> op_width L op i" "op_width L op i \<le> 32" "op = LLVMTrunc \<longrightarrow> 1 \<le> LLVMGetIntTypeWidth L (LLVMTypeOf L i)"
    "place_of L cg (LLVMGetOperand L i 0) \<noteq> None" "two_operands op \<longrightarrow> place_of L cg (LLVMGetOperand L i 1) \<noteq> None"
  shows "delivers L i cg cg' (\<lambda>s :: 'h vm. int_input L cg op i s a b) (\<lambda>s x. int_result L I op i a b x)"
proof -
  have no: "op \<noteq> LLVMPHI" "op \<noteq> LLVMFence" using assms(2) by (auto simp: int_opcodes_def binop_opcodes_def)
  have nb: "LLVMICmp \<notin> binop_opcodes" "LLVMZExt \<notin> binop_opcodes" "LLVMSExt \<notin> binop_opcodes" "LLVMTrunc \<notin> binop_opcodes"
    by (simp_all add: binop_opcodes_def)
  from assms(2) consider (bin) "op \<in> binop_opcodes" | (icmp) "op = LLVMICmp" | (zext) "op = LLVMZExt" | (sext) "op = LLVMSExt" | (trunc) "op = LLVMTrunc"
    by (auto simp: int_opcodes_def)
  then show ?thesis
  proof cases
    case bin
    then have h: "scalar_binop L op i cg = Some cg'" using assms(3,4) no by (auto simp: scalar_case_def)
    show ?thesis
      by (rule delivers_cong [OF binop_delivers [OF assms(1) bin h, where ?'h = 'h]])
        (use assms(5-9) bin in \<open>auto simp: op_width_def int_input_def int_result_def binop_input_def binop_output_def two_operands_def Let_def\<close>)
  next
    case icmp
    then have "scalar_icmp L I i cg = Some cg'" using assms(3,4) nb by (auto simp: scalar_case_def)
    then have h: "icmp_word L (LLVMGetICmpPredicate I i) i cg = Some cg'"
      using not_wide [of L "LLVMTypeOf L (LLVMGetOperand L i 0)"] assms(6) icmp nb by (simp add: scalar_icmp_def op_width_def Let_def)
    show ?thesis
      by (rule delivers_cong [OF icmp_delivers [OF assms(1) h, where ?'h = 'h]])
        (use assms(5-9) icmp nb in \<open>auto simp: op_width_def int_input_def int_result_def icmp_output_def two_operands_def Let_def\<close>)
  next
    case zext
    then have h: "scalar_zext L i cg = Some cg'" using assms(3,4) nb by (auto simp: scalar_case_def)
    show ?thesis
      by (rule delivers_cong [OF zext_delivers [OF assms(1) h assms(8), where ?'h = 'h]])
        (use assms(5,6) zext nb uint_normed in \<open>auto simp: op_width_def int_input_def int_result_def Let_def\<close>)
  next
    case sext
    then have h: "scalar_sext L i cg = Some cg'" using assms(3,4) nb by (auto simp: scalar_case_def)
    show ?thesis
      by (rule delivers_cong [OF sext_delivers [OF assms(1) h assms(8), where ?'h = 'h]])
        (use assms(5,6) sext nb sint_normed in \<open>auto simp: op_width_def int_input_def int_result_def Let_def\<close>)
  next
    case trunc
    then have h: "scalar_trunc L i cg = Some cg'" using assms(3,4) nb by (auto simp: scalar_case_def)
    have nw: "\<not> cg_type_is_wide_int L (LLVMTypeOf L (LLVMGetOperand L i 0))" using not_wide(2) assms(6) trunc nb by (simp add: op_width_def)
    have n: "uint (normed k False z) = low (min k 32) z" for k z
      using uint_normed [of k z] by (cases "k \<le> 32") (auto simp: normed_def low_whole min_def)
    show ?thesis
      by (rule delivers_cong [OF trunc_delivers [OF assms(1) h assms(8) nw, where ?'h = 'h]])
        (use assms(7) trunc nb n in \<open>auto simp: int_input_def int_result_def Let_def\<close>)
  qed
qed

end
