(* ===== verification/Scalar_Theorems.thy ===== *)
theory Scalar_Theorems
  imports Scalar_Correct Phi_Theorems
begin

text \<open>
  Word instructions as the instruction switch lowers them, with the result in its register or in its frame slot.
\<close>

section \<open>Around the switch\<close>

lemma at_less: "at xs k = Some x \<Longrightarrow> k < length xs"
  by (auto simp: at_def split: if_splits)

lemma lookup_redirected: "cg_lookup L (cg\<lparr>cg_regs := rs\<rparr>) = cg_lookup L cg"
  by (rule ext) (simp add: cg_lookup_def)

lemma place_of_redirected:
  assumes "cg_lookup L cg i = Some (Some idx)" "at (cg_val_slot cg) idx = Some slot" "slot \<noteq> CG_NO_SLOT"
  shows "place_of L (cg\<lparr>cg_regs := (cg_regs cg)[idx := r]\<rparr>) = place_of L cg"
proof (rule ext)
  fix v
  have w: "word_const L (cg\<lparr>cg_regs := rs\<rparr>) = word_const L cg" for rs by (rule ext) (simp add: word_const_def cg_globals_lookup_def)
  have o: "cg_val_slot_off (cg\<lparr>cg_regs := rs\<rparr>) = cg_val_slot_off cg" for rs by (rule ext) (simp add: cg_val_slot_off_def)
  have a: "at ((cg_regs cg)[idx := r]) k = at (cg_regs cg) k" if "at (cg_val_slot cg) k = Some CG_NO_SLOT" for k
    using that assms(2,3) by (cases "k = idx") (simp_all add: at_def)
  show "place_of L (cg\<lparr>cg_regs := (cg_regs cg)[idx := r]\<rparr>) v = place_of L cg v"
    unfolding place_of_def lookup_redirected w o by (auto simp: a split: option.split dest: at_less)
qed

text \<open>Nothing but the result's place and scratch registers has changed.\<close>

definition result_only :: "'h ctx \<Rightarrow> ('v, 't, 'b) llvm \<Rightarrow> ('b, 'v) gen \<Rightarrow> 'v \<Rightarrow> 'h vm \<Rightarrow> 'h vm \<Rightarrow> bool" where
  "result_only cx L cg i s s' \<longleftrightarrow> vm_ok cx s' \<and> vm_host s' = vm_host s
     \<and> (\<forall>r. \<not> scratch (cg_next_reg cg) r \<and> place_of L cg i \<noteq> Some (In_reg r) \<longrightarrow> R s' r = R s r)
     \<and> (case place_of L cg i of Some (In_slot off) \<Rightarrow> agree_outside (heap_of s) (heap_of s') (slot_addr s off) 4
        | _ \<Rightarrow> heap_of s' = heap_of s)"

lemma result_in_register:
  assumes "delivers L i cg cg' Q P" "spilled_result L op i cg = Some None" "op \<noteq> LLVMPHI" "\<not> LLVMIsAGlobalAlias L i"
  obtains ws where "cg_code cg' = cg_code cg @ ws" "straight ws" "place_of L cg' = place_of L cg"
    "\<And>(cx :: 'h ctx) s. frame_ok cx cg s \<Longrightarrow> Q s \<Longrightarrow>
       \<exists>s' x. run cx ws s = Running s' \<and> word_of L cg s' i = Some x \<and> P s x \<and> result_only cx L cg i s s'"
proof -
  obtain ws d where d: "emitted cg cg' ws" "reg_of L cg i = Some d"
    "\<And>(cx :: 'h ctx) s. frame_ok cx cg s \<Longrightarrow> Q s \<Longrightarrow>
       \<exists>s1 x. run cx ws s = Running (set_R s1 d x) \<and> same_but (cg_next_reg cg) s s1 \<and> P s x"
    using assms(1) unfolding delivers_def by blast
  have p: "place_of L cg i = Some (In_reg d)"
    using d(2) assms(2-4) by (auto simp: reg_of_def spilled_result_def place_of_def bind_eq_Some_conv split: if_splits)
  have "\<exists>s' x. run cx ws s = Running s' \<and> word_of L cg s' i = Some x \<and> P s x \<and> result_only cx L cg i s s'"
    if a: "frame_ok cx cg s" "Q s" for cx :: "'h ctx" and s
  proof -
    obtain s1 x where s1: "run cx ws s = Running (set_R s1 d x)" "same_but (cg_next_reg cg) s s1" "P s x" using d(3) [OF a] by blast
    have "vm_ok cx s" using a(1) by (simp add: frame_ok_def)
    then have "result_only cx L cg i s (set_R s1 d x)"
      by (auto simp: result_only_def p same_butD [OF s1(2)])
    moreover have "word_of L cg (set_R s1 d x) i = Some x" by (simp add: word_of_def p)
    ultimately show ?thesis using s1(1,3) by blast
  qed
  then show ?thesis using that emittedD(1,4) [OF d(1)] emitted_tables(4) [OF d(1)] by blast
qed

lemma result_in_slot:
  assumes "regs_ok cg" "spilled_result L op i cg = Some (Some (idx, slot))" "\<not> LLVMIsAGlobalAlias L i"
    "cg_alloc_reg cg = Some (def_reg, cg1)" "cgr = cg1\<lparr>cg_regs := (cg_regs cg1)[idx := def_reg]\<rparr>"
    "cg' = (let cg3 = cg_stw_sp_off (cg_val_slot_off cg2 slot) def_reg cg2 in cg3\<lparr>cg_regs := (cg_regs cg3)[idx := CG_REG_SPILLED]\<rparr>)"
    "regs_ok cgr \<Longrightarrow> place_of L cgr = place_of L cg \<Longrightarrow> delivers L i cgr cg2 Q P"
  obtains ws where "cg_code cg' = cg_code cg @ ws" "straight ws" "place_of L cg' = place_of L cg"
    "\<And>(cx :: 'h ctx) s. frame_ok cx cg s \<Longrightarrow> Q s \<Longrightarrow>
       \<exists>s' x. run cx ws s = Running s' \<and> word_of L cg s' i = Some x \<and> P s x \<and> result_only cx L cg i s s'"
proof -
  have g: "gen_ok cg" using assms(1) by (simp add: regs_ok_def)
  note A = alloc_emitted [OF g assms(4)]
  note T = emitted_tables [OF A(1)]
  have i: "cg_lookup L cg i = Some (Some idx)" "at (cg_val_slot cg) idx = Some slot" "slot \<noteq> CG_NO_SLOT"
    using assms(2) by (auto simp: spilled_result_def bind_eq_Some_conv split: option.splits if_splits)
  let ?off = "cg_val_slot_off cg slot"
  have p: "place_of L cg i = Some (In_slot ?off)" by (simp add: place_of_def assms(3) i)
  have off1: "cg_val_slot_off cgr = cg_val_slot_off cg" using emittedD(6) [OF A(1)] unfolding assms(5) by (simp add: cg_val_slot_off_def fun_eq_iff)
  have look: "cg_lookup L cgr i = Some (Some idx)" using i(1) emittedD(7) [OF A(1), of L] unfolding assms(5) lookup_redirected by simp
  have pr: "place_of L cgr = place_of L cg"
    using place_of_redirected [of L cg1 i idx slot def_reg] i emittedD(7) [OF A(1), of L] T(2,4) unfolding assms(5) by simp
  have "regs_ok cg1" using T(7) assms(1) by simp
  then have ok: "regs_ok cgr" using A(4) set_update_subset_insert [of "cg_regs cg1" idx def_reg]
    unfolding assms(5) regs_ok_def gen_ok_def by auto
  obtain ws d where d: "emitted cgr cg2 ws" "reg_of L cgr i = Some d"
    "\<And>(cx :: 'h ctx) s. frame_ok cx cgr s \<Longrightarrow> Q s \<Longrightarrow>
       \<exists>s1 x. run cx ws s = Running (set_R s1 d x) \<and> same_but (cg_next_reg cgr) s s1 \<and> P s x"
    using assms(7) [OF ok pr] unfolding delivers_def by blast
  have dr: "d = def_reg" using d(2) look unfolding reg_of_def assms(5) by (auto simp: at_def split: if_splits)
  have off: "cg_val_slot_off cg2 slot = ?off" by (simp add: emittedD(6) [OF d(1)] off1)
  have c: "cg' = (emit_all (stw_code ?off def_reg) cg2)\<lparr>cg_regs := (cg_regs cg2)[idx := CG_REG_SPILLED]\<rparr>"
    unfolding assms(6) off by (simp add: Let_def emit_helpers emit_all_def)
  have code: "cg_code cg' = cg_code cg @ (ws @ stw_code ?off def_reg)"
    using emittedD(1) [OF d(1)] emittedD(1) [OF A(1)] unfolding c assms(5) by (simp add: emit_all_def)
  have e2: "emitted cg2 (emit_all (stw_code ?off def_reg) cg2) (stw_code ?off def_reg)" by (rule emitted_code [OF emittedD(3) [OF d(1)]]) simp
  have p2: "place_of L (emit_all (stw_code ?off def_reg) cg2) = place_of L cg"
    using emitted_tables(4) [OF e2, of L] emitted_tables(4) [OF d(1), of L] pr by simp
  have p': "place_of L cg' = place_of L cg"
    using place_of_redirected [of L "emit_all (stw_code ?off def_reg) cg2" i idx slot CG_REG_SPILLED] p2 i(2,3) look
      emittedD(7) [OF e2, of L] emittedD(7) [OF d(1), of L] emitted_tables(1,2) [OF e2] emitted_tables(2) [OF d(1)] T(2) unfolding c
    by (simp add: assms(5))
  have nr: "cg_next_reg cgr = Suc (cg_next_reg cg)" using A(3) by (simp add: assms(5))
  have dn: "scratch (cg_next_reg cg) def_reg" "def_reg \<noteq> CG_REG_SCRATCH"
    using A(2,5) opreg_fresh [OF A(4)] by (auto simp: scratch_def CG_REG_SCRATCH_def)
  have "\<exists>s' x. run cx (ws @ stw_code ?off def_reg) s = Running s' \<and> word_of L cg s' i = Some x \<and> P s x \<and> result_only cx L cg i s s'"
    if a: "frame_ok cx cg s" "Q s" for cx :: "'h ctx" and s
  proof -
    have "cg_val_slot cgr = cg_val_slot cg" using T(2) by (simp add: assms(5))
    then have "frame_ok cx cgr s" using a(1) by (simp add: frame_ok_def off1)
    then obtain s1 x where s1: "run cx ws s = Running (set_R s1 def_reg x)" "same_but (cg_next_reg cgr) s s1" "P s x" using d(3) a(2) unfolding dr by blast
    have "same_but (cg_next_reg cg) s s1" using same_but_trans [OF same_but_refl s1(2)] nr by simp
    then have "same_but (cg_next_reg cg) s (set_R s1 def_reg x)" "same_but (cg_next_reg cg) s (sp_scratch ?off (set_R s1 def_reg x))"
      by (intro same_but_set dn(1) sp_not_scratch(3); assumption)+
    then obtain s2 where b: "same_but (cg_next_reg cg) s (set_R s1 def_reg x)" "same_but (cg_next_reg cg) s s2"
      and s2: "s2 = sp_scratch ?off (set_R s1 def_reg x)" by blast
    have f: "vm_ok cx s" "in_frame cx s ?off" using a(1) at_set [OF i(2)] i(3) by (auto simp: frame_ok_def)
    then have f2: "vm_ok cx s2" "in_frame cx s2 ?off" by (simp_all only: same_butD [OF b(2)])
    have "run cx (stw_code ?off def_reg) (set_R s1 def_reg x) = Running (slot_put ?off x s2)"
    proof -
      have f1: "vm_ok cx (set_R s1 def_reg x)" "in_frame cx (set_R s1 def_reg x) ?off" using f by (simp_all only: same_butD [OF b(1)])
      have "R (set_R s1 def_reg x) def_reg = x" by simp
      then show ?thesis using run_stw_nil [OF f1 dn(2)] by (simp only: s2)
    qed
    then have "run cx (ws @ stw_code ?off def_reg) s = Running (slot_put ?off x s2)" using run_append_Running [OF s1(1)] by simp
    moreover have "word_of L cg (slot_put ?off x s2) i = Some x"
      by (simp only: word_of_def p option.map place_val.simps slot_put_ok(2) [OF f2])
    moreover have "result_only cx L cg i s (slot_put ?off x s2)"
      using slot_put_ok(1,3) [OF f2, of x] same_butD(1) [OF b(2)] by (simp add: result_only_def p same_butD(2,7,8) [OF b(2)])
    ultimately show ?thesis using s1(3) by blast
  qed
  then show ?thesis using that [OF code _ p'] emittedD(4) [OF d(1)] by simp
qed


section \<open>Word instructions\<close>

lemma input_places: "place_of L cg' = place_of L cg \<Longrightarrow> int_input L cg' op i = int_input L cg op i"
  by (intro ext) (simp add: int_input_def word_of_def)

lemma scalar_case_int: "op \<in> int_opcodes \<Longrightarrow> scalar_case L I bb sp op i \<noteq> None"
  by (auto simp: scalar_case_def int_opcodes_def)

lemma int_instruction_runs:
  assumes "regs_ok (cg\<lparr>cg_next_reg := cg_ssa_reg_high cg\<rparr>)" "scalar_instruction L I bb i cg = Some (Some cg')"
    "LLVMGetInstructionOpcode L i = op" "op \<in> int_opcodes" "\<not> LLVMIsAGlobalAlias L i"
    "1 \<le> op_width L op i" "op_width L op i \<le> 32" "op = LLVMTrunc \<longrightarrow> 1 \<le> LLVMGetIntTypeWidth L (LLVMTypeOf L i)"
    "place_of L cg (LLVMGetOperand L i 0) \<noteq> None" "two_operands op \<longrightarrow> place_of L cg (LLVMGetOperand L i 1) \<noteq> None"
  obtains ws where "cg_code cg' = cg_code cg @ ws" "straight ws" "place_of L cg' = place_of L cg"
    "\<And>(cx :: 'h ctx) s. frame_ok cx cg s \<Longrightarrow> int_input L cg op i s a b \<Longrightarrow>
       \<exists>s' x. run cx ws s = Running s' \<and> word_of L cg s' i = Some x \<and> int_result L I op i a b x
         \<and> result_only cx L (cg\<lparr>cg_next_reg := cg_ssa_reg_high cg\<rparr>) i s s'"
proof -
  let ?cg = "cg\<lparr>cg_next_reg := cg_ssa_reg_high cg\<rparr>" and ?H = "\<lambda>sp. the (scalar_case L I bb sp op i)"
  have l: "cg_lookup L ?cg = cg_lookup L cg" by (rule ext) (simp add: cg_lookup_def)
  have o: "cg_val_slot_off ?cg = cg_val_slot_off cg" by (rule ext) (simp add: cg_val_slot_off_def)
  have pl: "place_of L ?cg = place_of L cg"
  proof (rule ext)
    have c: "word_const L ?cg = word_const L cg" by (rule ext) (simp add: word_const_def cg_globals_lookup_def)
    have t: "cg_val_slot ?cg = cg_val_slot cg" "cg_regs ?cg = cg_regs cg" by simp_all
    show "place_of L ?cg v = place_of L cg v" for v by (simp only: place_of_def l o c t)
  qed
  have w: "word_of L ?cg s v = word_of L cg s v" for s :: "'h vm" and v by (simp add: word_of_def pl)
  have f: "frame_ok cx ?cg s = frame_ok cx cg s" for cx :: "'h ctx" and s by (simp add: frame_ok_def o)
  have no: "op \<noteq> LLVMPHI" using assms(4) by (auto simp: int_opcodes_def binop_opcodes_def)
  have h: "scalar_case L I bb sp op i = Some (?H sp)" for sp using scalar_case_int [OF assms(4), of L I bb sp i] by simp
  have wr: "with_result L op i ?H ?cg = Some cg'" using assms(2) by (simp add: scalar_instruction_def assms(3) Let_def split: option.splits)
  have D: "delivers L i c c' (\<lambda>s :: 'h vm. int_input L ?cg op i s a b) (\<lambda>s x. int_result L I op i a b x)"
    if "regs_ok c" "place_of L c = place_of L ?cg" "?H sp c = Some c'" for c c' sp
    unfolding input_places [OF that(2), symmetric] by (rule int_delivers [OF that(1) assms(4) h that(3) assms(6-8)]) (use assms(9,10) that(2) pl in auto)
  consider (reg) "spilled_result L op i ?cg = Some None" "?H False ?cg = Some cg'"
    | (slot) idx slot def_reg cg1 cg2 where "spilled_result L op i ?cg = Some (Some (idx, slot))" "cg_alloc_reg ?cg = Some (def_reg, cg1)"
      "?H True (cg1\<lparr>cg_regs := (cg_regs cg1)[idx := def_reg]\<rparr>) = Some cg2"
      "cg' = (let cg3 = cg_stw_sp_off (cg_val_slot_off cg2 slot) def_reg cg2 in cg3\<lparr>cg_regs := (cg_regs cg3)[idx := CG_REG_SPILLED]\<rparr>)"
  proof -
    obtain y where y: "spilled_result L op i ?cg = Some y" using wr by (auto simp: with_result_def bind_eq_Some_conv)
    note W = wr [unfolded with_result_def y Option.bind.simps]
    show thesis
    proof (cases y)
      case None
      then show thesis using reg y W by simp
    next
      case (Some z)
      obtain idx slot where z: "z = (idx, slot)" by (cases z)
      from W [unfolded Some z option.case prod.case bind_eq_Some_conv split_paired_Ex]
      obtain dr cg1 cg2 where "cg_alloc_reg ?cg = Some (dr, cg1)" "?H True (cg1\<lparr>cg_regs := (cg_regs cg1)[idx := dr]\<rparr>) = Some cg2"
        "cg' = (let cg3 = cg_stw_sp_off (cg_val_slot_off cg2 slot) dr cg2 in cg3\<lparr>cg_regs := (cg_regs cg3)[idx := CG_REG_SPILLED]\<rparr>)"
        unfolding Let_def option.inject by metis
      then show thesis by (rule slot [OF y [unfolded Some z]])
    qed
  qed
  then show ?thesis
  proof cases
    case reg
    from D [OF assms(1) refl reg(2)] show ?thesis
      by (rule result_in_register [OF _ reg(1) no assms(5)]) (rule that; simp add: pl w f input_places [OF pl])
  next
    case slot
    show ?thesis
      by (rule result_in_slot [OF assms(1) slot(1) assms(5) slot(2) refl slot(4) D [OF _ _ slot(3)]])
        (assumption | rule that; simp add: pl w f input_places [OF pl])+
  qed
qed


section \<open>On the machine\<close>

lemma set_pc_same: "heap_of (set_pc s p) = heap_of s" "vm_ok cx (set_pc s p) = vm_ok cx s" "R (set_pc s p) r = R s r"
  "vm_host (set_pc s p) = vm_host s"
  by (simp_all add: heap_of_def set_pc_def vm_ok_def)

lemma result_only_pc: "result_only cx L cg i s (set_pc s' p) = result_only cx L cg i s s'"
  by (simp only: result_only_def set_pc_same)

lemma word_of_pc: "word_of L cg (set_pc s' p) v = word_of L cg s' v"
proof -
  have "place_val (set_pc s' p) = place_val s'"
  proof (rule ext)
    show "place_val (set_pc s' p) q = place_val s' q" for q
      by (cases q) (simp_all add: slot_val_def slot_addr_def set_pc_same)
  qed
  then show ?thesis by (simp add: word_of_def)
qed


text \<open>\<open>%2 = udiv i8 %0, %1\<close> with its values in the registers 10, 11 and 12: the operands' words are 0x1C8 and 0xF05,
  which stand for 200 and 5.\<close>

definition small_udiv :: "(nat, nat, nat) llvm" where
  "small_udiv = small_llvm [(0, \<lparr>si_block = 0, si_opcode = LLVMLoad, si_width = 8, si_operands = [], si_incoming = []\<rparr>),
     (1, \<lparr>si_block = 0, si_opcode = LLVMLoad, si_width = 8, si_operands = [], si_incoming = []\<rparr>),
     (2, \<lparr>si_block = 0, si_opcode = LLVMUDiv, si_width = 8, si_operands = [0, 1], si_incoming = []\<rparr>)] (\<lambda>b. [])"

definition small_I :: "(nat, nat) llvm_inst" where
  "small_I = \<lparr>LLVMGetICmpPredicate = \<lambda>v. LLVMIntEQ, LLVMGetFCmpPredicate = \<lambda>v. LLVMRealPredicateFalse,
     LLVMIsConditional = \<lambda>v. False, LLVMGetCondition = \<lambda>v. v, LLVMGetNumSuccessors = \<lambda>v. 0, LLVMGetSuccessor = \<lambda>v k. 0,
     LLVMGetSwitchDefaultDest = \<lambda>v. 0, cvm_llvm_get_switch_case_value = \<lambda>v k. None, LLVMGetMaskValue = \<lambda>v k. 0,
     LLVMGetUndefMaskElem = 0\<rparr>"

definition udiv_vm :: "u32 list \<Rightarrow> unit vm" where
  "udiv_vm c = demo_vm c (replicate 48 0) (\<lambda>r. if r = 10 then 0x1C8 else if r = 11 then 0xF05 else 0)"

lemma small_udiv_simps:
  "LLVMGetIntTypeWidth small_udiv (LLVMTypeOf small_udiv 2) = 8" "LLVMGetOperand small_udiv 2 0 = 0" "LLVMGetOperand small_udiv 2 1 = 1"
  "LLVMGetInstructionOpcode small_udiv 2 = LLVMUDiv" "LLVMIsAGlobalAlias small_udiv v = False"
  by (simp_all add: small_udiv_def small_llvm_def Let_def)

lemma udiv_gen:
  obtains cg :: "(nat, nat) gen" where "gen_ok cg" "cg_code cg = []" "cg_regs cg = [10, 11, 12]" "cg_val_slot cg = replicate 3 CG_NO_SLOT"
    "cg_next_reg cg = 13" "cg_ssa_reg_high cg = 13"
    "\<forall>v. cg_lookup small_udiv cg v = Some (if v < 3 then Some v else None)"
proof -
  let ?g = "cg_reset_function_state cg_initial :: (nat, nat) gen"
  have ok: "value_table_ok small_udiv ?g"
    by (simp add: value_table_ok_def cg_reset_function_state_def cg_initial_def)
  obtain g where g: "value_table_ok small_udiv g" "cg_vals g = [0, 1, 2]"
    using assign_all_ok [OF ok, of "[(0, 0), (1, 0), (2, 0)]"] by (auto simp: cg_reset_function_state_def cg_initial_def)
  let ?c = "g\<lparr>cg_code := [], cg_regs := [10, 11, 12], cg_val_slot := replicate 3 CG_NO_SLOT, cg_next_reg := 13, cg_ssa_reg_high := 13,
    cg_zero_reg := CG_REG_ZERO, cg_free_list := []\<rparr>"
  have "cg_lookup small_udiv ?c v = cg_lookup small_udiv g v" for v by (simp add: cg_lookup_def)
  moreover have "index_of v [0, 1, 2 :: nat] = (if v < 3 then Some v else None)" for v by (auto simp: index_of.simps)
  ultimately show ?thesis using that [of ?c] lookup_first [OF g(1)] g(2) by (simp add: gen_ok_def)
qed

lemma udiv_emits:
  assumes "gen_ok cg" "cg_code cg = []" "cg_regs cg = [10, 11, 12]" "cg_val_slot cg = replicate 3 CG_NO_SLOT"
    "cg_next_reg cg = 13" "cg_ssa_reg_high cg = 13" "\<forall>v. cg_lookup small_udiv cg v = Some (if v < 3 then Some v else None)"
  shows "\<exists>cg'. scalar_instruction small_udiv small_I 0 2 cg = Some (Some cg') \<and> length (cg_code cg') = 5"
proof -
  have l: "cg_lookup small_udiv (cg\<lparr>cg_next_reg := n, cg_code := c\<rparr>) = cg_lookup small_udiv cg"
    "cg_lookup small_udiv (cg\<lparr>cg_next_reg := n\<rparr>) = cg_lookup small_udiv cg" for n c by (rule ext, simp add: cg_lookup_def)+
  have h: "scalar_case small_udiv small_I 0 sp LLVMUDiv 2 = Some (scalar_binop small_udiv LLVMUDiv 2)" for sp
    by (simp add: scalar_case_def binop_opcodes_def)
  have at3: "at [10, 11, 12 :: u8] 0 = Some 10" "at [10, 11, 12 :: u8] 1 = Some 11" "at [10, 11, 12 :: u8] 2 = Some 12"
    "at [CG_NO_SLOT, CG_NO_SLOT, CG_NO_SLOT] 0 = Some CG_NO_SLOT" "at [CG_NO_SLOT, CG_NO_SLOT, CG_NO_SLOT] 1 = Some CG_NO_SLOT"
    "at [CG_NO_SLOT, CG_NO_SLOT, CG_NO_SLOT] 2 = Some CG_NO_SLOT" by (simp_all add: at_def)
  have c: "const_code r 255 = [enc_i16 (op_value CVM_OP_MOVI) r 255]" for r by (simp add: const_code_def fits_i16_def)
  have rep: "replicate 3 CG_NO_SLOT = [CG_NO_SLOT, CG_NO_SLOT, CG_NO_SLOT]" by (simp add: numeral_eq_Suc)
  have m: "ucast (push_bit 8 (1 :: u64) - 1) = (255 :: u32)" by simp
  let ?c = "cg\<lparr>cg_next_reg := 13\<rparr>"
  have r: "cg_reg_for small_udiv 0 ?c = Some (10, ?c)" "cg_reg_for small_udiv 1 ?c = Some (11, ?c)"
    by (subst cg_reg_for.simps, simp add: small_udiv_simps l assms(3,4,7) rep at3)+
  have d: "reg_of small_udiv ?c 2 = Some 12" by (simp add: reg_of_def l assms(3,7) at3)
  have s: "spilled_result small_udiv LLVMUDiv 2 ?c = Some None" by (simp add: spilled_result_def l assms(4,7) rep at3)
  have "scalar_binop small_udiv LLVMUDiv 2 ?c = Some (cg\<lparr>cg_next_reg := 15, cg_code := [enc_i16 (op_value CVM_OP_MOVI) CG_REG_SCRATCH 255,
      enc_r (op_value CVM_OP_AND) 13 10 CG_REG_SCRATCH, enc_i16 (op_value CVM_OP_MOVI) CG_REG_SCRATCH 255,
      enc_r (op_value CVM_OP_AND) 14 11 CG_REG_SCRATCH, enc_r (op_value CVM_OP_DIVU) 12 13 14]\<rparr>)"
    using assms(1,2)
    by (simp add: scalar_binop_def small_udiv_simps r d Let_def cg_norm_reg_width_def cg_alloc_reg_def gen_ok_def CG_MAX_EMIT_REG_def
        cg_emit_load_const32_def fits_i16_def cg_emit_def del: One_nat_def)
  then show ?thesis by (simp add: scalar_instruction_def small_udiv_simps h with_result_def assms(6) s)
qed


end
