(* ===== verification/Intrinsics.thy ===== *)
theory Intrinsics
  imports Scalar
begin

text \<open>
  The calls of \<open>cg_function\<close> (\<open>src/tools/translator/translator.c\<close>) that are no calls in the emitted code: the
  intrinsics of LLVM and of the machine, one definition per group, in the order of the case \<open>LLVMCall\<close>.
\<close>

text \<open>What the lowering of calls reads beyond the records of the theories \<open>Llvm\<close> and \<open>Lanes\<close>.\<close>

record ('v, 't, 'b) llvm_call =
  LLVMGetNumArgOperands :: "'v \<Rightarrow> nat"
  LLVMGetCalledFunctionType :: "'v \<Rightarrow> 't option"
  LLVMIsFunctionVarArg :: "'t \<Rightarrow> bool"
  LLVMGlobalGetValueType :: "'v \<Rightarrow> 't"
  LLVMGetNormalDest :: "'v \<Rightarrow> 'b"
  LLVMGetUnwindDest :: "'v \<Rightarrow> 'b"
  LLVMGetNumClauses :: "'v \<Rightarrow> nat"
  LLVMIsCleanup :: "'v \<Rightarrow> bool"
  LLVMGetClause :: "'v \<Rightarrow> nat \<Rightarrow> 'v"

abbreviation rop :: "cvm_opcode \<Rightarrow> u8 \<Rightarrow> u8 \<Rightarrow> u8 \<Rightarrow> u32" where "rop cv a b c \<equiv> enc_r (op_value cv) a b c"
abbreviation movi :: "u8 \<Rightarrow> u16 \<Rightarrow> u32" where "movi a imm \<equiv> enc_i16 (op_value CVM_OP_MOVI) a imm"
abbreviation beq :: "u8 \<Rightarrow> u8 \<Rightarrow> u8 \<Rightarrow> u32" where "beq a b off \<equiv> enc_br (op_value CVM_OP_BEQ) a b off"
abbreviation bne :: "u8 \<Rightarrow> u8 \<Rightarrow> u8 \<Rightarrow> u32" where "bne a b off \<equiv> enc_br (op_value CVM_OP_BNE) a b off"
abbreviation jmp :: "u32 \<Rightarrow> u32" where "jmp off \<equiv> enc_i24 (op_value CVM_OP_JMP) off"

definition emits :: "u32 list \<Rightarrow> ('b, 'v) gen \<Rightarrow> ('b, 'v) gen" where "emits ws cg = fold cg_emit ws cg"

text \<open>The operand \<open>k\<close>, and the register of the result.\<close>

definition opnd :: "('v, 't, 'b) llvm \<Rightarrow> 'v \<Rightarrow> nat \<Rightarrow> ('b, 'v) gen \<Rightarrow> (u8 \<times> ('b, 'v) gen) option" where
  "opnd L i k cg = cg_reg_for L (LLVMGetOperand L i k) cg"

text \<open>\<open>dst = a\<close> if \<open>cond\<close> is not zero, else \<open>dst = b\<close>.\<close>

definition choose_words :: "u8 \<Rightarrow> u8 \<Rightarrow> u8 \<Rightarrow> u8 \<Rightarrow> u8 \<Rightarrow> u32 list" where
  "choose_words zero cond dst a b = [beq cond zero 2, rop CVM_OP_MOV dst a 0, jmp 1, rop CVM_OP_MOV dst b 0]"

section \<open>Jumps out of calls and exception types\<close>

definition lower_setjmp :: "('v, 't, 'b) llvm \<Rightarrow> 'v \<Rightarrow> ('b, 'v) gen \<Rightarrow> ('b, 'v) gen option" where
  "lower_setjmp L i cg = do {
     (env, cg1) \<leftarrow> opnd L i 0 cg;
     dst \<leftarrow> reg_of L cg1 i;
     Some (cg_emit (rop CVM_OP_SETJMP dst env 0) cg1)
   }"

definition lower_longjmp :: "('v, 't, 'b) llvm \<Rightarrow> 'v \<Rightarrow> ('b, 'v) gen \<Rightarrow> ('b, 'v) gen option" where
  "lower_longjmp L i cg = do {
     (env, cg1) \<leftarrow> opnd L i 0 cg;
     (val, cg2) \<leftarrow> opnd L i 1 cg1;
     Some (cg_emit (rop CVM_OP_LONGJMP env val 0) cg2)
   }"

definition lower_typeid :: "('v, 't, 'b) llvm \<Rightarrow> 'v \<Rightarrow> ('b, 'v) gen \<Rightarrow> ('b, 'v) gen option" where
  "lower_typeid L i cg = do { (a, cg1) \<leftarrow> opnd L i 0 cg; dst \<leftarrow> reg_of L cg1 i; Some (emit_mov dst a cg1) }"

section \<open>Absolute values\<close>

definition sext_words :: "u8 \<Rightarrow> u8 \<Rightarrow> nat \<Rightarrow> u32 list" where
  "sext_words d s w = [movi CG_REG_SCRATCH (of_nat (32 - w)), rop CVM_OP_SHL d s CG_REG_SCRATCH, rop CVM_OP_SAR d d CG_REG_SCRATCH]"

definition lower_abs :: "('v, 't, 'b) llvm \<Rightarrow> 'v \<Rightarrow> nat \<Rightarrow> ('b, 'v) gen \<Rightarrow> ('b, 'v) gen option" where
  "lower_abs L i w cg = do {
     (x0, cg1) \<leftarrow> opnd L i 0 cg;
     dst \<leftarrow> reg_of L cg1 i;
     (cond, cg2) \<leftarrow> cg_alloc_reg cg1;
     (neg, cg3) \<leftarrow> cg_alloc_reg cg2;
     (x, cg4) \<leftarrow> (if w < 32 then do { (sx, c) \<leftarrow> cg_alloc_reg cg3; Some (sx, emits (sext_words sx x0 w) c) } else Some (x0, cg3));
     let zero = cg_zero_reg cg;
     Some (emits ([rop CVM_OP_CMP_LT cond x zero, rop CVM_OP_SUB neg zero x] @ choose_words zero cond dst neg x) cg4)
   }"

definition lower_abs64 :: "('v, 't, 'b) llvm \<Rightarrow> 'v \<Rightarrow> ('b, 'v) gen \<Rightarrow> ('b, 'v) gen option" where
  "lower_abs64 L i cg = do {
     idx \<leftarrow> wide_index L cg i;
     (xl, xh, cg1) \<leftarrow> cg_i64_read L (LLVMGetOperand L i 0) cg;
     (m, cg2) \<leftarrow> cg_alloc_reg cg1;
     (xl2, cg3) \<leftarrow> cg_alloc_reg (cg_shift_imm (op_value CVM_OP_SAR) m xh 31 cg2);
     (xh2, cg4) \<leftarrow> cg_alloc_reg cg3;
     (lo, cg5) \<leftarrow> cg_alloc_reg (emits [rop CVM_OP_XOR xl2 xl m, rop CVM_OP_XOR xh2 xh m] cg4);
     (hi, cg6) \<leftarrow> cg_alloc_reg cg5;
     (borrow, cg7) \<leftarrow> cg_alloc_reg cg6;
     cg_i64_write idx lo hi (emits [rop CVM_OP_CMP_LTU borrow xl2 m, rop CVM_OP_SUB lo xl2 m, rop CVM_OP_SUB hi xh2 m,
       rop CVM_OP_SUB hi hi borrow] cg7)
   }"

section \<open>Counting bits\<close>

text \<open>Loops in the emitted code. The words that count how often \<open>x\<close> can be shifted right before it is zero:\<close>

definition length_words :: "u8 \<Rightarrow> u8 \<Rightarrow> u8 \<Rightarrow> u8 \<Rightarrow> u32 list" where
  "length_words zero x n one = [beq x zero 3, rop CVM_OP_SHR x x one, rop CVM_OP_ADD n n one, jmp (- 4)]"

definition ctlz_words :: "u8 \<Rightarrow> u8 \<Rightarrow> u8 \<Rightarrow> u8 \<Rightarrow> u8 \<Rightarrow> u8 \<Rightarrow> u8 \<Rightarrow> u32 list" where
  "ctlz_words zero src dst x n one k32 =
     [rop CVM_OP_MOV x src 0, movi n 0, movi one 1] @ length_words zero x n one @ [movi k32 32, rop CVM_OP_SUB dst k32 n]"

definition lower_ctlz :: "('v, 't, 'b) llvm \<Rightarrow> 'v \<Rightarrow> ('b, 'v) gen \<Rightarrow> ('b, 'v) gen option" where
  "lower_ctlz L i cg = do {
     (src, cg1) \<leftarrow> opnd L i 0 cg;
     dst \<leftarrow> reg_of L cg1 i;
     (x, cg2) \<leftarrow> cg_alloc_reg cg1;
     (n, cg3) \<leftarrow> cg_alloc_reg cg2;
     (one, cg4) \<leftarrow> cg_alloc_reg cg3;
     (k32, cg5) \<leftarrow> cg_alloc_reg cg4;
     Some (emits (ctlz_words (cg_zero_reg cg) src dst x n one k32) cg5)
   }"

definition lower_ctlz64 :: "('v, 't, 'b) llvm \<Rightarrow> 'v \<Rightarrow> ('b, 'v) gen \<Rightarrow> ('b, 'v) gen option" where
  "lower_ctlz64 L i cg = do {
     ix \<leftarrow> cg_lookup L cg i;
     idx \<leftarrow> ix;
     (lo, hi, cg1) \<leftarrow> cg_i64_read L (LLVMGetOperand L i 0) cg;
     (one, cg2) \<leftarrow> cg_alloc_reg cg1;
     (k32, cg3) \<leftarrow> cg_alloc_reg cg2;
     (clo, cg4) \<leftarrow> cg_alloc_reg cg3;
     (chi, cg5) \<leftarrow> cg_alloc_reg cg4;
     (x, cg6) \<leftarrow> cg_alloc_reg cg5;
     (res, cg7) \<leftarrow> cg_alloc_reg cg6;
     let zero = cg_zero_reg cg;
     cg_i64_write idx res zero (emits ([movi one 1, movi k32 32]
       @ [rop CVM_OP_MOV x lo 0, movi clo 0] @ length_words zero x clo one @ [rop CVM_OP_SUB clo k32 clo]
       @ [rop CVM_OP_MOV x hi 0, movi chi 0] @ length_words zero x chi one @ [rop CVM_OP_SUB chi k32 chi]
       @ [rop CVM_OP_ADD res k32 clo, beq hi zero 1, rop CVM_OP_MOV res chi 0]) cg7)
   }"

text \<open>The bits of a narrow operand above its width are cleared first.\<close>

definition confine :: "nat \<Rightarrow> u8 \<Rightarrow> ('b, 'v) gen \<Rightarrow> ('b, 'v) gen option" where
  "confine w x cg =
     (if w < 32 then map_option (\<lambda>(m, c). cg_emit (rop CVM_OP_AND x x m) c) (cg_fresh_const (width_mask w) cg) else Some cg)"

definition ctpop_words :: "u8 \<Rightarrow> u8 \<Rightarrow> u8 \<Rightarrow> u8 \<Rightarrow> u8 \<Rightarrow> u8 \<Rightarrow> u32 list" where
  "ctpop_words zero dst x n one t =
     [movi n 0, movi one 1, beq x zero 4, rop CVM_OP_SUB t x one, rop CVM_OP_AND x x t, rop CVM_OP_ADD n n one, jmp (- 5),
      rop CVM_OP_MOV dst n 0]"

definition cttz_words :: "nat \<Rightarrow> u8 \<Rightarrow> u8 \<Rightarrow> u8 \<Rightarrow> u8 \<Rightarrow> u8 \<Rightarrow> u8 \<Rightarrow> u32 list" where
  "cttz_words w zero dst x n one t =
     [movi n 0, movi one 1, beq x zero 5, rop CVM_OP_AND t x one, bne t zero 4, rop CVM_OP_SHR x x one, rop CVM_OP_ADD n n one,
      jmp (- 5), movi n (of_nat w), rop CVM_OP_MOV dst n 0]"

definition lower_count ::
  "('v, 't, 'b) llvm \<Rightarrow> 'v \<Rightarrow> nat \<Rightarrow> (u8 \<Rightarrow> u8 \<Rightarrow> u8 \<Rightarrow> u8 \<Rightarrow> u8 \<Rightarrow> u8 \<Rightarrow> u32 list) \<Rightarrow> ('b, 'v) gen \<Rightarrow> ('b, 'v) gen option" where
  "lower_count L i w body cg = do {
     (src, cg1) \<leftarrow> opnd L i 0 cg;
     dst \<leftarrow> reg_of L cg1 i;
     (x, cg2) \<leftarrow> cg_alloc_reg cg1;
     (n, cg3) \<leftarrow> cg_alloc_reg cg2;
     (one, cg4) \<leftarrow> cg_alloc_reg cg3;
     (t, cg5) \<leftarrow> cg_alloc_reg cg4;
     cg6 \<leftarrow> confine w x (cg_emit (rop CVM_OP_MOV x src 0) cg5);
     Some (emits (body (cg_zero_reg cg) dst x n one t) cg6)
   }"

definition lower_ctpop :: "('v, 't, 'b) llvm \<Rightarrow> 'v \<Rightarrow> nat \<Rightarrow> ('b, 'v) gen \<Rightarrow> ('b, 'v) gen option" where
  "lower_ctpop L i w = lower_count L i w ctpop_words"

definition lower_cttz :: "('v, 't, 'b) llvm \<Rightarrow> 'v \<Rightarrow> nat \<Rightarrow> ('b, 'v) gen \<Rightarrow> ('b, 'v) gen option" where
  "lower_cttz L i w = lower_count L i w (cttz_words w)"

section \<open>binary32\<close>

definition lower_fmuladd32 :: "('v, 't, 'b) llvm \<Rightarrow> ('v, 't, 'b) llvm_call \<Rightarrow> 'v \<Rightarrow> ('b, 'v) gen \<Rightarrow> ('b, 'v) gen option" where
  "lower_fmuladd32 L C i cg =
     (if LLVMGetNumArgOperands C i \<noteq> 3 then None
      else do {
        (a, cg1) \<leftarrow> opnd L i 0 cg;
        (b, cg2) \<leftarrow> opnd L i 1 cg1;
        (c, cg3) \<leftarrow> opnd L i 2 cg2;
        dst \<leftarrow> reg_of L cg3 i;
        (tmp, cg4) \<leftarrow> cg_alloc_reg cg3;
        Some (emits [rop CVM_OP_FMUL tmp a b, rop CVM_OP_FADD dst tmp c] cg4)
      })"

definition lower_fabs32 :: "('v, 't, 'b) llvm \<Rightarrow> 'v \<Rightarrow> ('b, 'v) gen \<Rightarrow> ('b, 'v) gen option" where
  "lower_fabs32 L i cg = do {
     (x, cg1) \<leftarrow> opnd L i 0 cg;
     dst \<leftarrow> reg_of L cg1 i;
     (msk, cg2) \<leftarrow> cg_fresh_const 0x7FFFFFFF cg1;
     Some (cg_emit (rop CVM_OP_AND dst x msk) cg2)
   }"

text \<open>One machine instruction on one or two operands.\<close>

definition lower_unary :: "('v, 't, 'b) llvm \<Rightarrow> ('v, 't, 'b) llvm_call \<Rightarrow> 'v \<Rightarrow> cvm_opcode \<Rightarrow> ('b, 'v) gen \<Rightarrow> ('b, 'v) gen option" where
  "lower_unary L C i cv cg =
     (if LLVMGetNumArgOperands C i \<noteq> 1 then None
      else do { (x, cg1) \<leftarrow> opnd L i 0 cg; dst \<leftarrow> reg_of L cg1 i; Some (cg_emit (rop cv dst x 0) cg1) })"

definition lower_binary :: "('v, 't, 'b) llvm \<Rightarrow> ('v, 't, 'b) llvm_call \<Rightarrow> 'v \<Rightarrow> cvm_opcode \<Rightarrow> ('b, 'v) gen \<Rightarrow> ('b, 'v) gen option" where
  "lower_binary L C i cv cg =
     (if LLVMGetNumArgOperands C i \<noteq> 2 then None
      else do {
        (lhs, cg1) \<leftarrow> opnd L i 0 cg;
        (rhs, cg2) \<leftarrow> opnd L i 1 cg1;
        dst \<leftarrow> reg_of L cg2 i;
        Some (cg_emit (rop cv dst lhs rhs) cg2)
      })"

definition lower_copysign32 :: "('v, 't, 'b) llvm \<Rightarrow> 'v \<Rightarrow> ('b, 'v) gen \<Rightarrow> ('b, 'v) gen option" where
  "lower_copysign32 L i cg = do {
     (x, cg1) \<leftarrow> opnd L i 0 cg;
     (y, cg2) \<leftarrow> opnd L i 1 cg1;
     dst \<leftarrow> reg_of L cg2 i;
     (mabs, cg3) \<leftarrow> cg_alloc_reg cg2;
     (msgn, cg4) \<leftarrow> cg_alloc_reg cg3;
     (tx, cg5) \<leftarrow> cg_alloc_reg cg4;
     let cg6 = cg_emit_load_const32 msgn 0x80000000 (cg_emit_load_const32 mabs 0x7FFFFFFF cg5);
     Some (emits [rop CVM_OP_AND tx x mabs, rop CVM_OP_AND dst y msgn, rop CVM_OP_OR dst dst tx] cg6)
   }"

section \<open>Order of bytes and bits\<close>

definition lower_bswap16 :: "('v, 't, 'b) llvm \<Rightarrow> 'v \<Rightarrow> ('b, 'v) gen \<Rightarrow> ('b, 'v) gen option" where
  "lower_bswap16 L i cg = do {
     (x, cg1) \<leftarrow> opnd L i 0 cg;
     dst \<leftarrow> reg_of L cg1 i;
     (t1, cg2) \<leftarrow> cg_alloc_reg cg1;
     (t2, cg3) \<leftarrow> cg_alloc_reg cg2;
     (k8, cg4) \<leftarrow> cg_alloc_reg cg3;
     (kff, cg5) \<leftarrow> cg_alloc_reg cg4;
     let cg6 = cg_emit_load_const32 kff 0xFF (cg_emit_load_const32 k8 8 cg5);
     Some (emits [rop CVM_OP_AND t1 x kff, rop CVM_OP_SHL t1 t1 k8, rop CVM_OP_SHR t2 x k8, rop CVM_OP_AND t2 t2 kff,
       rop CVM_OP_OR dst t1 t2] cg6)
   }"

definition lower_bswap32 :: "('v, 't, 'b) llvm \<Rightarrow> 'v \<Rightarrow> ('b, 'v) gen \<Rightarrow> ('b, 'v) gen option" where
  "lower_bswap32 L i cg = do {
     (x, cg1) \<leftarrow> opnd L i 0 cg;
     dst \<leftarrow> reg_of L cg1 i;
     (b0, cg2) \<leftarrow> cg_alloc_reg cg1;
     (b1, cg3) \<leftarrow> cg_alloc_reg cg2;
     (b2, cg4) \<leftarrow> cg_alloc_reg cg3;
     (b3, cg5) \<leftarrow> cg_alloc_reg cg4;
     (k8, cg6) \<leftarrow> cg_alloc_reg cg5;
     (k24, cg7) \<leftarrow> cg_alloc_reg cg6;
     (m1, cg8) \<leftarrow> cg_alloc_reg cg7;
     (m2, cg9) \<leftarrow> cg_alloc_reg cg8;
     let cg10 = cg_emit_load_const32 m2 0x00FF0000 (cg_emit_load_const32 m1 0x0000FF00 (cg_emit_load_const32 k24 24
       (cg_emit_load_const32 k8 8 cg9)));
     Some (emits [rop CVM_OP_SHR b0 x k24, rop CVM_OP_SHR b1 x k8, rop CVM_OP_AND b1 b1 m1, rop CVM_OP_SHL b2 x k8,
       rop CVM_OP_AND b2 b2 m2, rop CVM_OP_SHL b3 x k24, rop CVM_OP_OR dst b0 b1, rop CVM_OP_OR dst dst b2,
       rop CVM_OP_OR dst dst b3] cg10)
   }"

text \<open>Reversing bits swaps neighbours of 1, 2, 4, ... bits: the bits whose neighbour is above them.\<close>

definition rev_low :: "nat \<Rightarrow> nat \<Rightarrow> u32" where
  "rev_low w s = fold (\<lambda>b m. if b mod (2 * s) < s then m OR push_bit b 1 else m) [0..<w] 0"

definition rev_step :: "nat \<Rightarrow> u8 \<Rightarrow> u8 \<Rightarrow> u8 \<Rightarrow> u8 \<Rightarrow> u8 \<Rightarrow> nat \<Rightarrow> ('b, 'v) gen \<Rightarrow> ('b, 'v) gen" where
  "rev_step w x t mh ml sh s cg =
     (let lo = rev_low w s; hi = push_bit s lo AND width_mask w in
      emits [rop CVM_OP_AND t x mh, rop CVM_OP_SHR t t sh, rop CVM_OP_AND x x ml, rop CVM_OP_SHL x x sh, rop CVM_OP_OR x x t]
        (cg_emit_load_const32 sh (of_nat s) (cg_emit_load_const32 ml lo (cg_emit_load_const32 mh hi cg))))"

definition lower_bitreverse :: "('v, 't, 'b) llvm \<Rightarrow> 'v \<Rightarrow> nat \<Rightarrow> ('b, 'v) gen \<Rightarrow> ('b, 'v) gen option" where
  "lower_bitreverse L i w cg = do {
     (src, cg1) \<leftarrow> opnd L i 0 cg;
     dst \<leftarrow> reg_of L cg1 i;
     (x, cg2) \<leftarrow> cg_alloc_reg cg1;
     (t, cg3) \<leftarrow> cg_alloc_reg cg2;
     (mh, cg4) \<leftarrow> cg_alloc_reg cg3;
     (ml, cg5) \<leftarrow> cg_alloc_reg cg4;
     (sh, cg6) \<leftarrow> cg_alloc_reg cg5;
     (kw, cg7) \<leftarrow> cg_alloc_reg cg6;
     let cg8 = cg_emit (rop CVM_OP_AND x src kw) (cg_emit_load_const32 kw (width_mask w) cg7);
     let cg9 = fold (rev_step w x t mh ml sh) (filter (\<lambda>s. s < w) [1, 2, 4, 8, 16]) cg8;
     Some (cg_emit (rop CVM_OP_MOV dst x 0) cg9)
   }"

section \<open>Funnel shifts\<close>

definition lower_funnel64 :: "('v, 't, 'b) llvm \<Rightarrow> bool \<Rightarrow> 'v \<Rightarrow> ('b, 'v) gen \<Rightarrow> ('b, 'v) gen option" where
  "lower_funnel64 L right i cg = do {
     ridx \<leftarrow> wide_index L cg i;
     slot \<leftarrow> at (cg_i64_slot cg) ridx;
     cg_emit_runtime_call L i (if right then ''__cvm_fshr64'' else ''__cvm_fshl64'')
       [LLVMGetOperand L i 0, LLVMGetOperand L i 1, LLVMGetOperand L i 2] None (Some slot) 0 0 cg
   }"

definition lower_funnel :: "('v, 't, 'b) llvm \<Rightarrow> bool \<Rightarrow> nat \<Rightarrow> 'v \<Rightarrow> ('b, 'v) gen \<Rightarrow> ('b, 'v) gen option" where
  "lower_funnel L right w i cg = do {
     (a, cg1) \<leftarrow> opnd L i 0 cg;
     (b, cg2) \<leftarrow> opnd L i 1 cg1;
     (c, cg3) \<leftarrow> opnd L i 2 cg2;
     dst \<leftarrow> reg_of L cg3 i;
     (a_sh, cg4) \<leftarrow> cg_alloc_reg cg3;
     (b_sh, cg5) \<leftarrow> cg_alloc_reg cg4;
     (inv, cg6) \<leftarrow> cg_alloc_reg cg5;
     (s, cg7) \<leftarrow> (if w < 32 then do {
         (s, c7) \<leftarrow> cg_alloc_reg cg6;
         Some (s, cg_emit (rop CVM_OP_AND s c CG_REG_SCRATCH) (cg_movi_scratch (of_nat (w - 1)) c7))
       } else Some (c, cg6));
     let cg8 = cg_emit (rop CVM_OP_SUB inv CG_REG_SCRATCH s) (cg_movi_scratch (of_nat w)
       (cg_emit (if right then rop CVM_OP_SHR b_sh b s else rop CVM_OP_SHL a_sh a s) cg7));
     let cg9 = (if right then cg_emit (rop CVM_OP_SHL a_sh a inv) cg8
       else if w < 32 then emits [rop CVM_OP_AND b_sh b CG_REG_SCRATCH, rop CVM_OP_SHR b_sh b_sh inv] (cg_movi_scratch (width_mask w) cg8)
       else cg_emit (rop CVM_OP_SHR b_sh b inv) cg8);
     let cg10 = cg_emit (rop CVM_OP_OR dst a_sh b_sh) cg9;
     let cg11 = (if w < 32 then cg_emit (rop CVM_OP_AND dst dst CG_REG_SCRATCH) (cg_movi_scratch (width_mask w) cg10) else cg10);
     Some (emits [bne s (cg_zero_reg cg) 1, rop CVM_OP_MOV dst (if right then b else a) 0] cg11)
   }"

section \<open>Machine instructions by name\<close>

definition lower_qdiv64 :: "('v, 't, 'b) llvm \<Rightarrow> ('v, 't, 'b) llvm_call \<Rightarrow> 'v \<Rightarrow> ('b, 'v) gen \<Rightarrow> ('b, 'v) gen option" where
  "lower_qdiv64 L C i cg =
     (if LLVMGetNumArgOperands C i \<noteq> 3 then None
      else do {
        (r_hi, cg1) \<leftarrow> opnd L i 0 cg;
        (r_lo, cg2) \<leftarrow> opnd L i 1 cg1;
        (r_dv, cg3) \<leftarrow> opnd L i 2 cg2;
        dst \<leftarrow> reg_of L cg3 i;
        (tmp, cg4) \<leftarrow> cg_alloc_reg cg3;
        Some (emits [rop CVM_OP_MOV tmp r_hi 0, rop CVM_OP_QDIV6432 tmp r_lo r_dv, rop CVM_OP_MOV dst tmp 0] cg4)
      })"

definition cvm_intrin :: "string \<Rightarrow> (nat \<times> cvm_opcode) option" where
  "cvm_intrin name =
     (if name = ''cvm_intrin_mulh'' then Some (2, CVM_OP_MULH)
      else if name = ''cvm_intrin_mulhu'' then Some (2, CVM_OP_MULHU)
      else if name = ''cvm_intrin_qdiv_16_16'' then Some (2, CVM_OP_QDIV1616)
      else if name = ''cvm_intrin_f2i_sat_s'' then Some (1, CVM_OP_F2I_S)
      else if name = ''cvm_intrin_f2i_sat_u'' then Some (1, CVM_OP_F2I_U)
      else if name = ''cvm_intrin_fsqrt'' then Some (1, CVM_OP_FSQRT)
      else None)"

section \<open>Minimum, maximum, saturation, three-way comparison\<close>

text \<open>Both operands of a width below 32, extended to words.\<close>

definition widen_both :: "bool \<Rightarrow> int \<Rightarrow> u8 \<Rightarrow> u8 \<Rightarrow> ('b, 'v) gen \<Rightarrow> ((u8 \<times> u8) \<times> ('b, 'v) gen) option" where
  "widen_both sg w a b cg =
     (if \<not> (0 < w \<and> w < 32) then Some ((a, b), cg)
      else do {
        (ca, cg1) \<leftarrow> cg_alloc_reg cg;
        (cb, cg2) \<leftarrow> cg_alloc_reg cg1;
        (k, cg3) \<leftarrow> cg_fresh_const (if sg then of_int (32 - w) else width_mask (nat w)) cg2;
        Some ((ca, cb), emits (if sg
          then [rop CVM_OP_SHL ca a k, rop CVM_OP_SAR ca ca k, rop CVM_OP_SHL cb b k, rop CVM_OP_SAR cb cb k]
          else [rop CVM_OP_AND ca a k, rop CVM_OP_AND cb b k]) cg3)
      })"

definition lower_minmax :: "('v, 't, 'b) llvm \<Rightarrow> bool \<Rightarrow> bool \<Rightarrow> int \<Rightarrow> 'v \<Rightarrow> ('b, 'v) gen \<Rightarrow> ('b, 'v) gen option" where
  "lower_minmax L is_min sg w i cg = do {
     (a, cg1) \<leftarrow> opnd L i 0 cg;
     (b2, cg2) \<leftarrow> opnd L i 1 cg1;
     dst \<leftarrow> reg_of L cg2 i;
     ((ca, cb), cg3) \<leftarrow> widen_both sg w a b2 cg2;
     (cond, cg4) \<leftarrow> cg_alloc_reg cg3;
     Some (emits (rop (if sg then CVM_OP_CMP_LT else CVM_OP_CMP_LTU) cond ca cb
       # choose_words (cg_zero_reg cg) cond dst (if is_min then a else b2) (if is_min then b2 else a)) cg4)
   }"

definition lower_saturate :: "('v, 't, 'b) llvm \<Rightarrow> bool \<Rightarrow> int \<Rightarrow> 'v \<Rightarrow> ('b, 'v) gen \<Rightarrow> ('b, 'v) gen option" where
  "lower_saturate L sat_sub w i cg = do {
     (a, cg1) \<leftarrow> opnd L i 0 cg;
     (b2, cg2) \<leftarrow> opnd L i 1 cg1;
     dst \<leftarrow> reg_of L cg2 i;
     (tmp, cg3) \<leftarrow> cg_alloc_reg cg2;
     (cond, cg4) \<leftarrow> cg_alloc_reg cg3;
     let zero = cg_zero_reg cg;
     if sat_sub then Some (emits ([rop CVM_OP_SUB tmp a b2, rop CVM_OP_CMP_LTU cond a b2] @ choose_words zero cond dst zero tmp) cg4)
     else do {
       (max_r, cg5) \<leftarrow> cg_alloc_reg cg4;
       let narrow = (0 < w \<and> w < 32);
       let cg6 = cg_emit_load_const32 max_r (if narrow then width_mask (nat w) else - 1) (cg_emit (rop CVM_OP_ADD tmp a b2) cg5);
       Some (emits ((if narrow then rop CVM_OP_CMP_LTU cond max_r tmp else rop CVM_OP_CMP_LTU cond tmp a)
         # choose_words zero cond dst max_r tmp) cg6)
     }
   }"

definition lower_cmp3 :: "('v, 't, 'b) llvm \<Rightarrow> bool \<Rightarrow> 'v \<Rightarrow> ('b, 'v) gen \<Rightarrow> ('b, 'v) gen option" where
  "lower_cmp3 L sg i cg = do {
     (a, cg1) \<leftarrow> opnd L i 0 cg;
     (b2, cg2) \<leftarrow> opnd L i 1 cg1;
     dst \<leftarrow> reg_of L cg2 i;
     ((ca, cb), cg3) \<leftarrow> widen_both sg (int (LLVMGetIntTypeWidth L (LLVMTypeOf L (LLVMGetOperand L i 0)))) a b2 cg2;
     (gt, cg4) \<leftarrow> cg_alloc_reg cg3;
     (lt, cg5) \<leftarrow> cg_alloc_reg cg4;
     let cmp = (if sg then CVM_OP_CMP_LT else CVM_OP_CMP_LTU);
     Some (emits [rop cmp gt cb ca, rop cmp lt ca cb, rop CVM_OP_SUB dst gt lt] cg5)
   }"

section \<open>Arithmetic with overflow\<close>

text \<open>Words stored to the consecutive slots of a result.\<close>

primrec store_slots :: "u16 \<Rightarrow> u8 list \<Rightarrow> ('b, 'v) gen \<Rightarrow> ('b, 'v) gen" where
  "store_slots base [] cg = cg"
| "store_slots base (r # rs) cg = store_slots (base + 1) rs (cg_stw_sp_off (cg_val_slot_off cg base) r cg)"

definition overflow32 :: "('v, 't, 'b) llvm \<Rightarrow> bool \<Rightarrow> u16 \<Rightarrow> 'v \<Rightarrow> ('b, 'v) gen \<Rightarrow> ('b, 'v) gen option" where
  "overflow32 L mul base i cg = do {
     (a, cg1) \<leftarrow> opnd L i 0 cg;
     (b, cg2) \<leftarrow> opnd L i 1 cg1;
     (val, cg3) \<leftarrow> cg_alloc_reg cg2;
     (ovf, cg4) \<leftarrow> cg_alloc_reg cg3;
     cg5 \<leftarrow> (if \<not> mul then Some (emits [rop CVM_OP_ADD val a b, rop CVM_OP_CMP_LTU ovf val a] cg4)
       else do {
         (hi, c) \<leftarrow> cg_alloc_reg cg4;
         Some (emits [rop CVM_OP_MUL val a b, rop CVM_OP_MULHU hi a b, rop CVM_OP_CMP_LTU ovf (cg_zero_reg cg) hi] c)
       });
     Some (store_slots base [val, ovf] cg5)
   }"

definition overflow65 :: "('v, 't, 'b) llvm \<Rightarrow> u16 \<Rightarrow> 'v \<Rightarrow> ('b, 'v) gen \<Rightarrow> ('b, 'v) gen option" where
  "overflow65 L base i cg = do {
     (a0, a1, a2, cg1) \<leftarrow> cg_i65_read L (LLVMGetOperand L i 0) cg;
     (b0, b1, b2, cg2) \<leftarrow> cg_i65_read L (LLVMGetOperand L i 1) cg1;
     (w0, cg3) \<leftarrow> cg_alloc_reg cg2;
     (w1, cg4) \<leftarrow> cg_alloc_reg cg3;
     (w2, cg5) \<leftarrow> cg_alloc_reg cg4;
     (c0, cg6) \<leftarrow> cg_alloc_reg cg5;
     (t, cg7) \<leftarrow> cg_alloc_reg cg6;
     (ca, cg8) \<leftarrow> cg_alloc_reg cg7;
     (cb, cg9) \<leftarrow> cg_alloc_reg cg8;
     (c1, cg10) \<leftarrow> cg_alloc_reg cg9;
     (canon, cg11) \<leftarrow> cg_alloc_reg cg10;
     (ovf, cg12) \<leftarrow> cg_alloc_reg cg11;
     let cg13 = emits [rop CVM_OP_ADD w0 a0 b0, rop CVM_OP_CMP_LTU c0 w0 a0, rop CVM_OP_ADD t a1 b1, rop CVM_OP_CMP_LTU ca t a1,
       rop CVM_OP_ADD w1 t c0, rop CVM_OP_CMP_LTU cb w1 t, rop CVM_OP_OR c1 ca cb, rop CVM_OP_ADD w2 a2 b2,
       rop CVM_OP_ADD w2 w2 c1] cg12;
     let cg14 = cg_emit (rop CVM_OP_CMP_NE ovf w2 canon) (cg_shift_imm (op_value CVM_OP_SAR) canon canon 31
       (cg_shift_imm (op_value CVM_OP_SHL) canon w2 31 cg13));
     Some (store_slots base [w0, w1, canon, ovf] cg14)
   }"

text \<open>Signed addition of 33 to 63 bits: the high word is compared with its sign extension.\<close>

definition overflow_signed :: "('v, 't, 'b) llvm \<Rightarrow> nat \<Rightarrow> u16 \<Rightarrow> 'v \<Rightarrow> ('b, 'v) gen \<Rightarrow> ('b, 'v) gen option" where
  "overflow_signed L bits base i cg = do {
     (al, ah, cg1) \<leftarrow> cg_i64_read L (LLVMGetOperand L i 0) cg;
     (bl, bh, cg2) \<leftarrow> cg_i64_read L (LLVMGetOperand L i 1) cg1;
     (lo, cg3) \<leftarrow> cg_alloc_reg cg2;
     (hi, cg4) \<leftarrow> cg_alloc_reg cg3;
     (carry, cg5) \<leftarrow> cg_alloc_reg cg4;
     (canon, cg6) \<leftarrow> cg_alloc_reg cg5;
     (ovf, cg7) \<leftarrow> cg_alloc_reg cg6;
     let s = 64 - bits;
     let cg8 = emits [rop CVM_OP_ADD lo al bl, rop CVM_OP_CMP_LTU carry lo al, rop CVM_OP_ADD hi ah bh, rop CVM_OP_ADD hi hi carry] cg7;
     let cg9 = cg_emit (rop CVM_OP_CMP_NE ovf hi canon) (cg_shift_imm (op_value CVM_OP_SAR) canon canon s
       (cg_shift_imm (op_value CVM_OP_SHL) canon hi s cg8));
     Some (store_slots base [lo, canon, ovf] cg9)
   }"

definition overflow_add64 :: "u8 \<Rightarrow> u8 \<Rightarrow> u8 \<Rightarrow> u8 \<Rightarrow> u8 \<Rightarrow> u8 \<Rightarrow> u8 \<Rightarrow> ('b, 'v) gen \<Rightarrow> ('b, 'v) gen option" where
  "overflow_add64 al ah bl bh lo hi ovf cg = do {
     (c1, cg1) \<leftarrow> cg_alloc_reg cg;
     (c2, cg2) \<leftarrow> cg_alloc_reg cg1;
     (c3, cg3) \<leftarrow> cg_alloc_reg cg2;
     (t, cg4) \<leftarrow> cg_alloc_reg cg3;
     Some (emits [rop CVM_OP_ADD lo al bl, rop CVM_OP_CMP_LTU c1 lo al, rop CVM_OP_ADD t ah bh, rop CVM_OP_CMP_LTU c2 t ah,
       rop CVM_OP_ADD hi t c1, rop CVM_OP_CMP_LTU c3 hi t, rop CVM_OP_OR ovf c2 c3] cg4)
   }"

definition overflow_mul64 :: "u8 \<Rightarrow> u8 \<Rightarrow> u8 \<Rightarrow> u8 \<Rightarrow> u8 \<Rightarrow> u8 \<Rightarrow> u8 \<Rightarrow> ('b, 'v) gen \<Rightarrow> ('b, 'v) gen option" where
  "overflow_mul64 al ah bl bh lo hi ovf cg = do {
     (t0hi, cg1) \<leftarrow> cg_alloc_reg cg;
     (t1lo, cg2) \<leftarrow> cg_alloc_reg cg1;
     (t1hi, cg3) \<leftarrow> cg_alloc_reg cg2;
     (t2lo, cg4) \<leftarrow> cg_alloc_reg cg3;
     (t2hi, cg5) \<leftarrow> cg_alloc_reg cg4;
     let cg6 = emits [rop CVM_OP_MUL lo al bl, rop CVM_OP_MULHU t0hi al bl, rop CVM_OP_MUL t1lo al bh, rop CVM_OP_MULHU t1hi al bh,
       rop CVM_OP_MUL t2lo ah bl, rop CVM_OP_MULHU t2hi ah bl] cg5;
     (s, cg7) \<leftarrow> cg_alloc_reg cg6;
     (ca, cg8) \<leftarrow> cg_alloc_reg cg7;
     (cb, cg9) \<leftarrow> cg_alloc_reg cg8;
     let cg10 = emits [rop CVM_OP_ADD s t0hi t1lo, rop CVM_OP_CMP_LTU ca s t0hi, rop CVM_OP_ADD hi s t2lo, rop CVM_OP_CMP_LTU cb hi s] cg9;
     (ov, cg11) \<leftarrow> cg_alloc_reg cg10;
     (tmp, cg12) \<leftarrow> cg_alloc_reg cg11;
     let zero = cg_zero_reg cg;
     let cg13 = emits [rop CVM_OP_CMP_LTU ov zero t1hi, rop CVM_OP_CMP_LTU tmp zero t2hi, rop CVM_OP_OR ov ov tmp,
       rop CVM_OP_OR tmp ca cb, rop CVM_OP_OR ov ov tmp] cg12;
     (ahnz, cg14) \<leftarrow> cg_alloc_reg cg13;
     (bhnz, cg15) \<leftarrow> cg_alloc_reg cg14;
     Some (emits [rop CVM_OP_CMP_LTU ahnz zero ah, rop CVM_OP_CMP_LTU bhnz zero bh, rop CVM_OP_AND tmp ahnz bhnz,
       rop CVM_OP_OR ovf ov tmp] cg15)
   }"

definition overflow64 :: "('v, 't, 'b) llvm \<Rightarrow> bool \<Rightarrow> u16 \<Rightarrow> 'v \<Rightarrow> ('b, 'v) gen \<Rightarrow> ('b, 'v) gen option" where
  "overflow64 L mul base i cg = do {
     (al, ah, cg1) \<leftarrow> cg_i64_read L (LLVMGetOperand L i 0) cg;
     (bl, bh, cg2) \<leftarrow> cg_i64_read L (LLVMGetOperand L i 1) cg1;
     (lo, cg3) \<leftarrow> cg_alloc_reg cg2;
     (hi, cg4) \<leftarrow> cg_alloc_reg cg3;
     (ovf, cg5) \<leftarrow> cg_alloc_reg cg4;
     cg6 \<leftarrow> (if mul then overflow_mul64 al ah bl bh lo hi ovf cg5 else overflow_add64 al ah bl bh lo hi ovf cg5);
     Some (store_slots base [lo, hi, ovf] cg6)
   }"

definition lower_overflow :: "('v, 't, 'b) llvm \<Rightarrow> nat \<Rightarrow> int \<Rightarrow> 'v \<Rightarrow> ('b, 'v) gen \<Rightarrow> ('b, 'v) gen option" where
  "lower_overflow L ov_mul bits i cg = do {
     base \<leftarrow> agg_slot_of L cg i;
     if bits = 32 then overflow32 L (ov_mul \<noteq> 0) base i cg
     else if ov_mul = 2 \<and> bits = 65 then overflow65 L base i cg
     else if ov_mul = 2 then overflow_signed L (nat bits) base i cg
     else overflow64 L (ov_mul \<noteq> 0) base i cg
   }"

section \<open>Memory and variadic arguments\<close>

definition lower_mem :: "('v, 't, 'b) llvm \<Rightarrow> ('v, 't, 'b) llvm_call \<Rightarrow> cvm_opcode \<Rightarrow> 'v \<Rightarrow> ('b, 'v) gen \<Rightarrow> ('b, 'v) gen option" where
  "lower_mem L C cv i cg =
     (let len_v = LLVMGetOperand L i 2; lty = LLVMTypeOf L len_v;
          lw = (if LLVMGetTypeKind L lty = LLVMIntegerTypeKind then LLVMGetIntTypeWidth L lty else 0) in
      if LLVMGetNumArgOperands C i < 3 then None
      else if lw \<noteq> 32 \<and> lw \<noteq> 64 then None
      else if lw = 64 \<and> (\<not> LLVMIsAConstantInt L len_v \<or> LLVMConstIntGetZExtValue L len_v > 0xFFFFFFFF) then None
      else do {
        (dst, cg1) \<leftarrow> opnd L i 0 cg;
        (mid, cg2) \<leftarrow> opnd L i 1 cg1;
        (len, cg3) \<leftarrow> opnd L i 2 cg2;
        Some (cg_emit (rop cv dst mid len) cg3)
      })"

definition lower_va_start :: "('v, 't, 'b) llvm \<Rightarrow> nat \<Rightarrow> 'v \<Rightarrow> ('b, 'v) gen \<Rightarrow> ('b, 'v) gen option" where
  "lower_va_start L n_named i cg = do {
     (ap, cg1) \<leftarrow> opnd L i 0 cg;
     Some (cg_emit (rop CVM_OP_STW 0 ap CG_REG_SCRATCH) (cg_addr_sp_plus (cg_frame_bytes cg + 4 + of_nat n_named * 4) cg1))
   }"

definition lower_va_copy :: "('v, 't, 'b) llvm \<Rightarrow> 'v \<Rightarrow> ('b, 'v) gen \<Rightarrow> ('b, 'v) gen option" where
  "lower_va_copy L i cg = do {
     (dst, cg1) \<leftarrow> opnd L i 0 cg;
     (src, cg2) \<leftarrow> opnd L i 1 cg1;
     (tmp, cg3) \<leftarrow> cg_alloc_reg cg2;
     Some (emits [rop CVM_OP_LDW tmp src 0, rop CVM_OP_STW 0 dst tmp] cg3)
   }"

section \<open>The cases of a call by name\<close>

text \<open>A number behind a prefix of the name, as \<open>atoi\<close> reads it.\<close>

definition has_prefix :: "string \<Rightarrow> string \<Rightarrow> bool" where "has_prefix pre name \<longleftrightarrow> take (length pre) name = pre"

definition width_after :: "string \<Rightarrow> string \<Rightarrow> int" where "width_after pre name = atoi_digits 0 (drop (length pre) name)"

definition lower_bits :: "('v, 't, 'b) llvm \<Rightarrow> 'v \<Rightarrow> string \<Rightarrow> (('b, 'v) gen \<Rightarrow> ('b, 'v) gen option) option" where
  "lower_bits L i name =
     (if has_prefix ''llvm.abs.i'' name \<and> width_after ''llvm.abs.i'' name \<in> {8, 16, 32}
      then Some (lower_abs L i (nat (width_after ''llvm.abs.i'' name)))
      else if has_prefix ''llvm.abs.i'' name \<and> width_after ''llvm.abs.i'' name = 64 then Some (lower_abs64 L i)
      else if name = ''llvm.ctlz.i32'' then Some (lower_ctlz L i)
      else if name = ''llvm.ctlz.i64'' then Some (lower_ctlz64 L i)
      else if name = ''llvm.ctpop.i32'' then Some (lower_ctpop L i 32)
      else if name = ''llvm.ctpop.i16'' then Some (lower_ctpop L i 16)
      else if name = ''llvm.ctpop.i8'' then Some (lower_ctpop L i 8)
      else None)"

definition lower_float :: "('v, 't, 'b) llvm \<Rightarrow> ('v, 't, 'b) llvm_call \<Rightarrow> 'v \<Rightarrow> string \<Rightarrow> (('b, 'v) gen \<Rightarrow> ('b, 'v) gen option) option" where
  "lower_float L C i name =
     (if name = ''llvm.fmuladd.f32'' then Some (lower_fmuladd32 L C i)
      else if name \<in> {''llvm.fabs.f32'', ''fabsf''} then Some (lower_fabs32 L i)
      else if name \<in> {''llvm.sqrt.f32'', ''sqrtf''} then Some (lower_unary L C i CVM_OP_FSQRT)
      else if name \<in> {''llvm.floor.f32'', ''floorf''} then Some (lower_unary L C i CVM_OP_FFLOOR)
      else if name \<in> {''llvm.ceil.f32'', ''ceilf''} then Some (lower_unary L C i CVM_OP_FCEIL)
      else if name \<in> {''llvm.trunc.f32'', ''truncf''} then Some (lower_unary L C i CVM_OP_FTRUNC)
      else if name = ''llvm.copysign.f32'' then Some (lower_copysign32 L i)
      else None)"

definition lower_order :: "('v, 't, 'b) llvm \<Rightarrow> ('v, 't, 'b) llvm_call \<Rightarrow> 'v \<Rightarrow> string \<Rightarrow> (('b, 'v) gen \<Rightarrow> ('b, 'v) gen option) option" where
  "lower_order L C i name =
     (if name = ''llvm.bswap.i16'' then Some (lower_bswap16 L i)
      else if name = ''llvm.bswap.i32'' then Some (lower_bswap32 L i)
      else if name = ''llvm.bitreverse.i8'' then Some (lower_bitreverse L i 8)
      else if name = ''llvm.bitreverse.i16'' then Some (lower_bitreverse L i 16)
      else if name = ''llvm.bitreverse.i32'' then Some (lower_bitreverse L i 32)
      else if name = ''llvm.cttz.i32'' then Some (lower_cttz L i 32)
      else if name = ''llvm.cttz.i16'' then Some (lower_cttz L i 16)
      else if name = ''llvm.cttz.i8'' then Some (lower_cttz L i 8)
      else if has_prefix ''llvm.fshl.i'' name \<or> has_prefix ''llvm.fshr.i'' name then
        (let right = has_prefix ''llvm.fshr.i'' name; w = width_after ''llvm.fshl.i'' name in
         Some (\<lambda>cg. if LLVMGetNumArgOperands C i \<noteq> 3 then None
           else if w = 64 then lower_funnel64 L right i cg
           else if w \<le> 0 \<or> w > 32 then None
           else lower_funnel L right (nat w) i cg))
      else None)"

definition lower_compare :: "('v, 't, 'b) llvm \<Rightarrow> 'v \<Rightarrow> string \<Rightarrow> (('b, 'v) gen \<Rightarrow> ('b, 'v) gen option) option" where
  "lower_compare L i name =
     (if has_prefix ''llvm.smax.i'' name then Some (lower_minmax L False True (width_after ''llvm.smax.i'' name) i)
      else if has_prefix ''llvm.smin.i'' name then Some (lower_minmax L True True (width_after ''llvm.smin.i'' name) i)
      else if has_prefix ''llvm.umax.i'' name then Some (lower_minmax L False False (width_after ''llvm.umax.i'' name) i)
      else if has_prefix ''llvm.umin.i'' name then Some (lower_minmax L True False (width_after ''llvm.umin.i'' name) i)
      else if has_prefix ''llvm.uadd.sat.i'' name then Some (lower_saturate L False (width_after ''llvm.uadd.sat.i'' name) i)
      else if has_prefix ''llvm.usub.sat.i'' name then Some (lower_saturate L True (width_after ''llvm.usub.sat.i'' name) i)
      else if has_prefix ''llvm.sadd.sat.i'' name \<or> has_prefix ''llvm.ssub.sat.i'' name then Some (\<lambda>cg. None)
      else if has_prefix ''llvm.scmp.i'' name then Some (lower_cmp3 L True i)
      else if has_prefix ''llvm.ucmp.i'' name then Some (lower_cmp3 L False i)
      else None)"

text \<open>Calls that emit nothing.\<close>

definition no_code_calls :: "string list" where
  "no_code_calls = [''llvm.lifetime.'', ''llvm.invariant.start'', ''llvm.invariant.end'', ''llvm.assume'', ''llvm.donothing'']"

definition lower_memory :: "('v, 't, 'b) llvm \<Rightarrow> ('v, 't, 'b) llvm_call \<Rightarrow> nat \<Rightarrow> 'v \<Rightarrow> string \<Rightarrow> (('b, 'v) gen \<Rightarrow> ('b, 'v) gen option) option" where
  "lower_memory L C n_named i name =
     (if has_prefix ''llvm.memcpy.'' name then Some (lower_mem L C CVM_OP_MEMCPY i)
      else if has_prefix ''llvm.memmove.'' name then Some (lower_mem L C CVM_OP_MEMMOVE i)
      else if has_prefix ''llvm.memset.'' name then Some (lower_mem L C CVM_OP_MEMSET i)
      else if list_ex (\<lambda>pre. has_prefix pre name) no_code_calls then Some Some
      else if name = ''llvm.trap'' \<or> name = ''llvm.debugtrap'' then Some (\<lambda>cg. Some (cg_emit (rop CVM_OP_HALT 0 0 0) cg))
      else if has_prefix ''llvm.experimental.noalias.scope.decl'' name then Some Some
      else if has_prefix ''llvm.va_start'' name then Some (lower_va_start L n_named i)
      else if has_prefix ''llvm.va_end'' name then Some Some
      else if has_prefix ''llvm.va_copy'' name then Some (lower_va_copy L i)
      else if has_prefix ''llvm.'' name then Some (\<lambda>cg. None)
      else None)"

end
