(* ===== verification/Globals.thy ===== *)
theory Globals
  imports Scalar
begin

text \<open>
  Global variables in the translator (\<open>src/tools/translator/translator.c\<close>): the types it accepts, the layout of the
  DATA section, and the bytes of initialisers.
\<close>

text \<open>What this part reads beyond the record of the theory \<open>Llvm\<close>.\<close>

record ('v, 't) llvm_module =
  LLVMGlobals :: "'v list"
  LLVMIsDeclaration :: "'v \<Rightarrow> bool"
  gv_type :: "'v \<Rightarrow> 't option"
  gv_alignment :: "'v \<Rightarrow> u32"
  type_alignment :: "'t \<Rightarrow> u32"
  LLVMGetInitializer :: "'v \<Rightarrow> 'v option"
  LLVMGetArrayLength :: "'t \<Rightarrow> nat"

section \<open>Types\<close>

definition LLVMLabelTypeKind :: LLVMTypeKind where "LLVMLabelTypeKind = LLVMOtherTypeKind 7"
definition LLVMFunctionTypeKind :: LLVMTypeKind where "LLVMFunctionTypeKind = LLVMOtherTypeKind 9"
definition LLVMMetadataTypeKind :: LLVMTypeKind where "LLVMMetadataTypeKind = LLVMOtherTypeKind 14"

definition leaf_in_subset :: "('v, 't, 'b) llvm \<Rightarrow> 't \<Rightarrow> bool" where
  "leaf_in_subset L t =
     (let k = LLVMGetTypeKind L t; bits = LLVMGetIntTypeWidth L t in
      if k = LLVMIntegerTypeKind then bits \<ge> 1 \<and> bits \<le> 32 \<or> bits \<ge> 33 \<and> bits \<le> 64 \<or> bits = 65
      else if k = LLVMVectorTypeKind then
        let et = LLVMGetElementType L t; ek = LLVMGetTypeKind L et; lanes = LLVMGetVectorSize L t in
        (ek = LLVMIntegerTypeKind \<and> LLVMGetIntTypeWidth L et \<le> 32 \<or> ek = LLVMPointerTypeKind) \<and> \<not> (lanes = 0 \<or> lanes > 256)
      else k \<in> {LLVMVoidTypeKind, LLVMLabelTypeKind, LLVMPointerTypeKind, LLVMFunctionTypeKind, LLVMMetadataTypeKind,
        LLVMFloatTypeKind, LLVMDoubleTypeKind})"

text \<open>The walk over the parts of a type, depth first; \<open>None\<close> is a walk that does not end.\<close>

partial_function (option) types_in_subset :: "('v, 't, 'b) llvm \<Rightarrow> 't list \<Rightarrow> bool option" where
  "types_in_subset L ts =
     (case ts of [] \<Rightarrow> Some True
      | t # us \<Rightarrow>
        if LLVMGetTypeKind L t = LLVMArrayTypeKind then types_in_subset L (LLVMGetElementType L t # us)
        else if LLVMGetTypeKind L t = LLVMStructTypeKind
        then types_in_subset L (map (LLVMStructGetTypeAtIndex L t) [0..<LLVMCountStructElementTypes L t] @ us)
        else if leaf_in_subset L t then types_in_subset L us else Some False)"

definition type_in_subset :: "('v, 't, 'b) llvm \<Rightarrow> 't \<Rightarrow> bool option" where "type_in_subset L t = types_in_subset L [t]"

section \<open>Bytes of initialisers\<close>

definition put_le :: "nat \<Rightarrow> nat \<Rightarrow> u64 \<Rightarrow> u8 list \<Rightarrow> u8 list" where
  "put_le n off v bs = fold (\<lambda>b out. out[off + b := ucast (drop_bit (b * 8) v)]) [0..<n] bs"

definition serialize_function_index :: "('b, 'v) gen \<Rightarrow> 'v \<Rightarrow> nat \<Rightarrow> u8 list \<Rightarrow> u8 list option" where
  "serialize_function_index cg fn off out =
     map_option (\<lambda>fidx. put_le 4 off (ucast (CVM_FN_SLOT (of_nat fidx))) out) (cg_func_lookup cg fn)"

definition entry_address :: "('v, 't, 'b) llvm \<Rightarrow> ('b, 'v) gen \<Rightarrow> 'v \<Rightarrow> u64 \<Rightarrow> u32 option" where
  "entry_address L cg c extra =
     (if \<not> LLVMIsAGlobalVariable L c then None
      else map_option (\<lambda>idx. gl_offset (cg_globals cg ! idx) + ucast extra) (cg_globals_lookup cg c))"

partial_function (option) global_address :: "('v, 't, 'b) llvm \<Rightarrow> ('b, 'v) gen \<Rightarrow> 'v \<Rightarrow> u32 option" where
  "global_address L cg c =
     (if LLVMIsAConstantExpr L c then
        let op = LLVMGetConstOpcode L c in
        if op = LLVMBitCast \<or> op = LLVMAddrSpaceCast \<or> op = LLVMIntToPtr \<or> op = LLVMPtrToInt
        then global_address L cg (LLVMGetOperand L c 0)
        else if op = LLVMGetElementPtr
        then Option.bind (cg_const_gep_offset L c) (\<lambda>extra. entry_address L cg (LLVMGetOperand L c 0) extra)
        else None
      else entry_address L cg c 0)"

definition serialize_global_ptr :: "('v, 't, 'b) llvm \<Rightarrow> ('b, 'v) gen \<Rightarrow> 'v \<Rightarrow> nat \<Rightarrow> u32 \<Rightarrow> u8 list \<Rightarrow> u8 list option" where
  "serialize_global_ptr L cg c off sz out =
     (if sz < 4 then None else map_option (\<lambda>addr. put_le 4 off (ucast addr) out) (global_address L cg c))"

text \<open>A constant that has no parts: \<open>None\<close> is an error.\<close>

definition serialize_leaf :: "('v, 't, 'b) llvm \<Rightarrow> ('b, 'v) gen \<Rightarrow> 'v \<Rightarrow> nat \<Rightarrow> u32 \<Rightarrow> u8 list \<Rightarrow> u8 list option" where
  "serialize_leaf L cg c off sz out =
     (let k = LLVMGetTypeKind L (LLVMTypeOf L c) in
      if LLVMIsAConstantAggregateZero L c \<or> LLVMIsAConstantPointerNull L c \<or> LLVMIsUndef L c then Some out
      else if LLVMIsAConstantInt L c then Some (put_le (min (unat sz) 8) off (LLVMConstIntGetZExtValue L c) out)
      else if LLVMIsAConstantFP L c then
        (if k = LLVMFloatTypeKind \<and> sz = 4 then Some (put_le 4 off (ucast (v_real_float_bits L c)) out)
         else if k = LLVMDoubleTypeKind \<and> sz = 8 then Some (put_le 8 off (v_real_bits L c) out)
         else None)
      else if LLVMIsAFunction L c then (if sz < 4 then None else serialize_function_index cg c off out)
      else if k = LLVMPointerTypeKind then serialize_global_ptr L cg c off sz out
      else None)"

text \<open>The parts of an array or structure, with their offsets.\<close>

definition const_parts :: "('v, 't, 'b) llvm \<Rightarrow> 'v \<Rightarrow> u32 \<Rightarrow> (nat \<Rightarrow> u32) \<Rightarrow> nat \<Rightarrow> ('v \<times> u32) list option" where
  "const_parts L c off part_off n =
     those (map (\<lambda>i. map_option (\<lambda>e. (e, off + part_off i)) (LLVMGetAggregateElement L c i)) [0..<n])"

definition is_leaf :: "('v, 't, 'b) llvm \<Rightarrow> 'v \<Rightarrow> bool" where
  "is_leaf L c \<longleftrightarrow> LLVMIsAConstantAggregateZero L c \<or> LLVMIsAConstantPointerNull L c \<or> LLVMIsUndef L c \<or> LLVMIsAConstantInt L c
     \<or> LLVMIsAConstantFP L c \<or> LLVMIsAFunction L c
     \<or> LLVMGetTypeKind L (LLVMTypeOf L c) \<notin> {LLVMArrayTypeKind, LLVMStructTypeKind}"

text \<open>The recursion of \<open>serialize_constant\<close> over the parts, depth first. \<open>cap\<close> is the capacity of the buffer.\<close>

partial_function (option) serialize_constants ::
  "('v, 't, 'b) llvm \<Rightarrow> ('v, 't) llvm_module \<Rightarrow> ('b, 'v) gen \<Rightarrow> u32 \<Rightarrow> ('v \<times> u32) list \<Rightarrow> u8 list \<Rightarrow> u8 list option" where
  "serialize_constants L M cg cap work out =
     (case work of [] \<Rightarrow> Some out
      | (c, off) # ws \<Rightarrow>
        let ty = LLVMTypeOf L c; sz = ucast (LLVMABISizeOfType L ty) :: u32 in
        if off + sz > cap then None
        else if LLVMIsAConstantExpr L c \<and> LLVMGetConstOpcode L c \<in> {LLVMPtrToInt, LLVMIntToPtr, LLVMBitCast}
        then serialize_constants L M cg cap ((LLVMGetOperand L c 0, off) # ws) out
        else if LLVMIsAGlobalAlias L c then serialize_constants L M cg cap ((LLVMAliasGetAliasee L c, off) # ws) out
        else if is_leaf L c
        then Option.bind (serialize_leaf L cg c (unat off) sz out) (\<lambda>out'. serialize_constants L M cg cap ws out')
        else if LLVMGetTypeKind L ty = LLVMArrayTypeKind
        then Option.bind (const_parts L c off
            (\<lambda>i. of_nat i * ucast (LLVMABISizeOfType L (LLVMGetElementType L ty))) (LLVMGetArrayLength M ty))
          (\<lambda>ps. serialize_constants L M cg cap (ps @ ws) out)
        else Option.bind (const_parts L c off (\<lambda>i. ucast (LLVMOffsetOfElement L ty i)) (LLVMCountStructElementTypes L ty))
          (\<lambda>ps. serialize_constants L M cg cap (ps @ ws) out))"

section \<open>The DATA section\<close>

text \<open>The capacity of the buffer: 64 doubled until it suffices.\<close>

function data_cap :: "nat \<Rightarrow> nat \<Rightarrow> nat" where
  "data_cap cap need = (if cap = 0 then 64 else if need \<le> cap then cap else data_cap (cap * 2) need)"
  by pat_completeness auto

termination by (relation "measure (\<lambda>(cap, need). need - cap)") auto

declare data_cap.simps [simp del]

definition grow_data :: "u32 \<Rightarrow> ('b, 'v) gen \<Rightarrow> ('b, 'v) gen" where
  "grow_data sz cg = cg\<lparr>cg_data_bytes := cg_data_bytes cg @ replicate (unat sz - length (cg_data_bytes cg)) 0\<rparr>"

text \<open>The doubling in \<open>cg_data_reserve\<close> wraps to 0 and does not end for more than 2 GiB: no result.\<close>

definition layout_global ::
  "('v, 't, 'b) llvm \<Rightarrow> ('v, 't) llvm_module \<Rightarrow> 'v \<Rightarrow> u32 \<times> ('b, 'v) gen \<Rightarrow> (u32 \<times> ('b, 'v) gen) option" where
  "layout_global L M gv acc =
     (let (cursor, cg) = acc in
      case gv_type M gv of None \<Rightarrow> Some acc
      | Some ty \<Rightarrow>
        if LLVMIsDeclaration M gv then None
        else Option.bind (type_in_subset L ty) (\<lambda>ok. if \<not> ok then None
          else let sz = ucast (LLVMABISizeOfType L ty) :: u32;
              ta = type_alignment M ty; ga = gv_alignment M gv;
              align = (if ga > ta then ga else ta);
              offset = align_up cursor (if align = 0 then 1 else align) in
            if offset + sz > 0x80000000 then None
            else Some (offset + sz, grow_data (offset + sz) (cg_globals_append gv offset sz cg))))"

definition init_global ::
  "('v, 't, 'b) llvm \<Rightarrow> ('v, 't) llvm_module \<Rightarrow> 'v cg_global \<Rightarrow> ('b, 'v) gen \<Rightarrow> ('b, 'v) gen option" where
  "init_global L M g cg =
     (case LLVMGetInitializer M (gl_value g) of None \<Rightarrow> Some cg
      | Some init \<Rightarrow>
        let sz = length (cg_data_bytes cg); cap = data_cap 64 sz in
        map_option (\<lambda>out. cg\<lparr>cg_data_bytes := take sz out\<rparr>)
          (serialize_constants L M cg (of_nat cap) [(init, gl_offset g)] (cg_data_bytes cg @ replicate (cap - sz) 0)))"

definition cg_collect_globals :: "('v, 't, 'b) llvm \<Rightarrow> ('v, 't) llvm_module \<Rightarrow> ('b, 'v) gen \<Rightarrow> ('b, 'v) gen option" where
  "cg_collect_globals L M cg =
     (let saw = list_ex (\<lambda>gv. gv_type M gv \<noteq> None \<and> \<not> LLVMIsDeclaration M gv) (LLVMGlobals M);
          start = (if saw then (8, grow_data 8 cg) else (0, cg)) in do {
        (cursor, cg1) \<leftarrow> fold_opt (layout_global L M) (LLVMGlobals M) start;
        fold_opt (init_global L M) (cg_globals cg1) cg1
      })"

end
