(* ===== verification/Calling.thy ===== *)
theory Calling
  imports Intrinsics Globals Liveness
begin

text \<open>
  The rest of \<open>cg_function\<close> (\<open>src/tools/translator/translator.c\<close>): instructions with a binary64 result, system calls,
  calls, \<open>invoke\<close>, the choice among the lowerings of an instruction, the prologue of a function and the emission
  of its blocks.
\<close>

section \<open>Instructions with a binary64 result\<close>

definition f64_helper :: "LLVMOpcode \<Rightarrow> string" where
  "f64_helper op = (if op = LLVMFAdd then ''__cvm_fadd'' else if op = LLVMFSub then ''__cvm_fsub''
     else if op = LLVMFMul then ''__cvm_fmul'' else ''__cvm_fdiv'')"

text \<open>The high word combined with a constant; the low word is copied.\<close>

definition f64_sign :: "('v, 't, 'b) llvm \<Rightarrow> cvm_opcode \<Rightarrow> u32 \<Rightarrow> 'v \<Rightarrow> nat \<Rightarrow> ('b, 'v) gen \<Rightarrow> ('b, 'v) gen option" where
  "f64_sign L cv k i idx cg = do {
     (lo, hi, cg1) \<leftarrow> cg_i64_read L (LLVMGetOperand L i 0) cg;
     cg_i64_write idx lo hi (cg_emit (rop cv hi hi CG_REG_SCRATCH) (cg_emit_load_const32 CG_REG_SCRATCH k cg1))
   }"

definition f64_copysign :: "('v, 't, 'b) llvm \<Rightarrow> 'v \<Rightarrow> nat \<Rightarrow> ('b, 'v) gen \<Rightarrow> ('b, 'v) gen option" where
  "f64_copysign L i idx cg = do {
     (mlo, mhi, cg1) \<leftarrow> cg_i64_read L (LLVMGetOperand L i 0) cg;
     (slo, shi, cg2) \<leftarrow> cg_i64_read L (LLVMGetOperand L i 1) cg1;
     let cg3 = cg_emit (rop CVM_OP_AND mhi mhi CG_REG_SCRATCH) (cg_emit_load_const32 CG_REG_SCRATCH 0x7FFFFFFF cg2);
     let cg4 = cg_emit (rop CVM_OP_AND shi shi CG_REG_SCRATCH) (cg_emit_load_const32 CG_REG_SCRATCH 0x80000000 cg3);
     cg_i64_write idx mlo mhi (cg_emit (rop CVM_OP_OR mhi mhi shi) cg4)
   }"

definition f64_from_int :: "('v, 't, 'b) llvm \<Rightarrow> LLVMOpcode \<Rightarrow> 'v \<Rightarrow> u16 \<Rightarrow> ('b, 'v) gen \<Rightarrow> ('b, 'v) gen option" where
  "f64_from_int L op i slot cg =
     (let opnd = LLVMGetOperand L i 0; t = LLVMTypeOf L opnd; w = LLVMGetIntTypeWidth L t in
      if cg_type_is_i64 L t
      then cg_emit_runtime_call L i (if op = LLVMSIToFP then ''__cvm_f_from_i64'' else ''__cvm_f_from_u64'') [opnd] None (Some slot) 0 0 cg
      else if cg_type_is_wide_int L t then None
      else cg_emit_runtime_call L i (if op = LLVMSIToFP then ''__cvm_f_from_i32'' else ''__cvm_f_from_u32'') [] (Some opnd) (Some slot) 0
        (if op = LLVMSIToFP \<and> LLVMGetTypeKind L t = LLVMIntegerTypeKind \<and> w < 32 then w else 0) cg)"

definition f64_call :: "('v, 't, 'b) llvm \<Rightarrow> 'v \<Rightarrow> nat \<Rightarrow> u16 \<Rightarrow> ('b, 'v) gen \<Rightarrow> ('b, 'v) gen option" where
  "f64_call L i idx slot cg =
     (let cname = value_name L (LLVMGetCalledValue L i); op = LLVMGetOperand L i in
      if cname = ''llvm.fmuladd.f64'' \<or> cname = ''llvm.fma.f64''
      then Option.bind (cg_emit_runtime_call L i ''__cvm_fmul'' [op 0, op 1] None (Some slot) 0 0 cg)
        (cg_emit_runtime_call L i ''__cvm_fadd'' [i, op 2] None (Some slot) 0 0)
      else if cname = ''llvm.sqrt.f64'' \<or> cname = ''sqrt''
      then cg_emit_runtime_call L i ''__cvm_fsqrt'' [op 0] None (Some slot) 0 0 cg
      else if cname = ''llvm.fabs.f64'' then f64_sign L CVM_OP_AND 0x7FFFFFFF i idx cg
      else if cname = ''llvm.copysign.f64'' then f64_copysign L i idx cg
      else None)"

definition cg_emit_f64_def :: "('v, 't, 'b) llvm \<Rightarrow> 'v \<Rightarrow> LLVMOpcode \<Rightarrow> ('b, 'v) gen \<Rightarrow> ('b, 'v) gen option" where
  "cg_emit_f64_def L i op cg = do {
     idx \<leftarrow> wide_index L cg i;
     slot \<leftarrow> at (cg_i64_slot cg) idx;
     if op \<in> {LLVMFAdd, LLVMFSub, LLVMFMul, LLVMFDiv}
     then cg_emit_runtime_call L i (f64_helper op) [LLVMGetOperand L i 0, LLVMGetOperand L i 1] None (Some slot) 0 0 cg
     else if op = LLVMFNeg then f64_sign L CVM_OP_XOR 0x80000000 i idx cg
     else if op = LLVMSIToFP \<or> op = LLVMUIToFP then f64_from_int L op i slot cg
     else if op = LLVMFPExt then cg_emit_runtime_call L i ''__cvm_f_from_f32'' [] (Some (LLVMGetOperand L i 0)) (Some slot) 0 0 cg
     else if op = LLVMLoad then i64_load L i idx cg
     else if op = LLVMFreeze \<or> op = LLVMBitCast then i64_copy L i idx cg
     else if op = LLVMSelect then cg_emit_wide_select L i idx cg
     else if op = LLVMCall then f64_call L i idx slot cg
     else None
   }"

section \<open>System calls\<close>

primrec regs_for :: "('v, 't, 'b) llvm \<Rightarrow> 'v list \<Rightarrow> ('b, 'v) gen \<Rightarrow> (u8 list \<times> ('b, 'v) gen) option" where
  "regs_for L [] cg = Some ([], cg)"
| "regs_for L (v # vs) cg = do { (r, cg1) \<leftarrow> cg_reg_for L v cg; (rs, cg2) \<leftarrow> regs_for L vs cg1; Some (r # rs, cg2) }"

text \<open>The word in R0 becomes the result, unless there is none.\<close>

definition take_result :: "('v, 't, 'b) llvm \<Rightarrow> 'v \<Rightarrow> ('b, 'v) gen \<Rightarrow> ('b, 'v) gen option" where
  "take_result L i cg =
     (if LLVMGetTypeKind L (LLVMTypeOf L i) = LLVMVoidTypeKind then Some cg
      else do { dst \<leftarrow> reg_of L cg i; Some (if dst \<noteq> 0 then cg_emit (rop CVM_OP_MOV dst 0 0) cg else cg) })"

definition call_args :: "('v, 't, 'b) llvm \<Rightarrow> ('v, 't, 'b) llvm_call \<Rightarrow> 'v \<Rightarrow> 'v list" where
  "call_args L C i = map (LLVMGetOperand L i) [0..<LLVMGetNumArgOperands C i]"

definition cg_emit_syscall_body ::
  "('v, 't, 'b) llvm \<Rightarrow> ('v, 't, 'b) llvm_call \<Rightarrow> 'v \<Rightarrow> 'v \<Rightarrow> string \<Rightarrow> ('b, 'v) gen \<Rightarrow> ('b, 'v) gen option" where
  "cg_emit_syscall_body L C i callee name cg =
     (let args = call_args L C i; (sid, cg1) = cg_import_lookup_or_add callee name cg in
      if length args > 8 \<or> sid > 0xFFFF then None
      else do {
        (rs, cg2) \<leftarrow> regs_for L args cg1;
        let cg3 = fold (\<lambda>(k, r). emit_mov (of_nat k) r) (enumerate 0 rs) cg2;
        take_result L i (cg_emit (enc_i16 (op_value CVM_OP_SYSCALL) 0 (of_nat sid)) cg3)
      })"

section \<open>Calls\<close>

text \<open>The words of the arguments, each with the half of a 64-bit value that it is.\<close>

definition arg_words :: "('v, 't, 'b) llvm \<Rightarrow> 'v list \<Rightarrow> ('v \<times> bool option) list" where
  "arg_words L args = concat (map (\<lambda>v. if cg_type_is_wide L (LLVMTypeOf L v) then [(v, Some False), (v, Some True)] else [(v, None)]) args)"

definition call_vararg :: "('v, 't, 'b) llvm_call \<Rightarrow> 'v \<Rightarrow> bool" where
  "call_vararg C i = (case LLVMGetCalledFunctionType C i of Some fty \<Rightarrow> LLVMIsFunctionVarArg C fty | None \<Rightarrow> False)"

datatype call_kind = Direct nat | Indirect | Coro_swap

definition call_kind_of :: "('v, 't, 'b) llvm \<Rightarrow> 'v \<Rightarrow> string option \<Rightarrow> ('b, 'v) gen \<Rightarrow> call_kind option" where
  "call_kind_of L callee name cg =
     (case name of None \<Rightarrow> Some Indirect
      | Some nm \<Rightarrow> if nm = ''__cvm_coro_swap_raw'' then Some Coro_swap
        else Option.bind (cg_func_lookup cg callee) (\<lambda>idx. if idx \<ge> 0xFFFFFF then None else Some (Direct idx)))"

definition callee_register :: "('v, 't, 'b) llvm \<Rightarrow> 'v \<Rightarrow> u32 \<Rightarrow> ('b, 'v) gen \<Rightarrow> (u8 \<times> ('b, 'v) gen) option" where
  "callee_register L callee sp_bias cg = do {
     ix \<leftarrow> cg_lookup L cg callee;
     slot \<leftarrow> (case ix of None \<Rightarrow> Some CG_NO_SLOT | Some cidx \<Rightarrow> at (cg_val_slot cg) cidx);
     if slot \<noteq> CG_NO_SLOT
     then do { (r, cg1) \<leftarrow> cg_alloc_reg cg; Some (r, cg_ldw_sp_off r (cg_val_slot_off cg slot + sp_bias) cg1) }
     else cg_reg_for L callee cg
   }"

definition emit_call :: "('v, 't, 'b) llvm \<Rightarrow> 'v \<Rightarrow> call_kind \<Rightarrow> u32 \<Rightarrow> ('b, 'v) gen \<Rightarrow> ('b, 'v) gen option" where
  "emit_call L callee kind sp_bias cg =
     map_option (\<lambda>c. c\<lparr>cg_has_calls := True\<rparr>)
       (case kind of
          Indirect \<Rightarrow> map_option (\<lambda>(r, c). cg_emit (rop CVM_OP_CALLR r 0 0) c) (callee_register L callee sp_bias cg)
        | Coro_swap \<Rightarrow> Some (cg_emit (rop CVM_OP_CORO_SWAP 0 1 0) cg)
        | Direct idx \<Rightarrow> Some (cg_emit (enc_i24 (op_value CVM_OP_CALL) (CVM_FN_SLOT (of_nat idx))) cg))"

definition place_args :: "('v, 't, 'b) llvm \<Rightarrow> ('v \<times> bool option) list \<Rightarrow> nat \<Rightarrow> u32 \<Rightarrow> ('b, 'v) gen \<Rightarrow> ('b, 'v) gen option" where
  "place_args L ws n_reg_words sp_bias cg =
     fold_opt (\<lambda>(wp, v, half). cg_place_arg_word L v half wp n_reg_words sp_bias) (enumerate 0 ws) cg"

text \<open>\<open>name\<close> is the name of a function that is called directly.\<close>

definition cg_emit_user_call ::
  "('v, 't, 'b) llvm \<Rightarrow> ('v, 't, 'b) llvm_call \<Rightarrow> 'v \<Rightarrow> 'v \<Rightarrow> string option \<Rightarrow> ('b, 'v) gen \<Rightarrow> ('b, 'v) gen option" where
  "cg_emit_user_call L C i callee name cg =
     (let args = call_args L C i; ws = arg_words L args;
          n_reg_words = (if call_vararg C i then 0 else min (length ws) 8);
          stacked = of_nat (length ws - n_reg_words) * 4 :: u32 in
      if length args > 256 then None
      else do {
        kind \<leftarrow> call_kind_of L callee name cg;
        st \<leftarrow> cg_call_spill_set L cg i;
        cg1 \<leftarrow> place_args L ws n_reg_words stacked (cg_sp_sub stacked (cg_emit_spill st cg));
        cg2 \<leftarrow> emit_call L callee kind stacked cg1;
        let cg3 = cg_emit_restore st (cg_sp_add stacked cg2);
        if cg_type_is_wide L (LLVMTypeOf L i)
        then do {
          ix \<leftarrow> cg_lookup L cg i;
          ridx \<leftarrow> ix;
          off \<leftarrow> cg_i64_lo_off cg3 ridx;
          Some (cg_stw_sp_off (off + 4) 1 (cg_stw_sp_off off 0 cg3))
        }
        else take_result L i cg3
      })"

section \<open>Exceptions\<close>

definition cg_block_landingpad :: "('v, 't, 'b) llvm \<Rightarrow> 'b \<Rightarrow> 'v option" where
  "cg_block_landingpad L bb =
     (case filter (\<lambda>i. LLVMGetInstructionOpcode L i \<noteq> LLVMPHI) (LLVMInstructions L bb) of
        [] \<Rightarrow> None
      | i # is \<Rightarrow> if LLVMGetInstructionOpcode L i = LLVMLandingPad then Some i else None)"

text \<open>The table of a landing pad in DATA: the clauses, then the descriptor, whose offset is returned.\<close>

definition append_data :: "nat \<Rightarrow> ('b, 'v) gen \<Rightarrow> ('b, 'v) gen" where
  "append_data n cg = cg\<lparr>cg_data_bytes := cg_data_bytes cg @ replicate n 0\<rparr>"

definition put_clause :: "('v, 't, 'b) llvm \<Rightarrow> nat \<Rightarrow> nat \<times> 'v \<Rightarrow> ('b, 'v) gen \<Rightarrow> ('b, 'v) gen option" where
  "put_clause L clauses_off kc cg =
     (let (k, cv) = kc in
      if LLVMIsAConstantPointerNull L cv \<or> LLVMIsAConstantAggregateZero L cv then Some cg
      else map_option (\<lambda>out. cg\<lparr>cg_data_bytes := out\<rparr>) (serialize_global_ptr L cg cv (clauses_off + k * 4) 4 (cg_data_bytes cg)))"

definition cg_emit_eh_desc ::
  "('v, 't, 'b) llvm \<Rightarrow> ('v, 't, 'b) llvm_call \<Rightarrow> 'v \<Rightarrow> ('b, 'v) gen \<Rightarrow> (nat \<times> ('b, 'v) gen) option" where
  "cg_emit_eh_desc L C lp cg =
     (let n = LLVMGetNumClauses C lp; clauses_off = length (cg_data_bytes cg) in do {
        cg1 \<leftarrow> fold_opt (put_clause L clauses_off) (enumerate 0 (map (LLVMGetClause C lp) [0..<n])) (append_data (n * 4) cg);
        let desc_off = length (cg_data_bytes cg1);
        let cg2 = append_data 12 cg1;
        let out = put_le 4 (desc_off + 8) (of_nat (if n > 0 then clauses_off else 0))
          (put_le 4 (desc_off + 4) (if LLVMIsCleanup C lp then 1 else 0) (put_le 4 desc_off (of_nat n) (cg_data_bytes cg2)));
        Some (desc_off, cg2\<lparr>cg_data_bytes := out\<rparr>)
      })"

definition invoke_push_set :: "('v, 't, 'b) llvm \<Rightarrow> ('b, 'v) gen \<Rightarrow> 'v \<Rightarrow> cg_bits \<Rightarrow> cg_bits option" where
  "invoke_push_set L cg i live = fold_opt (set_bit_of L cg) (operands L i) live"

text \<open>The frame of the handler is linked by a call of the runtime.\<close>

definition eh_push :: "('v, 't, 'b) llvm \<Rightarrow> nat \<Rightarrow> cg_bits \<Rightarrow> ('b, 'v) gen \<Rightarrow> ('b, 'v) gen option" where
  "eh_push L desc_off push_set cg = do {
     (dr, cg1) \<leftarrow> cg_fresh_const (of_nat desc_off) cg;
     let cg2 = cg_stw_sp_off (cg_eh_frame_off cg1 + 16) dr cg1;
     pidx \<leftarrow> cg_func_by_name L cg2 ''__cvm_eh_push'';
     let cg3 = cg_addr_sp_plus (cg_eh_frame_off cg2) (cg_emit_spill push_set cg2);
     let cg4 = emits [rop CVM_OP_MOV 0 CG_REG_SCRATCH 0, enc_i24 (op_value CVM_OP_CALL) (CVM_FN_SLOT (of_nat pidx))] cg3;
     Some (cg_emit_restore push_set (cg4\<lparr>cg_has_calls := True\<rparr>))
   }"

text \<open>The way of a call that returns: the result survives the call that unlinks the frame in a word of that frame.\<close>

definition invoke_normal ::
  "('v, 't, 'b) llvm \<Rightarrow> ('v, 't, 'b) llvm_call \<Rightarrow> 'b \<Rightarrow> bool \<Rightarrow> 'v \<Rightarrow> 'v \<Rightarrow> string option \<Rightarrow> cg_bits \<Rightarrow> ('b, 'v) gen \<Rightarrow> ('b, 'v) gen option" where
  "invoke_normal L C bb result_spilled i callee name live cg =
     (let rty = LLVMTypeOf L i; scalar_res = (LLVMGetTypeKind L rty \<noteq> LLVMVoidTypeKind \<and> \<not> cg_type_is_wide L rty) in do {
        cg1 \<leftarrow> cg_emit_user_call L C i callee name cg;
        res_reg \<leftarrow> (if scalar_res then reg_of L cg1 i else Some 0);
        let cg2 = (if scalar_res then cg_stw_sp_off (cg_eh_frame_off cg1) res_reg cg1 else cg1);
        cg3 \<leftarrow> cg_emit_eh_call0 L ''__cvm_eh_pop'' None (Some live) cg2;
        let cg4 = (if scalar_res then cg_ldw_sp_off res_reg (cg_eh_frame_off cg3) cg3 else cg3);
        cg5 \<leftarrow> (if scalar_res \<and> result_spilled
          then do { ix \<leftarrow> cg_lookup L cg4 i; idx \<leftarrow> ix; slot \<leftarrow> at (cg_val_slot cg4) idx; Some (cg_stw_sp_off (cg_val_slot_off cg4 slot) res_reg cg4) }
          else Some cg4);
        map_option (emit_jump (LLVMGetNormalDest C i)) (cg_emit_phi_moves L bb (LLVMGetNormalDest C i) cg5)
      })"

definition invoke_syscall ::
  "('v, 't, 'b) llvm \<Rightarrow> ('v, 't, 'b) llvm_call \<Rightarrow> 'b \<Rightarrow> bool \<Rightarrow> 'v \<Rightarrow> 'v \<Rightarrow> string \<Rightarrow> ('b, 'v) gen \<Rightarrow> ('b, 'v) gen option" where
  "invoke_syscall L C bb result_spilled i callee name cg = do {
     cg1 \<leftarrow> cg_emit_syscall_body L C i callee name cg;
     cg2 \<leftarrow> (if result_spilled
       then do { ix \<leftarrow> cg_lookup L cg1 i; idx \<leftarrow> ix; slot \<leftarrow> at (cg_val_slot cg1) idx; r \<leftarrow> reg_of L cg1 i;
         Some (cg_stw_sp_off (cg_val_slot_off cg1 slot) r cg1) }
       else Some cg1);
     map_option (emit_jump (LLVMGetNormalDest C i)) (cg_emit_phi_moves L bb (LLVMGetNormalDest C i) cg2)
   }"

text \<open>The name by which a callee is called directly; a function without a name is an error.\<close>

definition callee_name :: "('v, 't, 'b) llvm \<Rightarrow> 'v \<Rightarrow> string option" where
  "callee_name L callee = (if LLVMIsAFunction L callee then Some (value_name L callee) else None)"

definition lower_invoke ::
  "('v, 't, 'b) llvm \<Rightarrow> ('v, 't, 'b) llvm_call \<Rightarrow> 'b \<Rightarrow> bool \<Rightarrow> 'v \<Rightarrow> ('b, 'v) gen \<Rightarrow> ('b, 'v) gen option" where
  "lower_invoke L C bb result_spilled i cg = do {
     callee \<leftarrow> cg_strip_alias L (LLVMGetCalledValue L i);
     let name = callee_name L callee;
     if name \<noteq> None \<and> has_prefix ''cvm_sys_'' (the name) then invoke_syscall L C bb result_spilled i callee (the name) cg
     else do {
       lp \<leftarrow> cg_block_landingpad L (LLVMGetUnwindDest C i);
       (desc_off, cg1) \<leftarrow> cg_emit_eh_desc L C lp cg;
       live \<leftarrow> cg_call_spill_set L cg1 i;
       push_set \<leftarrow> invoke_push_set L cg1 i live;
       cg2 \<leftarrow> eh_push L desc_off push_set cg1;
       (r, cg3) \<leftarrow> cg_alloc_reg cg2;
       let cg4 = emits [rop CVM_OP_SETJMP r CG_REG_SCRATCH 0, beq r (cg_zero_reg cg3) 1] (cg_addr_sp_plus (cg_eh_frame_off cg3) cg3);
       let jmp_pos = length (cg_code cg4);
       cg5 \<leftarrow> invoke_normal L C bb result_spilled i callee name live (cg_emit (jmp 0) cg4);
       let off = of_nat (length (cg_code cg5)) - of_nat (jmp_pos + 1);
       let cg6 = cg_emit_restore live (cg5\<lparr>cg_code := (cg_code cg5)[jmp_pos := jmp off]\<rparr>);
       map_option (emit_jump (LLVMGetUnwindDest C i)) (cg_emit_phi_moves L bb (LLVMGetUnwindDest C i) cg6)
     }
   }"

definition lower_resume :: "('v, 't, 'b) llvm \<Rightarrow> ('b, 'v) gen \<Rightarrow> ('b, 'v) gen option" where
  "lower_resume L cg = map_option (cg_emit (rop CVM_OP_HALT 0 0 0)) (cg_emit_eh_call0 L ''__cvm_eh_resume'' None None cg)"

end
