(* ===== verification/Function.thy ===== *)
theory Function
  imports Calling
begin

text \<open>
  \<open>cg_function\<close> (\<open>src/tools/translator/translator.c\<close>): the lowering of a call by its name, the choice among the
  lowerings of an instruction, the prologue of a function, and its blocks up to the resolved branches.
\<close>

section \<open>Calls by name\<close>

primrec first_some :: "'a option list \<Rightarrow> 'a option" where
  "first_some [] = None"
| "first_some (x # xs) = (case x of Some a \<Rightarrow> Some a | None \<Rightarrow> first_some xs)"

definition lower_jumps :: "('v, 't, 'b) llvm \<Rightarrow> 'v \<Rightarrow> string \<Rightarrow> (('b, 'v) gen \<Rightarrow> ('b, 'v) gen option) option" where
  "lower_jumps L i nm =
     (if nm = ''setjmp'' \<or> nm = ''_setjmp'' then Some (lower_setjmp L i)
      else if nm = ''longjmp'' \<or> nm = ''_longjmp'' then Some (lower_longjmp L i)
      else if has_prefix ''llvm.eh.typeid.for'' nm then Some (lower_typeid L i)
      else None)"

definition lower_machine :: "('v, 't, 'b) llvm \<Rightarrow> ('v, 't, 'b) llvm_call \<Rightarrow> 'v \<Rightarrow> string \<Rightarrow> (('b, 'v) gen \<Rightarrow> ('b, 'v) gen option) option" where
  "lower_machine L C i nm =
     (case cvm_intrin nm of
        Some (n, cv) \<Rightarrow> Some (if n = 2 then lower_binary L C i cv else lower_unary L C i cv)
      | None \<Rightarrow> if nm = ''cvm_intrin_qdiv_64_32'' then Some (lower_qdiv64 L C i) else None)"

definition lower_named ::
  "('v, 't, 'b) llvm \<Rightarrow> ('v, 't, 'b) llvm_call \<Rightarrow> nat \<Rightarrow> 'v \<Rightarrow> 'v \<Rightarrow> string \<Rightarrow> (('b, 'v) gen \<Rightarrow> ('b, 'v) gen option) option" where
  "lower_named L C n_named i callee nm = first_some
     [lower_jumps L i nm, lower_bits L i nm, lower_float L C i nm, lower_order L C i nm, lower_machine L C i nm, lower_compare L i nm,
      map_option (\<lambda>(ov_mul, bits). lower_overflow L ov_mul bits i) (cg_overflow_call_kind L i),
      if has_prefix ''cvm_sys_'' nm then Some (cg_emit_syscall_body L C i callee nm) else None,
      lower_memory L C n_named i nm]"

definition lower_call :: "('v, 't, 'b) llvm \<Rightarrow> ('v, 't, 'b) llvm_call \<Rightarrow> nat \<Rightarrow> 'v \<Rightarrow> ('b, 'v) gen \<Rightarrow> ('b, 'v) gen option" where
  "lower_call L C n_named i cg =
     Option.bind (cg_strip_alias L (LLVMGetCalledValue L i)) (\<lambda>callee.
       case callee_name L callee of
         None \<Rightarrow> cg_emit_user_call L C i callee None cg
       | Some nm \<Rightarrow>
           if nm = ''<unnamed>'' then None
           else (case lower_named L C n_named i callee nm of
               Some h \<Rightarrow> h cg | None \<Rightarrow> cg_emit_user_call L C i callee (Some nm) cg))"

section \<open>Instructions\<close>

definition instruction_case ::
  "('v, 't, 'b) llvm \<Rightarrow> ('v, 'b) llvm_inst \<Rightarrow> ('v, 't, 'b) llvm_call \<Rightarrow> nat \<Rightarrow> 'b \<Rightarrow> LLVMOpcode \<Rightarrow> 'v \<Rightarrow> bool
    \<Rightarrow> ('b, 'v) gen \<Rightarrow> ('b, 'v) gen option" where
  "instruction_case L I C n_named bb op i result_spilled =
     (case scalar_case L I bb result_spilled op i of
        Some h \<Rightarrow> h
      | None \<Rightarrow>
          if op = LLVMInvoke then lower_invoke L C bb result_spilled i
          else if op = LLVMLandingPad then Some
          else if op = LLVMResume then lower_resume L
          else if op = LLVMCall then lower_call L C n_named i
          else (\<lambda>cg. None))"

text \<open>An instruction goes by the type of its result.\<close>

definition lower_instruction ::
  "('v, 't, 'b) llvm \<Rightarrow> ('v, 'b) llvm_inst \<Rightarrow> ('v, 't, 'b) llvm_call \<Rightarrow> nat \<Rightarrow> 'b \<Rightarrow> 'v \<Rightarrow> ('b, 'v) gen \<Rightarrow> ('b, 'v) gen option" where
  "lower_instruction L I C n_named bb i cg =
     (let op = LLVMGetInstructionOpcode L i; t = LLVMTypeOf L i; cg0 = cg\<lparr>cg_next_reg := cg_ssa_reg_high cg\<rparr> in
      if op \<noteq> LLVMPHI \<and> op \<noteq> LLVMCall \<and> op \<noteq> LLVMInvoke \<and> (cg_type_is_wide_int L t \<or> cg_type_is_i65 L t)
      then cg_emit_i64_def L i op cg0
      else if op \<noteq> LLVMPHI \<and> op \<noteq> LLVMInvoke \<and> cg_type_is_f64 L t \<and> (op \<noteq> LLVMCall \<or> cg_call_is_handled_f64_intrinsic L i)
      then cg_emit_f64_def L i op cg0
      else if op \<noteq> LLVMCall \<and> op \<noteq> LLVMInvoke \<and> cg_type_is_vector L t then cg_emit_vec_def L I i op cg0
      else with_result L op i (instruction_case L I C n_named bb op i) cg0)"

section \<open>The prologue\<close>

text \<open>The word \<open>word\<close> of the arguments is in a register, or at an offset above the frame and the return address.\<close>

definition arg_in_reg :: "bool \<Rightarrow> nat \<Rightarrow> bool" where "arg_in_reg vararg word \<longleftrightarrow> \<not> vararg \<and> word < 8"

definition arg_off :: "('b, 'v) gen \<Rightarrow> bool \<Rightarrow> nat \<Rightarrow> u32" where
  "arg_off cg vararg word = cg_frame_bytes cg + 4 + of_nat (if vararg then word else word - 8) * 4"

definition store_param_word :: "bool \<Rightarrow> nat \<Rightarrow> u32 \<Rightarrow> ('b, 'v) gen \<Rightarrow> ('b, 'v) gen option" where
  "store_param_word vararg wpos off cg =
     (if arg_in_reg vararg wpos then Some (cg_stw_sp_off off (of_nat wpos) cg)
      else do {
        (tmp, cg1) \<leftarrow> cg_alloc_reg (cg\<lparr>cg_next_reg := cg_ssa_reg_high cg\<rparr>);
        Some (cg_stw_sp_off off tmp (cg_ldw_sp_off tmp (arg_off cg1 vararg wpos) cg1))
      })"

definition prologue_param :: "('v, 't, 'b) llvm \<Rightarrow> bool \<Rightarrow> 'v \<Rightarrow> nat \<times> ('b, 'v) gen \<Rightarrow> (nat \<times> ('b, 'v) gen) option" where
  "prologue_param L vararg pv acc =
     (let (word, cg) = acc in do {
        ix \<leftarrow> cg_lookup L cg pv;
        pidx \<leftarrow> ix;
        wslot \<leftarrow> at (cg_i64_slot cg) pidx;
        if wslot = CG_NO_SLOT then do {
          dst \<leftarrow> at (cg_regs cg) pidx;
          Some (word + 1, if arg_in_reg vararg word then emit_mov dst (of_nat word) cg else cg_ldw_sp_off dst (arg_off cg vararg word) cg)
        }
        else do {
          loff \<leftarrow> cg_i64_lo_off cg pidx;
          cg1 \<leftarrow> store_param_word vararg word loff cg;
          cg2 \<leftarrow> store_param_word vararg (word + 1) (loff + 4) cg1;
          Some (word + 2, cg2)
        }
      })"

definition prologue_params :: "('v, 't, 'b) llvm \<Rightarrow> bool \<Rightarrow> 'v list \<Rightarrow> ('b, 'v) gen \<Rightarrow> ('b, 'v) gen option" where
  "prologue_params L vararg params cg =
     map_option snd (fold_opt (prologue_param L vararg) params (0, cg\<lparr>cg_next_reg := cg_ssa_reg_high cg\<rparr>))"

definition call_ctors :: "nat list \<Rightarrow> ('b, 'v) gen \<Rightarrow> ('b, 'v) gen" where
  "call_ctors ctors cg =
     (if ctors = [] then cg
      else (fold (\<lambda>c. cg_emit (enc_i24 (op_value CVM_OP_CALL) (CVM_FN_SLOT (of_nat c)))) ctors cg)\<lparr>cg_has_calls := True\<rparr>)"

definition prologue_alloca :: "('v, 't, 'b) llvm \<Rightarrow> 'v \<times> u32 \<Rightarrow> ('b, 'v) gen \<Rightarrow> ('b, 'v) gen option" where
  "prologue_alloca L ao cg =
     (let (av, off) = ao in do {
        ix \<leftarrow> cg_lookup L cg av;
        idx \<leftarrow> ix;
        dst \<leftarrow> at (cg_regs cg) idx;
        let cg1 = cg_movi_scratch off cg;
        Some (if dst = CG_REG_SPILLED then cg1 else cg_emit (rop CVM_OP_ADD dst CG_REG_SP CG_REG_SCRATCH) cg1)
      })"

text \<open>\<open>ctors\<close> are the global constructors to call, none if the function is not the entry of the program.\<close>

definition prologue :: "('v, 't, 'b) llvm \<Rightarrow> bool \<Rightarrow> 'v list \<Rightarrow> nat list \<Rightarrow> ('b, 'v) gen \<Rightarrow> ('b, 'v) gen option" where
  "prologue L vararg params ctors cg = do {
     cg1 \<leftarrow> prologue_params L vararg params (cg_sp_sub (cg_frame_bytes cg) cg);
     let cg2 = call_ctors ctors (cg_emit (movi (cg_zero_reg cg1) 0) cg1);
     fold_opt (prologue_alloca L) (cg_allocas cg2) cg2
   }"

section \<open>The function\<close>

definition emit_block ::
  "('v, 't, 'b) llvm \<Rightarrow> ('v, 'b) llvm_inst \<Rightarrow> ('v, 't, 'b) llvm_call \<Rightarrow> nat \<Rightarrow> nat \<times> 'b \<Rightarrow> ('b, 'v) gen \<Rightarrow> ('b, 'v) gen option" where
  "emit_block L I C n_named bbb cg =
     (let (b, bb) = bbb in
      fold_opt (lower_instruction L I C n_named bb) (LLVMInstructions L bb)
        (cg\<lparr>cg_block_offsets := (cg_block_offsets cg)[b := length (cg_code cg)]\<rparr>))"

text \<open>The passes over branches, on the part of the state that they use.\<close>

definition resolve_all :: "('b, 'v) gen \<Rightarrow> ('b, 'v) gen option" where
  "resolve_all cg =
     (let pass = (\<lambda>f c. case f c of Some (Inr c') \<Rightarrow> Some c' | _ \<Rightarrow> None) in do {
        c1 \<leftarrow> pass cg_relax_branches (cg.truncate cg);
        c2 \<leftarrow> pass cg_resolve_fixups c1;
        c3 \<leftarrow> pass cg_resolve_table_fixups c2;
        Some (cg.extend c3 (cg.more cg))
      })"

definition cg_function ::
  "('v, 't, 'b) llvm \<Rightarrow> ('v, 'b) llvm_inst \<Rightarrow> ('v, 't, 'b) llvm_call \<Rightarrow> ('v, 't, 'b) llvm_fn \<Rightarrow> 'v \<Rightarrow> nat \<Rightarrow> nat list
    \<Rightarrow> ('b, 'v) gen \<Rightarrow> ('b, 'v) gen option" where
  "cg_function L I C F fn func_idx ctors cg =
     (let vararg = LLVMIsFunctionVarArg C (LLVMGlobalGetValueType C fn); params = LLVMParams F in do {
        cg1 \<leftarrow> cg_function_frame L F func_idx cg;
        cg2 \<leftarrow> prologue L vararg params ctors cg1;
        cg3 \<leftarrow> fold_opt (emit_block L I C (length params)) (enumerate 0 (cg_blocks cg2)) cg2;
        resolve_all cg3
      })"

end
