(* ===== verification/Globals_Correct.thy ===== *)
theory Globals_Correct
  imports Globals Small_Module
begin

text \<open>
  The DATA section that \<open>cg_collect_globals\<close> lays out: the globals follow each other without overlap, aligned, behind
  a guard of 8 bytes, and each holds the bytes of its own initialiser.
\<close>

section \<open>Alignment\<close>

lemma unat_pow2: "k < 32 \<Longrightarrow> unat (2 ^ k :: u32) = 2 ^ k"
proof -
  assume "k < 32"
  then have "(2 :: nat) ^ k < 2 ^ 32" by (intro power_strict_increasing) auto
  then have "unat (of_nat (2 ^ k) :: u32) = 2 ^ k" by (simp add: unat_of_nat take_bit_nat_eq_self del: of_nat_power)
  then show ?thesis by simp
qed

lemma align_up_pow2:
  assumes "k < 31" "unat x \<le> 2 ^ 31"
  shows "unat (align_up x (2 ^ k)) = (unat x + 2 ^ k - 1) div 2 ^ k * 2 ^ k"
proof -
  let ?y = "x + 2 ^ k - 1"
  have p: "(2 :: nat) ^ k \<le> 2 ^ 30" using assms(1) by (intro power_increasing) auto
  have k: "unat (2 ^ k :: u32) = 2 ^ k" using assms(1) by (simp add: unat_pow2)
  have s: "unat (x + 2 ^ k) = unat x + 2 ^ k"
    using assms(2) p by (subst unat_add_lem [THEN iffD1]) (simp_all add: k)
  have y: "unat ?y = unat x + 2 ^ k - 1"
  proof -
    have "x + 2 ^ k \<noteq> 0" using s by (metis add_is_0 power_not_zero unat_0 zero_neq_numeral)
    then show ?thesis using s by (simp add: unat_minus_one)
  qed
  have "align_up x (2 ^ k) = push_bit k (drop_bit k ?y)"
    unfolding align_up_def by (rule bit_word_eqI) (auto simp: bit_simps mask_eq_exp_minus_1 [symmetric])
  moreover have "unat (push_bit k (drop_bit k ?y)) = take_bit 32 (push_bit k (drop_bit k (unat ?y)))"
    using unat_lt32 [of ?y]
    by (subst unsigned_push_bit_eq, subst unsigned_drop_bit_eq) (simp add: take_bit_nat_eq_self del: push_bit_of_1)
  ultimately have "unat (align_up x (2 ^ k)) = (unat ?y div 2 ^ k * 2 ^ k) mod 2 ^ 32"
    by (simp only: take_bit_eq_mod push_bit_eq_mult drop_bit_eq_div)
  moreover have "unat ?y div 2 ^ k * 2 ^ k < 2 ^ 32"
    using unat_lt32 [of ?y] by (intro le_less_trans [OF div_times_less_eq_dividend]) simp
  ultimately show ?thesis unfolding y by (metis mod_less)
qed

lemma align_up_bounds:
  assumes "k < 30" "unat x \<le> 2 ^ 31"
  shows "unat x \<le> unat (align_up x (2 ^ k))" "unat (align_up x (2 ^ k)) < unat x + 2 ^ k" "2 ^ k dvd unat (align_up x (2 ^ k))"
proof -
  have e: "unat (align_up x (2 ^ k)) = (unat x + 2 ^ k - 1) div 2 ^ k * 2 ^ k" by (rule align_up_pow2) (use assms in auto)
  have "(unat x + 2 ^ k - 1) div 2 ^ k * 2 ^ k + (unat x + 2 ^ k - 1) mod 2 ^ k = unat x + 2 ^ k - 1"
    by (rule div_mult_mod_eq)
  moreover have "(unat x + 2 ^ k - 1) mod 2 ^ k < 2 ^ k" by simp
  ultimately show "unat x \<le> unat (align_up x (2 ^ k))" "unat (align_up x (2 ^ k)) < unat x + 2 ^ k"
    unfolding e by linarith+
  show "2 ^ k dvd unat (align_up x (2 ^ k))" unfolding e by simp
qed

section \<open>What is assumed of the module\<close>

definition const_size :: "('v, 't, 'b) llvm \<Rightarrow> 'v \<Rightarrow> u32" where "const_size L c = ucast (LLVMABISizeOfType L (LLVMTypeOf L c))"

text \<open>Parts of a constant lie within it, a cast keeps the size, and an alias has the size of a pointer like its aliasee.\<close>

definition parts_within :: "('v, 't, 'b) llvm \<Rightarrow> ('v, 't) llvm_module \<Rightarrow> bool" where
  "parts_within L M \<longleftrightarrow>
     (\<forall>c i e. LLVMGetTypeKind L (LLVMTypeOf L c) = LLVMArrayTypeKind \<longrightarrow> i < LLVMGetArrayLength M (LLVMTypeOf L c)
        \<longrightarrow> LLVMGetAggregateElement L c i = Some e
        \<longrightarrow> unat (of_nat i * ucast (LLVMABISizeOfType L (LLVMGetElementType L (LLVMTypeOf L c))) :: u32) + unat (const_size L e)
          \<le> unat (const_size L c))
   \<and> (\<forall>c i e. LLVMGetTypeKind L (LLVMTypeOf L c) = LLVMStructTypeKind \<longrightarrow> i < LLVMCountStructElementTypes L (LLVMTypeOf L c)
        \<longrightarrow> LLVMGetAggregateElement L c i = Some e
        \<longrightarrow> unat (ucast (LLVMOffsetOfElement L (LLVMTypeOf L c) i) :: u32) + unat (const_size L e) \<le> unat (const_size L c))
   \<and> (\<forall>c. LLVMIsAConstantExpr L c \<longrightarrow> LLVMGetConstOpcode L c \<in> {LLVMPtrToInt, LLVMIntToPtr, LLVMBitCast}
        \<longrightarrow> const_size L (LLVMGetOperand L c 0) \<le> const_size L c)
   \<and> (\<forall>c. LLVMIsAGlobalAlias L c \<longrightarrow> const_size L (LLVMAliasGetAliasee L c) \<le> const_size L c)"

text \<open>Alignments are powers of two, a global has less than 1 GiB, and an initialiser has the type of its global.\<close>

definition globals_ok :: "('v, 't, 'b) llvm \<Rightarrow> ('v, 't) llvm_module \<Rightarrow> bool" where
  "globals_ok L M \<longleftrightarrow> (\<forall>gv ty. gv \<in> set (LLVMGlobals M) \<longrightarrow> gv_type M gv = Some ty \<longrightarrow>
     (gv_alignment M gv = 0 \<or> (\<exists>k < 30. gv_alignment M gv = 2 ^ k)) \<and> (\<exists>k < 30. type_alignment M ty = 2 ^ k)
     \<and> LLVMABISizeOfType L ty < 2 ^ 30 \<and> (\<forall>c. LLVMGetInitializer M gv = Some c \<longrightarrow> LLVMTypeOf L c = ty))"

section \<open>Initialisers\<close>

text \<open>Two buffers that agree between \<open>lo\<close> and \<open>hi\<close>; and a buffer that is the same outside.\<close>

definition agree_on :: "nat \<Rightarrow> nat \<Rightarrow> 'a list \<Rightarrow> 'a list \<Rightarrow> bool" where
  "agree_on lo hi a b \<longleftrightarrow> length a = length b \<and> (\<forall>i. lo \<le> i \<longrightarrow> i < hi \<longrightarrow> i < length a \<longrightarrow> a ! i = b ! i)"

definition same_outside :: "nat \<Rightarrow> nat \<Rightarrow> 'a list \<Rightarrow> 'a list \<Rightarrow> bool" where
  "same_outside lo hi a b \<longleftrightarrow> length a = length b \<and> (\<forall>i < length a. i < lo \<or> hi \<le> i \<longrightarrow> a ! i = b ! i)"

lemma same_outside_refl [simp]: "same_outside lo hi a a" by (simp add: same_outside_def)

lemma same_outside_trans: "same_outside lo hi a b \<Longrightarrow> same_outside lo hi b c \<Longrightarrow> same_outside lo hi a c"
  by (simp add: same_outside_def)

lemma put_le_Suc: "put_le (Suc n) off v bs = (put_le n off v bs)[off + n := ucast (drop_bit (n * 8) v)]"
  by (simp add: put_le_def)

lemma put_le_length [simp]: "length (put_le n off v bs) = length bs"
  by (induction n) (simp_all add: put_le_Suc, simp add: put_le_def)

lemma put_le_outside: "lo \<le> off \<Longrightarrow> off + n \<le> hi \<Longrightarrow> same_outside lo hi (put_le n off v bs) bs"
proof (induction n)
  case (Suc n)
  then show ?case by (auto simp: put_le_Suc same_outside_def nth_list_update)
qed (simp add: put_le_def)

lemma agree_on_update:
  assumes "agree_on lo hi a b"
  shows "agree_on lo hi (a[k := x]) (b[k := x])"
  using assms by (cases "k < length a") (auto simp: agree_on_def nth_list_update)

lemma put_le_agree: "agree_on lo hi a b \<Longrightarrow> agree_on lo hi (put_le n off v a) (put_le n off v b)"
proof (induction n)
  case (Suc n)
  then show ?case unfolding put_le_Suc by (intro agree_on_update) simp
qed (simp add: put_le_def)

text \<open>What the tables of the generator have to do with it.\<close>

definition same_tables :: "('b, 'v) gen \<Rightarrow> ('b, 'v) gen \<Rightarrow> bool" where
  "same_tables cg cg' \<longleftrightarrow> cg_globals cg' = cg_globals cg \<and> cg_funcs cg' = cg_funcs cg"

lemma tables_lookup:
  assumes "same_tables cg cg'"
  shows "cg_func_lookup cg' = cg_func_lookup cg" "entry_address L cg' = entry_address L cg" "global_address L cg' = global_address L cg"
proof -
  show "cg_func_lookup cg' = cg_func_lookup cg" using assms by (simp add: fun_eq_iff same_tables_def cg_func_lookup_def)
  show e: "entry_address L cg' = entry_address L cg"
    using assms by (simp add: fun_eq_iff same_tables_def entry_address_def cg_globals_lookup_def)
  have le: "global_address L cg2 c = Some a"
    if "global_address L cg1 c = Some a" "entry_address L cg2 = entry_address L cg1" for cg1 cg2 :: "('a, 'b) gen" and c a
  proof (rule global_address.raw_induct [where P = "\<lambda>L cg1 c a. entry_address L cg2 = entry_address L cg1 \<longrightarrow> global_address L cg2 c = Some a",
        OF _ that(1), THEN mp, OF _ that(2)])
    fix ga L and cg1 :: "('a, 'b) gen" and c a
    assume "\<And>L cg1 c a. ga L cg1 c = Some a \<Longrightarrow> entry_address L cg2 = entry_address L cg1 \<longrightarrow> global_address L cg2 c = Some a"
      and "(if LLVMIsAConstantExpr L c then
        let op = LLVMGetConstOpcode L c in
        if op = LLVMBitCast \<or> op = LLVMAddrSpaceCast \<or> op = LLVMIntToPtr \<or> op = LLVMPtrToInt then ga L cg1 (LLVMGetOperand L c 0)
        else if op = LLVMGetElementPtr
        then Option.bind (cg_const_gep_offset L c) (\<lambda>extra. entry_address L cg1 (LLVMGetOperand L c 0) extra)
        else None
      else entry_address L cg1 c 0) = Some a"
    then show "entry_address L cg2 = entry_address L cg1 \<longrightarrow> global_address L cg2 c = Some a"
      by (subst global_address.simps) (auto simp: Let_def split: if_splits)
  qed
  show "global_address L cg' = global_address L cg"
    by (rule ext) (metis e le option.exhaust)
qed

text \<open>The bytes that a constant writes: a number of bytes, an offset and a value each time.\<close>

definition put_all :: "(nat \<times> nat \<times> u64) list \<Rightarrow> u8 list \<Rightarrow> u8 list" where
  "put_all ws out = fold (\<lambda>(n, off, v). put_le n off v) ws out"

definition writes_within :: "nat \<Rightarrow> nat \<Rightarrow> (nat \<times> nat \<times> u64) list \<Rightarrow> bool" where
  "writes_within lo hi ws \<longleftrightarrow> (\<forall>(n, off, v) \<in> set ws. lo \<le> off \<and> off + n \<le> hi)"

lemma put_all_simps [simp]:
  "put_all [] out = out" "put_all ((n, off, v) # ws) out = put_all ws (put_le n off v out)"
  "put_all (ws @ vs) out = put_all vs (put_all ws out)"
  by (simp_all add: put_all_def)

lemma writes_within_simps [simp]:
  "writes_within lo hi []" "writes_within lo hi ((n, off, v) # ws) \<longleftrightarrow> lo \<le> off \<and> off + n \<le> hi \<and> writes_within lo hi ws"
  "writes_within lo hi (ws @ vs) \<longleftrightarrow> writes_within lo hi ws \<and> writes_within lo hi vs"
  by (simp_all add: writes_within_def ball_Un)

lemma put_all_length [simp]: "length (put_all ws out) = length out"
  by (induction ws arbitrary: out) (auto simp: put_all_def)

lemma put_all_outside: "writes_within lo hi ws \<Longrightarrow> same_outside lo hi (put_all ws out) out"
proof (induction ws arbitrary: out)
  case (Cons w ws)
  obtain n off v where w: "w = (n, off, v)" by (cases w)
  show ?case using Cons.prems Cons.IH [of "put_le n off v out"] put_le_outside [of lo off n hi v out]
    by (auto simp: w intro: same_outside_trans)
qed simp

lemma put_all_agree: "agree_on lo hi a b \<Longrightarrow> agree_on lo hi (put_all ws a) (put_all ws b)"
proof (induction ws arbitrary: a b)
  case (Cons w ws)
  then show ?case by (cases w) (auto intro: put_le_agree)
qed simp

text \<open>The number of bytes and the value that a constant without parts writes.\<close>

definition leaf_value :: "('v, 't, 'b) llvm \<Rightarrow> ('b, 'v) gen \<Rightarrow> 'v \<Rightarrow> u32 \<Rightarrow> (nat \<times> u64) option" where
  "leaf_value L cg c sz =
     (let k = LLVMGetTypeKind L (LLVMTypeOf L c) in
      if LLVMIsAConstantAggregateZero L c \<or> LLVMIsAConstantPointerNull L c \<or> LLVMIsUndef L c then Some (0, 0)
      else if LLVMIsAConstantInt L c then Some (min (unat sz) 8, LLVMConstIntGetZExtValue L c)
      else if LLVMIsAConstantFP L c then
        (if k = LLVMFloatTypeKind \<and> sz = 4 then Some (4, ucast (v_real_float_bits L c))
         else if k = LLVMDoubleTypeKind \<and> sz = 8 then Some (8, v_real_bits L c) else None)
      else if sz < 4 then None
      else if LLVMIsAFunction L c then map_option (\<lambda>i. (4, ucast (CVM_FN_SLOT (of_nat i)))) (cg_func_lookup cg c)
      else if k = LLVMPointerTypeKind then map_option (\<lambda>a. (4, ucast a)) (global_address L cg c)
      else None)"

lemma leaf_writes:
  "serialize_leaf L cg c off sz out = map_option (\<lambda>(n, v). put_le n off v out) (leaf_value L cg c sz)"
proof -
  have z: "put_le 0 off v out = out" for v by (simp add: put_le_def)
  show ?thesis
    by (simp add: serialize_leaf_def leaf_value_def Let_def serialize_function_index_def serialize_global_ptr_def z option.map_comp comp_def)
qed

lemma leaf_tables: "same_tables cg cg' \<Longrightarrow> leaf_value L cg' c sz = leaf_value L cg c sz"
  by (simp only: leaf_value_def tables_lookup [of cg cg'])

lemma leaf_size:
  assumes "leaf_value L cg c sz = Some (n, v)"
  shows "n \<le> unat sz"
proof -
  have "4 \<le> unat sz" if "\<not> sz < 4" using that by (simp add: word_less_nat_alt)
  then show ?thesis using assms by (auto simp: leaf_value_def Let_def split: if_splits)
qed

lemma those_Some: "those xs = Some ys \<longleftrightarrow> xs = map Some ys"
  by (induction xs arbitrary: ys) (auto split: option.splits)

lemma parts_of_const:
  assumes "const_parts L c off po n = Some ps" "\<And>i e. i < n \<Longrightarrow> LLVMGetAggregateElement L c i = Some e \<Longrightarrow> unat (po i) + unat (const_size L e) \<le> sz"
    and "unat off + sz < 2 ^ 32" "(e, o') \<in> set ps"
  shows "unat off \<le> unat o'" "unat o' + unat (const_size L e) \<le> unat off + sz"
proof -
  obtain i where i: "i < n" "LLVMGetAggregateElement L c i = Some e" "o' = off + po i"
  proof -
    from assms(4) obtain j where j: "j < length ps" "ps ! j = (e, o')" by (auto simp: in_set_conv_nth)
    let ?f = "\<lambda>i. map_option (\<lambda>e. (e, off + po i)) (LLVMGetAggregateElement L c i)"
    have m: "map ?f [0..<n] = map Some ps" using assms(1) by (simp add: const_parts_def those_Some)
    from arg_cong [OF m, of length] have l: "length ps = n" by simp
    from arg_cong [OF m, of "\<lambda>xs. xs ! j"] j l have "?f j = Some (e, o')" by simp
    then show ?thesis using that [of j] j(1) l by auto
  qed
  show "unat off \<le> unat o'" "unat o' + unat (const_size L e) \<le> unat off + sz"
    using assms(2) [OF i(1,2)] assms(3) by (simp_all add: i(3) unat_add_lt)
qed

definition work_within :: "('v, 't, 'b) llvm \<Rightarrow> nat \<Rightarrow> nat \<Rightarrow> ('v \<times> u32) list \<Rightarrow> bool" where
  "work_within L lo hi work \<longleftrightarrow> (\<forall>(c, off) \<in> set work. lo \<le> unat off \<and> unat off + unat (const_size L c) \<le> hi)"

lemma work_within_simps [simp]:
  "work_within L lo hi []"
  "work_within L lo hi ((c, off) # ws) \<longleftrightarrow> lo \<le> unat off \<and> unat off + unat (const_size L c) \<le> hi \<and> work_within L lo hi ws"
  "work_within L lo hi (ws @ vs) \<longleftrightarrow> work_within L lo hi ws \<and> work_within L lo hi vs"
  by (simp_all add: work_within_def ball_Un)

text \<open>The same writes, whatever the buffer and the bytes laid out before.\<close>

definition writes_same ::
  "('v, 't, 'b) llvm \<Rightarrow> ('v, 't) llvm_module \<Rightarrow> ('b, 'v) gen \<Rightarrow> u32 \<Rightarrow> nat \<Rightarrow> nat \<Rightarrow> ('v \<times> u32) list \<Rightarrow> bool" where
  "writes_same L M cg cap lo hi work \<longleftrightarrow> (\<exists>ws. writes_within lo hi ws
     \<and> (\<forall>cg' out'. same_tables cg cg' \<longrightarrow> serialize_constants L M cg' cap work out' = Some (put_all ws out')))"

lemma writes_sameI:
  assumes "writes_same L M cg cap lo hi work'" "writes_within lo hi pre"
    and "\<And>cg' out'. same_tables cg cg' \<Longrightarrow> serialize_constants L M cg' cap work out' = serialize_constants L M cg' cap work' (put_all pre out')"
  shows "writes_same L M cg cap lo hi work"
proof -
  obtain ws where "writes_within lo hi ws"
    "\<And>cg' out'. same_tables cg cg' \<Longrightarrow> serialize_constants L M cg' cap work' out' = Some (put_all ws out')"
    using assms(1) unfolding writes_same_def by blast
  then show ?thesis using assms(2,3) unfolding writes_same_def by (intro exI [of _ "pre @ ws"]) simp
qed

lemma parts_work:
  assumes "parts_within L M" "hi < 2 ^ 32" "lo \<le> unat off" "unat off + unat (const_size L c) \<le> hi"
  shows "LLVMGetTypeKind L (LLVMTypeOf L c) = LLVMArrayTypeKind \<Longrightarrow>
      const_parts L c off (\<lambda>i. of_nat i * ucast (LLVMABISizeOfType L (LLVMGetElementType L (LLVMTypeOf L c))))
        (LLVMGetArrayLength M (LLVMTypeOf L c)) = Some ps \<Longrightarrow> work_within L lo hi ps"
    and "LLVMGetTypeKind L (LLVMTypeOf L c) = LLVMStructTypeKind \<Longrightarrow>
      const_parts L c off (\<lambda>i. ucast (LLVMOffsetOfElement L (LLVMTypeOf L c) i)) (LLVMCountStructElementTypes L (LLVMTypeOf L c)) = Some ps
      \<Longrightarrow> work_within L lo hi ps"
proof -
  have *: "work_within L lo hi ps" if "const_parts L c off po n = Some ps"
      "\<And>i e. i < n \<Longrightarrow> LLVMGetAggregateElement L c i = Some e \<Longrightarrow> unat (po i) + unat (const_size L e) \<le> unat (const_size L c)" for po n
    unfolding work_within_def using parts_of_const [OF that] assms(2-4) by fastforce
  show "LLVMGetTypeKind L (LLVMTypeOf L c) = LLVMArrayTypeKind \<Longrightarrow>
      const_parts L c off (\<lambda>i. of_nat i * ucast (LLVMABISizeOfType L (LLVMGetElementType L (LLVMTypeOf L c))))
        (LLVMGetArrayLength M (LLVMTypeOf L c)) = Some ps \<Longrightarrow> work_within L lo hi ps"
    by (erule *) (use assms(1) in \<open>simp add: parts_within_def\<close>)
  show "LLVMGetTypeKind L (LLVMTypeOf L c) = LLVMStructTypeKind \<Longrightarrow>
      const_parts L c off (\<lambda>i. ucast (LLVMOffsetOfElement L (LLVMTypeOf L c) i)) (LLVMCountStructElementTypes L (LLVMTypeOf L c)) = Some ps
      \<Longrightarrow> work_within L lo hi ps"
    by (erule *) (use assms(1) in \<open>simp add: parts_within_def\<close>)
qed

lemma serialize_writes:
  assumes "serialize_constants L M cg cap work out = Some out1"
  shows "parts_within L M \<longrightarrow> hi < 2 ^ 32 \<longrightarrow> work_within L lo hi work \<longrightarrow> writes_same L M cg cap lo hi work"
proof (rule serialize_constants.raw_induct [OF _ assms, where
    P = "\<lambda>L M cg cap work out _. parts_within L M \<longrightarrow> hi < 2 ^ 32 \<longrightarrow> work_within L lo hi work \<longrightarrow> writes_same L M cg cap lo hi work"],
    intro impI, goal_cases)
  case (1 ser L M cg cap work out out1)
  note IH = 1(1) [THEN mp, THEN mp, THEN mp, OF _ 1(3,4)]
  note parts = parts_work [OF 1(3,4)]
  note simps = serialize_constants.simps [of L M]
  show ?case
  proof (cases work)
    case Nil
    then show ?thesis unfolding writes_same_def by (intro exI [of _ "[]"]) (simp add: simps)
  next
    case (Cons x ws)
    obtain c off where x: "x = (c, off)" by (cases x)
    have wk: "lo \<le> unat off" "unat off + unat (const_size L c) \<le> hi" "work_within L lo hi ws"
      using 1(5) by (simp_all add: Cons x)
    define cast where "cast = (LLVMIsAConstantExpr L c \<and> LLVMGetConstOpcode L c \<in> {LLVMPtrToInt, LLVMIntToPtr, LLVMBitCast})"
    note body = 1(2) [unfolded Cons x list.case prod.case Let_def, folded cast_def const_size_def]
    note step = simps [unfolded Let_def, folded const_size_def, of _ cap "(c, off) # ws", unfolded list.case prod.case, folded cast_def]
    have cap: "\<not> cap < off + const_size L c" using body by (auto split: if_splits)
    show ?thesis unfolding Cons x
    proof (cases cast)
      case True
      have "ser L M cg cap ((LLVMGetOperand L c 0, off) # ws) out = Some out1" using body cap True by simp
      moreover have "const_size L (LLVMGetOperand L c 0) \<le> const_size L c" using 1(3) True unfolding parts_within_def cast_def by blast
      ultimately have "writes_same L M cg cap lo hi ((LLVMGetOperand L c 0, off) # ws)"
        using wk by (intro IH) (auto simp: word_le_nat_alt)
      then show "writes_same L M cg cap lo hi ((c, off) # ws)"
        by (rule writes_sameI [of _ _ _ _ _ _ _ "[]"]) (use cap True in \<open>simp_all add: step\<close>)
    next
      case nc: False
      show "writes_same L M cg cap lo hi ((c, off) # ws)"
      proof (cases "LLVMIsAGlobalAlias L c")
        case True
        have "ser L M cg cap ((LLVMAliasGetAliasee L c, off) # ws) out = Some out1" using body cap nc True by simp
        moreover have "const_size L (LLVMAliasGetAliasee L c) \<le> const_size L c" using 1(3) True unfolding parts_within_def by blast
        ultimately have "writes_same L M cg cap lo hi ((LLVMAliasGetAliasee L c, off) # ws)"
          using wk by (intro IH) (auto simp: word_le_nat_alt)
        then show ?thesis by (rule writes_sameI [of _ _ _ _ _ _ _ "[]"]) (use cap nc True in \<open>simp_all add: step\<close>)
      next
        case na: False
        show ?thesis
        proof (cases "is_leaf L c")
          case True
          obtain n v where v: "leaf_value L cg c (const_size L c) = Some (n, v)"
            and s: "ser L M cg cap ws (put_le n (unat off) v out) = Some out1"
            using body cap nc na True by (auto simp: leaf_writes Option.bind_eq_Some_conv)
          have "writes_same L M cg cap lo hi ws" by (rule IH [OF s wk(3)])
          then show ?thesis
          proof (rule writes_sameI [of _ _ _ _ _ _ _ "[(n, unat off, v)]"])
            show "writes_within lo hi [(n, unat off, v)]" using leaf_size [OF v] wk by simp
          qed (use cap nc na True in \<open>simp add: step leaf_writes leaf_tables v\<close>)
        next
          case nl: False
          then have ty: "LLVMGetTypeKind L (LLVMTypeOf L c) \<in> {LLVMArrayTypeKind, LLVMStructTypeKind}" by (simp add: is_leaf_def)
          have I: "writes_same L M cg cap lo hi ((c, off) # ws)"
            if p: "work_within L lo hi ps" "ser L M cg cap (ps @ ws) out = Some out1"
              "\<And>cg' out'. serialize_constants L M cg' cap ((c, off) # ws) out' = serialize_constants L M cg' cap (ps @ ws) out'" for ps
          proof (rule writes_sameI [of _ _ _ _ _ _ _ "[]"])
            show "writes_same L M cg cap lo hi (ps @ ws)" by (rule IH [OF p(2)]) (simp add: p(1) wk(3))
          qed (simp_all add: p(3))
          show ?thesis
          proof (cases "LLVMGetTypeKind L (LLVMTypeOf L c) = LLVMArrayTypeKind")
            case True
            obtain ps where "const_parts L c off (\<lambda>i. of_nat i * ucast (LLVMABISizeOfType L (LLVMGetElementType L (LLVMTypeOf L c))))
                (LLVMGetArrayLength M (LLVMTypeOf L c)) = Some ps" "ser L M cg cap (ps @ ws) out = Some out1"
              using body cap nc na nl True by (auto simp: Option.bind_eq_Some_conv)
            then show ?thesis using parts(1) [OF wk(1,2) True] cap nc na nl True by (intro I [of ps]) (simp_all add: step)
          next
            case False
            obtain ps where "const_parts L c off (\<lambda>i. ucast (LLVMOffsetOfElement L (LLVMTypeOf L c) i))
                (LLVMCountStructElementTypes L (LLVMTypeOf L c)) = Some ps" "ser L M cg cap (ps @ ws) out = Some out1"
              using body cap nc na nl False by (auto simp: Option.bind_eq_Some_conv)
            then show ?thesis using parts(2) [OF wk(1,2)] ty cap nc na nl False by (intro I [of ps]) (simp_all add: step)
          qed
        qed
      qed
    qed
  qed
qed

section \<open>The second pass: initialisers\<close>

definition in_global :: "'v cg_global \<Rightarrow> nat \<Rightarrow> bool" where
  "in_global g i \<longleftrightarrow> unat (gl_offset g) \<le> i \<and> i < unat (gl_offset g) + unat (gl_size g)"

primrec laid_out :: "nat \<Rightarrow> 'v cg_global list \<Rightarrow> nat \<Rightarrow> bool" where
  "laid_out lo [] hi \<longleftrightarrow> lo \<le> hi"
| "laid_out lo (g # gs) hi \<longleftrightarrow> lo \<le> unat (gl_offset g) \<and> laid_out (unat (gl_offset g) + unat (gl_size g)) gs hi"

lemma laid_out_le: "laid_out lo gs hi \<Longrightarrow> lo \<le> hi"
  by (induction gs arbitrary: lo) fastforce+

lemma laid_out_bounds: "laid_out lo gs hi \<Longrightarrow> g \<in> set gs \<Longrightarrow> lo \<le> unat (gl_offset g) \<and> unat (gl_offset g) + unat (gl_size g) \<le> hi"
proof (induction gs arbitrary: lo)
  case (Cons h gs)
  then show ?case using laid_out_le [of _ gs hi] by fastforce
qed simp

lemma laid_out_sorted: "laid_out lo gs hi \<Longrightarrow> sorted_wrt (\<lambda>g h. unat (gl_offset g) + unat (gl_size g) \<le> unat (gl_offset h)) gs"
  by (induction gs arbitrary: lo) (auto dest: laid_out_bounds)

lemma laid_out_snoc:
  "laid_out lo gs mid \<Longrightarrow> mid \<le> unat (gl_offset g) \<Longrightarrow> unat (gl_offset g) + unat (gl_size g) \<le> hi \<Longrightarrow> laid_out lo (gs @ [g]) hi"
  by (induction gs arbitrary: lo) auto

lemma data_cap_ge: "0 < cap \<Longrightarrow> need \<le> data_cap cap need"
proof (induction cap need rule: data_cap.induct)
  case (1 cap need)
  then show ?case by (subst data_cap.simps) auto
qed

lemma put_all_append: "writes_within lo hi ws \<Longrightarrow> hi \<le> length a \<Longrightarrow> put_all ws (a @ b) = put_all ws a @ b"
proof (induction ws arbitrary: a)
  case (Cons w ws)
  obtain n off v where w: "w = (n, off, v)" by (cases w)
  have "put_le k off v (a @ b) = put_le k off v a @ b" if "k \<le> n" for k
    using that Cons.prems by (induction k) (simp_all add: put_le_Suc w list_update_append, simp add: put_le_def)
  then show ?case using Cons.prems Cons.IH by (simp add: w)
qed simp

definition init_writes ::
  "('v, 't, 'b) llvm \<Rightarrow> ('v, 't) llvm_module \<Rightarrow> ('b, 'v) gen \<Rightarrow> nat \<Rightarrow> 'v cg_global \<Rightarrow> (nat \<times> nat \<times> u64) list \<Rightarrow> bool" where
  "init_writes L M cg cap g ws \<longleftrightarrow> writes_within (unat (gl_offset g)) (unat (gl_offset g) + unat (gl_size g)) ws
     \<and> (case LLVMGetInitializer M (gl_value g) of None \<Rightarrow> ws = []
        | Some c \<Rightarrow> \<forall>cg' out'. same_tables cg cg'
            \<longrightarrow> serialize_constants L M cg' (of_nat cap) [(c, gl_offset g)] out' = Some (put_all ws out'))"

definition init_fits :: "('v, 't, 'b) llvm \<Rightarrow> ('v, 't) llvm_module \<Rightarrow> nat \<Rightarrow> 'v cg_global \<Rightarrow> bool" where
  "init_fits L M n g \<longleftrightarrow> unat (gl_offset g) + unat (gl_size g) \<le> n
     \<and> (\<forall>c. LLVMGetInitializer M (gl_value g) = Some c \<longrightarrow> const_size L c = gl_size g)"

lemma init_one:
  assumes "init_global L M g cg = Some cg1" "parts_within L M" "init_fits L M (length (cg_data_bytes cg)) g" "length (cg_data_bytes cg) < 2 ^ 32"
  shows "\<exists>ws. init_writes L M cg (data_cap 64 (length (cg_data_bytes cg))) g ws \<and> cg1 = cg\<lparr>cg_data_bytes := put_all ws (cg_data_bytes cg)\<rparr>"
proof (cases "LLVMGetInitializer M (gl_value g)")
  case None
  then show ?thesis using assms(1) by (intro exI [of _ "[]"]) (simp add: init_writes_def init_global_def)
next
  case (Some c)
  let ?d = "cg_data_bytes cg" and ?lo = "unat (gl_offset g)" and ?hi = "unat (gl_offset g) + unat (gl_size g)"
  let ?cap = "data_cap 64 (length ?d)"
  obtain out1 where o: "serialize_constants L M cg (of_nat ?cap) [(c, gl_offset g)] (?d @ replicate (?cap - length ?d) 0) = Some out1"
    "cg1 = cg\<lparr>cg_data_bytes := take (length ?d) out1\<rparr>"
    using assms(1) by (auto simp: init_global_def Some Let_def)
  have "work_within L ?lo ?hi [(c, gl_offset g)]" using assms(3) Some by (simp add: init_fits_def)
  then have "writes_same L M cg (of_nat ?cap) ?lo ?hi [(c, gl_offset g)]"
    using serialize_writes [OF o(1), of ?hi ?lo] assms(2-4) by (auto simp: init_fits_def)
  then obtain ws where ws: "writes_within ?lo ?hi ws"
    "\<And>cg' out'. same_tables cg cg' \<Longrightarrow> serialize_constants L M cg' (of_nat ?cap) [(c, gl_offset g)] out' = Some (put_all ws out')"
    unfolding writes_same_def by blast
  have "out1 = put_all ws ?d @ replicate (?cap - length ?d) 0"
    using o(1) ws(2) [of cg] put_all_append [OF ws(1)] assms(3) by (simp add: same_tables_def init_fits_def)
  then show ?thesis using ws o(2) Some by (intro exI [of _ ws]) (simp add: init_writes_def)
qed

lemma init_pass:
  assumes "fold_opt (init_global L M) gs cg = Some cg2" "parts_within L M" "\<forall>g \<in> set gs. init_fits L M (length (cg_data_bytes cg)) g"
    and "length (cg_data_bytes cg) < 2 ^ 32"
  shows "\<exists>wss. list_all2 (init_writes L M cg (data_cap 64 (length (cg_data_bytes cg)))) gs wss
    \<and> cg2 = cg\<lparr>cg_data_bytes := fold put_all wss (cg_data_bytes cg)\<rparr>"
  using assms
proof (induction gs arbitrary: cg)
  case (Cons g gs)
  let ?d = "cg_data_bytes cg"
  obtain cg1 where c1: "init_global L M g cg = Some cg1" "fold_opt (init_global L M) gs cg1 = Some cg2"
    using Cons.prems(1) by (auto simp: Option.bind_eq_Some_conv)
  obtain ws where ws: "init_writes L M cg (data_cap 64 (length ?d)) g ws" "cg1 = cg\<lparr>cg_data_bytes := put_all ws ?d\<rparr>"
    using init_one [OF c1(1)] Cons.prems by auto
  obtain wss where wss: "list_all2 (init_writes L M cg1 (data_cap 64 (length ?d))) gs wss"
    "cg2 = cg1\<lparr>cg_data_bytes := fold put_all wss (cg_data_bytes cg1)\<rparr>"
    using Cons.IH [OF c1(2)] Cons.prems by (auto simp: ws(2))
  have "same_tables cg1 = same_tables cg" by (simp add: fun_eq_iff same_tables_def ws(2))
  then have "init_writes L M cg1 = init_writes L M cg" by (intro ext) (simp only: init_writes_def)
  then show ?case using ws wss by (intro exI [of _ "ws # wss"]) simp
qed simp

text \<open>Writes to globals that do not overlap do not disturb each other.\<close>

lemma fold_puts:
  assumes "list_all2 (init_writes L M cg cap) gs wss" "laid_out lo gs (length d)" "i < length d"
  shows "\<forall>g \<in> set gs. \<not> in_global g i \<Longrightarrow> fold put_all wss d ! i = d ! i"
    and "g \<in> set gs \<Longrightarrow> in_global g i \<Longrightarrow> \<exists>ws. init_writes L M cg cap g ws \<and> fold put_all wss d ! i = put_all ws d ! i"
proof -
  have "((\<forall>g \<in> set gs. \<not> in_global g i) \<longrightarrow> fold put_all wss d ! i = d ! i)
    \<and> (g \<in> set gs \<longrightarrow> in_global g i \<longrightarrow> (\<exists>ws. init_writes L M cg cap g ws \<and> fold put_all wss d ! i = put_all ws d ! i))"
    using assms
  proof (induction arbitrary: lo d rule: list_all2_induct)
    case (Cons h hs ws wss)
    let ?lo = "unat (gl_offset h)" and ?hi = "unat (gl_offset h) + unat (gl_size h)"
    have w: "writes_within ?lo ?hi ws" using Cons.hyps(1) by (simp add: init_writes_def)
    have d: "put_all ws d ! i = d ! i" if "\<not> in_global h i"
      using put_all_outside [OF w, of d] that Cons.prems(2) by (auto simp: same_outside_def in_global_def)
    have later: "?hi \<le> i" if "g \<in> set hs" "in_global g i" for g
      using laid_out_bounds [of ?hi hs "length d" g] Cons.prems(1) that by (simp add: in_global_def)
    have agree: "agree_on i (Suc i) (put_all ws d) d" if "\<not> in_global h i"
      using d [OF that] by (auto simp: agree_on_def le_less_Suc_eq)
    note IH = Cons.IH [of ?hi "put_all ws d"]
    show ?case
    proof (intro conjI impI)
      assume "\<forall>g \<in> set (h # hs). \<not> in_global g i"
      then show "fold put_all (ws # wss) d ! i = d ! i" using IH Cons.prems d by simp
    next
      assume g: "g \<in> set (h # hs)" "in_global g i"
      show "\<exists>ws'. init_writes L M cg cap g ws' \<and> fold put_all (ws # wss) d ! i = put_all ws' d ! i"
      proof (cases "in_global h i")
        case True
        then have "\<forall>g \<in> set hs. \<not> in_global g i" using later by (auto simp: in_global_def)
        moreover from this have "g = h" using g by auto
        ultimately show ?thesis using IH Cons.prems Cons.hyps(1) by (intro exI [of _ ws]) simp
      next
        case False
        then have "g \<in> set hs" using g by auto
        then obtain ws' where ws': "init_writes L M cg cap g ws'" "fold put_all wss (put_all ws d) ! i = put_all ws' (put_all ws d) ! i"
          using IH Cons.prems g(2) by auto
        have "put_all ws' (put_all ws d) ! i = put_all ws' d ! i"
          using put_all_agree [OF agree [OF False], of ws'] Cons.prems(2) by (simp add: agree_on_def)
        then show ?thesis using ws' by (intro exI [of _ ws']) simp
      qed
    qed
  qed simp
  then show "\<forall>g \<in> set gs. \<not> in_global g i \<Longrightarrow> fold put_all wss d ! i = d ! i"
    "g \<in> set gs \<Longrightarrow> in_global g i \<Longrightarrow> \<exists>ws. init_writes L M cg cap g ws \<and> fold put_all wss d ! i = put_all ws d ! i" by blast+
qed

section \<open>The first pass: layout\<close>

definition placed :: "('v, 't, 'b) llvm \<Rightarrow> ('v, 't) llvm_module \<Rightarrow> 'v cg_global \<Rightarrow> bool" where
  "placed L M g \<longleftrightarrow> (\<exists>ty. gl_value g \<in> set (LLVMGlobals M) \<and> gv_type M (gl_value g) = Some ty \<and> gl_size g = ucast (LLVMABISizeOfType L ty)
     \<and> (gv_alignment M (gl_value g) \<noteq> 0 \<longrightarrow> unat (gv_alignment M (gl_value g)) dvd unat (gl_offset g))
     \<and> unat (type_alignment M ty) dvd unat (gl_offset g))"

definition layout_inv ::
  "('v, 't, 'b) llvm \<Rightarrow> ('v, 't) llvm_module \<Rightarrow> nat \<Rightarrow> 'v list \<Rightarrow> u32 \<times> ('b, 'v) gen \<Rightarrow> bool" where
  "layout_inv L M start pre acc \<longleftrightarrow> (case acc of (cursor, cg) \<Rightarrow>
     laid_out start (cg_globals cg) (unat cursor) \<and> unat cursor \<le> 2 ^ 31 \<and> cg_data_bytes cg = replicate (unat cursor) 0
     \<and> map gl_value (cg_globals cg) = filter (\<lambda>gv. gv_type M gv \<noteq> None) pre \<and> (\<forall>g \<in> set (cg_globals cg). placed L M g))"

lemma grow_zeros: "cg_data_bytes cg = replicate n 0 \<Longrightarrow> n \<le> unat m \<Longrightarrow> cg_data_bytes (grow_data m cg) = replicate (unat m) 0"
  by (simp add: grow_data_def replicate_add [symmetric])

lemma grow_globals [simp]: "cg_globals (grow_data m cg) = cg_globals cg" by (simp add: grow_data_def)

lemma append_tables [simp]:
  "cg_globals (cg_globals_append v off sz cg) = cg_globals cg @ [\<lparr>gl_value = v, gl_offset = off, gl_size = sz\<rparr>]"
  "cg_data_bytes (cg_globals_append v off sz cg) = cg_data_bytes cg"
  by (simp_all add: cg_globals_append_def)

lemma dvd_larger:
  assumes "a = 2 ^ j" "b = 2 ^ k" "j < 32" "k < 32" "(a :: u32) \<le> b"
  shows "unat a dvd unat b"
proof -
  have "(2 :: nat) ^ j \<le> 2 ^ k" using assms by (simp add: word_le_nat_alt unat_pow2)
  then have "j \<le> k" by simp
  then show ?thesis using assms(1-4) by (simp add: unat_pow2 le_imp_power_dvd)
qed

text \<open>The larger of two alignments.\<close>

lemma larger_alignment:
  assumes "ta = 2 ^ j" "j < 30" "ga = 0 \<or> (\<exists>k < 30. ga = 2 ^ k)"
  obtains k where "k < 30" "(if ga > ta then ga else ta) = (2 ^ k :: u32)" "unat ta dvd 2 ^ k" "ga \<noteq> 0 \<Longrightarrow> unat ga dvd 2 ^ k"
proof (cases "ga > ta")
  case True
  then have "ga \<noteq> 0" by auto
  then obtain k where k: "k < 30" "ga = 2 ^ k" using assms(3) by auto
  show ?thesis using that [of k] k True dvd_larger [OF assms(1) k(2)] assms(2) by (simp add: unat_pow2)
next
  case False
  then have "unat ga dvd unat ta" if "ga \<noteq> 0" using assms dvd_larger [of ga _ ta j] that by fastforce
  then show ?thesis using that [of j] assms False by (auto simp: unat_pow2)
qed

lemma layout_one:
  assumes "layout_global L M gv acc = Some acc1" "layout_inv L M start pre acc" "globals_ok L M" "gv \<in> set (LLVMGlobals M)"
  shows "layout_inv L M start (pre @ [gv]) acc1"
proof (cases "gv_type M gv")
  case None
  then show ?thesis using assms(1,2) by (simp add: layout_global_def layout_inv_def split: prod.splits)
next
  case (Some ty)
  obtain cursor cg where acc: "acc = (cursor, cg)" by (cases acc)
  let ?sz = "ucast (LLVMABISizeOfType L ty) :: u32"
  let ?al = "if gv_alignment M gv > type_alignment M ty then gv_alignment M gv else type_alignment M ty"
  obtain j where j: "type_alignment M ty = 2 ^ j" "j < 30" "gv_alignment M gv = 0 \<or> (\<exists>k < 30. gv_alignment M gv = 2 ^ k)"
    and size: "LLVMABISizeOfType L ty < 2 ^ 30" using assms(3,4) Some unfolding globals_ok_def by blast
  obtain k where k: "k < 30" "?al = 2 ^ k" "unat (type_alignment M ty) dvd 2 ^ k" "gv_alignment M gv \<noteq> 0 \<Longrightarrow> unat (gv_alignment M gv) dvd 2 ^ k"
    by (rule larger_alignment [OF j]) blast
  define off where "off = align_up cursor (2 ^ k)"
  have nz: "?al \<noteq> 0"
  proof
    assume "?al = 0"
    then have "unat (2 ^ k :: u32) = 0" unfolding k(2) by (simp only: unat_0)
    then show False using k(1) by (simp add: unat_pow2)
  qed
  have inv: "laid_out start (cg_globals cg) (unat cursor)" "unat cursor \<le> 2 ^ 31" "cg_data_bytes cg = replicate (unat cursor) 0"
    using assms(2) by (simp_all add: layout_inv_def acc)
  note al = align_up_bounds [OF k(1) inv(2), folded off_def]
  have "(2 :: nat) ^ k < 2 ^ 30" using k(1) by (intro power_strict_increasing) auto
  moreover have sz: "unat ?sz < 2 ^ 30"
  proof -
    have "unat ?sz \<le> unat (LLVMABISizeOfType L ty)" by (simp add: unsigned_ucast_eq take_bit_nat_less_eq_self)
    also have "\<dots> < 2 ^ 30" using size by (simp add: word_less_nat_alt)
    finally show ?thesis .
  qed
  ultimately have sum: "unat (off + ?sz) = unat off + unat ?sz" using al(2) inv(2) by (intro unat_add_lt) simp
  have "acc1 = (off + ?sz, grow_data (off + ?sz) (cg_globals_append gv off ?sz cg))" "\<not> off + ?sz > 0x80000000"
    using assms(1) nz by (auto simp: layout_global_def acc Some Let_def off_def k(2) Option.bind_eq_Some_conv split: if_splits)
  moreover from this(2) have "unat (off + ?sz) \<le> 2 ^ 31" by (simp add: word_less_nat_alt not_less)
  moreover have "laid_out start (cg_globals cg @ [\<lparr>gl_value = gv, gl_offset = off, gl_size = ?sz\<rparr>]) (unat (off + ?sz))"
    by (rule laid_out_snoc [OF inv(1)]) (use al(1) sum in simp_all)
  moreover have "unat cursor \<le> unat (off + ?sz)" using al(1) sum by simp
  moreover have "placed L M \<lparr>gl_value = gv, gl_offset = off, gl_size = ?sz\<rparr>"
    using assms(4) Some k(3,4) al(3) by (auto simp: placed_def intro: dvd_trans)
  ultimately show ?thesis using assms(2) inv(3) Some
    by (simp add: layout_inv_def acc grow_zeros [of "cg_globals_append gv off ?sz cg" "unat cursor"] del: unat_add_lt)
qed

lemma layout_pass:
  assumes "fold_opt (layout_global L M) gvs acc = Some acc1" "layout_inv L M start pre acc" "globals_ok L M" "set gvs \<subseteq> set (LLVMGlobals M)"
  shows "layout_inv L M start (pre @ gvs) acc1"
  using assms
proof (induction gvs arbitrary: pre acc)
  case (Cons gv gvs)
  obtain acc2 where a: "layout_global L M gv acc = Some acc2" "fold_opt (layout_global L M) gvs acc2 = Some acc1"
    using Cons.prems(1) by (auto simp: Option.bind_eq_Some_conv)
  have "layout_inv L M start (pre @ [gv]) acc2" by (rule layout_one [OF a(1) Cons.prems(2,3)]) (use Cons.prems(4) in simp)
  from Cons.IH [OF a(2) this Cons.prems(3)] show ?case using Cons.prems(4) by simp
qed simp

text \<open>A module with a declared global is rejected.\<close>

lemma layout_defined:
  assumes "fold_opt (layout_global L M) gvs acc = Some acc1"
  shows "\<forall>gv \<in> set gvs. gv_type M gv = None \<or> \<not> LLVMIsDeclaration M gv"
  using assms by (induction gvs arbitrary: acc)
    (auto simp: Option.bind_eq_Some_conv layout_global_def split: prod.splits option.splits if_splits)

section \<open>The DATA section\<close>

definition global_bytes :: "('b, 'v) gen \<Rightarrow> 'v cg_global \<Rightarrow> u8 list" where
  "global_bytes cg g = take (unat (gl_size g)) (drop (unat (gl_offset g)) (cg_data_bytes cg))"

text \<open>The bytes that the initialiser of \<open>g\<close> writes, on its own, into zeros.\<close>

definition init_image :: "('v, 't, 'b) llvm \<Rightarrow> ('v, 't) llvm_module \<Rightarrow> ('b, 'v) gen \<Rightarrow> 'v cg_global \<Rightarrow> u8 list option" where
  "init_image L M cg g =
     (let cap = data_cap 64 (length (cg_data_bytes cg)); slice = (\<lambda>d. take (unat (gl_size g)) (drop (unat (gl_offset g)) d)) in
      case LLVMGetInitializer M (gl_value g) of None \<Rightarrow> Some (replicate (unat (gl_size g)) 0)
      | Some c \<Rightarrow> map_option slice (serialize_constants L M cg (of_nat cap) [(c, gl_offset g)] (replicate cap 0)))"

lemma writes_unique: "init_writes L M cg cap g ws \<Longrightarrow> init_writes L M cg cap g ws' \<Longrightarrow> put_all ws d = put_all ws' d"
  unfolding init_writes_def by (cases "LLVMGetInitializer M (gl_value g)") (auto simp: same_tables_def)

lemma image_of_writes:
  assumes "init_writes L M cg (data_cap 64 n) g ws" "length (cg_data_bytes cg') = n" "same_tables cg cg'"
    and "unat (gl_offset g) + unat (gl_size g) \<le> n"
  shows "init_image L M cg' g = Some (take (unat (gl_size g)) (drop (unat (gl_offset g)) (put_all ws (replicate n 0))))"
proof -
  let ?cap = "data_cap 64 n"
  have w: "writes_within (unat (gl_offset g)) (unat (gl_offset g) + unat (gl_size g)) ws" using assms(1) by (simp add: init_writes_def)
  have "replicate ?cap (0 :: u8) = replicate n 0 @ replicate (?cap - n) 0"
    using data_cap_ge [of 64 n] by (simp add: replicate_add [symmetric])
  then have "put_all ws (replicate ?cap 0) = put_all ws (replicate n 0) @ replicate (?cap - n) 0"
    using put_all_append [OF w, of "replicate n 0"] assms(4) by simp
  then show ?thesis using assms by (auto simp: init_image_def init_writes_def Let_def split: option.splits)
qed

lemma placed_fits:
  assumes "placed L M g" "globals_ok L M" "unat (gl_offset g) + unat (gl_size g) \<le> n"
  shows "init_fits L M n g"
  using assms unfolding placed_def globals_ok_def init_fits_def const_size_def by metis

lemma layout_start:
  assumes "cg_collect_globals L M cg = Some cg'" "globals_ok L M" "cg_globals cg = []" "cg_data_bytes cg = []"
  obtains start cursor cg1 where "layout_inv L M start (LLVMGlobals M) (cursor, cg1)" "fold_opt (init_global L M) (cg_globals cg1) cg1 = Some cg'"
    "cg_globals cg1 = [] \<or> start = 8"
proof -
  let ?saw = "list_ex (\<lambda>gv. gv_type M gv \<noteq> None \<and> \<not> LLVMIsDeclaration M gv) (LLVMGlobals M)"
  let ?start = "if ?saw then (8, grow_data 8 cg) else (0 :: u32, cg)"
  obtain cursor cg1 where c: "fold_opt (layout_global L M) (LLVMGlobals M) ?start = Some (cursor, cg1)"
    "fold_opt (init_global L M) (cg_globals cg1) cg1 = Some cg'"
    using assms(1) by (auto simp: cg_collect_globals_def Let_def Option.bind_eq_Some_conv)
  have "layout_inv L M (if ?saw then 8 else 0) [] ?start"
    using assms(3,4) by (simp add: layout_inv_def grow_data_def)
  from layout_pass [OF c(1) this assms(2)] have inv: "layout_inv L M (if ?saw then 8 else 0) (LLVMGlobals M) (cursor, cg1)" by simp
  moreover have "?saw" if "cg_globals cg1 \<noteq> []"
  proof (rule ccontr)
    assume "\<not> ?saw"
    then have "filter (\<lambda>gv. gv_type M gv \<noteq> None) (LLVMGlobals M) = []"
      using layout_defined [OF c(1)] by (auto simp: list_ex_iff filter_empty_conv)
    then show False using inv that by (simp add: layout_inv_def)
  qed
  ultimately show ?thesis using that [OF _ c(2)] by fastforce
qed

text \<open>C39. The DATA section of a module: every global with a type has its place behind the first 8 bytes, in the order of
  the module, aligned and without overlap; its bytes are those its own initialiser writes, and all others are 0.\<close>

theorem globals_hold_initialisers:
  assumes "parts_within L M" "globals_ok L M" "cg_collect_globals L M cg = Some cg'" "cg_globals cg = []" "cg_data_bytes cg = []"
  shows "map gl_value (cg_globals cg') = filter (\<lambda>gv. gv_type M gv \<noteq> None) (LLVMGlobals M)
    \<and> sorted_wrt (\<lambda>g h. unat (gl_offset g) + unat (gl_size g) \<le> unat (gl_offset h)) (cg_globals cg')
    \<and> (\<forall>g \<in> set (cg_globals cg'). placed L M g \<and> 8 \<le> unat (gl_offset g)
        \<and> unat (gl_offset g) + unat (gl_size g) \<le> length (cg_data_bytes cg') \<and> init_image L M cg' g = Some (global_bytes cg' g))
    \<and> (\<forall>i < length (cg_data_bytes cg'). (\<forall>g \<in> set (cg_globals cg'). \<not> in_global g i) \<longrightarrow> cg_data_bytes cg' ! i = 0)"
proof -
  obtain start cursor cg1 where c: "layout_inv L M start (LLVMGlobals M) (cursor, cg1)"
    "fold_opt (init_global L M) (cg_globals cg1) cg1 = Some cg'" "cg_globals cg1 = [] \<or> start = 8"
    by (rule layout_start [OF assms(3,2,4,5)])
  let ?gs = "cg_globals cg1" and ?n = "unat cursor"
  let ?z = "replicate ?n 0 :: u8 list"
  have lay: "laid_out start ?gs ?n" and inv: "?n \<le> 2 ^ 31" "cg_data_bytes cg1 = ?z" "\<forall>g \<in> set ?gs. placed L M g"
    using c(1) by (simp_all add: layout_inv_def)
  note b = laid_out_bounds [OF lay]
  have "\<forall>g \<in> set ?gs. init_fits L M ?n g" using inv(3) b placed_fits assms(2) by blast
  then obtain wss where wss: "list_all2 (init_writes L M cg1 (data_cap 64 ?n)) ?gs wss" "cg' = cg1\<lparr>cg_data_bytes := fold put_all wss ?z\<rparr>"
    using init_pass [OF c(2) assms(1)] inv by auto
  have len: "length (fold put_all wss ?z) = ?n" by (induction wss rule: rev_induct) simp_all
  note puts = fold_puts [OF wss(1), of start ?z]
  have "init_image L M cg' g = Some (global_bytes cg' g)" if g: "g \<in> set ?gs" for g
  proof -
    obtain ws where ws: "init_writes L M cg1 (data_cap 64 ?n) g ws"
      using wss(1) g by (auto simp: list_all2_conv_all_nth in_set_conv_nth)
    have "fold put_all wss ?z ! i = put_all ws ?z ! i" if "in_global g i" for i
      using puts(2) [of i g] lay g that b [OF g] writes_unique [OF ws] by (auto simp: in_global_def)
    then have "global_bytes cg' g = take (unat (gl_size g)) (drop (unat (gl_offset g)) (put_all ws ?z))"
      using b [OF g] by (intro nth_equalityI) (auto simp: global_bytes_def wss(2) len in_global_def)
    then show ?thesis using image_of_writes [OF ws, of cg'] b [OF g] by (simp add: wss(2) len same_tables_def)
  qed
  moreover have "fold put_all wss ?z ! i = 0" if "i < ?n" "\<forall>g \<in> set ?gs. \<not> in_global g i" for i
    using puts(1) [of i] lay that by simp
  moreover have "8 \<le> unat (gl_offset g)" if "g \<in> set ?gs" for g using b [OF that] c(3) that by auto
  ultimately show ?thesis using c(1) b inv(3) laid_out_sorted [OF lay] by (simp add: wss(2) len layout_inv_def)
qed

text \<open>A module with two globals: a structure of a byte and a pointer to the second global, a word.\<close>

definition two_llvm :: "(nat, nat, nat) llvm" where
  "two_llvm = (small_llvm [] (\<lambda>b. []))\<lparr>LLVMTypeOf := \<lambda>v. if v = 10 then 64 else if v = 11 then 8 else if v = 20 then 32 else 33,
     LLVMGetTypeKind := \<lambda>t. if t = 64 then LLVMStructTypeKind else if t = 33 then LLVMPointerTypeKind else LLVMIntegerTypeKind,
     LLVMCountStructElementTypes := \<lambda>t. 2, LLVMStructGetTypeAtIndex := \<lambda>t k. if k = 0 then 8 else 33,
     LLVMOffsetOfElement := \<lambda>t k. if k = 0 then 0 else 4, LLVMGetAggregateElement := \<lambda>c k. Some (if k = 0 then 11 else 2),
     LLVMIsAConstantInt := \<lambda>v. v = 11 \<or> v = 20, LLVMConstIntGetZExtValue := \<lambda>v. if v = 11 then 7 else 0x1234,
     LLVMIsAGlobalVariable := \<lambda>v. v = 1 \<or> v = 2\<rparr>"

definition two_module :: "(nat, nat) llvm_module" where
  "two_module = \<lparr>LLVMGlobals = [1, 2], LLVMIsDeclaration = \<lambda>v. False, gv_type = \<lambda>v. Some (if v = 1 then 64 else 32),
     gv_alignment = \<lambda>v. 0, type_alignment = \<lambda>t. 4, LLVMGetInitializer = \<lambda>v. Some (if v = 1 then 10 else 20), LLVMGetArrayLength = \<lambda>t. 0\<rparr>"

lemma two_simps [simp]:
  "LLVMTypeOf two_llvm v = (if v = 10 then 64 else if v = 11 then 8 else if v = 20 then 32 else 33)"
  "LLVMGetTypeKind two_llvm t = (if t = 64 then LLVMStructTypeKind else if t = 33 then LLVMPointerTypeKind else LLVMIntegerTypeKind)"
  "LLVMCountStructElementTypes two_llvm t = 2" "LLVMStructGetTypeAtIndex two_llvm t k = (if k = 0 then 8 else 33)"
  "LLVMOffsetOfElement two_llvm t k = (if k = 0 then 0 else 4)" "LLVMGetAggregateElement two_llvm v k = Some (if k = 0 then 11 else 2)"
  "LLVMIsAConstantInt two_llvm v = (v = 11 \<or> v = 20)" "LLVMConstIntGetZExtValue two_llvm v = (if v = 11 then 7 else 0x1234)"
  "LLVMIsAGlobalVariable two_llvm v = (v = 1 \<or> v = 2)" "LLVMIsAConstantExpr two_llvm v = False" "LLVMIsAGlobalAlias two_llvm v = False"
  "LLVMIsAConstantAggregateZero two_llvm v = False" "LLVMIsAConstantPointerNull two_llvm v = False" "LLVMIsUndef two_llvm v = False"
  "LLVMIsAConstantFP two_llvm v = False" "LLVMIsAFunction two_llvm v = False" "LLVMABISizeOfType two_llvm t = of_nat (t div 8)"
  "LLVMGetIntTypeWidth two_llvm t = t"
  by (simp_all add: two_llvm_def small_llvm_def Let_def)

lemma two_module_simps [simp]:
  "LLVMGlobals two_module = [1, 2]" "\<not> LLVMIsDeclaration two_module v" "gv_type two_module v = Some (if v = 1 then 64 else 32)"
  "gv_alignment two_module v = 0" "type_alignment two_module t = 4" "LLVMGetInitializer two_module v = Some (if v = 1 then 10 else 20)"
  by (simp_all add: two_module_def)

lemma two_parts: "parts_within two_llvm two_module"
  by (auto simp: parts_within_def const_size_def split: if_splits)

lemma two_globals_ok: "globals_ok two_llvm two_module"
proof -
  have "\<exists>k < 30. (4 :: u32) = 2 ^ k" by (rule exI [of _ 2]) simp
  then show ?thesis by (auto simp: globals_ok_def)
qed

text \<open>Its DATA section.\<close>

definition two_data :: "u8 list" where
  "two_data = [0, 0, 0, 0, 0, 0, 0, 0, 7, 0, 0, 0, 16, 0, 0, 0, 0x34, 0x12, 0, 0]"

definition two_gen :: "(nat, nat) gen" where
  "two_gen = (cg_initial :: (nat, nat) gen)\<lparr>cg_globals := [\<lparr>gl_value = 1, gl_offset = 8, gl_size = 8\<rparr>, \<lparr>gl_value = 2, gl_offset = 16, gl_size = 4\<rparr>],
     cg_data_bytes := replicate 20 0\<rparr>"

lemma two_types: "type_in_subset two_llvm 64 = Some True" "type_in_subset two_llvm 32 = Some True"
proof -
  have nil: "types_in_subset two_llvm [] = Some True" by (subst types_in_subset.simps) simp
  have leaf: "types_in_subset two_llvm (t # ts) = types_in_subset two_llvm ts" if "t \<in> {8, 32, 33}" for t ts
    by (subst types_in_subset.simps) (use that in \<open>auto simp: leaf_in_subset_def Let_def\<close>)
  have "types_in_subset two_llvm [64] = types_in_subset two_llvm [8, 33]"
    by (subst types_in_subset.simps) (simp add: upt_rec)
  then show "type_in_subset two_llvm 64 = Some True" by (simp add: type_in_subset_def leaf nil)
  show "type_in_subset two_llvm 32 = Some True" by (simp add: type_in_subset_def leaf nil)
qed

lemma two_layout: "fold_opt (layout_global two_llvm two_module) [1, 2] (8, grow_data 8 cg_initial) = Some (20, two_gen)"
  by (simp add: layout_global_def two_types align_up_def Let_def cg_globals_append_def grow_data_def cg_initial_def two_gen_def
    replicate_add [symmetric])

lemma two_constants:
  assumes "cg_globals cg = cg_globals two_gen" "cap = 64"
  shows "serialize_constants two_llvm two_module cg cap [(10, 8)] out = Some (put_le 4 12 16 (put_le 1 8 7 out))"
    and "serialize_constants two_llvm two_module cg cap [(20, 16)] out = Some (put_le 4 16 0x1234 out)"
proof -
  note s = serialize_constants.simps [of two_llvm two_module cg]
  have nil: "serialize_constants two_llvm two_module cg cap [] out = Some out" for out by (subst s) simp
  have addr: "global_address two_llvm cg 2 = Some 16"
    using assms(1) by (subst global_address.simps) (simp add: entry_address_def cg_globals_lookup_def two_gen_def)
  have byte: "serialize_constants two_llvm two_module cg cap ((11, 8) # ws) out = serialize_constants two_llvm two_module cg cap ws (put_le 1 8 7 out)" for ws out
    using assms(2) by (subst s) (simp add: is_leaf_def serialize_leaf_def Let_def)
  have ptr: "serialize_constants two_llvm two_module cg cap ((2, 12) # ws) out = serialize_constants two_llvm two_module cg cap ws (put_le 4 12 16 out)" for ws out
    using assms(2) by (subst s) (simp add: is_leaf_def serialize_leaf_def serialize_global_ptr_def addr Let_def)
  have "serialize_constants two_llvm two_module cg cap [(10, 8)] out = serialize_constants two_llvm two_module cg cap [(11, 8), (2, 12)] out"
    using assms(2) by (subst s) (simp add: is_leaf_def const_parts_def Let_def upt_rec)
  then show "serialize_constants two_llvm two_module cg cap [(10, 8)] out = Some (put_le 4 12 16 (put_le 1 8 7 out))"
    by (simp only: byte ptr nil)
  show "serialize_constants two_llvm two_module cg cap [(20, 16)] out = Some (put_le 4 16 0x1234 out)"
    using assms(2) by (subst s) (simp add: is_leaf_def serialize_leaf_def Let_def nil [unfolded assms(2)])
qed

lemma two_collect: "cg_collect_globals two_llvm two_module cg_initial = Some (two_gen\<lparr>cg_data_bytes := two_data\<rparr>)"
proof -
  have cap: "data_cap 64 20 = 64" by (subst data_cap.simps) simp
  have lists: "replicate (numeral k) x = x # replicate (pred_numeral k) x" "(x # xs)[numeral k := y] = x # xs[pred_numeral k := y]"
    for k x y and xs :: "u8 list" by (simp_all add: numeral_eq_Suc)
  have puts: "put_le n off v bs = fold (\<lambda>b out. out[off + b := ucast (drop_bit (b * 8) v)]) [0..<n] bs" for n off v bs
    by (simp add: put_le_def)
  have "fold_opt (init_global two_llvm two_module) (cg_globals two_gen) two_gen = Some (two_gen\<lparr>cg_data_bytes := two_data\<rparr>)"
    by (simp add: init_global_def two_constants cap two_gen_def Let_def)
      (simp add: puts two_data_def upt_rec lists)
  then show ?thesis by (simp add: cg_collect_globals_def two_layout Let_def del: fold_opt.simps One_nat_def)
qed

lemma two_initial: "cg_globals cg_initial = []" "cg_data_bytes cg_initial = []" by (simp_all add: cg_initial_def)

theorem globals_hold_initialisers_witness:
  "let cg' = two_gen\<lparr>cg_data_bytes := two_data\<rparr>; g = \<lparr>gl_value = 1, gl_offset = 8, gl_size = 8\<rparr> in
     init_image two_llvm two_module cg' g = Some (global_bytes cg' g) \<and> global_bytes cg' g = [7, 0, 0, 0, 16, 0, 0, 0]"
proof -
  have "global_bytes (two_gen\<lparr>cg_data_bytes := two_data\<rparr>) \<lparr>gl_value = 1, gl_offset = 8, gl_size = 8\<rparr> = [7, 0, 0, 0, 16, 0, 0, 0]"
    by (simp add: global_bytes_def two_data_def)
  then show ?thesis
    using globals_hold_initialisers [OF two_parts two_globals_ok two_collect two_initial] by (simp add: two_gen_def)
qed

end
