(* ===== verification/Counting.thy ===== *)
theory Counting
  imports Intrinsics Wide_Correct Branches_Correct
begin

text \<open>
  The loops that count bits in the emitted code: on the machine they end after a bounded number of instructions, with
  the number of set, leading or trailing bits.
\<close>

section \<open>Numbers of bits\<close>

definition set_bits_of :: "u32 \<Rightarrow> nat" where "set_bits_of x = card {i. i < 32 \<and> bit x i}"

definition leading_zeros :: "u32 \<Rightarrow> nat" where "leading_zeros x = card {i. i < 32 \<and> unat x < 2 ^ i}"

definition trailing_zeros :: "nat \<Rightarrow> u32 \<Rightarrow> nat" where "trailing_zeros w x = card {i. i < w \<and> 2 ^ Suc i dvd unat x}"

lemma card_shift: "card {i. i < Suc n \<and> P i} = (if P 0 then 1 else 0) + card {i. i < n \<and> P (Suc i)}"
proof -
  have "{i. i < Suc n \<and> P i} = (if P 0 then {0} else {}) \<union> Suc ` {i. i < n \<and> P (Suc i)}"
    by (auto simp: less_Suc_eq_0_disj)
  then show ?thesis by (simp add: card_Un_disjoint card_image)
qed

definition ones :: "nat \<Rightarrow> nat \<Rightarrow> nat" where "ones n x = card {i. i < n \<and> bit x i}"

lemma ones_Suc: "ones (Suc n) x = x mod 2 + ones n (x div 2)"
  unfolding ones_def card_shift by (simp add: bit_0 bit_Suc odd_iff_mod_2_eq_one)

lemma ones_0 [simp]: "ones n 0 = 0" by (simp add: ones_def)

text \<open>Clearing the lowest set bit.\<close>

lemma ones_clear: "0 < x \<Longrightarrow> x < 2 ^ n \<Longrightarrow> ones n x = Suc (ones n (x AND (x - 1)))"
proof (induction n arbitrary: x)
  case (Suc n)
  show ?case
  proof (cases "odd x")
    case True
    then obtain y where y: "x = 2 * y + 1" by (elim oddE)
    have "x AND (x - 1) = 2 * y" unfolding y by (subst and_nat_rec) simp
    then show ?thesis by (simp add: ones_Suc y)
  next
    case False
    then obtain y where y: "x = 2 * y" by (auto elim: evenE)
    have "x AND (x - 1) = 2 * (y AND (y - 1))" 
    proof -
      obtain z where z: "y = Suc z" using Suc.prems(1) y by (cases y) simp_all
      show ?thesis unfolding y z by (subst and_nat_rec) simp
    qed
    then show ?thesis using Suc.IH [of y] Suc.prems by (simp add: ones_Suc y)
  qed
qed simp

lemma set_bits_ones: "set_bits_of x = ones 32 (unat x)"
  by (simp add: set_bits_of_def ones_def bit_unsigned_iff)

fun sig_bits :: "nat \<Rightarrow> nat" where "sig_bits x = (if x = 0 then 0 else Suc (sig_bits (x div 2)))"

declare sig_bits.simps [simp del]

lemma unat_half: "unat (drop_bit 1 (x :: u32)) = unat x div 2"
proof -
  have "take_bit 32 (unat x) = unat x" by (rule take_bit_nat_eq_self) (use unat_lt32 [of x] in simp)
  then have "unat (drop_bit 1 x) = drop_bit 1 (unat x)" by (subst unsigned_drop_bit_eq) simp
  then show ?thesis by (simp add: drop_bit_Suc)
qed

lemma sig_bits_0 [simp]: "sig_bits 0 = 0" by (subst sig_bits.simps) simp

lemma sig_bits_le: "sig_bits x \<le> n \<longleftrightarrow> x < 2 ^ n"
proof (induction n arbitrary: x)
  case 0
  then show ?case by (subst sig_bits.simps) simp
next
  case (Suc n)
  have "sig_bits x \<le> Suc n \<longleftrightarrow> x = 0 \<or> sig_bits (x div 2) \<le> n" by (subst sig_bits.simps) simp
  also have "\<dots> \<longleftrightarrow> x < 2 ^ Suc n" unfolding Suc.IH by (auto simp: div_less_iff_less_mult mult.commute)
  finally show ?case .
qed

lemma leading_length: "leading_zeros x = 32 - sig_bits (unat x)"
proof -
  have "{i. i < 32 \<and> unat x < 2 ^ i} = {sig_bits (unat x)..<32}" by (auto simp: sig_bits_le [symmetric])
  then show ?thesis by (simp add: leading_zeros_def)
qed

lemma trailing_even:
  fixes x :: nat
  assumes "even x"
  shows "card {i. i < Suc n \<and> 2 ^ Suc i dvd x} = Suc (card {i. i < n \<and> 2 ^ Suc i dvd x div 2})"
proof -
  obtain y where y: "x = 2 * y" using assms by (elim evenE)
  have "2 ^ Suc (Suc i) dvd x \<longleftrightarrow> 2 ^ Suc i dvd y" for i unfolding y power_Suc [of 2 "Suc i"] by (rule nat_mult_dvd_cancel1) simp
  then show ?thesis unfolding card_shift by (simp only: y) simp
qed

lemma trailing_odd: "odd (x :: nat) \<Longrightarrow> {i. i < n \<and> 2 ^ Suc i dvd x} = {}"
  by (auto dest: dvd_mult_left)

section \<open>The loops on the machine\<close>

definition changes_only :: "u8 set \<Rightarrow> 'h vm \<Rightarrow> 'h vm \<Rightarrow> bool" where
  "changes_only rs s s' \<longleftrightarrow> s' = s\<lparr>vm_R := vm_R s', vm_pc := vm_pc s'\<rparr> \<and> (\<forall>r. r \<notin> rs \<longrightarrow> R s' r = R s r)"

lemma changes_only_refl [simp]: "changes_only rs s s" by (simp add: changes_only_def)

lemma changes_only_trans: "changes_only rs s t \<Longrightarrow> changes_only rs t u \<Longrightarrow> changes_only rs s u"
  unfolding changes_only_def by (cases s; cases t; cases u) auto

lemma changes_onlyD:
  assumes "changes_only rs s s'"
  shows "r \<notin> rs \<Longrightarrow> R s' r = R s r" "heap_of s' = heap_of s" "vm_host s' = vm_host s"
proof -
  have e: "s' = s\<lparr>vm_R := vm_R s', vm_pc := vm_pc s'\<rparr>" and r: "\<And>r. r \<notin> rs \<Longrightarrow> R s' r = R s r"
    using assms by (auto simp: changes_only_def)
  show "r \<notin> rs \<Longrightarrow> R s' r = R s r" by (rule r)
  show "heap_of s' = heap_of s" "vm_host s' = vm_host s" by (subst e, simp add: heap_of_def)+
qed

lemma changes_only_mono: "changes_only rs s t \<Longrightarrow> rs \<subseteq> rs' \<Longrightarrow> changes_only rs' s t"
  unfolding changes_only_def by blast

lemma changes_only_set: "a \<in> rs \<Longrightarrow> changes_only rs s t \<Longrightarrow> changes_only rs s (set_R t a v)"
  "changes_only rs s t \<Longrightarrow> changes_only rs s (set_pc t q)"
  unfolding changes_only_def set_R_def set_pc_def by (cases s; cases t; auto)+

lemma vm_set [simp]: "vm_pc (set_R s a v) = vm_pc s" "vm_pc (set_pc s q) = q" "R (set_pc s q) = R s" "set_pc (set_pc s p) q = set_pc s q"
  "R (set_R s a v) b = (if b = a then v else R s b)"
  by (simp_all add: set_R_def set_pc_def)

text \<open>The word behind \<open>pre\<close> is run.\<close>

lemma step_beq:
  assumes "runs_code cx (pre @ beq a b d # post)" "length (pre @ beq a b d # post) \<le> 2 ^ 23" "vm_pc s = of_nat (length pre)"
    and "d = of_nat k" "k \<le> 127" "k \<le> length post"
  shows "dispatches cx 1 s (set_pc s (of_nat (length pre + 1 + (if R s a = R s b then k else 0))))"
proof -
  have "DISPATCH cx s = Running (set_pc s (of_nat (if taken (enc_br (op_value CVM_OP_BEQ) a b 0) s then length pre + 1 + k else length pre + 1)))"
    by (rule step_branch [OF assms(1-3), of _ a b "int k"]) (use assms(4-6) in simp_all)
  then show ?thesis by (simp add: taken_def)
qed

lemma step_bne:
  assumes "runs_code cx (pre @ bne a b d # post)" "length (pre @ bne a b d # post) \<le> 2 ^ 23" "vm_pc s = of_nat (length pre)"
    and "d = of_nat k" "k \<le> 127" "k \<le> length post"
  shows "dispatches cx 1 s (set_pc s (of_nat (length pre + 1 + (if R s a = R s b then 0 else k))))"
proof -
  have "DISPATCH cx s = Running (set_pc s (of_nat (if taken (enc_br (op_value CVM_OP_BNE) a b 0) s then length pre + 1 + k else length pre + 1)))"
    by (rule step_branch [OF assms(1-3), of _ a b "int k"]) (use assms(4-6) in simp_all)
  then show ?thesis by (simp add: taken_def op_value_def)
qed

lemma step_back:
  assumes "runs_code cx (pre @ jmp d # post)" "length (pre @ jmp d # post) \<le> 2 ^ 23" "vm_pc s = of_nat (length pre)"
    and "d = - of_nat (Suc k)" "k \<le> length pre"
  shows "dispatches cx 1 s (set_pc s (of_nat (length pre - k)))"
proof -
  have "int (length pre - k) - int (length pre + 1) = - int (Suc k)" using assms(5) by (simp add: of_nat_diff)
  then have "jmp d = jump_word (length pre) (length pre - k)" using assms(4) by (simp only: jump_word_def of_int_minus of_int_of_nat_eq)
  then have "DISPATCH cx s = Running (set_pc s (of_nat (length pre - k)))"
    by (intro step_jump [OF assms(1-3)]) simp_all
  then show ?thesis by simp
qed

lemma step_straight:
  assumes "runs_code cx (pre @ ws @ post)" "vm_pc s = of_nat (length pre)" "straight ws" "run cx ws s = Running s'"
  shows "dispatches cx (length ws) s (set_pc s' (of_nat (length pre + length ws)))"
  by (rule run_dispatches [OF assms(1,2) _ assms(3,4)]) simp

declare dispatches.simps [simp del]

text \<open>The registers a loop works with, apart from each other and from the zero register.\<close>

definition regs_apart :: "u8 \<Rightarrow> u8 list \<Rightarrow> bool" where "regs_apart zero rs \<longleftrightarrow> distinct (zero # rs)"

text \<open>One round of a loop that is left when two registers are equal.\<close>

lemma loop_round:
  assumes rc: "runs_code cx (pre @ beq x zero d # ws @ jmp e # post)" and len: "length (pre @ beq x zero d # ws @ jmp e # post) \<le> 2 ^ 23"
    and "vm_pc s = of_nat (length pre)" "R s x \<noteq> R s zero" "straight ws" "run cx ws (set_pc s (of_nat (length pre + 1))) = Running s2"
    and "d = of_nat (length ws + 1)" "length ws \<le> 100" "e = - of_nat (Suc (length ws + 1))"
  shows "dispatches cx (length ws + 2) s (set_pc s2 (of_nat (length pre)))"
proof -
  let ?s1 = "set_pc s (of_nat (length pre + 1))" and ?s2 = "set_pc s2 (of_nat (length pre + 1 + length ws))"
  have "dispatches cx 1 s (set_pc s (of_nat (length pre + 1 + (if R s x = R s zero then length ws + 1 else 0))))"
    by (rule step_beq [OF rc len assms(3,7)]) (use assms(8) in simp_all)
  then have d1: "dispatches cx 1 s ?s1" using assms(4) by simp
  have "dispatches cx (length ws) ?s1 (set_pc s2 (of_nat (length (pre @ [beq x zero d]) + length ws)))"
    by (rule step_straight [OF _ _ assms(5,6), of _ "jmp e # post"]) (use rc in simp_all)
  then have d2: "dispatches cx (length ws) ?s1 ?s2" by simp
  have "dispatches cx 1 ?s2 (set_pc ?s2 (of_nat (length (pre @ beq x zero d # ws) - (length ws + 1))))"
    by (rule step_back [OF _ _ _ assms(9), of _ _ post]) (use rc len in simp_all)
  then have "dispatches cx 1 ?s2 (set_pc s2 (of_nat (length pre)))" by simp
  from dispatches_trans [OF d1 dispatches_trans [OF d2 this]] show ?thesis by simp
qed

lemma pop_loop:
  fixes x n one t zero :: u8
  defines "body \<equiv> [rop CVM_OP_SUB t x one, rop CVM_OP_AND x x t, rop CVM_OP_ADD n n one]"
  assumes rc: "runs_code cx (pre @ beq x zero 4 # body @ jmp (- 5) # post)" and len: "length (pre @ beq x zero 4 # body @ jmp (- 5) # post) \<le> 2 ^ 23"
    and regs: "regs_apart zero [x, n, one, t]"
    and s: "vm_pc s = of_nat (length pre)" "R s zero = 0" "R s one = 1"
  shows "\<exists>k s'. k \<le> 5 * set_bits_of (R s x) + 1 \<and> dispatches cx k s s' \<and> vm_pc s' = of_nat (length pre + 5)
    \<and> R s' n = R s n + of_nat (set_bits_of (R s x)) \<and> changes_only {x, n, t} s s'"
  using s
proof (induction "set_bits_of (R s x)" arbitrary: s rule: less_induct)
  case less
  have ne: "x \<noteq> n" "n \<noteq> x" "x \<noteq> one" "one \<noteq> x" "x \<noteq> t" "t \<noteq> x" "n \<noteq> one" "one \<noteq> n" "n \<noteq> t" "t \<noteq> n" "one \<noteq> t" "t \<noteq> one"
    "zero \<noteq> x" "zero \<noteq> n" "zero \<noteq> t" using regs by (auto simp: regs_apart_def)
  show ?case
  proof (cases "R s x = 0")
    case True
    have "dispatches cx 1 s (set_pc s (of_nat (length pre + 1 + (if R s x = R s zero then 4 else 0))))"
      by (rule step_beq [OF rc len]) (use less.prems in \<open>simp_all add: body_def\<close>)
    then show ?thesis using True less.prems
      by (intro exI [of _ 1] exI [of _ "set_pc s (of_nat (length pre + 5))"]) (simp add: set_bits_of_def changes_only_set add.commute)
  next
    case False
    let ?x = "R s x AND (R s x - 1)"
    let ?s2 = "set_R (set_R (set_R (set_pc s (of_nat (length pre + 1))) t (R s x - 1)) x ?x) n (R s n + 1)"
    let ?s3 = "set_pc ?s2 (of_nat (length pre))"
    have d: "dispatches cx (length body + 2) s ?s3"
      by (rule loop_round [OF rc len]) (use less.prems False in \<open>simp_all add: body_def straight_ops_def ne\<close>)
    have pos: "0 < unat (R s x)" "unat (R s x) < 2 ^ 32" using False by (simp_all add: unat_gt_0)
    have x: "unat ?x = unat (R s x) AND (unat (R s x) - 1)" using False by (simp add: unsigned_and_eq unat_minus_one)
    have bits: "set_bits_of (R s x) = Suc (set_bits_of ?x)" unfolding set_bits_ones x by (rule ones_clear [OF pos])
    then have "set_bits_of (R ?s3 x) < set_bits_of (R s x)" by (simp add: ne)
    from less.hyps [OF this] less.prems obtain k s' where k: "k \<le> 5 * set_bits_of ?x + 1" "dispatches cx k ?s3 s'"
      "vm_pc s' = of_nat (length pre + 5)" "R s' n = R s n + 1 + of_nat (set_bits_of ?x)" "changes_only {x, n, t} ?s3 s'"
      by (auto simp: ne)
    have "dispatches cx (length body + 2 + k) s s'" by (rule dispatches_trans [OF d k(2)])
    moreover have "changes_only {x, n, t} s s'" by (rule changes_only_trans [OF _ k(5)]) (intro changes_only_set; simp)
    ultimately show ?thesis using k bits by (intro exI [of _ "length body + 2 + k"] exI [of _ s']) (simp add: body_def)
  qed
qed

lemma length_loop:
  fixes x n one zero :: u8
  defines "body \<equiv> [rop CVM_OP_SHR x x one, rop CVM_OP_ADD n n one]"
  assumes rc: "runs_code cx (pre @ beq x zero 3 # body @ jmp (- 4) # post)" and len: "length (pre @ beq x zero 3 # body @ jmp (- 4) # post) \<le> 2 ^ 23"
    and regs: "regs_apart zero [x, n, one]"
    and s: "vm_pc s = of_nat (length pre)" "R s zero = 0" "R s one = 1"
  shows "\<exists>k s'. k \<le> 4 * sig_bits (unat (R s x)) + 1 \<and> dispatches cx k s s' \<and> vm_pc s' = of_nat (length pre + 4)
    \<and> R s' n = R s n + of_nat (sig_bits (unat (R s x))) \<and> changes_only {x, n} s s'"
  using s
proof (induction "sig_bits (unat (R s x))" arbitrary: s rule: less_induct)
  case less
  have ne: "x \<noteq> n" "n \<noteq> x" "x \<noteq> one" "one \<noteq> x" "n \<noteq> one" "one \<noteq> n" "zero \<noteq> x" "zero \<noteq> n" using regs by (auto simp: regs_apart_def)
  show ?case
  proof (cases "R s x = 0")
    case True
    have "dispatches cx 1 s (set_pc s (of_nat (length pre + 1 + (if R s x = R s zero then 3 else 0))))"
      by (rule step_beq [OF rc len]) (use less.prems in \<open>simp_all add: body_def\<close>)
    then show ?thesis using True less.prems
      by (intro exI [of _ 1] exI [of _ "set_pc s (of_nat (length pre + 4))"]) (simp add: changes_only_set add.commute)
  next
    case False
    let ?s2 = "set_R (set_R (set_pc s (of_nat (length pre + 1))) x (drop_bit 1 (R s x))) n (R s n + 1)"
    let ?s3 = "set_pc ?s2 (of_nat (length pre))"
    have d: "dispatches cx (length body + 2) s ?s3"
      by (rule loop_round [OF rc len]) (use less.prems False in \<open>simp_all add: body_def straight_ops_def ne\<close>)
    note x = unat_half [of "R s x"]
    have bits: "sig_bits (unat (R s x)) = Suc (sig_bits (unat (drop_bit 1 (R s x))))"
      unfolding x using False by (subst sig_bits.simps) (simp add: unat_eq_0)
    then have "sig_bits (unat (R ?s3 x)) < sig_bits (unat (R s x))" by (simp add: ne)
    from less.hyps [OF this] less.prems obtain k s' where k: "k \<le> 4 * sig_bits (unat (drop_bit 1 (R s x))) + 1" "dispatches cx k ?s3 s'"
      "vm_pc s' = of_nat (length pre + 4)" "R s' n = R s n + 1 + of_nat (sig_bits (unat (drop_bit 1 (R s x))))" "changes_only {x, n} ?s3 s'"
      by (auto simp: ne)
    have "dispatches cx (length body + 2 + k) s s'" by (rule dispatches_trans [OF d k(2)])
    moreover have "changes_only {x, n} s s'" by (rule changes_only_trans [OF _ k(5)]) (intro changes_only_set; simp)
    ultimately show ?thesis using k bits by (intro exI [of _ "length body + 2 + k"] exI [of _ s']) (simp add: body_def)
  qed
qed

lemma low_bit_zero: "(x :: u32) AND 1 = 0 \<longleftrightarrow> even (unat x)"
proof -
  have "bit (unat x) 0 = bit x 0" by (simp add: bit_unsigned_iff)
  then have "odd (unat x) = odd x" by (simp only: bit_0)
  moreover have "x AND 1 = 0 \<longleftrightarrow> even x" by (simp only: and_one_eq even_iff_mod_2_eq_zero)
  ultimately show ?thesis by blast
qed

lemma trailing_Suc: "even (unat x) \<Longrightarrow> trailing_zeros (Suc m) x = Suc (trailing_zeros m (drop_bit 1 x))"
  using trailing_even [of "unat x" m] by (simp add: trailing_zeros_def unat_half [unfolded One_nat_def])

lemma trailing_loop:
  fixes x n one t zero :: u8
  defines "ws \<equiv> [rop CVM_OP_AND t x one, bne t zero 4, rop CVM_OP_SHR x x one, rop CVM_OP_ADD n n one, jmp (- 5)]"
  assumes rc: "runs_code cx (pre @ ws @ post)" and len: "length (pre @ ws @ post) \<le> 2 ^ 23" and post: "post \<noteq> []"
    and regs: "regs_apart zero [x, n, one, t]"
    and s: "vm_pc s = of_nat (length pre)" "R s zero = 0" "R s one = 1" "R s x \<noteq> 0" "unat (R s x) < 2 ^ m"
  shows "\<exists>k s'. k \<le> 5 * trailing_zeros m (R s x) + 2 \<and> dispatches cx k s s' \<and> vm_pc s' = of_nat (length pre + 6)
    \<and> R s' n = R s n + of_nat (trailing_zeros m (R s x)) \<and> changes_only {x, n, t} s s'"
  using s
proof (induction m arbitrary: s)
  case 0
  then show ?case by (simp add: unat_eq_0)
next
  case (Suc m)
  have ne: "x \<noteq> n" "n \<noteq> x" "x \<noteq> one" "one \<noteq> x" "x \<noteq> t" "t \<noteq> x" "n \<noteq> one" "one \<noteq> n" "n \<noteq> t" "t \<noteq> n" "one \<noteq> t" "t \<noteq> one"
    "zero \<noteq> x" "zero \<noteq> n" "zero \<noteq> t" using regs by (auto simp: regs_apart_def)
  let ?bit = "R s x AND 1"
  let ?s1 = "set_pc (set_R s t ?bit) (of_nat (length pre + 1))"
  have "dispatches cx (length [rop CVM_OP_AND t x one]) s (set_pc (set_R s t ?bit) (of_nat (length pre + length [rop CVM_OP_AND t x one])))"
    by (rule step_straight [OF _ Suc.prems(1), where post = "tl ws @ post"]) (use rc Suc.prems in \<open>simp_all add: ws_def straight_ops_def\<close>)
  then have d1: "dispatches cx 1 s ?s1" by simp
  have "dispatches cx 1 ?s1 (set_pc ?s1 (of_nat (length (pre @ [rop CVM_OP_AND t x one]) + 1 + (if R ?s1 t = R ?s1 zero then 0 else 4))))"
    by (rule step_bne [of _ _ _ _ 4 "drop 2 ws @ post"]) (use rc len post in \<open>simp_all add: ws_def Suc_le_eq\<close>)
  from dispatches_trans [OF d1 this]
  have d2: "dispatches cx 2 s (set_pc ?s1 (of_nat (length pre + 2 + (if ?bit = 0 then 0 else 4))))"
    using Suc.prems(2) by (cases "?bit = 0") (simp_all add: ne numeral_2_eq_2 ac_simps)
  show ?case
  proof (cases "odd (unat (R s x))")
    case True
    then have "?bit \<noteq> 0" by (simp only: low_bit_zero) simp
    then have "dispatches cx 2 s (set_pc ?s1 (of_nat (length pre + 6)))" using d2 by (simp add: add.commute)
    moreover have "trailing_zeros (Suc m) (R s x) = 0" using trailing_odd [OF True] by (simp add: trailing_zeros_def)
    ultimately show ?thesis
      by (intro exI [of _ 2] exI [of _ "set_pc ?s1 (of_nat (length pre + 6))"] conjI changes_only_set) (simp_all add: ne add.commute)
  next
    case False
    then have even: "even (unat (R s x))" by simp
    then have "?bit = 0" by (simp only: low_bit_zero)
    then have d2: "dispatches cx 2 s (set_pc ?s1 (of_nat (length pre + 2)))" using d2 by (simp add: add.commute)
    let ?body = "[rop CVM_OP_SHR x x one, rop CVM_OP_ADD n n one]"
    let ?s2 = "set_R (set_R ?s1 x (drop_bit 1 (R s x))) n (R s n + 1)"
    let ?s3 = "set_pc ?s2 (of_nat (length pre))"
    have "dispatches cx (length ?body) (set_pc ?s1 (of_nat (length pre + 2)))
        (set_pc (set_pc ?s2 (of_nat (length pre + 2))) (of_nat (length (pre @ take 2 ws) + length ?body)))"
      by (rule step_straight [where post = "jmp (- 5) # post"]) (use rc Suc.prems in \<open>simp_all add: ws_def straight_ops_def ne set_pc_swap\<close>)
    then have d3: "dispatches cx 2 (set_pc ?s1 (of_nat (length pre + 2))) (set_pc ?s2 (of_nat (length pre + 4)))"
      by (simp add: ws_def add.commute numeral_2_eq_2)
    have "dispatches cx 1 (set_pc ?s2 (of_nat (length pre + 4)))
        (set_pc (set_pc ?s2 (of_nat (length pre + 4))) (of_nat (length (pre @ take 4 ws) - 4)))"
      by (rule step_back [of _ _ "- 5" post]) (use rc len in \<open>simp_all add: ws_def\<close>)
    then have d4: "dispatches cx 1 (set_pc ?s2 (of_nat (length pre + 4))) ?s3" by (simp add: ws_def)
    note d = dispatches_trans [OF d2 dispatches_trans [OF d3 d4]]
    have "drop_bit 1 (R s x) \<noteq> 0"
    proof
      assume "drop_bit 1 (R s x) = 0"
      then have "unat (R s x) div 2 = 0" using unat_half [of "R s x"] by simp
      then have "unat (R s x) = 0" using even by presburger
      then show False using Suc.prems(4) by (simp add: unat_eq_0)
    qed
    moreover have "unat (drop_bit 1 (R s x)) < 2 ^ m" using Suc.prems(5) unat_half by simp
    ultimately obtain k s' where k: "k \<le> 5 * trailing_zeros m (drop_bit 1 (R s x)) + 2" "dispatches cx k ?s3 s'"
      "vm_pc s' = of_nat (length pre + 6)" "R s' n = R s n + 1 + of_nat (trailing_zeros m (drop_bit 1 (R s x)))" "changes_only {x, n, t} ?s3 s'"
      using Suc.IH [of ?s3] Suc.prems by (auto simp: ne)
    have "dispatches cx (2 + (2 + 1) + k) s s'" by (rule dispatches_trans [OF d k(2)])
    moreover have "changes_only {x, n, t} s s'" by (rule changes_only_trans [OF _ k(5)]) (intro changes_only_set; simp)
    ultimately show ?thesis using k trailing_Suc [OF even, of m] by (intro exI [of _ "2 + (2 + 1) + k"] exI [of _ s']) simp
  qed
qed

text \<open>A loop with straight code before and behind it.\<close>

lemma framed:
  assumes rc: "runs_code cx (pre @ hd_ws @ loop @ tl_ws @ post)" and s: "vm_pc s = of_nat (length pre)"
    and h: "straight hd_ws" "run cx hd_ws s = Running s1"
    and l: "dispatches cx k (set_pc s1 (of_nat (length (pre @ hd_ws)))) s2" "vm_pc s2 = of_nat (length (pre @ hd_ws @ loop))"
    and e: "straight tl_ws" "run cx tl_ws s2 = Running s3"
  shows "dispatches cx (length hd_ws + (k + length tl_ws)) s (set_pc s3 (of_nat (length (pre @ hd_ws @ loop @ tl_ws))))"
proof -
  have d1: "dispatches cx (length hd_ws) s (set_pc s1 (of_nat (length (pre @ hd_ws))))"
    using step_straight [OF rc s h] by simp
  have "length (pre @ hd_ws @ loop) + length tl_ws = length (pre @ hd_ws @ loop @ tl_ws)" by simp
  then have d2: "dispatches cx (length tl_ws) s2 (set_pc s3 (of_nat (length (pre @ hd_ws @ loop @ tl_ws))))"
    using step_straight [OF _ l(2) e, of post] rc by (metis append.assoc)
  show ?thesis by (rule dispatches_trans [OF d1 dispatches_trans [OF l(1) d2]])
qed

lemma ctpop_ends:
  assumes rc: "runs_code cx (pre @ ctpop_words zero dst x n one t @ post)" and len: "length (pre @ ctpop_words zero dst x n one t @ post) \<le> 2 ^ 23"
    and s: "vm_pc s = of_nat (length pre)" "R s zero = 0" and regs: "regs_apart zero [x, n, one, t]"
  shows "\<exists>k s'. k \<le> 164 \<and> dispatches cx k s s' \<and> vm_pc s' = of_nat (length (pre @ ctpop_words zero dst x n one t))
    \<and> R s' dst = of_nat (set_bits_of (R s x)) \<and> changes_only {x, n, one, t, dst} s s'"
proof -
  let ?h = "[movi n 0, movi one 1]" and ?e = "[rop CVM_OP_MOV dst n 0]"
  let ?l = "beq x zero 4 # [rop CVM_OP_SUB t x one, rop CVM_OP_AND x x t, rop CVM_OP_ADD n n one] @ [jmp (- 5)]"
  have ws: "ctpop_words zero dst x n one t = ?h @ ?l @ ?e" by (simp add: ctpop_words_def)
  let ?s1 = "set_R (set_R s n 0) one 1"
  let ?s1' = "set_pc ?s1 (of_nat (length (pre @ ?h)))"
  have "\<exists>k s'. k \<le> 5 * set_bits_of (R ?s1' x) + 1 \<and> dispatches cx k ?s1' s' \<and> vm_pc s' = of_nat (length (pre @ ?h) + 5)
    \<and> R s' n = R ?s1' n + of_nat (set_bits_of (R ?s1' x)) \<and> changes_only {x, n, t} ?s1' s'"
    by (rule pop_loop [where post = "?e @ post"]) (use rc len regs s in \<open>auto simp: ws regs_apart_def\<close>)
  then obtain k s2 where k: "k \<le> 5 * set_bits_of (R ?s1' x) + 1" "dispatches cx k ?s1' s2" "vm_pc s2 = of_nat (length (pre @ ?h) + 5)"
    "R s2 n = R ?s1' n + of_nat (set_bits_of (R ?s1' x))" "changes_only {x, n, t} ?s1' s2" by blast
  let ?s3 = "set_pc (set_R s2 dst (R s2 n)) (of_nat (length (pre @ ?h @ ?l @ ?e)))"
  have d: "dispatches cx (length ?h + (k + length ?e)) s ?s3"
    by (rule framed [OF _ s(1) _ _ k(2), where post = post]) (use rc k(3) in \<open>simp_all add: ws straight_ops_def\<close>)
  have "card {i. i < 32 \<and> bit (R s x) i} \<le> card {..< 32 :: nat}" by (rule card_mono) auto
  then have "set_bits_of (R s x) \<le> 32" by (simp add: set_bits_of_def)
  moreover have "R ?s1' x = R s x" "R ?s1' n = 0" using regs by (auto simp: regs_apart_def)
  moreover have "changes_only {x, n, one, t, dst} s ?s3"
    by (intro changes_only_set changes_only_trans [OF _ changes_only_mono [OF k(5)]]) auto
  ultimately show ?thesis using d k unfolding ws
    by (intro exI [of _ "length ?h + (k + length ?e)"] exI [of _ ?s3]) simp
qed

lemma ctlz_ends:
  assumes rc: "runs_code cx (pre @ ctlz_words zero src dst x n one k32 @ post)" and len: "length (pre @ ctlz_words zero src dst x n one k32 @ post) \<le> 2 ^ 23"
    and s: "vm_pc s = of_nat (length pre)" "R s zero = 0" and regs: "regs_apart zero [x, n, one, k32]"
  shows "\<exists>k s'. k \<le> 134 \<and> dispatches cx k s s' \<and> vm_pc s' = of_nat (length (pre @ ctlz_words zero src dst x n one k32))
    \<and> R s' dst = of_nat (leading_zeros (R s src)) \<and> changes_only {x, n, one, k32, dst} s s'"
proof -
  let ?h = "[rop CVM_OP_MOV x src 0, movi n 0, movi one 1]" and ?e = "[movi k32 32, rop CVM_OP_SUB dst k32 n]"
  let ?l = "beq x zero 3 # [rop CVM_OP_SHR x x one, rop CVM_OP_ADD n n one] @ [jmp (- 4)]"
  have ws: "ctlz_words zero src dst x n one k32 = ?h @ ?l @ ?e" by (simp add: ctlz_words_def length_words_def)
  let ?s1 = "set_R (set_R (set_R s x (R s src)) n 0) one 1"
  let ?s1' = "set_pc ?s1 (of_nat (length (pre @ ?h)))"
  have "\<exists>k s'. k \<le> 4 * sig_bits (unat (R ?s1' x)) + 1 \<and> dispatches cx k ?s1' s' \<and> vm_pc s' = of_nat (length (pre @ ?h) + 4)
    \<and> R s' n = R ?s1' n + of_nat (sig_bits (unat (R ?s1' x))) \<and> changes_only {x, n} ?s1' s'"
    by (rule length_loop [where post = "?e @ post"]) (use rc len regs s in \<open>auto simp: ws regs_apart_def\<close>)
  then obtain k s2 where k: "k \<le> 4 * sig_bits (unat (R ?s1' x)) + 1" "dispatches cx k ?s1' s2" "vm_pc s2 = of_nat (length (pre @ ?h) + 4)"
    "R s2 n = R ?s1' n + of_nat (sig_bits (unat (R ?s1' x)))" "changes_only {x, n} ?s1' s2" by blast
  let ?s3 = "set_pc (set_R (set_R s2 k32 32) dst (32 - R s2 n)) (of_nat (length (pre @ ?h @ ?l @ ?e)))"
  have d: "dispatches cx (length ?h + (k + length ?e)) s ?s3"
    by (rule framed [OF _ s(1) _ _ k(2), where post = post]) (use rc k(3) regs in \<open>auto simp: ws straight_ops_def regs_apart_def\<close>)
  have b: "sig_bits (unat (R s src)) \<le> 32" unfolding sig_bits_le using unat_lt32 [of "R s src"] by simp
  then have "of_nat (leading_zeros (R s src)) = (32 :: u32) - of_nat (sig_bits (unat (R s src)))"
    unfolding leading_length by (simp add: of_nat_diff)
  moreover have "R ?s1' x = R s src" "R ?s1' n = 0" using regs by (auto simp: regs_apart_def)
  moreover have "changes_only {x, n, one, k32, dst} s ?s3"
    by (intro changes_only_set changes_only_trans [OF _ changes_only_mono [OF k(5)]]) auto
  ultimately show ?thesis using d k b unfolding ws
    by (intro exI [of _ "length ?h + (k + length ?e)"] exI [of _ ?s3]) simp
qed

lemma cttz_ends:
  assumes rc: "runs_code cx (pre @ cttz_words w zero dst x n one t @ post)" and len: "length (pre @ cttz_words w zero dst x n one t @ post) \<le> 2 ^ 23"
    and s: "vm_pc s = of_nat (length pre)" "R s zero = 0" and regs: "regs_apart zero [x, n, one, t]"
    and w: "w \<in> {8, 16, 32}" "unat (R s x) < 2 ^ w"
  shows "\<exists>k s'. k \<le> 166 \<and> dispatches cx k s s' \<and> vm_pc s' = of_nat (length (pre @ cttz_words w zero dst x n one t))
    \<and> R s' dst = of_nat (trailing_zeros w (R s x)) \<and> changes_only {x, n, one, t, dst} s s'"
proof -
  let ?h = "[movi n 0, movi one 1]"
  let ?l = "[rop CVM_OP_AND t x one, bne t zero 4, rop CVM_OP_SHR x x one, rop CVM_OP_ADD n n one, jmp (- 5)]"
  let ?e = "[movi n (of_nat w), rop CVM_OP_MOV dst n 0]"
  have ws: "cttz_words w zero dst x n one t = ?h @ (beq x zero 5 # ?l) @ ?e"
    "cttz_words w zero dst x n one t = ?h @ (beq x zero 5 # ?l @ [hd ?e]) @ tl ?e" by (simp_all add: cttz_words_def)
  let ?s1 = "set_R (set_R s n 0) one 1"
  let ?s1' = "set_pc ?s1 (of_nat (length (pre @ ?h)))"
  have r: "R ?s1' x = R s x" "R ?s1' n = 0" "R ?s1' zero = 0" "R ?s1' one = 1" using regs s by (auto simp: regs_apart_def)
  have b: "dispatches cx 1 ?s1' (set_pc ?s1' (of_nat (length (pre @ ?h) + 1 + (if R ?s1' x = R ?s1' zero then 5 else 0))))"
    by (rule step_beq [where post = "?l @ ?e @ post"]) (use rc len in \<open>simp_all add: ws\<close>)
  show ?thesis
  proof (cases "R s x = 0")
    case True
    let ?s2 = "set_pc ?s1' (of_nat (length (pre @ ?h) + 6))"
    let ?s3 = "set_pc (set_R (set_R ?s2 n (of_nat w)) dst (of_nat w)) (of_nat (length (pre @ ?h @ (beq x zero 5 # ?l) @ ?e)))"
    have b0: "dispatches cx 1 ?s1' ?s2" using b True unfolding r by (simp add: ac_simps)
    have d: "dispatches cx (length ?h + (1 + length ?e)) s ?s3"
      by (rule framed [OF _ s(1) _ _ b0, where post = post]) (use rc w(1) in \<open>auto simp: ws(1) straight_ops_def\<close>)
    have "trailing_zeros w (R s x) = w" using True by (simp add: trailing_zeros_def)
    moreover have "changes_only {x, n, one, t, dst} s ?s3" by (intro changes_only_set changes_only_refl) auto
    ultimately show ?thesis using d unfolding ws(1)
      by (intro exI [of _ "length ?h + (1 + length ?e)"] exI [of _ ?s3]) simp
  next
    case False
    let ?s2 = "set_pc ?s1' (of_nat (length (pre @ ?h @ [beq x zero 5])))"
    have b0: "dispatches cx 1 ?s1' ?s2" using b False unfolding r by (simp add: ac_simps)
    have "\<exists>k s'. k \<le> 5 * trailing_zeros w (R ?s2 x) + 2 \<and> dispatches cx k ?s2 s' \<and> vm_pc s' = of_nat (length (pre @ ?h @ [beq x zero 5]) + 6)
      \<and> R s' n = R ?s2 n + of_nat (trailing_zeros w (R ?s2 x)) \<and> changes_only {x, n, t} ?s2 s'"
      by (rule trailing_loop [where post = "?e @ post" and one = one]) (use rc len regs s False w(2) in \<open>auto simp: ws(1) regs_apart_def\<close>)
    then obtain k s' where k: "k \<le> 5 * trailing_zeros w (R s x) + 2" "dispatches cx k ?s2 s'" "vm_pc s' = of_nat (length (pre @ ?h @ [beq x zero 5]) + 6)"
      "R s' n = of_nat (trailing_zeros w (R s x))" "changes_only {x, n, t} ?s2 s'" using r by auto
    let ?s3 = "set_pc (set_R s' dst (R s' n)) (of_nat (length (pre @ ?h @ (beq x zero 5 # ?l @ [hd ?e]) @ tl ?e)))"
    have d: "dispatches cx (length ?h + (1 + k + length (tl ?e))) s ?s3"
      by (rule framed [OF _ s(1) _ _ dispatches_trans [OF b0 k(2)], where post = post]) (use rc k(3) in \<open>simp_all add: ws(2) straight_ops_def\<close>)
    have "card {i. i < w \<and> 2 ^ Suc i dvd unat (R s x)} \<le> card {..< w}" by (rule card_mono) auto
    then have "trailing_zeros w (R s x) \<le> 32" using w(1) by (auto simp: trailing_zeros_def)
    moreover have "changes_only {x, n, one, t, dst} s ?s3"
      by (intro changes_only_set changes_only_trans [OF _ changes_only_mono [OF k(5)]]) auto
    ultimately show ?thesis using d k unfolding ws(2)
      by (intro exI [of _ "length ?h + (1 + k + length (tl ?e))"] exI [of _ ?s3]) simp
  qed
qed

end
