(* ===== verification/Count_Theorems.thy ===== *)
theory Count_Theorems
  imports Counting Scalar_Theorems
begin

text \<open>
  The lowering of \<open>llvm.ctpop\<close> and \<open>llvm.cttz\<close>: the emitted loops end on the machine with the number of bits of the operand.
\<close>

text \<open>Code in front of the loop: the operand, cut to its width, in a fresh register.\<close>

lemma confine_code:
  assumes "gen_ok cg" "confine w x cg = Some cg'" "w \<in> {8, 16, 32}" "opreg (cg_next_reg cg) x" "x \<noteq> CG_REG_ZERO"
  obtains ws where "cg_code cg' = cg_code cg @ ws" "straight ws"
    "\<And>(cx :: 'h ctx) s. \<exists>s'. run cx ws s = Running s' \<and> (\<forall>n. scratch n x \<longrightarrow> n \<le> cg_next_reg cg \<longrightarrow> same_but n s s') \<and> R s' x = R s x AND mask w"
proof (cases "w < 32")
  case True
  then obtain m c where c: "cg_fresh_const (width_mask w) cg = Some (m, c)" "cg' = cg_emit (rop CVM_OP_AND x x m) c"
    using assms(2) by (auto simp: confine_def)
  note A = read_const [OF assms(1) c(1)]
  let ?ws = "const_code m (width_mask w) @ [rop CVM_OP_AND x x m]"
  have msk: "width_mask w = mask w" by (rule width_mask_eq) (use assms(3) in auto)
  have ne: "m \<noteq> x" using opreg_fresh(1) [OF assms(4) A(2) le_refl A(4)] by simp
  have "cg_code cg' = cg_code cg @ ?ws" using emittedD(1) [OF A(1)] by (simp add: c(2) cg_emit_def)
  moreover have "straight ?ws" by (simp add: straight_ops_def)
  moreover have "\<exists>s'. run cx ?ws s = Running s' \<and> (\<forall>n. scratch n x \<longrightarrow> n \<le> cg_next_reg cg \<longrightarrow> same_but n s s') \<and> R s' x = R s x AND mask w"
    for cx and s :: "'h vm"
  proof -
    have "run cx ?ws s = Running (set_R (set_R s m (width_mask w)) x (R s x AND mask w))"
      using ne msk by (simp add: A(5))
    moreover have "same_but n s (set_R (set_R s m (width_mask w)) x y)" if "scratch n x" "n \<le> cg_next_reg cg" for n y
      by (intro same_but_set same_but_refl) (use A(2,4) that in \<open>auto simp: scratch_def\<close>)
    ultimately show ?thesis by auto
  qed
  ultimately show ?thesis using that by blast
next
  case False
  then have "w = 32" "cg' = cg" using assms(2,3) by (auto simp: confine_def)
  moreover have "x AND mask 32 = x" for x :: u32 by (rule bit_word_eqI) (simp add: bit_simps)
  ultimately show ?thesis using that [of "[]"] by (simp add: same_but_refl)
qed

text \<open>The code of the whole lowering.\<close>

lemma count_code:
  assumes "regs_ok cg" "lower_count L i w body cg = Some cg'" "w \<in> {8, 16, 32}" "place_of L cg (LLVMGetOperand L i 0) \<noteq> None"
  obtains ws x n one t d where "cg_code cg' = cg_code cg @ ws @ body CG_REG_ZERO d x n one t" "straight ws" "reg_of L cg i = Some d"
    "regs_apart CG_REG_ZERO [x, n, one, t]" "\<forall>r \<in> {x, n, one, t}. scratch (cg_next_reg cg) r"
    "evals cg (cg_next_reg cg) ws (\<lambda>(s :: 'h vm) s'. \<exists>a. word_of L cg s (LLVMGetOperand L i 0) = Some a \<and> R s' x = a AND mask w)"
proof -
  obtain src cg1 d x cg2 n cg3 one cg4 t cg5 cg6 where
    o: "cg_reg_for L (LLVMGetOperand L i 0) cg = Some (src, cg1)" "reg_of L cg1 i = Some d"
    and a: "cg_alloc_reg cg1 = Some (x, cg2)" "cg_alloc_reg cg2 = Some (n, cg3)" "cg_alloc_reg cg3 = Some (one, cg4)" "cg_alloc_reg cg4 = Some (t, cg5)"
    and e: "confine w x (cg_emit (rop CVM_OP_MOV x src 0) cg5) = Some cg6" "cg' = emits (body (cg_zero_reg cg) d x n one t) cg6"
    using assms(2) by (auto simp: lower_count_def opnd_def bind_eq_Some_conv)
  obtain ws0 where w0: "emitted cg cg1 ws0" "opreg (cg_next_reg cg1) src"
    "evals cg (cg_next_reg cg) ws0 (\<lambda>(s :: 'h vm) s'. word_of L cg s (LLVMGetOperand L i 0) = Some (R s' src))"
    by (rule reg_for_evals [OF assms(1) o(1) assms(4)])
  note A1 = alloc_emitted [OF emittedD(3) [OF w0(1)] a(1)]
  note A2 = alloc_emitted [OF emittedD(3) [OF A1(1)] a(2)]
  note A3 = alloc_emitted [OF emittedD(3) [OF A2(1)] a(3)]
  note A4 = alloc_emitted [OF emittedD(3) [OF A3(1)] a(4)]
  have n5: "cg_next_reg cg5 = cg_next_reg cg1 + 4" using A1(3) A2(3) A3(3) A4(3) by simp
  let ?mov = "rop CVM_OP_MOV x src 0"
  have em: "emitted cg5 (emit_all [?mov] cg5) [?mov]"
    by (rule emitted_code [OF emittedD(3) [OF A4(1)]]) (simp add: straight_ops_def)
  have xo: "opreg (cg_next_reg cg5) x" using A1(2,4) A1(3) n5 by (intro opreg_mono [OF A1(4)]) simp
  have zo: "r \<noteq> CG_REG_ZERO" if "unat r \<le> 252" "cg_next_reg cg1 \<le> unat r" for r
    using that by (auto simp: CG_REG_ZERO_def)
  have le: "cg_next_reg cg \<le> cg_next_reg cg1" by (rule emittedD(2) [OF w0(1)])
  have regs: "unat x = cg_next_reg cg1" "unat n = cg_next_reg cg1 + 1" "unat one = cg_next_reg cg1 + 2" "unat t = cg_next_reg cg1 + 3" "cg_next_reg cg1 + 3 \<le> 252"
    using A1(2,3) A2(2,3) A3(2,3) A4(2,3,5) by simp_all
  have sc: "\<forall>r \<in> {x, n, one, t}. scratch (cg_next_reg cg) r" using regs le by (auto simp: scratch_def)
  have ap: "regs_apart CG_REG_ZERO [x, n, one, t]" using regs by (auto simp: regs_apart_def CG_REG_ZERO_def dest: arg_cong [of _ _ unat])
  have nx: "cg_next_reg (emit_all [?mov] cg5) = cg_next_reg cg5" by (simp add: emit_all_def)
  obtain ws1 where w1: "cg_code cg6 = cg_code (emit_all [?mov] cg5) @ ws1" "straight ws1"
    "\<And>(cx :: 'h ctx) s. \<exists>s'. run cx ws1 s = Running s' \<and> (\<forall>n. scratch n x \<longrightarrow> n \<le> cg_next_reg (emit_all [?mov] cg5) \<longrightarrow> same_but n s s')
       \<and> R s' x = R s x AND mask w"
    by (rule confine_code [OF emittedD(3) [OF em] e(1) [unfolded emit_all_one] assms(3)]) (use xo nx regs zo in auto)
  have z: "cg_zero_reg cg = CG_REG_ZERO" using assms(1) by (simp add: regs_ok_def gen_ok_def)
  have em: "cg_code (emits vs c) = cg_code c @ vs" for vs and c :: "('a, 'b) gen"
    unfolding emits_def by (induction vs arbitrary: c) (simp_all add: cg_emit_def)
  have code: "cg_code cg' = cg_code cg @ (ws0 @ ?mov # ws1) @ body CG_REG_ZERO d x n one t"
    using w1(1) emittedD(1) [OF w0(1)] emittedD(1) [OF A1(1)] emittedD(1) [OF A2(1)] emittedD(1) [OF A3(1)] emittedD(1) [OF A4(1)]
    by (simp add: e(2) em z) (simp add: emit_all_def)
  have "evals cg (cg_next_reg cg) (ws0 @ ?mov # ws1)
    (\<lambda>(s :: 'h vm) s'. \<exists>a. word_of L cg s (LLVMGetOperand L i 0) = Some a \<and> R s' x = a AND mask w)"
    unfolding evals_def
  proof (intro allI impI)
    fix cx :: "'h ctx" and s :: "'h vm" assume "frame_ok cx cg s"
    then obtain s1 where s1: "run cx ws0 s = Running s1" "same_but (cg_next_reg cg) s s1"
      "word_of L cg s (LLVMGetOperand L i 0) = Some (R s1 src)" using w0(3) by (auto simp: evals_def)
    let ?s2 = "set_R s1 x (R s1 src)"
    obtain s3 where s3: "run cx ws1 ?s2 = Running s3" "same_but (cg_next_reg cg) ?s2 s3" "R s3 x = R ?s2 x AND mask w"
      using w1(3) [of cx ?s2] sc le n5 nx by auto
    have "same_but (cg_next_reg cg) s ?s2" using sc by (intro same_but_set [OF s1(2)]) simp
    then have "same_but (cg_next_reg cg) s s3" by (rule same_but_trans [OF _ s3(2) le_refl])
    then show "\<exists>s'. run cx (ws0 @ ?mov # ws1) s = Running s' \<and> same_but (cg_next_reg cg) s s'
        \<and> (\<exists>a. word_of L cg s (LLVMGetOperand L i 0) = Some a \<and> R s' x = a AND mask w)"
      using s1(1,3) s3(1,3) by (simp add: run_append)
  qed
  moreover have "straight (ws0 @ ?mov # ws1)" using emittedD(4) [OF w0(1)] w1(2) by (simp add: straight_ops_def)
  moreover have "reg_of L cg i = Some d" using o(2) emitted_tables(6) [OF w0(1), of L] by simp
  ultimately show ?thesis using that code ap sc by blast
qed

text \<open>The number that a loop leaves.\<close>

definition count_of :: "bool \<Rightarrow> nat \<Rightarrow> u32 \<Rightarrow> nat" where
  "count_of trailing w a = (if trailing then trailing_zeros w a else set_bits_of a)"

lemma count_body_ends:
  assumes "body = (if trailing then cttz_words w else ctpop_words)" "runs_code cx (pre @ body zero d x n one t @ post)"
    "length (pre @ body zero d x n one t @ post) \<le> 2 ^ 23" "vm_pc s = of_nat (length pre)" "R s zero = 0" "regs_apart zero [x, n, one, t]"
    "w \<in> {8, 16, 32}" "R s x = a AND mask w"
  shows "\<exists>k s'. k \<le> 166 \<and> dispatches cx k s s' \<and> vm_pc s' = of_nat (length (pre @ body zero d x n one t))
    \<and> R s' d = of_nat (count_of trailing w (a AND mask w)) \<and> changes_only {x, n, one, t, d} s s'"
proof (cases trailing)
  case True
  have "a AND mask w = take_bit w a" by (simp add: take_bit_eq_mask)
  then have "unat (R s x) < 2 ^ w" using assms(8) by (simp add: unsigned_take_bit_eq)
  then show ?thesis using cttz_ends [of cx pre w zero d x n one t post s] assms by (simp add: True count_of_def)
next
  case False
  then obtain k s' where "k \<le> 164" "dispatches cx k s s'" "vm_pc s' = of_nat (length (pre @ ctpop_words zero d x n one t))"
    "R s' d = of_nat (set_bits_of (R s x))" "changes_only {x, n, one, t, d} s s'"
    using ctpop_ends [of cx pre zero d x n one t post s] assms by auto
  then show ?thesis using assms(1,8) False by (intro exI [of _ k] exI [of _ s']) (simp add: count_of_def)
qed

text \<open>C40. The lowering of \<open>llvm.ctpop\<close> (\<open>trailing\<close> false) and \<open>llvm.cttz\<close> (true) for 8, 16 and 32 bits: in a program that
  contains the emitted code, the machine leaves the loop after at most 166 instructions, behind the code, and the
  register of the result has the number of set bits or of trailing zeros of the low bits of the operand, whatever
  its other bits; memory, host and the registers below the scratch registers are unchanged.\<close>

theorem count_loops_end:
  assumes "regs_ok cg" "lower_count L i w (if trailing then cttz_words w else ctpop_words) cg = Some cg'" "w \<in> {8, 16, 32}"
    "take (length (cg_code cg')) code = cg_code cg'" "runs_code cx code" "length code \<le> 2 ^ 23" "vm_pc s = of_nat (length (cg_code cg))"
    "frame_ok cx cg s" "word_of L cg s (LLVMGetOperand L i 0) = Some a"
  shows "\<exists>d m k s'. reg_of L cg i = Some d \<and> dispatches cx (m + k) s s' \<and> m + length (cg_code cg) \<le> length (cg_code cg') \<and> k \<le> 166
    \<and> vm_pc s' = of_nat (length (cg_code cg')) \<and> R s' d = of_nat (count_of trailing w (a AND mask w))
    \<and> heap_of s' = heap_of s \<and> vm_host s' = vm_host s \<and> (\<forall>r. r \<noteq> d \<and> \<not> scratch (cg_next_reg cg) r \<longrightarrow> R s' r = R s r)"
proof -
  let ?body = "if trailing then cttz_words w else ctpop_words"
  have "place_of L cg (LLVMGetOperand L i 0) \<noteq> None" using assms(9) by (auto simp: word_of_def)
  then obtain ws x n one t d where c: "cg_code cg' = cg_code cg @ ws @ ?body CG_REG_ZERO d x n one t" "straight ws" "reg_of L cg i = Some d"
    "regs_apart CG_REG_ZERO [x, n, one, t]" "\<forall>r \<in> {x, n, one, t}. scratch (cg_next_reg cg) r"
    "evals cg (cg_next_reg cg) ws (\<lambda>(s :: 'd vm) s'. \<exists>a. word_of L cg s (LLVMGetOperand L i 0) = Some a \<and> R s' x = a AND mask w)"
    by (rule count_code [OF assms(1-3), where ?'h = 'd])
  obtain s1 where s1: "run cx ws s = Running s1" "same_but (cg_next_reg cg) s s1" "R s1 x = a AND mask w"
  proof -
    obtain s1 a' where "run cx ws s = Running s1" "same_but (cg_next_reg cg) s s1" "word_of L cg s (LLVMGetOperand L i 0) = Some a'"
      "R s1 x = a' AND mask w" using c(6) assms(8) unfolding evals_def by blast
    then show ?thesis using that assms(9) by simp
  qed
  define post where "post = drop (length (cg_code cg')) code"
  let ?pre = "cg_code cg @ ws" and ?ws = "?body CG_REG_ZERO d x n one t"
  have code: "code = cg_code cg @ ws @ ?ws @ post" using assms(4) c(1) append_take_drop_id [of "length (cg_code cg')" code] by (simp add: post_def)
  let ?s2 = "set_pc s1 (of_nat (length ?pre))"
  have d1: "dispatches cx (length ws) s ?s2" using step_straight [OF _ assms(7) c(2) s1(1)] assms(5) code by simp
  have "R ?s2 CG_REG_ZERO = 0" using same_butD(1) [OF s1(2)] sp_not_scratch assms(8) by (simp add: frame_ok_def)
  then have "\<exists>k s'. k \<le> 166 \<and> dispatches cx k ?s2 s' \<and> vm_pc s' = of_nat (length (?pre @ ?ws))
    \<and> R s' d = of_nat (count_of trailing w (a AND mask w)) \<and> changes_only {x, n, one, t, d} ?s2 s'"
    by (intro count_body_ends [OF refl, where post = post]) (use assms(3,5,6) code c(4) s1(3) in simp_all)
  then obtain k s' where k: "k \<le> 166" "dispatches cx k ?s2 s'" "vm_pc s' = of_nat (length (?pre @ ?ws))"
    "R s' d = of_nat (count_of trailing w (a AND mask w))" "changes_only {x, n, one, t, d} ?s2 s'" by blast
  have "R s' r = R s r" if "r \<noteq> d" "\<not> scratch (cg_next_reg cg) r" for r
    using changes_onlyD(1) [OF k(5), of r] c(5) same_butD(1) [OF s1(2) that(2)] that by auto
  moreover have "heap_of s' = heap_of s" "vm_host s' = vm_host s"
    using changes_onlyD [OF k(5)] same_butD(2,8) [OF s1(2)] by (simp_all add: set_pc_same)
  ultimately show ?thesis using dispatches_trans [OF d1 k(2)] k c(1,3)
    by (intro exI [of _ d] exI [of _ "length ws"] exI [of _ k] exI [of _ s']) simp
qed

text \<open>\<open>%2 = call i8 @llvm.ctpop.i8(i8 %0)\<close> with the operand in register 10, whose word 0x1C8 stands for 0xC8.\<close>

definition small_pop :: "(nat, nat, nat) llvm" where
  "small_pop = small_llvm [(0, \<lparr>si_block = 0, si_opcode = LLVMLoad, si_width = 8, si_operands = [], si_incoming = []\<rparr>),
     (1, \<lparr>si_block = 0, si_opcode = LLVMLoad, si_width = 8, si_operands = [], si_incoming = []\<rparr>),
     (2, \<lparr>si_block = 0, si_opcode = LLVMCall, si_width = 8, si_operands = [0, 1], si_incoming = []\<rparr>)] (\<lambda>b. [])"

lemma small_pop_simps: "LLVMGetOperand small_pop 2 0 = 0" "LLVMIsAGlobalAlias small_pop v = False" "cg_lookup small_pop = cg_lookup small_udiv"
proof -
  show "LLVMGetOperand small_pop 2 0 = 0" "LLVMIsAGlobalAlias small_pop v = False" by (simp_all add: small_pop_def small_llvm_def Let_def)
  have "v_addr small_pop = v_addr small_udiv" by (simp add: small_pop_def small_udiv_def small_llvm_def Let_def)
  then show "cg_lookup small_pop = cg_lookup small_udiv" by (intro ext) (simp add: cg_lookup_def htab_start_def)
qed

lemma pop_emits:
  assumes "gen_ok cg" "cg_code cg = []" "cg_regs cg = [10, 11, 12]" "cg_val_slot cg = replicate 3 CG_NO_SLOT"
    "cg_next_reg cg = 13" "\<forall>v. cg_lookup small_udiv cg v = Some (if v < 3 then Some v else None)"
  shows "\<exists>cg'. lower_count small_pop 2 8 ctpop_words cg = Some cg' \<and> length (cg_code cg') = 11"
proof -
  have at3: "at [10, 11, 12 :: u8] 0 = Some 10" "at [10, 11, 12 :: u8] 2 = Some 12" "at [CG_NO_SLOT, CG_NO_SLOT, CG_NO_SLOT] 0 = Some CG_NO_SLOT"
    by (simp_all add: at_def)
  have rep: "replicate 3 CG_NO_SLOT = [CG_NO_SLOT, CG_NO_SLOT, CG_NO_SLOT]" by (simp add: numeral_eq_Suc)
  have r: "cg_reg_for small_pop 0 cg = Some (10, cg)"
    by (subst cg_reg_for.simps) (simp add: small_pop_simps assms(3,4,6) rep at3)
  have d: "reg_of small_pop cg 2 = Some 12" by (simp add: reg_of_def small_pop_simps assms(3,6) at3)
  have m: "width_mask 8 = 255" by (simp add: width_mask_def)
  show ?thesis using assms(1,2,5)
    by (simp add: lower_count_def opnd_def small_pop_simps(1) r d confine_def cg_fresh_const_def m cg_alloc_reg_def gen_ok_def CG_MAX_EMIT_REG_def
      cg_emit_load_const32_def fits_i16_def cg_emit_def emits_def ctpop_words_def)
qed

theorem count_loops_end_witness:
  "\<exists>cg cg' n s'. lower_ctpop small_pop 2 8 cg = Some cg' \<and> dispatches (demo_ctx (cg_code cg')) n (udiv_vm (cg_code cg')) s'
    \<and> vm_pc s' = 11 \<and> R s' 12 = 3"
proof -
  obtain cg :: "(nat, nat) gen" where g: "gen_ok cg" "cg_code cg = []" "cg_regs cg = [10, 11, 12]" "cg_val_slot cg = replicate 3 CG_NO_SLOT"
    "cg_next_reg cg = 13" "cg_ssa_reg_high cg = 13" "\<forall>v. cg_lookup small_udiv cg v = Some (if v < 3 then Some v else None)" by (rule udiv_gen)
  obtain cg' where e: "lower_count small_pop 2 8 ctpop_words cg = Some cg'" "length (cg_code cg') = 11" using pop_emits [OF g(1-5,7)] by blast
  let ?c = "cg_code cg'" and ?s = "udiv_vm (cg_code cg')"
  have R: "R ?s r = (if r = 10 then 0x1C8 else if r = 11 then 0xF05 else 0)" for r by (simp add: udiv_vm_def demo_vm_def set_heap_def)
  have rc: "runs_code (demo_ctx ?c) ?c" using e(2) by (simp add: runs_code_def demo_ctx_def mk_ctx_def demo_image_def)
  have pc: "vm_pc ?s = of_nat (length (cg_code cg))" by (simp add: udiv_vm_def demo_vm_def set_heap_def g(2))
  have "vm_ok (demo_ctx ?c) ?s" unfolding udiv_vm_def using e(2) by (intro demo_ok) simp_all
  then have f: "frame_ok (demo_ctx ?c) cg ?s" by (simp add: frame_ok_def R CG_REG_ZERO_def g(4))
  have ok: "regs_ok cg" using g(1) by (simp add: regs_ok_def gen_ok_def g(3,5) opreg_def)
  have w: "word_of small_pop cg ?s (LLVMGetOperand small_pop 2 0) = Some 0x1C8"
    by (simp add: word_of_def place_of_def small_pop_simps g(3,4,7) at_def R)
  have d: "reg_of small_pop cg 2 = Some 12" by (simp add: reg_of_def small_pop_simps g(3,7) at_def)
  have "ones (numeral k) y = y mod 2 + ones (pred_numeral k) (y div 2)" for k y by (simp add: numeral_eq_Suc ones_Suc)
  then have n: "count_of False 8 (0x1C8 AND mask 8) = 3" by (simp add: count_of_def set_bits_ones mask_numeral)
  obtain k m s' where x: "dispatches (demo_ctx ?c) (m + k) ?s s'" "vm_pc s' = of_nat (length ?c)" "R s' 12 = of_nat (count_of False 8 (0x1C8 AND mask 8))"
    using count_loops_end [OF ok _ _ _ rc _ pc f w, of 8 False cg'] e d by auto
  then show ?thesis using e n by (auto simp: lower_ctpop_def)
qed

end
