(* ===== verification/Spec2Isabelle.thy ===== *)
theory Spec2Isabelle
  imports Loader_Theorems Semantics Int64 Bin_Theorems Float64_Div Branches_Correct Phi_Theorems Spill Scalar_Theorems Function Globals_Correct Count_Theorems
begin

text \<open>
  CronoVM is a virtual machine with 256 registers of 32 bits. A host program loads a \<open>.bin\<close> file, binds its
  system calls and runs it; a translator makes such files from LLVM bitcode; guest programs link against
  small runtime libraries for 64-bit integers and binary64 numbers. This library models these parts from their
  C source and proves what they promise to each other. The parts meet in three places: the file (what the
  translator writes, the runtime loads), the instruction set (what the translator emits, the interpreter runs)
  and the word pairs of the guest libraries (what inline code computes, the library functions compute).

  \<^bold>\<open>The runtime\<close>, \<open>src/cvm.c\<close> with \<open>include/cvm.h\<close>.
  \<^item> \<open>Prelude\<close>, \<open>Store\<close>, \<open>Image\<close>: C integers as words; outcomes of C functions, with undefined behaviour as a
    value; the heap buffer with the locales \<open>byte_store\<close> and \<open>word_store\<close>; \<open>struct cvm_image\<close> and the
    allocator hooks over a ledger of live blocks.
  \<^item> \<open>Format\<close>, \<open>Loader\<close>: \<open>cvm_crc32\<close>, \<open>cvm_seal_check\<close>, \<open>cvm_peek_section\<close>, and \<open>cvm_load_ex\<close> with every
    check, the layout of the heap, the copies and the failure path. \<open>Loader_Check\<close>, \<open>Loader_Correct\<close>,
    \<open>Loader_Theorems\<close> show that no file and no allocator makes the loader leave an array or leak, and what a
    loaded image holds and where.
  \<^item> \<open>Link\<close>: binding of system calls, checked heap access, regions, built-in calls. What the interpreter expects
    of a handler is the locale \<open>syscall_handler\<close>, interpreted on every built-in.
  \<^item> \<open>Float32\<close>: binary32 arithmetic on bit patterns, rounded once to nearest even; NaN payloads are a
    parameter. \<open>Float32_Correct\<close> has its theorems.
  \<^item> \<open>Isa\<close>, \<open>Exec\<close>, \<open>Switch\<close>: the opcodes, one definition per label of the threaded interpreter loop, and the
    switch loop, which takes the same steps. \<open>Safety\<close> has the invariant of the machine and memory safety of
    every run; \<open>Semantics\<close> what instructions compute, calls and returns, \<open>SETJMP\<close> and \<open>LONGJMP\<close>, and the
    coroutine records.

  \<^bold>\<open>The guest libraries\<close>, \<open>runtime/lib\<close>.
  \<^item> \<open>Int64\<close>: \<open>cvm_int64.h\<close> and \<open>cvm_int64_rt.c\<close>, refined by 64-bit words.
  \<^item> \<open>Float64\<close>: \<open>cvm_float64.h\<close> and \<open>cvm_float64_rt.c\<close>. \<open>Float64_Correct\<close>, \<open>Float64_Theorems\<close>, \<open>Float64_Arith\<close>
    and \<open>Float64_Div\<close> have comparisons, conversions, products and quotients, and where sums and subnormal
    operands are not those of IEEE 754.

  \<^bold>\<open>The translator\<close>, \<open>tools/translator/translator.c\<close>.
  \<^item> \<open>Bin_Writer\<close>: \<open>write_bin\<close>, the seal and the option parsers. \<open>Bin_Payloads\<close>, \<open>Bin_Round_Trip\<close>, \<open>Bin_Loads\<close>
    and \<open>Bin_Theorems\<close> lead to the round trip through \<open>cvm_load_ex\<close>.
  \<^item> \<open>Fenwick\<close>, \<open>Branches\<close>: encoders, queued branches, relaxation with its binary indexed tree (behind the locale
    \<open>position_counter\<close>) and resolution. \<open>Codegen\<close> and \<open>Branches_Correct\<close> run the result on the machine.
  \<^item> \<open>Llvm\<close>: the LLVM-C functions the translator reads its input with are the fields of a record \<open>llvm\<close>, an
    argument of the definitions that use them; nothing is assumed of them but what a theorem names. The
    predicates of the translator on LLVM values are definitions.
  \<^item> \<open>Gen\<close>: the state \<open>struct cg\<close> with value table, registers and tables; \<open>Value_Table\<close> shows that the hash table
    answers like a linear scan. \<open>Emit\<close> and \<open>Calls\<close>: operands, frame access, caller-save spilling, calls.
  \<^item> \<open>Prealloc\<close>, \<open>Liveness\<close>: the phases of \<open>cg_function\<close> before emission: offsets of stack objects, registers and
    slots of values, liveness, the registers to save at calls and the layout of the frame. \<open>Liveness_Correct\<close>
    reads the bit sets as sets, \<open>Live_Paths\<close> relates the loop to the paths of the function, \<open>Live_Theorems\<close>
    shows that what is recorded for a call is what is read later on, and \<open>Spill\<close> that the code around a call
    keeps these registers on the machine.
  \<^item> \<open>Lanes\<close>, \<open>Scalar\<close>: the cases of the instruction switch, one definition per case: words, binary32, memory,
    addresses, branches, switches and returns, vectors lane by lane, and the slot of a spilled result. \<open>Narrow\<close> has
    arithmetic on the low bits of words, \<open>Scalar_Correct\<close> and \<open>Scalar_Theorems\<close> show that the code emitted for
    integer instructions computes their results on the machine.
  \<^item> \<open>Intrinsics\<close>: the calls that become inline code, by name. \<open>Globals\<close>: \<open>cg_collect_globals\<close>, the layout of the DATA
    section and \<open>serialize_constant\<close>. \<open>Calling\<close>: \<open>cg_emit_f64_def\<close>, system calls, \<open>cg_emit_user_call\<close>, \<open>invoke\<close> with
    the handler frame and the tables of landing pads. \<open>Function\<close>: the prologue, the choice of the lowering of an
    instruction, and \<open>cg_function\<close> from its parts. \<open>Globals_Correct\<close> shows where globals are and that each holds the
    bytes of its own initialiser; \<open>Counting\<close> and \<open>Count_Theorems\<close> that the emitted loops that count bits end, with the count.
  \<^item> \<open>Wide\<close>: the lowering of instructions with a 64-bit result. \<open>Straight\<close> runs straight-line code, \<open>Frame\<close> the
    frame helpers; \<open>Wide_Correct\<close>, \<open>Wide_Ops\<close>, \<open>Wide_Shifts\<close> and \<open>Wide_Theorems\<close> show that the code emitted for
    an instruction computes its 64-bit value on the machine. \<open>Small_Module\<close> has small modules for the
    concrete instances.
  \<^item> \<open>Phi_Moves\<close>: the moves of the phis on an edge, collected and ordered with two scratch registers.
    \<open>Phi_Sequence\<close> has the invariant of the ordering on indices, \<open>Phi_Start\<close> the tables it starts from,
    \<open>Phi_Theorems\<close> the emitted code on the machine: all destinations change at once.

  \<^bold>\<open>Conventions.\<close> A \<open>struct\<close> is a record, an \<open>enum\<close> a datatype, \<open>uint32_t\<close> a 32-bit word; \<open>int32_t\<close> values are
  words read with \<open>sint\<close>. In the runtime a C function yields \<open>Ret\<close>, \<open>Fail\<close> with its error code, or \<open>Undef\<close>
  for undefined behaviour; a step of the machine is \<open>Running\<close>, a result, a trap or \<open>Crash\<close>. In the translator
  \<open>None\<close> is an error: the flag \<open>had_error\<close> is never cleared and every caller gives up. Failing allocations of the
  translator end its process and are not modelled. Diagnostic and profiling code is compiled out in the
  default build and left out here.

  \<^bold>\<open>Loops and bounds.\<close> Loops over lists and counters are structural or have a measure. Where a loop might not
  end (the interpreter, probing, relaxation, liveness, the ordering of moves) the model is a
  \<open>partial_function\<close> or counts steps, and that it ends is proved: a run of the machine returns exactly when some
  number of instructions suffices; probing ends at an empty slot, which a table at most half full has;
  relaxation extends each branch at most once; the liveness sets only grow, within 256 bits per block; a loop
  that counts bits takes at most 166 instructions; the ordering of moves emits each move once
  and breaks each cycle once.

  \<^bold>\<open>Not modelled.\<close> The checks of a whole module before emission and the driver of the translator, which are
  LLVM calls and file input and output; of initialisers, the bytes written behind the end of the DATA section
  within the capacity of its buffer; the tools \<open>cvm-cc\<close>, \<open>cvm-dis\<close> and the fuzzers; the guest allocator
  \<open>cvm_alloc.h\<close>; the diagnostics of \<open>cvm.c\<close>; the vendored \<open>libcxx\<close> and \<open>picolibc\<close>. Text output, clocks and
  processes are outside of the model.
\<close>

end
